(* ===== verification/Prelude.thy ===== *)
theory Prelude
  imports Main "HOL-Library.Word" "HOL-Library.AList"
begin

text \<open>
  Shared vocabulary of the development: machine integer types, the three-way outcome of
  fallible Rust code (a value, an error, a panic), hash maps, and the generic facts about
  them that the component theories use.
\<close>

section \<open>Types\<close>

text \<open>
  Unsigned integers are words of their width. A signed integer is a word of the same width
  read with \<open>sint\<close>; casts between the two (\<open>as\<close>) are then the identity. Byte strings are
  lists of bytes. \<open>usize\<close> values are natural numbers, since the code uses them only as
  lengths and indices of collections in memory.
\<close>

type_synonym u8 = "8 word"
type_synonym u32 = "32 word"
type_synonym u64 = "64 word"
type_synonym u128 = "128 word"
type_synonym i128 = "128 word"
type_synonym bytes = "u8 list"

named_theorems res_simps \<open>equations about outcomes\<close>
named_theorems hm_simps \<open>equations about hash maps\<close>
named_theorems arith_facts \<open>what checked arithmetic returns, over the integers\<close>

section \<open>Outcomes\<close>

text \<open>
  A call returns a value (\<open>Ok\<close>), returns an error value (\<open>Err\<close>) or panics
  (\<open>unwrap\<close> of a \<open>None\<close>, a failed \<open>assert!\<close>, \<open>unreachable!\<close>).
\<close>

datatype ('a, 'e) res = Ok 'a | Err 'e | Panic

fun res_bind :: "('a, 'e) res \<Rightarrow> ('a \<Rightarrow> ('b, 'e) res) \<Rightarrow> ('b, 'e) res" where
  "res_bind (Ok x) f = f x"
| "res_bind (Err e) f = Err e"
| "res_bind Panic f = Panic"

fun ok_or :: "'a option \<Rightarrow> 'e \<Rightarrow> ('a, 'e) res" where
  "ok_or (Some x) e = Ok x"
| "ok_or None e = Err e"

fun unwrap :: "'a option \<Rightarrow> ('a, 'e) res" where
  "unwrap (Some x) = Ok x"
| "unwrap None = Panic"

lemma res_bind_Ok [res_simps]:
  "(res_bind m f = Ok y) = (\<exists>x. m = Ok x \<and> f x = Ok y)"
  by (cases m) auto

lemma res_bind_Err [res_simps]:
  "(res_bind m f = Err e) = (m = Err e \<or> (\<exists>x. m = Ok x \<and> f x = Err e))"
  by (cases m) auto

lemma res_bind_Panic [res_simps]:
  "(res_bind m f = Panic) = (m = Panic \<or> (\<exists>x. m = Ok x \<and> f x = Panic))"
  by (cases m) auto

lemma ok_or_Ok [res_simps]: "(ok_or x e = Ok y) = (x = Some y)"
  by (cases x) auto

lemma ok_or_Err [res_simps]: "(ok_or x e = Err d) = (x = None \<and> e = d)"
  by (cases x) auto

lemma ok_or_not_Panic [simp, res_simps]: "ok_or x e \<noteq> Panic"
  by (cases x) auto

lemma unwrap_Ok [res_simps]: "(unwrap x = Ok y) = (x = Some y)"
  by (cases x) auto

lemma unwrap_not_Err [simp, res_simps]: "unwrap x \<noteq> Err e"
  by (cases x) auto

lemma unwrap_Panic [res_simps]: "(unwrap x = Panic) = (x = None)"
  by (cases x) auto

text \<open>How the body of a loop ends: by \<open>continue\<close>, at its end, or by \<open>break\<close>.\<close>

datatype 's loop_flow = Continue 's | Next 's | Break 's

fun flow_state :: "'s loop_flow \<Rightarrow> 's" where
  "flow_state (Continue s) = s"
| "flow_state (Next s) = s"
| "flow_state (Break s) = s"

section \<open>Hash maps\<close>

text \<open>
  A hash map is an association list whose keys are distinct (\<open>hm_ok\<close>). The position of an
  entry stands for its place in the iteration order, which the code never relies on: the
  theorems hold for every list that represents the map.
\<close>

type_synonym ('k, 'v) hmap = "('k \<times> 'v) list"

definition hm_get :: "('k, 'v) hmap \<Rightarrow> 'k \<Rightarrow> 'v option" where
  "hm_get m k = map_of m k"

definition hm_contains :: "('k, 'v) hmap \<Rightarrow> 'k \<Rightarrow> bool" where
  "hm_contains m k = (hm_get m k \<noteq> None)"

definition hm_insert :: "'k \<Rightarrow> 'v \<Rightarrow> ('k, 'v) hmap \<Rightarrow> ('k, 'v) hmap" where
  "hm_insert k v m = AList.update k v m"

definition hm_remove :: "'k \<Rightarrow> ('k, 'v) hmap \<Rightarrow> ('k, 'v) hmap" where
  "hm_remove k m = AList.delete k m"

definition hm_ok :: "('k, 'v) hmap \<Rightarrow> bool" where
  "hm_ok m = distinct (map fst m)"

text \<open>The sum of an integer weight over the values of a map.\<close>

definition hm_total :: "('v \<Rightarrow> int) \<Rightarrow> ('k, 'v) hmap \<Rightarrow> int" where
  "hm_total f m = sum_list (map (f \<circ> snd) m)"

lemma hm_get_Nil [simp, hm_simps]: "hm_get [] k = None"
  by (simp add: hm_get_def)

lemma hm_get_map_of: "hm_get m = map_of m"
  by (rule ext) (simp add: hm_get_def)

lemma hm_ok_Nil [simp, hm_simps]: "hm_ok []"
  by (simp add: hm_ok_def)

lemma hm_total_Nil [simp, hm_simps]: "hm_total f [] = 0"
  by (simp add: hm_total_def)

lemma hm_get_insert [hm_simps]: "hm_get (hm_insert k v m) k' = (if k' = k then Some v else hm_get m k')"
  by (simp add: hm_get_def hm_insert_def update_conv')

lemma hm_get_remove [hm_simps]: "hm_get (hm_remove k m) k' = (if k' = k then None else hm_get m k')"
  by (simp add: hm_get_def hm_remove_def delete_conv')

lemma hm_ok_insert [simp, hm_simps]: "hm_ok m \<Longrightarrow> hm_ok (hm_insert k v m)"
  by (simp add: hm_ok_def hm_insert_def distinct_update)

lemma hm_ok_remove [simp, hm_simps]: "hm_ok m \<Longrightarrow> hm_ok (hm_remove k m)"
  by (simp add: hm_ok_def hm_remove_def distinct_delete)

lemma hm_insert_fresh: "hm_get m k = None \<Longrightarrow> hm_insert k v m = m @ [(k, v)]"
  by (induction m) (auto simp: hm_insert_def hm_get_def split: if_splits)

lemma hm_insert_not_Nil: "hm_insert k v m \<noteq> []"
  by (cases m) (auto simp: hm_insert_def)

lemma hm_total_insert_fresh: "hm_get m k = None \<Longrightarrow> hm_total f (hm_insert k v m) = hm_total f m + f v"
  by (simp add: hm_insert_fresh hm_total_def)

lemma hm_remove_absent: "hm_get m k = None \<Longrightarrow> hm_remove k m = m"
  by (induction m) (auto simp: hm_remove_def hm_get_def split: if_splits)

lemma hm_total_remove:
  "hm_ok m \<Longrightarrow> hm_get m k = Some v \<Longrightarrow> hm_total f (hm_remove k m) = hm_total f m - f v"
proof (induction m)
  case Nil
  then show ?case by simp
next
  case (Cons p m)
  obtain j w where p: "p = (j, w)" by (cases p)
  show ?case
  proof (cases "j = k")
    case True
    with Cons.prems p have "hm_get m k = None"
      by (auto simp: hm_ok_def hm_get_def map_of_eq_None_iff)
    then have "AList.delete k m = m"
      by (simp add: hm_remove_absent flip: hm_remove_def)
    with True Cons.prems p show ?thesis
      by (simp add: hm_remove_def hm_get_def hm_total_def)
  next
    case False
    with Cons.prems p have "hm_ok m" "hm_get m k = Some v"
      by (auto simp: hm_ok_def hm_get_def)
    then have "hm_total f (hm_remove k m) = hm_total f m - f v"
      by (rule Cons.IH)
    with False p show ?thesis
      by (simp add: hm_remove_def hm_total_def)
  qed
qed

lemma hm_total_replace:
  "hm_ok m \<Longrightarrow> hm_get m k = Some v \<Longrightarrow> hm_total f (hm_insert k w m) = hm_total f m - f v + f w"
proof (induction m)
  case Nil
  then show ?case by simp
next
  case (Cons p m)
  obtain j x where p: "p = (j, x)" by (cases p)
  show ?case
  proof (cases "j = k")
    case True
    with Cons.prems p show ?thesis
      by (simp add: hm_insert_def hm_get_def hm_total_def)
  next
    case False
    with Cons.prems p have "hm_ok m" "hm_get m k = Some v"
      by (auto simp: hm_ok_def hm_get_def)
    then have "hm_total f (hm_insert k w m) = hm_total f m - f v + f w"
      by (rule Cons.IH)
    with False p show ?thesis
      by (simp add: hm_insert_def hm_total_def)
  qed
qed

lemma hm_get_in: "hm_get m k = Some v \<Longrightarrow> v \<in> snd ` set m"
  by (force simp: hm_get_def dest: map_of_SomeD)

lemma hm_total_nonneg: "(\<And>v. 0 \<le> f v) \<Longrightarrow> 0 \<le> hm_total f m"
  by (induction m) (auto simp: hm_total_def)

lemma hm_total_ge:
  assumes "\<And>v. 0 \<le> f v" and "hm_ok m" and "hm_get m k = Some v"
  shows "f v \<le> hm_total f m"
proof -
  have "0 \<le> hm_total f (hm_remove k m)"
    using assms(1) by (rule hm_total_nonneg)
  with hm_total_remove [OF assms(2,3), of f] show ?thesis by simp
qed

text \<open>
  \<open>retain\<close> with a closure that updates the values it keeps, and the update of every value in
  place.
\<close>

definition hm_retain :: "('v \<Rightarrow> 'v option) \<Rightarrow> ('k, 'v) hmap \<Rightarrow> ('k, 'v) hmap" where
  "hm_retain f m = List.map_filter (\<lambda>(k, v). map_option (Pair k) (f v)) m"

definition hm_map_values :: "('v \<Rightarrow> 'w) \<Rightarrow> ('k, 'v) hmap \<Rightarrow> ('k, 'w) hmap" where
  "hm_map_values f m = map (\<lambda>(k, v). (k, f v)) m"

lemma hm_retain_keys: "fst ` set (hm_retain f m) \<subseteq> fst ` set m"
  by (induction m) (auto simp: hm_retain_def List.map_filter_simps split: option.splits)

lemma hm_ok_retain [simp, hm_simps]: "hm_ok m \<Longrightarrow> hm_ok (hm_retain f m)"
proof (induction m)
  case (Cons p m)
  then have "fst p \<notin> fst ` set (hm_retain f m)" "hm_ok (hm_retain f m)"
    using hm_retain_keys [of f m] by (auto simp: hm_ok_def)
  then show ?case
    by (cases p) (auto simp: hm_ok_def hm_retain_def List.map_filter_simps split: option.splits)
qed (simp add: hm_retain_def List.map_filter_simps)

lemma hm_get_retain [hm_simps]: "hm_ok m \<Longrightarrow> hm_get (hm_retain f m) k = Option.bind (hm_get m k) f"
proof (induction m)
  case (Cons p m)
  obtain j v where p: "p = (j, v)" by (cases p)
  have ok: "hm_ok m" and fresh: "j \<notin> fst ` set m" using Cons.prems p by (auto simp: hm_ok_def)
  have "map_of (hm_retain f m) j = None"
    using fresh hm_retain_keys [of f m] by (auto simp: map_of_eq_None_iff)
  then show ?case using Cons.IH [OF ok] p
    by (auto simp: hm_retain_def List.map_filter_simps hm_get_def split: option.splits)
qed (simp add: hm_retain_def List.map_filter_simps)

lemma length_hm_retain: "length (hm_retain f m) \<le> length m"
  by (induction m) (auto simp: hm_retain_def List.map_filter_simps split: option.splits)

lemma hm_get_map_values [hm_simps]: "hm_get (hm_map_values f m) k = map_option f (hm_get m k)"
  by (induction m) (auto simp: hm_map_values_def hm_get_def)

lemma hm_ok_map_values [simp, hm_simps]: "hm_ok (hm_map_values f m) = hm_ok m"
  by (simp add: hm_ok_def hm_map_values_def comp_def case_prod_unfold)

lemma hm_get_key: "hm_get m k = Some v \<Longrightarrow> k \<in> fst ` set m"
  by (force simp: hm_get_def dest: map_of_SomeD)

lemma hm_get_of_key: "k \<in> fst ` set m \<Longrightarrow> \<exists>v. hm_get m k = Some v"
  by (auto simp: hm_get_def dest: weak_map_of_SomeI)

text \<open>The update of every value by a function of its key.\<close>

definition hm_map_entries :: "('k \<Rightarrow> 'v \<Rightarrow> 'w) \<Rightarrow> ('k, 'v) hmap \<Rightarrow> ('k, 'w) hmap" where
  "hm_map_entries g m = map (\<lambda>(k, v). (k, g k v)) m"

lemma hm_map_entries_simps [simp]:
  "hm_map_entries g [] = []"
  "hm_map_entries g ((k, v) # m) = (k, g k v) # hm_map_entries g m"
  "hm_map_entries g (m @ m') = hm_map_entries g m @ hm_map_entries g m'"
  by (simp_all add: hm_map_entries_def)

lemma hm_map_entries_keys [simp]: "fst ` set (hm_map_entries g m) = fst ` set m"
  by (force simp: hm_map_entries_def)

lemma hm_get_map_entries [hm_simps]: "hm_get (hm_map_entries g m) k = map_option (g k) (hm_get m k)"
  by (induction m) (auto simp: hm_get_def)

lemma hm_insert_map_entries: "hm_insert k (g k v) (hm_map_entries g m) = hm_map_entries g (hm_insert k v m)"
  by (induction m) (auto simp: hm_insert_def)

lemma hm_remove_map_entries: "hm_remove k (hm_map_entries g m) = hm_map_entries g (hm_remove k m)"
  by (induction m) (auto simp: hm_remove_def)

lemma hm_map_entries_cong:
  "(\<And>k v. (k, v) \<in> set m \<Longrightarrow> g k v = g' k v) \<Longrightarrow> hm_map_entries g m = hm_map_entries g' m"
  by (auto simp: hm_map_entries_def)

lemma hm_insert_same: "hm_get m k = Some v \<Longrightarrow> hm_insert k v m = m"
  by (induction m) (auto simp: hm_get_def hm_insert_def split: if_splits)

lemma length_hm_replace: "hm_get m k = Some v \<Longrightarrow> length (hm_insert k w m) = length m"
  by (induction m) (auto simp: hm_get_def hm_insert_def split: if_splits)

lemma hm_insert_twice [simp]: "hm_insert k v (hm_insert k w m) = hm_insert k v m"
  by (induction m) (auto simp: hm_insert_def)

lemma hm_replace_entry:
  assumes "hm_ok m" "hm_get m k = Some v"
  shows "hm_insert k w (hm_map_entries g m) = hm_map_entries (g(k := \<lambda>_. w)) m"
  using assms
proof (induction m)
  case (Cons p m)
  obtain j u where p: "p = (j, u)" by (cases p)
  show ?case
  proof (cases "j = k")
    case True
    then have "k \<notin> fst ` set m" using Cons.prems p by (auto simp: hm_ok_def)
    then have "hm_map_entries g m = hm_map_entries (g(k := \<lambda>_. w)) m"
      by (intro hm_map_entries_cong) (auto simp: image_iff)
    with True p show ?thesis by (simp add: hm_insert_def fun_upd_def)
  next
    case False
    with Cons p show ?thesis by (simp add: hm_ok_def hm_get_def hm_insert_def)
  qed
qed simp

lemma fold_hm_insert:
  "distinct (map fst m) \<Longrightarrow> fst ` set m \<inter> fst ` set acc = {} \<Longrightarrow>
     fold (\<lambda>(k, v) acc. hm_insert k (g k v) acc) m acc = acc @ hm_map_entries g m"
proof (induction m arbitrary: acc)
  case (Cons p m)
  obtain k v where p: "p = (k, v)" by (cases p)
  have "hm_get acc k = None" using Cons.prems p by (auto simp: hm_get_def map_of_eq_None_iff)
  then show ?case using Cons p by (simp add: hm_insert_fresh)
qed simp

lemma int_div_bounds:
  fixes x d :: int
  assumes "0 < d"
  shows "x div d * d \<le> x" and "x < (x div d + 1) * d"
proof -
  have "x div d * d + x mod d = x" by simp
  moreover have "0 \<le> x mod d" "x mod d < d" using assms by simp_all
  ultimately show "x div d * d \<le> x" "x < (x div d + 1) * d"
    unfolding distrib_right by linarith+
qed

end
