(* ===== verification/SafeArith.thy ===== *)
theory SafeArith
  imports Prelude "HOL-Library.Signed_Division"
begin

text \<open>
  Checked and saturating machine arithmetic. The first section models the operations of the
  Rust standard library at any width; the second translates
  \<open>components/common/src/safe_arithmetic.rs\<close>, which mixes signed and unsigned operands by
  splitting the unsigned one into two halves and a remainder.
\<close>

section \<open>The standard library's operations\<close>

definition i_max :: "'a::len itself \<Rightarrow> int" where
  "i_max t = 2 ^ (LENGTH('a) - 1) - 1"

definition i_min :: "'a::len itself \<Rightarrow> int" where
  "i_min t = - (2 ^ (LENGTH('a) - 1))"

definition i_fits :: "'a::len itself \<Rightarrow> int \<Rightarrow> bool" where
  "i_fits t x = (i_min t \<le> x \<and> x \<le> i_max t)"

definition u_fits :: "'a::len itself \<Rightarrow> int \<Rightarrow> bool" where
  "u_fits t x = (0 \<le> x \<and> x < 2 ^ LENGTH('a))"

definition u_checked_add :: "'a::len word \<Rightarrow> 'a word \<Rightarrow> 'a word option" where
  "u_checked_add a b = (if u_fits TYPE('a) (uint a + uint b) then Some (a + b) else None)"

definition u_checked_sub :: "'a::len word \<Rightarrow> 'a word \<Rightarrow> 'a word option" where
  "u_checked_sub a b = (if u_fits TYPE('a) (uint a - uint b) then Some (a - b) else None)"

definition u_saturating_add :: "'a::len word \<Rightarrow> 'a word \<Rightarrow> 'a word" where
  "u_saturating_add a b = (if u_fits TYPE('a) (uint a + uint b) then a + b else - 1)"

definition u_saturating_sub :: "'a::len word \<Rightarrow> 'a word \<Rightarrow> 'a word" where
  "u_saturating_sub a b = (if u_fits TYPE('a) (uint a - uint b) then a - b else 0)"

definition i_checked_add :: "'a::len word \<Rightarrow> 'a word \<Rightarrow> 'a word option" where
  "i_checked_add a b = (if i_fits TYPE('a) (sint a + sint b) then Some (a + b) else None)"

definition i_checked_sub :: "'a::len word \<Rightarrow> 'a word \<Rightarrow> 'a word option" where
  "i_checked_sub a b = (if i_fits TYPE('a) (sint a - sint b) then Some (a - b) else None)"

definition i_checked_neg :: "'a::len word \<Rightarrow> 'a word option" where
  "i_checked_neg a = (if i_fits TYPE('a) (- sint a) then Some (- a) else None)"

definition i_clamp :: "'a::len itself \<Rightarrow> int \<Rightarrow> int" where
  "i_clamp t x = (if x < i_min t then i_min t else if i_max t < x then i_max t else x)"

definition i_saturating_add :: "'a::len word \<Rightarrow> 'a word \<Rightarrow> 'a word" where
  "i_saturating_add a b = word_of_int (i_clamp TYPE('a) (sint a + sint b))"

definition i_saturating_sub :: "'a::len word \<Rightarrow> 'a word \<Rightarrow> 'a word" where
  "i_saturating_sub a b = word_of_int (i_clamp TYPE('a) (sint a - sint b))"

text \<open>Signed division truncates towards zero; the remainder has the sign of the dividend.\<close>

definition i_div :: "'a::len word \<Rightarrow> 'a word \<Rightarrow> 'a word" where
  "i_div a b = word_of_int (sint a sdiv sint b)"

definition i_rem :: "'a::len word \<Rightarrow> 'a word \<Rightarrow> 'a word" where
  "i_rem a b = word_of_int (sint a smod sint b)"

lemma sint_fits [simp]: "i_fits TYPE('a) (sint (a :: 'a::len word))"
  using sint_ge [of a] sint_lt [of a] by (simp add: i_fits_def i_min_def i_max_def)

lemma uint_fits [simp]: "u_fits TYPE('a) (uint (a :: 'a::len word))"
  using uint_lt2p [of a] by (simp add: u_fits_def)

lemma sint_word_of_int_fits [simp]:
  "i_fits TYPE('a) x \<Longrightarrow> sint (word_of_int x :: 'a::len word) = x"
proof -
  assume "i_fits TYPE('a) x"
  then have "- (2 ^ (LENGTH('a) - 1)) \<le> x" "x < 2 ^ (LENGTH('a) - 1)"
    by (auto simp: i_fits_def i_min_def i_max_def)
  then show ?thesis
    by (simp add: signed_of_int signed_take_bit_int_eq_self)
qed

lemma uint_word_of_int_fits [simp]:
  "u_fits TYPE('a) x \<Longrightarrow> uint (word_of_int x :: 'a::len word) = x"
  by (auto simp: u_fits_def uint_word_of_int)

lemma sint_add_fits:
  "i_fits TYPE('a) (sint a + sint b) \<Longrightarrow> sint (a + b :: 'a::len word) = sint a + sint b"
  using sint_word_of_int_fits [where 'a = 'a, of "sint a + sint b"] by (simp flip: wi_hom_add)

lemma sint_sub_fits:
  "i_fits TYPE('a) (sint a - sint b) \<Longrightarrow> sint (a - b :: 'a::len word) = sint a - sint b"
  using sint_word_of_int_fits [where 'a = 'a, of "sint a - sint b"] by (simp flip: wi_hom_sub)

lemma sint_neg_fits:
  "i_fits TYPE('a) (- sint a) \<Longrightarrow> sint (- a :: 'a::len word) = - sint a"
  using sint_word_of_int_fits [where 'a = 'a, of "- sint a"] by (simp flip: wi_hom_neg)

lemma uint_add_fits:
  "u_fits TYPE('a) (uint a + uint b) \<Longrightarrow> uint (a + b :: 'a::len word) = uint a + uint b"
  using uint_word_of_int_fits [where 'a = 'a, of "uint a + uint b"] by (simp flip: wi_hom_add)

lemma uint_sub_fits:
  "u_fits TYPE('a) (uint a - uint b) \<Longrightarrow> uint (a - b :: 'a::len word) = uint a - uint b"
  using uint_word_of_int_fits [where 'a = 'a, of "uint a - uint b"] by (simp flip: wi_hom_sub)

text \<open>What each checked operation returns, read over the integers.\<close>

lemma u_checked_add_Some [arith_facts]:
  "(u_checked_add a b = Some c) = (uint (c :: 'a::len word) = uint a + uint b)"
proof
  assume "u_checked_add a b = Some c"
  then show "uint c = uint a + uint b"
    by (auto simp: u_checked_add_def uint_add_fits split: if_splits)
next
  assume *: "uint c = uint a + uint b"
  then have fits: "u_fits TYPE('a) (uint a + uint b)"
    using uint_fits [of c] by simp
  with * have "c = a + b"
    by (simp add: word_uint_eq_iff uint_add_fits)
  with fits show "u_checked_add a b = Some c"
    by (simp add: u_checked_add_def)
qed

lemma u_checked_sub_Some [arith_facts]:
  "(u_checked_sub a b = Some c) = (uint (c :: 'a::len word) = uint a - uint b)"
proof
  assume "u_checked_sub a b = Some c"
  then show "uint c = uint a - uint b"
    by (auto simp: u_checked_sub_def uint_sub_fits split: if_splits)
next
  assume *: "uint c = uint a - uint b"
  then have fits: "u_fits TYPE('a) (uint a - uint b)"
    using uint_fits [of c] by simp
  with * have "c = a - b"
    by (simp add: word_uint_eq_iff uint_sub_fits)
  with fits show "u_checked_sub a b = Some c"
    by (simp add: u_checked_sub_def)
qed

lemma u_checked_add_None [arith_facts]:
  "(u_checked_add a b = None) = (2 ^ LENGTH('a) \<le> uint a + uint (b :: 'a::len word))"
  by (auto simp: u_checked_add_def u_fits_def)

lemma u_checked_sub_None [arith_facts]:
  "(u_checked_sub a b = None) = (uint a < uint (b :: 'a::len word))"
  using uint_lt2p [of a] by (auto simp: u_checked_sub_def u_fits_def)

lemma i_checked_add_Some [arith_facts]:
  "(i_checked_add a b = Some c) = (sint (c :: 'a::len word) = sint a + sint b)"
proof
  assume "i_checked_add a b = Some c"
  then show "sint c = sint a + sint b"
    by (auto simp: i_checked_add_def sint_add_fits split: if_splits)
next
  assume *: "sint c = sint a + sint b"
  then have fits: "i_fits TYPE('a) (sint a + sint b)"
    using sint_fits [of c] by simp
  with * have "c = a + b"
    by (simp add: word_eq_iff_signed [where 'a = int] sint_add_fits)
  with fits show "i_checked_add a b = Some c"
    by (simp add: i_checked_add_def)
qed

lemma i_checked_sub_Some [arith_facts]:
  "(i_checked_sub a b = Some c) = (sint (c :: 'a::len word) = sint a - sint b)"
proof
  assume "i_checked_sub a b = Some c"
  then show "sint c = sint a - sint b"
    by (auto simp: i_checked_sub_def sint_sub_fits split: if_splits)
next
  assume *: "sint c = sint a - sint b"
  then have fits: "i_fits TYPE('a) (sint a - sint b)"
    using sint_fits [of c] by simp
  with * have "c = a - b"
    by (simp add: word_eq_iff_signed [where 'a = int] sint_sub_fits)
  with fits show "i_checked_sub a b = Some c"
    by (simp add: i_checked_sub_def)
qed

lemma i_checked_neg_Some [arith_facts]:
  "(i_checked_neg a = Some c) = (sint (c :: 'a::len word) = - sint a)"
proof
  assume "i_checked_neg a = Some c"
  then show "sint c = - sint a"
    by (auto simp: i_checked_neg_def sint_neg_fits split: if_splits)
next
  assume *: "sint c = - sint a"
  then have fits: "i_fits TYPE('a) (- sint a)"
    using sint_fits [of c] by simp
  with * have "c = - a"
    by (simp add: word_eq_iff_signed [where 'a = int] sint_neg_fits)
  with fits show "i_checked_neg a = Some c"
    by (simp add: i_checked_neg_def)
qed

lemma i_clamp_fits [simp]: "i_fits TYPE('a::len) (i_clamp TYPE('a) x)"
  by (auto simp: i_clamp_def i_fits_def i_min_def i_max_def)

lemma sint_saturating_add [arith_facts]:
  "sint (i_saturating_add a b) = i_clamp TYPE('a) (sint a + sint (b :: 'a::len word))"
  by (simp add: i_saturating_add_def)

lemma sint_saturating_sub [arith_facts]:
  "sint (i_saturating_sub a b) = i_clamp TYPE('a) (sint a - sint (b :: 'a::len word))"
  by (simp add: i_saturating_sub_def)

section \<open>Mixed signed and unsigned operands (\<open>safe_arithmetic.rs\<close>)\<close>

text \<open>The trait \<open>SafeSignedArithmetic\<close>: a signed receiver and an unsigned operand.\<close>

definition safe_abs :: "'a::len word \<Rightarrow> 'a word" where
  "safe_abs a =
     (if 0 \<le> sint a then a
      else let s_half = i_div a 2; s_rem = i_rem a 2 in (- s_half) * 2 + (- s_rem))"

definition checked_add_unsigned :: "'a::len word \<Rightarrow> 'a word \<Rightarrow> 'a word option" where
  "checked_add_unsigned a u =
     (let u_half = u div 2; u_rem = u mod 2 in
      Option.bind (i_checked_add a u_half) (\<lambda>b.
      Option.bind (i_checked_add b u_half) (\<lambda>c. i_checked_add c u_rem)))"

definition checked_sub_unsigned :: "'a::len word \<Rightarrow> 'a word \<Rightarrow> 'a word option" where
  "checked_sub_unsigned a u =
     (let u_half = u div 2; u_rem = u mod 2 in
      Option.bind (i_checked_sub a u_half) (\<lambda>b.
      Option.bind (i_checked_sub b u_half) (\<lambda>c. i_checked_sub c u_rem)))"

definition saturating_add_unsigned :: "'a::len word \<Rightarrow> 'a word \<Rightarrow> 'a word" where
  "saturating_add_unsigned a u =
     (let u_half = u div 2; u_rem = u mod 2 in
      i_saturating_add (i_saturating_add (i_saturating_add a u_half) u_half) u_rem)"

definition saturating_sub_unsigned :: "'a::len word \<Rightarrow> 'a word \<Rightarrow> 'a word" where
  "saturating_sub_unsigned a u =
     (let u_half = u div 2; u_rem = u mod 2 in
      i_saturating_sub (i_saturating_sub (i_saturating_sub a u_half) u_half) u_rem)"

text \<open>The trait \<open>SafeUnsignedArithmetic\<close>: an unsigned receiver and a signed operand.\<close>

definition checked_add_signed :: "'a::len word \<Rightarrow> 'a word \<Rightarrow> 'a word option" where
  "checked_add_signed a s = (if 0 \<le> sint s then u_checked_add a s else u_checked_sub a (safe_abs s))"

definition checked_sub_signed :: "'a::len word \<Rightarrow> 'a word \<Rightarrow> 'a word option" where
  "checked_sub_signed a s = (if 0 \<le> sint s then u_checked_sub a s else u_checked_add a (safe_abs s))"

definition saturating_add_signed :: "'a::len word \<Rightarrow> 'a word \<Rightarrow> 'a word" where
  "saturating_add_signed a s =
     (if 0 \<le> sint s then u_saturating_add a s else u_saturating_sub a (safe_abs s))"

definition saturating_sub_signed :: "'a::len word \<Rightarrow> 'a word \<Rightarrow> 'a word" where
  "saturating_sub_signed a s =
     (if 0 \<le> sint s then u_saturating_sub a s else u_saturating_add a (safe_abs s))"

text \<open>
  The code instantiates the traits at widths 8 to 128. Both halves of an unsigned value are
  small enough to be read as non-negative signed values from width 3 on; at width 2 the
  literal \<open>2\<close> itself is negative as a signed value.
\<close>

lemma two_halves: "(2 :: int) ^ LENGTH('a::len) = 2 * 2 ^ (LENGTH('a) - 1)"
  using len_gt_0 [where 'a = 'a] by (cases "LENGTH('a)") simp_all

lemma sint_small: "uint a < 2 ^ (LENGTH('a) - 1) \<Longrightarrow> sint a = uint (a :: 'a::len word)"
  using sint_word_of_int_fits [where 'a = 'a, of "uint a"] uint_ge_0 [of a]
    zero_le_power [of "2 :: int" "LENGTH('a) - 1"]
  by (simp add: i_fits_def i_min_def i_max_def)

lemma sint_nonneg: "0 \<le> sint a \<Longrightarrow> sint a = uint (a :: 'a::len word)"
  using uint_word_of_int_fits [where 'a = 'a, of "sint a"] sint_lt [of a]
    two_halves [where 'a = 'a] by (simp add: u_fits_def)

lemma sint_nonneg_bound: "0 \<le> sint a \<Longrightarrow> uint (a :: 'a::len word) < 2 ^ (LENGTH('a) - 1)"
  using sint_nonneg [of a] sint_lt [of a] by simp

lemma two_word:
  assumes "2 < LENGTH('a::len)"
  shows "uint (2 :: 'a word) = 2" and "sint (2 :: 'a word) = 2"
proof -
  have "(2 :: int) ^ 2 \<le> 2 ^ (LENGTH('a) - 1)"
    using assms by (intro power_increasing) auto
  then have small: "(2 :: int) < 2 ^ (LENGTH('a) - 1)" by simp
  then have "u_fits TYPE('a) 2" "i_fits TYPE('a) 2"
    using two_halves [where 'a = 'a] by (auto simp: u_fits_def i_fits_def i_min_def i_max_def)
  from uint_word_of_int_fits [OF this(1)] sint_word_of_int_fits [OF this(2)]
  show "uint (2 :: 'a word) = 2" "sint (2 :: 'a word) = 2" by simp_all
qed

lemma sint_half:
  assumes "2 < LENGTH('a::len)"
  shows "sint (u div 2 :: 'a word) = uint u div 2"
proof -
  have "uint (u div 2) = uint u div 2"
    using assms by (simp add: uint_div_distrib two_word)
  moreover have "uint u div 2 < 2 ^ (LENGTH('a) - 1)"
    using uint_lt2p [of u] two_halves [where 'a = 'a] by simp
  ultimately show ?thesis by (simp add: sint_small)
qed

lemma sint_parity:
  assumes "2 < LENGTH('a::len)"
  shows "sint (u mod 2 :: 'a word) = uint u mod 2"
proof -
  have "uint (u mod 2) = uint u mod 2"
    using assms by (simp add: uint_mod_distrib two_word)
  moreover have "(2 :: int) ^ 1 \<le> 2 ^ (LENGTH('a) - 1)"
    using assms by (intro power_increasing) auto
  then have "uint u mod 2 < 2 ^ (LENGTH('a) - 1)"
    using pos_mod_bound [of 2 "uint u"] by simp
  ultimately show ?thesis by (simp add: sint_small)
qed

lemma half_half_parity: "(u :: int) div 2 + u div 2 + u mod 2 = u"
  by presburger

lemma i_fits_between: "i_fits t a \<Longrightarrow> i_fits t c \<Longrightarrow> a \<le> b \<Longrightarrow> b \<le> c \<Longrightarrow> i_fits t b"
  by (simp add: i_fits_def)

text \<open>
  The three-step additions and subtractions are exact: no intermediate sum leaves the range
  when the final one is in it, because all three addends have the same sign.
\<close>

lemma checked_add_chain:
  fixes a :: "'a::len word"
  assumes nonneg: "0 \<le> sint p" "0 \<le> sint q" "0 \<le> sint r"
  shows "(Option.bind (i_checked_add a p) (\<lambda>b. Option.bind (i_checked_add b q) (\<lambda>c. i_checked_add c r)) = Some d)
    = (sint d = sint a + sint p + sint q + sint r)" (is "?chain = ?sum")
proof
  assume ?chain
  then show ?sum by (auto simp: bind_eq_Some_conv i_checked_add_Some)
next
  assume d: ?sum
  have fits: "i_fits TYPE('a) (sint a + sint p)" "i_fits TYPE('a) (sint a + sint p + sint q)"
    by (rule i_fits_between [OF sint_fits [of a] sint_fits [of d]]; use d nonneg in linarith)+
  have p: "i_checked_add a p = Some (a + p)" and sp: "sint (a + p) = sint a + sint p"
    using fits(1) by (simp_all add: i_checked_add_def sint_add_fits)
  have q: "i_checked_add (a + p) q = Some (a + p + q)" and sq: "sint (a + p + q) = sint a + sint p + sint q"
    using fits(2) sp by (simp_all add: i_checked_add_def sint_add_fits)
  have "i_checked_add (a + p + q) r = Some d"
    using d sq by (simp add: i_checked_add_Some)
  with p q show ?chain by simp
qed

lemma checked_sub_chain:
  fixes a :: "'a::len word"
  assumes nonneg: "0 \<le> sint p" "0 \<le> sint q" "0 \<le> sint r"
  shows "(Option.bind (i_checked_sub a p) (\<lambda>b. Option.bind (i_checked_sub b q) (\<lambda>c. i_checked_sub c r)) = Some d)
    = (sint d = sint a - sint p - sint q - sint r)" (is "?chain = ?diff")
proof
  assume ?chain
  then show ?diff by (auto simp: bind_eq_Some_conv i_checked_sub_Some)
next
  assume d: ?diff
  have fits: "i_fits TYPE('a) (sint a - sint p)" "i_fits TYPE('a) (sint a - sint p - sint q)"
    by (rule i_fits_between [OF sint_fits [of d] sint_fits [of a]]; use d nonneg in linarith)+
  have p: "i_checked_sub a p = Some (a - p)" and sp: "sint (a - p) = sint a - sint p"
    using fits(1) by (simp_all add: i_checked_sub_def sint_sub_fits)
  have q: "i_checked_sub (a - p) q = Some (a - p - q)" and sq: "sint (a - p - q) = sint a - sint p - sint q"
    using fits(2) sp by (simp_all add: i_checked_sub_def sint_sub_fits)
  have "i_checked_sub (a - p - q) r = Some d"
    using d sq by (simp add: i_checked_sub_Some)
  with p q show ?chain by simp
qed

lemma sint_split:
  assumes "2 < LENGTH('a::len)"
  shows "0 \<le> sint (u div 2 :: 'a word)" "0 \<le> sint (u mod 2 :: 'a word)"
    and "sint (u div 2) + sint (u div 2) + sint (u mod 2) = uint u"
  using half_half_parity [of "uint u"] by (simp_all add: sint_half [OF assms] sint_parity [OF assms])

lemma checked_add_unsigned_Some:
  assumes "2 < LENGTH('a::len)"
  shows "(checked_add_unsigned a u = Some c) = (sint (c :: 'a word) = sint a + uint u)"
  using sint_split [OF assms, of u]
  by (simp add: checked_add_unsigned_def Let_def checked_add_chain add.assoc)

lemma checked_sub_unsigned_Some:
  assumes "2 < LENGTH('a::len)"
  shows "(checked_sub_unsigned a u = Some c) = (sint (c :: 'a word) = sint a - uint u)"
  using sint_split [OF assms, of u]
  by (simp add: checked_sub_unsigned_def Let_def checked_sub_chain diff_diff_eq)

lemma fits_word_exists: "i_fits TYPE('a) x \<Longrightarrow> \<exists>c :: 'a::len word. sint c = x"
  using sint_word_of_int_fits by blast

lemma checked_add_unsigned_None:
  assumes "2 < LENGTH('a::len)"
  shows "(checked_add_unsigned a u = None) = (\<not> i_fits TYPE('a) (sint a + uint (u :: 'a word)))"
proof -
  have "(checked_add_unsigned a u \<noteq> None) = (\<exists>c :: 'a word. sint c = sint a + uint u)"
    using checked_add_unsigned_Some [OF assms] by auto
  then show ?thesis
    using fits_word_exists [where 'a = 'a, of "sint a + uint u"] sint_fits [where 'a = 'a] by metis
qed

lemma checked_sub_unsigned_None:
  assumes "2 < LENGTH('a::len)"
  shows "(checked_sub_unsigned a u = None) = (\<not> i_fits TYPE('a) (sint a - uint (u :: 'a word)))"
proof -
  have "(checked_sub_unsigned a u \<noteq> None) = (\<exists>c :: 'a word. sint c = sint a - uint u)"
    using checked_sub_unsigned_Some [OF assms] by auto
  then show ?thesis
    using fits_word_exists [where 'a = 'a, of "sint a - uint u"] sint_fits [where 'a = 'a] by metis
qed

lemma i_min_le_max: "i_min (t :: 'a::len itself) \<le> i_max t"
  by (simp add: i_min_def i_max_def)

lemma i_clamp_add: "i_min t \<le> x \<Longrightarrow> 0 \<le> y \<Longrightarrow> i_clamp t (i_clamp t x + y) = i_clamp t (x + y)"
  using i_min_le_max [of t] by (auto simp: i_clamp_def)

lemma i_clamp_sub: "x \<le> i_max t \<Longrightarrow> 0 \<le> y \<Longrightarrow> i_clamp t (i_clamp t x - y) = i_clamp t (x - y)"
  using i_min_le_max [of t] by (auto simp: i_clamp_def)

lemma saturating_add_chain:
  fixes a :: "'a::len word"
  assumes "0 \<le> sint p" "0 \<le> sint q" "0 \<le> sint r"
  shows "sint (i_saturating_add (i_saturating_add (i_saturating_add a p) q) r)
    = i_clamp TYPE('a) (sint a + sint p + sint q + sint r)"
  using assms sint_fits [of a]
  by (simp add: sint_saturating_add i_clamp_add i_fits_def)

lemma saturating_sub_chain:
  fixes a :: "'a::len word"
  assumes "0 \<le> sint p" "0 \<le> sint q" "0 \<le> sint r"
  shows "sint (i_saturating_sub (i_saturating_sub (i_saturating_sub a p) q) r)
    = i_clamp TYPE('a) (sint a - sint p - sint q - sint r)"
  using assms sint_fits [of a]
  by (simp add: sint_saturating_sub i_clamp_sub i_fits_def)

lemma sint_saturating_add_unsigned:
  assumes "2 < LENGTH('a::len)"
  shows "sint (saturating_add_unsigned a u) = i_clamp TYPE('a) (sint a + uint (u :: 'a word))"
  using sint_split [OF assms, of u]
  by (simp add: saturating_add_unsigned_def Let_def saturating_add_chain add.assoc)

lemma sint_saturating_sub_unsigned:
  assumes "2 < LENGTH('a::len)"
  shows "sint (saturating_sub_unsigned a u) = i_clamp TYPE('a) (sint a - uint (u :: 'a word))"
  using sint_split [OF assms, of u]
  by (simp add: saturating_sub_unsigned_def Let_def saturating_sub_chain diff_diff_eq)

lemma uint_safe_abs:
  assumes "2 < LENGTH('a::len)"
  shows "uint (safe_abs (a :: 'a word)) = \<bar>sint a\<bar>"
proof (cases "0 \<le> sint a")
  case True
  then show ?thesis by (simp add: safe_abs_def sint_nonneg)
next
  case False
  have "(- i_div a 2) * 2 + (- i_rem a 2) = word_of_int (- (sint a sdiv 2) * 2 - sint a smod 2)"
    unfolding i_div_def i_rem_def two_word(2) [OF assms] by (simp add: wi_hom_syms)
  also have "- (sint a sdiv 2) * 2 - sint a smod 2 = - sint a"
    using sdiv_mult_smod_eq [of "sint a" 2] by simp
  finally have "safe_abs a = word_of_int (- sint a)"
    using False by (simp add: safe_abs_def Let_def)
  moreover have "u_fits TYPE('a) (- sint a)"
    using False sint_ge [of a] two_halves [where 'a = 'a]
      zero_less_power [of "2 :: int" "LENGTH('a) - 1"] by (simp add: u_fits_def)
  ultimately show ?thesis
    using False uint_word_of_int_fits [where 'a = 'a, of "- sint a"] by (simp del: wi_hom_neg)
qed

section \<open>Consequences at the width of credits\<close>

lemma two_lt_128: "2 < LENGTH(128)" by simp

lemmas i128_add_Some [arith_facts] = checked_add_unsigned_Some [OF two_lt_128]
lemmas i128_sub_Some [arith_facts] = checked_sub_unsigned_Some [OF two_lt_128]
lemmas i128_add_None [arith_facts] = checked_add_unsigned_None [OF two_lt_128]
lemmas i128_sub_None [arith_facts] = checked_sub_unsigned_None [OF two_lt_128]

lemma i128_range: "- (2 ^ 127) \<le> sint (a :: i128)" "sint (a :: i128) \<le> 2 ^ 127 - 1"
  using sint_ge [of a] sint_lt [of a] by simp_all

lemma u128_range: "0 \<le> uint (a :: u128)" "uint (a :: u128) \<le> 2 ^ 128 - 1"
  using uint_lt2p [of a] by simp_all

lemma i128_fits: "i_fits TYPE(128) x = (- (2 ^ 127) \<le> x \<and> x \<le> 2 ^ 127 - 1)"
  by (simp add: i_fits_def i_min_def i_max_def)

section \<open>Properties\<close>

text \<open>
  The mixed signed/unsigned operations compute exactly: the checked ones return the
  integer result when it is representable and \<open>None\<close> otherwise, the saturating ones return
  it clamped to the range of the type, and \<open>safe_abs\<close> is the absolute value even at the
  least representable integer.
\<close>

theorem safe_signed_arithmetic_exact:
  fixes a u :: "'a::len word"
  assumes "2 < LENGTH('a)"
  shows "map_option sint (checked_add_unsigned a u) =
      (if i_fits TYPE('a) (sint a + uint u) then Some (sint a + uint u) else None)
    \<and> map_option sint (checked_sub_unsigned a u) =
      (if i_fits TYPE('a) (sint a - uint u) then Some (sint a - uint u) else None)
    \<and> sint (saturating_add_unsigned a u) = i_clamp TYPE('a) (sint a + uint u)
    \<and> sint (saturating_sub_unsigned a u) = i_clamp TYPE('a) (sint a - uint u)
    \<and> uint (safe_abs a) = \<bar>sint a\<bar>"
  using checked_add_unsigned_None [OF assms, of a u] checked_sub_unsigned_None [OF assms, of a u]
  by (cases "checked_add_unsigned a u"; cases "checked_sub_unsigned a u")
     (auto simp: checked_add_unsigned_Some [OF assms] checked_sub_unsigned_Some [OF assms]
       sint_saturating_add_unsigned [OF assms] sint_saturating_sub_unsigned [OF assms]
       uint_safe_abs [OF assms])

theorem safe_signed_arithmetic_exact_witness:
  "2 < LENGTH(8) \<and> map_option sint (checked_add_unsigned (-2 :: 8 word) 255) = None
    \<and> map_option sint (checked_sub_unsigned (-127 :: 8 word) 1) = Some (-128)
    \<and> uint (safe_abs (-128 :: 8 word)) = 128"
  using safe_signed_arithmetic_exact [of "-2 :: 8 word" 255]
    safe_signed_arithmetic_exact [of "-127 :: 8 word" 1] safe_signed_arithmetic_exact [of "-128 :: 8 word" 0]
  by (simp add: i_fits_def i_min_def i_max_def)

text \<open>
  The unsigned operations with a signed operand are exact as well: checked ones return the
  integer result when it is representable as an unsigned value, saturating ones stop at zero
  and at the greatest value.
\<close>

theorem safe_unsigned_arithmetic_exact:
  fixes a s :: "'a::len word"
  assumes "2 < LENGTH('a)"
  shows "map_option uint (checked_add_signed a s) =
      (if u_fits TYPE('a) (uint a + sint s) then Some (uint a + sint s) else None)
    \<and> map_option uint (checked_sub_signed a s) =
      (if u_fits TYPE('a) (uint a - sint s) then Some (uint a - sint s) else None)
    \<and> uint (saturating_add_signed a s) = max 0 (min (2 ^ LENGTH('a) - 1) (uint a + sint s))
    \<and> uint (saturating_sub_signed a s) = max 0 (min (2 ^ LENGTH('a) - 1) (uint a - sint s))"
proof -
  have add: "map_option uint (u_checked_add a b) =
      (if u_fits TYPE('a) (uint a + uint b) then Some (uint a + uint b) else None)" for b
    by (simp add: u_checked_add_def uint_add_fits)
  have sub: "map_option uint (u_checked_sub a b) =
      (if u_fits TYPE('a) (uint a - uint b) then Some (uint a - uint b) else None)" for b
    by (simp add: u_checked_sub_def uint_sub_fits)
  have sadd: "uint (u_saturating_add a b) = max 0 (min (2 ^ LENGTH('a) - 1) (uint a + uint b))" for b
    by (auto simp: u_saturating_add_def uint_add_fits u_fits_def unsigned_minus_1_eq_mask
        mask_eq_exp_minus_1)
  have ssub: "uint (u_saturating_sub a b) = max 0 (min (2 ^ LENGTH('a) - 1) (uint a - uint b))" for b
    using uint_lt2p [of a] by (auto simp: u_saturating_sub_def uint_sub_fits u_fits_def)
  show ?thesis
  proof (cases "0 \<le> sint s")
    case True
    then have "sint s = uint s" by (rule sint_nonneg)
    then show ?thesis using True
      by (simp only: checked_add_signed_def checked_sub_signed_def saturating_add_signed_def
          saturating_sub_signed_def if_True add sub sadd ssub simp_thms)
  next
    case False
    then have "uint a + sint s = uint a - uint (safe_abs s)" "uint a - sint s = uint a + uint (safe_abs s)"
      by (simp_all add: uint_safe_abs [OF assms])
    then show ?thesis using False
      by (simp only: checked_add_signed_def checked_sub_signed_def saturating_add_signed_def
          saturating_sub_signed_def if_False add sub sadd ssub simp_thms)
  qed
qed

theorem safe_unsigned_arithmetic_exact_witness:
  "2 < LENGTH(8) \<and> map_option uint (checked_add_signed (3 :: 8 word) (-1)) = Some 2
    \<and> map_option uint (checked_sub_signed (250 :: 8 word) (-128)) = None
    \<and> uint (saturating_add_signed (7 :: 8 word) (-8)) = 0"
  using safe_unsigned_arithmetic_exact [of "3 :: 8 word" "-1"]
    safe_unsigned_arithmetic_exact [of "250 :: 8 word" "-128"] safe_unsigned_arithmetic_exact [of "7 :: 8 word" "-8"]
  by (simp add: u_fits_def)

end
