(* ===== verification/Messages.thy ===== *)
theory Messages
  imports SafeArith
begin

text \<open>
  The messages two friends exchange and the data they carry, from
  \<open>components/proto/src/funder/messages.rs\<close> and \<open>components/funder/src/credit_calc.rs\<close>:
  routes, payment operations, the move token, forwarding rates and the credit calculator.
\<close>

section \<open>Identifiers\<close>

text \<open>The fixed-size byte arrays of the \<open>crypto\<close> component.\<close>

type_synonym public_key = bytes
type_synonym signature = bytes
type_synonym uid = bytes
type_synonym hash_result = bytes
type_synonym hashed_lock = bytes
type_synonym plain_lock = bytes
type_synonym invoice_id = bytes
type_synonym payment_id = bytes
type_synonym rand_value = bytes

definition PUBLIC_KEY_LEN :: nat where "PUBLIC_KEY_LEN = 32"
definition SIGNATURE_LEN :: nat where "SIGNATURE_LEN = 64"
definition UID_LEN :: nat where "UID_LEN = 16"
definition HASH_RESULT_LEN :: nat where "HASH_RESULT_LEN = 32"
definition RAND_VALUE_LEN :: nat where "RAND_VALUE_LEN = 16"

section \<open>Routes\<close>

definition MAX_ROUTE_LEN :: nat where "MAX_ROUTE_LEN = 32"

record friends_route =
  public_keys :: "public_key list"

text \<open>The loop of \<open>is_valid\<close>: insert keys one by one, \<open>None\<close> at the first repetition.\<close>

fun insert_seen :: "public_key set \<Rightarrow> public_key list \<Rightarrow> public_key set option" where
  "insert_seen seen [] = Some seen"
| "insert_seen seen (pk # pks) = (if pk \<in> seen then None else insert_seen (insert pk seen) pks)"

definition route_is_valid :: "friends_route \<Rightarrow> bool" where
  "route_is_valid route =
     (let pks = public_keys route in
      if length pks < 2 \<or> MAX_ROUTE_LEN < length pks then False
      else case insert_seen {} (take (length pks - 1) pks) of
             None \<Rightarrow> False
           | Some seen \<Rightarrow>
               let last_pk = pks ! (length pks - 1) in
               if last_pk = pks ! 0 then True else last_pk \<notin> seen)"

fun find_pk_pair_from :: "nat \<Rightarrow> public_key list \<Rightarrow> public_key \<Rightarrow> public_key \<Rightarrow> nat option" where
  "find_pk_pair_from i (a # b # pks) pk1 pk2 =
     (if pk1 = a \<and> pk2 = b then Some i else find_pk_pair_from (Suc i) (b # pks) pk1 pk2)"
| "find_pk_pair_from i _ pk1 pk2 = None"

definition find_pk_pair :: "friends_route \<Rightarrow> public_key \<Rightarrow> public_key \<Rightarrow> nat option" where
  "find_pk_pair route pk1 pk2 = find_pk_pair_from 0 (public_keys route) pk1 pk2"

fun position_from :: "nat \<Rightarrow> public_key list \<Rightarrow> public_key \<Rightarrow> nat option" where
  "position_from i [] pk = None"
| "position_from i (x # xs) pk = (if x = pk then Some i else position_from (Suc i) xs pk)"

definition pk_to_index :: "friends_route \<Rightarrow> public_key \<Rightarrow> nat option" where
  "pk_to_index route pk = position_from 0 (public_keys route) pk"

definition index_to_pk :: "friends_route \<Rightarrow> nat \<Rightarrow> public_key option" where
  "index_to_pk route i = (if i < length (public_keys route) then Some (public_keys route ! i) else None)"

definition route_len :: "friends_route \<Rightarrow> nat" where
  "route_len route = length (public_keys route)"

definition route_is_empty :: "friends_route \<Rightarrow> bool" where
  "route_is_empty route = (public_keys route = [])"

section \<open>Payment operations\<close>

record request_send_funds_op =
  rq_request_id :: uid
  rq_src_hashed_lock :: hashed_lock
  rq_route :: friends_route
  rq_dest_payment :: u128
  rq_total_dest_payment :: u128
  rq_invoice_id :: invoice_id
  rq_left_fees :: u128

record 's response_send_funds_op =
  rs_request_id :: uid
  rs_dest_hashed_lock :: hashed_lock
  rs_rand_nonce :: rand_value
  rs_signature :: 's

record cancel_send_funds_op =
  cn_request_id :: uid

record collect_send_funds_op =
  cl_request_id :: uid
  cl_src_plain_lock :: plain_lock
  cl_dest_plain_lock :: plain_lock

datatype friend_tc_op =
    EnableRequests
  | DisableRequests
  | SetRemoteMaxDebt u128
  | RequestSendFunds request_send_funds_op
  | ResponseSendFunds "signature response_send_funds_op"
  | CancelSendFunds cancel_send_funds_op
  | CollectSendFunds collect_send_funds_op

datatype transaction_stage = StageRequest | StageResponse hashed_lock

record pending_transaction =
  pt_request_id :: uid
  pt_route :: friends_route
  pt_dest_payment :: u128
  pt_total_dest_payment :: u128
  pt_invoice_id :: invoice_id
  pt_left_fees :: u128
  pt_src_hashed_lock :: hashed_lock
  pt_stage :: transaction_stage

datatype requests_status = Open | Closed

fun is_open :: "requests_status \<Rightarrow> bool" where
  "is_open Open = True"
| "is_open Closed = False"

text \<open>From \<open>components/funder/src/types.rs\<close>.\<close>

definition create_pending_transaction :: "request_send_funds_op \<Rightarrow> pending_transaction" where
  "create_pending_transaction rq =
     \<lparr> pt_request_id = rq_request_id rq, pt_route = rq_route rq,
       pt_dest_payment = rq_dest_payment rq, pt_total_dest_payment = rq_total_dest_payment rq,
       pt_invoice_id = rq_invoice_id rq, pt_left_fees = rq_left_fees rq,
       pt_src_hashed_lock = rq_src_hashed_lock rq, pt_stage = StageRequest \<rparr>"

definition create_cancel_send_funds :: "uid \<Rightarrow> cancel_send_funds_op" where
  "create_cancel_send_funds request_id = \<lparr> cn_request_id = request_id \<rparr>"

section \<open>The move token and channel reset terms\<close>

record 'b relay_address =
  ra_public_key :: public_key
  ra_address :: 'b

record 'b named_relay_address =
  nra_public_key :: public_key
  nra_address :: 'b
  nra_name :: string

definition relay_of_named :: "'b named_relay_address \<Rightarrow> 'b relay_address" where
  "relay_of_named n = \<lparr> ra_public_key = nra_public_key n, ra_address = nra_address n \<rparr>"

record ('b, 's) move_token =
  mt_operations :: "friend_tc_op list"
  mt_opt_local_relays :: "'b relay_address list option"
  mt_old_token :: signature
  mt_local_public_key :: public_key
  mt_remote_public_key :: public_key
  mt_inconsistency_counter :: u64
  mt_move_token_counter :: u128
  mt_balance :: i128
  mt_local_pending_debt :: u128
  mt_remote_pending_debt :: u128
  mt_rand_nonce :: rand_value
  mt_new_token :: 's

record reset_terms =
  rt_reset_token :: signature
  rt_inconsistency_counter :: u64
  rt_balance_for_reset :: i128

record 'b move_token_request =
  mtr_friend_move_token :: "('b, signature) move_token"
  mtr_token_wanted :: bool

datatype 'b friend_message =
    FmMoveTokenRequest "'b move_token_request"
  | FmInconsistencyError reset_terms

section \<open>Forwarding rates\<close>

record rate =
  rate_mul :: u32
  rate_add :: u32

definition rate_new :: rate where
  "rate_new = \<lparr> rate_mul = 0, rate_add = 0 \<rparr>"

text \<open>\<open>BigUint\<close> values are integers; \<open>to_u128\<close> is \<open>None\<close> above the range.\<close>

definition to_u128 :: "int \<Rightarrow> u128 option" where
  "to_u128 x = (if u_fits TYPE(128) x then Some (word_of_int x) else None)"

definition calc_fee :: "rate \<Rightarrow> u128 \<Rightarrow> u128 option" where
  "calc_fee r dest_payment =
     (let mul_res = (uint dest_payment * uint (rate_mul r)) div 2 ^ 32 in
      to_u128 (mul_res + uint (rate_add r)))"

text \<open>The result is \<open>None\<close> where \<open>to_u128().unwrap()\<close> would panic.\<close>

definition max_payable :: "rate \<Rightarrow> u128 \<Rightarrow> u128 option" where
  "max_payable r capacity =
     (case u_checked_sub capacity (ucast (rate_add r)) of
        None \<Rightarrow> Some 0
      | Some c_minus_n \<Rightarrow>
          (let numerator = uint c_minus_n * 2 ^ 32;
               denominator = uint (rate_mul r) + 1 * 2 ^ 32
           in to_u128 (numerator div denominator)))"

section \<open>The credit calculator\<close>

definition credits_on_success :: "u32 \<Rightarrow> u32 \<Rightarrow> u128 \<Rightarrow> u128 option" where
  "credits_on_success node_index len dest_payment =
     (if node_index = 0 then None
      else Option.bind (u_checked_sub len node_index) (\<lambda>d.
           Option.bind (u_checked_sub d 1) (\<lambda>dist. u_checked_add (ucast dist) dest_payment)))"

definition credits_on_failure :: "u128 option" where
  "credits_on_failure = Some 0"

definition credits_to_freeze :: "u32 \<Rightarrow> u32 \<Rightarrow> u128 \<Rightarrow> u128 option" where
  "credits_to_freeze node_index len dest_payment = credits_on_success node_index len dest_payment"

record credit_calculator =
  cc_route_len :: u32
  cc_dest_payment :: u128

definition cc_credits_to_freeze :: "credit_calculator \<Rightarrow> u32 \<Rightarrow> u128 option" where
  "cc_credits_to_freeze c node_index = credits_to_freeze node_index (cc_route_len c) (cc_dest_payment c)"

definition cc_credits_on_success :: "credit_calculator \<Rightarrow> u32 \<Rightarrow> u128 option" where
  "cc_credits_on_success c node_index = credits_on_success node_index (cc_route_len c) (cc_dest_payment c)"

definition cc_credits_on_failure :: "credit_calculator \<Rightarrow> u32 \<Rightarrow> u32 \<Rightarrow> u128 option" where
  "cc_credits_on_failure c node_index reporting_node_index = credits_on_failure"

section \<open>Facts about routes\<close>

lemma insert_seen_eq:
  "insert_seen seen pks = (if distinct pks \<and> set pks \<inter> seen = {} then Some (seen \<union> set pks) else None)"
  by (induction pks arbitrary: seen) auto

lemma take_len_butlast: "take (length xs - 1) xs = butlast xs"
  by (simp add: butlast_conv_take)

lemma distinct_butlast_last: "xs \<noteq> [] \<Longrightarrow> distinct xs = (distinct (butlast xs) \<and> last xs \<notin> set (butlast xs))"
  by (induction xs rule: rev_induct) auto

lemma find_pk_pair_from_Some:
  "find_pk_pair_from j pks a b = Some i \<Longrightarrow>
     j \<le> i \<and> Suc (i - j) < length pks \<and> pks ! (i - j) = a \<and> pks ! Suc (i - j) = b
     \<and> (\<forall>k < i - j. \<not> (pks ! k = a \<and> pks ! Suc k = b))"
proof (induction j pks a b rule: find_pk_pair_from.induct)
  case (1 j x y pks a b)
  show ?case
  proof (cases "a = x \<and> b = y")
    case True
    with "1.prems" show ?thesis by simp
  next
    case False
    with "1" have IH: "Suc j \<le> i" "Suc (i - Suc j) < length (y # pks)" "(y # pks) ! (i - Suc j) = a"
      "(y # pks) ! Suc (i - Suc j) = b" "\<forall>k < i - Suc j. \<not> ((y # pks) ! k = a \<and> (y # pks) ! Suc k = b)"
      by auto
    then obtain d where d: "i = Suc (j + d)"
      by (metis add_Suc le_Suc_ex)
    have "\<not> ((x # y # pks) ! k = a \<and> (x # y # pks) ! Suc k = b)" if "k < Suc d" for k
      using that False IH(5) d by (cases k) auto
    with IH d show ?thesis by simp
  qed
qed auto

lemma find_pk_pair_from_None:
  "find_pk_pair_from j pks a b = None \<Longrightarrow> Suc k < length pks \<Longrightarrow> \<not> (pks ! k = a \<and> pks ! Suc k = b)"
proof (induction j pks a b arbitrary: k rule: find_pk_pair_from.induct)
  case (1 j x y pks a b)
  then show ?case by (cases k) (auto split: if_splits)
qed auto

lemma position_from_Some:
  "position_from j xs pk = Some i \<Longrightarrow>
     j \<le> i \<and> i - j < length xs \<and> xs ! (i - j) = pk \<and> (\<forall>k < i - j. xs ! k \<noteq> pk)"
proof (induction xs arbitrary: j)
  case Nil
  then show ?case by simp
next
  case (Cons x xs)
  show ?case
  proof (cases "x = pk")
    case True
    with Cons.prems show ?thesis by simp
  next
    case False
    with Cons have IH: "Suc j \<le> i" "i - Suc j < length xs" "xs ! (i - Suc j) = pk" "\<forall>k < i - Suc j. xs ! k \<noteq> pk"
      by auto
    then obtain d where d: "i = Suc (j + d)"
      by (metis add_Suc le_Suc_ex)
    have "(x # xs) ! k \<noteq> pk" if "k < Suc d" for k
      using that False IH(4) d by (cases k) auto
    with IH d show ?thesis by simp
  qed
qed

lemma position_from_None: "position_from j xs pk = None \<Longrightarrow> pk \<notin> set xs"
  by (induction xs arbitrary: j) (auto split: if_splits)

lemma route_is_valid_char:
  "route_is_valid route =
     (let pks = public_keys route in
      2 \<le> length pks \<and> length pks \<le> MAX_ROUTE_LEN \<and> distinct (butlast pks)
      \<and> (last pks = hd pks \<or> last pks \<notin> set (butlast pks)))"
proof -
  define pks where "pks = public_keys route"
  show ?thesis
  proof (cases "length pks < 2")
    case True
    then show ?thesis by (simp add: route_is_valid_def pks_def)
  next
    case False
    then have ne: "pks \<noteq> []" by auto
    have ends: "pks ! (length pks - 1) = last pks" "pks ! 0 = hd pks"
      using ne by (simp_all add: last_conv_nth hd_conv_nth)
    show ?thesis
      unfolding route_is_valid_def Let_def pks_def [symmetric] take_len_butlast ends
      using False by (auto simp: insert_seen_eq)
  qed
qed

lemma route_valid_length: "route_is_valid route \<Longrightarrow> 2 \<le> length (public_keys route)"
  by (simp add: route_is_valid_char Let_def)

lemma route_valid_of_distinct:
  assumes "distinct pks" and "2 \<le> length pks"
  shows "route_is_valid \<lparr> public_keys = pks \<rparr> \<longleftrightarrow> length pks \<le> MAX_ROUTE_LEN"
proof -
  have "pks = butlast pks @ [last pks]" using assms(2) by (cases pks) auto
  then have "distinct (butlast pks)" "last pks \<notin> set (butlast pks)" using assms(1) by (metis distinct_append, metis distinct_butlast not_distinct_conv_prefix)
  then show ?thesis using assms(2) by (simp add: route_is_valid_char)
qed

section \<open>Properties of routes\<close>

text \<open>
  A route is accepted exactly when it has between two and \<open>MAX_ROUTE_LEN\<close> keys and either
  repeats no key or is a single cycle, its last key equal to its first and no other repetition.
\<close>

theorem route_is_valid_iff:
  "route_is_valid route \<longleftrightarrow>
     (let pks = public_keys route in
      2 \<le> length pks \<and> length pks \<le> 32
      \<and> (distinct pks \<or> (distinct (butlast pks) \<and> last pks = hd pks)))"
proof (cases "public_keys route = []")
  case True
  then show ?thesis by (simp add: route_is_valid_char)
next
  case False
  then show ?thesis
    by (auto simp: route_is_valid_char Let_def distinct_butlast_last MAX_ROUTE_LEN_def)
qed

text \<open>
  \<open>find_pk_pair\<close> returns the first position at which the two keys stand next to each other
  on the route, and \<open>None\<close> exactly when there is no such position (in particular on a route
  with fewer than two keys).
\<close>

theorem find_pk_pair_spec:
  "case find_pk_pair route pk1 pk2 of
     Some i \<Rightarrow> Suc i < length (public_keys route) \<and> public_keys route ! i = pk1
       \<and> public_keys route ! Suc i = pk2
       \<and> (\<forall>k < i. \<not> (public_keys route ! k = pk1 \<and> public_keys route ! Suc k = pk2))
   | None \<Rightarrow> (\<forall>k. Suc k < length (public_keys route) \<longrightarrow>
       \<not> (public_keys route ! k = pk1 \<and> public_keys route ! Suc k = pk2))"
  using find_pk_pair_from_Some [of 0 "public_keys route" pk1 pk2]
    find_pk_pair_from_None [of 0 "public_keys route" pk1 pk2]
  by (auto simp: find_pk_pair_def split: option.split)

theorem find_pk_pair_spec_witness:
  "find_pk_pair \<lparr> public_keys = [[1], [2], [3]] \<rparr> [2] [3] = Some 1
    \<and> public_keys \<lparr> public_keys = [[1], [2], [3 :: u8]] \<rparr> ! Suc 1 = [3]"
  using find_pk_pair_spec [of "\<lparr> public_keys = [[1], [2], [3]] \<rparr>" "[2]" "[3]"]
  by (simp add: find_pk_pair_def)

lemma valid_route_inner_index:
  assumes "route_is_valid route" and "find_pk_pair route remote local = Some i"
    and "Suc (Suc i) < length (public_keys route)"
  shows "pk_to_index route local = Some (Suc i)"
proof -
  define pks where "pks = public_keys route"
  have pair: "Suc i < length pks" "pks ! Suc i = local"
    using find_pk_pair_from_Some [of 0 pks remote local i] assms(2)
    by (auto simp: find_pk_pair_def pks_def)
  have uniq: "distinct (butlast pks)"
    using assms(1) by (simp add: route_is_valid_char pks_def Let_def)
  obtain p where p: "position_from 0 pks local = Some p"
    using pair position_from_None by (metis nth_mem not_None_eq)
  with position_from_Some [OF p] have first: "p < length pks" "pks ! p = local" "\<forall>k < p. pks ! k \<noteq> local"
    by auto
  have "p \<le> Suc i" using first(3) pair by (metis not_le)
  then have "p < length (butlast pks)" "Suc i < length (butlast pks)"
    using assms(3) by (auto simp: pks_def)
  moreover from this have "butlast pks ! p = butlast pks ! Suc i"
    using first(2) pair(2) by (simp add: nth_butlast)
  ultimately have "p = Suc i"
    using uniq nth_eq_iff_index_eq by blast
  with p show ?thesis by (simp add: pk_to_index_def pks_def)
qed

section \<open>Properties of rates and of the credit calculator\<close>

lemma to_u128_Some: "to_u128 x = Some y \<longleftrightarrow> uint y = x"
  by (auto simp: to_u128_def)

lemma to_u128_fits: "u_fits TYPE(128) x \<Longrightarrow> \<exists>y. to_u128 x = Some y \<and> uint y = x"
  by (auto simp: to_u128_def)

lemma calc_fee_Some:
  "calc_fee r y = Some fee \<longleftrightarrow> uint fee = uint y * uint (rate_mul r) div 2 ^ 32 + uint (rate_add r)"
  by (simp add: calc_fee_def Let_def to_u128_Some)

lemma quotient_payable:
  fixes y m c :: int
  assumes "0 \<le> m" "y \<le> c * 2 ^ 32 div (m + 2 ^ 32)"
  shows "y + y * m div 2 ^ 32 \<le> c"
proof -
  have "y * (m + 2 ^ 32) \<le> c * 2 ^ 32 div (m + 2 ^ 32) * (m + 2 ^ 32)"
    using assms by (intro mult_right_mono) auto
  also have "\<dots> \<le> c * 2 ^ 32"
    using assms(1) by (intro int_div_bounds(1)) simp
  finally have "y * m \<le> (c - y) * 2 ^ 32" by (simp add: algebra_simps)
  then have "y * m div 2 ^ 32 \<le> (c - y) * 2 ^ 32 div 2 ^ 32"
    by (intro zdiv_mono1) auto
  then show ?thesis by simp
qed

lemma quotient_not_payable:
  fixes y m c :: int
  assumes "0 \<le> m" "c * 2 ^ 32 div (m + 2 ^ 32) + 2 \<le> y"
  shows "c < y + y * m div 2 ^ 32"
proof -
  define q where "q = c * 2 ^ 32 div (m + 2 ^ 32)"
  have "c * 2 ^ 32 < (q + 1) * (m + 2 ^ 32)"
    unfolding q_def using assms(1) by (intro int_div_bounds(2)) simp
  also have "\<dots> \<le> (y - 1) * (m + 2 ^ 32)"
    using assms by (intro mult_right_mono) (auto simp: q_def)
  finally have "(c - y + 1) * 2 ^ 32 < y * m"
    using assms(1) by (simp add: algebra_simps)
  then have "(c - y + 1) * 2 ^ 32 div 2 ^ 32 \<le> y * m div 2 ^ 32"
    by (intro zdiv_mono1) auto
  then show ?thesis by simp
qed

lemma uint_rate_add_ucast: "uint (ucast (n :: u32) :: u128) = uint n"
  using uint_lt2p [of n] by (simp add: unsigned_ucast_eq take_bit_int_eq_self)

lemma max_payable_Some:
  assumes "uint (rate_add r) \<le> uint capacity"
  shows "\<exists>x. max_payable r capacity = Some x \<and>
    uint x = (uint capacity - uint (rate_add r)) * 2 ^ 32 div (uint (rate_mul r) + 2 ^ 32)"
proof -
  obtain d where d: "u_checked_sub capacity (ucast (rate_add r)) = Some d"
    using assms u_checked_sub_None [of capacity "ucast (rate_add r)"]
    by (auto simp: uint_rate_add_ucast)
  then have ud: "uint d = uint capacity - uint (rate_add r)"
    by (simp add: u_checked_sub_Some uint_rate_add_ucast)
  have "uint d * 2 ^ 32 div (uint (rate_mul r) + 2 ^ 32) \<le> uint d * 2 ^ 32 div 2 ^ 32"
    by (intro zdiv_mono2) auto
  then have "u_fits TYPE(128) (uint d * 2 ^ 32 div (uint (rate_mul r) + 2 ^ 32))"
    using u128_range(2) [of d] by (simp add: u_fits_def pos_imp_zdiv_nonneg_iff add_nonneg_pos)
  from to_u128_fits [OF this] obtain x
    where "to_u128 (uint d * 2 ^ 32 div (uint (rate_mul r) + 2 ^ 32)) = Some x"
      "uint x = uint d * 2 ^ 32 div (uint (rate_mul r) + 2 ^ 32)"
    by blast
  with d ud show ?thesis by (simp add: max_payable_def Let_def)
qed

lemma max_payable_affordable:
  assumes "uint (rate_add r) \<le> uint capacity" "max_payable r capacity = Some x" "uint y \<le> uint x"
  shows "\<exists>fee. calc_fee r y = Some fee \<and> uint y + uint fee \<le> uint capacity"
proof -
  define m c where "m = uint (rate_mul r)" and "c = uint capacity - uint (rate_add r)"
  have m: "0 \<le> m" by (simp add: m_def)
  have ux: "uint x = c * 2 ^ 32 div (m + 2 ^ 32)"
    using max_payable_Some [OF assms(1)] assms(2) by (auto simp: m_def c_def)
  have le: "uint y + uint y * m div 2 ^ 32 \<le> c"
    using quotient_payable [OF m] assms(3) ux by simp
  have "0 \<le> uint y * m div 2 ^ 32" "0 \<le> uint y" "0 \<le> uint (rate_add r)"
    using m by (simp_all add: pos_imp_zdiv_nonneg_iff)
  moreover from this have "uint y * m div 2 ^ 32 + uint (rate_add r) < 2 ^ 128"
    using le u128_range(2) [of capacity] unfolding c_def by linarith
  ultimately have "u_fits TYPE(128) (uint y * m div 2 ^ 32 + uint (rate_add r))"
    by (simp add: u_fits_def)
  from to_u128_fits [OF this] show ?thesis
    using le by (auto simp: calc_fee_def Let_def m_def c_def)
qed

text \<open>
  \<open>max_payable\<close> never panics. When the capacity covers the flat fee, every payment up to the
  returned amount is affordable together with its fee, and every payment that exceeds it by two
  or more is not: the result is the greatest affordable payment or one less than it.
\<close>

theorem max_payable_correct:
  assumes "uint (rate_add r) \<le> uint capacity"
  shows "\<exists>x. max_payable r capacity = Some x
    \<and> (\<forall>y. uint y \<le> uint x \<longrightarrow>
         (\<exists>fee. calc_fee r y = Some fee \<and> uint y + uint fee \<le> uint capacity))
    \<and> (\<forall>y fee. uint x + 2 \<le> uint y \<and> calc_fee r y = Some fee \<longrightarrow>
         uint capacity < uint y + uint fee)"
proof -
  define m c where "m = uint (rate_mul r)" and "c = uint capacity - uint (rate_add r)"
  obtain x where x: "max_payable r capacity = Some x" and ux: "uint x = c * 2 ^ 32 div (m + 2 ^ 32)"
    using max_payable_Some [OF assms] by (auto simp: m_def c_def)
  have m: "0 \<le> m" by (simp add: m_def)
  have "\<exists>fee. calc_fee r y = Some fee \<and> uint y + uint fee \<le> uint capacity" if "uint y \<le> uint x" for y
    using max_payable_affordable [OF assms x that] .
  moreover have "uint capacity < uint y + uint fee"
    if "uint x + 2 \<le> uint y \<and> calc_fee r y = Some fee" for y fee
    using that quotient_not_payable [OF m, of c "uint y"] ux by (simp add: calc_fee_Some m_def c_def)
  ultimately show ?thesis using x by blast
qed

theorem max_payable_correct_witness:
  "uint (rate_add \<lparr> rate_mul = 2 ^ 31, rate_add = 5 \<rparr>) \<le> uint (305 :: u128)
    \<and> max_payable \<lparr> rate_mul = 2 ^ 31, rate_add = 5 \<rparr> 305 = Some 200
    \<and> (\<exists>fee. calc_fee \<lparr> rate_mul = 2 ^ 31, rate_add = 5 \<rparr> 200 = Some fee \<and> 200 + uint fee \<le> 305)"
proof -
  have h: "uint (rate_add \<lparr> rate_mul = 2 ^ 31, rate_add = 5 \<rparr>) \<le> uint (305 :: u128)" by simp
  have "max_payable \<lparr> rate_mul = 2 ^ 31, rate_add = 5 \<rparr> 305 = Some 200"
    by (simp add: max_payable_def u_checked_sub_def u_fits_def to_u128_def)
  with max_payable_correct [OF h] h show ?thesis by fastforce
qed

text \<open>
  The amount a node freezes or earns falls by exactly one credit per hop towards the
  destination, which is paid exactly \<open>dest_payment\<close>; the source earns nothing.
\<close>

theorem credits_on_success_telescopic:
  assumes "0 < uint i" and "uint i < uint len" and "uint len - 1 - uint i + uint p < 2 ^ 128"
  shows "map_option uint (credits_on_success i len p) = Some (uint len - 1 - uint i + uint p)
    \<and> credits_to_freeze i len p = credits_on_success i len p \<and> credits_on_success 0 len p = None"
proof -
  have nz: "i \<noteq> 0" using assms(1) by auto
  have "u_fits TYPE(32) (uint len - uint i)" "u_fits TYPE(32) (uint (len - i) - 1)"
    using assms(1,2) uint_lt2p [of len] by (auto simp: u_fits_def uint_sub_fits)
  then have dist: "u_checked_sub len i = Some (len - i)" "u_checked_sub (len - i) 1 = Some (len - i - 1)"
    and udist: "uint (len - i - 1) = uint len - 1 - uint i"
    by (simp_all add: u_checked_sub_def uint_sub_fits)
  have "u_fits TYPE(128) (uint len - 1 - uint i + uint p)"
    using assms by (simp add: u_fits_def)
  then show ?thesis
    using nz dist udist
    by (simp add: credits_on_success_def credits_to_freeze_def u_checked_add_def uint_rate_add_ucast
        uint_add_fits)
qed

theorem credits_on_success_telescopic_witness:
  "0 < uint (1 :: u32) \<and> map_option uint (credits_on_success 1 5 100) = Some 103
    \<and> map_option uint (credits_on_success 4 5 100) = Some 100"
  using credits_on_success_telescopic [of 1 5 100] credits_on_success_telescopic [of 4 5 100]
  by simp

end
