(* ===== verification/SignatureBuff.thy ===== *)
theory SignatureBuff
  imports Messages
begin

text \<open>
  Canonical serialization (\<open>components/common/src/canonical_serialize.rs\<close> and the
  \<open>CanonicalSerialize\<close> instances of \<open>messages.rs\<close>) and the byte strings that are hashed and
  signed (\<open>components/proto/src/funder/signature_buff.rs\<close>).

  Hashing and signature verification are the \<open>ring\<close> library's. They are the fields of a
  record \<open>crypto_api\<close> that every definition which needs them takes as an argument.
\<close>

section \<open>Cryptographic primitives\<close>

record crypto_api =
  sha_512_256 :: "bytes \<Rightarrow> bytes"
  verify_signature :: "bytes \<Rightarrow> public_key \<Rightarrow> signature \<Rightarrow> bool"

text \<open>\<open>PlainLock::hash\<close> of \<open>components/crypto/src/hash_lock.rs\<close>.\<close>

definition plain_lock_hash :: "crypto_api \<Rightarrow> plain_lock \<Rightarrow> hashed_lock" where
  "plain_lock_hash C lock = sha_512_256 C lock"

section \<open>Canonical serialization\<close>

text \<open>Big endian integers of a given number of bytes (the \<open>byteorder\<close> writers).\<close>

fun be_bytes :: "nat \<Rightarrow> nat \<Rightarrow> bytes" where
  "be_bytes 0 x = []"
| "be_bytes (Suc n) x = be_bytes n (x div 256) @ [of_nat (x mod 256)]"

definition write_u64 :: "u64 \<Rightarrow> bytes" where "write_u64 w = be_bytes 8 (unat w)"
definition write_u128 :: "u128 \<Rightarrow> bytes" where "write_u128 w = be_bytes 16 (unat w)"
definition write_i128 :: "i128 \<Rightarrow> bytes" where "write_i128 w = be_bytes 16 (unat w)"
definition write_len :: "nat \<Rightarrow> bytes" where "write_len n = be_bytes 8 n"

definition serialize_option :: "('t \<Rightarrow> bytes) \<Rightarrow> 't option \<Rightarrow> bytes" where
  "serialize_option ser t = (case t of None \<Rightarrow> [0] | Some x \<Rightarrow> 1 # ser x)"

definition serialize_vec :: "('t \<Rightarrow> bytes) \<Rightarrow> 't list \<Rightarrow> bytes" where
  "serialize_vec ser ts = write_len (length ts) @ concat (map ser ts)"

definition serialize_relay_address :: "('b \<Rightarrow> bytes) \<Rightarrow> 'b relay_address \<Rightarrow> bytes" where
  "serialize_relay_address ser r = ra_public_key r @ ser (ra_address r)"

definition serialize_route :: "friends_route \<Rightarrow> bytes" where
  "serialize_route route = write_len (length (public_keys route)) @ concat (public_keys route)"

definition serialize_request :: "request_send_funds_op \<Rightarrow> bytes" where
  "serialize_request rq =
     rq_request_id rq @ rq_src_hashed_lock rq @ serialize_route (rq_route rq)
     @ write_u128 (rq_dest_payment rq) @ rq_invoice_id rq"

definition serialize_response :: "signature response_send_funds_op \<Rightarrow> bytes" where
  "serialize_response rs =
     rs_request_id rs @ rs_dest_hashed_lock rs @ rs_rand_nonce rs @ rs_signature rs"

definition serialize_cancel :: "cancel_send_funds_op \<Rightarrow> bytes" where
  "serialize_cancel cn = cn_request_id cn"

definition serialize_collect :: "collect_send_funds_op \<Rightarrow> bytes" where
  "serialize_collect cl = cl_request_id cl @ cl_src_plain_lock cl @ cl_dest_plain_lock cl"

fun serialize_op :: "friend_tc_op \<Rightarrow> bytes" where
  "serialize_op EnableRequests = [0]"
| "serialize_op DisableRequests = [1]"
| "serialize_op (SetRemoteMaxDebt d) = 2 # write_u128 d"
| "serialize_op (RequestSendFunds rq) = 3 # serialize_request rq"
| "serialize_op (ResponseSendFunds rs) = 4 # serialize_response rs"
| "serialize_op (CancelSendFunds cn) = 5 # serialize_cancel cn"
| "serialize_op (CollectSendFunds cl) = 6 # serialize_collect cl"

definition route_hash :: "crypto_api \<Rightarrow> friends_route \<Rightarrow> hash_result" where
  "route_hash C route = sha_512_256 C (serialize_route route)"

section \<open>Responses, commits and receipts\<close>

text \<open>ASCII codes of the source's literals.\<close>

definition ascii :: "string \<Rightarrow> bytes" where
  "ascii cs = map of_char cs"

definition FUNDS_RESPONSE_PREFIX :: bytes where "FUNDS_RESPONSE_PREFIX = ascii ''FUND_RESPONSE''"
definition TOKEN_NEXT :: bytes where "TOKEN_NEXT = ascii ''NEXT''"

definition create_response_signature_buffer ::
  "crypto_api \<Rightarrow> 's response_send_funds_op \<Rightarrow> pending_transaction \<Rightarrow> bytes" where
  "create_response_signature_buffer C rs pt =
     (let inner_blob = pt_request_id pt @ route_hash C (pt_route pt) @ rs_rand_nonce rs in
      sha_512_256 C FUNDS_RESPONSE_PREFIX @ sha_512_256 C inner_blob
      @ pt_src_hashed_lock pt @ rs_dest_hashed_lock rs
      @ write_u128 (pt_dest_payment pt) @ write_u128 (pt_total_dest_payment pt) @ pt_invoice_id pt)"

record receipt =
  rc_response_hash :: hash_result
  rc_invoice_id :: invoice_id
  rc_src_plain_lock :: plain_lock
  rc_dest_plain_lock :: plain_lock
  rc_dest_payment :: u128
  rc_total_dest_payment :: u128
  rc_signature :: signature

record commit =
  cm_response_hash :: hash_result
  cm_dest_payment :: u128
  cm_src_plain_lock :: plain_lock
  cm_dest_hashed_lock :: hashed_lock
  cm_signature :: signature

record multi_commit =
  mcm_invoice_id :: invoice_id
  mcm_total_dest_payment :: u128
  mcm_commits :: "commit list"

definition prepare_receipt ::
  "crypto_api \<Rightarrow> collect_send_funds_op \<Rightarrow> signature response_send_funds_op \<Rightarrow> pending_transaction \<Rightarrow> receipt" where
  "prepare_receipt C cl rs pt =
     (let hash_buff = pt_request_id pt @ route_hash C (pt_route pt) @ rs_rand_nonce rs in
      \<lparr> rc_response_hash = sha_512_256 C hash_buff, rc_invoice_id = pt_invoice_id pt,
        rc_src_plain_lock = cl_src_plain_lock cl, rc_dest_plain_lock = cl_dest_plain_lock cl,
        rc_dest_payment = pt_dest_payment pt, rc_total_dest_payment = pt_total_dest_payment pt,
        rc_signature = rs_signature rs \<rparr>)"

definition verify_receipt :: "crypto_api \<Rightarrow> receipt \<Rightarrow> public_key \<Rightarrow> bool" where
  "verify_receipt C rc pk =
     (let data = sha_512_256 C FUNDS_RESPONSE_PREFIX @ rc_response_hash rc
        @ plain_lock_hash C (rc_src_plain_lock rc) @ plain_lock_hash C (rc_dest_plain_lock rc)
        @ write_u128 (rc_dest_payment rc) @ write_u128 (rc_total_dest_payment rc) @ rc_invoice_id rc
      in verify_signature C data pk (rc_signature rc))"

definition prepare_commit ::
  "crypto_api \<Rightarrow> signature response_send_funds_op \<Rightarrow> pending_transaction \<Rightarrow> plain_lock \<Rightarrow> commit" where
  "prepare_commit C rs pt src_plain_lock =
     (let hash_buff = pt_request_id pt @ route_hash C (pt_route pt) @ rs_rand_nonce rs in
      \<lparr> cm_response_hash = sha_512_256 C hash_buff, cm_dest_payment = pt_dest_payment pt,
        cm_src_plain_lock = src_plain_lock, cm_dest_hashed_lock = rs_dest_hashed_lock rs,
        cm_signature = rs_signature rs \<rparr>)"

definition verify_commit :: "crypto_api \<Rightarrow> commit \<Rightarrow> invoice_id \<Rightarrow> u128 \<Rightarrow> public_key \<Rightarrow> bool" where
  "verify_commit C cm invoice_id total_dest_payment pk =
     (let data = sha_512_256 C FUNDS_RESPONSE_PREFIX @ cm_response_hash cm
        @ plain_lock_hash C (cm_src_plain_lock cm) @ cm_dest_hashed_lock cm
        @ write_u128 (cm_dest_payment cm) @ write_u128 total_dest_payment @ invoice_id
      in verify_signature C data pk (cm_signature cm))"

text \<open>The summation loop of \<open>verify_multi_commit\<close>: \<open>None\<close> where it returns \<open>false\<close> early.\<close>

fun sum_commits :: "u128 \<Rightarrow> commit list \<Rightarrow> u128 option" where
  "sum_commits acc [] = Some acc"
| "sum_commits acc (cm # cms) =
     (case u_checked_add acc (cm_dest_payment cm) of
        None \<Rightarrow> None
      | Some acc' \<Rightarrow> sum_commits acc' cms)"

fun all_commits_valid :: "crypto_api \<Rightarrow> multi_commit \<Rightarrow> public_key \<Rightarrow> bool \<Rightarrow> commit list \<Rightarrow> bool" where
  "all_commits_valid C m pk is_sig_valid [] = is_sig_valid"
| "all_commits_valid C m pk is_sig_valid (cm # cms) =
     all_commits_valid C m pk
       (is_sig_valid \<and> verify_commit C cm (mcm_invoice_id m) (mcm_total_dest_payment m) pk) cms"

definition verify_multi_commit :: "crypto_api \<Rightarrow> multi_commit \<Rightarrow> public_key \<Rightarrow> bool" where
  "verify_multi_commit C m pk =
     (if \<not> all_commits_valid C m pk True (mcm_commits m) then False
      else case sum_commits 0 (mcm_commits m) of
             None \<Rightarrow> False
           | Some sum_credits \<Rightarrow> sum_credits = mcm_total_dest_payment m)"

section \<open>Move tokens\<close>

definition operations_hash :: "crypto_api \<Rightarrow> ('b, 's) move_token \<Rightarrow> hash_result" where
  "operations_hash C mt =
     sha_512_256 C (write_len (length (mt_operations mt)) @ concat (map serialize_op (mt_operations mt)))"

definition local_address_hash :: "crypto_api \<Rightarrow> ('b \<Rightarrow> bytes) \<Rightarrow> ('b, 's) move_token \<Rightarrow> hash_result" where
  "local_address_hash C ser mt =
     sha_512_256 C (serialize_option (serialize_vec (serialize_relay_address ser)) (mt_opt_local_relays mt))"

definition prefix_hash :: "crypto_api \<Rightarrow> ('b \<Rightarrow> bytes) \<Rightarrow> ('b, 's) move_token \<Rightarrow> hash_result" where
  "prefix_hash C ser mt =
     sha_512_256 C
       (mt_old_token mt @ write_len (length (mt_operations mt)) @ concat (map serialize_op (mt_operations mt))
        @ serialize_option (serialize_vec (serialize_relay_address ser)) (mt_opt_local_relays mt))"

definition move_token_signature_buff :: "crypto_api \<Rightarrow> ('b \<Rightarrow> bytes) \<Rightarrow> ('b, 's) move_token \<Rightarrow> bytes" where
  "move_token_signature_buff C ser mt =
     sha_512_256 C TOKEN_NEXT @ prefix_hash C ser mt
     @ mt_local_public_key mt @ mt_remote_public_key mt
     @ write_u64 (mt_inconsistency_counter mt) @ write_u128 (mt_move_token_counter mt)
     @ write_i128 (mt_balance mt) @ write_u128 (mt_local_pending_debt mt)
     @ write_u128 (mt_remote_pending_debt mt) @ mt_rand_nonce mt"

definition verify_move_token ::
  "crypto_api \<Rightarrow> ('b \<Rightarrow> bytes) \<Rightarrow> ('b, signature) move_token \<Rightarrow> public_key \<Rightarrow> bool" where
  "verify_move_token C ser mt pk =
     verify_signature C (move_token_signature_buff C ser mt) pk (mt_new_token mt)"

section \<open>Facts\<close>

lemma length_be_bytes [simp]: "length (be_bytes n x) = n"
  by (induction n arbitrary: x) auto

lemma byte_of_nat_inject: "x < 256 \<Longrightarrow> y < 256 \<Longrightarrow> (of_nat x :: u8) = of_nat y \<Longrightarrow> x = y"
  by (simp add: word_of_nat_eq_iff take_bit_nat_eq_self)

lemma be_bytes_inject:
  "be_bytes n x = be_bytes n y \<Longrightarrow> x < 256 ^ n \<Longrightarrow> y < 256 ^ n \<Longrightarrow> x = y"
proof (induction n arbitrary: x y)
  case 0
  then show ?case by simp
next
  case (Suc n)
  then have "be_bytes n (x div 256) = be_bytes n (y div 256)"
    and mods: "(of_nat (x mod 256) :: u8) = of_nat (y mod 256)"
    by simp_all
  with Suc have "x div 256 = y div 256"
    by (metis less_mult_imp_div_less mult.commute power_Suc)
  moreover have "x mod 256 = y mod 256"
    using mods by (intro byte_of_nat_inject) auto
  ultimately show ?case by (metis div_mult_mod_eq)
qed

lemma length_writers [simp]:
  "length (write_u64 a) = 8" "length (write_u128 b) = 16" "length (write_i128 c) = 16" "length (write_len n) = 8"
  by (simp_all add: write_u64_def write_u128_def write_i128_def write_len_def)

lemma write_u128_inject [simp]: "write_u128 a = write_u128 b \<longleftrightarrow> a = b"
  using be_bytes_inject [of 16 "unat a" "unat b"] unsigned_less [where 'a = nat, of a] unsigned_less [where 'a = nat, of b]
  by (auto simp: write_u128_def word_unat_eq_iff)

lemma write_u64_inject [simp]: "write_u64 a = write_u64 b \<longleftrightarrow> a = b"
  using be_bytes_inject [of 8 "unat a" "unat b"] unsigned_less [where 'a = nat, of a] unsigned_less [where 'a = nat, of b]
  by (auto simp: write_u64_def word_unat_eq_iff)

lemma write_i128_inject [simp]: "write_i128 a = write_i128 b \<longleftrightarrow> a = b"
  using write_u128_inject [of a b] by (simp add: write_u128_def write_i128_def)

lemma all_commits_valid_iff:
  "all_commits_valid C m pk b cms =
     (b \<and> (\<forall>cm \<in> set cms. verify_commit C cm (mcm_invoice_id m) (mcm_total_dest_payment m) pk))"
  by (induction cms arbitrary: b) auto

lemma sum_commits_Some:
  "sum_commits acc cms = Some s \<longleftrightarrow> uint s = uint acc + (\<Sum>cm \<leftarrow> cms. uint (cm_dest_payment cm))"
proof (induction cms arbitrary: acc)
  case Nil
  then show ?case by (auto simp: word_uint_eq_iff)
next
  case (Cons cm cms)
  show ?case
  proof (cases "u_checked_add acc (cm_dest_payment cm)")
    case None
    then have "2 ^ 128 \<le> uint acc + uint (cm_dest_payment cm)"
      by (simp add: u_checked_add_None)
    moreover have "0 \<le> (\<Sum>cm \<leftarrow> cms. uint (cm_dest_payment cm))"
      by (rule sum_list_nonneg) auto
    ultimately have "uint s \<noteq> uint acc + (uint (cm_dest_payment cm) + (\<Sum>cm \<leftarrow> cms. uint (cm_dest_payment cm)))"
      using u128_range(2) [of s] by linarith
    then show ?thesis using None by simp
  next
    case (Some acc')
    then have "uint acc' = uint acc + uint (cm_dest_payment cm)"
      by (simp add: u_checked_add_Some)
    then show ?thesis using Some Cons.IH by (simp add: add.assoc)
  qed
qed

lemma verify_prepared_receipt:
  assumes "verify_signature C (create_response_signature_buffer C rs pt) pk (rs_signature rs)"
    and "plain_lock_hash C (cl_src_plain_lock cl) = pt_src_hashed_lock pt"
    and "plain_lock_hash C (cl_dest_plain_lock cl) = rs_dest_hashed_lock rs"
  shows "verify_receipt C (prepare_receipt C cl rs pt) pk"
  using assms by (simp add: verify_receipt_def prepare_receipt_def create_response_signature_buffer_def Let_def)

lemma verify_prepared_commit:
  assumes "verify_signature C (create_response_signature_buffer C rs pt) pk (rs_signature rs)"
    and "plain_lock_hash C src_plain_lock = pt_src_hashed_lock pt"
  shows "verify_commit C (prepare_commit C rs pt src_plain_lock) (pt_invoice_id pt) (pt_total_dest_payment pt) pk"
  using assms by (simp add: verify_commit_def prepare_commit_def create_response_signature_buffer_def Let_def)

section \<open>Properties\<close>

text \<open>
  C39: A multi-commit is accepted exactly when every commit carries a signature of the seller over
  the response hash, the hash of the revealed source lock, the destination's lock, the payment of
  the commit, the stated total and the stated invoice, and the payments of the commits add up to
  the total over the integers, with no overflow. So commits prepared from responses that the
  seller signed for one invoice and one total, with the right source locks, are accepted exactly
  when the payments behind them add up to that total.
\<close>

theorem verify_multi_commit_iff:
  "(verify_multi_commit C m pk \<longleftrightarrow>
     (\<forall>cm \<in> set (mcm_commits m).
        verify_signature C
          (sha_512_256 C FUNDS_RESPONSE_PREFIX @ cm_response_hash cm
           @ plain_lock_hash C (cm_src_plain_lock cm) @ cm_dest_hashed_lock cm
           @ write_u128 (cm_dest_payment cm) @ write_u128 (mcm_total_dest_payment m) @ mcm_invoice_id m)
          pk (cm_signature cm))
     \<and> (\<Sum>cm \<leftarrow> mcm_commits m. uint (cm_dest_payment cm)) = uint (mcm_total_dest_payment m))
   \<and> ((\<forall>(rs, pt, lock) \<in> set paid.
        verify_signature C (create_response_signature_buffer C rs pt) pk (rs_signature rs)
        \<and> plain_lock_hash C lock = pt_src_hashed_lock pt
        \<and> pt_invoice_id pt = mcm_invoice_id m \<and> pt_total_dest_payment pt = mcm_total_dest_payment m)
      \<and> mcm_commits m = map (\<lambda>(rs, pt, lock). prepare_commit C rs pt lock) paid \<longrightarrow>
      (verify_multi_commit C m pk \<longleftrightarrow>
        (\<Sum>(rs, pt, lock) \<leftarrow> paid. uint (pt_dest_payment pt)) = uint (mcm_total_dest_payment m)))"
proof -
  have "(case sum_commits 0 (mcm_commits m) of None \<Rightarrow> False | Some s \<Rightarrow> s = mcm_total_dest_payment m)
    = (sum_commits 0 (mcm_commits m) = Some (mcm_total_dest_payment m))"
    by (auto split: option.split)
  then have iff: "verify_multi_commit C m pk \<longleftrightarrow>
      (\<forall>cm \<in> set (mcm_commits m). verify_commit C cm (mcm_invoice_id m) (mcm_total_dest_payment m) pk)
      \<and> (\<Sum>cm \<leftarrow> mcm_commits m. uint (cm_dest_payment cm)) = uint (mcm_total_dest_payment m)"
    by (auto simp: verify_multi_commit_def all_commits_valid_iff sum_commits_Some)
  moreover have "(\<Sum>(rs, pt, lock) \<leftarrow> paid. uint (pt_dest_payment pt)) =
      (\<Sum>cm \<leftarrow> map (\<lambda>(rs, pt, lock). prepare_commit C rs pt lock) paid. uint (cm_dest_payment cm))"
    by (induction paid) (auto simp: prepare_commit_def Let_def)
  ultimately show ?thesis
    using verify_prepared_commit [of C _ _ pk] by (fastforce simp: verify_commit_def)
qed

definition example_crypto :: crypto_api where
  "example_crypto = \<lparr> sha_512_256 = (\<lambda>data. take 32 (data @ replicate 32 0)),
     verify_signature = (\<lambda>data pk sig. sig = take 64 (pk @ data)) \<rparr>"

lemma example_signature_check: "verify_signature example_crypto data pk sig \<longleftrightarrow> sig = take 64 (pk @ data)"
  by (simp add: example_crypto_def)

text \<open>A payment of 40 in two parts, both confirmed by the seller \<open>[2]\<close> for the invoice \<open>[7]\<close>.\<close>

definition example_commit :: "plain_lock \<Rightarrow> u128 \<Rightarrow> commit" where
  "example_commit lock payment =
     \<lparr> cm_response_hash = [3], cm_dest_payment = payment, cm_src_plain_lock = lock, cm_dest_hashed_lock = [6],
       cm_signature = take 64 ([2] @ sha_512_256 example_crypto FUNDS_RESPONSE_PREFIX @ [3]
         @ plain_lock_hash example_crypto lock @ [6] @ write_u128 payment @ write_u128 40 @ [7]) \<rparr>"

definition example_paid :: "plain_lock \<Rightarrow> u128 \<Rightarrow> signature response_send_funds_op \<times> pending_transaction \<times> plain_lock" where
  "example_paid lock payment =
     (let pt = \<lparr> pt_request_id = [9], pt_route = \<lparr> public_keys = [[1], [2]] \<rparr>,
             pt_dest_payment = payment, pt_total_dest_payment = 40, pt_invoice_id = [7], pt_left_fees = 0,
             pt_src_hashed_lock = plain_lock_hash example_crypto lock, pt_stage = StageRequest \<rparr>;
          rs = \<lparr> rs_request_id = [9], rs_dest_hashed_lock = [6], rs_rand_nonce = [4], rs_signature = [] \<rparr>
      in (rs\<lparr> rs_signature := take 64 ([2] @ create_response_signature_buffer example_crypto rs pt) \<rparr>, pt, lock))"

theorem verify_multi_commit_iff_witness:
  "verify_multi_commit example_crypto
     \<lparr> mcm_invoice_id = [7], mcm_total_dest_payment = 40, mcm_commits = [example_commit [5] 15, example_commit [4] 25] \<rparr> [2]
   \<and> \<not> verify_multi_commit example_crypto
     \<lparr> mcm_invoice_id = [7], mcm_total_dest_payment = 40, mcm_commits = [example_commit [5] 15, example_commit [4] 24] \<rparr> [2]
   \<and> verify_multi_commit example_crypto
     \<lparr> mcm_invoice_id = [7], mcm_total_dest_payment = 40,
        mcm_commits = map (\<lambda>(rs, pt, lock). prepare_commit example_crypto rs pt lock) [example_paid [5] 15, example_paid [4] 25] \<rparr> [2]"
proof (intro conjI)
  show "verify_multi_commit example_crypto
     \<lparr> mcm_invoice_id = [7], mcm_total_dest_payment = 40, mcm_commits = [example_commit [5] 15, example_commit [4] 25] \<rparr> [2]"
    unfolding verify_multi_commit_iff [THEN conjunct1] by (simp add: example_commit_def example_signature_check del: take_append)
  show "\<not> verify_multi_commit example_crypto
     \<lparr> mcm_invoice_id = [7], mcm_total_dest_payment = 40, mcm_commits = [example_commit [5] 15, example_commit [4] 24] \<rparr> [2]"
    unfolding verify_multi_commit_iff [THEN conjunct1] by (simp add: example_commit_def)
  have signed: "verify_signature example_crypto (create_response_signature_buffer example_crypto rs pt) [2] (rs_signature rs)
      \<and> plain_lock_hash example_crypto lock = pt_src_hashed_lock pt \<and> pt_invoice_id pt = [7] \<and> pt_total_dest_payment pt = 40
      \<and> pt_dest_payment pt = payment"
    if "example_paid l payment = (rs, pt, lock)" for l payment rs pt lock
    using that by (auto simp: example_paid_def Let_def create_response_signature_buffer_def example_signature_check simp del: take_append)
  obtain rs pt lock where p1: "example_paid [5] 15 = (rs, pt, lock)" by (cases "example_paid [5] 15")
  obtain rs' pt' lock' where p2: "example_paid [4] 25 = (rs', pt', lock')" by (cases "example_paid [4] 25")
  show "verify_multi_commit example_crypto
     \<lparr> mcm_invoice_id = [7], mcm_total_dest_payment = 40,
        mcm_commits = map (\<lambda>(rs, pt, lock). prepare_commit example_crypto rs pt lock) [example_paid [5] 15, example_paid [4] 25] \<rparr> [2]"
    by (subst verify_multi_commit_iff [where paid = "[example_paid [5] 15, example_paid [4] 25]", THEN conjunct2, THEN mp])
       (use signed [OF p1] signed [OF p2] in \<open>simp_all add: p1 p2\<close>)
qed

text \<open>
  The bytes signed by the destination in a response determine everything the buyer later
  proves with its receipt: two responses whose signed bytes agree have the same inner hash, the
  same two locks, the same payment, the same total and the same invoice. The hypothesis is the
  size of the hash and of the locks, which the code fixes by type.
\<close>

theorem response_buffer_binds:
  assumes "create_response_signature_buffer C rs pt = create_response_signature_buffer C rs' pt'"
    and "\<And>data. length (sha_512_256 C data) = HASH_RESULT_LEN"
    and "length (pt_src_hashed_lock pt) = length (pt_src_hashed_lock pt')"
    and "length (rs_dest_hashed_lock rs) = length (rs_dest_hashed_lock rs')"
  shows "pt_src_hashed_lock pt = pt_src_hashed_lock pt'
    \<and> rs_dest_hashed_lock rs = rs_dest_hashed_lock rs'
    \<and> pt_dest_payment pt = pt_dest_payment pt' \<and> pt_total_dest_payment pt = pt_total_dest_payment pt'
    \<and> pt_invoice_id pt = pt_invoice_id pt'
    \<and> sha_512_256 C (pt_request_id pt @ route_hash C (pt_route pt) @ rs_rand_nonce rs)
      = sha_512_256 C (pt_request_id pt' @ route_hash C (pt_route pt') @ rs_rand_nonce rs')"
  using assms by (simp add: create_response_signature_buffer_def Let_def)

theorem response_buffer_binds_witness:
  "\<exists>pt rs. create_response_signature_buffer example_crypto (rs :: signature response_send_funds_op) pt
      = create_response_signature_buffer example_crypto rs pt
    \<and> (\<forall>data. length (sha_512_256 example_crypto data) = HASH_RESULT_LEN)
    \<and> pt_dest_payment pt = 5"
proof -
  define pt where "pt = \<lparr> pt_request_id = [1], pt_route = \<lparr> public_keys = [[1], [2]] \<rparr>, pt_dest_payment = 5,
    pt_total_dest_payment = 5, pt_invoice_id = [3], pt_left_fees = 0, pt_src_hashed_lock = [4],
    pt_stage = StageRequest \<rparr>"
  define rs :: "signature response_send_funds_op"
    where "rs = \<lparr> rs_request_id = [1], rs_dest_hashed_lock = [5], rs_rand_nonce = [6], rs_signature = [7] \<rparr>"
  have sha: "\<And>data. length (sha_512_256 example_crypto data) = HASH_RESULT_LEN"
    by (simp add: example_crypto_def HASH_RESULT_LEN_def)
  have "pt_dest_payment pt = pt_dest_payment pt"
    using response_buffer_binds [of example_crypto rs pt rs pt, OF refl sha refl refl] by blast
  then show ?thesis using sha by (intro exI [of _ pt] exI [of _ rs]) (simp add: pt_def)
qed

text \<open>
  The signature of a move token binds the identities of the two sides, both counters, the
  stated balance, both pending debts and the nonce: two move tokens with the same signed bytes
  agree on all of them and on the hash of their operations and relays.
\<close>

theorem move_token_buffer_binds:
  assumes "move_token_signature_buff C ser mt = move_token_signature_buff C ser mt'"
    and "\<And>data. length (sha_512_256 C data) = HASH_RESULT_LEN"
    and "length (mt_local_public_key mt) = length (mt_local_public_key mt')"
    and "length (mt_remote_public_key mt) = length (mt_remote_public_key mt')"
  shows "mt_local_public_key mt = mt_local_public_key mt' \<and> mt_remote_public_key mt = mt_remote_public_key mt'
    \<and> mt_inconsistency_counter mt = mt_inconsistency_counter mt'
    \<and> mt_move_token_counter mt = mt_move_token_counter mt' \<and> mt_balance mt = mt_balance mt'
    \<and> mt_local_pending_debt mt = mt_local_pending_debt mt' \<and> mt_remote_pending_debt mt = mt_remote_pending_debt mt'
    \<and> mt_rand_nonce mt = mt_rand_nonce mt' \<and> prefix_hash C ser mt = prefix_hash C ser mt'"
  using assms by (simp add: move_token_signature_buff_def prefix_hash_def)

theorem move_token_buffer_binds_witness:
  "\<exists>mt :: (nat, signature) move_token. (\<forall>data. length (sha_512_256 example_crypto data) = HASH_RESULT_LEN)
    \<and> mt_balance mt = - 3"
proof -
  define mt :: "(nat, signature) move_token"
    where "mt = \<lparr> mt_operations = [EnableRequests], mt_opt_local_relays = None, mt_old_token = [1],
      mt_local_public_key = [2], mt_remote_public_key = [3], mt_inconsistency_counter = 0,
      mt_move_token_counter = 1, mt_balance = - 3, mt_local_pending_debt = 0,
      mt_remote_pending_debt = 0, mt_rand_nonce = [4], mt_new_token = [5] \<rparr>"
  have sha: "\<And>data. length (sha_512_256 example_crypto data) = HASH_RESULT_LEN"
    by (simp add: example_crypto_def HASH_RESULT_LEN_def)
  have "mt_balance mt = mt_balance mt"
    using move_token_buffer_binds [of example_crypto "\<lambda>n. [of_nat n]" mt mt, OF refl sha refl refl] by blast
  then show ?thesis using sha by (intro exI [of _ mt]) (simp add: mt_def)
qed

text \<open>
  What the signature does not bind: replacing the remaining fees and the stated total of any
  request in a move token leaves the signed bytes unchanged, so a signature over one token is a
  signature over the other.
\<close>

theorem move_token_signature_ignores_fees:
  "verify_move_token C ser (mt\<lparr> mt_operations := ops @ RequestSendFunds rq # ops' \<rparr>) pk =
   verify_move_token C ser
     (mt\<lparr> mt_operations := ops @ RequestSendFunds (rq\<lparr> rq_left_fees := fees, rq_total_dest_payment := new_total \<rparr>) # ops' \<rparr>) pk"
  by (simp add: verify_move_token_def move_token_signature_buff_def prefix_hash_def serialize_request_def)

end
