(* ===== verification/MutualCredit.thy ===== *)
theory MutualCredit
  imports SignatureBuff
begin

text \<open>
  The state of a credit line between two friends and its mutations, from
  \<open>components/funder/src/mutual_credit/types.rs\<close>, with the invariant the operations of
  \<open>McIncoming\<close> and \<open>McOutgoing\<close> keep.
\<close>

section \<open>State\<close>

definition MAX_FUNDER_DEBT :: u128 where
  "MAX_FUNDER_DEBT = push_bit 127 1 - 1"

record mc_idents =
  mi_local_public_key :: public_key
  mi_remote_public_key :: public_key

record mc_balance =
  mb_balance :: i128
  mb_local_max_debt :: u128
  mb_remote_max_debt :: u128
  mb_local_pending_debt :: u128
  mb_remote_pending_debt :: u128

definition mc_balance_new :: "i128 \<Rightarrow> mc_balance" where
  "mc_balance_new bal = \<lparr> mb_balance = bal, mb_local_max_debt = 0, mb_remote_max_debt = 0,
     mb_local_pending_debt = 0, mb_remote_pending_debt = 0 \<rparr>"

record mc_pending_transactions =
  mp_local :: "(uid, pending_transaction) hmap"
  mp_remote :: "(uid, pending_transaction) hmap"

definition mc_pending_transactions_new :: mc_pending_transactions where
  "mc_pending_transactions_new = \<lparr> mp_local = [], mp_remote = [] \<rparr>"

record mc_requests_status =
  mr_local :: requests_status
  mr_remote :: requests_status

definition mc_requests_status_new :: mc_requests_status where
  "mc_requests_status_new = \<lparr> mr_local = Closed, mr_remote = Closed \<rparr>"

text \<open>\<open>MutualCredit\<close> has the single field \<open>state: MutualCreditState\<close>; both are this record.\<close>

record mutual_credit =
  st_idents :: mc_idents
  st_balance :: mc_balance
  st_pending :: mc_pending_transactions
  st_requests_status :: mc_requests_status

datatype mc_mutation =
    SetLocalRequestsStatus requests_status
  | SetRemoteRequestsStatus requests_status
  | SetLocalMaxDebt u128
  | McSetRemoteMaxDebt u128
  | SetBalance i128
  | InsertLocalPendingTransaction pending_transaction
  | RemoveLocalPendingTransaction uid
  | SetLocalPendingTransactionStage uid transaction_stage
  | InsertRemotePendingTransaction pending_transaction
  | RemoveRemotePendingTransaction uid
  | SetRemotePendingTransactionStage uid transaction_stage
  | SetLocalPendingDebt u128
  | SetRemotePendingDebt u128

definition mc_new :: "public_key \<Rightarrow> public_key \<Rightarrow> i128 \<Rightarrow> mutual_credit" where
  "mc_new local_public_key remote_public_key bal =
     \<lparr> st_idents = \<lparr> mi_local_public_key = local_public_key, mi_remote_public_key = remote_public_key \<rparr>,
       st_balance = mc_balance_new bal, st_pending = mc_pending_transactions_new,
       st_requests_status = mc_requests_status_new \<rparr>"

text \<open>\<open>None\<close> is the panic of \<open>expect\<close>.\<close>

definition balance_for_reset :: "mutual_credit \<Rightarrow> i128 option" where
  "balance_for_reset mc =
     checked_add_unsigned (mb_balance (st_balance mc)) (mb_remote_pending_debt (st_balance mc))"

section \<open>Mutations\<close>

definition set_local_requests_status :: "mutual_credit \<Rightarrow> requests_status \<Rightarrow> mutual_credit" where
  "set_local_requests_status mc s = mc\<lparr> st_requests_status := (st_requests_status mc)\<lparr> mr_local := s \<rparr> \<rparr>"

definition set_remote_requests_status :: "mutual_credit \<Rightarrow> requests_status \<Rightarrow> mutual_credit" where
  "set_remote_requests_status mc s = mc\<lparr> st_requests_status := (st_requests_status mc)\<lparr> mr_remote := s \<rparr> \<rparr>"

definition set_remote_max_debt :: "mutual_credit \<Rightarrow> u128 \<Rightarrow> mutual_credit" where
  "set_remote_max_debt mc d = mc\<lparr> st_balance := (st_balance mc)\<lparr> mb_remote_max_debt := d \<rparr> \<rparr>"

definition set_local_max_debt :: "mutual_credit \<Rightarrow> u128 \<Rightarrow> mutual_credit" where
  "set_local_max_debt mc d = mc\<lparr> st_balance := (st_balance mc)\<lparr> mb_local_max_debt := d \<rparr> \<rparr>"

definition set_balance :: "mutual_credit \<Rightarrow> i128 \<Rightarrow> mutual_credit" where
  "set_balance mc b = mc\<lparr> st_balance := (st_balance mc)\<lparr> mb_balance := b \<rparr> \<rparr>"

definition insert_remote_pending_transaction :: "mutual_credit \<Rightarrow> pending_transaction \<Rightarrow> mutual_credit" where
  "insert_remote_pending_transaction mc pt =
     mc\<lparr> st_pending := (st_pending mc)\<lparr> mp_remote := hm_insert (pt_request_id pt) pt (mp_remote (st_pending mc)) \<rparr> \<rparr>"

definition remove_remote_pending_transaction :: "mutual_credit \<Rightarrow> uid \<Rightarrow> mutual_credit" where
  "remove_remote_pending_transaction mc request_id =
     mc\<lparr> st_pending := (st_pending mc)\<lparr> mp_remote := hm_remove request_id (mp_remote (st_pending mc)) \<rparr> \<rparr>"

definition insert_local_pending_transaction :: "mutual_credit \<Rightarrow> pending_transaction \<Rightarrow> mutual_credit" where
  "insert_local_pending_transaction mc pt =
     mc\<lparr> st_pending := (st_pending mc)\<lparr> mp_local := hm_insert (pt_request_id pt) pt (mp_local (st_pending mc)) \<rparr> \<rparr>"

definition remove_local_pending_transaction :: "mutual_credit \<Rightarrow> uid \<Rightarrow> mutual_credit" where
  "remove_local_pending_transaction mc request_id =
     mc\<lparr> st_pending := (st_pending mc)\<lparr> mp_local := hm_remove request_id (mp_local (st_pending mc)) \<rparr> \<rparr>"

definition set_remote_pending_debt :: "mutual_credit \<Rightarrow> u128 \<Rightarrow> mutual_credit" where
  "set_remote_pending_debt mc d = mc\<lparr> st_balance := (st_balance mc)\<lparr> mb_remote_pending_debt := d \<rparr> \<rparr>"

definition set_local_pending_debt :: "mutual_credit \<Rightarrow> u128 \<Rightarrow> mutual_credit" where
  "set_local_pending_debt mc d = mc\<lparr> st_balance := (st_balance mc)\<lparr> mb_local_pending_debt := d \<rparr> \<rparr>"

text \<open>\<open>get_mut(..).unwrap()\<close>: \<open>None\<close> is the panic on an absent id.\<close>

definition set_local_pending_transaction_stage ::
  "mutual_credit \<Rightarrow> uid \<Rightarrow> transaction_stage \<Rightarrow> mutual_credit option" where
  "set_local_pending_transaction_stage mc request_id stage =
     (case hm_get (mp_local (st_pending mc)) request_id of
        None \<Rightarrow> None
      | Some pt \<Rightarrow> Some (mc\<lparr> st_pending := (st_pending mc)\<lparr> mp_local :=
          hm_insert request_id (pt\<lparr> pt_stage := stage \<rparr>) (mp_local (st_pending mc)) \<rparr> \<rparr>))"

definition set_remote_pending_transaction_stage ::
  "mutual_credit \<Rightarrow> uid \<Rightarrow> transaction_stage \<Rightarrow> mutual_credit option" where
  "set_remote_pending_transaction_stage mc request_id stage =
     (case hm_get (mp_remote (st_pending mc)) request_id of
        None \<Rightarrow> None
      | Some pt \<Rightarrow> Some (mc\<lparr> st_pending := (st_pending mc)\<lparr> mp_remote :=
          hm_insert request_id (pt\<lparr> pt_stage := stage \<rparr>) (mp_remote (st_pending mc)) \<rparr> \<rparr>))"

fun mc_mutate :: "mutual_credit \<Rightarrow> mc_mutation \<Rightarrow> mutual_credit option" where
  "mc_mutate mc (SetLocalRequestsStatus s) = Some (set_local_requests_status mc s)"
| "mc_mutate mc (SetRemoteRequestsStatus s) = Some (set_remote_requests_status mc s)"
| "mc_mutate mc (SetLocalMaxDebt d) = Some (set_local_max_debt mc d)"
| "mc_mutate mc (McSetRemoteMaxDebt d) = Some (set_remote_max_debt mc d)"
| "mc_mutate mc (SetBalance b) = Some (set_balance mc b)"
| "mc_mutate mc (InsertLocalPendingTransaction pt) = Some (insert_local_pending_transaction mc pt)"
| "mc_mutate mc (RemoveLocalPendingTransaction request_id) = Some (remove_local_pending_transaction mc request_id)"
| "mc_mutate mc (SetLocalPendingTransactionStage request_id stage) =
     set_local_pending_transaction_stage mc request_id stage"
| "mc_mutate mc (InsertRemotePendingTransaction pt) = Some (insert_remote_pending_transaction mc pt)"
| "mc_mutate mc (RemoveRemotePendingTransaction request_id) = Some (remove_remote_pending_transaction mc request_id)"
| "mc_mutate mc (SetRemotePendingTransactionStage request_id stage) =
     set_remote_pending_transaction_stage mc request_id stage"
| "mc_mutate mc (SetLocalPendingDebt d) = Some (set_local_pending_debt mc d)"
| "mc_mutate mc (SetRemotePendingDebt d) = Some (set_remote_pending_debt mc d)"

text \<open>Applying a recorded list of mutations in order, as the owners of a channel do.\<close>

fun mc_replay :: "mutual_credit \<Rightarrow> mc_mutation list \<Rightarrow> mutual_credit option" where
  "mc_replay mc [] = Some mc"
| "mc_replay mc (m # ms) = (case mc_mutate mc m of None \<Rightarrow> None | Some mc' \<Rightarrow> mc_replay mc' ms)"

lemmas mc_setters = set_local_requests_status_def set_remote_requests_status_def set_remote_max_debt_def
  set_local_max_debt_def set_balance_def insert_remote_pending_transaction_def
  remove_remote_pending_transaction_def insert_local_pending_transaction_def
  remove_local_pending_transaction_def set_remote_pending_debt_def set_local_pending_debt_def
  set_local_pending_transaction_stage_def set_remote_pending_transaction_stage_def

lemma mc_replay_append:
  "mc_replay mc (ms @ ns) = (case mc_replay mc ms of None \<Rightarrow> None | Some mc' \<Rightarrow> mc_replay mc' ns)"
  by (induction ms arbitrary: mc) (auto split: option.split)

text \<open>\<open>public_keys.last()\<close>.\<close>

definition route_last :: "friends_route \<Rightarrow> public_key option" where
  "route_last route = (if public_keys route = [] then None else Some (last (public_keys route)))"

section \<open>Invariant\<close>

text \<open>The credits a pending transaction freezes.\<close>

definition frozen :: "pending_transaction \<Rightarrow> int" where
  "frozen pt = uint (pt_dest_payment pt) + uint (pt_left_fees pt)"

definition pt_ok :: "pending_transaction \<Rightarrow> bool" where
  "pt_ok pt = (frozen pt < 2 ^ 128 \<and> route_is_valid (pt_route pt) \<and> pt_dest_payment pt \<le> pt_total_dest_payment pt)"

definition pending_ok :: "(uid, pending_transaction) hmap \<Rightarrow> bool" where
  "pending_ok m = (hm_ok m \<and> (\<forall>(k, pt) \<in> set m. pt_request_id pt = k \<and> pt_ok pt))"

text \<open>
  The pending debts are the sums of what the pending transactions freeze, and even if all
  of them are collected the balance stays within plus or minus \<open>MAX_FUNDER_DEBT\<close>.
\<close>

definition mc_inv :: "mutual_credit \<Rightarrow> bool" where
  "mc_inv mc =
     (let b = st_balance mc; p = st_pending mc in
      pending_ok (mp_local p) \<and> pending_ok (mp_remote p)
      \<and> uint (mb_local_pending_debt b) = hm_total frozen (mp_local p)
      \<and> uint (mb_remote_pending_debt b) = hm_total frozen (mp_remote p)
      \<and> - (2 ^ 127 - 1) \<le> sint (mb_balance b) - uint (mb_local_pending_debt b)
      \<and> sint (mb_balance b) + uint (mb_remote_pending_debt b) \<le> 2 ^ 127 - 1
      \<and> mb_local_max_debt b \<le> MAX_FUNDER_DEBT \<and> mb_remote_max_debt b \<le> MAX_FUNDER_DEBT)"

lemma frozen_nonneg [simp]: "0 \<le> frozen pt"
  by (simp add: frozen_def)

lemma frozen_stage [simp]: "frozen (pt\<lparr> pt_stage := s \<rparr>) = frozen pt"
  by (simp add: frozen_def)

lemma pt_ok_stage [simp]: "pt_ok (pt\<lparr> pt_stage := s \<rparr>) = pt_ok pt"
  by (simp add: pt_ok_def)

lemma uint_MAX_FUNDER_DEBT: "uint MAX_FUNDER_DEBT = 2 ^ 127 - 1"
  by (simp add: MAX_FUNDER_DEBT_def)

lemma le_MAX_FUNDER_DEBT: "d \<le> MAX_FUNDER_DEBT \<longleftrightarrow> uint d \<le> 2 ^ 127 - 1"
  by (simp add: word_le_def uint_MAX_FUNDER_DEBT)

lemma pending_ok_get:
  "pending_ok m \<Longrightarrow> hm_get m k = Some pt \<Longrightarrow> pt_request_id pt = k \<and> pt_ok pt"
  by (auto simp: pending_ok_def hm_get_def dest!: map_of_SomeD)

lemma pending_ok_hm_ok: "pending_ok m \<Longrightarrow> hm_ok m"
  by (simp add: pending_ok_def)

lemma set_hm_insert: "set (hm_insert k v m) \<subseteq> insert (k, v) (set m)"
  unfolding hm_insert_def by (induction m) auto

lemma set_hm_remove: "set (hm_remove k m) \<subseteq> set m"
  unfolding hm_remove_def by (induction m) auto

lemma pending_ok_insert:
  "pending_ok m \<Longrightarrow> pt_ok pt \<Longrightarrow> pt_request_id pt = k \<Longrightarrow> pending_ok (hm_insert k pt m)"
  using set_hm_insert [of k pt m] by (auto simp: pending_ok_def)

lemma pending_ok_remove: "pending_ok m \<Longrightarrow> pending_ok (hm_remove k m)"
  using set_hm_remove [of k m] by (auto simp: pending_ok_def)

lemma pending_frozen_le:
  "pending_ok m \<Longrightarrow> hm_get m k = Some pt \<Longrightarrow> frozen pt \<le> hm_total frozen m"
  by (rule hm_total_ge) (auto dest: pending_ok_hm_ok)

lemma pending_total_remove:
  "pending_ok m \<Longrightarrow> hm_get m k = Some pt \<Longrightarrow> hm_total frozen (hm_remove k m) = hm_total frozen m - frozen pt"
  by (rule hm_total_remove) (auto dest: pending_ok_hm_ok)

lemma pending_total_stage:
  "pending_ok m \<Longrightarrow> hm_get m k = Some pt \<Longrightarrow>
     hm_total frozen (hm_insert k (pt\<lparr> pt_stage := s \<rparr>) m) = hm_total frozen m"
  using hm_total_replace [of m k pt frozen] by (simp add: pending_ok_hm_ok)

lemma pending_ok_stage:
  "pending_ok m \<Longrightarrow> hm_get m k = Some pt \<Longrightarrow> pending_ok (hm_insert k (pt\<lparr> pt_stage := s \<rparr>) m)"
  using pending_ok_get [of m k pt] by (intro pending_ok_insert) auto

lemma mc_inv_new: "sint bal \<noteq> - (2 ^ 127) \<Longrightarrow> mc_inv (mc_new l r bal)"
  using i128_range [of bal]
  by (auto simp: mc_inv_def mc_new_def mc_balance_new_def mc_pending_transactions_new_def pending_ok_def
      le_MAX_FUNDER_DEBT)

lemma route_last_valid: "route_is_valid route \<Longrightarrow> route_last route = Some (last (public_keys route))"
  using route_valid_length [of route] by (auto simp: route_last_def)

text \<open>
  Operations on one pending transaction meet one of these facts: what freezing gives, and that
  releasing a transaction that is in the map underflows nothing.
\<close>

lemma frozen_add: "pt_ok pt \<Longrightarrow> \<exists>c. u_checked_add (pt_dest_payment pt) (pt_left_fees pt) = Some c \<and> uint c = frozen pt"
proof -
  assume "pt_ok pt"
  then have "u_checked_add (pt_dest_payment pt) (pt_left_fees pt) \<noteq> None"
    by (simp add: u_checked_add_None pt_ok_def frozen_def)
  then show ?thesis
    by (auto simp: u_checked_add_Some frozen_def)
qed

lemma release_debt:
  assumes "pending_ok m" "hm_get m k = Some pt" "uint debt = hm_total frozen m" "uint c = frozen pt"
  shows "\<exists>d. u_checked_sub debt c = Some d \<and> uint d = hm_total frozen (hm_remove k m)"
proof -
  have "0 \<le> uint debt - uint c"
    using pending_frozen_le [OF assms(1,2)] assms by simp
  then have "u_checked_sub debt c \<noteq> None"
    by (simp add: u_checked_sub_None)
  then show ?thesis
    using pending_total_remove [OF assms(1,2)] assms by (auto simp: u_checked_sub_Some)
qed

end
