(* ===== verification/Ledger.thy ===== *)
theory Ledger
  imports MutualCredit
begin

text \<open>
  The contract of a credit line, above machine integers and above the bookkeeping of the two
  implementations. A \<open>ledger\<close> is the credit line seen from the side that sends an operation;
  \<open>ledger_step\<close> says which operations are allowed and what they change. The locale
  \<open>ledger_impl\<close> is the promise of an implementation that runs one operation, proved for the
  sender's queue in \<open>McOutgoing\<close> and for the receiver's processing in \<open>McIncoming\<close>.
\<close>

section \<open>Specification\<close>

lemma frozen_create: "frozen (create_pending_transaction rq) = uint (rq_dest_payment rq) + uint (rq_left_fees rq)"
  by (simp add: frozen_def create_pending_transaction_def)

lemma pow_128: "(2 :: int) ^ 128 = 2 * 2 ^ 127"
  by simp

record ledger =
  lg_sender :: public_key
  lg_receiver :: public_key
  lg_balance :: int
  lg_sender_max_debt :: int
  lg_receiver_max_debt :: int
  lg_sender_pending :: "uid \<rightharpoonup> pending_transaction"
  lg_receiver_pending :: "uid \<rightharpoonup> pending_transaction"
  lg_sender_open :: bool
  lg_receiver_open :: bool

text \<open>The credits frozen by a set of pending transactions.\<close>

definition lg_frozen :: "(uid \<rightharpoonup> pending_transaction) \<Rightarrow> int" where
  "lg_frozen m = (\<Sum>k \<in> dom m. frozen (the (m k)))"

text \<open>
  The credit the sender would have left after freezing a request. The implementation computes
  it in an \<open>i128\<close>, so a request is refused when it is negative and also when it exceeds the
  greatest \<open>i128\<close>.
\<close>

definition lg_margin :: "ledger \<Rightarrow> request_send_funds_op \<Rightarrow> int" where
  "lg_margin L rq =
     lg_balance L + lg_sender_max_debt L - lg_frozen (lg_sender_pending L)
       - frozen (create_pending_transaction rq)"

definition lg_request_allowed :: "ledger \<Rightarrow> request_send_funds_op \<Rightarrow> bool" where
  "lg_request_allowed L rq =
     (route_is_valid (rq_route rq) \<and> rq_dest_payment rq \<le> rq_total_dest_payment rq
      \<and> find_pk_pair (rq_route rq) (lg_sender L) (lg_receiver L) \<noteq> None
      \<and> lg_receiver_open L
      \<and> 0 \<le> lg_margin L rq \<and> lg_margin L rq < 2 ^ 127
      \<and> lg_sender_pending L (rq_request_id rq) = None)"

definition lg_response_allowed ::
  "crypto_api \<Rightarrow> pending_transaction \<Rightarrow> signature response_send_funds_op \<Rightarrow> bool" where
  "lg_response_allowed C pt rs =
     (verify_signature C (create_response_signature_buffer C rs pt) (last (public_keys (pt_route pt))) (rs_signature rs)
      \<and> pt_stage pt = StageRequest)"

definition lg_collect_allowed :: "crypto_api \<Rightarrow> pending_transaction \<Rightarrow> collect_send_funds_op \<Rightarrow> bool" where
  "lg_collect_allowed C pt cl =
     (plain_lock_hash C (cl_src_plain_lock cl) = pt_src_hashed_lock pt
      \<and> pt_stage pt = StageResponse (plain_lock_hash C (cl_dest_plain_lock cl)))"

fun ledger_step :: "crypto_api \<Rightarrow> ledger \<Rightarrow> friend_tc_op \<Rightarrow> ledger option" where
  "ledger_step C L EnableRequests = Some (L\<lparr> lg_sender_open := True \<rparr>)"
| "ledger_step C L DisableRequests = (if lg_sender_open L then Some (L\<lparr> lg_sender_open := False \<rparr>) else None)"
| "ledger_step C L (SetRemoteMaxDebt d) =
     (if d \<le> MAX_FUNDER_DEBT then Some (L\<lparr> lg_receiver_max_debt := uint d \<rparr>) else None)"
| "ledger_step C L (RequestSendFunds rq) =
     (if lg_request_allowed L rq
      then Some (L\<lparr> lg_sender_pending := (lg_sender_pending L)(rq_request_id rq \<mapsto> create_pending_transaction rq) \<rparr>)
      else None)"
| "ledger_step C L (ResponseSendFunds rs) =
     (case lg_receiver_pending L (rs_request_id rs) of
        None \<Rightarrow> None
      | Some pt \<Rightarrow>
          if lg_response_allowed C pt rs
          then Some (L\<lparr> lg_receiver_pending := (lg_receiver_pending L)(rs_request_id rs \<mapsto>
                 pt\<lparr> pt_stage := StageResponse (rs_dest_hashed_lock rs) \<rparr>) \<rparr>)
          else None)"
| "ledger_step C L (CancelSendFunds cn) =
     (case lg_receiver_pending L (cn_request_id cn) of
        None \<Rightarrow> None
      | Some pt \<Rightarrow> Some (L\<lparr> lg_receiver_pending := (lg_receiver_pending L)(cn_request_id cn := None) \<rparr>))"
| "ledger_step C L (CollectSendFunds cl) =
     (case lg_receiver_pending L (cl_request_id cl) of
        None \<Rightarrow> None
      | Some pt \<Rightarrow>
          if lg_collect_allowed C pt cl
          then Some (L\<lparr> lg_receiver_pending := (lg_receiver_pending L)(cl_request_id cl := None),
                        lg_balance := lg_balance L + frozen pt \<rparr>)
          else None)"

fun ledger_steps :: "crypto_api \<Rightarrow> ledger \<Rightarrow> friend_tc_op list \<Rightarrow> ledger option" where
  "ledger_steps C L [] = Some L"
| "ledger_steps C L (op # ops) = (case ledger_step C L op of None \<Rightarrow> None | Some L' \<Rightarrow> ledger_steps C L' ops)"

text \<open>The same credit line seen from the other side.\<close>

definition lg_swap :: "ledger \<Rightarrow> ledger" where
  "lg_swap L = \<lparr> lg_sender = lg_receiver L, lg_receiver = lg_sender L, lg_balance = - lg_balance L,
     lg_sender_max_debt = lg_receiver_max_debt L, lg_receiver_max_debt = lg_sender_max_debt L,
     lg_sender_pending = lg_receiver_pending L, lg_receiver_pending = lg_sender_pending L,
     lg_sender_open = lg_receiver_open L, lg_receiver_open = lg_sender_open L \<rparr>"

lemma lg_swap_swap [simp]: "lg_swap (lg_swap L) = L"
  by (simp add: lg_swap_def)

lemma lg_swap_inject [simp]: "lg_swap L = lg_swap M \<longleftrightarrow> L = M"
  by (metis lg_swap_swap)

section \<open>The credit line of a side\<close>

definition lg_of_mc :: "mutual_credit \<Rightarrow> ledger" where
  "lg_of_mc mc =
     \<lparr> lg_sender = mi_local_public_key (st_idents mc), lg_receiver = mi_remote_public_key (st_idents mc),
       lg_balance = sint (mb_balance (st_balance mc)),
       lg_sender_max_debt = uint (mb_local_max_debt (st_balance mc)),
       lg_receiver_max_debt = uint (mb_remote_max_debt (st_balance mc)),
       lg_sender_pending = hm_get (mp_local (st_pending mc)),
       lg_receiver_pending = hm_get (mp_remote (st_pending mc)),
       lg_sender_open = is_open (mr_local (st_requests_status mc)),
       lg_receiver_open = is_open (mr_remote (st_requests_status mc)) \<rparr>"

text \<open>
  Two sides are in step when each describes the same credit line: opposite balances, exchanged
  debt limits, the same pending transactions, the same statuses.
\<close>

definition mirrored :: "mutual_credit \<Rightarrow> mutual_credit \<Rightarrow> bool" where
  "mirrored a b \<longleftrightarrow> lg_of_mc b = lg_swap (lg_of_mc a)"

lemma mirrored_sym: "mirrored a b \<longleftrightarrow> mirrored b a"
  by (metis mirrored_def lg_swap_swap)

lemma lg_frozen_hm: "hm_ok m \<Longrightarrow> lg_frozen (hm_get m) = hm_total frozen m"
proof (induction m)
  case Nil
  then show ?case by (simp add: lg_frozen_def hm_get_def)
next
  case (Cons p m)
  obtain k pt where p: "p = (k, pt)" by (cases p)
  from Cons.prems p have m: "hm_ok m" and k: "k \<notin> dom (hm_get m)"
    by (force simp: hm_ok_def hm_get_def dom_map_of_conv_image_fst)+
  have get: "hm_get (p # m) = (hm_get m)(k \<mapsto> pt)"
    using p by (auto simp: hm_get_def)
  have fin: "finite (dom (hm_get m))"
    by (simp add: hm_get_map_of finite_dom_map_of)
  have "(\<Sum>j \<in> dom (hm_get m). frozen (the (((hm_get m)(k \<mapsto> pt)) j))) = (\<Sum>j \<in> dom (hm_get m). frozen (the (hm_get m j)))"
    using k by (intro sum.cong) auto
  then have "lg_frozen (hm_get (p # m)) = frozen pt + lg_frozen (hm_get m)"
    using fin k by (simp add: lg_frozen_def get)
  with Cons.IH [OF m] p show ?case by (simp add: hm_total_def)
qed

lemma mc_inv_frozen:
  assumes "mc_inv mc"
  shows "uint (mb_local_pending_debt (st_balance mc)) = lg_frozen (hm_get (mp_local (st_pending mc)))"
    and "uint (mb_remote_pending_debt (st_balance mc)) = lg_frozen (hm_get (mp_remote (st_pending mc)))"
  using assms by (simp_all add: mc_inv_def Let_def lg_frozen_hm pending_ok_hm_ok)

text \<open>Sides in step agree on what is frozen, so each can check the other's statement of it.\<close>

lemma mirrored_balances:
  assumes "mirrored a b" "mc_inv a" "mc_inv b"
  shows "sint (mb_balance (st_balance b)) = - sint (mb_balance (st_balance a))"
    and "mb_remote_pending_debt (st_balance b) = mb_local_pending_debt (st_balance a)"
    and "mb_local_pending_debt (st_balance b) = mb_remote_pending_debt (st_balance a)"
proof -
  from assms(1) show "sint (mb_balance (st_balance b)) = - sint (mb_balance (st_balance a))"
    by (simp add: mirrored_def lg_of_mc_def lg_swap_def)
  from assms(1) have "hm_get (mp_remote (st_pending b)) = hm_get (mp_local (st_pending a))"
    "hm_get (mp_local (st_pending b)) = hm_get (mp_remote (st_pending a))"
    by (simp_all add: mirrored_def lg_of_mc_def lg_swap_def)
  with mc_inv_frozen [OF assms(2)] mc_inv_frozen [OF assms(3)]
  show "mb_remote_pending_debt (st_balance b) = mb_local_pending_debt (st_balance a)"
    "mb_local_pending_debt (st_balance b) = mb_remote_pending_debt (st_balance a)"
    by (simp_all add: word_uint_eq_iff)
qed

section \<open>Implementations\<close>

text \<open>
  An implementation runs one operation on its own state. It accepts exactly the operations the
  ledger allows, changes its state as the ledger says, keeps its invariant and never panics.
  Outside a condition \<open>adm\<close>, which every operation the ledger allows satisfies, it may be
  more permissive than the ledger.
\<close>

locale ledger_impl =
  fixes C :: crypto_api
    and step :: "'st \<Rightarrow> friend_tc_op \<Rightarrow> ('st \<times> 'out, 'e) res"
    and view :: "'st \<Rightarrow> ledger"
    and good :: "'st \<Rightarrow> bool"
    and adm :: "ledger \<Rightarrow> friend_tc_op \<Rightarrow> bool"
  assumes step_Ok: "good s \<Longrightarrow> adm (view s) op \<Longrightarrow> step s op = Ok (s', out) \<Longrightarrow> ledger_step C (view s) op = Some (view s')"
    and step_good: "good s \<Longrightarrow> step s op = Ok (s', out) \<Longrightarrow> good s'"
    and adm_allowed: "ledger_step C L op = Some L' \<Longrightarrow> adm L op"
    and step_Err: "good s \<Longrightarrow> step s op = Err e \<Longrightarrow> ledger_step C (view s) op = None"
    and step_Panic: "good s \<Longrightarrow> step s op \<noteq> Panic"
begin

text \<open>Running a batch, stopping at the first refusal.\<close>

fun steps :: "'st \<Rightarrow> friend_tc_op list \<Rightarrow> ('st \<times> 'out list, 'e) res" where
  "steps s [] = Ok (s, [])"
| "steps s (op # ops) = res_bind (step s op) (\<lambda>(s, out). res_bind (steps s ops) (\<lambda>(s, outs). Ok (s, out # outs)))"

fun adms :: "ledger \<Rightarrow> friend_tc_op list \<Rightarrow> bool" where
  "adms L [] = True"
| "adms L (op # ops) = (adm L op \<and> (case ledger_step C L op of None \<Rightarrow> True | Some L' \<Rightarrow> adms L' ops))"

lemma step_complete:
  assumes "good s" "ledger_step C (view s) op = Some L"
  shows "\<exists>s' out. step s op = Ok (s', out)"
  using step_Err [OF assms(1)] step_Panic [OF assms(1), of op] assms(2)
  by (cases "step s op") auto

lemma steps_good: "good s \<Longrightarrow> steps s ops = Ok (s', outs) \<Longrightarrow> good s'"
  by (induction ops arbitrary: s outs) (auto simp: res_bind_Ok split: prod.splits dest: step_good)

lemma steps_Panic: "good s \<Longrightarrow> steps s ops \<noteq> Panic"
  by (induction ops arbitrary: s) (auto simp: res_bind_Panic split: prod.splits dest: step_good step_Panic)

lemma steps_Ok:
  "good s \<Longrightarrow> adms (view s) ops \<Longrightarrow> steps s ops = Ok (s', outs) \<Longrightarrow> ledger_steps C (view s) ops = Some (view s')"
proof (induction ops arbitrary: s outs)
  case Nil
  then show ?case by simp
next
  case (Cons op ops)
  then obtain t out outs' where step: "step s op = Ok (t, out)" and rest: "steps t ops = Ok (s', outs')"
    by (auto simp: res_bind_Ok)
  have spec: "ledger_step C (view s) op = Some (view t)"
    using Cons.prems step by (intro step_Ok) auto
  moreover from this Cons.prems have "adms (view t) ops" by simp
  ultimately show ?case
    using Cons.IH [OF step_good [OF Cons.prems(1) step] _ rest] by simp
qed

lemma steps_complete:
  "good s \<Longrightarrow> ledger_steps C (view s) ops = Some L \<Longrightarrow> \<exists>s' outs. steps s ops = Ok (s', outs) \<and> view s' = L"
proof (induction ops arbitrary: s)
  case Nil
  then show ?case by simp
next
  case (Cons op ops)
  then obtain M where M: "ledger_step C (view s) op = Some M" "ledger_steps C M ops = Some L"
    by (auto split: option.splits)
  then obtain t out where step: "step s op = Ok (t, out)"
    using step_complete [OF Cons.prems(1)] by blast
  then have "view t = M"
    using step_Ok [OF Cons.prems(1) adm_allowed [OF M(1)] step] M(1) by simp
  then show ?case
    using Cons.IH [OF step_good [OF Cons.prems(1) step]] M step by fastforce
qed

end

text \<open>
  Two implementations whose views agree stay in agreement: what the first one runs, the second
  one accepts, with the same effect.
\<close>

locale ledger_pair =
  snd: ledger_impl C step view good adm + rcv: ledger_impl C step' view' good' adm'
  for C :: crypto_api
    and step :: "'st \<Rightarrow> friend_tc_op \<Rightarrow> ('st \<times> 'out, 'e) res"
    and view :: "'st \<Rightarrow> ledger" and good :: "'st \<Rightarrow> bool" and adm :: "ledger \<Rightarrow> friend_tc_op \<Rightarrow> bool"
    and step' :: "'st2 \<Rightarrow> friend_tc_op \<Rightarrow> ('st2 \<times> 'out2, 'e2) res"
    and view' :: "'st2 \<Rightarrow> ledger" and good' :: "'st2 \<Rightarrow> bool" and adm' :: "ledger \<Rightarrow> friend_tc_op \<Rightarrow> bool"
begin

lemma batch_agrees:
  assumes "good a" "good' b" "view a = view' b"
    and "snd.adms (view a) ops" "snd.steps a ops = Ok (a', outs)"
  shows "\<exists>b' outs'. rcv.steps b ops = Ok (b', outs') \<and> view' b' = view a' \<and> good a' \<and> good' b'"
proof -
  have "ledger_steps C (view' b) ops = Some (view a')"
    using snd.steps_Ok [OF assms(1,4,5)] assms(3) by simp
  then obtain b' outs' where "rcv.steps b ops = Ok (b', outs')" "view' b' = view a'"
    using rcv.steps_complete [OF assms(2)] by blast
  then show ?thesis
    using snd.steps_good [OF assms(1,5)] rcv.steps_good [OF assms(2)] by blast
qed

end

lemma ledger_step_sender_open:
  "ledger_step C L op = Some L' \<Longrightarrow>
     lg_sender_open L' = (case op of EnableRequests \<Rightarrow> True | DisableRequests \<Rightarrow> False | _ \<Rightarrow> lg_sender_open L)"
  by (cases op) (auto split: option.splits if_splits)

end
