(* ===== verification/McIncoming.thy ===== *)
theory McIncoming
  imports Ledger
begin

text \<open>
  Processing the operations of a received move token, from
  \<open>components/funder/src/mutual_credit/incoming.rs\<close>. Every operation checks before its first
  mutation, so an \<open>Err\<close> leaves the credit line it was given unchanged; the state is returned
  beside the output on success.
\<close>

section \<open>Outputs and errors\<close>

record incoming_response_send_funds_op =
  ir_pending_transaction :: pending_transaction
  ir_incoming_response :: "signature response_send_funds_op"

record incoming_cancel_send_funds_op =
  ic_pending_transaction :: pending_transaction
  ic_incoming_cancel :: cancel_send_funds_op

record incoming_collect_send_funds_op =
  il_pending_transaction :: pending_transaction
  il_incoming_collect :: collect_send_funds_op

datatype incoming_message =
    ImRequest request_send_funds_op
  | ImResponse incoming_response_send_funds_op
  | ImCancel incoming_cancel_send_funds_op
  | ImCollect incoming_collect_send_funds_op

record process_operation_output =
  po_incoming_message :: "incoming_message option"
  po_mc_mutations :: "mc_mutation list"

datatype process_operation_error =
    PRemoteMaxDebtTooLarge u128
  | PPkPairNotInRoute
  | PInvalidRoute
  | PRequestsAlreadyDisabled
  | PInsufficientTrust
  | PCreditsCalcOverflow
  | PRequestAlreadyExists
  | PRequestDoesNotExist
  | PInvalidResponseSignature
  | PLocalRequestsClosed
  | PNotExpectingResponse
  | PInvalidSrcPlainLock
  | PInvalidDestPlainLock
  | PNotExpectingCollect
  | PDestPaymentExceedsTotal

record process_trans_list_error =
  pe_index :: nat
  pe_process_trans_error :: process_operation_error

type_synonym process_result = "(mutual_credit \<times> process_operation_output, process_operation_error) res"

section \<open>Operations\<close>

definition process_enable_requests :: "mutual_credit \<Rightarrow> process_result" where
  "process_enable_requests mc =
     (let mc_mutation = SetRemoteRequestsStatus Open in
      res_bind (unwrap (mc_mutate mc mc_mutation)) (\<lambda>mc.
      Ok (mc, \<lparr> po_incoming_message = None, po_mc_mutations = [mc_mutation] \<rparr>)))"

definition process_disable_requests :: "mutual_credit \<Rightarrow> process_result" where
  "process_disable_requests mc =
     (case mr_remote (st_requests_status mc) of
        Open \<Rightarrow>
          (let mc_mutation = SetRemoteRequestsStatus Closed in
           res_bind (unwrap (mc_mutate mc mc_mutation)) (\<lambda>mc.
           Ok (mc, \<lparr> po_incoming_message = None, po_mc_mutations = [mc_mutation] \<rparr>)))
      | Closed \<Rightarrow> Err PRequestsAlreadyDisabled)"

definition process_set_remote_max_debt :: "mutual_credit \<Rightarrow> u128 \<Rightarrow> process_result" where
  "process_set_remote_max_debt mc proposed_max_debt =
     (if MAX_FUNDER_DEBT < proposed_max_debt then Err (PRemoteMaxDebtTooLarge proposed_max_debt)
      else
        (let mc_mutation = SetLocalMaxDebt proposed_max_debt in
         res_bind (unwrap (mc_mutate mc mc_mutation)) (\<lambda>mc.
         Ok (mc, \<lparr> po_incoming_message = None, po_mc_mutations = [mc_mutation] \<rparr>))))"

definition process_request_send_funds :: "mutual_credit \<Rightarrow> request_send_funds_op \<Rightarrow> process_result" where
  "process_request_send_funds mc rq =
     (if \<not> route_is_valid (rq_route rq) then Err PInvalidRoute
      else if rq_total_dest_payment rq < rq_dest_payment rq then Err PDestPaymentExceedsTotal
      else
        res_bind (ok_or (find_pk_pair (rq_route rq) (mi_remote_public_key (st_idents mc))
            (mi_local_public_key (st_idents mc))) PPkPairNotInRoute) (\<lambda>remote_index.
        if \<not> is_open (mr_local (st_requests_status mc)) then Err PLocalRequestsClosed
        else
          res_bind (ok_or (u_checked_add (rq_dest_payment rq) (rq_left_fees rq)) PCreditsCalcOverflow)
            (\<lambda>own_freeze_credits.
          let bal = st_balance mc in
          res_bind (ok_or (u_checked_add (mb_remote_pending_debt bal) own_freeze_credits) PCreditsCalcOverflow)
            (\<lambda>new_remote_pending_debt.
          res_bind (ok_or (checked_add_unsigned (mb_balance bal) new_remote_pending_debt) PCreditsCalcOverflow)
            (\<lambda>add.
          res_bind (ok_or (checked_sub_unsigned add (mb_remote_max_debt bal)) PCreditsCalcOverflow)
            (\<lambda>diff.
          if 0 < sint diff then Err PInsufficientTrust
          else if hm_contains (mp_remote (st_pending mc)) (rq_request_id rq) then Err PRequestAlreadyExists
          else
            let mutation1 = InsertRemotePendingTransaction (create_pending_transaction rq) in
            res_bind (unwrap (mc_mutate mc mutation1)) (\<lambda>mc.
            let mutation2 = SetRemotePendingDebt new_remote_pending_debt in
            res_bind (unwrap (mc_mutate mc mutation2)) (\<lambda>mc.
            Ok (mc, \<lparr> po_incoming_message = Some (ImRequest rq), po_mc_mutations = [mutation1, mutation2] \<rparr>)))))))))"

definition process_response_send_funds ::
  "crypto_api \<Rightarrow> mutual_credit \<Rightarrow> signature response_send_funds_op \<Rightarrow> process_result" where
  "process_response_send_funds C mc rs =
     res_bind (ok_or (hm_get (mp_local (st_pending mc)) (rs_request_id rs)) PRequestDoesNotExist)
       (\<lambda>pending_transaction.
     res_bind (unwrap (route_last (pt_route pending_transaction))) (\<lambda>dest_public_key.
     let response_signature_buffer = create_response_signature_buffer C rs pending_transaction in
     if \<not> verify_signature C response_signature_buffer dest_public_key (rs_signature rs)
     then Err PInvalidResponseSignature
     else if pt_stage pending_transaction \<noteq> StageRequest then Err PNotExpectingResponse
     else
       let mc_mutation = SetLocalPendingTransactionStage (rs_request_id rs) (StageResponse (rs_dest_hashed_lock rs)) in
       res_bind (unwrap (mc_mutate mc mc_mutation)) (\<lambda>mc.
       Ok (mc, \<lparr> po_incoming_message = Some (ImResponse
             \<lparr> ir_pending_transaction = pending_transaction, ir_incoming_response = rs \<rparr>),
           po_mc_mutations = [mc_mutation] \<rparr>))))"

definition process_cancel_send_funds :: "mutual_credit \<Rightarrow> cancel_send_funds_op \<Rightarrow> process_result" where
  "process_cancel_send_funds mc cn =
     res_bind (ok_or (hm_get (mp_local (st_pending mc)) (cn_request_id cn)) PRequestDoesNotExist)
       (\<lambda>pending_transaction.
     let mutation1 = RemoveLocalPendingTransaction (cn_request_id cn) in
     res_bind (unwrap (mc_mutate mc mutation1)) (\<lambda>mc.
     res_bind (unwrap (u_checked_add (pt_dest_payment pending_transaction) (pt_left_fees pending_transaction)))
       (\<lambda>freeze_credits.
     res_bind (unwrap (u_checked_sub (mb_local_pending_debt (st_balance mc)) freeze_credits))
       (\<lambda>new_local_pending_debt.
     let mutation2 = SetLocalPendingDebt new_local_pending_debt in
     res_bind (unwrap (mc_mutate mc mutation2)) (\<lambda>mc.
     Ok (mc, \<lparr> po_incoming_message = Some (ImCancel
           \<lparr> ic_pending_transaction = pending_transaction, ic_incoming_cancel = cn \<rparr>),
         po_mc_mutations = [mutation1, mutation2] \<rparr>))))))"

definition process_collect_send_funds ::
  "crypto_api \<Rightarrow> mutual_credit \<Rightarrow> collect_send_funds_op \<Rightarrow> process_result" where
  "process_collect_send_funds C mc cl =
     res_bind (ok_or (hm_get (mp_local (st_pending mc)) (cl_request_id cl)) PRequestDoesNotExist)
       (\<lambda>pending_transaction.
     case pt_stage pending_transaction of
       StageRequest \<Rightarrow> Err PNotExpectingCollect
     | StageResponse dest_hashed_lock \<Rightarrow>
         if plain_lock_hash C (cl_src_plain_lock cl) \<noteq> pt_src_hashed_lock pending_transaction
         then Err PInvalidSrcPlainLock
         else if plain_lock_hash C (cl_dest_plain_lock cl) \<noteq> dest_hashed_lock then Err PInvalidDestPlainLock
         else
           res_bind (unwrap (u_checked_add (pt_dest_payment pending_transaction) (pt_left_fees pending_transaction)))
             (\<lambda>freeze_credits.
           let mutation1 = RemoveLocalPendingTransaction (cl_request_id cl) in
           res_bind (unwrap (mc_mutate mc mutation1)) (\<lambda>mc.
           res_bind (unwrap (u_checked_sub (mb_local_pending_debt (st_balance mc)) freeze_credits))
             (\<lambda>new_local_pending_debt.
           let mutation2 = SetLocalPendingDebt new_local_pending_debt in
           res_bind (unwrap (mc_mutate mc mutation2)) (\<lambda>mc.
           res_bind (unwrap (checked_sub_unsigned (mb_balance (st_balance mc)) freeze_credits)) (\<lambda>new_balance.
           let mutation3 = SetBalance new_balance in
           res_bind (unwrap (mc_mutate mc mutation3)) (\<lambda>mc.
           Ok (mc, \<lparr> po_incoming_message = Some (ImCollect
                 \<lparr> il_pending_transaction = pending_transaction, il_incoming_collect = cl \<rparr>),
               po_mc_mutations = [mutation1, mutation2, mutation3] \<rparr>))))))))"

fun process_operation :: "crypto_api \<Rightarrow> mutual_credit \<Rightarrow> friend_tc_op \<Rightarrow> process_result" where
  "process_operation C mc EnableRequests = process_enable_requests mc"
| "process_operation C mc DisableRequests = process_disable_requests mc"
| "process_operation C mc (SetRemoteMaxDebt proposed_max_debt) = process_set_remote_max_debt mc proposed_max_debt"
| "process_operation C mc (RequestSendFunds rq) = process_request_send_funds mc rq"
| "process_operation C mc (ResponseSendFunds rs) = process_response_send_funds C mc rs"
| "process_operation C mc (CancelSendFunds cn) = process_cancel_send_funds mc cn"
| "process_operation C mc (CollectSendFunds cl) = process_collect_send_funds C mc cl"

text \<open>The loop of \<open>process_operations_list\<close>; the error carries the index of the failing operation.\<close>

fun process_operations_from ::
  "crypto_api \<Rightarrow> nat \<Rightarrow> mutual_credit \<Rightarrow> friend_tc_op list
    \<Rightarrow> (mutual_credit \<times> process_operation_output list, process_trans_list_error) res" where
  "process_operations_from C index mc [] = Ok (mc, [])"
| "process_operations_from C index mc (op # ops) =
     (case process_operation C mc op of
        Panic \<Rightarrow> Panic
      | Err e \<Rightarrow> Err \<lparr> pe_index = index, pe_process_trans_error = e \<rparr>
      | Ok (mc, trans_output) \<Rightarrow>
          (case process_operations_from C (Suc index) mc ops of
             Ok (mc, outputs) \<Rightarrow> Ok (mc, trans_output # outputs)
           | Err e \<Rightarrow> Err e
           | Panic \<Rightarrow> Panic))"

definition process_operations_list ::
  "crypto_api \<Rightarrow> mutual_credit \<Rightarrow> friend_tc_op list
    \<Rightarrow> (mutual_credit \<times> process_operation_output list, process_trans_list_error) res" where
  "process_operations_list C mc operations = process_operations_from C 0 mc operations"

lemmas process_defs = process_enable_requests_def process_disable_requests_def process_set_remote_max_debt_def
  process_request_send_funds_def process_response_send_funds_def process_cancel_send_funds_def
  process_collect_send_funds_def

section \<open>Requests\<close>

text \<open>The receiver describes the credit line from the sender's side.\<close>

definition in_view :: "mutual_credit \<Rightarrow> ledger" where
  "in_view mc = lg_swap (lg_of_mc mc)"

lemma in_view_simps [simp]:
  "lg_sender (in_view mc) = mi_remote_public_key (st_idents mc)"
  "lg_receiver (in_view mc) = mi_local_public_key (st_idents mc)"
  "lg_balance (in_view mc) = - sint (mb_balance (st_balance mc))"
  "lg_sender_max_debt (in_view mc) = uint (mb_remote_max_debt (st_balance mc))"
  "lg_receiver_max_debt (in_view mc) = uint (mb_local_max_debt (st_balance mc))"
  "lg_sender_pending (in_view mc) = hm_get (mp_remote (st_pending mc))"
  "lg_receiver_pending (in_view mc) = hm_get (mp_local (st_pending mc))"
  "lg_sender_open (in_view mc) = is_open (mr_remote (st_requests_status mc))"
  "lg_receiver_open (in_view mc) = is_open (mr_local (st_requests_status mc))"
  by (simp_all add: in_view_def lg_swap_def lg_of_mc_def)

lemma in_margin:
  assumes "mc_inv mc"
  shows "lg_margin (in_view mc) rq = uint (mb_remote_max_debt (st_balance mc)) - sint (mb_balance (st_balance mc))
    - uint (mb_remote_pending_debt (st_balance mc)) - (uint (rq_dest_payment rq) + uint (rq_left_fees rq))"
  using mc_inv_frozen [OF assms] by (simp add: lg_margin_def frozen_create)

lemma unfreeze_checks_succeed:
  assumes "0 \<le> uint max_debt - sint b - uint debt - (uint dest + uint fees)"
    and "uint max_debt - sint b - uint debt - (uint dest + uint fees) \<le> 2 ^ 127"
    and "max_debt \<le> MAX_FUNDER_DEBT"
  obtains c d t diff where "u_checked_add dest fees = Some c" "u_checked_add debt c = Some d"
    "checked_add_unsigned b d = Some t" "checked_sub_unsigned t max_debt = Some diff" "sint diff \<le> 0"
    "uint d = uint debt + (uint dest + uint fees)"
proof -
  note bounds = i128_range [of b] u128_range [of debt] u128_range [of dest] u128_range [of fees]
    u128_range [of max_debt] assms(1,2) assms(3) [unfolded le_MAX_FUNDER_DEBT]
  have small: "uint dest + uint fees < 2 ^ 128" "uint debt + (uint dest + uint fees) < 2 ^ 128"
    "- (2 ^ 127) \<le> sint b + (uint debt + (uint dest + uint fees))"
    "sint b + (uint debt + (uint dest + uint fees)) \<le> 2 ^ 127 - 1"
    using bounds pow_128 by linarith+
  then have "u_checked_add dest fees \<noteq> None"
    by (simp add: u_checked_add_None)
  then obtain c where c: "u_checked_add dest fees = Some c" "uint c = uint dest + uint fees"
    by (auto simp: u_checked_add_Some)
  then have "u_checked_add debt c \<noteq> None"
    using small by (simp add: u_checked_add_None)
  then obtain d where d: "u_checked_add debt c = Some d" "uint d = uint debt + uint c"
    by (auto simp: u_checked_add_Some)
  then have "checked_add_unsigned b d \<noteq> None"
    using small c by (simp add: i128_add_None i128_fits)
  then obtain t where t: "checked_add_unsigned b d = Some t" "sint t = sint b + uint d"
    by (auto simp: i128_add_Some)
  then have "checked_sub_unsigned t max_debt \<noteq> None"
    using bounds c d by (simp add: i128_sub_None i128_fits)
  then obtain m where m: "checked_sub_unsigned t max_debt = Some m" "sint m = sint t - uint max_debt"
    by (auto simp: i128_sub_Some)
  show thesis
    using that [OF c(1) d(1) t(1) m(1)] c d t m bounds by simp
qed

definition processed_request :: "mutual_credit \<Rightarrow> request_send_funds_op \<Rightarrow> u128 \<Rightarrow> mutual_credit" where
  "processed_request mc rq d = set_remote_pending_debt (insert_remote_pending_transaction mc (create_pending_transaction rq)) d"

text \<open>
  The receiver computes the opposite of the margin, so it still accepts a margin of exactly
  \<open>2 ^ 127\<close>, which the sender's computation cannot represent.
\<close>

definition in_request_allowed :: "mutual_credit \<Rightarrow> request_send_funds_op \<Rightarrow> bool" where
  "in_request_allowed mc rq =
     (route_is_valid (rq_route rq) \<and> rq_dest_payment rq \<le> rq_total_dest_payment rq
      \<and> find_pk_pair (rq_route rq) (mi_remote_public_key (st_idents mc)) (mi_local_public_key (st_idents mc)) \<noteq> None
      \<and> is_open (mr_local (st_requests_status mc))
      \<and> 0 \<le> lg_margin (in_view mc) rq \<and> lg_margin (in_view mc) rq \<le> 2 ^ 127
      \<and> hm_get (mp_remote (st_pending mc)) (rq_request_id rq) = None)"

lemma in_request_allowed_ledger:
  "lg_request_allowed (in_view mc) rq \<longleftrightarrow> in_request_allowed mc rq \<and> lg_margin (in_view mc) rq \<noteq> 2 ^ 127"
  by (auto simp: lg_request_allowed_def in_request_allowed_def)

lemma process_request_allowed:
  assumes inv: "mc_inv mc" and run: "process_request_send_funds mc rq = Ok r"
  shows "in_request_allowed mc rq"
proof -
  from run obtain c d t diff where steps: "u_checked_add (rq_dest_payment rq) (rq_left_fees rq) = Some c"
      "u_checked_add (mb_remote_pending_debt (st_balance mc)) c = Some d"
      "checked_add_unsigned (mb_balance (st_balance mc)) d = Some t"
      "checked_sub_unsigned t (mb_remote_max_debt (st_balance mc)) = Some diff" "\<not> 0 < sint diff"
    and rest: "route_is_valid (rq_route rq)" "\<not> rq_total_dest_payment rq < rq_dest_payment rq"
      "find_pk_pair (rq_route rq) (mi_remote_public_key (st_idents mc)) (mi_local_public_key (st_idents mc)) \<noteq> None"
      "is_open (mr_local (st_requests_status mc))"
      "hm_get (mp_remote (st_pending mc)) (rq_request_id rq) = None"
    by (auto simp: process_request_send_funds_def Let_def res_simps hm_contains_def split: if_splits)
  have "- sint diff = lg_margin (in_view mc) rq"
    using steps by (simp add: in_margin [OF inv] arith_facts)
  then show ?thesis
    using rest steps(5) i128_range(1) [of diff] by (simp add: in_request_allowed_def)
qed

lemma process_request_runs:
  assumes inv: "mc_inv mc" and allowed: "in_request_allowed mc rq"
  obtains d where "uint d = uint (mb_remote_pending_debt (st_balance mc)) + frozen (create_pending_transaction rq)"
    and "process_request_send_funds mc rq = Ok (processed_request mc rq d,
      \<lparr> po_incoming_message = Some (ImRequest rq),
        po_mc_mutations = [InsertRemotePendingTransaction (create_pending_transaction rq), SetRemotePendingDebt d] \<rparr>)"
proof -
  from allowed have margin: "0 \<le> lg_margin (in_view mc) rq" "lg_margin (in_view mc) rq \<le> 2 ^ 127"
    by (simp_all add: in_request_allowed_def)
  from inv have "mb_remote_max_debt (st_balance mc) \<le> MAX_FUNDER_DEBT"
    by (simp add: mc_inv_def Let_def)
  from unfreeze_checks_succeed [OF margin [unfolded in_margin [OF inv]] this]
  obtain c d t m where "u_checked_add (rq_dest_payment rq) (rq_left_fees rq) = Some c"
      "u_checked_add (mb_remote_pending_debt (st_balance mc)) c = Some d"
      "checked_add_unsigned (mb_balance (st_balance mc)) d = Some t"
      "checked_sub_unsigned t (mb_remote_max_debt (st_balance mc)) = Some m" "sint m \<le> 0"
      "uint d = uint (mb_remote_pending_debt (st_balance mc)) + (uint (rq_dest_payment rq) + uint (rq_left_fees rq))" .
  then show thesis
    using allowed
    by (intro that [of d]) (auto simp: process_request_send_funds_def Let_def hm_contains_def
        processed_request_def in_request_allowed_def frozen_create)
qed

lemma process_request_not_Panic: "process_request_send_funds mc rq \<noteq> Panic"
  by (auto simp: process_request_send_funds_def Let_def res_simps)

lemma mc_inv_processed_request:
  assumes inv: "mc_inv mc" and allowed: "in_request_allowed mc rq"
    and d: "uint d = uint (mb_remote_pending_debt (st_balance mc)) + frozen (create_pending_transaction rq)"
  shows "mc_inv (processed_request mc rq d)"
proof -
  let ?pt = "create_pending_transaction rq"
  have fresh: "hm_get (mp_remote (st_pending mc)) (rq_request_id rq) = None"
    using allowed by (simp add: in_request_allowed_def)
  have "lg_margin (in_view mc) rq \<ge> 0"
    using allowed by (simp add: in_request_allowed_def)
  then have bound: "sint (mb_balance (st_balance mc)) + uint d \<le> uint (mb_remote_max_debt (st_balance mc))"
    by (simp add: d in_margin [OF inv] frozen_create)
  have limit: "uint (mb_remote_max_debt (st_balance mc)) \<le> 2 ^ 127 - 1"
    using inv by (simp add: mc_inv_def Let_def le_MAX_FUNDER_DEBT)
  have id: "pt_request_id ?pt = rq_request_id rq"
    by (simp add: create_pending_transaction_def)
  have "frozen ?pt < 2 ^ 128"
    using d u128_range(2) [of d] u128_range(1) [of "mb_remote_pending_debt (st_balance mc)"] by linarith
  then have "pt_ok ?pt"
    using allowed by (simp add: pt_ok_def in_request_allowed_def create_pending_transaction_def)
  then show ?thesis
    using inv d bound limit fresh
    by (simp add: mc_inv_def Let_def processed_request_def mc_setters id pending_ok_insert hm_total_insert_fresh)
qed

section \<open>Responses, cancellations and collections\<close>

definition processed_response :: "mutual_credit \<Rightarrow> uid \<Rightarrow> pending_transaction \<Rightarrow> hashed_lock \<Rightarrow> mutual_credit" where
  "processed_response mc k pt lock = mc\<lparr> st_pending := (st_pending mc)\<lparr> mp_local :=
     hm_insert k (pt\<lparr> pt_stage := StageResponse lock \<rparr>) (mp_local (st_pending mc)) \<rparr> \<rparr>"

definition processed_cancel :: "mutual_credit \<Rightarrow> uid \<Rightarrow> u128 \<Rightarrow> mutual_credit" where
  "processed_cancel mc k d = set_local_pending_debt (remove_local_pending_transaction mc k) d"

definition processed_collect :: "mutual_credit \<Rightarrow> uid \<Rightarrow> u128 \<Rightarrow> i128 \<Rightarrow> mutual_credit" where
  "processed_collect mc k d b = set_balance (processed_cancel mc k d) b"

lemma process_response_spec:
  assumes inv: "mc_inv mc"
    and pt: "hm_get (mp_local (st_pending mc)) (rs_request_id rs) = Some pt"
  shows "if lg_response_allowed C pt rs
    then process_response_send_funds C mc rs =
      Ok (processed_response mc (rs_request_id rs) pt (rs_dest_hashed_lock rs),
        \<lparr> po_incoming_message = Some (ImResponse \<lparr> ir_pending_transaction = pt, ir_incoming_response = rs \<rparr>),
          po_mc_mutations = [SetLocalPendingTransactionStage (rs_request_id rs) (StageResponse (rs_dest_hashed_lock rs))] \<rparr>)
    else \<exists>e. process_response_send_funds C mc rs = Err e"
proof -
  have "route_is_valid (pt_route pt)"
    using inv pending_ok_get [OF _ pt] by (simp add: mc_inv_def Let_def pt_ok_def)
  then show ?thesis
    using pt by (auto simp: process_response_send_funds_def Let_def route_last_valid lg_response_allowed_def
        set_local_pending_transaction_stage_def processed_response_def)
qed

lemma mc_inv_processed_response:
  assumes "mc_inv mc" "hm_get (mp_local (st_pending mc)) k = Some pt"
  shows "mc_inv (processed_response mc k pt lock)"
  using assms by (simp add: mc_inv_def Let_def processed_response_def pending_ok_stage pending_total_stage)

lemma process_cancel_runs:
  assumes inv: "mc_inv mc"
    and pt: "hm_get (mp_local (st_pending mc)) (cn_request_id cn) = Some pt"
  obtains d where "uint d = hm_total frozen (hm_remove (cn_request_id cn) (mp_local (st_pending mc)))"
    and "process_cancel_send_funds mc cn = Ok (processed_cancel mc (cn_request_id cn) d,
      \<lparr> po_incoming_message = Some (ImCancel \<lparr> ic_pending_transaction = pt, ic_incoming_cancel = cn \<rparr>),
        po_mc_mutations = [RemoveLocalPendingTransaction (cn_request_id cn), SetLocalPendingDebt d] \<rparr>)"
proof -
  have loc: "pending_ok (mp_local (st_pending mc))"
    "uint (mb_local_pending_debt (st_balance mc)) = hm_total frozen (mp_local (st_pending mc))"
    using inv by (simp_all add: mc_inv_def Let_def)
  then obtain c where c: "u_checked_add (pt_dest_payment pt) (pt_left_fees pt) = Some c" "uint c = frozen pt"
    using frozen_add pending_ok_get [OF _ pt] by blast
  obtain d where "u_checked_sub (mb_local_pending_debt (st_balance mc)) c = Some d"
    "uint d = hm_total frozen (hm_remove (cn_request_id cn) (mp_local (st_pending mc)))"
    using release_debt [OF loc(1) pt loc(2) c(2)] by blast
  with c pt show thesis
    by (intro that [of d]) (simp_all add: process_cancel_send_funds_def Let_def processed_cancel_def
        remove_local_pending_transaction_def)
qed

lemma mc_inv_processed_cancel:
  assumes inv: "mc_inv mc" and pt: "hm_get (mp_local (st_pending mc)) k = Some pt"
    and d: "uint d = hm_total frozen (hm_remove k (mp_local (st_pending mc)))"
  shows "mc_inv (processed_cancel mc k d)"
proof -
  have "uint d \<le> uint (mb_local_pending_debt (st_balance mc))"
    using inv pt d pending_total_remove [OF _ pt] by (simp add: mc_inv_def Let_def)
  then show ?thesis
    using inv d by (simp add: mc_inv_def Let_def processed_cancel_def mc_setters pending_ok_remove)
qed

lemma process_collect_runs:
  assumes inv: "mc_inv mc"
    and pt: "hm_get (mp_local (st_pending mc)) (cl_request_id cl) = Some pt"
    and allowed: "lg_collect_allowed C pt cl"
  obtains d b where "uint d = hm_total frozen (hm_remove (cl_request_id cl) (mp_local (st_pending mc)))"
    and "sint b = sint (mb_balance (st_balance mc)) - frozen pt"
    and "process_collect_send_funds C mc cl = Ok (processed_collect mc (cl_request_id cl) d b,
      \<lparr> po_incoming_message = Some (ImCollect \<lparr> il_pending_transaction = pt, il_incoming_collect = cl \<rparr>),
        po_mc_mutations = [RemoveLocalPendingTransaction (cl_request_id cl), SetLocalPendingDebt d, SetBalance b] \<rparr>)"
proof -
  have loc: "pending_ok (mp_local (st_pending mc))"
    "uint (mb_local_pending_debt (st_balance mc)) = hm_total frozen (mp_local (st_pending mc))"
    "- (2 ^ 127 - 1) \<le> sint (mb_balance (st_balance mc)) - uint (mb_local_pending_debt (st_balance mc))"
    using inv by (simp_all add: mc_inv_def Let_def)
  then obtain c where c: "u_checked_add (pt_dest_payment pt) (pt_left_fees pt) = Some c" "uint c = frozen pt"
    using frozen_add pending_ok_get [OF _ pt] by blast
  obtain d where d: "u_checked_sub (mb_local_pending_debt (st_balance mc)) c = Some d"
    "uint d = hm_total frozen (hm_remove (cl_request_id cl) (mp_local (st_pending mc)))"
    using release_debt [OF loc(1) pt loc(2) c(2)] by blast
  have "uint c \<le> uint (mb_local_pending_debt (st_balance mc))"
    using pending_frozen_le [OF loc(1) pt] c loc by simp
  then have "i_fits TYPE(128) (sint (mb_balance (st_balance mc)) - uint c)"
    using loc(3) i128_range(2) [of "mb_balance (st_balance mc)"] u128_range(1) [of c]
    unfolding i128_fits by linarith
  then obtain b where "checked_sub_unsigned (mb_balance (st_balance mc)) c = Some b"
    "sint b = sint (mb_balance (st_balance mc)) - uint c"
    by (metis i128_sub_None i128_sub_Some option.exhaust)
  with c d pt allowed show thesis
    by (intro that [of d b]) (auto simp: process_collect_send_funds_def Let_def processed_collect_def
        processed_cancel_def remove_local_pending_transaction_def set_local_pending_debt_def lg_collect_allowed_def)
qed

lemma process_collect_refused:
  assumes "hm_get (mp_local (st_pending mc)) (cl_request_id cl) = Some pt" and "\<not> lg_collect_allowed C pt cl"
  shows "\<exists>e. process_collect_send_funds C mc cl = Err e"
  using assms
  by (cases "pt_stage pt") (auto simp: process_collect_send_funds_def lg_collect_allowed_def)

lemma mc_inv_processed_collect:
  assumes inv: "mc_inv mc" and pt: "hm_get (mp_local (st_pending mc)) k = Some pt"
    and d: "uint d = hm_total frozen (hm_remove k (mp_local (st_pending mc)))"
    and b: "sint b = sint (mb_balance (st_balance mc)) - frozen pt"
  shows "mc_inv (processed_collect mc k d b)"
proof -
  note facts = inv [unfolded mc_inv_def Let_def]
  have "uint d = uint (mb_local_pending_debt (st_balance mc)) - frozen pt"
    using facts pt d pending_total_remove [OF _ pt] by simp
  with b facts have "- (2 ^ 127 - 1) \<le> sint b - uint d"
    "sint b + uint (mb_remote_pending_debt (st_balance mc)) \<le> 2 ^ 127 - 1"
    using frozen_nonneg [of pt] by linarith+
  then show ?thesis
    using inv d
    by (simp add: mc_inv_def Let_def processed_collect_def processed_cancel_def mc_setters pending_ok_remove)
qed

section \<open>Refinement of the ledger\<close>

definition process_adm :: "ledger \<Rightarrow> friend_tc_op \<Rightarrow> bool" where
  "process_adm L op = (case op of RequestSendFunds rq \<Rightarrow> lg_margin L rq \<noteq> 2 ^ 127 | _ \<Rightarrow> True)"

definition process_refines :: "crypto_api \<Rightarrow> mutual_credit \<Rightarrow> friend_tc_op \<Rightarrow> bool" where
  "process_refines C mc op =
     ((\<exists>mc' out. process_operation C mc op = Ok (mc', out) \<and> mc_inv mc'
        \<and> mc_replay mc (po_mc_mutations out) = Some mc'
        \<and> (process_adm (in_view mc) op \<longrightarrow> ledger_step C (in_view mc) op = Some (in_view mc')))
      \<or> (\<exists>e. process_operation C mc op = Err e \<and> ledger_step C (in_view mc) op = None))"

lemma process_refinesI:
  "process_operation C mc op = Ok (mc', out) \<Longrightarrow> mc_inv mc' \<Longrightarrow> mc_replay mc (po_mc_mutations out) = Some mc'
     \<Longrightarrow> (process_adm (in_view mc) op \<Longrightarrow> ledger_step C (in_view mc) op = Some (in_view mc'))
     \<Longrightarrow> process_refines C mc op"
  by (force simp: process_refines_def)

lemmas in_view_unfold = in_view_def lg_swap_def lg_of_mc_def

lemma process_refines_status:
  assumes "mc_inv mc"
  shows "process_refines C mc EnableRequests" "process_refines C mc DisableRequests"
proof -
  have inv: "mc_inv (set_remote_requests_status mc s)" for s
    using assms by (simp add: mc_inv_def Let_def set_remote_requests_status_def)
  show "process_refines C mc EnableRequests"
    by (rule process_refinesI [where mc' = "set_remote_requests_status mc Open"])
      (use inv in \<open>auto simp: process_defs in_view_unfold set_remote_requests_status_def\<close>)
  show "process_refines C mc DisableRequests"
  proof (cases "mr_remote (st_requests_status mc)")
    case Open
    show ?thesis
      by (rule process_refinesI [where mc' = "set_remote_requests_status mc Closed"])
        (use inv Open in \<open>auto simp: process_defs in_view_unfold set_remote_requests_status_def\<close>)
  next
    case Closed
    then show ?thesis by (simp add: process_refines_def process_defs)
  qed
qed

lemma process_refines_set_max_debt:
  assumes "mc_inv mc"
  shows "process_refines C mc (SetRemoteMaxDebt d)"
proof (cases "d \<le> MAX_FUNDER_DEBT")
  case True
  then have inv: "mc_inv (set_local_max_debt mc d)"
    using assms by (simp add: mc_inv_def Let_def set_local_max_debt_def)
  show ?thesis
    by (rule process_refinesI [where mc' = "set_local_max_debt mc d"])
      (use inv True in \<open>auto simp: process_defs in_view_unfold set_local_max_debt_def\<close>)
next
  case False
  then show ?thesis by (auto simp: process_refines_def process_defs)
qed

lemma process_refines_request:
  assumes inv: "mc_inv mc"
  shows "process_refines C mc (RequestSendFunds rq)"
proof (cases "in_request_allowed mc rq")
  case True
  obtain d where d: "uint d = uint (mb_remote_pending_debt (st_balance mc)) + frozen (create_pending_transaction rq)"
    and run: "process_request_send_funds mc rq = Ok (processed_request mc rq d,
      \<lparr> po_incoming_message = Some (ImRequest rq),
        po_mc_mutations = [InsertRemotePendingTransaction (create_pending_transaction rq), SetRemotePendingDebt d] \<rparr>)"
    using process_request_runs [OF inv True] by blast
  have view: "in_view (processed_request mc rq d) =
      (in_view mc)\<lparr> lg_sender_pending := (lg_sender_pending (in_view mc))(rq_request_id rq \<mapsto> create_pending_transaction rq) \<rparr>"
    by (auto simp: in_view_unfold processed_request_def mc_setters hm_get_insert create_pending_transaction_def)
  show ?thesis
    by (rule process_refinesI [where mc' = "processed_request mc rq d"])
      (use run True mc_inv_processed_request [OF inv True d]
        in \<open>auto simp: processed_request_def [symmetric] view process_adm_def in_request_allowed_ledger\<close>)
next
  case False
  then have "process_request_send_funds mc rq \<noteq> Ok r" for r
    using process_request_allowed [OF inv, of rq r] by auto
  then obtain e where "process_request_send_funds mc rq = Err e"
    using process_request_not_Panic [of mc rq] by (cases "process_request_send_funds mc rq") auto
  then show ?thesis using False by (simp add: process_refines_def in_request_allowed_ledger)
qed

lemma process_refines_response:
  assumes inv: "mc_inv mc"
  shows "process_refines C mc (ResponseSendFunds rs)"
proof (cases "hm_get (mp_local (st_pending mc)) (rs_request_id rs)")
  case None
  then show ?thesis
    by (simp add: process_refines_def process_response_send_funds_def)
next
  case (Some pt)
  note spec = process_response_spec [OF inv Some, of C]
  show ?thesis
  proof (cases "lg_response_allowed C pt rs")
    case True
    show ?thesis
      by (rule process_refinesI [where mc' = "processed_response mc (rs_request_id rs) pt (rs_dest_hashed_lock rs)"])
        (use spec True Some mc_inv_processed_response [OF inv Some]
          in \<open>auto simp: processed_response_def mc_setters in_view_unfold hm_get_insert\<close>)
  next
    case False
    then show ?thesis using spec Some by (simp add: process_refines_def)
  qed
qed

lemma process_refines_cancel:
  assumes inv: "mc_inv mc"
  shows "process_refines C mc (CancelSendFunds cn)"
proof (cases "hm_get (mp_local (st_pending mc)) (cn_request_id cn)")
  case None
  then show ?thesis
    by (simp add: process_refines_def process_cancel_send_funds_def)
next
  case (Some pt)
  obtain d where d: "uint d = hm_total frozen (hm_remove (cn_request_id cn) (mp_local (st_pending mc)))"
    and run: "process_cancel_send_funds mc cn = Ok (processed_cancel mc (cn_request_id cn) d,
      \<lparr> po_incoming_message = Some (ImCancel \<lparr> ic_pending_transaction = pt, ic_incoming_cancel = cn \<rparr>),
        po_mc_mutations = [RemoveLocalPendingTransaction (cn_request_id cn), SetLocalPendingDebt d] \<rparr>)"
    using process_cancel_runs [OF inv Some] by blast
  show ?thesis
    by (rule process_refinesI [where mc' = "processed_cancel mc (cn_request_id cn) d"])
      (use run Some mc_inv_processed_cancel [OF inv Some d]
        in \<open>auto simp: processed_cancel_def mc_setters in_view_unfold hm_get_remove\<close>)
qed

lemma process_refines_collect:
  assumes inv: "mc_inv mc"
  shows "process_refines C mc (CollectSendFunds cl)"
proof (cases "hm_get (mp_local (st_pending mc)) (cl_request_id cl)")
  case None
  then show ?thesis
    by (simp add: process_refines_def process_collect_send_funds_def)
next
  case (Some pt)
  show ?thesis
  proof (cases "lg_collect_allowed C pt cl")
    case True
    obtain d b where d: "uint d = hm_total frozen (hm_remove (cl_request_id cl) (mp_local (st_pending mc)))"
      and b: "sint b = sint (mb_balance (st_balance mc)) - frozen pt"
      and run: "process_collect_send_funds C mc cl = Ok (processed_collect mc (cl_request_id cl) d b,
        \<lparr> po_incoming_message = Some (ImCollect \<lparr> il_pending_transaction = pt, il_incoming_collect = cl \<rparr>),
          po_mc_mutations = [RemoveLocalPendingTransaction (cl_request_id cl), SetLocalPendingDebt d, SetBalance b] \<rparr>)"
      using process_collect_runs [OF inv Some True] by blast
    show ?thesis
      by (rule process_refinesI [where mc' = "processed_collect mc (cl_request_id cl) d b"])
        (use run Some True b mc_inv_processed_collect [OF inv Some d b]
          in \<open>auto simp: processed_collect_def processed_cancel_def mc_setters in_view_unfold hm_get_remove\<close>)
  next
    case False
    then show ?thesis using process_collect_refused [OF Some] Some
      by (simp add: process_refines_def)
  qed
qed

lemma process_refines_ledger:
  assumes "mc_inv mc"
  shows "process_refines C mc op"
  by (cases op) (simp_all add: assms process_refines_status process_refines_set_max_debt process_refines_request
      process_refines_response process_refines_cancel process_refines_collect)

interpretation process: ledger_impl C "process_operation C" in_view mc_inv process_adm for C
proof unfold_locales
  fix s op s' out
  assume "mc_inv s" "process_adm (in_view s) op" "process_operation C s op = Ok (s', out)"
  then show "ledger_step C (in_view s) op = Some (in_view s')"
    using process_refines_ledger [of s C op] by (auto simp: process_refines_def)
next
  fix s op s' out
  assume "mc_inv s" "process_operation C s op = Ok (s', out)"
  then show "mc_inv s'"
    using process_refines_ledger [of s C op] by (auto simp: process_refines_def)
next
  fix L op L'
  assume "ledger_step C L op = Some L'"
  then show "process_adm L op"
    by (auto simp: process_adm_def lg_request_allowed_def split: friend_tc_op.split if_splits)
next
  fix s op e
  assume "mc_inv s" "process_operation C s op = Err e"
  then show "ledger_step C (in_view s) op = None"
    using process_refines_ledger [of s C op] by (auto simp: process_refines_def)
next
  fix s op
  assume "mc_inv s"
  then show "process_operation C s op \<noteq> Panic"
    using process_refines_ledger [of s C op] by (auto simp: process_refines_def)
qed

text \<open>The batch loop of the code is the batch of the interface.\<close>

lemma process_operations_from_steps:
  "case process.steps C mc ops of
     Ok r \<Rightarrow> process_operations_from C i mc ops = Ok r
   | Err e \<Rightarrow> \<exists>j. i \<le> j \<and> j < i + length ops
       \<and> process_operations_from C i mc ops = Err \<lparr> pe_index = j, pe_process_trans_error = e \<rparr>
   | Panic \<Rightarrow> process_operations_from C i mc ops = Panic"
proof (induction ops arbitrary: i mc)
  case Nil
  then show ?case by simp
next
  case (Cons op ops)
  show ?case
  proof (cases "process_operation C mc op")
    case (Ok r)
    obtain t out where r: "r = (t, out)" by (cases r)
    show ?thesis
      using Cons.IH [where mc = t and i = "Suc i"] Ok r
      by (cases "process.steps C t ops") (auto intro: exI [of _ "_ :: nat"] dest: Suc_leD)
  qed auto
qed

lemma process_list_Ok:
  "process_operations_list C mc ops = Ok r \<longleftrightarrow> process.steps C mc ops = Ok r"
  using process_operations_from_steps [where C = C and mc = mc and ops = ops and i = 0]
  by (auto simp: process_operations_list_def split: res.splits)

lemma process_list_inv: "mc_inv mc \<Longrightarrow> process_operations_list C mc ops = Ok (mc', outs) \<Longrightarrow> mc_inv mc'"
  by (auto simp: process_list_Ok dest: process.steps_good)

lemma process_list_not_Panic: "mc_inv mc \<Longrightarrow> process_operations_list C mc ops \<noteq> Panic"
  using process_operations_from_steps [where C = C and mc = mc and ops = ops and i = 0] process.steps_Panic [of mc C ops]
  by (auto simp: process_operations_list_def split: res.splits)

lemma process_list_replay:
  "mc_inv mc \<Longrightarrow> process_operations_list C mc ops = Ok (mc', outs) \<Longrightarrow>
     mc_replay mc (concat (map po_mc_mutations outs)) = Some mc'"
  unfolding process_list_Ok
proof (induction ops arbitrary: mc outs)
  case Nil
  then show ?case by simp
next
  case (Cons op ops)
  then obtain t out outs' where step: "process_operation C mc op = Ok (t, out)"
    and rest: "process.steps C t ops = Ok (mc', outs')" "outs = out # outs'"
    by (auto simp: res_bind_Ok)
  have "mc_inv t" "mc_replay mc (po_mc_mutations out) = Some t"
    using process_refines_ledger [OF Cons.prems(1), of C op] step by (auto simp: process_refines_def)
  then show ?case
    using Cons.IH [of t outs'] rest by (simp add: mc_replay_append)
qed

end
