(* ===== verification/McOutgoing.thy ===== *)
theory McOutgoing
  imports Ledger
begin

text \<open>
  Queueing operations for the next move token, from
  \<open>components/funder/src/mutual_credit/outgoing.rs\<close>. An \<open>OutgoingMc\<close> is a copy of the
  credit line; a queued operation returns the mutated copy and the list of its mutations.
\<close>

section \<open>State and errors\<close>

record outgoing_mc =
  om_mutual_credit :: mutual_credit

definition outgoing_mc_new :: "mutual_credit \<Rightarrow> outgoing_mc" where
  "outgoing_mc_new mc = \<lparr> om_mutual_credit = mc \<rparr>"

datatype queue_operation_error =
    QRemoteMaxDebtTooLarge
  | QInvalidRoute
  | QPkPairNotInRoute
  | QCreditsCalcOverflow
  | QInsufficientTrust
  | QRequestAlreadyExists
  | QRequestDoesNotExist
  | QInvalidResponseSignature
  | QRemoteRequestsClosed
  | QNotExpectingResponse
  | QNotExpectingCollect
  | QInvalidSrcPlainLock
  | QInvalidDestPlainLock
  | QDestPaymentExceedsTotal

type_synonym queue_result = "(outgoing_mc \<times> mc_mutation list, queue_operation_error) res"

definition om_mutate :: "outgoing_mc \<Rightarrow> mc_mutation \<Rightarrow> outgoing_mc option" where
  "om_mutate om m = map_option (\<lambda>mc. om\<lparr> om_mutual_credit := mc \<rparr>) (mc_mutate (om_mutual_credit om) m)"

section \<open>Operations\<close>

definition queue_enable_requests :: "outgoing_mc \<Rightarrow> queue_result" where
  "queue_enable_requests om =
     (let mc_mutation = SetLocalRequestsStatus Open in
      res_bind (unwrap (om_mutate om mc_mutation)) (\<lambda>om. Ok (om, [mc_mutation])))"

definition queue_disable_requests :: "outgoing_mc \<Rightarrow> queue_result" where
  "queue_disable_requests om =
     (let mc_mutation = SetLocalRequestsStatus Closed in
      res_bind (unwrap (om_mutate om mc_mutation)) (\<lambda>om. Ok (om, [mc_mutation])))"

definition queue_set_remote_max_debt :: "outgoing_mc \<Rightarrow> u128 \<Rightarrow> queue_result" where
  "queue_set_remote_max_debt om proposed_max_debt =
     (if MAX_FUNDER_DEBT < proposed_max_debt then Err QRemoteMaxDebtTooLarge
      else
        (let mc_mutation = McSetRemoteMaxDebt proposed_max_debt in
         res_bind (unwrap (om_mutate om mc_mutation)) (\<lambda>om. Ok (om, [mc_mutation]))))"

definition queue_request_send_funds :: "outgoing_mc \<Rightarrow> request_send_funds_op \<Rightarrow> queue_result" where
  "queue_request_send_funds om rq =
     (let mc = om_mutual_credit om in
      if \<not> route_is_valid (rq_route rq) then Err QInvalidRoute
      else if rq_total_dest_payment rq < rq_dest_payment rq then Err QDestPaymentExceedsTotal
      else
        res_bind (ok_or (find_pk_pair (rq_route rq) (mi_local_public_key (st_idents mc))
            (mi_remote_public_key (st_idents mc))) QPkPairNotInRoute) (\<lambda>local_index.
        if \<not> is_open (mr_remote (st_requests_status mc)) then Err QRemoteRequestsClosed
        else
          res_bind (ok_or (u_checked_add (rq_dest_payment rq) (rq_left_fees rq)) QCreditsCalcOverflow)
            (\<lambda>own_freeze_credits.
          let bal = st_balance mc in
          res_bind (ok_or (u_checked_add (mb_local_pending_debt bal) own_freeze_credits) QCreditsCalcOverflow)
            (\<lambda>new_local_pending_debt.
          res_bind (ok_or (checked_sub_unsigned (mb_balance bal) new_local_pending_debt) QCreditsCalcOverflow)
            (\<lambda>sub.
          res_bind (ok_or (checked_add_unsigned sub (mb_local_max_debt bal)) QCreditsCalcOverflow)
            (\<lambda>margin.
          if sint margin < 0 then Err QInsufficientTrust
          else if hm_contains (mp_local (st_pending mc)) (rq_request_id rq) then Err QRequestAlreadyExists
          else
            let mutation1 = InsertLocalPendingTransaction (create_pending_transaction rq) in
            res_bind (unwrap (om_mutate om mutation1)) (\<lambda>om.
            let mutation2 = SetLocalPendingDebt new_local_pending_debt in
            res_bind (unwrap (om_mutate om mutation2)) (\<lambda>om.
            Ok (om, [mutation1, mutation2])))))))))"

definition queue_response_send_funds ::
  "crypto_api \<Rightarrow> outgoing_mc \<Rightarrow> signature response_send_funds_op \<Rightarrow> queue_result" where
  "queue_response_send_funds C om rs =
     res_bind (ok_or (hm_get (mp_remote (st_pending (om_mutual_credit om))) (rs_request_id rs)) QRequestDoesNotExist)
       (\<lambda>pending_transaction.
     let response_signature_buffer = create_response_signature_buffer C rs pending_transaction in
     res_bind (unwrap (route_last (pt_route pending_transaction))) (\<lambda>dest_public_key.
     if \<not> verify_signature C response_signature_buffer dest_public_key (rs_signature rs)
     then Err QInvalidResponseSignature
     else if pt_stage pending_transaction \<noteq> StageRequest then Err QNotExpectingResponse
     else
       let mc_mutation = SetRemotePendingTransactionStage (rs_request_id rs) (StageResponse (rs_dest_hashed_lock rs)) in
       res_bind (unwrap (om_mutate om mc_mutation)) (\<lambda>om. Ok (om, [mc_mutation]))))"

definition queue_cancel_send_funds :: "outgoing_mc \<Rightarrow> cancel_send_funds_op \<Rightarrow> queue_result" where
  "queue_cancel_send_funds om cn =
     res_bind (ok_or (hm_get (mp_remote (st_pending (om_mutual_credit om))) (cn_request_id cn)) QRequestDoesNotExist)
       (\<lambda>pending_transaction.
     res_bind (unwrap (u_checked_add (pt_dest_payment pending_transaction) (pt_left_fees pending_transaction)))
       (\<lambda>freeze_credits.
     let mutation1 = RemoveRemotePendingTransaction (cn_request_id cn) in
     res_bind (unwrap (om_mutate om mutation1)) (\<lambda>om.
     res_bind (unwrap (u_checked_sub (mb_remote_pending_debt (st_balance (om_mutual_credit om))) freeze_credits))
       (\<lambda>new_remote_pending_debt.
     let mutation2 = SetRemotePendingDebt new_remote_pending_debt in
     res_bind (unwrap (om_mutate om mutation2)) (\<lambda>om. Ok (om, [mutation1, mutation2]))))))"

definition queue_collect_send_funds ::
  "crypto_api \<Rightarrow> outgoing_mc \<Rightarrow> collect_send_funds_op \<Rightarrow> queue_result" where
  "queue_collect_send_funds C om cl =
     res_bind (ok_or (hm_get (mp_remote (st_pending (om_mutual_credit om))) (cl_request_id cl)) QRequestDoesNotExist)
       (\<lambda>pending_transaction.
     case pt_stage pending_transaction of
       StageRequest \<Rightarrow> Err QNotExpectingCollect
     | StageResponse dest_hashed_lock \<Rightarrow>
         if plain_lock_hash C (cl_src_plain_lock cl) \<noteq> pt_src_hashed_lock pending_transaction
         then Err QInvalidSrcPlainLock
         else if plain_lock_hash C (cl_dest_plain_lock cl) \<noteq> dest_hashed_lock then Err QInvalidDestPlainLock
         else
           res_bind (unwrap (u_checked_add (pt_dest_payment pending_transaction) (pt_left_fees pending_transaction)))
             (\<lambda>freeze_credits.
           let mutation1 = RemoveRemotePendingTransaction (cl_request_id cl) in
           res_bind (unwrap (om_mutate om mutation1)) (\<lambda>om.
           res_bind (unwrap (u_checked_sub (mb_remote_pending_debt (st_balance (om_mutual_credit om))) freeze_credits))
             (\<lambda>new_remote_pending_debt.
           let mutation2 = SetRemotePendingDebt new_remote_pending_debt in
           res_bind (unwrap (om_mutate om mutation2)) (\<lambda>om.
           res_bind (unwrap (checked_add_unsigned (mb_balance (st_balance (om_mutual_credit om))) freeze_credits))
             (\<lambda>new_balance.
           let mutation3 = SetBalance new_balance in
           res_bind (unwrap (om_mutate om mutation3)) (\<lambda>om.
           Ok (om, [mutation1, mutation2, mutation3]))))))))"

fun queue_operation :: "crypto_api \<Rightarrow> outgoing_mc \<Rightarrow> friend_tc_op \<Rightarrow> queue_result" where
  "queue_operation C om EnableRequests = queue_enable_requests om"
| "queue_operation C om DisableRequests = queue_disable_requests om"
| "queue_operation C om (SetRemoteMaxDebt proposed_max_debt) = queue_set_remote_max_debt om proposed_max_debt"
| "queue_operation C om (RequestSendFunds rq) = queue_request_send_funds om rq"
| "queue_operation C om (ResponseSendFunds rs) = queue_response_send_funds C om rs"
| "queue_operation C om (CancelSendFunds cn) = queue_cancel_send_funds om cn"
| "queue_operation C om (CollectSendFunds cl) = queue_collect_send_funds C om cl"

text \<open>
  Queueing a batch: the operations one after the other on the same \<open>OutgoingMc\<close>, their
  mutations appended, as the sender does when it fills a move token.
\<close>

fun queue_operations :: "crypto_api \<Rightarrow> outgoing_mc \<Rightarrow> friend_tc_op list \<Rightarrow> queue_result" where
  "queue_operations C om [] = Ok (om, [])"
| "queue_operations C om (op # ops) =
     res_bind (queue_operation C om op) (\<lambda>(om, ms).
     res_bind (queue_operations C om ops) (\<lambda>(om, ns). Ok (om, ms @ ns)))"

lemmas queue_defs = queue_enable_requests_def queue_disable_requests_def queue_set_remote_max_debt_def
  queue_request_send_funds_def queue_response_send_funds_def queue_cancel_send_funds_def
  queue_collect_send_funds_def

section \<open>Requests\<close>

lemma lg_margin_of_mc:
  assumes "mc_inv mc"
  shows "lg_margin (lg_of_mc mc) rq = sint (mb_balance (st_balance mc)) + uint (mb_local_max_debt (st_balance mc))
    - uint (mb_local_pending_debt (st_balance mc)) - (uint (rq_dest_payment rq) + uint (rq_left_fees rq))"
  using mc_inv_frozen [OF assms] by (simp add: lg_margin_def lg_of_mc_def frozen_create)

definition queued_request :: "mutual_credit \<Rightarrow> request_send_funds_op \<Rightarrow> u128 \<Rightarrow> mutual_credit" where
  "queued_request mc rq d = set_local_pending_debt (insert_local_pending_transaction mc (create_pending_transaction rq)) d"

text \<open>
  The checks of a request in exact arithmetic: when the margin is in range no intermediate
  result overflows, because the debt limit is at most \<open>MAX_FUNDER_DEBT\<close>.
\<close>

lemma freeze_checks_succeed:
  assumes "0 \<le> sint b + uint max_debt - uint debt - (uint dest + uint fees)"
    and "sint b + uint max_debt - uint debt - (uint dest + uint fees) < 2 ^ 127"
    and "max_debt \<le> MAX_FUNDER_DEBT"
  obtains c d t margin where "u_checked_add dest fees = Some c" "u_checked_add debt c = Some d"
    "checked_sub_unsigned b d = Some t" "checked_add_unsigned t max_debt = Some margin" "0 \<le> sint margin"
    "uint d = uint debt + (uint dest + uint fees)"
proof -
  note bounds = i128_range [of b] u128_range [of debt] u128_range [of dest] u128_range [of fees]
    u128_range [of max_debt] assms(1,2) assms(3) [unfolded le_MAX_FUNDER_DEBT]
  have small: "uint dest + uint fees < 2 ^ 128" "uint debt + (uint dest + uint fees) < 2 ^ 128"
    "- (2 ^ 127) \<le> sint b - (uint debt + (uint dest + uint fees))"
    "sint b - (uint debt + (uint dest + uint fees)) \<le> 2 ^ 127 - 1"
    using bounds pow_128 by linarith+
  then have "u_checked_add dest fees \<noteq> None"
    by (simp add: u_checked_add_None)
  then obtain c where c: "u_checked_add dest fees = Some c" "uint c = uint dest + uint fees"
    by (auto simp: u_checked_add_Some)
  then have "u_checked_add debt c \<noteq> None"
    using small by (simp add: u_checked_add_None)
  then obtain d where d: "u_checked_add debt c = Some d" "uint d = uint debt + uint c"
    by (auto simp: u_checked_add_Some)
  then have "checked_sub_unsigned b d \<noteq> None"
    using small c by (simp add: i128_sub_None i128_fits)
  then obtain t where t: "checked_sub_unsigned b d = Some t" "sint t = sint b - uint d"
    by (auto simp: i128_sub_Some)
  then have "checked_add_unsigned t max_debt \<noteq> None"
    using bounds c d by (simp add: i128_add_None i128_fits)
  then obtain m where m: "checked_add_unsigned t max_debt = Some m" "sint m = sint t + uint max_debt"
    by (auto simp: i128_add_Some)
  show thesis
    using that [OF c(1) d(1) t(1) m(1)] c d t m bounds by simp
qed

lemma queue_request_allowed:
  assumes inv: "mc_inv (om_mutual_credit om)" and run: "queue_request_send_funds om rq = Ok r"
  shows "lg_request_allowed (lg_of_mc (om_mutual_credit om)) rq"
proof -
  from run obtain c d t margin where steps: "u_checked_add (rq_dest_payment rq) (rq_left_fees rq) = Some c"
      "u_checked_add (mb_local_pending_debt (st_balance (om_mutual_credit om))) c = Some d"
      "checked_sub_unsigned (mb_balance (st_balance (om_mutual_credit om))) d = Some t"
      "checked_add_unsigned t (mb_local_max_debt (st_balance (om_mutual_credit om))) = Some margin"
      "\<not> sint margin < 0"
    and rest: "route_is_valid (rq_route rq)" "\<not> rq_total_dest_payment rq < rq_dest_payment rq"
      "find_pk_pair (rq_route rq) (mi_local_public_key (st_idents (om_mutual_credit om)))
         (mi_remote_public_key (st_idents (om_mutual_credit om))) \<noteq> None"
      "is_open (mr_remote (st_requests_status (om_mutual_credit om)))"
      "hm_get (mp_local (st_pending (om_mutual_credit om))) (rq_request_id rq) = None"
    by (auto simp: queue_request_send_funds_def Let_def res_simps hm_contains_def split: if_splits)
  have "sint margin = lg_margin (lg_of_mc (om_mutual_credit om)) rq"
    using steps by (simp add: lg_margin_of_mc [OF inv] arith_facts)
  then show ?thesis
    using rest steps(5) i128_range(2) [of margin] by (simp add: lg_request_allowed_def lg_of_mc_def)
qed

lemma queue_request_runs:
  assumes inv: "mc_inv (om_mutual_credit om)" and allowed: "lg_request_allowed (lg_of_mc (om_mutual_credit om)) rq"
  obtains d where "uint d = uint (mb_local_pending_debt (st_balance (om_mutual_credit om))) + frozen (create_pending_transaction rq)"
    and "queue_request_send_funds om rq = Ok (\<lparr> om_mutual_credit = queued_request (om_mutual_credit om) rq d \<rparr>,
      [InsertLocalPendingTransaction (create_pending_transaction rq), SetLocalPendingDebt d])"
proof -
  from allowed have margin: "0 \<le> lg_margin (lg_of_mc (om_mutual_credit om)) rq"
    "lg_margin (lg_of_mc (om_mutual_credit om)) rq < 2 ^ 127"
    by (simp_all add: lg_request_allowed_def)
  from inv have "mb_local_max_debt (st_balance (om_mutual_credit om)) \<le> MAX_FUNDER_DEBT"
    by (simp add: mc_inv_def Let_def)
  from freeze_checks_succeed [OF margin [unfolded lg_margin_of_mc [OF inv]] this]
  obtain c d t m where "u_checked_add (rq_dest_payment rq) (rq_left_fees rq) = Some c"
      "u_checked_add (mb_local_pending_debt (st_balance (om_mutual_credit om))) c = Some d"
      "checked_sub_unsigned (mb_balance (st_balance (om_mutual_credit om))) d = Some t"
      "checked_add_unsigned t (mb_local_max_debt (st_balance (om_mutual_credit om))) = Some m" "0 \<le> sint m"
      "uint d = uint (mb_local_pending_debt (st_balance (om_mutual_credit om)))
         + (uint (rq_dest_payment rq) + uint (rq_left_fees rq))" .
  then show thesis
    using allowed
    by (intro that [of d]) (auto simp: queue_request_send_funds_def Let_def om_mutate_def hm_contains_def
        queued_request_def lg_request_allowed_def lg_of_mc_def frozen_create)
qed

lemma queue_request_not_Panic: "queue_request_send_funds om rq \<noteq> Panic"
  by (auto simp: queue_request_send_funds_def Let_def res_simps om_mutate_def)

lemma mc_inv_queued_request:
  assumes inv: "mc_inv mc" and allowed: "lg_request_allowed (lg_of_mc mc) rq"
    and d: "uint d = uint (mb_local_pending_debt (st_balance mc)) + frozen (create_pending_transaction rq)"
  shows "mc_inv (queued_request mc rq d)"
proof -
  let ?pt = "create_pending_transaction rq"
  have fresh: "hm_get (mp_local (st_pending mc)) (rq_request_id rq) = None"
    using allowed by (simp add: lg_request_allowed_def lg_of_mc_def)
  have "lg_margin (lg_of_mc mc) rq \<ge> 0"
    using allowed by (simp add: lg_request_allowed_def)
  then have bound: "uint d \<le> sint (mb_balance (st_balance mc)) + uint (mb_local_max_debt (st_balance mc))"
    by (simp add: d lg_margin_of_mc [OF inv] frozen_create)
  have limit: "uint (mb_local_max_debt (st_balance mc)) \<le> 2 ^ 127 - 1"
    using inv by (simp add: mc_inv_def Let_def le_MAX_FUNDER_DEBT)
  have id: "pt_request_id ?pt = rq_request_id rq"
    by (simp add: create_pending_transaction_def)
  have "frozen ?pt < 2 ^ 128"
    using d u128_range(2) [of d] u128_range(1) [of "mb_local_pending_debt (st_balance mc)"] by linarith
  then have "pt_ok ?pt"
    using allowed by (simp add: pt_ok_def lg_request_allowed_def create_pending_transaction_def)
  then show ?thesis
    using inv d bound limit fresh
    by (simp add: mc_inv_def Let_def queued_request_def mc_setters id pending_ok_insert hm_total_insert_fresh)
qed

lemma lg_of_queued_request:
  "lg_of_mc (queued_request mc rq d) =
     (lg_of_mc mc)\<lparr> lg_sender_pending := (lg_sender_pending (lg_of_mc mc))(rq_request_id rq \<mapsto> create_pending_transaction rq) \<rparr>"
  by (auto simp: lg_of_mc_def queued_request_def mc_setters hm_get_insert create_pending_transaction_def)

section \<open>Responses, cancellations and collections\<close>

definition queued_response :: "mutual_credit \<Rightarrow> uid \<Rightarrow> pending_transaction \<Rightarrow> hashed_lock \<Rightarrow> mutual_credit" where
  "queued_response mc k pt lock = mc\<lparr> st_pending := (st_pending mc)\<lparr> mp_remote :=
     hm_insert k (pt\<lparr> pt_stage := StageResponse lock \<rparr>) (mp_remote (st_pending mc)) \<rparr> \<rparr>"

definition queued_cancel :: "mutual_credit \<Rightarrow> uid \<Rightarrow> u128 \<Rightarrow> mutual_credit" where
  "queued_cancel mc k d = set_remote_pending_debt (remove_remote_pending_transaction mc k) d"

definition queued_collect :: "mutual_credit \<Rightarrow> uid \<Rightarrow> u128 \<Rightarrow> i128 \<Rightarrow> mutual_credit" where
  "queued_collect mc k d b = set_balance (queued_cancel mc k d) b"

lemma queue_response_spec:
  assumes inv: "mc_inv (om_mutual_credit om)"
    and pt: "hm_get (mp_remote (st_pending (om_mutual_credit om))) (rs_request_id rs) = Some pt"
  shows "if lg_response_allowed C pt rs
    then queue_response_send_funds C om rs =
      Ok (\<lparr> om_mutual_credit = queued_response (om_mutual_credit om) (rs_request_id rs) pt (rs_dest_hashed_lock rs) \<rparr>,
        [SetRemotePendingTransactionStage (rs_request_id rs) (StageResponse (rs_dest_hashed_lock rs))])
    else \<exists>e. queue_response_send_funds C om rs = Err e"
proof -
  have "route_is_valid (pt_route pt)"
    using inv pending_ok_get [OF _ pt] by (simp add: mc_inv_def Let_def pt_ok_def)
  then show ?thesis
    using pt by (auto simp: queue_response_send_funds_def Let_def route_last_valid lg_response_allowed_def
        om_mutate_def set_remote_pending_transaction_stage_def queued_response_def)
qed

lemma mc_inv_queued_response:
  assumes "mc_inv mc" "hm_get (mp_remote (st_pending mc)) k = Some pt"
  shows "mc_inv (queued_response mc k pt lock)"
  using assms by (simp add: mc_inv_def Let_def queued_response_def pending_ok_stage pending_total_stage)

lemma queue_cancel_runs:
  assumes inv: "mc_inv (om_mutual_credit om)"
    and pt: "hm_get (mp_remote (st_pending (om_mutual_credit om))) (cn_request_id cn) = Some pt"
  obtains d where "uint d = hm_total frozen (hm_remove (cn_request_id cn) (mp_remote (st_pending (om_mutual_credit om))))"
    and "queue_cancel_send_funds om cn = Ok (\<lparr> om_mutual_credit = queued_cancel (om_mutual_credit om) (cn_request_id cn) d \<rparr>,
      [RemoveRemotePendingTransaction (cn_request_id cn), SetRemotePendingDebt d])"
proof -
  let ?mc = "om_mutual_credit om"
  have rem: "pending_ok (mp_remote (st_pending ?mc))"
    "uint (mb_remote_pending_debt (st_balance ?mc)) = hm_total frozen (mp_remote (st_pending ?mc))"
    using inv by (simp_all add: mc_inv_def Let_def)
  then obtain c where c: "u_checked_add (pt_dest_payment pt) (pt_left_fees pt) = Some c" "uint c = frozen pt"
    using frozen_add pending_ok_get [OF _ pt] by blast
  obtain d where "u_checked_sub (mb_remote_pending_debt (st_balance ?mc)) c = Some d"
    "uint d = hm_total frozen (hm_remove (cn_request_id cn) (mp_remote (st_pending ?mc)))"
    using release_debt [OF rem(1) pt rem(2) c(2)] by blast
  with c pt show thesis
    by (intro that [of d]) (simp_all add: queue_cancel_send_funds_def Let_def om_mutate_def queued_cancel_def
        remove_remote_pending_transaction_def)
qed

lemma mc_inv_queued_cancel:
  assumes inv: "mc_inv mc" and pt: "hm_get (mp_remote (st_pending mc)) k = Some pt"
    and d: "uint d = hm_total frozen (hm_remove k (mp_remote (st_pending mc)))"
  shows "mc_inv (queued_cancel mc k d)"
proof -
  have "uint d \<le> uint (mb_remote_pending_debt (st_balance mc))"
    using inv pt d pending_total_remove [OF _ pt] by (simp add: mc_inv_def Let_def)
  then show ?thesis
    using inv d by (simp add: mc_inv_def Let_def queued_cancel_def mc_setters pending_ok_remove)
qed

lemma queue_collect_runs:
  assumes inv: "mc_inv (om_mutual_credit om)"
    and pt: "hm_get (mp_remote (st_pending (om_mutual_credit om))) (cl_request_id cl) = Some pt"
    and allowed: "lg_collect_allowed C pt cl"
  obtains d b where "uint d = hm_total frozen (hm_remove (cl_request_id cl) (mp_remote (st_pending (om_mutual_credit om))))"
    and "sint b = sint (mb_balance (st_balance (om_mutual_credit om))) + frozen pt"
    and "queue_collect_send_funds C om cl = Ok (\<lparr> om_mutual_credit = queued_collect (om_mutual_credit om) (cl_request_id cl) d b \<rparr>,
      [RemoveRemotePendingTransaction (cl_request_id cl), SetRemotePendingDebt d, SetBalance b])"
proof -
  let ?mc = "om_mutual_credit om"
  have rem: "pending_ok (mp_remote (st_pending ?mc))"
    "uint (mb_remote_pending_debt (st_balance ?mc)) = hm_total frozen (mp_remote (st_pending ?mc))"
    "sint (mb_balance (st_balance ?mc)) + uint (mb_remote_pending_debt (st_balance ?mc)) \<le> 2 ^ 127 - 1"
    using inv by (simp_all add: mc_inv_def Let_def)
  then obtain c where c: "u_checked_add (pt_dest_payment pt) (pt_left_fees pt) = Some c" "uint c = frozen pt"
    using frozen_add pending_ok_get [OF _ pt] by blast
  obtain d where d: "u_checked_sub (mb_remote_pending_debt (st_balance ?mc)) c = Some d"
    "uint d = hm_total frozen (hm_remove (cl_request_id cl) (mp_remote (st_pending ?mc)))"
    using release_debt [OF rem(1) pt rem(2) c(2)] by blast
  have "uint c \<le> uint (mb_remote_pending_debt (st_balance ?mc))"
    using pending_frozen_le [OF rem(1) pt] c rem by simp
  then have "i_fits TYPE(128) (sint (mb_balance (st_balance ?mc)) + uint c)"
    using rem(3) i128_range(1) [of "mb_balance (st_balance ?mc)"] u128_range(1) [of c]
    unfolding i128_fits by linarith
  then obtain b where "checked_add_unsigned (mb_balance (st_balance ?mc)) c = Some b"
    "sint b = sint (mb_balance (st_balance ?mc)) + uint c"
    by (metis i128_add_None i128_add_Some option.exhaust)
  with c d pt allowed show thesis
    by (intro that [of d b]) (auto simp: queue_collect_send_funds_def Let_def om_mutate_def queued_collect_def
        queued_cancel_def remove_remote_pending_transaction_def set_remote_pending_debt_def lg_collect_allowed_def)
qed

lemma queue_collect_refused:
  assumes "hm_get (mp_remote (st_pending (om_mutual_credit om))) (cl_request_id cl) = Some pt"
    and "\<not> lg_collect_allowed C pt cl"
  shows "\<exists>e. queue_collect_send_funds C om cl = Err e"
  using assms
  by (cases "pt_stage pt") (auto simp: queue_collect_send_funds_def lg_collect_allowed_def)

lemma mc_inv_queued_collect:
  assumes inv: "mc_inv mc" and pt: "hm_get (mp_remote (st_pending mc)) k = Some pt"
    and d: "uint d = hm_total frozen (hm_remove k (mp_remote (st_pending mc)))"
    and b: "sint b = sint (mb_balance (st_balance mc)) + frozen pt"
  shows "mc_inv (queued_collect mc k d b)"
proof -
  note facts = inv [unfolded mc_inv_def Let_def]
  have "uint d = uint (mb_remote_pending_debt (st_balance mc)) - frozen pt"
    using facts pt d pending_total_remove [OF _ pt] by simp
  with b facts have "- (2 ^ 127 - 1) \<le> sint b - uint (mb_local_pending_debt (st_balance mc))"
    "sint b + uint d \<le> 2 ^ 127 - 1"
    using frozen_nonneg [of pt] by linarith+
  then show ?thesis
    using inv d
    by (simp add: mc_inv_def Let_def queued_collect_def queued_cancel_def mc_setters pending_ok_remove)
qed

section \<open>Refinement of the ledger\<close>

definition om_view :: "outgoing_mc \<Rightarrow> ledger" where
  "om_view om = lg_of_mc (om_mutual_credit om)"

definition om_inv :: "outgoing_mc \<Rightarrow> bool" where
  "om_inv om = mc_inv (om_mutual_credit om)"

text \<open>The one check the queue leaves to its caller.\<close>

definition queue_adm :: "ledger \<Rightarrow> friend_tc_op \<Rightarrow> bool" where
  "queue_adm L op = (op = DisableRequests \<longrightarrow> lg_sender_open L)"

text \<open>Each operation either runs as the ledger says and keeps the invariant, or is refused with an error.\<close>

definition queue_refines :: "crypto_api \<Rightarrow> outgoing_mc \<Rightarrow> friend_tc_op \<Rightarrow> bool" where
  "queue_refines C om op =
     ((\<exists>om' ms. queue_operation C om op = Ok (om', ms) \<and> om_inv om'
        \<and> mc_replay (om_mutual_credit om) ms = Some (om_mutual_credit om')
        \<and> (queue_adm (om_view om) op \<longrightarrow> ledger_step C (om_view om) op = Some (om_view om')))
      \<or> (\<exists>e. queue_operation C om op = Err e \<and> ledger_step C (om_view om) op = None))"

lemma queue_refinesI:
  "queue_operation C om op = Ok (\<lparr> om_mutual_credit = mc \<rparr>, ms) \<Longrightarrow> mc_inv mc
     \<Longrightarrow> mc_replay (om_mutual_credit om) ms = Some mc
     \<Longrightarrow> (queue_adm (om_view om) op \<Longrightarrow> ledger_step C (om_view om) op = Some (lg_of_mc mc))
     \<Longrightarrow> queue_refines C om op"
  by (force simp: queue_refines_def om_inv_def om_view_def)

lemma queue_refines_status:
  assumes "om_inv om"
  shows "queue_refines C om EnableRequests" "queue_refines C om DisableRequests"
proof -
  have inv: "mc_inv (set_local_requests_status (om_mutual_credit om) s)" for s
    using assms by (simp add: om_inv_def mc_inv_def Let_def set_local_requests_status_def)
  show "queue_refines C om EnableRequests"
    by (rule queue_refinesI [where mc = "set_local_requests_status (om_mutual_credit om) Open"])
      (use inv in \<open>auto simp: queue_defs om_mutate_def om_view_def lg_of_mc_def set_local_requests_status_def\<close>)
  show "queue_refines C om DisableRequests"
    by (rule queue_refinesI [where mc = "set_local_requests_status (om_mutual_credit om) Closed"])
      (use inv in \<open>auto simp: queue_defs om_mutate_def om_view_def lg_of_mc_def set_local_requests_status_def queue_adm_def\<close>)
qed

lemma queue_refines_set_max_debt:
  assumes "om_inv om"
  shows "queue_refines C om (SetRemoteMaxDebt d)"
proof (cases "d \<le> MAX_FUNDER_DEBT")
  case True
  then have inv: "mc_inv (set_remote_max_debt (om_mutual_credit om) d)"
    using assms by (simp add: om_inv_def mc_inv_def Let_def set_remote_max_debt_def)
  show ?thesis
    by (rule queue_refinesI [where mc = "set_remote_max_debt (om_mutual_credit om) d"])
      (use inv True in \<open>auto simp: queue_defs om_mutate_def om_view_def lg_of_mc_def set_remote_max_debt_def\<close>)
next
  case False
  then show ?thesis by (auto simp: queue_refines_def queue_defs)
qed

lemma queue_refines_request:
  assumes "om_inv om"
  shows "queue_refines C om (RequestSendFunds rq)"
proof (cases "lg_request_allowed (om_view om) rq")
  case True
  have inv: "mc_inv (om_mutual_credit om)" and allowed: "lg_request_allowed (lg_of_mc (om_mutual_credit om)) rq"
    using assms True by (simp_all add: om_inv_def om_view_def)
  show ?thesis
  proof (rule queue_request_runs [OF inv allowed], rule queue_refinesI)
    fix d
    assume d: "uint d = uint (mb_local_pending_debt (st_balance (om_mutual_credit om))) + frozen (create_pending_transaction rq)"
      and run: "queue_request_send_funds om rq = Ok (\<lparr> om_mutual_credit = queued_request (om_mutual_credit om) rq d \<rparr>,
        [InsertLocalPendingTransaction (create_pending_transaction rq), SetLocalPendingDebt d])"
    show "queue_operation C om (RequestSendFunds rq) = Ok (\<lparr> om_mutual_credit = queued_request (om_mutual_credit om) rq d \<rparr>,
        [InsertLocalPendingTransaction (create_pending_transaction rq), SetLocalPendingDebt d])"
      using run by simp
    show "mc_inv (queued_request (om_mutual_credit om) rq d)"
      using inv allowed d by (rule mc_inv_queued_request)
  qed (use True in \<open>simp_all add: queued_request_def [symmetric] lg_of_queued_request om_view_def\<close>)
next
  case False
  then have "queue_request_send_funds om rq \<noteq> Ok r" for r
    using queue_request_allowed [of om rq r] assms by (auto simp: om_inv_def om_view_def)
  then obtain e where "queue_request_send_funds om rq = Err e"
    using queue_request_not_Panic [of om rq] by (cases "queue_request_send_funds om rq") auto
  then show ?thesis using False by (simp add: queue_refines_def)
qed

lemma queue_refines_response:
  assumes "om_inv om"
  shows "queue_refines C om (ResponseSendFunds rs)"
proof (cases "hm_get (mp_remote (st_pending (om_mutual_credit om))) (rs_request_id rs)")
  case None
  then show ?thesis
    by (simp add: queue_refines_def queue_response_send_funds_def om_view_def lg_of_mc_def)
next
  case (Some pt)
  have inv: "mc_inv (om_mutual_credit om)" using assms by (simp add: om_inv_def)
  note spec = queue_response_spec [OF inv Some, of C]
  show ?thesis
  proof (cases "lg_response_allowed C pt rs")
    case True
    show ?thesis
    proof (rule queue_refinesI)
      show "queue_operation C om (ResponseSendFunds rs) =
        Ok (\<lparr> om_mutual_credit = queued_response (om_mutual_credit om) (rs_request_id rs) pt (rs_dest_hashed_lock rs) \<rparr>,
          [SetRemotePendingTransactionStage (rs_request_id rs) (StageResponse (rs_dest_hashed_lock rs))])"
        using spec True by simp
      show "mc_inv (queued_response (om_mutual_credit om) (rs_request_id rs) pt (rs_dest_hashed_lock rs))"
        using inv Some by (rule mc_inv_queued_response)
    qed (use True Some in \<open>auto simp: queued_response_def mc_setters om_view_def lg_of_mc_def hm_get_insert\<close>)
  next
    case False
    then show ?thesis using spec Some by (simp add: queue_refines_def om_view_def lg_of_mc_def)
  qed
qed

lemma queue_refines_cancel:
  assumes "om_inv om"
  shows "queue_refines C om (CancelSendFunds cn)"
proof (cases "hm_get (mp_remote (st_pending (om_mutual_credit om))) (cn_request_id cn)")
  case None
  then show ?thesis
    by (simp add: queue_refines_def queue_cancel_send_funds_def om_view_def lg_of_mc_def)
next
  case (Some pt)
  have inv: "mc_inv (om_mutual_credit om)" using assms by (simp add: om_inv_def)
  obtain d where d: "uint d = hm_total frozen (hm_remove (cn_request_id cn) (mp_remote (st_pending (om_mutual_credit om))))"
    and run: "queue_cancel_send_funds om cn = Ok (\<lparr> om_mutual_credit = queued_cancel (om_mutual_credit om) (cn_request_id cn) d \<rparr>,
      [RemoveRemotePendingTransaction (cn_request_id cn), SetRemotePendingDebt d])"
    using queue_cancel_runs [OF inv Some] by blast
  show ?thesis
    by (rule queue_refinesI [where mc = "queued_cancel (om_mutual_credit om) (cn_request_id cn) d"])
      (use run Some mc_inv_queued_cancel [OF inv Some d]
        in \<open>auto simp: queued_cancel_def mc_setters om_view_def lg_of_mc_def hm_get_remove\<close>)
qed

lemma queue_refines_collect:
  assumes "om_inv om"
  shows "queue_refines C om (CollectSendFunds cl)"
proof (cases "hm_get (mp_remote (st_pending (om_mutual_credit om))) (cl_request_id cl)")
  case None
  then show ?thesis
    by (simp add: queue_refines_def queue_collect_send_funds_def om_view_def lg_of_mc_def)
next
  case (Some pt)
  have inv: "mc_inv (om_mutual_credit om)" using assms by (simp add: om_inv_def)
  show ?thesis
  proof (cases "lg_collect_allowed C pt cl")
    case True
    obtain d b where d: "uint d = hm_total frozen (hm_remove (cl_request_id cl) (mp_remote (st_pending (om_mutual_credit om))))"
      and b: "sint b = sint (mb_balance (st_balance (om_mutual_credit om))) + frozen pt"
      and run: "queue_collect_send_funds C om cl = Ok (\<lparr> om_mutual_credit = queued_collect (om_mutual_credit om) (cl_request_id cl) d b \<rparr>,
        [RemoveRemotePendingTransaction (cl_request_id cl), SetRemotePendingDebt d, SetBalance b])"
      using queue_collect_runs [OF inv Some True] by blast
    show ?thesis
      by (rule queue_refinesI [where mc = "queued_collect (om_mutual_credit om) (cl_request_id cl) d b"])
        (use run Some True b mc_inv_queued_collect [OF inv Some d b]
          in \<open>auto simp: queued_collect_def queued_cancel_def mc_setters om_view_def lg_of_mc_def hm_get_remove\<close>)
  next
    case False
    then show ?thesis using queue_collect_refused [OF Some] Some
      by (simp add: queue_refines_def om_view_def lg_of_mc_def)
  qed
qed

lemma queue_refines_ledger:
  assumes "om_inv om"
  shows "queue_refines C om op"
  by (cases op) (simp_all add: assms queue_refines_status queue_refines_set_max_debt queue_refines_request queue_refines_response
      queue_refines_cancel queue_refines_collect)

interpretation queue: ledger_impl C "queue_operation C" om_view om_inv queue_adm for C
proof unfold_locales
  fix s op s' out
  assume "om_inv s" "queue_adm (om_view s) op" "queue_operation C s op = Ok (s', out)"
  then show "ledger_step C (om_view s) op = Some (om_view s')"
    using queue_refines_ledger [of s C op] by (auto simp: queue_refines_def)
next
  fix s op s' out
  assume "om_inv s" "queue_operation C s op = Ok (s', out)"
  then show "om_inv s'"
    using queue_refines_ledger [of s C op] by (auto simp: queue_refines_def)
next
  fix L op L'
  assume "ledger_step C L op = Some L'"
  then show "queue_adm L op"
    by (auto simp: queue_adm_def split: if_splits)
next
  fix s op e
  assume "om_inv s" "queue_operation C s op = Err e"
  then show "ledger_step C (om_view s) op = None"
    using queue_refines_ledger [of s C op] by (auto simp: queue_refines_def)
next
  fix s op
  assume "om_inv s"
  then show "queue_operation C s op \<noteq> Panic"
    using queue_refines_ledger [of s C op] by (auto simp: queue_refines_def)
qed

end
