(* ===== verification/McMirror.thy ===== *)
theory McMirror
  imports McIncoming McOutgoing
begin

text \<open>
  The two sides of a credit line together: batches queued by one side and processed by the
  other, and the life of a payment on one credit line.
\<close>

section \<open>Batches\<close>

text \<open>
  \<open>queue_disable_requests\<close> does not check that requests are open, while the receiver refuses
  to close what is closed. A batch is guarded when it disables requests only while they are open;
  \<open>collect_outgoing_move_token\<close> compares the wanted status with the current one first.
\<close>

fun disable_guarded :: "bool \<Rightarrow> friend_tc_op list \<Rightarrow> bool" where
  "disable_guarded is_opened [] = True"
| "disable_guarded is_opened (op # ops) =
     (case op of
        EnableRequests \<Rightarrow> disable_guarded True ops
      | DisableRequests \<Rightarrow> is_opened \<and> disable_guarded False ops
      | _ \<Rightarrow> disable_guarded is_opened ops)"

text \<open>
  The batch as the sender fills it (\<open>PendingMoveToken::queue_operation\<close> of \<open>handler/sender.rs\<close>):
  an operation that is queued is pushed with its mutations; a request that already exists is
  pushed too, without mutations and with a warning; a request that lacks trust is left out, to be
  cancelled by \<open>queue_operation_or_cancel\<close>; any other error is \<open>unreachable!()\<close>.
\<close>

definition push_operation ::
  "crypto_api \<Rightarrow> outgoing_mc \<Rightarrow> friend_tc_op \<Rightarrow> (outgoing_mc \<times> mc_mutation list \<times> friend_tc_op list) option" where
  "push_operation C om operation =
     (case queue_operation C om operation of
        Ok (om', mc_mutations) \<Rightarrow> Some (om', mc_mutations, [operation])
      | Err QRequestAlreadyExists \<Rightarrow> Some (om, [], [operation])
      | Err QInsufficientTrust \<Rightarrow> Some (om, [], [])
      | Err _ \<Rightarrow> None
      | Panic \<Rightarrow> None)"

fun push_operations ::
  "crypto_api \<Rightarrow> outgoing_mc \<Rightarrow> friend_tc_op list \<Rightarrow> (outgoing_mc \<times> mc_mutation list \<times> friend_tc_op list) option" where
  "push_operations C om [] = Some (om, [], [])"
| "push_operations C om (op # ops) =
     Option.bind (push_operation C om op) (\<lambda>(om, ms, pushed).
     Option.bind (push_operations C om ops) (\<lambda>(om, ns, rest). Some (om, ms @ ns, pushed @ rest)))"

interpretation mirror: ledger_pair C "queue_operation C" om_view om_inv queue_adm
  "process_operation C" in_view mc_inv process_adm for C
  by unfold_locales

lemma queue_operations_steps:
  "queue_operations C om ops =
     (case queue.steps C om ops of Ok (om', mss) \<Rightarrow> Ok (om', concat mss) | Err e \<Rightarrow> Err e | Panic \<Rightarrow> Panic)"
proof (induction ops arbitrary: om)
  case Nil
  then show ?case by simp
next
  case (Cons op ops)
  show ?case
    by (cases "queue_operation C om op") (auto simp: Cons.IH split: res.splits prod.splits)
qed

lemma disable_guarded_adms:
  "disable_guarded (lg_sender_open L) ops \<Longrightarrow> queue.adms C L ops"
proof (induction ops arbitrary: L)
  case Nil
  then show ?case by simp
next
  case (Cons op ops)
  have "queue_adm L op"
    using Cons.prems by (auto simp: queue_adm_def split: friend_tc_op.splits)
  moreover have "queue.adms C L' ops" if "ledger_step C L op = Some L'" for L'
    using Cons.prems ledger_step_sender_open [OF that]
    by (intro Cons.IH) (auto split: friend_tc_op.splits)
  ultimately show ?case by (auto split: option.split)
qed

lemma mirrored_view: "mirrored a b \<longleftrightarrow> om_view \<lparr> om_mutual_credit = a \<rparr> = in_view b"
  unfolding mirrored_def om_view_def in_view_def by (metis lg_swap_swap outgoing_mc.select_convs(1))

lemma queue_operations_replay:
  "om_inv om \<Longrightarrow> queue_operations C om ops = Ok (om', ms) \<Longrightarrow>
     mc_replay (om_mutual_credit om) ms = Some (om_mutual_credit om') \<and> om_inv om'"
proof (induction ops arbitrary: om ms)
  case Nil
  then show ?case by simp
next
  case (Cons op ops)
  then obtain t ms1 ms2 where step: "queue_operation C om op = Ok (t, ms1)"
    and rest: "queue_operations C t ops = Ok (om', ms2)" "ms = ms1 @ ms2"
    by (auto simp: res_bind_Ok)
  have "om_inv t" "mc_replay (om_mutual_credit om) ms1 = Some (om_mutual_credit t)"
    using queue_refines_ledger [OF Cons.prems(1), of C op] step by (auto simp: queue_refines_def)
  then show ?case
    using Cons.IH [of t ms2] rest by (simp add: mc_replay_append)
qed

lemma batch_mirrored:
  assumes "mirrored a b" "mc_inv a" "mc_inv b"
    and "disable_guarded (is_open (mr_local (st_requests_status a))) ops"
    and "queue_operations C (outgoing_mc_new a) ops = Ok (om', ms)"
  shows "\<exists>b' outs. process_operations_list C b ops = Ok (b', outs) \<and> mirrored (om_mutual_credit om') b'
    \<and> mc_inv (om_mutual_credit om') \<and> mc_inv b'"
proof -
  obtain mss where "queue.steps C (outgoing_mc_new a) ops = Ok (om', mss)"
    using assms(5) by (auto simp: queue_operations_steps split: res.splits)
  moreover have "queue.adms C (om_view (outgoing_mc_new a)) ops"
    using assms(4) by (intro disable_guarded_adms) (simp add: om_view_def outgoing_mc_new_def lg_of_mc_def)
  moreover have "om_inv (outgoing_mc_new a)" "om_view (outgoing_mc_new a) = in_view b"
    using assms(1,2) by (simp_all add: om_inv_def outgoing_mc_new_def mirrored_view)
  ultimately obtain b' outs' where run: "process.steps C b ops = Ok (b', outs')" "in_view b' = om_view om'"
    and inv: "om_inv om'" "mc_inv b'"
    using mirror.batch_agrees [of "outgoing_mc_new a" b C ops om' mss] assms(3) by auto
  have "mirrored (om_mutual_credit om') b'"
    using run(2) by (simp add: mirrored_view om_view_def)
  with run inv show ?thesis
    by (auto simp: process_list_Ok om_inv_def)
qed

section \<open>The batch the sender fills\<close>

lemma push_operation_cases:
  assumes "push_operation C om op = Some (om', ms, pushed)"
  obtains (queued) "queue_operation C om op = Ok (om', ms)" "pushed = [op]"
  | (repeated) "queue_operation C om op = Err QRequestAlreadyExists" "om' = om" "ms = []" "pushed = [op]"
  | (skipped) "queue_operation C om op = Err QInsufficientTrust" "om' = om" "ms = []" "pushed = []"
  using assms by (auto simp: push_operation_def split: res.splits queue_operation_error.splits)

lemma push_operations_queued:
  "queue_operations C om ops = Ok (om', ms) \<Longrightarrow> push_operations C om ops = Some (om', ms, ops)"
  by (induction ops arbitrary: om ms) (auto simp: push_operation_def res_bind_Ok)

lemma push_operations_replay:
  "om_inv om \<Longrightarrow> push_operations C om ops = Some (om', ms, pushed) \<Longrightarrow>
     mc_replay (om_mutual_credit om) ms = Some (om_mutual_credit om') \<and> om_inv om'"
proof (induction ops arbitrary: om ms pushed)
  case Nil
  then show ?case by simp
next
  case (Cons op ops)
  then obtain t ms1 ms2 p1 p2 where step: "push_operation C om op = Some (t, ms1, p1)"
    and rest: "push_operations C t ops = Some (om', ms2, p2)" "ms = ms1 @ ms2"
    by (auto simp: bind_eq_Some_conv)
  have "om_inv t \<and> mc_replay (om_mutual_credit om) ms1 = Some (om_mutual_credit t)"
    using step Cons.prems(1) queue_refines_ledger [OF Cons.prems(1), of C op]
    by (elim push_operation_cases) (auto simp: queue_refines_def)
  then show ?case
    using Cons.IH [of t ms2] rest by (simp add: mc_replay_append)
qed

lemma push_sound:
  "push_operations C om ops = Some (om', ms, pushed) \<Longrightarrow> queue_operations C om pushed = Ok r \<Longrightarrow> r = (om', ms)"
proof (induction ops arbitrary: om ms pushed r)
  case Nil
  then show ?case by simp
next
  case (Cons op ops)
  then obtain t ms1 ms2 p1 p2 where step: "push_operation C om op = Some (t, ms1, p1)"
    and rest: "push_operations C t ops = Some (om', ms2, p2)" and eqs: "ms = ms1 @ ms2" "pushed = p1 @ p2"
    by (auto simp: bind_eq_Some_conv)
  from step show ?case
    by (cases rule: push_operation_cases) (use Cons.IH [OF rest] Cons.prems(2) eqs in \<open>auto simp: res_bind_Ok\<close>)
qed

lemma queue_collect_not_repeated: "queue_collect_send_funds C om cl \<noteq> Err QRequestAlreadyExists"
proof (cases "hm_get (mp_remote (st_pending (om_mutual_credit om))) (cl_request_id cl)")
  case None
  then show ?thesis by (simp add: queue_collect_send_funds_def)
next
  case (Some pt)
  then show ?thesis
    by (cases "pt_stage pt") (auto simp: queue_collect_send_funds_def res_simps Let_def)
qed

lemma queue_repeated:
  assumes "queue_operation C om op = Err QRequestAlreadyExists"
  shows "\<exists>rq. op = RequestSendFunds rq \<and> lg_sender_pending (om_view om) (rq_request_id rq) \<noteq> None"
proof (cases op)
  case (CollectSendFunds cl)
  then show ?thesis using assms queue_collect_not_repeated by simp
qed (use assms in \<open>auto simp: queue_defs om_view_def lg_of_mc_def hm_contains_def res_simps Let_def split: if_splits\<close>)

lemma process_repeated:
  assumes "mc_inv b" "lg_sender_pending (in_view b) (rq_request_id rq) \<noteq> None"
  shows "process_operation C b (RequestSendFunds rq) \<noteq> Ok r"
  using process_request_allowed [OF assms(1), of rq r] assms(2)
  by (auto simp: in_request_allowed_def in_view_unfold)

text \<open>
  A receiver in step with the sender accepts what was pushed only if every pushed operation was
  really queued and the batch is guarded: the two exceptions are the only ways to a refusal.
\<close>

lemma push_accepted:
  assumes "om_inv om" "mc_inv b" "om_view om = in_view b"
    and "push_operations C om ops = Some (om', ms, pushed)" "process.steps C b pushed = Ok r"
  shows "queue_operations C om pushed = Ok (om', ms) \<and> disable_guarded (lg_sender_open (om_view om)) pushed"
  using assms
proof (induction ops arbitrary: om b ms pushed r)
  case Nil
  then show ?case by simp
next
  case (Cons op ops)
  note inv = Cons.prems(1,2) and view = Cons.prems(3)
  from Cons.prems(4) obtain t ms1 ms2 p1 p2 where step: "push_operation C om op = Some (t, ms1, p1)"
    and rest: "push_operations C t ops = Some (om', ms2, p2)" and eqs: "ms = ms1 @ ms2" "pushed = p1 @ p2"
    by (auto simp: bind_eq_Some_conv)
  from step show ?case
  proof (cases rule: push_operation_cases)
    case queued
    obtain b1 out r' where b1: "process_operation C b op = Ok (b1, out)" and steps: "process.steps C b1 p2 = Ok r'"
      using Cons.prems(5) eqs queued by (auto simp: res_bind_Ok)
    have adm: "queue_adm (om_view om) op"
      using b1 view by (auto simp: queue_adm_def process_defs in_view_unfold split: requests_status.splits)
    then have L: "ledger_step C (in_view b) op = Some (om_view t)"
      using queue.step_Ok [OF inv(1) _ queued(1)] view by simp
    then have L': "ledger_step C (in_view b) op = Some (in_view b1)"
      using process.step_Ok [OF inv(2) process.adm_allowed b1] by simp
    have "queue_operations C t p2 = Ok (om', ms2) \<and> disable_guarded (lg_sender_open (om_view t)) p2"
      using L L' queue.step_good [OF inv(1) queued(1)] process.step_good [OF inv(2) b1]
      by (intro Cons.IH [OF _ _ _ rest steps]) auto
    then show ?thesis
      using queued eqs adm view ledger_step_sender_open [OF L]
      by (auto simp: queue_adm_def split: friend_tc_op.splits)
  next
    case repeated
    with queue_repeated [OF repeated(1)] process_repeated [OF inv(2)] Cons.prems(5) view eqs show ?thesis
      by (auto simp: res_bind_Ok)
  next
    case skipped
    with Cons.IH [OF inv view, of ms2 p2] rest Cons.prems(5) eqs show ?thesis by auto
  qed
qed

section \<open>One credit line over time\<close>

lemma process_collect_Ok:
  assumes inv: "mc_inv mc" and run: "process_collect_send_funds C mc cl = Ok (mc', out)"
  obtains pt d b where "hm_get (mp_local (st_pending mc)) (cl_request_id cl) = Some pt"
    and "lg_collect_allowed C pt cl"
    and "uint d = uint (mb_local_pending_debt (st_balance mc)) - frozen pt"
    and "sint b = sint (mb_balance (st_balance mc)) - frozen pt"
    and "mc' = processed_collect mc (cl_request_id cl) d b"
    and "po_incoming_message out = Some (ImCollect \<lparr> il_pending_transaction = pt, il_incoming_collect = cl \<rparr>)"
proof -
  obtain pt where pt: "hm_get (mp_local (st_pending mc)) (cl_request_id cl) = Some pt"
    using run by (auto simp: process_collect_send_funds_def res_simps)
  have allowed: "lg_collect_allowed C pt cl"
    using process_collect_refused [OF pt, of C] run by (cases "lg_collect_allowed C pt cl") auto
  have total: "hm_total frozen (hm_remove (cl_request_id cl) (mp_local (st_pending mc)))
      = uint (mb_local_pending_debt (st_balance mc)) - frozen pt"
    using inv pending_total_remove [OF _ pt] by (simp add: mc_inv_def Let_def)
  show thesis
    by (rule process_collect_runs [OF inv pt allowed]) (use that pt allowed total run in auto)
qed

section \<open>Properties\<close>

text \<open>A credit line with requests open in one direction, from both sides.\<close>

definition example_local :: mutual_credit where
  "example_local = (mc_new [1] [2] 0)\<lparr> st_balance := (mc_balance_new (- 3))\<lparr> mb_local_max_debt := 100 \<rparr>,
     st_requests_status := \<lparr> mr_local = Closed, mr_remote = Open \<rparr> \<rparr>"

definition example_remote :: mutual_credit where
  "example_remote = (mc_new [2] [1] 0)\<lparr> st_balance := (mc_balance_new 3)\<lparr> mb_remote_max_debt := 100 \<rparr>,
     st_requests_status := \<lparr> mr_local = Open, mr_remote = Closed \<rparr> \<rparr>"

definition example_request :: request_send_funds_op where
  "example_request = \<lparr> rq_request_id = [9], rq_src_hashed_lock = [8], rq_route = \<lparr> public_keys = [[1], [2]] \<rparr>,
     rq_dest_payment = 40, rq_total_dest_payment = 40, rq_invoice_id = [7], rq_left_fees = 2 \<rparr>"

lemmas example_defs = example_local_def example_remote_def mc_new_def mc_balance_new_def
  mc_pending_transactions_new_def mc_requests_status_new_def

lemma example_mirrored: "mirrored example_local example_remote"
  by (simp add: mirrored_def lg_of_mc_def lg_swap_def example_defs)

lemma example_inv: "mc_inv example_local" "mc_inv example_remote"
  by (simp_all add: mc_inv_def Let_def example_defs pending_ok_def le_MAX_FUNDER_DEBT)

lemma example_allowed: "lg_request_allowed (lg_of_mc example_local) example_request"
  by (simp add: lg_request_allowed_def lg_margin_of_mc [OF example_inv(1)])
     (simp add: lg_of_mc_def example_defs example_request_def route_is_valid_def MAX_ROUTE_LEN_def find_pk_pair_def)

definition example_batch :: "friend_tc_op list" where
  "example_batch = [EnableRequests, RequestSendFunds example_request]"

lemma example_queued:
  "case queue_operations example_crypto (outgoing_mc_new example_local) example_batch of
     Ok (om', ms) \<Rightarrow> mp_local (st_pending (om_mutual_credit om')) = [([9], create_pending_transaction example_request)]
   | _ \<Rightarrow> False"
  by code_simp

text \<open>
  C2: Two sides of a credit line that are in step stay in step: a batch of operations that one
  side manages to queue is accepted by the other side in full, and afterwards the two states
  again describe the same credit line (opposite balances, exchanged limits, the same pending
  transactions); the mutations each side recorded, replayed on its stored state, give the state
  it reached. The only exception is a batch that disables requests while they are already
  disabled, which queueing does not check: the receiver refuses every such batch with an error.
\<close>

theorem queued_batch_is_accepted:
  assumes "mirrored a b" "mc_inv a" "mc_inv b"
    and "queue_operations C (outgoing_mc_new a) ops = Ok (om', ms)"
  shows "(disable_guarded (is_open (mr_local (st_requests_status a))) ops \<longrightarrow>
      (\<exists>b' outs. process_operations_list C b ops = Ok (b', outs)
        \<and> mirrored (om_mutual_credit om') b' \<and> mc_inv b'
        \<and> mc_replay b (concat (map po_mc_mutations outs)) = Some b'))
    \<and> (\<not> disable_guarded (is_open (mr_local (st_requests_status a))) ops \<longrightarrow>
      (\<exists>e. process_operations_list C b ops = Err e))
    \<and> mc_inv (om_mutual_credit om') \<and> mc_replay a ms = Some (om_mutual_credit om')"
proof (intro conjI impI)
  have om: "om_inv (outgoing_mc_new a)" "om_view (outgoing_mc_new a) = in_view b"
    using assms(1,2) by (simp_all add: om_inv_def outgoing_mc_new_def mirrored_view)
  have opened: "lg_sender_open (om_view (outgoing_mc_new a)) = is_open (mr_local (st_requests_status a))"
    by (simp add: om_view_def lg_of_mc_def outgoing_mc_new_def)
  show "mc_inv (om_mutual_credit om')" "mc_replay a ms = Some (om_mutual_credit om')"
    using queue_operations_replay [OF om(1) assms(4)] by (simp_all add: om_inv_def outgoing_mc_new_def)
  show "\<exists>b' outs. process_operations_list C b ops = Ok (b', outs) \<and> mirrored (om_mutual_credit om') b' \<and> mc_inv b'
      \<and> mc_replay b (concat (map po_mc_mutations outs)) = Some b'"
    if "disable_guarded (is_open (mr_local (st_requests_status a))) ops"
    using batch_mirrored [OF assms(1-3) that assms(4)] process_list_replay [OF assms(3)] by blast
  show "\<exists>e. process_operations_list C b ops = Err e"
    if "\<not> disable_guarded (is_open (mr_local (st_requests_status a))) ops"
    using push_accepted [OF om(1) assms(3) om(2) push_operations_queued [OF assms(4)]] that opened
      process_list_Ok [of C b ops] process_list_not_Panic [OF assms(3), of C ops]
    by (cases "process_operations_list C b ops") auto
qed

theorem queued_batch_is_accepted_witness:
  "(\<exists>b' outs. process_operations_list example_crypto example_remote example_batch = Ok (b', outs)
      \<and> mc_replay example_remote (concat (map po_mc_mutations outs)) = Some b')
    \<and> (\<exists>e. process_operations_list example_crypto example_remote [DisableRequests] = Err e)"
proof -
  obtain om' ms where run: "queue_operations example_crypto (outgoing_mc_new example_local) example_batch = Ok (om', ms)"
    using example_queued by (auto split: res.splits)
  have "disable_guarded (is_open (mr_local (st_requests_status example_local))) example_batch"
    by code_simp
  then have "\<exists>b' outs. process_operations_list example_crypto example_remote example_batch = Ok (b', outs)
      \<and> mc_replay example_remote (concat (map po_mc_mutations outs)) = Some b'"
    using queued_batch_is_accepted [OF example_mirrored example_inv run] by blast
  moreover obtain om2 ms2 where run2: "queue_operations example_crypto (outgoing_mc_new example_local) [DisableRequests] = Ok (om2, ms2)"
    by (simp add: queue_disable_requests_def om_mutate_def)
  have "\<not> disable_guarded (is_open (mr_local (st_requests_status example_local))) [DisableRequests]"
    by (simp add: example_defs)
  then have "\<exists>e. process_operations_list example_crypto example_remote [DisableRequests] = Err e"
    using queued_batch_is_accepted [OF example_mirrored example_inv run2] by blast
  ultimately show ?thesis by blast
qed

text \<open>
  C8: Queueing implements the ledger: on a state that satisfies the invariant an operation either
  succeeds, with exactly the effect the ledger prescribes and the invariant kept, or returns an
  error exactly when the ledger forbids it. It never panics, which is what the comments at its
  \<open>unwrap\<close> calls claim. (Disabling requests is the exception, checked only by the receiver.)
\<close>

theorem queue_operation_refines_ledger:
  assumes "mc_inv (om_mutual_credit om)" and "op \<noteq> DisableRequests"
  shows "case queue_operation C om op of
      Ok (om', ms) \<Rightarrow> mc_inv (om_mutual_credit om')
        \<and> ledger_step C (lg_of_mc (om_mutual_credit om)) op = Some (lg_of_mc (om_mutual_credit om'))
        \<and> mc_replay (om_mutual_credit om) ms = Some (om_mutual_credit om')
    | Err e \<Rightarrow> ledger_step C (lg_of_mc (om_mutual_credit om)) op = None
    | Panic \<Rightarrow> False"
  using queue_refines_ledger [of om C op] assms
  by (auto simp: queue_refines_def om_inv_def om_view_def queue_adm_def)

theorem queue_operation_refines_ledger_witness:
  "\<exists>om' ms. queue_operation example_crypto (outgoing_mc_new example_local) (RequestSendFunds example_request) = Ok (om', ms)
    \<and> ledger_step example_crypto (lg_of_mc example_local) (RequestSendFunds example_request) = Some (lg_of_mc (om_mutual_credit om'))"
proof -
  have inv: "mc_inv (om_mutual_credit (outgoing_mc_new example_local))"
    using example_inv by (simp add: outgoing_mc_new_def)
  have step: "ledger_step example_crypto (lg_of_mc (om_mutual_credit (outgoing_mc_new example_local))) (RequestSendFunds example_request) \<noteq> None"
    using example_allowed by (simp add: outgoing_mc_new_def)
  show ?thesis
    using queue_operation_refines_ledger [OF inv, of "RequestSendFunds example_request" example_crypto] step example_allowed
    by (auto simp: outgoing_mc_new_def split: res.splits)
qed

text \<open>
  C7: Processing implements the ledger as well, seen from the other side: an operation the ledger
  allows is accepted with the prescribed effect, one it forbids is refused with an error, and no
  operation of a remote side, whatever it contains, makes the receiver panic or break its
  invariant. A request whose margin is exactly \<open>2 ^ 127\<close> is the only one the receiver accepts
  and no sender can queue.
\<close>

theorem process_operation_refines_ledger:
  assumes "mc_inv mc"
  shows "case process_operation C mc op of
      Ok (mc', out) \<Rightarrow> mc_inv mc'
        \<and> mc_replay mc (po_mc_mutations out) = Some mc'
        \<and> (ledger_step C (lg_swap (lg_of_mc mc)) op = Some (lg_swap (lg_of_mc mc'))
           \<or> (\<exists>rq. op = RequestSendFunds rq \<and> lg_margin (lg_swap (lg_of_mc mc)) rq = 2 ^ 127))
    | Err e \<Rightarrow> ledger_step C (lg_swap (lg_of_mc mc)) op = None
    | Panic \<Rightarrow> False"
  using process_refines_ledger [OF assms, of C op]
  by (auto simp: process_refines_def in_view_def process_adm_def split: friend_tc_op.splits)

theorem process_operation_refines_ledger_witness:
  "\<exists>e. process_operation example_crypto example_remote
      (RequestSendFunds (example_request\<lparr> rq_left_fees := 61 \<rparr>)) = Err e
    \<and> ledger_step example_crypto (lg_swap (lg_of_mc example_remote))
      (RequestSendFunds (example_request\<lparr> rq_left_fees := 61 \<rparr>)) = None"
proof -
  have "process_operation example_crypto example_remote
      (RequestSendFunds (example_request\<lparr> rq_left_fees := 61 \<rparr>)) = Err PInsufficientTrust"
    by code_simp
  then show ?thesis
    using process_operation_refines_ledger [OF example_inv(2), of example_crypto
      "RequestSendFunds (example_request\<lparr> rq_left_fees := 61 \<rparr>)"] by simp
qed

text \<open>
  C37: The debt limit is respected: after a request is accepted the debt of the remote side, with
  everything it has frozen, is at most the limit we granted, and after a request is queued our
  own debt, with everything we have frozen, is at most the limit the remote side granted us.
\<close>

theorem accepted_request_within_limit:
  assumes "mc_inv mc"
  shows "(process_request_send_funds mc rq = Ok (mc', out) \<longrightarrow>
      sint (mb_balance (st_balance mc')) + uint (mb_remote_pending_debt (st_balance mc'))
        \<le> uint (mb_remote_max_debt (st_balance mc')))
    \<and> (queue_request_send_funds \<lparr> om_mutual_credit = mc \<rparr> rq = Ok (om', ms) \<longrightarrow>
      - uint (mb_local_max_debt (st_balance (om_mutual_credit om')))
        \<le> sint (mb_balance (st_balance (om_mutual_credit om')))
          - uint (mb_local_pending_debt (st_balance (om_mutual_credit om'))))"
proof (intro conjI impI)
  assume run: "process_request_send_funds mc rq = Ok (mc', out)"
  have allowed: "in_request_allowed mc rq"
    using assms run by (rule process_request_allowed)
  then have "0 \<le> lg_margin (in_view mc) rq"
    by (simp add: in_request_allowed_def)
  moreover obtain d where "uint d = uint (mb_remote_pending_debt (st_balance mc)) + frozen (create_pending_transaction rq)"
    "mc' = processed_request mc rq d"
    by (rule process_request_runs [OF assms allowed]) (use run in auto)
  ultimately show "sint (mb_balance (st_balance mc')) + uint (mb_remote_pending_debt (st_balance mc'))
      \<le> uint (mb_remote_max_debt (st_balance mc'))"
    by (simp add: in_margin [OF assms] frozen_create processed_request_def mc_setters)
next
  assume run: "queue_request_send_funds \<lparr> om_mutual_credit = mc \<rparr> rq = Ok (om', ms)"
  have inv: "mc_inv (om_mutual_credit \<lparr> om_mutual_credit = mc \<rparr>)" using assms by simp
  note allowed = queue_request_allowed [OF inv run]
  then have "0 \<le> lg_margin (lg_of_mc mc) rq"
    by (simp add: lg_request_allowed_def)
  moreover obtain d where "uint d = uint (mb_local_pending_debt (st_balance mc)) + frozen (create_pending_transaction rq)"
    "om' = \<lparr> om_mutual_credit = queued_request mc rq d \<rparr>"
    by (rule queue_request_runs [OF inv allowed]) (use run in auto)
  ultimately show "- uint (mb_local_max_debt (st_balance (om_mutual_credit om')))
      \<le> sint (mb_balance (st_balance (om_mutual_credit om')))
        - uint (mb_local_pending_debt (st_balance (om_mutual_credit om')))"
    by (simp add: lg_margin_of_mc [OF assms] frozen_create queued_request_def mc_setters)
qed

theorem accepted_request_within_limit_witness:
  "(\<exists>mc' out. process_request_send_funds example_remote example_request = Ok (mc', out)
      \<and> sint (mb_balance (st_balance mc')) + uint (mb_remote_pending_debt (st_balance mc'))
        \<le> uint (mb_remote_max_debt (st_balance mc')))
    \<and> (\<exists>om' ms. queue_request_send_funds \<lparr> om_mutual_credit = example_local \<rparr> example_request = Ok (om', ms)
      \<and> - uint (mb_local_max_debt (st_balance (om_mutual_credit om')))
        \<le> sint (mb_balance (st_balance (om_mutual_credit om')))
          - uint (mb_local_pending_debt (st_balance (om_mutual_credit om'))))"
proof
  have "case process_request_send_funds example_remote example_request of Ok _ \<Rightarrow> True | _ \<Rightarrow> False"
    by code_simp
  then obtain mc' out where "process_request_send_funds example_remote example_request = Ok (mc', out)"
    by (auto split: res.splits)
  with accepted_request_within_limit [OF example_inv(2)]
  show "\<exists>mc' out. process_request_send_funds example_remote example_request = Ok (mc', out)
      \<and> sint (mb_balance (st_balance mc')) + uint (mb_remote_pending_debt (st_balance mc'))
        \<le> uint (mb_remote_max_debt (st_balance mc'))" by blast
  have "case queue_request_send_funds \<lparr> om_mutual_credit = example_local \<rparr> example_request of Ok _ \<Rightarrow> True | _ \<Rightarrow> False"
    by code_simp
  then obtain om' ms where "queue_request_send_funds \<lparr> om_mutual_credit = example_local \<rparr> example_request = Ok (om', ms)"
    by (auto split: res.splits)
  with accepted_request_within_limit [OF example_inv(1)]
  show "\<exists>om' ms. queue_request_send_funds \<lparr> om_mutual_credit = example_local \<rparr> example_request = Ok (om', ms)
      \<and> - uint (mb_local_max_debt (st_balance (om_mutual_credit om')))
        \<le> sint (mb_balance (st_balance (om_mutual_credit om')))
          - uint (mb_local_pending_debt (st_balance (om_mutual_credit om')))" by blast
qed


definition example_responded :: mutual_credit where
  "example_responded = example_local\<lparr>
     st_balance := (mc_balance_new (- 3))\<lparr> mb_local_max_debt := 100, mb_local_pending_debt := 42 \<rparr>,
     st_pending := \<lparr> mp_local = [([9], (create_pending_transaction example_request)
         \<lparr> pt_stage := StageResponse (plain_lock_hash example_crypto [6]),
           pt_src_hashed_lock := plain_lock_hash example_crypto [5] \<rparr>)],
       mp_remote = [] \<rparr> \<rparr>"

lemma example_responded_inv: "mc_inv example_responded"
  by (simp add: mc_inv_def Let_def example_responded_def example_defs pending_ok_def le_MAX_FUNDER_DEBT pt_ok_def
      frozen_def create_pending_transaction_def example_request_def hm_ok_def hm_total_def route_is_valid_def MAX_ROUTE_LEN_def)


text \<open>
  Freezing and cancelling is a round trip: if a request is accepted and we then queue its
  cancellation, the credit line is what it was before, with the same balance, the same pending
  debts and the same pending transactions.
\<close>

theorem request_then_cancel_restores:
  assumes "mc_inv mc" and "process_request_send_funds mc rq = Ok (mc1, out)"
  shows "\<exists>om2 ms. queue_cancel_send_funds (outgoing_mc_new mc1) \<lparr> cn_request_id = rq_request_id rq \<rparr> = Ok (om2, ms)
    \<and> lg_of_mc (om_mutual_credit om2) = lg_of_mc mc
    \<and> st_balance (om_mutual_credit om2) = st_balance mc"
proof -
  have allowed: "in_request_allowed mc rq"
    using assms by (rule process_request_allowed)
  obtain d where d: "uint d = uint (mb_remote_pending_debt (st_balance mc)) + frozen (create_pending_transaction rq)"
    and mc1: "mc1 = processed_request mc rq d"
    by (rule process_request_runs [OF assms(1) allowed]) (use assms(2) in auto)
  have inv1: "mc_inv mc1"
    using mc_inv_processed_request [OF assms(1) allowed d] mc1 by simp
  have get: "hm_get (mp_remote (st_pending mc1)) (rq_request_id rq) = Some (create_pending_transaction rq)"
    by (simp add: mc1 processed_request_def mc_setters hm_get_insert create_pending_transaction_def)
  have fresh: "hm_get (mp_remote (st_pending mc)) (rq_request_id rq) = None"
    using allowed by (simp add: in_request_allowed_def)
  obtain d2 where d2: "uint d2 = hm_total frozen (hm_remove (rq_request_id rq) (mp_remote (st_pending mc1)))"
    and run: "queue_cancel_send_funds (outgoing_mc_new mc1) \<lparr> cn_request_id = rq_request_id rq \<rparr> =
      Ok (\<lparr> om_mutual_credit = queued_cancel mc1 (rq_request_id rq) d2 \<rparr>,
        [RemoveRemotePendingTransaction (rq_request_id rq), SetRemotePendingDebt d2])"
    by (rule queue_cancel_runs [of "outgoing_mc_new mc1" "\<lparr> cn_request_id = rq_request_id rq \<rparr>"])
       (use inv1 get in \<open>simp_all add: outgoing_mc_new_def\<close>)
  have "uint d2 = uint d - frozen (create_pending_transaction rq)"
    using inv1 d2 pending_total_remove [OF _ get]
    by (simp add: mc_inv_def Let_def mc1 processed_request_def set_remote_pending_debt_def)
  then have d2: "d2 = mb_remote_pending_debt (st_balance mc)"
    by (simp add: d word_uint_eq_iff)
  have "hm_get (hm_remove (rq_request_id rq) (mp_remote (st_pending mc1))) = hm_get (mp_remote (st_pending mc))"
    using fresh by (auto simp: mc1 processed_request_def mc_setters hm_get_insert hm_get_remove create_pending_transaction_def)
  then show ?thesis
    using run by (auto simp: d2 queued_cancel_def mc1 processed_request_def mc_setters lg_of_mc_def)
qed

theorem request_then_cancel_restores_witness:
  "\<exists>mc1 out om2 ms. process_request_send_funds example_remote example_request = Ok (mc1, out)
    \<and> queue_cancel_send_funds (outgoing_mc_new mc1) \<lparr> cn_request_id = [9] \<rparr> = Ok (om2, ms)
    \<and> st_balance (om_mutual_credit om2) = st_balance example_remote"
proof -
  have "case process_request_send_funds example_remote example_request of Ok _ \<Rightarrow> True | _ \<Rightarrow> False"
    by code_simp
  then obtain mc' out where "process_request_send_funds example_remote example_request = Ok (mc', out)"
    by (auto split: res.splits)
  with request_then_cancel_restores [OF example_inv(2) this] show ?thesis
    by (simp add: example_request_def) blast
qed

text \<open>
  C35: A paid buyer holds a receipt: once a response for a pending transaction was accepted and
  later its collection is accepted, the receipt prepared from the two messages is accepted by
  anyone who verifies it against the key of the destination, the last key of the route.
\<close>

theorem collected_payment_has_receipt:
  assumes "process_response_send_funds C mc rs = Ok (mc1, out1)"
    and "po_incoming_message out1 = Some (ImResponse resp)"
    and "hm_get (mp_local (st_pending mc2)) (rs_request_id rs) = hm_get (mp_local (st_pending mc1)) (rs_request_id rs)"
    and "cl_request_id cl = rs_request_id rs"
    and "process_collect_send_funds C mc2 cl = Ok (mc3, out3)"
  shows "verify_receipt C (prepare_receipt C cl (ir_incoming_response resp) (ir_pending_transaction resp))
    (last (public_keys (pt_route (ir_pending_transaction resp))))"
proof -
  obtain pt pk where pt: "hm_get (mp_local (st_pending mc)) (rs_request_id rs) = Some pt"
    and pk: "route_last (pt_route pt) = Some pk"
    and sig: "verify_signature C (create_response_signature_buffer C rs pt) pk (rs_signature rs)"
    and set: "set_local_pending_transaction_stage mc (rs_request_id rs) (StageResponse (rs_dest_hashed_lock rs)) = Some mc1"
    and out: "out1 = \<lparr> po_incoming_message = Some (ImResponse \<lparr> ir_pending_transaction = pt, ir_incoming_response = rs \<rparr>),
      po_mc_mutations = [SetLocalPendingTransactionStage (rs_request_id rs) (StageResponse (rs_dest_hashed_lock rs))] \<rparr>"
    using assms(1) by (auto simp: process_response_send_funds_def res_simps Let_def split: if_splits)
  have resp: "resp = \<lparr> ir_pending_transaction = pt, ir_incoming_response = rs \<rparr>"
    using assms(2) out by simp
  have dest: "pk = last (public_keys (pt_route pt))"
    using pk by (auto simp: route_last_def split: if_splits)
  have "hm_get (mp_local (st_pending mc2)) (cl_request_id cl) =
      Some (pt\<lparr> pt_stage := StageResponse (rs_dest_hashed_lock rs) \<rparr>)"
    using set pt assms(3,4) by (auto simp: set_local_pending_transaction_stage_def hm_get_insert)
  then have "plain_lock_hash C (cl_src_plain_lock cl) = pt_src_hashed_lock pt"
    "plain_lock_hash C (cl_dest_plain_lock cl) = rs_dest_hashed_lock rs"
    using assms(5) by (auto simp: process_collect_send_funds_def res_simps split: if_splits)
  with sig dest resp show ?thesis by (simp add: verify_prepared_receipt)
qed

definition example_pending :: pending_transaction where
  "example_pending = (create_pending_transaction example_request)\<lparr> pt_src_hashed_lock := plain_lock_hash example_crypto [5] \<rparr>"

definition example_requested :: mutual_credit where
  "example_requested = example_responded\<lparr> st_pending := \<lparr> mp_local = [([9], example_pending)], mp_remote = [] \<rparr> \<rparr>"

definition example_response :: "signature response_send_funds_op" where
  "example_response =
     (let rs = \<lparr> rs_request_id = [9], rs_dest_hashed_lock = plain_lock_hash example_crypto [6],
                 rs_rand_nonce = [4], rs_signature = [] \<rparr>
      in rs\<lparr> rs_signature := take 64 ([2] @ create_response_signature_buffer example_crypto rs example_pending) \<rparr>)"

lemma example_requested_inv: "mc_inv example_requested"
  by (simp add: mc_inv_def Let_def example_requested_def example_pending_def example_responded_def example_defs
      pending_ok_def le_MAX_FUNDER_DEBT pt_ok_def frozen_def create_pending_transaction_def example_request_def
      hm_ok_def hm_total_def route_is_valid_def MAX_ROUTE_LEN_def)

lemma buffer_ignores_signature:
  "create_response_signature_buffer C (rs\<lparr> rs_signature := sig \<rparr>) pt = create_response_signature_buffer C rs pt"
  by (simp add: create_response_signature_buffer_def)

lemma example_crypto_accepts: "verify_signature example_crypto data pk (take 64 (pk @ data))"
  by (simp add: example_crypto_def)

lemma example_response_allowed: "lg_response_allowed example_crypto example_pending example_response"
proof -
  have "last (public_keys (pt_route example_pending)) = [2]" "pt_stage example_pending = StageRequest"
    by (simp_all add: example_pending_def create_pending_transaction_def example_request_def)
  then show ?thesis
    unfolding lg_response_allowed_def example_response_def Let_def buffer_ignores_signature
    using example_crypto_accepts [where pk = "[2]"] by simp
qed

theorem collected_payment_has_receipt_witness:
  "verify_receipt example_crypto
     (prepare_receipt example_crypto \<lparr> cl_request_id = [9], cl_src_plain_lock = [5], cl_dest_plain_lock = [6] \<rparr>
       example_response example_pending) (last (public_keys (pt_route example_pending)))"
proof -
  let ?cl = "\<lparr> cl_request_id = [9], cl_src_plain_lock = [5], cl_dest_plain_lock = [6] \<rparr>"
  have id: "rs_request_id example_response = [9]" "cl_request_id ?cl = rs_request_id example_response"
    and lock: "rs_dest_hashed_lock example_response = plain_lock_hash example_crypto [6]"
    by (simp_all add: example_response_def Let_def)
  have get: "hm_get (mp_local (st_pending example_requested)) (rs_request_id example_response) = Some example_pending"
    unfolding id by (simp add: example_requested_def hm_get_def)
  define mc1 where "mc1 = processed_response example_requested [9] example_pending (plain_lock_hash example_crypto [6])"
  obtain out1 where run: "process_response_send_funds example_crypto example_requested example_response = Ok (mc1, out1)"
    and msg: "po_incoming_message out1 = Some (ImResponse
      \<lparr> ir_pending_transaction = example_pending, ir_incoming_response = example_response \<rparr>)"
    using process_response_spec [OF example_requested_inv get, of example_crypto] example_response_allowed
    by (simp add: mc1_def id lock)
  have "case process_collect_send_funds example_crypto mc1 ?cl of Ok _ \<Rightarrow> True | _ \<Rightarrow> False"
    unfolding mc1_def by code_simp
  then obtain mc3 out3 where collect: "process_collect_send_funds example_crypto mc1 ?cl = Ok (mc3, out3)"
    by (auto split: res.splits)
  from collected_payment_has_receipt [OF run msg refl id(2) collect] show ?thesis by simp
qed

text \<open>
  \<open>balance_for_reset\<close> does not overflow on a state that satisfies the invariant, and the
  balances the two sides ask for after an inconsistency together exceed zero by exactly the
  credits in flight: each side claims the frozen credits of the payments it would receive.
\<close>

theorem balance_for_reset_total:
  assumes "mirrored a b" "mc_inv a" "mc_inv b"
  shows "\<exists>x y. balance_for_reset a = Some x \<and> balance_for_reset b = Some y
    \<and> sint x + sint y = uint (mb_local_pending_debt (st_balance a)) + uint (mb_remote_pending_debt (st_balance a))"
proof -
  have fits: "i_fits TYPE(128) (sint (mb_balance (st_balance mc)) + uint (mb_remote_pending_debt (st_balance mc)))"
    if "mc_inv mc" for mc
    using that i128_range(1) [of "mb_balance (st_balance mc)"] u128_range(1) [of "mb_remote_pending_debt (st_balance mc)"]
    unfolding i128_fits mc_inv_def Let_def by linarith
  obtain x where x: "balance_for_reset a = Some x"
    using fits [OF assms(2)] by (cases "balance_for_reset a") (simp_all add: balance_for_reset_def i128_add_None)
  obtain y where y: "balance_for_reset b = Some y"
    using fits [OF assms(3)] by (cases "balance_for_reset b") (simp_all add: balance_for_reset_def i128_add_None)
  have "sint x + sint y = uint (mb_local_pending_debt (st_balance a)) + uint (mb_remote_pending_debt (st_balance a))"
    using x y mirrored_balances [OF assms] by (simp add: balance_for_reset_def i128_add_Some)
  with x y show ?thesis by blast
qed

theorem balance_for_reset_total_witness:
  "\<exists>x y. balance_for_reset example_local = Some x \<and> balance_for_reset example_remote = Some y \<and> sint x + sint y = 0"
  using balance_for_reset_total [OF example_mirrored example_inv] by (simp add: example_defs)

end
