(* ===== verification/TokenChannel.thy ===== *)
theory TokenChannel
  imports McMirror
begin

text \<open>
  A token channel: a credit line together with the move token that says which side may send
  next. From \<open>components/funder/src/token_channel.rs\<close> and the token constructors of
  \<open>components/funder/src/types.rs\<close>.

  Signing is done by the identity service; its \<open>request_signature\<close> is the argument \<open>sign\<close> of
  the definitions that use it. The bytes of a relay address are given by the argument \<open>ser\<close>.
\<close>

section \<open>Token constructors\<close>

record move_token_hashed =
  mh_prefix_hash :: hash_result
  mh_local_public_key :: public_key
  mh_remote_public_key :: public_key
  mh_inconsistency_counter :: u64
  mh_move_token_counter :: u128
  mh_balance :: i128
  mh_local_pending_debt :: u128
  mh_remote_pending_debt :: u128
  mh_rand_nonce :: rand_value
  mh_new_token :: signature

definition create_hashed :: "crypto_api \<Rightarrow> ('b \<Rightarrow> bytes) \<Rightarrow> ('b, signature) move_token \<Rightarrow> move_token_hashed" where
  "create_hashed C ser mt =
     \<lparr> mh_prefix_hash = prefix_hash C ser mt, mh_local_public_key = mt_local_public_key mt,
       mh_remote_public_key = mt_remote_public_key mt, mh_inconsistency_counter = mt_inconsistency_counter mt,
       mh_move_token_counter = mt_move_token_counter mt, mh_balance = mt_balance mt,
       mh_local_pending_debt = mt_local_pending_debt mt, mh_remote_pending_debt = mt_remote_pending_debt mt,
       mh_rand_nonce = mt_rand_nonce mt, mh_new_token = mt_new_token mt \<rparr>"

definition create_unsigned_move_token ::
  "friend_tc_op list \<Rightarrow> 'b relay_address list option \<Rightarrow> signature \<Rightarrow> public_key \<Rightarrow> public_key \<Rightarrow> u64 \<Rightarrow> u128
    \<Rightarrow> i128 \<Rightarrow> u128 \<Rightarrow> u128 \<Rightarrow> rand_value \<Rightarrow> ('b, unit) move_token" where
  "create_unsigned_move_token operations opt_local_relays old_token local_public_key remote_public_key
     inconsistency_counter move_token_counter bal local_pending_debt remote_pending_debt rand_nonce =
     \<lparr> mt_operations = operations, mt_opt_local_relays = opt_local_relays, mt_old_token = old_token,
       mt_local_public_key = local_public_key, mt_remote_public_key = remote_public_key,
       mt_inconsistency_counter = inconsistency_counter, mt_move_token_counter = move_token_counter,
       mt_balance = bal, mt_local_pending_debt = local_pending_debt,
       mt_remote_pending_debt = remote_pending_debt, mt_rand_nonce = rand_nonce, mt_new_token = () \<rparr>"

definition sign_move_token ::
  "crypto_api \<Rightarrow> ('b \<Rightarrow> bytes) \<Rightarrow> (bytes \<Rightarrow> signature) \<Rightarrow> ('b, unit) move_token \<Rightarrow> ('b, signature) move_token" where
  "sign_move_token C ser sign u =
     (let signature_buff = move_token_signature_buff C ser u in
      \<lparr> mt_operations = mt_operations u, mt_opt_local_relays = mt_opt_local_relays u, mt_old_token = mt_old_token u,
        mt_local_public_key = mt_local_public_key u, mt_remote_public_key = mt_remote_public_key u,
        mt_inconsistency_counter = mt_inconsistency_counter u, mt_move_token_counter = mt_move_token_counter u,
        mt_balance = mt_balance u, mt_local_pending_debt = mt_local_pending_debt u,
        mt_remote_pending_debt = mt_remote_pending_debt u, mt_rand_nonce = mt_rand_nonce u,
        mt_new_token = sign signature_buff \<rparr>)"

definition create_response_send_funds ::
  "crypto_api \<Rightarrow> (bytes \<Rightarrow> signature) \<Rightarrow> pending_transaction \<Rightarrow> hashed_lock \<Rightarrow> rand_value
    \<Rightarrow> signature response_send_funds_op" where
  "create_response_send_funds C sign pt dest_hashed_lock rand_nonce =
     (let u = \<lparr> rs_request_id = pt_request_id pt, rs_dest_hashed_lock = dest_hashed_lock,
                rs_rand_nonce = rand_nonce, rs_signature = () \<rparr>;
          signature_buff = create_response_signature_buffer C u pt
      in \<lparr> rs_request_id = rs_request_id u, rs_dest_hashed_lock = rs_dest_hashed_lock u,
           rs_rand_nonce = rs_rand_nonce u, rs_signature = sign signature_buff \<rparr>)"

section \<open>State\<close>

datatype 'b set_direction = SdIncoming move_token_hashed | SdOutgoing "('b, signature) move_token"

datatype 'b tc_mutation = TcMcMutation mc_mutation | TcSetDirection "'b set_direction"

record 'b tc_outgoing =
  to_mutual_credit :: mutual_credit
  to_move_token_out :: "('b, signature) move_token"
  to_opt_prev_move_token_in :: "move_token_hashed option"

record tc_incoming =
  ti_mutual_credit :: mutual_credit
  ti_move_token_in :: move_token_hashed

datatype 'b tc_direction = TcIncoming tc_incoming | TcOutgoing "'b tc_outgoing"

record 'b token_channel =
  tc_direction :: "'b tc_direction"

datatype receive_move_token_error =
    ChainInconsistency
  | InvalidTransaction process_trans_list_error
  | InvalidSignature
  | InvalidStatedBalance
  | InvalidInconsistencyCounter
  | MoveTokenCounterOverflow
  | InvalidMoveTokenCounter
  | TooManyOperations

record 'b move_token_received =
  mtd_incoming_messages :: "incoming_message list"
  mtd_mutations :: "'b tc_mutation list"
  mtd_remote_requests_closed :: bool
  mtd_opt_local_relays :: "'b relay_address list option"

datatype 'b receive_move_token_output =
    Duplicate
  | RetransmitOutgoing "('b, signature) move_token"
  | Received "'b move_token_received"

section \<open>Creation\<close>

definition token_from_public_key :: "public_key \<Rightarrow> signature" where
  "token_from_public_key pk = pk @ replicate (SIGNATURE_LEN - PUBLIC_KEY_LEN) 0"

definition rand_nonce_from_public_key :: "crypto_api \<Rightarrow> public_key \<Rightarrow> rand_value" where
  "rand_nonce_from_public_key C pk = take RAND_VALUE_LEN (sha_512_256 C pk)"

definition initial_move_token :: "crypto_api \<Rightarrow> public_key \<Rightarrow> public_key \<Rightarrow> i128 \<Rightarrow> ('b, signature) move_token" where
  "initial_move_token C low_public_key high_public_key bal =
     \<lparr> mt_operations = [], mt_opt_local_relays = None, mt_old_token = token_from_public_key low_public_key,
       mt_local_public_key = low_public_key, mt_remote_public_key = high_public_key,
       mt_inconsistency_counter = 0, mt_move_token_counter = 0, mt_balance = bal,
       mt_local_pending_debt = 0, mt_remote_pending_debt = 0,
       mt_rand_nonce = rand_nonce_from_public_key C high_public_key,
       mt_new_token = token_from_public_key high_public_key \<rparr>"

text \<open>The order of byte arrays, and \<open>compare_public_key\<close> of \<open>components/crypto/src/identity.rs\<close>.\<close>

fun bytes_less :: "bytes \<Rightarrow> bytes \<Rightarrow> bool" where
  "bytes_less [] [] = False"
| "bytes_less [] (y # ys) = True"
| "bytes_less (x # xs) [] = False"
| "bytes_less (x # xs) (y # ys) = (if x = y then bytes_less xs ys else x < y)"

definition public_key_less :: "crypto_api \<Rightarrow> public_key \<Rightarrow> public_key \<Rightarrow> bool" where
  "public_key_less C pk1 pk2 = bytes_less (sha_512_256 C pk1) (sha_512_256 C pk2)"

text \<open>\<open>None\<close> is the panic of \<open>checked_neg().unwrap()\<close>.\<close>

definition token_channel_new ::
  "crypto_api \<Rightarrow> ('b \<Rightarrow> bytes) \<Rightarrow> public_key \<Rightarrow> public_key \<Rightarrow> i128 \<Rightarrow> 'b token_channel option" where
  "token_channel_new C ser local_public_key remote_public_key bal =
     (let mc = mc_new local_public_key remote_public_key bal in
      if public_key_less C local_public_key remote_public_key
      then Some \<lparr> tc_direction = TcOutgoing \<lparr> to_mutual_credit = mc,
             to_move_token_out = initial_move_token C local_public_key remote_public_key bal,
             to_opt_prev_move_token_in = None \<rparr> \<rparr>
      else case i_checked_neg bal of
             None \<Rightarrow> None
           | Some neg_balance \<Rightarrow>
               Some \<lparr> tc_direction = TcIncoming \<lparr> ti_mutual_credit = mc,
                 ti_move_token_in = create_hashed C ser
                   (initial_move_token C remote_public_key local_public_key neg_balance) \<rparr> \<rparr>)"

definition new_from_remote_reset ::
  "crypto_api \<Rightarrow> ('b \<Rightarrow> bytes) \<Rightarrow> public_key \<Rightarrow> public_key \<Rightarrow> ('b, signature) move_token \<Rightarrow> i128 \<Rightarrow> 'b token_channel" where
  "new_from_remote_reset C ser local_public_key remote_public_key reset_move_token bal =
     \<lparr> tc_direction = TcIncoming \<lparr> ti_mutual_credit = mc_new local_public_key remote_public_key bal,
       ti_move_token_in = create_hashed C ser reset_move_token \<rparr> \<rparr>"

definition new_from_local_reset ::
  "public_key \<Rightarrow> public_key \<Rightarrow> ('b, signature) move_token \<Rightarrow> i128 \<Rightarrow> move_token_hashed option \<Rightarrow> 'b token_channel" where
  "new_from_local_reset local_public_key remote_public_key reset_move_token bal opt_last_incoming_move_token =
     \<lparr> tc_direction = TcOutgoing \<lparr> to_mutual_credit = mc_new local_public_key remote_public_key bal,
       to_move_token_out = reset_move_token, to_opt_prev_move_token_in = opt_last_incoming_move_token \<rparr> \<rparr>"

section \<open>Accessors and mutations\<close>

definition get_mutual_credit :: "'b token_channel \<Rightarrow> mutual_credit" where
  "get_mutual_credit tc =
     (case tc_direction tc of TcIncoming ti \<Rightarrow> ti_mutual_credit ti | TcOutgoing t \<Rightarrow> to_mutual_credit t)"

definition get_remote_max_debt :: "'b token_channel \<Rightarrow> u128" where
  "get_remote_max_debt tc = mb_remote_max_debt (st_balance (get_mutual_credit tc))"

definition get_last_incoming_move_token_hashed :: "'b token_channel \<Rightarrow> move_token_hashed option" where
  "get_last_incoming_move_token_hashed tc =
     (case tc_direction tc of
        TcIncoming ti \<Rightarrow> Some (ti_move_token_in ti)
      | TcOutgoing t \<Rightarrow>
          (case to_opt_prev_move_token_in t of
             None \<Rightarrow> None
           | Some prev_move_token_in \<Rightarrow> Some prev_move_token_in))"

definition set_mutual_credit :: "'b token_channel \<Rightarrow> mutual_credit \<Rightarrow> 'b token_channel" where
  "set_mutual_credit tc mc = \<lparr> tc_direction =
     (case tc_direction tc of
        TcIncoming ti \<Rightarrow> TcIncoming (ti\<lparr> ti_mutual_credit := mc \<rparr>)
      | TcOutgoing t \<Rightarrow> TcOutgoing (t\<lparr> to_mutual_credit := mc \<rparr>)) \<rparr>"

fun tc_mutate :: "'b token_channel \<Rightarrow> 'b tc_mutation \<Rightarrow> 'b token_channel option" where
  "tc_mutate tc (TcMcMutation m) = map_option (set_mutual_credit tc) (mc_mutate (get_mutual_credit tc) m)"
| "tc_mutate tc (TcSetDirection (SdIncoming h)) =
     Some \<lparr> tc_direction = TcIncoming \<lparr> ti_mutual_credit = get_mutual_credit tc, ti_move_token_in = h \<rparr> \<rparr>"
| "tc_mutate tc (TcSetDirection (SdOutgoing mt)) =
     Some \<lparr> tc_direction = TcOutgoing \<lparr> to_mutual_credit = get_mutual_credit tc, to_move_token_out = mt,
       to_opt_prev_move_token_in = get_last_incoming_move_token_hashed tc \<rparr> \<rparr>"

text \<open>Applying the recorded mutations of a channel in order.\<close>

fun tc_replay :: "'b token_channel \<Rightarrow> 'b tc_mutation list \<Rightarrow> 'b token_channel option" where
  "tc_replay tc [] = Some tc"
| "tc_replay tc (m # ms) = (case tc_mutate tc m of None \<Rightarrow> None | Some tc' \<Rightarrow> tc_replay tc' ms)"

definition get_inconsistency_counter :: "'b token_channel \<Rightarrow> u64" where
  "get_inconsistency_counter tc =
     (case tc_direction tc of
        TcIncoming ti \<Rightarrow> mh_inconsistency_counter (ti_move_token_in ti)
      | TcOutgoing t \<Rightarrow> mt_inconsistency_counter (to_move_token_out t))"

definition get_move_token_counter :: "'b token_channel \<Rightarrow> u128" where
  "get_move_token_counter tc =
     (case tc_direction tc of
        TcIncoming ti \<Rightarrow> mh_move_token_counter (ti_move_token_in ti)
      | TcOutgoing t \<Rightarrow> mt_move_token_counter (to_move_token_out t))"

definition is_outgoing :: "'b token_channel \<Rightarrow> bool" where
  "is_outgoing tc = (case tc_direction tc of TcIncoming _ \<Rightarrow> False | TcOutgoing _ \<Rightarrow> True)"

section \<open>Sending\<close>

definition ti_create_unsigned_move_token ::
  "tc_incoming \<Rightarrow> friend_tc_op list \<Rightarrow> 'b relay_address list option \<Rightarrow> rand_value \<Rightarrow> ('b, unit) move_token" where
  "ti_create_unsigned_move_token ti operations opt_local_relays rand_nonce =
     create_unsigned_move_token operations opt_local_relays (mh_new_token (ti_move_token_in ti))
       (mh_remote_public_key (ti_move_token_in ti)) (mh_local_public_key (ti_move_token_in ti))
       (mh_inconsistency_counter (ti_move_token_in ti)) (mh_move_token_counter (ti_move_token_in ti) + 1)
       (mb_balance (st_balance (ti_mutual_credit ti)))
       (mb_local_pending_debt (st_balance (ti_mutual_credit ti)))
       (mb_remote_pending_debt (st_balance (ti_mutual_credit ti))) rand_nonce"

definition begin_outgoing_move_token :: "tc_incoming \<Rightarrow> outgoing_mc" where
  "begin_outgoing_move_token ti = outgoing_mc_new (ti_mutual_credit ti)"

definition create_outgoing_move_token :: "'b tc_outgoing \<Rightarrow> ('b, signature) move_token" where
  "create_outgoing_move_token t = to_move_token_out t"

section \<open>Receiving\<close>

type_synonym 'b receive_result = "('b receive_move_token_output, receive_move_token_error) res"

definition ti_handle_incoming ::
  "crypto_api \<Rightarrow> ('b \<Rightarrow> bytes) \<Rightarrow> tc_incoming \<Rightarrow> ('b, signature) move_token \<Rightarrow> 'b receive_result" where
  "ti_handle_incoming C ser ti new_move_token =
     (if ti_move_token_in ti = create_hashed C ser new_move_token then Ok Duplicate else Err ChainInconsistency)"

text \<open>
  The loops over the outputs of the operations: apply every mutation to the copy that is
  checked, follow the status of the remote's requests, record the mutation.
\<close>

fun check_mutations ::
  "mutual_credit \<times> bool \<times> 'b tc_mutation list \<Rightarrow> mc_mutation list
    \<Rightarrow> (mutual_credit \<times> bool \<times> 'b tc_mutation list) option" where
  "check_mutations st [] = Some st"
| "check_mutations (check_mutual_credit, final_remote_requests, mutations) (m # ms) =
     (case mc_mutate check_mutual_credit m of
        None \<Rightarrow> None
      | Some check_mutual_credit' \<Rightarrow>
          check_mutations
            (check_mutual_credit',
             (case m of SetRemoteRequestsStatus s \<Rightarrow> is_open s | _ \<Rightarrow> final_remote_requests),
             mutations @ [TcMcMutation m]) ms)"

fun check_outputs ::
  "mutual_credit \<times> bool \<times> 'b tc_mutation list \<Rightarrow> incoming_message list \<Rightarrow> process_operation_output list
    \<Rightarrow> ((mutual_credit \<times> bool \<times> 'b tc_mutation list) \<times> incoming_message list) option" where
  "check_outputs st incoming_messages [] = Some (st, incoming_messages)"
| "check_outputs st incoming_messages (out # outs) =
     (let incoming_messages' =
        (case po_incoming_message out of None \<Rightarrow> incoming_messages | Some funds \<Rightarrow> incoming_messages @ [funds]) in
      case check_mutations st (po_mc_mutations out) of
        None \<Rightarrow> None
      | Some st' \<Rightarrow> check_outputs st' incoming_messages' outs)"

definition to_handle_incoming_token_match ::
  "crypto_api \<Rightarrow> ('b \<Rightarrow> bytes) \<Rightarrow> 'b tc_outgoing \<Rightarrow> ('b, signature) move_token \<Rightarrow> 'b receive_result" where
  "to_handle_incoming_token_match C ser t new_move_token =
     (if \<not> verify_move_token C ser new_move_token (mi_remote_public_key (st_idents (to_mutual_credit t)))
      then Err InvalidSignature
      else if mt_inconsistency_counter new_move_token \<noteq> mt_inconsistency_counter (to_move_token_out t)
      then Err InvalidInconsistencyCounter
      else
        res_bind (ok_or (u_checked_add (mt_move_token_counter (to_move_token_out t)) 1) MoveTokenCounterOverflow)
          (\<lambda>expected_move_token_counter.
        if mt_move_token_counter new_move_token \<noteq> expected_move_token_counter then Err InvalidMoveTokenCounter
        else
          case process_operations_list C (to_mutual_credit t) (mt_operations new_move_token) of
            Panic \<Rightarrow> Panic
          | Err e \<Rightarrow> Err (InvalidTransaction e)
          | Ok (_, outputs) \<Rightarrow>
              let initial_remote_requests = is_open (mr_remote (st_requests_status (to_mutual_credit t))) in
              res_bind (unwrap (check_outputs (to_mutual_credit t, initial_remote_requests, []) [] outputs))
                (\<lambda>((check_mutual_credit, final_remote_requests, mutations), incoming_messages).
              let check_balance = st_balance check_mutual_credit in
              res_bind (unwrap (i_checked_neg (mt_balance new_move_token))) (\<lambda>neg_balance.
              if mb_balance check_balance \<noteq> neg_balance
                \<or> mb_local_pending_debt check_balance \<noteq> mt_remote_pending_debt new_move_token
                \<or> mb_remote_pending_debt check_balance \<noteq> mt_local_pending_debt new_move_token
              then Err InvalidStatedBalance
              else
                Ok (Received
                  \<lparr> mtd_incoming_messages = incoming_messages,
                    mtd_mutations = mutations @ [TcSetDirection (SdIncoming (create_hashed C ser new_move_token))],
                    mtd_remote_requests_closed = (final_remote_requests \<and> \<not> initial_remote_requests),
                    mtd_opt_local_relays = mt_opt_local_relays new_move_token \<rparr>)))))"

definition to_handle_incoming ::
  "crypto_api \<Rightarrow> ('b \<Rightarrow> bytes) \<Rightarrow> 'b tc_outgoing \<Rightarrow> ('b, signature) move_token \<Rightarrow> 'b receive_result" where
  "to_handle_incoming C ser t new_move_token =
     (if \<not> (mi_local_public_key (st_idents (to_mutual_credit t)) = mt_remote_public_key new_move_token
            \<and> mi_remote_public_key (st_idents (to_mutual_credit t)) = mt_local_public_key new_move_token)
      then Err ChainInconsistency
      else if mt_old_token new_move_token = mt_new_token (to_move_token_out t)
      then to_handle_incoming_token_match C ser t new_move_token
      else if mt_old_token (to_move_token_out t) = mt_new_token new_move_token
      then Ok (RetransmitOutgoing (to_move_token_out t))
      else Err ChainInconsistency)"

definition simulate_receive_move_token ::
  "crypto_api \<Rightarrow> ('b \<Rightarrow> bytes) \<Rightarrow> 'b token_channel \<Rightarrow> ('b, signature) move_token \<Rightarrow> 'b receive_result" where
  "simulate_receive_move_token C ser tc new_move_token =
     (case tc_direction tc of
        TcIncoming ti \<Rightarrow> ti_handle_incoming C ser ti new_move_token
      | TcOutgoing t \<Rightarrow> to_handle_incoming C ser t new_move_token)"

section \<open>Facts about replaying and checking\<close>

lemma get_set_mutual_credit [simp]: "get_mutual_credit (set_mutual_credit tc mc) = mc"
  by (simp add: get_mutual_credit_def set_mutual_credit_def split: tc_direction.split)

lemma get_mutual_credit_direction [simp]:
  "get_mutual_credit \<lparr> tc_direction = TcIncoming ti \<rparr> = ti_mutual_credit ti"
  "get_mutual_credit \<lparr> tc_direction = TcOutgoing t \<rparr> = to_mutual_credit t"
  by (simp_all add: get_mutual_credit_def)

lemma set_set_mutual_credit [simp]: "set_mutual_credit (set_mutual_credit tc mc) = set_mutual_credit tc"
  by (rule ext) (simp add: set_mutual_credit_def split: tc_direction.split)

lemma set_get_mutual_credit [simp]: "set_mutual_credit tc (get_mutual_credit tc) = tc"
  by (cases "tc_direction tc") (simp_all add: get_mutual_credit_def set_mutual_credit_def)

lemma last_incoming_set [simp]:
  "get_last_incoming_move_token_hashed (set_mutual_credit tc mc) = get_last_incoming_move_token_hashed tc"
  by (simp add: get_last_incoming_move_token_hashed_def set_mutual_credit_def split: tc_direction.split)

lemma tc_replay_append:
  "tc_replay tc (ms @ ns) = (case tc_replay tc ms of None \<Rightarrow> None | Some tc' \<Rightarrow> tc_replay tc' ns)"
  by (induction ms arbitrary: tc) (auto split: option.split)

lemma tc_replay_mc:
  "tc_replay tc (map TcMcMutation ms) = map_option (set_mutual_credit tc) (mc_replay (get_mutual_credit tc) ms)"
  by (induction ms arbitrary: tc) (auto split: option.split)

lemma mutate_remote_status:
  "mc_mutate mc m = Some mc' \<Longrightarrow>
     is_open (mr_remote (st_requests_status mc')) =
       (case m of SetRemoteRequestsStatus s \<Rightarrow> is_open s | _ \<Rightarrow> is_open (mr_remote (st_requests_status mc)))"
  by (cases m) (auto simp: mc_setters split: option.splits)

lemma check_mutations_replay:
  "check_mutations (mc, is_open (mr_remote (st_requests_status mc)), ts) ms =
     map_option (\<lambda>mc'. (mc', is_open (mr_remote (st_requests_status mc')), ts @ map TcMcMutation ms)) (mc_replay mc ms)"
proof (induction ms arbitrary: mc ts)
  case Nil
  then show ?case by simp
next
  case (Cons m ms)
  show ?case
  proof (cases "mc_mutate mc m")
    case None
    then show ?thesis by simp
  next
    case (Some mc')
    then show ?thesis using Cons.IH [of mc'] by (simp add: mutate_remote_status [symmetric])
  qed
qed

lemma check_outputs_replay:
  "check_outputs (mc, is_open (mr_remote (st_requests_status mc)), ts) msgs outs =
     map_option (\<lambda>mc'. ((mc', is_open (mr_remote (st_requests_status mc')),
         ts @ map TcMcMutation (concat (map po_mc_mutations outs))),
       msgs @ List.map_filter po_incoming_message outs)) (mc_replay mc (concat (map po_mc_mutations outs)))"
proof (induction outs arbitrary: mc ts msgs)
  case Nil
  then show ?case by simp
next
  case (Cons out outs)
  show ?case
  proof (cases "mc_replay mc (po_mc_mutations out)")
    case None
    then show ?thesis by (simp add: check_mutations_replay mc_replay_append Let_def)
  next
    case (Some mc')
    then show ?thesis
      using Cons.IH [of mc']
      by (auto simp: check_mutations_replay mc_replay_append Let_def List.map_filter_def split: option.split)
  qed
qed

text \<open>What a matching token gives, with the loops resolved.\<close>

lemma token_match_eq:
  assumes inv: "mc_inv (to_mutual_credit t)"
    and ver: "verify_move_token C ser mt (mi_remote_public_key (st_idents (to_mutual_credit t)))"
    and inc: "mt_inconsistency_counter mt = mt_inconsistency_counter (to_move_token_out t)"
    and ctr: "u_checked_add (mt_move_token_counter (to_move_token_out t)) 1 = Some (mt_move_token_counter mt)"
    and ops: "process_operations_list C (to_mutual_credit t) (mt_operations mt) = Ok (mc', outs)"
    and neg: "i_checked_neg (mt_balance mt) = Some nb"
  shows "to_handle_incoming_token_match C ser t mt =
    (if mb_balance (st_balance mc') \<noteq> nb
        \<or> mb_local_pending_debt (st_balance mc') \<noteq> mt_remote_pending_debt mt
        \<or> mb_remote_pending_debt (st_balance mc') \<noteq> mt_local_pending_debt mt
     then Err InvalidStatedBalance
     else Ok (Received
       \<lparr> mtd_incoming_messages = List.map_filter po_incoming_message outs,
         mtd_mutations = map TcMcMutation (concat (map po_mc_mutations outs))
           @ [TcSetDirection (SdIncoming (create_hashed C ser mt))],
         mtd_remote_requests_closed = (is_open (mr_remote (st_requests_status mc'))
           \<and> \<not> is_open (mr_remote (st_requests_status (to_mutual_credit t)))),
         mtd_opt_local_relays = mt_opt_local_relays mt \<rparr>))"
  using assms process_list_replay [OF inv ops]
  by (simp add: to_handle_incoming_token_match_def check_outputs_replay)

lemma simulate_not_Panic:
  assumes "mc_inv (get_mutual_credit tc)" "sint (mt_balance mt) \<noteq> - (2 ^ 127)"
  shows "simulate_receive_move_token C ser tc mt \<noteq> Panic"
proof (cases "tc_direction tc")
  case (TcIncoming ti)
  then show ?thesis by (simp add: simulate_receive_move_token_def ti_handle_incoming_def)
next
  case (TcOutgoing t)
  then have inv: "mc_inv (to_mutual_credit t)"
    using assms(1) by (simp add: get_mutual_credit_def)
  have neg: "i_checked_neg (mt_balance mt) \<noteq> None"
    using assms(2) i128_range [of "mt_balance mt"] by (auto simp: i_checked_neg_def i128_fits)
  have "to_handle_incoming_token_match C ser t mt \<noteq> Panic"
    using process_list_not_Panic [OF inv, of C "mt_operations mt"] process_list_replay [OF inv, of C "mt_operations mt"] neg
    by (auto simp: to_handle_incoming_token_match_def res_simps check_outputs_replay Let_def split: res.splits if_splits)
  with TcOutgoing show ?thesis
    by (simp add: simulate_receive_move_token_def to_handle_incoming_def)
qed

lemma token_match_Ok:
  "to_handle_incoming_token_match C ser t mt = Ok out \<Longrightarrow> \<exists>r. out = Received r"
  by (auto simp: to_handle_incoming_token_match_def res_simps Let_def split: res.splits if_splits prod.splits)

text \<open>Accepting a token: the channel becomes incoming and keeps its invariant.\<close>

lemma token_match_Received:
  assumes inv: "mc_inv (to_mutual_credit t)"
    and run: "to_handle_incoming_token_match C ser t mt = Ok (Received r)"
  obtains mc' outs where "process_operations_list C (to_mutual_credit t) (mt_operations mt) = Ok (mc', outs)"
    and "mc_inv mc'"
    and "sint (mb_balance (st_balance mc')) = - sint (mt_balance mt)"
    and "mb_local_pending_debt (st_balance mc') = mt_remote_pending_debt mt"
    and "mb_remote_pending_debt (st_balance mc') = mt_local_pending_debt mt"
    and "verify_move_token C ser mt (mi_remote_public_key (st_idents (to_mutual_credit t)))"
    and "uint (mt_move_token_counter mt) = uint (mt_move_token_counter (to_move_token_out t)) + 1"
    and "mtd_mutations r = map TcMcMutation (concat (map po_mc_mutations outs))
      @ [TcSetDirection (SdIncoming (create_hashed C ser mt))]"
    and "mtd_remote_requests_closed r = (is_open (mr_remote (st_requests_status mc'))
      \<and> \<not> is_open (mr_remote (st_requests_status (to_mutual_credit t))))"
proof -
  from run obtain mc' outs where
    ver: "verify_move_token C ser mt (mi_remote_public_key (st_idents (to_mutual_credit t)))" and
    inc: "mt_inconsistency_counter mt = mt_inconsistency_counter (to_move_token_out t)" and
    ctr: "u_checked_add (mt_move_token_counter (to_move_token_out t)) 1 = Some (mt_move_token_counter mt)" and
    ops: "process_operations_list C (to_mutual_credit t) (mt_operations mt) = Ok (mc', outs)"
    by (auto simp: to_handle_incoming_token_match_def res_simps split: if_splits res.splits)
  have "i_checked_neg (mt_balance mt) \<noteq> None"
    using run ver inc ctr ops by (auto simp: to_handle_incoming_token_match_def Let_def res_simps split: prod.splits)
  then obtain nb where neg: "i_checked_neg (mt_balance mt) = Some nb" by blast
  then have nb: "sint nb = - sint (mt_balance mt)"
    by (auto simp: i_checked_neg_def sint_neg_fits split: if_splits)
  have "process_operations_list C (to_mutual_credit t) (mt_operations mt) = Ok (mc', outs)" by (rule ops)
  moreover have "mc_inv mc'" using inv ops by (rule process_list_inv)
  moreover note run [unfolded token_match_eq [OF inv ver inc ctr ops neg]] ver ctr nb
  ultimately show thesis
    by (intro that [of mc' outs]) (auto simp: u_checked_add_Some split: if_splits)
qed

end
