(* ===== verification/FunderState.thy ===== *)
theory FunderState
  imports TokenChannel "HOL-Library.List_Lexorder"
begin

text \<open>
  The state a funder keeps about each friend and about its own payments, and the mutations
  through which alone it changes: \<open>components/funder/src/friend.rs\<close> and
  \<open>components/funder/src/state.rs\<close>. A mutation that panics gives \<open>None\<close>.
\<close>

section \<open>Friends\<close>

datatype backwards_op =
    BackResponse "signature response_send_funds_op"
  | BackCancel cancel_send_funds_op
  | BackCollect collect_send_funds_op

datatype 'b sent_local_relays =
    NeverSent
  | Transition "'b named_relay_address list" "'b named_relay_address list"
  | LastSent "'b named_relay_address list"

text \<open>\<open>Vec::dedup_by_key\<close>: of consecutive elements with equal keys the first stays.\<close>

fun dedup_by_key :: "('a \<Rightarrow> 'k) \<Rightarrow> 'a list \<Rightarrow> 'a list" where
  "dedup_by_key f [] = []"
| "dedup_by_key f [x] = [x]"
| "dedup_by_key f (x # y # ys) =
     (if f x = f y then dedup_by_key f (x # ys) else x # dedup_by_key f (y # ys))"

definition sent_local_relays_to_vec :: "'b sent_local_relays \<Rightarrow> 'b relay_address list" where
  "sent_local_relays_to_vec s =
     (case s of
        NeverSent \<Rightarrow> []
      | Transition last_relays prev_last_relays \<Rightarrow>
          (let relays = map relay_of_named last_relays @ map relay_of_named prev_last_relays
           in dedup_by_key ra_public_key (sort_key ra_public_key relays))
      | LastSent last_address \<Rightarrow> map relay_of_named last_address)"

record channel_inconsistent =
  ci_opt_last_incoming_move_token :: "move_token_hashed option"
  ci_local_reset_terms :: reset_terms
  ci_opt_remote_reset_terms :: "reset_terms option"

datatype 'b channel_status = Inconsistent channel_inconsistent | Consistent "'b token_channel"

definition cs_get_last_incoming_move_token_hashed :: "'b channel_status \<Rightarrow> move_token_hashed option" where
  "cs_get_last_incoming_move_token_hashed s =
     (case s of
        Inconsistent ci \<Rightarrow> ci_opt_last_incoming_move_token ci
      | Consistent tc \<Rightarrow> get_last_incoming_move_token_hashed tc)"

datatype friend_status = Enabled | Disabled

record 'b friend_state =
  fr_local_public_key :: public_key
  fr_remote_public_key :: public_key
  fr_remote_relays :: "'b relay_address list"
  fr_sent_local_relays :: "'b sent_local_relays"
  fr_name :: string
  fr_rate :: rate
  fr_status :: friend_status
  fr_channel_status :: "'b channel_status"
  fr_wanted_remote_max_debt :: u128
  fr_wanted_local_requests_status :: requests_status
  fr_pending_requests :: "request_send_funds_op list"
  fr_pending_backwards_ops :: "backwards_op list"
  fr_pending_user_requests :: "request_send_funds_op list"

datatype 'b friend_mutation =
    FmTcMutation "'b tc_mutation"
  | SetInconsistent channel_inconsistent
  | SetConsistent "'b token_channel"
  | SetWantedRemoteMaxDebt u128
  | SetWantedLocalRequestsStatus requests_status
  | PushBackPendingRequest request_send_funds_op
  | PopFrontPendingRequest
  | PushBackPendingBackwardsOp backwards_op
  | PopFrontPendingBackwardsOp
  | PushBackPendingUserRequest request_send_funds_op
  | PopFrontPendingUserRequest
  | SetStatus friend_status
  | SetRemoteRelays "'b relay_address list"
  | SetName string
  | SetRate rate
  | SetSentLocalRelays "'b sent_local_relays"

definition friend_state_new ::
  "crypto_api \<Rightarrow> ('b \<Rightarrow> bytes) \<Rightarrow> public_key \<Rightarrow> public_key \<Rightarrow> 'b relay_address list \<Rightarrow> string \<Rightarrow> i128
    \<Rightarrow> 'b friend_state option" where
  "friend_state_new C ser local_public_key remote_public_key remote_relays name bal =
     (case token_channel_new C ser local_public_key remote_public_key bal of
        None \<Rightarrow> None
      | Some token_channel \<Rightarrow>
          Some \<lparr> fr_local_public_key = local_public_key, fr_remote_public_key = remote_public_key,
            fr_remote_relays = remote_relays, fr_sent_local_relays = NeverSent, fr_name = name,
            fr_rate = rate_new, fr_status = Disabled, fr_channel_status = Consistent token_channel,
            fr_wanted_remote_max_debt = 0, fr_wanted_local_requests_status = Closed,
            fr_pending_requests = [], fr_pending_backwards_ops = [], fr_pending_user_requests = [] \<rparr>)"

fun friend_mutate :: "'b friend_state \<Rightarrow> 'b friend_mutation \<Rightarrow> 'b friend_state option" where
  "friend_mutate fr (FmTcMutation m) =
     (case fr_channel_status fr of
        Consistent tc \<Rightarrow> map_option (\<lambda>tc'. fr\<lparr> fr_channel_status := Consistent tc' \<rparr>) (tc_mutate tc m)
      | Inconsistent _ \<Rightarrow> None)"
| "friend_mutate fr (SetInconsistent ci) = Some (fr\<lparr> fr_channel_status := Inconsistent ci \<rparr>)"
| "friend_mutate fr (SetConsistent tc) = Some (fr\<lparr> fr_channel_status := Consistent tc \<rparr>)"
| "friend_mutate fr (SetWantedRemoteMaxDebt d) = Some (fr\<lparr> fr_wanted_remote_max_debt := d \<rparr>)"
| "friend_mutate fr (SetWantedLocalRequestsStatus s) = Some (fr\<lparr> fr_wanted_local_requests_status := s \<rparr>)"
| "friend_mutate fr (PushBackPendingRequest rq) =
     Some (fr\<lparr> fr_pending_requests := fr_pending_requests fr @ [rq] \<rparr>)"
| "friend_mutate fr PopFrontPendingRequest =
     Some (fr\<lparr> fr_pending_requests := drop 1 (fr_pending_requests fr) \<rparr>)"
| "friend_mutate fr (PushBackPendingBackwardsOp op) =
     Some (fr\<lparr> fr_pending_backwards_ops := fr_pending_backwards_ops fr @ [op] \<rparr>)"
| "friend_mutate fr PopFrontPendingBackwardsOp =
     Some (fr\<lparr> fr_pending_backwards_ops := drop 1 (fr_pending_backwards_ops fr) \<rparr>)"
| "friend_mutate fr (PushBackPendingUserRequest rq) =
     Some (fr\<lparr> fr_pending_user_requests := fr_pending_user_requests fr @ [rq] \<rparr>)"
| "friend_mutate fr PopFrontPendingUserRequest =
     Some (fr\<lparr> fr_pending_user_requests := drop 1 (fr_pending_user_requests fr) \<rparr>)"
| "friend_mutate fr (SetStatus s) = Some (fr\<lparr> fr_status := s \<rparr>)"
| "friend_mutate fr (SetRemoteRelays relays) = Some (fr\<lparr> fr_remote_relays := relays \<rparr>)"
| "friend_mutate fr (SetName name) = Some (fr\<lparr> fr_name := name \<rparr>)"
| "friend_mutate fr (SetRate r) = Some (fr\<lparr> fr_rate := r \<rparr>)"
| "friend_mutate fr (SetSentLocalRelays s) = Some (fr\<lparr> fr_sent_local_relays := s \<rparr>)"

section \<open>The funder\<close>

record new_transactions =
  nt_num_transactions :: u64
  nt_invoice_id :: invoice_id
  nt_total_dest_payment :: u128
  nt_dest_public_key :: public_key

datatype payment =
    NewTransactions new_transactions
  | InProgress u64
  | PaySuccess u64 receipt uid
  | PayCanceled uid
  | AfterSuccessAck u64

record incoming_transaction =
  it_request_id :: uid
  it_dest_plain_lock :: plain_lock

record open_invoice =
  oi_total_dest_payment :: u128
  oi_incoming_transactions :: "(hashed_lock, incoming_transaction) hmap"

definition open_invoice_new :: "u128 \<Rightarrow> open_invoice" where
  "open_invoice_new total_dest_payment =
     \<lparr> oi_total_dest_payment = total_dest_payment, oi_incoming_transactions = [] \<rparr>"

record open_transaction =
  ot_payment_id :: payment_id
  ot_src_plain_lock :: plain_lock
  ot_opt_response :: "signature response_send_funds_op option"

record 'b funder_state =
  fs_local_public_key :: public_key
  fs_relays :: "'b named_relay_address list"
  fs_friends :: "(public_key, 'b friend_state) hmap"
  fs_open_invoices :: "(invoice_id, open_invoice) hmap"
  fs_open_transactions :: "(uid, open_transaction) hmap"
  fs_payments :: "(payment_id, payment) hmap"

record 'b add_friend =
  af_friend_public_key :: public_key
  af_relays :: "'b relay_address list"
  af_name :: string
  af_balance :: i128

datatype 'b funder_mutation =
    FriendMutation public_key "'b friend_mutation"
  | AddRelay "'b named_relay_address"
  | RemoveRelay public_key
  | AddFriend "'b add_friend"
  | RemoveFriend public_key
  | AddInvoice invoice_id u128
  | AddIncomingTransaction invoice_id uid plain_lock
  | RemoveInvoice invoice_id
  | AddTransaction uid payment_id plain_lock
  | SetTransactionResponse "signature response_send_funds_op"
  | RemoveTransaction uid
  | UpdatePayment payment_id payment
  | RemovePayment payment_id

definition funder_state_new :: "public_key \<Rightarrow> 'b named_relay_address list \<Rightarrow> 'b funder_state" where
  "funder_state_new local_public_key relays =
     \<lparr> fs_local_public_key = local_public_key, fs_relays = relays, fs_friends = [], fs_open_invoices = [],
       fs_open_transactions = [], fs_payments = [] \<rparr>"

fun funder_mutate ::
  "crypto_api \<Rightarrow> ('b \<Rightarrow> bytes) \<Rightarrow> 'b funder_state \<Rightarrow> 'b funder_mutation \<Rightarrow> 'b funder_state option" where
  "funder_mutate C ser st (FriendMutation public_key friend_mutation) =
     (case hm_get (fs_friends st) public_key of
        None \<Rightarrow> None
      | Some friend \<Rightarrow>
          map_option (\<lambda>friend'. st\<lparr> fs_friends := hm_insert public_key friend' (fs_friends st) \<rparr>)
            (friend_mutate friend friend_mutation))"
| "funder_mutate C ser st (AddRelay relay) =
     Some (st\<lparr> fs_relays := filter (\<lambda>cur. nra_public_key cur \<noteq> nra_public_key relay) (fs_relays st) @ [relay] \<rparr>)"
| "funder_mutate C ser st (RemoveRelay public_key) =
     Some (st\<lparr> fs_relays := filter (\<lambda>cur. nra_public_key cur \<noteq> public_key) (fs_relays st) \<rparr>)"
| "funder_mutate C ser st (AddFriend af) =
     (case friend_state_new C ser (fs_local_public_key st) (af_friend_public_key af) (af_relays af) (af_name af)
             (af_balance af) of
        None \<Rightarrow> None
      | Some friend \<Rightarrow>
          if hm_contains (fs_friends st) (af_friend_public_key af) then None
          else Some (st\<lparr> fs_friends := hm_insert (af_friend_public_key af) friend (fs_friends st) \<rparr>))"
| "funder_mutate C ser st (RemoveFriend public_key) =
     Some (st\<lparr> fs_friends := hm_remove public_key (fs_friends st) \<rparr>)"
| "funder_mutate C ser st (AddInvoice invoice_id total_dest_payment) =
     Some (st\<lparr> fs_open_invoices := hm_insert invoice_id (open_invoice_new total_dest_payment) (fs_open_invoices st) \<rparr>)"
| "funder_mutate C ser st (AddIncomingTransaction invoice_id request_id dest_plain_lock) =
     (case hm_get (fs_open_invoices st) invoice_id of
        None \<Rightarrow> None
      | Some open_invoice \<Rightarrow>
          (let incoming_transaction = \<lparr> it_request_id = request_id, it_dest_plain_lock = dest_plain_lock \<rparr>;
               open_invoice' = open_invoice\<lparr> oi_incoming_transactions :=
                 hm_insert (plain_lock_hash C dest_plain_lock) incoming_transaction
                   (oi_incoming_transactions open_invoice) \<rparr>
           in Some (st\<lparr> fs_open_invoices := hm_insert invoice_id open_invoice' (fs_open_invoices st) \<rparr>)))"
| "funder_mutate C ser st (RemoveInvoice invoice_id) =
     Some (st\<lparr> fs_open_invoices := hm_remove invoice_id (fs_open_invoices st) \<rparr>)"
| "funder_mutate C ser st (AddTransaction request_id payment_id src_plain_lock) =
     Some (st\<lparr> fs_open_transactions := hm_insert request_id
       \<lparr> ot_payment_id = payment_id, ot_src_plain_lock = src_plain_lock, ot_opt_response = None \<rparr>
       (fs_open_transactions st) \<rparr>)"
| "funder_mutate C ser st (SetTransactionResponse rs) =
     (case hm_get (fs_open_transactions st) (rs_request_id rs) of
        None \<Rightarrow> None
      | Some open_transaction \<Rightarrow>
          if ot_opt_response open_transaction \<noteq> None then None
          else Some (st\<lparr> fs_open_transactions := hm_insert (rs_request_id rs)
                 (open_transaction\<lparr> ot_opt_response := Some rs \<rparr>) (fs_open_transactions st) \<rparr>))"
| "funder_mutate C ser st (RemoveTransaction request_id) =
     Some (st\<lparr> fs_open_transactions := hm_remove request_id (fs_open_transactions st) \<rparr>)"
| "funder_mutate C ser st (UpdatePayment payment_id payment) =
     Some (st\<lparr> fs_payments := hm_insert payment_id payment (fs_payments st) \<rparr>)"
| "funder_mutate C ser st (RemovePayment payment_id) =
     Some (st\<lparr> fs_payments := hm_remove payment_id (fs_payments st) \<rparr>)"

section \<open>Facts\<close>

lemma dedup_keys: "f ` set (dedup_by_key f xs) = f ` set xs"
  by (induction f xs rule: dedup_by_key.induct) (auto split: if_splits)

lemma dedup_subset: "set (dedup_by_key f xs) \<subseteq> set xs"
  by (induction f xs rule: dedup_by_key.induct) auto

lemma dedup_distinct:
  fixes f :: "'a \<Rightarrow> 'k :: linorder"
  shows "sorted (map f xs) \<Longrightarrow> distinct (map f (dedup_by_key f xs))"
proof (induction f xs rule: dedup_by_key.induct)
  case (3 f x y ys)
  show ?case
  proof (cases "f x = f y")
    case True
    with 3 show ?thesis by simp
  next
    case False
    with 3 have IH: "distinct (map f (dedup_by_key f (y # ys)))" by simp
    have "f x < f z" if "z \<in> set (y # ys)" for z
      using that "3.prems" False by fastforce
    then have "f x \<notin> f ` set (dedup_by_key f (y # ys))"
      unfolding dedup_keys by fastforce
    with IH False show ?thesis by simp
  qed
qed auto

text \<open>Of the elements with one key, the first of the sorted list stays.\<close>

lemma dedup_first:
  fixes f :: "'a \<Rightarrow> 'k :: linorder"
  shows "sorted (map f xs) \<Longrightarrow> x \<in> set (dedup_by_key f xs) \<Longrightarrow> x = hd (filter (\<lambda>z. f z = f x) xs)"
proof (induction f xs rule: dedup_by_key.induct)
  case (3 f a y ys)
  show ?case
  proof (cases "f a = f y")
    case True
    with 3 have "x = hd (filter (\<lambda>z. f z = f x) (a # ys))" by simp
    with True show ?thesis by (auto split: if_splits)
  next
    case False
    then consider "x = a" | "x \<in> set (dedup_by_key f (y # ys))" using "3.prems" by auto
    then show ?thesis
    proof cases
      case 2
      then have "x \<in> set (y # ys)" using dedup_subset by fastforce
      then have "f a \<noteq> f x" using "3.prems" False by fastforce
      moreover have "x = hd (filter (\<lambda>z. f z = f x) (y # ys))"
        using "3.IH"(2) False "3.prems" 2 by simp
      ultimately show ?thesis by simp
    qed simp
  qed
qed auto

section \<open>Invariant of the funder's state\<close>

text \<open>
  Friends are stored under their own key and carry the key of this node; the credit line of a
  consistent channel is between these two keys. Relays, friends, invoices, transactions and
  payments each have at most one entry per key.
\<close>

definition friend_ok :: "public_key \<Rightarrow> public_key \<Rightarrow> 'b friend_state \<Rightarrow> bool" where
  "friend_ok local_pk pk fr =
     (fr_local_public_key fr = local_pk \<and> fr_remote_public_key fr = pk
      \<and> (case fr_channel_status fr of
           Inconsistent _ \<Rightarrow> True
         | Consistent tc \<Rightarrow> st_idents (get_mutual_credit tc)
             = \<lparr> mi_local_public_key = local_pk, mi_remote_public_key = pk \<rparr>))"

definition friends_ok :: "public_key \<Rightarrow> (public_key, 'b friend_state) hmap \<Rightarrow> bool" where
  "friends_ok local_pk m = (hm_ok m \<and> (\<forall>(pk, fr) \<in> set m. friend_ok local_pk pk fr))"

definition funder_ok :: "'b funder_state \<Rightarrow> bool" where
  "funder_ok st =
     (distinct (map nra_public_key (fs_relays st))
      \<and> friends_ok (fs_local_public_key st) (fs_friends st)
      \<and> hm_ok (fs_open_invoices st) \<and> hm_ok (fs_open_transactions st) \<and> hm_ok (fs_payments st))"

text \<open>A channel that replaces another one must be a channel with the same friend.\<close>

fun mutation_ok :: "public_key \<Rightarrow> 'b funder_mutation \<Rightarrow> bool" where
  "mutation_ok local_pk (FriendMutation pk (SetConsistent tc)) =
     (st_idents (get_mutual_credit tc) = \<lparr> mi_local_public_key = local_pk, mi_remote_public_key = pk \<rparr>)"
| "mutation_ok local_pk m = True"

lemma mc_mutate_keeps_idents: "mc_mutate mc m = Some mc' \<Longrightarrow> st_idents mc' = st_idents mc"
  by (cases m) (auto simp: mc_setters split: option.splits)

lemma tc_mutate_idents:
  "tc_mutate tc m = Some tc' \<Longrightarrow> st_idents (get_mutual_credit tc') = st_idents (get_mutual_credit tc)"
  by (cases "(tc, m)" rule: tc_mutate.cases) (auto dest: mc_mutate_keeps_idents)

lemma friend_ok_mutate:
  assumes "friend_mutate fr m = Some fr'" "friend_ok local_pk pk fr" "mutation_ok local_pk (FriendMutation pk m)"
  shows "friend_ok local_pk pk fr'"
  using assms by (cases m) (auto simp: friend_ok_def dest: tc_mutate_idents split: channel_status.splits)

lemma friend_ok_new: "friend_state_new C ser l r relays name bal = Some fr \<Longrightarrow> friend_ok l r fr"
  by (auto simp: friend_state_new_def friend_ok_def token_channel_new_def Let_def mc_new_def split: option.splits if_splits)

lemma friends_ok_insert: "friends_ok l m \<Longrightarrow> friend_ok l k v \<Longrightarrow> friends_ok l (hm_insert k v m)"
  using set_hm_insert [of k v m] by (auto simp: friends_ok_def)

lemma friends_ok_remove: "friends_ok l m \<Longrightarrow> friends_ok l (hm_remove k m)"
  using set_hm_remove [of k m] by (auto simp: friends_ok_def)

lemma friends_ok_get: "friends_ok l m \<Longrightarrow> hm_get m k = Some fr \<Longrightarrow> friend_ok l k fr"
  by (auto simp: friends_ok_def hm_get_def dest!: map_of_SomeD)

lemma funder_ok_mutate:
  assumes ok: "funder_ok st" and run: "funder_mutate C ser st m = Some st'"
    and good: "mutation_ok (fs_local_public_key st) m"
  shows "funder_ok st' \<and> fs_local_public_key st' = fs_local_public_key st"
proof (cases m)
  case (FriendMutation pk fm)
  then obtain fr fr' where "hm_get (fs_friends st) pk = Some fr" "friend_mutate fr fm = Some fr'"
    "st' = st\<lparr> fs_friends := hm_insert pk fr' (fs_friends st) \<rparr>"
    using run by (auto split: option.splits)
  moreover from this have "friend_ok (fs_local_public_key st) pk fr'"
    using ok good FriendMutation friends_ok_get friend_ok_mutate unfolding funder_ok_def by metis
  ultimately show ?thesis
    using ok by (simp add: funder_ok_def friends_ok_insert)
next
  case (AddRelay relay)
  then show ?thesis using ok run by (auto simp: funder_ok_def distinct_map_filter)
next
  case (RemoveRelay pk)
  then show ?thesis using ok run by (auto simp: funder_ok_def distinct_map_filter)
next
  case (AddFriend af)
  then obtain fr where "friend_state_new C ser (fs_local_public_key st) (af_friend_public_key af) (af_relays af)
      (af_name af) (af_balance af) = Some fr"
    "st' = st\<lparr> fs_friends := hm_insert (af_friend_public_key af) fr (fs_friends st) \<rparr>"
    using run by (auto split: option.splits if_splits)
  then show ?thesis
    using ok by (simp add: funder_ok_def friends_ok_insert friend_ok_new)
next
  case (RemoveFriend pk)
  then show ?thesis using ok run by (auto simp: funder_ok_def friends_ok_remove)
qed (use ok run in \<open>auto simp: funder_ok_def Let_def split: option.splits if_splits\<close>)

section \<open>Properties\<close>

text \<open>
  While a change of our relays is not yet confirmed, the relays announced to a friend are the
  union of the new and the previous ones with one address per relay key, and where both lists
  name a relay the newer address is the one announced.
\<close>

theorem announced_relays_unique:
  "let v = sent_local_relays_to_vec (Transition new old) in
     distinct (map ra_public_key v)
     \<and> ra_public_key ` set v = nra_public_key ` set new \<union> nra_public_key ` set old
     \<and> (\<forall>r \<in> set v. r \<in> relay_of_named ` (set new \<union> set old)
         \<and> (ra_public_key r \<in> nra_public_key ` set new \<longrightarrow> r \<in> relay_of_named ` set new))"
proof -
  define xs where "xs = map relay_of_named new @ map relay_of_named old"
  define v where "v = dedup_by_key ra_public_key (sort_key ra_public_key xs)"
  have key: "ra_public_key (relay_of_named n) = nra_public_key n" for n :: "'a named_relay_address"
    by (simp add: relay_of_named_def)
  have "distinct (map ra_public_key v)"
    unfolding v_def by (rule dedup_distinct) simp
  moreover have "ra_public_key ` set v = nra_public_key ` set new \<union> nra_public_key ` set old"
    by (auto simp: v_def dedup_keys xs_def key image_Un image_image)
  moreover have "r \<in> relay_of_named ` (set new \<union> set old)" if "r \<in> set v" for r
    using that dedup_subset [of ra_public_key "sort_key ra_public_key xs"] by (auto simp: v_def xs_def)
  moreover have "r \<in> relay_of_named ` set new" if r: "r \<in> set v" "ra_public_key r \<in> nra_public_key ` set new" for r
  proof -
    let ?same = "\<lambda>z. ra_public_key z = ra_public_key r"
    have "r = hd (filter ?same (sort_key ra_public_key xs))"
      using r(1) unfolding v_def by (intro dedup_first) simp_all
    also have "filter ?same (sort_key ra_public_key xs) = filter ?same xs"
      by (rule sort_key_stable)
    also have "filter ?same xs = filter ?same (map relay_of_named new) @ filter ?same (map relay_of_named old)"
      by (simp add: xs_def)
    finally have hd: "r = hd (filter ?same (map relay_of_named new) @ filter ?same (map relay_of_named old))" .
    have ne: "filter ?same (map relay_of_named new) \<noteq> []"
      using r(2) key by (auto simp: filter_empty_conv)
    have "r = hd (filter ?same (map relay_of_named new))"
      using hd hd_append2 [OF ne] by (rule trans)
    with ne have "r \<in> set (filter ?same (map relay_of_named new))"
      using hd_in_set by metis
    then show ?thesis by auto
  qed
  ultimately show ?thesis
    unfolding sent_local_relays_to_vec_def by (simp add: Let_def v_def xs_def)
qed

theorem announced_relays_unique_witness:
  "sent_local_relays_to_vec (Transition
      [\<lparr> nra_public_key = [7], nra_address = (1 :: nat), nra_name = ''a'' \<rparr>]
      [\<lparr> nra_public_key = [3], nra_address = 5, nra_name = ''b'' \<rparr>, \<lparr> nra_public_key = [7], nra_address = 9, nra_name = ''c'' \<rparr>])
    = [\<lparr> ra_public_key = [3], ra_address = 5 \<rparr>, \<lparr> ra_public_key = [7], ra_address = 1 \<rparr>]
   \<and> distinct (map ra_public_key (sent_local_relays_to_vec (Transition
      [\<lparr> nra_public_key = [7], nra_address = (1 :: nat), nra_name = ''a'' \<rparr>]
      [\<lparr> nra_public_key = [3], nra_address = 5, nra_name = ''b'' \<rparr>, \<lparr> nra_public_key = [7], nra_address = 9, nra_name = ''c'' \<rparr>])))"
  using announced_relays_unique [of "[\<lparr> nra_public_key = [7], nra_address = (1 :: nat), nra_name = ''a'' \<rparr>]"
      "[\<lparr> nra_public_key = [3], nra_address = 5, nra_name = ''b'' \<rparr>, \<lparr> nra_public_key = [7], nra_address = 9, nra_name = ''c'' \<rparr>]"]
  by (simp add: sent_local_relays_to_vec_def relay_of_named_def Let_def)

end
