(* ===== verification/Report.thy ===== *)
theory Report
  imports FunderState
begin

text \<open>
  What a funder tells its applications: a report of its state and, after each handled message,
  the mutations that bring an earlier report up to date. From
  \<open>components/proto/src/report/messages.rs\<close> and \<open>components/funder/src/report.rs\<close>, with the
  liveness of friends from \<open>components/funder/src/liveness.rs\<close> and
  \<open>components/funder/src/ephemeral.rs\<close>, and \<open>create_report_mutations\<close> of
  \<open>components/funder/src/handler/handler.rs\<close>.
\<close>

section \<open>Liveness\<close>

record liveness =
  lv_friends :: "public_key set"

datatype liveness_mutation = SetOnline public_key | SetOffline public_key

definition liveness_new :: liveness where
  "liveness_new = \<lparr> lv_friends = {} \<rparr>"

fun liveness_mutate :: "liveness \<Rightarrow> liveness_mutation \<Rightarrow> liveness" where
  "liveness_mutate l (SetOnline public_key) = l\<lparr> lv_friends := insert public_key (lv_friends l) \<rparr>"
| "liveness_mutate l (SetOffline public_key) = l\<lparr> lv_friends := lv_friends l - {public_key} \<rparr>"

definition is_online :: "liveness \<Rightarrow> public_key \<Rightarrow> bool" where
  "is_online l friend_public_key = (friend_public_key \<in> lv_friends l)"

record ephemeral =
  ep_liveness :: liveness

datatype ephemeral_mutation = LivenessMutation liveness_mutation

definition ephemeral_new :: ephemeral where
  "ephemeral_new = \<lparr> ep_liveness = liveness_new \<rparr>"

fun ephemeral_mutate :: "ephemeral \<Rightarrow> ephemeral_mutation \<Rightarrow> ephemeral" where
  "ephemeral_mutate e (LivenessMutation m) = e\<lparr> ep_liveness := liveness_mutate (ep_liveness e) m \<rparr>"

section \<open>Report messages\<close>

record move_token_hashed_report =
  mhr_prefix_hash :: hash_result
  mhr_local_public_key :: public_key
  mhr_remote_public_key :: public_key
  mhr_inconsistency_counter :: u64
  mhr_move_token_counter :: u128
  mhr_balance :: i128
  mhr_local_pending_debt :: u128
  mhr_remote_pending_debt :: u128
  mhr_rand_nonce :: rand_value
  mhr_new_token :: signature

datatype 'b sent_local_relays_report =
    RepNeverSent
  | RepTransition "'b named_relay_address list" "'b named_relay_address list"
  | RepLastSent "'b named_relay_address list"

datatype friend_status_report = RepEnabled | RepDisabled
datatype requests_status_report = RepOpen | RepClosed

record mc_requests_status_report =
  mrr_local :: requests_status_report
  mrr_remote :: requests_status_report

record mc_balance_report =
  mbr_balance :: i128
  mbr_local_max_debt :: u128
  mbr_remote_max_debt :: u128
  mbr_local_pending_debt :: u128
  mbr_remote_pending_debt :: u128

datatype direction_report = RepIncoming | RepOutgoing
datatype friend_liveness_report = RepOnline | RepOffline

record tc_report =
  tcr_direction :: direction_report
  tcr_balance :: mc_balance_report
  tcr_requests_status :: mc_requests_status_report
  tcr_num_local_pending_requests :: u64
  tcr_num_remote_pending_requests :: u64

record reset_terms_report =
  rtr_reset_token :: signature
  rtr_balance_for_reset :: i128

record channel_inconsistent_report =
  cir_local_reset_terms_balance :: i128
  cir_opt_remote_reset_terms :: "reset_terms_report option"

datatype channel_status_report = RepInconsistent channel_inconsistent_report | RepConsistent tc_report

record 'b friend_report =
  frr_name :: string
  frr_rate :: rate
  frr_remote_relays :: "'b relay_address list"
  frr_sent_local_relays :: "'b sent_local_relays_report"
  frr_opt_last_incoming_move_token :: "move_token_hashed_report option"
  frr_liveness :: friend_liveness_report
  frr_channel_status :: channel_status_report
  frr_wanted_remote_max_debt :: u128
  frr_wanted_local_requests_status :: requests_status_report
  frr_num_pending_requests :: u64
  frr_num_pending_backwards_ops :: u64
  frr_status :: friend_status_report
  frr_num_pending_user_requests :: u64

record 'b funder_report =
  fur_local_public_key :: public_key
  fur_relays :: "'b named_relay_address list"
  fur_friends :: "(public_key, 'b friend_report) hmap"
  fur_num_open_invoices :: u64
  fur_num_payments :: u64
  fur_num_open_transactions :: u64

datatype 'b friend_report_mutation =
    FrSetRemoteRelays "'b relay_address list"
  | FrSetName string
  | FrSetRate rate
  | FrSetSentLocalRelays "'b sent_local_relays_report"
  | FrSetChannelStatus channel_status_report
  | FrSetWantedRemoteMaxDebt u128
  | FrSetWantedLocalRequestsStatus requests_status_report
  | FrSetNumPendingRequests u64
  | FrSetNumPendingBackwardsOps u64
  | FrSetStatus friend_status_report
  | FrSetNumPendingUserRequests u64
  | FrSetOptLastIncomingMoveToken "move_token_hashed_report option"
  | FrSetLiveness friend_liveness_report

record 'b add_friend_report =
  afr_friend_public_key :: public_key
  afr_name :: string
  afr_relays :: "'b relay_address list"
  afr_balance :: i128
  afr_opt_last_incoming_move_token :: "move_token_hashed_report option"
  afr_channel_status :: channel_status_report

datatype 'b funder_report_mutation =
    FuAddRelay "'b named_relay_address"
  | FuRemoveRelay public_key
  | FuAddFriend "'b add_friend_report"
  | FuRemoveFriend public_key
  | FuFriendReportMutation public_key "'b friend_report_mutation"
  | FuSetNumOpenInvoices u64
  | FuSetNumPayments u64
  | FuSetNumOpenTransactions u64

record 'b funder_report_mutations =
  frm_opt_app_request_id :: "uid option"
  frm_mutations :: "'b funder_report_mutation list"

datatype funder_report_mutate_error = ReportFriendDoesNotExist | ReportFriendAlreadyExists

fun friend_status_to_report :: "friend_status \<Rightarrow> friend_status_report" where
  "friend_status_to_report Enabled = RepEnabled"
| "friend_status_to_report Disabled = RepDisabled"

fun requests_status_to_report :: "requests_status \<Rightarrow> requests_status_report" where
  "requests_status_to_report Open = RepOpen"
| "requests_status_to_report Closed = RepClosed"

fun friend_report_mutate :: "'b friend_report \<Rightarrow> 'b friend_report_mutation \<Rightarrow> 'b friend_report" where
  "friend_report_mutate r (FrSetName name) = r\<lparr> frr_name := name \<rparr>"
| "friend_report_mutate r (FrSetRate rate) = r\<lparr> frr_rate := rate \<rparr>"
| "friend_report_mutate r (FrSetRemoteRelays relays) = r\<lparr> frr_remote_relays := relays \<rparr>"
| "friend_report_mutate r (FrSetSentLocalRelays s) = r\<lparr> frr_sent_local_relays := s \<rparr>"
| "friend_report_mutate r (FrSetChannelStatus s) = r\<lparr> frr_channel_status := s \<rparr>"
| "friend_report_mutate r (FrSetWantedRemoteMaxDebt d) = r\<lparr> frr_wanted_remote_max_debt := d \<rparr>"
| "friend_report_mutate r (FrSetWantedLocalRequestsStatus s) = r\<lparr> frr_wanted_local_requests_status := s \<rparr>"
| "friend_report_mutate r (FrSetNumPendingBackwardsOps n) = r\<lparr> frr_num_pending_backwards_ops := n \<rparr>"
| "friend_report_mutate r (FrSetNumPendingRequests n) = r\<lparr> frr_num_pending_requests := n \<rparr>"
| "friend_report_mutate r (FrSetStatus s) = r\<lparr> frr_status := s \<rparr>"
| "friend_report_mutate r (FrSetNumPendingUserRequests n) = r\<lparr> frr_num_pending_user_requests := n \<rparr>"
| "friend_report_mutate r (FrSetOptLastIncomingMoveToken t) = r\<lparr> frr_opt_last_incoming_move_token := t \<rparr>"
| "friend_report_mutate r (FrSetLiveness l) = r\<lparr> frr_liveness := l \<rparr>"

definition friend_report_of_added :: "'b add_friend_report \<Rightarrow> 'b friend_report" where
  "friend_report_of_added a =
     \<lparr> frr_name = afr_name a, frr_rate = rate_new, frr_remote_relays = afr_relays a,
       frr_sent_local_relays = RepNeverSent,
       frr_opt_last_incoming_move_token = afr_opt_last_incoming_move_token a,
       frr_liveness = RepOffline, frr_channel_status = afr_channel_status a, frr_wanted_remote_max_debt = 0,
       frr_wanted_local_requests_status = requests_status_to_report Closed, frr_num_pending_requests = 0,
       frr_num_pending_backwards_ops = 0, frr_status = friend_status_to_report Disabled,
       frr_num_pending_user_requests = 0 \<rparr>"

text \<open>
  The caller of a failed \<open>mutate\<close> drops the report, so what an error leaves of it is not kept.
\<close>

fun funder_report_mutate ::
  "'b funder_report \<Rightarrow> 'b funder_report_mutation \<Rightarrow> ('b funder_report, funder_report_mutate_error) res" where
  "funder_report_mutate r (FuAddRelay relay) =
     Ok (r\<lparr> fur_relays := filter (\<lambda>cur. nra_public_key cur \<noteq> nra_public_key relay) (fur_relays r) @ [relay] \<rparr>)"
| "funder_report_mutate r (FuRemoveRelay public_key) =
     Ok (r\<lparr> fur_relays := filter (\<lambda>cur. nra_public_key cur \<noteq> public_key) (fur_relays r) \<rparr>)"
| "funder_report_mutate r (FuAddFriend a) =
     (if hm_contains (fur_friends r) (afr_friend_public_key a) then Err ReportFriendAlreadyExists
      else Ok (r\<lparr> fur_friends := hm_insert (afr_friend_public_key a) (friend_report_of_added a) (fur_friends r) \<rparr>))"
| "funder_report_mutate r (FuRemoveFriend public_key) =
     (if \<not> hm_contains (fur_friends r) public_key then Err ReportFriendDoesNotExist
      else Ok (r\<lparr> fur_friends := hm_remove public_key (fur_friends r) \<rparr>))"
| "funder_report_mutate r (FuFriendReportMutation public_key m) =
     res_bind (ok_or (hm_get (fur_friends r) public_key) ReportFriendDoesNotExist) (\<lambda>friend.
     Ok (r\<lparr> fur_friends := hm_insert public_key (friend_report_mutate friend m) (fur_friends r) \<rparr>))"
| "funder_report_mutate r (FuSetNumOpenInvoices n) = Ok (r\<lparr> fur_num_open_invoices := n \<rparr>)"
| "funder_report_mutate r (FuSetNumPayments n) = Ok (r\<lparr> fur_num_payments := n \<rparr>)"
| "funder_report_mutate r (FuSetNumOpenTransactions n) = Ok (r\<lparr> fur_num_open_transactions := n \<rparr>)"

text \<open>An application applies the mutations it receives one after the other.\<close>

fun report_replay ::
  "'b funder_report \<Rightarrow> 'b funder_report_mutation list \<Rightarrow> ('b funder_report, funder_report_mutate_error) res" where
  "report_replay r [] = Ok r"
| "report_replay r (m # ms) = res_bind (funder_report_mutate r m) (\<lambda>r'. report_replay r' ms)"

section \<open>Creating reports\<close>

text \<open>\<open>usize_to_u64\<close> of \<open>components/common/src/int_convert.rs\<close>: it never gives \<open>None\<close>.\<close>

definition usize_to_u64 :: "nat \<Rightarrow> u64 option" where
  "usize_to_u64 num = Some (of_nat num)"

definition len_u64 :: "'a list \<Rightarrow> u64" where
  "len_u64 xs = the (usize_to_u64 (length xs))"

fun sent_local_relays_to_report :: "'b sent_local_relays \<Rightarrow> 'b sent_local_relays_report" where
  "sent_local_relays_to_report NeverSent = RepNeverSent"
| "sent_local_relays_to_report (Transition a b) = RepTransition a b"
| "sent_local_relays_to_report (LastSent a) = RepLastSent a"

definition mc_requests_status_to_report :: "mc_requests_status \<Rightarrow> mc_requests_status_report" where
  "mc_requests_status_to_report s =
     \<lparr> mrr_local = requests_status_to_report (mr_local s), mrr_remote = requests_status_to_report (mr_remote s) \<rparr>"

definition mc_balance_to_report :: "mc_balance \<Rightarrow> mc_balance_report" where
  "mc_balance_to_report b =
     \<lparr> mbr_balance = mb_balance b, mbr_local_max_debt = mb_local_max_debt b,
       mbr_remote_max_debt = mb_remote_max_debt b, mbr_local_pending_debt = mb_local_pending_debt b,
       mbr_remote_pending_debt = mb_remote_pending_debt b \<rparr>"

definition move_token_hashed_to_report :: "move_token_hashed \<Rightarrow> move_token_hashed_report" where
  "move_token_hashed_to_report h =
     \<lparr> mhr_prefix_hash = mh_prefix_hash h, mhr_local_public_key = mh_local_public_key h,
       mhr_remote_public_key = mh_remote_public_key h, mhr_inconsistency_counter = mh_inconsistency_counter h,
       mhr_move_token_counter = mh_move_token_counter h, mhr_balance = mh_balance h,
       mhr_local_pending_debt = mh_local_pending_debt h, mhr_remote_pending_debt = mh_remote_pending_debt h,
       mhr_rand_nonce = mh_rand_nonce h, mhr_new_token = mh_new_token h \<rparr>"

definition token_channel_to_report :: "'b token_channel \<Rightarrow> tc_report" where
  "token_channel_to_report tc =
     (let direction = (case tc_direction tc of TcIncoming _ \<Rightarrow> RepIncoming | TcOutgoing _ \<Rightarrow> RepOutgoing);
          mc = get_mutual_credit tc
      in \<lparr> tcr_direction = direction, tcr_balance = mc_balance_to_report (st_balance mc),
           tcr_requests_status = mc_requests_status_to_report (st_requests_status mc),
           tcr_num_local_pending_requests = len_u64 (mp_local (st_pending mc)),
           tcr_num_remote_pending_requests = len_u64 (mp_remote (st_pending mc)) \<rparr>)"

fun channel_status_to_report :: "'b channel_status \<Rightarrow> channel_status_report" where
  "channel_status_to_report (Inconsistent ci) =
     RepInconsistent
       \<lparr> cir_local_reset_terms_balance = rt_balance_for_reset (ci_local_reset_terms ci),
         cir_opt_remote_reset_terms = map_option (\<lambda>t. \<lparr> rtr_reset_token = rt_reset_token t,
           rtr_balance_for_reset = rt_balance_for_reset t \<rparr>) (ci_opt_remote_reset_terms ci) \<rparr>"
| "channel_status_to_report (Consistent tc) = RepConsistent (token_channel_to_report tc)"

definition last_incoming_report :: "'b friend_state \<Rightarrow> move_token_hashed_report option" where
  "last_incoming_report fr =
     map_option move_token_hashed_to_report (cs_get_last_incoming_move_token_hashed (fr_channel_status fr))"

definition create_friend_report :: "'b friend_state \<Rightarrow> friend_liveness_report \<Rightarrow> 'b friend_report" where
  "create_friend_report fr friend_liveness =
     \<lparr> frr_name = fr_name fr, frr_rate = fr_rate fr, frr_remote_relays = fr_remote_relays fr,
       frr_sent_local_relays = sent_local_relays_to_report (fr_sent_local_relays fr),
       frr_opt_last_incoming_move_token = last_incoming_report fr,
       frr_liveness = friend_liveness,
       frr_channel_status = channel_status_to_report (fr_channel_status fr),
       frr_wanted_remote_max_debt = fr_wanted_remote_max_debt fr,
       frr_wanted_local_requests_status = requests_status_to_report (fr_wanted_local_requests_status fr),
       frr_num_pending_requests = len_u64 (fr_pending_requests fr),
       frr_num_pending_backwards_ops = len_u64 (fr_pending_backwards_ops fr),
       frr_status = friend_status_to_report (fr_status fr),
       frr_num_pending_user_requests = len_u64 (fr_pending_user_requests fr) \<rparr>"

definition create_report :: "'b funder_state \<Rightarrow> ephemeral \<Rightarrow> 'b funder_report" where
  "create_report st ephemeral =
     \<lparr> fur_local_public_key = fs_local_public_key st, fur_relays = fs_relays st,
       fur_friends = fold (\<lambda>(friend_public_key, friend_state) friends.
         let friend_liveness = (if is_online (ep_liveness ephemeral) friend_public_key then RepOnline else RepOffline)
         in hm_insert friend_public_key (create_friend_report friend_state friend_liveness) friends) (fs_friends st) [],
       fur_num_open_invoices = len_u64 (fs_open_invoices st),
       fur_num_payments = len_u64 (fs_payments st),
       fur_num_open_transactions = len_u64 (fs_open_transactions st) \<rparr>"

definition create_initial_report :: "'b funder_state \<Rightarrow> 'b funder_report" where
  "create_initial_report st = create_report st ephemeral_new"

section \<open>Mutations of a report\<close>

text \<open>Both translations first apply the mutation to a copy: \<open>None\<close> where that panics.\<close>

definition channel_report_mutations :: "'b friend_state \<Rightarrow> 'b friend_report_mutation list" where
  "channel_report_mutations friend_after =
     [FrSetChannelStatus (channel_status_to_report (fr_channel_status friend_after)),
      FrSetOptLastIncomingMoveToken (last_incoming_report friend_after)]"

definition friend_mutation_to_report_mutations ::
  "'b friend_mutation \<Rightarrow> 'b friend_state \<Rightarrow> 'b friend_report_mutation list option" where
  "friend_mutation_to_report_mutations friend_mutation friend =
     (case friend_mutate friend friend_mutation of
        None \<Rightarrow> None
      | Some friend_after \<Rightarrow> Some (case friend_mutation of
            FmTcMutation _ \<Rightarrow> channel_report_mutations friend_after
          | SetWantedRemoteMaxDebt d \<Rightarrow> [FrSetWantedRemoteMaxDebt d]
          | SetWantedLocalRequestsStatus s \<Rightarrow> [FrSetWantedLocalRequestsStatus (requests_status_to_report s)]
          | PushBackPendingRequest _ \<Rightarrow> [FrSetNumPendingRequests (len_u64 (fr_pending_requests friend_after))]
          | PopFrontPendingRequest \<Rightarrow> [FrSetNumPendingRequests (len_u64 (fr_pending_requests friend_after))]
          | PushBackPendingBackwardsOp _ \<Rightarrow> [FrSetNumPendingBackwardsOps (len_u64 (fr_pending_backwards_ops friend_after))]
          | PopFrontPendingBackwardsOp \<Rightarrow> [FrSetNumPendingBackwardsOps (len_u64 (fr_pending_backwards_ops friend_after))]
          | PushBackPendingUserRequest _ \<Rightarrow> [FrSetNumPendingUserRequests (len_u64 (fr_pending_user_requests friend_after))]
          | PopFrontPendingUserRequest \<Rightarrow> [FrSetNumPendingUserRequests (len_u64 (fr_pending_user_requests friend_after))]
          | SetStatus s \<Rightarrow> [FrSetStatus (friend_status_to_report s)]
          | SetRemoteRelays relays \<Rightarrow> [FrSetRemoteRelays relays]
          | SetName name \<Rightarrow> [FrSetName name]
          | SetRate rate \<Rightarrow> [FrSetRate rate]
          | SetSentLocalRelays s \<Rightarrow> [FrSetSentLocalRelays (sent_local_relays_to_report s)]
          | SetInconsistent _ \<Rightarrow> channel_report_mutations friend_after
          | SetConsistent _ \<Rightarrow> channel_report_mutations friend_after))"

text \<open>A count is reported only when it changed.\<close>

definition count_mutation ::
  "(u64 \<Rightarrow> 'b funder_report_mutation) \<Rightarrow> 'x list \<Rightarrow> 'x list \<Rightarrow> 'b funder_report_mutation list" where
  "count_mutation set_num before after = (if length after \<noteq> length before then [set_num (len_u64 after)] else [])"

definition funder_mutation_to_report_mutations ::
  "crypto_api \<Rightarrow> ('b \<Rightarrow> bytes) \<Rightarrow> 'b funder_mutation \<Rightarrow> 'b funder_state \<Rightarrow> 'b funder_report_mutation list option" where
  "funder_mutation_to_report_mutations C ser funder_mutation st =
     (case funder_mutate C ser st funder_mutation of
        None \<Rightarrow> None
      | Some after \<Rightarrow>
         (case funder_mutation of
            FriendMutation public_key friend_mutation \<Rightarrow>
              (case hm_get (fs_friends st) public_key of
                 None \<Rightarrow> None
               | Some friend \<Rightarrow> map_option (map (FuFriendReportMutation public_key))
                   (friend_mutation_to_report_mutations friend_mutation friend))
          | AddRelay relay \<Rightarrow> Some [FuAddRelay relay]
          | RemoveRelay public_key \<Rightarrow> Some [FuRemoveRelay public_key]
          | AddFriend af \<Rightarrow>
              (case hm_get (fs_friends after) (af_friend_public_key af) of
                 None \<Rightarrow> None
               | Some friend_after \<Rightarrow> Some [FuAddFriend
                   \<lparr> afr_friend_public_key = af_friend_public_key af, afr_name = af_name af, afr_relays = af_relays af,
                     afr_balance = af_balance af, afr_opt_last_incoming_move_token = last_incoming_report friend_after,
                     afr_channel_status = channel_status_to_report (fr_channel_status friend_after) \<rparr>])
          | RemoveFriend public_key \<Rightarrow> Some [FuRemoveFriend public_key]
          | AddInvoice _ _ \<Rightarrow> Some (count_mutation FuSetNumOpenInvoices (fs_open_invoices st) (fs_open_invoices after))
          | RemoveInvoice _ \<Rightarrow> Some (count_mutation FuSetNumOpenInvoices (fs_open_invoices st) (fs_open_invoices after))
          | AddIncomingTransaction _ _ _ \<Rightarrow> Some []
          | AddTransaction _ _ _ \<Rightarrow>
              Some (count_mutation FuSetNumOpenTransactions (fs_open_transactions st) (fs_open_transactions after))
          | RemoveTransaction _ \<Rightarrow>
              Some (count_mutation FuSetNumOpenTransactions (fs_open_transactions st) (fs_open_transactions after))
          | SetTransactionResponse _ \<Rightarrow> Some []
          | UpdatePayment _ _ \<Rightarrow> Some (count_mutation FuSetNumPayments (fs_payments st) (fs_payments after))
          | RemovePayment _ \<Rightarrow> Some (count_mutation FuSetNumPayments (fs_payments st) (fs_payments after))))"

fun ephemeral_mutation_to_report_mutations ::
  "ephemeral_mutation \<Rightarrow> 'b funder_state \<Rightarrow> 'b funder_report_mutation list" where
  "ephemeral_mutation_to_report_mutations (LivenessMutation (SetOnline public_key)) st =
     (if \<not> hm_contains (fs_friends st) public_key then []
      else [FuFriendReportMutation public_key (FrSetLiveness RepOnline)])"
| "ephemeral_mutation_to_report_mutations (LivenessMutation (SetOffline public_key)) st =
     (if \<not> hm_contains (fs_friends st) public_key then []
      else [FuFriendReportMutation public_key (FrSetLiveness RepOffline)])"

text \<open>The two loops of \<open>create_report_mutations\<close>.\<close>

fun funder_report_loop ::
  "crypto_api \<Rightarrow> ('b \<Rightarrow> bytes) \<Rightarrow> 'b funder_state \<Rightarrow> 'b funder_report_mutation list \<Rightarrow> 'b funder_mutation list
    \<Rightarrow> ('b funder_state \<times> 'b funder_report_mutation list) option" where
  "funder_report_loop C ser running_state report_mutations [] = Some (running_state, report_mutations)"
| "funder_report_loop C ser running_state report_mutations (m # ms) =
     (case funder_mutation_to_report_mutations C ser m running_state of
        None \<Rightarrow> None
      | Some new_mutations \<Rightarrow>
          (case funder_mutate C ser running_state m of
             None \<Rightarrow> None
           | Some running_state' \<Rightarrow> funder_report_loop C ser running_state' (report_mutations @ new_mutations) ms))"

definition create_report_mutations ::
  "crypto_api \<Rightarrow> ('b \<Rightarrow> bytes) \<Rightarrow> 'b funder_state \<Rightarrow> 'b funder_mutation list \<Rightarrow> ephemeral_mutation list
    \<Rightarrow> 'b funder_report_mutation list option" where
  "create_report_mutations C ser initial_state funder_mutations ephemeral_mutations =
     (case funder_report_loop C ser initial_state [] funder_mutations of
        None \<Rightarrow> None
      | Some (st, report_mutations) \<Rightarrow> Some (report_mutations
          @ concat (map (\<lambda>m. ephemeral_mutation_to_report_mutations m st) ephemeral_mutations)))"

text \<open>Replaying the recorded mutations of a funder.\<close>

fun funder_replay ::
  "crypto_api \<Rightarrow> ('b \<Rightarrow> bytes) \<Rightarrow> 'b funder_state \<Rightarrow> 'b funder_mutation list \<Rightarrow> 'b funder_state option" where
  "funder_replay C ser st [] = Some st"
| "funder_replay C ser st (m # ms) =
     (case funder_mutate C ser st m of None \<Rightarrow> None | Some st' \<Rightarrow> funder_replay C ser st' ms)"

definition ephemeral_replay :: "ephemeral \<Rightarrow> ephemeral_mutation list \<Rightarrow> ephemeral" where
  "ephemeral_replay e ms = fold (\<lambda>m e. ephemeral_mutate e m) ms e"

section \<open>What a report says\<close>

text \<open>
  A report that is up to date except that it may call an online friend offline: a friend that is
  added starts as offline in the report even when the channeler has already found it online.
\<close>

definition report_with :: "'b funder_state \<Rightarrow> (public_key \<Rightarrow> bool) \<Rightarrow> 'b funder_report" where
  "report_with st live =
     \<lparr> fur_local_public_key = fs_local_public_key st, fur_relays = fs_relays st,
       fur_friends = hm_map_entries (\<lambda>k fr. create_friend_report fr (if live k then RepOnline else RepOffline)) (fs_friends st),
       fur_num_open_invoices = len_u64 (fs_open_invoices st), fur_num_payments = len_u64 (fs_payments st),
       fur_num_open_transactions = len_u64 (fs_open_transactions st) \<rparr>"

definition reports :: "'b funder_state \<Rightarrow> ephemeral \<Rightarrow> 'b funder_report \<Rightarrow> bool" where
  "reports st e r \<longleftrightarrow> (\<exists>live. (\<forall>k. live k \<longrightarrow> is_online (ep_liveness e) k) \<and> r = report_with st live)"

lemma reportsI: "(\<And>k. live k \<Longrightarrow> is_online (ep_liveness e) k) \<Longrightarrow> reports st e (report_with st live)"
  unfolding reports_def by blast

lemma create_report_with:
  assumes "hm_ok (fs_friends st)"
  shows "create_report st e = report_with st (is_online (ep_liveness e))"
  using fold_hm_insert [of "fs_friends st" "[]" "\<lambda>k fr. create_friend_report fr (if is_online (ep_liveness e) k then RepOnline else RepOffline)"]
    assms by (simp add: create_report_def report_with_def hm_ok_def Let_def)

lemma create_report_reports: "hm_ok (fs_friends st) \<Longrightarrow> reports st e (create_report st e)"
  by (auto simp: reports_def create_report_with)

lemma initial_report_reports: "hm_ok (fs_friends st) \<Longrightarrow> reports st ephemeral_new (create_initial_report st)"
  by (simp add: create_initial_report_def create_report_reports)

lemma friend_report_update:
  assumes "friend_mutate fr m = Some fr'"
  shows "\<exists>ms. friend_mutation_to_report_mutations m fr = Some ms
    \<and> fold (\<lambda>m r. friend_report_mutate r m) ms (create_friend_report fr l) = create_friend_report fr' l"
  using assms
  by (cases m) (auto simp: friend_mutation_to_report_mutations_def channel_report_mutations_def create_friend_report_def
      last_incoming_report_def split: channel_status.splits)

lemma replay_friend_mutations:
  assumes "hm_get (fur_friends r) pk = Some f"
  shows "report_replay r (map (FuFriendReportMutation pk) ms)
    = Ok (r\<lparr> fur_friends := hm_insert pk (fold (\<lambda>m r. friend_report_mutate r m) ms f) (fur_friends r) \<rparr>)"
  using assms
proof (induction ms arbitrary: r f)
  case Nil
  then show ?case by (simp add: hm_insert_same)
next
  case (Cons m ms)
  let ?r = "r\<lparr> fur_friends := hm_insert pk (friend_report_mutate f m) (fur_friends r) \<rparr>"
  have "hm_get (fur_friends ?r) pk = Some (friend_report_mutate f m)" by (simp add: hm_simps)
  from Cons.IH [OF this] Cons.prems show ?case by (simp add: hm_insert_twice)
qed

lemma report_replay_append:
  "report_replay r (ms @ ns) = res_bind (report_replay r ms) (\<lambda>r'. report_replay r' ns)"
  by (induction ms arbitrary: r) (auto, case_tac "funder_report_mutate r a", auto)

text \<open>Every friend that is removed is known.\<close>

fun removal_known :: "'b funder_state \<Rightarrow> 'b funder_mutation \<Rightarrow> bool" where
  "removal_known st (RemoveFriend public_key) = hm_contains (fs_friends st) public_key"
| "removal_known st m = True"

fun removals_known :: "crypto_api \<Rightarrow> ('b \<Rightarrow> bytes) \<Rightarrow> 'b funder_state \<Rightarrow> 'b funder_mutation list \<Rightarrow> bool" where
  "removals_known C ser st [] = True"
| "removals_known C ser st (m # ms) =
     (removal_known st m \<and> (case funder_mutate C ser st m of None \<Rightarrow> True | Some st' \<Rightarrow> removals_known C ser st' ms))"

lemma friends_hm_ok_mutate: "funder_mutate C ser st m = Some st' \<Longrightarrow> hm_ok (fs_friends st) \<Longrightarrow> hm_ok (fs_friends st')"
  by (cases m) (auto simp: Let_def split: option.splits if_splits)

lemma replay_count:
  "report_replay r (count_mutation FuSetNumOpenInvoices xs ys) = Ok (r\<lparr> fur_num_open_invoices :=
     (if length ys = length xs then fur_num_open_invoices r else len_u64 ys) \<rparr>)"
  "report_replay r (count_mutation FuSetNumPayments us vs) = Ok (r\<lparr> fur_num_payments :=
     (if length vs = length us then fur_num_payments r else len_u64 vs) \<rparr>)"
  "report_replay r (count_mutation FuSetNumOpenTransactions ws zs) = Ok (r\<lparr> fur_num_open_transactions :=
     (if length zs = length ws then fur_num_open_transactions r else len_u64 zs) \<rparr>)"
  by (simp_all add: count_mutation_def)

lemma len_u64_cong: "length xs = length ys \<Longrightarrow> len_u64 xs = len_u64 ys"
  by (simp add: len_u64_def)

lemma report_count_step:
  "report_replay (report_with st live) (count_mutation FuSetNumOpenInvoices (fs_open_invoices st) xs)
    = Ok (report_with (st\<lparr> fs_open_invoices := xs \<rparr>) live)"
  "report_replay (report_with st live) (count_mutation FuSetNumPayments (fs_payments st) ys)
    = Ok (report_with (st\<lparr> fs_payments := ys \<rparr>) live)"
  "report_replay (report_with st live) (count_mutation FuSetNumOpenTransactions (fs_open_transactions st) zs)
    = Ok (report_with (st\<lparr> fs_open_transactions := zs \<rparr>) live)"
  by (simp_all add: replay_count report_with_def) (auto intro: len_u64_cong)

lemma report_with_invoices:
  "len_u64 xs = len_u64 (fs_open_invoices st) \<Longrightarrow> report_with (st\<lparr> fs_open_invoices := xs \<rparr>) live = report_with st live"
  by (simp add: report_with_def)

lemma report_with_transactions:
  "len_u64 xs = len_u64 (fs_open_transactions st) \<Longrightarrow> report_with (st\<lparr> fs_open_transactions := xs \<rparr>) live = report_with st live"
  by (simp add: report_with_def)

lemma report_friend_step:
  assumes ok: "hm_ok (fs_friends st)" and fr: "hm_get (fs_friends st) pk = Some fr" and run: "friend_mutate fr fm = Some fr'"
  shows "\<exists>rms. friend_mutation_to_report_mutations fm fr = Some rms
    \<and> report_replay (report_with st live) (map (FuFriendReportMutation pk) rms)
      = Ok (report_with (st\<lparr> fs_friends := hm_insert pk fr' (fs_friends st) \<rparr>) live)"
proof -
  let ?l = "if live pk then RepOnline else RepOffline"
  obtain rms where rms: "friend_mutation_to_report_mutations fm fr = Some rms"
    "fold (\<lambda>m r. friend_report_mutate r m) rms (create_friend_report fr ?l) = create_friend_report fr' ?l"
    using friend_report_update [OF run] by blast
  have "hm_get (fur_friends (report_with st live)) pk = Some (create_friend_report fr ?l)"
    by (simp add: report_with_def hm_get_map_entries fr)
  from replay_friend_mutations [OF this, of rms] rms show ?thesis
    by (simp add: report_with_def hm_insert_map_entries [where g = "\<lambda>k fr. create_friend_report fr (if live k then RepOnline else RepOffline)", symmetric])
qed

lemma report_added_friend:
  assumes "friend_state_new C ser l pk relays name bal = Some fr"
  shows "create_friend_report fr RepOffline = friend_report_of_added
    \<lparr> afr_friend_public_key = pk, afr_name = name, afr_relays = relays, afr_balance = bal,
      afr_opt_last_incoming_move_token = last_incoming_report fr,
      afr_channel_status = channel_status_to_report (fr_channel_status fr) \<rparr>"
  using assms
  by (auto simp: friend_state_new_def create_friend_report_def friend_report_of_added_def len_u64_def usize_to_u64_def split: option.splits)

lemma report_step:
  assumes ok: "hm_ok (fs_friends st)" and run: "funder_mutate C ser st m = Some st'"
    and known: "removal_known st m" and rep: "reports st e r"
  shows "\<exists>rms r'. funder_mutation_to_report_mutations C ser m st = Some rms
    \<and> report_replay r rms = Ok r' \<and> reports st' e r'"
proof -
  obtain live where live: "\<forall>k. live k \<longrightarrow> is_online (ep_liveness e) k" and r: "r = report_with st live"
    using rep by (auto simp: reports_def)
  have same: "reports st' e (report_with st' live)" using live by (blast intro: reportsI)
  show ?thesis
  proof (cases m)
    case (FriendMutation pk fm)
    then obtain fr fr' where "hm_get (fs_friends st) pk = Some fr" "friend_mutate fr fm = Some fr'"
      "st' = st\<lparr> fs_friends := hm_insert pk fr' (fs_friends st) \<rparr>"
      using run by (auto split: option.splits)
    with report_friend_step [OF ok this(1,2), of live] FriendMutation run same r show ?thesis
      by (auto simp: funder_mutation_to_report_mutations_def)
  next
    case (AddFriend af)
    let ?pk = "af_friend_public_key af"
    obtain fr where fr: "friend_state_new C ser (fs_local_public_key st) ?pk (af_relays af) (af_name af) (af_balance af) = Some fr"
      and fresh: "hm_get (fs_friends st) ?pk = None"
      and st': "st' = st\<lparr> fs_friends := hm_insert ?pk fr (fs_friends st) \<rparr>"
      using run AddFriend by (auto simp: hm_contains_def split: option.splits if_splits)
    let ?live = "live(?pk := False)"
    have "?pk \<notin> fst ` set (fs_friends st)"
      using fresh by (simp add: hm_get_def map_of_eq_None_iff)
    then have upd: "report_with st ?live = report_with st live"
      by (auto simp: report_with_def image_iff intro!: hm_map_entries_cong)
    define a where "a = \<lparr> afr_friend_public_key = ?pk, afr_name = af_name af, afr_relays = af_relays af,
      afr_balance = af_balance af, afr_opt_last_incoming_move_token = last_incoming_report fr,
      afr_channel_status = channel_status_to_report (fr_channel_status fr) \<rparr>"
    have rms: "funder_mutation_to_report_mutations C ser m st = Some [FuAddFriend a]"
      using AddFriend run st' by (simp add: funder_mutation_to_report_mutations_def hm_simps a_def)
    have fresh': "\<not> hm_contains (fur_friends r) ?pk"
      using fresh by (simp add: r hm_contains_def report_with_def hm_get_map_entries)
    have new: "friend_report_of_added a = create_friend_report fr RepOffline"
      unfolding a_def by (rule report_added_friend [OF fr, symmetric])
    have "report_with st' ?live = (report_with st ?live)\<lparr> fur_friends :=
        hm_insert ?pk (create_friend_report fr RepOffline) (fur_friends (report_with st ?live)) \<rparr>"
      using hm_insert_map_entries [of ?pk "\<lambda>k fr. create_friend_report fr (if ?live k then RepOnline else RepOffline)" fr "fs_friends st"]
      by (simp add: report_with_def st')
    then have "report_replay r [FuAddFriend a] = Ok (report_with st' ?live)"
      using fresh' unfolding upd r [symmetric] by (simp add: new) (simp add: a_def)
    moreover have "reports st' e (report_with st' ?live)"
      using live by (intro reportsI) (simp split: if_splits)
    ultimately show ?thesis using rms by blast
  next
    case (RemoveFriend pk)
    then have "hm_get (fs_friends st) pk \<noteq> None" using known by (simp add: hm_contains_def)
    then have "hm_contains (fur_friends (report_with st live)) pk"
      by (simp add: hm_contains_def report_with_def hm_get_map_entries)
    then have "report_replay (report_with st live) [FuRemoveFriend pk] = Ok (report_with st' live)"
      using run RemoveFriend by (auto simp: report_with_def hm_remove_map_entries)
    with same RemoveFriend run r show ?thesis by (auto simp: funder_mutation_to_report_mutations_def)
  next
    case (AddIncomingTransaction i q l)
    then obtain oi where "hm_get (fs_open_invoices st) i = Some oi" using run by (auto split: option.splits)
    then have "length (fs_open_invoices st') = length (fs_open_invoices st)" "st' = st\<lparr> fs_open_invoices := fs_open_invoices st' \<rparr>"
      using run AddIncomingTransaction by (auto simp: Let_def length_hm_replace)
    then have "report_with st' live = report_with st live"
      using len_u64_cong by (metis report_with_invoices)
    with same AddIncomingTransaction run r show ?thesis by (simp add: funder_mutation_to_report_mutations_def)
  next
    case (SetTransactionResponse rs)
    then obtain ot where "hm_get (fs_open_transactions st) (rs_request_id rs) = Some ot" using run by (auto split: option.splits)
    then have "length (fs_open_transactions st') = length (fs_open_transactions st)"
        "st' = st\<lparr> fs_open_transactions := fs_open_transactions st' \<rparr>"
      using run SetTransactionResponse by (auto simp: length_hm_replace split: if_splits)
    then have "report_with st' live = report_with st live"
      using len_u64_cong by (metis report_with_transactions)
    with same SetTransactionResponse run r show ?thesis by (simp add: funder_mutation_to_report_mutations_def)
  next
    case (AddRelay x)
    then have "st' = st\<lparr> fs_relays := fs_relays st' \<rparr>" "funder_mutation_to_report_mutations C ser m st = Some [FuAddRelay x]"
      "report_replay (report_with st live) [FuAddRelay x] = Ok (report_with st' live)"
      using run by (auto simp: report_with_def funder_mutation_to_report_mutations_def)
    with same r show ?thesis by blast
  next
    case (RemoveRelay x)
    then have "funder_mutation_to_report_mutations C ser m st = Some [FuRemoveRelay x]"
      "report_replay (report_with st live) [FuRemoveRelay x] = Ok (report_with st' live)"
      using run by (auto simp: report_with_def funder_mutation_to_report_mutations_def)
    with same r show ?thesis by blast
  next
    case (AddInvoice i t)
    with run have "st' = st\<lparr> fs_open_invoices := fs_open_invoices st' \<rparr>" by auto
    with report_count_step(1) [of st live "fs_open_invoices st'"] same r AddInvoice run show ?thesis
      by (auto simp: funder_mutation_to_report_mutations_def)
  next
    case (RemoveInvoice i)
    with run have "st' = st\<lparr> fs_open_invoices := fs_open_invoices st' \<rparr>" by auto
    with report_count_step(1) [of st live "fs_open_invoices st'"] same r RemoveInvoice run show ?thesis
      by (auto simp: funder_mutation_to_report_mutations_def)
  next
    case (AddTransaction q i l)
    with run have "st' = st\<lparr> fs_open_transactions := fs_open_transactions st' \<rparr>" by auto
    with report_count_step(3) [of st live "fs_open_transactions st'"] same r AddTransaction run show ?thesis
      by (auto simp: funder_mutation_to_report_mutations_def)
  next
    case (RemoveTransaction q)
    with run have "st' = st\<lparr> fs_open_transactions := fs_open_transactions st' \<rparr>" by auto
    with report_count_step(3) [of st live "fs_open_transactions st'"] same r RemoveTransaction run show ?thesis
      by (auto simp: funder_mutation_to_report_mutations_def)
  next
    case (UpdatePayment i x)
    with run have "st' = st\<lparr> fs_payments := fs_payments st' \<rparr>" by auto
    with report_count_step(2) [of st live "fs_payments st'"] same r UpdatePayment run show ?thesis
      by (auto simp: funder_mutation_to_report_mutations_def)
  next
    case (RemovePayment i)
    with run have "st' = st\<lparr> fs_payments := fs_payments st' \<rparr>" by auto
    with report_count_step(2) [of st live "fs_payments st'"] same r RemovePayment run show ?thesis
      by (auto simp: funder_mutation_to_report_mutations_def)
  qed
qed

lemma funder_report_loop_acc:
  "funder_report_loop C ser st acc ms = map_option (\<lambda>(st', rms). (st', acc @ rms)) (funder_report_loop C ser st [] ms)"
proof (induction ms arbitrary: st acc)
  case (Cons m ms)
  show ?case
  proof (cases "funder_mutation_to_report_mutations C ser m st")
    case (Some rms)
    show ?thesis
    proof (cases "funder_mutate C ser st m")
      case (Some st')
      have "funder_report_loop C ser st' (acc @ rms) ms
          = map_option (\<lambda>(st', rms'). (st', acc @ rms')) (funder_report_loop C ser st' rms ms)"
        unfolding Cons.IH [of st' "acc @ rms"] Cons.IH [of st' rms] by (simp add: option.map_comp comp_def case_prod_unfold)
      with Some \<open>_ = Some rms\<close> show ?thesis by simp
    qed (simp add: Some)
  qed simp
qed simp

lemma report_loop:
  assumes "hm_ok (fs_friends st)" "funder_replay C ser st ms = Some st'" "removals_known C ser st ms" "reports st e r"
  shows "\<exists>rms r'. funder_report_loop C ser st [] ms = Some (st', rms) \<and> report_replay r rms = Ok r' \<and> reports st' e r'
    \<and> hm_ok (fs_friends st')"
  using assms
proof (induction ms arbitrary: st r)
  case (Cons m ms)
  then obtain st1 where st1: "funder_mutate C ser st m = Some st1" "funder_replay C ser st1 ms = Some st'"
    and known: "removal_known st m" "removals_known C ser st1 ms"
    by (auto split: option.splits)
  obtain rms r1 where r1: "funder_mutation_to_report_mutations C ser m st = Some rms" "report_replay r rms = Ok r1" "reports st1 e r1"
    using report_step [OF Cons.prems(1) st1(1) known(1) Cons.prems(4)] by blast
  obtain rms' r' where "funder_report_loop C ser st1 [] ms = Some (st', rms')" "report_replay r1 rms' = Ok r'" "reports st' e r'"
      "hm_ok (fs_friends st')"
    using Cons.IH [OF friends_hm_ok_mutate [OF st1(1) Cons.prems(1)] st1(2) known(2) r1(3)] by blast
  with r1 st1(1) show ?case
    by (auto simp: funder_report_loop_acc [of C ser st1 rms] report_replay_append)
qed auto

lemma report_with_live_other:
  "hm_get (fs_friends st) pk = None \<Longrightarrow> report_with st (live(pk := b)) = report_with st live"
  by (auto simp: report_with_def hm_get_def map_of_eq_None_iff image_iff intro!: hm_map_entries_cong)

lemma report_with_live:
  assumes "hm_ok (fs_friends st)" "hm_get (fs_friends st) pk = Some fr"
  shows "report_replay (report_with st live) [FuFriendReportMutation pk (FrSetLiveness (if b then RepOnline else RepOffline))]
    = Ok (report_with st (live(pk := b)))"
proof -
  let ?g = "\<lambda>live k fr. create_friend_report fr (if live k then RepOnline else RepOffline)"
  let ?new = "create_friend_report fr (if b then RepOnline else RepOffline)"
  have "hm_insert pk ?new (hm_map_entries (?g live) (fs_friends st)) = hm_map_entries ((?g live)(pk := \<lambda>_. ?new)) (fs_friends st)"
    by (rule hm_replace_entry [OF assms])
  also have "\<dots> = hm_map_entries (?g (live(pk := b))) (fs_friends st)"
    using assms by (intro hm_map_entries_cong) (auto simp: hm_ok_def hm_get_def dest: eq_key_imp_eq_value)
  finally show ?thesis
    using assms(2) by (simp add: report_with_def hm_get_map_entries create_friend_report_def)
qed

lemma report_ephemeral_step:
  assumes ok: "hm_ok (fs_friends st)" and rep: "reports st e r"
  shows "\<exists>r'. report_replay r (ephemeral_mutation_to_report_mutations m st) = Ok r' \<and> reports st (ephemeral_mutate e m) r'"
proof -
  obtain live where live: "\<And>k. live k \<Longrightarrow> is_online (ep_liveness e) k" and r: "r = report_with st live"
    using rep unfolding reports_def by blast
  obtain pk b where m: "m = LivenessMutation (if b then SetOnline pk else SetOffline pk)"
    by (cases m rule: ephemeral_mutation.exhaust) (metis (full_types) liveness_mutation.exhaust)
  have live': "reports st (ephemeral_mutate e m) (report_with st (live(pk := b)))"
    using live by (intro reportsI) (auto simp: m is_online_def split: if_splits)
  have muts: "ephemeral_mutation_to_report_mutations m st = (if hm_get (fs_friends st) pk = None then []
      else [FuFriendReportMutation pk (FrSetLiveness (if b then RepOnline else RepOffline))])"
    by (simp add: m hm_contains_def)
  show ?thesis
  proof (cases "hm_get (fs_friends st) pk")
    case None
    then show ?thesis using live' muts by (simp add: r report_with_live_other)
  next
    case (Some fr)
    then show ?thesis using live' muts report_with_live [OF ok Some] by (simp only: r option.distinct if_False) blast
  qed
qed

lemma report_ephemeral:
  assumes "hm_ok (fs_friends st)" "reports st e r"
  shows "\<exists>r'. report_replay r (concat (map (\<lambda>m. ephemeral_mutation_to_report_mutations m st) ems)) = Ok r'
    \<and> reports st (ephemeral_replay e ems) r'"
  using assms(2)
proof (induction ems arbitrary: e r)
  case (Cons m ems)
  then show ?case
    using report_ephemeral_step [OF assms(1) Cons.prems, of m] by (fastforce simp: report_replay_append ephemeral_replay_def)
qed (simp add: ephemeral_replay_def)

lemma report_mutations_sound:
  assumes "hm_ok (fs_friends st)" "funder_replay C ser st ms = Some st'" "removals_known C ser st ms" "reports st e r"
  shows "\<exists>rms r'. create_report_mutations C ser st ms ems = Some rms \<and> report_replay r rms = Ok r'
    \<and> reports st' (ephemeral_replay e ems) r'"
proof -
  obtain rms r1 where 1: "funder_report_loop C ser st [] ms = Some (st', rms)" "report_replay r rms = Ok r1" "reports st' e r1"
    "hm_ok (fs_friends st')"
    using report_loop [OF assms] by blast
  obtain r' where "report_replay r1 (concat (map (\<lambda>m. ephemeral_mutation_to_report_mutations m st') ems)) = Ok r'"
    "reports st' (ephemeral_replay e ems) r'"
    using report_ephemeral [OF 1(4,3)] by blast
  with 1 show ?thesis by (auto simp: create_report_mutations_def report_replay_append)
qed

end
