(* ===== verification/Actions.thy ===== *)
theory Actions
  imports Prelude
begin

text \<open>
  Stateful code that may fail. The handlers of the funder thread one mutable context through
  many calls; a call ends with a value or an error, and keeps what it has changed in both
  cases, or it panics. An action is a function from a context to such an outcome; the
  combinators below are the statements the handlers are written with. The order locale gives
  the rules by which a reflexive and transitive relation between the contexts before and after
  is shown for a whole handler from its primitive steps.
\<close>

section \<open>Statements\<close>

type_synonym ('s, 'e, 'a) action = "'s \<Rightarrow> (('e + 'a) \<times> 's) option"

definition act_return :: "'a \<Rightarrow> ('s, 'e, 'a) action" where
  "act_return x = (\<lambda>s. Some (Inr x, s))"

definition act_throw :: "'e \<Rightarrow> ('s, 'e, 'a) action" where
  "act_throw e = (\<lambda>s. Some (Inl e, s))"

definition act_panic :: "('s, 'e, 'a) action" where
  "act_panic = (\<lambda>s. None)"

definition act_bind :: "('s, 'e, 'a) action \<Rightarrow> ('a \<Rightarrow> ('s, 'e, 'b) action) \<Rightarrow> ('s, 'e, 'b) action" where
  "act_bind m f = (\<lambda>s. case m s of
       None \<Rightarrow> None
     | Some (Inl e, s') \<Rightarrow> Some (Inl e, s')
     | Some (Inr x, s') \<Rightarrow> f x s')"

definition act_seq :: "('s, 'e, unit) action \<Rightarrow> ('s, 'e, 'b) action \<Rightarrow> ('s, 'e, 'b) action" where
  "act_seq m n = act_bind m (\<lambda>_. n)"

definition act_gets :: "('s \<Rightarrow> 'a) \<Rightarrow> ('s, 'e, 'a) action" where
  "act_gets f = (\<lambda>s. Some (Inr (f s), s))"

definition act_modify :: "('s \<Rightarrow> 's) \<Rightarrow> ('s, 'e, unit) action" where
  "act_modify f = (\<lambda>s. Some (Inr (), f s))"

text \<open>\<open>unwrap\<close>, \<open>ok_or\<close> followed by \<open>?\<close>, and \<open>assert!\<close>.\<close>

definition act_unwrap :: "'a option \<Rightarrow> ('s, 'e, 'a) action" where
  "act_unwrap x = (case x of None \<Rightarrow> act_panic | Some y \<Rightarrow> act_return y)"

definition act_ok_or :: "'a option \<Rightarrow> 'e \<Rightarrow> ('s, 'e, 'a) action" where
  "act_ok_or x e = (case x of None \<Rightarrow> act_throw e | Some y \<Rightarrow> act_return y)"

definition act_assert :: "bool \<Rightarrow> ('s, 'e, unit) action" where
  "act_assert b = (if b then act_return () else act_panic)"

definition act_when :: "bool \<Rightarrow> ('s, 'e, unit) action \<Rightarrow> ('s, 'e, unit) action" where
  "act_when b m = (if b then m else act_return ())"

text \<open>A loop over a list fixed before the loop starts; an error leaves the loop.\<close>

fun act_for :: "'x list \<Rightarrow> ('x \<Rightarrow> ('s, 'e, unit) action) \<Rightarrow> ('s, 'e, unit) action" where
  "act_for [] f = act_return ()"
| "act_for (x # xs) f = act_seq (f x) (act_for xs f)"

text \<open>The outcome of a fallible call as a value: \<open>match\<close>, \<open>if let Err(e)\<close> and \<open>let _ =\<close>.\<close>

definition act_try :: "('s, 'd, 'a) action \<Rightarrow> ('s, 'e, 'd + 'a) action" where
  "act_try m = (\<lambda>s. case m s of None \<Rightarrow> None | Some (r, s') \<Rightarrow> Some (Inr r, s'))"

lemmas act_defs = act_return_def act_throw_def act_panic_def act_bind_def act_seq_def act_gets_def act_modify_def
  act_unwrap_def act_ok_or_def act_assert_def act_when_def act_try_def

named_theorems act_simps \<open>running statements on a context\<close>

lemma run_basic [act_simps]:
  "act_return x s = Some (Inr x, s)"
  "act_throw e s = Some (Inl e, s)"
  "act_panic s = None"
  "act_gets f s = Some (Inr (f s), s)"
  "act_modify g s = Some (Inr (), g s)"
  by (simp_all add: act_defs)

lemma run_choice [act_simps]:
  "act_unwrap (Some x) = act_return x"
  "act_unwrap None = act_panic"
  "act_ok_or (Some x) e = act_return x"
  "act_ok_or None e = act_throw e"
  "act_assert True = act_return ()"
  "act_assert False = act_panic"
  "act_when True m = m"
  "act_when False m = act_return ()"
  by (simp_all add: act_unwrap_def act_ok_or_def act_assert_def act_when_def)

lemma bind_return [act_simps]: "act_bind (act_return x) f = f x"
  by (rule ext) (simp add: act_defs)

lemma bind_throw [act_simps]: "act_bind (act_throw e) f = act_throw e"
  by (rule ext) (simp add: act_defs)

lemma bind_panic [act_simps]: "act_bind act_panic f = act_panic"
  by (rule ext) (simp add: act_defs)

lemma seq_return [act_simps]: "act_seq (act_return ()) m = m"
  by (simp add: act_seq_def bind_return)

lemma seq_throw [act_simps]: "act_seq (act_throw e) m = act_throw e"
  by (simp add: act_seq_def bind_throw)

lemma seq_panic [act_simps]: "act_seq act_panic m = act_panic"
  by (simp add: act_seq_def bind_panic)

lemma bind_run:
  "act_bind m f s = Some (r, s'') \<longleftrightarrow>
     (\<exists>e. r = Inl e \<and> m s = Some (Inl e, s'')) \<or> (\<exists>x s'. m s = Some (Inr x, s') \<and> f x s' = Some (r, s''))"
  by (auto simp: act_bind_def split: option.splits sum.splits)

lemma seq_run:
  "act_seq m n s = Some (r, s'') \<longleftrightarrow>
     (\<exists>e. r = Inl e \<and> m s = Some (Inl e, s'')) \<or> (\<exists>s'. m s = Some (Inr (), s') \<and> n s' = Some (r, s''))"
  by (simp add: act_seq_def bind_run)

lemma bind_gets [act_simps]: "act_bind (act_gets g) f s = f (g s) s"
  by (simp add: act_defs)

lemma seq_modify [act_simps]: "act_seq (act_modify g) m s = m (g s)"
  by (simp add: act_defs)

lemma bind_Inr [act_simps]: "m s = Some (Inr x, s') \<Longrightarrow> act_bind m f s = f x s'"
  by (simp add: act_bind_def)

lemma seq_Inr [act_simps]: "m s = Some (Inr (), s') \<Longrightarrow> act_seq m n s = n s'"
  by (simp add: act_seq_def act_bind_def)

lemma bind_None [act_simps]: "m s = None \<Longrightarrow> act_bind m f s = None"
  by (simp add: act_bind_def)

lemma seq_None [act_simps]: "m s = None \<Longrightarrow> act_seq m n s = None"
  by (simp add: act_seq_def act_bind_def)

lemma try_run: "act_try m s = Some (r, s') \<longleftrightarrow> (\<exists>x. r = Inr x \<and> m s = Some (x, s'))"
  by (auto simp: act_try_def split: option.splits)

section \<open>Relations between the contexts before and after\<close>

definition follows :: "('s \<Rightarrow> 's \<Rightarrow> bool) \<Rightarrow> ('s, 'e, 'a) action \<Rightarrow> bool" where
  "follows R m \<longleftrightarrow> (\<forall>s r s'. m s = Some (r, s') \<longrightarrow> R s s')"

lemma followsD: "follows R m \<Longrightarrow> m s = Some (r, s') \<Longrightarrow> R s s'"
  by (auto simp: follows_def)

locale context_order =
  fixes R :: "'s \<Rightarrow> 's \<Rightarrow> bool"
  assumes refl: "R s s"
    and trans: "R s t \<Longrightarrow> R t u \<Longrightarrow> R s u"
begin

lemma return: "follows R (act_return x)"
  by (simp add: follows_def act_simps refl)

lemma throw: "follows R (act_throw e)"
  by (simp add: follows_def act_simps refl)

lemma panic: "follows R act_panic"
  by (simp add: follows_def act_simps)

lemma gets: "follows R (act_gets f)"
  by (simp add: follows_def act_simps refl)

lemma bind: "follows R m \<Longrightarrow> (\<And>x. follows R (f x)) \<Longrightarrow> follows R (act_bind m f)"
  unfolding follows_def bind_run by (blast intro: trans)

lemma seq: "follows R m \<Longrightarrow> follows R n \<Longrightarrow> follows R (act_seq m n)"
  unfolding act_seq_def by (rule bind)

lemma unwrap: "follows R (act_unwrap x)"
  by (cases x) (simp_all add: act_simps return panic)

lemma ok_or: "follows R (act_ok_or x e)"
  by (cases x) (simp_all add: act_simps return throw)

lemma check: "follows R (act_assert b)"
  by (cases b) (simp_all add: act_simps return panic)

lemma cond: "follows R m \<Longrightarrow> follows R (act_when b m)"
  by (cases b) (simp_all add: act_simps return)

lemma loop: "(\<And>x. x \<in> set xs \<Longrightarrow> follows R (f x)) \<Longrightarrow> follows R (act_for xs f)"
  by (induction xs) (simp_all add: return seq)

lemma attempt: "follows R m \<Longrightarrow> follows R (act_try m)"
  by (auto simp: follows_def try_run)

lemma modify: "(\<And>s. R s (g s)) \<Longrightarrow> follows R (act_modify g)"
  by (simp add: follows_def act_simps)

text \<open>The value of a guard or of a read is known in what follows it.\<close>

lemma unwrap_bind: "(\<And>y. x = Some y \<Longrightarrow> follows R (f y)) \<Longrightarrow> follows R (act_bind (act_unwrap x) f)"
  by (cases x) (simp_all add: act_simps panic)

lemma ok_or_bind: "(\<And>y. x = Some y \<Longrightarrow> follows R (f y)) \<Longrightarrow> follows R (act_bind (act_ok_or x e) f)"
  by (cases x) (simp_all add: act_simps throw)

lemma bind_known:
  assumes "follows R m" "\<And>s x s1 r s'. m s = Some (Inr x, s1) \<Longrightarrow> f x s1 = Some (r, s') \<Longrightarrow> R s1 s'"
  shows "follows R (act_bind m f)"
  using assms unfolding follows_def bind_run by (blast intro: trans)

lemma seq_known:
  assumes "\<And>s r s1. P s \<Longrightarrow> m s = Some (r, s1) \<Longrightarrow> R s s1" "follows R n" "P s" "act_seq m n s = Some (r, s')"
  shows "R s s'"
  using assms unfolding follows_def seq_run by (blast intro: trans)

lemmas rules = return throw panic gets bind seq unwrap ok_or check cond loop attempt

end

end
