(* ===== verification/HandlerState.thy ===== *)
theory HandlerState
  imports Report Actions
begin

text \<open>
  What the handlers of the funder work on: the messages of its applications
  (\<open>components/proto/src/funder/messages.rs\<close>), the state that records its mutations
  (\<open>components/funder/src/handler/state_wrap.rs\<close>), the send commands and pending move tokens of
  \<open>components/funder/src/handler/sender.rs\<close>, and the searches of
  \<open>components/funder/src/handler/utils.rs\<close>.

  The services the handlers use are fields of an environment: the cryptographic functions, the
  bytes of a relay address, the signatures of the identity service, the random generator (the
  \<open>n\<close>-th draw of a given length) and the order in which a hash map of the standard library is
  traversed.
\<close>

section \<open>Environment\<close>

record 'b funder_env =
  env_crypto :: crypto_api
  env_ser :: "'b \<Rightarrow> bytes"
  env_sign :: "bytes \<Rightarrow> signature"
  env_rng :: "nat \<Rightarrow> nat \<Rightarrow> bytes"
  env_order :: "public_key list \<Rightarrow> public_key list"

section \<open>Messages to and from the applications\<close>

record remove_friend =
  rf_friend_public_key :: public_key

record set_requests_status =
  srs_friend_public_key :: public_key
  srs_status :: requests_status

record set_friend_status =
  sfs_friend_public_key :: public_key
  sfs_status :: friend_status

record set_friend_remote_max_debt =
  sfd_friend_public_key :: public_key
  sfd_remote_max_debt :: u128

record set_friend_name =
  sfn_friend_public_key :: public_key
  sfn_name :: string

record 'b set_friend_relays =
  sfl_friend_public_key :: public_key
  sfl_relays :: "'b relay_address list"

record reset_friend_channel =
  rfc_friend_public_key :: public_key
  rfc_reset_token :: signature

record set_friend_rate =
  sfr_friend_public_key :: public_key
  sfr_rate :: rate

record create_payment =
  cp_payment_id :: payment_id
  cp_invoice_id :: invoice_id
  cp_total_dest_payment :: u128
  cp_dest_public_key :: public_key

record create_transaction =
  ct_payment_id :: payment_id
  ct_request_id :: uid
  ct_route :: friends_route
  ct_dest_payment :: u128
  ct_fees :: u128

record add_invoice =
  ai_invoice_id :: invoice_id
  ai_total_dest_payment :: u128

record ack_close_payment =
  ac_payment_id :: payment_id
  ac_ack_uid :: uid

datatype 'b funder_control =
    FcAddRelay "'b named_relay_address"
  | FcRemoveRelay public_key
  | FcAddFriend "'b add_friend"
  | FcRemoveFriend remove_friend
  | FcSetRequestsStatus set_requests_status
  | FcSetFriendStatus set_friend_status
  | FcSetFriendRemoteMaxDebt set_friend_remote_max_debt
  | FcSetFriendRelays "'b set_friend_relays"
  | FcSetFriendName set_friend_name
  | FcSetFriendRate set_friend_rate
  | FcResetFriendChannel reset_friend_channel
  | FcCreatePayment create_payment
  | FcCreateTransaction create_transaction
  | FcRequestClosePayment payment_id
  | FcAckClosePayment ack_close_payment
  | FcAddInvoice add_invoice
  | FcCancelInvoice invoice_id
  | FcCommitInvoice multi_commit

record 'b funder_incoming_control =
  fic_app_request_id :: uid
  fic_funder_control :: "'b funder_control"

datatype request_result = RrSuccess commit | RrFailure

record transaction_result =
  tr_request_id :: uid
  tr_result :: request_result

datatype payment_status = PsPaymentNotFound | PsInProgress | PsSuccess receipt uid | PsCanceled uid

record response_close_payment =
  rcp_payment_id :: payment_id
  rcp_status :: payment_status

datatype 'b funder_outgoing_control =
    FoTransactionResult transaction_result
  | FoResponseClosePayment response_close_payment
  | FoReportMutations "'b funder_report_mutations"

record 'b channeler_update_friend =
  cuf_friend_public_key :: public_key
  cuf_friend_relays :: "'b relay_address list"
  cuf_local_relays :: "'b relay_address list"

datatype 'b channeler_config =
    CcSetRelays "'b relay_address list"
  | CcUpdateFriend "'b channeler_update_friend"
  | CcRemoveFriend public_key

datatype incoming_liveness_message = LivenessOnline public_key | LivenessOffline public_key

datatype 'b funder_incoming_comm =
    FicLiveness incoming_liveness_message
  | FicFriend public_key "'b friend_message"

datatype 'b funder_incoming =
    FiInit
  | FiControl "'b funder_incoming_control"
  | FiComm "'b funder_incoming_comm"

datatype 'b funder_outgoing_comm =
    FocFriendMessage public_key "'b friend_message"
  | FocChannelerConfig "'b channeler_config"

section \<open>Recorded mutations\<close>

record semi_response =
  sr_friend_public_key :: public_key
  sr_pending_transaction :: pending_transaction

record 'b mutable_funder_state =
  mf_initial_state :: "'b funder_state"
  mf_state :: "'b funder_state"
  mf_unsigned_responses :: "semi_response list"
  mf_mutations :: "'b funder_mutation list"

definition mf_new :: "'b funder_state \<Rightarrow> 'b mutable_funder_state" where
  "mf_new st = \<lparr> mf_initial_state = st, mf_state = st, mf_unsigned_responses = [], mf_mutations = [] \<rparr>"

definition mf_queue_unsigned_response ::
  "public_key \<Rightarrow> pending_transaction \<Rightarrow> 'b mutable_funder_state \<Rightarrow> 'b mutable_funder_state" where
  "mf_queue_unsigned_response friend_public_key pending_transaction m =
     m\<lparr> mf_unsigned_responses := mf_unsigned_responses m
       @ [\<lparr> sr_friend_public_key = friend_public_key, sr_pending_transaction = pending_transaction \<rparr>] \<rparr>"

definition mf_mutate ::
  "'b funder_env \<Rightarrow> 'b funder_mutation \<Rightarrow> 'b mutable_funder_state \<Rightarrow> 'b mutable_funder_state option" where
  "mf_mutate E mutation m =
     (case funder_mutate (env_crypto E) (env_ser E) (mf_state m) mutation of
        None \<Rightarrow> None
      | Some st \<Rightarrow> Some (m\<lparr> mf_state := st, mf_mutations := mf_mutations m @ [mutation] \<rparr>))"

definition mf_done :: "'b mutable_funder_state \<Rightarrow> ('b funder_state \<times> 'b funder_mutation list \<times> 'b funder_state) option" where
  "mf_done m = (if mf_unsigned_responses m = [] then Some (mf_initial_state m, mf_mutations m, mf_state m) else None)"

record mutable_ephemeral =
  me_ephemeral :: ephemeral
  me_mutations :: "ephemeral_mutation list"

definition me_new :: "ephemeral \<Rightarrow> mutable_ephemeral" where
  "me_new e = \<lparr> me_ephemeral = e, me_mutations = [] \<rparr>"

definition me_mutate :: "ephemeral_mutation \<Rightarrow> mutable_ephemeral \<Rightarrow> mutable_ephemeral" where
  "me_mutate mutation m =
     m\<lparr> me_ephemeral := ephemeral_mutate (me_ephemeral m) mutation, me_mutations := me_mutations m @ [mutation] \<rparr>"

definition me_done :: "mutable_ephemeral \<Rightarrow> ephemeral_mutation list \<times> ephemeral" where
  "me_done m = (me_mutations m, me_ephemeral m)"

section \<open>Send commands and pending move tokens\<close>

record friend_send_commands =
  fc_try_send :: bool
  fc_resend_outgoing :: bool
  fc_remote_wants_token :: bool
  fc_local_reset :: bool

definition friend_send_commands_new :: friend_send_commands where
  "friend_send_commands_new =
     \<lparr> fc_try_send = False, fc_resend_outgoing = False, fc_remote_wants_token = False, fc_local_reset = False \<rparr>"

record send_commands =
  sc_send_commands :: "(public_key, friend_send_commands) hmap"

definition send_commands_new :: send_commands where
  "send_commands_new = \<lparr> sc_send_commands = [] \<rparr>"

text \<open>\<open>entry(key).or_insert_with(FriendSendCommands::new)\<close> followed by an update of the entry.\<close>

definition update_entry :: "(friend_send_commands \<Rightarrow> friend_send_commands) \<Rightarrow> public_key \<Rightarrow> send_commands \<Rightarrow> send_commands" where
  "update_entry f pk sc =
     (let entry = (case hm_get (sc_send_commands sc) pk of None \<Rightarrow> friend_send_commands_new | Some c \<Rightarrow> c)
      in sc\<lparr> sc_send_commands := hm_insert pk (f entry) (sc_send_commands sc) \<rparr>)"

definition set_try_send :: "public_key \<Rightarrow> send_commands \<Rightarrow> send_commands" where
  "set_try_send = update_entry (\<lambda>c. c\<lparr> fc_try_send := True \<rparr>)"

definition set_resend_outgoing :: "public_key \<Rightarrow> send_commands \<Rightarrow> send_commands" where
  "set_resend_outgoing = update_entry (\<lambda>c. c\<lparr> fc_resend_outgoing := True \<rparr>)"

definition set_remote_wants_token :: "public_key \<Rightarrow> send_commands \<Rightarrow> send_commands" where
  "set_remote_wants_token = update_entry (\<lambda>c. c\<lparr> fc_remote_wants_token := True \<rparr>)"

definition set_local_reset :: "public_key \<Rightarrow> send_commands \<Rightarrow> send_commands" where
  "set_local_reset = update_entry (\<lambda>c. c\<lparr> fc_local_reset := True \<rparr>)"

record 'b pending_move_token =
  pm_friend_public_key :: public_key
  pm_outgoing_mc :: outgoing_mc
  pm_operations :: "friend_tc_op list"
  pm_opt_local_relays :: "'b relay_address list option"
  pm_token_wanted :: bool
  pm_max_operations_in_batch :: nat
  pm_may_send_empty :: bool

definition pending_move_token_new :: "public_key \<Rightarrow> outgoing_mc \<Rightarrow> nat \<Rightarrow> bool \<Rightarrow> 'b pending_move_token" where
  "pending_move_token_new friend_public_key outgoing_mc max_operations_in_batch may_send_empty =
     \<lparr> pm_friend_public_key = friend_public_key, pm_outgoing_mc = outgoing_mc, pm_operations = [],
       pm_opt_local_relays = None, pm_token_wanted = False, pm_max_operations_in_batch = max_operations_in_batch,
       pm_may_send_empty = may_send_empty \<rparr>"

definition pm_set_local_relays :: "'b relay_address list \<Rightarrow> 'b pending_move_token \<Rightarrow> 'b pending_move_token" where
  "pm_set_local_relays local_relays p = p\<lparr> pm_opt_local_relays := Some local_relays \<rparr>"

section \<open>Searches\<close>

text \<open>The loops over the friends: the first consistent channel that holds the request.\<close>

fun find_origin_in :: "(public_key, 'b friend_state) hmap \<Rightarrow> uid \<Rightarrow> public_key option" where
  "find_origin_in [] request_id = None"
| "find_origin_in ((friend_public_key, friend) # friends) request_id =
     (case fr_channel_status friend of
        Inconsistent _ \<Rightarrow> find_origin_in friends request_id
      | Consistent token_channel \<Rightarrow>
          if hm_contains (mp_remote (st_pending (get_mutual_credit token_channel))) request_id
          then Some friend_public_key else find_origin_in friends request_id)"

definition find_request_origin :: "'b funder_state \<Rightarrow> uid \<Rightarrow> public_key option" where
  "find_request_origin st request_id = find_origin_in (fs_friends st) request_id"

fun find_local_in :: "(public_key, 'b friend_state) hmap \<Rightarrow> uid \<Rightarrow> pending_transaction option" where
  "find_local_in [] request_id = None"
| "find_local_in ((_, friend) # friends) request_id =
     (case fr_channel_status friend of
        Inconsistent _ \<Rightarrow> find_local_in friends request_id
      | Consistent token_channel \<Rightarrow>
          (case hm_get (mp_local (st_pending (get_mutual_credit token_channel))) request_id of
             Some pending_transaction \<Rightarrow> Some pending_transaction
           | None \<Rightarrow> find_local_in friends request_id))"

definition find_local_pending_transaction :: "'b funder_state \<Rightarrow> uid \<Rightarrow> pending_transaction option" where
  "find_local_pending_transaction st request_id = find_local_in (fs_friends st) request_id"

text \<open>\<open>None\<close> is the panic on an unknown friend.\<close>

definition is_friend_ready :: "'b funder_state \<Rightarrow> ephemeral \<Rightarrow> public_key \<Rightarrow> bool option" where
  "is_friend_ready st e friend_public_key =
     (case hm_get (fs_friends st) friend_public_key of
        None \<Rightarrow> None
      | Some friend \<Rightarrow>
          if \<not> is_online (ep_liveness e) friend_public_key then Some False
          else case fr_channel_status friend of
                 Inconsistent _ \<Rightarrow> Some False
               | Consistent token_channel \<Rightarrow> Some (is_open (mr_remote (st_requests_status (get_mutual_credit token_channel)))))"

section \<open>The context of a handler\<close>

text \<open>
  The values a handler receives by mutable reference, together: the two recorded states, the
  send commands, the outgoing messages of the three kinds, the pending move tokens and the
  keys whose requests were canceled, and the number of random values drawn.
\<close>

record 'b ctx =
  cx_m_state :: "'b mutable_funder_state"
  cx_m_ephemeral :: mutable_ephemeral
  cx_send_commands :: send_commands
  cx_outgoing_control :: "'b funder_outgoing_control list"
  cx_outgoing_channeler_config :: "'b channeler_config list"
  cx_outgoing_messages :: "(public_key \<times> 'b friend_message) list"
  cx_pending_move_tokens :: "(public_key, 'b pending_move_token) hmap"
  cx_cancel_public_keys :: "public_key list"
  cx_draws :: nat

type_synonym ('b, 'e, 'a) handler = "('b ctx, 'e, 'a) action"

abbreviation cx_state :: "'b ctx \<Rightarrow> 'b funder_state" where
  "cx_state s \<equiv> mf_state (cx_m_state s)"

definition mutate :: "'b funder_env \<Rightarrow> 'b funder_mutation \<Rightarrow> ('b, 'e, unit) handler" where
  "mutate E mutation = (\<lambda>s. case mf_mutate E mutation (cx_m_state s) of
       None \<Rightarrow> None
     | Some m \<Rightarrow> Some (Inr (), s\<lparr> cx_m_state := m \<rparr>))"

definition mutate_friend :: "'b funder_env \<Rightarrow> public_key \<Rightarrow> 'b friend_mutation \<Rightarrow> ('b, 'e, unit) handler" where
  "mutate_friend E pk friend_mutation = mutate E (FriendMutation pk friend_mutation)"

definition mutate_ephemeral :: "ephemeral_mutation \<Rightarrow> ('b, 'e, unit) handler" where
  "mutate_ephemeral mutation = act_modify (\<lambda>s. s\<lparr> cx_m_ephemeral := me_mutate mutation (cx_m_ephemeral s) \<rparr>)"

definition get_state :: "('b, 'e, 'b funder_state) handler" where
  "get_state = act_gets cx_state"

definition get_ephemeral :: "('b, 'e, ephemeral) handler" where
  "get_ephemeral = act_gets (\<lambda>s. me_ephemeral (cx_m_ephemeral s))"

text \<open>\<open>state().friends.get(key).unwrap()\<close>, and the same with an error for an unknown friend.\<close>

definition get_friend :: "public_key \<Rightarrow> ('b, 'e, 'b friend_state) handler" where
  "get_friend pk = act_bind get_state (\<lambda>st. act_unwrap (hm_get (fs_friends st) pk))"

definition get_friend_or :: "'e \<Rightarrow> public_key \<Rightarrow> ('b, 'e, 'b friend_state) handler" where
  "get_friend_or e pk = act_bind get_state (\<lambda>st. act_ok_or (hm_get (fs_friends st) pk) e)"

text \<open>The token channel of a friend, where the code calls \<open>unreachable!()\<close> if it is inconsistent.\<close>

definition get_channel :: "public_key \<Rightarrow> ('b, 'e, 'b token_channel) handler" where
  "get_channel pk = act_bind (get_friend pk) (\<lambda>friend.
     case fr_channel_status friend of Consistent tc \<Rightarrow> act_return tc | Inconsistent _ \<Rightarrow> act_panic)"

definition draw :: "'b funder_env \<Rightarrow> nat \<Rightarrow> ('b, 'e, bytes) handler" where
  "draw E len = (\<lambda>s. Some (Inr (env_rng E (cx_draws s) len), s\<lparr> cx_draws := Suc (cx_draws s) \<rparr>))"

definition command :: "(public_key \<Rightarrow> send_commands \<Rightarrow> send_commands) \<Rightarrow> public_key \<Rightarrow> ('b, 'e, unit) handler" where
  "command f pk = act_modify (\<lambda>s. s\<lparr> cx_send_commands := f pk (cx_send_commands s) \<rparr>)"

definition push_control :: "'b funder_outgoing_control \<Rightarrow> ('b, 'e, unit) handler" where
  "push_control c = act_modify (\<lambda>s. s\<lparr> cx_outgoing_control := cx_outgoing_control s @ [c] \<rparr>)"

definition push_channeler_config :: "'b channeler_config \<Rightarrow> ('b, 'e, unit) handler" where
  "push_channeler_config c = act_modify (\<lambda>s. s\<lparr> cx_outgoing_channeler_config := cx_outgoing_channeler_config s @ [c] \<rparr>)"

definition push_message :: "public_key \<Rightarrow> 'b friend_message \<Rightarrow> ('b, 'e, unit) handler" where
  "push_message pk m = act_modify (\<lambda>s. s\<lparr> cx_outgoing_messages := cx_outgoing_messages s @ [(pk, m)] \<rparr>)"

definition queue_unsigned_response :: "public_key \<Rightarrow> pending_transaction \<Rightarrow> ('b, 'e, unit) handler" where
  "queue_unsigned_response pk pt =
     act_modify (\<lambda>s. s\<lparr> cx_m_state := mf_queue_unsigned_response pk pt (cx_m_state s) \<rparr>)"

text \<open>The lengths of the random values: \<open>PlainLock\<close>, \<open>Uid\<close>, \<open>RandValue\<close> and a reset token.\<close>

definition PLAIN_LOCK_LEN :: nat where "PLAIN_LOCK_LEN = 32"

section \<open>Signing responses\<close>

text \<open>
  The loop of \<open>sign_responses\<close> pops the queue from the back. The destination's lock is drawn
  first, then the nonce.
\<close>

definition sign_response :: "'b funder_env \<Rightarrow> semi_response \<Rightarrow> ('b, 'e, unit) handler" where
  "sign_response E semi_response =
     (let pk = sr_friend_public_key semi_response; pt = sr_pending_transaction semi_response in
      act_bind (draw E PLAIN_LOCK_LEN) (\<lambda>dest_plain_lock.
      act_bind (draw E RAND_VALUE_LEN) (\<lambda>rand_nonce.
      let response_send_funds = create_response_send_funds (env_crypto E) (env_sign E) pt
            (plain_lock_hash (env_crypto E) dest_plain_lock) rand_nonce in
      act_seq (mutate_friend E pk (PushBackPendingBackwardsOp (BackResponse response_send_funds)))
        (mutate E (AddIncomingTransaction (pt_invoice_id pt) (pt_request_id pt) dest_plain_lock)))))"

definition sign_responses :: "'b funder_env \<Rightarrow> ('b, 'e, unit) handler" where
  "sign_responses E =
     act_bind (act_gets (\<lambda>s. mf_unsigned_responses (cx_m_state s))) (\<lambda>responses.
     act_seq (act_modify (\<lambda>s. s\<lparr> cx_m_state := (cx_m_state s)\<lparr> mf_unsigned_responses := [] \<rparr> \<rparr>))
       (act_for (rev responses) (sign_response E)))"

end
