(* ===== verification/FunderSteps.thy ===== *)
theory FunderSteps
  imports HandlerState
begin

text \<open>
  The atomic steps of a funder: groups of mutations that belong together, with the condition
  under which a handler may perform them. The handlers are shown to move the state by such steps
  only, so a property that every step keeps is kept by every handler.
\<close>

section \<open>The life of a payment\<close>

text \<open>
  What becomes of a payment when one of its transactions ends (\<open>None\<close>: it is forgotten), and
  when the application closes it or acknowledges its outcome.
\<close>

inductive finishes :: "payment \<Rightarrow> payment option \<Rightarrow> bool" where
  fin_new: "0 < nt_num_transactions nt \<Longrightarrow>
     finishes (NewTransactions nt) (Some (NewTransactions (nt\<lparr> nt_num_transactions := nt_num_transactions nt - 1 \<rparr>)))"
| fin_new_success: "0 < nt_num_transactions nt \<Longrightarrow>
     finishes (NewTransactions nt) (Some (PaySuccess (nt_num_transactions nt - 1) receipt ack_uid))"
| fin_progress: "1 < n \<Longrightarrow> finishes (InProgress n) (Some (InProgress (n - 1)))"
| fin_canceled: "finishes (InProgress 1) (Some (PayCanceled ack_uid))"
| fin_success: "0 < n \<Longrightarrow> finishes (InProgress n) (Some (PaySuccess (n - 1) receipt ack_uid))"
| fin_after_success: "0 < n \<Longrightarrow> finishes (PaySuccess n receipt ack_uid) (Some (PaySuccess (n - 1) receipt ack_uid))"
| fin_after_ack: "1 < n \<Longrightarrow> finishes (AfterSuccessAck n) (Some (AfterSuccessAck (n - 1)))"
| fin_last_after_ack: "finishes (AfterSuccessAck 1) None"

inductive closes :: "payment \<Rightarrow> payment option \<Rightarrow> bool" where
  close_new: "closes (NewTransactions nt) (Some (InProgress (nt_num_transactions nt)))"
| close_empty: "closes (InProgress 0) (Some (PayCanceled ack_uid))"
| ack_success: "0 < n \<Longrightarrow> closes (PaySuccess n receipt ack_uid) (Some (AfterSuccessAck n))"
| ack_last_success: "closes (PaySuccess 0 receipt ack_uid) None"
| ack_canceled: "closes (PayCanceled ack_uid) None"

inductive_cases finishesE: "finishes p q"
inductive_cases closesE: "closes p q"

text \<open>The transactions a payment still waits for.\<close>

fun payment_count :: "payment \<Rightarrow> int" where
  "payment_count (NewTransactions nt) = uint (nt_num_transactions nt)"
| "payment_count (InProgress n) = uint n"
| "payment_count (PaySuccess n receipt ack_uid) = uint n"
| "payment_count (PayCanceled ack_uid) = 0"
| "payment_count (AfterSuccessAck n) = uint n"

text \<open>The mutation that stores a payment, or removes it (the end of \<open>remove_transaction\<close>).\<close>

fun payment_mutation :: "payment_id \<Rightarrow> payment option \<Rightarrow> 'b funder_mutation" where
  "payment_mutation payment_id (Some new_payment) = UpdatePayment payment_id new_payment"
| "payment_mutation payment_id None = RemovePayment payment_id"

section \<open>Atomic steps\<close>

text \<open>Mutations that touch no channel, no friend's presence and no payment.\<close>

fun plain_friend_mutation :: "'b friend_mutation \<Rightarrow> bool" where
  "plain_friend_mutation (FmTcMutation _) = False"
| "plain_friend_mutation (SetInconsistent _) = False"
| "plain_friend_mutation (SetConsistent _) = False"
| "plain_friend_mutation _ = True"

fun plain_mutation :: "'b funder_mutation \<Rightarrow> bool" where
  "plain_mutation (FriendMutation _ fm) = plain_friend_mutation fm"
| "plain_mutation (AddRelay _) = True"
| "plain_mutation (RemoveRelay _) = True"
| "plain_mutation (AddInvoice _ _) = True"
| "plain_mutation (AddIncomingTransaction _ _ _) = True"
| "plain_mutation (RemoveInvoice _) = True"
| "plain_mutation (SetTransactionResponse _) = True"
| "plain_mutation _ = False"

definition channel_of :: "'b funder_state \<Rightarrow> public_key \<Rightarrow> 'b channel_status option" where
  "channel_of st pk = map_option fr_channel_status (hm_get (fs_friends st) pk)"

text \<open>A channel as a reset leaves it: no debt, and no operations in a token still to be confirmed.\<close>

definition fresh_channel :: "public_key \<Rightarrow> public_key \<Rightarrow> 'b token_channel \<Rightarrow> bool" where
  "fresh_channel local_pk pk tc \<longleftrightarrow>
     (\<exists>bal. sint bal \<noteq> - (2 ^ 127) \<and> get_mutual_credit tc = mc_new local_pk pk bal)
     \<and> (\<forall>t. tc_direction tc = TcOutgoing t \<longrightarrow> mt_operations (to_move_token_out t) = [])"

abbreviation tc_group :: "public_key \<Rightarrow> 'b tc_mutation list \<Rightarrow> 'b funder_mutation list" where
  "tc_group pk ms \<equiv> map (\<lambda>m. FriendMutation pk (FmTcMutation m)) ms"

inductive atomic :: "'b funder_env \<Rightarrow> nat \<Rightarrow> 'b funder_state \<Rightarrow> 'b funder_mutation list \<Rightarrow> bool"
  for E N st where
  plain: "plain_mutation m \<Longrightarrow> atomic E N st [m]"
| add_friend: "sint (af_balance af) \<noteq> - (2 ^ 127) \<Longrightarrow> atomic E N st [AddFriend af]"
| remove_friend: "hm_contains (fs_friends st) pk \<Longrightarrow> atomic E N st [RemoveFriend pk]"
| break_channel: "atomic E N st [FriendMutation pk (SetInconsistent ci)]"
| reset_channel: "channel_of st pk = Some (Inconsistent ci) \<Longrightarrow> fresh_channel (fs_local_public_key st) pk tc
    \<Longrightarrow> atomic E N st [FriendMutation pk (SetConsistent tc)]"
| receive: "channel_of st pk = Some (Consistent tc)
    \<Longrightarrow> simulate_receive_move_token (env_crypto E) (env_ser E) tc mt = Ok (Received r)
    \<Longrightarrow> atomic E N st (tc_group pk (mtd_mutations r))"
| queue: "channel_of st pk = Some (Consistent tc) \<Longrightarrow> tc_direction tc = TcIncoming ti
    \<Longrightarrow> queue_operation (env_crypto E) (outgoing_mc_new (ti_mutual_credit ti)) op = Ok (om, ms)
    \<Longrightarrow> atomic E N st (tc_group pk (map TcMcMutation ms))"
| send: "channel_of st pk = Some (Consistent tc) \<Longrightarrow> tc_direction tc = TcIncoming ti \<Longrightarrow> length ops \<le> N
    \<Longrightarrow> atomic E N st (tc_group pk [TcSetDirection (SdOutgoing (sign_move_token (env_crypto E) (env_ser E) (env_sign E)
          (ti_create_unsigned_move_token ti ops relays nonce)))])"
| create: "hm_get (fs_payments st) pid = None \<Longrightarrow> nt_num_transactions nt = 0
    \<Longrightarrow> atomic E N st [UpdatePayment pid (NewTransactions nt)]"
| start: "hm_get (fs_open_transactions st) rid = None \<Longrightarrow> hm_get (fs_payments st) pid = Some (NewTransactions nt)
    \<Longrightarrow> u_checked_add (nt_num_transactions nt) 1 = Some n
    \<Longrightarrow> atomic E N st [AddTransaction rid pid lock, UpdatePayment pid (NewTransactions (nt\<lparr> nt_num_transactions := n \<rparr>))]"
| abort: "hm_get (fs_open_transactions st) rid = Some ot \<Longrightarrow> hm_get (fs_payments st) (ot_payment_id ot) = Some p
    \<Longrightarrow> finishes p q \<Longrightarrow> atomic E N st [RemoveTransaction rid, payment_mutation (ot_payment_id ot) q]"
| collect: "hm_get (fs_open_transactions st) rid = Some ot \<Longrightarrow> hm_get (fs_payments st) (ot_payment_id ot) = Some p
    \<Longrightarrow> finishes p q \<Longrightarrow> atomic E N st [payment_mutation (ot_payment_id ot) q, RemoveTransaction rid]"
| close: "hm_get (fs_payments st) pid = Some p \<Longrightarrow> closes p q \<Longrightarrow> atomic E N st [payment_mutation pid q]"

inductive steps ::
  "'b funder_env \<Rightarrow> nat \<Rightarrow> 'b funder_state \<Rightarrow> 'b funder_mutation list \<Rightarrow> 'b funder_state \<Rightarrow> bool"
  for E N where
  no_step: "steps E N st [] st"
| one_more: "steps E N st ms st' \<Longrightarrow> atomic E N st' gs \<Longrightarrow> funder_replay (env_crypto E) (env_ser E) st' gs = Some st''
    \<Longrightarrow> steps E N st (ms @ gs) st''"

lemma funder_replay_append:
  "funder_replay C ser st (ms @ ns) = (case funder_replay C ser st ms of None \<Rightarrow> None | Some st' \<Rightarrow> funder_replay C ser st' ns)"
  by (induction ms arbitrary: st) (auto split: option.split)

lemma steps_trans: "steps E N st' ns st'' \<Longrightarrow> steps E N st ms st' \<Longrightarrow> steps E N st (ms @ ns) st''"
  by (induction rule: steps.induct) (auto simp flip: append_assoc intro: steps.intros)

lemma steps_replay: "steps E N st ms st' \<Longrightarrow> funder_replay (env_crypto E) (env_ser E) st ms = Some st'"
  by (induction rule: steps.induct) (auto simp: funder_replay_append)

lemma steps_group:
  "atomic E N st gs \<Longrightarrow> funder_replay (env_crypto E) (env_ser E) st gs = Some st' \<Longrightarrow> steps E N st gs st'"
  using one_more [OF no_step] by fastforce

text \<open>A predicate of the state that every atomic step keeps is kept by every sequence of steps.\<close>

lemma steps_keep:
  assumes "steps E N st ms st'" "P st"
    and "\<And>st gs st'. P st \<Longrightarrow> atomic E N st gs \<Longrightarrow> funder_replay (env_crypto E) (env_ser E) st gs = Some st' \<Longrightarrow> P st'"
  shows "P st'"
  using assms by (induction rule: steps.induct) auto

lemma plain_removal: "plain_mutation m \<Longrightarrow> removal_known st m"
  by (cases m) auto

lemma removals_known_append:
  "removals_known C ser st (ms @ ns) \<longleftrightarrow> removals_known C ser st ms
     \<and> (case funder_replay C ser st ms of None \<Rightarrow> True | Some st' \<Rightarrow> removals_known C ser st' ns)"
  by (induction ms arbitrary: st) (auto split: option.split)

lemma removals_known_without:
  "(\<And>m st. m \<in> set ms \<Longrightarrow> removal_known st m) \<Longrightarrow> removals_known C ser st ms"
  by (induction ms arbitrary: st) (auto split: option.split)

lemma atomic_removals: "atomic E N st gs \<Longrightarrow> removals_known C ser st gs"
proof (induction rule: atomic.induct)
  case (plain m)
  then show ?case by (simp add: plain_removal split: option.split)
next
  case (abort rid ot p q)
  then show ?case by (cases q) (simp_all split: option.split)
next
  case (collect rid ot p q)
  then show ?case by (cases q) (simp_all split: option.split)
next
  case (close pid p q)
  then show ?case by (cases q) (simp_all split: option.split)
next
  case (receive pk tc mt r)
  show ?case by (rule removals_known_without) auto
next
  case (queue pk tc ti op om ms)
  show ?case by (rule removals_known_without) auto
qed (simp_all split: option.split)

lemma steps_removals: "steps E N st ms st' \<Longrightarrow> removals_known (env_crypto E) (env_ser E) st ms"
  by (induction rule: steps.induct) (auto simp: removals_known_append steps_replay atomic_removals)

section \<open>Channels\<close>

text \<open>Every credit line keeps its invariant, and no token waits with more than \<open>N\<close> operations.\<close>

definition channel_ok :: "nat \<Rightarrow> 'b token_channel \<Rightarrow> bool" where
  "channel_ok N tc \<longleftrightarrow> mc_inv (get_mutual_credit tc)
     \<and> (\<forall>t. tc_direction tc = TcOutgoing t \<longrightarrow> length (mt_operations (to_move_token_out t)) \<le> N)"

definition channels_ok :: "nat \<Rightarrow> 'b funder_state \<Rightarrow> bool" where
  "channels_ok N st \<longleftrightarrow> (\<forall>pk tc. channel_of st pk = Some (Consistent tc) \<longrightarrow> channel_ok N tc)"

lemma channels_ok_upd:
  assumes "channels_ok N st" "channel_of st' = (channel_of st)(pk := c)" "\<And>tc. c = Some (Consistent tc) \<Longrightarrow> channel_ok N tc"
  shows "channels_ok N st'"
  using assms by (auto simp: channels_ok_def)

lemma channel_of_friends [simp]:
  "channel_of (st\<lparr> fs_relays := a \<rparr>) = channel_of st"
  "channel_of (st\<lparr> fs_open_invoices := b \<rparr>) = channel_of st"
  "channel_of (st\<lparr> fs_open_transactions := c \<rparr>) = channel_of st"
  "channel_of (st\<lparr> fs_payments := d \<rparr>) = channel_of st"
  by (auto simp: channel_of_def)

lemma channel_of_insert [simp]:
  "channel_of (st\<lparr> fs_friends := hm_insert pk fr (fs_friends st) \<rparr>) = (channel_of st)(pk \<mapsto> fr_channel_status fr)"
  by (auto simp: channel_of_def hm_simps)

lemma channel_of_remove [simp]:
  "channel_of (st\<lparr> fs_friends := hm_remove pk (fs_friends st) \<rparr>) = (channel_of st)(pk := None)"
  by (auto simp: channel_of_def hm_simps)

lemma plain_friend_channel: "plain_friend_mutation fm \<Longrightarrow> friend_mutate fr fm = Some fr' \<Longrightarrow> fr_channel_status fr' = fr_channel_status fr"
  by (cases fm) auto

lemma channel_of_same: "hm_get (fs_friends st) pk = Some fr \<Longrightarrow> fr_channel_status fr' = fr_channel_status fr
    \<Longrightarrow> (channel_of st)(pk \<mapsto> fr_channel_status fr') = channel_of st"
  by (auto simp: channel_of_def)

lemma plain_channels: "plain_mutation m \<Longrightarrow> funder_mutate C ser st m = Some st' \<Longrightarrow> channel_of st' = channel_of st"
  by (cases m) (auto simp: Let_def channel_of_same plain_friend_channel split: option.splits if_splits)

lemma funder_mutate_tc:
  assumes "funder_mutate C ser st (FriendMutation pk (FmTcMutation m)) = Some st'"
  shows "\<exists>tc tc'. channel_of st pk = Some (Consistent tc) \<and> tc_mutate tc m = Some tc'
    \<and> channel_of st' = (channel_of st)(pk \<mapsto> Consistent tc') \<and> fs_local_public_key st' = fs_local_public_key st"
  using assms by (auto simp: channel_of_def split: option.splits channel_status.splits)

lemma replay_tc_group:
  assumes "funder_replay C ser st (tc_group pk ms) = Some st'" "channel_of st pk = Some (Consistent tc)"
  shows "\<exists>tc'. tc_replay tc ms = Some tc' \<and> channel_of st' = (channel_of st)(pk \<mapsto> Consistent tc')"
  using assms
proof (induction ms arbitrary: st tc)
  case Nil
  then show ?case by (auto simp: fun_upd_idem)
next
  case (Cons m ms)
  obtain st1 where st1: "funder_mutate C ser st (FriendMutation pk (FmTcMutation m)) = Some st1"
    "funder_replay C ser st1 (tc_group pk ms) = Some st'"
    using Cons.prems by (auto split: option.splits)
  from funder_mutate_tc [OF st1(1)] Cons.prems(2) obtain tc1 where tc1: "tc_mutate tc m = Some tc1"
    "channel_of st1 = (channel_of st)(pk \<mapsto> Consistent tc1)" by auto
  have "channel_of st1 pk = Some (Consistent tc1)" by (simp add: tc1)
  from Cons.IH [OF st1(2) this, unfolded tc1(2) fun_upd_upd] tc1(1) show ?case by simp
qed

lemma fresh_channel_ok: "fresh_channel l pk tc \<Longrightarrow> channel_ok N tc"
  by (auto simp: fresh_channel_def channel_ok_def mc_inv_new)

lemma new_channel_ok:
  assumes "friend_state_new C ser l r relays name bal = Some fr" "sint bal \<noteq> - (2 ^ 127)" "fr_channel_status fr = Consistent tc"
  shows "channel_ok N tc"
  using assms by (auto simp: friend_state_new_def token_channel_new_def Let_def channel_ok_def mc_inv_new initial_move_token_def
      split: option.splits if_splits)

text \<open>Receiving a token leaves the channel incoming, with the credit line the operations give.\<close>

lemma received_channel:
  assumes inv: "mc_inv (get_mutual_credit tc)"
    and run: "simulate_receive_move_token C ser tc mt = Ok (Received r)" and rep: "tc_replay tc (mtd_mutations r) = Some tc'"
  shows "mc_inv (get_mutual_credit tc') \<and> (\<exists>ti. tc_direction tc' = TcIncoming ti)"
proof -
  obtain t where t: "tc_direction tc = TcOutgoing t" "to_handle_incoming_token_match C ser t mt = Ok (Received r)"
    using run by (auto simp: simulate_receive_move_token_def ti_handle_incoming_def to_handle_incoming_def split: tc_direction.splits if_splits)
  have inv': "mc_inv (to_mutual_credit t)" using inv t(1) by (simp add: get_mutual_credit_def)
  obtain mc' outs where mc': "process_operations_list C (to_mutual_credit t) (mt_operations mt) = Ok (mc', outs)" "mc_inv mc'"
    "mtd_mutations r = map TcMcMutation (concat (map po_mc_mutations outs)) @ [TcSetDirection (SdIncoming (create_hashed C ser mt))]"
    using token_match_Received [OF inv' t(2)] by metis
  have "mc_replay (get_mutual_credit tc) (concat (map po_mc_mutations outs)) = Some mc'"
    using process_list_replay [OF inv' mc'(1)] t(1) by (simp add: get_mutual_credit_def)
  then show ?thesis using rep mc'(2,3) by (auto simp: tc_replay_append tc_replay_mc)
qed

lemma queued_channel:
  assumes "mc_inv (get_mutual_credit tc)" "tc_direction tc = TcIncoming ti"
    and "queue_operation C (outgoing_mc_new (ti_mutual_credit ti)) op = Ok (om, ms)"
  shows "mc_inv (om_mutual_credit om) \<and> tc_replay tc (map TcMcMutation ms) = Some (set_mutual_credit tc (om_mutual_credit om))"
  using assms queue_refines_ledger [of "outgoing_mc_new (ti_mutual_credit ti)" C op]
  by (auto simp: queue_refines_def om_inv_def outgoing_mc_new_def tc_replay_mc get_mutual_credit_def)

lemma set_mutual_credit_incoming: "tc_direction tc = TcIncoming ti \<Longrightarrow> \<exists>ti'. tc_direction (set_mutual_credit tc mc) = TcIncoming ti'"
  by (simp add: set_mutual_credit_def)

lemma channels_ok_atomic:
  assumes ok: "channels_ok N st" and at: "atomic E N st gs" and run: "funder_replay (env_crypto E) (env_ser E) st gs = Some st'"
  shows "channels_ok N st'"
  using at
proof cases
  case (plain m)
  then have "channel_of st' = channel_of st" using run by (auto dest: plain_channels split: option.splits)
  with ok show ?thesis by (simp add: channels_ok_def)
next
  case (add_friend af)
  then obtain fr where "friend_state_new (env_crypto E) (env_ser E) (fs_local_public_key st) (af_friend_public_key af) (af_relays af)
      (af_name af) (af_balance af) = Some fr"
    "channel_of st' = (channel_of st)(af_friend_public_key af \<mapsto> fr_channel_status fr)"
    using run by (auto split: option.splits if_splits)
  with channels_ok_upd [OF ok this(2)] new_channel_ok add_friend(2) show ?thesis by blast
next
  case (remove_friend pk)
  with run have "channel_of st' = (channel_of st)(pk := None)" by auto
  from channels_ok_upd [OF ok this] show ?thesis by simp
next
  case (break_channel pk ci)
  with run have "channel_of st' = (channel_of st)(pk \<mapsto> Inconsistent ci)" by (auto split: option.splits)
  from channels_ok_upd [OF ok this] show ?thesis by simp
next
  case (reset_channel pk ci tc)
  with run have "channel_of st' = (channel_of st)(pk \<mapsto> Consistent tc)" by (auto split: option.splits)
  from channels_ok_upd [OF ok this] fresh_channel_ok reset_channel(3) show ?thesis by auto
next
  case (receive pk tc mt r)
  from replay_tc_group [OF run [unfolded receive(1)] receive(2)] obtain tc' where
    tc': "tc_replay tc (mtd_mutations r) = Some tc'" "channel_of st' = (channel_of st)(pk \<mapsto> Consistent tc')" by blast
  have "mc_inv (get_mutual_credit tc)" using ok receive(2) by (simp add: channels_ok_def channel_ok_def)
  with received_channel [OF _ receive(3) tc'(1)] have "channel_ok N tc'" by (auto simp: channel_ok_def)
  with channels_ok_upd [OF ok tc'(2)] show ?thesis by simp
next
  case (queue pk tc ti op om ms)
  have inv: "mc_inv (get_mutual_credit tc)" using ok queue(2) by (simp add: channels_ok_def channel_ok_def)
  from replay_tc_group [OF run [unfolded queue(1)] queue(2)] queued_channel [OF inv queue(3,4)]
  have st': "channel_of st' = (channel_of st)(pk \<mapsto> Consistent (set_mutual_credit tc (om_mutual_credit om)))" "mc_inv (om_mutual_credit om)"
    by auto
  have "channel_ok N (set_mutual_credit tc (om_mutual_credit om))"
    using st'(2) set_mutual_credit_incoming [OF queue(3), of "om_mutual_credit om"] by (auto simp: channel_ok_def)
  with channels_ok_upd [OF ok st'(1)] show ?thesis by simp
next
  case (send pk tc ti ops relays nonce)
  from replay_tc_group [OF run [unfolded send(1)] send(2)] obtain tc' where
    tc': "tc_replay tc [TcSetDirection (SdOutgoing (sign_move_token (env_crypto E) (env_ser E) (env_sign E)
          (ti_create_unsigned_move_token ti ops relays nonce)))] = Some tc'" "channel_of st' = (channel_of st)(pk \<mapsto> Consistent tc')"
    by blast
  have "mc_inv (get_mutual_credit tc)" using ok send(2) by (simp add: channels_ok_def channel_ok_def)
  then have "channel_ok N tc'" using tc'(1) send(4)
    by (auto simp: channel_ok_def sign_move_token_def ti_create_unsigned_move_token_def create_unsigned_move_token_def Let_def)
  with channels_ok_upd [OF ok tc'(2)] show ?thesis by simp
next
  case (create pid nt)
  with ok run show ?thesis by (auto simp: channels_ok_def)
next
  case (start rid pid nt n lock)
  with ok run show ?thesis by (auto simp: channels_ok_def)
next
  case (abort rid ot p q)
  with ok run show ?thesis by (cases q) (auto simp: channels_ok_def)
next
  case (collect rid ot p q)
  with ok run show ?thesis by (cases q) (auto simp: channels_ok_def)
next
  case (close pid p q)
  with ok run show ?thesis by (cases q) (auto simp: channels_ok_def)
qed

section \<open>Keys\<close>

lemma funder_ok_replay:
  assumes "funder_ok st" "funder_replay C ser st ms = Some st'" "\<forall>m \<in> set ms. mutation_ok (fs_local_public_key st) m"
  shows "funder_ok st' \<and> fs_local_public_key st' = fs_local_public_key st"
  using assms
proof (induction ms arbitrary: st)
  case (Cons m ms)
  then obtain st1 where st1: "funder_mutate C ser st m = Some st1" "funder_replay C ser st1 ms = Some st'"
    by (auto split: option.splits)
  then have "funder_ok st1" "fs_local_public_key st1 = fs_local_public_key st"
    using funder_ok_mutate [OF Cons.prems(1) st1(1)] Cons.prems(3) by simp_all
  then show ?case using Cons.IH [of st1] st1(2) Cons.prems(3) by simp
qed simp

lemma plain_mutation_ok: "plain_mutation m \<Longrightarrow> mutation_ok l m"
proof (cases m)
  case (FriendMutation pk fm)
  then show "plain_mutation m \<Longrightarrow> mutation_ok l m" by (cases fm) auto
qed auto

lemma atomic_mutations_ok:
  assumes "atomic E N st gs" "m \<in> set gs"
  shows "mutation_ok (fs_local_public_key st) m"
  using assms(1)
proof cases
  case (plain m')
  with assms(2) show ?thesis by (simp add: plain_mutation_ok)
next
  case (reset_channel pk ci tc)
  with assms(2) show ?thesis by (auto simp: fresh_channel_def mc_new_def)
next
  case (abort rid ot p q)
  with assms(2) show ?thesis by (cases q) auto
next
  case (collect rid ot p q)
  with assms(2) show ?thesis by (cases q) auto
next
  case (close pid p q)
  with assms(2) show ?thesis by (cases q) auto
qed (use assms(2) in auto)

lemma funder_ok_atomic:
  assumes "funder_ok st" "atomic E N st gs" "funder_replay (env_crypto E) (env_ser E) st gs = Some st'"
  shows "funder_ok st' \<and> fs_local_public_key st' = fs_local_public_key st"
  using funder_ok_replay [OF assms(1,3)] atomic_mutations_ok [OF assms(2)] by blast

section \<open>Payments\<close>

text \<open>A payment waits for exactly as many transactions as are open under its identifier.\<close>

definition open_count :: "payment_id \<Rightarrow> (uid, open_transaction) hmap \<Rightarrow> int" where
  "open_count pid m = hm_total (\<lambda>ot. if ot_payment_id ot = pid then 1 else 0) m"

definition promised :: "(payment_id, payment) hmap \<Rightarrow> payment_id \<Rightarrow> int" where
  "promised m pid = (case hm_get m pid of None \<Rightarrow> 0 | Some p \<Rightarrow> payment_count p)"

definition accounts_ok :: "(uid, open_transaction) hmap \<Rightarrow> (payment_id, payment) hmap \<Rightarrow> bool" where
  "accounts_ok ots pays \<longleftrightarrow> hm_ok ots \<and> hm_ok pays \<and> (\<forall>pid. open_count pid ots = promised pays pid)
     \<and> (\<forall>pid. hm_get pays pid \<noteq> Some (AfterSuccessAck 0))"

definition payments_ok :: "'b funder_state \<Rightarrow> bool" where
  "payments_ok st = accounts_ok (fs_open_transactions st) (fs_payments st)"

lemma open_count_simps:
  "hm_get m k = None \<Longrightarrow> open_count pid (hm_insert k v m) = open_count pid m + (if ot_payment_id v = pid then 1 else 0)"
  "hm_ok m \<Longrightarrow> hm_get m k = Some v \<Longrightarrow> open_count pid (hm_remove k m) = open_count pid m - (if ot_payment_id v = pid then 1 else 0)"
  "hm_ok m \<Longrightarrow> hm_get m k = Some v \<Longrightarrow> ot_payment_id w = ot_payment_id v \<Longrightarrow> open_count pid (hm_insert k w m) = open_count pid m"
  by (simp_all add: open_count_def hm_total_insert_fresh hm_total_remove hm_total_replace)

lemma promised_simps [simp]:
  "promised (hm_insert pid p m) pid' = (if pid' = pid then payment_count p else promised m pid')"
  "promised (hm_remove pid m) pid' = (if pid' = pid then 0 else promised m pid')"
  by (simp_all add: promised_def hm_simps)

lemma uint_minus_one: "0 < (n :: u64) \<Longrightarrow> uint (n - 1) = uint n - 1"
  by (simp add: uint_sub_if' word_less_def)

lemma checked_sub_one: "u_checked_sub (n :: u64) 1 = Some m \<longleftrightarrow> 0 < n \<and> m = n - 1"
proof (cases "0 < n")
  case True
  then show ?thesis by (auto simp: u_checked_sub_Some word_uint_eq_iff uint_minus_one)
next
  case False
  then have "uint n = 0" by (simp add: word_gt_0)
  then have "uint m \<noteq> uint n - 1" using uint_ge_0 [of m] by linarith
  with False show ?thesis by (simp add: u_checked_sub_Some)
qed

lemma last_one:
  "0 < n \<Longrightarrow> \<not> 0 < n - 1 \<Longrightarrow> n = (1 :: u64)"
  "0 < n \<Longrightarrow> 0 < n - 1 \<Longrightarrow> 1 < n"
  using uint_minus_one [of n] uint_ge_0 [of "n - 1"] by (simp_all add: word_gt_0) (auto simp: word_less_def word_uint_eq_iff)

lemma finishes_count:
  assumes "finishes p q"
  shows "payment_count p = (case q of None \<Rightarrow> 0 | Some p' \<Rightarrow> payment_count p') + 1 \<and> q \<noteq> Some (AfterSuccessAck 0)"
proof -
  have less: "0 < n" if "1 < n" for n :: u64 using that by (simp add: word_less_def)
  show ?thesis using assms by cases (auto simp: uint_minus_one less)
qed

lemma closes_count:
  assumes "closes p q"
  shows "payment_count p = (case q of None \<Rightarrow> 0 | Some p' \<Rightarrow> payment_count p') \<and> q \<noteq> Some (AfterSuccessAck 0)"
  using assms by cases auto

definition store_payment :: "payment_id \<Rightarrow> payment option \<Rightarrow> (payment_id, payment) hmap \<Rightarrow> (payment_id, payment) hmap" where
  "store_payment pid q m = (case q of None \<Rightarrow> hm_remove pid m | Some p \<Rightarrow> hm_insert pid p m)"

lemma mutate_payment: "funder_mutate C ser st (payment_mutation pid q) = Some (st\<lparr> fs_payments := store_payment pid q (fs_payments st) \<rparr>)"
  by (cases q) (simp_all add: store_payment_def)

lemma store_payment_simps:
  "promised (store_payment pid q m) pid' = (if pid' = pid then (case q of None \<Rightarrow> 0 | Some p \<Rightarrow> payment_count p) else promised m pid')"
  "hm_ok m \<Longrightarrow> hm_ok (store_payment pid q m)"
  "hm_get (store_payment pid q m) pid' = (if pid' = pid then q else hm_get m pid')"
  by (auto simp: store_payment_def hm_simps split: option.split)

lemma accounts_finish:
  assumes "accounts_ok ots pays" "hm_get ots rid = Some ot" "hm_get pays (ot_payment_id ot) = Some p" "finishes p q"
  shows "accounts_ok (hm_remove rid ots) (store_payment (ot_payment_id ot) q pays)"
proof -
  have "promised pays (ot_payment_id ot) = payment_count p" using assms(3) by (simp add: promised_def)
  with assms finishes_count [OF assms(4)] show ?thesis
    by (auto simp: accounts_ok_def open_count_simps store_payment_simps)
qed

lemma accounts_close:
  assumes "accounts_ok ots pays" "hm_get pays pid = Some p" "closes p q"
  shows "accounts_ok ots (store_payment pid q pays)"
proof -
  have "promised pays pid = payment_count p" using assms(2) by (simp add: promised_def)
  with assms closes_count [OF assms(3)] show ?thesis
    by (auto simp: accounts_ok_def store_payment_simps)
qed

lemma accounts_start:
  assumes "accounts_ok ots pays" "hm_get ots rid = None" "hm_get pays pid = Some (NewTransactions nt)"
    and "u_checked_add (nt_num_transactions nt) 1 = Some n" "ot_payment_id ot = pid"
  shows "accounts_ok (hm_insert rid ot ots) (hm_insert pid (NewTransactions (nt\<lparr> nt_num_transactions := n \<rparr>)) pays)"
proof -
  have "promised pays pid = uint (nt_num_transactions nt)" using assms(3) by (simp add: promised_def)
  with assms show ?thesis
    by (auto simp: accounts_ok_def open_count_simps u_checked_add_Some hm_simps)
qed

lemma accounts_create:
  assumes "accounts_ok ots pays" "hm_get pays pid = None" "nt_num_transactions nt = 0"
  shows "accounts_ok ots (hm_insert pid (NewTransactions nt) pays)"
proof -
  have "promised pays pid = 0" using assms(2) by (simp add: promised_def)
  with assms show ?thesis by (auto simp: accounts_ok_def hm_simps)
qed

lemma accounts_response:
  assumes "accounts_ok ots pays" "hm_get ots rid = Some ot" "ot_payment_id ot' = ot_payment_id ot"
  shows "accounts_ok (hm_insert rid ot' ots) pays"
  using assms by (auto simp: accounts_ok_def open_count_simps)

lemma friend_mutation_accounts:
  "funder_mutate C ser st (FriendMutation pk fm) = Some st'
     \<Longrightarrow> fs_open_transactions st' = fs_open_transactions st \<and> fs_payments st' = fs_payments st"
  by (auto split: option.splits)

lemma tc_group_accounts:
  "funder_replay C ser st (map (FriendMutation pk) fms) = Some st'
     \<Longrightarrow> fs_open_transactions st' = fs_open_transactions st \<and> fs_payments st' = fs_payments st"
proof (induction fms arbitrary: st)
  case (Cons fm fms)
  then show ?case by (auto dest: friend_mutation_accounts split: option.splits)
qed simp

lemma plain_accounts:
  assumes "plain_mutation m" "funder_mutate C ser st m = Some st'" "payments_ok st"
  shows "payments_ok st'"
proof (cases m)
  case (SetTransactionResponse rs)
  with assms show ?thesis
    by (auto simp: payments_ok_def accounts_response split: option.splits if_splits)
next
  case (FriendMutation pk fm)
  then show ?thesis using assms(2,3) friend_mutation_accounts [of C ser st pk fm st'] by (simp only: payments_ok_def)
qed (use assms in \<open>auto simp: payments_ok_def Let_def split: option.splits\<close>)

lemma payments_ok_atomic:
  assumes ok: "payments_ok st" and at: "atomic E N st gs" and run: "funder_replay (env_crypto E) (env_ser E) st gs = Some st'"
  shows "payments_ok st'"
proof -
  note same = tc_group_accounts [of "env_crypto E" "env_ser E" st _ "map FmTcMutation _" st', unfolded map_map comp_def]
  show ?thesis using at
  proof cases
    case (plain m)
    with ok run show ?thesis by (auto dest: plain_accounts split: option.splits)
  next
    case (receive pk tc mt r)
    with ok run same [of pk "mtd_mutations r"] show ?thesis by (simp add: payments_ok_def)
  next
    case (queue pk tc ti op om ms)
    with ok run same [of pk "map TcMcMutation ms"] show ?thesis by (simp add: payments_ok_def)
  next
    case (create pid nt)
    with ok run show ?thesis by (auto simp: payments_ok_def accounts_create)
  next
    case (start rid pid nt n lock)
    with ok run show ?thesis by (auto simp: payments_ok_def accounts_start)
  next
    case (abort rid ot p q)
    with ok run show ?thesis by (auto simp: payments_ok_def mutate_payment accounts_finish)
  next
    case (collect rid ot p q)
    with ok run show ?thesis by (auto simp: payments_ok_def mutate_payment accounts_finish)
  next
    case (close pid p q)
    with ok run show ?thesis by (auto simp: payments_ok_def mutate_payment accounts_close)
  qed (use ok run in \<open>auto simp: payments_ok_def split: option.splits if_splits\<close>)
qed

section \<open>Handlers\<close>

text \<open>
  A handler moves the state by atomic steps, and records what it did: the new mutations, applied
  to the state before, give the state after, for the funder's state and for its liveness.
\<close>

definition moved :: "'b funder_env \<Rightarrow> nat \<Rightarrow> 'b ctx \<Rightarrow> 'b ctx \<Rightarrow> bool" where
  "moved E N s s' \<longleftrightarrow>
     mf_initial_state (cx_m_state s') = mf_initial_state (cx_m_state s)
     \<and> (\<exists>ms. mf_mutations (cx_m_state s') = mf_mutations (cx_m_state s) @ ms \<and> steps E N (cx_state s) ms (cx_state s'))
     \<and> (\<exists>es. me_mutations (cx_m_ephemeral s') = me_mutations (cx_m_ephemeral s) @ es
         \<and> me_ephemeral (cx_m_ephemeral s') = ephemeral_replay (me_ephemeral (cx_m_ephemeral s)) es)"

lemma moved_trans: "moved E N s t \<Longrightarrow> moved E N t u \<Longrightarrow> moved E N s u"
  unfolding moved_def by (auto simp: ephemeral_replay_def intro: steps_trans)

interpretation moves: context_order "moved E N" for E N
proof
  show "moved E N s s" for s
    by (auto simp: moved_def ephemeral_replay_def intro: no_step)
  show "moved E N s u" if "moved E N s t" "moved E N t u" for s t u
    using that by (rule moved_trans)
qed

lemma moved_group:
  assumes "atomic E N (cx_state s) gs" "funder_replay (env_crypto E) (env_ser E) (cx_state s) gs = Some st"
    and "cx_m_state s' = (cx_m_state s)\<lparr> mf_state := st, mf_mutations := mf_mutations (cx_m_state s) @ gs \<rparr>"
    and "cx_m_ephemeral s' = cx_m_ephemeral s"
  shows "moved E N s s'"
  using assms steps_group [OF assms(1,2)] by (auto simp: moved_def ephemeral_replay_def)

lemma moved_frame:
  assumes "mf_initial_state (cx_m_state s') = mf_initial_state (cx_m_state s)" "cx_state s' = cx_state s"
    and "mf_mutations (cx_m_state s') = mf_mutations (cx_m_state s)" "cx_m_ephemeral s' = cx_m_ephemeral s"
  shows "moved E N s s'"
  using assms by (auto simp: moved_def ephemeral_replay_def intro: no_step)

text \<open>Running the primitive steps of a handler.\<close>

named_theorems run_simps \<open>what the primitive steps of a handler do\<close>

lemma run_return [run_simps]: "act_return x s = Some (r, s') \<longleftrightarrow> r = Inr x \<and> s' = s"
  by (auto simp: act_simps)

lemma run_throw [run_simps]: "act_throw e s = Some (r, s') \<longleftrightarrow> r = Inl e \<and> s' = s"
  by (auto simp: act_simps)

lemma run_panic [run_simps]: "act_panic s \<noteq> Some r"
  by (simp add: act_simps)

lemma run_gets [run_simps]: "act_gets f s = Some (r, s') \<longleftrightarrow> r = Inr (f s) \<and> s' = s"
  by (auto simp: act_simps)

lemma run_modify [run_simps]: "act_modify g s = Some (r, s') \<longleftrightarrow> r = Inr () \<and> s' = g s"
  by (auto simp: act_simps)

lemma run_unwrap [run_simps]: "act_unwrap x s = Some (r, s') \<longleftrightarrow> (\<exists>y. x = Some y \<and> r = Inr y \<and> s' = s)"
  by (cases x) (auto simp: act_simps)

lemma run_ok_or [run_simps]:
  "act_ok_or x e s = Some (r, s') \<longleftrightarrow> s' = s \<and> r = (case x of None \<Rightarrow> Inl e | Some y \<Rightarrow> Inr y)"
  by (cases x) (auto simp: act_simps)

lemma run_when [run_simps]:
  "act_when b m s = Some (r, s') \<longleftrightarrow> (if b then m s = Some (r, s') else r = Inr () \<and> s' = s)"
  by (auto simp: act_simps)

lemmas [run_simps] = bind_run seq_run try_run

lemma run_mutate [run_simps]:
  "mutate E m s = Some (r, s') \<longleftrightarrow>
     (\<exists>st. r = Inr () \<and> funder_mutate (env_crypto E) (env_ser E) (cx_state s) m = Some st
        \<and> s' = s\<lparr> cx_m_state := (cx_m_state s)\<lparr> mf_state := st, mf_mutations := mf_mutations (cx_m_state s) @ [m] \<rparr> \<rparr>)"
  by (auto simp: mutate_def mf_mutate_def split: option.splits)

lemma run_get_state [run_simps]: "get_state s = Some (r, s') \<longleftrightarrow> r = Inr (cx_state s) \<and> s' = s"
  by (auto simp: get_state_def act_simps)

lemma run_get_ephemeral [run_simps]: "get_ephemeral s = Some (r, s') \<longleftrightarrow> r = Inr (me_ephemeral (cx_m_ephemeral s)) \<and> s' = s"
  by (auto simp: get_ephemeral_def act_simps)

lemma run_get_friend [run_simps]:
  "get_friend pk s = Some (r, s') \<longleftrightarrow> (\<exists>fr. hm_get (fs_friends (cx_state s)) pk = Some fr \<and> r = Inr fr \<and> s' = s)"
  by (auto simp: get_friend_def run_simps)

lemma run_get_friend_or [run_simps]:
  "get_friend_or e pk s = Some (r, s') \<longleftrightarrow>
     s' = s \<and> r = (case hm_get (fs_friends (cx_state s)) pk of None \<Rightarrow> Inl e | Some fr \<Rightarrow> Inr fr)"
  by (auto simp: get_friend_or_def run_simps)

lemma run_get_channel [run_simps]:
  "get_channel pk s = Some (r, s') \<longleftrightarrow> (\<exists>tc. channel_of (cx_state s) pk = Some (Consistent tc) \<and> r = Inr tc \<and> s' = s)"
proof (cases "hm_get (fs_friends (cx_state s)) pk")
  case None
  then show ?thesis by (simp add: get_channel_def channel_of_def run_simps)
next
  case (Some fr)
  then show ?thesis
    by (cases "fr_channel_status fr") (auto simp: get_channel_def channel_of_def run_simps)
qed

lemma run_draw [run_simps]:
  "draw E len s = Some (r, s') \<longleftrightarrow> r = Inr (env_rng E (cx_draws s) len) \<and> s' = s\<lparr> cx_draws := Suc (cx_draws s) \<rparr>"
  by (auto simp: draw_def)

named_theorems moved_intros \<open>steps that move the state by atomic steps\<close>

lemma followsI: "(\<And>s r s'. m s = Some (r, s') \<Longrightarrow> R s s') \<Longrightarrow> follows R m"
  by (simp add: follows_def)

lemma moved_reads [moved_intros]:
  "follows (moved E N) get_state"
  "follows (moved E N) get_ephemeral"
  "follows (moved E N) (get_friend pk)"
  "follows (moved E N) (get_friend_or e pk)"
  "follows (moved E N) (get_channel pk)"
  by (rule followsI; auto simp: run_simps moves.refl)+

lemma moved_draw [moved_intros]: "follows (moved E N) (draw E len)"
  by (rule followsI) (auto simp: run_simps intro: moved_frame)

lemma moved_outputs [moved_intros]:
  "follows (moved E N) (command f pk)"
  "follows (moved E N) (push_control c)"
  "follows (moved E N) (push_channeler_config cc)"
  "follows (moved E N) (push_message pk m)"
  "follows (moved E N) (queue_unsigned_response pk pt)"
  by (rule followsI; auto simp: run_simps command_def push_control_def push_channeler_config_def push_message_def
      queue_unsigned_response_def mf_queue_unsigned_response_def intro: moved_frame)+

lemma moved_ephemeral [moved_intros]: "follows (moved E N) (mutate_ephemeral m)"
  by (rule followsI) (auto simp: run_simps mutate_ephemeral_def me_mutate_def moved_def ephemeral_replay_def intro: no_step)

lemma moved_mutate:
  assumes "mutate E m s = Some (r, s')" "atomic E N (cx_state s) [m]"
  shows "moved E N s s'"
proof -
  obtain st where "funder_mutate (env_crypto E) (env_ser E) (cx_state s) m = Some st"
    "s' = s\<lparr> cx_m_state := (cx_m_state s)\<lparr> mf_state := st, mf_mutations := mf_mutations (cx_m_state s) @ [m] \<rparr> \<rparr>"
    using assms(1) by (auto simp: run_simps)
  with assms(2) show ?thesis by (intro moved_group [of E N s "[m]"]) simp_all
qed

lemma moved_plain [moved_intros]: "plain_mutation m \<Longrightarrow> follows (moved E N) (mutate E m)"
  by (rule followsI) (erule moved_mutate, rule atomic.plain)

lemma moved_plain_friend [moved_intros]: "plain_friend_mutation m \<Longrightarrow> follows (moved E N) (mutate_friend E pk m)"
  by (simp add: mutate_friend_def moved_plain)

lemma moved_break [moved_intros]: "follows (moved E N) (mutate_friend E pk (SetInconsistent ci))"
  unfolding mutate_friend_def by (rule followsI) (erule moved_mutate, rule atomic.break_channel)

lemma run_mutations:
  "act_for xs (\<lambda>x. mutate E (g x)) s = Some (r, s') \<longleftrightarrow>
     (\<exists>st. r = Inr () \<and> funder_replay (env_crypto E) (env_ser E) (cx_state s) (map g xs) = Some st
        \<and> s' = s\<lparr> cx_m_state := (cx_m_state s)\<lparr> mf_state := st, mf_mutations := mf_mutations (cx_m_state s) @ map g xs \<rparr> \<rparr>)"
proof (induction xs arbitrary: s)
  case Nil
  then show ?case by (auto simp: run_simps)
next
  case (Cons x xs)
  show ?case
    by (cases "funder_mutate (env_crypto E) (env_ser E) (cx_state s) (g x)") (auto simp: run_simps Cons.IH)
qed

lemma run_tc_group:
  "act_for ms (\<lambda>m. mutate_friend E pk (FmTcMutation m)) s = Some (r, s') \<longleftrightarrow>
     (\<exists>st. r = Inr () \<and> funder_replay (env_crypto E) (env_ser E) (cx_state s) (tc_group pk ms) = Some st
        \<and> s' = s\<lparr> cx_m_state := (cx_m_state s)\<lparr> mf_state := st, mf_mutations := mf_mutations (cx_m_state s) @ tc_group pk ms \<rparr> \<rparr>)"
  unfolding mutate_friend_def by (rule run_mutations)

lemma moved_bind:
  assumes "act_bind m f s = Some (r, s'')" "\<And>r' s'. m s = Some (r', s') \<Longrightarrow> moved E N s s'"
    and "\<And>x s'. m s = Some (Inr x, s') \<Longrightarrow> f x s' = Some (r, s'') \<Longrightarrow> moved E N s' s''"
  shows "moved E N s s''"
  using assms unfolding bind_run by (meson moved_trans)

lemma moved_seq:
  assumes "act_seq m n s = Some (r, s'')" "\<And>r' s'. m s = Some (r', s') \<Longrightarrow> moved E N s s'"
    and "\<And>s'. m s = Some (Inr (), s') \<Longrightarrow> n s' = Some (r, s'') \<Longrightarrow> moved E N s' s''"
  shows "moved E N s s''"
  using assms unfolding seq_run by (meson moved_trans)

lemma moved_reset:
  assumes "mutate_friend E pk (SetConsistent tc) s = Some (r, s')"
    and "channel_of (cx_state s) pk = Some (Inconsistent ci)" "fresh_channel (fs_local_public_key (cx_state s)) pk tc"
  shows "moved E N s s'"
  using assms(1) unfolding mutate_friend_def by (rule moved_mutate) (rule atomic.reset_channel [OF assms(2,3)])

lemma checked_neg_not_min:
  "i_checked_neg (b :: i128) = Some nb \<Longrightarrow> sint b \<noteq> - (2 ^ 127) \<and> sint nb = - sint b \<and> sint nb \<noteq> - (2 ^ 127)"
  using i128_range [of b] by (auto simp: i_checked_neg_def i128_fits sint_neg_fits split: if_splits)

lemma plain_run_channels: "plain_friend_mutation fm \<Longrightarrow> mutate_friend E pk fm s = Some (r, s') \<Longrightarrow> channel_of (cx_state s') = channel_of (cx_state s)"
  using plain_channels [of "FriendMutation pk fm" "env_crypto E" "env_ser E" "cx_state s" "cx_state s'"]
  by (auto simp: mutate_friend_def run_mutate simp del: funder_mutate.simps)

section \<open>Friends stay known\<close>

definition friends_stay :: "'b ctx \<Rightarrow> 'b ctx \<Rightarrow> bool" where
  "friends_stay s s' \<longleftrightarrow> (\<forall>pk. hm_contains (fs_friends (cx_state s)) pk \<longrightarrow> hm_contains (fs_friends (cx_state s')) pk)"

interpretation stay: context_order friends_stay
  by unfold_locales (auto simp: friends_stay_def)

named_theorems stay_intros \<open>steps that forget no friend\<close>

lemma funder_mutate_stay:
  "funder_mutate C ser st m = Some st' \<Longrightarrow> (\<And>pk. m \<noteq> RemoveFriend pk) \<Longrightarrow> hm_contains (fs_friends st) pk
     \<Longrightarrow> hm_contains (fs_friends st') pk"
  by (cases m) (auto simp: hm_contains_def hm_simps Let_def split: option.splits if_splits)

lemma stay_mutate [stay_intros]: "(\<And>pk. m \<noteq> RemoveFriend pk) \<Longrightarrow> follows friends_stay (mutate E m)"
proof (rule followsI)
  fix s r s'
  assume other: "\<And>pk. m \<noteq> RemoveFriend pk" and "mutate E m s = Some (r, s')"
  then obtain st where st: "funder_mutate (env_crypto E) (env_ser E) (cx_state s) m = Some st" "cx_state s' = st"
    by (auto simp: run_mutate)
  show "friends_stay s s'" using funder_mutate_stay [OF st(1) other] st(2) by (simp add: friends_stay_def)
qed

lemma stay_mutate_friend [stay_intros]: "follows friends_stay (mutate_friend E pk m)"
  by (simp add: mutate_friend_def stay_mutate)

lemma stay_payment [stay_intros]: "follows friends_stay (mutate E (payment_mutation pid q))"
  by (cases q) (auto intro: stay_mutate)

lemma stay_primitives [stay_intros]:
  "follows friends_stay get_state"
  "follows friends_stay (get_friend pk)"
  "follows friends_stay (get_channel pk)"
  "follows friends_stay (draw E len)"
  "follows friends_stay (command f pk)"
  "follows friends_stay (push_control c)"
  "follows friends_stay (push_channeler_config cc)"
  by (rule followsI; auto simp: friends_stay_def run_simps command_def push_control_def push_channeler_config_def)+

end
