(* ===== verification/Canceler.thy ===== *)
theory Canceler
  imports FunderSteps
begin

text \<open>
  Cancelling requests: replies to the friend a request came from, and the removal of
  transactions this node started. From \<open>components/funder/src/handler/canceler.rs\<close>.
\<close>

section \<open>Definitions\<close>

definition reply_with_cancel :: "'b funder_env \<Rightarrow> public_key \<Rightarrow> uid \<Rightarrow> ('b, 'e, unit) handler" where
  "reply_with_cancel E remote_public_key request_id =
     act_seq (mutate_friend E remote_public_key
        (PushBackPendingBackwardsOp (BackCancel (create_cancel_send_funds request_id))))
      (command set_try_send remote_public_key)"

text \<open>
  The payment after one of its transactions is removed: \<open>None\<close> inside where the payment is
  removed. The identifier a canceled payment is acknowledged with is drawn at random.
\<close>

definition payment_after_removal :: "'b funder_env \<Rightarrow> payment \<Rightarrow> ('b, 'e, payment option) handler" where
  "payment_after_removal E payment =
     (case payment of
        NewTransactions nt \<Rightarrow>
          act_bind (act_unwrap (u_checked_sub (nt_num_transactions nt) 1)) (\<lambda>n.
          act_return (Some (NewTransactions (nt\<lparr> nt_num_transactions := n \<rparr>))))
      | InProgress num_transactions \<Rightarrow>
          act_bind (act_unwrap (u_checked_sub num_transactions 1)) (\<lambda>n.
          if 0 < n then act_return (Some (InProgress n))
          else act_bind (draw E UID_LEN) (\<lambda>ack_uid. act_return (Some (PayCanceled ack_uid))))
      | PaySuccess num_transactions receipt ack_uid \<Rightarrow>
          act_bind (act_unwrap (u_checked_sub num_transactions 1)) (\<lambda>n.
          act_return (Some (PaySuccess n receipt ack_uid)))
      | PayCanceled _ \<Rightarrow> act_panic
      | AfterSuccessAck num_transactions \<Rightarrow>
          act_bind (act_unwrap (u_checked_sub num_transactions 1)) (\<lambda>n.
          if 0 < n then act_return (Some (AfterSuccessAck n)) else act_return None))"

definition remove_transaction :: "'b funder_env \<Rightarrow> uid \<Rightarrow> ('b, 'e, unit) handler" where
  "remove_transaction E request_id =
     act_bind get_state (\<lambda>st.
     act_bind (act_unwrap (hm_get (fs_open_transactions st) request_id)) (\<lambda>open_transaction.
     act_bind (act_unwrap (hm_get (fs_payments st) (ot_payment_id open_transaction))) (\<lambda>payment.
     act_seq (mutate E (RemoveTransaction request_id))
     (act_bind (payment_after_removal E payment) (\<lambda>opt_new_payment.
      mutate E (payment_mutation (ot_payment_id open_transaction) opt_new_payment))))))"

text \<open>
  A request that cannot go on: a cancel to the friend it came from, or, where this node
  started it, a failure to the application and the removal of the transaction.
\<close>

definition cancel_request :: "'b funder_env \<Rightarrow> uid \<Rightarrow> ('b, 'e, unit) handler" where
  "cancel_request E request_id =
     act_bind get_state (\<lambda>st.
     case find_request_origin st request_id of
       Some origin_public_key \<Rightarrow>
         act_seq (mutate_friend E origin_public_key
            (PushBackPendingBackwardsOp (BackCancel (create_cancel_send_funds request_id))))
          (command set_try_send origin_public_key)
     | None \<Rightarrow>
         act_seq (push_control (FoTransactionResult \<lparr> tr_request_id = request_id, tr_result = RrFailure \<rparr>))
          (remove_transaction E request_id))"

text \<open>
  In \<open>cancel_local_pending_transactions\<close> the origin is looked up under the key of the map
  entry, the cancel names the identifier stored in the entry.
\<close>

definition cancel_local_pending_transaction :: "'b funder_env \<Rightarrow> uid \<times> pending_transaction \<Rightarrow> ('b, 'e, unit) handler" where
  "cancel_local_pending_transaction E = (\<lambda>(local_request_id, pending_local_transaction).
     act_bind get_state (\<lambda>st.
     case find_request_origin st local_request_id of
       Some origin_public_key \<Rightarrow>
         act_seq (mutate_friend E origin_public_key
            (PushBackPendingBackwardsOp (BackCancel (create_cancel_send_funds (pt_request_id pending_local_transaction)))))
          (command set_try_send origin_public_key)
     | None \<Rightarrow>
         act_seq (push_control (FoTransactionResult
            \<lparr> tr_request_id = pt_request_id pending_local_transaction, tr_result = RrFailure \<rparr>))
          (remove_transaction E (pt_request_id pending_local_transaction))))"

definition cancel_local_pending_transactions :: "'b funder_env \<Rightarrow> public_key \<Rightarrow> ('b, 'e, unit) handler" where
  "cancel_local_pending_transactions E friend_public_key =
     act_bind (get_channel friend_public_key) (\<lambda>token_channel.
     act_for (mp_local (st_pending (get_mutual_credit token_channel))) (cancel_local_pending_transaction E))"

definition cancel_pending_requests :: "'b funder_env \<Rightarrow> public_key \<Rightarrow> ('b, 'e, unit) handler" where
  "cancel_pending_requests E friend_public_key =
     act_bind (get_friend friend_public_key) (\<lambda>friend.
     act_for (fr_pending_requests friend) (\<lambda>pending_request.
       act_seq (mutate_friend E friend_public_key PopFrontPendingRequest)
         (cancel_request E (rq_request_id pending_request))))"

definition cancel_pending_user_requests :: "'b funder_env \<Rightarrow> public_key \<Rightarrow> ('b, 'e, unit) handler" where
  "cancel_pending_user_requests E friend_public_key =
     act_bind (get_friend friend_public_key) (\<lambda>friend.
     act_for (fr_pending_user_requests friend) (\<lambda>pending_user_request.
       act_seq (mutate_friend E friend_public_key PopFrontPendingUserRequest)
       (act_seq (push_control (FoTransactionResult
          \<lparr> tr_request_id = rq_request_id pending_user_request, tr_result = RrFailure \<rparr>))
         (remove_transaction E (rq_request_id pending_user_request)))))"

section \<open>Effects\<close>

lemma payment_after_removal_run:
  assumes "payment_after_removal E p s = Some (r, s')"
  shows "\<exists>q. r = Inr q \<and> finishes p q \<and> cx_m_state s' = cx_m_state s \<and> cx_m_ephemeral s' = cx_m_ephemeral s"
proof (cases p)
  case (InProgress n)
  with assms show ?thesis
    by (auto simp: payment_after_removal_def run_simps checked_sub_one split: if_splits intro: finishes.intros dest: last_one)
next
  case (AfterSuccessAck n)
  with assms show ?thesis
    by (auto simp: payment_after_removal_def run_simps checked_sub_one split: if_splits intro: finishes.intros dest: last_one)
qed (use assms in \<open>auto simp: payment_after_removal_def run_simps checked_sub_one intro: finishes.intros\<close>)

text \<open>
  Removing a transaction: it must be open and its payment known, it is no longer open
  afterwards, and its payment waits for one transaction less.
\<close>

lemma remove_transaction_run:
  fixes r :: "'e + unit"
  assumes "remove_transaction E rid s = Some (r, s')"
  obtains ot p q where "hm_get (fs_open_transactions (cx_state s)) rid = Some ot"
    and "hm_get (fs_payments (cx_state s)) (ot_payment_id ot) = Some p" and "finishes p q"
    and "cx_m_state s' = (cx_m_state s)\<lparr> mf_state := (cx_state s)\<lparr> fs_open_transactions := hm_remove rid (fs_open_transactions (cx_state s)),
        fs_payments := store_payment (ot_payment_id ot) q (fs_payments (cx_state s)) \<rparr>,
      mf_mutations := mf_mutations (cx_m_state s) @ [RemoveTransaction rid, payment_mutation (ot_payment_id ot) q] \<rparr>"
    and "cx_m_ephemeral s' = cx_m_ephemeral s"
proof -
  define after where "after = s\<lparr> cx_m_state := (cx_m_state s)\<lparr> mf_state := (cx_state s)\<lparr> fs_open_transactions :=
      hm_remove rid (fs_open_transactions (cx_state s)) \<rparr>, mf_mutations := mf_mutations (cx_m_state s) @ [RemoveTransaction rid] \<rparr> \<rparr>"
  from assms obtain ot p where ot: "hm_get (fs_open_transactions (cx_state s)) rid = Some ot"
    "hm_get (fs_payments (cx_state s)) (ot_payment_id ot) = Some p"
    by (auto simp: remove_transaction_def run_simps)
  have "act_bind (payment_after_removal E p) (\<lambda>q. mutate E (payment_mutation (ot_payment_id ot) q)) after = Some (r, s')"
    using assms by (simp add: remove_transaction_def get_state_def act_defs mutate_def mf_mutate_def ot after_def)
  then obtain q s2 where q: "payment_after_removal E p after = Some (Inr q :: 'e + payment option, s2)"
    "mutate E (payment_mutation (ot_payment_id ot) q) s2 = Some (r, s')"
    unfolding bind_run using payment_after_removal_run by fastforce
  from payment_after_removal_run [OF q(1)] have "finishes p q" "cx_m_state s2 = cx_m_state after" "cx_m_ephemeral s2 = cx_m_ephemeral after"
    by auto
  with q(2) ot show thesis by (intro that [of ot p q]) (auto simp: run_simps mutate_payment after_def)
qed

lemma moved_remove_transaction [moved_intros]: "follows (moved E N) (remove_transaction E rid)"
proof (rule followsI, erule remove_transaction_run)
  fix s s' :: "'a ctx" and ot p q
  assume "hm_get (fs_open_transactions (cx_state s)) rid = Some ot" "hm_get (fs_payments (cx_state s)) (ot_payment_id ot) = Some p"
    "finishes p q"
  then have "atomic E N (cx_state s) [RemoveTransaction rid, payment_mutation (ot_payment_id ot) q]" by (rule atomic.abort)
  moreover assume "cx_m_state s' = (cx_m_state s)\<lparr> mf_state := (cx_state s)\<lparr> fs_open_transactions := hm_remove rid (fs_open_transactions (cx_state s)),
        fs_payments := store_payment (ot_payment_id ot) q (fs_payments (cx_state s)) \<rparr>,
      mf_mutations := mf_mutations (cx_m_state s) @ [RemoveTransaction rid, payment_mutation (ot_payment_id ot) q] \<rparr>"
    "cx_m_ephemeral s' = cx_m_ephemeral s"
  ultimately show "moved E N s s'" by (intro moved_group) (simp_all add: mutate_payment)
qed

lemma moved_cancels [moved_intros]:
  "follows (moved E N) (reply_with_cancel E pk rid)"
  "follows (moved E N) (cancel_request E rid)"
  "follows (moved E N) (cancel_local_pending_transaction E x)"
  by (auto simp: reply_with_cancel_def cancel_request_def cancel_local_pending_transaction_def split: option.split prod.split
      intro!: moves.rules moved_intros)

lemma moved_cancel_queues [moved_intros]:
  "follows (moved E N) (cancel_local_pending_transactions E pk)"
  "follows (moved E N) (cancel_pending_requests E pk)"
  "follows (moved E N) (cancel_pending_user_requests E pk)"
  by (auto simp: cancel_local_pending_transactions_def cancel_pending_requests_def cancel_pending_user_requests_def
      intro!: moves.rules moved_intros)

lemma stay_cancels [stay_intros]:
  "follows friends_stay (payment_after_removal E p)"
  "follows friends_stay (remove_transaction E rid)"
  "follows friends_stay (cancel_request E rid)"
  "follows friends_stay (cancel_local_pending_transaction E x)"
  by (auto simp: payment_after_removal_def remove_transaction_def cancel_request_def cancel_local_pending_transaction_def
      split: payment.split option.split prod.split intro!: stay.rules stay_intros)

lemma stay_cancel_queues [stay_intros]:
  "follows friends_stay (cancel_local_pending_transactions E pk)"
  "follows friends_stay (cancel_pending_requests E pk)"
  "follows friends_stay (cancel_pending_user_requests E pk)"
  by (auto simp: cancel_local_pending_transactions_def cancel_pending_requests_def cancel_pending_user_requests_def
      intro!: stay.rules stay_intros)

end
