(* ===== verification/Sender.thy ===== *)
theory Sender
  imports Canceler
begin

text \<open>
  Sending what can be sent: filling the batch of a friend whose token this node holds, signing
  and sending the token, retransmission, and the local side of a channel reset. From
  \<open>components/funder/src/handler/sender.rs\<close>.
\<close>

section \<open>Queueing into a batch\<close>

datatype pending_queue_error = PqInsufficientTrust | PqMaxOperationsReached
datatype collect_outgoing_error = CoMaxOperationsReached

text \<open>The pending move token of a friend lives in the map of the context.\<close>

definition get_pending :: "public_key \<Rightarrow> ('b, 'e, 'b pending_move_token) handler" where
  "get_pending pk = act_bind (act_gets cx_pending_move_tokens) (\<lambda>m. act_unwrap (hm_get m pk))"

definition put_pending :: "public_key \<Rightarrow> 'b pending_move_token \<Rightarrow> ('b, 'e, unit) handler" where
  "put_pending pk p = act_modify (\<lambda>s. s\<lparr> cx_pending_move_tokens := hm_insert pk p (cx_pending_move_tokens s) \<rparr>)"

definition take_pending :: "public_key \<Rightarrow> ('b, 'e, 'b pending_move_token) handler" where
  "take_pending pk =
     act_bind (get_pending pk) (\<lambda>p.
     act_seq (act_modify (\<lambda>s. s\<lparr> cx_pending_move_tokens := hm_remove pk (cx_pending_move_tokens s) \<rparr>)) (act_return p))"

definition pm_queue_operation ::
  "'b funder_env \<Rightarrow> public_key \<Rightarrow> friend_tc_op \<Rightarrow> ('b, pending_queue_error, unit) handler" where
  "pm_queue_operation E pk operation =
     act_bind (get_pending pk) (\<lambda>p.
     if pm_max_operations_in_batch p \<le> length (pm_operations p) then act_throw PqMaxOperationsReached
     else
       act_bind
         (case queue_operation (env_crypto E) (pm_outgoing_mc p) operation of
            Ok (om, mc_mutations) \<Rightarrow> act_return (om, mc_mutations)
          | Err QRequestAlreadyExists \<Rightarrow> act_return (pm_outgoing_mc p, [])
          | Err QInsufficientTrust \<Rightarrow> act_throw PqInsufficientTrust
          | Err _ \<Rightarrow> act_panic
          | Panic \<Rightarrow> act_panic) (\<lambda>(om, mc_mutations).
       act_seq (put_pending pk (p\<lparr> pm_outgoing_mc := om, pm_operations := pm_operations p @ [operation] \<rparr>))
         (act_for mc_mutations (\<lambda>mc_mutation.
            mutate_friend E (pm_friend_public_key p) (FmTcMutation (TcMcMutation mc_mutation))))))"

text \<open>
  Below the limit of the batch, the handler pushes what \<open>push_operation\<close> says: the batch of the
  protocol in \<open>ChannelProtocol\<close> is the one that is filled here.
\<close>

lemma pm_queue_operation_pushes:
  assumes "hm_get (cx_pending_move_tokens s) pk = Some p" "length (pm_operations p) < pm_max_operations_in_batch p"
  shows "pm_queue_operation E pk operation s =
     (case push_operation (env_crypto E) (pm_outgoing_mc p) operation of
        None \<Rightarrow> None
      | Some (om, ms, []) \<Rightarrow> Some (Inl PqInsufficientTrust, s)
      | Some (om, ms, pushed) \<Rightarrow>
          act_seq (put_pending pk (p\<lparr> pm_outgoing_mc := om, pm_operations := pm_operations p @ pushed \<rparr>))
            (act_for ms (\<lambda>m. mutate_friend E (pm_friend_public_key p) (FmTcMutation (TcMcMutation m)))) s)"
  using assms
  by (auto simp: pm_queue_operation_def push_operation_def get_pending_def act_simps
      split: res.splits queue_operation_error.splits)

definition queue_operation_or_cancel ::
  "'b funder_env \<Rightarrow> public_key \<Rightarrow> friend_tc_op \<Rightarrow> ('b, collect_outgoing_error, unit) handler" where
  "queue_operation_or_cancel E pk operation =
     act_bind (act_try (pm_queue_operation E pk operation)) (\<lambda>r.
     case r of
       Inr _ \<Rightarrow> act_return ()
     | Inl PqMaxOperationsReached \<Rightarrow>
         act_bind (get_pending pk) (\<lambda>p.
         act_seq (put_pending pk (p\<lparr> pm_token_wanted := True \<rparr>)) (act_throw CoMaxOperationsReached))
     | Inl PqInsufficientTrust \<Rightarrow>
         (case operation of
            RequestSendFunds request_send_funds \<Rightarrow>
              act_bind get_state (\<lambda>st.
              case find_request_origin st (rq_request_id request_send_funds) of
                Some origin_public_key \<Rightarrow>
                  act_seq (mutate_friend E origin_public_key (PushBackPendingBackwardsOp
                     (BackCancel (create_cancel_send_funds (pt_request_id (create_pending_transaction request_send_funds))))))
                   (act_modify (\<lambda>s. s\<lparr> cx_cancel_public_keys := List.insert origin_public_key (cx_cancel_public_keys s) \<rparr>))
              | None \<Rightarrow>
                  push_control (FoTransactionResult
                    \<lparr> tr_request_id = rq_request_id request_send_funds, tr_result = RrFailure \<rparr>))
          | _ \<Rightarrow> act_panic))"

fun backwards_op_to_friend_tc_op :: "backwards_op \<Rightarrow> friend_tc_op" where
  "backwards_op_to_friend_tc_op (BackResponse response_send_funds) = ResponseSendFunds response_send_funds"
| "backwards_op_to_friend_tc_op (BackCancel cancel_send_funds) = CancelSendFunds cancel_send_funds"
| "backwards_op_to_friend_tc_op (BackCollect collect_send_funds) = CollectSendFunds collect_send_funds"

section \<open>Collecting a batch\<close>

text \<open>The announcement of changed relays, with the notification of the channeler.\<close>

definition collect_local_relays :: "'b funder_env \<Rightarrow> public_key \<Rightarrow> ('b, 'e, unit) handler" where
  "collect_local_relays E pk =
     act_bind (get_friend pk) (\<lambda>friend.
     act_bind get_state (\<lambda>st.
     act_bind (get_pending pk) (\<lambda>p.
     let local_named_relays = fs_relays st;
         local_relays = map relay_of_named local_named_relays;
         opt_new_sent_local_relays =
           (case fr_sent_local_relays friend of
              NeverSent \<Rightarrow> Some (LastSent local_named_relays)
            | Transition last_sent_local_relays _ \<Rightarrow>
                if local_named_relays \<noteq> last_sent_local_relays
                then Some (Transition local_named_relays last_sent_local_relays) else None
            | LastSent last_sent_local_relays \<Rightarrow>
                if local_named_relays \<noteq> last_sent_local_relays
                then Some (Transition local_named_relays last_sent_local_relays) else None)
     in case opt_new_sent_local_relays of
          None \<Rightarrow> act_return ()
        | Some new_sent_local_relays \<Rightarrow>
            act_seq (put_pending pk (pm_set_local_relays local_relays p))
            (act_seq (mutate_friend E pk (SetSentLocalRelays new_sent_local_relays))
            (act_bind (get_friend pk) (\<lambda>friend.
             push_channeler_config (CcUpdateFriend
               \<lparr> cuf_friend_public_key = pk, cuf_friend_relays = fr_remote_relays friend,
                 cuf_local_relays = sent_local_relays_to_vec (fr_sent_local_relays friend) \<rparr>)))))))"

definition collect_remote_max_debt :: "'b funder_env \<Rightarrow> public_key \<Rightarrow> ('b, collect_outgoing_error, unit) handler" where
  "collect_remote_max_debt E pk =
     act_bind (get_friend pk) (\<lambda>friend.
     act_bind (get_channel pk) (\<lambda>token_channel.
     act_when (fr_wanted_remote_max_debt friend \<noteq> get_remote_max_debt token_channel)
       (queue_operation_or_cancel E pk (SetRemoteMaxDebt (fr_wanted_remote_max_debt friend)))))"

definition collect_requests_status :: "'b funder_env \<Rightarrow> public_key \<Rightarrow> ('b, collect_outgoing_error, unit) handler" where
  "collect_requests_status E pk =
     act_bind (get_friend pk) (\<lambda>friend.
     act_bind (get_channel pk) (\<lambda>token_channel.
     let local_requests_status = mr_local (st_requests_status (get_mutual_credit token_channel)) in
     act_when (fr_wanted_local_requests_status friend \<noteq> local_requests_status)
       (queue_operation_or_cancel E pk
         (case fr_wanted_local_requests_status friend of Open \<Rightarrow> EnableRequests | Closed \<Rightarrow> DisableRequests))))"

definition collect_backwards_ops :: "'b funder_env \<Rightarrow> public_key \<Rightarrow> ('b, collect_outgoing_error, unit) handler" where
  "collect_backwards_ops E pk =
     act_bind (get_friend pk) (\<lambda>friend.
     act_for (fr_pending_backwards_ops friend) (\<lambda>pending_backwards_op.
       act_seq (queue_operation_or_cancel E pk (backwards_op_to_friend_tc_op pending_backwards_op))
         (mutate_friend E pk PopFrontPendingBackwardsOp)))"

definition collect_pending_requests :: "'b funder_env \<Rightarrow> public_key \<Rightarrow> ('b, collect_outgoing_error, unit) handler" where
  "collect_pending_requests E pk =
     act_bind (get_friend pk) (\<lambda>friend.
     act_for (fr_pending_requests friend) (\<lambda>pending_request.
       act_seq (queue_operation_or_cancel E pk (RequestSendFunds pending_request))
         (mutate_friend E pk PopFrontPendingRequest)))"

definition collect_pending_user_requests :: "'b funder_env \<Rightarrow> public_key \<Rightarrow> ('b, collect_outgoing_error, unit) handler" where
  "collect_pending_user_requests E pk =
     act_bind (get_friend pk) (\<lambda>friend.
     act_for (fr_pending_user_requests friend) (\<lambda>request_send_funds.
       act_seq (queue_operation_or_cancel E pk (RequestSendFunds request_send_funds))
         (mutate_friend E pk PopFrontPendingUserRequest)))"

definition collect_outgoing_move_token :: "'b funder_env \<Rightarrow> public_key \<Rightarrow> ('b, collect_outgoing_error, unit) handler" where
  "collect_outgoing_move_token E pk =
     act_seq (collect_local_relays E pk)
     (act_seq (collect_remote_max_debt E pk)
     (act_seq (collect_requests_status E pk)
     (act_seq (collect_backwards_ops E pk)
     (act_seq (collect_pending_requests E pk)
      (collect_pending_user_requests E pk)))))"

text \<open>
  The cancels queued by other friends' batches. The keys and the control messages the code
  collects here are dropped, as the vectors it passes are local to the call.
\<close>

definition append_cancels_to_move_token :: "'b funder_env \<Rightarrow> public_key \<Rightarrow> ('b, collect_outgoing_error, unit) handler" where
  "append_cancels_to_move_token E pk =
     act_bind (get_friend pk) (\<lambda>friend.
     act_for (fr_pending_backwards_ops friend) (\<lambda>pending_backwards_op.
       act_bind (act_gets (\<lambda>s. (cx_cancel_public_keys s, cx_outgoing_control s))) (\<lambda>(cancel_public_keys, outgoing_control).
       act_seq (act_modify (\<lambda>s. s\<lparr> cx_cancel_public_keys := [], cx_outgoing_control := [] \<rparr>))
       (act_bind (act_try (queue_operation_or_cancel E pk (backwards_op_to_friend_tc_op pending_backwards_op))) (\<lambda>r.
        act_seq (act_modify (\<lambda>s. s\<lparr> cx_cancel_public_keys := cancel_public_keys, cx_outgoing_control := outgoing_control \<rparr>))
        (case r of
           Inl e \<Rightarrow> act_throw e
         | Inr _ \<Rightarrow> mutate_friend E pk PopFrontPendingBackwardsOp))))))"

section \<open>Sending\<close>

definition transmit_outgoing :: "public_key \<Rightarrow> bool \<Rightarrow> ('b, 'e, unit) handler" where
  "transmit_outgoing pk token_wanted =
     act_bind (get_channel pk) (\<lambda>token_channel.
     case tc_direction token_channel of
       TcIncoming _ \<Rightarrow> act_panic
     | TcOutgoing tc_outgoing \<Rightarrow>
         push_message pk (FmMoveTokenRequest
           \<lparr> mtr_friend_move_token = create_outgoing_move_token tc_outgoing, mtr_token_wanted = token_wanted \<rparr>))"

definition apply_local_reset :: "'b funder_env \<Rightarrow> public_key \<Rightarrow> channel_inconsistent \<Rightarrow> ('b, 'e, unit) handler" where
  "apply_local_reset E friend_public_key channel_inconsistent =
     act_bind (act_unwrap (ci_opt_remote_reset_terms channel_inconsistent)) (\<lambda>remote_reset_terms.
     act_bind (draw E RAND_VALUE_LEN) (\<lambda>rand_nonce.
     act_bind (act_unwrap (i_checked_neg (rt_balance_for_reset remote_reset_terms))) (\<lambda>bal.
     act_bind get_state (\<lambda>st.
     let u_reset_move_token = create_unsigned_move_token [] None (rt_reset_token remote_reset_terms)
           (fs_local_public_key st) friend_public_key (rt_inconsistency_counter remote_reset_terms) 0 bal 0 0 rand_nonce;
         reset_move_token = sign_move_token (env_crypto E) (env_ser E) (env_sign E) u_reset_move_token;
         token_channel = new_from_local_reset (fs_local_public_key st) friend_public_key reset_move_token bal
           (ci_opt_last_incoming_move_token channel_inconsistent)
     in mutate_friend E friend_public_key (SetConsistent token_channel)))))"

text \<open>Whether anything waits for the token of a friend; \<open>None\<close> is the panic on an unknown friend.\<close>

definition estimate_should_send :: "'b funder_state \<Rightarrow> public_key \<Rightarrow> bool option" where
  "estimate_should_send st pk =
     (case hm_get (fs_friends st) pk of
        None \<Rightarrow> None
      | Some friend \<Rightarrow> Some
          ((case fr_sent_local_relays friend of
              NeverSent \<Rightarrow> True
            | Transition relays _ \<Rightarrow> relays \<noteq> fs_relays st
            | LastSent relays \<Rightarrow> relays \<noteq> fs_relays st)
           \<or> (case fr_channel_status friend of
                Consistent token_channel \<Rightarrow>
                  fr_wanted_remote_max_debt friend \<noteq> get_remote_max_debt token_channel
                  \<or> fr_wanted_local_requests_status friend \<noteq> mr_local (st_requests_status (get_mutual_credit token_channel))
              | Inconsistent _ \<Rightarrow> False)
           \<or> fr_pending_backwards_ops friend \<noteq> []
           \<or> fr_pending_requests friend \<noteq> []
           \<or> fr_pending_user_requests friend \<noteq> []))"

text \<open>The two parts of the first iteration: the reset the user asked for, and what the channel's state allows to send.\<close>

definition iter1_local_reset :: "'b funder_env \<Rightarrow> public_key \<Rightarrow> friend_send_commands \<Rightarrow> 'b friend_state \<Rightarrow> ('b, 'e, unit) handler" where
  "iter1_local_reset E pk commands friend =
     (if fc_local_reset commands
      then (case fr_channel_status friend of
              Inconsistent channel_inconsistent \<Rightarrow> apply_local_reset E pk channel_inconsistent
            | Consistent _ \<Rightarrow> act_return ())
      else act_return ())"

definition iter1_transmit ::
  "'b funder_env \<Rightarrow> nat \<Rightarrow> public_key \<Rightarrow> friend_send_commands \<Rightarrow> 'b friend_state \<Rightarrow> ('b, 'e, unit) handler" where
  "iter1_transmit E max_operations_in_batch pk commands friend =
     (case fr_channel_status friend of
        Inconsistent channel_inconsistent \<Rightarrow>
          act_when (fc_resend_outgoing commands \<or> fc_try_send commands)
            (push_message pk (FmInconsistencyError (ci_local_reset_terms channel_inconsistent)))
      | Consistent token_channel \<Rightarrow>
          (case tc_direction token_channel of
             TcOutgoing tc_outgoing \<Rightarrow>
               act_bind get_state (\<lambda>st.
               act_bind (act_unwrap (estimate_should_send st pk)) (\<lambda>should_send.
               if should_send then transmit_outgoing pk True
               else if fc_resend_outgoing commands
               then transmit_outgoing pk (mt_opt_local_relays (to_move_token_out tc_outgoing) \<noteq> None)
               else act_return ()))
           | TcIncoming tc_incoming \<Rightarrow>
               act_seq (put_pending pk (pending_move_token_new pk (begin_outgoing_move_token tc_incoming)
                  max_operations_in_batch (fc_resend_outgoing commands \<or> fc_remote_wants_token commands)))
               (act_bind (act_try (collect_outgoing_move_token E pk)) (\<lambda>_. act_return ()))))"

definition send_friend_iter1 ::
  "'b funder_env \<Rightarrow> nat \<Rightarrow> public_key \<Rightarrow> friend_send_commands \<Rightarrow> ('b, 'e, unit) handler" where
  "send_friend_iter1 E max_operations_in_batch pk commands =
     (if \<not> fc_try_send commands \<and> \<not> fc_resend_outgoing commands \<and> \<not> fc_remote_wants_token commands
         \<and> \<not> fc_local_reset commands then act_return ()
      else
        act_seq (act_bind (get_friend pk) (iter1_local_reset E pk commands))
          (act_bind (get_friend pk) (iter1_transmit E max_operations_in_batch pk commands)))"

definition send_move_token :: "'b funder_env \<Rightarrow> public_key \<Rightarrow> 'b pending_move_token \<Rightarrow> ('b, 'e, unit) handler" where
  "send_move_token E pk p =
     (if pm_operations p = [] \<and> pm_opt_local_relays p = None \<and> \<not> pm_may_send_empty p then act_return ()
      else
        (let token_wanted = (pm_token_wanted p \<or> pm_opt_local_relays p \<noteq> None) in
         act_bind (get_friend pk) (\<lambda>_.
         act_bind (draw E RAND_VALUE_LEN) (\<lambda>rand_nonce.
         act_bind (get_channel pk) (\<lambda>token_channel.
         case tc_direction token_channel of
           TcOutgoing _ \<Rightarrow> act_panic
         | TcIncoming tc_incoming \<Rightarrow>
             (let u_move_token = ti_create_unsigned_move_token tc_incoming (pm_operations p) (pm_opt_local_relays p) rand_nonce;
                  move_token = sign_move_token (env_crypto E) (env_ser E) (env_sign E) u_move_token
              in act_seq (mutate_friend E pk (FmTcMutation (TcSetDirection (SdOutgoing move_token))))
                (transmit_outgoing pk token_wanted)))))))"

definition init_cancel_pending_move_token ::
  "ephemeral \<Rightarrow> nat \<Rightarrow> public_key list \<Rightarrow> ('b, 'e, unit) handler" where
  "init_cancel_pending_move_token e max_operations_in_batch keys =
     act_bind (act_gets cx_pending_move_tokens) (\<lambda>pending_move_tokens.
     act_for keys (\<lambda>pk.
       if \<not> is_online (ep_liveness e) pk \<or> hm_contains pending_move_tokens pk then act_return ()
       else
         act_bind (get_channel pk) (\<lambda>token_channel.
         case tc_direction token_channel of
           TcOutgoing _ \<Rightarrow> act_return ()
         | TcIncoming tc_incoming \<Rightarrow>
             put_pending pk (pending_move_token_new pk (begin_outgoing_move_token tc_incoming) max_operations_in_batch False))))"

text \<open>
  The loops over hash maps and sets go through their keys in the order the environment gives.
\<close>

definition send_batches :: "'b funder_env \<Rightarrow> nat \<Rightarrow> send_commands \<Rightarrow> ephemeral \<Rightarrow> ('b, 'e, unit) handler" where
  "send_batches E max_operations_in_batch commands e =
     act_seq (act_for (env_order E (map fst (sc_send_commands commands))) (\<lambda>pk.
        if \<not> is_online (ep_liveness e) pk then act_return ()
        else act_bind (act_unwrap (hm_get (sc_send_commands commands) pk))
               (send_friend_iter1 E max_operations_in_batch pk)))
     (act_bind (act_gets cx_cancel_public_keys) (\<lambda>cancel_public_keys.
      act_seq (init_cancel_pending_move_token e max_operations_in_batch (env_order E cancel_public_keys))
      (act_bind (act_gets (\<lambda>s. map fst (cx_pending_move_tokens s))) (\<lambda>keys.
       act_seq (act_for (env_order E keys) (\<lambda>pk.
          act_seq (act_assert (is_online (ep_liveness e) pk))
            (act_bind (act_try (append_cancels_to_move_token E pk)) (\<lambda>_. act_return ()))))
       (act_for (env_order E keys) (\<lambda>pk.
          act_seq (act_assert (is_online (ep_liveness e) pk))
            (act_bind (take_pending pk) (send_move_token E pk))))))))"

definition create_friend_messages ::
  "'b funder_env \<Rightarrow> nat \<Rightarrow> send_commands \<Rightarrow> ('b, 'e, unit) handler" where
  "create_friend_messages E max_operations_in_batch commands =
     act_bind get_ephemeral (\<lambda>e.
     act_seq (act_modify (\<lambda>s. s\<lparr> cx_outgoing_control := [], cx_outgoing_messages := [],
         cx_outgoing_channeler_config := [], cx_pending_move_tokens := [], cx_cancel_public_keys := [] \<rparr>))
      (send_batches E max_operations_in_batch commands e))"

section \<open>The credit lines of a batch\<close>

text \<open>
  While batches are collected, the credit line a pending token works on is the one of the friend's
  channel, whose token is here, and the batch holds no more operations than it may.
\<close>

definition token_synced :: "nat \<Rightarrow> 'b funder_state \<Rightarrow> public_key \<Rightarrow> 'b pending_move_token \<Rightarrow> bool" where
  "token_synced N st pk p \<longleftrightarrow> pm_friend_public_key p = pk \<and> pm_max_operations_in_batch p = N \<and> length (pm_operations p) \<le> N
     \<and> (\<exists>tc ti. channel_of st pk = Some (Consistent tc) \<and> tc_direction tc = TcIncoming ti
          \<and> pm_outgoing_mc p = outgoing_mc_new (ti_mutual_credit ti))"

definition batches_synced :: "nat \<Rightarrow> 'b ctx \<Rightarrow> bool" where
  "batches_synced N s \<longleftrightarrow> channels_ok N (cx_state s)
     \<and> (\<forall>pk p. hm_get (cx_pending_move_tokens s) pk = Some p \<longrightarrow> token_synced N (cx_state s) pk p)"

lemma batches_syncedD: "batches_synced N s \<Longrightarrow> hm_get (cx_pending_move_tokens s) pk = Some p \<Longrightarrow> token_synced N (cx_state s) pk p"
  by (simp add: batches_synced_def)

definition collected :: "'b funder_env \<Rightarrow> nat \<Rightarrow> 'b ctx \<Rightarrow> 'b ctx \<Rightarrow> bool" where
  "collected E N s s' \<longleftrightarrow> (batches_synced N s \<longrightarrow> batches_synced N s' \<and> moved E N s s')"

interpretation collects: context_order "collected E N" for E N
  by unfold_locales (auto simp: collected_def moves.refl intro: moved_trans)

named_theorems collected_intros \<open>steps that keep the pending tokens in step with the channels\<close>

lemma channels_ok_moved: "moved E N s s' \<Longrightarrow> channels_ok N (cx_state s) \<Longrightarrow> channels_ok N (cx_state s')"
  unfolding moved_def by (auto intro: steps_keep [where P = "channels_ok N"] channels_ok_atomic)

lemma collected_frame:
  assumes "moved E N s s'" "channel_of (cx_state s') = channel_of (cx_state s)"
    and "cx_pending_move_tokens s' = cx_pending_move_tokens s"
  shows "collected E N s s'"
  using assms channels_ok_moved [OF assms(1)] by (simp add: collected_def batches_synced_def token_synced_def)

lemma run_get_pending:
  "get_pending pk s = Some (r, s') \<longleftrightarrow> (\<exists>p. hm_get (cx_pending_move_tokens s) pk = Some p \<and> r = Inr p \<and> s' = s)"
  by (auto simp: get_pending_def run_simps)

lemma collected_reads [collected_intros]:
  "follows (collected E N) get_state"
  "follows (collected E N) get_ephemeral"
  "follows (collected E N) (get_friend pk)"
  "follows (collected E N) (get_channel pk)"
  "follows (collected E N) (get_pending pk)"
  by (rule followsI; auto simp: run_simps get_pending_def collects.refl)+

lemma collected_outputs [collected_intros]:
  "follows (collected E N) (draw E len)"
  "follows (collected E N) (push_control c)"
  "follows (collected E N) (push_channeler_config cc)"
  "follows (collected E N) (push_message pk m)"
  by (rule followsI; rule collected_frame; auto simp: run_simps push_control_def push_channeler_config_def push_message_def
      intro: moved_frame)+

lemma run_mutate_pending:
  "mutate E m s = Some (r, s') \<Longrightarrow> cx_pending_move_tokens s' = cx_pending_move_tokens s"
  by (auto simp: run_simps)

lemma collected_plain [collected_intros]:
  assumes "plain_friend_mutation fm"
  shows "follows (collected E N) (mutate_friend E pk fm)"
proof (rule followsI)
  fix s r s'
  assume run: "mutate_friend E pk fm s = Some (r, s')"
  show "collected E N s s'"
    using followsD [OF moved_plain_friend [OF assms] run] plain_run_channels [OF assms run]
      run_mutate_pending [OF run [unfolded mutate_friend_def]]
    by (rule collected_frame)
qed

lemma collected_modify [collected_intros]:
  "follows (collected E N) (act_modify (\<lambda>s. s\<lparr> cx_cancel_public_keys := f s \<rparr>))"
  "follows (collected E N) (act_modify (\<lambda>s. s\<lparr> cx_cancel_public_keys := f s, cx_outgoing_control := g s \<rparr>))"
  by (rule collects.modify, rule collected_frame; simp add: moved_frame)+

text \<open>A token put into the map is in step when its channel is; so is one that only changes its flags.\<close>

lemma collected_put:
  assumes "put_pending pk p s = Some (r, s')" "batches_synced N s \<Longrightarrow> token_synced N (cx_state s) pk p"
  shows "collected E N s s'"
  using assms by (auto simp: put_pending_def run_simps collected_def batches_synced_def hm_simps intro: moved_frame)

lemma collected_get_put:
  assumes "\<And>p. follows (collected E N) (n p)"
    and "\<And>st p. token_synced N st pk p \<Longrightarrow> token_synced N st pk (g p)"
  shows "follows (collected E N) (act_bind (get_pending pk) (\<lambda>p. act_seq (put_pending pk (g p)) (n p)))"
proof (rule followsI)
  fix s r s'
  assume "act_bind (get_pending pk) (\<lambda>p. act_seq (put_pending pk (g p)) (n p)) s = Some (r, s')"
  then obtain p where p: "hm_get (cx_pending_move_tokens s) pk = Some p" "act_seq (put_pending pk (g p)) (n p) s = Some (r, s')"
    by (auto simp: bind_run run_get_pending)
  then obtain s1 where s1: "put_pending pk (g p) s = Some (Inr (), s1)" "n p s1 = Some (r, s')"
    by (auto simp: run_simps put_pending_def)
  have "collected E N s s1" by (rule collected_put [OF s1(1)]) (use p(1) assms(2) in \<open>auto simp: batches_synced_def\<close>)
  with followsD [OF assms(1) s1(2)] show "collected E N s s'" by (blast intro: collects.trans)
qed


text \<open>
  Queueing an operation moves the credit line of the batch and the one of the channel together.
\<close>

lemma token_synced_other:
  "token_synced N st pk p \<Longrightarrow> channel_of st' pk = channel_of st pk \<Longrightarrow> token_synced N st' pk p"
  by (simp add: token_synced_def)

lemma batches_synced_upd:
  assumes "batches_synced N s" "channels_ok N (cx_state s')" "\<And>pk'. pk' \<noteq> pk \<Longrightarrow> channel_of (cx_state s') pk' = channel_of (cx_state s) pk'"
    and "\<And>pk'. pk' \<noteq> pk \<Longrightarrow> hm_get (cx_pending_move_tokens s') pk' = hm_get (cx_pending_move_tokens s) pk'"
    and "\<And>p. hm_get (cx_pending_move_tokens s') pk = Some p \<Longrightarrow> token_synced N (cx_state s') pk p"
  shows "batches_synced N s'"
  unfolding batches_synced_def
proof (intro conjI allI impI)
  fix pk' p
  assume p: "hm_get (cx_pending_move_tokens s') pk' = Some p"
  show "token_synced N (cx_state s') pk' p"
  proof (cases "pk' = pk")
    case False
    with p assms(1,4) have "token_synced N (cx_state s) pk' p" by (simp add: batches_synced_def)
    then show ?thesis by (rule token_synced_other) (rule assms(3) [OF False])
  qed (use p assms(5) in simp)
qed (rule assms(2))

lemma collected_queued:
  assumes syn: "batches_synced N s" and p: "hm_get (cx_pending_move_tokens s) pk = Some p"
    and room: "length (pm_operations p) < N"
    and q: "queue_operation (env_crypto E) (pm_outgoing_mc p) op = Ok (om, ms)"
    and run: "act_seq (put_pending pk (p\<lparr> pm_outgoing_mc := om, pm_operations := pm_operations p @ [op] \<rparr>))
         (act_for ms (\<lambda>m. mutate_friend E (pm_friend_public_key p) (FmTcMutation (TcMcMutation m)))) s = Some (r, s')"
  shows "batches_synced N s' \<and> moved E N s s'"
proof -
  let ?p = "p\<lparr> pm_outgoing_mc := om, pm_operations := pm_operations p @ [op] \<rparr>"
  let ?gs = "tc_group pk (map TcMcMutation ms)"
  have syn': "token_synced N (cx_state s) pk p" and ok: "channels_ok N (cx_state s)"
    using syn p by (auto simp: batches_synced_def)
  then obtain tc ti where tc: "channel_of (cx_state s) pk = Some (Consistent tc)" "tc_direction tc = TcIncoming ti"
    "pm_outgoing_mc p = outgoing_mc_new (ti_mutual_credit ti)" "pm_friend_public_key p = pk"
    by (auto simp: token_synced_def)
  obtain st where st: "funder_replay (env_crypto E) (env_ser E) (cx_state s) ?gs = Some st"
    and s': "s' = s\<lparr> cx_pending_move_tokens := hm_insert pk ?p (cx_pending_move_tokens s),
        cx_m_state := (cx_m_state s)\<lparr> mf_state := st, mf_mutations := mf_mutations (cx_m_state s) @ ?gs \<rparr> \<rparr>"
    using run by (auto simp: seq_run put_pending_def run_modify tc(4) mutate_friend_def run_mutations comp_def)
  have inv: "mc_inv (get_mutual_credit tc)" using ok tc(1) by (simp add: channels_ok_def channel_ok_def)
  have at: "atomic E N (cx_state s) ?gs" by (rule atomic.queue [OF tc(1,2) q [unfolded tc(3)]])
  from replay_tc_group [OF st tc(1)] queued_channel [OF inv tc(2) q [unfolded tc(3)]]
  have ch: "channel_of st = (channel_of (cx_state s))(pk \<mapsto> Consistent (set_mutual_credit tc (om_mutual_credit om)))" by auto
  have mv: "moved E N s s'" by (rule moved_group [OF at st]) (simp_all add: s')
  have "token_synced N st pk ?p"
    using syn' room tc ch by (auto simp: token_synced_def set_mutual_credit_def outgoing_mc_new_def)
  then have "batches_synced N s'"
    by (intro batches_synced_upd [OF syn channels_ok_moved [OF mv ok], of pk]) (auto simp: s' ch hm_simps)
  with mv show ?thesis by simp
qed

lemma collected_pm_queue [collected_intros]: "follows (collected E N) (pm_queue_operation E pk op)"
proof (rule followsI)
  fix s s' :: "'a ctx" and r
  assume run: "pm_queue_operation E pk op s = Some (r, s')"
  then obtain p where p: "hm_get (cx_pending_move_tokens s) pk = Some p"
    by (auto simp: pm_queue_operation_def bind_run run_get_pending)
  show "collected E N s s'"
  proof (cases "pm_max_operations_in_batch p \<le> length (pm_operations p)")
    case True
    with run p show ?thesis
      by (auto simp: pm_queue_operation_def bind_run run_get_pending run_throw collects.refl)
  next
    case False
    have room: "length (pm_operations p) < N" if "batches_synced N s"
      using that p False by (auto simp: batches_synced_def token_synced_def)
    consider (ok) om ms where "queue_operation (env_crypto E) (pm_outgoing_mc p) op = Ok (om, ms)"
      | (exists) "queue_operation (env_crypto E) (pm_outgoing_mc p) op = Err QRequestAlreadyExists"
      | (error) "r = Inl PqInsufficientTrust" "s' = s"
      using run p False
      by (auto simp: pm_queue_operation_def bind_run run_get_pending run_throw run_panic
          split: res.splits queue_operation_error.splits)
    then show ?thesis
    proof cases
      case (ok om ms)
      with run p False collected_queued [OF _ p room ok] show ?thesis
        by (auto simp: collected_def pm_queue_operation_def bind_run run_get_pending run_return)
    next
      case exists
      with run p False have s': "put_pending pk (p\<lparr> pm_operations := pm_operations p @ [op] \<rparr>) s = Some (r, s')"
        by (auto simp: pm_queue_operation_def bind_run run_get_pending run_return seq_run put_pending_def run_modify)
      show ?thesis
        by (rule collected_put [OF s']) (use p room in \<open>auto simp: batches_synced_def token_synced_def\<close>)
    qed (simp add: collects.refl)
  qed
qed

lemma collected_queue_or_cancel [collected_intros]: "follows (collected E N) (queue_operation_or_cancel E pk op)"
proof -
  have wanted: "follows (collected E N) (act_bind (get_pending pk) (\<lambda>p.
         act_seq (put_pending pk (p\<lparr> pm_token_wanted := True \<rparr>)) (act_throw CoMaxOperationsReached)))"
    by (rule collected_get_put) (simp_all add: collects.throw token_synced_def)
  show ?thesis unfolding queue_operation_or_cancel_def
  proof (rule collects.bind)
    show "follows (collected E N) (act_try (pm_queue_operation E pk op))" by (intro collects.attempt collected_intros)
  qed (cases op; simp add: wanted collects.panic collects.return split: sum.split pending_queue_error.split;
      auto split: option.split intro!: collects.rules collected_intros)
qed

lemma collected_local_relays [collected_intros]: "follows (collected E N) (collect_local_relays E pk)"
proof -
  have flags: "follows (collected E N) (act_bind (get_pending pk) (\<lambda>p. act_seq (put_pending pk (pm_set_local_relays relays p)) n))"
    if "follows (collected E N) n" for relays and n :: "('a, 'e, unit) handler"
    by (rule collected_get_put) (simp_all add: that token_synced_def pm_set_local_relays_def)
  show ?thesis unfolding collect_local_relays_def Let_def
    by (intro collects.bind [of _ _ "get_friend pk"] collects.bind [of _ _ get_state] collected_reads)
      (auto split: option.split sent_local_relays.split
        intro!: flags collects.return collects.seq collects.bind collected_intros)
qed

lemma collected_parts [collected_intros]:
  "follows (collected E N) (collect_remote_max_debt E pk)"
  "follows (collected E N) (collect_requests_status E pk)"
  "follows (collected E N) (collect_backwards_ops E pk)"
  "follows (collected E N) (collect_pending_requests E pk)"
  "follows (collected E N) (collect_pending_user_requests E pk)"
  unfolding collect_remote_max_debt_def collect_requests_status_def Let_def collect_backwards_ops_def
    collect_pending_requests_def collect_pending_user_requests_def
  by (auto intro!: collects.rules collected_intros)

lemma collected_batch [collected_intros]:
  "follows (collected E N) (collect_outgoing_move_token E pk)"
  "follows (collected E N) (append_cancels_to_move_token E pk)"
  unfolding collect_outgoing_move_token_def append_cancels_to_move_token_def
  by (auto split: sum.split intro!: collects.rules collected_intros)

section \<open>Sending keeps the state sound\<close>

lemma fresh_local_reset:
  assumes "i_checked_neg b = Some bal"
  shows "fresh_channel l pk (new_from_local_reset l pk (sign_move_token C ser sign
    (create_unsigned_move_token [] None tok l pk ctr 0 bal 0 0 nonce)) bal prev)"
  using checked_neg_not_min [OF assms]
  by (auto simp: fresh_channel_def new_from_local_reset_def get_mutual_credit_def sign_move_token_def create_unsigned_move_token_def)

lemma collected_local_reset:
  assumes run: "apply_local_reset E pk ci s = Some (r, s')" and broken: "channel_of (cx_state s) pk = Some (Inconsistent ci)"
  shows "collected E N s s'"
proof -
  let ?s1 = "s\<lparr> cx_draws := Suc (cx_draws s) \<rparr>"
  obtain tc where tc: "mutate_friend E pk (SetConsistent tc) ?s1 = Some (r, s')" "fresh_channel (fs_local_public_key (cx_state s)) pk tc"
    using run by (auto simp: apply_local_reset_def Let_def bind_run run_unwrap run_draw run_get_state intro: fresh_local_reset)
  have "moved E N s ?s1" by (rule moved_frame) simp_all
  also have "moved E N ?s1 s'" by (rule moved_reset [OF tc(1)]) (simp_all add: broken tc(2))
  finally (moved_trans) have mv: "moved E N s s'" .
  have ch: "channel_of (cx_state s') = (channel_of (cx_state s))(pk \<mapsto> Consistent tc)"
    "cx_pending_move_tokens s' = cx_pending_move_tokens s"
    using tc(1) by (auto simp: mutate_friend_def run_mutate split: option.splits)
  show ?thesis unfolding collected_def
  proof (intro impI conjI mv)
    assume syn: "batches_synced N s"
    then have "hm_get (cx_pending_move_tokens s) pk = None"
      using broken by (cases "hm_get (cx_pending_move_tokens s) pk") (auto dest!: batches_syncedD simp: token_synced_def)
    with syn show "batches_synced N s'"
      by (intro batches_synced_upd [OF syn channels_ok_moved [OF mv], of pk]) (auto simp: ch batches_synced_def)
  qed
qed

lemma collected_transmit [collected_intros]: "follows (collected E N) (transmit_outgoing pk tw)"
  unfolding transmit_outgoing_def
  by (auto split: tc_direction.split intro!: collects.rules collected_intros)

lemma collected_fresh_token:
  assumes "put_pending pk (pending_move_token_new pk (begin_outgoing_move_token ti) N me) s = Some (r, s')"
    and "channel_of (cx_state s) pk = Some (Consistent tc)" "tc_direction tc = TcIncoming ti"
  shows "collected E N s s'"
  by (rule collected_put [OF assms(1)])
    (simp add: token_synced_def pending_move_token_new_def begin_outgoing_move_token_def assms)

lemma collected_iter1_reset [collected_intros]: "follows (collected E N) (act_bind (get_friend pk) (iter1_local_reset E pk commands))"
proof (rule collects.bind_known)
  fix s s1 s' :: "'a ctx" and friend r
  assume "get_friend pk s = Some (Inr friend :: 'b + _, s1)" and run: "iter1_local_reset E pk commands friend s1 = Some (r :: 'b + _, s')"
  then have "hm_get (fs_friends (cx_state s1)) pk = Some friend" by (auto simp: run_get_friend)
  with run show "collected E N s1 s'"
    by (auto simp: iter1_local_reset_def run_return collects.refl channel_of_def collected_local_reset
        split: if_splits channel_status.splits)
qed (rule collected_reads)

lemma collected_iter1_transmit [collected_intros]: "follows (collected E N) (act_bind (get_friend pk) (iter1_transmit E N pk commands))"
proof (rule collects.bind_known)
  fix s s1 s' :: "'a ctx" and friend r
  assume "get_friend pk s = Some (Inr friend :: 'b + _, s1)" and run: "iter1_transmit E N pk commands friend s1 = Some (r :: 'b + _, s')"
  then have friend: "hm_get (fs_friends (cx_state s1)) pk = Some friend" by (auto simp: run_get_friend)
  show "collected E N s1 s'"
  proof (cases "\<exists>tc ti. fr_channel_status friend = Consistent tc \<and> tc_direction tc = TcIncoming ti")
    case True
    then obtain tc ti where tc: "fr_channel_status friend = Consistent tc" "tc_direction tc = TcIncoming ti" by blast
    let ?rest = "act_bind (act_try (collect_outgoing_move_token E pk)) (\<lambda>_. act_return ())"
    have "act_seq (put_pending pk (pending_move_token_new pk (begin_outgoing_move_token ti) N
       (fc_resend_outgoing commands \<or> fc_remote_wants_token commands))) ?rest s1 = Some (r, s')"
      using run tc by (simp add: iter1_transmit_def)
    moreover have "follows (collected E N) ?rest" by (intro collects.bind collects.attempt collects.return collected_intros)
    moreover have "channel_of (cx_state s1) pk = Some (Consistent tc)" by (simp add: channel_of_def friend tc)
    ultimately show ?thesis
      using collects.seq_known [of "\<lambda>s. channel_of (cx_state s) pk = Some (Consistent tc)"] collected_fresh_token [OF _ _ tc(2)] by blast
  next
    case False
    then have "follows (collected E N) (iter1_transmit E N pk commands friend :: ('a, 'b, unit) handler)"
      by (auto simp: iter1_transmit_def split: channel_status.split tc_direction.split intro!: collects.rules collected_intros)
    then show ?thesis using run by (rule followsD)
  qed
qed (rule collected_reads)

lemma collected_iter1 [collected_intros]: "follows (collected E N) (send_friend_iter1 E N pk commands)"
  by (simp add: send_friend_iter1_def collects.return collects.seq collected_intros)

text \<open>Cancels queued for friends whose token is here open a batch for them.\<close>

lemma collected_init_cancel [collected_intros]: "follows (collected E N) (init_cancel_pending_move_token e N keys)"
proof -
  have "follows (collected E N) (act_bind (get_channel pk) (\<lambda>token_channel.
         case tc_direction token_channel of
           TcOutgoing _ \<Rightarrow> act_return ()
         | TcIncoming tc_incoming \<Rightarrow>
             put_pending pk (pending_move_token_new pk (begin_outgoing_move_token tc_incoming) N False)) :: ('a, 'b, unit) handler)" for pk
  proof (rule collects.bind_known)
    fix s s1 s' :: "'a ctx" and tc r
    assume "get_channel pk s = Some (Inr tc :: 'b + _, s1)" and "(case tc_direction tc of
           TcOutgoing _ \<Rightarrow> act_return ()
         | TcIncoming tc_incoming \<Rightarrow>
             put_pending pk (pending_move_token_new pk (begin_outgoing_move_token tc_incoming) N False)) s1 = Some (r :: 'b + _, s')"
    then show "collected E N s1 s'"
      by (auto simp: run_get_channel run_return collects.refl intro: collected_fresh_token split: tc_direction.splits)
  qed (rule collected_reads)
  then show ?thesis unfolding init_cancel_pending_move_token_def
    by (intro collects.bind collects.gets collects.loop) (simp add: collects.return)
qed

text \<open>A token that is sent leaves the map, and its channel waits for the answer.\<close>

lemma collected_take_send [collected_intros]: "follows (collected E N) (act_bind (take_pending pk) (send_move_token E pk))"
proof (rule followsI)
  fix s s' :: "'a ctx" and r
  assume run: "act_bind (take_pending pk) (send_move_token E pk) s = Some (r, s')"
  let ?s1 = "s\<lparr> cx_pending_move_tokens := hm_remove pk (cx_pending_move_tokens s) \<rparr>"
  obtain p where p: "hm_get (cx_pending_move_tokens s) pk = Some p" "send_move_token E pk p ?s1 = Some (r, s')"
    using run by (auto simp: take_pending_def bind_run seq_run run_get_pending run_modify run_return)
  show "collected E N s s'" unfolding collected_def
  proof (intro impI)
    assume syn: "batches_synced N s"
    then have len: "length (pm_operations p) \<le> N" using p(1) by (auto dest!: batches_syncedD simp: token_synced_def)
    have syn1: "batches_synced N ?s1" "moved E N s ?s1"
      using syn by (auto simp: batches_synced_def hm_simps intro: moved_frame)
    show "batches_synced N s' \<and> moved E N s s'"
    proof (cases "pm_operations p = [] \<and> pm_opt_local_relays p = None \<and> \<not> pm_may_send_empty p")
      case True
      with p(2) have "s' = ?s1" by (simp add: send_move_token_def run_return)
      with syn1 show ?thesis by simp
    next
      case False
      let ?s2 = "?s1\<lparr> cx_draws := Suc (cx_draws s) \<rparr>" and ?tw = "pm_token_wanted p \<or> pm_opt_local_relays p \<noteq> None"
      define m where "m = (\<lambda>ti. TcSetDirection (SdOutgoing (sign_move_token (env_crypto E) (env_ser E) (env_sign E)
            (ti_create_unsigned_move_token ti (pm_operations p) (pm_opt_local_relays p) (env_rng E (cx_draws ?s1) RAND_VALUE_LEN)))))"
      have "\<exists>tc. channel_of (cx_state s) pk = Some (Consistent tc) \<and> (case tc_direction tc of TcOutgoing _ \<Rightarrow> act_panic
          | TcIncoming ti \<Rightarrow> act_seq (mutate_friend E pk (FmTcMutation (m ti))) (transmit_outgoing pk ?tw)) ?s2 = Some (r, s')"
        using p(2) unfolding send_move_token_def if_not_P [OF False] Let_def m_def by (auto simp: bind_run run_get_friend run_get_channel run_draw)
      then obtain tc ti where tc: "channel_of (cx_state s) pk = Some (Consistent tc)" "tc_direction tc = TcIncoming ti"
        and "act_seq (mutate_friend E pk (FmTcMutation (m ti))) (transmit_outgoing pk ?tw) ?s2 = Some (r, s')"
        by (elim exE conjE) (simp add: run_panic split: tc_direction.split_asm)
      then obtain s3 where s3: "mutate_friend E pk (FmTcMutation (m ti)) ?s2 = Some (Inr () :: 'b + _, s3)"
        and tr: "transmit_outgoing pk ?tw s3 = Some (r, s')"
        by (auto simp: seq_run mutate_friend_def run_mutate)
      have "atomic E N (cx_state ?s2) (tc_group pk [m ti])"
        unfolding m_def by (rule atomic.send [OF _ tc(2) len]) (simp add: tc)
      then have mv: "moved E N ?s2 s3" using s3 by (simp add: mutate_friend_def moved_mutate)
      have syn2: "batches_synced N ?s2" "moved E N s ?s2"
        using syn1 by (auto simp: batches_synced_def hm_simps intro: moved_frame)
      have other: "channel_of (cx_state s3) pk' = channel_of (cx_state ?s2) pk'" if "pk' \<noteq> pk" for pk'
        using s3 that by (auto simp: mutate_friend_def run_mutate simp del: funder_mutate.simps dest!: funder_mutate_tc)
      have gone: "hm_get (cx_pending_move_tokens s3) pk' = hm_get (cx_pending_move_tokens ?s2) pk'" for pk'
        using run_mutate_pending [OF s3 [unfolded mutate_friend_def]] by simp
      have "batches_synced N s3"
        by (rule batches_synced_upd [OF syn2(1) channels_ok_moved [OF mv] other gone]) (use syn2 gone in \<open>auto simp: batches_synced_def hm_simps\<close>)
      then show ?thesis
        using moved_trans [OF syn2(2) mv] followsD [OF collected_transmit tr] by (auto simp: collected_def intro: moved_trans)
    qed
  qed
qed

text \<open>The whole sender, from a state whose channels are in order.\<close>

lemma moved_create_friend_messages:
  assumes run: "create_friend_messages E N commands s = Some (r, s')" and ok: "channels_ok N (cx_state s)"
  shows "moved E N s s'"
proof -
  let ?s1 = "s\<lparr> cx_outgoing_control := [], cx_outgoing_messages := [],
         cx_outgoing_channeler_config := [], cx_pending_move_tokens := [], cx_cancel_public_keys := [] \<rparr>"
  have "follows (collected E N) (send_batches E N commands e)" for e unfolding send_batches_def
    by (intro collects.seq collects.gets collects.loop collects.bind [of _ _ "act_gets f" for f] collected_intros)
      (auto intro!: collects.return collects.seq collects.check collects.unwrap collects.attempt collects.bind [of _ _ "act_unwrap x" for x]
        collects.bind [of _ _ "act_try x" for x] collected_intros)
  moreover have "\<exists>e. send_batches E N commands e ?s1 = Some (r, s')"
    using run by (auto simp: create_friend_messages_def bind_run seq_run run_get_ephemeral run_modify)
  moreover have "batches_synced N ?s1" "moved E N s ?s1" using ok by (auto simp: batches_synced_def intro: moved_frame)
  ultimately show ?thesis unfolding follows_def collected_def by (blast intro: moved_trans)
qed

end
