(* ===== verification/HandleFriend.thy ===== *)
theory HandleFriend
  imports Canceler
begin

text \<open>
  Messages from a friend: forwarding of requests, responses, cancels and collects, received move
  tokens, and the two sides of a channel inconsistency. From
  \<open>components/funder/src/handler/handle_friend.rs\<close>.
\<close>

section \<open>Channel resets\<close>

datatype handle_friend_error = HfFriendDoesNotExist | HfInconsistencyWhenTokenOwned

definition gen_channel_reset_token :: "'b funder_env \<Rightarrow> ('b, 'e, signature) handler" where
  "gen_channel_reset_token E = draw E SIGNATURE_LEN"

text \<open>\<open>balance_for_reset\<close> panics when the sum it computes overflows.\<close>

definition gen_reset_terms :: "'b funder_env \<Rightarrow> 'b token_channel \<Rightarrow> ('b, 'e, reset_terms) handler" where
  "gen_reset_terms E token_channel =
     act_bind (gen_channel_reset_token E) (\<lambda>reset_token.
     act_bind (act_unwrap (balance_for_reset (get_mutual_credit token_channel))) (\<lambda>bal.
     act_return \<lparr> rt_reset_token = reset_token,
       rt_inconsistency_counter = get_inconsistency_counter token_channel + 1, rt_balance_for_reset = bal \<rparr>))"

text \<open>
  The disjunction of \<open>try_reset_channel\<close> is evaluated from left to right: \<open>checked_neg().unwrap()\<close>
  is reached only when the tests before it passed.
\<close>

definition is_reset_attempt ::
  "'b funder_env \<Rightarrow> public_key \<Rightarrow> reset_terms \<Rightarrow> ('b, signature) move_token \<Rightarrow> bool option" where
  "is_reset_attempt E friend_public_key local_reset_terms move_token =
     (if mt_old_token move_token \<noteq> rt_reset_token local_reset_terms
         \<or> mt_operations move_token \<noteq> []
         \<or> mt_opt_local_relays move_token \<noteq> None
         \<or> mt_inconsistency_counter move_token \<noteq> rt_inconsistency_counter local_reset_terms
         \<or> mt_move_token_counter move_token \<noteq> 0
      then Some False
      else case i_checked_neg (rt_balance_for_reset local_reset_terms) of
             None \<Rightarrow> None
           | Some neg_balance \<Rightarrow> Some
               (\<not> (mt_balance move_token \<noteq> neg_balance
                   \<or> mt_local_pending_debt move_token \<noteq> 0
                   \<or> mt_remote_pending_debt move_token \<noteq> 0
                   \<or> \<not> verify_move_token (env_crypto E) (env_ser E) move_token friend_public_key)))"

definition try_reset_channel ::
  "'b funder_env \<Rightarrow> public_key \<Rightarrow> reset_terms \<Rightarrow> 'b move_token_request \<Rightarrow> ('b, 'e, unit) handler" where
  "try_reset_channel E friend_public_key local_reset_terms move_token_request =
     (let move_token = mtr_friend_move_token move_token_request in
      act_bind (act_unwrap (is_reset_attempt E friend_public_key local_reset_terms move_token)) (\<lambda>valid.
      if \<not> valid then command set_resend_outgoing friend_public_key
      else
        act_bind get_state (\<lambda>st.
        let token_channel = new_from_remote_reset (env_crypto E) (env_ser E) (fs_local_public_key st) friend_public_key
              move_token (rt_balance_for_reset local_reset_terms)
        in act_seq (mutate_friend E friend_public_key (SetConsistent token_channel))
          (act_seq (command set_try_send friend_public_key)
           (act_when (mtr_token_wanted move_token_request) (command set_remote_wants_token friend_public_key))))))"

section \<open>Payment operations\<close>

definition forward_request :: "'b funder_env \<Rightarrow> request_send_funds_op \<Rightarrow> ('b, 'e, unit) handler" where
  "forward_request E rq =
     act_bind get_state (\<lambda>st.
     act_bind (act_unwrap (pk_to_index (rq_route rq) (fs_local_public_key st))) (\<lambda>index.
     let next_index = index + 1 in
     act_bind (act_unwrap (index_to_pk (rq_route rq) next_index)) (\<lambda>next_pk.
     act_seq (mutate_friend E next_pk (PushBackPendingRequest rq))
       (command set_try_send next_pk))))"

definition is_invoice_match :: "'b funder_state \<Rightarrow> request_send_funds_op \<Rightarrow> bool" where
  "is_invoice_match st rq =
     (case hm_get (fs_open_invoices st) (rq_invoice_id rq) of
        Some open_invoice \<Rightarrow>
          oi_total_dest_payment open_invoice = rq_total_dest_payment rq \<and> rq_dest_payment rq \<le> rq_total_dest_payment rq
      | None \<Rightarrow> False)"

definition handle_request_send_funds ::
  "'b funder_env \<Rightarrow> public_key \<Rightarrow> request_send_funds_op \<Rightarrow> ('b, 'e, unit) handler" where
  "handle_request_send_funds E remote_public_key rq =
     act_bind get_state (\<lambda>st.
     act_bind get_ephemeral (\<lambda>ephemeral.
     act_bind (act_unwrap (find_pk_pair (rq_route rq) remote_public_key (fs_local_public_key st))) (\<lambda>remote_index.
     let next_index = remote_index + 1 + 1 in
     if route_len (rq_route rq) \<le> next_index then
       (if \<not> is_invoice_match st rq then reply_with_cancel E remote_public_key (rq_request_id rq)
        else
          act_seq (queue_unsigned_response remote_public_key (create_pending_transaction rq))
            (command set_try_send remote_public_key))
     else
       act_bind (act_unwrap (index_to_pk (rq_route rq) next_index)) (\<lambda>next_public_key.
       let friend_exists = hm_contains (fs_friends st) next_public_key in
       act_bind (if friend_exists then act_unwrap (is_friend_ready st ephemeral next_public_key) else act_return False)
         (\<lambda>friend_ready.
       act_bind (get_friend remote_public_key) (\<lambda>friend.
       let opt_local_fee = calc_fee (fr_rate friend) (rq_dest_payment rq);
           opt_request_send_funds =
             (case opt_local_fee of
                None \<Rightarrow> None
              | Some local_fee \<Rightarrow>
                  (case u_checked_sub (rq_left_fees rq) local_fee of
                     None \<Rightarrow> None
                   | Some new_left_fees \<Rightarrow> Some (rq\<lparr> rq_left_fees := new_left_fees \<rparr>)))
       in case (opt_request_send_funds, friend_ready) of
            (Some request_send_funds, True) \<Rightarrow> forward_request E request_send_funds
          | _ \<Rightarrow> reply_with_cancel E remote_public_key (rq_request_id rq)))))))"

definition handle_response_send_funds ::
  "'b funder_env \<Rightarrow> signature response_send_funds_op \<Rightarrow> pending_transaction \<Rightarrow> ('b, 'e, unit) handler" where
  "handle_response_send_funds E rs pending_transaction =
     act_bind get_state (\<lambda>st.
     case find_request_origin st (rs_request_id rs) of
       None \<Rightarrow>
         act_seq (mutate E (SetTransactionResponse rs))
         (act_bind get_state (\<lambda>st.
          act_bind (act_unwrap (hm_get (fs_open_transactions st) (rs_request_id rs))) (\<lambda>open_transaction.
          let commit = prepare_commit (env_crypto E) rs pending_transaction (ot_src_plain_lock open_transaction) in
          push_control (FoTransactionResult \<lparr> tr_request_id = rs_request_id rs, tr_result = RrSuccess commit \<rparr>))))
     | Some friend_public_key \<Rightarrow>
         act_seq (mutate_friend E friend_public_key (PushBackPendingBackwardsOp (BackResponse rs)))
           (command set_try_send friend_public_key))"

definition handle_cancel_send_funds ::
  "'b funder_env \<Rightarrow> cancel_send_funds_op \<Rightarrow> pending_transaction \<Rightarrow> ('b, 'e, unit) handler" where
  "handle_cancel_send_funds E cn pending_transaction =
     act_bind get_state (\<lambda>st.
     case find_request_origin st (cn_request_id cn) of
       None \<Rightarrow>
         act_seq (remove_transaction E (cn_request_id cn))
           (push_control (FoTransactionResult
             \<lparr> tr_request_id = pt_request_id pending_transaction, tr_result = RrFailure \<rparr>))
     | Some friend_public_key \<Rightarrow>
         act_seq (mutate_friend E friend_public_key (PushBackPendingBackwardsOp (BackCancel cn)))
           (command set_try_send friend_public_key))"

text \<open>The payment after one of its transactions was collected.\<close>

definition payment_after_collect ::
  "'b funder_env \<Rightarrow> collect_send_funds_op \<Rightarrow> open_transaction \<Rightarrow> pending_transaction \<Rightarrow> payment
    \<Rightarrow> ('b, 'e, payment option) handler" where
  "payment_after_collect E cl open_transaction pending_transaction payment =
     (let succeed = (\<lambda>num_transactions.
        act_bind (act_unwrap (ot_opt_response open_transaction)) (\<lambda>response.
        let receipt = prepare_receipt (env_crypto E) cl response pending_transaction in
        act_bind (draw E UID_LEN) (\<lambda>ack_uid.
        act_bind (act_unwrap (u_checked_sub num_transactions 1)) (\<lambda>n.
        act_return (Some (PaySuccess n receipt ack_uid))))))
      in case payment of
           NewTransactions nt \<Rightarrow> succeed (nt_num_transactions nt)
         | InProgress num_transactions \<Rightarrow> succeed num_transactions
         | PaySuccess num_transactions receipt ack_uid \<Rightarrow>
             act_bind (act_unwrap (u_checked_sub num_transactions 1)) (\<lambda>n.
             act_return (Some (PaySuccess n receipt ack_uid)))
         | PayCanceled _ \<Rightarrow> act_panic
         | AfterSuccessAck num_transactions \<Rightarrow>
             act_bind (act_unwrap (u_checked_sub num_transactions 1)) (\<lambda>n.
             if 0 < n then act_return (Some (AfterSuccessAck n)) else act_return None))"

definition handle_collect_send_funds ::
  "'b funder_env \<Rightarrow> collect_send_funds_op \<Rightarrow> pending_transaction \<Rightarrow> ('b, 'e, unit) handler" where
  "handle_collect_send_funds E cl pending_transaction =
     act_bind get_state (\<lambda>st.
     case find_request_origin st (cl_request_id cl) of
       None \<Rightarrow>
         act_bind (act_unwrap (hm_get (fs_open_transactions st) (cl_request_id cl))) (\<lambda>open_transaction.
         act_bind (act_unwrap (hm_get (fs_payments st) (ot_payment_id open_transaction))) (\<lambda>payment.
         act_bind (payment_after_collect E cl open_transaction pending_transaction payment) (\<lambda>opt_new_payment.
         act_seq (mutate E (payment_mutation (ot_payment_id open_transaction) opt_new_payment))
           (mutate E (RemoveTransaction (cl_request_id cl))))))
     | Some friend_public_key \<Rightarrow>
         act_seq (mutate_friend E friend_public_key (PushBackPendingBackwardsOp (BackCollect cl)))
           (command set_try_send friend_public_key))"

section \<open>Move tokens\<close>

fun handle_incoming_message :: "'b funder_env \<Rightarrow> public_key \<Rightarrow> incoming_message \<Rightarrow> ('b, 'e, unit) handler" where
  "handle_incoming_message E remote_public_key (ImRequest rq) = handle_request_send_funds E remote_public_key rq"
| "handle_incoming_message E remote_public_key (ImResponse r) =
     handle_response_send_funds E (ir_incoming_response r) (ir_pending_transaction r)"
| "handle_incoming_message E remote_public_key (ImCancel r) =
     handle_cancel_send_funds E (ic_incoming_cancel r) (ic_pending_transaction r)"
| "handle_incoming_message E remote_public_key (ImCollect r) =
     handle_collect_send_funds E (il_incoming_collect r) (il_pending_transaction r)"

definition handle_move_token_output ::
  "'b funder_env \<Rightarrow> public_key \<Rightarrow> incoming_message list \<Rightarrow> ('b, 'e, unit) handler" where
  "handle_move_token_output E remote_public_key incoming_messages =
     act_for incoming_messages (handle_incoming_message E remote_public_key)"

definition handle_move_token_error :: "'b funder_env \<Rightarrow> public_key \<Rightarrow> ('b, 'e, unit) handler" where
  "handle_move_token_error E remote_public_key =
     act_bind (get_channel remote_public_key) (\<lambda>token_channel.
     let opt_last_incoming_move_token = get_last_incoming_move_token_hashed token_channel in
     act_bind (gen_reset_terms E token_channel) (\<lambda>local_reset_terms.
     act_seq (cancel_local_pending_transactions E remote_public_key)
     (act_seq (cancel_pending_requests E remote_public_key)
     (act_seq (cancel_pending_user_requests E remote_public_key)
     (act_seq (mutate_friend E remote_public_key (SetInconsistent
        \<lparr> ci_opt_last_incoming_move_token = opt_last_incoming_move_token,
          ci_local_reset_terms = local_reset_terms, ci_opt_remote_reset_terms = None \<rparr>))
      (command set_try_send remote_public_key))))))"

text \<open>A change of the friend's relays, and the end of a pending change of our own.\<close>

definition update_remote_relays :: "'b funder_env \<Rightarrow> public_key \<Rightarrow> 'b relay_address list option \<Rightarrow> ('b, 'e, unit) handler" where
  "update_remote_relays E remote_public_key opt_local_relays =
     (case opt_local_relays of
        None \<Rightarrow> act_return ()
      | Some new_remote_relays \<Rightarrow>
          act_bind (get_friend remote_public_key) (\<lambda>friend.
          act_when (fr_remote_relays friend \<noteq> new_remote_relays)
            (mutate_friend E remote_public_key (SetRemoteRelays new_remote_relays))))"

definition confirm_sent_relays :: "'b funder_env \<Rightarrow> public_key \<Rightarrow> ('b, 'e, unit) handler" where
  "confirm_sent_relays E remote_public_key =
     act_bind (get_friend remote_public_key) (\<lambda>friend.
     case fr_sent_local_relays friend of
       NeverSent \<Rightarrow> act_return ()
     | LastSent _ \<Rightarrow> act_return ()
     | Transition last_address _ \<Rightarrow>
         act_seq (mutate_friend E remote_public_key (SetSentLocalRelays (LastSent last_address)))
         (act_bind (get_friend remote_public_key) (\<lambda>friend.
          push_channeler_config (CcUpdateFriend
            \<lparr> cuf_friend_public_key = remote_public_key, cuf_friend_relays = fr_remote_relays friend,
              cuf_local_relays = map relay_of_named last_address \<rparr>))))"

definition handle_move_token_success ::
  "'b funder_env \<Rightarrow> public_key \<Rightarrow> 'b receive_move_token_output \<Rightarrow> bool \<Rightarrow> ('b, 'e, unit) handler" where
  "handle_move_token_success E remote_public_key receive_move_token_output token_wanted =
     (case receive_move_token_output of
        RetransmitOutgoing _ \<Rightarrow> command set_resend_outgoing remote_public_key
      | Duplicate \<Rightarrow> act_when token_wanted (command set_remote_wants_token remote_public_key)
      | Received r \<Rightarrow>
          act_seq (command set_try_send remote_public_key)
          (act_seq (update_remote_relays E remote_public_key (mtd_opt_local_relays r))
          (act_seq (act_for (mtd_mutations r) (\<lambda>tc_mutation. mutate_friend E remote_public_key (FmTcMutation tc_mutation)))
          (act_seq (confirm_sent_relays E remote_public_key)
          (act_seq (act_when (mtd_remote_requests_closed r)
             (act_seq (cancel_pending_requests E remote_public_key) (cancel_pending_user_requests E remote_public_key)))
          (act_seq (handle_move_token_output E remote_public_key (mtd_incoming_messages r))
           (act_when token_wanted (command set_remote_wants_token remote_public_key))))))))"

definition handle_move_token_request ::
  "'b funder_env \<Rightarrow> public_key \<Rightarrow> 'b move_token_request \<Rightarrow> ('b, handle_friend_error, unit) handler" where
  "handle_move_token_request E remote_public_key friend_move_token_request =
     act_bind (get_friend_or HfFriendDoesNotExist remote_public_key) (\<lambda>friend.
     case fr_channel_status friend of
       Inconsistent channel_inconsistent \<Rightarrow>
         try_reset_channel E remote_public_key (ci_local_reset_terms channel_inconsistent) friend_move_token_request
     | Consistent token_channel \<Rightarrow>
         (case simulate_receive_move_token (env_crypto E) (env_ser E) token_channel
                 (mtr_friend_move_token friend_move_token_request) of
            Panic \<Rightarrow> act_panic
          | Ok receive_move_token_output \<Rightarrow>
              handle_move_token_success E remote_public_key receive_move_token_output
                (mtr_token_wanted friend_move_token_request)
          | Err _ \<Rightarrow> handle_move_token_error E remote_public_key))"

definition handle_inconsistency_error ::
  "'b funder_env \<Rightarrow> public_key \<Rightarrow> reset_terms \<Rightarrow> ('b, handle_friend_error, unit) handler" where
  "handle_inconsistency_error E remote_public_key remote_reset_terms =
     act_bind (get_friend_or HfFriendDoesNotExist remote_public_key) (\<lambda>_.
     act_seq (cancel_pending_requests E remote_public_key)
     (act_seq (cancel_pending_user_requests E remote_public_key)
     (act_bind (get_friend remote_public_key) (\<lambda>friend.
     act_bind
       (case fr_channel_status friend of
          Consistent token_channel \<Rightarrow>
            if \<not> is_outgoing token_channel then act_throw HfInconsistencyWhenTokenOwned
            else act_bind (gen_reset_terms E token_channel) (\<lambda>terms.
                 act_return (True, terms, get_last_incoming_move_token_hashed token_channel))
        | Inconsistent channel_inconsistent \<Rightarrow>
            act_return (False, ci_local_reset_terms channel_inconsistent,
              ci_opt_last_incoming_move_token channel_inconsistent))
       (\<lambda>(should_send_outgoing, new_local_reset_terms, opt_last_incoming_move_token).
     act_seq (mutate_friend E remote_public_key (SetInconsistent
        \<lparr> ci_opt_last_incoming_move_token = opt_last_incoming_move_token,
          ci_local_reset_terms = new_local_reset_terms, ci_opt_remote_reset_terms = Some remote_reset_terms \<rparr>))
       (act_when should_send_outgoing (command set_try_send remote_public_key)))))))"

definition handle_friend_message ::
  "'b funder_env \<Rightarrow> public_key \<Rightarrow> 'b friend_message \<Rightarrow> ('b, handle_friend_error, unit) handler" where
  "handle_friend_message E remote_public_key friend_message =
     act_bind (get_friend_or HfFriendDoesNotExist remote_public_key) (\<lambda>_.
     case friend_message of
       FmMoveTokenRequest friend_move_token_request \<Rightarrow>
         handle_move_token_request E remote_public_key friend_move_token_request
     | FmInconsistencyError remote_reset_terms \<Rightarrow>
         handle_inconsistency_error E remote_public_key remote_reset_terms)"

section \<open>Steps\<close>

lemma payment_after_collect_run:
  assumes "payment_after_collect E cl ot pt p s = Some (r, s')"
  shows "\<exists>q. r = Inr q \<and> finishes p q \<and> cx_m_state s' = cx_m_state s \<and> cx_m_ephemeral s' = cx_m_ephemeral s"
proof (cases p)
  case (AfterSuccessAck n)
  with assms show ?thesis
    by (auto simp: payment_after_collect_def Let_def run_simps checked_sub_one split: if_splits intro: finishes.intros dest: last_one)
qed (use assms in \<open>auto simp: payment_after_collect_def Let_def run_simps checked_sub_one intro: finishes.intros\<close>)

lemma collect_own_run:
  fixes r :: "'e + unit"
  assumes "handle_collect_send_funds E cl pt s = Some (r, s')" "find_request_origin (cx_state s) (cl_request_id cl) = None"
  obtains ot p q where "hm_get (fs_open_transactions (cx_state s)) (cl_request_id cl) = Some ot"
    and "hm_get (fs_payments (cx_state s)) (ot_payment_id ot) = Some p" and "finishes p q"
    and "cx_m_state s' = (cx_m_state s)\<lparr> mf_state := (cx_state s)\<lparr> fs_payments := store_payment (ot_payment_id ot) q (fs_payments (cx_state s)),
        fs_open_transactions := hm_remove (cl_request_id cl) (fs_open_transactions (cx_state s)) \<rparr>,
      mf_mutations := mf_mutations (cx_m_state s) @ [payment_mutation (ot_payment_id ot) q, RemoveTransaction (cl_request_id cl)] \<rparr>"
    and "cx_m_ephemeral s' = cx_m_ephemeral s"
proof -
  let ?after = "\<lambda>ot q. act_seq (mutate E (payment_mutation (ot_payment_id ot) q)) (mutate E (RemoveTransaction (cl_request_id cl)))"
  from assms obtain ot p where ot: "hm_get (fs_open_transactions (cx_state s)) (cl_request_id cl) = Some ot"
    "hm_get (fs_payments (cx_state s)) (ot_payment_id ot) = Some p"
    by (auto simp: handle_collect_send_funds_def run_simps)
  have "act_bind (payment_after_collect E cl ot pt p) (?after ot) s = Some (r, s')"
    using assms ot by (simp add: handle_collect_send_funds_def get_state_def act_simps)
  then obtain q s2 where q: "payment_after_collect E cl ot pt p s = Some (Inr q :: 'e + payment option, s2)" "?after ot q s2 = Some (r, s')"
    unfolding bind_run using payment_after_collect_run by fastforce
  from payment_after_collect_run [OF q(1)] have "finishes p q" "cx_m_state s2 = cx_m_state s" "cx_m_ephemeral s2 = cx_m_ephemeral s"
    by auto
  with q(2) ot show thesis by (intro that [of ot p q]) (auto simp: run_simps mutate_payment)
qed

lemma moved_collect [moved_intros]: "follows (moved E N) (handle_collect_send_funds E cl pt)"
proof (rule followsI)
  fix s s' :: "'a ctx" and r :: "'b + unit"
  assume run: "handle_collect_send_funds E cl pt s = Some (r, s')"
  show "moved E N s s'"
  proof (cases "find_request_origin (cx_state s) (cl_request_id cl)")
    case None
    from run None show ?thesis
    proof (rule collect_own_run)
      fix ot p q
      assume *: "hm_get (fs_open_transactions (cx_state s)) (cl_request_id cl) = Some ot"
        "hm_get (fs_payments (cx_state s)) (ot_payment_id ot) = Some p" "finishes p q"
        "cx_m_state s' = (cx_m_state s)\<lparr> mf_state := (cx_state s)\<lparr> fs_payments := store_payment (ot_payment_id ot) q (fs_payments (cx_state s)),
        fs_open_transactions := hm_remove (cl_request_id cl) (fs_open_transactions (cx_state s)) \<rparr>,
      mf_mutations := mf_mutations (cx_m_state s) @ [payment_mutation (ot_payment_id ot) q, RemoveTransaction (cl_request_id cl)] \<rparr>"
        "cx_m_ephemeral s' = cx_m_ephemeral s"
      show ?thesis by (rule moved_group [OF atomic.collect [OF *(1-3)]]) (simp_all add: * mutate_payment)
    qed
  next
    case (Some pk)
    with run have "act_seq (mutate_friend E pk (PushBackPendingBackwardsOp (BackCollect cl))) (command set_try_send pk) s = Some (r, s')"
      by (simp add: handle_collect_send_funds_def get_state_def act_simps)
    then show ?thesis by (rule followsD [rotated]) (auto intro!: moves.rules moved_intros)
  qed
qed

lemma moved_payment_operations [moved_intros]:
  "follows (moved E N) (forward_request E rq)"
  "follows (moved E N) (handle_response_send_funds E rs pt)"
  "follows (moved E N) (handle_cancel_send_funds E cn pt)"
  "follows (moved E N) (gen_reset_terms E tc)"
  by (auto simp: forward_request_def handle_response_send_funds_def handle_cancel_send_funds_def gen_reset_terms_def
      gen_channel_reset_token_def Let_def split: option.split intro!: moves.rules moved_intros)

lemma moved_request [moved_intros]: "follows (moved E N) (handle_request_send_funds E pk rq)"
  by (auto simp: handle_request_send_funds_def Let_def split: option.split bool.split intro!: moves.rules moved_intros)

lemma moved_output [moved_intros]: "follows (moved E N) (handle_move_token_output E pk msgs)"
proof -
  have "follows (moved E N) (handle_incoming_message E pk m)" for m
    by (cases m) (auto intro!: moved_intros)
  then show ?thesis by (auto simp: handle_move_token_output_def intro!: moves.rules)
qed

lemma moved_relay_updates [moved_intros]:
  "follows (moved E N) (update_remote_relays E pk relays)"
  "follows (moved E N) (confirm_sent_relays E pk)"
  "follows (moved E N) (handle_move_token_error E pk)"
  by (auto simp: update_remote_relays_def confirm_sent_relays_def handle_move_token_error_def Let_def
      split: option.split sent_local_relays.split intro!: moves.rules moved_intros)

lemma moved_inconsistency [moved_intros]: "follows (moved E N) (handle_inconsistency_error E pk terms)"
  by (auto simp: handle_inconsistency_error_def split: option.split channel_status.split intro!: moves.rules moved_intros)

text \<open>A reset by the friend is a step only because the channel was inconsistent before.\<close>

lemma fresh_remote_reset:
  assumes "i_checked_neg bal = Some nb"
  shows "fresh_channel l pk (new_from_remote_reset C ser l pk mt bal)"
  using checked_neg_not_min [OF assms] by (auto simp: fresh_channel_def new_from_remote_reset_def)

lemma moved_try_reset:
  assumes run: "try_reset_channel E pk terms req s = Some (r, s')" and broken: "channel_of (cx_state s) pk = Some (Inconsistent ci)"
  shows "moved E N s s'"
proof -
  obtain valid where valid: "is_reset_attempt E pk terms (mtr_friend_move_token req) = Some valid"
    using run by (auto simp: try_reset_channel_def Let_def run_simps)
  show ?thesis
  proof (cases valid)
    case False
    with run valid have "command set_resend_outgoing pk s = Some (r, s')"
      by (simp add: try_reset_channel_def act_simps)
    then show ?thesis by (rule followsD [rotated]) (rule moved_intros)
  next
    case True
    then obtain nb where "i_checked_neg (rt_balance_for_reset terms) = Some nb"
      using valid by (auto simp: is_reset_attempt_def split: if_splits option.splits)
    note fresh = fresh_remote_reset [OF this]
    from run valid True have "act_seq (mutate_friend E pk (SetConsistent (new_from_remote_reset (env_crypto E) (env_ser E)
          (fs_local_public_key (cx_state s)) pk (mtr_friend_move_token req) (rt_balance_for_reset terms))))
        (act_seq (command set_try_send pk) (act_when (mtr_token_wanted req) (command set_remote_wants_token pk))) s = Some (r, s')"
      by (simp add: try_reset_channel_def get_state_def act_simps)
    then show ?thesis
    proof (rule moved_seq)
      fix s1
      assume "act_seq (command set_try_send pk) (act_when (mtr_token_wanted req) (command set_remote_wants_token pk)) s1 = Some (r, s')"
      then show "moved E N s1 s'" by (rule followsD [rotated]) (auto intro!: moves.rules moved_intros)
    qed (rule moved_reset [OF _ broken fresh])
  qed
qed

lemma moved_receive:
  assumes "act_for (mtd_mutations rcv) (\<lambda>m. mutate_friend E pk (FmTcMutation m)) s = Some (r, s')"
    and "channel_of (cx_state s) pk = Some (Consistent tc)"
    and "simulate_receive_move_token (env_crypto E) (env_ser E) tc mt = Ok (Received rcv)"
  shows "moved E N s s'"
  using assms(1) unfolding run_tc_group
  by (auto intro!: moved_group [OF atomic.receive [OF assms(2,3)]])

lemma update_remote_relays_channels:
  "update_remote_relays E pk relays s = Some (r, s') \<Longrightarrow> channel_of (cx_state s') = channel_of (cx_state s)"
  by (auto simp: update_remote_relays_def run_get_friend run_when run_return bind_run dest: plain_run_channels [rotated]
      split: option.splits if_splits)

lemma moved_receive_block:
  fixes r :: "'e + unit"
  assumes run: "act_seq (update_remote_relays E pk relays)
      (act_seq (act_for (mtd_mutations rcv) (\<lambda>m. mutate_friend E pk (FmTcMutation m))) n) s = Some (r, s')"
    and tail: "follows (moved E N) n"
    and tc: "channel_of (cx_state s) pk = Some (Consistent tc)"
    and out: "simulate_receive_move_token (env_crypto E) (env_ser E) tc mt = Ok (Received rcv)"
  shows "moved E N s s'"
  using run
proof (rule moved_seq)
  fix r1 :: "'e + unit" and s1
  assume "update_remote_relays E pk relays s = Some (r1, s1)"
  then show "moved E N s s1" by (rule followsD [rotated]) (rule moved_intros)
next
  fix s1
  assume "update_remote_relays E pk relays s = Some (Inr () :: 'e + unit, s1)"
  then have ch: "channel_of (cx_state s1) pk = Some (Consistent tc)"
    using tc update_remote_relays_channels by metis
  assume "act_seq (act_for (mtd_mutations rcv) (\<lambda>m. mutate_friend E pk (FmTcMutation m))) n s1 = Some (r, s')"
  then show "moved E N s1 s'"
    by (rule moved_seq) (auto intro: moved_receive [OF _ ch out] followsD [OF tail])
qed

lemma moved_success:
  assumes run: "handle_move_token_success E pk out wanted s = Some (r, s')"
    and tc: "channel_of (cx_state s) pk = Some (Consistent tc)"
    and out: "simulate_receive_move_token (env_crypto E) (env_ser E) tc mt = Ok out"
  shows "moved E N s s'"
proof (cases out)
  case (Received rcv)
  let ?s = "s\<lparr> cx_send_commands := set_try_send pk (cx_send_commands s) \<rparr>"
  have "moved E N s ?s" by (rule moved_frame) simp_all
  moreover have "moved E N ?s s'"
  proof (rule moved_receive_block)
    show "act_seq (update_remote_relays E pk (mtd_opt_local_relays rcv))
        (act_seq (act_for (mtd_mutations rcv) (\<lambda>m. mutate_friend E pk (FmTcMutation m))) (act_seq (confirm_sent_relays E pk)
        (act_seq (act_when (mtd_remote_requests_closed rcv) (act_seq (cancel_pending_requests E pk) (cancel_pending_user_requests E pk)))
        (act_seq (handle_move_token_output E pk (mtd_incoming_messages rcv)) (act_when wanted (command set_remote_wants_token pk)))))) ?s = Some (r, s')"
      using run by (simp add: handle_move_token_success_def Received command_def act_simps)
  qed (use tc out Received in \<open>auto intro!: moves.rules moved_intros\<close>)
  ultimately show ?thesis by (rule moved_trans)
next
  case Duplicate
  with run have "act_when wanted (command set_remote_wants_token pk) s = Some (r, s')" by (simp add: handle_move_token_success_def)
  then show ?thesis by (rule followsD [rotated]) (auto intro!: moves.rules moved_intros)
next
  case (RetransmitOutgoing mt')
  with run have "command set_resend_outgoing pk s = Some (r, s')" by (simp add: handle_move_token_success_def)
  then show ?thesis by (rule followsD [rotated]) (rule moved_intros)
qed

lemma moved_token_request: "follows (moved E N) (handle_move_token_request E pk req)"
proof (rule followsI)
  fix s s' :: "'a ctx" and r
  assume run: "handle_move_token_request E pk req s = Some (r, s')"
  show "moved E N s s'"
  proof (cases "hm_get (fs_friends (cx_state s)) pk")
    case None
    with run show ?thesis by (auto simp: handle_move_token_request_def run_simps moves.refl)
  next
    case (Some fr)
    show ?thesis
    proof (cases "fr_channel_status fr")
      case (Inconsistent ci)
      with run Some have "try_reset_channel E pk (ci_local_reset_terms ci) req s = Some (r, s')"
        by (simp add: handle_move_token_request_def get_friend_or_def get_state_def act_simps)
      moreover have "channel_of (cx_state s) pk = Some (Inconsistent ci)" using Some Inconsistent by (simp add: channel_of_def)
      ultimately show ?thesis by (rule moved_try_reset)
    next
      case (Consistent tc)
      let ?out = "simulate_receive_move_token (env_crypto E) (env_ser E) tc (mtr_friend_move_token req)"
      have ch: "channel_of (cx_state s) pk = Some (Consistent tc)" using Some Consistent by (simp add: channel_of_def)
      have eq: "(case ?out of Panic \<Rightarrow> act_panic | Ok out \<Rightarrow> handle_move_token_success E pk out (mtr_token_wanted req)
          | Err _ \<Rightarrow> handle_move_token_error E pk) s = Some (r, s')"
        using run Some Consistent by (simp add: handle_move_token_request_def get_friend_or_def get_state_def act_simps)
      show ?thesis
      proof (cases ?out)
        case (Ok out)
        with eq show ?thesis using moved_success [OF _ ch Ok] by simp
      next
        case (Err e)
        with eq have "handle_move_token_error E pk s = Some (r, s')" by simp
        then show ?thesis by (rule followsD [rotated]) (rule moved_intros)
      next
        case Panic
        with eq show ?thesis by (simp add: act_simps)
      qed
    qed
  qed
qed

lemma moved_friend_message: "follows (moved E N) (handle_friend_message E pk msg)"
  by (cases msg) (auto simp: handle_friend_message_def intro!: moves.rules moved_intros moved_token_request)

end
