(* ===== verification/HandleControl.thy ===== *)
theory HandleControl
  imports Canceler
begin

text \<open>
  Requests of the applications: configuration of friends and relays, payments and their
  transactions, invoices. From \<open>components/funder/src/handler/handle_control.rs\<close>. An error is
  logged by the caller and what the handler changed before it stays.
\<close>

section \<open>Configuration\<close>

datatype handle_control_error =
    HcFriendDoesNotExist
  | HcNotInvitedToReset
  | HcResetTokenMismatch
  | HcNotFirstInRoute
  | HcPaymentDestNotLastInRoute
  | HcInvalidRoute
  | HcRequestAlreadyInProgress
  | HcPendingUserRequestsFull
  | HcFriendNotReady
  | HcMaxNodeRelaysReached
  | HcPaymentAlreadyOpen
  | HcOpenPaymentNotFound
  | HcNewTransactionsNotAllowed
  | HcPaymentDoesNotExist
  | HcAckStateInvalid
  | HcAckMismatch
  | HcInvoiceAlreadyExists
  | HcInvoiceDoesNotExist
  | HcInvalidMultiCommit

type_synonym 'b control = "('b, handle_control_error, unit) handler"

definition control_set_friend_remote_max_debt :: "'b funder_env \<Rightarrow> set_friend_remote_max_debt \<Rightarrow> 'b control" where
  "control_set_friend_remote_max_debt E c =
     act_bind (get_friend_or HcFriendDoesNotExist (sfd_friend_public_key c)) (\<lambda>friend.
     if fr_wanted_remote_max_debt friend = sfd_remote_max_debt c then act_return ()
     else
       act_seq (mutate_friend E (sfd_friend_public_key c) (SetWantedRemoteMaxDebt (sfd_remote_max_debt c)))
         (command set_try_send (sfd_friend_public_key c)))"

definition control_reset_friend_channel :: "reset_friend_channel \<Rightarrow> 'b control" where
  "control_reset_friend_channel c =
     act_bind (get_friend_or HcFriendDoesNotExist (rfc_friend_public_key c)) (\<lambda>friend.
     act_seq
       (case fr_channel_status friend of
          Consistent _ \<Rightarrow> act_throw HcNotInvitedToReset
        | Inconsistent channel_inconsistent \<Rightarrow>
            (case ci_opt_remote_reset_terms channel_inconsistent of
               None \<Rightarrow> act_throw HcNotInvitedToReset
             | Some remote_reset_terms \<Rightarrow>
                 if rt_reset_token remote_reset_terms \<noteq> rfc_reset_token c then act_throw HcResetTokenMismatch
                 else act_return ()))
       (command set_local_reset (rfc_friend_public_key c)))"

definition enable_friend :: "public_key \<Rightarrow> 'b relay_address list \<Rightarrow> ('b, 'e, unit) handler" where
  "enable_friend friend_public_key friend_relays =
     act_bind (get_friend friend_public_key) (\<lambda>friend.
     push_channeler_config (CcUpdateFriend
       \<lparr> cuf_friend_public_key = friend_public_key, cuf_friend_relays = friend_relays,
         cuf_local_relays = sent_local_relays_to_vec (fr_sent_local_relays friend) \<rparr>))"

definition disable_friend :: "'b funder_env \<Rightarrow> public_key \<Rightarrow> ('b, 'e, unit) handler" where
  "disable_friend E friend_public_key =
     act_seq (cancel_pending_requests E friend_public_key)
     (act_seq (cancel_pending_user_requests E friend_public_key)
      (push_channeler_config (CcRemoveFriend friend_public_key)))"

text \<open>After a change of the relays the channeler is told and every friend is considered for sending.\<close>

definition announce_relays :: "('b, 'e, unit) handler" where
  "announce_relays =
     act_bind get_state (\<lambda>st.
     act_seq (push_channeler_config (CcSetRelays (map relay_of_named (fs_relays st))))
       (act_for (map fst (fs_friends st)) (command set_try_send)))"

definition control_add_relay :: "'b funder_env \<Rightarrow> nat \<Rightarrow> 'b named_relay_address \<Rightarrow> 'b control" where
  "control_add_relay E max_node_relays named_relay_address =
     act_bind get_state (\<lambda>st.
     if max_node_relays \<le> length (fs_relays st) then act_throw HcMaxNodeRelaysReached
     else act_seq (mutate E (AddRelay named_relay_address)) announce_relays)"

definition control_remove_relay :: "'b funder_env \<Rightarrow> public_key \<Rightarrow> 'b control" where
  "control_remove_relay E public_key = act_seq (mutate E (RemoveRelay public_key)) announce_relays"

definition control_add_friend :: "'b funder_env \<Rightarrow> 'b add_friend \<Rightarrow> 'b control" where
  "control_add_friend E add_friend = mutate E (AddFriend add_friend)"

definition control_remove_friend :: "'b funder_env \<Rightarrow> remove_friend \<Rightarrow> 'b control" where
  "control_remove_friend E c =
     act_bind (get_friend_or HcFriendDoesNotExist (rf_friend_public_key c)) (\<lambda>_.
     act_seq (disable_friend E (rf_friend_public_key c))
     (act_seq (cancel_local_pending_transactions E (rf_friend_public_key c))
      (mutate E (RemoveFriend (rf_friend_public_key c)))))"

definition control_set_friend_status :: "'b funder_env \<Rightarrow> set_friend_status \<Rightarrow> 'b control" where
  "control_set_friend_status E c =
     act_bind (get_friend_or HcFriendDoesNotExist (sfs_friend_public_key c)) (\<lambda>_.
     act_seq (mutate_friend E (sfs_friend_public_key c) (SetStatus (sfs_status c)))
     (act_bind (get_friend_or HcFriendDoesNotExist (sfs_friend_public_key c)) (\<lambda>friend.
      case sfs_status c of
        Enabled \<Rightarrow> enable_friend (sfs_friend_public_key c) (fr_remote_relays friend)
      | Disabled \<Rightarrow> disable_friend E (sfs_friend_public_key c))))"

definition control_set_requests_status :: "'b funder_env \<Rightarrow> set_requests_status \<Rightarrow> 'b control" where
  "control_set_requests_status E c =
     act_bind (get_friend_or HcFriendDoesNotExist (srs_friend_public_key c)) (\<lambda>_.
     act_seq (mutate_friend E (srs_friend_public_key c) (SetWantedLocalRequestsStatus (srs_status c)))
       (command set_try_send (srs_friend_public_key c)))"

definition control_set_friend_relays :: "'b funder_env \<Rightarrow> 'b set_friend_relays \<Rightarrow> 'b control" where
  "control_set_friend_relays E c =
     act_bind (get_friend_or HcFriendDoesNotExist (sfl_friend_public_key c)) (\<lambda>friend.
     if sfl_relays c = fr_remote_relays friend then act_return ()
     else
       act_seq (mutate_friend E (sfl_friend_public_key c) (SetRemoteRelays (sfl_relays c)))
         (act_when (fr_status friend = Enabled) (push_channeler_config (CcUpdateFriend
            \<lparr> cuf_friend_public_key = sfl_friend_public_key c, cuf_friend_relays = sfl_relays c,
              cuf_local_relays = sent_local_relays_to_vec (fr_sent_local_relays friend) \<rparr>))))"

definition control_set_friend_name :: "'b funder_env \<Rightarrow> set_friend_name \<Rightarrow> 'b control" where
  "control_set_friend_name E c =
     act_bind (get_friend_or HcFriendDoesNotExist (sfn_friend_public_key c)) (\<lambda>friend.
     if fr_name friend = sfn_name c then act_return ()
     else mutate_friend E (sfn_friend_public_key c) (SetName (sfn_name c)))"

definition control_set_friend_rate :: "'b funder_env \<Rightarrow> set_friend_rate \<Rightarrow> 'b control" where
  "control_set_friend_rate E c =
     act_bind (get_friend_or HcFriendDoesNotExist (sfr_friend_public_key c)) (\<lambda>friend.
     if fr_rate friend = sfr_rate c then act_return ()
     else mutate_friend E (sfr_friend_public_key c) (SetRate (sfr_rate c)))"

section \<open>Payments\<close>

definition control_create_payment :: "'b funder_env \<Rightarrow> create_payment \<Rightarrow> 'b control" where
  "control_create_payment E c =
     act_bind get_state (\<lambda>st.
     if hm_contains (fs_payments st) (cp_payment_id c) then act_throw HcPaymentAlreadyOpen
     else mutate E (UpdatePayment (cp_payment_id c) (NewTransactions
       \<lparr> nt_num_transactions = 0, nt_invoice_id = cp_invoice_id c,
         nt_total_dest_payment = cp_total_dest_payment c, nt_dest_public_key = cp_dest_public_key c \<rparr>)))"

text \<open>The tests of \<open>control_create_transaction_inner\<close>, which give the payment and the first friend.\<close>

definition check_create_transaction ::
  "nat \<Rightarrow> create_transaction \<Rightarrow> ('b, handle_control_error, new_transactions \<times> public_key) handler" where
  "check_create_transaction max_pending_user_requests c =
     act_bind get_state (\<lambda>st.
     act_bind get_ephemeral (\<lambda>ephemeral.
     act_bind (act_ok_or (hm_get (fs_payments st) (ct_payment_id c)) HcOpenPaymentNotFound) (\<lambda>payment.
     act_bind (case payment of
                 NewTransactions new_transactions \<Rightarrow> act_return new_transactions
               | _ \<Rightarrow> act_throw HcNewTransactionsNotAllowed) (\<lambda>new_transactions.
     let route = ct_route c; pks = public_keys route in
     if pks = [] \<or> hd pks \<noteq> fs_local_public_key st then act_throw HcNotFirstInRoute
     else if pks = [] \<or> last pks \<noteq> nt_dest_public_key new_transactions then act_throw HcPaymentDestNotLastInRoute
     else if \<not> route_is_valid route then act_throw HcInvalidRoute
     else
       act_bind (act_unwrap (index_to_pk route 1)) (\<lambda>friend_public_key.
       act_bind (get_friend_or HcFriendDoesNotExist friend_public_key) (\<lambda>friend.
       act_bind (act_unwrap (is_friend_ready st ephemeral friend_public_key)) (\<lambda>ready.
       if \<not> ready then act_throw HcFriendNotReady
       else if \<exists>user_request \<in> set (fr_pending_user_requests friend). ct_request_id c = rq_request_id user_request
       then act_throw HcRequestAlreadyInProgress
       else
         act_bind (get_channel friend_public_key) (\<lambda>token_channel.
         if hm_contains (mp_local (st_pending (get_mutual_credit token_channel))) (ct_request_id c)
         then act_throw HcRequestAlreadyInProgress
         else if max_pending_user_requests \<le> length (fr_pending_user_requests friend)
         then act_throw HcPendingUserRequestsFull
         else act_return (new_transactions, friend_public_key)))))))))"

definition control_create_transaction_inner :: "'b funder_env \<Rightarrow> nat \<Rightarrow> create_transaction \<Rightarrow> 'b control" where
  "control_create_transaction_inner E max_pending_user_requests c =
     act_bind (check_create_transaction max_pending_user_requests c) (\<lambda>(new_transactions, friend_public_key).
     act_bind (draw E PLAIN_LOCK_LEN) (\<lambda>src_plain_lock.
     act_seq (mutate E (AddTransaction (ct_request_id c) (ct_payment_id c) src_plain_lock))
     (act_bind (act_unwrap (u_checked_add (nt_num_transactions new_transactions) 1)) (\<lambda>n.
     act_seq (mutate E (UpdatePayment (ct_payment_id c) (NewTransactions (new_transactions\<lparr> nt_num_transactions := n \<rparr>))))
     (act_seq (mutate_friend E friend_public_key (PushBackPendingUserRequest
        \<lparr> rq_request_id = ct_request_id c, rq_src_hashed_lock = plain_lock_hash (env_crypto E) src_plain_lock,
          rq_route = ct_route c, rq_dest_payment = ct_dest_payment c,
          rq_total_dest_payment = nt_total_dest_payment new_transactions,
          rq_invoice_id = nt_invoice_id new_transactions, rq_left_fees = ct_fees c \<rparr>))
      (command set_try_send friend_public_key))))))"

definition control_create_transaction :: "'b funder_env \<Rightarrow> nat \<Rightarrow> create_transaction \<Rightarrow> 'b control" where
  "control_create_transaction E max_pending_user_requests c =
     act_bind get_state (\<lambda>st.
     case hm_get (fs_open_transactions st) (ct_request_id c) of
       Some open_transaction \<Rightarrow>
         (case (ot_opt_response open_transaction, find_local_pending_transaction st (ct_request_id c)) of
            (Some response_send_funds, Some pending_transaction) \<Rightarrow>
              push_control (FoTransactionResult \<lparr> tr_request_id = rs_request_id response_send_funds,
                tr_result = RrSuccess (prepare_commit (env_crypto E) response_send_funds pending_transaction
                  (ot_src_plain_lock open_transaction)) \<rparr>)
          | _ \<Rightarrow> act_return ())
     | None \<Rightarrow>
         act_bind (act_try (control_create_transaction_inner E max_pending_user_requests c)) (\<lambda>r.
         case r of
           Inl _ \<Rightarrow> push_control (FoTransactionResult \<lparr> tr_request_id = ct_request_id c, tr_result = RrFailure \<rparr>)
         | Inr _ \<Rightarrow> act_return ()))"

definition push_close_response :: "payment_id \<Rightarrow> payment_status \<Rightarrow> ('b, 'e, unit) handler" where
  "push_close_response payment_id status =
     push_control (FoResponseClosePayment \<lparr> rcp_payment_id = payment_id, rcp_status = status \<rparr>)"

text \<open>The new payment is always present, so the branch that removes a payment is never taken.\<close>

definition close_payment :: "'b funder_env \<Rightarrow> payment \<Rightarrow> ('b, 'e, payment option \<times> payment_status) handler" where
  "close_payment E payment =
     (case payment of
        NewTransactions nt \<Rightarrow> act_return (Some (InProgress (nt_num_transactions nt)), PsInProgress)
      | InProgress num_transactions \<Rightarrow>
          if num_transactions = 0
          then act_bind (draw E UID_LEN) (\<lambda>ack_uid. act_return (Some (PayCanceled ack_uid), PsCanceled ack_uid))
          else act_return (Some (InProgress num_transactions), PsInProgress)
      | PaySuccess num_transactions receipt ack_uid \<Rightarrow>
          act_return (Some (PaySuccess num_transactions receipt ack_uid), PsSuccess receipt ack_uid)
      | PayCanceled ack_uid \<Rightarrow> act_return (Some (PayCanceled ack_uid), PsCanceled ack_uid)
      | AfterSuccessAck num_transactions \<Rightarrow> act_return (Some (AfterSuccessAck num_transactions), PsPaymentNotFound))"

definition control_request_close_payment :: "'b funder_env \<Rightarrow> payment_id \<Rightarrow> 'b control" where
  "control_request_close_payment E payment_id =
     act_bind get_state (\<lambda>st.
     case hm_get (fs_payments st) payment_id of
       None \<Rightarrow> push_close_response payment_id PsPaymentNotFound
     | Some payment \<Rightarrow>
         act_bind (close_payment E payment) (\<lambda>(opt_new_payment, payment_status).
         act_seq (push_close_response payment_id payment_status)
         (case opt_new_payment of
            None \<Rightarrow> mutate E (RemovePayment payment_id)
          | Some new_payment \<Rightarrow>
              if new_payment = payment then act_return () else mutate E (UpdatePayment payment_id new_payment))))"

definition control_ack_close_payment :: "'b funder_env \<Rightarrow> ack_close_payment \<Rightarrow> 'b control" where
  "control_ack_close_payment E c =
     act_bind get_state (\<lambda>st.
     act_bind (act_ok_or (hm_get (fs_payments st) (ac_payment_id c)) HcPaymentDoesNotExist) (\<lambda>payment.
     case payment of
       NewTransactions _ \<Rightarrow> act_throw HcAckStateInvalid
     | InProgress _ \<Rightarrow> act_throw HcAckStateInvalid
     | AfterSuccessAck _ \<Rightarrow> act_throw HcAckStateInvalid
     | PaySuccess num_transactions _ ack_uid \<Rightarrow>
         if ac_ack_uid c \<noteq> ack_uid then act_throw HcAckMismatch
         else if 0 < num_transactions then mutate E (UpdatePayment (ac_payment_id c) (AfterSuccessAck num_transactions))
         else mutate E (RemovePayment (ac_payment_id c))
     | PayCanceled ack_uid \<Rightarrow>
         if ac_ack_uid c \<noteq> ack_uid then act_throw HcAckMismatch
         else mutate E (RemovePayment (ac_payment_id c))))"

section \<open>Invoices\<close>

definition control_add_invoice :: "'b funder_env \<Rightarrow> add_invoice \<Rightarrow> 'b control" where
  "control_add_invoice E c =
     act_bind get_state (\<lambda>st.
     if hm_contains (fs_open_invoices st) (ai_invoice_id c) then act_throw HcInvoiceAlreadyExists
     else mutate E (AddInvoice (ai_invoice_id c) (ai_total_dest_payment c)))"

definition control_cancel_invoice :: "'b funder_env \<Rightarrow> invoice_id \<Rightarrow> 'b control" where
  "control_cancel_invoice E invoice_id =
     act_bind get_state (\<lambda>st.
     act_bind (act_ok_or (hm_get (fs_open_invoices st) invoice_id) HcInvoiceDoesNotExist) (\<lambda>open_invoice.
     act_seq
       (act_for (map snd (oi_incoming_transactions open_invoice)) (\<lambda>incoming_transaction.
          act_bind get_state (\<lambda>st.
          act_bind (act_unwrap (find_request_origin st (it_request_id incoming_transaction))) (\<lambda>friend_public_key.
          reply_with_cancel E friend_public_key (it_request_id incoming_transaction)))))
       (mutate E (RemoveInvoice invoice_id))))"

definition commit_transaction :: "'b funder_env \<Rightarrow> open_invoice \<Rightarrow> commit \<Rightarrow> ('b, 'e, unit) handler" where
  "commit_transaction E open_invoice commit =
     (case hm_get (oi_incoming_transactions open_invoice) (cm_dest_hashed_lock commit) of
        None \<Rightarrow> act_return ()
      | Some incoming_transaction \<Rightarrow>
          act_bind get_state (\<lambda>st.
          case find_request_origin st (it_request_id incoming_transaction) of
            None \<Rightarrow> act_return ()
          | Some friend_public_key \<Rightarrow>
              act_seq (mutate_friend E friend_public_key (PushBackPendingBackwardsOp (BackCollect
                 \<lparr> cl_request_id = it_request_id incoming_transaction, cl_src_plain_lock = cm_src_plain_lock commit,
                   cl_dest_plain_lock = it_dest_plain_lock incoming_transaction \<rparr>)))
                (command set_try_send friend_public_key)))"

definition control_commit_invoice :: "'b funder_env \<Rightarrow> multi_commit \<Rightarrow> 'b control" where
  "control_commit_invoice E m =
     act_bind get_state (\<lambda>st.
     act_bind (act_ok_or (hm_get (fs_open_invoices st) (mcm_invoice_id m)) HcInvoiceDoesNotExist) (\<lambda>open_invoice.
     if \<not> verify_multi_commit (env_crypto E) m (fs_local_public_key st) then act_throw HcInvalidMultiCommit
     else
       act_seq (act_for (mcm_commits m) (commit_transaction E open_invoice))
         (mutate E (RemoveInvoice (mcm_invoice_id m)))))"

section \<open>The handler\<close>

fun handle_control_message :: "'b funder_env \<Rightarrow> nat \<Rightarrow> nat \<Rightarrow> 'b funder_control \<Rightarrow> 'b control" where
  "handle_control_message E mr mu (FcSetFriendRemoteMaxDebt c) = control_set_friend_remote_max_debt E c"
| "handle_control_message E mr mu (FcResetFriendChannel c) = control_reset_friend_channel c"
| "handle_control_message E mr mu (FcAddRelay r) = control_add_relay E mr r"
| "handle_control_message E mr mu (FcRemoveRelay pk) = control_remove_relay E pk"
| "handle_control_message E mr mu (FcAddFriend c) = control_add_friend E c"
| "handle_control_message E mr mu (FcRemoveFriend c) = control_remove_friend E c"
| "handle_control_message E mr mu (FcSetFriendStatus c) = control_set_friend_status E c"
| "handle_control_message E mr mu (FcSetRequestsStatus c) = control_set_requests_status E c"
| "handle_control_message E mr mu (FcSetFriendRelays c) = control_set_friend_relays E c"
| "handle_control_message E mr mu (FcSetFriendName c) = control_set_friend_name E c"
| "handle_control_message E mr mu (FcSetFriendRate c) = control_set_friend_rate E c"
| "handle_control_message E mr mu (FcCreatePayment c) = control_create_payment E c"
| "handle_control_message E mr mu (FcCreateTransaction c) = control_create_transaction E mu c"
| "handle_control_message E mr mu (FcRequestClosePayment p) = control_request_close_payment E p"
| "handle_control_message E mr mu (FcAckClosePayment c) = control_ack_close_payment E c"
| "handle_control_message E mr mu (FcAddInvoice c) = control_add_invoice E c"
| "handle_control_message E mr mu (FcCancelInvoice i) = control_cancel_invoice E i"
| "handle_control_message E mr mu (FcCommitInvoice m) = control_commit_invoice E m"

section \<open>Steps\<close>

lemma moved_configuration [moved_intros]:
  "follows (moved E N) (control_set_friend_remote_max_debt E c1)"
  "follows (moved E N) (control_reset_friend_channel c2)"
  "follows (moved E N) (enable_friend pk rl)"
  "follows (moved E N) (disable_friend E pk')"
  "follows (moved E N) announce_relays"
  "follows (moved E N) (control_add_relay E n c3)"
  "follows (moved E N) (control_remove_relay E pk'')"
  by (auto simp: control_set_friend_remote_max_debt_def control_reset_friend_channel_def enable_friend_def disable_friend_def
      announce_relays_def control_add_relay_def control_remove_relay_def split: channel_status.split option.split
      intro!: moves.rules moved_intros)

lemma moved_friend_settings [moved_intros]:
  "follows (moved E N) (control_set_friend_status E c1)"
  "follows (moved E N) (control_set_requests_status E c2)"
  "follows (moved E N) (control_set_friend_relays E c3)"
  "follows (moved E N) (control_set_friend_name E c4)"
  "follows (moved E N) (control_set_friend_rate E c5)"
  by (auto simp: control_set_friend_status_def control_set_requests_status_def control_set_friend_relays_def
      control_set_friend_name_def control_set_friend_rate_def split: friend_status.split intro!: moves.rules moved_intros)

lemma moved_invoices [moved_intros]:
  "follows (moved E N) (control_add_invoice E c1)"
  "follows (moved E N) (control_cancel_invoice E c2)"
  "follows (moved E N) (commit_transaction E oi cm)"
  "follows (moved E N) (control_commit_invoice E c3)"
  by (auto simp: control_add_invoice_def control_cancel_invoice_def commit_transaction_def control_commit_invoice_def
      split: option.split intro!: moves.rules moved_intros)

text \<open>Adding a friend is a step when its opening balance can be negated.\<close>

lemma moved_add_friend:
  "sint (af_balance af) \<noteq> - (2 ^ 127) \<Longrightarrow> follows (moved E N) (control_add_friend E af)"
  unfolding control_add_friend_def
  by (rule followsI) (erule moved_mutate, rule atomic.add_friend)

lemma moved_create_payment [moved_intros]: "follows (moved E N) (control_create_payment E c)"
proof (rule followsI)
  fix s s' :: "'a ctx" and r
  assume run: "control_create_payment E c s = Some (r, s')"
  show "moved E N s s'"
  proof (cases "hm_contains (fs_payments (cx_state s)) (cp_payment_id c)")
    case True
    with run show ?thesis by (auto simp: control_create_payment_def run_simps moves.refl)
  next
    case False
    with run have "mutate E (UpdatePayment (cp_payment_id c) (NewTransactions
       \<lparr> nt_num_transactions = 0, nt_invoice_id = cp_invoice_id c,
         nt_total_dest_payment = cp_total_dest_payment c, nt_dest_public_key = cp_dest_public_key c \<rparr>)) s = Some (r, s')"
      by (simp add: control_create_payment_def get_state_def act_simps)
    then show ?thesis by (rule moved_mutate) (rule atomic.create; use False in \<open>simp add: hm_contains_def\<close>)
  qed
qed

lemma close_payment_run:
  assumes "close_payment E p s = Some (r, s')"
  shows "\<exists>q status. r = Inr (Some q, status) \<and> (q = p \<or> closes p (Some q))
    \<and> cx_m_state s' = cx_m_state s \<and> cx_m_ephemeral s' = cx_m_ephemeral s"
  using assms by (cases p) (auto simp: close_payment_def run_simps split: if_splits intro: closes.intros)

lemma moved_payment_change:
  assumes "mutate E (payment_mutation pid q) s = Some (r, s')" "hm_get (fs_payments (cx_state s)) pid = Some p" "closes p q"
  shows "moved E N s s'"
  using assms(1) by (rule moved_mutate) (rule atomic.close [OF assms(2,3)])

lemma moved_request_close [moved_intros]: "follows (moved E N) (control_request_close_payment E pid)"
proof (rule followsI)
  fix s s' :: "'a ctx" and r
  assume run: "control_request_close_payment E pid s = Some (r, s')"
  show "moved E N s s'"
  proof (cases "hm_get (fs_payments (cx_state s)) pid")
    case None
    with run have "push_close_response pid PsPaymentNotFound s = Some (r, s')"
      by (simp add: control_request_close_payment_def get_state_def act_simps)
    then show ?thesis unfolding push_close_response_def by (rule followsD [rotated]) (rule moved_intros)
  next
    case (Some p)
    let ?k = "\<lambda>(q, status). act_seq (push_close_response pid status)
       (case q of None \<Rightarrow> mutate E (RemovePayment pid)
        | Some new \<Rightarrow> if new = p then act_return () else mutate E (UpdatePayment pid new))"
    have "act_bind (close_payment E p) ?k s = Some (r, s')"
      using run Some by (simp add: control_request_close_payment_def get_state_def act_simps)
    then obtain q status s2 where q: "close_payment E p s = Some (Inr (Some q, status) :: handle_control_error + _, s2)"
      "?k (Some q, status) s2 = Some (r, s')"
      unfolding bind_run using close_payment_run by fastforce
    have s2: "cx_m_state s2 = cx_m_state s" "cx_m_ephemeral s2 = cx_m_ephemeral s" "q = p \<or> closes p (Some q)"
      using close_payment_run [OF q(1)] by auto
    let ?s3 = "s2\<lparr> cx_outgoing_control := cx_outgoing_control s2 @ [FoResponseClosePayment \<lparr> rcp_payment_id = pid, rcp_status = status \<rparr>] \<rparr>"
    have rest: "(if q = p then act_return () else mutate E (UpdatePayment pid q)) ?s3 = Some (r, s')"
      using q(2) by (simp add: push_close_response_def push_control_def act_simps)
    have "moved E N s ?s3" using s2 by (intro moved_frame) simp_all
    moreover have "moved E N ?s3 s'"
    proof (cases "q = p")
      case True
      with rest show ?thesis by (simp add: run_simps moves.refl)
    next
      case False
      with rest s2 Some show ?thesis
        by (intro moved_payment_change [of E pid "Some q" ?s3 r s' p N]) simp_all
    qed
    ultimately show ?thesis by (rule moved_trans)
  qed
qed

lemma moved_ack_close [moved_intros]: "follows (moved E N) (control_ack_close_payment E c)"
proof (rule followsI)
  fix s s' :: "'a ctx" and r
  assume run: "control_ack_close_payment E c s = Some (r, s')"
  show "moved E N s s'"
  proof (cases "hm_get (fs_payments (cx_state s)) (ac_payment_id c)")
    case None
    with run show ?thesis by (auto simp: control_ack_close_payment_def run_simps moves.refl)
  next
    case (Some p)
    then have "s' = s \<or> (\<exists>q. closes p q \<and> mutate E (payment_mutation (ac_payment_id c) q) s = Some (r, s'))"
    proof (cases p)
      case (PaySuccess n receipt a)
      show ?thesis
      proof (cases "0 < n")
        case True
        with run Some PaySuccess have "s' = s \<or> mutate E (payment_mutation (ac_payment_id c) (Some (AfterSuccessAck n))) s = Some (r, s')"
          by (auto simp: control_ack_close_payment_def get_state_def act_simps split: if_splits)
        with True PaySuccess show ?thesis using closes.ack_success by blast
      next
        case False
        then have "n = 0" by (simp add: word_gt_0)
        with run Some PaySuccess have "s' = s \<or> mutate E (payment_mutation (ac_payment_id c) None) s = Some (r, s')"
          by (auto simp: control_ack_close_payment_def get_state_def act_simps split: if_splits)
        with \<open>n = 0\<close> PaySuccess show ?thesis using closes.ack_last_success by blast
      qed
    next
      case (PayCanceled a)
      with run Some show ?thesis
        by (auto simp: control_ack_close_payment_def get_state_def act_simps split: if_splits intro: closes.intros exI [of _ None])
    qed (use run in \<open>auto simp: control_ack_close_payment_def get_state_def act_simps\<close>)
    then show ?thesis using moved_payment_change [OF _ Some] by (auto simp: moves.refl)
  qed
qed

lemma moved_remove_friend [moved_intros]: "follows (moved E N) (control_remove_friend E c)"
proof (rule followsI)
  fix s s' :: "'a ctx" and r
  let ?pk = "rf_friend_public_key c"
  let ?clean = "act_seq (disable_friend E ?pk) (cancel_local_pending_transactions E ?pk) :: 'a control"
  assume run: "control_remove_friend E c s = Some (r, s')"
  show "moved E N s s'"
  proof (cases "hm_get (fs_friends (cx_state s)) ?pk")
    case None
    with run show ?thesis by (auto simp: control_remove_friend_def run_simps moves.refl)
  next
    case (Some fr)
    have "act_seq ?clean (mutate E (RemoveFriend ?pk)) s = Some (r, s')"
      using run Some unfolding control_remove_friend_def seq_run bind_run by (auto simp: run_simps)
    then show ?thesis
    proof (rule moved_seq)
      show "moved E N s s1" if "?clean s = Some (r', s1)" for r' s1
        using that by (rule followsD [rotated]) (auto intro!: moves.rules moved_intros)
      show "moved E N s1 s'" if "?clean s = Some (Inr (), s1)" "mutate E (RemoveFriend ?pk) s1 = Some (r, s')" for s1
      proof -
        have "follows friends_stay ?clean" by (auto simp: disable_friend_def intro!: stay.rules stay_intros)
        from followsD [OF this that(1)] Some have "hm_contains (fs_friends (cx_state s1)) ?pk"
          by (simp add: friends_stay_def hm_contains_def)
        with that(2) show ?thesis by (rule moved_mutate [OF _ atomic.remove_friend])
      qed
    qed
  qed
qed

interpretation still: context_order "\<lambda>s s'. s' = s"
  by unfold_locales simp_all

lemma still_reads:
  "follows (\<lambda>s s'. s' = s) get_state"
  "follows (\<lambda>s s'. s' = s) get_ephemeral"
  "follows (\<lambda>s s'. s' = s) (get_friend_or e pk)"
  "follows (\<lambda>s s'. s' = s) (get_channel pk)"
  by (rule followsI; auto simp: run_simps)+

lemma check_create_transaction_still: "follows (\<lambda>s s'. s' = s) (check_create_transaction mu c)"
  unfolding check_create_transaction_def Let_def
  by (intro still.bind still_reads still.ok_or still.unwrap still.return still.throw
      | split payment.split if_split | intro conjI impI allI)+

lemma check_create_transaction_run:
  assumes "check_create_transaction mu c s = Some (r, s')"
  shows "s' = s"
    and "r = Inr (nt, pk) \<Longrightarrow> hm_get (fs_payments (cx_state s)) (ct_payment_id c) = Some (NewTransactions nt)"
proof -
  show "s' = s" by (rule followsD [OF check_create_transaction_still assms])
  assume r: "r = Inr (nt, pk)"
  with assms obtain p where p: "hm_get (fs_payments (cx_state s)) (ct_payment_id c) = Some p"
    by (cases "hm_get (fs_payments (cx_state s)) (ct_payment_id c)") (simp_all add: check_create_transaction_def run_simps)
  from assms r show "hm_get (fs_payments (cx_state s)) (ct_payment_id c) = Some (NewTransactions nt)"
    by (cases p) (auto simp: p check_create_transaction_def Let_def run_simps split: if_splits)
qed

lemma moved_create_transaction_inner:
  fixes r :: "handle_control_error + unit"
  assumes run: "control_create_transaction_inner E mu c s = Some (r, s')"
    and new: "hm_get (fs_open_transactions (cx_state s)) (ct_request_id c) = None"
  shows "moved E N s s'"
  using run unfolding control_create_transaction_inner_def
proof (rule moved_bind)
  show "moved E N s s1" if "check_create_transaction mu c s = Some (r1 :: handle_control_error + _, s1)" for r1 s1
    using check_create_transaction_run(1) [OF that] by (simp add: moves.refl)
next
  fix x s1
  assume x: "check_create_transaction mu c s = Some (Inr x :: handle_control_error + _, s1)"
  obtain nt pk where xp: "x = (nt, pk)" by (cases x)
  have s1: "s1 = s" and pay: "hm_get (fs_payments (cx_state s)) (ct_payment_id c) = Some (NewTransactions nt)"
    using check_create_transaction_run [OF x] xp by auto
  define lock where "lock = env_rng E (cx_draws s) PLAIN_LOCK_LEN"
  define rq where "rq = \<lparr> rq_request_id = ct_request_id c, rq_src_hashed_lock = plain_lock_hash (env_crypto E) lock,
          rq_route = ct_route c, rq_dest_payment = ct_dest_payment c,
          rq_total_dest_payment = nt_total_dest_payment nt, rq_invoice_id = nt_invoice_id nt, rq_left_fees = ct_fees c \<rparr>"
  assume rest: "(case x of (nt, pk) \<Rightarrow> act_bind (draw E PLAIN_LOCK_LEN) (\<lambda>src_plain_lock.
     act_seq (mutate E (AddTransaction (ct_request_id c) (ct_payment_id c) src_plain_lock))
     (act_bind (act_unwrap (u_checked_add (nt_num_transactions nt) 1)) (\<lambda>n.
     act_seq (mutate E (UpdatePayment (ct_payment_id c) (NewTransactions (nt\<lparr> nt_num_transactions := n \<rparr>))))
     (act_seq (mutate_friend E pk (PushBackPendingUserRequest
        \<lparr> rq_request_id = ct_request_id c, rq_src_hashed_lock = plain_lock_hash (env_crypto E) src_plain_lock,
          rq_route = ct_route c, rq_dest_payment = ct_dest_payment c,
          rq_total_dest_payment = nt_total_dest_payment nt, rq_invoice_id = nt_invoice_id nt, rq_left_fees = ct_fees c \<rparr>))
      (command set_try_send pk)))))) s1 = Some (r, s')"
  then obtain n where n: "u_checked_add (nt_num_transactions nt) 1 = Some n"
    by (auto simp: xp run_simps)
  let ?gs = "[AddTransaction (ct_request_id c) (ct_payment_id c) lock, UpdatePayment (ct_payment_id c) (NewTransactions (nt\<lparr> nt_num_transactions := n \<rparr>))]"
  obtain st where st: "funder_replay (env_crypto E) (env_ser E) (cx_state s) ?gs = Some st" by simp
  let ?s2 = "s\<lparr> cx_draws := Suc (cx_draws s), cx_m_state := (cx_m_state s)\<lparr> mf_state := st, mf_mutations := mf_mutations (cx_m_state s) @ ?gs \<rparr> \<rparr>"
  have "moved E N s ?s2"
    by (rule moved_group [OF atomic.start [OF new pay n] st]) simp_all
  moreover have "act_seq (mutate_friend E pk (PushBackPendingUserRequest rq)) (command set_try_send pk) ?s2 = Some (r, s')"
    using rest n st unfolding xp rq_def lock_def s1 by (simp add: act_bind_def act_seq_def draw_def mutate_def mf_mutate_def act_simps)
  then have "moved E N ?s2 s'" by (rule followsD [rotated]) (auto intro!: moves.rules moved_intros)
  ultimately show "moved E N s1 s'" unfolding s1 by (rule moved_trans)
qed

lemma moved_create_transaction [moved_intros]: "follows (moved E N) (control_create_transaction E mu c)"
proof (rule followsI)
  fix s s' :: "'a ctx" and r
  assume run: "control_create_transaction E mu c s = Some (r, s')"
  show "moved E N s s'"
  proof (cases "hm_get (fs_open_transactions (cx_state s)) (ct_request_id c)")
    case None
    let ?fail = "push_control (FoTransactionResult \<lparr> tr_request_id = ct_request_id c, tr_result = RrFailure \<rparr>) :: 'a control"
    obtain q s1 where inner: "control_create_transaction_inner E mu c s = Some (q, s1)" and rest: "s' = s1 \<or> ?fail s1 = Some (r, s')"
      using run None by (auto simp: control_create_transaction_def run_simps split: sum.splits) (metis sumE unit.exhaust)
    have "follows (moved E N) ?fail" by (rule moved_outputs)
    with rest have "moved E N s1 s'" by (auto simp: follows_def moves.refl)
    with moved_create_transaction_inner [OF inner None] show ?thesis by (rule moved_trans)
  next
    case (Some ot)
    with run have "(case (ot_opt_response ot, find_local_pending_transaction (cx_state s) (ct_request_id c)) of
            (Some response_send_funds, Some pending_transaction) \<Rightarrow>
              push_control (FoTransactionResult \<lparr> tr_request_id = rs_request_id response_send_funds,
                tr_result = RrSuccess (prepare_commit (env_crypto E) response_send_funds pending_transaction
                  (ot_src_plain_lock ot)) \<rparr>)
          | _ \<Rightarrow> act_return ()) s = Some (r, s')"
      by (simp add: control_create_transaction_def get_state_def act_simps)
    then show ?thesis
      by (rule followsD [where R = "moved E N", rotated])
        (simp add: moves.return moved_outputs split: option.split)
  qed
qed

text \<open>The messages that do not open a channel with a balance that cannot be negated.\<close>

fun control_ok :: "'b funder_control \<Rightarrow> bool" where
  "control_ok (FcAddFriend af) = (sint (af_balance af) \<noteq> - (2 ^ 127))"
| "control_ok c = True"

lemma moved_control_message: "control_ok c \<Longrightarrow> follows (moved E N) (handle_control_message E mr mu c)"
  by (cases c) (auto intro: moved_intros moved_add_friend)

end
