(* ===== verification/FunderHandler.thy ===== *)
theory FunderHandler
  imports Sender HandleFriend HandleControl
begin

text \<open>
  One message to the funder, from its arrival to the mutations and messages it produces:
  \<open>handle_init.rs\<close>, \<open>handle_liveness.rs\<close> and \<open>handler.rs\<close> of
  \<open>components/funder/src/handler\<close>.
\<close>

section \<open>Start and liveness\<close>

definition handle_init :: "('b, 'e, unit) handler" where
  "handle_init =
     act_bind get_state (\<lambda>st.
     let enabled_friends = map (\<lambda>(_, friend).
           \<lparr> cuf_friend_public_key = fr_remote_public_key friend, cuf_friend_relays = fr_remote_relays friend,
             cuf_local_relays = sent_local_relays_to_vec (fr_sent_local_relays friend) \<rparr>)
           (filter (\<lambda>(_, friend). fr_status friend = Enabled) (fs_friends st))
     in act_seq (push_channeler_config (CcSetRelays (map relay_of_named (fs_relays st))))
          (act_for enabled_friends (\<lambda>f. push_channeler_config (CcUpdateFriend f))))"

datatype handle_liveness_error = HlFriendDoesNotExist | HlFriendIsDisabled | HlFriendAlreadyOnline

fun handle_liveness_message ::
  "'b funder_env \<Rightarrow> incoming_liveness_message \<Rightarrow> ('b, handle_liveness_error, unit) handler" where
  "handle_liveness_message E (LivenessOnline friend_public_key) =
     act_bind (get_friend_or HlFriendDoesNotExist friend_public_key) (\<lambda>friend.
     if fr_status friend = Disabled then act_throw HlFriendIsDisabled
     else
       act_bind get_ephemeral (\<lambda>e.
       if is_online (ep_liveness e) friend_public_key then act_throw HlFriendAlreadyOnline
       else
         act_seq (command set_resend_outgoing friend_public_key)
           (mutate_ephemeral (LivenessMutation (SetOnline friend_public_key)))))"
| "handle_liveness_message E (LivenessOffline friend_public_key) =
     act_seq (mutate_ephemeral (LivenessMutation (SetOffline friend_public_key)))
     (act_bind get_state (\<lambda>st.
      if hm_get (fs_friends st) friend_public_key = None then act_return ()
      else
        act_seq (cancel_pending_requests E friend_public_key)
          (cancel_pending_user_requests E friend_public_key)))"

section \<open>The whole handler\<close>

datatype funder_handler_error =
    FhHandleFriendError handle_friend_error
  | FhHandleLivenessError handle_liveness_error

record 'b funder_handler_output =
  fho_funder_mutations :: "'b funder_mutation list"
  fho_ephemeral_mutations :: "ephemeral_mutation list"
  fho_outgoing_comms :: "'b funder_outgoing_comm list"
  fho_outgoing_control :: "'b funder_outgoing_control list"

text \<open>\<open>map_err\<close>\<close>

definition act_map_err :: "('d \<Rightarrow> 'e) \<Rightarrow> ('s, 'd, unit) action \<Rightarrow> ('s, 'e, unit) action" where
  "act_map_err f m = act_bind (act_try m) (\<lambda>r. case r of Inl e \<Rightarrow> act_throw (f e) | Inr _ \<Rightarrow> act_return ())"

text \<open>
  The send commands and the outgoing messages start empty. The result is the identifier of the
  application's request, if the message was one.
\<close>

definition funder_handle_incoming ::
  "'b funder_env \<Rightarrow> nat \<Rightarrow> nat \<Rightarrow> 'b funder_incoming \<Rightarrow> ('b, funder_handler_error, uid option) handler" where
  "funder_handle_incoming E max_node_relays max_pending_user_requests funder_incoming =
     act_seq (act_modify (\<lambda>s. s\<lparr> cx_send_commands := send_commands_new, cx_outgoing_control := [],
         cx_outgoing_channeler_config := [] \<rparr>))
     (case funder_incoming of
        FiInit \<Rightarrow> act_seq handle_init (act_return None)
      | FiControl c \<Rightarrow>
          act_bind (act_try (handle_control_message E max_node_relays max_pending_user_requests (fic_funder_control c)))
            (\<lambda>_. act_return (Some (fic_app_request_id c)))
      | FiComm (FicLiveness liveness_message) \<Rightarrow>
          act_seq (act_map_err FhHandleLivenessError (handle_liveness_message E liveness_message)) (act_return None)
      | FiComm (FicFriend origin_public_key friend_message) \<Rightarrow>
          act_seq (act_map_err FhHandleFriendError (handle_friend_message E origin_public_key friend_message))
            (act_return None))"

definition initial_ctx :: "'b funder_state \<Rightarrow> ephemeral \<Rightarrow> nat \<Rightarrow> 'b ctx" where
  "initial_ctx st e draws =
     \<lparr> cx_m_state = mf_new st, cx_m_ephemeral = me_new e, cx_send_commands = send_commands_new,
       cx_outgoing_control = [], cx_outgoing_channeler_config = [], cx_outgoing_messages = [],
       cx_pending_move_tokens = [], cx_cancel_public_keys = [], cx_draws = draws \<rparr>"

definition build_output ::
  "'b funder_env \<Rightarrow> uid option \<Rightarrow> 'b funder_outgoing_control list \<Rightarrow> 'b channeler_config list \<Rightarrow> 'b ctx
    \<Rightarrow> 'b funder_handler_output option" where
  "build_output E opt_app_request_id handle_outgoing_control handle_channeler_config s =
     (case mf_done (cx_m_state s) of
        None \<Rightarrow> None
      | Some (initial_state, funder_mutations, _) \<Rightarrow>
          (let ephemeral_mutations = fst (me_done (cx_m_ephemeral s)) in
           case create_report_mutations (env_crypto E) (env_ser E) initial_state funder_mutations ephemeral_mutations of
             None \<Rightarrow> None
           | Some report_mutations \<Rightarrow> Some
               \<lparr> fho_funder_mutations = funder_mutations, fho_ephemeral_mutations = ephemeral_mutations,
                 fho_outgoing_comms = map FocChannelerConfig handle_channeler_config
                   @ map FocChannelerConfig (cx_outgoing_channeler_config s)
                   @ map (\<lambda>(pk, m). FocFriendMessage pk m) (cx_outgoing_messages s),
                 fho_outgoing_control =
                   (if report_mutations \<noteq> [] \<or> opt_app_request_id \<noteq> None
                    then [FoReportMutations \<lparr> frm_opt_app_request_id = opt_app_request_id, frm_mutations = report_mutations \<rparr>]
                    else [])
                   @ handle_outgoing_control @ cx_outgoing_control s \<rparr>))"

text \<open>
  The result of one message: \<open>Panic\<close>, an error, or the output. \<open>draws\<close> is the number of random
  values drawn before.
\<close>

definition funder_handle_message ::
  "'b funder_env \<Rightarrow> 'b funder_state \<Rightarrow> ephemeral \<Rightarrow> nat \<Rightarrow> nat \<Rightarrow> nat \<Rightarrow> nat \<Rightarrow> 'b funder_incoming
    \<Rightarrow> ('b funder_handler_output, funder_handler_error) res" where
  "funder_handle_message E funder_state funder_ephemeral draws max_node_relays max_operations_in_batch
     max_pending_user_requests funder_incoming =
     (case funder_handle_incoming E max_node_relays max_pending_user_requests funder_incoming
             (initial_ctx funder_state funder_ephemeral draws) of
        None \<Rightarrow> Panic
      | Some (Inl e, _) \<Rightarrow> Err e
      | Some (Inr opt_app_request_id, s) \<Rightarrow>
          (case (act_seq (sign_responses E)
                  (create_friend_messages E max_operations_in_batch (cx_send_commands s)) :: ('b, unit, unit) handler) s of
             None \<Rightarrow> Panic
           | Some (_, s') \<Rightarrow>
               (case build_output E opt_app_request_id (cx_outgoing_control s) (cx_outgoing_channeler_config s) s' of
                  None \<Rightarrow> Panic
                | Some out \<Rightarrow> Ok out)))"

section \<open>A message moves the state by atomic steps\<close>

lemma moved_init [moved_intros]: "follows (moved E N) handle_init"
  unfolding handle_init_def Let_def by (intro moves.bind moves.seq moves.loop moved_intros)

lemma moved_liveness [moved_intros]: "follows (moved E N) (handle_liveness_message E m)"
  by (cases m) (auto intro!: moves.rules moved_intros)

lemma moved_sign_response: "follows (moved E N) (sign_response E sr)"
  unfolding sign_response_def Let_def by (intro moves.bind moves.seq moved_intros) simp_all

lemma moved_sign_responses: "follows (moved E N) (sign_responses E)"
  unfolding sign_responses_def
  by (intro moves.bind moves.seq moves.gets moves.loop moves.modify moved_sign_response) (simp add: moved_frame)

lemma moved_map_err: "follows (moved E N) m \<Longrightarrow> follows (moved E N) (act_map_err f m)"
  unfolding act_map_err_def by (rule moves.bind, rule moves.attempt) (auto split: sum.split intro: moves.rules)

text \<open>An incoming message that does not ask for a channel with a balance that cannot be negated.\<close>

fun incoming_ok :: "'b funder_incoming \<Rightarrow> bool" where
  "incoming_ok (FiControl c) = control_ok (fic_funder_control c)"
| "incoming_ok _ = True"

lemma moved_handle_incoming:
  assumes "incoming_ok m"
  shows "follows (moved E N) (funder_handle_incoming E mr mu m)"
proof -
  have start: "follows (moved E N) (act_modify (\<lambda>s. s\<lparr> cx_send_commands := send_commands_new, cx_outgoing_control := [],
         cx_outgoing_channeler_config := [] \<rparr>))"
    by (rule moves.modify) (simp add: moved_frame)
  show ?thesis unfolding funder_handle_incoming_def
  proof (rule moves.seq [OF start], cases m)
    case (FiControl c)
    with assms show "follows (moved E N) (case m of
        FiInit \<Rightarrow> act_seq handle_init (act_return None)
      | FiControl c \<Rightarrow>
          act_bind (act_try (handle_control_message E mr mu (fic_funder_control c)))
            (\<lambda>_. act_return (Some (fic_app_request_id c)))
      | FiComm (FicLiveness liveness_message) \<Rightarrow>
          act_seq (act_map_err FhHandleLivenessError (handle_liveness_message E liveness_message)) (act_return None)
      | FiComm (FicFriend origin_public_key friend_message) \<Rightarrow>
          act_seq (act_map_err FhHandleFriendError (handle_friend_message E origin_public_key friend_message))
            (act_return None))"
      by (simp add: moves.bind moves.attempt moves.return moved_control_message)
  qed (auto split: funder_incoming_comm.split intro!: moves.seq moves.return moved_map_err moved_intros moved_friend_message)
qed

section \<open>Reports\<close>

text \<open>The handlers push no report mutations of their own.\<close>

fun is_report :: "'b funder_outgoing_control \<Rightarrow> bool" where
  "is_report (FoReportMutations _) = True"
| "is_report _ = False"

definition unreported :: "'b ctx \<Rightarrow> bool" where
  "unreported s \<longleftrightarrow> (\<forall>c \<in> set (cx_outgoing_control s). \<not> is_report c)"

definition keeps_unreported :: "'b ctx \<Rightarrow> 'b ctx \<Rightarrow> bool" where
  "keeps_unreported s s' \<longleftrightarrow> (unreported s \<longrightarrow> unreported s')"

interpretation quiet: context_order keeps_unreported
  by unfold_locales (auto simp: keeps_unreported_def)

named_theorems quiet_intros \<open>steps that push no report\<close>

lemma quiet_same: "cx_outgoing_control s' = cx_outgoing_control s \<Longrightarrow> keeps_unreported s s'"
  by (simp add: keeps_unreported_def unreported_def)

lemma quiet_primitives [quiet_intros]:
  "follows keeps_unreported get_state"
  "follows keeps_unreported get_ephemeral"
  "follows keeps_unreported (get_friend pk)"
  "follows keeps_unreported (get_friend_or e pk)"
  "follows keeps_unreported (get_channel pk)"
  "follows keeps_unreported (get_pending pk)"
  "follows keeps_unreported (put_pending pk p)"
  "follows keeps_unreported (draw E len)"
  "follows keeps_unreported (mutate E m)"
  "follows keeps_unreported (mutate_ephemeral em)"
  "follows keeps_unreported (command f pk)"
  "follows keeps_unreported (push_channeler_config cc)"
  "follows keeps_unreported (push_message pk fm)"
  "follows keeps_unreported (queue_unsigned_response pk pt)"
  by (rule followsI; rule quiet_same; auto simp: run_simps run_get_pending mutate_ephemeral_def command_def
      put_pending_def push_channeler_config_def push_message_def queue_unsigned_response_def)+

lemma quiet_mutate_friend [quiet_intros]: "follows keeps_unreported (mutate_friend E pk m)"
  unfolding mutate_friend_def by (rule quiet_intros)

lemma quiet_push [quiet_intros]: "\<not> is_report c \<Longrightarrow> follows keeps_unreported (push_control c)"
  unfolding push_control_def by (rule quiet.modify) (auto simp: keeps_unreported_def unreported_def)

lemma quiet_modify [quiet_intros]:
  "follows keeps_unreported (act_modify (\<lambda>s. s\<lparr> cx_cancel_public_keys := f s \<rparr>))"
  "follows keeps_unreported (act_modify (\<lambda>s. s\<lparr> cx_pending_move_tokens := g s \<rparr>))"
  "follows keeps_unreported (act_modify (\<lambda>s. s\<lparr> cx_m_state := h s \<rparr>))"
  by (rule quiet.modify, rule quiet_same, simp)+

lemma quiet_removal [quiet_intros]: "follows keeps_unreported (payment_after_removal E p)"
  unfolding payment_after_removal_def by (auto split: payment.split intro!: quiet.rules quiet_intros)

lemma quiet_remove [quiet_intros]: "follows keeps_unreported (remove_transaction E rid)"
  unfolding remove_transaction_def by (auto intro!: quiet.rules quiet_intros)

lemma quiet_cancels [quiet_intros]:
  "follows keeps_unreported (cancel_request E rid)"
  "follows keeps_unreported (cancel_local_pending_transaction E rp)"
  unfolding cancel_request_def cancel_local_pending_transaction_def
  by (auto split: option.split prod.split intro!: quiet.rules quiet_intros)

lemma quiet_queues [quiet_intros]:
  "follows keeps_unreported (cancel_local_pending_transactions E pk)"
  "follows keeps_unreported (cancel_pending_requests E pk)"
  "follows keeps_unreported (cancel_pending_user_requests E pk)"
  "follows keeps_unreported (reply_with_cancel E pk rid)"
  unfolding cancel_local_pending_transactions_def cancel_pending_requests_def cancel_pending_user_requests_def reply_with_cancel_def
  by (auto intro!: quiet.rules quiet_intros)

lemma quiet_payment_operations [quiet_intros]:
  "follows keeps_unreported (forward_request E rq)"
  "follows keeps_unreported (handle_response_send_funds E rs pt)"
  "follows keeps_unreported (handle_cancel_send_funds E cn pt)"
  "follows keeps_unreported (payment_after_collect E cl ot pt p)"
  unfolding forward_request_def handle_response_send_funds_def handle_cancel_send_funds_def payment_after_collect_def Let_def
  by (auto split: option.split payment.split intro!: quiet.rules quiet_intros)

lemma quiet_collect [quiet_intros]: "follows keeps_unreported (handle_collect_send_funds E cl pt)"
  unfolding handle_collect_send_funds_def by (auto split: option.split intro!: quiet.rules quiet_intros)

lemma quiet_request [quiet_intros]: "follows keeps_unreported (handle_request_send_funds E pk rq)"
  unfolding handle_request_send_funds_def Let_def
  by (auto split: option.split bool.split intro!: quiet.rules quiet_intros)

lemma quiet_incoming [quiet_intros]: "follows keeps_unreported (handle_incoming_message E pk im)"
  by (cases im) (auto intro: quiet_intros)

lemma quiet_move_token_parts [quiet_intros]:
  "follows keeps_unreported (gen_reset_terms E tc)"
  "follows keeps_unreported (update_remote_relays E pk relays)"
  "follows keeps_unreported (confirm_sent_relays E pk)"
  "follows keeps_unreported (try_reset_channel E pk terms req)"
  "follows keeps_unreported (handle_move_token_output E pk ims)"
  unfolding gen_reset_terms_def gen_channel_reset_token_def update_remote_relays_def confirm_sent_relays_def
    try_reset_channel_def handle_move_token_output_def Let_def
  by (auto split: option.split sent_local_relays.split intro!: quiet.rules quiet_intros)

lemma quiet_move_token [quiet_intros]:
  "follows keeps_unreported (handle_move_token_error E pk)"
  "follows keeps_unreported (handle_move_token_success E pk rcv tw)"
  unfolding handle_move_token_error_def handle_move_token_success_def Let_def
  by (auto split: receive_move_token_output.split intro!: quiet.rules quiet_intros)

lemma quiet_friend_message [quiet_intros]: "follows keeps_unreported (handle_friend_message E pk fm)"
  unfolding handle_friend_message_def handle_move_token_request_def handle_inconsistency_error_def
  by (auto split: friend_message.split channel_status.split res.split intro!: quiet.rules quiet_intros)

lemma quiet_control_parts [quiet_intros]:
  "follows keeps_unreported (enable_friend pk relays)"
  "follows keeps_unreported (disable_friend E pk)"
  "follows keeps_unreported announce_relays"
  "follows keeps_unreported (push_close_response pid ps)"
  "follows keeps_unreported (close_payment E p)"
  "follows keeps_unreported (check_create_transaction mu ct)"
  "follows keeps_unreported (commit_transaction E oi cm)"
  unfolding enable_friend_def disable_friend_def announce_relays_def push_close_response_def close_payment_def commit_transaction_def
    check_create_transaction_def Let_def
  by (auto split: payment.split option.split intro!: quiet.rules quiet_intros)

lemmas control_defs = control_set_friend_remote_max_debt_def control_reset_friend_channel_def control_add_relay_def
  control_remove_relay_def control_add_friend_def control_remove_friend_def control_set_friend_status_def
  control_set_requests_status_def control_set_friend_relays_def control_set_friend_name_def control_set_friend_rate_def
  control_create_payment_def control_create_transaction_inner_def control_create_transaction_def
  control_request_close_payment_def control_ack_close_payment_def control_add_invoice_def control_cancel_invoice_def
  control_commit_invoice_def

lemma quiet_control [quiet_intros]: "follows keeps_unreported (handle_control_message E mr mu c)"
  by (cases c) (auto simp: control_defs Let_def
      split: option.split payment.split channel_status.split prod.split sum.split friend_status.split
      intro!: quiet.rules quiet_intros)

lemma quiet_sender_parts [quiet_intros]:
  "follows keeps_unreported (take_pending pk)"
  "follows keeps_unreported (pm_queue_operation E pk op)"
  "follows keeps_unreported (transmit_outgoing pk tw)"
  "follows keeps_unreported (apply_local_reset E pk ci)"
  "follows keeps_unreported (init_cancel_pending_move_token e N keys)"
  unfolding take_pending_def pm_queue_operation_def transmit_outgoing_def apply_local_reset_def
    init_cancel_pending_move_token_def Let_def
  by (auto split: res.split queue_operation_error.split tc_direction.split intro!: quiet.rules quiet_intros)

lemma quiet_queue_or_cancel [quiet_intros]: "follows keeps_unreported (queue_operation_or_cancel E pk op)"
  unfolding queue_operation_or_cancel_def
  by (cases op) (auto split: sum.split pending_queue_error.split option.split intro!: quiet.rules quiet_intros)

lemma quiet_collects [quiet_intros]:
  "follows keeps_unreported (collect_local_relays E pk)"
  "follows keeps_unreported (collect_remote_max_debt E pk)"
  "follows keeps_unreported (collect_requests_status E pk)"
  "follows keeps_unreported (collect_backwards_ops E pk)"
  "follows keeps_unreported (collect_pending_requests E pk)"
  "follows keeps_unreported (collect_pending_user_requests E pk)"
  unfolding collect_local_relays_def collect_remote_max_debt_def collect_requests_status_def collect_backwards_ops_def
    collect_pending_requests_def collect_pending_user_requests_def Let_def
  by (auto split: option.split sent_local_relays.split intro!: quiet.rules quiet_intros)

text \<open>The control messages put aside while the cancels are appended are put back.\<close>

lemma quiet_append_cancel:
  fixes k :: "('b, 'e, unit) handler"
  assumes "follows keeps_unreported m" "follows keeps_unreported k"
  shows "follows keeps_unreported (act_bind (act_gets (\<lambda>s. (cx_cancel_public_keys s, cx_outgoing_control s)))
    (\<lambda>(keys, control). act_seq (act_modify (\<lambda>s. s\<lparr> cx_cancel_public_keys := [], cx_outgoing_control := [] \<rparr>))
       (act_bind m (\<lambda>r. act_seq (act_modify (\<lambda>s. s\<lparr> cx_cancel_public_keys := keys, cx_outgoing_control := control \<rparr>))
         (case r of Inl e \<Rightarrow> act_throw e | Inr _ \<Rightarrow> k)))))" (is "follows _ (act_bind _ (\<lambda>(keys, control). ?go keys control))")
proof (rule followsI)
  fix s s' :: "'b ctx" and r
  assume "act_bind (act_gets (\<lambda>s. (cx_cancel_public_keys s, cx_outgoing_control s))) (\<lambda>(keys, control). ?go keys control) s = Some (r, s')"
  then have run: "?go (cx_cancel_public_keys s) (cx_outgoing_control s) s = Some (r, s')"
    by (simp add: bind_run [of "act_gets f" for f] run_gets)
  show "keeps_unreported s s'" unfolding keeps_unreported_def
  proof (intro impI)
    assume un: "unreported s"
    have "follows keeps_unreported (act_modify (\<lambda>s. s\<lparr> cx_cancel_public_keys := [], cx_outgoing_control := [] \<rparr>))"
      "follows keeps_unreported (act_modify (\<lambda>t. t\<lparr> cx_cancel_public_keys := cx_cancel_public_keys s, cx_outgoing_control := cx_outgoing_control s \<rparr>))"
      by (rule quiet.modify, use un in \<open>simp add: keeps_unreported_def unreported_def\<close>)+
    with assms have "follows keeps_unreported (?go (cx_cancel_public_keys s) (cx_outgoing_control s))"
      by (intro quiet.seq quiet.bind) (auto split: sum.split intro: quiet.throw)
    from followsD [OF this run] un show "unreported s'" by (simp add: keeps_unreported_def)
  qed
qed

lemma quiet_batch [quiet_intros]:
  "follows keeps_unreported (collect_outgoing_move_token E pk)"
  "follows keeps_unreported (append_cancels_to_move_token E pk)"
  unfolding collect_outgoing_move_token_def append_cancels_to_move_token_def
  by (intro quiet.seq quiet.bind quiet.loop quiet_append_cancel quiet.attempt quiet_intros)+

lemma quiet_sends [quiet_intros]:
  "follows keeps_unreported (send_friend_iter1 E N pk cs)"
  "follows keeps_unreported (send_move_token E pk p)"
  unfolding send_friend_iter1_def iter1_local_reset_def iter1_transmit_def send_move_token_def Let_def
  by (auto split: channel_status.split tc_direction.split intro!: quiet.rules quiet_intros)

lemma quiet_send_batches: "follows keeps_unreported (send_batches E N cs e)"
  unfolding send_batches_def by (auto intro!: quiet.rules quiet_intros)

lemma quiet_sign: "sign_responses E s = Some (r, s') \<Longrightarrow> keeps_unreported s s'"
  by (rule followsD [of _ "sign_responses E"])
    (auto simp: sign_responses_def sign_response_def Let_def intro!: quiet.rules quiet_intros)

lemma unreported_handle_incoming:
  assumes "funder_handle_incoming E mr mu m s = Some (r, s')"
  shows "unreported s'"
proof -
  let ?s = "s\<lparr> cx_send_commands := send_commands_new, cx_outgoing_control := [], cx_outgoing_channeler_config := [] \<rparr>"
  define handle where "handle = (case m of
        FiInit \<Rightarrow> act_seq handle_init (act_return None)
      | FiControl c \<Rightarrow>
          act_bind (act_try (handle_control_message E mr mu (fic_funder_control c)))
            (\<lambda>_. act_return (Some (fic_app_request_id c)))
      | FiComm (FicLiveness liveness_message) \<Rightarrow>
          act_seq (act_map_err FhHandleLivenessError (handle_liveness_message E liveness_message)) (act_return None)
      | FiComm (FicFriend origin_public_key friend_message) \<Rightarrow>
          act_seq (act_map_err FhHandleFriendError (handle_friend_message E origin_public_key friend_message))
            (act_return None))"
  have live: "follows keeps_unreported (handle_liveness_message E lm)" for lm
    by (cases lm) (auto intro!: quiet.rules quiet_intros)
  have err: "follows keeps_unreported (act_map_err f n)" if "follows keeps_unreported n" for f and n :: "('a, 'd, unit) handler"
    unfolding act_map_err_def using that by (auto split: sum.split intro!: quiet.rules)
  have "follows keeps_unreported handle" unfolding handle_def handle_init_def
    by (auto split: funder_incoming.split funder_incoming_comm.split intro!: quiet.rules quiet_intros live err)
  moreover have "handle ?s = Some (r, s')"
    using assms by (simp add: funder_handle_incoming_def handle_def seq_run run_modify)
  ultimately have "keeps_unreported ?s s'" by (rule followsD)
  then show ?thesis by (simp add: keeps_unreported_def unreported_def)
qed

lemma unreported_messages:
  assumes "create_friend_messages E N cs s = Some (r, s')"
  shows "unreported s'"
proof -
  obtain e where "send_batches E N cs e (s\<lparr> cx_outgoing_control := [], cx_outgoing_messages := [],
         cx_outgoing_channeler_config := [], cx_pending_move_tokens := [], cx_cancel_public_keys := [] \<rparr>) = Some (r, s')"
    using assms by (auto simp: create_friend_messages_def bind_run seq_run run_get_ephemeral run_modify)
  from followsD [OF quiet_send_batches this] show ?thesis by (simp add: keeps_unreported_def unreported_def)
qed

text \<open>What one handled message does to the state, and what it reports.\<close>

definition reported_mutations :: "'b funder_outgoing_control list \<Rightarrow> 'b funder_report_mutation list" where
  "reported_mutations cs = concat (map (\<lambda>c. case c of FoReportMutations m \<Rightarrow> frm_mutations m | _ \<Rightarrow> []) cs)"

lemma reported_mutations_unreported: "unreported s \<Longrightarrow> reported_mutations (cx_outgoing_control s) = []"
  by (auto simp: reported_mutations_def unreported_def split: funder_outgoing_control.splits)

lemma reported_mutations_simps [simp]:
  "reported_mutations [] = []"
  "reported_mutations (FoReportMutations m # cs) = frm_mutations m @ reported_mutations cs"
  "reported_mutations (xs @ ys) = reported_mutations xs @ reported_mutations ys"
  by (simp_all add: reported_mutations_def)

lemma handled_message:
  assumes run: "funder_handle_message E st e d mr N mu m = Ok out" and ok: "incoming_ok m" "channels_ok N st"
  obtains st' where "steps E N st (fho_funder_mutations out) st'"
    and "create_report_mutations (env_crypto E) (env_ser E) st (fho_funder_mutations out) (fho_ephemeral_mutations out)
      = Some (reported_mutations (fho_outgoing_control out))"
proof -
  let ?s0 = "initial_ctx st e d"
  obtain oid s1 where s1: "funder_handle_incoming E mr mu m ?s0 = Some (Inr oid, s1)"
    using run by (auto simp: funder_handle_message_def split: option.splits sum.splits)
  let ?rest = "act_seq (sign_responses E) (create_friend_messages E N (cx_send_commands s1)) :: ('a, unit, unit) handler"
  obtain r s3 where s3: "?rest s1 = Some (r, s3)"
    and out: "build_output E oid (cx_outgoing_control s1) (cx_outgoing_channeler_config s1) s3 = Some out"
    using run s1 by (auto simp: funder_handle_message_def split: option.splits)
  have mv1: "moved E N ?s0 s1" by (rule followsD [OF moved_handle_incoming [OF ok(1)] s1])
  have start: "cx_state ?s0 = st" "mf_mutations (cx_m_state ?s0) = []" "mf_initial_state (cx_m_state ?s0) = st"
    "me_mutations (cx_m_ephemeral ?s0) = []" "me_ephemeral (cx_m_ephemeral ?s0) = e"
    by (simp_all add: initial_ctx_def mf_new_def me_new_def)
  have ch1: "channels_ok N (cx_state s1)" using channels_ok_moved [OF mv1] ok(2) by (simp add: start)
  have signed: "moved E N s1 t" if "sign_responses E s1 = Some (q :: unit + unit, t)" for q t
    using that by (rule followsD [OF moved_sign_responses])
  have mv3: "moved E N s1 s3"
    using s3 by (rule moved_seq) (use signed ch1 channels_ok_moved moved_create_friend_messages in blast)+
  have un1: "unreported s1" by (rule unreported_handle_incoming [OF s1])
  have un3: "unreported s3"
    using s3 un1 quiet_sign unreported_messages unfolding seq_run by (auto simp: keeps_unreported_def)
  obtain ms where ms: "mf_mutations (cx_m_state s3) = ms" "mf_initial_state (cx_m_state s3) = st" "steps E N st ms (cx_state s3)"
    using moved_trans [OF mv1 mv3] by (auto simp: moved_def start)
  obtain rms where rms: "create_report_mutations (env_crypto E) (env_ser E) st ms (me_mutations (cx_m_ephemeral s3)) = Some rms"
    and fields: "fho_funder_mutations out = ms" "fho_ephemeral_mutations out = me_mutations (cx_m_ephemeral s3)"
      "reported_mutations (fho_outgoing_control out) = rms"
    using out ms un1 un3
    by (auto simp: build_output_def Let_def mf_done_def me_done_def reported_mutations_unreported split: option.splits if_splits)
  show thesis by (rule that [of "cx_state s3"]) (use ms rms fields in simp_all)
qed

end
