(* ===== verification/ChannelProtocol.thy ===== *)
theory ChannelProtocol
  imports TokenChannel
begin

text \<open>
  The two ends of a token channel exchanging move tokens. \<open>send_batch\<close> composes the calls the
  sender makes to fill a batch and turn the token around (\<open>send_friend_iter1\<close> and
  \<open>send_move_token\<close> of \<open>handler/sender.rs\<close>), \<open>receive_token\<close> those of the receiver
  (\<open>handle_move_token_success\<close> of \<open>handler/handle_friend.rs\<close>). The step relation of the
  protocol lets the ends send any batch the sender can fill and delivers the current token of an
  end never, once or repeatedly.
\<close>

section \<open>Sending and receiving\<close>

text \<open>
  The operations in \<open>tries\<close> are those \<open>collect_outgoing_move_token\<close> attempts, in order;
  \<open>push_operations\<close> says which of them get into the batch. \<open>None\<close> is the case that the end does
  not hold the token, or an \<open>unreachable!()\<close> of the code.
\<close>

definition send_batch ::
  "crypto_api \<Rightarrow> ('b \<Rightarrow> bytes) \<Rightarrow> (bytes \<Rightarrow> signature) \<Rightarrow> 'b token_channel \<Rightarrow> friend_tc_op list
    \<Rightarrow> 'b relay_address list option \<Rightarrow> rand_value \<Rightarrow> ('b token_channel \<times> ('b, signature) move_token) option" where
  "send_batch C ser sign tc tries relays nonce =
     (case tc_direction tc of
        TcOutgoing t \<Rightarrow> None
      | TcIncoming ti \<Rightarrow>
          Option.bind (push_operations C (begin_outgoing_move_token ti) tries) (\<lambda>(om, ms, ops).
          Option.bind (tc_replay tc (map TcMcMutation ms)) (\<lambda>tc1.
          (case tc_direction tc1 of
             TcOutgoing _ \<Rightarrow> None
           | TcIncoming ti1 \<Rightarrow>
               let mt = sign_move_token C ser sign (ti_create_unsigned_move_token ti1 ops relays nonce) in
               map_option (\<lambda>tc2. (tc2, mt)) (tc_mutate tc1 (TcSetDirection (SdOutgoing mt)))))))"

definition receive_token ::
  "crypto_api \<Rightarrow> ('b \<Rightarrow> bytes) \<Rightarrow> 'b token_channel \<Rightarrow> ('b, signature) move_token
    \<Rightarrow> ('b token_channel \<times> 'b receive_move_token_output, receive_move_token_error) res" where
  "receive_token C ser tc mt =
     res_bind (simulate_receive_move_token C ser tc mt) (\<lambda>out.
     case out of
       Received r \<Rightarrow> res_bind (unwrap (tc_replay tc (mtd_mutations r))) (\<lambda>tc'. Ok (tc', out))
     | _ \<Rightarrow> Ok (tc, out))"

text \<open>
  The two ends agree: one is incoming and holds the hash of the token the other sent last, and
  their credit lines are mirror images.
\<close>

definition synced :: "crypto_api \<Rightarrow> ('b \<Rightarrow> bytes) \<Rightarrow> 'b token_channel \<Rightarrow> 'b token_channel \<Rightarrow> bool" where
  "synced C ser holder other =
     (case (tc_direction holder, tc_direction other) of
        (TcIncoming ti, TcOutgoing t) \<Rightarrow>
          ti_move_token_in ti = create_hashed C ser (to_move_token_out t)
          \<and> mirrored (ti_mutual_credit ti) (to_mutual_credit t)
          \<and> mc_inv (ti_mutual_credit ti) \<and> mc_inv (to_mutual_credit t)
          \<and> mt_local_public_key (to_move_token_out t) = mi_local_public_key (st_idents (to_mutual_credit t))
          \<and> mt_remote_public_key (to_move_token_out t) = mi_remote_public_key (st_idents (to_mutual_credit t))
      | _ \<Rightarrow> False)"

definition signs_for :: "crypto_api \<Rightarrow> (bytes \<Rightarrow> signature) \<Rightarrow> public_key \<Rightarrow> bool" where
  "signs_for C sign pk \<longleftrightarrow> (\<forall>buff. verify_signature C buff pk (sign buff))"

definition local_key :: "'b token_channel \<Rightarrow> public_key" where
  "local_key tc = mi_local_public_key (st_idents (get_mutual_credit tc))"

definition local_open :: "'b token_channel \<Rightarrow> bool" where
  "local_open tc = is_open (mr_local (st_requests_status (get_mutual_credit tc)))"

text \<open>
  A batch is sound for the end that sends it if each of its operations can be queued (so no
  request of it repeats a pending one, which the sender pushes all the same), if it disables
  requests only while they are enabled, and if the counter of move tokens is not exhausted.
\<close>

definition sound_batch :: "crypto_api \<Rightarrow> 'b token_channel \<Rightarrow> friend_tc_op list \<Rightarrow> bool" where
  "sound_batch C tc ops \<longleftrightarrow>
     (case queue_operations C (outgoing_mc_new (get_mutual_credit tc)) ops of Ok _ \<Rightarrow> True | _ \<Rightarrow> False)
     \<and> disable_guarded (local_open tc) ops
     \<and> get_move_token_counter tc \<noteq> - 1"

section \<open>One exchange\<close>

lemma i_fits_neg_word: "sint (b :: 'a::len word) = - sint a \<Longrightarrow> i_checked_neg a = Some b"
proof -
  assume b: "sint b = - sint a"
  then have fits: "i_fits TYPE('a) (- sint a)" using sint_fits [of b] by simp
  then have "sint (- a) = sint b" using b by (simp add: sint_neg_fits)
  then have "- a = b" by (rule signed_word_eqI)
  with fits show ?thesis by (simp add: i_checked_neg_def)
qed

lemma u_checked_add_one: "c \<noteq> - 1 \<Longrightarrow> u_checked_add c 1 = Some (c + 1 :: u128)"
  using uint_lt2p [of c] by (auto simp: u_checked_add_def u_fits_def word_uint_eq_iff unsigned_minus_1_eq_mask mask_eq_exp_minus_1)

lemma mc_inv_balance: "mc_inv mc \<Longrightarrow> sint (mb_balance (st_balance mc)) \<noteq> - (2 ^ 127)"
  using u128_range(1) [of "mb_local_pending_debt (st_balance mc)"] unfolding mc_inv_def Let_def by linarith

lemma mc_mutate_idents: "mc_mutate mc m = Some mc' \<Longrightarrow> st_idents mc' = st_idents mc"
  by (cases m) (auto simp: mc_setters split: option.splits)

lemma mc_replay_idents: "mc_replay mc ms = Some mc' \<Longrightarrow> st_idents mc' = st_idents mc"
  by (induction ms arbitrary: mc) (auto dest: mc_mutate_idents split: option.splits)

lemma mirrored_idents:
  "mirrored a b \<Longrightarrow> mi_local_public_key (st_idents b) = mi_remote_public_key (st_idents a)
     \<and> mi_remote_public_key (st_idents b) = mi_local_public_key (st_idents a)"
  by (simp add: mirrored_def lg_of_mc_def lg_swap_def)

lemma signature_buff_signed:
  "move_token_signature_buff C ser (sign_move_token C ser sign u) = move_token_signature_buff C ser u"
  by (simp add: move_token_signature_buff_def sign_move_token_def prefix_hash_def Let_def)

lemma verify_signed_token:
  "signs_for C sign pk \<Longrightarrow> verify_move_token C ser (sign_move_token C ser sign u) pk"
  by (simp add: verify_move_token_def signature_buff_signed) (simp add: sign_move_token_def signs_for_def Let_def)

text \<open>The fields of a token signed over an unsigned one.\<close>

lemma signed_fields [simp]:
  "mt_operations (sign_move_token C ser sign u) = mt_operations u"
  "mt_old_token (sign_move_token C ser sign u) = mt_old_token u"
  "mt_local_public_key (sign_move_token C ser sign u) = mt_local_public_key u"
  "mt_remote_public_key (sign_move_token C ser sign u) = mt_remote_public_key u"
  "mt_inconsistency_counter (sign_move_token C ser sign u) = mt_inconsistency_counter u"
  "mt_move_token_counter (sign_move_token C ser sign u) = mt_move_token_counter u"
  "mt_balance (sign_move_token C ser sign u) = mt_balance u"
  "mt_local_pending_debt (sign_move_token C ser sign u) = mt_local_pending_debt u"
  "mt_remote_pending_debt (sign_move_token C ser sign u) = mt_remote_pending_debt u"
  by (simp_all add: sign_move_token_def Let_def)

lemma unsigned_fields [simp]:
  "mt_operations (ti_create_unsigned_move_token ti ops relays nonce) = ops"
  "mt_old_token (ti_create_unsigned_move_token ti ops relays nonce) = mh_new_token (ti_move_token_in ti)"
  "mt_local_public_key (ti_create_unsigned_move_token ti ops relays nonce) = mh_remote_public_key (ti_move_token_in ti)"
  "mt_remote_public_key (ti_create_unsigned_move_token ti ops relays nonce) = mh_local_public_key (ti_move_token_in ti)"
  "mt_inconsistency_counter (ti_create_unsigned_move_token ti ops relays nonce) = mh_inconsistency_counter (ti_move_token_in ti)"
  "mt_move_token_counter (ti_create_unsigned_move_token ti ops relays nonce) = mh_move_token_counter (ti_move_token_in ti) + 1"
  "mt_balance (ti_create_unsigned_move_token ti ops relays nonce) = mb_balance (st_balance (ti_mutual_credit ti))"
  "mt_local_pending_debt (ti_create_unsigned_move_token ti ops relays nonce) = mb_local_pending_debt (st_balance (ti_mutual_credit ti))"
  "mt_remote_pending_debt (ti_create_unsigned_move_token ti ops relays nonce) = mb_remote_pending_debt (st_balance (ti_mutual_credit ti))"
  by (simp_all add: ti_create_unsigned_move_token_def create_unsigned_move_token_def)

lemma hashed_fields [simp]:
  "mh_local_public_key (create_hashed C ser mt) = mt_local_public_key mt"
  "mh_remote_public_key (create_hashed C ser mt) = mt_remote_public_key mt"
  "mh_inconsistency_counter (create_hashed C ser mt) = mt_inconsistency_counter mt"
  "mh_move_token_counter (create_hashed C ser mt) = mt_move_token_counter mt"
  "mh_new_token (create_hashed C ser mt) = mt_new_token mt"
  by (simp_all add: create_hashed_def)

text \<open>What a sent token says.\<close>

lemma send_batch_Some:
  assumes "send_batch C ser sign a tries relays nonce = Some (a', mt)"
  obtains ti om ms ops where "tc_direction a = TcIncoming ti"
    and "push_operations C (outgoing_mc_new (ti_mutual_credit ti)) tries = Some (om, ms, ops)"
    and "mt = sign_move_token C ser sign (ti_create_unsigned_move_token
      (ti\<lparr> ti_mutual_credit := the (mc_replay (ti_mutual_credit ti) ms) \<rparr>) ops relays nonce)"
    and "mc_replay (ti_mutual_credit ti) ms \<noteq> None"
    and "tc_direction a' = TcOutgoing \<lparr> to_mutual_credit = the (mc_replay (ti_mutual_credit ti) ms),
      to_move_token_out = mt, to_opt_prev_move_token_in = Some (ti_move_token_in ti) \<rparr>"
proof -
  obtain ti where ti: "tc_direction a = TcIncoming ti"
    using assms by (auto simp: send_batch_def split: tc_direction.splits)
  then obtain om ms ops where q: "push_operations C (outgoing_mc_new (ti_mutual_credit ti)) tries = Some (om, ms, ops)"
    and rest: "Option.bind (tc_replay a (map TcMcMutation ms)) (\<lambda>tc1.
      (case tc_direction tc1 of
         TcOutgoing _ \<Rightarrow> None
       | TcIncoming ti1 \<Rightarrow>
           let mt = sign_move_token C ser sign (ti_create_unsigned_move_token ti1 ops relays nonce) in
           map_option (\<lambda>tc2. (tc2, mt)) (tc_mutate tc1 (TcSetDirection (SdOutgoing mt))))) = Some (a', mt)"
    using assms by (cases "push_operations C (outgoing_mc_new (ti_mutual_credit ti)) tries")
      (auto simp: send_batch_def begin_outgoing_move_token_def)
  have mc: "get_mutual_credit a = ti_mutual_credit ti"
    using ti by (simp add: get_mutual_credit_def)
  from rest obtain mc1 where mc1: "mc_replay (ti_mutual_credit ti) ms = Some mc1"
    by (auto simp: tc_replay_mc mc bind_eq_Some_conv)
  have "tc_direction (set_mutual_credit a mc1) = TcIncoming (ti\<lparr> ti_mutual_credit := mc1 \<rparr>)"
    by (simp add: set_mutual_credit_def ti)
  moreover have "get_last_incoming_move_token_hashed a = Some (ti_move_token_in ti)"
    by (simp add: get_last_incoming_move_token_hashed_def ti)
  ultimately have mt: "mt = sign_move_token C ser sign (ti_create_unsigned_move_token
      (ti\<lparr> ti_mutual_credit := mc1 \<rparr>) ops relays nonce)"
    and a': "tc_direction a' = TcOutgoing \<lparr> to_mutual_credit = mc1,
      to_move_token_out = mt, to_opt_prev_move_token_in = Some (ti_move_token_in ti) \<rparr>"
    using rest mc1 by (auto simp: tc_replay_mc mc Let_def)
  with ti q mt mc1 show thesis by (intro that [of ti om ms ops]) simp_all
qed

text \<open>What is known of a token that was sent from agreement: it chains to the other's token.\<close>

lemma sent_token:
  assumes sync: "synced C ser a b" and send: "send_batch C ser sign a tries relays nonce = Some (a', mt)"
  obtains ti t om ms ops where "tc_direction a = TcIncoming ti" "tc_direction b = TcOutgoing t"
    and "push_operations C (outgoing_mc_new (ti_mutual_credit ti)) tries = Some (om, ms, ops)"
    and "tc_direction a' = TcOutgoing \<lparr> to_mutual_credit = om_mutual_credit om, to_move_token_out = mt,
      to_opt_prev_move_token_in = Some (ti_move_token_in ti) \<rparr>"
    and "mt = sign_move_token C ser sign (ti_create_unsigned_move_token
      (ti\<lparr> ti_mutual_credit := om_mutual_credit om \<rparr>) ops relays nonce)"
    and "ti_move_token_in ti = create_hashed C ser (to_move_token_out t)"
    and "mirrored (ti_mutual_credit ti) (to_mutual_credit t)" "mc_inv (ti_mutual_credit ti)" "mc_inv (to_mutual_credit t)"
    and "mt_local_public_key (to_move_token_out t) = mi_local_public_key (st_idents (to_mutual_credit t))"
    and "mt_remote_public_key (to_move_token_out t) = mi_remote_public_key (st_idents (to_mutual_credit t))"
    and "mc_inv (om_mutual_credit om)" "st_idents (om_mutual_credit om) = st_idents (ti_mutual_credit ti)"
proof (rule send_batch_Some [OF send])
  fix ti om ms ops
  assume ti: "tc_direction a = TcIncoming ti"
    and q: "push_operations C (outgoing_mc_new (ti_mutual_credit ti)) tries = Some (om, ms, ops)"
    and mt: "mt = sign_move_token C ser sign (ti_create_unsigned_move_token
      (ti\<lparr> ti_mutual_credit := the (mc_replay (ti_mutual_credit ti) ms) \<rparr>) ops relays nonce)"
    and a': "tc_direction a' = TcOutgoing \<lparr> to_mutual_credit = the (mc_replay (ti_mutual_credit ti) ms),
      to_move_token_out = mt, to_opt_prev_move_token_in = Some (ti_move_token_in ti) \<rparr>"
  from sync ti obtain t where t: "tc_direction b = TcOutgoing t"
    "ti_move_token_in ti = create_hashed C ser (to_move_token_out t)"
    "mirrored (ti_mutual_credit ti) (to_mutual_credit t)" "mc_inv (ti_mutual_credit ti)" "mc_inv (to_mutual_credit t)"
    "mt_local_public_key (to_move_token_out t) = mi_local_public_key (st_idents (to_mutual_credit t))"
    "mt_remote_public_key (to_move_token_out t) = mi_remote_public_key (st_idents (to_mutual_credit t))"
    by (auto simp: synced_def split: tc_direction.splits)
  have replay: "mc_replay (ti_mutual_credit ti) ms = Some (om_mutual_credit om)" "mc_inv (om_mutual_credit om)"
    using push_operations_replay [OF _ q] t(4) by (simp_all add: om_inv_def outgoing_mc_new_def)
  from mc_replay_idents [OF replay(1)] replay mt a' t ti q show thesis
    by (intro that [of ti t om ms ops]) simp_all
qed

lemma sent_token_balance:
  assumes "synced C ser a b" "send_batch C ser sign a tries relays nonce = Some (a', mt)"
  shows "sint (mt_balance mt) \<noteq> - (2 ^ 127)"
proof (rule sent_token [OF assms])
  fix ti om ops
  assume mt: "mt = sign_move_token C ser sign (ti_create_unsigned_move_token
      (ti\<lparr> ti_mutual_credit := om_mutual_credit om \<rparr>) ops relays nonce)" and inv: "mc_inv (om_mutual_credit om)"
  have "mt_balance mt = mb_balance (st_balance (om_mutual_credit om))" by (simp add: mt)
  with mc_inv_balance [OF inv] show ?thesis by simp
qed

text \<open>The other end checks a sent token against its own last token; the keys and the chain match.\<close>

lemma sent_token_match:
  assumes "synced C ser a b" "send_batch C ser sign a tries relays nonce = Some (a', mt)" "tc_direction b = TcOutgoing t"
  shows "simulate_receive_move_token C ser b mt = to_handle_incoming_token_match C ser t mt"
    and "mt_inconsistency_counter mt = mt_inconsistency_counter (to_move_token_out t)"
    and "mt_move_token_counter mt = mt_move_token_counter (to_move_token_out t) + 1"
    and "get_move_token_counter a = mt_move_token_counter (to_move_token_out t)"
    and "mt_local_public_key mt = mi_remote_public_key (st_idents (to_mutual_credit t))"
    and "mt_remote_public_key mt = mi_local_public_key (st_idents (to_mutual_credit t))"
proof -
  obtain ti t' ops and om :: outgoing_mc where ti: "tc_direction a = TcIncoming ti" and t': "tc_direction b = TcOutgoing t'"
    and mt: "mt = sign_move_token C ser sign (ti_create_unsigned_move_token
      (ti\<lparr> ti_mutual_credit := om_mutual_credit om \<rparr>) ops relays nonce)"
    and hashed: "ti_move_token_in ti = create_hashed C ser (to_move_token_out t')"
    and keys: "mt_local_public_key (to_move_token_out t') = mi_local_public_key (st_idents (to_mutual_credit t'))"
      "mt_remote_public_key (to_move_token_out t') = mi_remote_public_key (st_idents (to_mutual_credit t'))"
    by (rule sent_token [OF assms(1,2)]) blast
  have [simp]: "t' = t" using t' assms(3) by simp
  note keys = keys [unfolded \<open>t' = t\<close>]
  have fields: "mt_inconsistency_counter mt = mt_inconsistency_counter (to_move_token_out t)"
    "mt_move_token_counter mt = mt_move_token_counter (to_move_token_out t) + 1"
    "mt_local_public_key mt = mi_remote_public_key (st_idents (to_mutual_credit t))"
    "mt_remote_public_key mt = mi_local_public_key (st_idents (to_mutual_credit t))"
    "mt_old_token mt = mt_new_token (to_move_token_out t)"
    using keys by (simp_all add: mt hashed)
  then show "simulate_receive_move_token C ser b mt = to_handle_incoming_token_match C ser t mt"
    "mt_inconsistency_counter mt = mt_inconsistency_counter (to_move_token_out t)"
    "mt_move_token_counter mt = mt_move_token_counter (to_move_token_out t) + 1"
    "mt_local_public_key mt = mi_remote_public_key (st_idents (to_mutual_credit t))"
    "mt_remote_public_key mt = mi_local_public_key (st_idents (to_mutual_credit t))"
    by (simp_all add: simulate_receive_move_token_def assms(3) to_handle_incoming_def)
  show "get_move_token_counter a = mt_move_token_counter (to_move_token_out t)"
    using ti by (simp add: get_move_token_counter_def hashed)
qed

lemma exchange:
  assumes sync: "synced C ser a b" and send: "send_batch C ser sign a tries relays nonce = Some (a', mt)"
    and sound: "sound_batch C a (mt_operations mt)" and signer: "signs_for C sign (local_key a)"
  shows "\<exists>b' r. receive_token C ser b mt = Ok (b', Received r) \<and> synced C ser b' a'"
proof (rule sent_token [OF sync send])
  fix ti t om ms ops
  assume ti: "tc_direction a = TcIncoming ti" and t: "tc_direction b = TcOutgoing t"
    and push: "push_operations C (outgoing_mc_new (ti_mutual_credit ti)) tries = Some (om, ms, ops)"
    and a': "tc_direction a' = TcOutgoing \<lparr> to_mutual_credit = om_mutual_credit om, to_move_token_out = mt,
      to_opt_prev_move_token_in = Some (ti_move_token_in ti) \<rparr>"
    and mt: "mt = sign_move_token C ser sign (ti_create_unsigned_move_token
      (ti\<lparr> ti_mutual_credit := om_mutual_credit om \<rparr>) ops relays nonce)"
    and mirr: "mirrored (ti_mutual_credit ti) (to_mutual_credit t)"
    and inv: "mc_inv (ti_mutual_credit ti)" "mc_inv (to_mutual_credit t)"
    and om: "mc_inv (om_mutual_credit om)" "st_idents (om_mutual_credit om) = st_idents (ti_mutual_credit ti)"
  note match = sent_token_match [OF sync send t] and ids = mirrored_idents [OF mirr]
  have mc: "get_mutual_credit a = ti_mutual_credit ti" using ti by (simp add: get_mutual_credit_def)
  have ops: "mt_operations mt = ops" by (simp add: mt)
  have guard: "disable_guarded (is_open (mr_local (st_requests_status (ti_mutual_credit ti)))) (mt_operations mt)"
    and q: "queue_operations C (outgoing_mc_new (ti_mutual_credit ti)) (mt_operations mt) = Ok (om, ms)"
    using sound push_sound [OF push [folded ops]] inv(1)
    by (auto simp: sound_batch_def local_open_def mc om_inv_def outgoing_mc_new_def split: res.splits)
  from batch_mirrored [OF mirr inv guard q]
  obtain mc' outs where run: "process_operations_list C (to_mutual_credit t) (mt_operations mt) = Ok (mc', outs)"
    and mirr': "mirrored (om_mutual_credit om) mc'" and inv': "mc_inv mc'" by blast
  have stated: "mt_balance mt = mb_balance (st_balance (om_mutual_credit om))"
    "mt_remote_pending_debt mt = mb_remote_pending_debt (st_balance (om_mutual_credit om))"
    "mt_local_pending_debt mt = mb_local_pending_debt (st_balance (om_mutual_credit om))"
    by (simp_all add: mt)
  have bal: "sint (mb_balance (st_balance mc')) = - sint (mt_balance mt)"
    "mb_local_pending_debt (st_balance mc') = mt_remote_pending_debt mt"
    "mb_remote_pending_debt (st_balance mc') = mt_local_pending_debt mt"
    using mirrored_balances [OF mirr' om(1) inv'] by (simp_all add: stated)
  have ver: "verify_move_token C ser mt (mi_remote_public_key (st_idents (to_mutual_credit t)))"
    using signer ids by (simp add: mt verify_signed_token local_key_def mc)
  have ctr: "u_checked_add (mt_move_token_counter (to_move_token_out t)) 1 = Some (mt_move_token_counter mt)"
    using sound match by (simp add: sound_batch_def u_checked_add_one)
  note recv = token_match_eq [OF inv(2) ver match(2) ctr run i_fits_neg_word [OF bal(1)], folded match(1)]
  let ?b = "\<lparr> tc_direction = TcIncoming \<lparr> ti_mutual_credit = mc', ti_move_token_in = create_hashed C ser mt \<rparr> \<rparr>"
  have "tc_replay b (map TcMcMutation (concat (map po_mc_mutations outs))
      @ [TcSetDirection (SdIncoming (create_hashed C ser mt))]) = Some ?b"
    using process_list_replay [OF inv(2) run] t
    by (simp add: tc_replay_append tc_replay_mc get_mutual_credit_def set_mutual_credit_def)
  then have "\<exists>r. receive_token C ser b mt = Ok (?b, Received r)"
    using recv bal by (simp add: receive_token_def)
  moreover have "synced C ser ?b a'"
    using a' om mirr' inv' match(5,6) ids mirrored_sym [of mc'] by (simp add: synced_def)
  ultimately show ?thesis by blast
qed

text \<open>A batch that is not sound is refused with an error.\<close>

lemma exchange_refused:
  assumes sync: "synced C ser a b" and send: "send_batch C ser sign a tries relays nonce = Some (a', mt)"
    and unsound: "\<not> sound_batch C a (mt_operations mt)"
  shows "\<exists>e. receive_token C ser b mt = Err e"
proof (rule sent_token [OF sync send])
  fix ti t om ms ops
  assume ti: "tc_direction a = TcIncoming ti" and t: "tc_direction b = TcOutgoing t"
    and push: "push_operations C (outgoing_mc_new (ti_mutual_credit ti)) tries = Some (om, ms, ops)"
    and mt: "mt = sign_move_token C ser sign (ti_create_unsigned_move_token
      (ti\<lparr> ti_mutual_credit := om_mutual_credit om \<rparr>) ops relays nonce)"
    and mirr: "mirrored (ti_mutual_credit ti) (to_mutual_credit t)"
    and inv: "mc_inv (ti_mutual_credit ti)" "mc_inv (to_mutual_credit t)"
  note match = sent_token_match [OF sync send t]
  have mc: "get_mutual_credit a = ti_mutual_credit ti" using ti by (simp add: get_mutual_credit_def)
  have ops: "mt_operations mt = ops" by (simp add: mt)
  have om: "om_inv (outgoing_mc_new (ti_mutual_credit ti))"
    "om_view (outgoing_mc_new (ti_mutual_credit ti)) = in_view (to_mutual_credit t)"
    using mirr inv by (simp_all add: om_inv_def outgoing_mc_new_def mirrored_view)
  have "to_handle_incoming_token_match C ser t mt \<noteq> Ok (Received r)" for r
  proof
    assume run: "to_handle_incoming_token_match C ser t mt = Ok (Received r)"
    show False
    proof (rule token_match_Received [OF inv(2) run])
      fix mc' outs
      assume run': "process_operations_list C (to_mutual_credit t) (mt_operations mt) = Ok (mc', outs)"
        and ctr: "uint (mt_move_token_counter mt) = uint (mt_move_token_counter (to_move_token_out t)) + 1"
      have "get_move_token_counter a \<noteq> - 1"
        using ctr uint_ge_0 [of "mt_move_token_counter (to_move_token_out t)"]
        by (intro notI) (simp only: match(3,4), simp)
      with push_accepted [OF om(1) inv(2) om(2) push] run' unsound show False
        by (simp add: ops process_list_Ok sound_batch_def mc local_open_def) (simp add: om_view_def lg_of_mc_def outgoing_mc_new_def)
    qed
  qed
  moreover have "to_handle_incoming_token_match C ser t mt \<noteq> Panic"
    using simulate_not_Panic [OF _ sent_token_balance [OF sync send], of b C ser] match(1) inv(2) t
    by (simp add: get_mutual_credit_def)
  ultimately obtain e where "to_handle_incoming_token_match C ser t mt = Err e"
    using token_match_Ok by (cases "to_handle_incoming_token_match C ser t mt") blast+
  then show ?thesis by (simp add: receive_token_def match(1))
qed

lemma deliver_again:
  assumes "synced C ser holder other" "tc_direction other = TcOutgoing t"
  shows "receive_token C ser holder (to_move_token_out t) = Ok (holder, Duplicate)"
  using assms by (auto simp: synced_def receive_token_def simulate_receive_move_token_def ti_handle_incoming_def
      split: tc_direction.splits)

lemma deliver_stale:
  assumes sync: "synced C ser a b" and send: "send_batch C ser sign a tries relays nonce = Some (a', mt)"
    and t: "tc_direction b = TcOutgoing t" and fresh: "mt_new_token mt \<noteq> mt_old_token (to_move_token_out t)"
  shows "receive_token C ser a' (to_move_token_out t) = Ok (a', RetransmitOutgoing mt)"
proof (rule sent_token [OF sync send])
  fix ti t' om ms ops
  assume t': "tc_direction b = TcOutgoing t'"
    and a': "tc_direction a' = TcOutgoing \<lparr> to_mutual_credit = om_mutual_credit om, to_move_token_out = mt,
      to_opt_prev_move_token_in = Some (ti_move_token_in ti) \<rparr>"
    and mt: "mt = sign_move_token C ser sign (ti_create_unsigned_move_token
      (ti\<lparr> ti_mutual_credit := om_mutual_credit om \<rparr>) ops relays nonce)"
    and hashed: "ti_move_token_in ti = create_hashed C ser (to_move_token_out t')"
    and mirr: "mirrored (ti_mutual_credit ti) (to_mutual_credit t')"
    and keys: "mt_local_public_key (to_move_token_out t') = mi_local_public_key (st_idents (to_mutual_credit t'))"
      "mt_remote_public_key (to_move_token_out t') = mi_remote_public_key (st_idents (to_mutual_credit t'))"
    and om: "st_idents (om_mutual_credit om) = st_idents (ti_mutual_credit ti)"
  have [simp]: "t' = t" using t t' by simp
  have chain: "mt_old_token mt = mt_new_token (to_move_token_out t)" by (simp add: mt hashed)
  show ?thesis
    using mirrored_idents [OF mirr] keys om fresh chain
    by (auto simp: receive_token_def simulate_receive_move_token_def a' to_handle_incoming_def)
qed

section \<open>The protocol\<close>

text \<open>
  One end acts: it sends a batch, whatever operations it tries to push, or its current token
  reaches the other end. Two assumptions on the environment are built in. A connection keeps the
  order of messages and a reconnected end resends its current token, so the token delivered is
  always the current one. Tokens are signatures over fresh random nonces: \<open>used\<close> collects those
  already seen on the channel, and a new one differs from them. A refused token is no step here:
  it makes \<open>handle_move_token_error\<close> mark the channel inconsistent, and the reset that follows is
  a matter of \<open>HandlerProperties\<close>. The flag \<open>sound\<close> is no part of the program: it records whether
  every batch sent so far was sound for its sender.
\<close>

inductive end_step ::
  "crypto_api \<Rightarrow> ('b \<Rightarrow> bytes) \<Rightarrow> (bytes \<Rightarrow> signature)
    \<Rightarrow> signature set \<Rightarrow> bool \<Rightarrow> 'b token_channel \<Rightarrow> 'b token_channel
    \<Rightarrow> signature set \<Rightarrow> bool \<Rightarrow> 'b token_channel \<Rightarrow> 'b token_channel \<Rightarrow> bool"
  for C ser sign where
  sends: "send_batch C ser sign own tries relays nonce = Some (own', mt) \<Longrightarrow> mt_new_token mt \<notin> used
    \<Longrightarrow> end_step C ser sign used sound own other
      (insert (mt_new_token mt) used) (sound \<and> sound_batch C own (mt_operations mt)) own' other"
| delivers: "tc_direction own = TcOutgoing t \<Longrightarrow> receive_token C ser other (to_move_token_out t) = Ok (other', out)
    \<Longrightarrow> end_step C ser sign used sound own other used sound own other'"

inductive_cases end_stepE: "end_step C ser sign used sound own other used' sound' own' other'"

record 'b sys =
  sys_a :: "'b token_channel"
  sys_b :: "'b token_channel"
  sys_used :: "signature set"
  sys_sound :: bool

inductive channel_step ::
  "crypto_api \<Rightarrow> ('b \<Rightarrow> bytes) \<Rightarrow> (bytes \<Rightarrow> signature) \<Rightarrow> (bytes \<Rightarrow> signature) \<Rightarrow> 'b sys \<Rightarrow> 'b sys \<Rightarrow> bool"
  for C ser sign_a sign_b where
  by_a: "end_step C ser sign_a used sound a b used' sound' a' b' \<Longrightarrow> channel_step C ser sign_a sign_b
    \<lparr> sys_a = a, sys_b = b, sys_used = used, sys_sound = sound \<rparr>
    \<lparr> sys_a = a', sys_b = b', sys_used = used', sys_sound = sound' \<rparr>"
| by_b: "end_step C ser sign_b used sound b a used' sound' b' a' \<Longrightarrow> channel_step C ser sign_a sign_b
    \<lparr> sys_a = a, sys_b = b, sys_used = used, sys_sound = sound \<rparr>
    \<lparr> sys_a = a', sys_b = b', sys_used = used', sys_sound = sound' \<rparr>"

text \<open>The channel starts with what each end creates for itself from the two keys and the balance.\<close>

inductive reachable ::
  "crypto_api \<Rightarrow> ('b \<Rightarrow> bytes) \<Rightarrow> (bytes \<Rightarrow> signature) \<Rightarrow> (bytes \<Rightarrow> signature) \<Rightarrow> public_key \<Rightarrow> public_key \<Rightarrow> i128
    \<Rightarrow> 'b sys \<Rightarrow> bool"
  for C ser sign_a sign_b pk_a pk_b bal where
  start: "token_channel_new C ser pk_a pk_b bal = Some a \<Longrightarrow> token_channel_new C ser pk_b pk_a (- bal) = Some b
    \<Longrightarrow> reachable C ser sign_a sign_b pk_a pk_b bal
      \<lparr> sys_a = a, sys_b = b, sys_used = {token_from_public_key pk_a, token_from_public_key pk_b},
        sys_sound = True \<rparr>"
| step: "reachable C ser sign_a sign_b pk_a pk_b bal s \<Longrightarrow> channel_step C ser sign_a sign_b s s'
    \<Longrightarrow> reachable C ser sign_a sign_b pk_a pk_b bal s'"

section \<open>Invariant\<close>

text \<open>
  Either the ends are in step, or one end has sent a batch from a state that was in step; \<open>sound\<close>
  tells whether that batch was sound.
\<close>

definition in_transit ::
  "crypto_api \<Rightarrow> ('b \<Rightarrow> bytes) \<Rightarrow> (bytes \<Rightarrow> signature) \<Rightarrow> bool \<Rightarrow> 'b token_channel \<Rightarrow> 'b token_channel \<Rightarrow> bool" where
  "in_transit C ser sign sound own other \<longleftrightarrow>
     (\<exists>before tries relays nonce mt. synced C ser before other
        \<and> send_batch C ser sign before tries relays nonce = Some (own, mt)
        \<and> sound = sound_batch C before (mt_operations mt)
        \<and> local_key before = local_key own
        \<and> (\<forall>t. tc_direction other = TcOutgoing t \<longrightarrow> mt_new_token mt \<noteq> mt_old_token (to_move_token_out t)))"

definition agree ::
  "crypto_api \<Rightarrow> ('b \<Rightarrow> bytes) \<Rightarrow> (bytes \<Rightarrow> signature) \<Rightarrow> bool \<Rightarrow> 'b token_channel \<Rightarrow> 'b token_channel \<Rightarrow> bool" where
  "agree C ser sign sound own other \<longleftrightarrow> (sound \<and> synced C ser own other) \<or> in_transit C ser sign sound own other"

definition tokens_used :: "signature set \<Rightarrow> 'b token_channel \<Rightarrow> bool" where
  "tokens_used used tc =
     (case tc_direction tc of
        TcIncoming ti \<Rightarrow> mh_new_token (ti_move_token_in ti) \<in> used
      | TcOutgoing t \<Rightarrow> mt_old_token (to_move_token_out t) \<in> used \<and> mt_new_token (to_move_token_out t) \<in> used)"

definition ends_inv ::
  "crypto_api \<Rightarrow> ('b \<Rightarrow> bytes) \<Rightarrow> (bytes \<Rightarrow> signature) \<Rightarrow> (bytes \<Rightarrow> signature)
    \<Rightarrow> signature set \<Rightarrow> bool \<Rightarrow> 'b token_channel \<Rightarrow> 'b token_channel \<Rightarrow> bool" where
  "ends_inv C ser sign sign' used sound own other \<longleftrightarrow>
     (agree C ser sign sound own other \<or> agree C ser sign' sound other own)
     \<and> tokens_used used own \<and> tokens_used used other
     \<and> signs_for C sign (local_key own) \<and> signs_for C sign' (local_key other)"

lemma ends_inv_sym:
  "ends_inv C ser sign sign' used sound own other \<longleftrightarrow> ends_inv C ser sign' sign used sound other own"
  by (auto simp: ends_inv_def)

lemma synced_directions:
  "synced C ser a b \<Longrightarrow> \<exists>ti t. tc_direction a = TcIncoming ti \<and> tc_direction b = TcOutgoing t
     \<and> ti_move_token_in ti = create_hashed C ser (to_move_token_out t)"
  by (auto simp: synced_def split: tc_direction.splits)

lemma send_batch_incoming:
  "send_batch C ser sign a tries relays nonce = Some r \<Longrightarrow> \<exists>ti. tc_direction a = TcIncoming ti"
  by (auto simp: send_batch_def split: tc_direction.splits)

lemma sent_direction:
  assumes "synced C ser a b" "send_batch C ser sign a tries relays nonce = Some (a', mt)"
  shows "\<exists>t. tc_direction a' = TcOutgoing t \<and> to_move_token_out t = mt
      \<and> (\<exists>tb. tc_direction b = TcOutgoing tb \<and> mt_old_token mt = mt_new_token (to_move_token_out tb))"
    and "local_key a' = local_key a"
proof -
  obtain ti t ops and om :: outgoing_mc where "tc_direction a = TcIncoming ti" "tc_direction b = TcOutgoing t"
    and "tc_direction a' = TcOutgoing \<lparr> to_mutual_credit = om_mutual_credit om, to_move_token_out = mt,
      to_opt_prev_move_token_in = Some (ti_move_token_in ti) \<rparr>"
    and mt: "mt = sign_move_token C ser sign (ti_create_unsigned_move_token
      (ti\<lparr> ti_mutual_credit := om_mutual_credit om \<rparr>) ops relays nonce)"
    and hashed: "ti_move_token_in ti = create_hashed C ser (to_move_token_out t)"
    and "st_idents (om_mutual_credit om) = st_idents (ti_mutual_credit ti)"
    by (rule sent_token [OF assms]) blast
  moreover have "mt_old_token mt = mt_new_token (to_move_token_out t)" by (simp add: mt hashed)
  ultimately show "\<exists>t. tc_direction a' = TcOutgoing t \<and> to_move_token_out t = mt
      \<and> (\<exists>tb. tc_direction b = TcOutgoing tb \<and> mt_old_token mt = mt_new_token (to_move_token_out tb))"
    "local_key a' = local_key a"
    by (auto simp: local_key_def get_mutual_credit_def)
qed

lemma in_transit_directions:
  assumes "in_transit C ser sign sound own other"
  shows "\<exists>t t'. tc_direction own = TcOutgoing t \<and> tc_direction other = TcOutgoing t'"
  using assms sent_direction(1) unfolding in_transit_def by blast

lemma delivery_from_transit:
  assumes tr: "in_transit C ser sign sound own other" and signer: "signs_for C sign (local_key own)"
    and t: "tc_direction own = TcOutgoing t"
  shows "if sound
    then \<exists>other' r. receive_token C ser other (to_move_token_out t) = Ok (other', Received r) \<and> synced C ser other' own
    else \<exists>e. receive_token C ser other (to_move_token_out t) = Err e"
proof -
  from tr obtain before tries relays nonce mt where sync: "synced C ser before other"
    and send: "send_batch C ser sign before tries relays nonce = Some (own, mt)"
    and sound: "sound = sound_batch C before (mt_operations mt)"
    and key: "local_key before = local_key own"
    unfolding in_transit_def by blast
  have "to_move_token_out t = mt"
    using sent_direction(1) [OF sync send] t by auto
  with exchange [OF sync send] exchange_refused [OF sync send] signer key sound show ?thesis by simp
qed

lemma delivery_into_transit:
  assumes "in_transit C ser sign sound own other" "tc_direction other = TcOutgoing t"
  shows "\<exists>mt. receive_token C ser own (to_move_token_out t) = Ok (own, RetransmitOutgoing mt)"
  using assms deliver_stale unfolding in_transit_def by blast

text \<open>
  Whatever an end has sent last, the other end accepts it, ignores it or answers with its own
  token; only the token of a batch that was not sound is refused.
\<close>

lemma delivery_cases:
  assumes inv: "ends_inv C ser sign sign' used sound own other" and t: "tc_direction own = TcOutgoing t"
  shows "(sound \<and> (\<exists>other' r. receive_token C ser other (to_move_token_out t) = Ok (other', Received r) \<and> synced C ser other' own))
    \<or> (sound \<and> receive_token C ser other (to_move_token_out t) = Ok (other, Duplicate) \<and> synced C ser other own)
    \<or> (\<exists>mt. receive_token C ser other (to_move_token_out t) = Ok (other, RetransmitOutgoing mt))
    \<or> (\<not> sound \<and> (\<exists>e. receive_token C ser other (to_move_token_out t) = Err e))"
proof -
  have "agree C ser sign sound own other \<or> agree C ser sign' sound other own" and signer: "signs_for C sign (local_key own)"
    using inv by (auto simp: ends_inv_def)
  then consider "in_transit C ser sign sound own other" | "synced C ser own other" | "sound" "synced C ser other own"
    | "in_transit C ser sign' sound other own"
    by (auto simp: agree_def)
  then show ?thesis
  proof cases
    case 1
    then show ?thesis using delivery_from_transit [OF 1 signer t] by (cases sound) auto
  next
    case 2
    then show ?thesis using synced_directions [OF 2] t by auto
  next
    case 3
    then show ?thesis using deliver_again [OF 3(2) t] by blast
  next
    case 4
    then show ?thesis using delivery_into_transit [OF 4 t] by blast
  qed
qed

lemma receive_token_Ok:
  assumes "receive_token C ser tc mt = Ok (tc', out)"
  shows "simulate_receive_move_token C ser tc mt = Ok out
    \<and> (tc' = tc \<or> (\<exists>r. out = Received r \<and> tc_replay tc (mtd_mutations r) = Some tc'))"
proof -
  obtain x where "simulate_receive_move_token C ser tc mt = Ok x"
    using assms by (auto simp: receive_token_def res_bind_Ok)
  with assms show ?thesis
    by (cases x) (auto simp: receive_token_def res_bind_Ok unwrap_Ok)
qed

lemma receive_token_key:
  assumes "receive_token C ser tc mt = Ok (tc', out)"
  shows "local_key tc' = local_key tc"
proof -
  have "st_idents (get_mutual_credit tc1) = st_idents (get_mutual_credit tc0)"
    if "tc_mutate tc0 m = Some tc1" for tc0 tc1 :: "'a token_channel" and m
    using that by (cases "(tc0, m)" rule: tc_mutate.cases) (auto dest: mc_mutate_idents)
  then have "st_idents (get_mutual_credit tc1) = st_idents (get_mutual_credit tc0)"
    if "tc_replay tc0 ms = Some tc1" for tc0 tc1 :: "'a token_channel" and ms
    using that by (induction ms arbitrary: tc0) (auto split: option.splits)
  moreover obtain ns where "tc' = tc \<or> tc_replay tc ns = Some tc'"
    using receive_token_Ok [OF assms] by blast
  ultimately show ?thesis by (auto simp: local_key_def)
qed

lemma end_step_delivers:
  assumes inv: "ends_inv C ser sign sign' used sound own other" and t: "tc_direction own = TcOutgoing t"
    and recv: "receive_token C ser other (to_move_token_out t) = Ok (other', out)"
  shows "ends_inv C ser sign sign' used sound own other'"
  using delivery_cases [OF inv t] recv
proof (elim disjE exE conjE)
  fix x r
  assume "receive_token C ser other (to_move_token_out t) = Ok (x, Received r)" "synced C ser x own" and ok: "sound"
  with recv have sync: "synced C ser other' own" by simp
  moreover have "tokens_used used other'"
    using synced_directions [OF sync] inv t by (auto simp: tokens_used_def ends_inv_def)
  ultimately show ?thesis
    using inv receive_token_key [OF recv] ok by (auto simp: ends_inv_def agree_def)
qed (use inv in auto)

lemma ends_inv_holder:
  assumes inv: "ends_inv C ser sign sign' used sound own other" and holder: "tc_direction own = TcIncoming ti"
  shows "synced C ser own other" and "sound"
  using inv holder in_transit_directions [of C ser sign sound own other] in_transit_directions [of C ser sign' sound other own]
    synced_directions [of C ser other own]
  by (auto simp: ends_inv_def agree_def)

lemma end_step_sends:
  assumes inv: "ends_inv C ser sign sign' used sound own other"
    and send: "send_batch C ser sign own tries relays nonce = Some (own', mt)"
    and fresh: "mt_new_token mt \<notin> used"
  shows "ends_inv C ser sign sign' (insert (mt_new_token mt) used) (sound \<and> sound_batch C own (mt_operations mt)) own' other"
proof -
  obtain ti where ti: "tc_direction own = TcIncoming ti"
    using send_batch_incoming [OF send] by blast
  note sync = ends_inv_holder(1) [OF inv ti] and ok = ends_inv_holder(2) [OF inv ti]
  obtain t tb where t: "tc_direction own' = TcOutgoing t" "to_move_token_out t = mt"
    and tb: "tc_direction other = TcOutgoing tb" "mt_old_token mt = mt_new_token (to_move_token_out tb)"
    using sent_direction(1) [OF sync send] by blast
  have used: "mt_old_token (to_move_token_out tb) \<in> used" "mt_new_token (to_move_token_out tb) \<in> used"
    using inv tb by (auto simp: ends_inv_def tokens_used_def)
  have "in_transit C ser sign (sound \<and> sound_batch C own (mt_operations mt)) own' other"
    unfolding in_transit_def using sync send ok sent_direction(2) [OF sync send] used fresh tb by fastforce
  then show ?thesis
    using inv sent_direction(2) [OF sync send] used t tb by (auto simp: ends_inv_def agree_def tokens_used_def)
qed

lemma ends_inv_step:
  assumes "ends_inv C ser sign sign' used sound own other"
    and "end_step C ser sign used sound own other used' sound' own' other'"
  shows "ends_inv C ser sign sign' used' sound' own' other'"
  using assms(2) by (rule end_stepE) (use assms(1) in \<open>auto intro: end_step_sends end_step_delivers\<close>)

abbreviation sys_inv ::
  "crypto_api \<Rightarrow> ('b \<Rightarrow> bytes) \<Rightarrow> (bytes \<Rightarrow> signature) \<Rightarrow> (bytes \<Rightarrow> signature) \<Rightarrow> 'b sys \<Rightarrow> bool" where
  "sys_inv C ser sign_a sign_b s \<equiv> ends_inv C ser sign_a sign_b (sys_used s) (sys_sound s) (sys_a s) (sys_b s)"

lemma ends_inv_channel_step:
  assumes "channel_step C ser sign_a sign_b s s'" "sys_inv C ser sign_a sign_b s"
  shows "sys_inv C ser sign_a sign_b s'"
  using assms
proof (induction rule: channel_step.induct)
  case (by_a used sound a b used' sound' a' b')
  then show ?case using ends_inv_step by fastforce
next
  case (by_b used sound b a used' sound' b' a')
  then show ?case
    using ends_inv_step [of C ser sign_b sign_a used sound b a used' sound' b' a'] by (simp add: ends_inv_sym [of C ser sign_a])
qed

section \<open>The start\<close>

lemma bytes_less_asym: "bytes_less xs ys \<Longrightarrow> \<not> bytes_less ys xs"
  by (induction xs ys rule: bytes_less.induct) (auto split: if_splits)

lemma bytes_less_linear: "\<not> bytes_less xs ys \<Longrightarrow> \<not> bytes_less ys xs \<Longrightarrow> xs = ys"
  by (induction xs ys rule: bytes_less.induct) (auto split: if_splits)

lemma new_channels:
  assumes "public_key_less C pk_a pk_b" and bal: "sint bal \<noteq> - (2 ^ 127)"
    and a: "token_channel_new C ser pk_a pk_b bal = Some a" and b: "token_channel_new C ser pk_b pk_a (- bal) = Some b"
  shows "synced C ser b a \<and> tokens_used {token_from_public_key pk_a, token_from_public_key pk_b} a
    \<and> tokens_used {token_from_public_key pk_a, token_from_public_key pk_b} b"
proof -
  have neg: "sint (- bal) = - sint bal"
    using bal i128_range [of bal] by (intro sint_neg_fits) (auto simp: i128_fits)
  have "\<not> public_key_less C pk_b pk_a"
    using assms(1) by (simp add: public_key_less_def bytes_less_asym)
  moreover have "i_checked_neg (- bal) = Some bal"
    using neg by (intro i_fits_neg_word) simp
  ultimately have b_eq: "b = \<lparr> tc_direction = TcIncoming \<lparr> ti_mutual_credit = mc_new pk_b pk_a (- bal),
      ti_move_token_in = create_hashed C ser (initial_move_token C pk_a pk_b bal) \<rparr> \<rparr>"
    using b by (simp add: token_channel_new_def Let_def)
  have a_eq: "a = \<lparr> tc_direction = TcOutgoing \<lparr> to_mutual_credit = mc_new pk_a pk_b bal,
      to_move_token_out = initial_move_token C pk_a pk_b bal, to_opt_prev_move_token_in = None \<rparr> \<rparr>"
    using a assms(1) by (simp add: token_channel_new_def Let_def)
  have "mc_inv (mc_new pk_a pk_b bal)" "mc_inv (mc_new pk_b pk_a (- bal))"
    using bal neg i128_range [of bal] by (auto intro!: mc_inv_new)
  moreover have "mirrored (mc_new pk_b pk_a (- bal)) (mc_new pk_a pk_b bal)"
    by (simp add: mirrored_def lg_of_mc_def lg_swap_def mc_new_def mc_balance_new_def mc_requests_status_new_def
        mc_pending_transactions_new_def neg)
  ultimately show ?thesis
    by (simp add: synced_def a_eq b_eq tokens_used_def initial_move_token_def mc_new_def)
qed

lemma local_key_new: "token_channel_new C ser pk pk' bal = Some tc \<Longrightarrow> local_key tc = pk"
  by (auto simp: token_channel_new_def Let_def local_key_def get_mutual_credit_def mc_new_def split: if_splits option.splits)

lemma reachable_inv:
  assumes "reachable C ser sign_a sign_b pk_a pk_b bal s"
    and "signs_for C sign_a pk_a" "signs_for C sign_b pk_b"
    and "sha_512_256 C pk_a \<noteq> sha_512_256 C pk_b" "sint bal \<noteq> - (2 ^ 127)"
  shows "sys_inv C ser sign_a sign_b s"
  using assms(1)
proof induction
  case (start a b)
  have neg: "sint (- bal) = - sint bal"
    using assms(5) i128_range [of bal] by (intro sint_neg_fits) (auto simp: i128_fits)
  then have nbal: "sint (- bal) \<noteq> - (2 ^ 127)" using i128_range [of bal] by auto
  have "public_key_less C pk_a pk_b \<or> public_key_less C pk_b pk_a"
    using assms(4) bytes_less_linear by (auto simp: public_key_less_def)
  then have "synced C ser b a \<or> synced C ser a b"
    and "tokens_used {token_from_public_key pk_a, token_from_public_key pk_b} a"
    and "tokens_used {token_from_public_key pk_a, token_from_public_key pk_b} b"
    using new_channels [of C pk_a pk_b bal ser a b] new_channels [of C pk_b pk_a "- bal" ser b a]
      start assms(5) nbal by (auto simp: insert_commute)
  then show ?case
    using assms(2,3) local_key_new [OF start(1)] local_key_new [OF start(2)] by (auto simp: ends_inv_def agree_def)
next
  case (step s s')
  then show ?case using ends_inv_channel_step by blast
qed

lemma ends_inv_mc:
  assumes "ends_inv C ser sign sign' used sound own other"
  shows "mc_inv (get_mutual_credit own) \<and> mc_inv (get_mutual_credit other)"
proof -
  have sync: "mc_inv (get_mutual_credit x) \<and> mc_inv (get_mutual_credit y)" if "synced C ser x y" for x y
    using that by (auto simp: synced_def get_mutual_credit_def split: tc_direction.splits)
  have "mc_inv (get_mutual_credit x) \<and> mc_inv (get_mutual_credit y)" if tr: "in_transit C ser sg ok x y" for sg ok x y
  proof -
    from tr obtain before tries relays nonce mt where b: "synced C ser before y"
      and send: "send_batch C ser sg before tries relays nonce = Some (x, mt)"
      unfolding in_transit_def by blast
    then have "mc_inv (get_mutual_credit x)"
      by (rule sent_token) (simp add: get_mutual_credit_def)
    with sync [OF b] show ?thesis by simp
  qed
  with sync assms show ?thesis
    unfolding ends_inv_def agree_def by blast
qed

lemma synced_mirrored: "synced C ser a b \<Longrightarrow> mirrored (get_mutual_credit a) (get_mutual_credit b)"
  by (auto simp: synced_def get_mutual_credit_def split: tc_direction.splits)

lemma not_outgoing: "\<not> is_outgoing tc \<longleftrightarrow> (\<exists>ti. tc_direction tc = TcIncoming ti)"
  by (simp add: is_outgoing_def split: tc_direction.split)

lemma transit_progress:
  assumes tr: "in_transit C ser sign True own other" and signer: "signs_for C sign (local_key own)"
  shows "\<exists>other'. end_step C ser sign used sound own other used sound own other' \<and> \<not> is_outgoing other'"
proof -
  obtain t where t: "tc_direction own = TcOutgoing t"
    using in_transit_directions [OF tr] by blast
  obtain other' r where recv: "receive_token C ser other (to_move_token_out t) = Ok (other', Received r)"
    and sync: "synced C ser other' own"
    using delivery_from_transit [OF tr signer t] by auto
  then show ?thesis
    using end_step.delivers [OF t recv] synced_directions [OF sync] by (auto simp: not_outgoing)
qed

lemma holder_or_progress:
  assumes inv: "sys_inv C ser sign_a sign_b s" and sound: "sys_sound s"
  shows "\<exists>s'. (s' = s \<or> channel_step C ser sign_a sign_b s s') \<and> (\<not> is_outgoing (sys_a s') \<or> \<not> is_outgoing (sys_b s'))"
proof -
  consider "synced C ser (sys_a s) (sys_b s) \<or> synced C ser (sys_b s) (sys_a s)"
    | "in_transit C ser sign_a True (sys_a s) (sys_b s)" | "in_transit C ser sign_b True (sys_b s) (sys_a s)"
    using inv sound by (auto simp: ends_inv_def agree_def)
  then show ?thesis
  proof cases
    case 1
    then have "\<not> is_outgoing (sys_a s) \<or> \<not> is_outgoing (sys_b s)"
      using synced_directions by (auto simp: not_outgoing dest: synced_directions)
    then show ?thesis by blast
  next
    case 2
    then obtain b' where "end_step C ser sign_a (sys_used s) (sys_sound s) (sys_a s) (sys_b s)
        (sys_used s) (sys_sound s) (sys_a s) b'" "\<not> is_outgoing b'"
      using transit_progress inv unfolding ends_inv_def by blast
    then show ?thesis
      by (intro exI [of _ "s\<lparr> sys_b := b' \<rparr>"]) (cases s, auto intro: channel_step.by_a)
  next
    case 3
    then obtain a' where "end_step C ser sign_b (sys_used s) (sys_sound s) (sys_b s) (sys_a s)
        (sys_used s) (sys_sound s) (sys_b s) a'" "\<not> is_outgoing a'"
      using transit_progress inv unfolding ends_inv_def by blast
    then show ?thesis
      by (intro exI [of _ "s\<lparr> sys_a := a' \<rparr>"]) (cases s, auto intro: channel_step.by_b)
  qed
qed

text \<open>After a batch that was not sound its token is refused, and no step changes anything any more.\<close>

lemma unsound_waits:
  assumes "ends_inv C ser sign sign' used False own other"
  obtains t t' where "tc_direction own = TcOutgoing t" "tc_direction other = TcOutgoing t'"
  using assms in_transit_directions unfolding ends_inv_def agree_def by blast

lemma unsound_step:
  assumes inv: "ends_inv C ser sign sign' used False own other"
    and step: "end_step C ser sign used False own other used' sound' own' other'"
  shows "used' = used \<and> \<not> sound' \<and> own' = own \<and> other' = other"
proof (rule unsound_waits [OF inv])
  fix t
  assume t: "tc_direction own = TcOutgoing t"
  show ?thesis
    using step
  proof (rule end_stepE)
    fix tries relays nonce mt
    assume "send_batch C ser sign own tries relays nonce = Some (own', mt)"
    then show ?thesis using send_batch_incoming t by fastforce
  next
    fix t' out
    assume "tc_direction own = TcOutgoing t'" "receive_token C ser other (to_move_token_out t') = Ok (other', out)"
      and "used' = used" "sound' = False" "own' = own"
    then show ?thesis using delivery_cases [OF inv t] t by auto
  qed
qed

lemma unsound_stuck:
  assumes step: "channel_step C ser sign_a sign_b s s'" and inv: "sys_inv C ser sign_a sign_b s" and unsound: "\<not> sys_sound s"
  shows "s' = s"
  using step
proof cases
  case (by_a used sound a b used' sound' a' b')
  then show ?thesis using unsound_step [of C ser sign_a sign_b used a b used' sound' a' b'] inv unsound by auto
next
  case (by_b used sound b a used' sound' b' a')
  then show ?thesis
    using unsound_step [of C ser sign_b sign_a used b a used' sound' b' a'] inv [unfolded ends_inv_sym [of C ser sign_a]] unsound
    by auto
qed

lemma unsound_refused:
  assumes inv: "ends_inv C ser sign sign' used False own other"
  shows "(\<exists>t e. tc_direction own = TcOutgoing t \<and> receive_token C ser other (to_move_token_out t) = Err e)
    \<or> (\<exists>t e. tc_direction other = TcOutgoing t \<and> receive_token C ser own (to_move_token_out t) = Err e)"
proof -
  have refused: "\<exists>t e. tc_direction x = TcOutgoing t \<and> receive_token C ser y (to_move_token_out t) = Err e"
    if "in_transit C ser sg False x y" "signs_for C sg (local_key x)" for sg x y
    using in_transit_directions [OF that(1)] delivery_from_transit [OF that] by auto
  from inv show ?thesis
    unfolding ends_inv_def agree_def using refused by blast
qed

section \<open>Properties\<close>

definition example_ser :: "nat \<Rightarrow> bytes" where
  "example_ser n = [of_nat n]"

definition example_sign :: "public_key \<Rightarrow> bytes \<Rightarrow> signature" where
  "example_sign pk buff = take 64 (pk @ buff)"

lemma example_signs: "signs_for example_crypto (example_sign pk) pk"
  by (simp add: signs_for_def example_sign_def example_crypto_accepts [simplified])

lemma example_keys: "sha_512_256 example_crypto [1] \<noteq> sha_512_256 example_crypto [2]"
  by (simp add: example_crypto_def)

lemma example_balance: "sint (- 3 :: i128) \<noteq> - (2 ^ 127)"
  by simp

lemma token_channel_new_exists:
  assumes "sint bal \<noteq> - (2 ^ 127)"
  shows "\<exists>tc. token_channel_new C ser pk pk' bal = Some tc"
  using assms i128_range [of bal]
  by (auto simp: token_channel_new_def Let_def i_checked_neg_def i128_fits)

lemma example_reachable:
  "\<exists>s. reachable example_crypto example_ser (example_sign [1]) (example_sign [2]) [1] [2] (- 3) s"
proof -
  obtain a where a: "token_channel_new example_crypto example_ser [1] [2] (- 3) = Some a"
    using token_channel_new_exists [OF example_balance] by blast
  obtain b where b: "token_channel_new example_crypto example_ser [2] [1] (- (- 3)) = Some b"
    using token_channel_new_exists [of "- (- 3)" example_crypto example_ser "[2]" "[1]"] by auto
  show ?thesis using reachable.start [OF a b] by blast
qed

lemma send_batch_exists:
  assumes "tc_direction a = TcIncoming ti" "mc_inv (ti_mutual_credit ti)"
    and "queue_operations C (outgoing_mc_new (ti_mutual_credit ti)) ops = Ok (om, ms)"
  shows "\<exists>a' mt. send_batch C ser sign a ops relays nonce = Some (a', mt) \<and> mt_operations mt = ops"
  using assms queue_operations_replay [OF _ assms(3)] push_operations_queued [OF assms(3)]
  by (simp add: send_batch_def begin_outgoing_move_token_def tc_replay_mc om_inv_def outgoing_mc_new_def
      get_mutual_credit_def set_mutual_credit_def Let_def)

text \<open>A new channel, whose second end holds the token, and the batches that end may send.\<close>

lemma example_start:
  obtains a b ti t where
    "reachable example_crypto example_ser (example_sign [1]) (example_sign [2]) [1] [2] (- 3)
      \<lparr> sys_a = a, sys_b = b, sys_used = {token_from_public_key [1], token_from_public_key [2]}, sys_sound = True \<rparr>"
    "synced example_crypto example_ser b a" "tc_direction b = TcIncoming ti" "tc_direction a = TcOutgoing t"
    "ti_mutual_credit ti = mc_new [2] [1] 3" "to_mutual_credit t = mc_new [1] [2] (- 3)"
    "mc_inv (ti_mutual_credit ti)" "mc_inv (to_mutual_credit t)"
    "local_key b = [2]" "get_move_token_counter b \<noteq> - 1"
proof -
  let ?C = example_crypto
  have less: "public_key_less ?C [1] [2]" and nless: "\<not> public_key_less ?C [2] [1]"
    by (simp_all add: public_key_less_def example_crypto_def)
  obtain a where a: "token_channel_new ?C example_ser [1] [2] (- 3) = Some a"
    using token_channel_new_exists [OF example_balance] by blast
  obtain b where b: "token_channel_new ?C example_ser [2] [1] (- (- 3)) = Some b"
    using token_channel_new_exists [of "- (- 3)" ?C example_ser "[2]" "[1]"] by auto
  have sync: "synced ?C example_ser b a"
    using new_channels [OF less example_balance a b] by blast
  then obtain ti t where ti: "tc_direction b = TcIncoming ti" and t: "tc_direction a = TcOutgoing t"
    and inv: "mc_inv (ti_mutual_credit ti)" "mc_inv (to_mutual_credit t)"
    by (auto simp: synced_def split: tc_direction.splits)
  have mcs: "ti_mutual_credit ti = mc_new [2] [1] 3" "to_mutual_credit t = mc_new [1] [2] (- 3)"
    using a b less nless ti t by (auto simp: token_channel_new_def Let_def split: option.splits)
  have "get_move_token_counter b \<noteq> - 1"
    using b nless
    by (auto simp: token_channel_new_def Let_def get_move_token_counter_def initial_move_token_def split: option.splits)
  with that [OF reachable.start [OF a b] sync ti t mcs inv local_key_new [OF b]] show thesis by simp
qed

text \<open>The tokens of that end differ from the tokens of the start in their second byte.\<close>

lemma example_fresh:
  "mt_new_token (sign_move_token example_crypto ser (example_sign [2]) u)
     \<notin> {token_from_public_key [1], token_from_public_key [2]}"
proof -
  have "mt_new_token (sign_move_token example_crypto ser (example_sign [2]) u) ! 1 = TOKEN_NEXT ! 0"
    by (simp add: sign_move_token_def Let_def example_sign_def move_token_signature_buff_def example_crypto_def
        TOKEN_NEXT_def ascii_def nth_append)
  moreover have "TOKEN_NEXT ! 0 \<noteq> 0" "token_from_public_key [1] ! 1 = 0" "token_from_public_key [2] ! 1 = 0"
    by (simp_all add: TOKEN_NEXT_def ascii_def token_from_public_key_def SIGNATURE_LEN_def PUBLIC_KEY_LEN_def)
  ultimately show ?thesis by auto
qed

lemma example_sent:
  assumes sync: "synced example_crypto example_ser b a"
    and send: "send_batch example_crypto example_ser (example_sign [2]) b tries relays nonce = Some (b', mt)"
  shows "channel_step example_crypto example_ser (example_sign [1]) (example_sign [2])
    \<lparr> sys_a = a, sys_b = b, sys_used = {token_from_public_key [1], token_from_public_key [2]}, sys_sound = True \<rparr>
    \<lparr> sys_a = a, sys_b = b', sys_used = insert (mt_new_token mt) {token_from_public_key [1], token_from_public_key [2]},
       sys_sound = sound_batch example_crypto b (mt_operations mt) \<rparr>"
proof -
  obtain u where "mt = sign_move_token example_crypto example_ser (example_sign [2]) u"
    by (rule send_batch_Some [OF send]) blast
  then have "mt_new_token mt \<notin> {token_from_public_key [1], token_from_public_key [2]}"
    using example_fresh by blast
  from end_step.sends [OF send this, of True a] show ?thesis by (intro channel_step.by_b) simp
qed

text \<open>The second side of a new channel opens its requests.\<close>

lemma example_exchange:
  "\<exists>a t mt r. mc_inv (to_mutual_credit t) \<and> tc_direction a = TcOutgoing t
    \<and> \<not> is_open (mr_remote (st_requests_status (to_mutual_credit t)))
    \<and> mt_operations mt = [EnableRequests] \<and> sint (mt_balance mt) \<noteq> - (2 ^ 127)
    \<and> simulate_receive_move_token example_crypto example_ser a mt = Ok (Received r)
    \<and> (\<exists>b' used. reachable example_crypto example_ser (example_sign [1]) (example_sign [2]) [1] [2] (- 3)
        \<lparr> sys_a = a, sys_b = b', sys_used = used, sys_sound = True \<rparr> \<and> is_outgoing b')"
proof (rule example_start)
  let ?C = example_crypto
  let ?used = "{token_from_public_key [1], token_from_public_key [2]}"
  fix a b ti t
  assume start: "reachable ?C example_ser (example_sign [1]) (example_sign [2]) [1] [2] (- 3)
      \<lparr> sys_a = a, sys_b = b, sys_used = ?used, sys_sound = True \<rparr>"
    and sync: "synced ?C example_ser b a" and ti: "tc_direction b = TcIncoming ti" and t: "tc_direction a = TcOutgoing t"
    and mcs: "ti_mutual_credit ti = mc_new [2] [1] 3" "to_mutual_credit t = mc_new [1] [2] (- 3)"
    and inv: "mc_inv (ti_mutual_credit ti)" "mc_inv (to_mutual_credit t)"
    and b: "local_key b = [2]" "get_move_token_counter b \<noteq> - 1"
  have queue: "queue_operations ?C (outgoing_mc_new (ti_mutual_credit ti)) [EnableRequests] =
      Ok (outgoing_mc_new (set_local_requests_status (ti_mutual_credit ti) Open), [SetLocalRequestsStatus Open])"
    by (simp add: queue_enable_requests_def om_mutate_def outgoing_mc_new_def)
  then obtain b' and mt :: "(nat, signature) move_token"
    where send: "send_batch ?C example_ser (example_sign [2]) b [EnableRequests] None [0] = Some (b', mt)"
    and ops: "mt_operations mt = [EnableRequests]"
    using send_batch_exists [OF ti inv(1)] by blast
  have sound: "sound_batch ?C b (mt_operations mt)"
    using queue ti b by (simp add: ops sound_batch_def get_mutual_credit_def)
  obtain a' r where recv: "receive_token ?C example_ser a mt = Ok (a', Received r)"
    using exchange [OF sync send sound] example_signs b by auto
  have sent: "reachable ?C example_ser (example_sign [1]) (example_sign [2]) [1] [2] (- 3)
      \<lparr> sys_a = a, sys_b = b', sys_used = insert (mt_new_token mt) ?used, sys_sound = True \<rparr>"
    using reachable.step [OF start example_sent [OF sync send]] sound by simp
  moreover have "is_outgoing b'"
    using sent_direction(1) [OF sync send] by (auto simp: is_outgoing_def)
  moreover have "\<not> is_open (mr_remote (st_requests_status (to_mutual_credit t)))"
    by (simp add: mcs mc_new_def mc_requests_status_new_def)
  ultimately show ?thesis
    using inv t ops sent_token_balance [OF sync send] receive_token_Ok [OF recv] by blast
qed

lemma example_in_flight:
  "\<exists>s. reachable example_crypto example_ser (example_sign [1]) (example_sign [2]) [1] [2] (- 3) s
    \<and> sys_sound s \<and> is_outgoing (sys_a s) \<and> is_outgoing (sys_b s)"
proof -
  obtain a t b' used where "tc_direction a = TcOutgoing t" "is_outgoing b'"
    "reachable example_crypto example_ser (example_sign [1]) (example_sign [2]) [1] [2] (- 3)
      \<lparr> sys_a = a, sys_b = b', sys_used = used, sys_sound = True \<rparr>"
    using example_exchange by blast
  then show ?thesis by (intro exI conjI) (auto simp: is_outgoing_def)
qed

text \<open>The same side disables requests that are already disabled.\<close>

lemma example_unsound:
  "\<exists>s. reachable example_crypto example_ser (example_sign [1]) (example_sign [2]) [1] [2] (- 3) s \<and> \<not> sys_sound s"
proof (rule example_start)
  let ?C = example_crypto
  fix a b ti t
  assume start: "reachable ?C example_ser (example_sign [1]) (example_sign [2]) [1] [2] (- 3)
      \<lparr> sys_a = a, sys_b = b, sys_used = {token_from_public_key [1], token_from_public_key [2]}, sys_sound = True \<rparr>"
    and sync: "synced ?C example_ser b a" and ti: "tc_direction b = TcIncoming ti"
    and mc: "ti_mutual_credit ti = mc_new [2] [1] 3" and inv: "mc_inv (ti_mutual_credit ti)"
  obtain om ms where "queue_operations ?C (outgoing_mc_new (ti_mutual_credit ti)) [DisableRequests] = Ok (om, ms)"
    by (simp add: queue_disable_requests_def om_mutate_def)
  then obtain b' and mt :: "(nat, signature) move_token"
    where send: "send_batch ?C example_ser (example_sign [2]) b [DisableRequests] None [0] = Some (b', mt)"
    and ops: "mt_operations mt = [DisableRequests]"
    using send_batch_exists [OF ti inv] by blast
  have "\<not> sound_batch ?C b (mt_operations mt)"
    using ti by (simp add: ops sound_batch_def local_open_def get_mutual_credit_def mc mc_new_def mc_requests_status_new_def)
  then show ?thesis
    using reachable.step [OF start example_sent [OF sync send]] by fastforce
qed

text \<open>
  C1: However the two ends of a channel interleave sending, losing, repeating and delivering move
  tokens, they never both hold the token, both credit lines keep their invariant, and whenever an
  end holds the token the two credit lines are mirror images of each other. This holds whatever
  operations the ends try to send. The signatures of each end verify under its key, every new
  token differs from the earlier ones, distinct keys have distinct hashes, and the opening
  balance has an opposite.
\<close>

theorem channel_ends_agree:
  assumes "reachable C ser sign_a sign_b pk_a pk_b bal s"
    and "signs_for C sign_a pk_a" "signs_for C sign_b pk_b"
    and "sha_512_256 C pk_a \<noteq> sha_512_256 C pk_b" "sint bal \<noteq> - (2 ^ 127)"
  shows "(is_outgoing (sys_a s) \<or> is_outgoing (sys_b s))
    \<and> mc_inv (get_mutual_credit (sys_a s)) \<and> mc_inv (get_mutual_credit (sys_b s))
    \<and> (\<not> is_outgoing (sys_a s) \<or> \<not> is_outgoing (sys_b s) \<longrightarrow>
        mirrored (get_mutual_credit (sys_a s)) (get_mutual_credit (sys_b s)))"
proof -
  have inv: "sys_inv C ser sign_a sign_b s"
    using assms by (rule reachable_inv)
  note inv' = inv [unfolded ends_inv_sym [of C ser sign_a]]
  have a: "is_outgoing (sys_b s) \<and> mirrored (get_mutual_credit (sys_a s)) (get_mutual_credit (sys_b s))"
    if "\<not> is_outgoing (sys_a s)"
  proof -
    obtain ti where "tc_direction (sys_a s) = TcIncoming ti"
      using \<open>\<not> is_outgoing (sys_a s)\<close> by (auto simp: not_outgoing)
    from ends_inv_holder(1) [OF inv this] show ?thesis
      using synced_directions synced_mirrored by (fastforce simp: is_outgoing_def)
  qed
  have b: "is_outgoing (sys_a s) \<and> mirrored (get_mutual_credit (sys_a s)) (get_mutual_credit (sys_b s))"
    if "\<not> is_outgoing (sys_b s)"
  proof -
    obtain ti where "tc_direction (sys_b s) = TcIncoming ti"
      using \<open>\<not> is_outgoing (sys_b s)\<close> by (auto simp: not_outgoing)
    from ends_inv_holder(1) [OF inv' this] show ?thesis
      using synced_directions synced_mirrored mirrored_sym by (fastforce simp: is_outgoing_def)
  qed
  show ?thesis using a b ends_inv_mc [OF inv] by blast
qed

theorem channel_ends_agree_witness:
  "\<exists>s. reachable example_crypto example_ser (example_sign [1]) (example_sign [2]) [1] [2] (- 3) s
    \<and> (is_outgoing (sys_a s) \<or> is_outgoing (sys_b s))"
  using example_reachable channel_ends_agree [OF _ example_signs example_signs example_keys example_balance] by blast

text \<open>
  C3: The channel works exactly as long as every batch sent on it is sound. A batch is sound if
  each of its operations can be queued, if it disables requests only while they are enabled and
  if the counter of tokens is not exhausted; the sender can send others, because it pushes a
  request even when it repeats a pending one. While all batches were sound, the last token of an
  end that waits is accepted by the other end, recognised as a duplicate or answered with a
  retransmission, never rejected and never the cause of a panic, and if both ends wait, one
  delivery is accepted and gives the receiver the token, so the channel cannot stall. After a
  batch that was not sound both ends wait, the token of one of them is refused with an error, and
  no further sending or delivery of current tokens changes anything. New tokens are assumed to
  differ from the earlier ones, and only the current token of an end is delivered.
\<close>

theorem channel_works_iff_batches_sound:
  assumes "reachable C ser sign_a sign_b pk_a pk_b bal s"
    and "signs_for C sign_a pk_a" "signs_for C sign_b pk_b"
    and "sha_512_256 C pk_a \<noteq> sha_512_256 C pk_b" "sint bal \<noteq> - (2 ^ 127)"
  shows "(sys_sound s \<longrightarrow>
      (\<forall>t. tc_direction (sys_a s) = TcOutgoing t \<longrightarrow>
        (\<exists>b' out. receive_token C ser (sys_b s) (to_move_token_out t) = Ok (b', out)))
      \<and> (\<forall>t. tc_direction (sys_b s) = TcOutgoing t \<longrightarrow>
        (\<exists>a' out. receive_token C ser (sys_a s) (to_move_token_out t) = Ok (a', out)))
      \<and> (\<exists>s'. (s' = s \<or> channel_step C ser sign_a sign_b s s') \<and> (\<not> is_outgoing (sys_a s') \<or> \<not> is_outgoing (sys_b s'))))
    \<and> (\<not> sys_sound s \<longrightarrow>
      is_outgoing (sys_a s) \<and> is_outgoing (sys_b s)
      \<and> ((\<exists>t e. tc_direction (sys_a s) = TcOutgoing t \<and> receive_token C ser (sys_b s) (to_move_token_out t) = Err e)
        \<or> (\<exists>t e. tc_direction (sys_b s) = TcOutgoing t \<and> receive_token C ser (sys_a s) (to_move_token_out t) = Err e))
      \<and> (\<forall>s'. channel_step C ser sign_a sign_b s s' \<longrightarrow> s' = s))"
proof (intro conjI [where P = "sys_sound s \<longrightarrow> _"] impI)
  have inv: "sys_inv C ser sign_a sign_b s"
    using assms by (rule reachable_inv)
  note inv' = inv [unfolded ends_inv_sym [of C ser sign_a]]
  {
    assume sound: "sys_sound s"
    show "(\<forall>t. tc_direction (sys_a s) = TcOutgoing t \<longrightarrow>
        (\<exists>b' out. receive_token C ser (sys_b s) (to_move_token_out t) = Ok (b', out)))
      \<and> (\<forall>t. tc_direction (sys_b s) = TcOutgoing t \<longrightarrow>
        (\<exists>a' out. receive_token C ser (sys_a s) (to_move_token_out t) = Ok (a', out)))
      \<and> (\<exists>s'. (s' = s \<or> channel_step C ser sign_a sign_b s s') \<and> (\<not> is_outgoing (sys_a s') \<or> \<not> is_outgoing (sys_b s')))"
      using holder_or_progress [OF inv sound] delivery_cases [OF inv] delivery_cases [OF inv'] sound by blast
  next
    assume unsound: "\<not> sys_sound s"
    then have inv0: "ends_inv C ser sign_a sign_b (sys_used s) False (sys_a s) (sys_b s)" using inv by simp
    have "is_outgoing (sys_a s) \<and> is_outgoing (sys_b s)"
      by (rule unsound_waits [OF inv0]) (simp add: is_outgoing_def)
    then show "is_outgoing (sys_a s) \<and> is_outgoing (sys_b s)
      \<and> ((\<exists>t e. tc_direction (sys_a s) = TcOutgoing t \<and> receive_token C ser (sys_b s) (to_move_token_out t) = Err e)
        \<or> (\<exists>t e. tc_direction (sys_b s) = TcOutgoing t \<and> receive_token C ser (sys_a s) (to_move_token_out t) = Err e))
      \<and> (\<forall>s'. channel_step C ser sign_a sign_b s s' \<longrightarrow> s' = s)"
      using unsound_refused [OF inv0] unsound_stuck [OF _ inv unsound] by blast
  }
qed

theorem channel_works_iff_batches_sound_witness:
  "(\<exists>s s'. reachable example_crypto example_ser (example_sign [1]) (example_sign [2]) [1] [2] (- 3) s
      \<and> is_outgoing (sys_a s) \<and> is_outgoing (sys_b s)
      \<and> channel_step example_crypto example_ser (example_sign [1]) (example_sign [2]) s s'
      \<and> (\<not> is_outgoing (sys_a s') \<or> \<not> is_outgoing (sys_b s')))
    \<and> (\<exists>s. reachable example_crypto example_ser (example_sign [1]) (example_sign [2]) [1] [2] (- 3) s
      \<and> (\<forall>s'. channel_step example_crypto example_ser (example_sign [1]) (example_sign [2]) s s' \<longrightarrow> s' = s))"
proof
  note works = channel_works_iff_batches_sound [OF _ example_signs example_signs example_keys example_balance]
  obtain s where "reachable example_crypto example_ser (example_sign [1]) (example_sign [2]) [1] [2] (- 3) s"
    "sys_sound s" "is_outgoing (sys_a s)" "is_outgoing (sys_b s)"
    using example_in_flight by blast
  with works show "\<exists>s s'. reachable example_crypto example_ser (example_sign [1]) (example_sign [2]) [1] [2] (- 3) s
      \<and> is_outgoing (sys_a s) \<and> is_outgoing (sys_b s)
      \<and> channel_step example_crypto example_ser (example_sign [1]) (example_sign [2]) s s'
      \<and> (\<not> is_outgoing (sys_a s') \<or> \<not> is_outgoing (sys_b s'))" by metis
  show "\<exists>s. reachable example_crypto example_ser (example_sign [1]) (example_sign [2]) [1] [2] (- 3) s
      \<and> (\<forall>s'. channel_step example_crypto example_ser (example_sign [1]) (example_sign [2]) s s' \<longrightarrow> s' = s)"
    using example_unsound works by blast
qed

text \<open>
  The ends of a new channel need no message to agree: created independently from the two keys
  and opposite balances, exactly one of them starts as the waiting side, and the other holds the
  hash of the very token the first one pretends to have sent.
\<close>

theorem new_channel_ends_agree:
  assumes "sha_512_256 C pk_a \<noteq> sha_512_256 C pk_b" "sint bal \<noteq> - (2 ^ 127)"
  shows "\<exists>a b. token_channel_new C ser pk_a pk_b bal = Some a \<and> token_channel_new C ser pk_b pk_a (- bal) = Some b
    \<and> is_outgoing a \<noteq> is_outgoing b \<and> (synced C ser a b \<or> synced C ser b a)"
proof -
  have neg: "sint (- bal) = - sint bal"
    using assms(2) i128_range [of bal] by (intro sint_neg_fits) (auto simp: i128_fits)
  then have nbal: "sint (- bal) \<noteq> - (2 ^ 127)" using i128_range [of bal] by auto
  obtain a b where ab: "token_channel_new C ser pk_a pk_b bal = Some a" "token_channel_new C ser pk_b pk_a (- bal) = Some b"
    using token_channel_new_exists [OF assms(2)] token_channel_new_exists [OF nbal] by blast
  have "public_key_less C pk_a pk_b \<or> public_key_less C pk_b pk_a"
    using assms(1) bytes_less_linear by (auto simp: public_key_less_def)
  then have sync: "synced C ser a b \<or> synced C ser b a"
    using new_channels [of C pk_a pk_b bal ser a b] new_channels [of C pk_b pk_a "- bal" ser b a] ab assms(2) nbal by auto
  then have "is_outgoing a \<noteq> is_outgoing b"
    using synced_directions by (fastforce simp: is_outgoing_def)
  with ab sync show ?thesis by blast
qed

theorem new_channel_ends_agree_witness:
  "\<exists>a b. token_channel_new example_crypto example_ser [1] [2] (- 3) = Some a
    \<and> token_channel_new example_crypto example_ser [2] [1] (- (- 3)) = Some b \<and> is_outgoing a \<noteq> is_outgoing b"
  using new_channel_ends_agree [OF example_keys example_balance, of example_ser] by blast

text \<open>
  C9: What acceptance of a move token guarantees: the token is signed by the remote side and
  continues our own last token, its counter is exactly one more, its operations were all allowed
  on our credit line, and the balance and debts it states are those we computed ourselves. After
  the recorded mutations we hold the token and our credit line satisfies its invariant.
\<close>

theorem accepted_token_is_verified:
  assumes "mc_inv (to_mutual_credit t)" and "tc_direction tc = TcOutgoing t"
    and "simulate_receive_move_token C ser tc mt = Ok (Received r)"
  shows "verify_move_token C ser mt (mi_remote_public_key (st_idents (to_mutual_credit t)))
    \<and> mt_old_token mt = mt_new_token (to_move_token_out t)
    \<and> uint (mt_move_token_counter mt) = uint (mt_move_token_counter (to_move_token_out t)) + 1
    \<and> (\<exists>mc' outs. process_operations_list C (to_mutual_credit t) (mt_operations mt) = Ok (mc', outs)
        \<and> sint (mb_balance (st_balance mc')) = - sint (mt_balance mt)
        \<and> mb_local_pending_debt (st_balance mc') = mt_remote_pending_debt mt
        \<and> mb_remote_pending_debt (st_balance mc') = mt_local_pending_debt mt
        \<and> mc_inv mc'
        \<and> tc_replay tc (mtd_mutations r) = Some \<lparr> tc_direction =
            TcIncoming \<lparr> ti_mutual_credit = mc', ti_move_token_in = create_hashed C ser mt \<rparr> \<rparr>)"
proof -
  have run: "to_handle_incoming_token_match C ser t mt = Ok (Received r)"
    and old: "mt_old_token mt = mt_new_token (to_move_token_out t)"
    using assms(2,3) by (auto simp: simulate_receive_move_token_def to_handle_incoming_def split: if_splits)
  show ?thesis
  proof (rule token_match_Received [OF assms(1) run])
    fix mc' outs
    assume ops: "process_operations_list C (to_mutual_credit t) (mt_operations mt) = Ok (mc', outs)"
      and facts: "mc_inv mc'" "sint (mb_balance (st_balance mc')) = - sint (mt_balance mt)"
        "mb_local_pending_debt (st_balance mc') = mt_remote_pending_debt mt"
        "mb_remote_pending_debt (st_balance mc') = mt_local_pending_debt mt"
        "verify_move_token C ser mt (mi_remote_public_key (st_idents (to_mutual_credit t)))"
        "uint (mt_move_token_counter mt) = uint (mt_move_token_counter (to_move_token_out t)) + 1"
      and muts: "mtd_mutations r = map TcMcMutation (concat (map po_mc_mutations outs))
        @ [TcSetDirection (SdIncoming (create_hashed C ser mt))]"
    have "tc_replay tc (mtd_mutations r) = Some \<lparr> tc_direction =
        TcIncoming \<lparr> ti_mutual_credit = mc', ti_move_token_in = create_hashed C ser mt \<rparr> \<rparr>"
      using process_list_replay [OF assms(1) ops] assms(2)
      by (simp add: muts tc_replay_append tc_replay_mc get_mutual_credit_def set_mutual_credit_def)
    with ops facts old show ?thesis by blast
  qed
qed

theorem accepted_token_is_verified_witness:
  "\<exists>t (mt :: (nat, signature) move_token).
     verify_move_token example_crypto example_ser mt (mi_remote_public_key (st_idents (to_mutual_credit t)))
     \<and> mt_old_token mt = mt_new_token (to_move_token_out (t :: nat tc_outgoing)) \<and> mt_operations mt = [EnableRequests]"
  using example_exchange accepted_token_is_verified by blast

text \<open>
  C36: No move token, whoever made it, makes the receiving channel panic, provided its stated
  balance is not the least \<open>i128\<close>, whose negation overflows.
\<close>

theorem receiving_never_panics:
  assumes "mc_inv (get_mutual_credit tc)" "sint (mt_balance mt) \<noteq> - (2 ^ 127)"
  shows "simulate_receive_move_token C ser tc mt \<noteq> Panic"
  using assms by (rule simulate_not_Panic)

theorem receiving_never_panics_witness:
  "\<exists>a (mt :: (nat, signature) move_token). mc_inv (get_mutual_credit a) \<and> sint (mt_balance mt) \<noteq> - (2 ^ 127)
     \<and> simulate_receive_move_token example_crypto example_ser a mt \<noteq> Panic"
proof -
  obtain a :: "nat token_channel" and t and mt :: "(nat, signature) move_token"
    where "mc_inv (to_mutual_credit t)" "tc_direction a = TcOutgoing t"
    and mt: "sint (mt_balance mt) \<noteq> - (2 ^ 127)"
    using example_exchange by blast
  then have "mc_inv (get_mutual_credit a)" by (simp add: get_mutual_credit_def)
  with receiving_never_panics [OF this mt] mt show ?thesis by blast
qed

text \<open>
  The flag \<open>remote_requests_closed\<close> of a received token is set exactly when the remote side
  has opened its requests: they were closed before the token and are open after it. It is never
  set when the remote side closes them, although that is the event it is named after and the one
  on which its consumer cancels pending requests.
\<close>

theorem remote_requests_closed_reports_opening:
  assumes "mc_inv (to_mutual_credit t)" and "tc_direction tc = TcOutgoing t"
    and "simulate_receive_move_token C ser tc mt = Ok (Received r)"
    and "process_operations_list C (to_mutual_credit t) (mt_operations mt) = Ok (mc', outs)"
  shows "mtd_remote_requests_closed r \<longleftrightarrow>
    \<not> is_open (mr_remote (st_requests_status (to_mutual_credit t))) \<and> is_open (mr_remote (st_requests_status mc'))"
proof -
  have run: "to_handle_incoming_token_match C ser t mt = Ok (Received r)"
    using assms(2,3) by (auto simp: simulate_receive_move_token_def to_handle_incoming_def split: if_splits)
  show ?thesis
    by (rule token_match_Received [OF assms(1) run]) (use assms(4) in auto)
qed

theorem remote_requests_closed_reports_opening_witness:
  "\<exists>a (mt :: (nat, signature) move_token) r. mt_operations mt = [EnableRequests]
     \<and> simulate_receive_move_token example_crypto example_ser a mt = Ok (Received r)
     \<and> mtd_remote_requests_closed r"
proof -
  obtain a t r and mt :: "(nat, signature) move_token" where inv: "mc_inv (to_mutual_credit t)"
    and t: "tc_direction a = TcOutgoing t"
    and closed: "\<not> is_open (mr_remote (st_requests_status (to_mutual_credit t)))"
    and ops: "mt_operations mt = [EnableRequests]"
    and recv: "simulate_receive_move_token example_crypto example_ser a mt = Ok (Received r)"
    using example_exchange by blast
  obtain mc' outs where run: "process_operations_list example_crypto (to_mutual_credit t) (mt_operations mt) = Ok (mc', outs)"
    and opened: "is_open (mr_remote (st_requests_status mc'))"
    by (simp add: ops process_operations_list_def process_enable_requests_def set_remote_requests_status_def)
  from remote_requests_closed_reports_opening [OF inv t recv run] closed opened ops recv show ?thesis by blast
qed

end
