(* ===== verification/HandlerProperties.thy ===== *)
theory HandlerProperties
  imports FunderHandler ChannelProtocol
begin

text \<open>
  What single handlers promise: the two sides of a channel reset, forwarding and its fee, the
  destination's answer to a request, and where a handler brings the node down.
\<close>

section \<open>Channel reset\<close>

lemma mirrored_new:
  assumes "sint nb = - sint b"
  shows "mirrored (mc_new pk_b pk_a b) (mc_new pk_a pk_b nb)"
  using assms by (simp add: mirrored_def lg_of_mc_def lg_swap_def mc_new_def mc_balance_new_def mc_requests_status_new_def
      mc_pending_transactions_new_def)

text \<open>The token of a local reset, and the channel it leaves.\<close>

definition reset_token ::
  "'b funder_env \<Rightarrow> public_key \<Rightarrow> public_key \<Rightarrow> reset_terms \<Rightarrow> i128 \<Rightarrow> nat \<Rightarrow> ('b, signature) move_token" where
  "reset_token E local_pk pk terms nb draws =
     sign_move_token (env_crypto E) (env_ser E) (env_sign E) (create_unsigned_move_token [] None (rt_reset_token terms)
       local_pk pk (rt_inconsistency_counter terms) 0 nb 0 0 (env_rng E draws RAND_VALUE_LEN))"

lemma local_reset_runs:
  assumes "hm_get (fs_friends (cx_state s)) pk = Some fr" "ci_opt_remote_reset_terms ci = Some terms"
    and "i_checked_neg (rt_balance_for_reset terms) = Some nb"
  shows "\<exists>s'. apply_local_reset E pk ci s = Some (Inr (), s')
    \<and> channel_of (cx_state s') pk = Some (Consistent (new_from_local_reset (fs_local_public_key (cx_state s)) pk
        (reset_token E (fs_local_public_key (cx_state s)) pk terms nb (cx_draws s)) nb (ci_opt_last_incoming_move_token ci)))"
  using assms
  by (simp add: apply_local_reset_def Let_def act_simps draw_def get_state_def mutate_friend_def mutate_def mf_mutate_def reset_token_def)

lemma reset_token_fields [simp]:
  "mt_old_token (reset_token E l pk terms nb d) = rt_reset_token terms"
  "mt_operations (reset_token E l pk terms nb d) = []"
  "mt_opt_local_relays (reset_token E l pk terms nb d) = None"
  "mt_inconsistency_counter (reset_token E l pk terms nb d) = rt_inconsistency_counter terms"
  "mt_move_token_counter (reset_token E l pk terms nb d) = 0"
  "mt_balance (reset_token E l pk terms nb d) = nb"
  "mt_local_pending_debt (reset_token E l pk terms nb d) = 0"
  "mt_remote_pending_debt (reset_token E l pk terms nb d) = 0"
  "mt_local_public_key (reset_token E l pk terms nb d) = l"
  "mt_remote_public_key (reset_token E l pk terms nb d) = pk"
  by (simp_all add: reset_token_def sign_move_token_def create_unsigned_move_token_def Let_def)

lemma reset_token_valid:
  assumes "signs_for (env_crypto E) (env_sign E) l" "env_crypto E' = env_crypto E" "env_ser E' = env_ser E"
    and "i_checked_neg (rt_balance_for_reset terms) = Some nb"
  shows "is_reset_attempt E' l terms (reset_token E l pk terms nb d) = Some True"
proof -
  have "verify_move_token (env_crypto E) (env_ser E) (reset_token E l pk terms nb d) l"
    unfolding reset_token_def by (rule verify_signed_token [OF assms(1)])
  with assms show ?thesis by (simp add: is_reset_attempt_def)
qed

lemma remote_reset_runs:
  assumes "hm_get (fs_friends (cx_state s)) pk = Some fr" "fr_channel_status fr = Inconsistent ci"
    and "is_reset_attempt E pk (ci_local_reset_terms ci) (mtr_friend_move_token req) = Some True"
  shows "\<exists>s'. handle_move_token_request E pk req s = Some (Inr (), s')
    \<and> channel_of (cx_state s') pk = Some (Consistent (new_from_remote_reset (env_crypto E) (env_ser E)
        (fs_local_public_key (cx_state s)) pk (mtr_friend_move_token req) (rt_balance_for_reset (ci_local_reset_terms ci))))"
  using assms
  by (cases "mtr_token_wanted req")
    (simp_all add: handle_move_token_request_def try_reset_channel_def Let_def act_simps get_friend_or_def get_state_def mutate_friend_def
      mutate_def mf_mutate_def command_def)

lemma reset_channels_synced:
  assumes "i_checked_neg (rt_balance_for_reset terms) = Some nb"
  shows "synced C ser (new_from_remote_reset C ser pk l mt (rt_balance_for_reset terms)) (new_from_local_reset l pk mt nb prev)
    \<longleftrightarrow> mt_local_public_key mt = l \<and> mt_remote_public_key mt = pk"
proof -
  have nb: "sint (rt_balance_for_reset terms) \<noteq> - (2 ^ 127)" "sint nb = - sint (rt_balance_for_reset terms)" "sint nb \<noteq> - (2 ^ 127)"
    using checked_neg_not_min [OF assms] by auto
  from mirrored_new [OF nb(2)] mc_inv_new [OF nb(1)] mc_inv_new [OF nb(3)] show ?thesis
    by (simp add: synced_def new_from_remote_reset_def new_from_local_reset_def) (simp add: mc_new_def)
qed

text \<open>
  C28: A reset that one side applies is accepted by the other, and the channel works again. If node
  \<open>a\<close> holds the reset terms its friend \<open>b\<close> offered and applies them, then \<open>b\<close>, which still has
  these terms on offer, accepts the move token \<open>a\<close> signed, and both have a consistent channel:
  \<open>a\<close> waits for an answer, \<open>b\<close> holds the token, their credit lines are mirror images, and the
  balance is the one \<open>b\<close> offered, without credit limits or pending requests. Only terms with the
  balance that has no negation are excluded.
\<close>

theorem reset_channel_agrees:
  assumes a: "channel_of (cx_state s_a) b = Some (Inconsistent ci_a)" "fs_local_public_key (cx_state s_a) = a"
    and b: "channel_of (cx_state s_b) a = Some (Inconsistent ci_b)" "fs_local_public_key (cx_state s_b) = b"
    and terms: "ci_opt_remote_reset_terms ci_a = Some (ci_local_reset_terms ci_b)"
      "sint (rt_balance_for_reset (ci_local_reset_terms ci_b)) \<noteq> - (2 ^ 127)"
    and env: "signs_for (env_crypto E_a) (env_sign E_a) a" "env_crypto E_b = env_crypto E_a" "env_ser E_b = env_ser E_a"
  shows "\<exists>s_a' tc_a t s_b' tc_b. apply_local_reset E_a b ci_a s_a = Some (Inr () :: 'e + unit, s_a')
    \<and> channel_of (cx_state s_a') b = Some (Consistent tc_a) \<and> tc_direction tc_a = TcOutgoing t
    \<and> handle_move_token_request E_b a \<lparr> mtr_friend_move_token = to_move_token_out t, mtr_token_wanted = tw \<rparr> s_b = Some (Inr (), s_b')
    \<and> channel_of (cx_state s_b') a = Some (Consistent tc_b) \<and> synced (env_crypto E_a) (env_ser E_a) tc_b tc_a
    \<and> get_mutual_credit tc_b = mc_new b a (rt_balance_for_reset (ci_local_reset_terms ci_b))"
proof -
  let ?terms = "ci_local_reset_terms ci_b"
  obtain nb where nb: "i_checked_neg (rt_balance_for_reset ?terms) = Some nb"
    using terms(2) i128_range [of "rt_balance_for_reset ?terms"] by (auto simp: i_checked_neg_def i128_fits)
  let ?mt = "reset_token E_a a b ?terms nb (cx_draws s_a)"
  let ?a = "new_from_local_reset a b ?mt nb (ci_opt_last_incoming_move_token ci_a)"
  let ?b = "new_from_remote_reset (env_crypto E_a) (env_ser E_a) b a ?mt (rt_balance_for_reset ?terms)"
  let ?req = "\<lparr> mtr_friend_move_token = ?mt, mtr_token_wanted = tw \<rparr>"
  obtain fr_a fr_b where fr: "hm_get (fs_friends (cx_state s_a)) b = Some fr_a" "hm_get (fs_friends (cx_state s_b)) a = Some fr_b"
    "fr_channel_status fr_b = Inconsistent ci_b"
    using a(1) b(1) by (auto simp: channel_of_def)
  obtain s_a' where s_a': "apply_local_reset E_a b ci_a s_a = Some (Inr () :: 'e + unit, s_a')" "channel_of (cx_state s_a') b = Some (Consistent ?a)"
    using local_reset_runs [OF fr(1) terms(1) nb, of E_a] a(2) by auto
  have "is_reset_attempt E_b a ?terms (mtr_friend_move_token ?req) = Some True"
    by (simp add: reset_token_valid [OF env nb])
  from remote_reset_runs [OF fr(2,3) this] obtain s_b' where
    s_b': "handle_move_token_request E_b a ?req s_b = Some (Inr (), s_b')" "channel_of (cx_state s_b') a = Some (Consistent ?b)"
    using b(2) env(2,3) by auto
  have "synced (env_crypto E_a) (env_ser E_a) ?b ?a" by (simp add: reset_channels_synced [OF nb])
  moreover have "get_mutual_credit ?b = mc_new b a (rt_balance_for_reset ?terms)"
    by (simp add: get_mutual_credit_def new_from_remote_reset_def)
  moreover have "tc_direction ?a = TcOutgoing \<lparr> to_mutual_credit = mc_new a b nb, to_move_token_out = ?mt,
      to_opt_prev_move_token_in = ci_opt_last_incoming_move_token ci_a \<rparr>"
    by (simp add: new_from_local_reset_def)
  ultimately show ?thesis using s_a' s_b'
    by - (rule exI [of _ s_a'], rule exI [of _ ?a], rule exI [of _ "\<lparr> to_mutual_credit = mc_new a b nb, to_move_token_out = ?mt,
      to_opt_prev_move_token_in = ci_opt_last_incoming_move_token ci_a \<rparr>"], rule exI [of _ s_b'], rule exI [of _ ?b], simp)
qed

text \<open>Nodes with one friend, for the examples.\<close>

definition example_env_of :: "public_key \<Rightarrow> nat funder_env" where
  "example_env_of pk = \<lparr> env_crypto = example_crypto, env_ser = example_ser, env_sign = example_sign pk,
     env_rng = (\<lambda>i len. replicate len (of_nat i)), env_order = (\<lambda>keys. keys) \<rparr>"

definition example_friend :: "public_key \<Rightarrow> public_key \<Rightarrow> nat channel_status \<Rightarrow> nat friend_state" where
  "example_friend l pk status = \<lparr> fr_local_public_key = l, fr_remote_public_key = pk, fr_remote_relays = [],
     fr_sent_local_relays = NeverSent, fr_name = ''friend'', fr_rate = \<lparr> rate_mul = 0, rate_add = 2 \<rparr>, fr_status = Enabled,
     fr_channel_status = status, fr_wanted_remote_max_debt = 0, fr_wanted_local_requests_status = Closed,
     fr_pending_requests = [], fr_pending_backwards_ops = [], fr_pending_user_requests = [] \<rparr>"

definition example_ctx :: "public_key \<Rightarrow> (public_key \<times> nat channel_status) list \<Rightarrow> nat ctx" where
  "example_ctx l friends = initial_ctx ((funder_state_new l [])\<lparr> fs_friends := map (\<lambda>(pk, status). (pk, example_friend l pk status)) friends \<rparr>)
     \<lparr> ep_liveness = fold (\<lambda>pk lv. liveness_mutate lv (SetOnline pk)) (map fst friends) liveness_new \<rparr> 0"

definition example_terms :: reset_terms where
  "example_terms = \<lparr> rt_reset_token = [9], rt_inconsistency_counter = 4, rt_balance_for_reset = 25 \<rparr>"

definition example_broken :: "reset_terms option \<Rightarrow> channel_inconsistent" where
  "example_broken remote = \<lparr> ci_opt_last_incoming_move_token = None, ci_local_reset_terms = example_terms, ci_opt_remote_reset_terms = remote \<rparr>"

lemmas example_ctx_defs = example_ctx_def initial_ctx_def mf_new_def me_new_def funder_state_new_def channel_of_def hm_get_def example_friend_def

theorem reset_channel_agrees_witness:
  "\<exists>s_a' tc_a t s_b' tc_b.
     apply_local_reset (example_env_of [1]) [2] (example_broken (Some example_terms)) (example_ctx [1] [([2], Inconsistent (example_broken (Some example_terms)))])
       = Some (Inr () :: unit + unit, s_a')
     \<and> channel_of (cx_state s_a') [2] = Some (Consistent tc_a) \<and> tc_direction tc_a = TcOutgoing t
     \<and> handle_move_token_request (example_env_of [2]) [1] \<lparr> mtr_friend_move_token = to_move_token_out t, mtr_token_wanted = False \<rparr>
         (example_ctx [2] [([1], Inconsistent (example_broken None))]) = Some (Inr (), s_b')
     \<and> channel_of (cx_state s_b') [1] = Some (Consistent tc_b) \<and> get_mutual_credit tc_b = mc_new [2] [1] 25"
proof -
  have "channel_of (cx_state (example_ctx [1] [([2], Inconsistent (example_broken (Some example_terms)))])) [2]
      = Some (Inconsistent (example_broken (Some example_terms)))"
    "fs_local_public_key (cx_state (example_ctx [1] [([2], Inconsistent (example_broken (Some example_terms)))])) = [1]"
    "channel_of (cx_state (example_ctx [2] [([1], Inconsistent (example_broken None))])) [1] = Some (Inconsistent (example_broken None))"
    "fs_local_public_key (cx_state (example_ctx [2] [([1], Inconsistent (example_broken None))])) = [2]"
    by (simp_all add: example_ctx_defs)
  moreover have "ci_opt_remote_reset_terms (example_broken (Some example_terms)) = Some (ci_local_reset_terms (example_broken None))"
    "sint (rt_balance_for_reset (ci_local_reset_terms (example_broken None))) \<noteq> - (2 ^ 127)"
    by (simp_all add: example_broken_def example_terms_def)
  moreover have "signs_for (env_crypto (example_env_of [1])) (env_sign (example_env_of [1])) [1]"
    "env_crypto (example_env_of [2]) = env_crypto (example_env_of [1])" "env_ser (example_env_of [2]) = env_ser (example_env_of [1])"
    by (simp_all add: example_env_of_def example_signs)
  ultimately show ?thesis
    using reset_channel_agrees [of "example_ctx [1] [([2], Inconsistent (example_broken (Some example_terms)))]" "[2]"
        "example_broken (Some example_terms)" "[1]" "example_ctx [2] [([1], Inconsistent (example_broken None))]"
        "example_broken None" "example_env_of [1]" "example_env_of [2]" False]
    by (simp add: example_broken_def [of None]) (simp add: example_terms_def, blast)
qed

section \<open>Requests\<close>

text \<open>A friend that requests can be sent to: known, online, consistent and open on its side.\<close>

definition friend_usable :: "'b funder_state \<Rightarrow> ephemeral \<Rightarrow> public_key \<Rightarrow> bool" where
  "friend_usable st e pk \<longleftrightarrow> is_online (ep_liveness e) pk
     \<and> (\<exists>tc. channel_of st pk = Some (Consistent tc) \<and> mr_remote (st_requests_status (get_mutual_credit tc)) = Open)"

lemma friend_usable_ready:
  "(if hm_contains (fs_friends st) pk then is_friend_ready st e pk else Some False) = Some (friend_usable st e pk)"
  by (cases "hm_get (fs_friends st) pk")
    (auto simp: friend_usable_def is_friend_ready_def hm_contains_def channel_of_def
      split: channel_status.split elim: is_open.elims)

definition exact_fee :: "rate \<Rightarrow> u128 \<Rightarrow> int" where
  "exact_fee r dest_payment = uint dest_payment * uint (rate_mul r) div 2 ^ 32 + uint (rate_add r)"

lemma fee_taken:
  "(case calc_fee r pay of None \<Rightarrow> None
    | Some fee \<Rightarrow> (case u_checked_sub left fee of None \<Rightarrow> None | Some new_left_fees \<Rightarrow> Some (f new_left_fees)))
     = (if exact_fee r pay \<le> uint left then Some (f (left - word_of_int (exact_fee r pay))) else None)"
proof (cases "calc_fee r pay")
  case None
  then have "\<not> u_fits TYPE(128) (exact_fee r pay)" by (simp add: calc_fee_def Let_def to_u128_def exact_fee_def split: if_splits)
  moreover have "0 \<le> exact_fee r pay"
    unfolding exact_fee_def by (intro add_nonneg_nonneg pos_imp_zdiv_nonneg_iff [THEN iffD2] mult_nonneg_nonneg uint_ge_0) simp
  ultimately have "uint left < exact_fee r pay" using uint_lt2p [of left] by (simp add: u_fits_def)
  with None show ?thesis by simp
next
  case (Some fee)
  then have fee: "exact_fee r pay = uint fee" by (simp add: calc_fee_Some exact_fee_def)
  have "uint left - uint fee < 2 ^ LENGTH(128)" using uint_lt2p [of left] uint_ge_0 [of fee] by linarith
  with Some fee show ?thesis by (auto simp: u_checked_sub_def u_fits_def)
qed

text \<open>The mutations a handler adds.\<close>

definition records :: "'b ctx \<Rightarrow> 'b funder_mutation list \<Rightarrow> 'b ctx \<Rightarrow> bool" where
  "records s ms s' \<longleftrightarrow> mf_mutations (cx_m_state s') = mf_mutations (cx_m_state s) @ ms"

lemma ready_bind:
  "act_bind (if hm_contains (fs_friends st) pk then act_unwrap (is_friend_ready st e pk) else act_return False) f s
     = f (friend_usable st e pk) s"
  using friend_usable_ready [of st pk e] by (auto simp: act_simps split: if_splits)

lemma get_friend_bind: "hm_get (fs_friends (cx_state s)) pk = Some fr \<Longrightarrow> act_bind (get_friend pk) f s = f fr s"
  by (simp add: get_friend_def get_state_def act_simps)

lemma reply_with_cancel_records:
  assumes "hm_get (fs_friends (cx_state s)) pk = Some fr"
  shows "\<exists>s'. reply_with_cancel E pk rid s = Some (Inr (), s')
    \<and> records s [FriendMutation pk (PushBackPendingBackwardsOp (BackCancel (create_cancel_send_funds rid)))] s'"
  using assms by (simp add: reply_with_cancel_def act_simps mutate_friend_def mutate_def mf_mutate_def command_def records_def)

lemma forward_request_records:
  assumes "pk_to_index (rq_route rq) (fs_local_public_key (cx_state s)) = Some j" "index_to_pk (rq_route rq) (j + 1) = Some pk"
    and "hm_get (fs_friends (cx_state s)) pk = Some fr"
  shows "\<exists>s'. forward_request E rq s = Some (Inr (), s') \<and> records s [FriendMutation pk (PushBackPendingRequest rq)] s'"
  using assms by (simp add: forward_request_def Let_def act_simps get_state_def mutate_friend_def mutate_def mf_mutate_def command_def records_def)


definition open_status :: "public_key \<Rightarrow> public_key \<Rightarrow> nat channel_status" where
  "open_status l pk = Consistent \<lparr> tc_direction = TcIncoming
     \<lparr> ti_mutual_credit = (mc_new l pk 0)\<lparr> st_requests_status := \<lparr> mr_local = Open, mr_remote = Open \<rparr> \<rparr>,
       ti_move_token_in = create_hashed example_crypto example_ser (initial_move_token example_crypto pk l 0) \<rparr> \<rparr>"

definition example_transit :: request_send_funds_op where
  "example_transit = example_request\<lparr> rq_route := \<lparr> public_keys = [[1], [2], [3]] \<rparr> \<rparr>"


text \<open>
  The destination answers a request exactly when it matches an open invoice. At the end of the
  route the handler always returns: if an invoice with the request's identifier is open, its total
  is the total the request states, and the request pays no more than that total, then a response
  to the sender is queued to be signed and the state is not changed; otherwise a cancel for the
  sender is recorded and no response is queued.
\<close>

theorem request_answered_for_invoice:
  fixes s :: "'b ctx"
  assumes "find_pk_pair (rq_route rq) remote (fs_local_public_key (cx_state s)) = Some i" "length (public_keys (rq_route rq)) \<le> i + 2"
    and "hm_get (fs_friends (cx_state s)) remote = Some fr"
  shows "\<exists>s'. handle_request_send_funds E remote rq s = Some (Inr () :: 'e + unit, s')
    \<and> (if \<exists>oi. hm_get (fs_open_invoices (cx_state s)) (rq_invoice_id rq) = Some oi
            \<and> oi_total_dest_payment oi = rq_total_dest_payment rq \<and> rq_dest_payment rq \<le> oi_total_dest_payment oi
        then cx_state s' = cx_state s \<and> records s [] s'
          \<and> mf_unsigned_responses (cx_m_state s') = mf_unsigned_responses (cx_m_state s)
              @ [\<lparr> sr_friend_public_key = remote, sr_pending_transaction = create_pending_transaction rq \<rparr>]
        else records s [FriendMutation remote (PushBackPendingBackwardsOp (BackCancel (create_cancel_send_funds (rq_request_id rq))))] s'
          \<and> mf_unsigned_responses (cx_m_state s') = mf_unsigned_responses (cx_m_state s))" (is "\<exists>s'. _ \<and> (if ?match then _ else _)")
proof -
  have "is_invoice_match (cx_state s) rq \<longleftrightarrow> ?match" by (auto simp: is_invoice_match_def split: option.split)
  moreover have "(handle_request_send_funds E remote rq :: ('b, 'e, unit) handler) s =
    (if is_invoice_match (cx_state s) rq
     then act_seq (queue_unsigned_response remote (create_pending_transaction rq)) (command set_try_send remote) s
     else reply_with_cancel E remote (rq_request_id rq) s)"
    using assms by (simp add: handle_request_send_funds_def Let_def get_state_def get_ephemeral_def bind_gets run_choice bind_return
        route_len_def)
  ultimately show ?thesis using assms(3)
    by (cases ?match) (simp_all add: queue_unsigned_response_def mf_queue_unsigned_response_def reply_with_cancel_def command_def mutate_friend_def mutate_def
        mf_mutate_def records_def act_simps)
qed

definition example_invoiced :: "nat ctx" where
  "example_invoiced = (let s = example_ctx [2] [([1], open_status [2] [1])] in s\<lparr> cx_m_state := (cx_m_state s)\<lparr> mf_state := (cx_state s)\<lparr>
     fs_open_invoices := [([7], \<lparr> oi_total_dest_payment = 40, oi_incoming_transactions = [] \<rparr>)] \<rparr> \<rparr> \<rparr>)"

theorem request_answered_for_invoice_witness:
  "\<exists>s'. handle_request_send_funds (example_env_of [2]) [1] example_request example_invoiced = Some (Inr () :: unit + unit, s')
    \<and> map sr_friend_public_key (mf_unsigned_responses (cx_m_state s')) = [[1]] \<and> records example_invoiced [] s'"
proof -
  have "find_pk_pair (rq_route example_request) [1] (fs_local_public_key (cx_state example_invoiced)) = Some 0"
    "length (public_keys (rq_route example_request)) \<le> 0 + 2"
    "hm_get (fs_friends (cx_state example_invoiced)) [1] = Some (example_friend [2] [1] (open_status [2] [1]))"
    by (simp_all add: example_invoiced_def Let_def example_request_def find_pk_pair_def example_ctx_defs)
  moreover have "hm_get (fs_open_invoices (cx_state example_invoiced)) (rq_invoice_id example_request)
      = Some \<lparr> oi_total_dest_payment = 40, oi_incoming_transactions = [] \<rparr>"
    "mf_unsigned_responses (cx_m_state example_invoiced) = []"
    by (simp_all add: example_invoiced_def Let_def example_request_def example_ctx_defs)
  moreover have "rq_total_dest_payment example_request = 40" "rq_dest_payment example_request = 40" by (simp_all add: example_request_def)
  ultimately show ?thesis
    using request_answered_for_invoice [of example_request "[1]" example_invoiced 0, where 'e = unit] by fastforce
qed

section \<open>Where a handler brings the node down\<close>

text \<open>
  An application that removes a friend whose channel is inconsistent brings the node down. When
  the channel became inconsistent the requests waiting for the friend were cancelled; in such a
  state handling the message ends in the \<open>unreachable!()\<close> of
  \<open>cancel_local_pending_transactions\<close>, which expects a consistent channel, whatever the rest of the
  state and the environment are.
\<close>

theorem removing_inconsistent_friend_panics:
  assumes "hm_get (fs_friends st) pk = Some fr" "fr_channel_status fr = Inconsistent ci"
    and "fr_pending_requests fr = []" "fr_pending_user_requests fr = []"
  shows "funder_handle_message E st e draws max_node_relays N max_pending
    (FiControl \<lparr> fic_app_request_id = app_id, fic_funder_control = FcRemoveFriend \<lparr> rf_friend_public_key = pk \<rparr> \<rparr>) = Panic"
  using assms
  by (simp add: funder_handle_message_def funder_handle_incoming_def initial_ctx_def mf_new_def control_remove_friend_def
      disable_friend_def cancel_pending_requests_def cancel_pending_user_requests_def cancel_local_pending_transactions_def
      push_channeler_config_def get_friend_or_def get_channel_def get_friend_def get_state_def act_simps act_try_def)

theorem removing_inconsistent_friend_panics_witness:
  "funder_handle_message (example_env_of [2]) (cx_state (example_ctx [2] [([1], Inconsistent (example_broken None))])) ephemeral_new 0 5 5 5
     (FiControl \<lparr> fic_app_request_id = [4], fic_funder_control = FcRemoveFriend \<lparr> rf_friend_public_key = [1] \<rparr> \<rparr>) = Panic"
  by (rule removing_inconsistent_friend_panics [of _ _ "example_friend [2] [1] (Inconsistent (example_broken None))" "example_broken None"])
    (simp_all add: example_ctx_defs)

text \<open>
  A request of the application that meets insufficient credit on the way to the friend is
  reported as failed, but its transaction is kept: the sender tells the application
  \<open>Failure\<close> and records no mutation, so the payment goes on counting a transaction that no message
  will ever end. The cancellation of such a request elsewhere removes the transaction.
\<close>

theorem refused_user_request_keeps_transaction:
  fixes s :: "'b ctx"
  assumes "hm_get (cx_pending_move_tokens s) pk = Some p" "length (pm_operations p) < pm_max_operations_in_batch p"
    and "queue_operation (env_crypto E) (pm_outgoing_mc p) (RequestSendFunds rq) = Err QInsufficientTrust"
    and "find_request_origin (cx_state s) (rq_request_id rq) = None"
  shows "\<exists>s'. queue_operation_or_cancel E pk (RequestSendFunds rq) s = Some (Inr (), s') \<and> cx_m_state s' = cx_m_state s
    \<and> cx_outgoing_control s' = cx_outgoing_control s @ [FoTransactionResult \<lparr> tr_request_id = rq_request_id rq, tr_result = RrFailure \<rparr>]"
proof -
  have "pm_queue_operation E pk (RequestSendFunds rq) s = Some (Inl PqInsufficientTrust, s)"
    using assms(1-3) by (auto simp: pm_queue_operation_def bind_run run_get_pending run_throw)
  then have "act_try (pm_queue_operation E pk (RequestSendFunds rq)) s = Some (Inr (Inl PqInsufficientTrust) :: collect_outgoing_error + _, s)"
    by (simp add: act_try_def)
  with assms(4) show ?thesis
    by (simp add: queue_operation_or_cancel_def bind_Inr get_state_def bind_gets push_control_def run_basic)
qed

definition example_pending_token :: "nat pending_move_token" where
  "example_pending_token = pending_move_token_new [2] (outgoing_mc_new (example_local\<lparr> st_balance := mc_balance_new 0 \<rparr>)) 5 False"

definition example_collecting :: "nat ctx" where
  "example_collecting = (example_ctx [1] [([2], open_status [1] [2])])\<lparr> cx_pending_move_tokens := [([2], example_pending_token)] \<rparr>"

theorem refused_user_request_keeps_transaction_witness:
  "\<exists>s'. queue_operation_or_cancel (example_env_of [1]) [2] (RequestSendFunds example_request) example_collecting = Some (Inr (), s')
    \<and> cx_m_state s' = cx_m_state example_collecting \<and> length (cx_outgoing_control s') = 1"
proof -
  have "hm_get (cx_pending_move_tokens example_collecting) [2] = Some example_pending_token"
    "length (pm_operations example_pending_token) < pm_max_operations_in_batch example_pending_token"
    "cx_outgoing_control example_collecting = []"
    by (simp_all add: example_collecting_def example_pending_token_def pending_move_token_new_def example_ctx_defs)
  moreover have "queue_operation (env_crypto (example_env_of [1])) (pm_outgoing_mc example_pending_token) (RequestSendFunds example_request)
      = Err QInsufficientTrust" by code_simp
  moreover have "find_request_origin (cx_state example_collecting) (rq_request_id example_request) = None" by code_simp
  ultimately show ?thesis
    using refused_user_request_keeps_transaction [of example_collecting "[2]" example_pending_token "example_env_of [1]" example_request] by auto
qed

end
