(* ===== verification/Funder.thy ===== *)
theory Funder
  imports HandlerProperties
begin

text \<open>
  The main loop of the funder, \<open>components/funder/src/funder.rs\<close>: a message is handled, its
  mutations are applied in memory and given to the database, and only then are the outgoing
  messages sent.
\<close>

section \<open>Definitions\<close>

datatype funder_error =
    IncomingControlClosed
  | IncomingCommClosed
  | IncomingMessagesError
  | DbError
  | SendControlError
  | SendCommError

datatype 'b funder_event =
    EvFunderIncoming "'b funder_incoming"
  | EvIncomingControlClosed
  | EvIncomingCommClosed

text \<open>
  What the loop meets outside of the funder in its round \<open>i\<close>: the position in the stream of random
  values, whether the database acknowledges the mutations, and where the receivers of the two
  outgoing streams go away (\<open>None\<close>: they take all that is sent).
\<close>

record funder_io =
  io_draws :: "nat \<Rightarrow> nat"
  io_db_acks :: "nat \<Rightarrow> bool"
  io_comm_closes :: "nat \<Rightarrow> nat option"
  io_control_closes :: "nat \<Rightarrow> nat option"

record funder_limits =
  fl_max_operations_in_batch :: nat
  fl_max_node_relays :: nat
  fl_max_pending_user_requests :: nat

text \<open>The variables of the loop, and what has been given to the database and to the two streams.\<close>

record 'b funder_loop_state =
  ls_funder_state :: "'b funder_state"
  ls_ephemeral :: ephemeral
  ls_database :: "'b funder_mutation list"
  ls_comm :: "'b funder_outgoing_comm list"
  ls_control :: "'b funder_outgoing_control list"

definition loop_start :: "'b funder_state \<Rightarrow> 'b funder_loop_state" where
  "loop_start funder_state =
     \<lparr> ls_funder_state = funder_state, ls_ephemeral = ephemeral_new, ls_database = [], ls_comm = [], ls_control = [] \<rparr>"

text \<open>\<open>send_all\<close>: what gets through, and whether all of it does.\<close>

definition send_all :: "nat option \<Rightarrow> 'a list \<Rightarrow> 'a list \<times> bool" where
  "send_all closed_after xs = (case closed_after of None \<Rightarrow> (xs, True) | Some n \<Rightarrow> if n < length xs then (take n xs, False) else (xs, True))"

text \<open>
  One round: \<open>Panic\<close>, or the new state and the error the loop returns with, if it does. An error
  of the handler is reported and the loop goes on.
\<close>

definition funder_round ::
  "'b funder_env \<Rightarrow> funder_io \<Rightarrow> funder_limits \<Rightarrow> nat \<Rightarrow> 'b funder_event \<Rightarrow> 'b funder_loop_state
    \<Rightarrow> ('b funder_loop_state \<times> funder_error option) option" where
  "funder_round E io limits i funder_event s =
     (case funder_event of
        EvIncomingControlClosed \<Rightarrow> Some (s, Some IncomingControlClosed)
      | EvIncomingCommClosed \<Rightarrow> Some (s, Some IncomingCommClosed)
      | EvFunderIncoming funder_incoming \<Rightarrow>
          (case funder_handle_message E (ls_funder_state s) (ls_ephemeral s) (io_draws io i) (fl_max_node_relays limits)
                  (fl_max_operations_in_batch limits) (fl_max_pending_user_requests limits) funder_incoming of
             Panic \<Rightarrow> None
           | Err _ \<Rightarrow> Some (s, None)
           | Ok handler_output \<Rightarrow>
               (let funder_mutations = fho_funder_mutations handler_output in
                case funder_replay (env_crypto E) (env_ser E) (ls_funder_state s) funder_mutations of
                  None \<Rightarrow> None
                | Some funder_state \<Rightarrow>
                    (let s1 = s\<lparr> ls_funder_state := funder_state \<rparr> in
                     if funder_mutations \<noteq> [] \<and> \<not> io_db_acks io i then Some (s1, Some DbError)
                     else
                       let s2 = s1\<lparr> ls_database := ls_database s1 @ funder_mutations,
                              ls_ephemeral := ephemeral_replay (ls_ephemeral s1) (fho_ephemeral_mutations handler_output) \<rparr>;
                           (comms, comm_sent) = send_all (io_comm_closes io i) (fho_outgoing_comms handler_output);
                           s3 = s2\<lparr> ls_comm := ls_comm s2 @ comms \<rparr>
                       in if \<not> comm_sent then Some (s3, Some SendCommError)
                          else
                            let (controls, control_sent) = send_all (io_control_closes io i) (fho_outgoing_control handler_output);
                                s4 = s3\<lparr> ls_control := ls_control s3 @ controls \<rparr>
                            in Some (s4, if \<not> control_sent then Some SendControlError else None)))))"

text \<open>The rounds, one for each event, until the loop returns.\<close>

fun funder_rounds ::
  "'b funder_env \<Rightarrow> funder_io \<Rightarrow> funder_limits \<Rightarrow> nat \<Rightarrow> 'b funder_event list \<Rightarrow> 'b funder_loop_state
    \<Rightarrow> ('b funder_loop_state \<times> funder_error option) option" where
  "funder_rounds E io limits i [] s = Some (s, None)"
| "funder_rounds E io limits i (ev # evs) s =
     (case funder_round E io limits i ev s of
        None \<Rightarrow> None
      | Some (s', Some e) \<Rightarrow> Some (s', Some e)
      | Some (s', None) \<Rightarrow> funder_rounds E io limits (Suc i) evs s')"

text \<open>The stream of events starts with \<open>Init\<close>.\<close>

definition inner_funder_loop ::
  "'b funder_env \<Rightarrow> funder_io \<Rightarrow> funder_limits \<Rightarrow> 'b funder_event list \<Rightarrow> 'b funder_state
    \<Rightarrow> ('b funder_loop_state \<times> funder_error option) option" where
  "inner_funder_loop E io limits events funder_state =
     funder_rounds E io limits 0 (EvFunderIncoming FiInit # events) (loop_start funder_state)"

section \<open>Invariants\<close>

text \<open>The events that do not ask for a channel with a balance that has no negation.\<close>

fun event_ok :: "'b funder_event \<Rightarrow> bool" where
  "event_ok (EvFunderIncoming m) = incoming_ok m"
| "event_ok _ = True"

definition state_sound :: "nat \<Rightarrow> 'b funder_state \<Rightarrow> bool" where
  "state_sound N st \<longleftrightarrow> funder_ok st \<and> channels_ok N st \<and> payments_ok st"

lemma state_sound_steps: "steps E N st ms st' \<Longrightarrow> state_sound N st \<Longrightarrow> state_sound N st'"
  unfolding state_sound_def
  using steps_keep [where P = funder_ok] steps_keep [where P = "channels_ok N"] steps_keep [where P = payments_ok]
    funder_ok_atomic channels_ok_atomic payments_ok_atomic by metis

text \<open>What a round leaves of the state, the database and the report of the application.\<close>

definition loop_inv :: "'b funder_env \<Rightarrow> nat \<Rightarrow> 'b funder_state \<Rightarrow> 'b funder_report \<Rightarrow> 'b funder_loop_state \<Rightarrow> bool" where
  "loop_inv E N st0 r0 s \<longleftrightarrow> state_sound N (ls_funder_state s)
     \<and> funder_replay (env_crypto E) (env_ser E) st0 (ls_database s) = Some (ls_funder_state s)
     \<and> (\<exists>r. report_replay r0 (reported_mutations (ls_control s)) = Ok r \<and> reports (ls_funder_state s) (ls_ephemeral s) r)"

lemma round_handled:
  assumes run: "funder_round E io limits i (EvFunderIncoming m) s = Some (s', r)"
    and out: "funder_handle_message E (ls_funder_state s) (ls_ephemeral s) (io_draws io i) (fl_max_node_relays limits)
        (fl_max_operations_in_batch limits) (fl_max_pending_user_requests limits) m = Ok out"
  shows "funder_replay (env_crypto E) (env_ser E) (ls_funder_state s) (fho_funder_mutations out) = Some (ls_funder_state s')"
    and "r = Some DbError \<Longrightarrow> ls_database s' = ls_database s \<and> ls_comm s' = ls_comm s \<and> ls_control s' = ls_control s"
    and "r \<noteq> Some DbError \<Longrightarrow> ls_database s' = ls_database s @ fho_funder_mutations out
       \<and> ls_ephemeral s' = ephemeral_replay (ls_ephemeral s) (fho_ephemeral_mutations out)"
    and "r = None \<Longrightarrow> ls_control s' = ls_control s @ fho_outgoing_control out"
  using run by (auto simp: funder_round_def out Let_def send_all_def split: option.splits if_splits)

lemma round_not_handled:
  assumes "funder_round E io limits i ev s = Some (s', r)" "\<And>m. ev \<noteq> EvFunderIncoming m"
  shows "s' = s \<and> r \<noteq> None \<and> r \<noteq> Some DbError"
  using assms by (cases ev) (auto simp: funder_round_def)

lemma round_keeps:
  assumes inv: "loop_inv E N st0 r0 s" and run: "funder_round E io limits i ev s = Some (s', r)"
    and ok: "event_ok ev" "N = fl_max_operations_in_batch limits"
  shows "state_sound N (ls_funder_state s')"
    and "\<exists>st. funder_replay (env_crypto E) (env_ser E) st0 (ls_database s') = Some st \<and> state_sound N st
      \<and> (r \<noteq> Some DbError \<longrightarrow> st = ls_funder_state s')"
    and "r = None \<Longrightarrow> loop_inv E N st0 r0 s'"
proof -
  have inv': "state_sound N (ls_funder_state s)" "funder_replay (env_crypto E) (env_ser E) st0 (ls_database s) = Some (ls_funder_state s)"
    using inv by (auto simp: loop_inv_def)
  have "state_sound N (ls_funder_state s')
    \<and> (\<exists>st. funder_replay (env_crypto E) (env_ser E) st0 (ls_database s') = Some st \<and> state_sound N st
      \<and> (r \<noteq> Some DbError \<longrightarrow> st = ls_funder_state s')) \<and> (r = None \<longrightarrow> loop_inv E N st0 r0 s')"
  proof (cases "\<exists>m out. ev = EvFunderIncoming m \<and> funder_handle_message E (ls_funder_state s) (ls_ephemeral s) (io_draws io i)
        (fl_max_node_relays limits) (fl_max_operations_in_batch limits) (fl_max_pending_user_requests limits) m = Ok out")
    case False
    then have "s' = s"
      using run round_not_handled [of E io limits i ev s s' r] by (cases ev) (auto simp: funder_round_def split: res.splits)
    with inv inv' show ?thesis by auto
  next
    case True
    then obtain m out where ev: "ev = EvFunderIncoming m" and out: "funder_handle_message E (ls_funder_state s) (ls_ephemeral s)
        (io_draws io i) (fl_max_node_relays limits) N (fl_max_pending_user_requests limits) m = Ok out"
      using ok by auto
    note rnd = round_handled [OF run [unfolded ev] out [unfolded ok(2)]]
    have fine: "incoming_ok m" "channels_ok N (ls_funder_state s)" "hm_ok (fs_friends (ls_funder_state s))"
      using ok(1) ev inv'(1) by (auto simp: state_sound_def funder_ok_def friends_ok_def)
    obtain st' where st': "steps E N (ls_funder_state s) (fho_funder_mutations out) st'"
      and rms: "create_report_mutations (env_crypto E) (env_ser E) (ls_funder_state s) (fho_funder_mutations out)
        (fho_ephemeral_mutations out) = Some (reported_mutations (fho_outgoing_control out))"
      by (rule handled_message [OF out fine(1,2)])
    have same: "ls_funder_state s' = st'" using steps_replay [OF st'] rnd(1) by simp
    have sound: "state_sound N st'" by (rule state_sound_steps [OF st' inv'(1)])
    have db: "r \<noteq> Some DbError \<longrightarrow> funder_replay (env_crypto E) (env_ser E) st0 (ls_database s') = Some st'"
      using rnd(1,3) inv'(2) same by (auto simp: funder_replay_append)
    have "\<exists>rep. report_replay r0 (reported_mutations (ls_control s')) = Ok rep \<and> reports st' (ls_ephemeral s') rep" if "r = None"
    proof -
      obtain rep where rep: "report_replay r0 (reported_mutations (ls_control s)) = Ok rep" "reports (ls_funder_state s) (ls_ephemeral s) rep"
        using inv by (auto simp: loop_inv_def)
      from report_mutations_sound [OF fine(3) steps_replay [OF st'] steps_removals [OF st'] rep(2), of "fho_ephemeral_mutations out"]
      show ?thesis using that rms rep(1) rnd(3,4) by (auto simp: report_replay_append)
    qed
    then show ?thesis using sound same db rnd(2) inv' by (cases "r = Some DbError") (auto simp: loop_inv_def)
  qed
  then show "state_sound N (ls_funder_state s')"
    "\<exists>st. funder_replay (env_crypto E) (env_ser E) st0 (ls_database s') = Some st \<and> state_sound N st
      \<and> (r \<noteq> Some DbError \<longrightarrow> st = ls_funder_state s')" "r = None \<Longrightarrow> loop_inv E N st0 r0 s'" by auto
qed

lemma rounds_keep:
  assumes "loop_inv E N st0 r0 s" "funder_rounds E io limits i evs s = Some (s', r)"
    and "\<forall>ev \<in> set evs. event_ok ev" "N = fl_max_operations_in_batch limits"
  shows "state_sound N (ls_funder_state s')
    \<and> (\<exists>st. funder_replay (env_crypto E) (env_ser E) st0 (ls_database s') = Some st \<and> state_sound N st
        \<and> (r \<noteq> Some DbError \<longrightarrow> st = ls_funder_state s'))
    \<and> (r = None \<longrightarrow> loop_inv E N st0 r0 s')"
  using assms
proof (induction evs arbitrary: i s)
  case Nil
  then show ?case by (auto simp: loop_inv_def)
next
  case (Cons ev evs)
  obtain s1 q where q: "funder_round E io limits i ev s = Some (s1, q)"
    using Cons.prems(2) by (auto split: option.splits)
  note keep = round_keeps [OF Cons.prems(1) q _ Cons.prems(4)]
  show ?case
  proof (cases q)
    case None
    with q Cons.prems have "funder_rounds E io limits (Suc i) evs s1 = Some (s', r)" by simp
    from Cons.IH [OF keep(3) this] Cons.prems None show ?thesis by simp
  next
    case (Some e)
    with q Cons.prems(2) have "s' = s1" "r = Some e" by auto
    with keep Cons.prems(3) Some show ?thesis by auto
  qed
qed

lemma loop_inv_start:
  assumes "state_sound N st"
  shows "loop_inv E N st (create_initial_report st) (loop_start st)"
  using assms initial_report_reports [of st]
  by (auto simp: loop_inv_def loop_start_def state_sound_def funder_ok_def friends_ok_def)

lemma loop_keeps:
  assumes "inner_funder_loop E io limits events st = Some (s', r)" "\<forall>ev \<in> set events. event_ok ev"
    and "state_sound (fl_max_operations_in_batch limits) st"
  shows "state_sound (fl_max_operations_in_batch limits) (ls_funder_state s')
    \<and> (\<exists>st'. funder_replay (env_crypto E) (env_ser E) st (ls_database s') = Some st' \<and> state_sound (fl_max_operations_in_batch limits) st'
        \<and> (r \<noteq> Some DbError \<longrightarrow> st' = ls_funder_state s'))
    \<and> (r = None \<longrightarrow> loop_inv E (fl_max_operations_in_batch limits) st (create_initial_report st) s')"
  by (rule rounds_keep [OF loop_inv_start [OF assms(3)] assms(1) [unfolded inner_funder_loop_def]])
    (use assms(2) in auto)

section \<open>Properties\<close>

text \<open>
  A node with key \<open>[1]\<close>. Its application adds and enables a friend and asks for a credit limit and
  open requests, the friend comes online, and a payment is created and closed again.
\<close>

definition example_io :: funder_io where
  "example_io = \<lparr> io_draws = (\<lambda>i. 10 * i), io_db_acks = (\<lambda>_. True), io_comm_closes = (\<lambda>_. None), io_control_closes = (\<lambda>_. None) \<rparr>"

definition example_limits :: funder_limits where
  "example_limits = \<lparr> fl_max_operations_in_batch = 4, fl_max_node_relays = 2, fl_max_pending_user_requests = 3 \<rparr>"

definition example_node :: "nat funder_state" where
  "example_node = funder_state_new [1] []"

definition example_control :: "nat funder_control \<Rightarrow> nat funder_event" where
  "example_control c = EvFunderIncoming (FiControl \<lparr> fic_app_request_id = [5], fic_funder_control = c \<rparr>)"

definition example_loop_events :: "nat funder_event list" where
  "example_loop_events =
     [example_control (FcAddFriend \<lparr> af_friend_public_key = [0], af_relays = [], af_name = ''bob'', af_balance = 3 \<rparr>),
      example_control (FcSetFriendStatus \<lparr> sfs_friend_public_key = [0], sfs_status = Enabled \<rparr>),
      example_control (FcSetFriendRemoteMaxDebt \<lparr> sfd_friend_public_key = [0], sfd_remote_max_debt = 100 \<rparr>),
      example_control (FcSetRequestsStatus \<lparr> srs_friend_public_key = [0], srs_status = Open \<rparr>),
      EvFunderIncoming (FiComm (FicLiveness (LivenessOnline [0]))),
      example_control (FcCreatePayment \<lparr> cp_payment_id = [6], cp_invoice_id = [7], cp_total_dest_payment = 40, cp_dest_public_key = [0] \<rparr>),
      example_control (FcRequestClosePayment [6])]"

lemma example_loop_runs:
  "\<exists>s. inner_funder_loop (example_env_of [1]) example_io example_limits example_loop_events example_node = Some (s, None)
     \<and> length (ls_database s) = 10 \<and> length (ls_comm s) = 4"
proof -
  have "(case inner_funder_loop (example_env_of [1]) example_io example_limits example_loop_events example_node of
      Some (s, None) \<Rightarrow> length (ls_database s) = 10 \<and> length (ls_comm s) = 4 | _ \<Rightarrow> False)"
    by code_simp
  then show ?thesis by (auto split: option.splits)
qed

lemma example_node_sound: "state_sound N example_node"
  by (simp add: example_node_def state_sound_def funder_state_new_def funder_ok_def friends_ok_def hm_ok_def channels_ok_def
      channel_of_def payments_ok_def accounts_ok_def open_count_def promised_def hm_get_def)

lemma example_events_ok: "\<forall>ev \<in> set example_loop_events. event_ok ev"
  by (simp add: example_loop_events_def example_control_def)

text \<open>
  C4: The state of a funder stays sound whatever it is sent. Starting from a sound state, after any
  sequence of messages from friends (well formed or not, honest or not), from the channeler and
  from applications, and however the loop ends, the state in memory is sound: relays and friends
  are unique and keyed correctly and every channel belongs to its friend, every credit line keeps
  the invariant of mutual credit and no token waiting for an answer exceeds the batch limit, and
  every payment counts exactly its open transactions. The one message left out is an application's
  request to open a channel with the balance that has no negation.
\<close>

theorem funder_state_stays_sound:
  assumes "inner_funder_loop E io limits events st = Some (s, r)" "\<forall>ev \<in> set events. event_ok ev"
    and "state_sound (fl_max_operations_in_batch limits) st"
  shows "state_sound (fl_max_operations_in_batch limits) (ls_funder_state s)"
  using loop_keeps [OF assms] by blast

theorem funder_state_stays_sound_witness:
  "\<exists>s. inner_funder_loop (example_env_of [1]) example_io example_limits example_loop_events example_node = Some (s, None)
     \<and> length (ls_database s) = 10 \<and> state_sound 4 (ls_funder_state s)"
proof -
  obtain s where s: "inner_funder_loop (example_env_of [1]) example_io example_limits example_loop_events example_node = Some (s, None)"
    "length (ls_database s) = 10" using example_loop_runs by blast
  have "state_sound 4 (ls_funder_state s)"
    using funder_state_stays_sound [OF s(1) example_events_ok example_node_sound] by (simp add: example_limits_def)
  with s show ?thesis by blast
qed

text \<open>
  C5: A funder that stops can be started again from its database. However the loop ends, the
  mutations acknowledged by the database apply to the first state without a panic and give a sound
  state, and unless the loop ended because the database failed, that state is the one the funder
  had in memory: nothing a friend or an application was told is lost.
\<close>

theorem funder_database_recovers:
  assumes "inner_funder_loop E io limits events st = Some (s, r)" "\<forall>ev \<in> set events. event_ok ev"
    and "state_sound (fl_max_operations_in_batch limits) st"
  shows "\<exists>st'. funder_replay (env_crypto E) (env_ser E) st (ls_database s) = Some st'
    \<and> state_sound (fl_max_operations_in_batch limits) st' \<and> (r \<noteq> Some DbError \<longrightarrow> st' = ls_funder_state s)"
  using loop_keeps [OF assms] by blast

theorem funder_database_recovers_witness:
  "\<exists>s. inner_funder_loop (example_env_of [1]) example_io example_limits example_loop_events example_node = Some (s, None)
     \<and> length (ls_database s) = 10
     \<and> funder_replay (env_crypto (example_env_of [1])) (env_ser (example_env_of [1])) example_node (ls_database s) = Some (ls_funder_state s)"
proof -
  obtain s where s: "inner_funder_loop (example_env_of [1]) example_io example_limits example_loop_events example_node = Some (s, None)"
    "length (ls_database s) = 10" using example_loop_runs by blast
  with funder_database_recovers [OF s(1) example_events_ok example_node_sound] show ?thesis by auto
qed

text \<open>
  C6: The report an application keeps follows the funder. An application that starts with the
  report of the first state and applies the report mutations it receives, in order, never gets one
  that fails to apply, and as long as the loop runs its report describes the current state: all of
  it exactly, except that a friend that is online may still be shown as offline.
\<close>

theorem funder_reports_stay_up_to_date:
  assumes "inner_funder_loop E io limits events st = Some (s, None)" "\<forall>ev \<in> set events. event_ok ev"
    and "state_sound (fl_max_operations_in_batch limits) st"
  shows "\<exists>report. report_replay (create_initial_report st) (reported_mutations (ls_control s)) = Ok report
    \<and> reports (ls_funder_state s) (ls_ephemeral s) report"
  using loop_keeps [OF assms] by (simp add: loop_inv_def)

theorem funder_reports_stay_up_to_date_witness:
  "\<exists>s report. inner_funder_loop (example_env_of [1]) example_io example_limits example_loop_events example_node = Some (s, None)
     \<and> length (ls_comm s) = 4
     \<and> report_replay (create_initial_report example_node) (reported_mutations (ls_control s)) = Ok report
     \<and> reports (ls_funder_state s) (ls_ephemeral s) report"
proof -
  obtain s where s: "inner_funder_loop (example_env_of [1]) example_io example_limits example_loop_events example_node = Some (s, None)"
    "length (ls_comm s) = 4" using example_loop_runs by blast
  with funder_reports_stay_up_to_date [OF s(1) example_events_ok example_node_sound] show ?thesis by blast
qed

end
