(* ===== verification/Bfs.thy ===== *)
theory Bfs
  imports Prelude
begin

text \<open>
  The breadth first search of the index server, \<open>components/index_server/src/graph/bfs.rs\<close>.
  \<open>get_neighbors\<close> is an argument, as in the code. Both loops may run forever for some
  arguments (an infinite graph, a cyclic backtrack map), so they are partial functions whose
  outer \<open>None\<close> is divergence; the results below show that they return.
\<close>

section \<open>Definitions\<close>

text \<open>One pass over the neighbors of a node: \<open>Inr\<close> is the early return with the backtrack map.\<close>

fun bfs_visit ::
  "'n \<Rightarrow> 'n \<Rightarrow> 'n list \<Rightarrow> ('n, 'n option) hmap \<times> 'n set \<times> 'n list
    \<Rightarrow> ('n, 'n option) hmap \<times> 'n set \<times> 'n list + ('n, 'n option) hmap" where
  "bfs_visit dst node [] st = Inl st"
| "bfs_visit dst node (neighbor # nbs) (backtrack, visited, queue) =
     (if neighbor \<in> visited then bfs_visit dst node nbs (backtrack, visited, queue)
      else
        (let backtrack' = hm_insert neighbor (Some node) backtrack in
         if neighbor = dst then Inr backtrack'
         else bfs_visit dst node nbs (backtrack', insert neighbor visited, queue @ [neighbor])))"

partial_function (option) bfs_while ::
  "('n \<Rightarrow> 'n list) \<Rightarrow> 'n \<Rightarrow> ('n, 'n option) hmap \<times> 'n set \<times> 'n list \<Rightarrow> ('n, 'n option) hmap option option" where
  "bfs_while get_neighbors dst st =
     (case st of (backtrack, visited, queue) \<Rightarrow>
      (case queue of
         [] \<Rightarrow> Some None
       | node # queue' \<Rightarrow>
           (case bfs_visit dst node (get_neighbors node) (backtrack, visited, queue') of
              Inr backtrack' \<Rightarrow> Some (Some backtrack')
            | Inl st' \<Rightarrow> bfs_while get_neighbors dst st')))"

definition bfs_loop :: "'n \<Rightarrow> 'n \<Rightarrow> ('n \<Rightarrow> 'n list) \<Rightarrow> ('n, 'n option) hmap option option" where
  "bfs_loop src dst get_neighbors =
     bfs_while get_neighbors dst (hm_insert src None [], insert src {}, [] @ [src])"

partial_function (option) bfs_backtrack_while ::
  "('n, 'n option) hmap \<Rightarrow> 'n \<Rightarrow> 'n list \<Rightarrow> 'n list option option" where
  "bfs_backtrack_while backtrack node route =
     (case hm_get backtrack node of
        None \<Rightarrow> Some None
      | Some None \<Rightarrow> Some (Some (rev route))
      | Some (Some new_node) \<Rightarrow> bfs_backtrack_while backtrack new_node (route @ [new_node]))"

definition bfs_backtrack :: "'n \<Rightarrow> ('n, 'n option) hmap \<Rightarrow> 'n list option option" where
  "bfs_backtrack dst backtrack = bfs_backtrack_while backtrack dst [dst]"

definition bfs :: "'n \<Rightarrow> 'n \<Rightarrow> ('n \<Rightarrow> 'n list) \<Rightarrow> 'n list option option" where
  "bfs src dst get_neighbors =
     (case bfs_loop src dst get_neighbors of
        None \<Rightarrow> None
      | Some None \<Rightarrow> Some None
      | Some (Some backtrack) \<Rightarrow> bfs_backtrack dst backtrack)"

lemmas [code] = bfs_while.simps bfs_backtrack_while.simps

section \<open>Walks\<close>

fun walk :: "('n \<Rightarrow> 'n list) \<Rightarrow> 'n list \<Rightarrow> bool" where
  "walk nb [] = False"
| "walk nb [x] = True"
| "walk nb (x # y # ys) = (y \<in> set (nb x) \<and> walk nb (y # ys))"

definition reachable_from :: "('n \<Rightarrow> 'n list) \<Rightarrow> 'n \<Rightarrow> 'n set" where
  "reachable_from nb src = {v. \<exists>p. walk nb p \<and> hd p = src \<and> last p = v}"

lemma walk_snoc: "walk nb p \<Longrightarrow> v \<in> set (nb (last p)) \<Longrightarrow> walk nb (p @ [v])"
  by (induction nb p rule: walk.induct) auto

lemma reachable_refl: "src \<in> reachable_from nb src"
  unfolding reachable_from_def by (auto intro!: exI [of _ "[src]"])

lemma reachable_step: "u \<in> reachable_from nb src \<Longrightarrow> v \<in> set (nb u) \<Longrightarrow> v \<in> reachable_from nb src"
proof -
  assume "u \<in> reachable_from nb src" "v \<in> set (nb u)"
  then obtain p where p: "walk nb p" "hd p = src" "last p = u" unfolding reachable_from_def by blast
  then have "walk nb (p @ [v])" "hd (p @ [v]) = src" "last (p @ [v]) = v"
    using walk_snoc [OF p(1)] \<open>v \<in> set (nb u)\<close> by (cases p; simp)+
  then show ?thesis unfolding reachable_from_def by blast
qed

lemma walk_nth: "walk nb p \<longleftrightarrow> p \<noteq> [] \<and> (\<forall>i. Suc i < length p \<longrightarrow> p ! Suc i \<in> set (nb (p ! i)))"
  by (induction nb p rule: walk.induct) (auto simp: nth_Cons less_Suc_eq_0_disj split: nat.splits)

lemma reachable_finite:
  assumes "\<And>u. set (nb u) \<subseteq> S" and "finite S"
  shows "finite (reachable_from nb src)"
proof -
  have "walk nb p \<Longrightarrow> hd p \<in> insert src S \<Longrightarrow> last p \<in> insert src S" for p
    by (induction p rule: induct_list012) (auto dest: subsetD [OF assms(1)])
  then have "reachable_from nb src \<subseteq> insert src S" unfolding reachable_from_def by auto
  then show ?thesis by (rule finite_subset) (simp add: assms(2))
qed

section \<open>Invariant of the search\<close>

text \<open>
  \<open>d\<close> is the distance at which a node was found. The nodes of \<open>open_nodes\<close> may still have
  neighbors that were not seen; all other visited nodes have been expanded.
\<close>

definition bfs_tree :: "('n \<Rightarrow> 'n list) \<Rightarrow> 'n \<Rightarrow> ('n \<Rightarrow> nat) \<Rightarrow> ('n, 'n option) hmap \<Rightarrow> 'n set \<Rightarrow> bool" where
  "bfs_tree nb src d bt vis \<longleftrightarrow>
     src \<in> vis \<and> d src = 0 \<and> hm_get bt src = Some None
     \<and> (\<forall>v \<in> vis. v \<noteq> src \<longrightarrow> (\<exists>u \<in> vis. hm_get bt v = Some (Some u) \<and> v \<in> set (nb u) \<and> d v = Suc (d u)))"

definition expanded :: "('n \<Rightarrow> 'n list) \<Rightarrow> ('n \<Rightarrow> nat) \<Rightarrow> 'n set \<Rightarrow> 'n set \<Rightarrow> bool" where
  "expanded nb d open_nodes vis \<longleftrightarrow> (\<forall>u w. u \<in> vis \<longrightarrow> u \<notin> open_nodes \<longrightarrow> w \<in> set (nb u) \<longrightarrow> w \<in> vis \<and> d w \<le> Suc (d u))"

definition bfs_inv ::
  "('n \<Rightarrow> 'n list) \<Rightarrow> 'n \<Rightarrow> 'n \<Rightarrow> ('n \<Rightarrow> nat) \<Rightarrow> 'n set \<Rightarrow> ('n, 'n option) hmap \<Rightarrow> 'n set \<Rightarrow> bool" where
  "bfs_inv nb src dst d open_nodes bt vis \<longleftrightarrow>
     bfs_tree nb src d bt vis \<and> expanded nb d open_nodes vis
     \<and> vis \<subseteq> reachable_from nb src \<and> (dst \<in> vis \<longrightarrow> dst = src)"

lemma bfs_invD:
  assumes "bfs_inv nb src dst d open_nodes bt vis"
  shows "src \<in> vis" "d src = 0" "bfs_tree nb src d bt vis" "expanded nb d open_nodes vis"
    and "vis \<subseteq> reachable_from nb src" "dst \<in> vis \<Longrightarrow> dst = src"
  using assms by (simp_all add: bfs_inv_def bfs_tree_def)

lemma expandedD: "expanded nb d open_nodes vis \<Longrightarrow> u \<in> vis \<Longrightarrow> u \<notin> open_nodes \<Longrightarrow> w \<in> set (nb u) \<Longrightarrow> w \<in> vis \<and> d w \<le> Suc (d u)"
  by (simp add: expanded_def)

text \<open>
  The queue holds nodes in the order of their distance, and no visited node is further than one
  step beyond the node being expanded.
\<close>

definition queue_inv :: "('n \<Rightarrow> nat) \<Rightarrow> nat \<Rightarrow> 'n list \<Rightarrow> 'n set \<Rightarrow> bool" where
  "queue_inv d low q vis \<longleftrightarrow>
     sorted (map d q) \<and> set q \<subseteq> vis \<and> (\<forall>x \<in> set q. low \<le> d x) \<and> (\<forall>x \<in> vis. d x \<le> Suc low)"

text \<open>A walk that leaves the visited nodes does so from an open node, so it is long enough.\<close>

lemma walk_leaves:
  assumes inv: "bfs_inv nb src dst d open_nodes bt vis" and low: "\<forall>x \<in> open_nodes. low \<le> d x"
  shows "walk nb p \<Longrightarrow> hd p \<in> vis \<Longrightarrow> d (hd p) \<le> k \<Longrightarrow> last p \<notin> vis \<Longrightarrow> low + 2 \<le> k + length p"
proof (induction p arbitrary: k)
  case Nil
  then show ?case by simp
next
  case (Cons x ys)
  then obtain y zs where ys: "ys = y # zs" by (cases ys) auto
  show ?case
  proof (cases "x \<in> open_nodes")
    case True
    then have "low \<le> k" using low Cons.prems by fastforce
    then show ?thesis using ys by simp
  next
    case False
    then have "y \<in> vis" "d y \<le> Suc k"
      using expandedD [OF bfs_invD(4) [OF inv], of x y] Cons.prems ys False by force+
    then have "low + 2 \<le> Suc k + length ys"
      using Cons.IH [of "Suc k"] Cons.prems ys by simp
    then show ?thesis by simp
  qed
qed

text \<open>What the search returns: a tree of predecessors that reaches \<open>dst\<close> at the least distance.\<close>

definition bfs_found :: "('n \<Rightarrow> 'n list) \<Rightarrow> 'n \<Rightarrow> 'n \<Rightarrow> ('n, 'n option) hmap \<Rightarrow> bool" where
  "bfs_found nb src dst bt \<longleftrightarrow>
     (\<exists>d vis. bfs_tree nb src d bt vis \<and> dst \<in> vis \<and> dst \<noteq> src
        \<and> (\<forall>p. walk nb p \<and> hd p = src \<and> last p = dst \<longrightarrow> Suc (d dst) \<le> length p))"

lemma bfs_tree_extend:
  assumes tree: "bfs_tree nb src d bt vis" and new: "v \<notin> vis" and node: "node \<in> vis" "v \<in> set (nb node)"
  shows "bfs_tree nb src (d(v := Suc (d node))) (hm_insert v (Some node) bt) (insert v vis)"
proof -
  have ne: "v \<noteq> src" "v \<noteq> node" using tree new node by (auto simp: bfs_tree_def)
  have "\<exists>u \<in> insert v vis. hm_get (hm_insert v (Some node) bt) w = Some (Some u) \<and> w \<in> set (nb u)
      \<and> (d(v := Suc (d node))) w = Suc ((d(v := Suc (d node))) u)"
    if w: "w \<in> insert v vis" "w \<noteq> src" for w
  proof (cases "w = v")
    case True
    then show ?thesis using node ne by (intro bexI [of _ node]) (auto simp: hm_get_insert)
  next
    case False
    then obtain u where u: "u \<in> vis" "hm_get bt w = Some (Some u)" "w \<in> set (nb u)" "d w = Suc (d u)"
      using tree w unfolding bfs_tree_def by blast
    moreover from u new have "u \<noteq> v" by auto
    ultimately show ?thesis using False by (intro bexI [of _ u]) (auto simp: hm_get_insert)
  qed
  moreover have "src \<in> insert v vis" "(d(v := Suc (d node))) src = 0" "hm_get (hm_insert v (Some node) bt) src = Some None"
    using tree ne by (simp_all add: bfs_tree_def hm_get_insert)
  ultimately show ?thesis unfolding bfs_tree_def by blast
qed

lemma visit_found:
  assumes inv: "bfs_inv nb src dst d (insert node (set q)) bt vis" and q: "queue_inv d (d node) q vis"
    and node: "node \<in> vis" "dst \<in> set (nb node)" and new: "dst \<notin> vis"
  shows "bfs_found nb src dst (hm_insert dst (Some node) bt)"
proof -
  have "bfs_tree nb src (d(dst := Suc (d node))) (hm_insert dst (Some node) bt) (insert dst vis)"
    using bfs_invD(3) [OF inv] new node by (intro bfs_tree_extend) auto
  moreover have "dst \<noteq> src" using bfs_invD(1) [OF inv] new by auto
  moreover have "Suc ((d(dst := Suc (d node))) dst) \<le> length p"
    if p: "walk nb p" "hd p = src" "last p = dst" for p
  proof -
    have "\<forall>x \<in> insert node (set q). d node \<le> d x" using q by (auto simp: queue_inv_def)
    then have "d node + 2 \<le> 0 + length p"
      using bfs_invD(1,2) [OF inv] p new by (intro walk_leaves [OF inv]) auto
    then show ?thesis by simp
  qed
  ultimately show ?thesis unfolding bfs_found_def by blast
qed

lemma visit_extend:
  assumes inv: "bfs_inv nb src dst d (insert node (set q)) bt vis" and q: "queue_inv d (d node) q vis"
    and node: "node \<in> vis" "v \<in> set (nb node)" and new: "v \<notin> vis" "v \<noteq> dst"
  shows "bfs_inv nb src dst (d(v := Suc (d node))) (insert node (set (q @ [v]))) (hm_insert v (Some node) bt) (insert v vis)"
    and "queue_inv (d(v := Suc (d node))) ((d(v := Suc (d node))) node) (q @ [v]) (insert v vis)"
proof -
  let ?d = "d(v := Suc (d node))"
  have tree: "bfs_tree nb src ?d (hm_insert v (Some node) bt) (insert v vis)"
    using bfs_invD(3) [OF inv] new node by (intro bfs_tree_extend) auto
  have old: "?d x = d x" if "x \<in> vis" for x using that new by auto
  have "expanded nb ?d (insert node (set (q @ [v]))) (insert v vis)"
    unfolding expanded_def
  proof (intro allI impI)
    fix u w
    assume u: "u \<in> insert v vis" "u \<notin> insert node (set (q @ [v]))" and w: "w \<in> set (nb u)"
    then have "u \<in> vis" "w \<in> vis \<and> d w \<le> Suc (d u)"
      using expandedD [OF bfs_invD(4) [OF inv], of u w] by auto
    then show "w \<in> insert v vis \<and> ?d w \<le> Suc (?d u)" using old by auto
  qed
  moreover have "v \<in> reachable_from nb src"
    by (rule reachable_step [of node nb src v, OF _ node(2)]) (use bfs_invD(5) [OF inv] node(1) in auto)
  ultimately show "bfs_inv nb src dst ?d (insert node (set (q @ [v]))) (hm_insert v (Some node) bt) (insert v vis)"
    using tree bfs_invD(5,6) [OF inv] new by (simp add: bfs_inv_def)
  have ne: "v \<noteq> node" using node new by auto
  have sub: "set q \<subseteq> vis" using q by (simp add: queue_inv_def)
  have same: "map ?d q = map d q" using sub new by (intro map_cong) auto
  show "queue_inv ?d (?d node) (q @ [v]) (insert v vis)"
    using q ne new sub unfolding queue_inv_def map_append same by (auto simp: sorted_append)
qed

text \<open>
  Expanding a node. \<open>nbs\<close> are the neighbors that were not looked at yet. The sum of the number
  of reachable nodes not visited and the length of the queue does not grow.
\<close>

definition bfs_state ::
  "('n \<Rightarrow> 'n list) \<Rightarrow> 'n \<Rightarrow> 'n \<Rightarrow> ('n, 'n option) hmap \<Rightarrow> 'n set \<Rightarrow> 'n list \<Rightarrow> nat \<Rightarrow> bool" where
  "bfs_state nb src dst bt vis q low \<longleftrightarrow>
     (\<exists>d. bfs_inv nb src dst d (set q) bt vis \<and> queue_inv d low q vis)"

definition bfs_work :: "('n \<Rightarrow> 'n list) \<Rightarrow> 'n \<Rightarrow> 'n set \<Rightarrow> 'n list \<Rightarrow> nat" where
  "bfs_work nb src vis q = card (reachable_from nb src - vis) + length q"

lemma visit_correct:
  assumes fin: "finite (reachable_from nb src)"
  shows "bfs_inv nb src dst d (insert node (set q)) bt vis \<Longrightarrow> queue_inv d (d node) q vis \<Longrightarrow> node \<in> vis
    \<Longrightarrow> set nbs \<subseteq> set (nb node) \<Longrightarrow> (\<forall>v \<in> set (nb node) - set nbs. v \<in> vis)
    \<Longrightarrow> (case bfs_visit dst node nbs (bt, vis, q) of
          Inr bt' \<Rightarrow> bfs_found nb src dst bt'
        | Inl (bt', vis', q') \<Rightarrow> (\<exists>low. bfs_state nb src dst bt' vis' q' low)
            \<and> bfs_work nb src vis' q' \<le> bfs_work nb src vis q)"
proof (induction nbs arbitrary: d bt vis q)
  case Nil
  have "expanded nb d (set q) vis"
    unfolding expanded_def
  proof (intro allI impI)
    fix u v
    assume u: "u \<in> vis" "u \<notin> set q" and v: "v \<in> set (nb u)"
    show "v \<in> vis \<and> d v \<le> Suc (d u)"
    proof (cases "u = node")
      case True
      then show ?thesis using Nil.prems(2,5) v unfolding queue_inv_def by auto
    next
      case False
      then show ?thesis using expandedD [OF bfs_invD(4) [OF Nil.prems(1)], of u v] u v by auto
    qed
  qed
  then have "bfs_inv nb src dst d (set q) bt vis"
    using Nil.prems(1) by (simp add: bfs_inv_def)
  then show ?case using Nil.prems(2) unfolding bfs_state_def by auto
next
  case (Cons v nbs)
  show ?case
  proof (cases "v \<in> vis")
    case True
    then show ?thesis using Cons.IH [OF Cons.prems(1,2,3)] Cons.prems(4,5) by auto
  next
    case False
    have v: "v \<in> set (nb node)" using Cons.prems(4) by simp
    show ?thesis
    proof (cases "v = dst")
      case True
      then show ?thesis
        using visit_found [OF Cons.prems(1,2,3)] v False by simp
    next
      case not_dst: False
      note ext = visit_extend [OF Cons.prems(1,2,3) v False not_dst]
      have "v \<in> reachable_from nb src"
        by (rule reachable_step [of node nb src v, OF _ v]) (use bfs_invD(5) [OF Cons.prems(1)] Cons.prems(3) in auto)
      then have "card (reachable_from nb src - insert v vis) < card (reachable_from nb src - vis)"
        using fin False by (intro psubset_card_mono) auto
      then have work: "bfs_work nb src (insert v vis) (q @ [v]) \<le> bfs_work nb src vis q"
        by (simp add: bfs_work_def)
      have "case bfs_visit dst node nbs (hm_insert v (Some node) bt, insert v vis, q @ [v]) of
          Inr bt' \<Rightarrow> bfs_found nb src dst bt'
        | Inl (bt', vis', q') \<Rightarrow> (\<exists>low. bfs_state nb src dst bt' vis' q' low)
            \<and> bfs_work nb src vis' q' \<le> bfs_work nb src (insert v vis) (q @ [v])"
        by (rule Cons.IH [OF ext]) (use Cons.prems(3,4,5) in auto)
      then show ?thesis
        using False not_dst work by (auto split: sum.splits)
    qed
  qed
qed

lemma while_correct:
  assumes fin: "finite (reachable_from nb src)"
  shows "bfs_state nb src dst bt vis q low \<Longrightarrow>
    (\<exists>bt'. bfs_while nb dst (bt, vis, q) = Some (Some bt') \<and> bfs_found nb src dst bt')
    \<or> (bfs_while nb dst (bt, vis, q) = Some None \<and> (dst \<in> reachable_from nb src \<longrightarrow> dst = src))"
proof (induction "bfs_work nb src vis q" arbitrary: bt vis q low rule: less_induct)
  case less
  obtain d where inv: "bfs_inv nb src dst d (set q) bt vis" and qinv: "queue_inv d low q vis"
    using less.prems unfolding bfs_state_def by blast
  show ?case
  proof (cases q)
    case Nil
    have "v \<in> vis" if "walk nb p" "hd p = src" "last p = v" for p v
    proof (rule ccontr)
      assume "v \<notin> vis"
      then have "length p + 2 \<le> 0 + length p"
        using that bfs_invD(1,2) [OF inv] Nil by (intro walk_leaves [OF inv]) auto
      then show False by simp
    qed
    then have "dst \<in> reachable_from nb src \<longrightarrow> dst = src"
      using bfs_invD(6) [OF inv] unfolding reachable_from_def by blast
    then show ?thesis using Nil by (subst bfs_while.simps) simp
  next
    case (Cons node q')
    have node: "node \<in> vis" using qinv Cons by (auto simp: queue_inv_def)
    have inv': "bfs_inv nb src dst d (insert node (set q')) bt vis" using inv Cons by simp
    have qinv': "queue_inv d (d node) q' vis"
      using qinv Cons unfolding queue_inv_def by (auto intro: le_trans)
    have visit: "case bfs_visit dst node (nb node) (bt, vis, q') of
        Inr bt' \<Rightarrow> bfs_found nb src dst bt'
      | Inl (bt', vis', q'') \<Rightarrow> (\<exists>low. bfs_state nb src dst bt' vis' q'' low)
          \<and> bfs_work nb src vis' q'' \<le> bfs_work nb src vis q'"
      by (rule visit_correct [OF fin inv' qinv' node]) auto
    show ?thesis
    proof (cases "bfs_visit dst node (nb node) (bt, vis, q')")
      case (Inr bt')
      then show ?thesis using visit Cons by (subst (1 2) bfs_while.simps) simp
    next
      case (Inl st)
      obtain bt' vis' q'' where st: "st = (bt', vis', q'')" by (cases st)
      then obtain low' where low': "bfs_state nb src dst bt' vis' q'' low'"
        and work: "bfs_work nb src vis' q'' \<le> bfs_work nb src vis q'"
        using visit Inl by auto
      have "bfs_work nb src vis' q'' < bfs_work nb src vis q"
        using work Cons by (simp add: bfs_work_def)
      from less.hyps [OF this low'] show ?thesis
        using Inl st Cons by (subst (1 2) bfs_while.simps) simp
    qed
  qed
qed

lemma start_state: "bfs_state nb src dst (hm_insert src None []) (insert src {}) [src] 0"
  unfolding bfs_state_def
  by (rule exI [of _ "\<lambda>_. 0"])
     (auto simp: bfs_inv_def bfs_tree_def expanded_def queue_inv_def hm_get_insert reachable_refl)

section \<open>Backtracking\<close>

lemma backtrack_correct:
  assumes tree: "bfs_tree nb src d bt vis"
  shows "v \<in> vis \<Longrightarrow> \<exists>q. bfs_backtrack_while bt v route = Some (Some (q @ rev route))
    \<and> walk nb (q @ [v]) \<and> hd (q @ [v]) = src \<and> map d (q @ [v]) = [0..<Suc (d v)]"
proof (induction "d v" arbitrary: v route)
  case 0
  then have v: "v = src" using tree unfolding bfs_tree_def by fastforce
  then have "hm_get bt v = Some None" using tree by (simp add: bfs_tree_def)
  then have "bfs_backtrack_while bt v route = Some (Some (rev route))"
    by (subst bfs_backtrack_while.simps) simp
  then show ?case using v 0 by (intro exI [of _ "[]"]) simp
next
  case (Suc n)
  then have "v \<noteq> src" using tree by (auto simp: bfs_tree_def)
  then obtain u where u: "u \<in> vis" "hm_get bt v = Some (Some u)" "v \<in> set (nb u)" "d v = Suc (d u)"
    using tree Suc.prems unfolding bfs_tree_def by blast
  obtain q where q: "bfs_backtrack_while bt u (route @ [u]) = Some (Some (q @ rev (route @ [u])))"
      "walk nb (q @ [u])" "hd (q @ [u]) = src" "map d (q @ [u]) = [0..<Suc (d u)]"
    using Suc.hyps(1) [of u "route @ [u]"] Suc.hyps(2) u by auto
  have "bfs_backtrack_while bt v route = Some (Some ((q @ [u]) @ rev route))"
    using u(2) q(1) by (subst bfs_backtrack_while.simps) simp
  moreover have "walk nb ((q @ [u]) @ [v])" using walk_snoc [OF q(2)] u(3) by simp
  moreover have "hd ((q @ [u]) @ [v]) = src" using q(3) by (cases q) auto
  moreover have "map d ((q @ [u]) @ [v]) = [0..<Suc (d v)]" using q(4) u(4) by simp
  ultimately show ?case by blast
qed

lemma found_route:
  assumes "bfs_found nb src dst bt"
  shows "\<exists>route. bfs_backtrack dst bt = Some (Some route) \<and> walk nb route \<and> distinct route
    \<and> hd route = src \<and> last route = dst \<and> src \<noteq> dst
    \<and> (\<forall>p. walk nb p \<and> hd p = src \<and> last p = dst \<longrightarrow> length route \<le> length p)"
proof -
  obtain d vis where tree: "bfs_tree nb src d bt vis" and dst: "dst \<in> vis" "dst \<noteq> src"
    and least: "\<forall>p. walk nb p \<and> hd p = src \<and> last p = dst \<longrightarrow> Suc (d dst) \<le> length p"
    using assms unfolding bfs_found_def by blast
  obtain q where q: "bfs_backtrack dst bt = Some (Some (q @ [dst]))" "walk nb (q @ [dst])"
      "hd (q @ [dst]) = src" "map d (q @ [dst]) = [0..<Suc (d dst)]"
    using backtrack_correct [OF tree dst(1), of "[dst]"] unfolding bfs_backtrack_def by auto
  have "length (q @ [dst]) = Suc (d dst)" using arg_cong [OF q(4), of length] by simp
  moreover have "distinct (map d (q @ [dst]))" unfolding q(4) by (rule distinct_upt)
  then have "distinct (q @ [dst])" unfolding distinct_map by (rule conjunct1)
  ultimately show ?thesis using q dst least by (intro exI [of _ "q @ [dst]"]) auto
qed

section \<open>Correctness of the search\<close>

lemma bfs_search:
  assumes "finite (reachable_from get_neighbors src)"
  shows "\<exists>result. bfs src dst get_neighbors = Some result
    \<and> (result \<noteq> None \<longleftrightarrow> dst \<in> reachable_from get_neighbors src \<and> dst \<noteq> src)
    \<and> (\<forall>route. result = Some route \<longrightarrow>
          walk get_neighbors route \<and> hd route = src \<and> last route = dst \<and> distinct route
        \<and> (\<forall>p. walk get_neighbors p \<and> hd p = src \<and> last p = dst \<longrightarrow> length route \<le> length p))"
  using while_correct [OF assms start_state, of dst]
proof (elim disjE exE conjE)
  fix bt
  assume "bfs_while get_neighbors dst (hm_insert src None [], insert src {}, [src]) = Some (Some bt)"
    and found: "bfs_found get_neighbors src dst bt"
  then have run: "bfs src dst get_neighbors = bfs_backtrack dst bt"
    by (simp add: bfs_def bfs_loop_def)
  obtain route where route: "bfs_backtrack dst bt = Some (Some route)" "walk get_neighbors route"
      "distinct route" "hd route = src" "last route = dst" "src \<noteq> dst"
      "\<forall>p. walk get_neighbors p \<and> hd p = src \<and> last p = dst \<longrightarrow> length route \<le> length p"
    using found_route [OF found] by blast
  then have "dst \<in> reachable_from get_neighbors src" unfolding reachable_from_def by blast
  then show ?thesis using run route by auto
qed (auto simp: bfs_def bfs_loop_def)

text \<open>
  C32: When only finitely many nodes are reachable from \<open>src\<close>, the search returns. It
  returns a route exactly when \<open>dst\<close> is another node that is reachable, and that route is a
  walk from \<open>src\<close> to \<open>dst\<close> over the given neighbors that visits no node twice and is no
  longer than any other walk between the two.\<close>

theorem bfs_returns_shortest_route:
  assumes "finite (reachable_from get_neighbors src)"
  shows "\<exists>result. bfs src dst get_neighbors = Some result
    \<and> (result \<noteq> None \<longleftrightarrow> dst \<in> reachable_from get_neighbors src \<and> dst \<noteq> src)
    \<and> (\<forall>route. result = Some route \<longrightarrow>
          walk get_neighbors route \<and> hd route = src \<and> last route = dst \<and> distinct route
        \<and> (\<forall>p. walk get_neighbors p \<and> hd p = src \<and> last p = dst \<longrightarrow> length route \<le> length p))"
  by (rule bfs_search [OF assms])

text \<open>The search in a graph with a cycle and a detour.\<close>

definition example_neighbors :: "nat \<Rightarrow> nat list" where
  "example_neighbors n = (if n = 0 then [1, 3] else if n = 1 then [0, 2] else if n = 2 then [4]
     else if n = 3 then [4, 0] else [])"

lemma example_reachable_finite: "finite (reachable_from example_neighbors 0)"
  by (rule reachable_finite [where S = "{..4}"]) (auto simp: example_neighbors_def split: if_splits)

lemma example_search: "bfs 0 4 example_neighbors = Some (Some [0, 3, 4])"
  by code_simp

theorem bfs_returns_shortest_route_witness:
  "walk example_neighbors [0, 3, 4]
    \<and> \<not> (\<exists>p. walk example_neighbors p \<and> hd p = 0 \<and> last p = 4 \<and> length p < 3)"
  using bfs_returns_shortest_route [OF example_reachable_finite, of 4]
  by (auto simp: example_search numeral_3_eq_3 not_less)

end
