(* ===== verification/CapacityGraph.thy ===== *)
theory CapacityGraph
  imports Messages Bfs
begin

text \<open>
  The capacity graph of the index server: \<open>graph/capacity_graph.rs\<close> (the trait, here the
  locales \<open>linear_rate\<close> and \<open>capacity_store\<close>), \<open>graph/simple_capacity_graph.rs\<close> and
  \<open>graph/utils.rs\<close>, the requests of \<open>graph/graph_service.rs\<close> and the rates of \<open>server.rs\<close>.
  A computation that searches a route has type \<open>('a, unit) res option\<close>: \<open>None\<close> is
  divergence, \<open>Panic\<close> a failed \<open>unwrap\<close>.
\<close>

section \<open>Data\<close>

record 't capacity_edge =
  ce_capacity :: "u128 \<times> u128"
  ce_rate :: 't

definition capacity_edge_new :: "u128 \<times> u128 \<Rightarrow> 't \<Rightarrow> 't capacity_edge" where
  "capacity_edge_new capacity r = \<lparr> ce_capacity = capacity, ce_rate = r \<rparr>"

record ('n, 't) capacity_route =
  cr_route :: "'n list"
  cr_capacity :: u128
  cr_rate :: 't

record ('n, 't) capacity_multi_route =
  cmr_routes :: "('n, 't) capacity_route list"

definition BASE_MAX_EDGE_AGE :: u128 where
  "BASE_MAX_EDGE_AGE = 16"

record 't edge =
  edge_capacity_edge :: "'t capacity_edge"
  edge_age :: u128

definition edge_new :: "'t capacity_edge \<Rightarrow> 't edge" where
  "edge_new c = \<lparr> edge_capacity_edge = c, edge_age = 0 \<rparr>"

record ('n, 't) node_edges =
  ne_edges :: "('n, 't edge) hmap"

definition node_edges_new :: "('n, 't) node_edges" where
  "node_edges_new = \<lparr> ne_edges = [] \<rparr>"

record ('n, 't) simple_capacity_graph =
  cg_nodes :: "('n, ('n, 't) node_edges) hmap"

definition simple_capacity_graph_new :: "('n, 't) simple_capacity_graph" where
  "simple_capacity_graph_new = \<lparr> cg_nodes = [] \<rparr>"

section \<open>Ageing of edges\<close>

definition max_edge_age :: "nat \<Rightarrow> u128" where
  "max_edge_age num_edges = BASE_MAX_EDGE_AGE + 3 * of_nat num_edges"

definition node_edges_tick :: "('n, 't) node_edges \<Rightarrow> ('n, 't) node_edges" where
  "node_edges_tick ne =
     (let max_age = max_edge_age (length (ne_edges ne)) in
      ne\<lparr> ne_edges := hm_retain
            (\<lambda>e. let e' = e\<lparr> edge_age := u_saturating_add (edge_age e) 1 \<rparr>
                 in if edge_age e' < max_age then Some e' else None)
            (ne_edges ne) \<rparr>)"

section \<open>Edges and capacities\<close>

definition get_edge :: "('n, 't) simple_capacity_graph \<Rightarrow> 'n \<Rightarrow> 'n \<Rightarrow> 't edge option" where
  "get_edge g a b =
     (case hm_get (cg_nodes g) a of
        None \<Rightarrow> None
      | Some a_edges \<Rightarrow> hm_get (ne_edges a_edges) b)"

definition get_send_capacity :: "('n, 't) simple_capacity_graph \<Rightarrow> 'n \<Rightarrow> 'n \<Rightarrow> u128" where
  "get_send_capacity g a b =
     (case get_edge g a b of
        None \<Rightarrow> 0
      | Some a_b_edge \<Rightarrow>
          (case get_edge g b a of
             None \<Rightarrow> 0
           | Some b_a_edge \<Rightarrow>
               (let a_send = fst (ce_capacity (edge_capacity_edge a_b_edge));
                    b_recv = snd (ce_capacity (edge_capacity_edge b_a_edge))
                in min a_send b_recv)))"

definition neighbors_with_send_capacity ::
  "('n, 't) simple_capacity_graph \<Rightarrow> 'n \<Rightarrow> u128 \<Rightarrow> 'n list" where
  "neighbors_with_send_capacity g a capacity =
     (case hm_get (cg_nodes g) a of
        None \<Rightarrow> []
      | Some a_edges \<Rightarrow> filter (\<lambda>b. capacity \<le> get_send_capacity g a b) (map fst (ne_edges a_edges)))"

text \<open>\<open>Iterator::min\<close>.\<close>

definition iter_min :: "u128 list \<Rightarrow> u128 option" where
  "iter_min xs = (case xs of [] \<Rightarrow> None | y # ys \<Rightarrow> Some (fold min ys y))"

definition get_route_capacity :: "('n, 't) simple_capacity_graph \<Rightarrow> 'n list \<Rightarrow> u128 option" where
  "get_route_capacity g route =
     (if length route < 1 then None
      else iter_min (map (\<lambda>i. get_send_capacity g (route ! i) (route ! (i + 1))) [0..<length route - 1]))"

text \<open>The loop of \<open>get_route_rate\<close>: the indices that are left and the rate so far.\<close>

fun route_rate_loop ::
  "('t \<Rightarrow> 't \<Rightarrow> 't option) \<Rightarrow> ('n, 't) simple_capacity_graph \<Rightarrow> 'n list \<Rightarrow> nat list \<Rightarrow> 't \<Rightarrow> 't option" where
  "route_rate_loop add_rates g route [] total_rate = Some total_rate"
| "route_rate_loop add_rates g route (i # is) total_rate =
     (case get_edge g (route ! i) (route ! (i + 1)) of
        None \<Rightarrow> None
      | Some e \<Rightarrow>
          (case add_rates total_rate (ce_rate (edge_capacity_edge e)) of
             None \<Rightarrow> None
           | Some total_rate' \<Rightarrow> route_rate_loop add_rates g route is total_rate'))"

definition get_route_rate ::
  "'t \<Rightarrow> ('t \<Rightarrow> 't \<Rightarrow> 't option) \<Rightarrow> ('n, 't) simple_capacity_graph \<Rightarrow> 'n list \<Rightarrow> 't option" where
  "get_route_rate zero add_rates g route =
     (if length route < 2 then None
      else route_rate_loop add_rates g route [0..<length route - 2] zero)"

section \<open>Routes\<close>

definition route_neighbors ::
  "('n, 't) simple_capacity_graph \<Rightarrow> u128 \<Rightarrow> ('n \<times> 'n) option \<Rightarrow> 'n \<Rightarrow> 'n list" where
  "route_neighbors g capacity opt_exclude cur_node =
     (let opt_e_start = map_option fst opt_exclude;
          opt_e_end = map_option snd opt_exclude;
          cur_node_is_e_start = (Some cur_node = opt_e_start)
      in filter (\<lambda>next_node. \<not> cur_node_is_e_start \<or> Some next_node \<noteq> opt_e_end)
           (neighbors_with_send_capacity g cur_node capacity))"

definition get_multi_route ::
  "'t \<Rightarrow> ('t \<Rightarrow> 't \<Rightarrow> 't option) \<Rightarrow> ('n, 't) simple_capacity_graph \<Rightarrow> 'n \<Rightarrow> 'n \<Rightarrow> u128 \<Rightarrow> ('n \<times> 'n) option
    \<Rightarrow> (('n, 't) capacity_multi_route option, unit) res option" where
  "get_multi_route zero add_rates g a b capacity opt_exclude =
     (case bfs a b (route_neighbors g capacity opt_exclude) of
        None \<Rightarrow> None
      | Some None \<Rightarrow> Some (Ok None)
      | Some (Some route) \<Rightarrow>
          Some (res_bind (unwrap (get_route_capacity g route)) (\<lambda>route_capacity.
            (case get_route_rate zero add_rates g route of
               None \<Rightarrow> Ok None
             | Some r \<Rightarrow>
                 Ok (Some \<lparr> cmr_routes =
                   [\<lparr> cr_route = route, cr_capacity = route_capacity, cr_rate = r \<rparr>] \<rparr>)))))"

definition option_to_vec :: "'a option \<Rightarrow> 'a list" where
  "option_to_vec opt_t = (case opt_t of Some t \<Rightarrow> [t] | None \<Rightarrow> [])"

definition get_multi_routes ::
  "'t \<Rightarrow> ('t \<Rightarrow> 't \<Rightarrow> 't option) \<Rightarrow> ('n, 't) simple_capacity_graph \<Rightarrow> 'n \<Rightarrow> 'n \<Rightarrow> u128 \<Rightarrow> ('n \<times> 'n) option
    \<Rightarrow> (('n, 't) capacity_multi_route list, unit) res option" where
  "get_multi_routes zero add_rates g a b capacity opt_exclude =
     map_option (\<lambda>r. res_bind r (\<lambda>m. Ok (option_to_vec m)))
       (get_multi_route zero add_rates g a b capacity opt_exclude)"

section \<open>Changes of the graph\<close>

definition update_edge ::
  "('n, 't) simple_capacity_graph \<Rightarrow> 'n \<Rightarrow> 'n \<Rightarrow> 't capacity_edge
    \<Rightarrow> 't capacity_edge option \<times> ('n, 't) simple_capacity_graph" where
  "update_edge g a b ce =
     (let a_entry = (case hm_get (cg_nodes g) a of Some ne \<Rightarrow> ne | None \<Rightarrow> node_edges_new);
          old = hm_get (ne_edges a_entry) b;
          a_entry' = a_entry\<lparr> ne_edges := hm_insert b (edge_new ce) (ne_edges a_entry) \<rparr>
      in (map_option edge_capacity_edge old, g\<lparr> cg_nodes := hm_insert a a_entry' (cg_nodes g) \<rparr>))"

definition remove_edge ::
  "('n, 't) simple_capacity_graph \<Rightarrow> 'n \<Rightarrow> 'n \<Rightarrow> 't capacity_edge option \<times> ('n, 't) simple_capacity_graph" where
  "remove_edge g a b =
     (case hm_get (cg_nodes g) a of
        None \<Rightarrow> (None, g)
      | Some a_edges \<Rightarrow>
          (case hm_get (ne_edges a_edges) b of
             None \<Rightarrow> (None, g)
           | Some old_edge \<Rightarrow>
               (let a_edges' = a_edges\<lparr> ne_edges := hm_remove b (ne_edges a_edges) \<rparr> in
                (Some (edge_capacity_edge old_edge),
                 if ne_edges a_edges' = [] then g\<lparr> cg_nodes := hm_remove a (cg_nodes g) \<rparr>
                 else g\<lparr> cg_nodes := hm_insert a a_edges' (cg_nodes g) \<rparr>))))"

definition remove_node ::
  "('n, 't) simple_capacity_graph \<Rightarrow> 'n \<Rightarrow> bool \<times> ('n, 't) simple_capacity_graph" where
  "remove_node g a = (hm_get (cg_nodes g) a \<noteq> None, g\<lparr> cg_nodes := hm_remove a (cg_nodes g) \<rparr>)"

definition graph_tick :: "('n, 't) simple_capacity_graph \<Rightarrow> 'n \<Rightarrow> ('n, 't) simple_capacity_graph" where
  "graph_tick g a =
     (case hm_get (cg_nodes g) a of
        Some node_edges \<Rightarrow> g\<lparr> cg_nodes := hm_insert a (node_edges_tick node_edges) (cg_nodes g) \<rparr>
      | None \<Rightarrow> g)"

section \<open>The graph service\<close>

datatype ('n, 't) graph_request =
    GrUpdateEdge 'n 'n "'t capacity_edge"
  | GrRemoveEdge 'n 'n
  | GrRemoveNode 'n
  | GrGetMultiRoutes 'n 'n u128 "('n \<times> 'n) option"
  | GrTick 'n

text \<open>What is sent through the one-shot sender of a request.\<close>

datatype ('n, 't) graph_response =
    RsEdge "'t capacity_edge option"
  | RsRemoved bool
  | RsRoutes "('n, 't) capacity_multi_route list"
  | RsDone

definition process_request ::
  "'t \<Rightarrow> ('t \<Rightarrow> 't \<Rightarrow> 't option) \<Rightarrow> ('n, 't) simple_capacity_graph \<Rightarrow> ('n, 't) graph_request
    \<Rightarrow> (('n, 't) graph_response \<times> ('n, 't) simple_capacity_graph, unit) res option" where
  "process_request zero add_rates g req =
     (case req of
        GrUpdateEdge a b ce \<Rightarrow> (let (old, g') = update_edge g a b ce in Some (Ok (RsEdge old, g')))
      | GrRemoveEdge a b \<Rightarrow> (let (old, g') = remove_edge g a b in Some (Ok (RsEdge old, g')))
      | GrRemoveNode a \<Rightarrow> (let (was, g') = remove_node g a in Some (Ok (RsRemoved was, g')))
      | GrGetMultiRoutes a b capacity opt_exclude \<Rightarrow>
          map_option (\<lambda>r. res_bind r (\<lambda>routes. Ok (RsRoutes routes, g)))
            (get_multi_routes zero add_rates g a b capacity opt_exclude)
      | GrTick a \<Rightarrow> Some (Ok (RsDone, graph_tick g a)))"

text \<open>The loop of the service over the requests that arrive before the channel closes.\<close>

fun graph_service_loop ::
  "'t \<Rightarrow> ('t \<Rightarrow> 't \<Rightarrow> 't option) \<Rightarrow> ('n, 't) simple_capacity_graph \<Rightarrow> ('n, 't) graph_request list
    \<Rightarrow> (('n, 't) graph_response list \<times> ('n, 't) simple_capacity_graph, unit) res option" where
  "graph_service_loop zero add_rates g [] = Some (Ok ([], g))"
| "graph_service_loop zero add_rates g (req # reqs) =
     (case process_request zero add_rates g req of
        Some (Ok (response, g')) \<Rightarrow>
          map_option (\<lambda>r. res_bind r (\<lambda>(responses, g''). Ok (response # responses, g'')))
            (graph_service_loop zero add_rates g' reqs)
      | Some (Err e) \<Rightarrow> Some (Err e)
      | Some Panic \<Rightarrow> Some Panic
      | None \<Rightarrow> None)"

section \<open>Rates\<close>

definition rate_zero :: rate where
  "rate_zero = \<lparr> rate_mul = 0, rate_add = 0 \<rparr>"

definition rate_checked_add :: "rate \<Rightarrow> rate \<Rightarrow> rate option" where
  "rate_checked_add r s =
     (case u_checked_add (rate_mul r) (rate_mul s) of
        None \<Rightarrow> None
      | Some m \<Rightarrow>
          (case u_checked_add (rate_add r) (rate_add s) of
             None \<Rightarrow> None
           | Some n \<Rightarrow> Some \<lparr> rate_mul = m, rate_add = n \<rparr>))"

section \<open>What the graph knows\<close>

text \<open>
  The abstract graph gives for every node the edges it announced. The requests act on it as
  follows; searching for routes does not change it.
\<close>

type_synonym ('n, 't) edge_view = "'n \<Rightarrow> 'n \<rightharpoonup> 't edge"

definition grow_older :: "nat \<Rightarrow> 't edge \<Rightarrow> 't edge option" where
  "grow_older num_edges e =
     (let e' = e\<lparr> edge_age := u_saturating_add (edge_age e) 1 \<rparr>
      in if edge_age e' < max_edge_age num_edges then Some e' else None)"

fun view_step :: "('n, 't) graph_request \<Rightarrow> ('n, 't) edge_view \<Rightarrow> ('n, 't) edge_view" where
  "view_step (GrUpdateEdge a b ce) m = m(a := (m a)(b \<mapsto> edge_new ce))"
| "view_step (GrRemoveEdge a b) m = m(a := (m a)(b := None))"
| "view_step (GrRemoveNode a) m = m(a := Map.empty)"
| "view_step (GrGetMultiRoutes a b capacity opt_exclude) m = m"
| "view_step (GrTick a) m = m(a := (\<lambda>b. Option.bind (m a b) (grow_older (card (dom (m a))))))"

definition edge_view :: "('n, 't) simple_capacity_graph \<Rightarrow> ('n, 't) edge_view" where
  "edge_view g a b = get_edge g a b"

definition graph_ok :: "('n, 't) simple_capacity_graph \<Rightarrow> bool" where
  "graph_ok g \<longleftrightarrow> hm_ok (cg_nodes g) \<and> (\<forall>a ne. hm_get (cg_nodes g) a = Some ne \<longrightarrow> hm_ok (ne_edges ne))"

text \<open>
  The contract of the trait \<open>CapacityGraph\<close> for the operations that change a graph, and what a
  sequence of requests does to any implementation of it.
\<close>

locale capacity_store =
  fixes view :: "'g \<Rightarrow> ('n, 't) edge_view"
    and ok :: "'g \<Rightarrow> bool"
    and step :: "('n, 't) graph_request \<Rightarrow> 'g \<Rightarrow> 'g"
  assumes step_ok: "ok g \<Longrightarrow> ok (step req g)"
    and step_view: "ok g \<Longrightarrow> view (step req g) = view_step req (view g)"
    and finite_view: "ok g \<Longrightarrow> finite (dom (view g a))"
begin

lemma run_ok: "ok g \<Longrightarrow> ok (fold step reqs g)"
  by (induction reqs arbitrary: g) (simp_all add: step_ok)

lemma run_view: "ok g \<Longrightarrow> view (fold step reqs g) = fold view_step reqs (view g)"
  by (induction reqs arbitrary: g) (simp_all add: step_ok step_view)

end

text \<open>The graph after a request, as \<open>process_request\<close> leaves it.\<close>

fun graph_step :: "('n, 't) graph_request \<Rightarrow> ('n, 't) simple_capacity_graph \<Rightarrow> ('n, 't) simple_capacity_graph" where
  "graph_step (GrUpdateEdge a b ce) g = snd (update_edge g a b ce)"
| "graph_step (GrRemoveEdge a b) g = snd (remove_edge g a b)"
| "graph_step (GrRemoveNode a) g = snd (remove_node g a)"
| "graph_step (GrGetMultiRoutes a b capacity opt_exclude) g = g"
| "graph_step (GrTick a) g = graph_tick g a"

lemmas graph_defs = update_edge_def remove_edge_def remove_node_def graph_tick_def Let_def

lemma graph_ok_new: "graph_ok simple_capacity_graph_new"
  by (simp add: graph_ok_def simple_capacity_graph_new_def)

lemma graph_ok_node: "graph_ok g \<Longrightarrow> hm_get (cg_nodes g) a = Some ne \<Longrightarrow> hm_ok (ne_edges ne)"
  by (auto simp: graph_ok_def)

lemma tick_edges:
  "ne_edges (node_edges_tick ne) = hm_retain (grow_older (length (ne_edges ne))) (ne_edges ne)"
  by (simp add: node_edges_tick_def grow_older_def [abs_def] Let_def)

lemma graph_ok_step: "graph_ok g \<Longrightarrow> graph_ok (graph_step req g)"
  by (cases req) (auto simp: graph_ok_def graph_defs hm_simps tick_edges node_edges_new_def split: option.splits)

lemma card_dom_hmap: "hm_ok m \<Longrightarrow> card (dom (hm_get m)) = length m"
  by (simp add: hm_ok_def hm_get_map_of dom_map_of_conv_image_fst card_distinct flip: set_map)
     (metis distinct_card length_map)

lemma view_node: "hm_get (cg_nodes g) a = Some ne \<Longrightarrow> edge_view g a = hm_get (ne_edges ne)"
  by (rule ext) (simp add: edge_view_def get_edge_def)

lemma view_no_node: "hm_get (cg_nodes g) a = None \<Longrightarrow> edge_view g a = Map.empty"
  by (rule ext) (simp add: edge_view_def get_edge_def)

lemma finite_edge_view: "finite (dom (edge_view g a))"
  by (cases "hm_get (cg_nodes g) a") (simp_all add: view_no_node view_node hm_get_map_of finite_dom_map_of)

lemma view_other: "(\<And>c. c \<noteq> a \<Longrightarrow> hm_get (cg_nodes g') c = hm_get (cg_nodes g) c) \<Longrightarrow> edge_view g' a = m
    \<Longrightarrow> edge_view g' = (edge_view g)(a := m)"
  by (auto simp: fun_eq_iff edge_view_def get_edge_def)

lemma update_edge_view: "edge_view (snd (update_edge g a b ce)) = (edge_view g)(a := (edge_view g a)(b \<mapsto> edge_new ce))"
  by (rule view_other) (auto simp: fun_eq_iff edge_view_def get_edge_def update_edge_def Let_def hm_simps node_edges_new_def split: option.splits)

lemma remove_edge_view: "edge_view (snd (remove_edge g a b)) = (edge_view g)(a := (edge_view g a)(b := None))"
proof (rule view_other)
  show "edge_view (snd (remove_edge g a b)) a = (edge_view g a)(b := None)"
  proof (cases "hm_get (cg_nodes g) a")
    case (Some ne)
    have "hm_get (ne_edges ne) x = None" if "hm_remove b (ne_edges ne) = []" "x \<noteq> b" for x
      using that hm_get_remove [of b "ne_edges ne" x] by simp
    then show ?thesis using Some
      by (auto simp: fun_eq_iff edge_view_def get_edge_def remove_edge_def Let_def hm_simps split: option.splits)
  qed (auto simp: fun_eq_iff edge_view_def get_edge_def remove_edge_def)
qed (auto simp: remove_edge_def Let_def hm_simps split: option.splits)

lemma remove_node_view: "edge_view (snd (remove_node g a)) = (edge_view g)(a := Map.empty)"
  by (rule view_other) (auto simp: fun_eq_iff edge_view_def get_edge_def remove_node_def hm_simps)

lemma graph_tick_view:
  assumes "graph_ok g"
  shows "edge_view (graph_tick g a)
    = (edge_view g)(a := (\<lambda>b. Option.bind (edge_view g a b) (grow_older (card (dom (edge_view g a))))))"
proof (cases "hm_get (cg_nodes g) a")
  case None
  then show ?thesis by (simp add: graph_tick_def view_no_node fun_upd_idem)
next
  case (Some ne)
  have ok: "hm_ok (ne_edges ne)" using graph_ok_node [OF assms Some] .
  have "hm_get (cg_nodes (graph_tick g a)) a = Some (node_edges_tick ne)"
    using Some by (simp add: graph_tick_def hm_simps)
  from view_node [OF this] have "edge_view (graph_tick g a) a
      = (\<lambda>b. Option.bind (edge_view g a b) (grow_older (card (dom (edge_view g a)))))"
    by (simp add: fun_eq_iff tick_edges hm_get_retain [OF ok] card_dom_hmap [OF ok] view_node [OF Some])
  then show ?thesis using Some by (intro view_other) (auto simp: graph_tick_def hm_simps)
qed

lemmas graph_views = update_edge_view remove_edge_view remove_node_view graph_tick_view

interpretation store: capacity_store edge_view graph_ok graph_step
proof
  fix g :: "('n, 't) simple_capacity_graph" and req
  assume "graph_ok g"
  then show "graph_ok (graph_step req g)" "edge_view (graph_step req g) = view_step req (edge_view g)"
    by (rule graph_ok_step, cases req, simp_all add: graph_views)
qed (rule finite_edge_view)

section \<open>Routes\<close>

text \<open>A path whose every hop can carry \<open>capacity\<close> and is not the excluded edge.\<close>

definition usable_path ::
  "('n, 't) simple_capacity_graph \<Rightarrow> u128 \<Rightarrow> ('n \<times> 'n) option \<Rightarrow> 'n \<Rightarrow> 'n \<Rightarrow> 'n list \<Rightarrow> bool" where
  "usable_path g capacity opt_exclude a b p \<longleftrightarrow>
     p \<noteq> [] \<and> hd p = a \<and> last p = b
     \<and> (\<forall>i. Suc i < length p \<longrightarrow> get_edge g (p ! i) (p ! Suc i) \<noteq> None
            \<and> capacity \<le> get_send_capacity g (p ! i) (p ! Suc i) \<and> opt_exclude \<noteq> Some (p ! i, p ! Suc i))"

lemma key_iff: "b \<in> fst ` set m \<longleftrightarrow> hm_get m b \<noteq> None"
  using hm_get_key [of m b] hm_get_of_key [of b m] by auto

lemma route_neighbors_iff:
  "v \<in> set (route_neighbors g capacity opt_exclude u) \<longleftrightarrow>
     get_edge g u v \<noteq> None \<and> capacity \<le> get_send_capacity g u v \<and> opt_exclude \<noteq> Some (u, v)"
  unfolding route_neighbors_def neighbors_with_send_capacity_def get_edge_def Let_def
  by (cases opt_exclude) (auto simp: key_iff split: option.splits)

lemma usable_path_walk:
  "usable_path g capacity opt_exclude a b p \<longleftrightarrow> walk (route_neighbors g capacity opt_exclude) p \<and> hd p = a \<and> last p = b"
  unfolding usable_path_def walk_nth route_neighbors_iff by auto

lemma route_neighbors_finite: "finite (reachable_from (route_neighbors g capacity opt_exclude) a)"
proof (rule reachable_finite)
  show "finite (\<Union>ne \<in> snd ` set (cg_nodes g). fst ` set (ne_edges ne))" by simp
  show "set (route_neighbors g capacity opt_exclude u) \<subseteq> (\<Union>ne \<in> snd ` set (cg_nodes g). fst ` set (ne_edges ne))" for u
  proof
    fix v
    assume "v \<in> set (route_neighbors g capacity opt_exclude u)"
    then obtain ne e where "hm_get (cg_nodes g) u = Some ne" "hm_get (ne_edges ne) v = Some e"
      by (auto simp: route_neighbors_iff get_edge_def split: option.splits)
    then show "v \<in> (\<Union>ne \<in> snd ` set (cg_nodes g). fst ` set (ne_edges ne))"
      by (meson UN_I hm_get_in hm_get_key)
  qed
qed

definition hop_capacities :: "('n, 't) simple_capacity_graph \<Rightarrow> 'n list \<Rightarrow> u128 set" where
  "hop_capacities g p = (\<lambda>i. get_send_capacity g (p ! i) (p ! Suc i)) ` {..<length p - 1}"

lemma route_capacity_Some:
  assumes "2 \<le> length p"
  shows "get_route_capacity g p = Some (Min (hop_capacities g p))"
proof -
  let ?xs = "map (\<lambda>i. get_send_capacity g (p ! i) (p ! (i + 1))) [0..<length p - 1]"
  obtain y ys where y: "?xs = y # ys" using assms by (cases ?xs) auto
  have "iter_min ?xs = Some (Min (set ?xs))" unfolding y by (simp only: iter_min_def list.case Min.set_eq_fold)
  moreover have "set ?xs = hop_capacities g p" by (auto simp: hop_capacities_def)
  ultimately show ?thesis using assms by (auto simp: get_route_capacity_def)
qed

lemma usable_path_long: "usable_path g capacity opt_exclude a b p \<Longrightarrow> a \<noteq> b \<Longrightarrow> 2 \<le> length p"
  unfolding usable_path_def by (cases p; cases "tl p") auto

lemma usable_path_capacity:
  assumes "usable_path g capacity opt_exclude a b p" and "a \<noteq> b"
  shows "capacity \<le> Min (hop_capacities g p)"
proof -
  have "hop_capacities g p \<noteq> {}" "finite (hop_capacities g p)"
    using usable_path_long [OF assms] by (auto simp: hop_capacities_def lessThan_empty_iff)
  moreover have "\<forall>c \<in> hop_capacities g p. capacity \<le> c"
    using assms(1) by (auto simp: usable_path_def hop_capacities_def)
  ultimately show ?thesis by simp
qed

text \<open>What \<open>get_multi_route\<close> does, in terms of the shortest usable path that the search finds.\<close>

definition shortest_path ::
  "('n, 't) simple_capacity_graph \<Rightarrow> u128 \<Rightarrow> ('n \<times> 'n) option \<Rightarrow> 'n \<Rightarrow> 'n \<Rightarrow> 'n list \<Rightarrow> bool" where
  "shortest_path g capacity opt_exclude a b p \<longleftrightarrow>
     usable_path g capacity opt_exclude a b p \<and> distinct p \<and> a \<noteq> b
     \<and> (\<forall>q. usable_path g capacity opt_exclude a b q \<longrightarrow> length p \<le> length q)"

lemma multi_route_cases:
  obtains (none) "get_multi_route zero add_rates g a b capacity opt_exclude = Some (Ok None)"
      "a = b \<or> (\<nexists>p. usable_path g capacity opt_exclude a b p)"
  | (found) p where "shortest_path g capacity opt_exclude a b p"
      "get_multi_route zero add_rates g a b capacity opt_exclude =
         Some (Ok (map_option (\<lambda>r. \<lparr> cmr_routes =
           [\<lparr> cr_route = p, cr_capacity = Min (hop_capacities g p), cr_rate = r \<rparr>] \<rparr>) (get_route_rate zero add_rates g p)))"
proof -
  let ?nb = "route_neighbors g capacity opt_exclude"
  have reach: "b \<in> reachable_from ?nb a \<longleftrightarrow> (\<exists>p. usable_path g capacity opt_exclude a b p)"
    by (auto simp: reachable_from_def usable_path_walk)
  obtain result where run: "bfs a b ?nb = Some result"
    and iff: "result \<noteq> None \<longleftrightarrow> b \<in> reachable_from ?nb a \<and> b \<noteq> a"
    and route: "\<And>p. result = Some p \<Longrightarrow> walk ?nb p \<and> hd p = a \<and> last p = b \<and> distinct p
        \<and> (\<forall>q. walk ?nb q \<and> hd q = a \<and> last q = b \<longrightarrow> length p \<le> length q)"
    using bfs_search [OF route_neighbors_finite [of g capacity opt_exclude a], of b] by blast
  show thesis
  proof (cases result)
    case None
    then show ?thesis using run iff reach by (intro none) (auto simp: get_multi_route_def)
  next
    case (Some p)
    then have short: "shortest_path g capacity opt_exclude a b p"
      using route [OF Some] iff by (auto simp: shortest_path_def usable_path_walk)
    then have "get_route_capacity g p = Some (Min (hop_capacities g p))"
      using usable_path_long by (intro route_capacity_Some) (auto simp: shortest_path_def)
    then show ?thesis using run Some short
      by (intro found [of p]) (auto simp: get_multi_route_def split: option.splits)
  qed
qed

text \<open>
  C10: A route search always returns, without a panic. A route it returns goes from \<open>a\<close> to \<open>b\<close>
  without visiting a node twice, avoids the excluded edge, can carry the requested capacity on
  every hop, is announced with the exact capacity of its weakest hop, and is as short as any
  such path. When it returns nothing, there is no such path (or \<open>a = b\<close>), or the rates along
  a shortest path could not be added.
\<close>

theorem get_multi_route_correct:
  "\<exists>result. get_multi_route zero add_rates g a b capacity opt_exclude = Some (Ok result)
    \<and> (\<forall>mr. result = Some mr \<longrightarrow> (\<exists>r. cmr_routes mr = [r]
        \<and> shortest_path g capacity opt_exclude a b (cr_route r)
        \<and> cr_capacity r = Min (hop_capacities g (cr_route r)) \<and> capacity \<le> cr_capacity r
        \<and> get_route_rate zero add_rates g (cr_route r) = Some (cr_rate r)))
    \<and> (result = None \<longrightarrow> a = b \<or> (\<nexists>p. usable_path g capacity opt_exclude a b p)
        \<or> (\<exists>p. shortest_path g capacity opt_exclude a b p \<and> get_route_rate zero add_rates g p = None))"
proof (cases rule: multi_route_cases [of zero add_rates g a b capacity opt_exclude])
  case (found p)
  then show ?thesis
    using usable_path_capacity [of g capacity opt_exclude a b p]
    by (cases "get_route_rate zero add_rates g p") (auto simp: shortest_path_def)
qed auto

text \<open>The square with a detour: \<open>1 \<rightarrow> 4\<close> directly carries too little.\<close>

definition example_edge :: "u128 \<Rightarrow> u128 \<Rightarrow> u32 \<Rightarrow> rate capacity_edge" where
  "example_edge send recv fee = capacity_edge_new (send, recv) \<lparr> rate_mul = 0, rate_add = fee \<rparr>"

definition example_requests :: "(nat, rate) graph_request list" where
  "example_requests =
     [GrUpdateEdge 1 2 (example_edge 30 10 1), GrUpdateEdge 2 1 (example_edge 10 25 2),
      GrUpdateEdge 2 3 (example_edge 40 10 3), GrUpdateEdge 3 2 (example_edge 10 50 4),
      GrUpdateEdge 3 4 (example_edge 40 10 5), GrUpdateEdge 4 3 (example_edge 10 50 6),
      GrUpdateEdge 1 4 (example_edge 5 5 7), GrUpdateEdge 4 1 (example_edge 5 5 8)]"

definition example_graph :: "(nat, rate) simple_capacity_graph" where
  "example_graph = fold graph_step example_requests simple_capacity_graph_new"

lemma example_graph_route:
  "get_multi_route rate_zero rate_checked_add example_graph 1 4 20 None
    = Some (Ok (Some \<lparr> cmr_routes = [\<lparr> cr_route = [1, 2, 3, 4], cr_capacity = 25,
        cr_rate = \<lparr> rate_mul = 0, rate_add = 4 \<rparr> \<rparr>] \<rparr>))"
  by code_simp

theorem get_multi_route_correct_witness:
  "shortest_path example_graph 20 None 1 4 [1, 2, 3, 4]"
  using get_multi_route_correct [of rate_zero rate_checked_add example_graph 1 4 20 None]
  unfolding example_graph_route by simp

section \<open>The service\<close>

lemma process_request_returns:
  "\<exists>response. process_request zero add_rates g req = Some (Ok (response, graph_step req g))"
proof (cases req)
  case (GrGetMultiRoutes a b capacity opt_exclude)
  then show ?thesis
    by (cases rule: multi_route_cases [of zero add_rates g a b capacity opt_exclude])
       (auto simp: process_request_def get_multi_routes_def)
qed (auto simp: process_request_def split: prod.splits)

lemma service_returns:
  "\<exists>responses. graph_service_loop zero add_rates g reqs = Some (Ok (responses, fold graph_step reqs g))
    \<and> length responses = length reqs"
proof (induction reqs arbitrary: g)
  case (Cons req reqs)
  obtain response where step: "process_request zero add_rates g req = Some (Ok (response, graph_step req g))"
    using process_request_returns [of zero add_rates g req] by (elim exE)
  from Cons.IH [of "graph_step req g"] show ?case by (auto simp: step)
qed simp

text \<open>
  C33: The graph service answers every request of every sequence, none of them panics or runs
  forever, and the edges it knows at the end are those of the abstract graph after the same
  requests.
\<close>

theorem graph_service_refines_view:
  assumes "graph_ok g"
  shows "\<exists>responses g'. graph_service_loop zero add_rates g reqs = Some (Ok (responses, g'))
    \<and> length responses = length reqs \<and> graph_ok g' \<and> edge_view g' = fold view_step reqs (edge_view g)"
  using service_returns [of zero add_rates g reqs] store.run_ok [OF assms] store.run_view [OF assms] by blast

theorem graph_service_refines_view_witness:
  "\<exists>responses g'. graph_service_loop rate_zero rate_checked_add simple_capacity_graph_new
      (example_requests @ [GrTick 1, GrRemoveEdge 2 3, GrGetMultiRoutes 1 4 1 (Some (1, 4)), GrRemoveNode 3])
      = Some (Ok (responses, g')) \<and> length responses = 12 \<and> edge_view g' 3 = Map.empty"
proof -
  obtain responses g' where run: "graph_service_loop rate_zero rate_checked_add simple_capacity_graph_new
      (example_requests @ [GrTick 1, GrRemoveEdge 2 3, GrGetMultiRoutes 1 4 1 (Some (1, 4)), GrRemoveNode 3])
      = Some (Ok (responses, g'))" and len: "length responses = 12"
    and view: "edge_view g' = fold view_step
      (example_requests @ [GrTick 1, GrRemoveEdge 2 3, GrGetMultiRoutes 1 4 1 (Some (1, 4)), GrRemoveNode 3])
      (edge_view simple_capacity_graph_new)"
    using graph_service_refines_view [OF graph_ok_new, of rate_zero rate_checked_add
      "example_requests @ [GrTick 1, GrRemoveEdge 2 3, GrGetMultiRoutes 1 4 1 (Some (1, 4)), GrRemoveNode 3]"]
    by (auto simp: example_requests_def)
  have "edge_view g' 3 = Map.empty" unfolding view by simp
  with run len show ?thesis by blast
qed

section \<open>The life of an edge\<close>

text \<open>
  A request leaves the edge \<open>a \<rightarrow> b\<close> to its age: it does not announce or remove it, or remove
  \<open>a\<close>.
\<close>

fun leaves_edge :: "'n \<Rightarrow> 'n \<Rightarrow> ('n, 't) graph_request \<Rightarrow> bool" where
  "leaves_edge a b (GrUpdateEdge c d ce) = (c \<noteq> a \<or> d \<noteq> b)"
| "leaves_edge a b (GrRemoveEdge c d) = (c \<noteq> a \<or> d \<noteq> b)"
| "leaves_edge a b (GrRemoveNode c) = (c \<noteq> a)"
| "leaves_edge a b (GrGetMultiRoutes c d capacity opt_exclude) = True"
| "leaves_edge a b (GrTick c) = True"

fun announces :: "'n \<Rightarrow> ('n, 't) graph_request \<Rightarrow> bool" where
  "announces a (GrUpdateEdge c d ce) = (c = a)"
| "announces a (GrRemoveEdge c d) = False"
| "announces a (GrRemoveNode c) = False"
| "announces a (GrGetMultiRoutes c d capacity opt_exclude) = False"
| "announces a (GrTick c) = False"

definition ticks_of :: "'n \<Rightarrow> ('n, 't) graph_request list \<Rightarrow> nat" where
  "ticks_of a reqs = length (filter (\<lambda>req. req = GrTick a) reqs)"

lemma ticks_of_simps [simp]:
  "ticks_of a [] = 0"
  "ticks_of a (req # reqs) = (if req = GrTick a then 1 else 0) + ticks_of a reqs"
  by (simp_all add: ticks_of_def)

lemma max_edge_age_unat: "n < 2 ^ 64 \<Longrightarrow> unat (max_edge_age n) = 16 + 3 * n"
proof -
  assume n: "n < 2 ^ 64"
  have "of_nat (16 + 3 * n) = max_edge_age n" by (simp add: max_edge_age_def BASE_MAX_EDGE_AGE_def)
  moreover have "16 + 3 * n < 2 ^ LENGTH(128)" using n by simp
  ultimately show ?thesis by (rule of_nat_inverse)
qed

lemma saturating_succ: "unat (u_saturating_add (x :: u128) 1) = min (unat x + 1) (2 ^ 128 - 1)"
proof (cases "u_checked_add x 1")
  case None
  then have "2 ^ 128 \<le> uint x + 1" by (simp add: arith_facts)
  then have "int (2 ^ 128) \<le> int (unat x + 1)" by simp
  then have "2 ^ 128 \<le> unat x + 1" by (simp only: of_nat_le_iff)
  then show ?thesis using None by (simp add: u_saturating_add_def u_checked_add_def unsigned_minus_1_eq_mask mask_eq_exp_minus_1 split: if_splits)
next
  case (Some c)
  then have "uint c = uint x + 1" by (simp add: arith_facts)
  then have "int (unat c) = int (unat x + 1)" by simp
  then have c: "unat c = unat x + 1" by (simp only: of_nat_eq_iff)
  have "unat c < 2 ^ LENGTH(128)" by (rule unsigned_less)
  then show ?thesis using Some c by (simp add: u_saturating_add_def u_checked_add_def split: if_splits)
qed

lemma grow_older_unat:
  assumes "n < 2 ^ 64"
  shows "grow_older n e = (if unat (edge_age e) + 1 < 16 + 3 * n
    then Some (e\<lparr> edge_age := u_saturating_add (edge_age e) 1 \<rparr>) else None)"
proof -
  have "16 + 3 * n < 2 ^ 128 - 1" using assms by simp
  then show ?thesis
    by (auto simp: grow_older_def Let_def word_less_nat_alt max_edge_age_unat [OF assms] saturating_succ)
qed

lemma grow_older_Some:
  assumes "n < 2 ^ 64" and "grow_older n e = Some e'"
  shows "unat (edge_age e') = unat (edge_age e) + 1" and "unat (edge_age e) + 1 < 16 + 3 * n"
proof -
  show less: "unat (edge_age e) + 1 < 16 + 3 * n"
    using assms grow_older_unat [OF assms(1), of e] by (simp split: if_splits)
  then have e': "e' = e\<lparr> edge_age := u_saturating_add (edge_age e) 1 \<rparr>"
    using assms grow_older_unat [OF assms(1), of e] by simp
  have "16 + 3 * n < 2 ^ 128 - 1" using assms(1) by simp
  then have "unat (edge_age e) + 1 \<le> 2 ^ 128 - 1" using less by simp
  then show "unat (edge_age e') = unat (edge_age e) + 1" unfolding e' by (simp add: saturating_succ)
qed

lemma dom_age: "dom (\<lambda>b. Option.bind (m b) f) \<subseteq> dom m"
  by (auto simp: dom_def split: option.splits bind_splits)

lemma view_step_finite: "finite (dom (m a)) \<Longrightarrow> finite (dom (view_step req m a))"
  by (cases req) (auto intro: finite_subset [OF dom_age])

lemma view_step_degree:
  assumes "finite (dom (m a))"
  shows "card (dom (view_step req m a)) \<le> card (dom (m a)) + (if announces a req then 1 else 0)"
proof (cases req)
  case (GrTick c)
  then show ?thesis using card_mono [OF assms dom_age] by auto
next
  case (GrUpdateEdge c d ce)
  then show ?thesis using assms by (auto simp: card_insert_if)
next
  case (GrRemoveEdge c d)
  then show ?thesis using card_mono [OF assms, of "dom (m a) - {d}"] by auto
qed auto

lemma edge_survives:
  "m a b = Some e \<Longrightarrow> finite (dom (m a)) \<Longrightarrow> \<forall>req \<in> set reqs. leaves_edge a b req
    \<Longrightarrow> card (dom (m a)) + length reqs < 2 ^ 64 \<Longrightarrow> unat (edge_age e) + ticks_of a reqs < 19
    \<Longrightarrow> \<exists>e'. fold view_step reqs m a b = Some e' \<and> edge_capacity_edge e' = edge_capacity_edge e
        \<and> unat (edge_age e') = unat (edge_age e) + ticks_of a reqs"
proof (induction reqs arbitrary: m e)
  case (Cons req reqs)
  have "1 \<le> card (dom (m a))" using Cons.prems(1,2) by (metis One_nat_def Suc_leI card_gt_0_iff domI empty_iff)
  then have old: "grow_older (card (dom (m a))) e = Some (e\<lparr> edge_age := u_saturating_add (edge_age e) 1 \<rparr>)"
      "unat (u_saturating_add (edge_age e) 1) = unat (edge_age e) + 1" if "req = GrTick a"
    using Cons.prems(4,5) that grow_older_unat [of "card (dom (m a))" e] by (auto simp: saturating_succ)
  have "\<exists>e'. view_step req m a b = Some e' \<and> edge_capacity_edge e' = edge_capacity_edge e
      \<and> unat (edge_age e') = unat (edge_age e) + (if req = GrTick a then 1 else 0)"
    using Cons.prems(1,3) old by (cases req) auto
  then obtain e' where e': "view_step req m a b = Some e'" "edge_capacity_edge e' = edge_capacity_edge e"
      "unat (edge_age e') = unat (edge_age e) + (if req = GrTick a then 1 else 0)" by blast
  have "card (dom (view_step req m a)) + length reqs < 2 ^ 64"
    using view_step_degree [of m a req, OF Cons.prems(2)] Cons.prems(4) by (auto split: if_splits)
  then show ?case
    using Cons.IH [of "view_step req m", OF e'(1) view_step_finite [of m a req, OF Cons.prems(2)]] Cons.prems(3,5) e'(2,3) by auto
qed simp

lemma unannounced_stays_empty:
  "m a = Map.empty \<Longrightarrow> \<forall>req \<in> set reqs. \<not> announces a req \<Longrightarrow> fold view_step reqs m a = Map.empty"
proof (induction reqs arbitrary: m)
  case (Cons req reqs)
  then have "view_step req m a = Map.empty" by (cases req) auto
  then show ?case using Cons by simp
qed simp

lemma edges_expire:
  "finite (dom (m a)) \<Longrightarrow> \<forall>req \<in> set reqs. \<not> announces a req \<Longrightarrow> card (dom (m a)) \<le> n \<Longrightarrow> n < 2 ^ 64
    \<Longrightarrow> (\<forall>b e. m a b = Some e \<longrightarrow> k \<le> unat (edge_age e)) \<Longrightarrow> fold view_step reqs m a b = Some e
    \<Longrightarrow> ticks_of a reqs = 0 \<or> k + ticks_of a reqs < 16 + 3 * n"
proof (induction reqs arbitrary: m k)
  case (Cons req reqs)
  have deg: "card (dom (view_step req m a)) \<le> n"
    using view_step_degree [of m a req, OF Cons.prems(1)] Cons.prems(2,3) by auto
  note rest = Cons.IH [of "view_step req m", OF view_step_finite [of m a req, OF Cons.prems(1)] _ deg Cons.prems(4)]
  show ?case
  proof (cases "req = GrTick a")
    case True
    have small: "card (dom (m a)) < 2 ^ 64" using Cons.prems(3,4) by simp
    have aged: "k + 1 \<le> unat (edge_age e') \<and> unat (edge_age e') < 16 + 3 * n" if e': "view_step req m a c = Some e'" for c e'
    proof -
      obtain e0 where e0: "m a c = Some e0" "grow_older (card (dom (m a))) e0 = Some e'"
        using e' True by (auto split: bind_splits)
      have "k \<le> unat (edge_age e0)" using Cons.prems(5) e0(1) by blast
      then show ?thesis using grow_older_Some [OF small e0(2)] Cons.prems(3) by simp
    qed
    have "ticks_of a reqs = 0 \<or> (k + 1) + ticks_of a reqs < 16 + 3 * n"
      using rest [of "k + 1"] aged Cons.prems(2,6) by auto
    moreover have "k + 1 < 16 + 3 * n" if none: "ticks_of a reqs = 0"
    proof (rule ccontr)
      assume late: "\<not> ?thesis"
      have "view_step req m a c = None" for c
      proof (cases "view_step req m a c")
        case (Some e')
        then show ?thesis using aged [OF Some] late by simp
      qed
      then have "fold view_step reqs (view_step req m) a = Map.empty"
        using Cons.prems(2) by (intro unannounced_stays_empty) auto
      then show False using Cons.prems(6) by simp
    qed
    ultimately show ?thesis using True by auto
  next
    case False
    have "k \<le> unat (edge_age e')" if "view_step req m a c = Some e'" for c e'
      using that False Cons.prems(2,5) by (cases req) (auto split: if_splits)
    then show ?thesis using rest [of k] False Cons.prems(2,6) by auto
  qed
qed simp

text \<open>
  An edge that its node announced is kept, with the announced capacities and rate, through
  any requests that contain fewer than 19 ticks of its node, unless one of them announces or
  removes this edge or removes the node. Without a new announcement, every edge of a node that
  has \<open>n\<close> edges is gone after \<open>16 + 3 n\<close> ticks of the node.
\<close>

theorem edge_lifetime:
  assumes "graph_ok g" and "get_edge g a b = Some e" and "n = card (dom (edge_view g a))"
    and "n + length reqs < 2 ^ 64" and "graph_service_loop zero add_rates g reqs = Some (Ok (responses, g'))"
  shows "((\<forall>req \<in> set reqs. leaves_edge a b req) \<and> unat (edge_age e) + ticks_of a reqs < 19 \<longrightarrow>
      (\<exists>e'. get_edge g' a b = Some e' \<and> edge_capacity_edge e' = edge_capacity_edge e
        \<and> unat (edge_age e') = unat (edge_age e) + ticks_of a reqs))
    \<and> ((\<forall>req \<in> set reqs. \<not> announces a req) \<and> 16 + 3 * n \<le> ticks_of a reqs \<longrightarrow> get_edge g' a b = None)"
proof (intro conjI impI)
  have run: "g' = fold graph_step reqs g" using service_returns [of zero add_rates g reqs] assms(5) by auto
  have view: "get_edge g' a b = fold view_step reqs (edge_view g) a b"
    unfolding store.run_view [OF assms(1), symmetric] run by (simp add: edge_view_def)
  have e: "edge_view g a b = Some e" using assms(2) by (simp add: edge_view_def)
  show "\<exists>e'. get_edge g' a b = Some e' \<and> edge_capacity_edge e' = edge_capacity_edge e
        \<and> unat (edge_age e') = unat (edge_age e) + ticks_of a reqs"
    if "(\<forall>req \<in> set reqs. leaves_edge a b req) \<and> unat (edge_age e) + ticks_of a reqs < 19"
    using edge_survives [of "edge_view g", OF e finite_edge_view, of reqs] that assms(3,4) unfolding view by blast
  show "get_edge g' a b = None" if late: "(\<forall>req \<in> set reqs. \<not> announces a req) \<and> 16 + 3 * n \<le> ticks_of a reqs"
  proof (rule ccontr)
    assume "get_edge g' a b \<noteq> None"
    then obtain e' where "fold view_step reqs (edge_view g) a b = Some e'" unfolding view by blast
    with edges_expire [of "edge_view g" a reqs n 0 b e'] late finite_edge_view [of g a] assms(3,4)
    show False by auto
  qed
qed

definition example_pair :: "(nat, rate) simple_capacity_graph" where
  "example_pair = fold graph_step
     [GrUpdateEdge 1 2 (example_edge 30 10 1), GrUpdateEdge 2 1 (example_edge 10 25 2)] simple_capacity_graph_new"

lemma example_pair_ok: "graph_ok example_pair"
  unfolding example_pair_def by (rule store.run_ok [OF graph_ok_new])

lemma example_pair_edges: "edge_view example_pair 1 = [2 \<mapsto> edge_new (example_edge 30 10 1)]"
proof -
  have "edge_view (simple_capacity_graph_new :: (nat, rate) simple_capacity_graph) x = Map.empty" for x
    by (simp add: view_no_node simple_capacity_graph_new_def)
  then show ?thesis unfolding example_pair_def store.run_view [OF graph_ok_new] by simp
qed

theorem edge_lifetime_witness:
  "get_edge (fold graph_step (replicate 18 (GrTick 1)) example_pair) 1 2 \<noteq> None
   \<and> get_edge (fold graph_step (replicate 19 (GrTick 1)) example_pair) 1 2 = None"
proof -
  let ?run = "\<lambda>k. fold graph_step (replicate k (GrTick 1)) example_pair"
  have e: "get_edge example_pair 1 2 = Some (edge_new (example_edge 30 10 1))"
    using example_pair_edges by (simp add: edge_view_def fun_eq_iff)
  have n: "1 = card (dom (edge_view example_pair 1))" unfolding example_pair_edges by simp
  have ticks: "ticks_of (Suc 0) (replicate k (GrTick (Suc 0)) :: (nat, rate) graph_request list) = k" for k
    by (simp add: ticks_of_def)
  obtain rs where rs: "graph_service_loop rate_zero rate_checked_add example_pair (replicate 18 (GrTick 1)) = Some (Ok (rs, ?run 18))"
    using service_returns [of rate_zero rate_checked_add example_pair "replicate 18 (GrTick 1)"] by (elim exE conjE)
  obtain ts where ts: "graph_service_loop rate_zero rate_checked_add example_pair (replicate 19 (GrTick 1)) = Some (Ok (ts, ?run 19))"
    using service_returns [of rate_zero rate_checked_add example_pair "replicate 19 (GrTick 1)"] by (elim exE conjE)
  have "get_edge (?run 18) 1 2 \<noteq> None"
    using edge_lifetime [OF example_pair_ok e n _ rs] by (auto simp: ticks edge_new_def)
  moreover have "get_edge (?run 19) 1 2 = None"
    using edge_lifetime [OF example_pair_ok e n _ ts] by (auto simp: ticks)
  ultimately show ?thesis by blast
qed

section \<open>Rates of routes\<close>

text \<open>
  The contract of the trait \<open>LinearRate\<close>. Fees are rounded down, so the fee of a sum may exceed
  the sum of the fees by one.
\<close>

locale linear_rate =
  fixes zero :: 't
    and fee :: "'t \<Rightarrow> u128 \<Rightarrow> u128 option"
    and add_rates :: "'t \<Rightarrow> 't \<Rightarrow> 't option"
  assumes fee_zero: "fee zero k = Some 0"
    and fee_add: "add_rates r s = Some t \<Longrightarrow> fee t k = Some f \<Longrightarrow>
      \<exists>x y. fee r k = Some x \<and> fee s k = Some y \<and> uint x + uint y \<le> uint f \<and> uint f \<le> uint x + uint y + 1"
begin

lemma loop_fee:
  "route_rate_loop add_rates g route is r = Some t \<Longrightarrow> fee t k = Some f \<Longrightarrow>
     \<exists>x xs. fee r k = Some x
       \<and> list_all2 (\<lambda>i y. \<exists>e. get_edge g (route ! i) (route ! (i + 1)) = Some e
            \<and> fee (ce_rate (edge_capacity_edge e)) k = Some y) is xs
       \<and> uint x + sum_list (map uint xs) \<le> uint f \<and> uint f \<le> uint x + sum_list (map uint xs) + int (length is)"
proof (induction "is" arbitrary: r)
  case (Cons i "is")
  obtain e r' where e: "get_edge g (route ! i) (route ! (i + 1)) = Some e"
    and r': "add_rates r (ce_rate (edge_capacity_edge e)) = Some r'"
    and rest: "route_rate_loop add_rates g route is r' = Some t"
    using Cons.prems(1) by (auto split: option.splits)
  obtain x' xs where x': "fee r' k = Some x'"
    and xs: "list_all2 (\<lambda>i y. \<exists>e. get_edge g (route ! i) (route ! (i + 1)) = Some e
        \<and> fee (ce_rate (edge_capacity_edge e)) k = Some y) is xs"
    and le: "uint x' + sum_list (map uint xs) \<le> uint f"
      "uint f \<le> uint x' + sum_list (map uint xs) + int (length is)"
    using Cons.IH [OF rest Cons.prems(2)] by blast
  obtain x y where xy: "fee r k = Some x" "fee (ce_rate (edge_capacity_edge e)) k = Some y"
      "uint x + uint y \<le> uint x'" "uint x' \<le> uint x + uint y + 1"
    using fee_add [OF r' x'] by blast
  show ?case using e xy xs le by (intro exI [of _ x] exI [of _ "y # xs"]) auto
qed auto

lemma route_fee:
  assumes "get_route_rate zero add_rates g route = Some t" and "fee t k = Some f"
  shows "\<exists>xs. list_all2 (\<lambda>i y. \<exists>e. get_edge g (route ! i) (route ! (i + 1)) = Some e
            \<and> fee (ce_rate (edge_capacity_edge e)) k = Some y) [0..<length route - 2] xs
       \<and> sum_list (map uint xs) \<le> uint f \<and> uint f \<le> sum_list (map uint xs) + int (length route - 2)"
  using loop_fee [of g route "[0..<length route - 2]" zero t k f] assms fee_zero
  by (auto simp: get_route_rate_def split: if_splits)

end

lemma div_sum_bounds:
  fixes u v d :: int
  assumes "0 < d"
  shows "u div d + v div d \<le> (u + v) div d" and "(u + v) div d \<le> u div d + v div d + 1"
proof -
  have "u = u div d * d + u mod d" "v = v div d * d + v mod d" by simp_all
  then have "(u + v) div d = (u mod d + v mod d + (u div d + v div d) * d) div d" by (simp add: algebra_simps)
  also have "\<dots> = u div d + v div d + (u mod d + v mod d) div d" using assms by simp
  finally have eq: "(u + v) div d = u div d + v div d + (u mod d + v mod d) div d" .
  have m: "0 \<le> u mod d" "u mod d < d" "0 \<le> v mod d" "v mod d < d" using assms by simp_all
  then have "0 \<le> (u mod d + v mod d) div d" using assms by (simp add: pos_imp_zdiv_nonneg_iff)
  moreover have "(u mod d + v mod d) div d < 2" proof -
    have "(u mod d + v mod d) div d * d < 2 * d" using int_div_bounds(1) [OF assms, of "u mod d + v mod d"] m by linarith
    then show ?thesis using assms by simp
  qed
  ultimately show "u div d + v div d \<le> (u + v) div d" "(u + v) div d \<le> u div d + v div d + 1"
    unfolding eq by simp_all
qed

lemma rate_fee_add:
  assumes add: "rate_checked_add r s = Some t" and fee: "calc_fee t k = Some f"
  shows "\<exists>x y. calc_fee r k = Some x \<and> calc_fee s k = Some y
    \<and> uint x + uint y \<le> uint f \<and> uint f \<le> uint x + uint y + 1"
proof -
  let ?q = "\<lambda>r. uint k * uint (rate_mul r) div 2 ^ 32 + uint (rate_add r)"
  have t: "uint (rate_mul t) = uint (rate_mul r) + uint (rate_mul s)"
      "uint (rate_add t) = uint (rate_add r) + uint (rate_add s)"
    using add by (auto simp: rate_checked_add_def arith_facts split: option.splits)
  have f: "uint f = ?q t" using fee by (simp add: calc_fee_Some)
  have q: "?q r + ?q s \<le> ?q t" "?q t \<le> ?q r + ?q s + 1"
    using div_sum_bounds [of "2 ^ 32" "uint k * uint (rate_mul r)" "uint k * uint (rate_mul s)"]
    by (simp_all add: t distrib_left)
  have pos: "0 \<le> ?q r" "0 \<le> ?q s" by (simp_all add: pos_imp_zdiv_nonneg_iff)
  have lt: "?q t < 2 ^ LENGTH(128)" unfolding f [symmetric] by (rule uint_lt2p)
  have fits: "\<exists>x. calc_fee u k = Some x \<and> uint x = ?q u" if "?q u \<le> ?q t" "0 \<le> ?q u" for u
  proof -
    have "u_fits TYPE(128) (?q u)" using that lt by (simp add: u_fits_def)
    then have "calc_fee u k \<noteq> None" by (simp add: calc_fee_def to_u128_def)
    then obtain x where x: "calc_fee u k = Some x" by blast
    with calc_fee_Some [of u k x] show ?thesis by (intro exI [of _ x]) simp
  qed
  have "?q r \<le> ?q t" "?q s \<le> ?q t" using q(1) pos by linarith+
  with fits pos obtain x y where "calc_fee r k = Some x" "uint x = ?q r" "calc_fee s k = Some y" "uint y = ?q s"
    by blast
  then show ?thesis unfolding f using q by (intro exI [of _ x] exI [of _ y]) (simp only: simp_thms)
qed

interpretation rates: linear_rate rate_zero calc_fee rate_checked_add
proof
  show "calc_fee rate_zero k = Some 0" for k by (simp add: calc_fee_Some rate_zero_def)
qed (rule rate_fee_add)

text \<open>
  The rate announced with a route charges for any payment at least the sum of the fees that
  the rates on its edges (all but the last) charge for it, and more by less than one credit
  for every edge, because of rounding.
\<close>

theorem route_rate_covers_hops:
  assumes "get_route_rate rate_zero rate_checked_add g route = Some t" and "calc_fee t k = Some f"
  shows "\<exists>fees. list_all2 (\<lambda>i y. \<exists>e. get_edge g (route ! i) (route ! (i + 1)) = Some e
            \<and> calc_fee (ce_rate (edge_capacity_edge e)) k = Some y) [0..<length route - 2] fees
       \<and> sum_list (map uint fees) \<le> uint f \<and> uint f \<le> sum_list (map uint fees) + int (length route - 2)"
  by (rule rates.route_fee [OF assms])

lemma example_graph_rate:
  "get_route_rate rate_zero rate_checked_add example_graph [1, 2, 3, 4] = Some \<lparr> rate_mul = 0, rate_add = 4 \<rparr>"
  by code_simp

theorem route_rate_covers_hops_witness:
  "\<exists>fees :: u128 list. length fees = 2 \<and> sum_list (map uint fees) \<le> 4 \<and> 4 \<le> sum_list (map uint fees) + 2"
proof -
  have fee: "calc_fee \<lparr> rate_mul = 0, rate_add = 4 \<rparr> 1000 = Some 4" by (simp add: calc_fee_Some)
  from route_rate_covers_hops [OF example_graph_rate fee] obtain fees :: "u128 list"
    where "length [0..<length [1 :: nat, 2, 3, 4] - 2] = length fees" "sum_list (map uint fees) \<le> 4"
      "4 \<le> sum_list (map uint fees) + 2"
    by (auto dest: list_all2_lengthD)
  then show ?thesis by (intro exI [of _ fees]) simp
qed

text \<open>
  For a route over one intermediate node \<open>x\<close>, the announced rate is the one that the
  sender \<open>a\<close> announced for its edge to \<open>x\<close>. It does not depend on what \<open>x\<close> announced for its
  edge to \<open>a\<close>, although that is the rate \<open>x\<close> charges for payments it forwards from \<open>a\<close>.
\<close>

theorem route_rate_is_senders_rate:
  assumes "get_edge g a x = Some e" and "a \<noteq> x" and "rate_checked_add rate_zero (ce_rate (edge_capacity_edge e)) = Some r"
  shows "get_route_rate rate_zero rate_checked_add (snd (update_edge g x a (capacity_edge_new caps r'))) [a, x, b] = Some r"
proof -
  have "get_edge (snd (update_edge g x a (capacity_edge_new caps r'))) a x = Some e"
    using assms(1,2) update_edge_view [of g x a] by (simp add: edge_view_def fun_eq_iff)
  then show ?thesis using assms(3) by (simp add: get_route_rate_def)
qed

theorem route_rate_is_senders_rate_witness:
  "get_route_rate rate_zero rate_checked_add
     (snd (update_edge example_pair 2 1 (capacity_edge_new (9, 9) \<lparr> rate_mul = 0, rate_add = 1000 \<rparr>))) [1, 2, 3]
   = Some \<lparr> rate_mul = 0, rate_add = 1 \<rparr>"
proof (rule route_rate_is_senders_rate)
  show "get_edge example_pair 1 2 = Some (edge_new (example_edge 30 10 1))"
    using example_pair_edges by (simp add: edge_view_def fun_eq_iff)
qed (simp, code_simp)

end
