(* ===== verification/Verifier.thy ===== *)
theory Verifier
  imports SignatureBuff
begin

text \<open>
  Freshness of messages in the index server: the hash clock (\<open>verifier/hash_clock.rs\<close>), the
  ratchets (\<open>verifier/ratchet.rs\<close>) and the verifier that combines them
  (\<open>verifier/simple_verifier.rs\<close>). The trait of \<open>verifier/verifier.rs\<close> is the locale
  \<open>verifier_contract\<close>. The random value of a tick is an argument.
\<close>

section \<open>The hash clock\<close>

definition HASH_CLOCK_PREFIX :: bytes where
  "HASH_CLOCK_PREFIX = ascii ''HASH_CLOCK''"

record 'b hash_clock =
  hc_neighbor_hashes :: "('b, hash_result) hmap"
  hc_last_ticks_max_len :: nat
  hc_last_ticks :: "hash_result list"
  hc_last_ticks_map :: "(hash_result, hash_result list) hmap"

definition hash_hashes :: "crypto_api \<Rightarrow> hash_result list \<Rightarrow> hash_result" where
  "hash_hashes C hashes = sha_512_256 C (sha_512_256 C HASH_CLOCK_PREFIX @ concat hashes)"

definition hash_clock_new :: "nat \<Rightarrow> ('b hash_clock, unit) res" where
  "hash_clock_new max_len =
     (if max_len > 0 then
        Ok \<lparr> hc_neighbor_hashes = [], hc_last_ticks_max_len = max_len, hc_last_ticks = [], hc_last_ticks_map = [] \<rparr>
      else Panic)"

definition insert_tick_hash :: "hash_result \<Rightarrow> hash_result list \<Rightarrow> 'b hash_clock \<Rightarrow> ('b hash_clock, unit) res" where
  "insert_tick_hash tick_hash expansion hc =
     (if \<not> hc_last_ticks_max_len hc > 0 then Panic
      else
        (let hc1 = hc\<lparr> hc_last_ticks := hc_last_ticks hc @ [tick_hash] \<rparr>;
             hc2 = (if length (hc_last_ticks hc1) > hc_last_ticks_max_len hc1 then
                      hc1\<lparr> hc_last_ticks := tl (hc_last_ticks hc1),
                           hc_last_ticks_map := hm_remove (hd (hc_last_ticks hc1)) (hc_last_ticks_map hc1) \<rparr>
                    else hc1)
         in if \<not> length (hc_last_ticks hc2) \<le> hc_last_ticks_max_len hc2 then Panic
            else Ok (hc2\<lparr> hc_last_ticks_map := hm_insert tick_hash expansion (hc_last_ticks_map hc2) \<rparr>)))"

definition clock_neighbor_tick :: "'b \<Rightarrow> hash_result \<Rightarrow> 'b hash_clock \<Rightarrow> hash_result option \<times> 'b hash_clock" where
  "clock_neighbor_tick neighbor tick_hash hc =
     (hm_get (hc_neighbor_hashes hc) neighbor,
      hc\<lparr> hc_neighbor_hashes := hm_insert neighbor tick_hash (hc_neighbor_hashes hc) \<rparr>)"

definition clock_remove_neighbor :: "'b \<Rightarrow> 'b hash_clock \<Rightarrow> hash_result option \<times> 'b hash_clock" where
  "clock_remove_neighbor neighbor hc =
     (hm_get (hc_neighbor_hashes hc) neighbor,
      hc\<lparr> hc_neighbor_hashes := hm_remove neighbor (hc_neighbor_hashes hc) \<rparr>)"

definition clock_tick :: "crypto_api \<Rightarrow> bytes \<Rightarrow> 'b hash_clock \<Rightarrow> (hash_result \<times> 'b hash_clock, unit) res" where
  "clock_tick C rand_value hc =
     (let hashed_rand_value = sha_512_256 C rand_value;
          expansion = hashed_rand_value # map snd (hc_neighbor_hashes hc);
          tick_hash = hash_hashes C expansion
      in res_bind (insert_tick_hash tick_hash expansion hc) (\<lambda>hc'. Ok (tick_hash, hc')))"

definition get_expansion :: "'b hash_clock \<Rightarrow> hash_result \<Rightarrow> hash_result list option" where
  "get_expansion hc tick_hash = hm_get (hc_last_ticks_map hc) tick_hash"

text \<open>The extended chain starts with the list of the origin hash alone.\<close>

definition verify_expansion_chain ::
  "crypto_api \<Rightarrow> 'b hash_clock \<Rightarrow> hash_result \<Rightarrow> hash_result list list \<Rightarrow> hash_result option" where
  "verify_expansion_chain C hc origin_tick_hash expansion_chain =
     (let ex_expansion_chain = [origin_tick_hash] # expansion_chain;
          hash_res = map (hash_hashes C) expansion_chain
      in if list_all (\<lambda>i. hash_res ! i \<in> set (ex_expansion_chain ! i)) [0..<length hash_res] then
           find (\<lambda>hash. hm_contains (hc_last_ticks_map hc) hash) (last ex_expansion_chain)
         else None)"

definition get_neighbor_hash :: "'b hash_clock \<Rightarrow> 'b \<Rightarrow> hash_result option" where
  "get_neighbor_hash hc neighbor = hm_get (hc_neighbor_hashes hc) neighbor"

section \<open>Ratchets\<close>

record 'u ratchet =
  rt_session_id :: 'u
  rt_counter :: u64
  rt_ticks_to_live :: nat
  rt_cur_ticks_to_live :: nat

definition ratchet_new :: "'u \<Rightarrow> u64 \<Rightarrow> nat \<Rightarrow> 'u ratchet" where
  "ratchet_new session_id counter ticks_to_live =
     \<lparr> rt_session_id = session_id, rt_counter = counter, rt_ticks_to_live = ticks_to_live,
       rt_cur_ticks_to_live = ticks_to_live \<rparr>"

definition inner_update :: "'u \<Rightarrow> u64 \<Rightarrow> 'u ratchet \<Rightarrow> bool \<times> 'u ratchet" where
  "inner_update session_id counter r =
     (if rt_session_id r \<noteq> session_id then (True, r\<lparr> rt_session_id := session_id, rt_counter := counter \<rparr>)
      else if rt_counter r < counter then (True, r\<lparr> rt_counter := counter \<rparr>)
      else (False, r))"

definition ratchet_update :: "'u \<Rightarrow> u64 \<Rightarrow> 'u ratchet \<Rightarrow> bool \<times> 'u ratchet" where
  "ratchet_update session_id counter r =
     (case inner_update session_id counter r of
        (moved, r') \<Rightarrow>
          if \<not> moved then (False, r')
          else (True, r'\<lparr> rt_cur_ticks_to_live := rt_ticks_to_live r' \<rparr>))"

definition ratchet_tick :: "'u ratchet \<Rightarrow> nat \<times> 'u ratchet" where
  "ratchet_tick r =
     (let cur = rt_cur_ticks_to_live r - 1 in (cur, r\<lparr> rt_cur_ticks_to_live := cur \<rparr>))"

record ('n, 'u) ratchet_pool =
  rp_ratchets :: "('n, 'u ratchet) hmap"
  rp_ratchet_ticks_to_live :: nat

definition ratchet_pool_new :: "nat \<Rightarrow> ('n, 'u) ratchet_pool" where
  "ratchet_pool_new ticks_to_live = \<lparr> rp_ratchets = [], rp_ratchet_ticks_to_live = ticks_to_live \<rparr>"

definition ratchet_pool_tick :: "('n, 'u) ratchet_pool \<Rightarrow> 'n list \<times> ('n, 'u) ratchet_pool" where
  "ratchet_pool_tick rp =
     (let ratchets' = hm_map_values (\<lambda>r. snd (ratchet_tick r)) (rp_ratchets rp);
          removed_nodes = map fst (filter (\<lambda>(node, r). fst (ratchet_tick r) = 0) (rp_ratchets rp))
      in (removed_nodes, rp\<lparr> rp_ratchets := fold hm_remove removed_nodes ratchets' \<rparr>))"

definition ratchet_pool_update :: "'n \<Rightarrow> 'u \<Rightarrow> u64 \<Rightarrow> ('n, 'u) ratchet_pool \<Rightarrow> bool \<times> ('n, 'u) ratchet_pool" where
  "ratchet_pool_update node session_id counter rp =
     (case hm_get (rp_ratchets rp) node of
        None \<Rightarrow>
          (True, rp\<lparr> rp_ratchets :=
             hm_insert node (ratchet_new session_id counter (rp_ratchet_ticks_to_live rp)) (rp_ratchets rp) \<rparr>)
      | Some r \<Rightarrow>
          (case ratchet_update session_id counter r of
             (moved, r') \<Rightarrow> (moved, rp\<lparr> rp_ratchets := hm_insert node r' (rp_ratchets rp) \<rparr>)))"

section \<open>The verifier\<close>

record ('n, 'b, 'u) simple_verifier =
  sv_hash_clock :: "'b hash_clock"
  sv_ratchet_pool :: "('n, 'u) ratchet_pool"

definition simple_verifier_new :: "nat \<Rightarrow> (('n, 'b, 'u) simple_verifier, unit) res" where
  "simple_verifier_new ticks_to_live =
     (if ticks_to_live > 0 then
        res_bind (hash_clock_new ticks_to_live) (\<lambda>hc.
          Ok \<lparr> sv_hash_clock = hc, sv_ratchet_pool = ratchet_pool_new ticks_to_live \<rparr>)
      else Panic)"

definition verifier_verify ::
  "crypto_api \<Rightarrow> hash_result \<Rightarrow> hash_result list list \<Rightarrow> 'n \<Rightarrow> 'u \<Rightarrow> u64 \<Rightarrow> ('n, 'b, 'u) simple_verifier
    \<Rightarrow> (hash_result list option \<times> ('n, 'b, 'u) simple_verifier, unit) res" where
  "verifier_verify C origin_tick_hash expansion_chain node session_id counter v =
     (case verify_expansion_chain C (sv_hash_clock v) origin_tick_hash expansion_chain of
        None \<Rightarrow> Ok (None, v)
      | Some tick_hash \<Rightarrow>
          (case ratchet_pool_update node session_id counter (sv_ratchet_pool v) of
             (moved, rp') \<Rightarrow>
               (let v' = v\<lparr> sv_ratchet_pool := rp' \<rparr> in
                if \<not> moved then Ok (None, v')
                else res_bind (unwrap (get_expansion (sv_hash_clock v') tick_hash)) (\<lambda>hashes.
                       Ok (Some hashes, v')))))"

definition verifier_tick ::
  "crypto_api \<Rightarrow> bytes \<Rightarrow> ('n, 'b, 'u) simple_verifier
    \<Rightarrow> ((hash_result \<times> 'n list) \<times> ('n, 'b, 'u) simple_verifier, unit) res" where
  "verifier_tick C rand_value v =
     res_bind (clock_tick C rand_value (sv_hash_clock v)) (\<lambda>(tick_hash, hc').
       (case ratchet_pool_tick (sv_ratchet_pool v) of
          (removed_nodes, rp') \<Rightarrow> Ok ((tick_hash, removed_nodes), \<lparr> sv_hash_clock = hc', sv_ratchet_pool = rp' \<rparr>)))"

definition verifier_neighbor_tick ::
  "'b \<Rightarrow> hash_result \<Rightarrow> ('n, 'b, 'u) simple_verifier \<Rightarrow> hash_result option \<times> ('n, 'b, 'u) simple_verifier" where
  "verifier_neighbor_tick neighbor tick_hash v =
     (case clock_neighbor_tick neighbor tick_hash (sv_hash_clock v) of
        (old, hc') \<Rightarrow> (old, v\<lparr> sv_hash_clock := hc' \<rparr>))"

definition verifier_remove_neighbor ::
  "'b \<Rightarrow> ('n, 'b, 'u) simple_verifier \<Rightarrow> hash_result option \<times> ('n, 'b, 'u) simple_verifier" where
  "verifier_remove_neighbor neighbor v =
     (case clock_remove_neighbor neighbor (sv_hash_clock v) of
        (old, hc') \<Rightarrow> (old, v\<lparr> sv_hash_clock := hc' \<rparr>))"

section \<open>Invariants\<close>

definition clock_ok :: "'b hash_clock \<Rightarrow> bool" where
  "clock_ok hc \<longleftrightarrow> hc_last_ticks_max_len hc > 0 \<and> length (hc_last_ticks hc) \<le> hc_last_ticks_max_len hc
     \<and> (\<forall>h. hm_contains (hc_last_ticks_map hc) h \<longrightarrow> h \<in> set (hc_last_ticks hc))"

definition pool_ok :: "('n, 'u) ratchet_pool \<Rightarrow> bool" where
  "pool_ok rp \<longleftrightarrow> hm_ok (rp_ratchets rp)
     \<and> (\<forall>node r. hm_get (rp_ratchets rp) node = Some r \<longrightarrow>
          rt_ticks_to_live r = rp_ratchet_ticks_to_live rp \<and> 0 < rt_cur_ticks_to_live r)"

definition verifier_ok :: "('n, 'b, 'u) simple_verifier \<Rightarrow> bool" where
  "verifier_ok v \<longleftrightarrow> clock_ok (sv_hash_clock v) \<and> pool_ok (sv_ratchet_pool v)
     \<and> rp_ratchet_ticks_to_live (sv_ratchet_pool v) = hc_last_ticks_max_len (sv_hash_clock v)"

text \<open>A tick: the clock keeps the last hashes it produced, newest last.\<close>

lemma clock_tick_Ok:
  assumes "clock_ok hc"
  shows "\<exists>h hc'. clock_tick C rand hc = Ok (h, hc') \<and> clock_ok hc'
    \<and> h = hash_hashes C (sha_512_256 C rand # map snd (hc_neighbor_hashes hc))
    \<and> hc_last_ticks hc' = (let ts = hc_last_ticks hc @ [h] in if hc_last_ticks_max_len hc < length ts then tl ts else ts)
    \<and> get_expansion hc' h = Some (sha_512_256 C rand # map snd (hc_neighbor_hashes hc))
    \<and> hc_last_ticks_max_len hc' = hc_last_ticks_max_len hc \<and> hc_neighbor_hashes hc' = hc_neighbor_hashes hc"
  using assms
  by (cases "hc_last_ticks hc")
     (auto simp: clock_ok_def clock_tick_def insert_tick_hash_def Let_def get_expansion_def hm_contains_def hm_simps)

lemma verify_chain_Some:
  assumes "verify_expansion_chain C hc origin chain = Some h"
  shows "h \<in> set (last ([origin] # chain))" and "hm_contains (hc_last_ticks_map hc) h"
    and "\<forall>i < length chain. hash_hashes C (chain ! i) \<in> set (([origin] # chain) ! i)"
  using assms by (auto simp: verify_expansion_chain_def find_Some_iff list_all_iff Let_def split: if_splits)

lemma chain_result_recent:
  "clock_ok hc \<Longrightarrow> verify_expansion_chain C hc origin chain = Some h \<Longrightarrow> h \<in> set (hc_last_ticks hc)"
  using verify_chain_Some(2) [of C hc origin chain h] by (auto simp: clock_ok_def)

lemma fold_hm_remove_get: "hm_get (fold hm_remove ks m) k = (if k \<in> set ks then None else hm_get m k)"
  by (induction ks arbitrary: m) (auto simp: hm_get_remove)

lemma fold_hm_remove_ok: "hm_ok m \<Longrightarrow> hm_ok (fold hm_remove ks m)"
  by (induction ks arbitrary: m) auto

text \<open>A tick of the pool removes the ratchets in their last tick and ages the others.\<close>

lemma pool_tick_removed:
  assumes "hm_ok (rp_ratchets rp)"
  shows "node \<in> set (fst (ratchet_pool_tick rp)) \<longleftrightarrow>
    (\<exists>r. hm_get (rp_ratchets rp) node = Some r \<and> rt_cur_ticks_to_live r \<le> 1)"
  using assms by (force simp: ratchet_pool_tick_def ratchet_tick_def Let_def hm_ok_def hm_get_def)

lemma pool_tick_get:
  assumes "hm_ok (rp_ratchets rp)"
  shows "hm_get (rp_ratchets (snd (ratchet_pool_tick rp))) node =
    Option.bind (hm_get (rp_ratchets rp) node) (\<lambda>r. if rt_cur_ticks_to_live r \<le> 1 then None
      else Some (r\<lparr> rt_cur_ticks_to_live := rt_cur_ticks_to_live r - 1 \<rparr>))"
proof -
  have "hm_get (rp_ratchets (snd (ratchet_pool_tick rp))) node =
      (if node \<in> set (fst (ratchet_pool_tick rp)) then None
       else map_option (\<lambda>r. snd (ratchet_tick r)) (hm_get (rp_ratchets rp) node))"
    by (simp add: ratchet_pool_tick_def Let_def fold_hm_remove_get hm_simps)
  then show ?thesis unfolding pool_tick_removed [OF assms]
    by (cases "hm_get (rp_ratchets rp) node") (auto simp: ratchet_tick_def Let_def)
qed

lemma pool_tick_keeps:
  "rp_ratchet_ticks_to_live (snd (ratchet_pool_tick rp)) = rp_ratchet_ticks_to_live rp"
  "hm_ok (rp_ratchets rp) \<Longrightarrow> hm_ok (rp_ratchets (snd (ratchet_pool_tick rp)))"
  by (simp_all add: ratchet_pool_tick_def Let_def fold_hm_remove_ok)

lemma pool_tick_ok: "pool_ok rp \<Longrightarrow> pool_ok (snd (ratchet_pool_tick rp))"
  unfolding pool_ok_def
  by (auto simp: pool_tick_get pool_tick_keeps split: bind_splits if_splits)

lemma pool_update_ok:
  "pool_ok rp \<Longrightarrow> 0 < rp_ratchet_ticks_to_live rp \<Longrightarrow> pool_ok (snd (ratchet_pool_update node sid c rp))"
  unfolding pool_ok_def
  by (auto simp: ratchet_pool_update_def ratchet_update_def inner_update_def ratchet_new_def hm_simps
      split: option.splits if_splits)

lemma pool_update_keeps:
  "rp_ratchet_ticks_to_live (snd (ratchet_pool_update node sid c rp)) = rp_ratchet_ticks_to_live rp"
  "node' \<noteq> node \<Longrightarrow> hm_get (rp_ratchets (snd (ratchet_pool_update node sid c rp))) node' = hm_get (rp_ratchets rp) node'"
  "hm_contains (rp_ratchets (snd (ratchet_pool_update node sid c rp))) node"
  by (auto simp: ratchet_pool_update_def hm_contains_def hm_simps split: option.splits prod.splits)

lemma verify_returns:
  assumes "verifier_ok v"
  shows "\<exists>result v'. verifier_verify C origin chain node sid c v = Ok (result, v') \<and> verifier_ok v'
    \<and> sv_hash_clock v' = sv_hash_clock v
    \<and> (v' = v \<and> result = None \<or> sv_ratchet_pool v' = snd (ratchet_pool_update node sid c (sv_ratchet_pool v))
        \<and> (result \<noteq> None \<longleftrightarrow> fst (ratchet_pool_update node sid c (sv_ratchet_pool v))))
    \<and> (result \<noteq> None \<longrightarrow> verify_expansion_chain C (sv_hash_clock v) origin chain \<noteq> None)"
proof (cases "verify_expansion_chain C (sv_hash_clock v) origin chain")
  case None
  then show ?thesis using assms by (simp add: verifier_verify_def)
next
  case (Some h)
  have len: "0 < rp_ratchet_ticks_to_live (sv_ratchet_pool v)" using assms by (simp add: verifier_ok_def clock_ok_def)
  obtain hashes where h: "get_expansion (sv_hash_clock v) h = Some hashes"
    using verify_chain_Some(2) [OF Some] by (auto simp: hm_contains_def get_expansion_def)
  obtain moved rp' where rp': "ratchet_pool_update node sid c (sv_ratchet_pool v) = (moved, rp')" by fastforce
  have "pool_ok rp'" "rp_ratchet_ticks_to_live rp' = rp_ratchet_ticks_to_live (sv_ratchet_pool v)"
    using pool_update_ok [OF _ len, of node sid c] pool_update_keeps(1) [of node sid c "sv_ratchet_pool v"] assms rp'
    by (simp_all add: verifier_ok_def)
  then have "verifier_ok (v\<lparr> sv_ratchet_pool := rp' \<rparr>)" using assms by (simp add: verifier_ok_def)
  then show ?thesis using Some h rp' by (cases moved) (simp_all add: verifier_verify_def Let_def)
qed

lemma tick_returns:
  assumes "verifier_ok v"
  shows "\<exists>h v'. verifier_tick C rand v = Ok ((h, fst (ratchet_pool_tick (sv_ratchet_pool v))), v') \<and> verifier_ok v'
    \<and> clock_tick C rand (sv_hash_clock v) = Ok (h, sv_hash_clock v')
    \<and> sv_ratchet_pool v' = snd (ratchet_pool_tick (sv_ratchet_pool v))"
proof -
  have ok: "clock_ok (sv_hash_clock v)" using assms by (simp add: verifier_ok_def)
  obtain h hc' where hc': "clock_tick C rand (sv_hash_clock v) = Ok (h, hc')" "clock_ok hc'"
      "hc_last_ticks_max_len hc' = hc_last_ticks_max_len (sv_hash_clock v)"
    using clock_tick_Ok [OF ok, of C rand] by blast
  then show ?thesis
    using assms pool_tick_ok [of "sv_ratchet_pool v"] pool_tick_keeps(1) [of "sv_ratchet_pool v"]
    by (auto simp: verifier_tick_def verifier_ok_def split: prod.splits)
qed

lemma neighbor_ops_keep:
  "verifier_ok v \<Longrightarrow> verifier_ok (snd (verifier_neighbor_tick b h v))"
  "verifier_ok v \<Longrightarrow> verifier_ok (snd (verifier_remove_neighbor b v))"
  "sv_ratchet_pool (snd (verifier_neighbor_tick b h v)) = sv_ratchet_pool v"
  "sv_ratchet_pool (snd (verifier_remove_neighbor b v)) = sv_ratchet_pool v"
  "hc_last_ticks (sv_hash_clock (snd (verifier_neighbor_tick b h v))) = hc_last_ticks (sv_hash_clock v)"
  "hc_last_ticks (sv_hash_clock (snd (verifier_remove_neighbor b v))) = hc_last_ticks (sv_hash_clock v)"
  "hc_last_ticks_max_len (sv_hash_clock (snd (verifier_neighbor_tick b h v))) = hc_last_ticks_max_len (sv_hash_clock v)"
  "hc_last_ticks_max_len (sv_hash_clock (snd (verifier_remove_neighbor b v))) = hc_last_ticks_max_len (sv_hash_clock v)"
  by (simp_all add: verifier_neighbor_tick_def verifier_remove_neighbor_def clock_neighbor_tick_def
      clock_remove_neighbor_def verifier_ok_def clock_ok_def)

lemma verifier_new_ok: "simple_verifier_new n = Ok v \<Longrightarrow> verifier_ok v"
  by (auto simp: simple_verifier_new_def hash_clock_new_def ratchet_pool_new_def verifier_ok_def clock_ok_def
      pool_ok_def hm_contains_def split: if_splits)

section \<open>Runs of a verifier\<close>

datatype ('n, 'b, 'u) verifier_op =
    VVerify hash_result "hash_result list list" 'n 'u u64
  | VTick bytes
  | VNeighborTick 'b hash_result
  | VRemoveNeighbor 'b

text \<open>The tick hashes made during a run, and the state after it.\<close>

fun verifier_run ::
  "crypto_api \<Rightarrow> ('n, 'b, 'u) verifier_op list \<Rightarrow> ('n, 'b, 'u) simple_verifier
    \<Rightarrow> (hash_result list \<times> ('n, 'b, 'u) simple_verifier, unit) res" where
  "verifier_run C [] v = Ok ([], v)"
| "verifier_run C (VVerify origin chain node sid c # ops) v =
     res_bind (verifier_verify C origin chain node sid c v) (\<lambda>(result, v'). verifier_run C ops v')"
| "verifier_run C (VTick rand # ops) v =
     res_bind (verifier_tick C rand v) (\<lambda>((h, removed), v').
       res_bind (verifier_run C ops v') (\<lambda>(hs, v''). Ok (h # hs, v'')))"
| "verifier_run C (VNeighborTick b h # ops) v = verifier_run C ops (snd (verifier_neighbor_tick b h v))"
| "verifier_run C (VRemoveNeighbor b # ops) v = verifier_run C ops (snd (verifier_remove_neighbor b v))"

text \<open>The hashes a clock still knows are a suffix of all it made.\<close>

lemma tick_suffix:
  assumes "clock_ok hc" and "clock_tick C rand hc = Ok (h, hc')"
  shows "\<exists>p. p @ hc_last_ticks hc' = hc_last_ticks hc @ [h]"
    and "hc_last_ticks_max_len hc' = hc_last_ticks_max_len hc"
  using clock_tick_Ok [OF assms(1), of C rand] assms(2)
  by (cases "hc_last_ticks hc"; auto simp: Let_def intro: exI [of _ "[]"] exI [of _ "[x]" for x])+

text \<open>
  The ratchet of a node holds a session at a counter of at least \<open>c\<close> and will not expire during
  the next \<open>k - 1\<close> ticks.
\<close>

definition guards :: "'n \<Rightarrow> 'u \<Rightarrow> u64 \<Rightarrow> nat \<Rightarrow> ('n, 'u) ratchet_pool \<Rightarrow> bool" where
  "guards node sid c k rp \<longleftrightarrow> (\<exists>r. hm_get (rp_ratchets rp) node = Some r \<and> rt_session_id r = sid
     \<and> c \<le> rt_counter r \<and> k \<le> rt_cur_ticks_to_live r)"

lemma guards_tick: "hm_ok (rp_ratchets rp) \<Longrightarrow> guards node sid c (Suc k) rp \<Longrightarrow> 0 < k
    \<Longrightarrow> guards node sid c k (snd (ratchet_pool_tick rp))"
  by (auto simp: guards_def pool_tick_get)

lemma guards_update:
  assumes "pool_ok rp" and "guards node sid c k rp" and "k \<le> rp_ratchet_ticks_to_live rp" and "node' = node \<longrightarrow> sid' = sid"
  shows "guards node sid c k (snd (ratchet_pool_update node' sid' c' rp))"
proof (cases "node' = node")
  case True
  then show ?thesis using assms
    by (auto simp: guards_def pool_ok_def ratchet_pool_update_def ratchet_update_def inner_update_def hm_simps)
qed (use assms(2) in \<open>auto simp: guards_def pool_update_keeps\<close>)

lemma guards_rejects: "guards node sid c k rp \<Longrightarrow> c' \<le> c \<Longrightarrow> \<not> fst (ratchet_pool_update node sid c' rp)"
  by (auto simp: guards_def ratchet_pool_update_def ratchet_update_def inner_update_def split: if_splits)

lemma accepted_guards:
  "pool_ok rp \<Longrightarrow> fst (ratchet_pool_update node sid c rp) \<Longrightarrow>
     guards node sid c (rp_ratchet_ticks_to_live rp) (snd (ratchet_pool_update node sid c rp))"
  by (auto simp: guards_def pool_ok_def ratchet_pool_update_def ratchet_update_def inner_update_def ratchet_new_def hm_simps
      split: option.splits if_splits)

text \<open>A run by others, or by the node within one session.\<close>

fun same_session :: "'n \<Rightarrow> 'u \<Rightarrow> ('n, 'b, 'u) verifier_op \<Rightarrow> bool" where
  "same_session node sid (VVerify origin chain node' sid' c) = (node' = node \<longrightarrow> sid' = sid)"
| "same_session node sid (VTick rand) = True"
| "same_session node sid (VNeighborTick b h) = True"
| "same_session node sid (VRemoveNeighbor b) = True"

lemma run_keeps:
  assumes "verifier_ok v" and "verifier_run C ops v = Ok (hs, v')"
  shows "verifier_ok v'" and "\<exists>p. p @ hc_last_ticks (sv_hash_clock v') = hc_last_ticks (sv_hash_clock v) @ hs"
proof -
  have "verifier_ok v' \<and> (\<exists>p. p @ hc_last_ticks (sv_hash_clock v') = hc_last_ticks (sv_hash_clock v) @ hs)"
    using assms
  proof (induction C ops v arbitrary: hs rule: verifier_run.induct)
    case (2 C origin chain node sid c ops v)
    obtain result v1 where "verifier_verify C origin chain node sid c v = Ok (result, v1)" "verifier_ok v1"
        "sv_hash_clock v1 = sv_hash_clock v"
      using verify_returns [OF 2(2), of C origin chain node sid c] by blast
    with 2(1) [of v1] 2(3) show ?case by simp
  next
    case (3 C rand ops v)
    obtain h removed v1 where tick: "verifier_tick C rand v = Ok ((h, removed), v1)" "verifier_ok v1"
        "clock_tick C rand (sv_hash_clock v) = Ok (h, sv_hash_clock v1)"
      using tick_returns [OF 3(2), of C rand] by blast
    then obtain hs' where hs': "verifier_run C ops v1 = Ok (hs', v')" "hs = h # hs'"
      using 3(3) by (auto simp: res_bind_Ok)
    obtain p where p: "p @ hc_last_ticks (sv_hash_clock v1) = hc_last_ticks (sv_hash_clock v) @ [h]"
      using tick_suffix(1) [OF _ tick(3)] 3(2) by (auto simp: verifier_ok_def)
    obtain q where q: "verifier_ok v'" "q @ hc_last_ticks (sv_hash_clock v') = hc_last_ticks (sv_hash_clock v1) @ hs'"
      using 3(1) [OF tick(2) hs'(1)] by blast
    have "(p @ q) @ hc_last_ticks (sv_hash_clock v') = hc_last_ticks (sv_hash_clock v) @ hs"
      using q(2) arg_cong [OF p, of "\<lambda>xs. xs @ hs'"] hs'(2) by simp
    then show ?case using q(1) by blast
  qed (auto simp: neighbor_ops_keep)
  then show "verifier_ok v'" "\<exists>p. p @ hc_last_ticks (sv_hash_clock v') = hc_last_ticks (sv_hash_clock v) @ hs"
    by blast+
qed

lemma suffix_long_enough:
  "p @ xs = ys @ hs \<Longrightarrow> x \<in> set xs \<Longrightarrow> x \<notin> set hs \<Longrightarrow> length xs \<le> n \<Longrightarrow> length hs < n"
proof (rule ccontr)
  assume eq: "p @ xs = ys @ hs" and x: "x \<in> set xs" "x \<notin> set hs" and len: "length xs \<le> n" "\<not> length hs < n"
  then have "length xs \<le> length hs" by simp
  with eq have "set xs \<subseteq> set hs" by (auto simp: append_eq_append_conv2)
  with x show False by blast
qed

lemma run_max_len:
  "verifier_ok v \<Longrightarrow> verifier_run C ops v = Ok (hs, v') \<Longrightarrow>
     hc_last_ticks_max_len (sv_hash_clock v') = hc_last_ticks_max_len (sv_hash_clock v)"
proof (induction C ops v arbitrary: hs rule: verifier_run.induct)
  case (2 C origin chain node sid c ops v)
  then show ?case using verify_returns [OF 2(2), of C origin chain node sid c] by auto
next
  case (3 C rand ops v)
  obtain h removed v1 where tick: "verifier_tick C rand v = Ok ((h, removed), v1)" "verifier_ok v1"
      "clock_tick C rand (sv_hash_clock v) = Ok (h, sv_hash_clock v1)"
    using tick_returns [OF 3(2), of C rand] by blast
  moreover have "hc_last_ticks_max_len (sv_hash_clock v1) = hc_last_ticks_max_len (sv_hash_clock v)"
    using tick_suffix(2) [OF _ tick(3)] 3(2) by (simp add: verifier_ok_def)
  ultimately show ?case using 3(1) [OF tick(2)] 3(3) by (auto simp: res_bind_Ok)
qed (auto simp: neighbor_ops_keep)

lemma run_guards:
  assumes "verifier_ok v" and "verifier_run C ops v = Ok (hs, v')" and "\<forall>op \<in> set ops. same_session node sid op"
    and "guards node sid c (k + length hs) (sv_ratchet_pool v)" and "0 < k"
    and "k + length hs \<le> rp_ratchet_ticks_to_live (sv_ratchet_pool v)"
  shows "guards node sid c k (sv_ratchet_pool v')"
  using assms
proof (induction C ops v arbitrary: hs rule: verifier_run.induct)
  case (2 C origin chain node' sid' c' ops v)
  obtain result v1 where v1: "verifier_verify C origin chain node' sid' c' v = Ok (result, v1)" "verifier_ok v1"
      "v1 = v \<or> sv_ratchet_pool v1 = snd (ratchet_pool_update node' sid' c' (sv_ratchet_pool v))"
    using verify_returns [OF 2(2), of C origin chain node' sid' c'] by blast
  have pool: "pool_ok (sv_ratchet_pool v)" using 2(2) by (simp add: verifier_ok_def)
  have "node' = node \<longrightarrow> sid' = sid" using 2(4) by auto
  then have "guards node sid c (k + length hs) (sv_ratchet_pool v1)"
    using v1(3) guards_update [OF pool 2(5,7)] 2(5) by auto
  moreover have "rp_ratchet_ticks_to_live (sv_ratchet_pool v1) = rp_ratchet_ticks_to_live (sv_ratchet_pool v)"
    using v1(3) by (auto simp: pool_update_keeps)
  ultimately show ?case using 2(1) [OF v1(2)] 2(3,4,6,7) v1(1) by simp
next
  case (3 C rand ops v)
  obtain h removed v1 where tick: "verifier_tick C rand v = Ok ((h, removed), v1)" "verifier_ok v1"
      "sv_ratchet_pool v1 = snd (ratchet_pool_tick (sv_ratchet_pool v))"
    using tick_returns [OF 3(2), of C rand] by blast
  then obtain hs' where hs': "verifier_run C ops v1 = Ok (hs', v')" "hs = h # hs'"
    using 3(3) by (auto simp: res_bind_Ok)
  have "guards node sid c (k + length hs') (sv_ratchet_pool v1)"
    unfolding tick(3) by (rule guards_tick) (use 3(2,5,6) hs'(2) in \<open>auto simp: verifier_ok_def pool_ok_def\<close>)
  then show ?case
    using 3(1) [OF tick(2) hs'(1)] 3(4,6,7) hs'(2) tick(3) by (simp add: pool_tick_keeps)
qed (auto simp: neighbor_ops_keep)

text \<open>
  C29: Once a message of a node was accepted, no message of the same session with the same or a
  lower counter is accepted again, however many ticks pass, as long as the node sends nothing
  under another session identifier and the proof of the later message does not contain a
  tick hash made in the meantime (so it proves no freshness later than the first message).
  In particular a replayed message is rejected: its ratchet outlives the tick it refers to.
\<close>

theorem verified_message_not_replayed:
  assumes "verifier_ok v" and "verifier_verify C origin chain node sid c v = Ok (Some hashes, v1)"
    and "verifier_run C ops v1 = Ok (hs, v2)" and "\<forall>op \<in> set ops. same_session node sid op"
    and "c' \<le> c" and "set (last ([origin'] # chain')) \<inter> set hs = {}"
  shows "\<exists>v3. verifier_verify C origin' chain' node sid c' v2 = Ok (None, v3)"
proof -
  define L where "L = rp_ratchet_ticks_to_live (sv_ratchet_pool v)"
  have v: "pool_ok (sv_ratchet_pool v)" using assms(1) by (simp add: verifier_ok_def)
  have v1: "verifier_ok v1" "sv_hash_clock v1 = sv_hash_clock v"
      "sv_ratchet_pool v1 = snd (ratchet_pool_update node sid c (sv_ratchet_pool v))"
      "fst (ratchet_pool_update node sid c (sv_ratchet_pool v))"
    using verify_returns [OF assms(1), of C origin chain node sid c] assms(2) by auto
  have guard: "guards node sid c L (sv_ratchet_pool v1)"
    unfolding L_def v1(3) by (rule accepted_guards [OF v v1(4)])
  have L1: "rp_ratchet_ticks_to_live (sv_ratchet_pool v1) = L"
    unfolding v1(3) L_def by (rule pool_update_keeps)
  note v2 = run_keeps [OF v1(1) assms(3)]
  obtain result v3 where v3: "verifier_verify C origin' chain' node sid c' v2 = Ok (result, v3)"
      "result \<noteq> None \<Longrightarrow> fst (ratchet_pool_update node sid c' (sv_ratchet_pool v2))"
      "result \<noteq> None \<Longrightarrow> verify_expansion_chain C (sv_hash_clock v2) origin' chain' \<noteq> None"
    using verify_returns [OF v2(1), of C origin' chain' node sid c'] by blast
  have "result = None"
  proof (rule ccontr)
    assume some: "result \<noteq> None"
    then obtain h where h: "verify_expansion_chain C (sv_hash_clock v2) origin' chain' = Some h" using v3(3) by blast
    have "h \<notin> set hs" using verify_chain_Some(1) [OF h] assms(6) by blast
    moreover have "h \<in> set (hc_last_ticks (sv_hash_clock v2))"
      using chain_result_recent [OF _ h] v2(1) by (simp add: verifier_ok_def)
    moreover have "length (hc_last_ticks (sv_hash_clock v2)) \<le> hc_last_ticks_max_len (sv_hash_clock v2)"
      using v2(1) by (simp add: verifier_ok_def clock_ok_def)
    moreover have "hc_last_ticks_max_len (sv_hash_clock v2) = L" using run_max_len [OF v1(1) assms(3)] v1(1) L1
      by (simp add: verifier_ok_def)
    ultimately have "length hs < L" using v2(2) suffix_long_enough by metis
    then have "guards node sid c (L - length hs) (sv_ratchet_pool v2)"
      using guard L1 by (intro run_guards [OF v1(1) assms(3,4)]) auto
    from guards_rejects [OF this assms(5)] v3(2) [OF some] show False by simp
  qed
  then show ?thesis using v3(1) by blast
qed

text \<open>A verifier that keeps three ticks, a message accepted after the first one, and two more ticks.\<close>

definition example_verifier :: "(nat, nat, nat) simple_verifier" where
  "example_verifier = \<lparr>
     sv_hash_clock = \<lparr> hc_neighbor_hashes = [], hc_last_ticks_max_len = 3, hc_last_ticks = [[7]],
                       hc_last_ticks_map = [([7], [[1], [2]])] \<rparr>,
     sv_ratchet_pool = \<lparr> rp_ratchets = [], rp_ratchet_ticks_to_live = 3 \<rparr> \<rparr>"

lemma example_verifier_ok: "verifier_ok example_verifier"
  by (simp add: example_verifier_def verifier_ok_def clock_ok_def pool_ok_def hm_contains_def hm_get_def)

definition example_hash :: crypto_api where
  "example_hash = \<lparr> sha_512_256 = (\<lambda>data. [sum_list data]), verify_signature = (\<lambda>data pk sig. True) \<rparr>"

definition example_accepted :: "(nat, nat, nat) simple_verifier" where
  "example_accepted = example_verifier\<lparr> sv_ratchet_pool := \<lparr>
     rp_ratchets = [(5, \<lparr> rt_session_id = 9, rt_counter = 4, rt_ticks_to_live = 3, rt_cur_ticks_to_live = 3 \<rparr>)],
     rp_ratchet_ticks_to_live = 3 \<rparr> \<rparr>"

lemma example_verify: "verifier_verify example_hash [7] [] 5 9 4 example_verifier = Ok (Some [[1], [2]], example_accepted)"
  by code_simp

lemma example_two_ticks:
  "\<exists>v2. verifier_run example_hash [VTick [1], VNeighborTick 3 [6], VTick [2]] example_accepted = Ok ([[240], [247]], v2)"
proof -
  have "(case verifier_run example_hash [VTick [1], VNeighborTick 3 [6], VTick [2]] example_accepted of
      Ok (hs, v2) \<Rightarrow> hs = [[240], [247]] | _ \<Rightarrow> False)"
    by code_simp
  then show ?thesis by (auto split: res.splits)
qed

theorem verified_message_not_replayed_witness:
  "\<exists>v2 v3. verifier_run example_hash [VTick [1], VNeighborTick 3 [6], VTick [2]] example_accepted = Ok ([[240], [247]], v2)
     \<and> verifier_verify example_hash [7] [] 5 9 4 v2 = Ok (None, v3)"
proof -
  obtain v2 where run: "verifier_run example_hash [VTick [1], VNeighborTick 3 [6], VTick [2]] example_accepted
      = Ok ([[240], [247]], v2)"
    using example_two_ticks by blast
  from verified_message_not_replayed [OF example_verifier_ok example_verify run, of 4 "[7]" "[]"]
  have "\<exists>v3. verifier_verify example_hash [7] [] 5 9 4 v2 = Ok (None, v3)" by simp
  with run show ?thesis by blast
qed

section \<open>Time proofs between servers\<close>

text \<open>
  A time proof is accepted by the server it goes back to. Server A makes a tick; its
  neighbor B records it and makes a tick of its own; the expansion that B then hands out for
  its tick is a chain that A accepts for B's tick hash, and so proves to A that B's tick is
  recent. Neither of the two calls panics.
\<close>

theorem time_proof_roundtrip:
  assumes "clock_ok a" and "clock_ok b"
  shows "\<exists>ha a' hb b' expansion h. clock_tick C rand_a a = Ok (ha, a')
    \<and> clock_tick C rand_b (snd (clock_neighbor_tick name_a ha b)) = Ok (hb, b')
    \<and> get_expansion b' hb = Some expansion
    \<and> verify_expansion_chain C a' hb [expansion] = Some h \<and> h \<in> set (hc_last_ticks a')"
proof -
  obtain ha a' where a': "clock_tick C rand_a a = Ok (ha, a')" "clock_ok a'" "get_expansion a' ha \<noteq> None"
    using clock_tick_Ok [OF assms(1), of C rand_a] by blast
  let ?b = "snd (clock_neighbor_tick name_a ha b)"
  have "clock_ok ?b" using assms(2) by (simp add: clock_neighbor_tick_def clock_ok_def)
  then obtain hb b' where b': "clock_tick C rand_b ?b = Ok (hb, b')"
    and hb: "hb = hash_hashes C (sha_512_256 C rand_b # map snd (hc_neighbor_hashes ?b))"
    and ex: "get_expansion b' hb = Some (sha_512_256 C rand_b # map snd (hc_neighbor_hashes ?b))"
    using clock_tick_Ok [of ?b C rand_b] by blast
  let ?e = "sha_512_256 C rand_b # map snd (hc_neighbor_hashes ?b)"
  have "hm_get (hc_neighbor_hashes ?b) name_a = Some ha" by (simp add: clock_neighbor_tick_def hm_simps)
  then have "ha \<in> set ?e" using hm_get_in by fastforce
  moreover have "hm_contains (hc_last_ticks_map a') ha" using a'(3) by (simp add: hm_contains_def get_expansion_def)
  ultimately have "\<exists>h \<in> set ?e. hm_contains (hc_last_ticks_map a') h" by blast
  then obtain h where "find (\<lambda>h. hm_contains (hc_last_ticks_map a') h) ?e = Some h"
    by (metis find_None_iff not_None_eq)
  then have chain: "verify_expansion_chain C a' hb [?e] = Some h"
    by (simp add: verify_expansion_chain_def hb Let_def)
  then show ?thesis using a'(1) b' ex chain_result_recent [OF a'(2) chain] by blast
qed

theorem time_proof_roundtrip_witness:
  "\<exists>ha a' hb b' expansion h. clock_tick example_hash [3] (sv_hash_clock example_verifier) = Ok (ha, a')
    \<and> clock_tick example_hash [4] (snd (clock_neighbor_tick 8 ha (sv_hash_clock example_verifier))) = Ok (hb, b')
    \<and> get_expansion b' hb = Some expansion
    \<and> verify_expansion_chain example_hash a' hb [expansion] = Some h \<and> h \<in> set (hc_last_ticks a')"
  by (rule time_proof_roundtrip) (use example_verifier_ok in \<open>simp_all add: verifier_ok_def\<close>)

section \<open>The contract of a verifier\<close>

text \<open>
  What the server relies on: a verifier follows a set of nodes. A node is followed once a
  message of it was accepted, and until a tick reports it as removed.
\<close>

locale verifier_contract =
  fixes ok :: "'v \<Rightarrow> bool"
    and followed :: "'v \<Rightarrow> 'n set"
    and verify :: "hash_result \<Rightarrow> hash_result list list \<Rightarrow> 'n \<Rightarrow> 'u \<Rightarrow> u64 \<Rightarrow> 'v \<Rightarrow> (hash_result list option \<times> 'v, unit) res"
    and tick :: "bytes \<Rightarrow> 'v \<Rightarrow> ((hash_result \<times> 'n list) \<times> 'v, unit) res"
    and neighbor_tick :: "'b \<Rightarrow> hash_result \<Rightarrow> 'v \<Rightarrow> hash_result option \<times> 'v"
    and remove_neighbor :: "'b \<Rightarrow> 'v \<Rightarrow> hash_result option \<times> 'v"
  assumes verify_law: "ok v \<Longrightarrow> \<exists>result v'. verify origin chain node sid c v = Ok (result, v') \<and> ok v'
        \<and> followed v \<subseteq> followed v' \<and> (result \<noteq> None \<longrightarrow> node \<in> followed v')"
    and tick_law: "ok v \<Longrightarrow> \<exists>h removed v'. tick rand v = Ok ((h, removed), v') \<and> ok v'
        \<and> followed v' = followed v - set removed"
    and neighbor_tick_law: "ok v \<Longrightarrow> ok (snd (neighbor_tick b h v)) \<and> followed (snd (neighbor_tick b h v)) = followed v"
    and remove_neighbor_law: "ok v \<Longrightarrow> ok (snd (remove_neighbor b v)) \<and> followed (snd (remove_neighbor b v)) = followed v"

definition followed_nodes :: "('n, 'b, 'u) simple_verifier \<Rightarrow> 'n set" where
  "followed_nodes v = {node. hm_contains (rp_ratchets (sv_ratchet_pool v)) node}"

lemma pool_followed_grows: "{n. hm_contains (rp_ratchets rp) n} \<subseteq> {n. hm_contains (rp_ratchets (snd (ratchet_pool_update node sid c rp))) n}"
proof
  fix n
  assume "n \<in> {n. hm_contains (rp_ratchets rp) n}"
  then show "n \<in> {n. hm_contains (rp_ratchets (snd (ratchet_pool_update node sid c rp))) n}"
    using pool_update_keeps(2) [of n node sid c rp] pool_update_keeps(3) [of node sid c rp]
    by (cases "n = node") (simp_all add: hm_contains_def)
qed

interpretation simple: verifier_contract verifier_ok followed_nodes "verifier_verify C" "verifier_tick C"
  verifier_neighbor_tick verifier_remove_neighbor
proof
  fix v :: "('n, 'b, 'u) simple_verifier" and origin chain node sid c rand b h
  assume ok: "verifier_ok v"
  show "\<exists>result v'. verifier_verify C origin chain node sid c v = Ok (result, v') \<and> verifier_ok v'
      \<and> followed_nodes v \<subseteq> followed_nodes v' \<and> (result \<noteq> None \<longrightarrow> node \<in> followed_nodes v')"
    using verify_returns [OF ok, of C origin chain node sid c] pool_followed_grows [of "sv_ratchet_pool v" node sid c]
      pool_update_keeps(3) [of node sid c "sv_ratchet_pool v"]
    unfolding followed_nodes_def by (auto 4 3)
  have "hm_ok (rp_ratchets (sv_ratchet_pool v))" using ok by (simp add: verifier_ok_def pool_ok_def)
  then have "{n. hm_contains (rp_ratchets (snd (ratchet_pool_tick (sv_ratchet_pool v)))) n}
      = followed_nodes v - set (fst (ratchet_pool_tick (sv_ratchet_pool v)))"
    by (auto simp: followed_nodes_def hm_contains_def pool_tick_get pool_tick_removed split: bind_splits if_splits)
  then show "\<exists>h removed v'. verifier_tick C rand v = Ok ((h, removed), v') \<and> verifier_ok v'
      \<and> followed_nodes v' = followed_nodes v - set removed"
    using tick_returns [OF ok, of C rand] unfolding followed_nodes_def by auto
qed (simp_all add: neighbor_ops_keep followed_nodes_def)

text \<open>
  A ratchet protects one session only: a message under any other session identifier is accepted
  with any counter, also one of a session that the node had left, as long as its time proof
  holds.
\<close>

lemma other_session_accepted:
  assumes "verifier_ok v" and "verify_expansion_chain C (sv_hash_clock v) origin chain \<noteq> None"
    and "hm_get (rp_ratchets (sv_ratchet_pool v)) node = Some r" and "rt_session_id r \<noteq> sid"
  shows "\<exists>hashes v'. verifier_verify C origin chain node sid c v = Ok (Some hashes, v')"
proof -
  have "fst (ratchet_pool_update node sid c (sv_ratchet_pool v))"
    using assms(3,4) by (simp add: ratchet_pool_update_def ratchet_update_def inner_update_def)
  then show ?thesis
    using assms(2) verify_chain_Some(2) [of C "sv_hash_clock v" origin chain]
    by (auto simp: verifier_verify_def Let_def hm_contains_def get_expansion_def split: prod.splits)
qed

end
