(* ===== verification/IndexServer.thy ===== *)
theory IndexServer
  imports CapacityGraph Verifier
begin

text \<open>
  The index server: its messages (\<open>proto/src/index_server/messages.rs\<close>), the signature of an
  update (\<open>proto/src/index_server/signature_buff.rs\<close>) and the server itself
  (\<open>index_server/src/server.rs\<close>).

  The server is generic in its verifier, whose operations are the fields of \<open>verifier_api\<close>. The
  graph service answers every request (theory \<open>CapacityGraph\<close>), so a call through the graph
  client is the graph operation itself. What a bounded channel does with a message
  (\<open>mpsc::Sender::try_send\<close>) is an argument, one outcome for each receiver. Log messages and
  the tasks that carry messages between connections and the event loop are not modelled.
\<close>

section \<open>Messages\<close>

record request_routes =
  rr_request_id :: uid
  rr_capacity :: u128
  rr_source :: public_key
  rr_destination :: public_key
  rr_opt_exclude :: "(public_key \<times> public_key) option"

record route_capacity_rate =
  rcr_route :: friends_route
  rcr_capacity :: u128
  rcr_rate :: rate

record multi_route =
  mr_routes :: "route_capacity_rate list"

record response_routes =
  rsr_request_id :: uid
  rsr_multi_routes :: "multi_route list"

record update_friend =
  uf_public_key :: public_key
  uf_send_capacity :: u128
  uf_recv_capacity :: u128
  uf_rate :: rate

datatype index_mutation = UpdateFriend update_friend | RemoveFriend public_key

record mutations_update =
  mu_node_public_key :: public_key
  mu_index_mutations :: "index_mutation list"
  mu_time_hash :: hash_result
  mu_session_id :: uid
  mu_counter :: u64
  mu_rand_nonce :: bytes
  mu_signature :: signature

record time_proof_link =
  tpl_hashes :: "hash_result list"

record forward_mutations_update =
  fmu_mutations_update :: mutations_update
  fmu_time_proof_chain :: "time_proof_link list"

datatype index_server_to_client = IscTimeHash hash_result | IscResponseRoutes response_routes

datatype index_server_to_server = IssTimeHash hash_result | IssForwardMutationsUpdate forward_mutations_update

section \<open>Signatures of updates\<close>

definition serialize_update_friend :: "update_friend \<Rightarrow> bytes" where
  "serialize_update_friend uf =
     uf_public_key uf @ write_u128 (uf_send_capacity uf) @ write_u128 (uf_recv_capacity uf)"

definition serialize_index_mutation :: "index_mutation \<Rightarrow> bytes" where
  "serialize_index_mutation m =
     (case m of UpdateFriend uf \<Rightarrow> [0] @ serialize_update_friend uf | RemoveFriend pk \<Rightarrow> [1] @ pk)"

definition MUTATIONS_UPDATE_PREFIX :: bytes where
  "MUTATIONS_UPDATE_PREFIX = ascii ''MUTATIONS_UPDATE''"

definition mutations_signature_buff :: "crypto_api \<Rightarrow> mutations_update \<Rightarrow> bytes" where
  "mutations_signature_buff C mu =
     sha_512_256 C MUTATIONS_UPDATE_PREFIX @ mu_node_public_key mu
     @ write_len (length (mu_index_mutations mu)) @ concat (map serialize_index_mutation (mu_index_mutations mu))
     @ mu_time_hash mu @ mu_session_id mu @ write_u64 (mu_counter mu) @ mu_rand_nonce mu"

definition verify_mutations_update :: "crypto_api \<Rightarrow> mutations_update \<Rightarrow> bool" where
  "verify_mutations_update C mu =
     verify_signature C (mutations_signature_buff C mu) (mu_node_public_key mu) (mu_signature mu)"

section \<open>State\<close>

text \<open>A connection is \<open>True\<close> while its sender is kept.\<close>

type_synonym connected = bool

datatype send_outcome = Sent | QueueFull | Disconnected

definition try_send :: "connected \<Rightarrow> send_outcome \<Rightarrow> bool \<times> connected" where
  "try_send conn outcome =
     (if conn then
        (case outcome of Sent \<Rightarrow> (True, True) | QueueFull \<Rightarrow> (False, True) | Disconnected \<Rightarrow> (False, False))
      else (False, False))"

datatype remote_server_state = RssConnected connected | RssInitiating | RssListening

record 'a remote_server =
  rsv_address :: 'a
  rsv_state :: remote_server_state

record 'v verifier_api =
  va_verify :: "hash_result \<Rightarrow> hash_result list list \<Rightarrow> public_key \<Rightarrow> uid \<Rightarrow> u64 \<Rightarrow> 'v
    \<Rightarrow> (hash_result list option \<times> 'v, unit) res"
  va_tick :: "bytes \<Rightarrow> 'v \<Rightarrow> ((hash_result \<times> public_key list) \<times> 'v, unit) res"
  va_neighbor_tick :: "public_key \<Rightarrow> hash_result \<Rightarrow> 'v \<Rightarrow> hash_result option \<times> 'v"
  va_remove_neighbor :: "public_key \<Rightarrow> 'v \<Rightarrow> hash_result option \<times> 'v"

record ('a, 'v) index_server =
  is_local_public_key :: public_key
  is_graph :: "(public_key, rate) simple_capacity_graph"
  is_verifier :: 'v
  is_remote_servers :: "(public_key, 'a remote_server) hmap"
  is_clients :: "(public_key, connected) hmap"

text \<open>The messages that were handed to a connection.\<close>

datatype server_output =
    ToServer public_key index_server_to_server
  | ToClient public_key index_server_to_client

section \<open>Operations\<close>

text \<open>
  \<open>compare_public_key\<close> is an argument; \<open>pk_less\<close> says when it returns \<open>Ordering::Less\<close>. A server
  that we have to connect to starts a connection attempt.
\<close>

definition spawn_server :: "(public_key \<Rightarrow> public_key \<Rightarrow> bool) \<Rightarrow> public_key \<Rightarrow> public_key \<Rightarrow> 'a \<Rightarrow> 'a remote_server" where
  "spawn_server pk_less local_pk pk addr =
     \<lparr> rsv_address = addr, rsv_state = (if pk_less local_pk pk then RssListening else RssInitiating) \<rparr>"

definition index_server_new ::
  "(public_key \<Rightarrow> public_key \<Rightarrow> bool) \<Rightarrow> public_key \<Rightarrow> (public_key, 'a) hmap \<Rightarrow> 'v \<Rightarrow> ('a, 'v) index_server" where
  "index_server_new pk_less local_pk trusted_servers verifier =
     \<lparr> is_local_public_key = local_pk, is_graph = simple_capacity_graph_new, is_verifier = verifier,
       is_remote_servers =
         fold (\<lambda>(pk, addr) servers. hm_insert pk (spawn_server pk_less local_pk pk addr) servers) trusted_servers [],
       is_clients = [] \<rparr>"

text \<open>Sending a message to every connected server but one (\<open>iter_connected_servers\<close>).\<close>

fun send_to_servers ::
  "(public_key \<Rightarrow> send_outcome) \<Rightarrow> public_key option \<Rightarrow> index_server_to_server
    \<Rightarrow> (public_key, 'a remote_server) hmap \<Rightarrow> server_output list \<times> (public_key, 'a remote_server) hmap" where
  "send_to_servers chan skip msg [] = ([], [])"
| "send_to_servers chan skip msg ((pk, server) # servers) =
     (let (out, servers') = send_to_servers chan skip msg servers in
      (case rsv_state server of
         RssConnected conn \<Rightarrow>
           if Some pk = skip then (out, (pk, server) # servers')
           else
             (let (sent, conn') = try_send conn (chan pk) in
              (if sent then ToServer pk msg # out else out,
               (pk, server\<lparr> rsv_state := RssConnected conn' \<rparr>) # servers'))
       | _ \<Rightarrow> (out, (pk, server) # servers')))"

fun send_to_clients ::
  "(public_key \<Rightarrow> send_outcome) \<Rightarrow> index_server_to_client \<Rightarrow> (public_key, connected) hmap
    \<Rightarrow> server_output list \<times> (public_key, connected) hmap" where
  "send_to_clients chan msg [] = ([], [])"
| "send_to_clients chan msg ((pk, conn) # clients) =
     (let (out, clients') = send_to_clients chan msg clients;
          (sent, conn') = try_send conn (chan pk)
      in (if sent then ToClient pk msg # out else out, (pk, conn') # clients'))"

definition apply_index_mutation ::
  "public_key \<Rightarrow> index_mutation \<Rightarrow> (public_key, rate) simple_capacity_graph \<Rightarrow> (public_key, rate) simple_capacity_graph" where
  "apply_index_mutation node m g =
     (case m of
        UpdateFriend uf \<Rightarrow>
          snd (update_edge g node (uf_public_key uf)
            \<lparr> ce_capacity = (uf_send_capacity uf, uf_recv_capacity uf), ce_rate = uf_rate uf \<rparr>)
      | RemoveFriend pk \<Rightarrow> snd (remove_edge g node pk))"

definition handle_forward_mutations_update ::
  "crypto_api \<Rightarrow> 'v verifier_api \<Rightarrow> (public_key \<Rightarrow> send_outcome) \<Rightarrow> public_key option \<Rightarrow> forward_mutations_update
    \<Rightarrow> ('a, 'v) index_server \<Rightarrow> (server_output list \<times> ('a, 'v) index_server, unit) res" where
  "handle_forward_mutations_update C V chan opt_server fmu s =
     (let mu = fmu_mutations_update fmu in
      if \<not> verify_mutations_update C mu then Ok ([], s)
      else
        (let expansion_chain = map tpl_hashes (fmu_time_proof_chain fmu) in
         res_bind (va_verify V (mu_time_hash mu) expansion_chain (mu_node_public_key mu) (mu_session_id mu)
                     (mu_counter mu) (is_verifier s)) (\<lambda>(opt_hashes, verifier').
           (let s1 = s\<lparr> is_verifier := verifier' \<rparr> in
            (case opt_hashes of
               None \<Rightarrow> Ok ([], s1)
             | Some hashes \<Rightarrow>
                 (let node = mu_node_public_key mu;
                      g1 = graph_tick (is_graph s1) node;
                      fmu' = fmu\<lparr> fmu_time_proof_chain := fmu_time_proof_chain fmu @ [\<lparr> tpl_hashes = hashes \<rparr>] \<rparr>;
                      g2 = fold (apply_index_mutation node) (mu_index_mutations mu) g1;
                      (out, servers') = send_to_servers chan opt_server (IssForwardMutationsUpdate fmu') (is_remote_servers s1)
                  in Ok (out, s1\<lparr> is_graph := g2, is_remote_servers := servers' \<rparr>)))))))"

definition handle_from_server ::
  "crypto_api \<Rightarrow> 'v verifier_api \<Rightarrow> (public_key \<Rightarrow> send_outcome) \<Rightarrow> public_key \<Rightarrow> index_server_to_server
    \<Rightarrow> ('a, 'v) index_server \<Rightarrow> (server_output list \<times> ('a, 'v) index_server, unit) res" where
  "handle_from_server C V chan pk msg s =
     (case msg of
        IssTimeHash time_hash \<Rightarrow> Ok ([], s\<lparr> is_verifier := snd (va_neighbor_tick V pk time_hash (is_verifier s)) \<rparr>)
      | IssForwardMutationsUpdate fmu \<Rightarrow> handle_forward_mutations_update C V chan (Some pk) fmu s)"

definition handle_timer_tick ::
  "'v verifier_api \<Rightarrow> (public_key \<Rightarrow> send_outcome) \<Rightarrow> (public_key \<Rightarrow> send_outcome) \<Rightarrow> bytes
    \<Rightarrow> ('a, 'v) index_server \<Rightarrow> (server_output list \<times> ('a, 'v) index_server, unit) res" where
  "handle_timer_tick V chan client_chan rand_value s =
     res_bind (va_tick V rand_value (is_verifier s)) (\<lambda>((time_hash, removed_nodes), verifier').
       (let (out, servers') = send_to_servers chan None (IssTimeHash time_hash) (is_remote_servers s);
            (out', clients') = send_to_clients client_chan (IscTimeHash time_hash) (is_clients s);
            g' = fold (\<lambda>node g. snd (remove_node g node)) removed_nodes (is_graph s)
        in Ok (out @ out', s\<lparr> is_verifier := verifier', is_remote_servers := servers', is_clients := clients',
                              is_graph := g' \<rparr>)))"

text \<open>The answer of \<open>client_handler\<close> to a request for routes.\<close>

definition route_of_graph :: "(public_key, rate) capacity_multi_route \<Rightarrow> multi_route" where
  "route_of_graph cmr =
     \<lparr> mr_routes = map (\<lambda>r. \<lparr> rcr_route = \<lparr> public_keys = cr_route r \<rparr>, rcr_capacity = cr_capacity r,
                              rcr_rate = cr_rate r \<rparr>) (cmr_routes cmr) \<rparr>"

definition handle_request_routes ::
  "request_routes \<Rightarrow> (public_key, rate) simple_capacity_graph \<Rightarrow> (index_server_to_client, unit) res option" where
  "handle_request_routes rr g =
     map_option (\<lambda>r. res_bind r (\<lambda>routes. Ok (IscResponseRoutes
         \<lparr> rsr_request_id = rr_request_id rr, rsr_multi_routes = map route_of_graph routes \<rparr>)))
       (get_multi_routes rate_zero rate_checked_add g (rr_source rr) (rr_destination rr) (rr_capacity rr) (rr_opt_exclude rr))"

section \<open>The event loop\<close>

text \<open>
  A connection event carries nothing but the key here. An incoming server connection reaches the
  loop only if the server is one that connects to us; one that we initiated is not filtered.
\<close>

datatype server_event =
    SeServerConnection public_key
  | SeFromServer public_key "index_server_to_server option"
  | SeClientConnection public_key
  | SeClientClosed public_key
  | SeClientMutationsUpdate mutations_update
  | SeTimerTick bytes

definition server_loop_step ::
  "crypto_api \<Rightarrow> 'v verifier_api \<Rightarrow> (public_key \<Rightarrow> public_key \<Rightarrow> bool) \<Rightarrow> (public_key \<Rightarrow> send_outcome)
    \<Rightarrow> (public_key \<Rightarrow> send_outcome) \<Rightarrow> server_event \<Rightarrow> ('a, 'v) index_server
    \<Rightarrow> (server_output list \<times> ('a, 'v) index_server, unit) res" where
  "server_loop_step C V pk_less chan client_chan event s =
     (case event of
        SeServerConnection pk \<Rightarrow>
          (case hm_get (is_remote_servers s) pk of
             None \<Rightarrow> Ok ([], s)
           | Some server \<Rightarrow>
               (case rsv_state server of
                  RssConnected conn \<Rightarrow> Ok ([], s)
                | _ \<Rightarrow> Ok ([], s\<lparr> is_remote_servers :=
                          hm_insert pk (server\<lparr> rsv_state := RssConnected True \<rparr>) (is_remote_servers s) \<rparr>)))
      | SeFromServer pk (Some msg) \<Rightarrow> handle_from_server C V chan pk msg s
      | SeFromServer pk None \<Rightarrow>
          (case hm_get (is_remote_servers s) pk of
             None \<Rightarrow> Ok ([], s)
           | Some old_server \<Rightarrow>
               Ok ([], s\<lparr> is_verifier := snd (va_remove_neighbor V pk (is_verifier s)),
                          is_remote_servers := hm_insert pk
                            (spawn_server pk_less (is_local_public_key s) pk (rsv_address old_server)) (is_remote_servers s) \<rparr>))
      | SeClientConnection pk \<Rightarrow>
          if hm_contains (is_clients s) pk then Ok ([], s)
          else Ok ([], s\<lparr> is_clients := hm_insert pk True (is_clients s) \<rparr>)
      | SeClientClosed pk \<Rightarrow> Ok ([], s\<lparr> is_clients := hm_remove pk (is_clients s) \<rparr>)
      | SeClientMutationsUpdate mu \<Rightarrow>
          handle_forward_mutations_update C V chan None \<lparr> fmu_mutations_update = mu, fmu_time_proof_chain = [] \<rparr> s
      | SeTimerTick rand_value \<Rightarrow> handle_timer_tick V chan client_chan rand_value s)"

section \<open>Effect on the graph\<close>

text \<open>An update changes the edges of its node only, by the requests it stands for.\<close>

definition request_of_mutation :: "public_key \<Rightarrow> index_mutation \<Rightarrow> (public_key, rate) graph_request" where
  "request_of_mutation node m =
     (case m of
        UpdateFriend uf \<Rightarrow> GrUpdateEdge node (uf_public_key uf)
          \<lparr> ce_capacity = (uf_send_capacity uf, uf_recv_capacity uf), ce_rate = uf_rate uf \<rparr>
      | RemoveFriend pk \<Rightarrow> GrRemoveEdge node pk)"

lemma apply_mutation_step: "apply_index_mutation node m = graph_step (request_of_mutation node m)"
  by (rule ext) (simp add: apply_index_mutation_def request_of_mutation_def split: index_mutation.splits)

definition update_requests :: "mutations_update \<Rightarrow> (public_key, rate) graph_request list" where
  "update_requests mu =
     GrTick (mu_node_public_key mu) # map (request_of_mutation (mu_node_public_key mu)) (mu_index_mutations mu)"

lemma update_graph:
  "fold (apply_index_mutation (mu_node_public_key mu)) (mu_index_mutations mu) (graph_tick g (mu_node_public_key mu))
    = fold graph_step (update_requests mu) g"
  by (simp add: update_requests_def apply_mutation_step [abs_def] fold_map comp_def)

fun request_source :: "('n, 't) graph_request \<Rightarrow> 'n" where
  "request_source (GrUpdateEdge a b ce) = a"
| "request_source (GrRemoveEdge a b) = a"
| "request_source (GrRemoveNode a) = a"
| "request_source (GrGetMultiRoutes a b capacity opt_exclude) = a"
| "request_source (GrTick a) = a"

lemma view_step_other: "request_source req \<noteq> a \<Longrightarrow> view_step req m a = m a"
  by (cases req) auto

lemma view_run_other: "\<forall>req \<in> set reqs. request_source req \<noteq> a \<Longrightarrow> fold view_step reqs m a = m a"
  by (induction reqs arbitrary: m) (simp_all add: view_step_other)

lemma update_requests_source: "req \<in> set (update_requests mu) \<Longrightarrow> request_source req = mu_node_public_key mu"
  by (auto simp: update_requests_def request_of_mutation_def split: index_mutation.splits)

lemma update_other_nodes:
  assumes "graph_ok g" and "a \<noteq> mu_node_public_key mu"
  shows "edge_view (fold graph_step (update_requests mu) g) a = edge_view g a"
  unfolding store.run_view [OF assms(1)] using update_requests_source assms(2) by (intro view_run_other) blast

lemma removed_graph:
  "fold (\<lambda>node g. snd (remove_node g node)) nodes g = fold graph_step (map GrRemoveNode nodes) g"
  by (induction nodes arbitrary: g) simp_all

lemma removed_view:
  "fold view_step (map GrRemoveNode nodes) m a = (if a \<in> set nodes then Map.empty else m a)"
  by (induction nodes arbitrary: m) auto

text \<open>The two outcomes of handling an update, for any verifier.\<close>

lemma handle_update_cases:
  assumes "handle_forward_mutations_update C V chan opt_server fmu s = Ok (out, s')"
  obtains (unsigned) "\<not> verify_mutations_update C (fmu_mutations_update fmu)" "s' = s" "out = []"
  | (stale) v' where "va_verify V (mu_time_hash (fmu_mutations_update fmu)) (map tpl_hashes (fmu_time_proof_chain fmu))
        (mu_node_public_key (fmu_mutations_update fmu)) (mu_session_id (fmu_mutations_update fmu))
        (mu_counter (fmu_mutations_update fmu)) (is_verifier s) = Ok (None, v')"
      "s' = s\<lparr> is_verifier := v' \<rparr>" "out = []"
  | (fresh) hashes v' servers' where "verify_mutations_update C (fmu_mutations_update fmu)"
      "va_verify V (mu_time_hash (fmu_mutations_update fmu)) (map tpl_hashes (fmu_time_proof_chain fmu))
        (mu_node_public_key (fmu_mutations_update fmu)) (mu_session_id (fmu_mutations_update fmu))
        (mu_counter (fmu_mutations_update fmu)) (is_verifier s) = Ok (Some hashes, v')"
      "s' = s\<lparr> is_verifier := v', is_graph := fold graph_step (update_requests (fmu_mutations_update fmu)) (is_graph s),
          is_remote_servers := servers' \<rparr>"
proof (cases "verify_mutations_update C (fmu_mutations_update fmu)")
  case False
  then show ?thesis using assms by (intro unsigned) (auto simp: handle_forward_mutations_update_def Let_def)
next
  case True
  let ?call = "va_verify V (mu_time_hash (fmu_mutations_update fmu)) (map tpl_hashes (fmu_time_proof_chain fmu))
    (mu_node_public_key (fmu_mutations_update fmu)) (mu_session_id (fmu_mutations_update fmu))
    (mu_counter (fmu_mutations_update fmu)) (is_verifier s)"
  obtain result v' where call: "?call = Ok (result, v')"
    using assms True by (cases ?call) (auto simp: handle_forward_mutations_update_def Let_def)
  show ?thesis
  proof (cases result)
    case None
    then show ?thesis using assms True call
      by (intro stale [of v']) (simp_all add: handle_forward_mutations_update_def Let_def)
  next
    case (Some hashes)
    then show ?thesis using assms True call
      by (intro fresh [of hashes v' "is_remote_servers s'"])
         (auto simp: handle_forward_mutations_update_def Let_def update_graph split: prod.splits)
  qed
qed

section \<open>Nodes in the graph are followed by the verifier\<close>

definition known_nodes :: "(public_key, rate) simple_capacity_graph \<Rightarrow> public_key set" where
  "known_nodes g = {a. edge_view g a \<noteq> Map.empty}"

lemma update_known: "graph_ok g \<Longrightarrow> known_nodes (fold graph_step (update_requests mu) g) \<subseteq> insert (mu_node_public_key mu) (known_nodes g)"
  using update_other_nodes [of g] by (auto simp: known_nodes_def)

lemma removed_known: "graph_ok g \<Longrightarrow> known_nodes (fold graph_step (map GrRemoveNode nodes) g) = known_nodes g - set nodes"
  by (auto simp: known_nodes_def store.run_view removed_view)

context verifier_contract
begin

lemma followed_update:
  assumes "ok v" and "verify origin chain node sid c v = Ok (result, v')"
  shows "ok v'" and "followed v \<subseteq> followed v'" and "result \<noteq> None \<Longrightarrow> node \<in> followed v'"
  using verify_law [OF assms(1), of origin chain node sid c] assms(2) by auto

lemma followed_tick:
  assumes "ok v" and "tick rand v = Ok ((h, removed), v')"
  shows "ok v'" and "followed v' = followed v - set removed"
  using tick_law [OF assms(1), of rand] assms(2) by auto

end

text \<open>The invariant of the server, for any verifier that keeps the contract.\<close>

locale index_server_contract = verifier_contract ok followed verify tick neighbor_tick remove_neighbor
  for ok :: "'v \<Rightarrow> bool" and followed :: "'v \<Rightarrow> public_key set"
    and verify :: "hash_result \<Rightarrow> hash_result list list \<Rightarrow> public_key \<Rightarrow> uid \<Rightarrow> u64 \<Rightarrow> 'v \<Rightarrow> (hash_result list option \<times> 'v, unit) res"
    and tick :: "bytes \<Rightarrow> 'v \<Rightarrow> ((hash_result \<times> public_key list) \<times> 'v, unit) res"
    and neighbor_tick :: "public_key \<Rightarrow> hash_result \<Rightarrow> 'v \<Rightarrow> hash_result option \<times> 'v"
    and remove_neighbor :: "public_key \<Rightarrow> 'v \<Rightarrow> hash_result option \<times> 'v" +
  fixes api :: "'v verifier_api"
  assumes api: "api = \<lparr> va_verify = verify, va_tick = tick, va_neighbor_tick = neighbor_tick, va_remove_neighbor = remove_neighbor \<rparr>"
begin

definition server_inv :: "('a, 'v) index_server \<Rightarrow> bool" where
  "server_inv s \<longleftrightarrow> ok (is_verifier s) \<and> graph_ok (is_graph s) \<and> known_nodes (is_graph s) \<subseteq> followed (is_verifier s)"

lemma handle_update_inv:
  assumes inv: "server_inv s"
  shows "\<exists>out s'. handle_forward_mutations_update C api chan opt_server fmu s = Ok (out, s') \<and> server_inv s'"
proof -
  let ?mu = "fmu_mutations_update fmu"
  have ok: "ok (is_verifier s)" and g: "graph_ok (is_graph s)" and sub: "known_nodes (is_graph s) \<subseteq> followed (is_verifier s)"
    using inv by (auto simp: server_inv_def)
  obtain result v' where v': "verify (mu_time_hash ?mu) (map tpl_hashes (fmu_time_proof_chain fmu)) (mu_node_public_key ?mu)
      (mu_session_id ?mu) (mu_counter ?mu) (is_verifier s) = Ok (result, v')"
    using verify_law [OF ok] by blast
  have "\<exists>out s'. handle_forward_mutations_update C api chan opt_server fmu s = Ok (out, s')"
    using v' by (auto simp: handle_forward_mutations_update_def api Let_def split: option.splits prod.splits)
  then obtain out s' where run: "handle_forward_mutations_update C api chan opt_server fmu s = Ok (out, s')" by blast
  moreover from run have "server_inv s'"
  proof (cases rule: handle_update_cases)
    case (fresh hashes v'')
    note v'' = followed_update [OF ok fresh(2) [unfolded api verifier_api.simps]]
    have "known_nodes (is_graph s') \<subseteq> followed v''"
      using update_known [OF g, of ?mu] v''(2,3) sub fresh(3) by auto
    then show ?thesis using v''(1) fresh(3) store.run_ok [OF g] by (simp add: server_inv_def)
  next
    case (stale v'')
    then show ?thesis using followed_update [OF ok stale(1) [unfolded api verifier_api.simps]] g sub
      by (auto simp: server_inv_def)
  qed (use inv in simp)
  ultimately show ?thesis by blast
qed

lemma handle_tick_inv:
  assumes inv: "server_inv s"
  shows "\<exists>out s'. handle_timer_tick api chan client_chan rand s = Ok (out, s') \<and> server_inv s'"
proof -
  have ok: "ok (is_verifier s)" and g: "graph_ok (is_graph s)" and sub: "known_nodes (is_graph s) \<subseteq> followed (is_verifier s)"
    using inv by (auto simp: server_inv_def)
  obtain h removed v' where v': "tick rand (is_verifier s) = Ok ((h, removed), v')"
    using tick_law [OF ok] by blast
  have "graph_ok (fold graph_step (map GrRemoveNode removed) (is_graph s))" by (rule store.run_ok [OF g])
  then show ?thesis using v' followed_tick [OF ok v'] removed_known [OF g, of removed] sub
    by (auto simp: handle_timer_tick_def api server_inv_def removed_graph split: prod.splits)
qed

lemma step_inv:
  assumes inv: "server_inv s"
  shows "\<exists>out s'. server_loop_step C api pk_less chan client_chan event s = Ok (out, s') \<and> server_inv s'"
proof (cases event)
  case (SeFromServer pk opt_msg)
  then show ?thesis
  proof (cases opt_msg)
    case None
    then show ?thesis using SeFromServer inv remove_neighbor_law [of "is_verifier s" pk]
      by (auto simp: server_loop_step_def server_inv_def api split: option.splits)
  next
    case (Some msg)
    then show ?thesis using SeFromServer inv handle_update_inv [OF inv] neighbor_tick_law [of "is_verifier s" pk]
      by (cases msg) (auto simp: server_loop_step_def handle_from_server_def server_inv_def api)
  qed
next
  case (SeTimerTick rand)
  then show ?thesis using handle_tick_inv [OF inv] by (simp add: server_loop_step_def)
next
  case (SeClientMutationsUpdate mu)
  then show ?thesis using handle_update_inv [OF inv] by (simp add: server_loop_step_def)
qed (use inv in \<open>auto simp: server_loop_step_def server_inv_def split: option.splits remote_server_state.splits\<close>)

end

section \<open>The server with the simple verifier\<close>

definition simple_verifier_api :: "crypto_api \<Rightarrow> (public_key, public_key, uid) simple_verifier verifier_api" where
  "simple_verifier_api C = \<lparr> va_verify = verifier_verify C, va_tick = verifier_tick C,
     va_neighbor_tick = verifier_neighbor_tick, va_remove_neighbor = verifier_remove_neighbor \<rparr>"

interpretation index: index_server_contract verifier_ok followed_nodes "verifier_verify C" "verifier_tick C"
  verifier_neighbor_tick verifier_remove_neighbor "simple_verifier_api C"
  by unfold_locales (rule simple_verifier_api_def)

definition index_server_inv :: "('a, (public_key, public_key, uid) simple_verifier) index_server \<Rightarrow> bool" where
  "index_server_inv s \<longleftrightarrow> verifier_ok (is_verifier s) \<and> graph_ok (is_graph s)
     \<and> known_nodes (is_graph s) \<subseteq> followed_nodes (is_verifier s)"

lemma index_inv_iff: "index.server_inv s = index_server_inv s"
  by (simp add: index.server_inv_def index_server_inv_def)

text \<open>A run over events, each with what the channels do with the messages sent while it is handled.\<close>

fun server_run ::
  "crypto_api \<Rightarrow> 'v verifier_api \<Rightarrow> (public_key \<Rightarrow> public_key \<Rightarrow> bool)
    \<Rightarrow> (server_event \<times> (public_key \<Rightarrow> send_outcome) \<times> (public_key \<Rightarrow> send_outcome)) list
    \<Rightarrow> ('a, 'v) index_server \<Rightarrow> (server_output list \<times> ('a, 'v) index_server, unit) res" where
  "server_run C V pk_less [] s = Ok ([], s)"
| "server_run C V pk_less ((event, chan, client_chan) # events) s =
     res_bind (server_loop_step C V pk_less chan client_chan event s) (\<lambda>(out, s').
       res_bind (server_run C V pk_less events s') (\<lambda>(out', s''). Ok (out @ out', s'')))"

lemma run_inv:
  "index_server_inv s \<Longrightarrow> \<exists>out s'. server_run C (simple_verifier_api C) pk_less events s = Ok (out, s') \<and> index_server_inv s'"
proof (induction events arbitrary: s)
  case (Cons e events)
  obtain event chan client_chan where e: "e = (event, chan, client_chan)" by (cases e)
  obtain out s1 where step: "server_loop_step C (simple_verifier_api C) pk_less chan client_chan event s = Ok (out, s1)"
    and inv: "index_server_inv s1"
    using index.step_inv [OF Cons.prems [folded index_inv_iff]] unfolding index_inv_iff by blast
  from Cons.IH [OF inv] step show ?case unfolding e by auto
qed simp

lemma new_server_inv:
  assumes "simple_verifier_new ticks_to_live = Ok v"
  shows "index_server_inv (index_server_new pk_less local_pk trusted v)"
proof -
  have "known_nodes simple_capacity_graph_new = {}"
    by (auto simp: known_nodes_def view_no_node simple_capacity_graph_new_def)
  then show ?thesis using verifier_new_ok [OF assms] graph_ok_new
    by (simp add: index_server_inv_def index_server_new_def)
qed

text \<open>
  C11: An index server that was created with a positive time to live handles every sequence of
  events without a panic, whatever the channels do. At every point each node that still has
  edges in the graph is followed by the verifier, so that a tick will report it, and have it
  removed, when its messages stop.
\<close>

theorem index_server_never_panics:
  assumes "0 < ticks_to_live"
  shows "\<exists>v out s'. simple_verifier_new ticks_to_live = Ok v
    \<and> server_run C (simple_verifier_api C) pk_less events (index_server_new pk_less local_pk trusted v) = Ok (out, s')
    \<and> known_nodes (is_graph s') \<subseteq> followed_nodes (is_verifier s') \<and> graph_ok (is_graph s')"
proof -
  obtain v :: "(public_key, public_key, uid) simple_verifier" where v: "simple_verifier_new ticks_to_live = Ok v"
    using assms by (auto simp: simple_verifier_new_def hash_clock_new_def)
  from run_inv [OF new_server_inv [OF v]] obtain out s' where
    "server_run C (simple_verifier_api C) pk_less events (index_server_new pk_less local_pk trusted v) = Ok (out, s')"
    "index_server_inv s'" by blast
  with v show ?thesis by (auto simp: index_server_inv_def)
qed

definition example_events :: "(server_event \<times> (public_key \<Rightarrow> send_outcome) \<times> (public_key \<Rightarrow> send_outcome)) list" where
  "example_events = map (\<lambda>e. (e, \<lambda>_. Sent, \<lambda>_. QueueFull))
     [SeServerConnection [2], SeTimerTick [1],
      SeClientMutationsUpdate \<lparr> mu_node_public_key = [7], mu_index_mutations =
          [UpdateFriend \<lparr> uf_public_key = [8], uf_send_capacity = 10, uf_recv_capacity = 20, uf_rate = rate_zero \<rparr>],
        mu_time_hash = [240], mu_session_id = [5], mu_counter = 0, mu_rand_nonce = [6], mu_signature = [9] \<rparr>,
      SeFromServer [2] None, SeTimerTick [2]]"

theorem index_server_never_panics_witness:
  "(0 :: nat) < 3 \<and> (\<exists>v out s'. simple_verifier_new 3 = Ok v
    \<and> server_run example_hash (simple_verifier_api example_hash) (\<lambda>x y. False) example_events
        (index_server_new (\<lambda>x y. False) [1] [([2], ())] v) = Ok (out, s')
    \<and> known_nodes (is_graph s') \<subseteq> followed_nodes (is_verifier s') \<and> graph_ok (is_graph s'))"
  by (rule conjI, simp, rule index_server_never_panics, simp)

definition update_of_event :: "server_event \<Rightarrow> forward_mutations_update option" where
  "update_of_event event =
     (case event of
        SeFromServer pk (Some (IssForwardMutationsUpdate fmu)) \<Rightarrow> Some fmu
      | SeClientMutationsUpdate mu \<Rightarrow> Some \<lparr> fmu_mutations_update = mu, fmu_time_proof_chain = [] \<rparr>
      | _ \<Rightarrow> None)"

lemma handle_update_other:
  assumes "graph_ok (is_graph s)" and "handle_forward_mutations_update C V chan opt_server fmu s = Ok (out, s')"
    and "edge_view (is_graph s') a \<noteq> edge_view (is_graph s) a"
  shows "verify_mutations_update C (fmu_mutations_update fmu) \<and> mu_node_public_key (fmu_mutations_update fmu) = a
    \<and> (\<exists>hashes v'. va_verify V (mu_time_hash (fmu_mutations_update fmu)) (map tpl_hashes (fmu_time_proof_chain fmu)) a
        (mu_session_id (fmu_mutations_update fmu)) (mu_counter (fmu_mutations_update fmu)) (is_verifier s) = Ok (Some hashes, v'))"
  using assms(2)
proof (cases rule: handle_update_cases)
  case (fresh hashes v' servers')
  have "mu_node_public_key (fmu_mutations_update fmu) = a"
    using update_other_nodes [OF assms(1), of a "fmu_mutations_update fmu"] assms(3) fresh(3) by auto
  with fresh(1,2) show ?thesis by blast
qed (use assms(3) in simp_all)

text \<open>
  C30: The edges of a node change only by an update that carries a valid signature of this node
  and that the verifier accepted as fresh, or when a tick removes the node; then nothing of it
  is left.
\<close>

theorem edges_changed_by_owner:
  assumes "graph_ok (is_graph s)" and "server_loop_step C V pk_less chan client_chan event s = Ok (out, s')"
    and "edge_view (is_graph s') a \<noteq> edge_view (is_graph s) a"
  shows "(\<exists>fmu hashes v'. update_of_event event = Some fmu \<and> mu_node_public_key (fmu_mutations_update fmu) = a
        \<and> verify_mutations_update C (fmu_mutations_update fmu)
        \<and> va_verify V (mu_time_hash (fmu_mutations_update fmu)) (map tpl_hashes (fmu_time_proof_chain fmu)) a
            (mu_session_id (fmu_mutations_update fmu)) (mu_counter (fmu_mutations_update fmu)) (is_verifier s)
            = Ok (Some hashes, v'))
    \<or> (\<exists>rand. event = SeTimerTick rand \<and> edge_view (is_graph s') a = Map.empty)"
proof (cases event)
  case (SeFromServer pk opt_msg)
  show ?thesis
  proof (cases opt_msg)
    case None
    then show ?thesis using assms SeFromServer by (auto simp: server_loop_step_def split: option.splits)
  next
    case (Some msg)
    then show ?thesis using assms SeFromServer handle_update_other [OF assms(1) _ assms(3)]
      by (cases msg) (auto simp: server_loop_step_def handle_from_server_def update_of_event_def)
  qed
next
  case (SeClientMutationsUpdate mu)
  have "handle_forward_mutations_update C V chan None \<lparr> fmu_mutations_update = mu, fmu_time_proof_chain = [] \<rparr> s = Ok (out, s')"
    using assms(2) SeClientMutationsUpdate by (simp add: server_loop_step_def)
  from handle_update_other [OF assms(1) this assms(3)] show ?thesis
    using SeClientMutationsUpdate by (simp add: update_of_event_def)
next
  case (SeTimerTick rand)
  then obtain nodes where "is_graph s' = fold graph_step (map GrRemoveNode nodes) (is_graph s)"
    using assms(2) by (auto simp: server_loop_step_def handle_timer_tick_def res_bind_Ok Let_def removed_graph case_prod_unfold)
  then show ?thesis using assms(3) SeTimerTick store.run_view [OF assms(1)] by (auto simp: removed_view split: if_splits)
qed (use assms in \<open>auto simp: server_loop_step_def split: option.splits remote_server_state.splits if_splits\<close>)

definition example_index_server :: "(unit, (public_key, public_key, uid) simple_verifier) index_server" where
  "example_index_server = \<lparr> is_local_public_key = [1], is_graph = simple_capacity_graph_new,
     is_verifier = \<lparr>
       sv_hash_clock = \<lparr> hc_neighbor_hashes = [], hc_last_ticks_max_len = 3, hc_last_ticks = [[240]],
                         hc_last_ticks_map = [([240], [[1], [2]])] \<rparr>,
       sv_ratchet_pool = \<lparr> rp_ratchets = [], rp_ratchet_ticks_to_live = 3 \<rparr> \<rparr>,
     is_remote_servers = [([2], \<lparr> rsv_address = (), rsv_state = RssConnected True \<rparr>)], is_clients = [] \<rparr>"

definition example_update :: mutations_update where
  "example_update = \<lparr> mu_node_public_key = [7], mu_index_mutations =
      [UpdateFriend \<lparr> uf_public_key = [8], uf_send_capacity = 10, uf_recv_capacity = 20, uf_rate = rate_zero \<rparr>],
    mu_time_hash = [240], mu_session_id = [5], mu_counter = 0, mu_rand_nonce = [6], mu_signature = [9] \<rparr>"

lemma example_update_applied:
  "case server_loop_step example_hash (simple_verifier_api example_hash) (\<lambda>x y. False) (\<lambda>_. Sent) (\<lambda>_. Sent)
      (SeClientMutationsUpdate example_update) example_index_server of
     Ok (out, s') \<Rightarrow> length out = 1 \<and> get_edge (is_graph s') [7] [8] \<noteq> None | _ \<Rightarrow> False"
  by code_simp

theorem edges_changed_by_owner_witness:
  "\<exists>out s' hashes v'. server_loop_step example_hash (simple_verifier_api example_hash) (\<lambda>x y. False) (\<lambda>_. Sent) (\<lambda>_. Sent)
      (SeClientMutationsUpdate example_update) example_index_server = Ok (out, s')
    \<and> edge_view (is_graph s') [7] \<noteq> edge_view (is_graph example_index_server) [7]
    \<and> va_verify (simple_verifier_api example_hash) [240] [] [7] [5] 0 (is_verifier example_index_server) = Ok (Some hashes, v')"
proof -
  have ok: "graph_ok (is_graph example_index_server)" by (simp add: example_index_server_def graph_ok_new)
  obtain out s' where run: "server_loop_step example_hash (simple_verifier_api example_hash) (\<lambda>x y. False) (\<lambda>_. Sent) (\<lambda>_. Sent)
      (SeClientMutationsUpdate example_update) example_index_server = Ok (out, s')" "get_edge (is_graph s') [7] [8] \<noteq> None"
    using example_update_applied by (auto split: res.splits)
  have "edge_view (is_graph example_index_server) [7] [8] = None"
    by (simp add: example_index_server_def simple_capacity_graph_new_def view_no_node)
  then have changed: "edge_view (is_graph s') [7] \<noteq> edge_view (is_graph example_index_server) [7]"
    using run(2) by (metis edge_view_def)
  from edges_changed_by_owner [OF ok run(1) changed] run(1) changed show ?thesis
    by (auto simp: update_of_event_def example_update_def)
qed

text \<open>
  The signature of an update does not cover the rates: replacing the rate of any friend in an
  update leaves the signed bytes, and so the result of the verification, as they were.
\<close>

theorem mutation_signature_ignores_rate:
  "verify_mutations_update C (mu\<lparr> mu_index_mutations := ms @ UpdateFriend uf # ms' \<rparr>) =
   verify_mutations_update C (mu\<lparr> mu_index_mutations := ms @ UpdateFriend (uf\<lparr> uf_rate := r \<rparr>) # ms' \<rparr>)"
  by (simp add: verify_mutations_update_def mutations_signature_buff_def serialize_index_mutation_def
      serialize_update_friend_def)

end
