(* ===== verification/MultiRoute.thy ===== *)
theory MultiRoute
  imports IndexServer "HOL-Library.Multiset"
begin

text \<open>
  The division of a payment over the routes of a multi route
  (\<open>stctrl/src/multi_route_util.rs\<close>). The routes are sorted by what they can carry; the amount
  is then taken from the top, so that what is left in the routes that are used is level.

  The two loops return \<open>Panic\<close> where a checked operation of the code would. A \<open>BigUint\<close> is an
  integer; its \<open>checked_sub\<close> fails when the result would be negative.
\<close>

section \<open>The code\<close>

type_synonym multi_route_choice = "(nat \<times> u128) list"

function fill_loop ::
  "(nat option \<times> u128) list \<Rightarrow> nat \<Rightarrow> int \<Rightarrow> ((nat \<times> int) option, unit) res" where
  "fill_loop sorted_routes i amount_left =
     (if i < length sorted_routes then
        res_bind (unwrap (u_checked_sub (snd (sorted_routes ! (i - 1))) (snd (sorted_routes ! i)))) (\<lambda>d.
          let added_credits = uint d * int i
          in if added_credits \<le> amount_left
             then fill_loop sorted_routes (i + 1) (amount_left - added_credits)
             else Ok (Some (i, amount_left)))
      else Ok None)"
  by pat_completeness auto
termination by (relation "measure (\<lambda>(rs, i, _). length rs - i)") auto

declare fill_loop.simps [simp del]

definition fill_amount ::
  "u128 \<Rightarrow> (nat option \<times> u128) list \<Rightarrow> ((nat \<times> int) option, unit) res" where
  "fill_amount amount sorted_routes = fill_loop sorted_routes 1 (uint amount)"

text \<open>The indices of the routes, with what each can carry, largest first, and a zero entry.\<close>

fun route_limits :: "nat \<Rightarrow> route_capacity_rate list \<Rightarrow> ((nat option \<times> u128) list, unit) res" where
  "route_limits j [] = Ok []"
| "route_limits j (route # routes) =
     res_bind (unwrap (max_payable (rcr_rate route) (rcr_capacity route))) (\<lambda>x.
     res_bind (route_limits (j + 1) routes) (\<lambda>rest. Ok ((Some j, x) # rest)))"

definition sort_routes :: "(nat option \<times> u128) list \<Rightarrow> (nat option \<times> u128) list" where
  "sort_routes limits = sort_key (\<lambda>(_, a). - uint a) limits @ [(None, 0)]"

text \<open>
  The loop over \<open>(0..num_routes).rev()\<close>; the number argument is how many indices are left.
\<close>

fun choose_loop ::
  "(nat option \<times> u128) list \<Rightarrow> u128 \<Rightarrow> u128 \<Rightarrow> nat \<Rightarrow> u128 \<Rightarrow> multi_route_choice
    \<Rightarrow> (multi_route_choice, unit) res" where
  "choose_loop sorted_routes div_extra mod_extra 0 accum_credits chosen_routes = Ok chosen_routes"
| "choose_loop sorted_routes div_extra mod_extra (Suc i) accum_credits chosen_routes =
     res_bind (unwrap (u_checked_add accum_credits div_extra)) (\<lambda>num_credits.
     res_bind (if int i < uint mod_extra then unwrap (u_checked_add num_credits 1) else Ok num_credits) (\<lambda>num_credits.
     res_bind (unwrap (fst (sorted_routes ! i))) (\<lambda>index.
       let chosen_routes = chosen_routes @ [(index, num_credits)]
       in case i of
            0 \<Rightarrow> choose_loop sorted_routes div_extra mod_extra i accum_credits chosen_routes
          | Suc prev_i \<Rightarrow>
              res_bind (unwrap (u_checked_sub (snd (sorted_routes ! prev_i)) (snd (sorted_routes ! i)))) (\<lambda>diff.
              res_bind (unwrap (u_checked_add accum_credits diff)) (\<lambda>accum_credits.
                choose_loop sorted_routes div_extra mod_extra i accum_credits chosen_routes)))))"

definition safe_multi_route_amounts ::
  "multi_route \<Rightarrow> u128 \<Rightarrow> (multi_route_choice option, unit) res" where
  "safe_multi_route_amounts multi_route amount =
     res_bind (route_limits 0 (mr_routes multi_route)) (\<lambda>limits.
       let sorted_routes = sort_routes limits
       in res_bind (fill_amount amount sorted_routes) (\<lambda>filled.
            case filled of
              None \<Rightarrow> Ok None
            | Some (num_routes, amount_left) \<Rightarrow>
                res_bind (unwrap (to_u128 (amount_left div int num_routes))) (\<lambda>div_extra.
                res_bind (unwrap (to_u128 (amount_left mod int num_routes))) (\<lambda>mod_extra.
                res_bind (choose_loop sorted_routes div_extra mod_extra num_routes 0 []) (\<lambda>chosen_routes.
                  Ok (Some chosen_routes))))))"

fun choose_multi_route_from ::
  "nat \<Rightarrow> multi_route list \<Rightarrow> u128 \<Rightarrow> ((nat \<times> multi_route_choice) option, unit) res" where
  "choose_multi_route_from i [] amount = Ok None"
| "choose_multi_route_from i (multi_route # multi_routes) amount =
     res_bind (safe_multi_route_amounts multi_route amount) (\<lambda>r.
       case r of
         Some multi_route_choice \<Rightarrow> Ok (Some (i, multi_route_choice))
       | None \<Rightarrow> choose_multi_route_from (i + 1) multi_routes amount)"

definition choose_multi_route ::
  "multi_route list \<Rightarrow> u128 \<Rightarrow> ((nat \<times> multi_route_choice) option, unit) res" where
  "choose_multi_route multi_routes amount = choose_multi_route_from 0 multi_routes amount"

section \<open>The sorted routes\<close>

text \<open>What a route can carry; \<open>max_payable\<close> never panics.\<close>

definition route_limit :: "route_capacity_rate \<Rightarrow> int" where
  "route_limit route = (case max_payable (rcr_rate route) (rcr_capacity route) of Some x \<Rightarrow> uint x | None \<Rightarrow> 0)"

lemma max_payable_total: "\<exists>x. max_payable r c = Some x"
proof (cases "uint (rate_add r) \<le> uint c")
  case True
  then show ?thesis using max_payable_Some by blast
next
  case False
  then have "u_checked_sub c (ucast (rate_add r)) = None"
    by (simp add: u_checked_sub_None uint_rate_add_ucast)
  then show ?thesis by (simp add: max_payable_def)
qed

lemma route_limits_Ok:
  "\<exists>limits. route_limits j routes = Ok limits
    \<and> map fst limits = map Some [j..<j + length routes]
    \<and> map (uint \<circ> snd) limits = map route_limit routes"
proof (induction routes arbitrary: j)
  case Nil
  then show ?case by simp
next
  case (Cons route routes)
  obtain x where x: "max_payable (rcr_rate route) (rcr_capacity route) = Some x"
    using max_payable_total by blast
  obtain limits where "route_limits (j + 1) routes = Ok limits"
      "map fst limits = map Some [j + 1..<j + 1 + length routes]"
      "map (uint \<circ> snd) limits = map route_limit routes"
    using Cons [of "j + 1"] by blast
  then have "route_limits j (route # routes) = Ok ((Some j, x) # limits)"
      "map fst ((Some j, x) # limits) = map Some [j..<j + length (route # routes)]"
      "map (uint \<circ> snd) ((Some j, x) # limits) = map route_limit (route # routes)"
    using x by (simp_all add: route_limit_def upt_conv_Cons del: upt_Suc)
  then show ?case by blast
qed

text \<open>
  What the two loops rely on: entries that fall to a last one of zero, all of them but the last
  with an index.
\<close>

definition level_at :: "(nat option \<times> u128) list \<Rightarrow> nat \<Rightarrow> int" where
  "level_at rs i = uint (snd (rs ! i))"

definition descending :: "(nat option \<times> u128) list \<Rightarrow> bool" where
  "descending rs = (\<forall>i. Suc i < length rs \<longrightarrow> level_at rs (Suc i) \<le> level_at rs i)"

lemma descending_le:
  assumes "descending rs" "i \<le> j" "j < length rs"
  shows "level_at rs j \<le> level_at rs i"
  using assms(2,3)
proof (induction j)
  case (Suc j)
  then show ?case using assms(1) by (cases "i = Suc j") (auto simp: descending_def intro: order_trans)
qed simp

lemma sort_routes_descending: "descending (sort_routes limits)"
proof -
  let ?s = "sort_key (\<lambda>(_, a :: u128). - uint a) limits"
  have "level_at (?s @ [(None, 0)]) (Suc i) \<le> level_at (?s @ [(None, 0)]) i"
    if "Suc i < length (?s @ [(None, 0)])" for i
  proof (cases "Suc i < length ?s")
    case True
    have "sorted (map (\<lambda>(_, a :: u128). - uint a) ?s)" by simp
    then have "map (\<lambda>(_, a :: u128). - uint a) ?s ! i \<le> map (\<lambda>(_, a :: u128). - uint a) ?s ! Suc i"
      using True by (intro sorted_nth_mono) auto
    then show ?thesis using True by (simp add: level_at_def nth_append split_def)
  next
    case False
    then have "Suc i = length ?s" using that by simp
    then show ?thesis by (simp add: level_at_def nth_append)
  qed
  then show ?thesis unfolding descending_def sort_routes_def by blast
qed

section \<open>Filling\<close>

text \<open>What is taken when the first \<open>k\<close> entries are lowered to the level of entry \<open>k\<close>.\<close>

definition taken_to :: "(nat option \<times> u128) list \<Rightarrow> nat \<Rightarrow> int" where
  "taken_to rs k = (\<Sum>j<k. level_at rs j - level_at rs k)"

lemma taken_to_0 [simp]: "taken_to rs 0 = 0"
  by (simp add: taken_to_def)

lemma taken_to_Suc:
  "taken_to rs (Suc k) = taken_to rs k + (level_at rs k - level_at rs (Suc k)) * int (Suc k)"
  by (simp add: taken_to_def sum_subtractf algebra_simps)

lemma fill_loop_step:
  assumes "descending rs" "Suc i < length rs"
  shows "fill_loop rs (Suc i) a =
    (if (level_at rs i - level_at rs (Suc i)) * int (Suc i) \<le> a
     then fill_loop rs (Suc (Suc i)) (a - (level_at rs i - level_at rs (Suc i)) * int (Suc i))
     else Ok (Some (Suc i, a)))"
proof -
  have "level_at rs (Suc i) \<le> level_at rs i" using assms by (simp add: descending_def)
  then obtain d where "u_checked_sub (snd (rs ! i)) (snd (rs ! Suc i)) = Some d"
    using u_checked_sub_None [of "snd (rs ! i)" "snd (rs ! Suc i)"]
    by (cases "u_checked_sub (snd (rs ! i)) (snd (rs ! Suc i))") (auto simp: level_at_def)
  moreover from this have "uint d = level_at rs i - level_at rs (Suc i)"
    by (simp add: u_checked_sub_Some level_at_def)
  ultimately show ?thesis using assms(2) by (simp add: fill_loop.simps [of rs "Suc i"] Let_def)
qed

lemma taken_to_mono:
  assumes "descending rs" "i \<le> j" "j < length rs"
  shows "taken_to rs i \<le> taken_to rs j"
  using assms(2,3)
proof (induction j rule: dec_induct)
  case (step n)
  have "level_at rs (Suc n) \<le> level_at rs n" using assms(1) step.prems by (simp add: descending_def)
  then have "0 \<le> (level_at rs n - level_at rs (Suc n)) * int (Suc n)" by simp
  then show ?case using step by (simp add: taken_to_Suc del: of_nat_Suc)
qed simp

lemma fill_loop_spec:
  assumes "descending rs" "i < length rs" "taken_to rs i \<le> a"
  shows "if taken_to rs (length rs - 1) \<le> a
    then fill_loop rs (Suc i) (a - taken_to rs i) = Ok None
    else \<exists>k. fill_loop rs (Suc i) (a - taken_to rs i) = Ok (Some (Suc k, a - taken_to rs k))
      \<and> Suc k < length rs \<and> taken_to rs k \<le> a \<and> a < taken_to rs (Suc k)"
  using assms(2,3)
proof (induction "length rs - Suc i" arbitrary: i)
  case 0
  then have i: "i = length rs - 1" and stop: "\<not> Suc i < length rs" by simp_all
  from stop have "fill_loop rs (Suc i) b = Ok None" for b by (simp add: fill_loop.simps)
  with 0 i show ?case by simp
next
  case (Suc n)
  then have i: "Suc i < length rs" by simp
  have step: "fill_loop rs (Suc i) (a - taken_to rs i) =
    (if taken_to rs (Suc i) \<le> a then fill_loop rs (Suc (Suc i)) (a - taken_to rs (Suc i))
     else Ok (Some (Suc i, a - taken_to rs i)))"
    using fill_loop_step [OF assms(1) i, of "a - taken_to rs i"] by (simp add: taken_to_Suc algebra_simps)
  show ?case
  proof (cases "taken_to rs (Suc i) \<le> a")
    case True
    have "n = length rs - Suc (Suc i)" using Suc.hyps(2) by simp
    from Suc.hyps(1) [OF this i True] show ?thesis using True by (simp add: step)
  next
    case False
    have "taken_to rs (Suc i) \<le> taken_to rs (length rs - 1)"
      using i by (intro taken_to_mono assms(1)) auto
    then show ?thesis using False i Suc.prems by (auto simp: step)
  qed
qed

section \<open>Choosing\<close>

text \<open>What entry \<open>i\<close> is given when \<open>k\<close> entries are used.\<close>

definition share :: "(nat option \<times> u128) list \<Rightarrow> nat \<Rightarrow> int \<Rightarrow> int \<Rightarrow> nat \<Rightarrow> int" where
  "share rs k d m i = level_at rs i - level_at rs (k - 1) + d + (if int i < m then 1 else 0)"

lemma u128_add_ok:
  assumes "uint a + uint b < 2 ^ 128"
  shows "\<exists>c. u_checked_add (a :: u128) b = Some c \<and> uint c = uint a + uint b"
  using assms by (cases "u_checked_add a b") (auto simp: u_checked_add_None u_checked_add_Some)

lemma u128_sub_ok:
  assumes "uint b \<le> uint a"
  shows "\<exists>c. u_checked_sub (a :: u128) b = Some c \<and> uint c = uint a - uint b"
  using assms by (cases "u_checked_sub a b") (auto simp: u_checked_sub_None u_checked_sub_Some)

lemma level_at_bounds: "0 \<le> level_at rs i" "level_at rs i < 2 ^ 128"
  using u128_range(2) [of "snd (rs ! i)"] by (simp_all add: level_at_def)

lemma share_computed:
  fixes acc d m :: u128
  assumes "descending rs" "k < length rs" "i < k"
    and "uint d + 1 \<le> level_at rs (k - 1)" "uint acc = level_at rs i - level_at rs (k - 1)"
  shows "\<exists>x. res_bind (unwrap (u_checked_add acc d)) (\<lambda>n.
      res_bind (if int i < uint m then unwrap (u_checked_add n 1) else Ok n) f) = f x
    \<and> uint x = share rs k (uint d) (uint m) i"
proof -
  have "level_at rs (k - 1) \<le> level_at rs i"
    using descending_le [OF assms(1), of i "k - 1"] assms(2,3) by simp
  note lev = this level_at_bounds [of rs i]
  have "uint acc + uint d < 2 ^ 128" using assms(4,5) lev by linarith
  then obtain n where n: "u_checked_add acc d = Some n" "uint n = uint acc + uint d"
    using u128_add_ok by blast
  have "uint n + uint (1 :: u128) < 2 ^ 128" using n(2) assms(4,5) lev by simp
  then obtain n' where n': "u_checked_add n 1 = Some n'" "uint n' = uint n + 1"
    using u128_add_ok [of n 1] by auto
  show ?thesis
    by (rule exI [of _ "if int i < uint m then n' else n"])
      (simp add: n n' share_def assms(5))
qed

lemma choose_loop_spec:
  assumes desc: "descending rs" and k: "k < length rs" and "i \<le> k"
    and named: "\<And>j. j < k \<Longrightarrow> fst (rs ! j) \<noteq> None"
    and room: "uint d + 1 \<le> level_at rs (k - 1)"
    and acc: "0 < i \<Longrightarrow> uint acc = level_at rs (i - 1) - level_at rs (k - 1)"
  shows "\<exists>choice. choose_loop rs d m i acc chosen = Ok (chosen @ choice)
    \<and> map fst choice = map (\<lambda>j. the (fst (rs ! j))) (rev [0..<i])
    \<and> map (uint \<circ> snd) choice = map (share rs k (uint d) (uint m)) (rev [0..<i])"
  using assms(3) acc
proof (induction i arbitrary: acc chosen)
  case 0
  then show ?case by simp
next
  case (Suc i)
  have acc: "uint acc = level_at rs i - level_at rs (k - 1)" using Suc.prems(2) by simp
  have i: "i < k" "i \<le> k" using Suc.prems(1) by simp_all
  obtain ix where ix: "fst (rs ! i) = Some ix" using named [OF i(1)] by blast
  obtain x where x: "choose_loop rs d m (Suc i) acc chosen =
      (case i of 0 \<Rightarrow> choose_loop rs d m i acc (chosen @ [(ix, x)])
       | Suc prev \<Rightarrow> res_bind (unwrap (u_checked_sub (snd (rs ! prev)) (snd (rs ! i)))) (\<lambda>diff.
           res_bind (unwrap (u_checked_add acc diff)) (\<lambda>acc.
             choose_loop rs d m i acc (chosen @ [(ix, x)]))))"
      "uint x = share rs k (uint d) (uint m) i"
    using share_computed [OF desc k i(1) room acc, where m = m and f = "\<lambda>x.
      case i of 0 \<Rightarrow> choose_loop rs d m i acc (chosen @ [(ix, x)])
       | Suc prev \<Rightarrow> res_bind (unwrap (u_checked_sub (snd (rs ! prev)) (snd (rs ! i)))) (\<lambda>diff.
           res_bind (unwrap (u_checked_add acc diff)) (\<lambda>acc.
             choose_loop rs d m i acc (chosen @ [(ix, x)])))"] by (auto simp: ix Let_def)
  obtain acc' where acc': "0 < i \<Longrightarrow> uint acc' = level_at rs (i - 1) - level_at rs (k - 1)"
    and eq: "choose_loop rs d m (Suc i) acc chosen = choose_loop rs d m i acc' (chosen @ [(ix, x)])"
  proof (cases i)
    case 0
    then show ?thesis using that x(1) by simp
  next
    case (Suc prev)
    have "level_at rs i \<le> level_at rs prev"
      using descending_le [OF desc, of prev i] Suc i k by simp
    then obtain diff where diff: "u_checked_sub (snd (rs ! prev)) (snd (rs ! i)) = Some diff"
        "uint diff = level_at rs prev - level_at rs i"
      using u128_sub_ok by (force simp: level_at_def)
    have "uint acc + uint diff < 2 ^ 128"
      using acc diff(2) level_at_bounds(1) [of rs "k - 1"] level_at_bounds(2) [of rs prev] by simp
    then obtain acc' where "u_checked_add acc diff = Some acc'" "uint acc' = uint acc + uint diff"
      using u128_add_ok by blast
    then show ?thesis using that [of acc'] x(1) diff acc Suc by simp
  qed
  from Suc.IH [OF i(2) acc', of "chosen @ [(ix, x)]"] obtain choice where
    "choose_loop rs d m i acc' (chosen @ [(ix, x)]) = Ok ((chosen @ [(ix, x)]) @ choice)"
    "map fst choice = map (\<lambda>j. the (fst (rs ! j))) (rev [0..<i])"
    "map (uint \<circ> snd) choice = map (share rs k (uint d) (uint m)) (rev [0..<i])"
    by blast
  then have "choose_loop rs d m (Suc i) acc chosen = Ok (chosen @ ((ix, x) # choice))"
    "map fst ((ix, x) # choice) = map (\<lambda>j. the (fst (rs ! j))) (rev [0..<Suc i])"
    "map (uint \<circ> snd) ((ix, x) # choice) = map (share rs k (uint d) (uint m)) (rev [0..<Suc i])"
    using eq ix x(2) by simp_all
  then show ?case by blast
qed

section \<open>The whole division\<close>

definition limits_of :: "(nat option \<times> u128) list \<Rightarrow> int list \<Rightarrow> bool" where
  "limits_of limits L = (map fst limits = map Some [0..<length L] \<and> map (uint \<circ> snd) limits = L)"

lemma limits_of_length: "limits_of limits L \<Longrightarrow> length limits = length L"
  by (auto simp: limits_of_def)

lemma limits_of_nth:
  assumes "limits_of limits L" "i < length L"
  shows "fst (limits ! i) = Some i" "uint (snd (limits ! i)) = L ! i"
proof -
  have "map fst limits ! i = Some i" using assms by (simp add: limits_of_def)
  then show "fst (limits ! i) = Some i" using assms limits_of_length by fastforce
  have "map (uint \<circ> snd) limits ! i = L ! i" using assms by (simp add: limits_of_def)
  then show "uint (snd (limits ! i)) = L ! i" using assms limits_of_length by fastforce
qed

abbreviation by_limit :: "(nat option \<times> u128) list \<Rightarrow> (nat option \<times> u128) list" where
  "by_limit limits \<equiv> sort_key (\<lambda>(_, a). - uint a) limits"

lemma sort_routes_nth:
  "j < length limits \<Longrightarrow> sort_routes limits ! j = by_limit limits ! j"
  "length (sort_routes limits) = Suc (length limits)"
  "level_at (sort_routes limits) (length limits) = 0"
  by (simp_all add: sort_routes_def nth_append level_at_def)

lemma sort_routes_map:
  "map f (by_limit limits) = map (\<lambda>j. f (sort_routes limits ! j)) [0..<length limits]"
  by (intro nth_equalityI) (simp_all add: sort_routes_nth)

lemma sort_routes_entry:
  assumes "limits_of limits L" "j < length L"
  shows "\<exists>ix < length L. fst (sort_routes limits ! j) = Some ix \<and> level_at (sort_routes limits) j = L ! ix"
proof -
  note n = limits_of_length [OF assms(1)]
  have "by_limit limits ! j \<in> set limits" using assms(2) n by (metis length_sort nth_mem set_sort)
  then obtain i where "i < length L" "by_limit limits ! j = limits ! i" using n by (metis in_set_conv_nth)
  then show ?thesis using limits_of_nth [OF assms(1)] sort_routes_nth(1) assms(2) n
    by (metis level_at_def)
qed

lemma sort_routes_covers:
  assumes "limits_of limits L" "ix < length L"
  shows "\<exists>j < length L. fst (sort_routes limits ! j) = Some ix"
proof -
  note n = limits_of_length [OF assms(1)]
  have "limits ! ix \<in> set (by_limit limits)" using assms(2) n by simp
  then obtain j where "j < length L" "by_limit limits ! j = limits ! ix"
    using n by (metis in_set_conv_nth length_sort)
  then show ?thesis using limits_of_nth(1) [OF assms] sort_routes_nth(1) n by metis
qed

lemma sort_routes_distinct:
  assumes "limits_of limits L"
  shows "distinct (map (\<lambda>j. the (fst (sort_routes limits ! j))) [0..<length L])"
proof -
  have fst: "map fst limits = map Some [0..<length L]" using assms by (simp add: limits_of_def)
  have "mset (map fst (by_limit limits)) = mset (map fst limits)" by simp
  then have "distinct (map fst (by_limit limits))"
    unfolding fst by (metis distinct_map distinct_upt inj_Some mset_eq_imp_distinct_iff inj_on_subset subset_UNIV)
  moreover have "set (map fst (by_limit limits)) = Some ` {..<length L}"
    using arg_cong [OF fst, of set] by (simp add: atLeast0LessThan)
  moreover have "inj_on the (Some ` {..<length L})" by (auto intro: inj_onI)
  ultimately have "distinct (map the (map fst (by_limit limits)))"
    by (metis distinct_map)
  then show ?thesis
    using sort_routes_map [of "the \<circ> fst" limits] limits_of_length [OF assms] by (simp add: comp_def)
qed

lemma sort_routes_total:
  assumes "limits_of limits L"
  shows "taken_to (sort_routes limits) (length L) = sum_list L"
proof -
  have "(\<Sum>j<length L. level_at (sort_routes limits) j) = sum_list (map (uint \<circ> snd) (by_limit limits))"
    using sort_routes_map [of "uint \<circ> snd" limits] limits_of_length [OF assms]
    by (simp add: level_at_def comp_def interv_sum_list_conv_sum_set_nat atLeast0LessThan)
  also have "mset (map (uint \<circ> snd) (by_limit limits)) = mset (map (uint \<circ> snd) limits)"
    by simp
  then have "sum_list (map (uint \<circ> snd) (by_limit limits)) = sum_list (map (uint \<circ> snd) limits)"
    by (metis sum_mset_sum_list)
  finally show ?thesis
    using assms limits_of_length [OF assms] sort_routes_nth(3) [of limits]
    by (simp add: taken_to_def limits_of_def)
qed

text \<open>The shares of the first entries add up to the amount.\<close>

lemma sum_shares:
  assumes "0 < k" "0 \<le> m" "m < int k"
  shows "(\<Sum>i<k. share rs k d m i) = taken_to rs (k - 1) + d * int k + m"
proof -
  have "(\<Sum>i<k. if int i < m then 1 else 0 :: int) = int (card {i. i < k \<and> int i < m})"
    by (simp add: sum.If_cases Int_def)
  also have "{i. i < k \<and> int i < m} = {..<nat m}" using assms by auto
  finally have "(\<Sum>i<k. if int i < m then 1 else 0 :: int) = m" using assms by simp
  moreover have "(\<Sum>i<k. level_at rs i - level_at rs (k - 1)) = taken_to rs (k - 1)"
    using assms(1) by (cases k) (simp_all add: taken_to_def)
  ultimately show ?thesis by (simp add: share_def sum.distrib)
qed

text \<open>
  The outcome of a division: the shares add up to the amount, no route has two, and what is left
  in the routes that are used is level up to one credit and at least what any other route has.
\<close>

definition level_division :: "int list \<Rightarrow> int \<Rightarrow> multi_route_choice \<Rightarrow> bool" where
  "level_division L amount choice =
     (distinct (map fst choice) \<and> (\<forall>(j, x) \<in> set choice. j < length L \<and> 0 < L ! j)
      \<and> sum_list (map (uint \<circ> snd) choice) = amount
      \<and> (\<exists>level \<ge> 0. (\<forall>(j, x) \<in> set choice. level \<le> L ! j - uint x \<and> L ! j - uint x \<le> level + 1)
           \<and> (\<forall>j < length L. j \<notin> fst ` set choice \<longrightarrow> L ! j \<le> level)))"

lemma chosen_entry:
  assumes "map fst choice = map f (rev [0..<k])" "map (uint \<circ> snd) choice = map g (rev [0..<k])"
    and "(j, x) \<in> set choice"
  shows "\<exists>i < k. j = f i \<and> uint x = g i"
proof -
  have len: "length choice = k" using assms(1) by (metis length_map length_rev length_upt minus_nat.diff_0)
  obtain t where t: "t < k" "choice ! t = (j, x)" using assms(3) len by (auto simp: in_set_conv_nth)
  then have "rev [0..<k] ! t < k" by (simp add: rev_nth)
  moreover have "j = f (rev [0..<k] ! t)" "uint x = g (rev [0..<k] ! t)"
    using arg_cong [OF assms(1), of "\<lambda>l. l ! t"] arg_cong [OF assms(2), of "\<lambda>l. l ! t"] t len by simp_all
  ultimately show ?thesis by blast
qed

lemma chosen_level:
  assumes lim: "limits_of limits L" and k: "0 < k" "k \<le> length L"
    and choice: "map fst choice = map (\<lambda>j. the (fst (sort_routes limits ! j))) (rev [0..<k])"
      "map (uint \<circ> snd) choice = map (share (sort_routes limits) k d m) (rev [0..<k])"
    and m: "0 \<le> m" "m < int k" "0 \<le> d" and room: "d + 1 \<le> level_at (sort_routes limits) (k - 1) - level_at (sort_routes limits) k"
    and amount: "amount = taken_to (sort_routes limits) (k - 1) + d * int k + m"
  shows "level_division L amount choice"
proof -
  let ?rs = "sort_routes limits" and ?ix = "\<lambda>j. the (fst (sort_routes limits ! j))"
  define level where "level = level_at ?rs (k - 1) - d - 1"
  note entries = chosen_entry [OF choice]
  have used: "fst ` set choice = ?ix ` {..<k}"
    using arg_cong [OF choice(1), of set] by (simp add: atLeast0LessThan)
  have at: "?ix i < length L \<and> level_at ?rs i = L ! ?ix i" if "i < length L" for i
    using sort_routes_entry [OF lim that] by auto
  have "distinct (map fst choice)"
  proof -
    have "distinct (map ?ix [0..<k])"
      using sort_routes_distinct [OF lim] k(2) by (auto simp: distinct_map intro: inj_on_subset)
    then show ?thesis unfolding choice(1) by (simp only: rev_map [symmetric] distinct_rev)
  qed
  moreover have "\<forall>(j, x) \<in> set choice. j < length L \<and> 0 < L ! j"
  proof clarify
    fix j x assume "(j, x) \<in> set choice"
    then obtain i where i: "i < k" "j = ?ix i" using entries by blast
    then have "level_at ?rs (k - 1) \<le> level_at ?rs i"
      using k limits_of_length [OF lim] by (intro descending_le sort_routes_descending) (auto simp: sort_routes_nth)
    then show "j < length L \<and> 0 < L ! j"
      using i at [of i] k(2) room m(3) level_at_bounds(1) [of ?rs k] by simp
  qed
  moreover have "sum_list (map (uint \<circ> snd) choice) = amount"
    unfolding choice(2) amount rev_map [symmetric] sum_list_rev
    by (simp add: interv_sum_list_conv_sum_set_nat atLeast0LessThan sum_shares [OF k(1) m(1,2)])
  moreover have "\<forall>(j, x) \<in> set choice. level \<le> L ! j - uint x \<and> L ! j - uint x \<le> level + 1"
  proof clarify
    fix j x assume "(j, x) \<in> set choice"
    then obtain i where "i < k" "j = ?ix i" "uint x = share ?rs k d m i" using entries by blast
    then show "level \<le> L ! j - uint x \<and> L ! j - uint x \<le> level + 1"
      using at [of i] k(2) by (simp add: share_def level_def)
  qed
  moreover have "L ! j \<le> level" if j: "j < length L" "j \<notin> fst ` set choice" for j
  proof -
    obtain i where i: "i < length L" "fst (?rs ! i) = Some j" using sort_routes_covers [OF lim j(1)] by blast
    then have "k \<le> i" using j(2) used by (metis image_eqI lessThan_iff linorder_not_le option.sel)
    then have "level_at ?rs i \<le> level_at ?rs k"
      using i(1) limits_of_length [OF lim] by (intro descending_le sort_routes_descending) (simp_all add: sort_routes_nth)
    then show ?thesis using at [OF i(1)] i(2) room by (simp add: level_def)
  qed
  moreover have "0 \<le> level" using room level_at_bounds(1) [of ?rs k] by (simp add: level_def)
  ultimately show ?thesis unfolding level_division_def by blast
qed

lemma int_div_small:
  fixes x q :: int
  assumes "0 \<le> x" "0 < q"
  shows "0 \<le> x div q" "x div q \<le> x" "x < c * q \<Longrightarrow> x div q + 1 \<le> c"
proof -
  show "0 \<le> x div q" using assms by (simp add: pos_imp_zdiv_nonneg_iff)
  have "x div q \<le> x div 1" using assms by (intro zdiv_mono2) auto
  then show "x div q \<le> x" by simp
  show "x div q + 1 \<le> c" if "x < c * q"
  proof (rule ccontr)
    assume "\<not> x div q + 1 \<le> c"
    then have "c * q \<le> x div q * q" using assms(2) by (intro mult_right_mono) auto
    also have "\<dots> \<le> x" using assms(2) by (rule int_div_bounds(1))
    finally show False using that by simp
  qed
qed

lemma division_succeeds:
  assumes lim: "limits_of limits L" and rs: "rs = sort_routes limits"
    and k: "Suc k < length rs" and lo: "taken_to rs k \<le> a" and hi: "a < taken_to rs (Suc k)" "a < 2 ^ 128"
    and left: "left = a - taken_to rs k"
  shows "\<exists>wd wm choice. to_u128 (left div int (Suc k)) = Some wd \<and> to_u128 (left mod int (Suc k)) = Some wm
    \<and> choose_loop rs wd wm (Suc k) 0 [] = Ok choice \<and> level_division L a choice"
proof -
  let ?d = "left div int (Suc k)" and ?m = "left mod int (Suc k)"
  have desc: "descending rs" by (simp add: rs sort_routes_descending)
  have len: "length rs = Suc (length L)" using limits_of_length [OF lim] by (simp add: rs sort_routes_nth)
  have bounds: "0 \<le> left" "left < 2 ^ 128" "left < (level_at rs k - level_at rs (Suc k)) * int (Suc k)"
    using lo hi taken_to_mono [OF desc, of 0 k] k unfolding left taken_to_Suc by simp_all
  have d: "0 \<le> ?d" "?d \<le> left" "?d + 1 \<le> level_at rs k - level_at rs (Suc k)"
    using int_div_small [OF bounds(1), of "int (Suc k)"] bounds(3) by (simp_all del: of_nat_Suc)
  have m: "0 \<le> ?m" "?m < int (Suc k)" "?m \<le> left"
    using bounds(1) by (simp_all add: zmod_le_nonneg_dividend del: of_nat_Suc)
  obtain wd where wd: "to_u128 ?d = Some wd" "uint wd = ?d"
    using to_u128_fits [of ?d] d bounds(2) by (auto simp: u_fits_def simp del: of_nat_Suc)
  obtain wm where wm: "to_u128 ?m = Some wm" "uint wm = ?m"
    using to_u128_fits [of ?m] m bounds(2) by (auto simp: u_fits_def simp del: of_nat_Suc)
  have "\<exists>choice. choose_loop rs wd wm (Suc k) 0 [] = Ok ([] @ choice)
    \<and> map fst choice = map (\<lambda>j. the (fst (rs ! j))) (rev [0..<Suc k])
    \<and> map (uint \<circ> snd) choice = map (share rs (Suc k) (uint wd) (uint wm)) (rev [0..<Suc k])"
  proof (rule choose_loop_spec [OF desc k order_refl])
    show "fst (rs ! j) \<noteq> None" if "j < Suc k" for j
      using sort_routes_entry [OF lim, of j] that k len by (auto simp: rs)
    show "uint wd + 1 \<le> level_at rs (Suc k - 1)"
      using d(3) level_at_bounds(1) [of rs "Suc k"] by (simp add: wd(2) del: of_nat_Suc)
  qed simp
  then obtain choice where choice: "choose_loop rs wd wm (Suc k) 0 [] = Ok choice"
    "map fst choice = map (\<lambda>j. the (fst (rs ! j))) (rev [0..<Suc k])"
    "map (uint \<circ> snd) choice = map (share rs (Suc k) ?d ?m) (rev [0..<Suc k])"
    unfolding wd(2) wm(2) by (auto simp del: upt_Suc)
  have "a = taken_to rs (Suc k - 1) + ?d * int (Suc k) + ?m"
    by (simp add: left del: of_nat_Suc)
  then have "level_division L a choice"
    using chosen_level [OF lim, of "Suc k" choice ?d ?m a] choice(2,3) m d(1,3) k len unfolding rs by simp
  with wd(1) wm(1) choice(1) show ?thesis by blast
qed

lemma safe_amounts_spec:
  fixes multi_route amount
  defines "L \<equiv> map route_limit (mr_routes multi_route)"
  shows "if sum_list L \<le> uint amount then safe_multi_route_amounts multi_route amount = Ok None
    else \<exists>choice. safe_multi_route_amounts multi_route amount = Ok (Some choice) \<and> level_division L (uint amount) choice"
proof -
  obtain limits where limits: "route_limits 0 (mr_routes multi_route) = Ok limits" "limits_of limits L"
    using route_limits_Ok [of 0 "mr_routes multi_route"] by (auto simp: L_def limits_of_def)
  let ?rs = "sort_routes limits"
  have len: "length ?rs = Suc (length L)" using limits_of_length [OF limits(2)] by (simp add: sort_routes_nth)
  have total: "taken_to ?rs (length ?rs - 1) = sum_list L" using sort_routes_total [OF limits(2)] len by simp
  note fill = fill_loop_spec [OF sort_routes_descending, of 0 limits "uint amount", unfolded total]
  show ?thesis
  proof (cases "sum_list L \<le> uint amount")
    case True
    then show ?thesis using fill limits(1) len by (simp add: safe_multi_route_amounts_def fill_amount_def)
  next
    case False
    then obtain k where filled: "fill_amount amount ?rs = Ok (Some (Suc k, uint amount - taken_to ?rs k))"
      and k: "Suc k < length ?rs" and lo: "taken_to ?rs k \<le> uint amount" and hi: "uint amount < taken_to ?rs (Suc k)"
      using fill len by (auto simp: fill_amount_def)
    have "uint amount < 2 ^ 128" using u128_range(2) [of amount] by simp
    from division_succeeds [OF limits(2) refl k lo hi this refl] False
    show ?thesis by (auto simp: safe_multi_route_amounts_def limits(1) filled simp del: choose_loop.simps of_nat_Suc)
  qed
qed

abbreviation total_limit :: "multi_route \<Rightarrow> int" where
  "total_limit multi_route \<equiv> sum_list (map route_limit (mr_routes multi_route))"

lemma choose_from_spec:
  "(choose_multi_route_from i mrs amount = Ok None \<and> (\<forall>mr \<in> set mrs. total_limit mr \<le> uint amount))
   \<or> (\<exists>k choice. choose_multi_route_from i mrs amount = Ok (Some (i + k, choice)) \<and> k < length mrs
       \<and> (\<forall>j < k. total_limit (mrs ! j) \<le> uint amount) \<and> uint amount < total_limit (mrs ! k)
       \<and> level_division (map route_limit (mr_routes (mrs ! k))) (uint amount) choice)"
proof (induction mrs arbitrary: i)
  case Nil
  then show ?case by simp
next
  case (Cons mr mrs)
  show ?case
  proof (cases "total_limit mr \<le> uint amount")
    case True
    then have eq: "choose_multi_route_from i (mr # mrs) amount = choose_multi_route_from (Suc i) mrs amount"
      using safe_amounts_spec [of mr amount] by simp
    from Cons [of "Suc i"] show ?thesis
    proof (elim disjE exE conjE, goal_cases)
      case 1
      then show ?thesis using True eq by simp
    next
      case (2 k choice)
      then show ?thesis using True eq
        by (intro disjI2 exI [of _ "Suc k"] exI [of _ choice]) (auto simp: less_Suc_eq_0_disj)
    qed
  next
    case False
    then show ?thesis using safe_amounts_spec [of mr amount] by auto
  qed
qed

lemma within_limit_affordable:
  assumes "0 < route_limit route" "uint x \<le> route_limit route"
  shows "\<exists>fee. calc_fee (rcr_rate route) x = Some fee \<and> uint x + uint fee \<le> uint (rcr_capacity route)"
proof -
  obtain y where y: "max_payable (rcr_rate route) (rcr_capacity route) = Some y" "route_limit route = uint y"
    using max_payable_total by (fastforce simp: route_limit_def)
  have "uint (rate_add (rcr_rate route)) \<le> uint (rcr_capacity route)"
  proof (rule ccontr)
    assume "\<not> ?thesis"
    then have "u_checked_sub (rcr_capacity route) (ucast (rate_add (rcr_rate route))) = None"
      by (simp add: u_checked_sub_None uint_rate_add_ucast)
    then show False using y assms(1) by (simp add: max_payable_def)
  qed
  then show ?thesis using max_payable_affordable y assms(2) by simp
qed

text \<open>
  C13: Choosing the routes of a payment never panics. It fails exactly when no multi route can carry
  more than the amount; otherwise it takes the first that can carry more. (A multi route that can
  carry exactly the amount is passed over, although the comment of \<open>fill_amount\<close> promises failure
  only for an amount that can never be filled.) The shares then add up to the
  amount, go over distinct routes of that multi route, and the capacity of each route covers its
  share with its fee. What is left in the routes used is level up to one credit and no less than
  what an unused route can carry, so no route is emptied while another could relieve it.
\<close>

theorem chosen_routes_pay_amount:
  "case choose_multi_route multi_routes amount of
     Ok None \<Rightarrow> \<forall>mr \<in> set multi_routes. total_limit mr \<le> uint amount
   | Ok (Some (i, choice)) \<Rightarrow>
       i < length multi_routes \<and> (\<forall>j < i. total_limit (multi_routes ! j) \<le> uint amount)
       \<and> uint amount < total_limit (multi_routes ! i)
       \<and> distinct (map fst choice) \<and> sum_list (map (uint \<circ> snd) choice) = uint amount
       \<and> (\<forall>(j, x) \<in> set choice. j < length (mr_routes (multi_routes ! i))
            \<and> (\<exists>fee. calc_fee (rcr_rate (mr_routes (multi_routes ! i) ! j)) x = Some fee
                 \<and> uint x + uint fee \<le> uint (rcr_capacity (mr_routes (multi_routes ! i) ! j))))
       \<and> (\<exists>level \<ge> 0.
            (\<forall>(j, x) \<in> set choice. route_limit (mr_routes (multi_routes ! i) ! j) - uint x \<in> {level, level + 1})
            \<and> (\<forall>j < length (mr_routes (multi_routes ! i)). j \<notin> fst ` set choice \<longrightarrow>
                 route_limit (mr_routes (multi_routes ! i) ! j) \<le> level))
   | _ \<Rightarrow> False"
  using choose_from_spec [of 0 multi_routes amount]
proof (elim disjE exE conjE, goal_cases)
  case 1
  then show ?case by (simp add: choose_multi_route_def)
next
  case (2 k choice)
  let ?routes = "mr_routes (multi_routes ! k)"
  note div = 2(5) [unfolded level_division_def]
  then obtain level where level: "0 \<le> level"
      "\<forall>(j, x) \<in> set choice. level \<le> map route_limit ?routes ! j - uint x
         \<and> map route_limit ?routes ! j - uint x \<le> level + 1"
      "\<forall>j < length ?routes. j \<notin> fst ` set choice \<longrightarrow> map route_limit ?routes ! j \<le> level"
    by auto
  have "j < length ?routes \<and> route_limit (?routes ! j) - uint x \<in> {level, level + 1}
      \<and> (\<exists>fee. calc_fee (rcr_rate (?routes ! j)) x = Some fee \<and> uint x + uint fee \<le> uint (rcr_capacity (?routes ! j)))"
    if jx: "(j, x) \<in> set choice" for j x
  proof -
    have "j < length ?routes" "0 < route_limit (?routes ! j)" using div jx by fastforce+
    moreover from this have "level \<le> route_limit (?routes ! j) - uint x" "route_limit (?routes ! j) - uint x \<le> level + 1"
      using level(2) jx by fastforce+
    ultimately show ?thesis using within_limit_affordable [of "?routes ! j" x] level(1) by auto
  qed
  then show ?case using 2(1-4) div level(1,3) by (auto simp: choose_multi_route_def intro!: exI [of _ level])
qed

text \<open>Two routes with room for 80 and 50 credits, and a payment of 40 and of 130 credits.\<close>

definition example_multi_route :: multi_route where
  "example_multi_route = \<lparr> mr_routes =
     [\<lparr> rcr_route = \<lparr> public_keys = [[0], [1]] \<rparr>, rcr_capacity = 50, rcr_rate = \<lparr> rate_mul = 0, rate_add = 0 \<rparr> \<rparr>,
      \<lparr> rcr_route = \<lparr> public_keys = [[0], [2], [1]] \<rparr>, rcr_capacity = 85, rcr_rate = \<lparr> rate_mul = 0, rate_add = 5 \<rparr> \<rparr>] \<rparr>"

lemma example_division:
  "choose_multi_route [example_multi_route] 40 = Ok (Some (0, [(0, 5), (1, 35)]))"
  "choose_multi_route [example_multi_route] 130 = Ok None"
  by code_simp+

theorem chosen_routes_pay_amount_witness:
  "choose_multi_route [example_multi_route] 40 = Ok (Some (0, [(0, 5), (1, 35)]))
   \<and> (\<exists>level \<ge> 0. route_limit (mr_routes example_multi_route ! 0) - 5 \<in> {level, level + 1}
        \<and> route_limit (mr_routes example_multi_route ! 1) - 35 \<in> {level, level + 1})"
  using chosen_routes_pay_amount [of "[example_multi_route]" 40] by (simp add: example_division) blast

end
