(* ===== verification/SingleClient.thy ===== *)
theory SingleClient
  imports IndexServer
begin

text \<open>
  The session of an index client with one index server (\<open>index_client/src/single_client.rs\<close>), and
  what the server does with the updates of a session.

  The one-shot sender on which a request for routes is answered is a value of a type parameter.
  Signing is an argument, as are, for each event, the random nonce and whether the connection
  to the server took a message. Log messages are not modelled.
\<close>

section \<open>The session\<close>

datatype index_client_to_server = IcsMutationsUpdate mutations_update | IcsRequestRoutes request_routes

datatype 'q single_client_control = RequestRoutesControl request_routes 'q | SendMutations "index_mutation list"

datatype single_client_error = ControlClosedError | ServerClosedError | SendToServerError | RequestSignatureFailed | CounterOverflow

datatype 'q single_client_event =
    ScFromServer index_server_to_client
  | ScServerClosed
  | ScControl "'q single_client_control"
  | ScControlClosed

record 'q single_client =
  sc_local_public_key :: public_key
  sc_session_id :: uid
  sc_counter :: u64
  sc_server_time_hash :: hash_result
  sc_open_requests :: "(uid, 'q) hmap"

text \<open>What a session sends: messages to the server, and answers to requests.\<close>

datatype 'q single_client_output = SendServer index_client_to_server | AnswerRoutes 'q "multi_route list"

definition single_client_new :: "public_key \<Rightarrow> uid \<Rightarrow> hash_result \<Rightarrow> 'q single_client" where
  "single_client_new local_public_key session_id server_time_hash =
     \<lparr> sc_local_public_key = local_public_key, sc_session_id = session_id, sc_counter = 0,
       sc_server_time_hash = server_time_hash, sc_open_requests = [] \<rparr>"

definition single_handle_server_message ::
  "index_server_to_client \<Rightarrow> 'q single_client \<Rightarrow> 'q single_client_output list \<times> 'q single_client" where
  "single_handle_server_message msg c =
     (case msg of
        IscTimeHash time_hash \<Rightarrow> ([], c\<lparr> sc_server_time_hash := time_hash \<rparr>)
      | IscResponseRoutes response \<Rightarrow>
          (case hm_get (sc_open_requests c) (rsr_request_id response) of
             None \<Rightarrow> ([], c)
           | Some request_sender \<Rightarrow>
               ([AnswerRoutes request_sender (rsr_multi_routes response)],
                c\<lparr> sc_open_requests := hm_remove (rsr_request_id response) (sc_open_requests c) \<rparr>)))"

definition unsigned_update :: "index_mutation list \<Rightarrow> bytes \<Rightarrow> 'q single_client \<Rightarrow> mutations_update" where
  "unsigned_update index_mutations rand_nonce c =
     \<lparr> mu_node_public_key = sc_local_public_key c, mu_index_mutations = index_mutations,
       mu_time_hash = sc_server_time_hash c, mu_session_id = sc_session_id c, mu_counter = sc_counter c,
       mu_rand_nonce = rand_nonce, mu_signature = replicate 64 0 \<rparr>"

definition single_handle_control_message ::
  "crypto_api \<Rightarrow> (bytes \<Rightarrow> signature option) \<Rightarrow> bytes \<Rightarrow> bool \<Rightarrow> 'q single_client_control \<Rightarrow> 'q single_client
    \<Rightarrow> ('q single_client_output list \<times> 'q single_client, single_client_error) res" where
  "single_handle_control_message C request_signature rand_nonce send_ok control c =
     (case control of
        RequestRoutesControl request_routes response_sender \<Rightarrow>
          (let c = c\<lparr> sc_open_requests := hm_insert (rr_request_id request_routes) response_sender (sc_open_requests c) \<rparr>
           in if send_ok then Ok ([SendServer (IcsRequestRoutes request_routes)], c) else Err SendToServerError)
      | SendMutations index_mutations \<Rightarrow>
          (let mutations_update = unsigned_update index_mutations rand_nonce c
           in res_bind (ok_or (request_signature (mutations_signature_buff C mutations_update)) RequestSignatureFailed) (\<lambda>signature.
              let mutations_update = mutations_update\<lparr> mu_signature := signature \<rparr>
              in res_bind (ok_or (u_checked_add (sc_counter c) 1) CounterOverflow) (\<lambda>counter.
                 let c = c\<lparr> sc_counter := counter \<rparr>
                 in if send_ok then Ok ([SendServer (IcsMutationsUpdate mutations_update)], c)
                    else Err SendToServerError))))"

text \<open>Waiting for the first time hash; the rest of the messages stay in the stream.\<close>

fun first_server_time_hash ::
  "index_server_to_client list \<Rightarrow> (hash_result \<times> index_server_to_client list, single_client_error) res" where
  "first_server_time_hash [] = Err ServerClosedError"
| "first_server_time_hash (IscTimeHash time_hash # from_server) = Ok (time_hash, from_server)"
| "first_server_time_hash (_ # from_server) = first_server_time_hash from_server"

definition single_client_step ::
  "crypto_api \<Rightarrow> (bytes \<Rightarrow> signature option) \<Rightarrow> 'q single_client_event \<times> bytes \<times> bool \<Rightarrow> 'q single_client
    \<Rightarrow> ('q single_client_output list \<times> 'q single_client, single_client_error) res" where
  "single_client_step C request_signature e c =
     (case e of (event, rand_nonce, send_ok) \<Rightarrow>
        (case event of
           ScFromServer msg \<Rightarrow> Ok (single_handle_server_message msg c)
         | ScServerClosed \<Rightarrow> Err ServerClosedError
         | ScControl control \<Rightarrow> single_handle_control_message C request_signature rand_nonce send_ok control c
         | ScControlClosed \<Rightarrow> Err ControlClosedError))"

text \<open>The loop, with what was sent before it ended.\<close>

fun single_client_loop ::
  "crypto_api \<Rightarrow> (bytes \<Rightarrow> signature option) \<Rightarrow> ('q single_client_event \<times> bytes \<times> bool) list \<Rightarrow> 'q single_client
    \<Rightarrow> 'q single_client_output list \<times> ('q single_client, single_client_error) res" where
  "single_client_loop C request_signature [] c = ([], Ok c)"
| "single_client_loop C request_signature (e # events) c =
     (case single_client_step C request_signature e c of
        Ok (out, c) \<Rightarrow>
          (let (out', result) = single_client_loop C request_signature events c in (out @ out', result))
      | Err err \<Rightarrow> ([], Err err)
      | Panic \<Rightarrow> ([], Panic))"

section \<open>The updates of a session\<close>

fun updates_of :: "'q single_client_output list \<Rightarrow> mutations_update list" where
  "updates_of [] = []"
| "updates_of (SendServer (IcsMutationsUpdate mu) # out) = mu # updates_of out"
| "updates_of (_ # out) = updates_of out"

lemma updates_of_append [simp]: "updates_of (out @ out') = updates_of out @ updates_of out'"
  by (induction out rule: updates_of.induct) simp_all

text \<open>What the index client asked the session to send.\<close>

definition requested_mutations :: "('q single_client_event \<times> bytes \<times> bool) list \<Rightarrow> index_mutation list list" where
  "requested_mutations events = List.map_filter (\<lambda>e. case fst e of ScControl (SendMutations ms) \<Rightarrow> Some ms | _ \<Rightarrow> None) events"

text \<open>An update of a session, with its place in the session.\<close>

definition session_update :: "crypto_api \<Rightarrow> public_key \<Rightarrow> uid \<Rightarrow> int \<Rightarrow> mutations_update \<Rightarrow> bool" where
  "session_update C pk sid counter mu =
     (mu_node_public_key mu = pk \<and> mu_session_id mu = sid \<and> uint (mu_counter mu) = counter
      \<and> verify_mutations_update C mu)"

text \<open>The identity service signs with the key of the node.\<close>

definition signs_for :: "crypto_api \<Rightarrow> (bytes \<Rightarrow> signature option) \<Rightarrow> public_key \<Rightarrow> bool" where
  "signs_for C request_signature pk =
     (\<forall>m sig. request_signature m = Some sig \<longrightarrow> verify_signature C m pk sig)"

lemma single_client_step_cases:
  assumes "single_client_step C request_signature e c = Ok (out, c')"
    and "signs_for C request_signature (sc_local_public_key c)"
  obtains (other) "updates_of out = []" "sc_counter c' = sc_counter c"
      "sc_local_public_key c' = sc_local_public_key c" "sc_session_id c' = sc_session_id c"
      "\<forall>ms. fst e \<noteq> ScControl (SendMutations ms)"
  | (update) ms mu where "fst e = ScControl (SendMutations ms)" "updates_of out = [mu]" "mu_index_mutations mu = ms"
      "session_update C (sc_local_public_key c) (sc_session_id c) (uint (sc_counter c)) mu"
      "uint (sc_counter c') = uint (sc_counter c) + 1"
      "sc_local_public_key c' = sc_local_public_key c" "sc_session_id c' = sc_session_id c"
proof (cases "\<exists>ms. fst e = ScControl (SendMutations ms)")
  case False
  then show ?thesis using assms(1) other
    by (cases e) (auto simp: single_client_step_def single_handle_server_message_def single_handle_control_message_def
        Let_def split: single_client_event.splits single_client_control.splits index_server_to_client.splits
        option.splits if_splits)
next
  case True
  then obtain ms where ms: "fst e = ScControl (SendMutations ms)" by blast
  obtain sig where sig: "request_signature (mutations_signature_buff C (unsigned_update ms (fst (snd e)) c)) = Some sig"
    and out: "out = [SendServer (IcsMutationsUpdate (unsigned_update ms (fst (snd e)) c\<lparr> mu_signature := sig \<rparr>))]"
    and c': "\<exists>n. u_checked_add (sc_counter c) 1 = Some n \<and> c' = c\<lparr> sc_counter := n \<rparr>"
    using assms(1) ms by (cases e) (auto simp: single_client_step_def single_handle_control_message_def Let_def
        res_bind_Ok ok_or_Ok split: if_splits)
  have "session_update C (sc_local_public_key c) (sc_session_id c) (uint (sc_counter c))
      (unsigned_update ms (fst (snd e)) c\<lparr> mu_signature := sig \<rparr>)"
    using assms(2) sig
    by (simp add: signs_for_def session_update_def verify_mutations_update_def unsigned_update_def mutations_signature_buff_def)
  then show ?thesis using update [OF ms] out c' by (auto simp: unsigned_update_def u_checked_add_Some)
qed

lemma single_client_updates:
  assumes "signs_for C request_signature (sc_local_public_key c)"
    and "single_client_loop C request_signature events c = (out, result)"
  shows "\<forall>i < length (updates_of out).
      session_update C (sc_local_public_key c) (sc_session_id c) (uint (sc_counter c) + int i) (updates_of out ! i)
      \<and> i < length (requested_mutations events) \<and> mu_index_mutations (updates_of out ! i) = requested_mutations events ! i"
  using assms
proof (induction events arbitrary: c out)
  case (Cons e events)
  show ?case
  proof (cases "single_client_step C request_signature e c")
    case (Ok r)
    obtain out1 c1 where r: "r = (out1, c1)" by (cases r)
    obtain out2 where rest: "single_client_loop C request_signature events c1 = (out2, result)" and out: "out = out1 @ out2"
      using Cons.prems(2) Ok r by (auto split: prod.splits)
    have step: "single_client_step C request_signature e c = Ok (out1, c1)" using Ok r by simp
    from step Cons.prems(1) show ?thesis
    proof (cases rule: single_client_step_cases)
      case other
      then have "requested_mutations (e # events) = requested_mutations events"
        by (cases e) (auto simp: requested_mutations_def List.map_filter_simps
            split: single_client_event.splits single_client_control.splits)
      then show ?thesis using Cons.IH [OF _ rest] Cons.prems(1) other out by simp
    next
      case (update ms mu)
      then have "requested_mutations (e # events) = ms # requested_mutations events"
        by (simp add: requested_mutations_def List.map_filter_simps)
      then show ?thesis using Cons.IH [OF _ rest] Cons.prems(1) update out
        by (auto simp: nth_Cons algebra_simps split: nat.splits)
    qed
  qed (use Cons.prems(2) in auto)
qed simp

section \<open>The server accepts them\<close>

text \<open>The ratchet of a node accepts the counters of a session from a given one on.\<close>

definition session_below :: "public_key \<Rightarrow> uid \<Rightarrow> int \<Rightarrow> (public_key, 'b, uid) simple_verifier \<Rightarrow> bool" where
  "session_below pk sid n v =
     (case hm_get (rp_ratchets (sv_ratchet_pool v)) pk of
        None \<Rightarrow> True
      | Some r \<Rightarrow> rt_session_id r = sid \<longrightarrow> uint (rt_counter r) < n)"

lemma below_update:
  assumes "session_below pk sid n v" "node = pk \<Longrightarrow> sid' = sid \<Longrightarrow> uint c < n"
  shows "session_below pk sid n (v\<lparr> sv_ratchet_pool := snd (ratchet_pool_update node sid' c (sv_ratchet_pool v)) \<rparr>)"
  using assms
  by (auto simp: session_below_def ratchet_pool_update_def ratchet_update_def inner_update_def ratchet_new_def
      hm_get_insert split: option.splits if_splits)

lemma below_same_pool:
  "sv_ratchet_pool v' = sv_ratchet_pool v \<Longrightarrow> session_below pk sid n v' = session_below pk sid n v"
  by (simp add: session_below_def)

lemma below_verify:
  assumes "verifier_ok v" "session_below pk sid n v" "node = pk \<Longrightarrow> sid' = sid \<Longrightarrow> uint c < n"
    and "verifier_verify C origin chain node sid' c v = Ok (result, v')"
  shows "session_below pk sid n v'"
proof -
  have "v' = v \<or> sv_ratchet_pool v' = snd (ratchet_pool_update node sid' c (sv_ratchet_pool v))"
    using verify_returns [OF assms(1), of C origin chain node sid' c] assms(4) by auto
  then show ?thesis using assms(2) below_update [OF assms(2,3)] by (auto simp: session_below_def)
qed

lemma below_tick:
  assumes "verifier_ok v" "session_below pk sid n v" "verifier_tick C rand v = Ok (r, v')"
  shows "session_below pk sid n v'"
proof -
  have ok: "hm_ok (rp_ratchets (sv_ratchet_pool v))" using assms(1) by (simp add: verifier_ok_def pool_ok_def)
  have "sv_ratchet_pool v' = snd (ratchet_pool_tick (sv_ratchet_pool v))"
    using tick_returns [OF assms(1), of C rand] assms(3) by auto
  then show ?thesis using assms(2)
    by (auto simp: session_below_def pool_tick_get [OF ok] split: option.splits bind_splits if_splits)
qed

fun event_update :: "server_event \<Rightarrow> mutations_update option" where
  "event_update (SeClientMutationsUpdate mu) = Some mu"
| "event_update (SeFromServer pk (Some (IssForwardMutationsUpdate fmu))) = Some (fmu_mutations_update fmu)"
| "event_update _ = None"

definition brings_below :: "public_key \<Rightarrow> uid \<Rightarrow> int \<Rightarrow> server_event \<Rightarrow> bool" where
  "brings_below pk sid n event =
     (case event_update event of
        None \<Rightarrow> True
      | Some mu \<Rightarrow> mu_node_public_key mu = pk \<and> mu_session_id mu = sid \<longrightarrow> uint (mu_counter mu) < n)"

lemma handle_update_below:
  assumes "verifier_ok (is_verifier s)" "session_below pk sid n (is_verifier s)"
    and "mu_node_public_key (fmu_mutations_update fmu) = pk \<Longrightarrow> mu_session_id (fmu_mutations_update fmu) = sid
      \<Longrightarrow> uint (mu_counter (fmu_mutations_update fmu)) < n"
    and "handle_forward_mutations_update C (simple_verifier_api C) chan opt_server fmu s = Ok (out, s')"
  shows "session_below pk sid n (is_verifier s')"
  using assms(4)
proof (cases rule: handle_update_cases)
  case (fresh hashes v')
  then show ?thesis using below_verify [OF assms(1,2,3)] by (simp add: simple_verifier_api_def)
next
  case (stale v')
  then show ?thesis using below_verify [OF assms(1,2,3)] by (simp add: simple_verifier_api_def)
qed (use assms(2) in simp)

lemma server_step_below:
  assumes inv: "verifier_ok (is_verifier s)" "session_below pk sid n (is_verifier s)" and "brings_below pk sid n event"
    and step: "server_loop_step C (simple_verifier_api C) pk_less chan client_chan event s = Ok (out, s')"
  shows "session_below pk sid n (is_verifier s')"
proof (cases "event_update event")
  case (Some mu)
  then have "\<exists>opt_server fmu. fmu_mutations_update fmu = mu
      \<and> handle_forward_mutations_update C (simple_verifier_api C) chan opt_server fmu s = Ok (out, s')"
    using step by (cases event rule: event_update.cases)
      (auto simp: server_loop_step_def handle_from_server_def, (metis forward_mutations_update.select_convs(1))+)
  then obtain opt_server fmu where mu: "fmu_mutations_update fmu = mu"
    and handled: "handle_forward_mutations_update C (simple_verifier_api C) chan opt_server fmu s = Ok (out, s')"
    by blast
  show ?thesis
    by (rule handle_update_below [OF inv _ handled]) (use assms(3) Some mu in \<open>simp add: brings_below_def\<close>)
next
  case None
  show ?thesis
  proof (cases "\<exists>rand. event = SeTimerTick rand")
    case True
    then obtain rand r where "verifier_tick C rand (is_verifier s) = Ok (r, is_verifier s')"
      using step by (auto simp: server_loop_step_def handle_timer_tick_def simple_verifier_api_def res_bind_Ok Let_def
          case_prod_unfold)
    then show ?thesis by (rule below_tick [OF inv])
  next
    case False
    then have "sv_ratchet_pool (is_verifier s') = sv_ratchet_pool (is_verifier s)"
      using step None neighbor_ops_keep(3,4)
      by (cases event rule: event_update.cases)
        (auto simp: server_loop_step_def handle_from_server_def simple_verifier_api_def
          split: option.splits remote_server_state.splits if_splits)
    then show ?thesis using below_same_pool inv(2) by blast
  qed
qed

lemma server_run_below:
  assumes "index_server_inv s" "session_below pk sid n (is_verifier s)"
    and "\<forall>e \<in> set events. brings_below pk sid n (fst e)"
    and "server_run C (simple_verifier_api C) pk_less events s = Ok (out, s')"
  shows "session_below pk sid n (is_verifier s') \<and> index_server_inv s'"
  using assms
proof (induction events arbitrary: s out)
  case (Cons e events)
  obtain event chan client_chan where e: "e = (event, chan, client_chan)" by (cases e)
  obtain out1 s1 out2 where step: "server_loop_step C (simple_verifier_api C) pk_less chan client_chan event s = Ok (out1, s1)"
    and run: "server_run C (simple_verifier_api C) pk_less events s1 = Ok (out2, s')"
    using Cons.prems(4) by (auto simp: e res_bind_Ok)
  have "index_server_inv s1"
    using run_inv [OF Cons.prems(1), of C pk_less "[e]"] step by (auto simp: e)
  moreover have "session_below pk sid n (is_verifier s1)"
    using server_step_below [OF _ Cons.prems(2) _ step] Cons.prems(1,3) by (simp add: index_server_inv_def e)
  ultimately show ?case using Cons.IH [OF _ _ _ run] Cons.prems(3) by simp
qed simp

lemma next_update_applied:
  assumes "verifier_ok (is_verifier s)" "session_below pk sid (uint (mu_counter mu)) (is_verifier s)"
    and "mu_node_public_key mu = pk" "mu_session_id mu = sid" "verify_mutations_update C mu"
    and "hm_contains (hc_last_ticks_map (sv_hash_clock (is_verifier s))) (mu_time_hash mu)"
  shows "\<exists>out s'. server_loop_step C (simple_verifier_api C) pk_less chan client_chan (SeClientMutationsUpdate mu) s = Ok (out, s')
    \<and> is_graph s' = fold (apply_index_mutation pk) (mu_index_mutations mu) (graph_tick (is_graph s) pk)"
proof -
  let ?v = "is_verifier s"
  have moved: "fst (ratchet_pool_update pk sid (mu_counter mu) (sv_ratchet_pool ?v))"
    using assms(2) by (auto simp: session_below_def ratchet_pool_update_def ratchet_update_def inner_update_def
        word_less_def split: option.splits)
  have "verify_expansion_chain C (sv_hash_clock ?v) (mu_time_hash mu) [] = Some (mu_time_hash mu)"
    using assms(6) by (simp add: verify_expansion_chain_def)
  moreover obtain hashes where "get_expansion (sv_hash_clock ?v) (mu_time_hash mu) = Some hashes"
    using assms(6) by (auto simp: hm_contains_def get_expansion_def)
  ultimately have "\<exists>v'. verifier_verify C (mu_time_hash mu) [] pk sid (mu_counter mu) ?v = Ok (Some hashes, v')"
    using moved by (auto simp: verifier_verify_def Let_def split: prod.splits)
  then show ?thesis using assms(3-5)
    by (auto simp: server_loop_step_def handle_forward_mutations_update_def simple_verifier_api_def Let_def
        split: prod.splits)
qed

text \<open>
  C12: A session numbers its updates 0, 1, 2 and so on, each with the mutations that the index
  client handed over, in their order. When an index server has run over any events, and the
  messages of the session among them had smaller numbers, directly or forwarded by other
  servers, then it applies the next update to its graph, provided that the time hash in it is
  one the server still remembers. So no update of an index client is lost to the protection
  against replays.
\<close>

theorem client_updates_applied:
  assumes "signs_for C request_signature pk"
    and "single_client_loop C request_signature client_events (single_client_new pk sid time_hash) = (out, result)"
    and "i < length (updates_of out)"
    and "index_server_inv s0" and "session_below pk sid 0 (is_verifier s0)"
    and "\<forall>e \<in> set events. brings_below pk sid (int i) (fst e)"
    and "server_run C (simple_verifier_api C) pk_less events s0 = Ok (sent, s)"
    and "hm_contains (hc_last_ticks_map (sv_hash_clock (is_verifier s))) (mu_time_hash (updates_of out ! i))"
  shows "\<exists>sent' s'. server_loop_step C (simple_verifier_api C) pk_less chan client_chan
        (SeClientMutationsUpdate (updates_of out ! i)) s = Ok (sent', s')
    \<and> is_graph s' = fold (apply_index_mutation pk) (requested_mutations client_events ! i) (graph_tick (is_graph s) pk)
    \<and> uint (mu_counter (updates_of out ! i)) = int i"
proof -
  let ?mu = "updates_of out ! i" and ?c = "single_client_new pk sid time_hash"
  have "session_update C pk sid (int i) ?mu \<and> mu_index_mutations ?mu = requested_mutations client_events ! i"
    using single_client_updates [of C request_signature ?c client_events out result] assms(1-3)
    by (auto simp: single_client_new_def)
  then have mu: "mu_node_public_key ?mu = pk" "mu_session_id ?mu = sid" "uint (mu_counter ?mu) = int i"
      "verify_mutations_update C ?mu" "mu_index_mutations ?mu = requested_mutations client_events ! i"
    by (simp_all add: session_update_def)
  have "session_below pk sid (int i) (is_verifier s0)"
    using assms(5) by (auto simp: session_below_def split: option.splits)
  from server_run_below [OF assms(4) this assms(6,7)] mu(3)
  have "verifier_ok (is_verifier s)" "session_below pk sid (uint (mu_counter ?mu)) (is_verifier s)"
    by (simp_all add: index_server_inv_def)
  from next_update_applied [OF this mu(1,2,4) assms(8)] mu(3,5) show ?thesis by metis
qed

text \<open>
  A client that is told one time hash by a server of three ticks, and sends two updates; the
  server meets a tick between them.
\<close>

definition example_sign :: "bytes \<Rightarrow> signature option" where
  "example_sign m = Some [9]"

definition example_session :: "(unit single_client_event \<times> bytes \<times> bool) list" where
  "example_session =
     [(ScControl (SendMutations [UpdateFriend \<lparr> uf_public_key = [8], uf_send_capacity = 10, uf_recv_capacity = 20, uf_rate = rate_zero \<rparr>]), [6], True),
      (ScControl (SendMutations [RemoveFriend [8]]), [5], True)]"

definition example_out :: "unit single_client_output list" where
  "example_out = fst (single_client_loop example_hash example_sign example_session (single_client_new [7] [4] [240]))"

definition example_server :: "(unit, (public_key, public_key, uid) simple_verifier) index_server" where
  "example_server = index_server_new (\<lambda>x y. False) [1] []
     \<lparr> sv_hash_clock = \<lparr> hc_neighbor_hashes = [], hc_last_ticks_max_len = 3, hc_last_ticks = [], hc_last_ticks_map = [] \<rparr>,
       sv_ratchet_pool = \<lparr> rp_ratchets = [], rp_ratchet_ticks_to_live = 3 \<rparr> \<rparr>"

definition example_server_events :: "(server_event \<times> (public_key \<Rightarrow> send_outcome) \<times> (public_key \<Rightarrow> send_outcome)) list" where
  "example_server_events = map (\<lambda>e. (e, \<lambda>_. Sent, \<lambda>_. QueueFull))
     [SeTimerTick [1], SeClientMutationsUpdate (updates_of example_out ! 0), SeTimerTick [2]]"

lemma example_session_facts:
  "1 < length (updates_of example_out)"
  "requested_mutations example_session ! 1 = [RemoveFriend [8]]"
  "session_below [7] [4] 0 (is_verifier example_server)"
  "list_all (\<lambda>e. brings_below [7] [4] (int 1) (fst e)) example_server_events"
  by code_simp+

lemma example_server_run:
  "case server_run example_hash (simple_verifier_api example_hash) (\<lambda>x y. False) example_server_events example_server of
     Ok (sent, s) \<Rightarrow> hm_contains (hc_last_ticks_map (sv_hash_clock (is_verifier s))) (mu_time_hash (updates_of example_out ! 1))
   | _ \<Rightarrow> False"
  by code_simp

theorem client_updates_applied_witness:
  "\<exists>sent s sent' s'.
     server_run example_hash (simple_verifier_api example_hash) (\<lambda>x y. False) example_server_events example_server = Ok (sent, s)
   \<and> server_loop_step example_hash (simple_verifier_api example_hash) (\<lambda>x y. False) (\<lambda>_. Sent) (\<lambda>_. Sent)
        (SeClientMutationsUpdate (updates_of example_out ! 1)) s = Ok (sent', s')
   \<and> is_graph s' = fold (apply_index_mutation [7]) [RemoveFriend [8]] (graph_tick (is_graph s) [7])"
proof -
  obtain sent s where run:
    "server_run example_hash (simple_verifier_api example_hash) (\<lambda>x y. False) example_server_events example_server = Ok (sent, s)"
    and known: "hm_contains (hc_last_ticks_map (sv_hash_clock (is_verifier s))) (mu_time_hash (updates_of example_out ! 1))"
    using example_server_run by (auto split: res.splits)
  have sign: "signs_for example_hash example_sign [7]" by (simp add: signs_for_def example_hash_def)
  have out: "single_client_loop example_hash example_sign example_session (single_client_new [7] [4] [240]) =
      (example_out, snd (single_client_loop example_hash example_sign example_session (single_client_new [7] [4] [240])))"
    by (simp add: example_out_def)
  have inv: "index_server_inv example_server"
    unfolding example_server_def
    by (rule new_server_inv [of 3]) (simp add: simple_verifier_new_def hash_clock_new_def ratchet_pool_new_def)
  have below: "\<forall>e \<in> set example_server_events. brings_below [7] [4] (int 1) (fst e)"
    using example_session_facts(4) by (simp add: list_all_iff)
  from client_updates_applied [OF sign out example_session_facts(1) inv example_session_facts(3) below run known,
      of "\<lambda>_. Sent" "\<lambda>_. Sent"] run
  show ?thesis unfolding example_session_facts(2) by blast
qed

end
