(* ===== verification/SeqMap.thy ===== *)
theory SeqMap
  imports IndexServer
begin

text \<open>
  The sequence map of the index client (\<open>index_client/src/seq_map.rs\<close>), a map with a queue of its
  keys that \<open>next\<close> rotates, and the task that owns the map of the friends and answers requests
  about it (\<open>index_client/src/seq_friends.rs\<close>).

  Several tasks send requests: the index client applies mutations and asks for single updates,
  while another task asks for all friends after a connection. The requests reach the task in some
  order; the theorems are about every list of requests.
\<close>

section \<open>The map\<close>

record ('k, 'v) seq_map =
  sm_map :: "('k, 'v) hmap"
  sm_queue :: "'k list"
  sm_cycle_countdown :: nat

definition seq_map_new :: "('k, 'v) hmap \<Rightarrow> ('k, 'v) seq_map" where
  "seq_map_new m =
     (let queue = map fst m
      in \<lparr> sm_map = m, sm_queue = queue, sm_cycle_countdown = length queue \<rparr>)"

definition seq_map_update :: "'k \<Rightarrow> 'v \<Rightarrow> ('k, 'v) seq_map \<Rightarrow> 'v option \<times> ('k, 'v) seq_map" where
  "seq_map_update key value s =
     (hm_get (sm_map s) key,
      s\<lparr> sm_queue := filter (\<lambda>cur_key. cur_key \<noteq> key) (sm_queue s) @ [key],
         sm_map := hm_insert key value (sm_map s) \<rparr>)"

definition seq_map_remove :: "'k \<Rightarrow> ('k, 'v) seq_map \<Rightarrow> 'v option \<times> ('k, 'v) seq_map" where
  "seq_map_remove key s =
     (hm_get (sm_map s) key,
      s\<lparr> sm_queue := filter (\<lambda>cur_key. cur_key \<noteq> key) (sm_queue s),
         sm_map := hm_remove key (sm_map s) \<rparr>)"

definition seq_map_reset_countdown :: "('k, 'v) seq_map \<Rightarrow> ('k, 'v) seq_map" where
  "seq_map_reset_countdown s = s\<lparr> sm_cycle_countdown := length (sm_queue s) \<rparr>"

text \<open>\<open>saturating_sub\<close> on \<open>usize\<close> is the subtraction of natural numbers.\<close>

definition seq_map_next ::
  "('k, 'v) seq_map \<Rightarrow> ((nat \<times> 'k \<times> 'v) option \<times> ('k, 'v) seq_map, unit) res" where
  "seq_map_next s =
     (case sm_queue s of
        [] \<Rightarrow> Ok (None, s)
      | key # queue \<Rightarrow>
          res_bind (unwrap (hm_get (sm_map s) key)) (\<lambda>value.
            let cycle_countdown = sm_cycle_countdown s - 1
            in Ok (Some (cycle_countdown, key, value),
                   s\<lparr> sm_queue := queue @ [key], sm_cycle_countdown := cycle_countdown \<rparr>)))"

section \<open>The friends\<close>

record friend_info =
  fi_send_capacity :: u128
  fi_recv_capacity :: u128
  fi_rate :: rate

type_synonym seq_friends = "(public_key, friend_info) seq_map"

text \<open>Requests, with the answer the one-shot sender of a request carries.\<close>

datatype seq_friends_request = SfMutate index_mutation | SfResetCountdown | SfNextUpdate

datatype seq_friends_response = SfDone | SfUpdate "(nat \<times> update_friend) option"

definition seq_apply_index_mutation :: "index_mutation \<Rightarrow> seq_friends \<Rightarrow> seq_friends" where
  "seq_apply_index_mutation index_mutation s =
     (case index_mutation of
        UpdateFriend uf \<Rightarrow>
          snd (seq_map_update (uf_public_key uf)
            \<lparr> fi_send_capacity = uf_send_capacity uf, fi_recv_capacity = uf_recv_capacity uf, fi_rate = uf_rate uf \<rparr> s)
      | RemoveFriend pk \<Rightarrow> snd (seq_map_remove pk s))"

definition update_of_info :: "public_key \<Rightarrow> friend_info \<Rightarrow> update_friend" where
  "update_of_info pk fi =
     \<lparr> uf_public_key = pk, uf_send_capacity = fi_send_capacity fi,
       uf_recv_capacity = fi_recv_capacity fi, uf_rate = fi_rate fi \<rparr>"

definition seq_friends_step ::
  "seq_friends_request \<Rightarrow> seq_friends \<Rightarrow> (seq_friends_response \<times> seq_friends, unit) res" where
  "seq_friends_step request s =
     (case request of
        SfMutate index_mutation \<Rightarrow> Ok (SfDone, seq_apply_index_mutation index_mutation s)
      | SfResetCountdown \<Rightarrow> Ok (SfDone, seq_map_reset_countdown s)
      | SfNextUpdate \<Rightarrow>
          res_bind (seq_map_next s) (\<lambda>(opt_next, s).
            Ok (SfUpdate (map_option (\<lambda>(cycle_countdown, pk, fi). (cycle_countdown, update_of_info pk fi)) opt_next), s)))"

fun seq_friends_loop ::
  "seq_friends_request list \<Rightarrow> seq_friends \<Rightarrow> (seq_friends_response list \<times> seq_friends, unit) res" where
  "seq_friends_loop [] s = Ok ([], s)"
| "seq_friends_loop (request # requests) s =
     res_bind (seq_friends_step request s) (\<lambda>(response, s).
     res_bind (seq_friends_loop requests s) (\<lambda>(responses, s). Ok (response # responses, s)))"

section \<open>The queue holds the keys\<close>

definition seq_map_ok :: "('k, 'v) seq_map \<Rightarrow> bool" where
  "seq_map_ok s =
     (distinct (sm_queue s) \<and> (\<forall>k \<in> set (sm_queue s). hm_contains (sm_map s) k)
      \<and> (\<forall>k \<in> fst ` set (sm_map s). k \<in> set (sm_queue s)))"

lemma seq_map_ok_iff:
  "seq_map_ok s \<longleftrightarrow> distinct (sm_queue s) \<and> (\<forall>k. k \<in> set (sm_queue s) \<longleftrightarrow> hm_get (sm_map s) k \<noteq> None)"
  using hm_get_key [of "sm_map s"] hm_get_of_key [of _ "sm_map s"]
  unfolding seq_map_ok_def hm_contains_def by fastforce

lemma seq_map_new_ok: "hm_ok m \<Longrightarrow> seq_map_ok (seq_map_new m)"
  by (auto simp: seq_map_ok_def seq_map_new_def hm_ok_def hm_contains_def Let_def hm_get_of_key)

lemma seq_map_update_ok: "seq_map_ok s \<Longrightarrow> seq_map_ok (snd (seq_map_update k v s))"
  by (auto simp: seq_map_ok_iff seq_map_update_def hm_get_insert)

lemma seq_map_remove_ok: "seq_map_ok s \<Longrightarrow> seq_map_ok (snd (seq_map_remove k s))"
  by (auto simp: seq_map_ok_iff seq_map_remove_def hm_get_remove)

lemma seq_map_next_cases:
  assumes "seq_map_ok s"
  obtains "sm_queue s = []" "seq_map_next s = Ok (None, s)"
  | k q v where "sm_queue s = k # q" "hm_get (sm_map s) k = Some v"
      "seq_map_next s = Ok (Some (sm_cycle_countdown s - 1, k, v),
         s\<lparr> sm_queue := q @ [k], sm_cycle_countdown := sm_cycle_countdown s - 1 \<rparr>)"
proof (cases "sm_queue s")
  case Nil
  then show ?thesis using that(1) by (simp add: seq_map_next_def)
next
  case (Cons k q)
  then obtain v where "hm_get (sm_map s) k = Some v" using assms by (fastforce simp: seq_map_ok_iff)
  then show ?thesis using that(2) Cons by (simp add: seq_map_next_def Let_def)
qed

lemma seq_map_rotate_ok: "seq_map_ok s \<Longrightarrow> sm_queue s = k # q \<Longrightarrow> seq_map_ok (s\<lparr> sm_queue := q @ [k], sm_cycle_countdown := c \<rparr>)"
  by (auto simp: seq_map_ok_iff)

lemma seq_apply_ok: "seq_map_ok s \<Longrightarrow> seq_map_ok (seq_apply_index_mutation m s)"
  by (simp add: seq_apply_index_mutation_def seq_map_update_ok seq_map_remove_ok split: index_mutation.split)

lemma seq_friends_step_ok:
  assumes "seq_map_ok s"
  shows "\<exists>response s'. seq_friends_step request s = Ok (response, s') \<and> seq_map_ok s'"
proof (cases request)
  case (SfMutate m)
  then show ?thesis using seq_apply_ok [OF assms] by (simp add: seq_friends_step_def)
next
  case SfResetCountdown
  then show ?thesis using assms by (simp add: seq_friends_step_def seq_map_reset_countdown_def seq_map_ok_def)
next
  case SfNextUpdate
  then show ?thesis using assms
    by (cases rule: seq_map_next_cases [OF assms]) (auto simp: seq_friends_step_def seq_map_rotate_ok)
qed

lemma seq_friends_loop_ok:
  "seq_map_ok s \<Longrightarrow> \<exists>responses s'. seq_friends_loop requests s = Ok (responses, s') \<and> seq_map_ok s'"
proof (induction requests arbitrary: s)
  case (Cons request requests)
  then show ?case using seq_friends_step_ok [of s request] by fastforce
qed simp

section \<open>Waiting in the queue\<close>

text \<open>How many keys are before a key in the queue.\<close>

definition ahead :: "'k \<Rightarrow> 'k list \<Rightarrow> nat" where
  "ahead k q = length (takeWhile (\<lambda>x. x \<noteq> k) q)"

lemma ahead_less: "k \<in> set q \<Longrightarrow> ahead k q < length q"
  by (induction q) (auto simp: ahead_def)

lemma ahead_rotate: "x \<noteq> k \<Longrightarrow> k \<in> set q \<Longrightarrow> ahead k (q @ [x]) = ahead k (x # q) - 1"
  by (simp add: ahead_def)

lemma ahead_append: "k \<in> set q \<Longrightarrow> ahead k (q @ r) = ahead k q"
  by (induction q) (auto simp: ahead_def)

lemma ahead_filter: "P k \<Longrightarrow> ahead k (filter P q) \<le> ahead k q"
  by (induction q) (auto simp: ahead_def)

definition mutation_key :: "index_mutation \<Rightarrow> public_key" where
  "mutation_key m = (case m of UpdateFriend uf \<Rightarrow> uf_public_key uf | RemoveFriend pk \<Rightarrow> pk)"

lemma seq_apply_other:
  assumes "mutation_key m \<noteq> pk" "pk \<in> set (sm_queue s)"
  shows "hm_get (sm_map (seq_apply_index_mutation m s)) pk = hm_get (sm_map s) pk"
    and "ahead pk (sm_queue (seq_apply_index_mutation m s)) \<le> ahead pk (sm_queue s)"
    and "sm_cycle_countdown (seq_apply_index_mutation m s) = sm_cycle_countdown s"
  using assms ahead_filter [of "\<lambda>x. x \<noteq> mutation_key m" pk "sm_queue s"]
  by (auto simp: seq_apply_index_mutation_def mutation_key_def seq_map_update_def seq_map_remove_def
      hm_get_insert hm_get_remove ahead_append split: index_mutation.splits)

text \<open>The number of friends a list of answers carries.\<close>

fun is_update :: "seq_friends_response \<Rightarrow> bool" where
  "is_update (SfUpdate (Some _)) = True"
| "is_update _ = False"

abbreviation updates_in :: "seq_friends_response list \<Rightarrow> nat" where
  "updates_in rs \<equiv> length (filter is_update rs)"

lemma seq_friends_waits:
  assumes "seq_map_ok s" "seq_friends_loop requests s = Ok (responses, s')"
    and "hm_get (sm_map s) pk = Some fi" "\<forall>m. SfMutate m \<in> set requests \<longrightarrow> mutation_key m \<noteq> pk"
    and "ahead pk (sm_queue s) < updates_in responses"
  shows "\<exists>c. SfUpdate (Some (c, update_of_info pk fi)) \<in> set responses"
  using assms
proof (induction requests arbitrary: s responses)
  case (Cons request requests)
  obtain response t rest where step: "seq_friends_step request s = Ok (response, t)"
    and rest: "seq_friends_loop requests t = Ok (rest, s')" and rs: "responses = response # rest"
    using Cons.prems(2) by (auto simp: res_bind_Ok)
  have t: "seq_map_ok t" using seq_friends_step_ok [OF Cons.prems(1), of request] step by auto
  have pk: "pk \<in> set (sm_queue s)" using Cons.prems(1,3) by (simp add: seq_map_ok_iff)
  note IH = Cons.IH [OF t rest _ _]
  show ?case
  proof (cases request)
    case (SfMutate m)
    then have "mutation_key m \<noteq> pk" using Cons.prems(4) by simp
    with SfMutate step show ?thesis
      using IH seq_apply_other [OF _ pk, of m] Cons.prems(3-5) rs
      by (auto simp: seq_friends_step_def)
  next
    case SfResetCountdown
    with step show ?thesis
      using IH Cons.prems(3-5) rs by (auto simp: seq_friends_step_def seq_map_reset_countdown_def)
  next
    case SfNextUpdate
    obtain k q v where q: "sm_queue s = k # q" "hm_get (sm_map s) k = Some v"
      "seq_map_next s = Ok (Some (sm_cycle_countdown s - 1, k, v),
         s\<lparr> sm_queue := q @ [k], sm_cycle_countdown := sm_cycle_countdown s - 1 \<rparr>)"
      using seq_map_next_cases [OF Cons.prems(1)] pk by (metis empty_iff list.set(1))
    show ?thesis
    proof (cases "k = pk")
      case True
      then show ?thesis using SfNextUpdate step q Cons.prems(3) rs by (auto simp: seq_friends_step_def)
    next
      case False
      then have "ahead pk (sm_queue t) < updates_in rest" "hm_get (sm_map t) pk = Some fi"
        using SfNextUpdate step q Cons.prems(3,5) rs ahead_rotate [of k pk q] pk
        by (auto simp: seq_friends_step_def ahead_def)
      then show ?thesis using IH Cons.prems(4) rs by auto
    qed
  qed
qed simp

text \<open>Each answer lowers the countdown by at most one.\<close>

lemma seq_friends_countdown:
  assumes "seq_map_ok s" "SfResetCountdown \<notin> set requests" "seq_friends_loop requests s = Ok (responses, s')"
    and "SfUpdate (Some (c, u)) \<in> set responses"
  shows "sm_cycle_countdown s \<le> c + updates_in responses"
  using assms
proof (induction requests arbitrary: s responses)
  case (Cons request requests)
  obtain response t rest where step: "seq_friends_step request s = Ok (response, t)"
    and rest: "seq_friends_loop requests t = Ok (rest, s')" and rs: "responses = response # rest"
    using Cons.prems(3) by (auto simp: res_bind_Ok)
  have t: "seq_map_ok t" using seq_friends_step_ok [OF Cons.prems(1), of request] step by auto
  have "sm_cycle_countdown s \<le> sm_cycle_countdown t + (if is_update response then 1 else 0)
    \<and> (response = SfUpdate (Some (c, u)) \<longrightarrow> c = sm_cycle_countdown t)"
    using step Cons.prems(2)
    by (cases request; cases rule: seq_map_next_cases [OF Cons.prems(1)])
      (auto simp: seq_friends_step_def seq_apply_index_mutation_def seq_map_update_def
        seq_map_remove_def split: index_mutation.splits)
  then show ?case using Cons.IH [OF t _ rest] Cons.prems(2,4) rs by (auto simp:)
qed simp

section \<open>A cycle reaches every friend\<close>

text \<open>
  The task that owns the friends answers every request without a panic, and its queue always
  holds each friend once. When an answer after a reset of the countdown carries the countdown
  zero, the answers since the reset have carried every friend that was there at the reset and
  that no request in between updated or removed, with its capacities and rate.
\<close>

theorem seq_friends_cycle_covers:
  assumes "seq_map_ok s" and "SfResetCountdown \<notin> set requests"
  shows "\<exists>responses s'. seq_friends_loop (SfResetCountdown # requests) s = Ok (responses, s') \<and> seq_map_ok s'
    \<and> (\<forall>u pk fi. SfUpdate (Some (0, u)) \<in> set responses \<and> hm_get (sm_map s) pk = Some fi
         \<and> (\<forall>m. SfMutate m \<in> set requests \<longrightarrow> mutation_key m \<noteq> pk)
         \<longrightarrow> (\<exists>c. SfUpdate (Some (c, update_of_info pk fi)) \<in> set responses))"
proof -
  let ?t = "seq_map_reset_countdown s"
  have t: "seq_map_ok ?t" using assms(1) by (simp add: seq_map_reset_countdown_def seq_map_ok_def)
  obtain responses s' where run: "seq_friends_loop requests ?t = Ok (responses, s')" "seq_map_ok s'"
    using seq_friends_loop_ok [OF t] by blast
  have "\<exists>c. SfUpdate (Some (c, update_of_info pk fi)) \<in> set responses"
    if "SfUpdate (Some (0, u)) \<in> set responses" "hm_get (sm_map s) pk = Some fi"
      "\<forall>m. SfMutate m \<in> set requests \<longrightarrow> mutation_key m \<noteq> pk" for u pk fi
  proof -
    have "pk \<in> set (sm_queue s)" using assms(1) that(2) by (simp add: seq_map_ok_iff)
    then have "ahead pk (sm_queue s) < length (sm_queue s)" by (rule ahead_less)
    also have "\<dots> \<le> updates_in responses"
      using seq_friends_countdown [OF t assms(2) run(1) that(1)] by (simp add: seq_map_reset_countdown_def)
    finally show ?thesis
      using seq_friends_waits [OF t run(1), of pk fi] that(2,3) by (simp add: seq_map_reset_countdown_def)
  qed
  then show ?thesis using run by (auto simp: seq_friends_step_def)
qed

definition example_info :: friend_info where
  "example_info = \<lparr> fi_send_capacity = 1, fi_recv_capacity = 2, fi_rate = \<lparr> rate_mul = 0, rate_add = 0 \<rparr> \<rparr>"

definition example_friends :: seq_friends where
  "example_friends = seq_map_new [([1], example_info), ([2], example_info), ([3], example_info)]"

lemma example_cycle:
  "seq_map_ok example_friends"
  "seq_friends_loop [SfResetCountdown, SfNextUpdate, SfMutate (RemoveFriend [2]), SfNextUpdate, SfNextUpdate] example_friends =
     Ok ([SfDone, SfUpdate (Some (2, update_of_info [1] example_info)), SfDone,
          SfUpdate (Some (1, update_of_info [3] example_info)), SfUpdate (Some (0, update_of_info [1] example_info))],
         \<lparr> sm_map = [([1], example_info), ([3], example_info)], sm_queue = [[3], [1]], sm_cycle_countdown = 0 \<rparr>)"
  by code_simp+

theorem seq_friends_cycle_covers_witness:
  "seq_map_ok example_friends
   \<and> (\<exists>responses s'. seq_friends_loop
        [SfResetCountdown, SfNextUpdate, SfMutate (RemoveFriend [2]), SfNextUpdate, SfNextUpdate] example_friends = Ok (responses, s')
      \<and> SfUpdate (Some (0, update_of_info [1] example_info)) \<in> set responses
      \<and> (\<exists>c. SfUpdate (Some (c, update_of_info [3] example_info)) \<in> set responses))"
proof -
  have get: "hm_get (sm_map example_friends) [3] = Some example_info" by code_simp
  show ?thesis
    using seq_friends_cycle_covers [OF example_cycle(1),
        of "[SfNextUpdate, SfMutate (RemoveFriend [2]), SfNextUpdate, SfNextUpdate]"] get example_cycle
    by (fastforce simp: mutation_key_def)
qed

text \<open>
  An update moves its friend to the end of the queue. A friend that is updated before its turn
  is therefore not among the answers of the cycle.
\<close>

lemma updated_friend_missed:
  "seq_friends_loop [SfResetCountdown, SfNextUpdate, SfMutate (UpdateFriend (update_of_info [2] example_info)),
     SfNextUpdate, SfNextUpdate] example_friends =
   Ok ([SfDone, SfUpdate (Some (2, update_of_info [1] example_info)), SfDone,
        SfUpdate (Some (1, update_of_info [3] example_info)), SfUpdate (Some (0, update_of_info [1] example_info))],
       \<lparr> sm_map = sm_map example_friends, sm_queue = [[2], [3], [1]], sm_cycle_countdown = 0 \<rparr>)"
  by code_simp

end
