(* ===== verification/IndexClient.thy ===== *)
theory IndexClient
  imports SingleClient SeqMap Actions "HOL-Library.Multiset"
begin

text \<open>
  The index client (\<open>index_client/src/index_client.rs\<close>): the loop that keeps a connection to one of
  the configured index servers, forwards requests for routes, announces the friends, and reports
  to the application server. Its messages and its report are those of
  \<open>proto/src/index_client/messages.rs\<close>.

  A handler is an action on the state of the client, extended by what a round meets: whether the
  database and the session take a message and a task can be spawned, how many messages the
  application server takes, and, for each request to the task of the friends, which requests of
  other tasks it serves before. The database mutations, messages and tasks a handler gives away
  are recorded in order.
\<close>

section \<open>Configuration, messages and report\<close>

record 'isa named_index_server_address =
  ni_public_key :: public_key
  ni_address :: 'isa
  ni_name :: string

record 'isa index_server_address =
  ia_public_key :: public_key
  ia_address :: 'isa

definition address_of_named :: "'isa named_index_server_address \<Rightarrow> 'isa index_server_address" where
  "address_of_named n = \<lparr> ia_public_key = ni_public_key n, ia_address = ni_address n \<rparr>"

record 'isa index_client_config =
  icc_index_servers :: "'isa named_index_server_address list"

datatype 'isa index_client_config_mutation =
    ConfigAddIndexServer "'isa named_index_server_address"
  | ConfigRemoveIndexServer public_key

fun index_client_config_mutate ::
  "'isa index_client_config_mutation \<Rightarrow> 'isa index_client_config \<Rightarrow> 'isa index_client_config" where
  "index_client_config_mutate (ConfigAddIndexServer n) c =
     c\<lparr> icc_index_servers := filter (\<lambda>cur. ni_public_key cur \<noteq> ni_public_key n) (icc_index_servers c) @ [n] \<rparr>"
| "index_client_config_mutate (ConfigRemoveIndexServer pk) c =
     c\<lparr> icc_index_servers := filter (\<lambda>cur. ni_public_key cur \<noteq> pk) (icc_index_servers c) \<rparr>"

record 'isa index_client_report =
  icr_index_servers :: "'isa named_index_server_address list"
  icr_opt_connected_server :: "public_key option"

datatype 'isa index_client_report_mutation =
    ReportAddIndexServer "'isa named_index_server_address"
  | ReportRemoveIndexServer public_key
  | SetConnectedServer "public_key option"

fun index_client_report_mutate ::
  "'isa index_client_report_mutation \<Rightarrow> 'isa index_client_report \<Rightarrow> 'isa index_client_report" where
  "index_client_report_mutate (ReportAddIndexServer n) r =
     r\<lparr> icr_index_servers := filter (\<lambda>cur. ni_public_key cur \<noteq> ni_public_key n) (icr_index_servers r)
          @ [\<lparr> ni_public_key = ni_public_key n, ni_address = ni_address n, ni_name = ni_name n \<rparr>] \<rparr>"
| "index_client_report_mutate (ReportRemoveIndexServer pk) r =
     r\<lparr> icr_index_servers := filter (\<lambda>cur. ni_public_key cur \<noteq> pk) (icr_index_servers r) \<rparr>"
| "index_client_report_mutate (SetConnectedServer opt_pk) r = r\<lparr> icr_opt_connected_server := opt_pk \<rparr>"

definition create_index_client_report :: "'isa index_client_config \<Rightarrow> 'isa index_client_report" where
  "create_index_client_report c = \<lparr> icr_index_servers = icc_index_servers c, icr_opt_connected_server = None \<rparr>"

datatype response_routes_result = RoutesSuccess "multi_route list" | RoutesFailure

record client_response_routes =
  cr_request_id :: uid
  cr_result :: response_routes_result

record 'isa index_client_report_mutations =
  irm_opt_app_request_id :: "uid option"
  irm_mutations :: "'isa index_client_report_mutation list"

datatype 'isa index_client_to_app_server =
    IcReportMutations "'isa index_client_report_mutations"
  | IcResponseRoutes client_response_routes

datatype 'isa index_client_request =
    ReqAddIndexServer "'isa named_index_server_address"
  | ReqRemoveIndexServer public_key
  | ReqRequestRoutes request_routes

datatype 'isa app_server_to_index_client =
    AppRequest uid "'isa index_client_request"
  | ApplyMutations "index_mutation list"

section \<open>State\<close>

text \<open>An optional sender is a flag. A control message carries the identifier of the request its
  one-shot sender answers.\<close>

record 'isa server_connecting =
  sg_index_server :: "'isa index_server_address"
  sg_cancel_sender :: bool

record 'isa server_connected =
  sd_index_server :: "'isa index_server_address"
  sd_control_sender :: bool
  sd_cancel_sender :: bool
  sd_ticks_to_send_keepalive :: nat

datatype 'isa conn_status =
    CsEmpty nat
  | CsConnecting "'isa server_connecting"
  | CsConnected "'isa server_connected"

datatype index_client_error =
    AppServerClosed | SendToAppServerFailed | IcSpawnError | IcRequestTimerStreamError | SeqFriendsError | DatabaseError

datatype 'isa index_client_event =
    FromAppServer "'isa app_server_to_index_client"
  | EvAppServerClosed
  | IndexServerConnected
  | IndexServerClosed
  | EvResponseRoutes uid response_routes_result
  | EvTimerTick

record 'isa index_client =
  ic_index_servers :: "'isa index_server_address list"
  ic_seq_friends :: seq_friends
  ic_max_open_requests :: nat
  ic_num_open_requests :: nat
  ic_keepalive_ticks :: nat
  ic_backoff_ticks :: nat
  ic_conn_status :: "'isa conn_status"

text \<open>
  What a handler gives away: a mutation for the database, a message for the application server, a
  control message for the session, the task that connects to a server, the cancellation of that
  task, and the task that waits for the routes of a request.
\<close>

datatype 'isa ic_output =
    OutDatabase "'isa index_client_config_mutation"
  | OutApp "'isa index_client_to_app_server"
  | OutControl "uid single_client_control"
  | OutConnect "'isa index_server_address"
  | OutCancel
  | OutAwaitResponse uid

record ic_io =
  io_database :: bool
  io_app_server :: nat
  io_seq_friends :: "seq_friends_request list list"
  io_control :: bool
  io_spawn :: bool

record 'isa ic_ctx = "'isa index_client" +
  cx_io :: ic_io
  cx_out :: "'isa ic_output list"

type_synonym ('isa, 'a) ic_action = "('isa ic_ctx, index_client_error, 'a) action"

definition emit :: "'isa ic_output \<Rightarrow> ('isa, unit) ic_action" where
  "emit m = act_modify (\<lambda>s. s\<lparr> cx_out := cx_out s @ [m] \<rparr>)"

definition db_client_mutate :: "'isa index_client_config_mutation \<Rightarrow> ('isa, unit) ic_action" where
  "db_client_mutate m =
     act_bind (act_gets cx_io) (\<lambda>io. if io_database io then emit (OutDatabase m) else act_throw DatabaseError)"

definition to_app_server_send :: "'isa index_client_to_app_server \<Rightarrow> ('isa, unit) ic_action" where
  "to_app_server_send m =
     act_bind (act_gets cx_io) (\<lambda>io.
       if io_app_server io = 0 then act_throw SendToAppServerFailed
       else act_seq (act_modify (\<lambda>s. s\<lparr> cx_io := io\<lparr> io_app_server := io_app_server io - 1 \<rparr> \<rparr>)) (emit (OutApp m)))"

definition control_sender_send :: "uid single_client_control \<Rightarrow> ('isa, bool) ic_action" where
  "control_sender_send m =
     act_bind (act_gets cx_io) (\<lambda>io.
       if io_control io then act_seq (emit (OutControl m)) (act_return True) else act_return False)"

definition spawn_task :: "'isa ic_output \<Rightarrow> ('isa, unit) ic_action" where
  "spawn_task m = act_bind (act_gets cx_io) (\<lambda>io. if io_spawn io then emit m else act_throw IcSpawnError)"

text \<open>
  A call of the client of the friends: the request is sent to their task, which serves requests
  of other tasks before it, and the answer awaited. The call fails when the task is gone.
\<close>

definition seq_friends_client_call :: "seq_friends_request \<Rightarrow> ('isa, seq_friends_response) ic_action" where
  "seq_friends_client_call request =
     act_bind (act_gets cx_io) (\<lambda>io.
     act_bind (act_gets ic_seq_friends) (\<lambda>friends.
       case io_seq_friends io of
         [] \<Rightarrow> act_throw SeqFriendsError
       | others # rest \<Rightarrow>
           (case seq_friends_loop (others @ [request]) friends of
              Ok (responses, friends) \<Rightarrow>
                act_seq (act_modify (\<lambda>s. s\<lparr> ic_seq_friends := friends, cx_io := io\<lparr> io_seq_friends := rest \<rparr> \<rparr>))
                  (act_return (last responses))
            | _ \<Rightarrow> act_throw SeqFriendsError)))"

definition next_update :: "('isa, (nat \<times> update_friend) option) ic_action" where
  "next_update =
     act_bind (seq_friends_client_call SfNextUpdate) (\<lambda>response.
       case response of SfUpdate next_update_res \<Rightarrow> act_return next_update_res | SfDone \<Rightarrow> act_throw SeqFriendsError)"

section \<open>Announcing all friends\<close>

text \<open>
  The task that sends the full state, over the rounds of its loop: the requests of other tasks
  that are served before its next one, and whether the session takes the message. The result has
  the mutations that were sent and the answers that the other tasks got.
\<close>

fun send_full_state_rounds ::
  "(seq_friends_request list \<times> bool) list \<Rightarrow> seq_friends
    \<Rightarrow> ((index_mutation list list \<times> seq_friends_response list) \<times> seq_friends, index_client_error) res" where
  "send_full_state_rounds [] friends = Err SeqFriendsError"
| "send_full_state_rounds ((others, sent) # rounds) friends =
     (case seq_friends_loop (others @ [SfNextUpdate]) friends of
        Ok (responses, friends) \<Rightarrow>
          (case last responses of
             SfUpdate (Some (cyclic_countdown, update_friend)) \<Rightarrow>
               if \<not> sent then Ok (([], butlast responses), friends)
               else if cyclic_countdown = 0 then Ok (([[UpdateFriend update_friend]], butlast responses), friends)
               else res_bind (send_full_state_rounds rounds friends) (\<lambda>((sent, answers), friends).
                      Ok (([UpdateFriend update_friend] # sent, butlast responses @ answers), friends))
           | _ \<Rightarrow> Ok (([], butlast responses), friends))
      | _ \<Rightarrow> Err SeqFriendsError)"

definition send_full_state ::
  "(seq_friends_request list \<times> bool) list \<Rightarrow> seq_friends
    \<Rightarrow> ((index_mutation list list \<times> seq_friends_response list) \<times> seq_friends, index_client_error) res" where
  "send_full_state rounds friends =
     (case seq_friends_loop [SfResetCountdown] friends of
        Ok (_, friends) \<Rightarrow> send_full_state_rounds rounds friends
      | _ \<Rightarrow> Err SeqFriendsError)"

section \<open>Handlers\<close>

definition index_client_new ::
  "'isa index_client_config \<Rightarrow> seq_friends \<Rightarrow> nat \<Rightarrow> nat \<Rightarrow> nat \<Rightarrow> 'isa index_client" where
  "index_client_new config friends max_open_requests keepalive_ticks backoff_ticks =
     \<lparr> ic_index_servers = map (\<lambda>n. \<lparr> ia_public_key = ni_public_key n, ia_address = ni_address n \<rparr>) (icc_index_servers config),
       ic_seq_friends = friends, ic_max_open_requests = max_open_requests, ic_num_open_requests = 0,
       ic_keepalive_ticks = keepalive_ticks, ic_backoff_ticks = backoff_ticks, ic_conn_status = CsEmpty backoff_ticks \<rparr>"

definition try_connect_to_server :: "('isa, unit) ic_action" where
  "try_connect_to_server =
     act_bind (act_gets ic_conn_status) (\<lambda>conn_status.
     act_bind (act_gets ic_index_servers) (\<lambda>index_servers.
       case conn_status of
         CsEmpty _ \<Rightarrow>
           (case index_servers of
              [] \<Rightarrow> act_modify (\<lambda>s. s\<lparr> ic_conn_status := CsEmpty 0 \<rparr>)
            | index_server # rest \<Rightarrow>
                act_seq (act_modify (\<lambda>s. s\<lparr> ic_index_servers := rest @ [index_server],
                    ic_conn_status := CsConnecting \<lparr> sg_index_server = index_server, sg_cancel_sender = True \<rparr> \<rparr>))
                  (spawn_task (OutConnect index_server)))
       | _ \<Rightarrow> act_panic))"

definition return_response_routes_failure :: "uid \<Rightarrow> ('isa, unit) ic_action" where
  "return_response_routes_failure request_id =
     to_app_server_send (IcResponseRoutes \<lparr> cr_request_id = request_id, cr_result = RoutesFailure \<rparr>)"

definition handle_from_app_server_add_index_server ::
  "uid \<Rightarrow> 'isa named_index_server_address \<Rightarrow> ('isa, unit) ic_action" where
  "handle_from_app_server_add_index_server app_request_id n =
     act_seq (db_client_mutate (ConfigAddIndexServer n))
    (act_seq (act_modify (\<lambda>s. s\<lparr> ic_index_servers :=
        filter (\<lambda>index_server. ia_public_key index_server \<noteq> ni_public_key n) (ic_index_servers s) @ [address_of_named n] \<rparr>))
    (act_seq (to_app_server_send (IcReportMutations
        \<lparr> irm_opt_app_request_id = Some app_request_id, irm_mutations = [ReportAddIndexServer n] \<rparr>))
    (act_bind (act_gets ic_conn_status) (\<lambda>conn_status.
       case conn_status of CsEmpty _ \<Rightarrow> try_connect_to_server | _ \<Rightarrow> act_return ()))))"

definition disconnect_server :: "public_key \<Rightarrow> ('isa, unit) ic_action" where
  "disconnect_server public_key =
     act_bind (act_gets ic_conn_status) (\<lambda>conn_status.
       case conn_status of
         CsEmpty _ \<Rightarrow> act_return ()
       | CsConnecting c \<Rightarrow>
           act_when (ia_public_key (sg_index_server c) = public_key \<and> sg_cancel_sender c)
             (act_seq (act_modify (\<lambda>s. s\<lparr> ic_conn_status := CsConnecting (c\<lparr> sg_cancel_sender := False \<rparr>) \<rparr>)) (emit OutCancel))
       | CsConnected c \<Rightarrow>
           act_when (ia_public_key (sd_index_server c) = public_key)
             (act_seq (act_modify (\<lambda>s. s\<lparr> ic_conn_status :=
                 CsConnected (c\<lparr> sd_control_sender := False, sd_cancel_sender := False \<rparr>) \<rparr>))
               (act_when (sd_cancel_sender c) (emit OutCancel))))"

definition handle_from_app_server_remove_index_server :: "uid \<Rightarrow> public_key \<Rightarrow> ('isa, unit) ic_action" where
  "handle_from_app_server_remove_index_server app_request_id public_key =
     act_seq (db_client_mutate (ConfigRemoveIndexServer public_key))
    (act_seq (act_modify (\<lambda>s. s\<lparr> ic_index_servers :=
        filter (\<lambda>index_server. ia_public_key index_server \<noteq> public_key) (ic_index_servers s) \<rparr>))
    (act_seq (to_app_server_send (IcReportMutations
        \<lparr> irm_opt_app_request_id = Some app_request_id, irm_mutations = [ReportRemoveIndexServer public_key] \<rparr>))
       (disconnect_server public_key)))"

text \<open>The control sender is taken and put back after a successful send.\<close>

definition set_connected :: "'isa server_connected \<Rightarrow> ('isa, unit) ic_action" where
  "set_connected c = act_modify (\<lambda>s. s\<lparr> ic_conn_status := CsConnected c \<rparr>)"

definition handle_from_app_server_request_routes :: "uid \<Rightarrow> request_routes \<Rightarrow> ('isa, unit) ic_action" where
  "handle_from_app_server_request_routes app_request_id request_routes =
     act_seq (to_app_server_send (IcReportMutations
        \<lparr> irm_opt_app_request_id = Some app_request_id, irm_mutations = [] \<rparr>))
    (act_bind (act_gets index_client.truncate) (\<lambda>c.
       if ic_max_open_requests c \<le> ic_num_open_requests c then return_response_routes_failure (rr_request_id request_routes)
       else
         (case ic_conn_status c of
            CsConnected server_connected \<Rightarrow>
              if \<not> sd_control_sender server_connected then return_response_routes_failure (rr_request_id request_routes)
              else
                act_seq (set_connected (server_connected\<lparr> sd_control_sender := False \<rparr>))
               (act_bind (control_sender_send (RequestRoutesControl request_routes (rr_request_id request_routes))) (\<lambda>sent.
                  if \<not> sent then return_response_routes_failure (rr_request_id request_routes)
                  else
                    act_seq (set_connected server_connected)
                   (act_seq (act_modify (\<lambda>s. s\<lparr> ic_num_open_requests := ic_num_open_requests s + 1 \<rparr>))
                      (spawn_task (OutAwaitResponse (rr_request_id request_routes))))))
          | _ \<Rightarrow> return_response_routes_failure (rr_request_id request_routes))))"

definition push_mutations :: "index_mutation list \<Rightarrow> 'isa server_connected \<Rightarrow> ('isa, unit) ic_action" where
  "push_mutations mutations server_connected =
     act_bind next_update (\<lambda>next_update_res.
       let mutations = mutations @ (case next_update_res of
             Some (_, update_friend) \<Rightarrow> [UpdateFriend update_friend] | None \<Rightarrow> [])
       in act_bind (control_sender_send (SendMutations mutations)) (\<lambda>sent.
          act_bind (act_gets ic_keepalive_ticks) (\<lambda>keepalive_ticks.
            set_connected (server_connected\<lparr> sd_control_sender := sent,
              sd_ticks_to_send_keepalive := keepalive_ticks \<rparr>))))"

definition handle_from_app_server_apply_mutations :: "index_mutation list \<Rightarrow> ('isa, unit) ic_action" where
  "handle_from_app_server_apply_mutations mutations =
     act_seq (act_for mutations (\<lambda>m. act_bind (seq_friends_client_call (SfMutate m)) (\<lambda>_. act_return ())))
    (act_bind (act_gets ic_conn_status) (\<lambda>conn_status.
       case conn_status of
         CsConnected server_connected \<Rightarrow>
           if \<not> sd_control_sender server_connected then act_return ()
           else
             act_seq (set_connected (server_connected\<lparr> sd_control_sender := False \<rparr>))
               (push_mutations mutations (server_connected\<lparr> sd_control_sender := False \<rparr>))
       | _ \<Rightarrow> act_return ()))"

definition handle_from_app_server :: "'isa app_server_to_index_client \<Rightarrow> ('isa, unit) ic_action" where
  "handle_from_app_server m =
     (case m of
        AppRequest app_request_id index_client_request \<Rightarrow>
          (case index_client_request of
             ReqAddIndexServer n \<Rightarrow> handle_from_app_server_add_index_server app_request_id n
           | ReqRemoveIndexServer public_key \<Rightarrow> handle_from_app_server_remove_index_server app_request_id public_key
           | ReqRequestRoutes request_routes \<Rightarrow> handle_from_app_server_request_routes app_request_id request_routes)
      | ApplyMutations mutations \<Rightarrow> handle_from_app_server_apply_mutations mutations)"

definition handle_index_server_connected :: "('isa, unit) ic_action" where
  "handle_index_server_connected =
     act_bind (act_gets index_client.truncate) (\<lambda>client.
       case ic_conn_status client of
         CsConnecting c \<Rightarrow>
           act_seq (set_connected \<lparr> sd_index_server = sg_index_server c, sd_control_sender = True,
                sd_cancel_sender = sg_cancel_sender c, sd_ticks_to_send_keepalive = ic_keepalive_ticks client \<rparr>)
             (to_app_server_send (IcReportMutations \<lparr> irm_opt_app_request_id = None,
                irm_mutations = [SetConnectedServer (Some (ia_public_key (sg_index_server c)))] \<rparr>))
       | _ \<Rightarrow> act_return ())"

definition handle_index_server_closed :: "('isa, unit) ic_action" where
  "handle_index_server_closed =
     act_bind (act_gets ic_conn_status) (\<lambda>conn_status.
       act_seq (case conn_status of
                  CsConnected _ \<Rightarrow>
                    to_app_server_send (IcReportMutations \<lparr> irm_opt_app_request_id = None,
                      irm_mutations = [SetConnectedServer None] \<rparr>)
                | _ \<Rightarrow> act_return ())
         (act_modify (\<lambda>s. s\<lparr> ic_conn_status := CsEmpty (ic_backoff_ticks s) \<rparr>)))"

definition handle_response_routes :: "uid \<Rightarrow> response_routes_result \<Rightarrow> ('isa, unit) ic_action" where
  "handle_response_routes request_id result =
     act_bind (act_gets ic_num_open_requests) (\<lambda>num_open_requests.
       if num_open_requests = 0 then act_panic
       else
         act_seq (act_modify (\<lambda>s. s\<lparr> ic_num_open_requests := num_open_requests - 1 \<rparr>))
           (to_app_server_send (IcResponseRoutes \<lparr> cr_request_id = request_id, cr_result = result \<rparr>)))"

definition send_keepalive :: "'isa server_connected \<Rightarrow> ('isa, unit) ic_action" where
  "send_keepalive server_connected =
     act_bind next_update (\<lambda>next_update_res.
       let mutations = (case next_update_res of Some (_, update_friend) \<Rightarrow> [UpdateFriend update_friend] | None \<Rightarrow> [])
       in act_bind (control_sender_send (SendMutations mutations)) (\<lambda>sent.
            set_connected (server_connected\<lparr> sd_control_sender := sent \<rparr>)))"

definition ic_handle_timer_tick :: "('isa, unit) ic_action" where
  "ic_handle_timer_tick =
     act_bind (act_gets index_client.truncate) (\<lambda>client.
       case ic_conn_status client of
         CsEmpty ticks_to_reconnect \<Rightarrow>
           (let ticks_to_reconnect = ticks_to_reconnect - 1
            in act_seq (act_modify (\<lambda>s. s\<lparr> ic_conn_status := CsEmpty ticks_to_reconnect \<rparr>))
                 (act_when (ticks_to_reconnect = 0) try_connect_to_server))
       | CsConnecting _ \<Rightarrow> act_return ()
       | CsConnected server_connected \<Rightarrow>
           if \<not> sd_control_sender server_connected then act_return ()
           else
             (let ticks = sd_ticks_to_send_keepalive server_connected - 1
              in if ticks \<noteq> 0 then set_connected (server_connected\<lparr> sd_ticks_to_send_keepalive := ticks \<rparr>)
                 else
                   (let server_connected = server_connected\<lparr> sd_control_sender := False,
                          sd_ticks_to_send_keepalive := ic_keepalive_ticks client \<rparr>
                    in act_seq (set_connected server_connected) (send_keepalive server_connected))))"

section \<open>The loop\<close>

definition index_client_handle :: "'isa index_client_event \<Rightarrow> ('isa, unit) ic_action" where
  "index_client_handle event =
     (case event of
        FromAppServer m \<Rightarrow> handle_from_app_server m
      | EvAppServerClosed \<Rightarrow> act_throw AppServerClosed
      | IndexServerConnected \<Rightarrow> handle_index_server_connected
      | IndexServerClosed \<Rightarrow> handle_index_server_closed
      | EvResponseRoutes request_id result \<Rightarrow> handle_response_routes request_id result
      | EvTimerTick \<Rightarrow> ic_handle_timer_tick)"

definition index_client_round :: "ic_io \<times> 'isa index_client_event \<Rightarrow> ('isa, unit) ic_action" where
  "index_client_round round =
     act_seq (act_modify (\<lambda>s. s\<lparr> cx_io := fst round \<rparr>)) (index_client_handle (snd round))"

definition index_client_loop ::
  "(ic_io \<times> 'isa index_client_event) list \<Rightarrow> 'isa index_client \<Rightarrow> ic_io
    \<Rightarrow> ((index_client_error + unit) \<times> 'isa ic_ctx) option" where
  "index_client_loop rounds client io =
     act_seq try_connect_to_server (act_for rounds index_client_round)
       (index_client.extend client \<lparr> cx_io = io, cx_out = [] \<rparr>)"

section \<open>What was given away\<close>

definition stored :: "'isa ic_output list \<Rightarrow> 'isa index_client_config_mutation list" where
  "stored out = concat (map (\<lambda>m. case m of OutDatabase d \<Rightarrow> [d] | _ \<Rightarrow> []) out)"

definition reported :: "'isa ic_output list \<Rightarrow> 'isa index_client_report_mutation list" where
  "reported out = concat (map (\<lambda>m. case m of OutApp (IcReportMutations r) \<Rightarrow> irm_mutations r | _ \<Rightarrow> []) out)"

definition acknowledged :: "'isa ic_output list \<Rightarrow> uid list" where
  "acknowledged out = concat (map (\<lambda>m. case m of
       OutApp (IcReportMutations r) \<Rightarrow> (case irm_opt_app_request_id r of Some i \<Rightarrow> [i] | None \<Rightarrow> []) | _ \<Rightarrow> []) out)"

definition answered :: "'isa ic_output list \<Rightarrow> uid list" where
  "answered out = concat (map (\<lambda>m. case m of OutApp (IcResponseRoutes r) \<Rightarrow> [cr_request_id r] | _ \<Rightarrow> []) out)"

definition awaited :: "'isa ic_output list \<Rightarrow> uid list" where
  "awaited out = concat (map (\<lambda>m. case m of OutAwaitResponse i \<Rightarrow> [i] | _ \<Rightarrow> []) out)"

definition announced :: "'isa ic_output list \<Rightarrow> index_mutation list list" where
  "announced out = concat (map (\<lambda>m. case m of OutControl (SendMutations ms) \<Rightarrow> [ms] | _ \<Rightarrow> []) out)"

lemmas output_defs = stored_def reported_def acknowledged_def answered_def awaited_def announced_def

text \<open>What arrived.\<close>

definition app_requests :: "(ic_io \<times> 'isa index_client_event) list \<Rightarrow> uid list" where
  "app_requests rounds = concat (map (\<lambda>r. case snd r of FromAppServer (AppRequest i _) \<Rightarrow> [i] | _ \<Rightarrow> []) rounds)"

definition asked :: "(ic_io \<times> 'isa index_client_event) list \<Rightarrow> uid list" where
  "asked rounds = concat (map (\<lambda>r. case snd r of
       FromAppServer (AppRequest _ (ReqRequestRoutes rr)) \<Rightarrow> [rr_request_id rr] | _ \<Rightarrow> []) rounds)"

definition returned :: "(ic_io \<times> 'isa index_client_event) list \<Rightarrow> uid list" where
  "returned rounds = concat (map (\<lambda>r. case snd r of EvResponseRoutes i _ \<Rightarrow> [i] | _ \<Rightarrow> []) rounds)"

lemmas input_defs = app_requests_def asked_def returned_def

fun connected_key :: "'isa conn_status \<Rightarrow> public_key option" where
  "connected_key (CsConnected c) = Some (ia_public_key (sd_index_server c))"
| "connected_key _ = None"

section \<open>Rounds\<close>

lemma seq_assoc: "act_seq (act_seq a b) c = act_seq a (act_seq b c)"
  by (rule ext) (simp add: act_seq_def act_bind_def split: option.splits sum.splits)

lemma for_append: "act_for (xs @ ys) f = act_seq (act_for xs f) (act_for ys f)"
  by (induction xs) (simp_all add: act_simps seq_assoc)

definition ic_rest where
  "ic_rest s = (ic_index_servers s, ic_max_open_requests s, ic_num_open_requests s, ic_keepalive_ticks s,
     ic_backoff_ticks s, ic_conn_status s, io_control (cx_io s), cx_out s)"

definition only_friends :: "'isa ic_ctx \<Rightarrow> 'isa ic_ctx \<Rightarrow> bool" where
  "only_friends s s' \<longleftrightarrow> ic_rest s' = ic_rest s"

lemma only_friendsD:
  assumes "only_friends s s'"
  shows "ic_index_servers s' = ic_index_servers s" "ic_max_open_requests s' = ic_max_open_requests s"
    "ic_num_open_requests s' = ic_num_open_requests s" "ic_keepalive_ticks s' = ic_keepalive_ticks s"
    "ic_backoff_ticks s' = ic_backoff_ticks s" "ic_conn_status s' = ic_conn_status s"
    "io_control (cx_io s') = io_control (cx_io s)" "cx_out s' = cx_out s"
  using assms by (simp_all add: only_friends_def ic_rest_def)

lemma friends_call: "seq_friends_client_call q s = Some (r, s') \<Longrightarrow> only_friends s s'"
  by (auto simp: seq_friends_client_call_def bind_run seq_run act_simps only_friends_def ic_rest_def
      split: list.splits res.splits)

interpretation friends_only: context_order only_friends
  by unfold_locales (simp_all add: only_friends_def)

lemma next_update_only: "follows only_friends next_update"
  unfolding next_update_def using friends_call
  by (intro friends_only.bind) (auto simp: follows_def act_simps only_friends_def split: seq_friends_response.splits)

lemma mutations_only:
  "follows only_friends (act_for ms (\<lambda>m. act_bind (seq_friends_client_call (SfMutate m)) (\<lambda>_. act_return ())))"
  using friends_call by (intro friends_only.loop friends_only.bind friends_only.return) (auto simp: follows_def)

definition config_of :: "'isa index_client_config \<Rightarrow> 'isa ic_output list \<Rightarrow> 'isa index_client_config" where
  "config_of c out = fold index_client_config_mutate (stored out) c"

text \<open>Each statement on a state.\<close>

lemma eval_send [simp]:
  "to_app_server_send m s =
     (if io_app_server (cx_io s) = 0 then Some (Inl SendToAppServerFailed, s)
      else Some (Inr (), s\<lparr> cx_io := (cx_io s)\<lparr> io_app_server := io_app_server (cx_io s) - 1 \<rparr>, cx_out := cx_out s @ [OutApp m] \<rparr>))"
  by (simp add: to_app_server_send_def emit_def act_defs)

lemma eval_store [simp]:
  "db_client_mutate m s =
     (if io_database (cx_io s) then Some (Inr (), s\<lparr> cx_out := cx_out s @ [OutDatabase m] \<rparr>) else Some (Inl DatabaseError, s))"
  by (simp add: db_client_mutate_def emit_def act_defs)

lemma eval_control [simp]:
  "control_sender_send m s =
     (if io_control (cx_io s) then Some (Inr True, s\<lparr> cx_out := cx_out s @ [OutControl m] \<rparr>) else Some (Inr False, s))"
  by (simp add: control_sender_send_def emit_def act_defs)

lemma eval_spawn [simp]:
  "spawn_task m s = (if io_spawn (cx_io s) then Some (Inr (), s\<lparr> cx_out := cx_out s @ [m] \<rparr>) else Some (Inl IcSpawnError, s))"
  by (simp add: spawn_task_def emit_def act_defs)

lemma eval_connect:
  "try_connect_to_server s =
     (case ic_conn_status s of
        CsEmpty _ \<Rightarrow>
          (case ic_index_servers s of
             [] \<Rightarrow> Some (Inr (), s\<lparr> ic_conn_status := CsEmpty 0 \<rparr>)
           | a # rest \<Rightarrow>
               (let t = s\<lparr> ic_index_servers := rest @ [a],
                      ic_conn_status := CsConnecting \<lparr> sg_index_server = a, sg_cancel_sender = True \<rparr> \<rparr>
                in if io_spawn (cx_io s) then Some (Inr (), t\<lparr> cx_out := cx_out s @ [OutConnect a] \<rparr>) else Some (Inl IcSpawnError, t)))
      | _ \<Rightarrow> None)"
  by (simp add: try_connect_to_server_def act_defs Let_def split: conn_status.split list.split)

lemma output_append [simp]:
  "stored (out @ out') = stored out @ stored out'"
  "reported (out @ out') = reported out @ reported out'"
  "acknowledged (out @ out') = acknowledged out @ acknowledged out'"
  "answered (out @ out') = answered out @ answered out'"
  "awaited (out @ out') = awaited out @ awaited out'"
  "announced (out @ out') = announced out @ announced out'"
  by (simp_all add: output_defs)

lemma output_Cons [simp]:
  "stored (m # out) = (case m of OutDatabase d \<Rightarrow> [d] | _ \<Rightarrow> []) @ stored out"
  "reported (m # out) = (case m of OutApp (IcReportMutations r) \<Rightarrow> irm_mutations r | _ \<Rightarrow> []) @ reported out"
  "acknowledged (m # out) = (case m of OutApp (IcReportMutations r) \<Rightarrow>
     (case irm_opt_app_request_id r of Some i \<Rightarrow> [i] | None \<Rightarrow> []) | _ \<Rightarrow> []) @ acknowledged out"
  "answered (m # out) = (case m of OutApp (IcResponseRoutes r) \<Rightarrow> [cr_request_id r] | _ \<Rightarrow> []) @ answered out"
  "awaited (m # out) = (case m of OutAwaitResponse i \<Rightarrow> [i] | _ \<Rightarrow> []) @ awaited out"
  "announced (m # out) = (case m of OutControl (SendMutations ms) \<Rightarrow> [ms] | _ \<Rightarrow> []) @ announced out"
  by (simp_all add: output_defs)

lemma output_Nil [simp]:
  "stored [] = []" "reported [] = []" "acknowledged [] = []" "answered [] = []" "awaited [] = []" "announced [] = []"
  by (simp_all add: output_defs)

text \<open>
  The report that the application has and the list of servers follow the configuration in the
  database.
\<close>

definition tracks :: "'isa index_client_config \<Rightarrow> 'isa ic_ctx \<Rightarrow> bool" where
  "tracks c s \<longleftrightarrow>
     mset (ic_index_servers s) = mset (map address_of_named (icc_index_servers (config_of c (cx_out s))))
     \<and> fold index_client_report_mutate (reported (cx_out s)) (create_index_client_report c) =
         \<lparr> icr_index_servers = icc_index_servers (config_of c (cx_out s)), icr_opt_connected_server = connected_key (ic_conn_status s) \<rparr>"

lemma tracks_quiet:
  assumes "tracks c s" "stored (cx_out s') = stored (cx_out s)" "reported (cx_out s') = reported (cx_out s)"
    "mset (ic_index_servers s') = mset (ic_index_servers s)" "connected_key (ic_conn_status s') = connected_key (ic_conn_status s)"
  shows "tracks c s'"
  using assms by (simp add: tracks_def config_of_def)

lemma connect_tracks:
  assumes "try_connect_to_server s = Some (Inr (), s')" "tracks c s"
  shows "tracks c s'"
  using assms(1)
  by (intro tracks_quiet [OF assms(2)])
     (auto simp: eval_connect Let_def split: conn_status.splits list.splits if_splits)

lemma mset_filter_address:
  assumes "mset servers = image_mset address_of_named (mset ns)"
  shows "mset (filter (\<lambda>a. ia_public_key a \<noteq> pk) servers) = image_mset address_of_named (mset (filter (\<lambda>n. ni_public_key n \<noteq> pk) ns))"
proof -
  have "mset (filter (\<lambda>a. ia_public_key a \<noteq> pk) servers) = mset (filter (\<lambda>a. ia_public_key a \<noteq> pk) (map address_of_named ns))"
    using assms by simp
  then show ?thesis by (simp only: filter_map comp_def address_of_named_def) simp
qed

lemma add_tracks:
  assumes "handle_from_app_server_add_index_server i n s = Some (Inr (), s')" "tracks c s"
  shows "tracks c s'"
proof -
  let ?t = "s\<lparr> ic_index_servers := filter (\<lambda>a. ia_public_key a \<noteq> ni_public_key n) (ic_index_servers s) @ [address_of_named n],
     cx_io := (cx_io s)\<lparr> io_app_server := io_app_server (cx_io s) - 1 \<rparr>, cx_out := cx_out s @ [OutDatabase (ConfigAddIndexServer n),
       OutApp (IcReportMutations \<lparr> irm_opt_app_request_id = Some i, irm_mutations = [ReportAddIndexServer n] \<rparr>)] \<rparr>"
  have t: "tracks c ?t" using assms(2)
    by (simp add: tracks_def config_of_def mset_filter_address del: mset_filter)
  show ?thesis
  proof (cases "ic_conn_status s")
    case (CsEmpty k)
    then have "try_connect_to_server ?t = Some (Inr (), s')" using assms(1)
      by (simp add: handle_from_app_server_add_index_server_def act_defs split: if_splits)
    then show ?thesis using connect_tracks t by blast
  qed (use assms(1) t in \<open>simp_all add: handle_from_app_server_add_index_server_def act_defs split: if_splits\<close>)
qed

lemma remove_tracks:
  assumes "handle_from_app_server_remove_index_server i pk s = Some (Inr (), s')" "tracks c s"
  shows "tracks c s'"
  using assms
  by (auto simp: handle_from_app_server_remove_index_server_def disconnect_server_def emit_def act_defs tracks_def config_of_def
      mset_filter_address simp del: mset_filter split: if_splits conn_status.splits)

lemma seq_eval: "act_seq m n s = (case m s of None \<Rightarrow> None | Some (Inl e, t) \<Rightarrow> Some (Inl e, t) | Some (Inr _, t) \<Rightarrow> n t)"
  by (simp add: act_seq_def act_bind_def)

lemma bind_InrD: "act_bind m f s = Some (Inr y, s') \<Longrightarrow> \<exists>x t. m s = Some (Inr x, t) \<and> f x t = Some (Inr y, s')"
  by (simp add: bind_run)

text \<open>A message with mutations was offered to the session, and the count to the next one started again.\<close>

definition announces_from :: "'isa server_connected \<Rightarrow> 'isa ic_ctx \<Rightarrow> 'isa ic_ctx \<Rightarrow> bool" where
  "announces_from c s s' \<longleftrightarrow>
     ic_conn_status s = CsConnected c \<and> sd_control_sender c
     \<and> ic_conn_status s' = CsConnected (c\<lparr> sd_control_sender := io_control (cx_io s), sd_ticks_to_send_keepalive := ic_keepalive_ticks s \<rparr>)
     \<and> (\<exists>ms. cx_out s' = cx_out s @ (if io_control (cx_io s) then [OutControl (SendMutations ms)] else []))
     \<and> ic_index_servers s' = ic_index_servers s \<and> ic_max_open_requests s' = ic_max_open_requests s
     \<and> ic_num_open_requests s' = ic_num_open_requests s \<and> ic_keepalive_ticks s' = ic_keepalive_ticks s
     \<and> ic_backoff_ticks s' = ic_backoff_ticks s"

lemma push_run:
  assumes "push_mutations ms c s = Some (Inr (), s')"
  shows "ic_conn_status s' = CsConnected (c\<lparr> sd_control_sender := io_control (cx_io s), sd_ticks_to_send_keepalive := ic_keepalive_ticks s \<rparr>)
     \<and> (\<exists>ms. cx_out s' = cx_out s @ (if io_control (cx_io s) then [OutControl (SendMutations ms)] else []))
     \<and> ic_index_servers s' = ic_index_servers s \<and> ic_max_open_requests s' = ic_max_open_requests s
     \<and> ic_num_open_requests s' = ic_num_open_requests s \<and> ic_keepalive_ticks s' = ic_keepalive_ticks s
     \<and> ic_backoff_ticks s' = ic_backoff_ticks s"
proof -
  obtain nu v where nu: "next_update s = Some (Inr nu, v)"
    and rest: "act_bind (control_sender_send (SendMutations (ms @ (case nu of Some (_, uf) \<Rightarrow> [UpdateFriend uf] | None \<Rightarrow> [])))) (\<lambda>sent.
         act_bind (act_gets ic_keepalive_ticks) (\<lambda>k.
           set_connected (c\<lparr> sd_control_sender := sent, sd_ticks_to_send_keepalive := k \<rparr>))) v = Some (Inr (), s')"
    using bind_InrD [OF assms [unfolded push_mutations_def Let_def]] by blast
  show ?thesis using rest only_friendsD [OF followsD [OF next_update_only nu]]
    by (cases "io_control (cx_io s)") (auto simp: act_bind_def bind_gets set_connected_def run_basic)
qed

lemma apply_run:
  assumes "handle_from_app_server_apply_mutations ms s = Some (Inr (), s')"
  obtains "ic_rest s' = ic_rest s" "\<forall>c. ic_conn_status s = CsConnected c \<longrightarrow> \<not> sd_control_sender c"
  | c where "announces_from c s s'"
proof -
  obtain t where t: "act_for ms (\<lambda>m. act_bind (seq_friends_client_call (SfMutate m)) (\<lambda>_. act_return ())) s = Some (Inr (), t)"
    using assms by (auto simp: handle_from_app_server_apply_mutations_def seq_run)
  have frame: "only_friends s t" using followsD [OF mutations_only t] .
  show ?thesis
  proof (cases "\<exists>c. ic_conn_status s = CsConnected c \<and> sd_control_sender c")
    case False
    then have "s' = t" using assms t only_friendsD [OF frame]
      by (auto simp: handle_from_app_server_apply_mutations_def seq_eval act_simps split: conn_status.splits if_splits)
    then show ?thesis using that(1) False frame by (auto simp: only_friends_def)
  next
    case True
    then obtain c where c: "ic_conn_status s = CsConnected c" "sd_control_sender c" by blast
    let ?c = "c\<lparr> sd_control_sender := False \<rparr>"
    have "push_mutations ms ?c (t\<lparr> ic_conn_status := CsConnected ?c \<rparr>) = Some (Inr (), s')"
      using assms t c only_friendsD [OF frame]
      by (simp add: handle_from_app_server_apply_mutations_def seq_eval set_connected_def bind_gets run_basic)
    then show ?thesis using push_run [of ms ?c _ s'] that(2) [of c] c only_friendsD [OF frame]
      by (fastforce simp: announces_from_def)
  qed
qed

lemma eval_tick:
  "ic_handle_timer_tick s =
     (case ic_conn_status s of
        CsEmpty n \<Rightarrow>
          if n - 1 = 0 then try_connect_to_server (s\<lparr> ic_conn_status := CsEmpty 0 \<rparr>)
          else Some (Inr (), s\<lparr> ic_conn_status := CsEmpty (n - 1) \<rparr>)
      | CsConnecting _ \<Rightarrow> Some (Inr (), s)
      | CsConnected c \<Rightarrow>
          if \<not> sd_control_sender c then Some (Inr (), s)
          else if sd_ticks_to_send_keepalive c - 1 \<noteq> 0
          then Some (Inr (), s\<lparr> ic_conn_status := CsConnected (c\<lparr> sd_ticks_to_send_keepalive := sd_ticks_to_send_keepalive c - 1 \<rparr>) \<rparr>)
          else (let c = c\<lparr> sd_control_sender := False, sd_ticks_to_send_keepalive := ic_keepalive_ticks s \<rparr>
                in send_keepalive c (s\<lparr> ic_conn_status := CsConnected c \<rparr>)))"
  by (simp add: ic_handle_timer_tick_def act_simps set_connected_def Let_def index_client.truncate_def split: conn_status.split)

lemma tick_run:
  assumes "ic_handle_timer_tick s = Some (Inr (), s')"
  obtains n where "ic_conn_status s = CsEmpty n" "n - 1 \<noteq> 0" "s' = s\<lparr> ic_conn_status := CsEmpty (n - 1) \<rparr>"
  | n where "ic_conn_status s = CsEmpty n" "n \<le> 1" "try_connect_to_server (s\<lparr> ic_conn_status := CsEmpty 0 \<rparr>) = Some (Inr (), s')"
  | "s' = s" "\<forall>n. ic_conn_status s \<noteq> CsEmpty n" "\<forall>c. ic_conn_status s = CsConnected c \<longrightarrow> \<not> sd_control_sender c"
  | c where "ic_conn_status s = CsConnected c" "sd_control_sender c" "sd_ticks_to_send_keepalive c - 1 \<noteq> 0"
      "s' = s\<lparr> ic_conn_status := CsConnected (c\<lparr> sd_ticks_to_send_keepalive := sd_ticks_to_send_keepalive c - 1 \<rparr>) \<rparr>"
  | c where "announces_from c s s'"
proof (cases "ic_conn_status s")
  case (CsEmpty n)
  then show ?thesis using assms that(1) [of n] that(2) [of n] by (simp add: eval_tick split: if_splits)
next
  case (CsConnecting c)
  then show ?thesis using assms that(3) by (simp add: eval_tick)
next
  case (CsConnected c)
  show ?thesis
  proof (cases "sd_control_sender c \<and> sd_ticks_to_send_keepalive c - 1 = 0")
    case False
    show ?thesis
    proof (cases "sd_control_sender c")
      case True
      then have "s' = s\<lparr> ic_conn_status := CsConnected (c\<lparr> sd_ticks_to_send_keepalive := sd_ticks_to_send_keepalive c - 1 \<rparr>) \<rparr>"
        using assms CsConnected False by (simp add: eval_tick)
      then show ?thesis using that(4) CsConnected True False by blast
    next
      case False
      then have "s' = s" using assms CsConnected by (simp add: eval_tick)
      then show ?thesis using that(3) CsConnected False by simp
    qed
  next
    case True
    let ?c = "c\<lparr> sd_control_sender := False, sd_ticks_to_send_keepalive := ic_keepalive_ticks s \<rparr>"
    have "send_keepalive ?c (s\<lparr> ic_conn_status := CsConnected ?c \<rparr>) = Some (Inr (), s')"
      using assms CsConnected True by (simp add: eval_tick Let_def)
    then obtain nu v where nu: "next_update (s\<lparr> ic_conn_status := CsConnected ?c \<rparr>) = Some (Inr nu, v)"
      and rest: "act_bind (control_sender_send (SendMutations (case nu of Some (_, uf) \<Rightarrow> [UpdateFriend uf] | None \<Rightarrow> []))) (\<lambda>sent.
         set_connected (?c\<lparr> sd_control_sender := sent \<rparr>)) v = Some (Inr (), s')"
      unfolding send_keepalive_def Let_def by (blast dest: bind_InrD)
    note uv = only_friendsD [OF followsD [OF next_update_only nu]]
    have "announces_from c s s'"
    proof (cases "io_control (cx_io s)")
      case True
      then show ?thesis using CsConnected \<open>sd_control_sender c \<and> _\<close> rest uv
        by (simp add: announces_from_def act_simps set_connected_def act_bind_def) (elim conjE, hypsubst, simp)
    next
      case False
      then show ?thesis using CsConnected \<open>sd_control_sender c \<and> _\<close> rest uv
        by (simp add: announces_from_def act_simps set_connected_def act_bind_def) (elim conjE, hypsubst, simp)
    qed
    then show ?thesis by (rule that(5))
  qed
qed

section \<open>The invariant of the loop\<close>

definition round_accounts :: "ic_io \<times> 'isa index_client_event \<Rightarrow> 'isa ic_ctx \<Rightarrow> 'isa ic_ctx \<Rightarrow> bool" where
  "round_accounts round s s' \<longleftrightarrow>
     acknowledged (cx_out s') = acknowledged (cx_out s) @ app_requests [round]
     \<and> mset (answered (cx_out s')) + mset (awaited (cx_out s')) =
         mset (answered (cx_out s)) + mset (awaited (cx_out s)) + mset (asked [round]) + mset (returned [round])
     \<and> ic_num_open_requests s' + length (returned [round]) + length (awaited (cx_out s)) =
         ic_num_open_requests s + length (awaited (cx_out s'))
     \<and> ic_max_open_requests s' = ic_max_open_requests s \<and> ic_backoff_ticks s' = ic_backoff_ticks s
     \<and> ic_keepalive_ticks s' = ic_keepalive_ticks s
     \<and> (ic_num_open_requests s \<le> ic_max_open_requests s \<longrightarrow> ic_num_open_requests s' \<le> ic_max_open_requests s)
     \<and> (\<exists>new. cx_out s' = cx_out s @ new)"

lemma connect_accounts:
  assumes "try_connect_to_server s = Some (Inr (), s')" "app_requests [r] = []" "asked [r] = []" "returned [r] = []"
  shows "round_accounts r s s'"
  using assms
  by (auto simp: eval_connect round_accounts_def Let_def split: conn_status.splits list.splits if_splits)

lemma announce_accounts:
  assumes "announces_from c s s'" "app_requests [r] = []" "asked [r] = []" "returned [r] = []"
  shows "round_accounts r s s'"
  using assms by (auto simp: announces_from_def round_accounts_def)

lemma quiet_accounts:
  assumes "cx_out s' = cx_out s" "ic_num_open_requests s' = ic_num_open_requests s" "ic_max_open_requests s' = ic_max_open_requests s"
    "ic_backoff_ticks s' = ic_backoff_ticks s" "ic_keepalive_ticks s' = ic_keepalive_ticks s"
    "app_requests [r] = []" "asked [r] = []" "returned [r] = []"
  shows "round_accounts r s s'"
  using assms by (simp add: round_accounts_def)

lemma announce_tracks: "announces_from c s s' \<Longrightarrow> tracks d s \<Longrightarrow> tracks d s'"
  by (erule tracks_quiet) (auto simp: announces_from_def)

lemma rest_tracks: "ic_rest s' = ic_rest s \<Longrightarrow> tracks d s \<Longrightarrow> tracks d s'"
  by (erule tracks_quiet) (simp_all add: ic_rest_def)

lemma input_Cons [simp]:
  "app_requests [(io, e)] = (case e of FromAppServer (AppRequest i _) \<Rightarrow> [i] | _ \<Rightarrow> [])"
  "asked [(io, e)] = (case e of FromAppServer (AppRequest _ (ReqRequestRoutes rr)) \<Rightarrow> [rr_request_id rr] | _ \<Rightarrow> [])"
  "returned [(io, e)] = (case e of EvResponseRoutes i _ \<Rightarrow> [i] | _ \<Rightarrow> [])"
  by (simp_all add: input_defs split: index_client_event.split app_server_to_index_client.split index_client_request.split)

lemma input_append [simp]:
  "app_requests (a @ b) = app_requests a @ app_requests b" "asked (a @ b) = asked a @ asked b"
  "returned (a @ b) = returned a @ returned b"
  by (simp_all add: input_defs)

text \<open>A request for routes is forwarded, or refused at once.\<close>

fun sender_of :: "'isa conn_status \<Rightarrow> bool" where
  "sender_of (CsConnected c) = sd_control_sender c"
| "sender_of _ = False"

fun without_sender :: "'isa conn_status \<Rightarrow> 'isa conn_status" where
  "without_sender (CsConnected c) = CsConnected (c\<lparr> sd_control_sender := False \<rparr>)"
| "without_sender st = st"

lemma connected_key_without [simp]: "connected_key (without_sender st) = connected_key st"
  by (cases st) simp_all

lemma eval_routes:
  "handle_from_app_server_request_routes i rr s =
     (if io_app_server (cx_io s) = 0 then Some (Inl SendToAppServerFailed, s)
      else
        (let t = s\<lparr> cx_io := (cx_io s)\<lparr> io_app_server := io_app_server (cx_io s) - 1 \<rparr>, cx_out := cx_out s @
               [OutApp (IcReportMutations \<lparr> irm_opt_app_request_id = Some i, irm_mutations = [] \<rparr>)] \<rparr>
         in if ic_max_open_requests s \<le> ic_num_open_requests s \<or> \<not> sender_of (ic_conn_status s)
            then return_response_routes_failure (rr_request_id rr) t
            else if \<not> io_control (cx_io s)
            then return_response_routes_failure (rr_request_id rr) (t\<lparr> ic_conn_status := without_sender (ic_conn_status s) \<rparr>)
            else spawn_task (OutAwaitResponse (rr_request_id rr)) (t\<lparr> ic_num_open_requests := ic_num_open_requests s + 1,
                cx_out := cx_out t @ [OutControl (RequestRoutesControl rr (rr_request_id rr))] \<rparr>)))"
proof (cases "ic_conn_status s")
  case (CsConnected c)
  then show ?thesis
    by (simp add: handle_from_app_server_request_routes_def seq_eval bind_gets index_client.truncate_def set_connected_def
        run_basic act_bind_def Let_def)
qed (simp_all add: handle_from_app_server_request_routes_def seq_eval bind_gets index_client.truncate_def Let_def)

lemma eval_failure [simp]:
  "return_response_routes_failure i s =
     to_app_server_send (IcResponseRoutes \<lparr> cr_request_id = i, cr_result = RoutesFailure \<rparr>) s"
  by (simp add: return_response_routes_failure_def)

lemma eval_connected:
  "handle_index_server_connected s =
     (case ic_conn_status s of
        CsConnecting c \<Rightarrow>
          to_app_server_send (IcReportMutations \<lparr> irm_opt_app_request_id = None,
              irm_mutations = [SetConnectedServer (Some (ia_public_key (sg_index_server c)))] \<rparr>)
            (s\<lparr> ic_conn_status := CsConnected \<lparr> sd_index_server = sg_index_server c, sd_control_sender = True,
                sd_cancel_sender = sg_cancel_sender c, sd_ticks_to_send_keepalive = ic_keepalive_ticks s \<rparr> \<rparr>)
      | _ \<Rightarrow> Some (Inr (), s))"
  by (simp add: handle_index_server_connected_def seq_eval bind_gets run_basic set_connected_def index_client.truncate_def
      split: conn_status.split)

lemma eval_closed:
  "handle_index_server_closed s =
     (case ic_conn_status s of
        CsConnected c \<Rightarrow>
          act_seq (to_app_server_send (IcReportMutations \<lparr> irm_opt_app_request_id = None, irm_mutations = [SetConnectedServer None] \<rparr>))
            (act_modify (\<lambda>s. s\<lparr> ic_conn_status := CsEmpty (ic_backoff_ticks s) \<rparr>)) s
      | _ \<Rightarrow> Some (Inr (), s\<lparr> ic_conn_status := CsEmpty (ic_backoff_ticks s) \<rparr>))"
  by (simp add: handle_index_server_closed_def seq_eval bind_gets run_basic split: conn_status.split)

lemma eval_response:
  "handle_response_routes i r s =
     (if ic_num_open_requests s = 0 then None
      else to_app_server_send (IcResponseRoutes \<lparr> cr_request_id = i, cr_result = r \<rparr>)
        (s\<lparr> ic_num_open_requests := ic_num_open_requests s - 1 \<rparr>))"
  by (simp add: handle_response_routes_def seq_eval bind_gets run_basic)

lemma eval_disconnect:
  "disconnect_server pk s =
     (case ic_conn_status s of
        CsEmpty _ \<Rightarrow> Some (Inr (), s)
      | CsConnecting c \<Rightarrow>
          Some (Inr (), if ia_public_key (sg_index_server c) = pk \<and> sg_cancel_sender c
            then s\<lparr> ic_conn_status := CsConnecting (c\<lparr> sg_cancel_sender := False \<rparr>), cx_out := cx_out s @ [OutCancel] \<rparr> else s)
      | CsConnected c \<Rightarrow>
          Some (Inr (), if ia_public_key (sd_index_server c) = pk
            then s\<lparr> ic_conn_status := CsConnected (c\<lparr> sd_control_sender := False, sd_cancel_sender := False \<rparr>),
                   cx_out := cx_out s @ (if sd_cancel_sender c then [OutCancel] else []) \<rparr> else s))"
  by (simp add: disconnect_server_def seq_eval bind_gets run_basic emit_def act_when_def split: conn_status.split)

lemma routes_tracks:
  "handle_from_app_server_request_routes i rr s = Some (Inr (), s') \<Longrightarrow> tracks c s \<Longrightarrow> tracks c s'"
  by (erule tracks_quiet) (auto simp: eval_routes Let_def split: if_splits)

lemma connected_tracks: "handle_index_server_connected s = Some (Inr (), s') \<Longrightarrow> tracks c s \<Longrightarrow> tracks c s'"
  by (auto simp: eval_connected tracks_def config_of_def split: if_splits conn_status.splits)

lemma closed_tracks: "handle_index_server_closed s = Some (Inr (), s') \<Longrightarrow> tracks c s \<Longrightarrow> tracks c s'"
  by (auto simp: eval_closed seq_eval run_basic tracks_def config_of_def split: if_splits conn_status.splits)

lemma response_tracks: "handle_response_routes i r s = Some (Inr (), s') \<Longrightarrow> tracks c s \<Longrightarrow> tracks c s'"
  by (erule tracks_quiet) (auto simp: eval_response split: if_splits)

lemma tick_tracks:
  assumes "ic_handle_timer_tick s = Some (Inr (), s')" "tracks c s"
  shows "tracks c s'"
  using assms(1)
proof (cases rule: tick_run)
  case (2 n)
  have "tracks c (s\<lparr> ic_conn_status := CsEmpty 0 \<rparr>)" using assms(2) 2(1) by (simp add: tracks_def)
  then show ?thesis using connect_tracks 2(3) by blast
qed (use assms(2) announce_tracks in \<open>auto simp: tracks_def\<close>)

lemma round_tracks:
  assumes "index_client_round (io, e) s = Some (Inr (), s')" "tracks c s"
  shows "tracks c s'"
proof -
  have t: "tracks c (s\<lparr> cx_io := io \<rparr>)" using assms(2) by (simp add: tracks_def)
  have run: "index_client_handle e (s\<lparr> cx_io := io \<rparr>) = Some (Inr (), s')"
    using assms(1) by (simp add: index_client_round_def seq_eval run_basic)
  have "tracks c s'" if "handle_from_app_server_apply_mutations ms (s\<lparr> cx_io := io \<rparr>) = Some (Inr (), s')" for ms
    using that by (cases rule: apply_run) (use t rest_tracks announce_tracks in blast)+
  then show ?thesis using run t
    by (auto simp: index_client_handle_def handle_from_app_server_def run_basic
        intro: add_tracks remove_tracks routes_tracks connected_tracks closed_tracks response_tracks tick_tracks
        split: index_client_event.splits app_server_to_index_client.splits index_client_request.splits)
qed

lemma add_accounts:
  assumes "handle_from_app_server_add_index_server i n s = Some (Inr (), s')"
  shows "round_accounts (io, FromAppServer (AppRequest i (ReqAddIndexServer n))) s s'"
  using assms
  by (auto simp: handle_from_app_server_add_index_server_def seq_eval bind_gets run_basic eval_connect round_accounts_def Let_def
      split: if_splits conn_status.splits list.splits)

lemma remove_accounts:
  assumes "handle_from_app_server_remove_index_server i pk s = Some (Inr (), s')"
  shows "round_accounts (io, FromAppServer (AppRequest i (ReqRemoveIndexServer pk))) s s'"
  using assms
  by (auto simp: handle_from_app_server_remove_index_server_def seq_eval bind_gets run_basic eval_disconnect round_accounts_def
      split: if_splits conn_status.splits)

lemma routes_accounts:
  assumes "handle_from_app_server_request_routes i rr s = Some (Inr (), s')"
  shows "round_accounts (io, FromAppServer (AppRequest i (ReqRequestRoutes rr))) s s'"
  using assms by (auto simp: eval_routes round_accounts_def Let_def split: if_splits)

lemma connected_accounts:
  assumes "handle_index_server_connected s = Some (Inr (), s')"
  shows "round_accounts (io, IndexServerConnected) s s'"
  using assms by (auto simp: eval_connected round_accounts_def split: if_splits conn_status.splits)

lemma closed_accounts:
  assumes "handle_index_server_closed s = Some (Inr (), s')"
  shows "round_accounts (io, IndexServerClosed) s s'"
  using assms by (auto simp: eval_closed seq_eval run_basic round_accounts_def split: if_splits conn_status.splits)

lemma response_accounts:
  assumes "handle_response_routes i r s = Some (Inr (), s')"
  shows "round_accounts (io, EvResponseRoutes i r) s s'"
  using assms by (auto simp: eval_response round_accounts_def split: if_splits)

lemma tick_accounts:
  assumes "ic_handle_timer_tick s = Some (Inr (), s')"
  shows "round_accounts (io, EvTimerTick) s s'"
  using assms
proof (cases rule: tick_run)
  case (2 n)
  have "round_accounts (io, EvTimerTick) (s\<lparr> ic_conn_status := CsEmpty 0 \<rparr>) s'" by (rule connect_accounts [OF 2(3)]) simp_all
  then show ?thesis by (simp add: round_accounts_def)
qed (auto intro: quiet_accounts announce_accounts)

lemma apply_accounts:
  assumes "handle_from_app_server_apply_mutations ms s = Some (Inr (), s')"
  shows "round_accounts (io, FromAppServer (ApplyMutations ms)) s s'"
  using assms by (cases rule: apply_run) (auto simp: ic_rest_def intro: quiet_accounts announce_accounts)

lemma round_keeps_accounts:
  assumes "index_client_round (io, e) s = Some (Inr (), s')"
  shows "round_accounts (io, e) s s'"
proof -
  have "index_client_handle e (s\<lparr> cx_io := io \<rparr>) = Some (Inr (), s')"
    using assms by (simp add: index_client_round_def seq_eval run_basic)
  then have "round_accounts (io, e) (s\<lparr> cx_io := io \<rparr>) s'"
    by (auto simp: index_client_handle_def handle_from_app_server_def run_basic
        intro: add_accounts remove_accounts routes_accounts connected_accounts closed_accounts response_accounts tick_accounts
          apply_accounts
        split: index_client_event.splits app_server_to_index_client.splits index_client_request.splits)
  then show ?thesis by (simp add: round_accounts_def)
qed

text \<open>A round panics only on an answer for which no request is open.\<close>

lemma connect_no_panic: "ic_conn_status s = CsEmpty n \<Longrightarrow> try_connect_to_server s \<noteq> None"
  by (simp add: eval_connect Let_def split: list.split)

lemma friends_call_no_panic: "seq_friends_client_call q s \<noteq> None"
  by (simp add: seq_friends_client_call_def seq_eval bind_gets run_basic split: list.split res.split)

lemma bind_no_panic: "m s \<noteq> None \<Longrightarrow> (\<And>x t. m s = Some (Inr x, t) \<Longrightarrow> f x t \<noteq> None) \<Longrightarrow> act_bind m f s \<noteq> None"
  by (auto simp: act_bind_def split: option.splits sum.splits)

lemma next_update_no_panic: "next_update s \<noteq> None"
  unfolding next_update_def
  by (rule bind_no_panic [OF friends_call_no_panic]) (simp add: run_basic split: seq_friends_response.split)

lemma for_no_panic: "(\<And>x s. f x s \<noteq> None) \<Longrightarrow> act_for xs f s \<noteq> None"
proof (induction xs arbitrary: s)
  case (Cons x xs)
  then show ?case using bind_no_panic [of "f x" s "\<lambda>_. act_for xs f"] by (auto simp: act_seq_def)
qed (simp add: run_basic)

lemma round_no_panic:
  assumes "\<forall>i r. e = EvResponseRoutes i r \<longrightarrow> 0 < ic_num_open_requests s"
  shows "index_client_round (io, e) s \<noteq> None"
proof -
  have keepalive: "send_keepalive c t \<noteq> None" for c :: "'a server_connected" and t
    unfolding send_keepalive_def by (rule bind_no_panic [OF next_update_no_panic]) (simp add: act_bind_def set_connected_def run_basic)
  have tick: "ic_handle_timer_tick t \<noteq> None" for t :: "'a ic_ctx"
    using connect_no_panic [of "t\<lparr> ic_conn_status := CsEmpty 0 \<rparr>" 0] keepalive by (auto simp: eval_tick Let_def split: conn_status.split)
  have mutations: "act_for ms (\<lambda>m. act_bind (seq_friends_client_call (SfMutate m)) (\<lambda>_. act_return ())) t \<noteq> None" for ms and t :: "'a ic_ctx"
    by (intro for_no_panic bind_no_panic friends_call_no_panic) (simp add: run_basic)
  have push: "push_mutations ms c t \<noteq> None" for ms c and t :: "'a ic_ctx"
    unfolding push_mutations_def
    by (rule bind_no_panic [OF next_update_no_panic]) (simp add: act_bind_def bind_gets set_connected_def run_basic)
  have "handle_from_app_server_apply_mutations ms t \<noteq> None" for ms and t :: "'a ic_ctx"
    unfolding handle_from_app_server_apply_mutations_def act_seq_def [of "act_for ms _"]
    using push
    by (intro bind_no_panic [OF mutations]) (auto simp: bind_gets seq_eval run_basic set_connected_def split: conn_status.split)
  moreover have "handle_from_app_server_add_index_server i n t \<noteq> None" for i n and t :: "'a ic_ctx"
    by (simp add: handle_from_app_server_add_index_server_def seq_eval bind_gets run_basic eval_connect Let_def
        split: conn_status.split list.split)
  moreover have "handle_from_app_server_remove_index_server i pk t \<noteq> None" for i pk and t :: "'a ic_ctx"
    by (simp add: handle_from_app_server_remove_index_server_def seq_eval run_basic eval_disconnect split: conn_status.split)
  moreover have "handle_from_app_server_request_routes i rr t \<noteq> None" for i rr and t :: "'a ic_ctx"
    by (simp add: eval_routes Let_def)
  moreover have "handle_index_server_connected t \<noteq> None" "handle_index_server_closed t \<noteq> None" for t :: "'a ic_ctx"
    by (simp_all add: eval_connected eval_closed seq_eval run_basic split: conn_status.split)
  ultimately show ?thesis using assms tick
    by (auto simp: index_client_round_def seq_eval run_basic index_client_handle_def handle_from_app_server_def eval_response
        split: index_client_event.split app_server_to_index_client.split index_client_request.split)
qed

section \<open>Runs\<close>

definition started :: "'isa index_client \<Rightarrow> ic_io \<Rightarrow> 'isa ic_ctx" where
  "started client io = index_client.extend client \<lparr> cx_io = io, cx_out = [] \<rparr>"

lemma started_simps [simp]:
  "ic_index_servers (started client io) = ic_index_servers client" "ic_conn_status (started client io) = ic_conn_status client"
  "ic_num_open_requests (started client io) = ic_num_open_requests client" "ic_max_open_requests (started client io) = ic_max_open_requests client"
  "ic_keepalive_ticks (started client io) = ic_keepalive_ticks client" "ic_backoff_ticks (started client io) = ic_backoff_ticks client"
  "cx_out (started client io) = []" "cx_io (started client io) = io"
  by (simp_all add: started_def index_client.extend_def)

lemma loop_snoc:
  "index_client_loop (rounds @ [r]) client io =
     (case index_client_loop rounds client io of
        None \<Rightarrow> None | Some (Inl e, s) \<Rightarrow> Some (Inl e, s) | Some (Inr _, s) \<Rightarrow> index_client_round r s)"
proof -
  have "act_seq (index_client_round r) (act_return ()) = index_client_round r"
    by (rule ext) (auto simp: seq_eval run_basic split: option.split sum.split)
  then show ?thesis unfolding index_client_loop_def by (simp add: for_append seq_assoc [symmetric] seq_eval [of "act_seq _ _"])
qed

lemma loop_Nil: "index_client_loop [] client io = try_connect_to_server (started client io)"
  by (auto simp: index_client_loop_def started_def seq_eval run_basic split: option.split sum.split)

definition run_accounts :: "(ic_io \<times> 'isa index_client_event) list \<Rightarrow> nat \<Rightarrow> nat \<Rightarrow> 'isa ic_ctx \<Rightarrow> bool" where
  "run_accounts rounds max_open keepalive s \<longleftrightarrow>
     acknowledged (cx_out s) = app_requests rounds
     \<and> mset (answered (cx_out s)) + mset (awaited (cx_out s)) = mset (asked rounds) + mset (returned rounds)
     \<and> ic_num_open_requests s + length (returned rounds) = length (awaited (cx_out s))
     \<and> ic_num_open_requests s \<le> max_open \<and> ic_max_open_requests s = max_open \<and> ic_keepalive_ticks s = keepalive"

lemma run_accounts_snoc:
  assumes "run_accounts rounds m k s" "round_accounts r s s'"
  shows "run_accounts (rounds @ [r]) m k s'"
  using assms by (auto simp: run_accounts_def round_accounts_def)

lemma run_invariant:
  assumes "index_client_loop rounds (index_client_new config friends max_open keepalive backoff) io = Some (Inr (), s)"
  shows "tracks config s \<and> run_accounts rounds max_open keepalive s"
  using assms
proof (induction rounds arbitrary: s rule: rev_induct)
  case Nil
  let ?s = "started (index_client_new config friends max_open keepalive backoff) io"
  have new: "tracks config ?s"
    by (simp add: tracks_def config_of_def index_client_new_def create_index_client_report_def address_of_named_def cong: map_cong)
  have run: "try_connect_to_server ?s = Some (Inr (), s)" using Nil by (simp add: loop_Nil)
  then show ?case using connect_tracks [OF run new]
    by (auto simp: eval_connect run_accounts_def index_client_new_def input_defs Let_def split: list.splits if_splits)
next
  case (snoc r rounds)
  obtain t where t: "index_client_loop rounds (index_client_new config friends max_open keepalive backoff) io = Some (Inr (), t)"
    and r: "index_client_round r t = Some (Inr (), s)"
    using snoc.prems by (auto simp: loop_snoc split: option.splits sum.splits)
  obtain rio e where re: "r = (rio, e)" by (cases r)
  show ?case using snoc.IH [OF t] round_tracks [OF r [unfolded re], of config]
      run_accounts_snoc [OF _ round_keeps_accounts [OF r [unfolded re]]] re by blast
qed

text \<open>
  Answers of the session: an answer arrives for a request that was forwarded and has not been
  answered.
\<close>

definition answers_open ::
  "(ic_io \<times> 'isa index_client_event) list \<Rightarrow> 'isa index_client \<Rightarrow> ic_io \<Rightarrow> bool" where
  "answers_open rounds client io \<longleftrightarrow>
     (\<forall>k uid r s. k < length rounds \<and> snd (rounds ! k) = EvResponseRoutes uid r
        \<and> index_client_loop (take k rounds) client io = Some (Inr (), s)
        \<longrightarrow> count_list (returned (take k rounds)) uid < count_list (awaited (cx_out s)) uid)"

lemma answers_open_snoc:
  assumes "answers_open (rounds @ [r]) client io"
  shows "answers_open rounds client io"
    "snd r = EvResponseRoutes uid res \<Longrightarrow> index_client_loop rounds client io = Some (Inr (), s)
      \<Longrightarrow> count_list (returned rounds) uid < count_list (awaited (cx_out s)) uid"
proof -
  have "k < length (rounds @ [r])" "snd ((rounds @ [r]) ! k) = snd (rounds ! k)" "take k (rounds @ [r]) = take k rounds"
    if "k < length rounds" for k using that by (simp_all add: nth_append)
  then show "answers_open rounds client io" using assms unfolding answers_open_def by metis
  show "count_list (returned rounds) uid < count_list (awaited (cx_out s)) uid"
    if "snd r = EvResponseRoutes uid res" "index_client_loop rounds client io = Some (Inr (), s)"
    using assms that unfolding answers_open_def by (elim allE [of _ "length rounds"]) auto
qed

lemma mset_less_size:
  assumes "mset xs \<subseteq># mset ys" "count_list xs a < count_list ys a"
  shows "mset (xs @ [a]) \<subseteq># mset ys" "length xs < length ys"
proof -
  show sub: "mset (xs @ [a]) \<subseteq># mset ys"
    using assms by (auto simp: subseteq_mset_def count_mset)
  show "length xs < length ys" using size_mset_mono [OF sub] by simp
qed

lemma open_run:
  assumes "answers_open rounds (index_client_new config friends max_open keepalive backoff) io"
  shows "index_client_loop rounds (index_client_new config friends max_open keepalive backoff) io \<noteq> None
    \<and> (\<forall>s. index_client_loop rounds (index_client_new config friends max_open keepalive backoff) io = Some (Inr (), s)
         \<longrightarrow> mset (returned rounds) \<subseteq># mset (awaited (cx_out s)))"
  using assms
proof (induction rounds rule: rev_induct)
  case Nil
  show ?case by (simp add: loop_Nil eval_connect index_client_new_def input_defs Let_def split: list.split)
next
  case (snoc r rounds)
  let ?loop = "\<lambda>rounds. index_client_loop rounds (index_client_new config friends max_open keepalive backoff) io"
  obtain rio e where r: "r = (rio, e)" by (cases r)
  note IH = snoc.IH [OF answers_open_snoc(1) [OF snoc.prems]]
  show ?case
  proof (cases "\<exists>s. ?loop rounds = Some (Inr (), s)")
    case False
    then show ?thesis using IH by (auto simp: loop_snoc split: option.splits sum.splits)
  next
    case True
    then obtain s where s: "?loop rounds = Some (Inr (), s)" by blast
    have sub: "mset (returned rounds) \<subseteq># mset (awaited (cx_out s))" using IH s by blast
    have step: "?loop (rounds @ [r]) = index_client_round (rio, e) s" using s r by (simp add: loop_snoc)
    have more: "mset (returned (rounds @ [r])) \<subseteq># mset (awaited (cx_out s)) \<and> 0 < ic_num_open_requests s"
      if "e = EvResponseRoutes uid res" for uid res
      using mset_less_size [OF sub answers_open_snoc(2) [OF snoc.prems _ s, of uid res]] that r run_invariant [OF s]
      by (auto simp: run_accounts_def)
    have "mset (returned (rounds @ [r])) \<subseteq># mset (awaited (cx_out s))"
      using more sub r by (cases e) auto
    moreover have "\<exists>new. cx_out s' = cx_out s @ new" if "index_client_round (rio, e) s = Some (Inr (), s')" for s'
      using round_keeps_accounts [OF that] by (simp add: round_accounts_def)
    ultimately show ?thesis
      using step round_no_panic [of e s rio] more by (fastforce intro: subset_mset.trans)
  qed
qed

section \<open>Keeping a server up to date\<close>

definition ticks_ok :: "'isa ic_ctx \<Rightarrow> bool" where
  "ticks_ok s \<longleftrightarrow> (\<forall>c. ic_conn_status s = CsConnected c \<longrightarrow> sd_ticks_to_send_keepalive c \<le> ic_keepalive_ticks s)"

lemma connect_ticks: "try_connect_to_server s = Some (Inr (), s') \<Longrightarrow> ticks_ok s'"
  by (auto simp: eval_connect ticks_ok_def Let_def split: conn_status.splits list.splits if_splits)

lemma announce_ticks: "announces_from c s s' \<Longrightarrow> ticks_ok s'"
  by (simp add: announces_from_def ticks_ok_def)

lemma without_ticks: "without_sender st = CsConnected c \<Longrightarrow> \<exists>c'. st = CsConnected c' \<and> sd_ticks_to_send_keepalive c = sd_ticks_to_send_keepalive c'"
  by (cases st) auto

lemma tick_ticks:
  assumes "ic_handle_timer_tick s = Some (Inr (), s')" "ticks_ok s"
  shows "ticks_ok s'"
  using assms(1)
proof (cases rule: tick_run)
  case (2 n)
  then show ?thesis using connect_ticks by blast
next
  case (5 c)
  then show ?thesis by (rule announce_ticks)
qed (use assms(2) in \<open>auto simp: ticks_ok_def\<close>)

lemma handle_ticks:
  assumes "index_client_handle e s = Some (Inr (), s')" "ticks_ok s"
  shows "ticks_ok s'"
proof -
  have applied: "ticks_ok s'" if "handle_from_app_server_apply_mutations ms s = Some (Inr (), s')" for ms
    using that
  proof (cases rule: apply_run)
    case 1
    then show ?thesis using assms(2) by (simp add: ticks_ok_def ic_rest_def)
  next
    case (2 c)
    then show ?thesis by (rule announce_ticks)
  qed
  have routes: "ticks_ok s'" if "handle_from_app_server_request_routes i rr s = Some (Inr (), s')" for i rr
    using that assms(2) by (auto simp: eval_routes ticks_ok_def Let_def dest!: without_ticks split: if_splits)
  have add: "ticks_ok s'" if "handle_from_app_server_add_index_server i n s = Some (Inr (), s')" for i n
    using that assms(2)
    by (auto simp: handle_from_app_server_add_index_server_def seq_eval bind_gets run_basic ticks_ok_def eval_connect Let_def
        split: if_splits conn_status.splits list.splits)
  have remove: "ticks_ok s'" if "handle_from_app_server_remove_index_server i pk s = Some (Inr (), s')" for i pk
    using that assms(2)
    by (auto simp: handle_from_app_server_remove_index_server_def seq_eval run_basic eval_disconnect ticks_ok_def
        split: if_splits conn_status.splits)
  have server: "ticks_ok s'"
    if "handle_index_server_connected s = Some (Inr (), s') \<or> handle_index_server_closed s = Some (Inr (), s')"
    using that assms(2)
    by (auto simp: eval_connected eval_closed seq_eval run_basic ticks_ok_def split: if_splits conn_status.splits)
  have response: "ticks_ok s'" if "handle_response_routes i r s = Some (Inr (), s')" for i r
    using that assms(2) by (auto simp: eval_response ticks_ok_def split: if_splits)
  show ?thesis using assms(1) applied routes add remove server response tick_ticks [OF _ assms(2)]
    by (auto simp: index_client_handle_def handle_from_app_server_def run_basic
        split: index_client_event.splits app_server_to_index_client.splits index_client_request.splits)
qed

lemma run_ticks:
  assumes "index_client_loop rounds client io = Some (Inr (), s)"
  shows "ticks_ok s"
  using assms
proof (induction rounds arbitrary: s rule: rev_induct)
  case Nil
  then show ?case using connect_ticks by (simp add: loop_Nil)
next
  case (snoc r rounds)
  then obtain t where "ticks_ok t" "index_client_round r t = Some (Inr (), s)"
    by (auto simp: loop_snoc split: option.splits sum.splits)
  then show ?case using handle_ticks [of "snd r" "t\<lparr> cx_io := fst r \<rparr>" s]
    by (simp add: index_client_round_def seq_eval run_basic ticks_ok_def)
qed

text \<open>Rounds in which the connection stays: the session takes messages and is not closed.\<close>

definition keeps_connection :: "public_key \<Rightarrow> ic_io \<times> 'isa index_client_event \<Rightarrow> bool" where
  "keeps_connection pk r \<longleftrightarrow>
     io_control (fst r) \<and> snd r \<noteq> IndexServerClosed \<and> (\<forall>i. snd r \<noteq> FromAppServer (AppRequest i (ReqRemoveIndexServer pk)))"

definition timer_ticks :: "(ic_io \<times> 'isa index_client_event) list \<Rightarrow> nat" where
  "timer_ticks rounds = length (filter (\<lambda>r. snd r = EvTimerTick) rounds)"

lemma connected_round:
  assumes "index_client_round (io, e) s = Some (Inr (), s')" "ic_conn_status s = CsConnected c" "sd_control_sender c"
    and "keeps_connection (ia_public_key (sd_index_server c)) (io, e)"
  shows "(\<exists>new. cx_out s' = cx_out s @ new \<and> announced new \<noteq> [])
    \<or> (e = EvTimerTick \<and> sd_ticks_to_send_keepalive c - 1 \<noteq> 0
        \<and> ic_conn_status s' = CsConnected (c\<lparr> sd_ticks_to_send_keepalive := sd_ticks_to_send_keepalive c - 1 \<rparr>))
    \<or> (e \<noteq> EvTimerTick \<and> ic_conn_status s' = CsConnected c)"
proof -
  let ?s = "s\<lparr> cx_io := io \<rparr>"
  have run: "index_client_handle e ?s = Some (Inr (), s')"
    using assms(1) by (simp add: index_client_round_def seq_eval run_basic)
  have control: "io_control io" and stays: "e \<noteq> IndexServerClosed"
    "\<And>i. e \<noteq> FromAppServer (AppRequest i (ReqRemoveIndexServer (ia_public_key (sd_index_server c))))"
    using assms(4) by (simp_all add: keeps_connection_def)
  have announce: "\<exists>new. cx_out s' = cx_out s @ new \<and> announced new \<noteq> []" if "announces_from d ?s s'" for d
    using that control by (auto simp: announces_from_def)
  show ?thesis
  proof (cases "e = EvTimerTick")
    case True
    then have "ic_handle_timer_tick ?s = Some (Inr (), s')" using run by (simp add: index_client_handle_def)
    then show ?thesis using assms(2,3) announce True by (cases rule: tick_run) auto
  next
    case False
    have applied: ?thesis if "handle_from_app_server_apply_mutations ms ?s = Some (Inr (), s')" for ms
      using that by (cases rule: apply_run) (use assms(2,3) announce in auto)
    have routes: "ic_conn_status s' = CsConnected c" if "handle_from_app_server_request_routes i rr ?s = Some (Inr (), s')" for i rr
      using that assms(2,3) control by (auto simp: eval_routes Let_def split: if_splits)
    have add: "ic_conn_status s' = CsConnected c" if "handle_from_app_server_add_index_server i n ?s = Some (Inr (), s')" for i n
      using that assms(2) by (auto simp: handle_from_app_server_add_index_server_def seq_eval bind_gets run_basic split: if_splits)
    have remove: "ic_conn_status s' = CsConnected c"
      if "handle_from_app_server_remove_index_server i pk ?s = Some (Inr (), s')" "pk \<noteq> ia_public_key (sd_index_server c)" for i pk
      using that assms(2)
      by (auto simp: handle_from_app_server_remove_index_server_def seq_eval run_basic eval_disconnect split: if_splits)
    show ?thesis using run False stays applied routes add remove assms(2)
      by (auto simp: index_client_handle_def handle_from_app_server_def run_basic eval_connected eval_response
          split: index_client_event.splits app_server_to_index_client.splits index_client_request.splits if_splits)
  qed
qed

lemma keepalive_run:
  assumes "act_for rounds index_client_round s = Some (Inr (), s')" "ic_conn_status s = CsConnected c" "sd_control_sender c"
    and "\<forall>r \<in> set rounds. keeps_connection (ia_public_key (sd_index_server c)) r"
    and "max 1 (sd_ticks_to_send_keepalive c) \<le> timer_ticks rounds"
  shows "\<exists>new. cx_out s' = cx_out s @ new \<and> announced new \<noteq> []"
  using assms
proof (induction rounds arbitrary: s c)
  case (Cons r rounds)
  obtain io e where r: "r = (io, e)" by (cases r)
  obtain t where t: "index_client_round (io, e) s = Some (Inr (), t)" and rest: "act_for rounds index_client_round t = Some (Inr (), s')"
    using Cons.prems(1) r by (auto simp: seq_run)
  have grows: "\<exists>new. cx_out u' = cx_out u @ new" if "act_for rs index_client_round u = Some (Inr (), u')"
    for rs and u u' :: "'a ic_ctx"
    using that
  proof (induction rs arbitrary: u)
    case (Cons x rs)
    then show ?case using round_keeps_accounts [of "fst x" "snd x" u] by (fastforce simp: seq_run round_accounts_def)
  qed (simp add: run_basic)
  have first: "\<exists>new. cx_out t = cx_out s @ new" using round_keeps_accounts [OF t] by (simp add: round_accounts_def)
  consider "\<exists>new. cx_out t = cx_out s @ new \<and> announced new \<noteq> []"
    | "e = EvTimerTick" "sd_ticks_to_send_keepalive c - 1 \<noteq> 0"
        "ic_conn_status t = CsConnected (c\<lparr> sd_ticks_to_send_keepalive := sd_ticks_to_send_keepalive c - 1 \<rparr>)"
    | "e \<noteq> EvTimerTick" "ic_conn_status t = CsConnected c"
    using connected_round [OF t Cons.prems(2,3)] Cons.prems(4) r by auto
  then show ?case
  proof cases
    case 1
    then show ?thesis using grows [OF rest] by fastforce
  next
    case 2
    then show ?thesis using Cons.IH [OF rest 2(3)] Cons.prems(3-5) r first by (fastforce simp: timer_ticks_def)
  next
    case 3
    then show ?thesis using Cons.IH [OF rest 3(2)] Cons.prems(3-5) r first by (fastforce simp: timer_ticks_def)
  qed
qed (simp add: timer_ticks_def)

lemma loop_append:
  "index_client_loop (before @ during) client io = Some (Inr (), s') \<longleftrightarrow>
     (\<exists>s. index_client_loop before client io = Some (Inr (), s) \<and> act_for during index_client_round s = Some (Inr (), s'))"
  unfolding index_client_loop_def for_append seq_assoc [symmetric] seq_run [of "act_seq _ _"] by simp

text \<open>
  While an index server stays connected and its session takes messages, the client sends it
  mutations at least once in every \<open>keepalive_ticks\<close> ticks of the timer, whatever else happens in
  between.
\<close>

theorem keepalive_sent:
  assumes "index_client_loop before (index_client_new config friends max_open keepalive backoff) io = Some (Inr (), s)"
    and "index_client_loop (before @ during) (index_client_new config friends max_open keepalive backoff) io = Some (Inr (), s')"
    and "ic_conn_status s = CsConnected c" "sd_control_sender c"
    and "\<forall>r \<in> set during. keeps_connection (ia_public_key (sd_index_server c)) r"
    and "max 1 keepalive \<le> timer_ticks during"
  shows "\<exists>new. cx_out s' = cx_out s @ new \<and> announced new \<noteq> []"
proof -
  have "sd_ticks_to_send_keepalive c \<le> ic_keepalive_ticks s" using run_ticks [OF assms(1)] assms(3) by (simp add: ticks_ok_def)
  also have "ic_keepalive_ticks s = keepalive" using run_invariant [OF assms(1)] by (simp add: run_accounts_def)
  finally show ?thesis using keepalive_run [OF _ assms(3-5)] assms(1,2,6) by (fastforce simp: loop_append)
qed

section \<open>All friends are announced\<close>

lemma res_bind_assoc: "res_bind (res_bind m f) g = res_bind m (\<lambda>x. res_bind (f x) g)"
  by (cases m) simp_all

lemma loop_of_append:
  "seq_friends_loop (xs @ ys) s =
     res_bind (seq_friends_loop xs s) (\<lambda>(rs, t). res_bind (seq_friends_loop ys t) (\<lambda>(rs', u). Ok (rs @ rs', u)))"
proof (induction xs arbitrary: s)
  case Nil
  show ?case by (cases "seq_friends_loop ys s") auto
qed (simp add: res_bind_assoc case_prod_unfold)

lemma countdown_falls:
  assumes "seq_map_ok s" "seq_friends_loop requests s = Ok (responses, s')" "SfResetCountdown \<notin> set requests"
  shows "sm_cycle_countdown s' \<le> sm_cycle_countdown s"
  using assms
proof (induction requests arbitrary: s responses)
  case (Cons q requests)
  obtain r t rest where step: "seq_friends_step q s = Ok (r, t)" and rest: "seq_friends_loop requests t = Ok (rest, s')"
    using Cons.prems(2) by (auto simp: res_bind_Ok)
  have t: "seq_map_ok t" using seq_friends_step_ok [OF Cons.prems(1), of q] step by auto
  have "sm_cycle_countdown t \<le> sm_cycle_countdown s"
    using step Cons.prems(3)
    by (cases q; cases rule: seq_map_next_cases [OF Cons.prems(1)])
       (auto simp: seq_friends_step_def seq_apply_index_mutation_def seq_map_update_def seq_map_remove_def split: index_mutation.splits)
  then show ?case using Cons.IH [OF t rest] Cons.prems(3) by simp
qed simp

text \<open>One round of the task: the requests of the others, then its own.\<close>

lemma full_state_round:
  assumes "seq_map_ok s" "SfResetCountdown \<notin> set others"
  obtains answers t where "seq_friends_loop (others @ [SfNextUpdate]) s = Ok (answers @ [SfUpdate None], t)" "sm_queue t = []" "seq_map_ok t"
  | answers t c u where "seq_friends_loop (others @ [SfNextUpdate]) s = Ok (answers @ [SfUpdate (Some (c, u))], t)"
      "c = sm_cycle_countdown t" "sm_cycle_countdown t \<le> sm_cycle_countdown s - 1" "seq_map_ok t"
proof -
  obtain answers m where m: "seq_friends_loop others s = Ok (answers, m)" "seq_map_ok m" using seq_friends_loop_ok [OF assms(1)] by blast
  have le: "sm_cycle_countdown m \<le> sm_cycle_countdown s" using countdown_falls [OF assms(1) m(1) assms(2)] .
  show ?thesis
  proof (cases rule: seq_map_next_cases [OF m(2)])
    case 1
    then show ?thesis using that(1) [of answers m] m by (simp add: loop_of_append seq_friends_step_def)
  next
    case (2 k q v)
    then show ?thesis
      using that(2) [of answers "sm_cycle_countdown m - 1" "update_of_info k v"
          "m\<lparr> sm_queue := q @ [k], sm_cycle_countdown := sm_cycle_countdown m - 1 \<rparr>"] m le seq_map_rotate_ok [OF m(2) 2(1)]
      by (simp add: loop_of_append seq_friends_step_def)
  qed
qed

text \<open>
  What was sent and answered is what the friends gave to some list of requests that ends with the
  countdown at zero or without friends.
\<close>

definition full_cycle ::
  "seq_friends_request set \<Rightarrow> seq_friends \<Rightarrow> index_mutation list list \<Rightarrow> seq_friends_response list \<Rightarrow> seq_friends \<Rightarrow> bool" where
  "full_cycle others s sent answers s' \<longleftrightarrow>
     (\<exists>requests responses. seq_friends_loop requests s = Ok (responses, s') \<and> set requests \<subseteq> insert SfNextUpdate others
      \<and> (\<forall>c u. SfUpdate (Some (c, u)) \<in> set responses \<longrightarrow> [UpdateFriend u] \<in> set sent \<or> SfUpdate (Some (c, u)) \<in> set answers)
      \<and> (sm_queue s' = [] \<or> (\<exists>u. SfUpdate (Some (0, u)) \<in> set responses)))"

lemma full_cycleI:
  assumes "seq_friends_loop (others @ [SfNextUpdate]) s = Ok (answers @ [SfUpdate next], s')" "set others \<subseteq> O'"
    "sm_queue s' = [] \<or> (\<exists>u. next = Some (0, u))" "\<forall>c u. next = Some (c, u) \<longrightarrow> [UpdateFriend u] \<in> set sent"
  shows "full_cycle O' s sent answers s'"
  unfolding full_cycle_def by (rule exI, rule exI, rule conjI [OF assms(1)]) (use assms(2-4) in auto)

lemma full_cycle_step:
  assumes "seq_friends_loop (others @ [SfNextUpdate]) s = Ok (answers @ [SfUpdate (Some (c, u))], t)" "set others \<subseteq> O'"
    "full_cycle O' t sent answers' s'"
  shows "full_cycle O' s ([UpdateFriend u] # sent) (answers @ answers') s'"
proof -
  obtain requests responses where run: "seq_friends_loop requests t = Ok (responses, s')" and sub: "set requests \<subseteq> insert SfNextUpdate O'"
    and rest: "\<forall>c u. SfUpdate (Some (c, u)) \<in> set responses \<longrightarrow> [UpdateFriend u] \<in> set sent \<or> SfUpdate (Some (c, u)) \<in> set answers'"
      "sm_queue s' = [] \<or> (\<exists>u. SfUpdate (Some (0, u)) \<in> set responses)"
    using assms(3) unfolding full_cycle_def by blast
  have "seq_friends_loop ((others @ [SfNextUpdate]) @ requests) s = Ok ((answers @ [SfUpdate (Some (c, u))]) @ responses, s')"
    unfolding loop_of_append [of "others @ [SfNextUpdate]"] assms(1) by (simp add: run)
  then show ?thesis unfolding full_cycle_def
    by (intro exI conjI) (assumption, use assms(2) sub rest in auto)
qed

text \<open>A friend that no request changes stays in the queue, and its turn comes before the countdown ends.\<close>

lemma unchanged_friend:
  assumes "seq_map_ok s" "seq_friends_loop requests s = Ok (responses, s')" "hm_get (sm_map s) pk = Some fi"
    and "\<forall>m. SfMutate m \<in> set requests \<longrightarrow> mutation_key m \<noteq> pk"
  shows "seq_map_ok s' \<and> hm_get (sm_map s') pk = Some fi"
  using assms
proof (induction requests arbitrary: s responses)
  case (Cons q requests)
  obtain r t rest where step: "seq_friends_step q s = Ok (r, t)" and rest: "seq_friends_loop requests t = Ok (rest, s')"
    using Cons.prems(2) by (auto simp: res_bind_Ok)
  have t: "seq_map_ok t" using seq_friends_step_ok [OF Cons.prems(1), of q] step by auto
  have "pk \<in> set (sm_queue s)" using Cons.prems(1,3) by (simp add: seq_map_ok_iff)
  then have "hm_get (sm_map t) pk = Some fi"
    using step Cons.prems(3,4) seq_apply_other(1) [of _ pk s]
    by (cases q; cases rule: seq_map_next_cases [OF Cons.prems(1)]) (auto simp: seq_friends_step_def seq_map_reset_countdown_def)
  then show ?case using Cons.IH [OF t rest] Cons.prems(4) by simp
qed simp

lemma full_cycle_covers:
  assumes "seq_map_ok s" "full_cycle O' s sent answers s'" "hm_get (sm_map s) pk = Some fi"
    and "\<forall>m. SfMutate m \<in> O' \<longrightarrow> mutation_key m \<noteq> pk" "SfResetCountdown \<notin> O'" "sm_cycle_countdown s = length (sm_queue s)"
  shows "[UpdateFriend (update_of_info pk fi)] \<in> set sent \<or> (\<exists>c. SfUpdate (Some (c, update_of_info pk fi)) \<in> set answers)"
proof -
  obtain requests responses where run: "seq_friends_loop requests s = Ok (responses, s')" and sub: "set requests \<subseteq> insert SfNextUpdate O'"
    and given: "\<forall>c u. SfUpdate (Some (c, u)) \<in> set responses \<longrightarrow> [UpdateFriend u] \<in> set sent \<or> SfUpdate (Some (c, u)) \<in> set answers"
    and ends: "sm_queue s' = [] \<or> (\<exists>u. SfUpdate (Some (0, u)) \<in> set responses)"
    using assms(2) unfolding full_cycle_def by blast
  have keys: "\<forall>m. SfMutate m \<in> set requests \<longrightarrow> mutation_key m \<noteq> pk" and reset: "SfResetCountdown \<notin> set requests"
    using sub assms(4,5) by auto
  have "sm_queue s' \<noteq> []" using unchanged_friend [OF assms(1) run assms(3) keys] by (auto simp: seq_map_ok_iff)
  then obtain u where "SfUpdate (Some (0, u)) \<in> set responses" using ends by blast
  then have "length (sm_queue s) \<le> updates_in responses"
    using seq_friends_countdown [OF assms(1) reset run] assms(6) by fastforce
  moreover have "ahead pk (sm_queue s) < length (sm_queue s)" using ahead_less [of pk "sm_queue s"] assms(1,3) by (simp add: seq_map_ok_iff)
  ultimately show ?thesis using seq_friends_waits [OF assms(1) run assms(3) keys] given by fastforce
qed

lemma full_state_rounds_run:
  assumes "seq_map_ok s" "\<forall>(others, sent) \<in> set rounds. SfResetCountdown \<notin> set others \<and> sent \<and> set others \<subseteq> O'"
    and "max 1 (sm_cycle_countdown s) \<le> length rounds"
  shows "\<exists>sent answers s'. send_full_state_rounds rounds s = Ok ((sent, answers), s') \<and> full_cycle O' s sent answers s'"
  using assms
proof (induction rounds arbitrary: s)
  case (Cons r rounds)
  obtain others where r: "r = (others, True)" "SfResetCountdown \<notin> set others" "set others \<subseteq> O'" using Cons.prems(2) by (cases r) auto
  show ?case
  proof (cases rule: full_state_round [OF Cons.prems(1) r(2)])
    case (1 answers t)
    then have "full_cycle O' s [] answers t" using full_cycleI r(3) by blast
    then show ?thesis using 1(1) r(1) by simp
  next
    case (2 answers t c u)
    show ?thesis
    proof (cases "c = 0")
      case True
      then have "full_cycle O' s [[UpdateFriend u]] answers t" using 2(1) full_cycleI r(3) by fastforce
      then show ?thesis using 2(1) r(1) True by simp
    next
      case False
      then obtain sent answers' s' where IH: "send_full_state_rounds rounds t = Ok ((sent, answers'), s')" "full_cycle O' t sent answers' s'"
        using Cons.IH [OF 2(4)] Cons.prems(2,3) 2(2,3) by fastforce
      show ?thesis using full_cycle_step [OF 2(1) r(3) IH(2)] IH(1) 2(1) r(1) False by simp
    qed
  qed
qed simp

text \<open>
  The task that announces all friends after a connection ends after at most one message for
  each friend, also while other tasks use the friends. Each friend that the others do not change
  meanwhile has then been sent to the server, or given to another task in answer to a request for
  the next friend to send.
\<close>

theorem full_state_announced:
  assumes "seq_map_ok friends" and "\<forall>(others, sent) \<in> set rounds. SfResetCountdown \<notin> set others \<and> sent"
    and "max 1 (length (sm_queue friends)) \<le> length rounds"
  shows "\<exists>sent answers friends'. send_full_state rounds friends = Ok ((sent, answers), friends')
    \<and> (\<forall>pk fi. hm_get (sm_map friends) pk = Some fi
         \<and> (\<forall>(others, _) \<in> set rounds. \<forall>m. SfMutate m \<in> set others \<longrightarrow> mutation_key m \<noteq> pk)
         \<longrightarrow> [UpdateFriend (update_of_info pk fi)] \<in> set sent \<or> (\<exists>c. SfUpdate (Some (c, update_of_info pk fi)) \<in> set answers))"
proof -
  let ?s = "seq_map_reset_countdown friends" and ?O = "\<Union>(others, _) \<in> set rounds. set others"
  have ok: "seq_map_ok ?s" using assms(1) by (simp add: seq_map_reset_countdown_def seq_map_ok_def)
  have "\<exists>sent answers s'. send_full_state_rounds rounds ?s = Ok ((sent, answers), s') \<and> full_cycle ?O ?s sent answers s'"
    by (rule full_state_rounds_run [OF ok]) (use assms(2,3) in \<open>auto simp: seq_map_reset_countdown_def\<close>)
  then obtain sent answers s' where run: "send_full_state_rounds rounds ?s = Ok ((sent, answers), s')" "full_cycle ?O ?s sent answers s'"
    by blast
  have "[UpdateFriend (update_of_info pk fi)] \<in> set sent \<or> (\<exists>c. SfUpdate (Some (c, update_of_info pk fi)) \<in> set answers)"
    if pk: "hm_get (sm_map friends) pk = Some fi" and others: "\<forall>(others, _) \<in> set rounds. \<forall>m. SfMutate m \<in> set others \<longrightarrow> mutation_key m \<noteq> pk" for pk fi
    using full_cycle_covers [OF ok run(2), of pk fi] pk others assms(2) by (fastforce simp: seq_map_reset_countdown_def)
  then show ?thesis using run(1) by (simp add: send_full_state_def seq_friends_step_def)
qed

text \<open>
  C19: The index client forwards no more than \<open>max_open_requests\<close> requests for routes at a time. As
  long as the session answers only requests that it was given, the loop does not panic, and each
  request of the application has exactly one answer or is still open. Every request of the
  application is acknowledged by one report, in the order of the requests.
\<close>

theorem route_requests_answered:
  assumes "answers_open rounds (index_client_new config friends max_open keepalive backoff) io"
  shows "\<exists>result s. index_client_loop rounds (index_client_new config friends max_open keepalive backoff) io = Some (result, s)
    \<and> (result = Inr () \<longrightarrow>
        ic_num_open_requests s = size (mset (awaited (cx_out s)) - mset (returned rounds)) \<and> ic_num_open_requests s \<le> max_open
        \<and> mset (asked rounds) = mset (answered (cx_out s)) + (mset (awaited (cx_out s)) - mset (returned rounds))
        \<and> acknowledged (cx_out s) = app_requests rounds)"
proof -
  obtain result s where run: "index_client_loop rounds (index_client_new config friends max_open keepalive backoff) io = Some (result, s)"
    using open_run [OF assms] by auto
  have "ic_num_open_requests s = size (mset (awaited (cx_out s)) - mset (returned rounds)) \<and> ic_num_open_requests s \<le> max_open
        \<and> mset (asked rounds) = mset (answered (cx_out s)) + (mset (awaited (cx_out s)) - mset (returned rounds))
        \<and> acknowledged (cx_out s) = app_requests rounds" if r: "result = Inr ()"
  proof -
    have acc: "run_accounts rounds max_open keepalive s" using run_invariant run r by blast
    obtain rest where rest: "mset (awaited (cx_out s)) = mset (returned rounds) + rest"
      using open_run [OF assms] run r by (auto simp: subset_mset.le_iff_add)
    have "length (awaited (cx_out s)) = length (returned rounds) + size rest"
      using arg_cong [OF rest, of size] by simp
    then show ?thesis using acc rest by (auto simp: run_accounts_def)
  qed
  then show ?thesis using run by blast
qed

text \<open>
  The report an application keeps by applying the mutations it is sent shows the servers of
  the configuration in the database, in the same order, and the server the client is connected
  to. The servers the client connects to in turn are those of the configuration.
\<close>

theorem index_client_report_follows:
  assumes "index_client_loop rounds (index_client_new config friends max_open keepalive backoff) io = Some (Inr (), s)"
  shows "fold index_client_report_mutate (reported (cx_out s)) (create_index_client_report config) =
      \<lparr> icr_index_servers = icc_index_servers (fold index_client_config_mutate (stored (cx_out s)) config),
        icr_opt_connected_server = connected_key (ic_conn_status s) \<rparr>
    \<and> mset (ic_index_servers s) =
        mset (map address_of_named (icc_index_servers (fold index_client_config_mutate (stored (cx_out s)) config)))"
  using run_invariant [OF assms] by (simp add: tracks_def config_of_def)

section \<open>An example\<close>

definition example_ic_io :: ic_io where
  "example_ic_io = \<lparr> io_database = True, io_app_server = 5, io_seq_friends = [[], [SfNextUpdate]], io_control = True, io_spawn = True \<rparr>"

definition example_ic_config :: "nat index_client_config" where
  "example_ic_config = \<lparr> icc_index_servers = [\<lparr> ni_public_key = [9], ni_address = 1, ni_name = ''first'' \<rparr>] \<rparr>"

definition example_ic_client :: "nat index_client" where
  "example_ic_client = index_client_new example_ic_config example_friends 1 2 3"

definition example_ic_request :: request_routes where
  "example_ic_request = \<lparr> rr_request_id = [5], rr_capacity = 8, rr_source = [7], rr_destination = [8], rr_opt_exclude = None \<rparr>"

definition example_ic_before :: "(ic_io \<times> nat index_client_event) list" where
  "example_ic_before = map (Pair example_ic_io) [IndexServerConnected,
     FromAppServer (AppRequest [1] (ReqRequestRoutes example_ic_request))]"

definition example_ic_during :: "(ic_io \<times> nat index_client_event) list" where
  "example_ic_during = map (Pair example_ic_io) [EvTimerTick, EvResponseRoutes [5] RoutesFailure,
     FromAppServer (AppRequest [2] (ReqAddIndexServer \<lparr> ni_public_key = [10], ni_address = 2, ni_name = ''second'' \<rparr>)), EvTimerTick]"

definition ic_summary where
  "ic_summary x = map_option (\<lambda>(r, s). (r, cx_out s, ic_conn_status s)) x"

lemma summary_Some:
  "ic_summary x = Some (r, out, st) \<Longrightarrow> \<exists>s. x = Some (r, s) \<and> cx_out s = out \<and> ic_conn_status s = st"
  by (cases x) (auto simp: ic_summary_def)

definition example_ic_connected :: "nat server_connected" where
  "example_ic_connected = \<lparr> sd_index_server = \<lparr> ia_public_key = [9], ia_address = 1 \<rparr>, sd_control_sender = True,
     sd_cancel_sender = True, sd_ticks_to_send_keepalive = 2 \<rparr>"

definition example_ic_out :: "nat ic_output list" where
  "example_ic_out = [OutConnect \<lparr> ia_public_key = [9], ia_address = 1 \<rparr>,
     OutApp (IcReportMutations \<lparr> irm_opt_app_request_id = None, irm_mutations = [SetConnectedServer (Some [9])] \<rparr>),
     OutApp (IcReportMutations \<lparr> irm_opt_app_request_id = Some [1], irm_mutations = [] \<rparr>),
     OutControl (RequestRoutesControl example_ic_request [5]), OutAwaitResponse [5]]"

definition example_ic_more :: "nat ic_output list" where
  "example_ic_more = [OutApp (IcResponseRoutes \<lparr> cr_request_id = [5], cr_result = RoutesFailure \<rparr>),
     OutDatabase (ConfigAddIndexServer \<lparr> ni_public_key = [10], ni_address = 2, ni_name = ''second'' \<rparr>),
     OutApp (IcReportMutations \<lparr> irm_opt_app_request_id = Some [2],
       irm_mutations = [ReportAddIndexServer \<lparr> ni_public_key = [10], ni_address = 2, ni_name = ''second'' \<rparr>] \<rparr>),
     OutControl (SendMutations [UpdateFriend (update_of_info [1] example_info)])]"

lemma example_ic_runs:
  "ic_summary (index_client_loop example_ic_before example_ic_client example_ic_io) =
     Some (Inr (), example_ic_out, CsConnected example_ic_connected)"
  "ic_summary (index_client_loop (take 3 (example_ic_before @ example_ic_during)) example_ic_client example_ic_io) =
     Some (Inr (), example_ic_out, CsConnected (example_ic_connected\<lparr> sd_ticks_to_send_keepalive := 1 \<rparr>))"
  "ic_summary (index_client_loop (example_ic_before @ example_ic_during) example_ic_client example_ic_io) =
     Some (Inr (), example_ic_out @ example_ic_more, CsConnected example_ic_connected)"
  by code_simp+

lemma example_ic_answers: "answers_open (example_ic_before @ example_ic_during) example_ic_client example_ic_io"
  unfolding answers_open_def
proof (intro allI impI, elim conjE)
  fix k uid r s
  let ?rounds = "example_ic_before @ example_ic_during"
  assume k: "k < length ?rounds" and e: "snd (?rounds ! k) = EvResponseRoutes uid r"
    and run: "index_client_loop (take k ?rounds) example_ic_client example_ic_io = Some (Inr (), s)"
  have "k = 3 \<and> uid = [5]" using k e
    by (auto simp: example_ic_before_def example_ic_during_def less_Suc_eq numeral_eq_Suc)
  moreover have "returned (take 3 ?rounds) = []" "awaited example_ic_out = [[5]]" by code_simp+
  ultimately show "count_list (returned (take k ?rounds)) uid < count_list (awaited (cx_out s)) uid"
    using run summary_Some [OF example_ic_runs(2)] by auto
qed

theorem keepalive_sent_witness:
  "\<exists>s s' new. index_client_loop example_ic_before example_ic_client example_ic_io = Some (Inr (), s)
    \<and> index_client_loop (example_ic_before @ example_ic_during) example_ic_client example_ic_io = Some (Inr (), s')
    \<and> cx_out s' = cx_out s @ new \<and> announced new \<noteq> []"
proof -
  obtain s s' where s: "index_client_loop example_ic_before example_ic_client example_ic_io = Some (Inr (), s)"
      "ic_conn_status s = CsConnected example_ic_connected"
    and s': "index_client_loop (example_ic_before @ example_ic_during) example_ic_client example_ic_io = Some (Inr (), s')"
    using summary_Some [OF example_ic_runs(1)] summary_Some [OF example_ic_runs(3)] by blast
  have "\<forall>r \<in> set example_ic_during. keeps_connection (ia_public_key (sd_index_server example_ic_connected)) r"
    by (simp add: example_ic_during_def keeps_connection_def example_ic_io_def)
  moreover have "max 1 2 \<le> timer_ticks example_ic_during" by (simp add: example_ic_during_def timer_ticks_def)
  ultimately show ?thesis
    using keepalive_sent [OF s(1) [unfolded example_ic_client_def] s' [unfolded example_ic_client_def] s(2)] s(1) s'
    by (auto simp: example_ic_connected_def)
qed

theorem route_requests_answered_witness:
  "\<exists>s. index_client_loop (example_ic_before @ example_ic_during) example_ic_client example_ic_io = Some (Inr (), s)
    \<and> ic_num_open_requests s = 0 \<and> answered (cx_out s) = [[5]] \<and> acknowledged (cx_out s) = [[1], [2]]"
proof -
  obtain s where s: "index_client_loop (example_ic_before @ example_ic_during) example_ic_client example_ic_io = Some (Inr (), s)"
      "cx_out s = example_ic_out @ example_ic_more" using summary_Some [OF example_ic_runs(3)] by blast
  have "answered (cx_out s) = [[5]]" "awaited (cx_out s) = [[5]]" unfolding s(2) by code_simp+
  moreover have "returned (example_ic_before @ example_ic_during) = [[5]]"
    "app_requests (example_ic_before @ example_ic_during) = [[1], [2]]" by code_simp+
  ultimately show ?thesis
    using route_requests_answered [OF example_ic_answers [unfolded example_ic_client_def]] s(1)
    by (simp add: example_ic_client_def)
qed

theorem index_client_report_follows_witness:
  "\<exists>s. index_client_loop (example_ic_before @ example_ic_during) example_ic_client example_ic_io = Some (Inr (), s)
    \<and> fold index_client_report_mutate (reported (cx_out s)) (create_index_client_report example_ic_config) =
      \<lparr> icr_index_servers = [\<lparr> ni_public_key = [9], ni_address = 1, ni_name = ''first'' \<rparr>,
          \<lparr> ni_public_key = [10], ni_address = 2, ni_name = ''second'' \<rparr>], icr_opt_connected_server = Some [9] \<rparr>"
proof -
  obtain s where s: "index_client_loop (example_ic_before @ example_ic_during) example_ic_client example_ic_io = Some (Inr (), s)"
      "cx_out s = example_ic_out @ example_ic_more" "ic_conn_status s = CsConnected example_ic_connected"
    using summary_Some [OF example_ic_runs(3)] by blast
  have "icc_index_servers (fold index_client_config_mutate (stored (cx_out s)) example_ic_config) =
      [\<lparr> ni_public_key = [9], ni_address = 1, ni_name = ''first'' \<rparr>, \<lparr> ni_public_key = [10], ni_address = 2, ni_name = ''second'' \<rparr>]"
    unfolding s(2) by code_simp
  then show ?thesis
    using index_client_report_follows [OF s(1) [unfolded example_ic_client_def]] s(1,3)
    by (simp add: example_ic_connected_def)
qed

theorem full_state_announced_witness:
  "seq_map_ok example_friends
   \<and> (\<exists>sent answers friends'. send_full_state [([], True), ([SfNextUpdate], True), ([], True)] example_friends = Ok ((sent, answers), friends')
      \<and> ([UpdateFriend (update_of_info [2] example_info)] \<in> set sent
         \<or> (\<exists>c. SfUpdate (Some (c, update_of_info [2] example_info)) \<in> set answers)))"
proof -
  have len: "max 1 (length (sm_queue example_friends)) \<le> length [([] :: seq_friends_request list, True), ([SfNextUpdate], True), ([], True)]"
    and get: "hm_get (sm_map example_friends) [2] = Some example_info" by code_simp+
  show ?thesis using full_state_announced [OF example_cycle(1) _ len] get example_cycle(1) by fastforce
qed

end
