(* ===== verification/NonceWindow.thy ===== *)
theory NonceWindow
  imports Prelude
begin

unbundle bit_operations_syntax

text \<open>
  The sliding window of nonces, \<open>components/crypto/src/nonce_window.rs\<close>: a bit vector in 64 bit
  blocks, most significant block first, whose bit \<open>i\<close> says whether the nonce \<open>nonce - i\<close> was
  accepted. The result is that it implements the set of accepted nonces.
\<close>

section \<open>Definitions\<close>

record nonce_window =
  nw_nonce :: u128
  nw_blocks :: "u64 list"

definition nonce_window_new :: "nat \<Rightarrow> (nonce_window, unit) res" where
  "nonce_window_new width =
     (if width mod 64 = 0 then Ok \<lparr> nw_nonce = 0, nw_blocks = replicate (width div 64) 0 \<rparr> else Panic)"

text \<open>The body of the loop over the blocks but the last, which moves bits across block borders.\<close>

definition shift_block :: "nat \<Rightarrow> nat \<Rightarrow> u64 list \<Rightarrow> u64 list" where
  "shift_block nbits i blocks =
     (let blocks1 = blocks[i := push_bit nbits (blocks ! i)]
      in blocks1[i := (blocks1 ! i) OR drop_bit (64 - nbits) (blocks1 ! (i + 1))])"

definition shift_left :: "u64 list \<Rightarrow> nat \<Rightarrow> u64 list" where
  "shift_left blocks nbits =
     (let len = length blocks in
      if nbits > 0 then
        if nbits \<ge> len * 64 then replicate len 0
        else
          (let nwords = nbits div 64;
               blocks1 = drop nwords blocks @ replicate nwords 0;
               rest = nbits mod 64
           in if rest > 0 then
                (let blocks2 = fold (shift_block rest) [0..<len - 1] blocks1
                 in blocks2[len - 1 := push_bit rest (blocks2 ! (len - 1))])
              else blocks1)
      else blocks)"

definition nw_set :: "nat \<Rightarrow> nonce_window \<Rightarrow> (bool \<times> nonce_window, unit) res" where
  "nw_set i w =
     (let width = length (nw_blocks w) * 64 in
      if \<not> i < width then Panic
      else
        (let i = width - 1 - i;
             mask = push_bit (64 - 1 - i mod 64) (1 :: u64);
             old_bit = ((nw_blocks w ! (i div 64)) AND mask = mask)
         in Ok (old_bit, w\<lparr> nw_blocks := (nw_blocks w)[i div 64 := (nw_blocks w ! (i div 64)) OR mask] \<rparr>)))"

definition try_accept :: "u128 \<Rightarrow> nonce_window \<Rightarrow> (bool \<times> nonce_window, unit) res" where
  "try_accept nonce w =
     (let width = of_nat (length (nw_blocks w)) * (64 :: u128) in
      if nonce < nw_nonce w then
        (let dif = nw_nonce w - nonce in
         if dif \<ge> width then Ok (False, w)
         else res_bind (nw_set (unat dif) w) (\<lambda>(old, w'). Ok (\<not> old, w')))
      else
        (let dif = nonce - nw_nonce w;
             w1 = w\<lparr> nw_blocks := shift_left (nw_blocks w) (unat (min dif width)), nw_nonce := nonce \<rparr>
         in res_bind (nw_set 0 w1) (\<lambda>(old, w'). Ok (\<not> old, w'))))"

section \<open>Bits of the window\<close>

definition window_bit :: "u64 list \<Rightarrow> nat \<Rightarrow> bool" where
  "window_bit blocks i \<longleftrightarrow> i < length blocks * 64 \<and> bit (blocks ! (length blocks - 1 - i div 64)) (i mod 64)"

lemma set_position:
  assumes "i < n * (64 :: nat)"
  shows "(n * 64 - 1 - i) div 64 = n - 1 - i div 64" and "64 - 1 - (n * 64 - 1 - i) mod 64 = i mod 64"
proof -
  have "i div 64 < n" using assms by (simp add: less_mult_imp_div_less)
  then obtain m where m: "n = Suc (i div 64 + m)" using less_iff_Suc_add by blast
  have "i mod 64 < 64" "i div 64 * 64 + i mod 64 = i" by simp_all
  moreover have "Suc (q + m) * 64 - 1 - (q * 64 + r) = m * 64 + (63 - r)" if "r < 64" for q r :: nat
    using that by simp
  ultimately have eq: "n * 64 - 1 - i = m * 64 + (63 - i mod 64)" unfolding m by metis
  have "(m * 64 + y) div 64 = m" "(m * 64 + y) mod 64 = y" if "y < 64" for y :: nat using that by simp_all
  note this [of "63 - i mod 64"]
  then show "(n * 64 - 1 - i) div 64 = n - 1 - i div 64" "64 - 1 - (n * 64 - 1 - i) mod 64 = i mod 64"
    unfolding eq using \<open>i mod 64 < 64\<close> by (simp_all add: m del: mod_less_divisor)
qed

lemma div_mod_64: "r < 64 \<Longrightarrow> (q * 64 + r) div 64 = (q :: nat)" "r < 64 \<Longrightarrow> (q * 64 + r) mod 64 = (r :: nat)"
  by simp_all

text \<open>The bit at position \<open>r\<close> of the block that is the \<open>q\<close>-th from the end.\<close>

lemma window_bit_block:
  "r < 64 \<Longrightarrow> window_bit bs (q * 64 + r) \<longleftrightarrow> q < length bs \<and> bit (bs ! (length bs - 1 - q)) r"
  by (auto simp: window_bit_def div_mod_64 simp del: add_mult_distrib)

lemma split_64:
  obtains q r where "i = q * 64 + r" "r < (64 :: nat)"
  by (metis div_mult_mod_eq mod_less_divisor zero_less_numeral)

lemma mask_bit:
  assumes "k < 64"
  shows "((b :: u64) AND 2 ^ k = 2 ^ k) = bit b k"
proof
  assume "b AND 2 ^ k = 2 ^ k"
  then have "bit (b AND 2 ^ k) k = bit (2 ^ k :: u64) k" by simp
  then show "bit b k" using assms by (simp add: bit_and_iff bit_exp_iff)
next
  assume "bit b k"
  then show "b AND 2 ^ k = 2 ^ k" by (intro bit_word_eqI) (auto simp: bit_and_iff bit_exp_iff)
qed

text \<open>\<open>set\<close> returns the old bit and sets it.\<close>

lemma nw_set_bits:
  assumes "i < length (nw_blocks w) * 64"
  shows "\<exists>w'. nw_set i w = Ok (window_bit (nw_blocks w) i, w') \<and> nw_nonce w' = nw_nonce w
    \<and> length (nw_blocks w') = length (nw_blocks w)
    \<and> (\<forall>j. window_bit (nw_blocks w') j \<longleftrightarrow> j = i \<or> window_bit (nw_blocks w) j)"
proof -
  let ?bs = "nw_blocks w"
  let ?n = "length ?bs"
  obtain q r where i: "i = q * 64 + r" and r: "r < 64" by (rule split_64)
  let ?bs' = "?bs[?n - 1 - q := (?bs ! (?n - 1 - q)) OR 2 ^ r]"
  have q: "q < ?n" using assms i r by simp
  have "nw_set i w = Ok (window_bit ?bs i, w\<lparr> nw_blocks := ?bs' \<rparr>)"
    using assms set_position [OF assms] q r
    by (simp add: nw_set_def Let_def mask_bit [OF r] window_bit_block [OF r] i div_mod_64)
  moreover have "window_bit ?bs' j \<longleftrightarrow> j = i \<or> window_bit ?bs j" for j
  proof -
    obtain q' r' where j: "j = q' * 64 + r'" and r': "r' < 64" by (rule split_64)
    have "j = i \<longleftrightarrow> q' = q \<and> r' = r" using div_mod_64 r r' i j by metis
    moreover have "?n - 1 - q' = ?n - 1 - q \<longleftrightarrow> q' = q" if "q' < ?n" using that q by auto
    ultimately show ?thesis using q r r'
      by (auto simp: j window_bit_block nth_list_update bit_or_iff bit_exp_iff)
  qed
  ultimately show ?thesis by simp
qed

text \<open>\<open>shift_left\<close> moves every bit up.\<close>

lemma shift_block_fold:
  "k \<le> length bs - 1 \<Longrightarrow> length (fold (shift_block r) [0..<k] bs) = length bs
    \<and> (\<forall>j < length bs. fold (shift_block r) [0..<k] bs ! j =
        (if j < k then push_bit r (bs ! j) OR drop_bit (64 - r) (bs ! (j + 1)) else bs ! j))"
proof (induction k)
  case (Suc k)
  let ?f = "fold (shift_block r) [0..<k] bs"
  have ih: "length ?f = length bs" "\<And>j. j < length bs \<Longrightarrow> ?f ! j =
      (if j < k then push_bit r (bs ! j) OR drop_bit (64 - r) (bs ! (j + 1)) else bs ! j)"
    using Suc by simp_all
  then have "?f ! k = bs ! k" "?f ! (k + 1) = bs ! (k + 1)" using Suc.prems by simp_all
  then show ?case using ih Suc.prems by (auto simp: shift_block_def [of r k] Let_def nth_list_update less_Suc_eq)
qed simp

lemma shift_blocks_nth:
  assumes "bs \<noteq> []" and "0 < r" and "r < 64"
  defines "bs' \<equiv> (let bs2 = fold (shift_block r) [0..<length bs - 1] bs
    in bs2[length bs - 1 := push_bit r (bs2 ! (length bs - 1))])"
  shows "length bs' = length bs"
    and "j < length bs \<Longrightarrow> bs' ! j = push_bit r (bs ! j) OR (if j + 1 < length bs then drop_bit (64 - r) (bs ! (j + 1)) else 0)"
  using shift_block_fold [of "length bs - 1" bs r] assms(1)
  by (auto simp: bs'_def Let_def nth_list_update)

text \<open>Shifting by whole blocks, and by less than a block.\<close>

lemma bits_shift_words:
  assumes "m \<le> length bs"
  shows "window_bit (drop m bs @ replicate m 0) i \<longleftrightarrow> m * 64 \<le> i \<and> i < length bs * 64 \<and> window_bit bs (i - m * 64)"
proof -
  obtain q r where i: "i = q * 64 + r" and r: "r < 64" by (rule split_64)
  have len: "length (drop m bs @ replicate m 0) = length bs" using assms by simp
  show ?thesis
  proof (cases "m \<le> q")
    case True
    then have "i - m * 64 = (q - m) * 64 + r" by (simp add: i diff_mult_distrib)
    moreover have "(drop m bs @ replicate m 0) ! (length bs - 1 - q) = bs ! (length bs - 1 - (q - m))" if "q < length bs"
      using True that assms by (auto simp: nth_append add.commute)
    ultimately show ?thesis using True r len assms
      by (auto simp: i window_bit_block [OF r])
  next
    case False
    then have "(drop m bs @ replicate m 0) ! (length bs - 1 - q) = 0" using assms by (auto simp: nth_append)
    moreover have "\<not> m * 64 \<le> i" using False r i by simp
    ultimately show ?thesis using len by (simp add: i window_bit_block [OF r])
  qed
qed

lemma bits_shift_rest:
  assumes "bs \<noteq> []" and "0 < k" and "k < 64"
  defines "bs' \<equiv> (let bs2 = fold (shift_block k) [0..<length bs - 1] bs
    in bs2[length bs - 1 := push_bit k (bs2 ! (length bs - 1))])"
  shows "window_bit bs' i \<longleftrightarrow> k \<le> i \<and> i < length bs * 64 \<and> window_bit bs (i - k)"
proof -
  note len = shift_blocks_nth(1) [OF assms(1-3), folded bs'_def]
  obtain q r where i: "i = q * 64 + r" and r: "r < 64" by (rule split_64)
  show ?thesis
  proof (cases "q < length bs")
    case True
    let ?j = "length bs - 1 - q"
    have next_block: "?j + 1 < length bs \<longleftrightarrow> 0 < q" "0 < q \<Longrightarrow> ?j + 1 = length bs - 1 - (q - 1)"
      using True by auto
    have "bs' ! ?j = push_bit k (bs ! ?j) OR (if 0 < q then drop_bit (64 - k) (bs ! (?j + 1)) else 0)"
      using shift_blocks_nth(2) [OF assms(1-3), folded bs'_def, of ?j] True next_block(1) by simp
    then have bit: "window_bit bs' i \<longleftrightarrow> k \<le> r \<and> bit (bs ! ?j) (r - k) \<or> 0 < q \<and> bit (bs ! (?j + 1)) (64 - k + r)"
      using True r by (auto simp: i window_bit_block [OF r] len bit_or_iff bit_push_bit_iff bit_drop_bit_eq)
    show ?thesis
    proof (cases "k \<le> r")
      case le: True
      then have eq: "i - k = q * 64 + (r - k)" "r - k < 64" "\<not> bit (bs ! (?j + 1)) (64 - k + r)"
        using r i assms(3) bit_imp_le_length [of "bs ! (?j + 1)" "64 - k + r"] by auto
      have "window_bit bs (i - k) \<longleftrightarrow> bit (bs ! ?j) (r - k)"
        unfolding eq(1) window_bit_block [OF eq(2)] using True by simp
      moreover have "k \<le> i" "i < length bs * 64" using le True r i by simp_all
      ultimately show ?thesis using bit le eq(3) by simp
    next
      case False
      show ?thesis
      proof (cases "0 < q")
        case pos: True
        have eq: "i - k = (q - 1) * 64 + (64 - k + r)" "64 - k + r < 64" using pos False assms(3) i by (cases q; simp)+
        have "window_bit bs (i - k) \<longleftrightarrow> bit (bs ! (?j + 1)) (64 - k + r)"
          unfolding eq(1) window_bit_block [OF eq(2)] using True pos next_block(2) by auto
        moreover have "k \<le> i" "i < length bs * 64" using pos True r i assms(3) by simp_all
        ultimately show ?thesis using bit False pos by simp
      qed (use bit False i in simp)
    qed
  next
    case False
    then show ?thesis using r by (simp add: i window_bit_block [OF r] len)
  qed
qed

lemma shift_left_bits:
  "length (shift_left bs n) = length bs"
  "window_bit (shift_left bs n) i \<longleftrightarrow> n \<le> i \<and> i < length bs * 64 \<and> window_bit bs (i - n)"
proof -
  show "length (shift_left bs n) = length bs"
    using shift_blocks_nth(1) [of "drop (n div 64) bs @ replicate (n div 64) 0" "n mod 64"]
    by (auto simp: shift_left_def Let_def less_mult_imp_div_less)
  show "window_bit (shift_left bs n) i \<longleftrightarrow> n \<le> i \<and> i < length bs * 64 \<and> window_bit bs (i - n)"
  proof (cases "0 < n \<and> n < length bs * 64")
    case False
    have "window_bit (replicate (length bs) 0) i = False" by (auto simp: window_bit_def)
    then show ?thesis using False by (auto simp: shift_left_def Let_def window_bit_def)
  next
    case True
    define m where "m = n div 64"
    define k where "k = n mod 64"
    let ?bs1 = "drop m bs @ replicate m 0"
    have n: "n = m * 64 + k" "k < 64" by (simp_all add: m_def k_def)
    have m: "m \<le> length bs" using True by (simp add: m_def less_mult_imp_div_less less_imp_le)
    have ne: "?bs1 \<noteq> []" "length ?bs1 = length bs" using True m by auto
    have "window_bit (shift_left bs n) i \<longleftrightarrow> k \<le> i \<and> i < length bs * 64 \<and> window_bit ?bs1 (i - k)"
    proof (cases "0 < k")
      case pos: True
      show ?thesis
        using bits_shift_rest [OF ne(1) pos n(2), unfolded ne(2)] True pos
        by (simp only: shift_left_def m_def k_def Let_def) simp
    next
      case False
      then show ?thesis using True ne(2) by (auto simp: shift_left_def m_def k_def Let_def window_bit_def)
    qed
    also have "\<dots> \<longleftrightarrow> n \<le> i \<and> i < length bs * 64 \<and> window_bit bs (i - n)"
      unfolding bits_shift_words [OF m] n(1) by (auto simp: diff_diff_left add.commute)
    finally show ?thesis .
  qed
qed

section \<open>The set of accepted nonces\<close>

text \<open>\<open>A\<close> is the set of the nonces accepted so far, whose greatest is the nonce of the window.\<close>

definition window_of :: "nonce_window \<Rightarrow> nat set \<Rightarrow> bool" where
  "window_of w A \<longleftrightarrow>
     0 < length (nw_blocks w) \<and> length (nw_blocks w) * 64 < 2 ^ 64 \<and> A \<subseteq> {..unat (nw_nonce w)}
     \<and> (\<forall>i. window_bit (nw_blocks w) i \<longleftrightarrow>
          i < length (nw_blocks w) * 64 \<and> i \<le> unat (nw_nonce w) \<and> unat (nw_nonce w) - i \<in> A)"

definition window_width :: "nonce_window \<Rightarrow> nat" where
  "window_width w = length (nw_blocks w) * 64"

lemma word_width: "length (nw_blocks w) * 64 < 2 ^ 64 \<Longrightarrow> unat (of_nat (length (nw_blocks w)) * (64 :: u128)) = window_width w"
proof -
  assume "length (nw_blocks w) * 64 < 2 ^ 64"
  then have "window_width w < 2 ^ LENGTH(128)" by (simp add: window_width_def)
  moreover have "of_nat (window_width w) = of_nat (length (nw_blocks w)) * (64 :: u128)" by (simp add: window_width_def)
  ultimately show ?thesis by (intro of_nat_inverse)
qed

lemma set_accepts:
  assumes "window_of w A" and "i < window_width w" and "i \<le> unat (nw_nonce w)"
  shows "\<exists>w'. nw_set i w = Ok (unat (nw_nonce w) - i \<in> A, w') \<and> window_of w' (insert (unat (nw_nonce w) - i) A)
    \<and> nw_nonce w' = nw_nonce w \<and> window_width w' = window_width w"
proof -
  obtain w' where w': "nw_set i w = Ok (window_bit (nw_blocks w) i, w')" "nw_nonce w' = nw_nonce w"
      "length (nw_blocks w') = length (nw_blocks w)"
      "\<And>j. window_bit (nw_blocks w') j \<longleftrightarrow> j = i \<or> window_bit (nw_blocks w) j"
    using nw_set_bits [of i w] assms(2) unfolding window_width_def by blast
  have old: "window_bit (nw_blocks w) i \<longleftrightarrow> unat (nw_nonce w) - i \<in> A"
    using assms by (simp add: window_of_def window_width_def)
  have "unat (nw_nonce w) - j = unat (nw_nonce w) - i \<longleftrightarrow> j = i" if "j \<le> unat (nw_nonce w)" for j
    using that assms(3) by auto
  then have "window_of w' (insert (unat (nw_nonce w) - i) A)"
    using assms w' unfolding window_of_def window_width_def by auto
  then show ?thesis using w' old by (simp add: window_width_def)
qed

lemma slide_window:
  assumes "window_of w A" and "nw_nonce w \<le> n"
  shows "window_of (w\<lparr> nw_blocks := shift_left (nw_blocks w) (min (unat n - unat (nw_nonce w)) (window_width w)), nw_nonce := n \<rparr>) A"
proof -
  let ?m = "unat (nw_nonce w)" and ?n = "unat n" and ?W = "length (nw_blocks w) * 64"
  let ?k = "min (?n - ?m) ?W"
  have le: "?m \<le> ?n" using assms(2) by (simp add: word_le_nat_alt)
  have sub: "A \<subseteq> {..?m}" and bits: "\<And>i. window_bit (nw_blocks w) i \<longleftrightarrow> i < ?W \<and> i \<le> ?m \<and> ?m - i \<in> A"
    using assms(1) by (auto simp: window_of_def)
  have "window_bit (shift_left (nw_blocks w) ?k) i \<longleftrightarrow> i < ?W \<and> i \<le> ?n \<and> ?n - i \<in> A" for i
  proof (cases "?n - ?m \<le> i")
    case True
    then have eq: "?m - (i - (?n - ?m)) = ?n - i" "i - (?n - ?m) \<le> ?m \<longleftrightarrow> i \<le> ?n" using le by auto
    have "?k = ?n - ?m" if "i < ?W" using that True by simp
    then have "window_bit (shift_left (nw_blocks w) ?k) i \<longleftrightarrow> i < ?W \<and> window_bit (nw_blocks w) (i - (?n - ?m))"
      unfolding shift_left_bits(2) using True by auto
    then show ?thesis unfolding bits eq using True by auto
  next
    case False
    then have "?n - i \<notin> A" using sub by auto
    then show ?thesis unfolding shift_left_bits(2) using False by auto
  qed
  then show ?thesis using assms(1) sub le by (auto simp: window_of_def shift_left_bits(1) window_width_def)
qed

text \<open>One call: a nonce is accepted exactly when it is new and not too far behind the window's nonce.\<close>

lemma try_accept_spec:
  assumes "window_of w A"
  shows "\<exists>accepted w'. try_accept n w = Ok (accepted, w')
    \<and> (accepted \<longleftrightarrow> unat n \<notin> A \<and> unat (nw_nonce w) < unat n + window_width w)
    \<and> window_of w' (if accepted then insert (unat n) A else A) \<and> window_width w' = window_width w
    \<and> nw_nonce w' = max n (nw_nonce w)"
proof (cases "n < nw_nonce w")
  case True
  then have less: "unat n < unat (nw_nonce w)" and max: "max n (nw_nonce w) = nw_nonce w"
    by (simp_all add: word_less_nat_alt)
  have dif: "unat (nw_nonce w - n) = unat (nw_nonce w) - unat n" using less by (intro unat_sub) (simp add: word_le_nat_alt)
  have width: "unat (of_nat (length (nw_blocks w)) * (64 :: u128)) = window_width w"
    using assms by (intro word_width) (simp add: window_of_def)
  show ?thesis
  proof (cases "unat (nw_nonce w) - unat n < window_width w")
    case near: True
    obtain w' where w': "nw_set (unat (nw_nonce w) - unat n) w = Ok (unat n \<in> A, w')" "window_of w' (insert (unat n) A)"
        "nw_nonce w' = nw_nonce w" "window_width w' = window_width w"
      using set_accepts [OF assms near] less by auto
    moreover have "insert (unat n) A = A" if "unat n \<in> A" using that by blast
    ultimately show ?thesis using True near less dif width
      by (auto simp: try_accept_def Let_def word_le_nat_alt max)
  next
    case False
    then show ?thesis using True less dif width assms by (auto simp: try_accept_def Let_def word_le_nat_alt max)
  qed
next
  case False
  then have le: "nw_nonce w \<le> n" and max: "max n (nw_nonce w) = n" by simp_all
  let ?k = "min (unat n - unat (nw_nonce w)) (window_width w)"
  let ?w1 = "w\<lparr> nw_blocks := shift_left (nw_blocks w) ?k, nw_nonce := n \<rparr>"
  have w1: "window_of ?w1 A" "window_width ?w1 = window_width w"
    using slide_window [OF assms le] by (simp_all add: window_width_def shift_left_bits(1))
  have width: "unat (of_nat (length (nw_blocks w)) * (64 :: u128)) = window_width w" "0 < window_width w"
    using assms word_width [of w] by (simp_all add: window_of_def window_width_def)
  have k: "unat (min (n - nw_nonce w) (of_nat (length (nw_blocks w)) * 64)) = ?k"
    using le width by (auto simp: min_def word_le_nat_alt unat_sub)
  obtain w' where w': "nw_set 0 ?w1 = Ok (unat n \<in> A, w')" "window_of w' (insert (unat n) A)"
      "nw_nonce w' = n" "window_width w' = window_width w"
    using set_accepts [OF w1(1), of 0] w1(2) width by auto
  moreover have "insert (unat n) A = A" if "unat n \<in> A" using that by blast
  moreover have "unat (nw_nonce w) < unat n + window_width w" using le width by (simp add: word_le_nat_alt)
  moreover have "try_accept n w = Ok (unat n \<notin> A, w')" using False w'(1) by (simp add: try_accept_def Let_def k)
  ultimately show ?thesis by (auto simp: max)
qed

section \<open>Sequences of nonces\<close>

fun accept_all :: "u128 list \<Rightarrow> nonce_window \<Rightarrow> (bool list \<times> nonce_window, unit) res" where
  "accept_all [] w = Ok ([], w)"
| "accept_all (n # ns) w =
     res_bind (try_accept n w) (\<lambda>(accepted, w').
       res_bind (accept_all ns w') (\<lambda>(rs, w''). Ok (accepted # rs, w'')))"

definition accepted_before :: "u128 list \<Rightarrow> bool list \<Rightarrow> nat \<Rightarrow> nat set" where
  "accepted_before ns rs i = {unat (ns ! j) | j. j < i \<and> rs ! j}"

lemma accepted_before_Cons:
  "accepted_before (n # ns) (r # rs) (Suc i) = (if r then insert (unat n) (accepted_before ns rs i) else accepted_before ns rs i)"
proof -
  have mem: "x \<in> accepted_before ns rs i \<longleftrightarrow> (\<exists>j < i. rs ! j \<and> x = unat (ns ! j))" for x ns rs i
    by (auto simp: accepted_before_def)
  show ?thesis by (rule set_eqI) (auto simp: mem Ex_less_Suc2)
qed

lemma accept_all_spec:
  "window_of w A \<Longrightarrow> \<exists>rs w'. accept_all ns w = Ok (rs, w') \<and> length rs = length ns
    \<and> (\<forall>i < length ns. rs ! i \<longleftrightarrow> unat (ns ! i) \<notin> A \<union> accepted_before ns rs i
          \<and> unat (fold max (take i ns) (nw_nonce w)) < unat (ns ! i) + window_width w)"
proof (induction ns arbitrary: w A)
  case (Cons n ns)
  obtain r w1 where r: "try_accept n w = Ok (r, w1)" "r \<longleftrightarrow> unat n \<notin> A \<and> unat (nw_nonce w) < unat n + window_width w"
      "window_of w1 (if r then insert (unat n) A else A)" "window_width w1 = window_width w" "nw_nonce w1 = max n (nw_nonce w)"
    using try_accept_spec [OF Cons.prems, of n] by blast
  obtain rs w' where rs: "accept_all ns w1 = Ok (rs, w')" "length rs = length ns"
      "\<And>i. i < length ns \<Longrightarrow> rs ! i \<longleftrightarrow> unat (ns ! i) \<notin> (if r then insert (unat n) A else A) \<union> accepted_before ns rs i
          \<and> unat (fold max (take i ns) (nw_nonce w1)) < unat (ns ! i) + window_width w1"
    using Cons.IH [OF r(3)] by blast
  have "(r # rs) ! i \<longleftrightarrow> unat ((n # ns) ! i) \<notin> A \<union> accepted_before (n # ns) (r # rs) i
      \<and> unat (fold max (take i (n # ns)) (nw_nonce w)) < unat ((n # ns) ! i) + window_width w" if "i < length (n # ns)" for i
  proof (cases i)
    case 0
    then show ?thesis using r(2) by (simp add: accepted_before_def)
  next
    case (Suc j)
    then show ?thesis using that rs(3) [of j] r(4,5) by (auto simp: accepted_before_Cons)
  qed
  then show ?case using r(1) rs(1,2) by simp
qed (simp add: accepted_before_def)

lemma window_new:
  assumes "width mod 64 = 0" and "0 < width" and "width < 2 ^ 64"
  shows "\<exists>w. nonce_window_new width = Ok w \<and> window_of w {} \<and> window_width w = width \<and> nw_nonce w = 0"
proof -
  have "width div 64 * 64 = width" "0 < width div 64" using assms by auto
  then show ?thesis using assms by (auto simp: nonce_window_new_def window_of_def window_width_def window_bit_def)
qed

text \<open>
  C31: A window of a positive width never panics, and it accepts a nonce exactly when that nonce
  was not accepted before and is less than the width behind the greatest nonce offered so far.
  So no nonce is accepted twice, and no new nonce within the window is lost.
\<close>

theorem nonce_window_accepts_once:
  assumes "width mod 64 = 0" and "0 < width" and "width < 2 ^ 64"
  shows "\<exists>w rs w'. nonce_window_new width = Ok w \<and> accept_all ns w = Ok (rs, w') \<and> length rs = length ns
    \<and> (\<forall>i < length ns. rs ! i \<longleftrightarrow> unat (ns ! i) \<notin> accepted_before ns rs i
          \<and> unat (fold max (take i ns) 0) < unat (ns ! i) + width)"
  using window_new [OF assms] accept_all_spec [of _ "{}" ns] by fastforce

lemma example_nonces:
  "case nonce_window_new 128 of Ok w \<Rightarrow>
     (case accept_all [5, 200, 72, 73, 200, 73] w of
        Ok (rs, w') \<Rightarrow> rs = [True, True, False, True, False, False] | _ \<Rightarrow> False) | _ \<Rightarrow> False"
  by code_simp

theorem nonce_window_accepts_once_witness:
  "\<exists>w rs w'. nonce_window_new 128 = Ok w \<and> accept_all [5, 200, 72, 73, 200, 73] w = Ok (rs, w')
     \<and> rs = [True, True, False, True, False, False]
     \<and> (\<forall>i < 6. rs ! i \<longrightarrow> unat ([5, 200, 72, 73, 200, 73] ! i :: u128) \<notin> accepted_before [5, 200, 72, 73, 200, 73] rs i)"
proof -
  have width: "(128 :: nat) mod 64 = 0" "(0 :: nat) < 128" "(128 :: nat) < 2 ^ 64" by simp_all
  let ?ns = "[5, 200, 72, 73, 200, 73] :: u128 list"
  obtain w rs w' where w: "nonce_window_new 128 = Ok w" "accept_all ?ns w = Ok (rs, w')"
    and rs: "\<forall>i < length ?ns. rs ! i \<longleftrightarrow> unat (?ns ! i) \<notin> accepted_before ?ns rs i
        \<and> unat (fold max (take i ?ns) 0) < unat (?ns ! i) + 128"
    using nonce_window_accepts_once [OF width, of ?ns] by blast
  have "rs = [True, True, False, True, False, False]" using example_nonces w by simp
  moreover have "length ?ns = 6" by simp
  ultimately show ?thesis using w rs by (intro exI [of _ w] exI [of _ rs] exI [of _ w']) (simp only: simp_thms, blast)
qed

end
