(* ===== verification/SecureChannel.thy ===== *)
theory SecureChannel
  imports SignatureBuff
begin

text \<open>
  The encrypted channel between two nodes: symmetric encryption with counted nonces
  (\<open>crypto/src/sym_encrypt.rs\<close>, \<open>crypto/src/lib.rs\<close>), key derivation (\<open>crypto/src/dh.rs\<close>), the
  states of the key exchange and of rekeying (\<open>secure_channel/src/state.rs\<close>) and the task that
  runs a channel (\<open>secure_channel/src/secure_channel.rs\<close>).

  The functions of the \<open>ring\<close> library and the serialization of messages are the fields of
  \<open>channel_api\<close>, a private key being a value of a type parameter. What the random generator
  yields in a call is an argument; \<open>None\<close> stands for its failure. A private key is used once, as
  in the code.
\<close>

section \<open>Messages\<close>

record exchange_rand_nonce =
  ern_rand_nonce :: bytes
  ern_public_key :: public_key

record exchange_dh =
  ed_dh_public_key :: bytes
  ed_rand_nonce :: bytes
  ed_key_salt :: bytes
  ed_signature :: signature

definition exchange_signature_buffer :: "exchange_dh \<Rightarrow> bytes" where
  "exchange_signature_buffer ed = ed_dh_public_key ed @ ed_rand_nonce ed @ ed_key_salt ed"

record rekey =
  rk_dh_public_key :: bytes
  rk_key_salt :: bytes

datatype channel_content = RekeyContent rekey | UserContent bytes

record channel_message =
  cm_rand_padding :: bytes
  cm_content :: channel_content

section \<open>Primitives\<close>

record 'd channel_api =
  dh_public :: "'d \<Rightarrow> bytes option"
  dh_agree :: "'d \<Rightarrow> bytes \<Rightarrow> bytes option"
  hkdf :: "bytes \<Rightarrow> bytes \<Rightarrow> bytes"
  aead_key_ok :: "bytes \<Rightarrow> bool"
  aead_seal :: "bytes \<Rightarrow> bytes \<Rightarrow> bytes \<Rightarrow> bytes option"
  aead_open :: "bytes \<Rightarrow> bytes \<Rightarrow> bytes \<Rightarrow> bytes option"
  ser_message :: "channel_message \<Rightarrow> bytes"
  deser_message :: "bytes \<Rightarrow> channel_message option"

section \<open>Encryption with counted nonces\<close>

text \<open>The loop of \<open>increase_nonce\<close>, with its 16 bit carry.\<close>

fun increase_nonce_carry :: "16 word \<Rightarrow> bytes \<Rightarrow> bytes" where
  "increase_nonce_carry c [] = []"
| "increase_nonce_carry c (i # nonce) =
     (let c = c + ucast i in ucast c # increase_nonce_carry (drop_bit 8 c) nonce)"

definition increase_nonce :: "bytes \<Rightarrow> bytes" where
  "increase_nonce nonce = increase_nonce_carry 1 nonce"

definition ENC_NONCE_LEN :: nat where
  "ENC_NONCE_LEN = 12"

text \<open>An \<open>EncryptNonceCounter\<close> is its nonce. Both ciphers are a key and a counter.\<close>

definition nonce_counter_new :: bytes where
  "nonce_counter_new = replicate ENC_NONCE_LEN 0"

definition next_nonce :: "bytes \<Rightarrow> bytes \<times> bytes" where
  "next_nonce counter = (counter, increase_nonce counter)"

record encryptor =
  en_sealing_key :: bytes
  en_nonce_counter :: bytes

record decryptor =
  de_opening_key :: bytes
  de_nonce_counter :: bytes

definition encryptor_new :: "'d channel_api \<Rightarrow> bytes \<Rightarrow> encryptor option" where
  "encryptor_new P key =
     (if aead_key_ok P key then Some \<lparr> en_sealing_key = key, en_nonce_counter = nonce_counter_new \<rparr> else None)"

definition encrypt :: "'d channel_api \<Rightarrow> bytes \<Rightarrow> encryptor \<Rightarrow> bytes option \<times> encryptor" where
  "encrypt P plain_msg e =
     (let (enc_nonce, counter) = next_nonce (en_nonce_counter e);
          e = e\<lparr> en_nonce_counter := counter \<rparr>
      in (map_option (\<lambda>sealed. enc_nonce @ sealed) (aead_seal P (en_sealing_key e) enc_nonce plain_msg), e))"

definition decryptor_new :: "'d channel_api \<Rightarrow> bytes \<Rightarrow> decryptor option" where
  "decryptor_new P key =
     (if aead_key_ok P key then Some \<lparr> de_opening_key = key, de_nonce_counter = nonce_counter_new \<rparr> else None)"

text \<open>
  The slice of the first bytes panics when the message is shorter. \<open>None\<close> is the error of
  \<open>decrypt\<close>.
\<close>

definition decrypt :: "'d channel_api \<Rightarrow> bytes \<Rightarrow> decryptor \<Rightarrow> (bytes option \<times> decryptor, 'e) res" where
  "decrypt P cipher_msg d =
     (if length cipher_msg < ENC_NONCE_LEN then Panic
      else
        (let enc_nonce = take ENC_NONCE_LEN cipher_msg
         in if enc_nonce \<noteq> de_nonce_counter d then Ok (None, d)
            else
              (case aead_open P (de_opening_key d) enc_nonce (drop ENC_NONCE_LEN cipher_msg) of
                 Some opened \<Rightarrow> Ok (Some opened, d\<lparr> de_nonce_counter := snd (next_nonce (de_nonce_counter d)) \<rparr>)
               | None \<Rightarrow> Ok (None, d))))"

definition SHARED_SECRET_LEN :: nat where
  "SHARED_SECRET_LEN = 32"

definition derive_symmetric_key ::
  "'d channel_api \<Rightarrow> 'd \<Rightarrow> bytes \<Rightarrow> bytes \<Rightarrow> bytes \<Rightarrow> (bytes \<times> bytes) option" where
  "derive_symmetric_key P dh_private_key remote_public_key sent_salt recv_salt =
     (case dh_agree P dh_private_key remote_public_key of
        None \<Rightarrow> None
      | Some shared_key \<Rightarrow>
          if length shared_key \<noteq> SHARED_SECRET_LEN then None
          else Some (hkdf P sent_salt shared_key, hkdf P recv_salt shared_key))"

section \<open>The key exchange\<close>

datatype sc_state_error =
    PrivateKeyGenFailure | SaltGenFailure | DhPublicKeyComputeFailure | IncorrectRandNonce | ScInvalidSignature
  | KeyDerivationFailure | CreateEncryptorFailure | CreateDecryptorFailure | DecryptionFailure
  | DeserializeError | RekeyInProgress

text \<open>What one call draws from the random generator.\<close>

record 'd sc_rand =
  sr_dh_private_key :: "'d option"
  sr_salt :: "bytes option"
  sr_padding_len :: "bytes option"
  sr_padding :: "nat \<Rightarrow> bytes option"

record sc_state_initial =
  si_local_public_key :: public_key
  si_local_rand_nonce :: bytes

record 'd sc_state_half =
  sh_remote_public_key :: public_key
  sh_local_public_key :: public_key
  sh_local_rand_nonce :: bytes
  sh_dh_private_key :: 'd
  sh_local_salt :: bytes

record 'd pending_rekey =
  pr_local_dh_private_key :: 'd
  pr_local_salt :: bytes

record 'd sc_state =
  ss_local_public_key :: public_key
  ss_remote_public_key :: public_key
  ss_sender :: encryptor
  ss_receiver :: decryptor
  ss_opt_old_receiver :: "decryptor option"
  ss_opt_pending_rekey :: "'d pending_rekey option"

text \<open>\<open>RandValue::new\<close> unwraps what the generator returns.\<close>

definition sc_state_initial_new ::
  "public_key \<Rightarrow> bytes option \<Rightarrow> (sc_state_initial \<times> exchange_rand_nonce, sc_state_error) res" where
  "sc_state_initial_new local_public_key rand_value =
     res_bind (unwrap rand_value) (\<lambda>local_rand_nonce.
       Ok (\<lparr> si_local_public_key = local_public_key, si_local_rand_nonce = local_rand_nonce \<rparr>,
           \<lparr> ern_rand_nonce = local_rand_nonce, ern_public_key = local_public_key \<rparr>))"

definition handle_exchange_rand_nonce ::
  "'d channel_api \<Rightarrow> (bytes \<Rightarrow> signature option) \<Rightarrow> 'd sc_rand \<Rightarrow> exchange_rand_nonce \<Rightarrow> sc_state_initial
    \<Rightarrow> ('d sc_state_half \<times> exchange_dh, sc_state_error) res" where
  "handle_exchange_rand_nonce P request_signature rnd exchange s =
     res_bind (ok_or (sr_dh_private_key rnd) PrivateKeyGenFailure) (\<lambda>dh_private_key.
     res_bind (ok_or (dh_public P dh_private_key) DhPublicKeyComputeFailure) (\<lambda>dh_public_key.
     res_bind (ok_or (sr_salt rnd) SaltGenFailure) (\<lambda>local_salt.
       let half = \<lparr> sh_remote_public_key = ern_public_key exchange, sh_local_public_key = si_local_public_key s,
             sh_local_rand_nonce = si_local_rand_nonce s, sh_dh_private_key = dh_private_key, sh_local_salt = local_salt \<rparr>;
           exchange_dh = \<lparr> ed_dh_public_key = dh_public_key, ed_rand_nonce = ern_rand_nonce exchange,
             ed_key_salt = local_salt, ed_signature = replicate 64 0 \<rparr>
       in res_bind (unwrap (request_signature (exchange_signature_buffer exchange_dh))) (\<lambda>signature.
            Ok (half, exchange_dh\<lparr> ed_signature := signature \<rparr>)))))"

definition verify_exchange_dh ::
  "crypto_api \<Rightarrow> exchange_dh \<Rightarrow> 'd sc_state_half \<Rightarrow> (unit, sc_state_error) res" where
  "verify_exchange_dh C exchange s =
     (if sh_local_rand_nonce s \<noteq> ed_rand_nonce exchange then Err IncorrectRandNonce
      else if \<not> verify_signature C (exchange_signature_buffer exchange) (sh_remote_public_key s) (ed_signature exchange)
      then Err ScInvalidSignature
      else Ok ())"

definition handle_exchange_dh ::
  "'d channel_api \<Rightarrow> crypto_api \<Rightarrow> exchange_dh \<Rightarrow> 'd sc_state_half \<Rightarrow> ('d sc_state, sc_state_error) res" where
  "handle_exchange_dh P C exchange s =
     res_bind (verify_exchange_dh C exchange s) (\<lambda>_.
     res_bind (ok_or (derive_symmetric_key P (sh_dh_private_key s) (ed_dh_public_key exchange) (sh_local_salt s)
                       (ed_key_salt exchange)) KeyDerivationFailure) (\<lambda>(send_key, recv_key).
     res_bind (ok_or (encryptor_new P send_key) CreateEncryptorFailure) (\<lambda>sender.
     res_bind (ok_or (decryptor_new P recv_key) CreateDecryptorFailure) (\<lambda>receiver.
       Ok \<lparr> ss_local_public_key = sh_local_public_key s, ss_remote_public_key = sh_remote_public_key s,
            ss_sender = sender, ss_receiver = receiver, ss_opt_old_receiver = None, ss_opt_pending_rekey = None \<rparr>))))"

section \<open>The established channel\<close>

record handle_incoming_output =
  ho_rekey_occurred :: bool
  ho_opt_send_message :: "bytes option"
  ho_opt_incoming_message :: "bytes option"

text \<open>Two random bytes are the length, in big endian order; the assertion is on a constant.\<close>

definition gen_rand_padding :: "'d sc_rand \<Rightarrow> (bytes, sc_state_error) res" where
  "gen_rand_padding rnd =
     res_bind (unwrap (sr_padding_len rnd)) (\<lambda>len_bytes.
       let padding_len = unat (len_bytes ! 0) * 256 + unat (len_bytes ! 1)
       in unwrap (sr_padding rnd padding_len))"

definition encrypt_outgoing ::
  "'d channel_api \<Rightarrow> 'd sc_rand \<Rightarrow> channel_content \<Rightarrow> 'd sc_state \<Rightarrow> (bytes \<times> 'd sc_state, sc_state_error) res" where
  "encrypt_outgoing P rnd channel_content s =
     res_bind (gen_rand_padding rnd) (\<lambda>rand_padding.
       let ser = ser_message P \<lparr> cm_rand_padding = rand_padding, cm_content = channel_content \<rparr>;
           (enc, sender) = encrypt P ser (ss_sender s)
       in res_bind (unwrap enc) (\<lambda>enc_channel_message. Ok (enc_channel_message, s\<lparr> ss_sender := sender \<rparr>)))"

definition try_decrypt ::
  "'d channel_api \<Rightarrow> bytes \<Rightarrow> 'd sc_state \<Rightarrow> (bytes \<times> 'd sc_state, sc_state_error) res" where
  "try_decrypt P enc_data s =
     res_bind (case ss_opt_old_receiver s of
                 None \<Rightarrow> Ok (None, s)
               | Some old_receiver \<Rightarrow>
                   res_bind (decrypt P enc_data old_receiver) (\<lambda>(data, old_receiver).
                     Ok (data, s\<lparr> ss_opt_old_receiver := Some old_receiver \<rparr>))) (\<lambda>(by_old, s).
       case by_old of
         Some data \<Rightarrow> Ok (data, s)
       | None \<Rightarrow>
           res_bind (decrypt P enc_data (ss_receiver s)) (\<lambda>(data, receiver).
           res_bind (ok_or data DecryptionFailure) (\<lambda>data.
             Ok (data, s\<lparr> ss_receiver := receiver, ss_opt_old_receiver := None \<rparr>))))"

definition decrypt_incoming ::
  "'d channel_api \<Rightarrow> bytes \<Rightarrow> 'd sc_state \<Rightarrow> (channel_content \<times> 'd sc_state, sc_state_error) res" where
  "decrypt_incoming P enc_data s =
     res_bind (try_decrypt P enc_data s) (\<lambda>(data, s).
     res_bind (ok_or (deser_message P data) DeserializeError) (\<lambda>channel_message.
       Ok (cm_content channel_message, s)))"

definition create_outgoing ::
  "'d channel_api \<Rightarrow> 'd sc_rand \<Rightarrow> bytes \<Rightarrow> 'd sc_state \<Rightarrow> (bytes \<times> 'd sc_state, sc_state_error) res" where
  "create_outgoing P rnd plain_data s = encrypt_outgoing P rnd (UserContent plain_data) s"

definition create_rekey ::
  "'d channel_api \<Rightarrow> 'd sc_rand \<Rightarrow> 'd sc_state \<Rightarrow> (bytes \<times> 'd sc_state, sc_state_error) res" where
  "create_rekey P rnd s =
     (if ss_opt_pending_rekey s \<noteq> None then Err RekeyInProgress
      else
        res_bind (unwrap (sr_dh_private_key rnd)) (\<lambda>dh_private_key.
        res_bind (unwrap (sr_salt rnd)) (\<lambda>local_salt.
        res_bind (unwrap (dh_public P dh_private_key)) (\<lambda>dh_public_key.
          let s = s\<lparr> ss_opt_pending_rekey :=
                    Some \<lparr> pr_local_dh_private_key = dh_private_key, pr_local_salt = local_salt \<rparr> \<rparr>
          in encrypt_outgoing P rnd
               (RekeyContent \<lparr> rk_dh_public_key = dh_public_key, rk_key_salt = local_salt \<rparr>) s))))"

definition new_ciphers ::
  "'d channel_api \<Rightarrow> 'd \<Rightarrow> bytes \<Rightarrow> rekey \<Rightarrow> (encryptor \<times> decryptor, sc_state_error) res" where
  "new_ciphers P dh_private_key local_salt rekey =
     res_bind (ok_or (derive_symmetric_key P dh_private_key (rk_dh_public_key rekey) local_salt (rk_key_salt rekey))
                KeyDerivationFailure) (\<lambda>(send_key, recv_key).
     res_bind (ok_or (encryptor_new P send_key) CreateEncryptorFailure) (\<lambda>new_sender.
     res_bind (ok_or (decryptor_new P recv_key) CreateDecryptorFailure) (\<lambda>new_receiver.
       Ok (new_sender, new_receiver))))"

definition handle_incoming_rekey ::
  "'d channel_api \<Rightarrow> 'd sc_rand \<Rightarrow> rekey \<Rightarrow> 'd sc_state \<Rightarrow> (handle_incoming_output \<times> 'd sc_state, sc_state_error) res" where
  "handle_incoming_rekey P rnd rekey s =
     (case ss_opt_pending_rekey s of
        None \<Rightarrow>
          res_bind (unwrap (sr_dh_private_key rnd)) (\<lambda>dh_private_key.
          res_bind (unwrap (sr_salt rnd)) (\<lambda>local_salt.
          res_bind (unwrap (dh_public P dh_private_key)) (\<lambda>dh_public_key.
          res_bind (new_ciphers P dh_private_key local_salt rekey) (\<lambda>(new_sender, new_receiver).
            let s = s\<lparr> ss_opt_old_receiver := Some (ss_receiver s), ss_receiver := new_receiver \<rparr>
            in res_bind (encrypt_outgoing P rnd
                           (RekeyContent \<lparr> rk_dh_public_key = dh_public_key, rk_key_salt = local_salt \<rparr>) s) (\<lambda>(rekey_data, s).
                 Ok (\<lparr> ho_rekey_occurred = True, ho_opt_send_message = Some rekey_data, ho_opt_incoming_message = None \<rparr>,
                     s\<lparr> ss_sender := new_sender \<rparr>))))))
      | Some pending_rekey \<Rightarrow>
          res_bind (new_ciphers P (pr_local_dh_private_key pending_rekey) (pr_local_salt pending_rekey) rekey)
            (\<lambda>(new_sender, new_receiver).
             Ok (\<lparr> ho_rekey_occurred = True, ho_opt_send_message = None, ho_opt_incoming_message = None \<rparr>,
                 s\<lparr> ss_opt_pending_rekey := None, ss_sender := new_sender,
                    ss_opt_old_receiver := Some (ss_receiver s), ss_receiver := new_receiver \<rparr>)))"

definition handle_incoming ::
  "'d channel_api \<Rightarrow> 'd sc_rand \<Rightarrow> bytes \<Rightarrow> 'd sc_state \<Rightarrow> (handle_incoming_output \<times> 'd sc_state, sc_state_error) res" where
  "handle_incoming P rnd enc_data s =
     res_bind (decrypt_incoming P enc_data s) (\<lambda>(content, s).
       case content of
         RekeyContent rekey \<Rightarrow> handle_incoming_rekey P rnd rekey s
       | UserContent data \<Rightarrow>
           Ok (\<lparr> ho_rekey_occurred = False, ho_opt_send_message = None, ho_opt_incoming_message = Some data \<rparr>, s))"

section \<open>The task of a channel\<close>

datatype secure_channel_error =
    IdentityFailure | WriterError | ReaderClosed | DeserializeRandNonceError
  | HandleExchangeRandNonceError sc_state_error | DeserializeExchangeScStateError
  | HandleExchangeScStateError sc_state_error | UnexpectedRemotePublicKey | RequestTimerStreamError
  | HandleIncomingError | ScSpawnError

fun map_err :: "('e \<Rightarrow> 'f) \<Rightarrow> ('a, 'e) res \<Rightarrow> ('a, 'f) res" where
  "map_err f (Ok x) = Ok x"
| "map_err f (Err e) = Err (f e)"
| "map_err f Panic = Panic"

text \<open>
  The exchange. The two messages that are read are arguments, and whether the two messages that
  are written go through; the result has the two messages. Their serialization is an argument.
\<close>

record exchange_codec =
  ser_exchange_rand_nonce :: "exchange_rand_nonce \<Rightarrow> bytes"
  deser_exchange_rand_nonce :: "bytes \<Rightarrow> exchange_rand_nonce option"
  ser_exchange_dh :: "exchange_dh \<Rightarrow> bytes"
  deser_exchange_dh :: "bytes \<Rightarrow> exchange_dh option"

definition initial_exchange ::
  "'d channel_api \<Rightarrow> crypto_api \<Rightarrow> exchange_codec \<Rightarrow> public_key option \<Rightarrow> (bytes \<Rightarrow> signature option)
    \<Rightarrow> public_key option \<Rightarrow> bytes option \<Rightarrow> 'd sc_rand \<Rightarrow> bool \<Rightarrow> bool \<Rightarrow> bytes option \<Rightarrow> bytes option
    \<Rightarrow> ((bytes \<times> bytes) \<times> 'd sc_state, secure_channel_error) res" where
  "initial_exchange P C X request_public_key request_signature opt_expected_remote rand_value rnd
       write1 write2 read1 read2 =
     res_bind (ok_or request_public_key IdentityFailure) (\<lambda>local_public_key.
     res_bind (map_err HandleExchangeRandNonceError (sc_state_initial_new local_public_key rand_value)) (\<lambda>(initial, exchange).
     res_bind (if write1 then Ok () else Err WriterError) (\<lambda>_.
     res_bind (ok_or read1 ReaderClosed) (\<lambda>reader_message.
     res_bind (ok_or (deser_exchange_rand_nonce X reader_message) DeserializeRandNonceError) (\<lambda>remote_exchange.
     res_bind (map_err HandleExchangeRandNonceError
                 (handle_exchange_rand_nonce P request_signature rnd remote_exchange initial)) (\<lambda>(half, exchange_dh).
     res_bind (case opt_expected_remote of
                 Some expected_remote \<Rightarrow>
                   if expected_remote \<noteq> sh_remote_public_key half then Err UnexpectedRemotePublicKey else Ok ()
               | None \<Rightarrow> Ok ()) (\<lambda>_.
     res_bind (if write2 then Ok () else Err WriterError) (\<lambda>_.
     res_bind (ok_or read2 ReaderClosed) (\<lambda>reader_message.
     res_bind (ok_or (deser_exchange_dh X reader_message) DeserializeExchangeScStateError) (\<lambda>remote_exchange_dh.
     res_bind (map_err HandleExchangeScStateError (handle_exchange_dh P C remote_exchange_dh half)) (\<lambda>dh_state.
       Ok ((ser_exchange_rand_nonce X exchange, ser_exchange_dh X exchange_dh), dh_state))))))))))))"

datatype secure_channel_event = ScReader bytes | ScUser bytes | ScTimerTick | ScReceiverClosed

datatype sc_output = ToNetwork bytes | ToUser bytes

record 'd sc_loop =
  sl_dh_state :: "'d sc_state"
  sl_cur_ticks_to_rekey :: nat

text \<open>
  A round of the loop; the flags say whether the connection and the user take a message. A round
  that ends the loop returns no new state.
\<close>

definition send_to :: "bool \<Rightarrow> sc_output option \<Rightarrow> (sc_output list, secure_channel_error) res" where
  "send_to ok opt_message =
     (case opt_message of None \<Rightarrow> Ok [] | Some m \<Rightarrow> if ok then Ok [m] else Err WriterError)"

definition secure_channel_step ::
  "'d channel_api \<Rightarrow> nat \<Rightarrow> 'd sc_rand \<Rightarrow> bool \<Rightarrow> bool \<Rightarrow> secure_channel_event \<Rightarrow> 'd sc_loop
    \<Rightarrow> (sc_output list \<times> 'd sc_loop option, secure_channel_error) res" where
  "secure_channel_step P ticks_to_rekey rnd writer_ok user_ok event l =
     (case event of
        ScReader data \<Rightarrow>
          res_bind (map_err (\<lambda>_. HandleIncomingError) (handle_incoming P rnd data (sl_dh_state l))) (\<lambda>(hi_output, dh_state).
            let cur_ticks = (if ho_rekey_occurred hi_output then ticks_to_rekey else sl_cur_ticks_to_rekey l)
            in res_bind (send_to writer_ok (map_option ToNetwork (ho_opt_send_message hi_output))) (\<lambda>out1.
               res_bind (send_to user_ok (map_option ToUser (ho_opt_incoming_message hi_output))) (\<lambda>out2.
                 Ok (out1 @ out2, Some \<lparr> sl_dh_state = dh_state, sl_cur_ticks_to_rekey = cur_ticks \<rparr>))))
      | ScUser data \<Rightarrow>
          res_bind (map_err (\<lambda>_. HandleIncomingError) (create_outgoing P rnd data (sl_dh_state l))) (\<lambda>(enc_data, dh_state).
          res_bind (send_to writer_ok (Some (ToNetwork enc_data))) (\<lambda>out.
            Ok (out, Some (l\<lparr> sl_dh_state := dh_state \<rparr>))))
      | ScTimerTick \<Rightarrow>
          if 0 < sl_cur_ticks_to_rekey l
          then Ok ([], Some (l\<lparr> sl_cur_ticks_to_rekey := sl_cur_ticks_to_rekey l - 1 \<rparr>))
          else
            (case create_rekey P rnd (sl_dh_state l) of
               Ok (enc_data, dh_state) \<Rightarrow>
                 res_bind (send_to writer_ok (Some (ToNetwork enc_data))) (\<lambda>out.
                   Ok (out, Some \<lparr> sl_dh_state = dh_state, sl_cur_ticks_to_rekey = ticks_to_rekey \<rparr>))
             | Err RekeyInProgress \<Rightarrow> Ok ([], Some l)
             | Err _ \<Rightarrow> Panic
             | Panic \<Rightarrow> Panic)
      | ScReceiverClosed \<Rightarrow> Ok ([], None))"

text \<open>The loop, with what was sent before it ended.\<close>

fun secure_channel_loop ::
  "'d channel_api \<Rightarrow> nat \<Rightarrow> (secure_channel_event \<times> 'd sc_rand \<times> bool \<times> bool) list \<Rightarrow> 'd sc_loop
    \<Rightarrow> sc_output list \<times> (unit, secure_channel_error) res" where
  "secure_channel_loop P ticks_to_rekey [] l = ([], Ok ())"
| "secure_channel_loop P ticks_to_rekey ((event, rnd, writer_ok, user_ok) # events) l =
     (case secure_channel_step P ticks_to_rekey rnd writer_ok user_ok event l of
        Ok (out, None) \<Rightarrow> (out, Ok ())
      | Ok (out, Some l) \<Rightarrow>
          (let (out', result) = secure_channel_loop P ticks_to_rekey events l in (out @ out', result))
      | Err e \<Rightarrow> ([], Err e)
      | Panic \<Rightarrow> ([], Panic))"

end
