(* ===== verification/ChannelRun.thy ===== *)
theory ChannelRun
  imports SecureChannel "HOL-Library.Sublist"
begin

text \<open>
  Two ends of a secure channel with messages in transit. Whatever the order of sending, ticks
  and deliveries, with any number of rekeyings from either side, also at the same time, every
  message can be decrypted when it arrives, and user data arrive in order.

  The number of rekeyings an end has completed is its epoch; the key of a direction in an epoch
  comes from the contributions (a private key and a salt) of both ends to that rekeying.
\<close>

section \<open>Two ends\<close>

record 'd chan_end =
  ce_loop :: "'d sc_loop"
  ce_inbox :: "bytes list"
  ce_sent :: "bytes list"
  ce_received :: "bytes list"

datatype 'd chan_event = CeUser bytes "'d sc_rand" | CeTick "'d sc_rand" | CeDeliver "'d sc_rand"

fun event_rand :: "'d chan_event \<Rightarrow> 'd sc_rand" where
  "event_rand (CeUser data rnd) = rnd"
| "event_rand (CeTick rnd) = rnd"
| "event_rand (CeDeliver rnd) = rnd"

definition new_end :: "nat \<Rightarrow> 'd sc_state \<Rightarrow> 'd chan_end" where
  "new_end ticks s =
     \<lparr> ce_loop = \<lparr> sl_dh_state = s, sl_cur_ticks_to_rekey = ticks \<rparr>, ce_inbox = [], ce_sent = [], ce_received = [] \<rparr>"

fun to_network :: "sc_output list \<Rightarrow> bytes list" where
  "to_network [] = []"
| "to_network (ToNetwork m # out) = m # to_network out"
| "to_network (ToUser m # out) = to_network out"

fun to_user :: "sc_output list \<Rightarrow> bytes list" where
  "to_user [] = []"
| "to_user (ToNetwork m # out) = to_user out"
| "to_user (ToUser m # out) = m # to_user out"

text \<open>An end handles an event by a round of its task; a delivery takes the oldest message in transit.\<close>

definition end_step ::
  "'d channel_api \<Rightarrow> nat \<Rightarrow> 'd chan_event \<Rightarrow> 'd chan_end \<Rightarrow> (bytes list \<times> 'd chan_end, secure_channel_error) res" where
  "end_step P ticks event x =
     (let (opt_input, x') =
        (case event of
           CeUser data rnd \<Rightarrow> (Some (ScUser data), x\<lparr> ce_sent := ce_sent x @ [data] \<rparr>)
         | CeTick rnd \<Rightarrow> (Some ScTimerTick, x)
         | CeDeliver rnd \<Rightarrow>
             (case ce_inbox x of [] \<Rightarrow> (None, x) | m # ms \<Rightarrow> (Some (ScReader m), x\<lparr> ce_inbox := ms \<rparr>)))
      in case opt_input of
           None \<Rightarrow> Ok ([], x')
         | Some input \<Rightarrow>
             res_bind (secure_channel_step P ticks (event_rand event) True True input (ce_loop x')) (\<lambda>(out, next).
             res_bind (unwrap next) (\<lambda>l.
               Ok (to_network out, x'\<lparr> ce_loop := l, ce_received := ce_received x' @ to_user out \<rparr>))))"

fun chan_run ::
  "'d channel_api \<Rightarrow> nat \<Rightarrow> (bool \<times> 'd chan_event) list \<Rightarrow> 'd chan_end \<times> 'd chan_end
    \<Rightarrow> ('d chan_end \<times> 'd chan_end, secure_channel_error) res" where
  "chan_run P ticks [] (a, b) = Ok (a, b)"
| "chan_run P ticks ((True, event) # events) (a, b) =
     res_bind (end_step P ticks event a) (\<lambda>(out, a). chan_run P ticks events (a, b\<lparr> ce_inbox := ce_inbox b @ out \<rparr>))"
| "chan_run P ticks ((False, event) # events) (a, b) =
     res_bind (end_step P ticks event b) (\<lambda>(out, b). chan_run P ticks events (a\<lparr> ce_inbox := ce_inbox a @ out \<rparr>, b))"

section \<open>What is assumed of the primitives\<close>

text \<open>
  Both sides of a Diffie-Hellman agreement compute the same secret; derived keys are keys of the
  cipher and keys of different salts are different; what was sealed is opened by the same key
  and nonce, and by no other key; a serialized message is read back.
\<close>

definition dh_ok :: "'d channel_api \<Rightarrow> bool" where
  "dh_ok P \<longleftrightarrow> (\<forall>d. dh_public P d \<noteq> None)
   \<and> (\<forall>d d' p p'. dh_public P d = Some p \<and> dh_public P d' = Some p' \<longrightarrow>
        (\<exists>shared. dh_agree P d p' = Some shared \<and> dh_agree P d' p = Some shared \<and> length shared = SHARED_SECRET_LEN))"

definition kdf_ok :: "'d channel_api \<Rightarrow> bool" where
  "kdf_ok P \<longleftrightarrow> (\<forall>salt shared. aead_key_ok P (hkdf P salt shared))
   \<and> (\<forall>salt salt' shared shared'. hkdf P salt shared = hkdf P salt' shared' \<longrightarrow> salt = salt')"

definition aead_ok :: "'d channel_api \<Rightarrow> bool" where
  "aead_ok P \<longleftrightarrow> (\<forall>k n m. \<exists>c. aead_seal P k n m = Some c \<and> aead_open P k n c = Some m
     \<and> (\<forall>k' n'. k' \<noteq> k \<longrightarrow> aead_open P k' n' c = None))"

definition primitives_ok :: "'d channel_api \<Rightarrow> bool" where
  "primitives_ok P \<longleftrightarrow> dh_ok P \<and> kdf_ok P \<and> aead_ok P \<and> (\<forall>m. deser_message P (ser_message P m) = Some m)"

lemma primitive_public: "primitives_ok P \<Longrightarrow> \<exists>p. dh_public P d = Some p"
  by (simp add: primitives_ok_def dh_ok_def)

lemma primitive_agree:
  "primitives_ok P \<Longrightarrow> dh_public P d = Some p \<Longrightarrow> dh_public P d' = Some p' \<Longrightarrow>
   \<exists>shared. dh_agree P d p' = Some shared \<and> dh_agree P d' p = Some shared \<and> length shared = SHARED_SECRET_LEN"
  unfolding primitives_ok_def dh_ok_def by blast

lemma primitive_key: "primitives_ok P \<Longrightarrow> aead_key_ok P (hkdf P salt shared)"
  by (simp add: primitives_ok_def kdf_ok_def)

lemma primitive_salt: "primitives_ok P \<Longrightarrow> hkdf P salt shared = hkdf P salt' shared' \<Longrightarrow> salt = salt'"
  unfolding primitives_ok_def kdf_ok_def by blast

lemma primitive_seal:
  "primitives_ok P \<Longrightarrow> \<exists>c. aead_seal P k n m = Some c \<and> aead_open P k n c = Some m
     \<and> (\<forall>k' n'. k' \<noteq> k \<longrightarrow> aead_open P k' n' c = None)"
  by (simp add: primitives_ok_def aead_ok_def)

lemma primitive_message: "primitives_ok P \<Longrightarrow> deser_message P (ser_message P cm) = Some cm"
  by (simp add: primitives_ok_def)

definition rand_ok :: "'d sc_rand \<Rightarrow> bool" where
  "rand_ok rnd = (sr_dh_private_key rnd \<noteq> None \<and> sr_salt rnd \<noteq> None \<and> sr_padding_len rnd \<noteq> None
     \<and> (\<forall>n. sr_padding rnd n \<noteq> None))"

section \<open>What is in transit can be read\<close>

type_synonym 'd contributions = "('d \<times> bytes) list"

type_synonym item = "nat \<times> nat \<times> channel_content"

definition rekey_of :: "'d channel_api \<Rightarrow> 'd \<times> bytes \<Rightarrow> rekey" where
  "rekey_of P x = \<lparr> rk_dh_public_key = the (dh_public P (fst x)), rk_key_salt = snd x \<rparr>"

text \<open>
  The messages in transit, each with the epoch and the number of its nonce, for a receiver in
  epoch \<open>c\<close> that expects nonce \<open>n\<close>, or nonce \<open>old\<close> of the epoch before. When they are read, the
  receiver fits the sender, which is in epoch \<open>e\<close> and uses nonce \<open>m\<close> next. \<open>L\<close> are the contributions
  that the sender has made.
\<close>

fun reads :: "'d channel_api \<Rightarrow> 'd contributions \<Rightarrow> nat \<Rightarrow> nat \<Rightarrow> nat option \<Rightarrow> item list \<Rightarrow> nat \<Rightarrow> nat \<Rightarrow> bool" where
  "reads P L c n old [] e m =
     (Suc c = length L \<and> (e = c \<and> m = n \<or> Suc e = c \<and> n = 0 \<and> old = Some m))"
| "reads P L c n old ((e', m', content) # q) e m =
     (if e' = c
      then m' = n \<and> (case content of
             UserContent data \<Rightarrow> reads P L c (Suc n) None q e m
           | RekeyContent r \<Rightarrow> Suc c < length L \<and> r = rekey_of P (L ! Suc c) \<and> reads P L (Suc c) 0 (Some (Suc n)) q e m)
      else Suc e' = c \<and> old = Some m' \<and> (\<exists>data. content = UserContent data) \<and> reads P L c n (Some (Suc m')) q e m)"

lemma reads_length: "reads P L c n old q e m \<Longrightarrow> c < length L"
  by (induction P L c n old q e m rule: reads.induct) (auto split: if_splits channel_content.splits)

lemma reads_user:
  "reads P L c n old q e m \<Longrightarrow> reads P L c n old (q @ [(e, m, UserContent data)]) e (Suc m)"
  by (induction P L c n old q e m rule: reads.induct) (auto split: if_splits channel_content.splits)

lemma reads_rekey:
  assumes "reads P L c n old q e m" "Suc e = length L"
  shows "reads P (L @ [x]) c n old (q @ [(e, m, RekeyContent (rekey_of P x))]) e (Suc m)"
  using assms
  by (induction P L c n old q e m rule: reads.induct)
     (auto simp: nth_append split: if_splits channel_content.splits)

lemma reads_switch:
  assumes "reads P L c n old q e m" "Suc (Suc e) = length L"
  shows "reads P L c n old q (Suc e) 0"
  using assms
  by (induction P L c n old q e m rule: reads.induct) (auto split: if_splits channel_content.splits)

section \<open>Keys and nonces\<close>

definition nonce :: "nat \<Rightarrow> bytes" where
  "nonce n = (increase_nonce ^^ n) nonce_counter_new"

lemma nonce_0: "nonce_counter_new = nonce 0"
  by (simp add: nonce_def)

lemma nonce_Suc [simp]: "increase_nonce (nonce n) = nonce (Suc n)"
  by (simp add: nonce_def)

lemma length_increase_carry: "length (increase_nonce_carry c bs) = length bs"
  by (induction c bs rule: increase_nonce_carry.induct) (simp_all add: Let_def)

lemma length_nonce [simp]: "length (nonce n) = ENC_NONCE_LEN"
  by (induction n) (simp_all add: nonce_def nonce_counter_new_def increase_nonce_def length_increase_carry)

text \<open>A nonce is a number in little endian order, and increasing it adds one.\<close>

fun le_value :: "bytes \<Rightarrow> int" where
  "le_value [] = 0"
| "le_value (b # bs) = uint b + 256 * le_value bs"

lemma le_value_increase:
  "uint c \<le> 1 \<Longrightarrow> le_value (increase_nonce_carry c bs) = (le_value bs + uint c) mod 256 ^ length bs"
proof (induction c bs rule: increase_nonce_carry.induct)
  case (2 c b bs)
  let ?c = "c + ucast b"
  have b: "uint (ucast b :: 16 word) = uint b" "uint b < 256"
    using uint_lt2p [of b] by (simp_all add: unsigned_ucast_eq take_bit_int_eq_self)
  then have "(uint c + uint b) mod 2 ^ 16 = uint c + uint b"
    using 2(2) by (intro mod_pos_pos_trivial) simp_all
  then have c: "uint ?c = uint c + uint b" by (simp add: uint_word_ariths b(1))
  have low: "uint (ucast ?c :: u8) = uint ?c mod 256"
    by (simp add: unsigned_ucast_eq take_bit_eq_mod)
  have high: "uint (drop_bit 8 ?c) = uint ?c div 256"
    by (simp add: drop_bit_eq_div uint_div_distrib)
  have "uint (drop_bit 8 ?c) \<le> 1" using c b 2(2) unfolding high by linarith
  from 2(1) [OF refl this] have IH: "le_value (increase_nonce_carry (drop_bit 8 ?c) bs) = (le_value bs + uint ?c div 256) mod 256 ^ length bs"
    by (simp add: high)
  let ?t = "le_value (b # bs) + uint c"
  have "?t mod (256 * 256 ^ length bs) = 256 * (?t div 256 mod 256 ^ length bs) + ?t mod 256"
    by (rule zmod_zmult2_eq) simp
  moreover have t: "?t = uint ?c + 256 * le_value bs" unfolding c by simp
  have "?t div 256 = le_value bs + uint ?c div 256" "?t mod 256 = uint ?c mod 256" unfolding t by simp_all
  ultimately show ?case using IH low by (simp add: Let_def)
qed simp

lemma le_value_nonce: "le_value (nonce n) = int n mod 2 ^ 96"
proof (induction n)
  case 0
  then show ?case by (simp add: nonce_def nonce_counter_new_def ENC_NONCE_LEN_def numeral_eq_Suc)
next
  case (Suc n)
  have "le_value (nonce (Suc n)) = (le_value (nonce n) + 1) mod 256 ^ length (nonce n)"
    using le_value_increase [of 1 "nonce n"] by (simp add: increase_nonce_def flip: nonce_Suc)
  also have "\<dots> = (int n mod 2 ^ 96 + 1) mod 2 ^ 96" unfolding Suc by (simp add: ENC_NONCE_LEN_def)
  finally show ?case by (simp add: mod_simps add.commute)
qed

text \<open>
  An encryptor does not use a nonce twice before it has sealed \<open>2 ^ 96\<close> messages: the nonce of
  the n-th message is n in little endian order.
\<close>

theorem nonces_do_not_repeat:
  assumes "n < 2 ^ 96" and "m < 2 ^ 96" and "n \<noteq> m"
  shows "(increase_nonce ^^ n) nonce_counter_new \<noteq> (increase_nonce ^^ m) nonce_counter_new"
proof
  assume "(increase_nonce ^^ n) nonce_counter_new = (increase_nonce ^^ m) nonce_counter_new"
  then have "int n mod 2 ^ 96 = int m mod 2 ^ 96" using le_value_nonce [of n] le_value_nonce [of m] by (simp add: nonce_def)
  moreover have "int n < 2 ^ 96" "int m < 2 ^ 96" using assms(1,2) by simp_all
  ultimately show False using assms(3) by simp
qed

theorem nonces_do_not_repeat_witness:
  "(increase_nonce ^^ 1) nonce_counter_new \<noteq> (increase_nonce ^^ 257) nonce_counter_new"
  using nonces_do_not_repeat [of 1 257] by simp

definition shared_of :: "'d channel_api \<Rightarrow> 'd \<Rightarrow> 'd \<Rightarrow> bytes" where
  "shared_of P d d' = the (dh_agree P d (the (dh_public P d')))"

text \<open>The key of the direction from the maker of \<open>L\<close> to the maker of \<open>M\<close> in an epoch.\<close>

definition epoch_key :: "'d channel_api \<Rightarrow> 'd contributions \<Rightarrow> 'd contributions \<Rightarrow> nat \<Rightarrow> bytes" where
  "epoch_key P L M j = hkdf P (snd (L ! j)) (shared_of P (fst (L ! j)) (fst (M ! j)))"

lemma shared_sym: "primitives_ok P \<Longrightarrow> shared_of P d d' = shared_of P d' d"
  using primitive_public [of P d] primitive_public [of P d'] primitive_agree [of P d _ d']
  by (fastforce simp: shared_of_def)

lemma epoch_key_append:
  "j < length L \<Longrightarrow> epoch_key P (L @ X) M j = epoch_key P L M j"
  "j < length M \<Longrightarrow> epoch_key P L (M @ X) j = epoch_key P L M j"
  by (simp_all add: epoch_key_def nth_append)

lemma epoch_keys_differ:
  assumes "primitives_ok P" "distinct (map snd L)" "i < length L" "j < length L" "i \<noteq> j"
  shows "epoch_key P L M i \<noteq> epoch_key P L M j"
proof -
  have "map snd L ! i \<noteq> map snd L ! j" using assms(2-5) nth_eq_iff_index_eq by fastforce
  then have "snd (L ! i) \<noteq> snd (L ! j)" using assms(3,4) by simp
  then show ?thesis using primitive_salt [OF assms(1)] unfolding epoch_key_def by blast
qed

lemma derive_keys:
  assumes "primitives_ok P" "j < length L" "j < length M"
  shows "derive_symmetric_key P (fst (L ! j)) (rk_dh_public_key (rekey_of P (M ! j))) (snd (L ! j)) (rk_key_salt (rekey_of P (M ! j)))
    = Some (epoch_key P L M j, epoch_key P M L j)"
proof -
  obtain p p' where p: "dh_public P (fst (L ! j)) = Some p" "dh_public P (fst (M ! j)) = Some p'"
    using primitive_public [OF assms(1)] by blast
  then obtain sh where sh: "dh_agree P (fst (L ! j)) p' = Some sh" "dh_agree P (fst (M ! j)) p = Some sh"
      "length sh = SHARED_SECRET_LEN"
    using primitive_agree [OF assms(1)] by blast
  then show ?thesis using p
    by (simp add: derive_symmetric_key_def rekey_of_def epoch_key_def shared_of_def)
qed

definition cipher_at :: "bytes \<Rightarrow> nat \<Rightarrow> decryptor" where
  "cipher_at k n = \<lparr> de_opening_key = k, de_nonce_counter = nonce n \<rparr>"

definition sealer_at :: "bytes \<Rightarrow> nat \<Rightarrow> encryptor" where
  "sealer_at k n = \<lparr> en_sealing_key = k, en_nonce_counter = nonce n \<rparr>"

lemma new_ciphers_epoch:
  assumes "primitives_ok P" "j < length L" "j < length M"
  shows "new_ciphers P (fst (L ! j)) (snd (L ! j)) (rekey_of P (M ! j)) =
    Ok (sealer_at (epoch_key P L M j) 0, cipher_at (epoch_key P M L j) 0)"
proof -
  have "aead_key_ok P (epoch_key P L M j)" "aead_key_ok P (epoch_key P M L j)"
    using primitive_key [OF assms(1)] by (simp_all add: epoch_key_def)
  then show ?thesis
    by (simp add: new_ciphers_def derive_keys [OF assms] encryptor_new_def decryptor_new_def nonce_0
        sealer_at_def cipher_at_def)
qed

text \<open>The bytes of a message in transit.\<close>

definition frame :: "'d channel_api \<Rightarrow> bytes \<Rightarrow> nat \<Rightarrow> bytes \<Rightarrow> channel_content \<Rightarrow> bytes" where
  "frame P k n pad content =
     nonce n @ the (aead_seal P k (nonce n) (ser_message P \<lparr> cm_rand_padding = pad, cm_content = content \<rparr>))"

lemma encrypt_frame:
  assumes "primitives_ok P" "rand_ok rnd" "ss_sender s = sealer_at k n"
  shows "\<exists>pad. encrypt_outgoing P rnd content s = Ok (frame P k n pad content, s\<lparr> ss_sender := sealer_at k (Suc n) \<rparr>)"
proof -
  obtain bs where bs: "sr_padding_len rnd = Some bs" using assms(2) by (auto simp: rand_ok_def)
  obtain pad where "sr_padding rnd (unat (bs ! 0) * 256 + unat (bs ! 1)) = Some pad"
    using assms(2) by (fastforce simp: rand_ok_def)
  with bs have pad: "gen_rand_padding rnd = Ok pad" by (simp add: gen_rand_padding_def Let_def)
  let ?m = "ser_message P \<lparr> cm_rand_padding = pad, cm_content = content \<rparr>"
  obtain c where "aead_seal P k (nonce n) ?m = Some c" using primitive_seal [OF assms(1)] by blast
  then show ?thesis using pad
    by (auto simp: encrypt_outgoing_def encrypt_def next_nonce_def assms(3) sealer_at_def frame_def intro!: exI [of _ pad])
qed

lemma decrypt_frame:
  assumes "primitives_ok P"
  shows "decrypt P (frame P k n pad content) (cipher_at k n) =
      Ok (Some (ser_message P \<lparr> cm_rand_padding = pad, cm_content = content \<rparr>), cipher_at k (Suc n))"
    and "k' \<noteq> k \<Longrightarrow> decrypt P (frame P k n pad content) (cipher_at k' n') = Ok (None, cipher_at k' n')"
proof -
  let ?m = "ser_message P \<lparr> cm_rand_padding = pad, cm_content = content \<rparr>"
  obtain c where c: "aead_seal P k (nonce n) ?m = Some c" "aead_open P k (nonce n) c = Some ?m"
      "\<forall>k' n'. k' \<noteq> k \<longrightarrow> aead_open P k' n' c = None"
    using primitive_seal [OF assms] by blast
  then show "decrypt P (frame P k n pad content) (cipher_at k n) = Ok (Some ?m, cipher_at k (Suc n))"
    by (simp add: decrypt_def frame_def cipher_at_def next_nonce_def Let_def)
  show "decrypt P (frame P k n pad content) (cipher_at k' n') = Ok (None, cipher_at k' n')" if "k' \<noteq> k"
    using c that by (simp add: decrypt_def frame_def cipher_at_def Let_def)
qed

section \<open>One direction\<close>

definition wire :: "'d channel_api \<Rightarrow> 'd contributions \<Rightarrow> 'd contributions \<Rightarrow> item \<Rightarrow> bytes \<Rightarrow> bool" where
  "wire P L M it b \<longleftrightarrow>
     (case it of (e, m, content) \<Rightarrow>
        e < length L \<and> e < length M \<and> (\<exists>pad. b = frame P (epoch_key P L M e) m pad content))"

fun user_data :: "item list \<Rightarrow> bytes list" where
  "user_data [] = []"
| "user_data ((e, m, UserContent data) # q) = data # user_data q"
| "user_data ((e, m, RekeyContent r) # q) = user_data q"

lemma user_data_append [simp]: "user_data (q @ q') = user_data q @ user_data q'"
  by (induction q rule: user_data.induct) simp_all

text \<open>
  A sender in epoch \<open>e\<close>, a receiver in epoch \<open>c\<close>, the bytes in transit and the user data in them.
\<close>

definition flows ::
  "'d channel_api \<Rightarrow> 'd contributions \<Rightarrow> 'd contributions \<Rightarrow> nat \<Rightarrow> nat \<Rightarrow> encryptor \<Rightarrow> decryptor \<Rightarrow> decryptor option
    \<Rightarrow> bytes list \<Rightarrow> bytes list \<Rightarrow> bool" where
  "flows P L M e c sender receiver old_receiver inbox data \<longleftrightarrow>
     (\<exists>q n old m. reads P L c n old q e m \<and> list_all2 (wire P L M) q inbox
        \<and> sender = sealer_at (epoch_key P L M e) m \<and> receiver = cipher_at (epoch_key P L M c) n
        \<and> old_receiver = map_option (cipher_at (epoch_key P L M (c - 1))) old \<and> (old \<noteq> None \<longrightarrow> 0 < c)
        \<and> data = user_data q)"

lemma flows_user:
  assumes "flows P L M e c sender receiver old inbox data" "e < length L" "e < length M"
  obtains m where "sender = sealer_at (epoch_key P L M e) m"
    "\<And>pad d. flows P L M e c (sealer_at (epoch_key P L M e) (Suc m)) receiver old
       (inbox @ [frame P (epoch_key P L M e) m pad (UserContent d)]) (data @ [d])"
proof -
  obtain q n o' m where q: "reads P L c n o' q e m" "list_all2 (wire P L M) q inbox" "sender = sealer_at (epoch_key P L M e) m"
      "receiver = cipher_at (epoch_key P L M c) n" "old = map_option (cipher_at (epoch_key P L M (c - 1))) o'"
      "o' \<noteq> None \<longrightarrow> 0 < c" "data = user_data q"
    using assms(1) unfolding flows_def by blast
  show ?thesis
  proof (rule that [OF q(3)])
    fix pad d
    have "list_all2 (wire P L M) (q @ [(e, m, UserContent d)]) (inbox @ [frame P (epoch_key P L M e) m pad (UserContent d)])"
      using q(2) assms(2,3) by (auto simp: wire_def intro!: list_all2_appendI)
    then show "flows P L M e c (sealer_at (epoch_key P L M e) (Suc m)) receiver old
        (inbox @ [frame P (epoch_key P L M e) m pad (UserContent d)]) (data @ [d])"
      unfolding flows_def using reads_user [OF q(1), of d] q(4-7)
      by (intro exI [of _ "q @ [(e, m, UserContent d)]"]) auto
  qed
qed

lemma wire_append:
  assumes "list_all2 (wire P L M) q inbox"
  shows "list_all2 (wire P (L @ X) M) q inbox" "list_all2 (wire P L (M @ X)) q inbox"
  using assms by (auto elim!: list_all2_mono simp: wire_def epoch_key_append)

lemma flows_rekey:
  assumes "flows P L M e c sender receiver old inbox data" "Suc e = length L" "e < length M" "c < length L"
  obtains m where "sender = sealer_at (epoch_key P L M e) m"
    "\<And>pad x. flows P (L @ [x]) M e c (sealer_at (epoch_key P (L @ [x]) M e) (Suc m)) receiver old
       (inbox @ [frame P (epoch_key P L M e) m pad (RekeyContent (rekey_of P x))]) data"
proof -
  obtain q n o' m where q: "reads P L c n o' q e m" "list_all2 (wire P L M) q inbox" "sender = sealer_at (epoch_key P L M e) m"
      "receiver = cipher_at (epoch_key P L M c) n" "old = map_option (cipher_at (epoch_key P L M (c - 1))) o'"
      "o' \<noteq> None \<longrightarrow> 0 < c" "data = user_data q"
    using assms(1) unfolding flows_def by blast
  show ?thesis
  proof (rule that [OF q(3)])
    fix pad x
    let ?it = "(e, m, RekeyContent (rekey_of P x))"
    have "list_all2 (wire P (L @ [x]) M) (q @ [?it]) (inbox @ [frame P (epoch_key P L M e) m pad (RekeyContent (rekey_of P x))])"
      using wire_append(1) [OF q(2), of "[x]"] assms(2,3) by (auto simp: wire_def epoch_key_append intro!: list_all2_appendI)
    then show "flows P (L @ [x]) M e c (sealer_at (epoch_key P (L @ [x]) M e) (Suc m)) receiver old
        (inbox @ [frame P (epoch_key P L M e) m pad (RekeyContent (rekey_of P x))]) data"
      unfolding flows_def using reads_rekey [OF q(1) assms(2), of x] q(4-7) assms(4)
      by (intro exI [of _ "q @ [?it]"]) (auto simp: epoch_key_append)
  qed
qed

lemma flows_switch:
  assumes "flows P L M e c sender receiver old inbox data" "Suc (Suc e) = length L"
  shows "flows P L M (Suc e) c (sealer_at (epoch_key P L M (Suc e)) 0) receiver old inbox data"
  using assms(1) reads_switch [OF _ assms(2)] unfolding flows_def by blast

lemma flows_peer_contributes:
  assumes "flows P M L e c sender receiver old inbox data" "e < length L" "c < length L"
  shows "flows P M (L @ [x]) e c sender receiver old inbox data"
  using assms wire_append(2) [of P M L _ inbox "[x]"] unfolding flows_def
  by (fastforce simp: epoch_key_append)

lemma flows_length: "flows P L M e c sender receiver old inbox data \<Longrightarrow> c < length L"
  unfolding flows_def using reads_length by blast

lemma flows_nothing: "flows P L M e c sender receiver old [] data \<Longrightarrow> data = []"
  by (auto simp: flows_def)

text \<open>The oldest message in transit is decrypted, by the receiver or by the one it replaced.\<close>

lemma decrypt_current:
  assumes "primitives_ok P" "ss_receiver s = cipher_at k n"
    and "\<And>d. ss_opt_old_receiver s = Some d \<Longrightarrow> \<exists>k' n'. d = cipher_at k' n' \<and> k' \<noteq> k"
  shows "decrypt_incoming P (frame P k n pad content) s =
    Ok (content, s\<lparr> ss_receiver := cipher_at k (Suc n), ss_opt_old_receiver := None \<rparr>)"
proof (cases "ss_opt_old_receiver s")
  case None
  then show ?thesis using assms(2)
    by (simp add: decrypt_incoming_def try_decrypt_def decrypt_frame(1) [OF assms(1)] primitive_message [OF assms(1)])
next
  case (Some d)
  then obtain k' n' where d: "d = cipher_at k' n'" "k' \<noteq> k" using assms(3) by blast
  then show ?thesis using assms(2) Some
    by (simp add: decrypt_incoming_def try_decrypt_def decrypt_frame(1) [OF assms(1)] decrypt_frame(2) [OF assms(1) d(2)] primitive_message [OF assms(1)])
qed

lemma decrypt_old:
  assumes "primitives_ok P" "ss_opt_old_receiver s = Some (cipher_at k n)"
  shows "decrypt_incoming P (frame P k n pad content) s =
    Ok (content, s\<lparr> ss_opt_old_receiver := Some (cipher_at k (Suc n)) \<rparr>)"
  using assms
  by (simp add: decrypt_incoming_def try_decrypt_def decrypt_frame(1) [OF assms(1)] primitive_message [OF assms(1)])

lemma flows_receive:
  assumes P: "primitives_ok P" "distinct (map snd L)"
    and fl: "flows P L M e c sender (ss_receiver s) (ss_opt_old_receiver s) (b # inbox) data"
    and len: "e < length M" "c < length M"
  obtains (user) s' d data' where "decrypt_incoming P b s = Ok (UserContent d, s')" "data = d # data'"
      "flows P L M e c sender (ss_receiver s') (ss_opt_old_receiver s') inbox data'"
      "s' = s\<lparr> ss_receiver := ss_receiver s', ss_opt_old_receiver := ss_opt_old_receiver s' \<rparr>"
  | (rekey) s' where "decrypt_incoming P b s = Ok (RekeyContent (rekey_of P (L ! Suc c)), s')" "Suc c < length L"
      "\<And>X. flows P L (M @ X) e (Suc c) sender (cipher_at (epoch_key P L (M @ X) (Suc c)) 0) (Some (ss_receiver s')) inbox data"
      "s' = s\<lparr> ss_receiver := ss_receiver s', ss_opt_old_receiver := None \<rparr>"
proof -
  obtain it q n old m where q: "reads P L c n old (it # q) e m" "wire P L M it b" "list_all2 (wire P L M) q inbox"
      "sender = sealer_at (epoch_key P L M e) m" "ss_receiver s = cipher_at (epoch_key P L M c) n"
      "ss_opt_old_receiver s = map_option (cipher_at (epoch_key P L M (c - 1))) old" "old \<noteq> None \<longrightarrow> 0 < c"
      "data = user_data (it # q)"
    using fl unfolding flows_def by (auto simp: list_all2_Cons2)
  obtain e' m' content pad where it: "it = (e', m', content)" "b = frame P (epoch_key P L M e') m' pad content"
    using q(2) by (cases it) (auto simp: wire_def)
  have c: "c < length L" using reads_length [OF q(1)] .
  show ?thesis
  proof (cases "e' = c")
    case True
    have "\<exists>k' n'. d = cipher_at k' n' \<and> k' \<noteq> epoch_key P L M c" if "ss_opt_old_receiver s = Some d" for d
    proof -
      from that q(6,7) obtain o' where "d = cipher_at (epoch_key P L M (c - 1)) o'" "0 < c" by auto
      moreover from this have "epoch_key P L M (c - 1) \<noteq> epoch_key P L M c"
        using c by (intro epoch_keys_differ [OF P]) auto
      ultimately show ?thesis by blast
    qed
    note dec = decrypt_current [OF P(1) q(5) this, of pad content]
    let ?s = "s\<lparr> ss_receiver := cipher_at (epoch_key P L M c) (Suc n), ss_opt_old_receiver := None \<rparr>"
    show ?thesis
    proof (cases content)
      case (UserContent d)
      have "flows P L M e c sender (ss_receiver ?s) (ss_opt_old_receiver ?s) inbox (user_data q)"
        unfolding flows_def using q True it UserContent
        by (intro exI [of _ q] exI [of _ "Suc n"] exI [of _ None] exI [of _ m]) simp
      then show ?thesis using user [of d ?s "user_data q"] dec q True it UserContent by simp
    next
      case (RekeyContent r)
      then have "reads P L (Suc c) 0 (Some (Suc n)) q e m" "Suc c < length L" "r = rekey_of P (L ! Suc c)" "m' = n"
        using q(1) True it by simp_all
      moreover from this have "flows P L (M @ X) e (Suc c) sender (cipher_at (epoch_key P L (M @ X) (Suc c)) 0)
          (Some (ss_receiver ?s)) inbox data" for X
        unfolding flows_def using q it RekeyContent len wire_append(2) [OF q(3), of X]
        by (intro exI [of _ q] exI [of _ 0] exI [of _ "Some (Suc n)"] exI [of _ m]) (simp add: epoch_key_append)
      ultimately show ?thesis using rekey [of ?s] dec True it RekeyContent by simp
    qed
  next
    case False
    then obtain d where d: "Suc e' = c" "old = Some m'" "content = UserContent d" "reads P L c n (Some (Suc m')) q e m"
      using q(1) it by auto
    let ?s = "s\<lparr> ss_opt_old_receiver := Some (cipher_at (epoch_key P L M e') (Suc m')) \<rparr>"
    have "c - 1 = e'" using d(1) by simp
    then have "ss_opt_old_receiver s = Some (cipher_at (epoch_key P L M e') m')" using q(6) d(2) by simp
    from decrypt_old [OF P(1) this, of pad content] it
    have dec: "decrypt_incoming P b s = Ok (UserContent d, ?s)" using d(3) by simp
    have "flows P L M e c sender (ss_receiver ?s) (ss_opt_old_receiver ?s) inbox (user_data q)"
      unfolding flows_def using q d by (intro exI [of _ q] exI [of _ n] exI [of _ "Some (Suc m')"] exI [of _ m]) auto
    then show ?thesis using user [OF dec, of "user_data q"] q(8) it d(3) by simp
  qed
qed

section \<open>Both directions\<close>

abbreviation state_of :: "'d chan_end \<Rightarrow> 'd sc_state" where
  "state_of x \<equiv> sl_dh_state (ce_loop x)"

abbreviation half_linked ::
  "'d channel_api \<Rightarrow> 'd contributions \<Rightarrow> 'd contributions \<Rightarrow> nat \<Rightarrow> nat \<Rightarrow> 'd chan_end \<Rightarrow> 'd chan_end \<Rightarrow> bytes list \<Rightarrow> bool" where
  "half_linked P L M i j x y data \<equiv>
     flows P L M i j (ss_sender (state_of x)) (ss_receiver (state_of y)) (ss_opt_old_receiver (state_of y)) (ce_inbox y) data
     \<and> ce_sent x = ce_received y @ data"

definition own_contributions :: "'d contributions \<Rightarrow> nat \<Rightarrow> 'd sc_state \<Rightarrow> bool" where
  "own_contributions L i s \<longleftrightarrow> distinct (map snd L)
     \<and> (ss_opt_pending_rekey s = None \<and> length L = Suc i
        \<or> ss_opt_pending_rekey s = Some \<lparr> pr_local_dh_private_key = fst (L ! Suc i), pr_local_salt = snd (L ! Suc i) \<rparr>
          \<and> length L = Suc (Suc i))"

definition linked ::
  "'d channel_api \<Rightarrow> 'd contributions \<Rightarrow> 'd contributions \<Rightarrow> nat \<Rightarrow> nat \<Rightarrow> 'd chan_end \<Rightarrow> 'd chan_end \<Rightarrow> bool" where
  "linked P L M i j x y \<longleftrightarrow>
     (\<exists>data. half_linked P L M i j x y data) \<and> (\<exists>data. half_linked P M L j i y x data)
     \<and> own_contributions L i (state_of x) \<and> own_contributions M j (state_of y)"

lemma linked_sym: "linked P L M i j x y \<Longrightarrow> linked P M L j i y x"
  unfolding linked_def by blast

lemma own_length: "own_contributions L i s \<Longrightarrow> i < length L"
  by (auto simp: own_contributions_def)

lemma linkedE:
  assumes "linked P L M i j x y"
  obtains data data' where "half_linked P L M i j x y data" "half_linked P M L j i y x data'"
    "own_contributions L i (state_of x)" "own_contributions M j (state_of y)"
    "i < length L" "i < length M" "j < length L" "j < length M"
proof -
  obtain data data' where h: "half_linked P L M i j x y data" "half_linked P M L j i y x data'"
    "own_contributions L i (state_of x)" "own_contributions M j (state_of y)"
    using assms unfolding linked_def by blast
  from that [OF h(1-4) own_length [OF h(3)] flows_length [OF conjunct1 [OF h(2)]] flows_length [OF conjunct1 [OF h(1)]]
      own_length [OF h(4)]] show ?thesis .
qed

text \<open>What a step of one end has to give.\<close>

definition step_linked ::
  "'d channel_api \<Rightarrow> bytes set \<Rightarrow> 'd contributions \<Rightarrow> 'd contributions \<Rightarrow> nat \<Rightarrow> 'd chan_end
    \<Rightarrow> (bytes list \<times> 'd chan_end, secure_channel_error) res \<Rightarrow> bool" where
  "step_linked P salts L M j y r \<longleftrightarrow>
     (\<exists>out x' L' i'. r = Ok (out, x') \<and> linked P L' M i' j x' (y\<lparr> ce_inbox := ce_inbox y @ out \<rparr>)
        \<and> snd ` set L' \<subseteq> snd ` set L \<union> salts)"

lemma user_linked:
  assumes P: "primitives_ok P" "rand_ok rnd" and link: "linked P L M i j x y"
  shows "step_linked P salts L M j y (end_step P ticks (CeUser d rnd) x)"
proof -
  from link obtain data data' where h: "half_linked P L M i j x y data" "half_linked P M L j i y x data'"
    "own_contributions L i (state_of x)" "own_contributions M j (state_of y)" "i < length L" "i < length M"
    by (rule linkedE)
  from h(1,5,6) obtain m where m: "ss_sender (state_of x) = sealer_at (epoch_key P L M i) m"
    and fl: "\<And>pad d. flows P L M i j (sealer_at (epoch_key P L M i) (Suc m)) (ss_receiver (state_of y)) (ss_opt_old_receiver (state_of y))
       (ce_inbox y @ [frame P (epoch_key P L M i) m pad (UserContent d)]) (data @ [d])"
    by (metis flows_user)
  obtain pad where enc: "encrypt_outgoing P rnd (UserContent d) (state_of x) =
      Ok (frame P (epoch_key P L M i) m pad (UserContent d), state_of x\<lparr> ss_sender := sealer_at (epoch_key P L M i) (Suc m) \<rparr>)"
    using encrypt_frame [OF P m] by blast
  define x' where "x' = x\<lparr> ce_sent := ce_sent x @ [d],
    ce_loop := ce_loop x\<lparr> sl_dh_state := state_of x\<lparr> ss_sender := sealer_at (epoch_key P L M i) (Suc m) \<rparr> \<rparr> \<rparr>"
  let ?out = "[frame P (epoch_key P L M i) m pad (UserContent d)]"
  have "end_step P ticks (CeUser d rnd) x = Ok (?out, x')"
    using enc by (simp add: end_step_def secure_channel_step_def create_outgoing_def send_to_def x'_def)
  moreover have "linked P L M i j x' (y\<lparr> ce_inbox := ce_inbox y @ ?out \<rparr>)"
    unfolding linked_def using h fl [of pad d] by (auto simp: x'_def own_contributions_def)
  ultimately show ?thesis unfolding step_linked_def by blast
qed

lemma contributed:
  assumes P: "primitives_ok P" "rand_ok rnd"
  obtains d salt p where "sr_dh_private_key rnd = Some d" "sr_salt rnd = Some salt" "dh_public P d = Some p"
    "\<lparr> rk_dh_public_key = p, rk_key_salt = salt \<rparr> = rekey_of P (d, salt)"
proof -
  obtain d salt where "sr_dh_private_key rnd = Some d" "sr_salt rnd = Some salt" using P(2) by (auto simp: rand_ok_def)
  moreover obtain p where "dh_public P d = Some p" using primitive_public [OF P(1)] by blast
  ultimately show ?thesis using that by (simp add: rekey_of_def)
qed

lemma tick_linked:
  assumes P: "primitives_ok P" "rand_ok rnd" and link: "linked P L M i j x y"
    and fresh: "the (sr_salt rnd) \<notin> snd ` set L"
  shows "step_linked P {the (sr_salt rnd)} L M j y (end_step P ticks (CeTick rnd) x)"
proof -
  from link obtain data data' where h: "half_linked P L M i j x y data" "half_linked P M L j i y x data'"
    "own_contributions L i (state_of x)" "own_contributions M j (state_of y)" "i < length L" "i < length M" "j < length L"
    by (rule linkedE)
  show ?thesis
  proof (cases "0 < sl_cur_ticks_to_rekey (ce_loop x) \<or> ss_opt_pending_rekey (state_of x) \<noteq> None")
    case True
    then have "\<exists>x'. end_step P ticks (CeTick rnd) x = Ok ([], x') \<and> state_of x' = state_of x \<and> ce_sent x' = ce_sent x
        \<and> ce_received x' = ce_received x \<and> ce_inbox x' = ce_inbox x"
      by (auto simp: end_step_def secure_channel_step_def create_rekey_def)
    moreover have "linked P L M i j x' (y\<lparr> ce_inbox := ce_inbox y @ [] \<rparr>)"
      if "state_of x' = state_of x" "ce_sent x' = ce_sent x" "ce_received x' = ce_received x" "ce_inbox x' = ce_inbox x" for x'
      using link that unfolding linked_def by simp
    ultimately show ?thesis unfolding step_linked_def by blast
  next
    case False
    then have len: "Suc i = length L" using h(3) by (auto simp: own_contributions_def)
    obtain d salt p where c: "sr_dh_private_key rnd = Some d" "sr_salt rnd = Some salt" "dh_public P d = Some p"
      "\<lparr> rk_dh_public_key = p, rk_key_salt = salt \<rparr> = rekey_of P (d, salt)"
      using contributed [OF P] .
    obtain m where m: "ss_sender (state_of x) = sealer_at (epoch_key P L M i) m"
      and fl: "\<And>pad z. flows P (L @ [z]) M i j (sealer_at (epoch_key P (L @ [z]) M i) (Suc m)) (ss_receiver (state_of y))
         (ss_opt_old_receiver (state_of y)) (ce_inbox y @ [frame P (epoch_key P L M i) m pad (RekeyContent (rekey_of P z))]) data"
      using flows_rekey [OF conjunct1 [OF h(1)] len h(6,7)] by blast
    let ?k = "epoch_key P L M i"
    let ?s = "state_of x\<lparr> ss_opt_pending_rekey := Some \<lparr> pr_local_dh_private_key = d, pr_local_salt = salt \<rparr> \<rparr>"
    have "ss_sender ?s = sealer_at ?k m" using m by simp
    then obtain pad where enc: "encrypt_outgoing P rnd (RekeyContent (rekey_of P (d, salt))) ?s =
        Ok (frame P ?k m pad (RekeyContent (rekey_of P (d, salt))), ?s\<lparr> ss_sender := sealer_at ?k (Suc m) \<rparr>)"
      using encrypt_frame [OF P] by blast
    define x' where "x' = x\<lparr> ce_loop := \<lparr> sl_dh_state = ?s\<lparr> ss_sender := sealer_at ?k (Suc m) \<rparr>, sl_cur_ticks_to_rekey = ticks \<rparr> \<rparr>"
    let ?out = "[frame P ?k m pad (RekeyContent (rekey_of P (d, salt)))]"
    have "end_step P ticks (CeTick rnd) x = Ok (?out, x')"
      using False c enc by (simp add: end_step_def secure_channel_step_def create_rekey_def send_to_def x'_def Let_def)
    moreover have "linked P (L @ [(d, salt)]) M i j x' (y\<lparr> ce_inbox := ce_inbox y @ ?out \<rparr>)"
      unfolding linked_def
      using h(1,2,4) fl [of "(d, salt)" pad] flows_peer_contributes [OF conjunct1 [OF h(2)] h(7,5)] h(3) fresh c(2) len
      by (auto simp: x'_def own_contributions_def nth_append epoch_key_append)
    ultimately show ?thesis unfolding step_linked_def using c(2) by fastforce
  qed
qed

text \<open>A delivered rekey message, for an end that has made its contribution and for one that has not.\<close>

lemma pending_rekey_handled:
  assumes P: "primitives_ok P" and pend: "ss_opt_pending_rekey s = Some \<lparr> pr_local_dh_private_key = fst (L ! j), pr_local_salt = snd (L ! j) \<rparr>"
    and "j < length L" "j < length M"
  shows "handle_incoming_rekey P rnd (rekey_of P (M ! j)) s =
    Ok (\<lparr> ho_rekey_occurred = True, ho_opt_send_message = None, ho_opt_incoming_message = None \<rparr>,
        s\<lparr> ss_opt_pending_rekey := None, ss_sender := sealer_at (epoch_key P L M j) 0,
           ss_opt_old_receiver := Some (ss_receiver s), ss_receiver := cipher_at (epoch_key P M L j) 0 \<rparr>)"
  using new_ciphers_epoch [OF P assms(3,4)] by (simp add: handle_incoming_rekey_def pend)

lemma rekey_answered:
  assumes P: "primitives_ok P" "rand_ok rnd" and pend: "ss_opt_pending_rekey s = None"
    and c: "sr_dh_private_key rnd = Some d" "sr_salt rnd = Some salt" "dh_public P d = Some p"
      "\<lparr> rk_dh_public_key = p, rk_key_salt = salt \<rparr> = rekey_of P (d, salt)"
    and "j = length L" "j < length M" and sender: "ss_sender s = sealer_at k m"
  shows "\<exists>pad. handle_incoming_rekey P rnd (rekey_of P (M ! j)) s =
    Ok (\<lparr> ho_rekey_occurred = True, ho_opt_send_message = Some (frame P k m pad (RekeyContent (rekey_of P (d, salt)))),
          ho_opt_incoming_message = None \<rparr>,
        s\<lparr> ss_sender := sealer_at (epoch_key P (L @ [(d, salt)]) M j) 0,
           ss_opt_old_receiver := Some (ss_receiver s), ss_receiver := cipher_at (epoch_key P M (L @ [(d, salt)]) j) 0 \<rparr>)"
proof -
  let ?s = "s\<lparr> ss_opt_old_receiver := Some (ss_receiver s), ss_receiver := cipher_at (epoch_key P M (L @ [(d, salt)]) j) 0 \<rparr>"
  have "ss_sender ?s = sealer_at k m" using sender by simp
  then obtain pad where "encrypt_outgoing P rnd (RekeyContent (rekey_of P (d, salt))) ?s =
      Ok (frame P k m pad (RekeyContent (rekey_of P (d, salt))), ?s\<lparr> ss_sender := sealer_at k (Suc m) \<rparr>)"
    using encrypt_frame [OF P] by blast
  moreover have "new_ciphers P d salt (rekey_of P (M ! j)) =
      Ok (sealer_at (epoch_key P (L @ [(d, salt)]) M j) 0, cipher_at (epoch_key P M (L @ [(d, salt)]) j) 0)"
    using new_ciphers_epoch [OF P(1), of j "L @ [(d, salt)]" M] assms(8,9) by simp
  ultimately show ?thesis using pend c by (simp add: handle_incoming_rekey_def Let_def exI)
qed

lemma deliver_user:
  assumes link: "linked P L M i j x y" and b: "ce_inbox x = b # inbox"
    and dec: "decrypt_incoming P b (state_of x) = Ok (UserContent d, s')"
      "s' = state_of x\<lparr> ss_receiver := ss_receiver s', ss_opt_old_receiver := ss_opt_old_receiver s' \<rparr>"
    and fl: "flows P M L j i (ss_sender (state_of y)) (ss_receiver s') (ss_opt_old_receiver s') inbox data"
      "ce_sent y = ce_received x @ d # data"
  shows "step_linked P salts L M j y (end_step P ticks (CeDeliver rnd) x)"
proof -
  define x' where "x' = x\<lparr> ce_inbox := inbox, ce_loop := ce_loop x\<lparr> sl_dh_state := s' \<rparr>, ce_received := ce_received x @ [d] \<rparr>"
  have "ss_sender s' = ss_sender (state_of x)" "ss_opt_pending_rekey s' = ss_opt_pending_rekey (state_of x)"
    using arg_cong [OF dec(2), of ss_sender] arg_cong [OF dec(2), of ss_opt_pending_rekey] by simp_all
  then have "linked P L M i j x' (y\<lparr> ce_inbox := ce_inbox y @ [] \<rparr>)"
    using link fl unfolding linked_def by (auto simp: x'_def own_contributions_def)
  moreover have "end_step P ticks (CeDeliver rnd) x = Ok ([], x')"
    using dec(1) b by (simp add: end_step_def secure_channel_step_def handle_incoming_def send_to_def x'_def)
  ultimately show ?thesis unfolding step_linked_def by blast
qed

lemma deliver_rekey:
  assumes dec: "decrypt_incoming P b (state_of x) = Ok (RekeyContent r, s')" and b: "ce_inbox x = b # inbox"
    and "handle_incoming_rekey P rnd r s' =
      Ok (\<lparr> ho_rekey_occurred = True, ho_opt_send_message = opt_message, ho_opt_incoming_message = None \<rparr>, s'')"
  shows "\<exists>x'. end_step P ticks (CeDeliver rnd) x = Ok (case opt_message of None \<Rightarrow> [] | Some m \<Rightarrow> [m], x')
    \<and> state_of x' = s'' \<and> ce_inbox x' = inbox \<and> ce_sent x' = ce_sent x \<and> ce_received x' = ce_received x"
  using assms by (auto simp: end_step_def secure_channel_step_def handle_incoming_def send_to_def split: option.splits)

lemma deliver_pending:
  assumes P: "primitives_ok P" and link: "linked P L M i j x y" and b: "ce_inbox x = b # inbox"
    and pend: "ss_opt_pending_rekey (state_of x) \<noteq> None"
    and dec: "decrypt_incoming P b (state_of x) = Ok (RekeyContent (rekey_of P (M ! Suc i)), s')" "Suc i < length M"
      "s' = state_of x\<lparr> ss_receiver := ss_receiver s', ss_opt_old_receiver := None \<rparr>"
    and fl: "flows P M L j (Suc i) (ss_sender (state_of y)) (cipher_at (epoch_key P M L (Suc i)) 0) (Some (ss_receiver s')) inbox data'"
      "ce_sent y = ce_received x @ data'"
  shows "step_linked P salts L M j y (end_step P ticks (CeDeliver rnd) x)"
proof -
  from link obtain data where h: "half_linked P L M i j x y data" "own_contributions L i (state_of x)"
    "own_contributions M j (state_of y)" by (rule linkedE)
  have "ss_opt_pending_rekey s' = ss_opt_pending_rekey (state_of x)"
    using arg_cong [OF dec(3), of ss_opt_pending_rekey] by simp
  then have L: "length L = Suc (Suc i)" "Suc i < length L"
    and pend: "ss_opt_pending_rekey s' = Some \<lparr> pr_local_dh_private_key = fst (L ! Suc i), pr_local_salt = snd (L ! Suc i) \<rparr>"
    using h(2) pend by (auto simp: own_contributions_def)
  from deliver_rekey [OF dec(1) b pending_rekey_handled [OF P pend L(2) dec(2)]]
  obtain x' where x': "end_step P ticks (CeDeliver rnd) x = Ok ([], x')"
    "state_of x' = s'\<lparr> ss_opt_pending_rekey := None, ss_sender := sealer_at (epoch_key P L M (Suc i)) 0,
       ss_opt_old_receiver := Some (ss_receiver s'), ss_receiver := cipher_at (epoch_key P M L (Suc i)) 0 \<rparr>"
    "ce_inbox x' = inbox" "ce_sent x' = ce_sent x" "ce_received x' = ce_received x"
    by auto
  have "linked P L M (Suc i) j x' (y\<lparr> ce_inbox := ce_inbox y @ [] \<rparr>)"
    unfolding linked_def
    using x'(2-5) h flows_switch [OF conjunct1 [OF h(1)] L(1) [symmetric]] fl L
    by (auto simp: own_contributions_def)
  then show ?thesis unfolding step_linked_def using x'(1) by blast
qed

lemma deliver_answered:
  assumes P: "primitives_ok P" "rand_ok rnd" and link: "linked P L M i j x y" and b: "ce_inbox x = b # inbox"
    and fresh: "the (sr_salt rnd) \<notin> snd ` set L" and pend: "ss_opt_pending_rekey (state_of x) = None"
    and dec: "decrypt_incoming P b (state_of x) = Ok (RekeyContent (rekey_of P (M ! Suc i)), s')" "Suc i < length M"
      "s' = state_of x\<lparr> ss_receiver := ss_receiver s', ss_opt_old_receiver := None \<rparr>"
    and fl: "\<And>X. flows P M (L @ X) j (Suc i) (ss_sender (state_of y)) (cipher_at (epoch_key P M (L @ X) (Suc i)) 0)
        (Some (ss_receiver s')) inbox data'"
      "ce_sent y = ce_received x @ data'"
  shows "step_linked P {the (sr_salt rnd)} L M j y (end_step P ticks (CeDeliver rnd) x)"
proof -
  from link obtain data where h: "half_linked P L M i j x y data" "own_contributions L i (state_of x)"
    "own_contributions M j (state_of y)" "i < length M" "j < length L" by (rule linkedE)
  have s': "ss_sender s' = ss_sender (state_of x)" "ss_opt_pending_rekey s' = None"
    using arg_cong [OF dec(3), of ss_sender] arg_cong [OF dec(3), of ss_opt_pending_rekey] pend by simp_all
  have L: "Suc i = length L" using h(2) pend by (auto simp: own_contributions_def)
  obtain d salt p where c: "sr_dh_private_key rnd = Some d" "sr_salt rnd = Some salt" "dh_public P d = Some p"
    "\<lparr> rk_dh_public_key = p, rk_key_salt = salt \<rparr> = rekey_of P (d, salt)"
    using contributed [OF P] .
  let ?L = "L @ [(d, salt)]" and ?k = "epoch_key P L M i" and ?r = "RekeyContent (rekey_of P (d, salt))"
  obtain m where m: "ss_sender (state_of x) = sealer_at ?k m"
    and fl': "\<And>pad z. flows P (L @ [z]) M i j (sealer_at (epoch_key P (L @ [z]) M i) (Suc m)) (ss_receiver (state_of y))
       (ss_opt_old_receiver (state_of y)) (ce_inbox y @ [frame P ?k m pad (RekeyContent (rekey_of P z))]) data"
    using flows_rekey [OF conjunct1 [OF h(1)] L h(4,5)] by blast
  have "ss_sender s' = sealer_at ?k m" using m s'(1) by simp
  from rekey_answered [OF P s'(2) c L dec(2) this] obtain pad where
    "handle_incoming_rekey P rnd (rekey_of P (M ! Suc i)) s' =
      Ok (\<lparr> ho_rekey_occurred = True, ho_opt_send_message = Some (frame P ?k m pad ?r), ho_opt_incoming_message = None \<rparr>,
        s'\<lparr> ss_sender := sealer_at (epoch_key P ?L M (Suc i)) 0,
           ss_opt_old_receiver := Some (ss_receiver s'), ss_receiver := cipher_at (epoch_key P M ?L (Suc i)) 0 \<rparr>)"
    by blast
  from deliver_rekey [OF dec(1) b this]
  obtain x' where x': "end_step P ticks (CeDeliver rnd) x = Ok ([frame P ?k m pad ?r], x')"
    "state_of x' = s'\<lparr> ss_sender := sealer_at (epoch_key P ?L M (Suc i)) 0,
           ss_opt_old_receiver := Some (ss_receiver s'), ss_receiver := cipher_at (epoch_key P M ?L (Suc i)) 0 \<rparr>"
    "ce_inbox x' = inbox" "ce_sent x' = ce_sent x" "ce_received x' = ce_received x"
    by auto
  have "linked P ?L M (Suc i) j x' (y\<lparr> ce_inbox := ce_inbox y @ [frame P ?k m pad ?r] \<rparr>)"
    unfolding linked_def
    using x'(2-5) h(1-3) flows_switch [OF fl' [of "(d, salt)" pad]] fl(1) [of "[(d, salt)]"] fl(2) L fresh c(2) s'(2)
    by (auto simp: own_contributions_def)
  then show ?thesis unfolding step_linked_def using x'(1) c(2) by fastforce
qed

lemma deliver_linked:
  assumes P: "primitives_ok P" "rand_ok rnd" and link: "linked P L M i j x y"
    and fresh: "the (sr_salt rnd) \<notin> snd ` set L"
  shows "step_linked P {the (sr_salt rnd)} L M j y (end_step P ticks (CeDeliver rnd) x)"
proof (cases "ce_inbox x")
  case Nil
  then have "end_step P ticks (CeDeliver rnd) x = Ok ([], x)" by (simp add: end_step_def)
  then show ?thesis using link unfolding step_linked_def by fastforce
next
  case (Cons b inbox)
  from link obtain data' where h: "half_linked P M L j i y x data'" "own_contributions M j (state_of y)"
    "i < length L" "j < length L"
    by (rule linkedE)
  have M: "distinct (map snd M)" using h(2) by (simp add: own_contributions_def)
  from h(1) Cons have fl: "flows P M L j i (ss_sender (state_of y)) (ss_receiver (state_of x))
      (ss_opt_old_receiver (state_of x)) (b # inbox) data'" and sent: "ce_sent y = ce_received x @ data'" by simp_all
  from P(1) M fl h(4,3) show ?thesis
  proof (cases rule: flows_receive)
    case (user s' d data'')
    then show ?thesis using sent by (intro deliver_user [OF link Cons user(1,4,3)]) simp
  next
    case (rekey s')
    show ?thesis
    proof (cases "ss_opt_pending_rekey (state_of x) = None")
      case True
      show ?thesis by (rule deliver_answered [OF P link Cons fresh True rekey(1,2,4,3) sent])
    next
      case False
      show ?thesis by (rule deliver_pending [OF P(1) link Cons False rekey(1,2,4) rekey(3) [of "[]", unfolded append_Nil2] sent])
    qed
  qed
qed

lemma end_step_linked:
  assumes "primitives_ok P" "rand_ok (event_rand event)" "linked P L M i j x y"
    and "the (sr_salt (event_rand event)) \<notin> snd ` set L"
  shows "step_linked P {the (sr_salt (event_rand event))} L M j y (end_step P ticks event x)"
  using assms user_linked tick_linked deliver_linked by (cases event) auto

section \<open>Runs\<close>

abbreviation event_salt :: "bool \<times> 'd chan_event \<Rightarrow> bytes" where
  "event_salt e \<equiv> the (sr_salt (event_rand (snd e)))"

lemma still_fresh:
  assumes "S' \<subseteq> S \<union> {x}" "set (x # xs) \<inter> (S \<union> T) = {}" "distinct (x # xs)"
  shows "set xs \<inter> (S' \<union> T) = {}"
  using assms by auto

lemma chan_run_linked:
  assumes "primitives_ok P" "linked P L M i j a b"
    and "\<forall>e \<in> set events. rand_ok (event_rand (snd e))" "distinct (map event_salt events)"
    and "set (map event_salt events) \<inter> (snd ` set L \<union> snd ` set M) = {}"
  shows "\<exists>a' b' L' M' i' j'. chan_run P ticks events (a, b) = Ok (a', b') \<and> linked P L' M' i' j' a' b'"
  using assms(2-5)
proof (induction events arbitrary: L M i j a b)
  case Nil
  then show ?case by auto
next
  case (Cons e events)
  obtain left event where e: "e = (left, event)" by (cases e)
  have rnd: "rand_ok (event_rand event)" using Cons.prems(2) by (simp add: e)
  show ?case
  proof (cases left)
    case True
    have "the (sr_salt (event_rand event)) \<notin> snd ` set L" using Cons.prems(4) by (auto simp: e)
    from end_step_linked [OF assms(1) rnd Cons.prems(1) this] obtain out a' L' i'
      where step: "end_step P ticks event a = Ok (out, a')" and link: "linked P L' M i' j a' (b\<lparr> ce_inbox := ce_inbox b @ out \<rparr>)"
      and salts: "snd ` set L' \<subseteq> snd ` set L \<union> {the (sr_salt (event_rand event))}"
      unfolding step_linked_def by blast
    have "set (map event_salt events) \<inter> (snd ` set L' \<union> snd ` set M) = {}"
      using Cons.prems(3,4) by (intro still_fresh [OF salts]) (auto simp: e)
    from Cons.IH [OF link _ _ this] Cons.prems(2,3) step show ?thesis by (simp add: e True)
  next
    case False
    have "the (sr_salt (event_rand event)) \<notin> snd ` set M" using Cons.prems(4) by (auto simp: e)
    from end_step_linked [OF assms(1) rnd linked_sym [OF Cons.prems(1)] this] obtain out b' M' j'
      where step: "end_step P ticks event b = Ok (out, b')" and link: "linked P M' L j' i b' (a\<lparr> ce_inbox := ce_inbox a @ out \<rparr>)"
      and salts: "snd ` set M' \<subseteq> snd ` set M \<union> {the (sr_salt (event_rand event))}"
      unfolding step_linked_def by blast
    have "set (map event_salt events) \<inter> (snd ` set M' \<union> snd ` set L) = {}"
      using Cons.prems(3,4) by (intro still_fresh [OF salts]) (auto simp: e)
    then have "set (map event_salt events) \<inter> (snd ` set L \<union> snd ` set M') = {}" by blast
    from Cons.IH [OF linked_sym [OF link] _ _ this] Cons.prems(2,3) step show ?thesis by (simp add: e False)
  qed
qed

section \<open>The exchange\<close>

definition codec_ok :: "exchange_codec \<Rightarrow> bool" where
  "codec_ok X \<longleftrightarrow> (\<forall>m. deser_exchange_rand_nonce X (ser_exchange_rand_nonce X m) = Some m)
     \<and> (\<forall>m. deser_exchange_dh X (ser_exchange_dh X m) = Some m)"

lemma codec_okD:
  assumes "codec_ok X"
  shows "deser_exchange_rand_nonce X (ser_exchange_rand_nonce X m) = Some m"
    and "deser_exchange_dh X (ser_exchange_dh X m') = Some m'"
  using assms by (simp_all add: codec_ok_def)

lemma map_err_Ok [res_simps]: "map_err f r = Ok x \<longleftrightarrow> r = Ok x"
  by (cases r) simp_all

lemma exchange_dh_result:
  assumes "handle_exchange_dh P C ed half = Ok s"
  shows "\<exists>ks kr. derive_symmetric_key P (sh_dh_private_key half) (ed_dh_public_key ed) (sh_local_salt half) (ed_key_salt ed)
        = Some (ks, kr)
    \<and> ss_sender s = sealer_at ks 0 \<and> ss_receiver s = cipher_at kr 0 \<and> ss_opt_old_receiver s = None
    \<and> ss_opt_pending_rekey s = None \<and> ss_remote_public_key s = sh_remote_public_key half"
  using assms
  by (auto simp: handle_exchange_dh_def res_simps encryptor_new_def decryptor_new_def nonce_0 sealer_at_def cipher_at_def
      split: if_splits)

lemma exchange_result:
  assumes "initial_exchange P C X request_pk sign expected rand_value rnd w1 w2 (Some r1) (Some r2) = Ok ((m1, m2), s)"
  obtains d salt ern ed sig rn pk where "sr_dh_private_key rnd = Some d" "sr_salt rnd = Some salt" "dh_public P d \<noteq> None"
    "rand_value = Some rn" "request_pk = Some pk"
    "m1 = ser_exchange_rand_nonce X \<lparr> ern_rand_nonce = rn, ern_public_key = pk \<rparr>"
    "deser_exchange_rand_nonce X r1 = Some ern" "deser_exchange_dh X r2 = Some ed"
    "m2 = ser_exchange_dh X \<lparr> ed_dh_public_key = rk_dh_public_key (rekey_of P (d, salt)), ed_rand_nonce = ern_rand_nonce ern,
       ed_key_salt = salt, ed_signature = sig \<rparr>"
    "handle_exchange_dh P C ed \<lparr> sh_remote_public_key = ern_public_key ern, sh_local_public_key = pk,
       sh_local_rand_nonce = rn, sh_dh_private_key = d, sh_local_salt = salt \<rparr> = Ok s"
  using assms
  by (auto simp: initial_exchange_def res_simps sc_state_initial_new_def handle_exchange_rand_nonce_def Let_def rekey_of_def
      split: if_splits option.splits)

lemma exchange_linked:
  assumes P: "primitives_ok P" "codec_ok X"
    and a: "initial_exchange P C X pkA signA expA nonceA rndA w1 w2 (Some b1) (Some b2) = Ok ((a1, a2), sa)"
    and b: "initial_exchange P C X pkB signB expB nonceB rndB w3 w4 (Some a1) (Some a2) = Ok ((b1, b2), sb)"
  shows "\<exists>dA dB saltA saltB. sr_salt rndA = Some saltA \<and> sr_salt rndB = Some saltB
    \<and> linked P [(dA, saltA)] [(dB, saltB)] 0 0 (new_end ticks sa) (new_end ticks sb)"
proof -
  from a obtain dA saltA ernA edA sigA rnA pkA' where A: "sr_salt rndA = Some saltA"
      "deser_exchange_rand_nonce X b1 = Some ernA" "deser_exchange_dh X b2 = Some edA"
      "a2 = ser_exchange_dh X \<lparr> ed_dh_public_key = rk_dh_public_key (rekey_of P (dA, saltA)), ed_rand_nonce = ern_rand_nonce ernA,
         ed_key_salt = saltA, ed_signature = sigA \<rparr>"
      "handle_exchange_dh P C edA \<lparr> sh_remote_public_key = ern_public_key ernA, sh_local_public_key = pkA',
         sh_local_rand_nonce = rnA, sh_dh_private_key = dA, sh_local_salt = saltA \<rparr> = Ok sa"
    by (rule exchange_result)
  from b obtain dB saltB ernB edB sigB rnB pkB' where B: "sr_salt rndB = Some saltB"
      "deser_exchange_rand_nonce X a1 = Some ernB" "deser_exchange_dh X a2 = Some edB"
      "b2 = ser_exchange_dh X \<lparr> ed_dh_public_key = rk_dh_public_key (rekey_of P (dB, saltB)), ed_rand_nonce = ern_rand_nonce ernB,
         ed_key_salt = saltB, ed_signature = sigB \<rparr>"
      "handle_exchange_dh P C edB \<lparr> sh_remote_public_key = ern_public_key ernB, sh_local_public_key = pkB',
         sh_local_rand_nonce = rnB, sh_dh_private_key = dB, sh_local_salt = saltB \<rparr> = Ok sb"
    by (rule exchange_result)
  let ?L = "[(dA, saltA)]" and ?M = "[(dB, saltB)]"
  have seen: "ed_dh_public_key edA = rk_dh_public_key (rekey_of P (dB, saltB))" "ed_key_salt edA = saltB"
    "ed_dh_public_key edB = rk_dh_public_key (rekey_of P (dA, saltA))" "ed_key_salt edB = saltA"
    using A(3,4) B(3,4) codec_okD(2) [OF P(2)] by auto
  have keyA: "ss_sender sa = sealer_at (epoch_key P ?L ?M 0) 0" "ss_receiver sa = cipher_at (epoch_key P ?M ?L 0) 0"
    "ss_opt_old_receiver sa = None" "ss_opt_pending_rekey sa = None"
    using exchange_dh_result [OF A(5)] derive_keys [OF P(1), of 0 ?L ?M] seen by (auto simp: rekey_of_def)
  have keyB: "ss_sender sb = sealer_at (epoch_key P ?M ?L 0) 0" "ss_receiver sb = cipher_at (epoch_key P ?L ?M 0) 0"
    "ss_opt_old_receiver sb = None" "ss_opt_pending_rekey sb = None"
    using exchange_dh_result [OF B(5)] derive_keys [OF P(1), of 0 ?M ?L] seen by (auto simp: rekey_of_def)
  have fresh: "flows P L M 0 0 (sealer_at (epoch_key P L M 0) 0) (cipher_at (epoch_key P L M 0) 0) None [] []"
    if "length L = 1" for L M :: "'a contributions"
    unfolding flows_def using that by (intro exI [of _ "[]"] exI [of _ 0] exI [of _ None]) simp
  have "linked P ?L ?M 0 0 (new_end ticks sa) (new_end ticks sb)"
    unfolding linked_def own_contributions_def new_end_def using keyA keyB fresh by simp
  then show ?thesis using A(1) B(1) by blast
qed

text \<open>
  C14: Two nodes whose exchange read each other's messages have a channel on which every message
  can be read when it arrives, for every order of user data, timer ticks and deliveries at the
  two ends: rounds of the task never fail and never panic, however often either end starts a new
  key, also when both do so at once. What an end has handed to its user is always a prefix of
  what the other end was given to send, and all of it once nothing is in transit. Messages are
  delivered in the order they were sent, the primitives are sound, the generator works and its
  salts do not repeat.
\<close>

theorem secure_channel_delivers:
  assumes "primitives_ok P" and "codec_ok X"
    and "initial_exchange P C X pkA signA expA nonceA rndA w1 w2 (Some b1) (Some b2) = Ok ((a1, a2), sa)"
    and "initial_exchange P C X pkB signB expB nonceB rndB w3 w4 (Some a1) (Some a2) = Ok ((b1, b2), sb)"
    and "\<forall>e \<in> set events. rand_ok (event_rand (snd e))"
    and "distinct (the (sr_salt rndA) # the (sr_salt rndB) # map event_salt events)"
  shows "\<exists>a b. chan_run P ticks events (new_end ticks sa, new_end ticks sb) = Ok (a, b)
    \<and> prefix (ce_received b) (ce_sent a) \<and> prefix (ce_received a) (ce_sent b)
    \<and> (ce_inbox b = [] \<longrightarrow> ce_received b = ce_sent a) \<and> (ce_inbox a = [] \<longrightarrow> ce_received a = ce_sent b)"
proof -
  obtain dA dB saltA saltB where salts: "sr_salt rndA = Some saltA" "sr_salt rndB = Some saltB"
    and link: "linked P [(dA, saltA)] [(dB, saltB)] 0 0 (new_end ticks sa) (new_end ticks sb)"
    using exchange_linked [OF assms(1-4)] by blast
  from assms(6) salts have "distinct (map event_salt events)"
    "set (map event_salt events) \<inter> (snd ` set [(dA, saltA)] \<union> snd ` set [(dB, saltB)]) = {}" by auto
  from chan_run_linked [OF assms(1) link assms(5) this] obtain a b L M i j
    where run: "chan_run P ticks events (new_end ticks sa, new_end ticks sb) = Ok (a, b)" and ab: "linked P L M i j a b"
    by blast
  then show ?thesis unfolding linked_def by (auto simp: prefix_def dest: flows_nothing)
qed

section \<open>What the exchange proves about the other side\<close>

text \<open>
  C15: When an exchange completes, the message with the key of the other side carries a valid
  signature of the public key that the channel reports, over that key, the salt and the nonce
  that was drawn for this exchange; and an expected public key is the reported one.
\<close>

theorem exchange_authenticates_key:
  assumes "initial_exchange P C X request_pk sign expected rand_value rnd w1 w2 (Some r1) (Some r2) = Ok ((m1, m2), s)"
  shows "\<exists>ed. deser_exchange_dh X r2 = Some ed
    \<and> verify_signature C (ed_dh_public_key ed @ the rand_value @ ed_key_salt ed) (ss_remote_public_key s) (ed_signature ed)
    \<and> (\<forall>pk. expected = Some pk \<longrightarrow> ss_remote_public_key s = pk)
    \<and> (\<exists>d salt. sr_dh_private_key rnd = Some d \<and> sr_salt rnd = Some salt
         \<and> derive_symmetric_key P d (ed_dh_public_key ed) salt (ed_key_salt ed) =
             Some (en_sealing_key (ss_sender s), de_opening_key (ss_receiver s)))"
  using assms
  by (auto simp: initial_exchange_def res_simps sc_state_initial_new_def handle_exchange_rand_nonce_def handle_exchange_dh_def
      verify_exchange_dh_def exchange_signature_buffer_def encryptor_new_def decryptor_new_def Let_def
      split: if_splits option.splits)

text \<open>
  The signature does not say for whom the key is meant. An intruder who replaces the public
  key in the first message of a node and signs its second message in place of the node gives
  the other side a channel with the intruder's key as the remote key, while the node has, with
  the same keys, a channel to the other side it expected. Everything the node sends is then
  taken for messages of the intruder.
\<close>

theorem exchange_does_not_bind_peer:
  assumes "primitives_ok P" and "codec_ok X" and "rand_ok rndA" and "rand_ok rndB"
    and "\<forall>m. \<exists>sig. signA m = Some sig" and "\<forall>m. \<exists>sig. signB m = Some sig \<and> verify_signature C m pkB sig"
    and "\<forall>m. verify_signature C m pkM (signM m)"
  shows "\<exists>a2 b1 b2 ed sa sb.
      initial_exchange P C X (Some pkA) signA (Some pkB) (Some rnA) rndA True True (Some b1) (Some b2) =
        Ok ((ser_exchange_rand_nonce X \<lparr> ern_rand_nonce = rnA, ern_public_key = pkA \<rparr>, a2), sa)
    \<and> deser_exchange_dh X a2 = Some ed
    \<and> initial_exchange P C X (Some pkB) signB (Some pkM) (Some rnB) rndB True True
        (Some (ser_exchange_rand_nonce X \<lparr> ern_rand_nonce = rnA, ern_public_key = pkM \<rparr>))
        (Some (ser_exchange_dh X (ed\<lparr> ed_signature := signM (exchange_signature_buffer ed) \<rparr>))) = Ok ((b1, b2), sb)
    \<and> ss_remote_public_key sa = pkB \<and> ss_remote_public_key sb = pkM
    \<and> de_opening_key (ss_receiver sb) = en_sealing_key (ss_sender sa)
    \<and> de_opening_key (ss_receiver sa) = en_sealing_key (ss_sender sb)"
proof -
  obtain dA saltA pA where A: "sr_dh_private_key rndA = Some dA" "sr_salt rndA = Some saltA" "dh_public P dA = Some pA"
    using contributed [OF assms(1,3)] .
  obtain dB saltB pB where B: "sr_dh_private_key rndB = Some dB" "sr_salt rndB = Some saltB" "dh_public P dB = Some pB"
    using contributed [OF assms(1,4)] .
  let ?ua = "\<lparr> ed_dh_public_key = pA, ed_rand_nonce = rnB, ed_key_salt = saltA, ed_signature = replicate 64 0 \<rparr>"
  let ?ub = "\<lparr> ed_dh_public_key = pB, ed_rand_nonce = rnA, ed_key_salt = saltB, ed_signature = replicate 64 0 \<rparr>"
  obtain sigA where sigA: "signA (exchange_signature_buffer ?ua) = Some sigA" using assms(5) by blast
  obtain sigB where sigB: "signB (exchange_signature_buffer ?ub) = Some sigB"
      "verify_signature C (exchange_signature_buffer ?ub) pkB sigB" using assms(6) by blast
  define ed where "ed = ?ua\<lparr> ed_signature := sigA \<rparr>"
  have buf: "exchange_signature_buffer (ed\<lparr> ed_signature := x \<rparr>) = exchange_signature_buffer ed"
    "exchange_signature_buffer (?ub\<lparr> ed_signature := x \<rparr>) = exchange_signature_buffer ?ub" for x
    by (simp_all add: exchange_signature_buffer_def ed_def)
  let ?L = "[(dA, saltA)]" and ?M = "[(dB, saltB)]"
  have derA: "derive_symmetric_key P dA pB saltA saltB = Some (epoch_key P ?L ?M 0, epoch_key P ?M ?L 0)"
    using derive_keys [OF assms(1), of 0 ?L ?M] B(3) by (simp add: rekey_of_def)
  have derB: "derive_symmetric_key P dB pA saltB saltA = Some (epoch_key P ?M ?L 0, epoch_key P ?L ?M 0)"
    using derive_keys [OF assms(1), of 0 ?M ?L] A(3) by (simp add: rekey_of_def)
  have key: "aead_key_ok P (epoch_key P ?L ?M 0)" "aead_key_ok P (epoch_key P ?M ?L 0)"
    using primitive_key [OF assms(1)] by (simp_all add: epoch_key_def)
  let ?b1 = "ser_exchange_rand_nonce X \<lparr> ern_rand_nonce = rnB, ern_public_key = pkB \<rparr>"
  let ?b2 = "ser_exchange_dh X (?ub\<lparr> ed_signature := sigB \<rparr>)"
  note simps = initial_exchange_def sc_state_initial_new_def handle_exchange_rand_nonce_def handle_exchange_dh_def
    verify_exchange_dh_def encryptor_new_def decryptor_new_def Let_def codec_okD [OF assms(2)] A B key
  have "\<exists>sa. initial_exchange P C X (Some pkA) signA (Some pkB) (Some rnA) rndA True True (Some ?b1) (Some ?b2) =
        Ok ((ser_exchange_rand_nonce X \<lparr> ern_rand_nonce = rnA, ern_public_key = pkA \<rparr>, ser_exchange_dh X ed), sa)
      \<and> ss_remote_public_key sa = pkB \<and> en_sealing_key (ss_sender sa) = epoch_key P ?L ?M 0
      \<and> de_opening_key (ss_receiver sa) = epoch_key P ?M ?L 0"
    using sigB buf(2) [of sigB] by (simp add: simps sigA derA ed_def)
  moreover have "\<exists>sb. initial_exchange P C X (Some pkB) signB (Some pkM) (Some rnB) rndB True True
        (Some (ser_exchange_rand_nonce X \<lparr> ern_rand_nonce = rnA, ern_public_key = pkM \<rparr>))
        (Some (ser_exchange_dh X (ed\<lparr> ed_signature := signM (exchange_signature_buffer ed) \<rparr>))) = Ok ((?b1, ?b2), sb)
      \<and> ss_remote_public_key sb = pkM \<and> en_sealing_key (ss_sender sb) = epoch_key P ?M ?L 0
      \<and> de_opening_key (ss_receiver sb) = epoch_key P ?L ?M 0"
    using sigB(1) assms(7) buf(1) [of "signM (exchange_signature_buffer ed)"] by (simp add: simps derB ed_def)
  ultimately show ?thesis using codec_okD(2) [OF assms(2), of ed] by metis
qed

lemma decrypt_Panic: "decrypt P data d = Panic \<longleftrightarrow> length data < ENC_NONCE_LEN"
  by (auto simp: decrypt_def Let_def split: option.splits)

lemma decrypt_no_Err: "decrypt P data d \<noteq> Err e"
  by (auto simp: decrypt_def Let_def split: option.splits)

lemma try_decrypt_Panic: "try_decrypt P data s = Panic \<longleftrightarrow> length data < ENC_NONCE_LEN"
  by (cases "ss_opt_old_receiver s")
     (auto simp: try_decrypt_def res_bind_Panic decrypt_Panic split: option.splits)

lemma encrypt_outgoing_no_Panic:
  assumes "rand_ok rnd" "\<forall>k n m. aead_seal P k n m \<noteq> None"
  shows "encrypt_outgoing P rnd content s \<noteq> Panic"
proof -
  obtain bs where bs: "sr_padding_len rnd = Some bs" using assms(1) by (auto simp: rand_ok_def)
  obtain pad where "sr_padding rnd (unat (bs ! 0) * 256 + unat (bs ! 1)) = Some pad"
    using assms(1) by (fastforce simp: rand_ok_def)
  with bs have pad: "gen_rand_padding rnd = Ok pad" by (simp add: gen_rand_padding_def Let_def)
  let ?m = "ser_message P \<lparr> cm_rand_padding = pad, cm_content = content \<rparr>"
  obtain c where "aead_seal P (en_sealing_key (ss_sender s)) (en_nonce_counter (ss_sender s)) ?m = Some c"
    using assms(2) by blast
  then show ?thesis by (simp add: encrypt_outgoing_def pad encrypt_def next_nonce_def)
qed

lemma incoming_rekey_no_Panic:
  assumes "rand_ok rnd" "\<forall>d. dh_public P d \<noteq> None" "\<forall>k n m. aead_seal P k n m \<noteq> None"
  shows "handle_incoming_rekey P rnd r s \<noteq> Panic"
proof -
  have "new_ciphers P d salt r \<noteq> Panic" for d salt by (auto simp: new_ciphers_def res_simps)
  then show ?thesis using assms encrypt_outgoing_no_Panic [OF assms(1,3)]
    by (auto simp: handle_incoming_rekey_def res_simps rand_ok_def Let_def split: option.splits)
qed

lemma map_err_Panic [res_simps]: "map_err f r = Panic \<longleftrightarrow> r = Panic"
  by (cases r) simp_all

lemma send_to_no_Panic [simp]: "send_to ok m \<noteq> Panic"
  by (simp add: send_to_def split: option.split)

text \<open>
  A frame that is shorter than a nonce stops the task of a channel with a panic, and no other
  frame does, as long as the generator and the primitives work. Frames are not authenticated
  before they are taken apart, so whoever can write to the connection can do this.
\<close>

theorem short_frame_panics:
  assumes "rand_ok rnd" and "\<forall>d. dh_public P d \<noteq> None" and "\<forall>k n m. aead_seal P k n m \<noteq> None"
  shows "secure_channel_step P ticks rnd writer_ok user_ok (ScReader data) l = Panic \<longleftrightarrow> length data < ENC_NONCE_LEN"
proof -
  let ?dec = "decrypt_incoming P data (sl_dh_state l)"
  have dec: "?dec = Panic \<longleftrightarrow> length data < ENC_NONCE_LEN"
    by (auto simp: decrypt_incoming_def try_decrypt_Panic res_bind_Panic)
  have rest: "(case content of RekeyContent r \<Rightarrow> handle_incoming_rekey P rnd r s
      | UserContent d \<Rightarrow> Ok (\<lparr> ho_rekey_occurred = False, ho_opt_send_message = None, ho_opt_incoming_message = Some d \<rparr>, s)) \<noteq> Panic"
    for content s
    using incoming_rekey_no_Panic [OF assms] by (simp split: channel_content.split)
  have "handle_incoming P rnd data (sl_dh_state l) = Panic \<longleftrightarrow> length data < ENC_NONCE_LEN"
    unfolding dec [symmetric] using rest by (cases ?dec) (auto simp: handle_incoming_def)
  then show ?thesis by (auto simp: secure_channel_step_def res_simps Let_def)
qed

section \<open>Examples\<close>

text \<open>Primitives for examples: bytes with a marker before each byte and at the end can be told apart.\<close>

fun marked :: "bytes \<Rightarrow> bytes" where
  "marked [] = [0]"
| "marked (b # bs) = 1 # b # marked bs"

fun unmarked :: "bytes \<Rightarrow> (bytes \<times> bytes) option" where
  "unmarked [] = None"
| "unmarked [c] = (if c = 0 then Some ([], []) else None)"
| "unmarked (c # b # rest) =
     (if c = 0 then Some ([], b # rest) else map_option (\<lambda>(bs, rest). (b # bs, rest)) (unmarked rest))"

lemma unmarked_marked [simp]: "unmarked (marked bs @ rest) = Some (bs, rest)"
  by (induction bs) (simp_all add: neq_Nil_conv, cases rest, simp_all)

definition example_ser :: "channel_message \<Rightarrow> bytes" where
  "example_ser m = marked (cm_rand_padding m) @
     (case cm_content m of
        UserContent data \<Rightarrow> 0 # data
      | RekeyContent r \<Rightarrow> 1 # marked (rk_dh_public_key r) @ rk_key_salt r)"

definition example_deser :: "bytes \<Rightarrow> channel_message option" where
  "example_deser bs =
     (case unmarked bs of
        Some (pad, c # rest) \<Rightarrow>
          if c = 0 then Some \<lparr> cm_rand_padding = pad, cm_content = UserContent rest \<rparr>
          else map_option (\<lambda>(pk, salt). \<lparr> cm_rand_padding = pad,
                 cm_content = RekeyContent \<lparr> rk_dh_public_key = pk, rk_key_salt = salt \<rparr> \<rparr>) (unmarked rest)
      | _ \<Rightarrow> None)"

definition example_channel_api :: "u8 channel_api" where
  "example_channel_api =
     \<lparr> dh_public = (\<lambda>d. Some [d]), dh_agree = (\<lambda>d p. Some (replicate 32 (d * p ! 0))), hkdf = (\<lambda>salt shared. salt),
       aead_key_ok = (\<lambda>k. True), aead_seal = (\<lambda>k n m. Some (marked k @ marked n @ m)),
       aead_open = (\<lambda>k n c. case unmarked c of
          Some (k', c') \<Rightarrow> (case unmarked c' of Some (n', m) \<Rightarrow> if k' = k \<and> n' = n then Some m else None | None \<Rightarrow> None)
        | None \<Rightarrow> None),
       ser_message = example_ser, deser_message = example_deser \<rparr>"

lemma example_primitives_ok: "primitives_ok example_channel_api"
proof -
  have "example_deser (example_ser m) = Some m" for m
    by (cases m rule: channel_message.cases) (auto simp: example_ser_def example_deser_def split: channel_content.split)
  then show ?thesis
    by (auto simp: primitives_ok_def dh_ok_def kdf_ok_def aead_ok_def example_channel_api_def SHARED_SECRET_LEN_def mult.commute)
qed

definition example_codec :: exchange_codec where
  "example_codec =
     \<lparr> ser_exchange_rand_nonce = (\<lambda>m. marked (ern_rand_nonce m) @ ern_public_key m),
       deser_exchange_rand_nonce = (\<lambda>bs. map_option (\<lambda>(n, pk). \<lparr> ern_rand_nonce = n, ern_public_key = pk \<rparr>) (unmarked bs)),
       ser_exchange_dh = (\<lambda>m. marked (ed_dh_public_key m) @ marked (ed_rand_nonce m) @ marked (ed_key_salt m) @ ed_signature m),
       deser_exchange_dh = (\<lambda>bs.
         case unmarked bs of Some (pk, bs) \<Rightarrow>
           (case unmarked bs of Some (n, bs) \<Rightarrow>
              map_option (\<lambda>(salt, sig). \<lparr> ed_dh_public_key = pk, ed_rand_nonce = n, ed_key_salt = salt, ed_signature = sig \<rparr>) (unmarked bs)
            | None \<Rightarrow> None)
         | None \<Rightarrow> None) \<rparr>"

lemma example_codec_ok: "codec_ok example_codec"
  by (simp add: codec_ok_def example_codec_def)

text \<open>A signature is the key followed by the message.\<close>

definition example_signatures :: crypto_api where
  "example_signatures = \<lparr> sha_512_256 = (\<lambda>m. m), verify_signature = (\<lambda>m pk sig. sig = pk @ m) \<rparr>"

definition example_rand :: "u8 \<Rightarrow> u8 sc_rand" where
  "example_rand i = \<lparr> sr_dh_private_key = Some i, sr_salt = Some [i], sr_padding_len = Some [0, 2], sr_padding = (\<lambda>n. Some (replicate n i)) \<rparr>"

lemma example_rand_ok [simp]: "rand_ok (example_rand i)" "sr_salt (example_rand i) = Some [i]"
  by (simp_all add: rand_ok_def example_rand_def)

definition example_node :: "public_key \<Rightarrow> bytes \<Rightarrow> u8 \<Rightarrow> exchange_rand_nonce \<Rightarrow> exchange_dh
    \<Rightarrow> ((bytes \<times> bytes) \<times> u8 sc_state, secure_channel_error) res" where
  "example_node pk n i ern ed =
     initial_exchange example_channel_api example_signatures example_codec (Some pk) (\<lambda>m. Some (pk @ m)) None (Some n) (example_rand i)
       True True (Some (ser_exchange_rand_nonce example_codec ern)) (Some (ser_exchange_dh example_codec ed))"

definition example_keys :: "u8 \<Rightarrow> bytes \<Rightarrow> bytes \<Rightarrow> bytes \<Rightarrow> exchange_dh" where
  "example_keys i n salt pk = \<lparr> ed_dh_public_key = [i], ed_rand_nonce = n, ed_key_salt = salt, ed_signature = pk @ [i] @ n @ salt \<rparr>"

definition example_state :: "public_key \<Rightarrow> public_key \<Rightarrow> bytes \<Rightarrow> bytes \<Rightarrow> u8 sc_state" where
  "example_state local_pk remote_pk ks kr =
     \<lparr> ss_local_public_key = local_pk, ss_remote_public_key = remote_pk,
       ss_sender = \<lparr> en_sealing_key = ks, en_nonce_counter = nonce_counter_new \<rparr>,
       ss_receiver = \<lparr> de_opening_key = kr, de_nonce_counter = nonce_counter_new \<rparr>,
       ss_opt_old_receiver = None, ss_opt_pending_rekey = None \<rparr>"

lemma example_handshake:
  "example_node [10] [7] 3 \<lparr> ern_rand_nonce = [8], ern_public_key = [20] \<rparr> (example_keys 5 [7] [5] [20]) =
     Ok ((ser_exchange_rand_nonce example_codec \<lparr> ern_rand_nonce = [7], ern_public_key = [10] \<rparr>,
          ser_exchange_dh example_codec (example_keys 3 [8] [3] [10])), example_state [10] [20] [3] [5])"
  "example_node [20] [8] 5 \<lparr> ern_rand_nonce = [7], ern_public_key = [10] \<rparr> (example_keys 3 [8] [3] [10]) =
     Ok ((ser_exchange_rand_nonce example_codec \<lparr> ern_rand_nonce = [8], ern_public_key = [20] \<rparr>,
          ser_exchange_dh example_codec (example_keys 5 [7] [5] [20])), example_state [20] [10] [5] [3])"
  by code_simp+

text \<open>Both ends start a new key at once, and data is sent before and after the change.\<close>

definition example_channel_events :: "(bool \<times> u8 chan_event) list" where
  "example_channel_events =
     [(True, CeTick (example_rand 11)), (False, CeTick (example_rand 12)), (True, CeUser [1] (example_rand 13)),
      (False, CeDeliver (example_rand 14)), (True, CeDeliver (example_rand 15)), (True, CeUser [2] (example_rand 16)),
      (False, CeDeliver (example_rand 17)), (False, CeDeliver (example_rand 18))]"

lemma example_channel_facts:
  "\<forall>e \<in> set example_channel_events. rand_ok (event_rand (snd e))"
  "distinct (the (sr_salt (example_rand 3)) # the (sr_salt (example_rand 5)) # map event_salt example_channel_events)"
  by (simp_all add: example_channel_events_def)

lemma example_channel_run:
  "case chan_run example_channel_api 0 example_channel_events
      (new_end 0 (example_state [10] [20] [3] [5]), new_end 0 (example_state [20] [10] [5] [3])) of
     Ok (a, b) \<Rightarrow> ce_inbox b = [] \<and> ce_sent a = [[1], [2]] | _ \<Rightarrow> False"
  by code_simp

theorem secure_channel_delivers_witness:
  "\<exists>a b. chan_run example_channel_api 0 example_channel_events
      (new_end 0 (example_state [10] [20] [3] [5]), new_end 0 (example_state [20] [10] [5] [3])) = Ok (a, b)
    \<and> ce_received b = [[1], [2]]"
  using secure_channel_delivers [OF example_primitives_ok example_codec_ok example_handshake [unfolded example_node_def]
      example_channel_facts, of 0] example_channel_run
  by (auto split: res.splits)

theorem exchange_authenticates_key_witness:
  "verify_signature example_signatures ([5] @ [7] @ [5]) [20] ([20] @ [5] @ [7] @ [5])
   \<and> (\<exists>d salt. sr_dh_private_key (example_rand 3) = Some d \<and> sr_salt (example_rand 3) = Some salt
      \<and> derive_symmetric_key example_channel_api d [5] salt [5] = Some ([3], [5]))"
proof -
  have "deser_exchange_dh example_codec (ser_exchange_dh example_codec (example_keys 5 [7] [5] [20])) = Some (example_keys 5 [7] [5] [20])"
    by (simp add: example_codec_def)
  then show ?thesis
    using exchange_authenticates_key [OF example_handshake(1) [unfolded example_node_def]]
    by (simp add: example_state_def example_keys_def)
qed

theorem exchange_does_not_bind_peer_witness:
  "\<exists>a2 b1 b2 ed sa sb.
      initial_exchange example_channel_api example_signatures example_codec (Some [10]) (\<lambda>m. Some ([10] @ m)) (Some [20])
        (Some [7]) (example_rand 3) True True (Some b1) (Some b2) =
        Ok ((ser_exchange_rand_nonce example_codec \<lparr> ern_rand_nonce = [7], ern_public_key = [10] \<rparr>, a2), sa)
    \<and> initial_exchange example_channel_api example_signatures example_codec (Some [20]) (\<lambda>m. Some ([20] @ m)) (Some [30])
        (Some [8]) (example_rand 5) True True
        (Some (ser_exchange_rand_nonce example_codec \<lparr> ern_rand_nonce = [7], ern_public_key = [30] \<rparr>))
        (Some (ser_exchange_dh example_codec (ed\<lparr> ed_signature := [30] @ exchange_signature_buffer ed \<rparr>))) = Ok ((b1, b2), sb)
    \<and> ss_remote_public_key sa = [20] \<and> ss_remote_public_key sb = [30]
    \<and> de_opening_key (ss_receiver sb) = en_sealing_key (ss_sender sa)"
proof -
  have s: "\<forall>m. \<exists>sig. Some ([10] @ m) = Some sig"
    "\<forall>m. \<exists>sig. Some ([20] @ m) = Some sig \<and> verify_signature example_signatures m [20] sig"
    "\<forall>m. verify_signature example_signatures m [30] ([30] @ m)"
    by (simp_all add: example_signatures_def)
  show ?thesis
    using exchange_does_not_bind_peer [OF example_primitives_ok example_codec_ok example_rand_ok(1) [of 3] example_rand_ok(1) [of 5] s,
        where pkA = "[10]" and rnA = "[7]" and rnB = "[8]"] by blast
qed

theorem short_frame_panics_witness:
  "secure_channel_step example_channel_api 0 (example_rand 1) True True (ScReader [1, 2, 3])
     \<lparr> sl_dh_state = example_state [10] [20] [3] [5], sl_cur_ticks_to_rekey = 0 \<rparr> = Panic"
proof -
  have "\<forall>d. dh_public example_channel_api d \<noteq> None" "\<forall>k n m. aead_seal example_channel_api k n m \<noteq> None"
    by (simp_all add: example_channel_api_def)
  from short_frame_panics [OF example_rand_ok(1) this] show ?thesis by (simp add: ENC_NONCE_LEN_def)
qed

end
