(* ===== verification/ConnectPool.thy ===== *)
theory ConnectPool
  imports Prelude "HOL-Library.Multiset"
begin

text \<open>
  The connect pool of the channeler (\<open>channeler/src/connect_pool.rs\<close>): it keeps trying the relay
  addresses of a friend in turn until a connection is made, when one is requested.

  A response sender is a value of a type parameter. The canceler of a connection attempt is the
  number of the attempt. Whether the task of an attempt can be spawned is a function of its
  number, and the order in which a hash set is iterated is a function of the list of its elements;
  both are arguments. The attempts that are started and cancelled and the responses are recorded
  in order. An attempt reports once that it is done, with no connection when it was cancelled.
\<close>

section \<open>The pool\<close>

datatype connect_pool_error = CpSpawnError | MultipleConnectRequests

datatype ('ra, 'r, 'conn) cp_event =
    ConnectRequest 'r
  | ConnectRequestClosed
  | ConfigRequest "'ra list"
  | ConfigRequestClosed
  | ConnectAttemptDone "'conn option"
  | CpTimerTick
  | CpTimerClosed

datatype ('ra, 'r) cp_status =
    NoRequest
  | Waiting nat 'r
  | Connecting 'ra nat 'r

datatype ('ra, 'r, 'conn) cp_output =
    StartAttempt nat 'ra
  | CancelAttempt nat
  | DropCanceler nat
  | Respond 'r 'conn

record ('ra, 'r, 'conn) connect_pool =
  cp_addresses :: "'ra list"
  cp_status :: "('ra, 'r) cp_status"
  cp_backoff_ticks :: nat
  cp_attempts :: nat
  cp_out :: "('ra, 'r, 'conn) cp_output list"

definition connect_pool_new :: "nat \<Rightarrow> ('ra, 'r, 'conn) connect_pool" where
  "connect_pool_new backoff_ticks =
     \<lparr> cp_addresses = [], cp_status = NoRequest, cp_backoff_ticks = backoff_ticks, cp_attempts = 0, cp_out = [] \<rparr>"

definition create_conn_attempt ::
  "(nat \<Rightarrow> bool) \<Rightarrow> 'ra \<Rightarrow> ('ra, 'r, 'conn) connect_pool \<Rightarrow> (nat \<times> ('ra, 'r, 'conn) connect_pool, connect_pool_error) res" where
  "create_conn_attempt spawns address p =
     (if spawns (cp_attempts p)
      then Ok (cp_attempts p, p\<lparr> cp_attempts := cp_attempts p + 1, cp_out := cp_out p @ [StartAttempt (cp_attempts p) address] \<rparr>)
      else Err CpSpawnError)"

text \<open>An attempt with the address that was taken from the front; the status is set when it was spawned.\<close>

definition start_connecting ::
  "(nat \<Rightarrow> bool) \<Rightarrow> 'ra \<Rightarrow> 'r \<Rightarrow> ('ra, 'r, 'conn) connect_pool \<Rightarrow> (('ra, 'r, 'conn) connect_pool, connect_pool_error) res" where
  "start_connecting spawns address response_sender p =
     res_bind (create_conn_attempt spawns address p) (\<lambda>(canceler, p).
       Ok (p\<lparr> cp_status := Connecting address canceler response_sender \<rparr>))"

definition handle_connect_request ::
  "(nat \<Rightarrow> bool) \<Rightarrow> 'r \<Rightarrow> ('ra, 'r, 'conn) connect_pool \<Rightarrow> (('ra, 'r, 'conn) connect_pool, connect_pool_error) res" where
  "handle_connect_request spawns response_sender p =
     (case cp_status p of
        NoRequest \<Rightarrow>
          (case cp_addresses p of
             [] \<Rightarrow> Ok (p\<lparr> cp_status := Waiting 0 response_sender \<rparr>)
           | address # addresses \<Rightarrow> start_connecting spawns address response_sender (p\<lparr> cp_addresses := addresses \<rparr>))
      | _ \<Rightarrow> Err MultipleConnectRequests)"

definition add_address ::
  "(nat \<Rightarrow> bool) \<Rightarrow> 'ra \<Rightarrow> ('ra, 'r, 'conn) connect_pool \<Rightarrow> (('ra, 'r, 'conn) connect_pool, connect_pool_error) res" where
  "add_address spawns address p =
     (let was_empty = (cp_addresses p = []);
          p = (if address \<notin> set (cp_addresses p) then p\<lparr> cp_addresses := cp_addresses p @ [address] \<rparr> else p)
      in case (was_empty, cp_status p) of
           (True, Waiting _ response_sender) \<Rightarrow>
             (case cp_addresses p of
                [] \<Rightarrow> Panic
              | address # addresses \<Rightarrow> start_connecting spawns address response_sender (p\<lparr> cp_addresses := addresses \<rparr>))
         | _ \<Rightarrow> Ok p)"

definition remove_address ::
  "(nat \<Rightarrow> bool) \<Rightarrow> 'ra \<Rightarrow> ('ra, 'r, 'conn) connect_pool \<Rightarrow> (('ra, 'r, 'conn) connect_pool, connect_pool_error) res" where
  "remove_address spawns address p =
     (let p = p\<lparr> cp_addresses := filter (\<lambda>cur_address. cur_address \<noteq> address) (cp_addresses p) \<rparr>
      in case cp_status p of
           Connecting cur_address canceler response_sender \<Rightarrow>
             if address = cur_address
             then
               (let p = p\<lparr> cp_out := cp_out p @ [CancelAttempt canceler] \<rparr>
                in case cp_addresses p of
                     address # addresses \<Rightarrow> start_connecting spawns address response_sender (p\<lparr> cp_addresses := addresses \<rparr>)
                   | [] \<Rightarrow> Ok (p\<lparr> cp_status := Waiting 0 response_sender \<rparr>))
             else Ok p
         | _ \<Rightarrow> Ok p)"

fun for_addresses ::
  "('ra \<Rightarrow> ('ra, 'r, 'conn) connect_pool \<Rightarrow> (('ra, 'r, 'conn) connect_pool, connect_pool_error) res) \<Rightarrow> 'ra list
    \<Rightarrow> ('ra, 'r, 'conn) connect_pool \<Rightarrow> (('ra, 'r, 'conn) connect_pool, connect_pool_error) res" where
  "for_addresses f [] p = Ok p"
| "for_addresses f (address # addresses) p = res_bind (f address p) (for_addresses f addresses)"

definition handle_config_request ::
  "(nat \<Rightarrow> bool) \<Rightarrow> ('ra list \<Rightarrow> 'ra list) \<Rightarrow> 'ra list \<Rightarrow> ('ra, 'r, 'conn) connect_pool
    \<Rightarrow> (('ra, 'r, 'conn) connect_pool, connect_pool_error) res" where
  "handle_config_request spawns iter config p =
     (let old_addresses = remdups (cp_addresses p);
          new_addresses = remdups config;
          removed = iter (filter (\<lambda>a. a \<notin> set new_addresses) old_addresses);
          added = iter (filter (\<lambda>a. a \<notin> set old_addresses) new_addresses)
      in res_bind (for_addresses (remove_address spawns) removed p) (for_addresses (add_address spawns) added))"

definition cp_handle_timer_tick ::
  "(nat \<Rightarrow> bool) \<Rightarrow> ('ra, 'r, 'conn) connect_pool \<Rightarrow> (('ra, 'r, 'conn) connect_pool, connect_pool_error) res" where
  "cp_handle_timer_tick spawns p =
     (case cp_status p of
        Waiting backoff_ticks response_sender \<Rightarrow>
          (let backoff_ticks = backoff_ticks - 1
           in if backoff_ticks = 0
              then
                (case cp_addresses p of
                   address # addresses \<Rightarrow> start_connecting spawns address response_sender (p\<lparr> cp_addresses := addresses \<rparr>)
                 | [] \<Rightarrow> Ok (p\<lparr> cp_status := Waiting (cp_backoff_ticks p) response_sender \<rparr>))
              else Ok (p\<lparr> cp_status := Waiting backoff_ticks response_sender \<rparr>))
      | _ \<Rightarrow> Ok p)"

definition handle_connect_attempt_done ::
  "'conn option \<Rightarrow> ('ra, 'r, 'conn) connect_pool \<Rightarrow> (('ra, 'r, 'conn) connect_pool, connect_pool_error) res" where
  "handle_connect_attempt_done opt_conn p =
     (case cp_status p of
        Connecting address canceler response_sender \<Rightarrow>
          (let p = p\<lparr> cp_addresses := cp_addresses p @ [address] \<rparr>
           in Ok (case opt_conn of
                Some conn \<Rightarrow> p\<lparr> cp_status := NoRequest, cp_out := cp_out p @ [Respond response_sender conn, DropCanceler canceler] \<rparr>
              | None \<Rightarrow> p\<lparr> cp_status := Waiting (cp_backoff_ticks p) response_sender, cp_out := cp_out p @ [DropCanceler canceler] \<rparr>))
      | _ \<Rightarrow> Panic)"

text \<open>One event; \<open>None\<close> when the loop ends.\<close>

definition connect_pool_step ::
  "(nat \<Rightarrow> bool) \<Rightarrow> ('ra list \<Rightarrow> 'ra list) \<Rightarrow> ('ra, 'r, 'conn) cp_event \<Rightarrow> ('ra, 'r, 'conn) connect_pool
    \<Rightarrow> (('ra, 'r, 'conn) connect_pool option, connect_pool_error) res" where
  "connect_pool_step spawns iter event p =
     (case event of
        ConnectRequest response_sender \<Rightarrow> res_bind (handle_connect_request spawns response_sender p) (\<lambda>p. Ok (Some p))
      | ConnectRequestClosed \<Rightarrow> Ok None
      | ConfigRequest config \<Rightarrow> res_bind (handle_config_request spawns iter config p) (\<lambda>p. Ok (Some p))
      | ConfigRequestClosed \<Rightarrow> Ok None
      | CpTimerTick \<Rightarrow> res_bind (cp_handle_timer_tick spawns p) (\<lambda>p. Ok (Some p))
      | CpTimerClosed \<Rightarrow> Ok None
      | ConnectAttemptDone opt_conn \<Rightarrow> res_bind (handle_connect_attempt_done opt_conn p) (\<lambda>p. Ok (Some p)))"

fun connect_pool_loop ::
  "(nat \<Rightarrow> bool) \<Rightarrow> ('ra list \<Rightarrow> 'ra list) \<Rightarrow> ('ra, 'r, 'conn) cp_event list \<Rightarrow> ('ra, 'r, 'conn) connect_pool
    \<Rightarrow> (('ra, 'r, 'conn) connect_pool, connect_pool_error) res" where
  "connect_pool_loop spawns iter [] p = Ok p"
| "connect_pool_loop spawns iter (event # events) p =
     res_bind (connect_pool_step spawns iter event p) (\<lambda>opt_p.
       case opt_p of Some p \<Rightarrow> connect_pool_loop spawns iter events p | None \<Rightarrow> Ok p)"

section \<open>Invariant\<close>

definition iterates :: "('ra list \<Rightarrow> 'ra list) \<Rightarrow> bool" where
  "iterates iter \<longleftrightarrow> (\<forall>xs. mset (iter xs) = mset xs)"

lemma iteratesD:
  assumes "iterates iter"
  shows "set (iter xs) = set xs" "distinct xs \<Longrightarrow> distinct (iter xs)" "iter [] = []" "iter [x] = [x]"
proof -
  have m: "mset (iter ys) = mset ys" for ys using assms by (simp add: iterates_def)
  show "set (iter xs) = set xs" using m [of xs] by (metis set_mset_mset)
  show "distinct xs \<Longrightarrow> distinct (iter xs)" using m [of xs] by (metis mset_eq_imp_distinct_iff)
  show "iter [] = []" "iter [x] = [x]" using m [of "[]"] m [of "[x]"] by simp_all
qed

fun is_connecting :: "('ra, 'r) cp_status \<Rightarrow> bool" where
  "is_connecting (Connecting _ _ _) = True"
| "is_connecting _ = False"

fun waiting_request :: "('ra, 'r) cp_status \<Rightarrow> 'r list" where
  "waiting_request NoRequest = []"
| "waiting_request (Waiting _ r) = [r]"
| "waiting_request (Connecting _ _ r) = [r]"

fun waited_ticks :: "('ra, 'r) cp_status \<Rightarrow> nat" where
  "waited_ticks (Waiting k _) = k"
| "waited_ticks _ = 0"

fun tried_address :: "('ra, 'r) cp_status \<Rightarrow> 'ra list" where
  "tried_address (Connecting a _ _) = [a]"
| "tried_address _ = []"

definition responded :: "('ra, 'r, 'conn) cp_output list \<Rightarrow> 'r list" where
  "responded out = concat (map (\<lambda>m. case m of Respond r _ \<Rightarrow> [r] | _ \<Rightarrow> []) out)"

lemma responded_simps [simp]:
  "responded [] = []" "responded (out @ out') = responded out @ responded out'"
  "responded (m # out) = (case m of Respond r _ \<Rightarrow> [r] | _ \<Rightarrow> []) @ responded out"
  by (simp_all add: responded_def)

text \<open>
  The addresses of the pool with the one that is tried are those of the last configuration, each
  once. Requests are answered or waiting, in their order.
\<close>

definition pool_inv :: "'ra set \<Rightarrow> 'r list \<Rightarrow> nat \<Rightarrow> ('ra, 'r, 'conn) connect_pool \<Rightarrow> bool" where
  "pool_inv known requests finished p \<longleftrightarrow>
     distinct (tried_address (cp_status p) @ cp_addresses p)
     \<and> set (tried_address (cp_status p) @ cp_addresses p) = known
     \<and> responded (cp_out p) @ waiting_request (cp_status p) = requests
     \<and> finished + length (tried_address (cp_status p)) = cp_attempts p
     \<and> waited_ticks (cp_status p) \<le> cp_backoff_ticks p"

lemma start_connecting_Ok:
  assumes "\<forall>n. spawns n"
  shows "start_connecting spawns a r p =
    Ok (p\<lparr> cp_attempts := cp_attempts p + 1, cp_out := cp_out p @ [StartAttempt (cp_attempts p) a], cp_status := Connecting a (cp_attempts p) r \<rparr>)"
  using assms by (simp add: start_connecting_def create_conn_attempt_def)

lemma remove_idle:
  assumes "\<not> is_connecting (cp_status p)"
  shows "remove_address spawns a p = Ok (p\<lparr> cp_addresses := filter (\<lambda>x. x \<noteq> a) (cp_addresses p) \<rparr>)"
  using assms by (cases "cp_status p") (simp_all add: remove_address_def)

lemma remove_all_idle:
  assumes "\<not> is_connecting (cp_status p)"
  shows "for_addresses (remove_address spawns) as p = Ok (p\<lparr> cp_addresses := filter (\<lambda>x. x \<notin> set as) (cp_addresses p) \<rparr>)"
  using assms
proof (induction as arbitrary: p)
  case (Cons a as)
  then show ?case by (simp add: remove_idle)
qed simp

lemma add_one:
  assumes "pool_inv known requests d p" "a \<notin> known" "\<forall>n. spawns n"
  shows "\<exists>p'. add_address spawns a p = Ok p' \<and> pool_inv (insert a known) requests d p' \<and> cp_backoff_ticks p' = cp_backoff_ticks p"
  using assms(1,2)
  by (cases "cp_status p"; cases "cp_addresses p") (auto simp: add_address_def pool_inv_def start_connecting_Ok [OF assms(3)])

lemma add_all:
  assumes "pool_inv known requests d p" "set as \<inter> known = {}" "distinct as" "\<forall>n. spawns n"
  shows "\<exists>p'. for_addresses (add_address spawns) as p = Ok p' \<and> pool_inv (set as \<union> known) requests d p' \<and> cp_backoff_ticks p' = cp_backoff_ticks p"
  using assms
proof (induction as arbitrary: p known)
  case (Cons a as)
  obtain t where t: "add_address spawns a p = Ok t" "pool_inv (insert a known) requests d t" "cp_backoff_ticks t = cp_backoff_ticks p"
    using add_one [OF Cons.prems(1) _ Cons.prems(4), of a] Cons.prems(2) by auto
  then show ?case using Cons.IH [OF t(2)] Cons.prems(2-4) by fastforce
qed simp

lemma config_idle:
  assumes "pool_inv known requests d p" "\<not> is_connecting (cp_status p)" "\<forall>n. spawns n" "iterates iter"
  shows "\<exists>p'. handle_config_request spawns iter config p = Ok p' \<and> pool_inv (set config) requests d p' \<and> cp_backoff_ticks p' = cp_backoff_ticks p"
proof -
  let ?removed = "iter (filter (\<lambda>a. a \<notin> set config) (remdups (cp_addresses p)))"
  let ?added = "iter (filter (\<lambda>a. a \<notin> set (cp_addresses p)) (remdups config))"
  let ?p = "p\<lparr> cp_addresses := filter (\<lambda>x. x \<notin> set ?removed) (cp_addresses p) \<rparr>"
  have idle: "tried_address (cp_status p) = []" using assms(2) by (cases "cp_status p") simp_all
  have rest: "set (cp_addresses ?p) = set (cp_addresses p) \<inter> set config" using iteratesD(1) [OF assms(4)] by auto
  have inv: "pool_inv (set (cp_addresses p) \<inter> set config) requests d ?p"
    using assms(1) idle rest by (simp add: pool_inv_def)
  have "\<exists>p'. for_addresses (add_address spawns) ?added ?p = Ok p'
      \<and> pool_inv (set ?added \<union> (set (cp_addresses p) \<inter> set config)) requests d p' \<and> cp_backoff_ticks p' = cp_backoff_ticks ?p"
    by (rule add_all [OF inv _ _ assms(3)]) (auto simp: iteratesD [OF assms(4)])
  moreover have "set ?added \<union> (set (cp_addresses p) \<inter> set config) = set config" using iteratesD(1) [OF assms(4)] by auto
  ultimately show ?thesis using remove_all_idle [OF assms(2), of spawns ?removed] by (simp add: handle_config_request_def)
qed

section \<open>Runs\<close>

text \<open>
  What the pool expects: a request when none is open, a configuration when no attempt is running,
  and the end of an attempt that was started and has not ended. A second request while one is open
  cannot come from the one client of a pool. A configuration during an attempt can come, and then
  the addresses may be wrong afterwards: the address being tried is not in the list, so even a
  configuration that repeats it adds it again, and it is there twice when the attempt has ended.
  Runs with such a configuration are left out.
\<close>

fun expected :: "nat \<Rightarrow> ('ra, 'r, 'conn) connect_pool \<Rightarrow> ('ra, 'r, 'conn) cp_event \<Rightarrow> bool" where
  "expected finished p (ConnectRequest r) = (cp_status p = NoRequest)"
| "expected finished p (ConfigRequest config) = (\<not> is_connecting (cp_status p))"
| "expected finished p (ConnectAttemptDone c) = (finished < cp_attempts p)"
| "expected finished p CpTimerTick = True"
| "expected finished p _ = False"

fun next_known :: "('ra, 'r, 'conn) cp_event \<Rightarrow> 'ra set \<Rightarrow> 'ra set" where
  "next_known (ConfigRequest config) known = set config"
| "next_known _ known = known"

fun next_requests :: "('ra, 'r, 'conn) cp_event \<Rightarrow> 'r list \<Rightarrow> 'r list" where
  "next_requests (ConnectRequest r) requests = requests @ [r]"
| "next_requests _ requests = requests"

fun next_finished :: "('ra, 'r, 'conn) cp_event \<Rightarrow> nat \<Rightarrow> nat" where
  "next_finished (ConnectAttemptDone c) finished = finished + 1"
| "next_finished _ finished = finished"

inductive pool_run ::
  "(nat \<Rightarrow> bool) \<Rightarrow> ('ra list \<Rightarrow> 'ra list) \<Rightarrow> nat \<Rightarrow> 'ra set \<Rightarrow> 'r list \<Rightarrow> nat \<Rightarrow> ('ra, 'r, 'conn) connect_pool \<Rightarrow> bool"
  for spawns iter backoff where
  pool_start: "pool_run spawns iter backoff {} [] 0 (connect_pool_new backoff)"
| pool_step: "pool_run spawns iter backoff known requests finished p \<Longrightarrow> expected finished p e
    \<Longrightarrow> connect_pool_step spawns iter e p = Ok (Some p')
    \<Longrightarrow> pool_run spawns iter backoff (next_known e known) (next_requests e requests) (next_finished e finished) p'"

lemma pool_step_inv:
  assumes "pool_inv known requests finished p" "expected finished p e" "\<forall>n. spawns n" "iterates iter"
  shows "\<exists>p'. connect_pool_step spawns iter e p = Ok (Some p')
    \<and> pool_inv (next_known e known) (next_requests e requests) (next_finished e finished) p' \<and> cp_backoff_ticks p' = cp_backoff_ticks p"
proof (cases e)
  case (ConnectRequest r)
  then show ?thesis using assms(1,2)
    by (cases "cp_addresses p") (auto simp: start_connecting_Ok [OF assms(3)] connect_pool_step_def handle_connect_request_def pool_inv_def)
next
  case (ConfigRequest config)
  then show ?thesis using config_idle [OF assms(1) _ assms(3,4), of config] assms(2) by (auto simp: connect_pool_step_def)
next
  case (ConnectAttemptDone c)
  then show ?thesis using assms(1,2)
    by (cases "cp_status p") (auto simp: connect_pool_step_def handle_connect_attempt_done_def pool_inv_def Let_def split: option.split)
next
  case CpTimerTick
  then show ?thesis using assms(1)
    by (cases "cp_status p"; cases "cp_addresses p")
       (auto simp: start_connecting_Ok [OF assms(3)] connect_pool_step_def cp_handle_timer_tick_def pool_inv_def Let_def)
qed (use assms(2) in simp_all)

lemma pool_run_inv:
  assumes "pool_run spawns iter backoff known requests finished p" "\<forall>n. spawns n" "iterates iter"
  shows "pool_inv known requests finished p \<and> cp_backoff_ticks p = backoff"
  using assms(1)
proof (induction rule: pool_run.induct)
  case pool_start
  show ?case by (simp add: pool_inv_def connect_pool_new_def)
next
  case (pool_step known requests finished p e p')
  then show ?case using pool_step_inv [OF _ pool_step.hyps(2) assms(2,3)] by fastforce
qed

text \<open>A waiting pool tries the next address after the ticks it waits for.\<close>

lemma ticks_connect:
  assumes "cp_status p = Waiting k r" "cp_addresses p = a # as" "\<forall>n. spawns n"
  shows "connect_pool_loop spawns iter (replicate (max 1 k) CpTimerTick) p =
    Ok (p\<lparr> cp_addresses := as, cp_attempts := cp_attempts p + 1, cp_out := cp_out p @ [StartAttempt (cp_attempts p) a],
         cp_status := Connecting a (cp_attempts p) r \<rparr>)"
  using assms(1,2)
proof (induction k arbitrary: p)
  case 0
  then show ?case by (simp add: connect_pool_step_def cp_handle_timer_tick_def start_connecting_Ok [OF assms(3)])
next
  case (Suc k)
  show ?case
  proof (cases "k = 0")
    case True
    then show ?thesis using Suc.prems
      by (simp add: connect_pool_step_def cp_handle_timer_tick_def start_connecting_Ok [OF assms(3)])
  next
    case False
    then have "replicate (max 1 (Suc k)) CpTimerTick = CpTimerTick # replicate (max 1 k) CpTimerTick" by (cases k) simp_all
    then show ?thesis using Suc.prems False Suc.IH [of "p\<lparr> cp_status := Waiting k r \<rparr>"]
      by (simp add: connect_pool_step_def cp_handle_timer_tick_def)
  qed
qed

text \<open>
  C25: As long as no configuration arrives while an address is being tried, not even one that
  repeats the addresses already known, the connect pool works: no expected event makes it fail or
  panic, its addresses, with the one being tried, are those of the last configuration, each once,
  every request is answered by a connection or still waiting, in the order of the requests, and at
  most one attempt runs. A waiting pool that has an address tries its next one when the ticks it
  still has to wait, at most \<open>backoff_ticks\<close>, have passed, and at the next tick if there are none.
  Tasks can be spawned, and the sets of addresses are iterated without repetition.
\<close>

theorem connect_pool_serves:
  assumes "\<forall>n. spawns n" and "iterates iter" and "pool_run spawns iter backoff known requests finished p"
  shows "(\<forall>e. expected finished p e \<longrightarrow> (\<exists>p'. connect_pool_step spawns iter e p = Ok (Some p')))
    \<and> distinct (tried_address (cp_status p) @ cp_addresses p) \<and> set (tried_address (cp_status p) @ cp_addresses p) = known
    \<and> responded (cp_out p) @ waiting_request (cp_status p) = requests
    \<and> cp_attempts p = finished + (if is_connecting (cp_status p) then 1 else 0)
    \<and> (\<forall>k r. cp_status p = Waiting k r \<and> known \<noteq> {} \<longrightarrow> k \<le> backoff \<and>
         (\<exists>p'. connect_pool_loop spawns iter (replicate (max 1 k) CpTimerTick) p = Ok p'
            \<and> cp_status p' = Connecting (hd (cp_addresses p)) (cp_attempts p) r))"
proof -
  have inv: "pool_inv known requests finished p" "cp_backoff_ticks p = backoff" using pool_run_inv [OF assms(3,1,2)] by simp_all
  have tried: "length (tried_address (cp_status p)) = (if is_connecting (cp_status p) then 1 else 0)" by (cases "cp_status p") simp_all
  have "k \<le> backoff \<and> (\<exists>p'. connect_pool_loop spawns iter (replicate (max 1 k) CpTimerTick) p = Ok p'
      \<and> cp_status p' = Connecting (hd (cp_addresses p)) (cp_attempts p) r)"
    if w: "cp_status p = Waiting k r" "known \<noteq> {}" for k r
  proof -
    obtain a as where "cp_addresses p = a # as" using inv(1) w by (cases "cp_addresses p") (auto simp: pool_inv_def)
    then show ?thesis using ticks_connect [OF w(1) _ assms(1), of a as iter] inv w by (simp add: pool_inv_def)
  qed
  then show ?thesis using inv tried pool_step_inv [OF inv(1) _ assms(1,2)] by (fastforce simp: pool_inv_def)
qed

definition example_pool :: "nat list \<Rightarrow> (nat, nat) cp_status \<Rightarrow> nat \<Rightarrow> (nat, nat, nat) cp_output list \<Rightarrow> (nat, nat, nat) connect_pool" where
  "example_pool addresses status attempts out =
     \<lparr> cp_addresses = addresses, cp_status = status, cp_backoff_ticks = 2, cp_attempts = attempts, cp_out = out \<rparr>"

lemma example_pool_steps:
  "connect_pool_step (\<lambda>n. True) (\<lambda>xs. xs) (ConfigRequest [1, 2]) (connect_pool_new 2) = Ok (Some (example_pool [1, 2] NoRequest 0 []))"
  "connect_pool_step (\<lambda>n. True) (\<lambda>xs. xs) (ConnectRequest 7) (example_pool [1, 2] NoRequest 0 []) =
     Ok (Some (example_pool [2] (Connecting 1 0 7) 1 [StartAttempt 0 1]))"
  "connect_pool_step (\<lambda>n. True) (\<lambda>xs. xs) (ConnectAttemptDone None) (example_pool [2] (Connecting 1 0 7) 1 [StartAttempt 0 1]) =
     Ok (Some (example_pool [2, 1] (Waiting 2 7) 1 [StartAttempt 0 1, DropCanceler 0]))"
  by code_simp+

lemma example_pool_run:
  "pool_run (\<lambda>n. True) (\<lambda>xs. xs) 2 {1, 2} [7] 1 (example_pool [2, 1] (Waiting 2 7) 1 [StartAttempt 0 1, DropCanceler 0])"
proof -
  have "pool_run (\<lambda>n. True) (\<lambda>xs. xs) 2 {1, 2} [] 0 (example_pool [1, 2] NoRequest 0 [])"
    using pool_step [OF pool_start _ example_pool_steps(1)] by (simp add: connect_pool_new_def)
  from pool_step [OF this _ example_pool_steps(2)]
  have "pool_run (\<lambda>n. True) (\<lambda>xs. xs) 2 {1, 2} [7] 0 (example_pool [2] (Connecting 1 0 7) 1 [StartAttempt 0 1])" by (simp add: example_pool_def)
  from pool_step [OF this _ example_pool_steps(3)] show ?thesis by (simp add: example_pool_def)
qed

theorem connect_pool_serves_witness:
  "\<exists>p p' :: (nat, nat, nat) connect_pool. pool_run (\<lambda>n. True) (\<lambda>xs. xs) 2 {1, 2} [7] 1 p
    \<and> connect_pool_loop (\<lambda>n. True) (\<lambda>xs. xs) (replicate 2 CpTimerTick) p = Ok p' \<and> is_connecting (cp_status p')"
proof -
  let ?p = "example_pool [2, 1] (Waiting 2 7) 1 [StartAttempt 0 1, DropCanceler 0]"
  have it: "iterates (\<lambda>xs :: nat list. xs)" by (simp add: iterates_def)
  have status: "cp_status ?p = Waiting 2 7" by (simp add: example_pool_def)
  have "\<exists>p'. connect_pool_loop (\<lambda>n. True) (\<lambda>xs. xs) (replicate (max 1 2) CpTimerTick) ?p = Ok p'
      \<and> cp_status p' = Connecting (hd (cp_addresses ?p)) (cp_attempts ?p) 7"
    using connect_pool_serves [OF _ it example_pool_run] status by blast
  then show ?thesis using example_pool_run by (fastforce simp: max_def simp del: connect_pool_loop.simps)
qed

text \<open>
  A configuration that arrives while an address is tried does not count that address among
  the known ones. When it repeats the address and a later one replaces it, the pool cancels the
  attempt, starts one with the new address, takes the end of the cancelled attempt for the end of
  the new one, whose canceler it drops, and panics when the new attempt ends in turn.
\<close>

theorem changed_relays_panic:
  assumes "a \<noteq> b" and "\<forall>n. spawns n" and "iterates iter"
  shows "connect_pool_loop spawns iter [ConfigRequest [a], ConnectRequest r, ConfigRequest [a], ConfigRequest [b], ConnectAttemptDone None]
      (connect_pool_new backoff) =
        Ok \<lparr> cp_addresses = [b], cp_status = Waiting backoff r, cp_backoff_ticks = backoff, cp_attempts = 2,
             cp_out = [StartAttempt 0 a, CancelAttempt 0, StartAttempt 1 b, DropCanceler 1] \<rparr>
    \<and> connect_pool_loop spawns iter [ConfigRequest [a], ConnectRequest r, ConfigRequest [a], ConfigRequest [b], ConnectAttemptDone None,
        ConnectAttemptDone None] (connect_pool_new backoff) = Panic"
  using assms(1)
  by (simp add: connect_pool_step_def handle_config_request_def handle_connect_request_def add_address_def remove_address_def
      handle_connect_attempt_done_def connect_pool_new_def start_connecting_Ok [OF assms(2)] iteratesD(3,4) [OF assms(3)] Let_def)

theorem changed_relays_panic_witness:
  "connect_pool_loop (\<lambda>n. True) (\<lambda>xs. xs) [ConfigRequest [1 :: nat], ConnectRequest (), ConfigRequest [1], ConfigRequest [2],
     ConnectAttemptDone (None :: nat option), ConnectAttemptDone None] (connect_pool_new 3) = Panic"
proof -
  have it: "iterates (\<lambda>xs :: nat list. xs)" by (simp add: iterates_def)
  show ?thesis by (rule changed_relays_panic [OF _ _ it, THEN conjunct2]) simp_all
qed

end
