(* ===== verification/ListenPool.thy ===== *)
theory ListenPool
  imports ConnectPool
begin

text \<open>
  The listen pool of the channeler: which relays a node listens on, and which friends may connect
  through each of them (\<open>channeler/src/listen_pool_state.rs\<close>), the task that runs a listener per
  relay (\<open>channeler/src/listen_pool.rs\<close>), and the access control of a listener
  (\<open>common/src/access_control.rs\<close>).

  Hash sets are lists without repetition. A listener is its number; the sender that changes its
  access control carries that number. Whether the task of a listener can be spawned is a function
  of the number, and the order in which a hash set is iterated is a function of the list of its
  elements. Listeners that are started and changes of their access control are recorded.
\<close>

section \<open>Access control\<close>

datatype 'p access_control_op = AccessAdd 'p | AccessRemove 'p

type_synonym 'p access_control = "'p list"

definition access_control_new :: "'p access_control" where
  "access_control_new = []"

fun apply_op :: "'p access_control_op \<Rightarrow> 'p access_control \<Rightarrow> 'p access_control" where
  "apply_op (AccessAdd item) allowed = List.insert item allowed"
| "apply_op (AccessRemove item) allowed = removeAll item allowed"

definition is_allowed :: "'p access_control \<Rightarrow> 'p \<Rightarrow> bool" where
  "is_allowed allowed item \<longleftrightarrow> item \<in> set allowed"

section \<open>Relays and their friends\<close>

record ('p, 'st) relay =
  rl_friends :: "'p list"
  rl_status :: 'st

record ('ra, 'p, 'st) listen_pool_state =
  lp_relays :: "('ra, ('p, 'st) relay) hmap"
  lp_local_addresses :: "'ra list"

definition listen_pool_state_new :: "('ra, 'p, 'st) listen_pool_state" where
  "listen_pool_state_new = \<lparr> lp_relays = [], lp_local_addresses = [] \<rparr>"

text \<open>\<open>retain\<close> with a closure that may change the value.\<close>

definition retain_relays ::
  "('ra \<Rightarrow> ('p, 'st) relay \<Rightarrow> ('p, 'st) relay option) \<Rightarrow> ('ra, ('p, 'st) relay) hmap \<Rightarrow> ('ra, ('p, 'st) relay) hmap" where
  "retain_relays f m = List.map_filter (\<lambda>(a, r). map_option (Pair a) (f a r)) m"

definition set_local_addresses ::
  "('ra list \<Rightarrow> 'ra list) \<Rightarrow> 'ra list \<Rightarrow> ('ra, 'p, 'st) listen_pool_state
    \<Rightarrow> ('p list \<times> 'ra list) \<times> ('ra, 'p, 'st) listen_pool_state" where
  "set_local_addresses iter local_addresses s =
     (let new_local = iter (remdups local_addresses);
          relays = retain_relays (\<lambda>relay_address relay.
              if rl_friends relay \<noteq> [] \<or> relay_address \<in> set local_addresses then Some relay else None) (lp_relays s);
          new_addresses = filter (\<lambda>address. \<not> hm_contains relays address) new_local;
          relay_friends = fold List.insert (concat (map (\<lambda>(a, relay). rl_friends relay) relays)) []
      in ((relay_friends, new_addresses), \<lparr> lp_relays = relays, lp_local_addresses = new_local \<rparr>))"

fun add_to_relays ::
  "'p \<Rightarrow> 'ra list \<Rightarrow> ('ra, ('p, 'st) relay) hmap \<Rightarrow> ('ra list \<times> 'ra list) \<times> ('ra, ('p, 'st) relay) hmap" where
  "add_to_relays friend [] relays = (([], []), relays)"
| "add_to_relays friend (address # addresses) relays =
     (case hm_get relays address of
        Some relay \<Rightarrow>
          if friend \<in> set (rl_friends relay) then add_to_relays friend addresses relays
          else
            (let ((relays_add, relays_spawn), relays) =
               add_to_relays friend addresses (hm_insert address (relay\<lparr> rl_friends := List.insert friend (rl_friends relay) \<rparr>) relays)
             in ((address # relays_add, relays_spawn), relays))
      | None \<Rightarrow>
          (let ((relays_add, relays_spawn), relays) = add_to_relays friend addresses relays
           in ((relays_add, address # relays_spawn), relays)))"

definition update_friend_relays ::
  "('ra list \<Rightarrow> 'ra list) \<Rightarrow> 'p \<Rightarrow> 'ra list \<Rightarrow> ('ra, 'p, 'st) listen_pool_state
    \<Rightarrow> ('ra list \<times> 'ra list \<times> 'ra list) \<times> ('ra, 'p, 'st) listen_pool_state" where
  "update_friend_relays iter friend addresses s =
     (let iter_addresses = iter (remdups (addresses @ lp_local_addresses s));
          ((relays_add, relays_spawn), relays) = add_to_relays friend iter_addresses (lp_relays s);
          relays_remove = map fst (filter (\<lambda>(a, relay).
              a \<notin> set addresses \<and> a \<notin> set (lp_local_addresses s) \<and> friend \<in> set (rl_friends relay)) relays);
          relays = retain_relays (\<lambda>a relay.
              if a \<in> set addresses \<or> a \<in> set (lp_local_addresses s) then Some relay
              else
                (let relay = relay\<lparr> rl_friends := removeAll friend (rl_friends relay) \<rparr>
                 in if rl_friends relay \<noteq> [] then Some relay else None)) relays
      in ((relays_add, relays_remove, relays_spawn), s\<lparr> lp_relays := relays \<rparr>))"

definition remove_friend_relays ::
  "'p \<Rightarrow> ('ra, 'p, 'st) listen_pool_state \<Rightarrow> 'ra list \<times> ('ra, 'p, 'st) listen_pool_state" where
  "remove_friend_relays friend s =
     (let relays_remove = map fst (filter (\<lambda>(a, relay). friend \<in> set (rl_friends relay)) (lp_relays s));
          relays = retain_relays (\<lambda>a relay.
              let relay = relay\<lparr> rl_friends := removeAll friend (rl_friends relay) \<rparr>
              in if rl_friends relay \<noteq> [] \<or> a \<in> set (lp_local_addresses s) then Some relay else None) (lp_relays s)
      in (relays_remove, s\<lparr> lp_relays := relays \<rparr>))"

section \<open>Listeners\<close>

datatype ('ra, 'p) lp_config =
    SetLocalAddresses "'ra list"
  | LpUpdateFriend 'p "'ra list"
  | LpRemoveFriend 'p

datatype listen_pool_error = LpSpawnError

datatype ('ra, 'p) lp_event =
    LpConfigEvent "('ra, 'p) lp_config"
  | LpConfigClosed
  | LpRelayClosed 'ra
  | LpTimerTick
  | LpTimerClosed

datatype relay_status = RelayWaiting nat | RelayConnected nat

datatype ('ra, 'p) lp_output =
    ListenOn nat 'ra "'p access_control"
  | ChangeAccess nat "'p access_control_op"

record ('ra, 'p) listen_pool =
  pl_state :: "('ra, 'p, relay_status) listen_pool_state"
  pl_backoff_ticks :: nat
  pl_listeners :: nat
  pl_out :: "('ra, 'p) lp_output list"

definition listen_pool_new :: "nat \<Rightarrow> ('ra, 'p) listen_pool" where
  "listen_pool_new backoff_ticks =
     \<lparr> pl_state = listen_pool_state_new, pl_backoff_ticks = backoff_ticks, pl_listeners = 0, pl_out = [] \<rparr>"

definition spawn_listen ::
  "(nat \<Rightarrow> bool) \<Rightarrow> 'ra \<Rightarrow> 'p list \<Rightarrow> ('ra, 'p) listen_pool \<Rightarrow> (nat \<times> ('ra, 'p) listen_pool, listen_pool_error) res" where
  "spawn_listen spawns address relay_friends p =
     (let access_control = fold (\<lambda>friend. apply_op (AccessAdd friend)) relay_friends access_control_new
      in if spawns (pl_listeners p)
         then Ok (pl_listeners p, p\<lparr> pl_listeners := pl_listeners p + 1,
                pl_out := pl_out p @ [ListenOn (pl_listeners p) address access_control] \<rparr>)
         else Err LpSpawnError)"

definition set_relay :: "'ra \<Rightarrow> ('p, relay_status) relay \<Rightarrow> ('ra, 'p) listen_pool \<Rightarrow> ('ra, 'p) listen_pool" where
  "set_relay address relay p = p\<lparr> pl_state := (pl_state p)\<lparr> lp_relays := hm_insert address relay (lp_relays (pl_state p)) \<rparr> \<rparr>"

fun spawn_relays ::
  "(nat \<Rightarrow> bool) \<Rightarrow> 'p list \<Rightarrow> 'ra list \<Rightarrow> ('ra, 'p) listen_pool \<Rightarrow> (('ra, 'p) listen_pool, listen_pool_error) res" where
  "spawn_relays spawns relay_friends [] p = Ok p"
| "spawn_relays spawns relay_friends (address # addresses) p =
     res_bind (spawn_listen spawns address relay_friends p) (\<lambda>(sender, p).
       spawn_relays spawns relay_friends addresses
         (set_relay address \<lparr> rl_friends = relay_friends, rl_status = RelayConnected sender \<rparr> p))"

definition send_access :: "'p access_control_op \<Rightarrow> 'ra \<Rightarrow> ('ra, 'p) listen_pool \<Rightarrow> ('ra, 'p) listen_pool" where
  "send_access oper address p =
     (case hm_get (lp_relays (pl_state p)) address of
        Some relay \<Rightarrow>
          (case rl_status relay of
             RelayConnected sender \<Rightarrow> p\<lparr> pl_out := pl_out p @ [ChangeAccess sender oper] \<rparr>
           | RelayWaiting _ \<Rightarrow> p)
      | None \<Rightarrow> p)"

definition lp_handle_config ::
  "(nat \<Rightarrow> bool) \<Rightarrow> ('ra list \<Rightarrow> 'ra list) \<Rightarrow> ('ra, 'p) lp_config \<Rightarrow> ('ra, 'p) listen_pool
    \<Rightarrow> (('ra, 'p) listen_pool, listen_pool_error) res" where
  "lp_handle_config spawns iter config p =
     (case config of
        SetLocalAddresses local_addresses \<Rightarrow>
          (let ((relay_friends, addresses), state) = set_local_addresses iter local_addresses (pl_state p)
           in spawn_relays spawns relay_friends addresses (p\<lparr> pl_state := state \<rparr>))
      | LpUpdateFriend friend addresses \<Rightarrow>
          (let ((relays_add, relays_remove, relays_spawn), state) = update_friend_relays iter friend addresses (pl_state p);
               p = fold (send_access (AccessAdd friend)) relays_add (p\<lparr> pl_state := state \<rparr>);
               p = fold (send_access (AccessRemove friend)) relays_remove p
           in spawn_relays spawns [friend] relays_spawn p)
      | LpRemoveFriend friend \<Rightarrow>
          (let (remove_relays, state) = remove_friend_relays friend (pl_state p)
           in Ok (fold (send_access (AccessRemove friend)) remove_relays (p\<lparr> pl_state := state \<rparr>))))"

definition handle_relay_closed :: "'ra \<Rightarrow> ('ra, 'p) listen_pool \<Rightarrow> ('ra, 'p) listen_pool" where
  "handle_relay_closed address p =
     (case hm_get (lp_relays (pl_state p)) address of
        Some relay \<Rightarrow> set_relay address (relay\<lparr> rl_status := RelayWaiting (pl_backoff_ticks p) \<rparr>) p
      | None \<Rightarrow> p)"

fun tick_status :: "relay_status \<Rightarrow> relay_status" where
  "tick_status (RelayWaiting remaining_ticks) = RelayWaiting (remaining_ticks - 1)"
| "tick_status (RelayConnected sender) = RelayConnected sender"

fun relisten ::
  "(nat \<Rightarrow> bool) \<Rightarrow> 'ra list \<Rightarrow> ('ra, 'p) listen_pool \<Rightarrow> (('ra, 'p) listen_pool, listen_pool_error) res" where
  "relisten spawns [] p = Ok p"
| "relisten spawns (address # addresses) p =
     res_bind (unwrap (hm_get (lp_relays (pl_state p)) address)) (\<lambda>relay.
     res_bind (spawn_listen spawns address (rl_friends relay) p) (\<lambda>(sender, p).
       relisten spawns addresses (set_relay address (relay\<lparr> rl_status := RelayConnected sender \<rparr>) p)))"

definition lp_handle_timer_tick ::
  "(nat \<Rightarrow> bool) \<Rightarrow> ('ra, 'p) listen_pool \<Rightarrow> (('ra, 'p) listen_pool, listen_pool_error) res" where
  "lp_handle_timer_tick spawns p =
     (let relays = hm_map_values (\<lambda>relay. relay\<lparr> rl_status := tick_status (rl_status relay) \<rparr>) (lp_relays (pl_state p));
          spawn_addresses = map fst (filter (\<lambda>(a, relay). rl_status relay = RelayWaiting 0) relays)
      in relisten spawns spawn_addresses (p\<lparr> pl_state := (pl_state p)\<lparr> lp_relays := relays \<rparr> \<rparr>))"

text \<open>One event; \<open>None\<close> when the loop ends.\<close>

definition listen_pool_step ::
  "(nat \<Rightarrow> bool) \<Rightarrow> ('ra list \<Rightarrow> 'ra list) \<Rightarrow> ('ra, 'p) lp_event \<Rightarrow> ('ra, 'p) listen_pool
    \<Rightarrow> (('ra, 'p) listen_pool option, listen_pool_error) res" where
  "listen_pool_step spawns iter event p =
     (case event of
        LpConfigEvent config \<Rightarrow> res_bind (lp_handle_config spawns iter config p) (\<lambda>p. Ok (Some p))
      | LpConfigClosed \<Rightarrow> Ok None
      | LpRelayClosed address \<Rightarrow> Ok (Some (handle_relay_closed address p))
      | LpTimerTick \<Rightarrow> res_bind (lp_handle_timer_tick spawns p) (\<lambda>p. Ok (Some p))
      | LpTimerClosed \<Rightarrow> Ok None)"

fun listen_pool_loop ::
  "(nat \<Rightarrow> bool) \<Rightarrow> ('ra list \<Rightarrow> 'ra list) \<Rightarrow> ('ra, 'p) lp_event list \<Rightarrow> ('ra, 'p) listen_pool
    \<Rightarrow> (('ra, 'p) listen_pool, listen_pool_error) res" where
  "listen_pool_loop spawns iter [] p = Ok p"
| "listen_pool_loop spawns iter (event # events) p =
     res_bind (listen_pool_step spawns iter event p) (\<lambda>opt_p.
       case opt_p of Some p \<Rightarrow> listen_pool_loop spawns iter events p | None \<Rightarrow> Ok p)"

section \<open>Who may connect where\<close>

text \<open>The address and the access control of a listener, after what was sent to it.\<close>

definition listener :: "nat \<Rightarrow> ('ra, 'p) lp_output list \<Rightarrow> ('ra \<times> 'p access_control) option" where
  "listener n out = fold (\<lambda>m acc. case m of
       ListenOn k a ac \<Rightarrow> if k = n then Some (a, ac) else acc
     | ChangeAccess k oper \<Rightarrow> if k = n then map_option (map_prod id (apply_op oper)) acc else acc) out None"

lemma listener_append [simp]:
  "listener n (out @ [ListenOn k a ac]) = (if k = n then Some (a, ac) else listener n out)"
  "listener n (out @ [ChangeAccess k oper]) = (if k = n then map_option (map_prod id (apply_op oper)) (listener n out) else listener n out)"
  by (simp_all add: listener_def)

definition relay_at :: "('ra, 'p) listen_pool \<Rightarrow> 'ra \<Rightarrow> ('p, relay_status) relay option" where
  "relay_at p a = hm_get (lp_relays (pl_state p)) a"

definition may_connect :: "('ra, 'p) listen_pool \<Rightarrow> 'ra \<Rightarrow> 'p \<Rightarrow> bool" where
  "may_connect p a f \<longleftrightarrow> (\<exists>relay. relay_at p a = Some relay \<and> f \<in> set (rl_friends relay))"

definition allows :: "('ra, 'p) listen_pool \<Rightarrow> 'ra \<Rightarrow> nat \<Rightarrow> 'p set \<Rightarrow> bool" where
  "allows p a n S \<longleftrightarrow> n < pl_listeners p \<and> (\<exists>ac. listener n (pl_out p) = Some (a, ac) \<and> set ac = S)"

text \<open>Each listener that is connected belongs to its relay; it lets in the friends the relay has had before the last change.\<close>

definition listeners_allow :: "('ra \<Rightarrow> ('p, relay_status) relay \<Rightarrow> 'p set) \<Rightarrow> ('ra, 'p) listen_pool \<Rightarrow> bool" where
  "listeners_allow g p \<longleftrightarrow> hm_ok (lp_relays (pl_state p))
     \<and> (\<forall>a relay n. relay_at p a = Some relay \<and> rl_status relay = RelayConnected n \<longrightarrow> allows p a n (g a relay))"

definition lp_inv :: "('ra, 'p) listen_pool \<Rightarrow> bool" where
  "lp_inv p \<longleftrightarrow> listeners_allow (\<lambda>a relay. set (rl_friends relay)) p"

subsection \<open>The state\<close>

lemma retain_keys: "fst ` set (retain_relays f m) \<subseteq> fst ` set m"
  by (induction m) (auto simp: retain_relays_def List.map_filter_simps split: option.splits)

lemma retain_ok: "hm_ok m \<Longrightarrow> hm_ok (retain_relays f m)"
proof (induction m)
  case (Cons p m)
  then have "fst p \<notin> fst ` set (retain_relays f m)" "hm_ok (retain_relays f m)"
    using retain_keys [of f m] by (auto simp: hm_ok_def)
  then show ?case by (cases p) (auto simp: hm_ok_def retain_relays_def List.map_filter_simps split: option.splits)
qed (simp add: retain_relays_def List.map_filter_simps)

lemma get_retain: "hm_ok m \<Longrightarrow> hm_get (retain_relays f m) k = Option.bind (hm_get m k) (f k)"
proof (induction m)
  case (Cons p m)
  obtain j v where p: "p = (j, v)" by (cases p)
  have "map_of (retain_relays f m) j = None"
    using Cons.prems p retain_keys [of f m] by (auto simp: hm_ok_def map_of_eq_None_iff)
  then show ?case using Cons p
    by (auto simp: retain_relays_def List.map_filter_simps hm_get_def hm_ok_def split: option.splits)
qed (simp add: retain_relays_def List.map_filter_simps)

lemma in_relays: "hm_ok m \<Longrightarrow> a \<in> set (map fst (filter (\<lambda>(a, r). P a r) m)) \<longleftrightarrow> (\<exists>r. hm_get m a = Some r \<and> P a r)"
  by (force simp: hm_ok_def hm_get_def map_of_eq_Some_iff image_iff)

definition added ::
  "'p \<Rightarrow> 'ra list \<Rightarrow> ('ra, ('p, 'st) relay) hmap \<Rightarrow> ('ra list \<times> 'ra list) \<times> ('ra, ('p, 'st) relay) hmap \<Rightarrow> bool" where
  "added f addresses m result \<longleftrightarrow>
     (let ((add, spawn), m') = result in
      hm_ok m'
      \<and> (\<forall>a. hm_get m a = None \<longrightarrow> hm_get m' a = None)
      \<and> (\<forall>a r. hm_get m a = Some r \<longrightarrow>
            hm_get m' a = Some (if a \<in> set addresses then r\<lparr> rl_friends := List.insert f (rl_friends r) \<rparr> else r))
      \<and> (\<forall>a. a \<in> set add \<longleftrightarrow> a \<in> set addresses \<and> (\<exists>r. hm_get m a = Some r \<and> f \<notin> set (rl_friends r)))
      \<and> (\<forall>a. a \<in> set spawn \<longleftrightarrow> a \<in> set addresses \<and> hm_get m a = None))"

lemma added_add_to_relays:
  assumes "distinct addresses" "hm_ok m"
  shows "added f addresses m (add_to_relays f addresses m)"
  using assms
proof (induction addresses arbitrary: m)
  case Nil
  then show ?case by (simp add: added_def)
next
  case (Cons x addresses)
  have same: "r\<lparr> rl_friends := List.insert f (rl_friends r) \<rparr> = r" if "f \<in> set (rl_friends r)" for r :: "('b, 'c) relay"
    using that by (simp add: List.insert_def)
  show ?case
  proof (cases "hm_get m x")
    case None
    obtain add spawn m' where run: "add_to_relays f addresses m = ((add, spawn), m')" by (metis surj_pair)
    then show ?thesis using Cons.IH [of m] Cons.prems None by (auto simp: added_def)
  next
    case (Some relay)
    show ?thesis
    proof (cases "f \<in> set (rl_friends relay)")
      case True
      obtain add spawn m' where run: "add_to_relays f addresses m = ((add, spawn), m')" by (metis surj_pair)
      then show ?thesis using Cons.IH [of m] Cons.prems Some True same [OF True] by (auto simp: added_def)
    next
      case False
      let ?m = "hm_insert x (relay\<lparr> rl_friends := List.insert f (rl_friends relay) \<rparr>) m"
      obtain add spawn m' where run: "add_to_relays f addresses ?m = ((add, spawn), m')" by (metis surj_pair)
      have IH: "added f addresses ?m ((add, spawn), m')" using Cons.IH [of ?m] Cons.prems run by simp
      have x: "x \<notin> set addresses" using Cons.prems by simp
      have get: "hm_get ?m a = (if a = x then Some (relay\<lparr> rl_friends := List.insert f (rl_friends relay) \<rparr>) else hm_get m a)" for a
        by (simp add: hm_get_insert)
      have none: "hm_get m' a = None" if "hm_get m a = None" for a
        using IH get [of a] that Some by (cases "a = x") (simp_all add: added_def)
      have some: "hm_get m' a = Some (if a \<in> set (x # addresses) then r\<lparr> rl_friends := List.insert f (rl_friends r) \<rparr> else r)"
        if "hm_get m a = Some r" for a r
        using IH get [of a] that Some x by (cases "a = x") (simp_all add: added_def)
      have add: "a \<in> set (x # add) \<longleftrightarrow> a \<in> set (x # addresses) \<and> (\<exists>r. hm_get m a = Some r \<and> f \<notin> set (rl_friends r))" for a
        using IH get [of a] Some False x by (cases "a = x") (simp_all add: added_def)
      have spawn: "a \<in> set spawn \<longleftrightarrow> a \<in> set (x # addresses) \<and> hm_get m a = None" for a
        using IH get [of a] Some x by (cases "a = x") (simp_all add: added_def)
      have "add_to_relays f (x # addresses) m = ((x # add, spawn), m')" using Some False run by simp
      then show ?thesis using IH none some add spawn by (simp add: added_def)
    qed
  qed
qed

lemma set_fold_insert [simp]: "set (fold List.insert xs ys) = set xs \<union> set ys"
  by (induction xs arbitrary: ys) auto

lemma set_initial_access [simp]: "set (fold (\<lambda>f. apply_op (AccessAdd f)) fs ac) = set fs \<union> set ac"
  by (induction fs arbitrary: ac) auto

subsection \<open>Sending changes\<close>

fun access_set :: "'p access_control_op \<Rightarrow> 'p set \<Rightarrow> 'p set" where
  "access_set (AccessAdd f) S = insert f S"
| "access_set (AccessRemove f) S = S - {f}"

lemma set_apply_op [simp]: "set (apply_op oper ac) = access_set oper (set ac)"
  by (cases oper) auto

lemma access_set_twice [simp]: "access_set oper (access_set oper S) = access_set oper S"
  by (cases oper) auto

lemma send_access_same [simp]:
  "pl_state (send_access oper b p) = pl_state p" "pl_listeners (send_access oper b p) = pl_listeners p"
  "pl_backoff_ticks (send_access oper b p) = pl_backoff_ticks p" "relay_at (send_access oper b p) = relay_at p"
  by (auto simp: send_access_def relay_at_def fun_eq_iff split: option.split relay_status.split)

lemma sends_same [simp]:
  "pl_state (fold (send_access oper) bs p) = pl_state p" "pl_listeners (fold (send_access oper) bs p) = pl_listeners p"
  "pl_backoff_ticks (fold (send_access oper) bs p) = pl_backoff_ticks p" "relay_at (fold (send_access oper) bs p) = relay_at p"
  by (induction bs arbitrary: p) simp_all

lemma send_access_allow:
  assumes "listeners_allow g p"
  shows "listeners_allow (\<lambda>a relay. if a = b then access_set oper (g a relay) else g a relay) (send_access oper b p)"
proof -
  have "allows (send_access oper b p) a n (if a = b then access_set oper (g a relay) else g a relay)"
    if a: "relay_at p a = Some relay" "rl_status relay = RelayConnected n" for a relay n
  proof -
    have own: "allows p a n (g a relay)" using assms a by (simp add: listeners_allow_def)
    show ?thesis
    proof (cases "\<exists>r m. relay_at p b = Some r \<and> rl_status r = RelayConnected m")
      case True
      then obtain r m where b: "relay_at p b = Some r" "rl_status r = RelayConnected m" by blast
      then have "allows p b m (g b r)" using assms by (simp add: listeners_allow_def)
      then show ?thesis using own a b by (auto simp: send_access_def relay_at_def allows_def)
    next
      case False
      then show ?thesis using own a by (auto simp: send_access_def relay_at_def allows_def split: option.split relay_status.split)
    qed
  qed
  then show ?thesis using assms by (simp add: listeners_allow_def)
qed

lemma sends_allow:
  assumes "listeners_allow g p"
  shows "listeners_allow (\<lambda>a relay. if a \<in> set bs then access_set oper (g a relay) else g a relay) (fold (send_access oper) bs p)"
  using assms
proof (induction bs arbitrary: p g)
  case (Cons b bs)
  have "(\<lambda>a relay. if a \<in> set bs then access_set oper (if a = b then access_set oper (g a relay) else g a relay)
        else if a = b then access_set oper (g a relay) else g a relay) =
      (\<lambda>a relay. if a \<in> set (b # bs) then access_set oper (g a relay) else g a relay)" by (auto simp: fun_eq_iff)
  then show ?case using Cons.IH [OF send_access_allow [OF Cons.prems, of b oper]] by simp
qed simp

subsection \<open>Starting listeners\<close>

lemma spawn_listen_inv:
  assumes "lp_inv p" "spawn_listen spawns a friends p = Ok (n, q)" "rl_friends relay = friends" "rl_status relay = RelayConnected n"
  shows "lp_inv (set_relay a relay q)" "relay_at (set_relay a relay q) = (relay_at p)(a \<mapsto> relay)"
    "lp_local_addresses (pl_state (set_relay a relay q)) = lp_local_addresses (pl_state p)"
proof -
  have q: "n = pl_listeners p" "q = p\<lparr> pl_listeners := pl_listeners p + 1, pl_out := pl_out p @
      [ListenOn (pl_listeners p) a (fold (\<lambda>f. apply_op (AccessAdd f)) friends access_control_new)] \<rparr>"
    using assms(2) by (auto simp: spawn_listen_def Let_def split: if_splits)
  show at: "relay_at (set_relay a relay q) = (relay_at p)(a \<mapsto> relay)"
    "lp_local_addresses (pl_state (set_relay a relay q)) = lp_local_addresses (pl_state p)"
    by (simp_all add: q set_relay_def relay_at_def hm_get_insert fun_eq_iff)
  have "allows (set_relay a relay q) b m (set (rl_friends r))" if "relay_at (set_relay a relay q) b = Some r" "rl_status r = RelayConnected m" for b r m
  proof (cases "b = a")
    case True
    then show ?thesis using that at assms(3,4) q by (simp add: allows_def set_relay_def access_control_new_def)
  next
    case False
    then have "allows p b m (set (rl_friends r))" using that at assms(1) by (simp add: lp_inv_def listeners_allow_def)
    then show ?thesis using q by (auto simp: allows_def set_relay_def)
  qed
  moreover have "hm_ok (lp_relays (pl_state (set_relay a relay q)))"
    using assms(1) q by (simp add: set_relay_def lp_inv_def listeners_allow_def)
  ultimately show "lp_inv (set_relay a relay q)" by (simp add: lp_inv_def listeners_allow_def)
qed

lemma spawn_relays_inv:
  assumes "lp_inv p" "spawn_relays spawns friends addresses p = Ok q"
  shows "lp_inv q \<and> lp_local_addresses (pl_state q) = lp_local_addresses (pl_state p)
    \<and> (\<forall>a f. may_connect q a f \<longleftrightarrow> (if a \<in> set addresses then f \<in> set friends else may_connect p a f))"
  using assms
proof (induction addresses arbitrary: p)
  case (Cons a addresses)
  obtain n t where t: "spawn_listen spawns a friends p = Ok (n, t)"
    and rest: "spawn_relays spawns friends addresses (set_relay a \<lparr> rl_friends = friends, rl_status = RelayConnected n \<rparr> t) = Ok q"
    using Cons.prems(2) by (auto simp: res_bind_Ok)
  note inv = spawn_listen_inv [OF Cons.prems(1) t, of "\<lparr> rl_friends = friends, rl_status = RelayConnected n \<rparr>", simplified]
  show ?case using Cons.IH [OF inv(1) rest] inv(2,3) by (auto simp: may_connect_def)
qed simp

lemma relisten_inv:
  assumes "lp_inv p" "relisten spawns addresses p = Ok q"
  shows "lp_inv q"
  using assms
proof (induction addresses arbitrary: p)
  case (Cons a addresses)
  obtain relay n t where t: "spawn_listen spawns a (rl_friends relay) p = Ok (n, t)"
    and rest: "relisten spawns addresses (set_relay a (relay\<lparr> rl_status := RelayConnected n \<rparr>) t) = Ok q"
    using Cons.prems(2) by (auto simp: res_bind_Ok)
  show ?case using Cons.IH [OF spawn_listen_inv(1) [OF Cons.prems(1) t] rest] by simp
qed simp

subsection \<open>Configurations\<close>

lemma removeAll_Nil: "removeAll f xs = [] \<longleftrightarrow> set xs \<subseteq> {f}"
  by (induction xs) auto

lemma update_friend_state:
  assumes "hm_ok (lp_relays s)" "iterates iter" "update_friend_relays iter f addresses s = ((add, remove, spawn), s')"
  shows "hm_ok (lp_relays s')" "lp_local_addresses s' = lp_local_addresses s"
    and "hm_get (lp_relays s') a = (case hm_get (lp_relays s) a of None \<Rightarrow> None
      | Some r \<Rightarrow> if a \<in> set addresses \<union> set (lp_local_addresses s) then Some (r\<lparr> rl_friends := List.insert f (rl_friends r) \<rparr>)
                  else if removeAll f (rl_friends r) = [] then None else Some (r\<lparr> rl_friends := removeAll f (rl_friends r) \<rparr>))"
    and "a \<in> set add \<longleftrightarrow> a \<in> set addresses \<union> set (lp_local_addresses s) \<and> (\<exists>r. hm_get (lp_relays s) a = Some r \<and> f \<notin> set (rl_friends r))"
    and "a \<in> set remove \<longleftrightarrow> a \<notin> set addresses \<union> set (lp_local_addresses s) \<and> (\<exists>r. hm_get (lp_relays s) a = Some r \<and> f \<in> set (rl_friends r))"
    and "a \<in> set spawn \<longleftrightarrow> a \<in> set addresses \<union> set (lp_local_addresses s) \<and> hm_get (lp_relays s) a = None"
proof -
  let ?all = "iter (remdups (addresses @ lp_local_addresses s))"
  obtain m where run: "add_to_relays f ?all (lp_relays s) = ((add, spawn), m)"
    and remove: "remove = map fst (filter (\<lambda>(a, r). a \<notin> set addresses \<and> a \<notin> set (lp_local_addresses s) \<and> f \<in> set (rl_friends r)) m)"
    and s': "s' = s\<lparr> lp_relays := retain_relays (\<lambda>a r. if a \<in> set addresses \<or> a \<in> set (lp_local_addresses s) then Some r
        else (let r = r\<lparr> rl_friends := removeAll f (rl_friends r) \<rparr> in if rl_friends r \<noteq> [] then Some r else None)) m \<rparr>"
    using assms(3) unfolding update_friend_relays_def by (auto simp: Let_def split: prod.splits)
  have all: "set ?all = set addresses \<union> set (lp_local_addresses s)" "distinct ?all" using iteratesD [OF assms(2)] by auto
  have "added f ?all (lp_relays s) ((add, spawn), m)" using added_add_to_relays [OF all(2) assms(1)] run by metis
  note added = this [unfolded added_def Let_def prod.case all(1)]
  have m: "hm_get m a = None" if "hm_get (lp_relays s) a = None" using added that by blast
  have m': "hm_get m a = Some (if a \<in> set addresses \<union> set (lp_local_addresses s) then r\<lparr> rl_friends := List.insert f (rl_friends r) \<rparr> else r)"
    if "hm_get (lp_relays s) a = Some r" for r using added that by blast
  show "hm_ok (lp_relays s')" "lp_local_addresses s' = lp_local_addresses s" using added by (simp_all add: s' retain_ok)
  show "hm_get (lp_relays s') a = (case hm_get (lp_relays s) a of None \<Rightarrow> None
      | Some r \<Rightarrow> if a \<in> set addresses \<union> set (lp_local_addresses s) then Some (r\<lparr> rl_friends := List.insert f (rl_friends r) \<rparr>)
                  else if removeAll f (rl_friends r) = [] then None else Some (r\<lparr> rl_friends := removeAll f (rl_friends r) \<rparr>))"
    using added m m' by (cases "hm_get (lp_relays s) a") (simp_all add: s' get_retain Let_def)
  show "a \<in> set add \<longleftrightarrow> a \<in> set addresses \<union> set (lp_local_addresses s) \<and> (\<exists>r. hm_get (lp_relays s) a = Some r \<and> f \<notin> set (rl_friends r))"
    "a \<in> set spawn \<longleftrightarrow> a \<in> set addresses \<union> set (lp_local_addresses s) \<and> hm_get (lp_relays s) a = None"
    using added by blast+
  show "a \<in> set remove \<longleftrightarrow> a \<notin> set addresses \<union> set (lp_local_addresses s) \<and> (\<exists>r. hm_get (lp_relays s) a = Some r \<and> f \<in> set (rl_friends r))"
    unfolding remove in_relays [OF conjunct1 [OF added]] using m m' by (cases "hm_get (lp_relays s) a") auto
qed

lemma update_friend_inv:
  assumes "lp_inv p" "iterates iter" "lp_handle_config spawns iter (LpUpdateFriend f addresses) p = Ok q"
  shows "lp_inv q \<and> (\<forall>a g. may_connect q a g \<longleftrightarrow>
    (if g = f then a \<in> set addresses \<union> set (lp_local_addresses (pl_state p)) else may_connect p a g))"
proof -
  obtain add remove spawn s' where st: "update_friend_relays iter f addresses (pl_state p) = ((add, remove, spawn), s')"
    by (metis surj_pair)
  have ok: "hm_ok (lp_relays (pl_state p))" using assms(1) by (simp add: lp_inv_def listeners_allow_def)
  note upd = update_friend_state [OF ok assms(2) st]
  let ?p1 = "p\<lparr> pl_state := s' \<rparr>"
  let ?p3 = "fold (send_access (AccessRemove f)) remove (fold (send_access (AccessAdd f)) add ?p1)"
  let ?g = "\<lambda>a relay. case relay_at p a of Some r \<Rightarrow> set (rl_friends r) | None \<Rightarrow> {}"
  have run: "spawn_relays spawns [f] spawn ?p3 = Ok q" using assms(3) st by (simp add: lp_handle_config_def)
  have before: "listeners_allow ?g ?p1"
    using assms(1) upd(1,3) by (auto simp: lp_inv_def listeners_allow_def allows_def relay_at_def split: option.splits if_splits)
  note sent = sends_allow [OF sends_allow [OF before, of add "AccessAdd f"], of remove "AccessRemove f"]
  have at: "relay_at ?p3 a = hm_get (lp_relays s') a" for a by (simp add: relay_at_def)
  have friends: "(if a \<in> set remove then access_set (AccessRemove f) (if a \<in> set add then access_set (AccessAdd f) (?g a relay) else ?g a relay)
        else if a \<in> set add then access_set (AccessAdd f) (?g a relay) else ?g a relay) = set (rl_friends relay)"
    if "relay_at ?p3 a = Some relay" for a relay
    using that upd(3-5) [of a] by (auto simp: at relay_at_def split: option.splits if_splits)
  have inv: "lp_inv ?p3" using sent friends unfolding lp_inv_def listeners_allow_def by auto
  have "may_connect ?p3 a g \<longleftrightarrow> (if g = f then a \<in> set addresses \<union> set (lp_local_addresses (pl_state p)) \<and> relay_at p a \<noteq> None else may_connect p a g)" for a g
    using upd(3) [of a] by (auto simp: may_connect_def at relay_at_def removeAll_Nil split: option.splits if_splits)
  then show ?thesis using spawn_relays_inv [OF inv run] upd(6) by (auto simp: may_connect_def relay_at_def)
qed

lemma remove_friend_inv:
  assumes "lp_inv p" "lp_handle_config spawns iter (LpRemoveFriend f) p = Ok q"
  shows "lp_inv q \<and> (\<forall>a g. may_connect q a g \<longleftrightarrow> g \<noteq> f \<and> may_connect p a g)"
proof -
  let ?m = "lp_relays (pl_state p)"
  let ?remove = "map fst (filter (\<lambda>(a, r). f \<in> set (rl_friends r)) ?m)"
  let ?m' = "retain_relays (\<lambda>a r. let r = r\<lparr> rl_friends := removeAll f (rl_friends r) \<rparr>
      in if rl_friends r \<noteq> [] \<or> a \<in> set (lp_local_addresses (pl_state p)) then Some r else None) ?m"
  let ?p1 = "p\<lparr> pl_state := (pl_state p)\<lparr> lp_relays := ?m' \<rparr> \<rparr>"
  let ?g = "\<lambda>a relay. case relay_at p a of Some r \<Rightarrow> set (rl_friends r) | None \<Rightarrow> {}"
  have q: "q = fold (send_access (AccessRemove f)) ?remove ?p1" using assms(2) by (simp add: lp_handle_config_def remove_friend_relays_def)
  have ok: "hm_ok ?m" using assms(1) by (simp add: lp_inv_def listeners_allow_def)
  have at: "relay_at q a = Option.bind (hm_get ?m a) (\<lambda>r. let r = r\<lparr> rl_friends := removeAll f (rl_friends r) \<rparr>
      in if rl_friends r \<noteq> [] \<or> a \<in> set (lp_local_addresses (pl_state p)) then Some r else None)" for a
    by (simp add: q relay_at_def get_retain [OF ok])
  have "listeners_allow ?g ?p1" using assms(1)
    by (auto simp: lp_inv_def listeners_allow_def allows_def relay_at_def get_retain [OF ok] retain_ok [OF ok] Let_def bind_eq_Some_conv split: if_splits)
  note sent = sends_allow [OF this, of ?remove "AccessRemove f", folded q]
  have "(if a \<in> set ?remove then access_set (AccessRemove f) (?g a relay) else ?g a relay) = set (rl_friends relay)"
    if "relay_at q a = Some relay" for a relay
    using that unfolding in_relays [OF ok] at by (auto simp: relay_at_def Let_def bind_eq_Some_conv split: if_splits)
  then have "lp_inv q" using sent unfolding lp_inv_def listeners_allow_def by auto
  moreover have "may_connect q a g \<longleftrightarrow> g \<noteq> f \<and> may_connect p a g" for a g
    unfolding may_connect_def at by (cases "hm_get ?m a") (auto simp: relay_at_def removeAll_Nil Let_def)
  ultimately show ?thesis by blast
qed

lemma set_local_inv:
  assumes "lp_inv p" "lp_handle_config spawns iter (SetLocalAddresses ls) p = Ok q"
  shows "lp_inv q"
proof -
  let ?s = "snd (set_local_addresses iter ls (pl_state p))"
  have ok: "hm_ok (lp_relays (pl_state p))" using assms(1) by (simp add: lp_inv_def listeners_allow_def)
  have "lp_inv (p\<lparr> pl_state := ?s \<rparr>)" using assms(1)
    by (auto simp: lp_inv_def listeners_allow_def allows_def relay_at_def set_local_addresses_def get_retain [OF ok] retain_ok [OF ok]
        Let_def bind_eq_Some_conv split: if_splits)
  then show ?thesis using spawn_relays_inv assms(2)
    by (cases "set_local_addresses iter ls (pl_state p)") (fastforce simp: lp_handle_config_def)
qed

subsection \<open>Runs\<close>

lemma closed_inv: "lp_inv p \<Longrightarrow> lp_inv (handle_relay_closed a p)"
  by (auto simp: handle_relay_closed_def set_relay_def lp_inv_def listeners_allow_def allows_def relay_at_def hm_get_insert split: option.split if_splits)

lemma tick_inv:
  assumes "lp_inv p" "lp_handle_timer_tick spawns p = Ok q"
  shows "lp_inv q"
proof -
  have status: "tick_status st = RelayConnected n \<longleftrightarrow> st = RelayConnected n" for st n by (cases st) simp_all
  have "lp_inv (p\<lparr> pl_state := (pl_state p)\<lparr> lp_relays :=
      hm_map_values (\<lambda>relay. relay\<lparr> rl_status := tick_status (rl_status relay) \<rparr>) (lp_relays (pl_state p)) \<rparr> \<rparr>)"
    using assms(1) by (auto simp: lp_inv_def listeners_allow_def allows_def relay_at_def hm_get_map_values status)
  then show ?thesis using assms(2) relisten_inv by (auto simp: lp_handle_timer_tick_def Let_def)
qed

lemma lp_step_inv:
  assumes "lp_inv p" "iterates iter" "listen_pool_step spawns iter e p = Ok (Some q)"
  shows "lp_inv q"
  using assms(3) update_friend_inv [OF assms(1,2)] remove_friend_inv [OF assms(1)] set_local_inv [OF assms(1)] closed_inv [OF assms(1)] tick_inv [OF assms(1)]
  by (auto simp: listen_pool_step_def res_bind_Ok split: lp_event.splits) (metis lp_config.exhaust)

lemma lp_loop_inv:
  assumes "lp_inv p" "iterates iter" "listen_pool_loop spawns iter events p = Ok q"
  shows "lp_inv q"
  using assms(1,3)
proof (induction events arbitrary: p)
  case (Cons e events)
  obtain o1 where o1: "listen_pool_step spawns iter e p = Ok o1" "(case o1 of Some p \<Rightarrow> listen_pool_loop spawns iter events p | None \<Rightarrow> Ok p) = Ok q"
    using Cons.prems(2) by (auto simp: res_bind_Ok)
  then show ?case using Cons.IH Cons.prems(1) lp_step_inv [OF Cons.prems(1) assms(2), of spawns e] by (cases o1) simp_all
qed simp

lemma lp_new_inv: "lp_inv (listen_pool_new backoff)"
  by (simp add: lp_inv_def listeners_allow_def listen_pool_new_def listen_pool_state_new_def relay_at_def)

lemma spawn_relays_total: "\<forall>n. spawns n \<Longrightarrow> \<exists>q. spawn_relays spawns friends addresses p = Ok q"
  by (induction addresses arbitrary: p) (simp_all add: spawn_listen_def)

lemma config_total: "\<forall>n. spawns n \<Longrightarrow> \<exists>q. lp_handle_config spawns iter config p = Ok q"
  using spawn_relays_total
  by (cases config) (auto simp: lp_handle_config_def Let_def case_prod_unfold)

text \<open>
  C24: At any time, the listener of a connected relay lets in exactly the friends of that relay,
  after all changes that were sent to it. When the addresses of a friend are updated, the friend
  may connect at these addresses and at the local ones and nowhere else; when a friend is
  removed, it may connect nowhere; and neither changes where other friends may connect.
\<close>

theorem listen_pool_access:
  assumes "iterates iter" and "\<forall>n. spawns n" and "listen_pool_loop spawns iter events (listen_pool_new backoff) = Ok p"
  shows "(\<forall>a relay n. relay_at p a = Some relay \<and> rl_status relay = RelayConnected n \<longrightarrow>
      (\<exists>access. listener n (pl_out p) = Some (a, access) \<and> (\<forall>f. is_allowed access f \<longleftrightarrow> f \<in> set (rl_friends relay))))
    \<and> (\<forall>f addresses. \<exists>q. lp_handle_config spawns iter (LpUpdateFriend f addresses) p = Ok q
        \<and> (\<forall>a g. may_connect q a g \<longleftrightarrow>
             (if g = f then a \<in> set addresses \<union> set (lp_local_addresses (pl_state p)) else may_connect p a g)))
    \<and> (\<forall>f. \<exists>q. lp_handle_config spawns iter (LpRemoveFriend f) p = Ok q
        \<and> (\<forall>a g. may_connect q a g \<longleftrightarrow> g \<noteq> f \<and> may_connect p a g))"
proof -
  have inv: "lp_inv p" using lp_loop_inv [OF lp_new_inv assms(1,3)] .
  have "\<exists>access. listener n (pl_out p) = Some (a, access) \<and> (\<forall>f. is_allowed access f \<longleftrightarrow> f \<in> set (rl_friends relay))"
    if "relay_at p a = Some relay" "rl_status relay = RelayConnected n" for a relay n
  proof -
    have "allows p a n (set (rl_friends relay))" using inv that by (simp add: lp_inv_def listeners_allow_def)
    then show ?thesis by (auto simp: allows_def is_allowed_def)
  qed
  moreover have "\<exists>q. lp_handle_config spawns iter (LpUpdateFriend f addresses) p = Ok q
      \<and> (\<forall>a g. may_connect q a g \<longleftrightarrow>
           (if g = f then a \<in> set addresses \<union> set (lp_local_addresses (pl_state p)) else may_connect p a g))" for f addresses
    using config_total [OF assms(2), of iter "LpUpdateFriend f addresses" p] update_friend_inv [OF inv assms(1)] by blast
  moreover have "\<exists>q. lp_handle_config spawns iter (LpRemoveFriend f) p = Ok q
      \<and> (\<forall>a g. may_connect q a g \<longleftrightarrow> g \<noteq> f \<and> may_connect p a g)" for f
    using config_total [OF assms(2), of iter "LpRemoveFriend f" p] remove_friend_inv [OF inv] by blast
  ultimately show ?thesis by blast
qed

text \<open>
  Setting the local addresses does not change who may connect at a relay that some friend may
  connect at. A relay that becomes local is not opened to the other friends, contrary to what the
  comment says of local relays, and a relay that is no longer local stays open.
\<close>

theorem local_relay_keeps_friends:
  assumes "iterates iter" and "\<forall>n. spawns n" and "listen_pool_loop spawns iter events (listen_pool_new backoff) = Ok p"
    and "may_connect p a f"
  shows "\<exists>q. lp_handle_config spawns iter (SetLocalAddresses addresses) p = Ok q \<and> (\<forall>g. may_connect q a g \<longleftrightarrow> may_connect p a g)"
proof -
  have inv: "lp_inv p" using lp_loop_inv [OF lp_new_inv assms(1,3)] .
  have ok: "hm_ok (lp_relays (pl_state p))" using inv by (simp add: lp_inv_def listeners_allow_def)
  obtain friends new s' where st: "set_local_addresses iter addresses (pl_state p) = ((friends, new), s')" by (metis surj_pair)
  let ?p = "p\<lparr> pl_state := s' \<rparr>"
  obtain relay where relay: "relay_at p a = Some relay" "rl_friends relay \<noteq> []" using assms(4) by (force simp: may_connect_def)
  have at: "relay_at ?p a = Some relay" "a \<notin> set new" "lp_inv ?p"
    using st relay inv
    by (auto simp: set_local_addresses_def relay_at_def get_retain [OF ok] retain_ok [OF ok] hm_contains_def Let_def lp_inv_def
        listeners_allow_def allows_def bind_eq_Some_conv split: if_splits)
  obtain q where q: "lp_handle_config spawns iter (SetLocalAddresses addresses) p = Ok q" using config_total [OF assms(2)] by blast
  then have "spawn_relays spawns friends new ?p = Ok q" using st by (simp add: lp_handle_config_def)
  then show ?thesis using spawn_relays_inv [OF at(3)] at(1,2) q relay(1) by (auto simp: may_connect_def)
qed

definition example_lp_events :: "(nat, nat) lp_event list" where
  "example_lp_events = map LpConfigEvent [LpUpdateFriend 100 [1], LpUpdateFriend 200 [2]] @ [LpRelayClosed 2, LpTimerTick]"

definition example_lp_summary where
  "example_lp_summary r = (case r of Ok p \<Rightarrow> Some (lp_relays (pl_state p), lp_local_addresses (pl_state p)) | _ \<Rightarrow> None)"

lemma example_lp_run:
  "example_lp_summary (listen_pool_loop (\<lambda>n. True) (\<lambda>xs. xs) example_lp_events (listen_pool_new 1)) =
     Some ([(1, \<lparr> rl_friends = [100], rl_status = RelayConnected 0 \<rparr>), (2, \<lparr> rl_friends = [200], rl_status = RelayConnected 2 \<rparr>)], [])"
  by code_simp

lemma example_lp_state:
  "\<exists>p. listen_pool_loop (\<lambda>n. True) (\<lambda>xs. xs) example_lp_events (listen_pool_new 1) = Ok p
    \<and> relay_at p 1 = Some \<lparr> rl_friends = [100], rl_status = RelayConnected 0 \<rparr>"
  using example_lp_run
  by (cases "listen_pool_loop (\<lambda>n. True) (\<lambda>xs. xs) example_lp_events (listen_pool_new 1)")
     (auto simp: example_lp_summary_def relay_at_def hm_get_def)

theorem listen_pool_access_witness:
  "\<exists>p access q. listen_pool_loop (\<lambda>n. True) (\<lambda>xs. xs) example_lp_events (listen_pool_new 1) = Ok p
    \<and> listener 0 (pl_out p) = Some (1, access) \<and> is_allowed access 100 \<and> \<not> is_allowed access 200
    \<and> lp_handle_config (\<lambda>n. True) (\<lambda>xs. xs) (LpUpdateFriend 200 [1, 3]) p = Ok q
    \<and> may_connect q 1 200 \<and> may_connect q 3 200 \<and> \<not> may_connect q 2 200 \<and> may_connect q 1 100"
proof -
  obtain p where p: "listen_pool_loop (\<lambda>n. True) (\<lambda>xs. xs) example_lp_events (listen_pool_new 1) = Ok p"
      "relay_at p 1 = Some \<lparr> rl_friends = [100], rl_status = RelayConnected 0 \<rparr>" using example_lp_state by blast
  have loc: "lp_local_addresses (pl_state p) = []" using example_lp_run p(1) by (simp add: example_lp_summary_def)
  have it: "iterates (\<lambda>xs :: nat list. xs)" by (simp add: iterates_def)
  have sp: "\<forall>n :: nat. True" by simp
  note access_facts = listen_pool_access [OF it sp p(1)]
  obtain access where "listener 0 (pl_out p) = Some (1, access)" "\<forall>f. is_allowed access f \<longleftrightarrow> f \<in> set [100]"
    using conjunct1 [OF access_facts, rule_format, OF conjI [OF p(2)]] by auto
  moreover obtain q where "lp_handle_config (\<lambda>n. True) (\<lambda>xs. xs) (LpUpdateFriend 200 [1, 3]) p = Ok q"
    "\<forall>a g. may_connect q a g \<longleftrightarrow> (if g = 200 then a \<in> set [1, 3] \<union> set (lp_local_addresses (pl_state p)) else may_connect p a g)"
    using conjunct1 [OF conjunct2 [OF access_facts]] by blast
  moreover have "may_connect p 1 100" using p(2) by (simp add: may_connect_def)
  ultimately show ?thesis using p(1) loc by fastforce
qed

theorem local_relay_keeps_friends_witness:
  "\<exists>p q. listen_pool_loop (\<lambda>n. True) (\<lambda>xs. xs) example_lp_events (listen_pool_new 1) = Ok p
    \<and> lp_handle_config (\<lambda>n. True) (\<lambda>xs. xs) (SetLocalAddresses [1]) p = Ok q \<and> may_connect q 1 100 \<and> \<not> may_connect q 1 200"
proof -
  obtain p where p: "listen_pool_loop (\<lambda>n. True) (\<lambda>xs. xs) example_lp_events (listen_pool_new 1) = Ok p"
      "relay_at p 1 = Some \<lparr> rl_friends = [100], rl_status = RelayConnected 0 \<rparr>" using example_lp_state by blast
  have it: "iterates (\<lambda>xs :: nat list. xs)" by (simp add: iterates_def)
  have may: "may_connect p 1 100" "\<not> may_connect p 1 200" using p(2) by (simp_all add: may_connect_def)
  show ?thesis using local_relay_keeps_friends [OF it _ p(1) may(1), of "[1]"] p(1) may by fastforce
qed

end
