(* ===== verification/Channeler.thy ===== *)
theory Channeler
  imports TokenChannel ListenPool
begin

text \<open>
  The channeler (\<open>channeler/src/channeler.rs\<close>): it keeps a connection to each friend, by waiting for
  the friend (through the listen pool) or by asking a connect pool of that friend, depending on
  the order of the two public keys, and tells the funder who is online.

  A connection and a connect pool are numbers. A round has what it meets: how many tasks can be
  spawned and whether each channel takes a message. What is sent, requested and dropped is
  recorded in order. The task that forwards the messages of a connection to the loop sends, at its
  end, one event that the receiver was closed; that event names the friend only.
\<close>

section \<open>State\<close>

record 'ra friend_update =
  fu_friend_public_key :: public_key
  fu_friend_relays :: "'ra list"
  fu_local_relays :: "'ra list"

datatype 'ra funder_to_channeler =
    FcMessage public_key bytes
  | FcSetRelays "'ra list"
  | FcUpdateFriend "'ra friend_update"
  | FcRemoveFriend public_key

datatype channeler_to_funder =
    CfOnline public_key
  | CfOffline public_key
  | CfMessage public_key bytes

datatype friend_event =
    IncomingMessage public_key bytes
  | ReceiverClosed public_key

datatype 'ra channeler_event =
    FromFunder "'ra funder_to_channeler"
  | Connection public_key nat
  | FriendEvent friend_event
  | ListenerClosed
  | FunderClosed

datatype channeler_error =
    ChSpawnError | SendToFunderFailed | AddressSendFailed | SendConnectionEstablishedFailed | SendAccessControlFailed
  | ListenerConfigError | ChListenerClosed | ChFunderClosed | ConnectorConfigError

record friend_connected =
  fc_conn :: nat
  fc_opt_sender :: bool

datatype in_friend = InListening | InConnected friend_connected

datatype out_friend_status = OutConnecting | OutConnected friend_connected

record out_friend =
  of_pool :: nat
  of_status :: out_friend_status

datatype 'ra channeler_output =
    ToFunder channeler_to_funder
  | ListenConfig "('ra, public_key) lp_config"
  | NewPool nat public_key
  | PoolConfig nat "'ra list"
  | PoolConnect nat
  | SendMessage nat bytes
  | CloseConnection nat

record 'ra channeler =
  ch_local_public_key :: public_key
  ch_in_friends :: "(public_key, in_friend) hmap"
  ch_out_friends :: "(public_key, out_friend) hmap"
  ch_pools :: nat
  ch_out :: "'ra channeler_output list"

record channeler_io =
  ci_spawn :: nat
  ci_funder :: bool
  ci_listen_config :: bool
  ci_pool_config :: bool
  ci_message :: bool

definition channeler_new :: "public_key \<Rightarrow> 'ra channeler" where
  "channeler_new local_public_key =
     \<lparr> ch_local_public_key = local_public_key, ch_in_friends = [], ch_out_friends = [], ch_pools = 0, ch_out = [] \<rparr>"

definition ch_emit :: "'ra channeler_output list \<Rightarrow> 'ra channeler \<Rightarrow> 'ra channeler" where
  "ch_emit ms s = s\<lparr> ch_out := ch_out s @ ms \<rparr>"

definition ch_send :: "bool \<Rightarrow> channeler_error \<Rightarrow> 'ra channeler_output \<Rightarrow> 'ra channeler \<Rightarrow> ('ra channeler, channeler_error) res" where
  "ch_send ok e m s = (if ok then Ok (ch_emit [m] s) else Err e)"

text \<open>The connections that are dropped with a value.\<close>

fun in_conn :: "in_friend \<Rightarrow> friend_connected option" where
  "in_conn InListening = None"
| "in_conn (InConnected c) = Some c"

fun out_conn :: "out_friend_status \<Rightarrow> friend_connected option" where
  "out_conn OutConnecting = None"
| "out_conn (OutConnected c) = Some c"

definition dropped :: "friend_connected option \<Rightarrow> 'ra channeler_output list" where
  "dropped c = (case c of Some c \<Rightarrow> [CloseConnection (fc_conn c)] | None \<Rightarrow> [])"

section \<open>Handlers\<close>

definition get_friend_connected :: "public_key \<Rightarrow> 'ra channeler \<Rightarrow> friend_connected option" where
  "get_friend_connected pk s =
     (case Option.bind (hm_get (ch_in_friends s) pk) in_conn of
        Some c \<Rightarrow> Some c
      | None \<Rightarrow> Option.bind (hm_get (ch_out_friends s) pk) (\<lambda>f. out_conn (of_status f)))"

text \<open>The friend that \<open>get_friend_connected\<close> found is changed in place.\<close>

definition put_friend_connected :: "public_key \<Rightarrow> friend_connected \<Rightarrow> 'ra channeler \<Rightarrow> 'ra channeler" where
  "put_friend_connected pk c s =
     (case Option.bind (hm_get (ch_in_friends s) pk) in_conn of
        Some _ \<Rightarrow> s\<lparr> ch_in_friends := hm_insert pk (InConnected c) (ch_in_friends s) \<rparr>
      | None \<Rightarrow>
          (case hm_get (ch_out_friends s) pk of
             Some f \<Rightarrow> s\<lparr> ch_out_friends := hm_insert pk (f\<lparr> of_status := OutConnected c \<rparr>) (ch_out_friends s) \<rparr>
           | None \<Rightarrow> s))"

definition connected_send ::
  "bool \<Rightarrow> bytes \<Rightarrow> friend_connected \<Rightarrow> 'ra channeler_output list \<times> friend_connected" where
  "connected_send ok t c =
     (if fc_opt_sender c \<and> ok then ([SendMessage (fc_conn c) t], c) else ([], c\<lparr> fc_opt_sender := False \<rparr>))"

definition is_listen_friend :: "crypto_api \<Rightarrow> public_key \<Rightarrow> 'ra channeler \<Rightarrow> bool" where
  "is_listen_friend C friend_public_key s = public_key_less C (ch_local_public_key s) friend_public_key"

definition connect_out_friend :: "bool \<Rightarrow> public_key \<Rightarrow> 'ra channeler \<Rightarrow> ('ra channeler, channeler_error) res" where
  "connect_out_friend spawned friend_public_key s =
     (case hm_get (ch_out_friends s) friend_public_key of
        Some out_friend \<Rightarrow> ch_send spawned ChSpawnError (PoolConnect (of_pool out_friend)) s
      | None \<Rightarrow> Panic)"

definition try_create_friend ::
  "crypto_api \<Rightarrow> bool \<Rightarrow> public_key \<Rightarrow> 'ra channeler \<Rightarrow> ('ra channeler, channeler_error) res" where
  "try_create_friend C spawned friend_public_key s =
     (if hm_contains (ch_in_friends s) friend_public_key \<or> hm_contains (ch_out_friends s) friend_public_key then Ok s
      else if is_listen_friend C friend_public_key s
      then Ok (s\<lparr> ch_in_friends := hm_insert friend_public_key InListening (ch_in_friends s) \<rparr>)
      else
        connect_out_friend spawned friend_public_key
          (ch_emit [NewPool (ch_pools s) friend_public_key]
            (s\<lparr> ch_pools := ch_pools s + 1,
               ch_out_friends := hm_insert friend_public_key \<lparr> of_pool = ch_pools s, of_status = OutConnecting \<rparr> (ch_out_friends s) \<rparr>)))"

definition handle_from_funder ::
  "crypto_api \<Rightarrow> channeler_io \<Rightarrow> 'ra funder_to_channeler \<Rightarrow> 'ra channeler \<Rightarrow> ('ra channeler, channeler_error) res" where
  "handle_from_funder C io m s =
     (case m of
        FcMessage public_key message \<Rightarrow>
          (case get_friend_connected public_key s of
             Some friend_connected \<Rightarrow>
               (let (out, friend_connected) = connected_send (ci_message io) message friend_connected
                in Ok (ch_emit out (put_friend_connected public_key friend_connected s)))
           | None \<Rightarrow> Ok s)
      | FcSetRelays addresses \<Rightarrow> ch_send (ci_listen_config io) ListenerConfigError (ListenConfig (SetLocalAddresses addresses)) s
      | FcUpdateFriend u \<Rightarrow>
          res_bind (try_create_friend C (0 < ci_spawn io) (fu_friend_public_key u) s) (\<lambda>s.
            if hm_contains (ch_in_friends s) (fu_friend_public_key u)
            then ch_send (ci_listen_config io) ListenerConfigError
                   (ListenConfig (LpUpdateFriend (fu_friend_public_key u) (fu_local_relays u))) s
            else
              (case hm_get (ch_out_friends s) (fu_friend_public_key u) of
                 Some out_friend \<Rightarrow>
                   ch_send (ci_pool_config io) ConnectorConfigError (PoolConfig (of_pool out_friend) (fu_friend_relays u)) s
               | None \<Rightarrow> Ok s))
      | FcRemoveFriend friend_public_key \<Rightarrow>
          (case hm_get (ch_in_friends s) friend_public_key of
             Some in_friend \<Rightarrow>
               ch_send (ci_listen_config io) ListenerConfigError (ListenConfig (LpRemoveFriend friend_public_key))
                 (ch_emit (dropped (in_conn in_friend)) (s\<lparr> ch_in_friends := hm_remove friend_public_key (ch_in_friends s) \<rparr>))
           | None \<Rightarrow>
               Ok (ch_emit (dropped (Option.bind (hm_get (ch_out_friends s) friend_public_key) (\<lambda>f. out_conn (of_status f))))
                 (s\<lparr> ch_out_friends := hm_remove friend_public_key (ch_out_friends s) \<rparr>))))"

definition accept_connection ::
  "channeler_io \<Rightarrow> public_key \<Rightarrow> 'ra channeler \<Rightarrow> ('ra channeler, channeler_error) res" where
  "accept_connection io friend_public_key s =
     (if ci_spawn io < 2 then Err ChSpawnError
      else ch_send (ci_funder io) SendToFunderFailed (ToFunder (CfOnline friend_public_key)) s)"

definition handle_connection ::
  "channeler_io \<Rightarrow> public_key \<Rightarrow> nat \<Rightarrow> 'ra channeler \<Rightarrow> ('ra channeler, channeler_error) res" where
  "handle_connection io friend_public_key conn s =
     (if ci_spawn io = 0 then Err ChSpawnError
      else
        (let connected = \<lparr> fc_conn = conn, fc_opt_sender = True \<rparr>
         in case hm_get (ch_in_friends s) friend_public_key of
              Some (InConnected _) \<Rightarrow> Ok (ch_emit [CloseConnection conn] s)
            | Some InListening \<Rightarrow>
                accept_connection io friend_public_key
                  (s\<lparr> ch_in_friends := hm_insert friend_public_key (InConnected connected) (ch_in_friends s) \<rparr>)
            | None \<Rightarrow>
                (case hm_get (ch_out_friends s) friend_public_key of
                   Some out_friend \<Rightarrow>
                     (case of_status out_friend of
                        OutConnected _ \<Rightarrow> Ok (ch_emit [CloseConnection conn] s)
                      | OutConnecting \<Rightarrow>
                          accept_connection io friend_public_key
                            (s\<lparr> ch_out_friends := hm_insert friend_public_key (out_friend\<lparr> of_status := OutConnected connected \<rparr>) (ch_out_friends s) \<rparr>))
                 | None \<Rightarrow> Ok (ch_emit [CloseConnection conn] s))))"

definition handle_friend_event ::
  "channeler_io \<Rightarrow> friend_event \<Rightarrow> 'ra channeler \<Rightarrow> ('ra channeler, channeler_error) res" where
  "handle_friend_event io e s =
     (case e of
        IncomingMessage friend_public_key data \<Rightarrow>
          ch_send (ci_funder io) SendToFunderFailed (ToFunder (CfMessage friend_public_key data)) s
      | ReceiverClosed friend_public_key \<Rightarrow>
          res_bind (ch_send (ci_funder io) SendToFunderFailed (ToFunder (CfOffline friend_public_key)) s) (\<lambda>s.
            case hm_get (ch_in_friends s) friend_public_key of
              Some in_friend \<Rightarrow>
                Ok (ch_emit (dropped (in_conn in_friend))
                  (s\<lparr> ch_in_friends := hm_insert friend_public_key InListening (ch_in_friends s) \<rparr>))
            | None \<Rightarrow>
                (case hm_get (ch_out_friends s) friend_public_key of
                   Some out_friend \<Rightarrow>
                     connect_out_friend (0 < ci_spawn io) friend_public_key
                       (ch_emit (dropped (out_conn (of_status out_friend)))
                         (s\<lparr> ch_out_friends := hm_insert friend_public_key (out_friend\<lparr> of_status := OutConnecting \<rparr>) (ch_out_friends s) \<rparr>))
                 | None \<Rightarrow> Ok s)))"

definition channeler_step ::
  "crypto_api \<Rightarrow> channeler_io \<times> 'ra channeler_event \<Rightarrow> 'ra channeler \<Rightarrow> ('ra channeler, channeler_error) res" where
  "channeler_step C round s =
     (case snd round of
        FromFunder m \<Rightarrow> handle_from_funder C (fst round) m s
      | Connection public_key raw_conn \<Rightarrow> handle_connection (fst round) public_key raw_conn s
      | FriendEvent e \<Rightarrow> handle_friend_event (fst round) e s
      | ListenerClosed \<Rightarrow> Err ChListenerClosed
      | FunderClosed \<Rightarrow> Err ChFunderClosed)"

text \<open>The loop over the events, and the whole function, which first spawns the task that forwards incoming connections.\<close>

fun channeler_events ::
  "crypto_api \<Rightarrow> (channeler_io \<times> 'ra channeler_event) list \<Rightarrow> 'ra channeler \<Rightarrow> ('ra channeler, channeler_error) res" where
  "channeler_events C [] s = Ok s"
| "channeler_events C (round # rounds) s = res_bind (channeler_step C round s) (channeler_events C rounds)"

definition channeler_loop ::
  "crypto_api \<Rightarrow> bool \<Rightarrow> public_key \<Rightarrow> (channeler_io \<times> 'ra channeler_event) list \<Rightarrow> ('ra channeler, channeler_error) res" where
  "channeler_loop C spawned local_public_key rounds =
     (if spawned then channeler_events C rounds (channeler_new local_public_key) else Err ChSpawnError)"

section \<open>What the funder and the pools see\<close>

text \<open>
  The friends that the reports to the funder say are online; \<open>None\<close> when a report contradicts
  the ones before it: a friend that is online twice, offline while it is not online, or a message
  of a friend that is not online.
\<close>

fun presence_step :: "'ra channeler_output \<Rightarrow> public_key set option \<Rightarrow> public_key set option" where
  "presence_step (ToFunder (CfOnline pk)) (Some P) = (if pk \<in> P then None else Some (insert pk P))"
| "presence_step (ToFunder (CfOffline pk)) (Some P) = (if pk \<in> P then Some (P - {pk}) else None)"
| "presence_step (ToFunder (CfMessage pk data)) (Some P) = (if pk \<in> P then Some P else None)"
| "presence_step _ P = P"

definition presence :: "'ra channeler_output list \<Rightarrow> public_key set option" where
  "presence out = fold presence_step out (Some {})"

text \<open>The friends that the listen pool was told to accept.\<close>

fun listened_step :: "'ra channeler_output \<Rightarrow> public_key set \<Rightarrow> public_key set" where
  "listened_step (ListenConfig (LpUpdateFriend pk relays)) L = insert pk L"
| "listened_step (ListenConfig (LpRemoveFriend pk)) L = L - {pk}"
| "listened_step _ L = L"

definition listened :: "'ra channeler_output list \<Rightarrow> public_key set" where
  "listened out = fold listened_step out {}"

text \<open>The connect requests, and the events that a connect pool gets.\<close>

definition connects :: "'ra channeler_output list \<Rightarrow> nat set" where
  "connects out = {n. PoolConnect n \<in> set out}"

fun pool_event :: "nat \<Rightarrow> 'ra channeler_output \<Rightarrow> ('ra, unit, nat) cp_event list" where
  "pool_event n (PoolConnect m) = (if m = n then [ConnectRequest ()] else [])"
| "pool_event n (PoolConfig m relays) = (if m = n then [ConfigRequest relays] else [])"
| "pool_event n _ = []"

definition pool_events :: "nat \<Rightarrow> 'ra channeler_output list \<Rightarrow> ('ra, unit, nat) cp_event list" where
  "pool_events n out = concat (map (pool_event n) out)"

definition new_output :: "'ra channeler \<Rightarrow> 'ra channeler \<Rightarrow> 'ra channeler_output list" where
  "new_output s s' = drop (length (ch_out s)) (ch_out s')"

section \<open>Runs\<close>

text \<open>
  \<open>live\<close> are the friends with an accepted connection whose end was not reported, \<open>pending\<close>
  the pools with a connect request that was not answered. What is expected: a connection of a
  friend that is connected to comes from a pending request; a message or an end comes from a live
  connection, and a friend is added again only when its last connection has ended.
\<close>

definition ch_known :: "'ra channeler \<Rightarrow> public_key \<Rightarrow> bool" where
  "ch_known s pk \<longleftrightarrow> hm_get (ch_in_friends s) pk \<noteq> None \<or> hm_get (ch_out_friends s) pk \<noteq> None"

fun ch_expected :: "public_key set \<Rightarrow> nat set \<Rightarrow> 'ra channeler \<Rightarrow> 'ra channeler_event \<Rightarrow> bool" where
  "ch_expected live pending s (FromFunder (FcUpdateFriend u)) =
     (ch_known s (fu_friend_public_key u) \<or> fu_friend_public_key u \<notin> live)"
| "ch_expected live pending s (FromFunder m) = True"
| "ch_expected live pending s (Connection pk conn) =
     (case hm_get (ch_out_friends s) pk of Some f \<Rightarrow> of_pool f \<in> pending | None \<Rightarrow> True)"
| "ch_expected live pending s (FriendEvent (IncomingMessage pk data)) = (pk \<in> live)"
| "ch_expected live pending s (FriendEvent (ReceiverClosed pk)) = (pk \<in> live)"
| "ch_expected live pending s _ = False"

fun next_live :: "'ra channeler \<Rightarrow> 'ra channeler_event \<Rightarrow> public_key set \<Rightarrow> public_key set" where
  "next_live s (Connection pk conn) live = (if ch_known s pk then insert pk live else live)"
| "next_live s (FriendEvent (ReceiverClosed pk)) live = live - {pk}"
| "next_live s _ live = live"

text \<open>
  The request a connection answers. A connection event names only the friend, and it is taken for
  the answer of the friend's current pool: a connection of a pool removed before, which the code
  could still find in its queue after the friend was added again, does not occur in a run.
\<close>

fun ch_answered :: "'ra channeler \<Rightarrow> 'ra channeler_event \<Rightarrow> nat set" where
  "ch_answered s (Connection pk conn) = (case hm_get (ch_out_friends s) pk of Some f \<Rightarrow> {of_pool f} | None \<Rightarrow> {})"
| "ch_answered s _ = {}"

inductive ch_run :: "crypto_api \<Rightarrow> public_key \<Rightarrow> public_key set \<Rightarrow> nat set \<Rightarrow> 'ra channeler \<Rightarrow> bool" for C l where
  ch_start: "ch_run C l {} {} (channeler_new l)"
| ch_next: "ch_run C l live pending s \<Longrightarrow> ch_expected live pending s e \<Longrightarrow> channeler_step C (io, e) s = Ok s'
    \<Longrightarrow> ch_run C l (next_live s e live) (pending - ch_answered s e \<union> connects (new_output s s')) s'"

definition ch_inv :: "crypto_api \<Rightarrow> public_key set \<Rightarrow> nat set \<Rightarrow> 'ra channeler \<Rightarrow> bool" where
  "ch_inv C live pending s \<longleftrightarrow>
     (\<forall>pk f. hm_get (ch_in_friends s) pk = Some f \<longrightarrow> is_listen_friend C pk s \<and> (in_conn f \<noteq> None \<longleftrightarrow> pk \<in> live))
   \<and> (\<forall>pk f. hm_get (ch_out_friends s) pk = Some f \<longrightarrow>
        \<not> is_listen_friend C pk s \<and> (out_conn (of_status f) \<noteq> None \<longleftrightarrow> pk \<in> live)
        \<and> (of_pool f \<in> pending \<longleftrightarrow> pk \<notin> live) \<and> of_pool f < ch_pools s)
   \<and> (\<forall>pk pk' f f'. hm_get (ch_out_friends s) pk = Some f \<longrightarrow> hm_get (ch_out_friends s) pk' = Some f' \<longrightarrow>
        of_pool f = of_pool f' \<longrightarrow> pk = pk')
   \<and> pending \<subseteq> {..<ch_pools s}
   \<and> presence (ch_out s) = Some live
   \<and> listened (ch_out s) = {pk. hm_get (ch_in_friends s) pk \<noteq> None}"

lemma fold_out [simp]:
  "presence [] = Some {}" "listened [] = {}"
  "presence (out @ [m]) = presence_step m (presence out)" "listened (out @ [m]) = listened_step m (listened out)"
  "presence (out @ [m, m']) = presence_step m' (presence_step m (presence out))"
  "listened (out @ [m, m']) = listened_step m' (listened_step m (listened out))"
  by (simp_all add: presence_def listened_def)

lemma connects_simps [simp]:
  "connects [] = {}" "connects (ms @ ms') = connects ms \<union> connects ms'"
  "connects (m # ms) = (case m of PoolConnect n \<Rightarrow> {n} | _ \<Rightarrow> {}) \<union> connects ms"
  by (auto simp: connects_def split: channeler_output.split)

lemma ch_emit_sel [simp]:
  "ch_in_friends (ch_emit ms s) = ch_in_friends s" "ch_out_friends (ch_emit ms s) = ch_out_friends s"
  "ch_pools (ch_emit ms s) = ch_pools s" "ch_local_public_key (ch_emit ms s) = ch_local_public_key s"
  "ch_out (ch_emit ms s) = ch_out s @ ms"
  by (simp_all add: ch_emit_def)

lemma ch_send_Ok: "ch_send ok e m s = Ok s' \<longleftrightarrow> ok \<and> s' = ch_emit [m] s"
  by (auto simp: ch_send_def)

lemma new_outputI: "ch_out s' = ch_out s @ ms \<Longrightarrow> new_output s s' = ms"
  by (simp add: new_output_def)

text \<open>Closing a connection and sending a message do not matter to the funder or the pools.\<close>

lemma quiet_outputs [simp]:
  "presence (out @ dropped c) = presence out" "listened (out @ dropped c) = listened out" "connects (dropped c) = {}"
  "presence (out @ fst (connected_send ok t f)) = presence out" "listened (out @ fst (connected_send ok t f)) = listened out"
  "connects (fst (connected_send ok t f)) = {}" "presence (out @ dropped c @ [m]) = presence_step m (presence out)"
  "listened (out @ dropped c @ [m]) = listened_step m (listened out)"
  "presence (out @ m # dropped c) = presence_step m (presence out)"
  "listened (out @ m # dropped c) = listened_step m (listened out)"
  by (auto simp: presence_def listened_def dropped_def connected_send_def split: option.split)

lemma put_friend_connected_sel [simp]:
  "ch_out (put_friend_connected pk c s) = ch_out s" "ch_pools (put_friend_connected pk c s) = ch_pools s"
  "ch_local_public_key (put_friend_connected pk c s) = ch_local_public_key s"
  by (simp_all add: put_friend_connected_def split: option.split)

lemmas channeler_handlers = handle_from_funder_def handle_connection_def handle_friend_event_def accept_connection_def
  try_create_friend_def connect_out_friend_def

lemmas ch_inv_simps = ch_inv_def is_listen_friend_def hm_simps

lemma ch_inv_outD:
  assumes "ch_inv C live pending s" "hm_get (ch_out_friends s) pk = Some f"
  shows "pk \<in> live \<longleftrightarrow> out_conn (of_status f) \<noteq> None" "hm_get (ch_in_friends s) pk = None"
proof -
  have "\<not> is_listen_friend C pk s" using assms unfolding ch_inv_def by blast
  moreover have "is_listen_friend C pk s" if "hm_get (ch_in_friends s) pk = Some g" for g
    using assms(1) that unfolding ch_inv_def by blast
  ultimately show "hm_get (ch_in_friends s) pk = None" by (cases "hm_get (ch_in_friends s) pk") auto
  show "pk \<in> live \<longleftrightarrow> out_conn (of_status f) \<noteq> None" using assms unfolding ch_inv_def by blast
qed

lemma ch_inv_inD:
  assumes "ch_inv C live pending s" "hm_get (ch_in_friends s) pk = Some f"
  shows "pk \<in> live \<longleftrightarrow> in_conn f \<noteq> None" "hm_get (ch_out_friends s) pk = None"
proof -
  show "pk \<in> live \<longleftrightarrow> in_conn f \<noteq> None" using assms unfolding ch_inv_def by blast
  show "hm_get (ch_out_friends s) pk = None"
    using ch_inv_outD(2) [OF assms(1), of pk] assms(2) by (cases "hm_get (ch_out_friends s) pk") auto
qed

definition ch_kept :: "crypto_api \<Rightarrow> public_key set \<Rightarrow> nat set \<Rightarrow> 'ra channeler_event \<Rightarrow> 'ra channeler \<Rightarrow> 'ra channeler \<Rightarrow> bool" where
  "ch_kept C live pending e s s' \<longleftrightarrow>
     ch_inv C (next_live s e live) (pending - ch_answered s e \<union> connects (new_output s s')) s'
   \<and> connects (new_output s s') \<inter> pending = {} \<and> ch_local_public_key s' = ch_local_public_key s"

lemma message_kept:
  fixes s :: "'ra channeler"
  assumes "ch_inv C live pending s" "channeler_step C (io, FromFunder (FcMessage pk m)) s = Ok s'"
  shows "ch_kept C live pending (FromFunder (FcMessage pk m)) s s'"
proof (cases "get_friend_connected pk s")
  case None
  then have "s' = s" using assms(2) by (simp add: channeler_step_def channeler_handlers)
  then show ?thesis using assms(1) by (simp add: ch_kept_def new_outputI [of s s "[]"])
next
  case (Some c)
  obtain out :: "'ra channeler_output list" and c' where sent: "connected_send (ci_message io) m c = (out, c')" by force
  have s': "s' = ch_emit out (put_friend_connected pk c' s)"
    using assms(2) Some sent by (simp add: channeler_step_def channeler_handlers)
  have "out = fst (connected_send (ci_message io) m c)" using sent by simp
  then show ?thesis using assms(1) Some
    by (fastforce simp: s' ch_kept_def new_outputI [of _ s out] ch_inv_simps put_friend_connected_def get_friend_connected_def
        bind_eq_Some_conv split: option.splits if_splits)
qed

lemma relays_kept:
  assumes "ch_inv C live pending s" "channeler_step C (io, FromFunder (FcSetRelays relays)) s = Ok s'"
  shows "ch_kept C live pending (FromFunder (FcSetRelays relays)) s s'"
proof -
  have s': "s' = ch_emit [ListenConfig (SetLocalAddresses relays)] s"
    using assms(2) by (simp add: channeler_step_def channeler_handlers ch_send_Ok)
  show ?thesis using assms(1)
    by (simp add: s' ch_kept_def new_outputI [of _ s "[ListenConfig (SetLocalAddresses relays)]"] ch_inv_simps)
qed

lemma update_kept:
  assumes "ch_inv C live pending s" "ch_known s (fu_friend_public_key u) \<or> fu_friend_public_key u \<notin> live"
    "channeler_step C (io, FromFunder (FcUpdateFriend u)) s = Ok s'"
  shows "ch_kept C live pending (FromFunder (FcUpdateFriend u)) s s'"
proof -
  let ?pk = "fu_friend_public_key u"
  let ?listen = "ListenConfig (LpUpdateFriend ?pk (fu_local_relays u))"
  consider (in_known) f where "hm_get (ch_in_friends s) ?pk = Some f"
    | (out_known) f where "hm_get (ch_in_friends s) ?pk = None" "hm_get (ch_out_friends s) ?pk = Some f"
    | (new_in) "\<not> ch_known s ?pk" "is_listen_friend C ?pk s"
    | (new_out) "\<not> ch_known s ?pk" "\<not> is_listen_friend C ?pk s"
    by (cases "hm_get (ch_in_friends s) ?pk"; cases "hm_get (ch_out_friends s) ?pk") (auto simp: ch_known_def)
  then show ?thesis
  proof cases
    case in_known
    then have s': "s' = ch_emit [?listen] s"
      using assms(3) by (simp add: channeler_step_def channeler_handlers hm_contains_def ch_send_Ok)
    show ?thesis using assms(1) in_known by (auto simp: s' ch_kept_def new_outputI [of _ s "[?listen]"] ch_inv_simps)
  next
    case out_known
    then have s': "s' = ch_emit [PoolConfig (of_pool f) (fu_friend_relays u)] s"
      using assms(3) by (simp add: channeler_step_def channeler_handlers hm_contains_def ch_send_Ok)
    show ?thesis using assms(1)
      by (simp add: s' ch_kept_def new_outputI [of _ s "[PoolConfig (of_pool f) (fu_friend_relays u)]"] ch_inv_simps)
  next
    case new_in
    then have s': "s' = ch_emit [?listen] (s\<lparr> ch_in_friends := hm_insert ?pk InListening (ch_in_friends s) \<rparr>)"
      using assms(3) by (simp add: channeler_step_def channeler_handlers hm_contains_def ch_send_Ok ch_known_def hm_simps)
    show ?thesis using assms(1,2) new_in
      by (auto simp: s' ch_kept_def new_outputI [of _ s "[?listen]"] ch_inv_simps ch_known_def split: if_splits)
  next
    case new_out
    let ?out = "[NewPool (ch_pools s) ?pk, PoolConnect (ch_pools s), PoolConfig (ch_pools s) (fu_friend_relays u)]"
    have s': "s' = ch_emit ?out (s\<lparr> ch_pools := ch_pools s + 1,
        ch_out_friends := hm_insert ?pk \<lparr> of_pool = ch_pools s, of_status = OutConnecting \<rparr> (ch_out_friends s) \<rparr>)"
      using assms(3) new_out
      by (auto simp: channeler_step_def channeler_handlers hm_contains_def ch_send_def ch_known_def hm_simps ch_emit_def res_simps split: if_splits)
    have out: "presence (ch_out s @ ?out) = presence (ch_out s)" "listened (ch_out s @ ?out) = listened (ch_out s)"
      by (simp_all add: presence_def listened_def)
    show ?thesis using assms(1,2) new_out
      by (fastforce simp: s' out ch_kept_def new_outputI [of _ s ?out] ch_inv_simps ch_known_def split: if_splits)
  qed
qed

lemma remove_kept:
  assumes "ch_inv C live pending s" "channeler_step C (io, FromFunder (FcRemoveFriend pk)) s = Ok s'"
  shows "ch_kept C live pending (FromFunder (FcRemoveFriend pk)) s s'"
proof (cases "hm_get (ch_in_friends s) pk")
  case None
  let ?out = "dropped (Option.bind (hm_get (ch_out_friends s) pk) (\<lambda>f. out_conn (of_status f)))"
  have s': "s' = ch_emit ?out (s\<lparr> ch_out_friends := hm_remove pk (ch_out_friends s) \<rparr>)"
    using assms(2) None by (simp add: channeler_step_def channeler_handlers)
  show ?thesis using assms(1) by (auto simp: s' ch_kept_def new_outputI [of _ s ?out] ch_inv_simps split: if_splits)
next
  case (Some f)
  let ?out = "dropped (in_conn f) @ [ListenConfig (LpRemoveFriend pk)]"
  have s': "s' = ch_emit ?out (s\<lparr> ch_in_friends := hm_remove pk (ch_in_friends s) \<rparr>)"
    using assms(2) Some by (simp add: channeler_step_def channeler_handlers ch_send_Ok ch_emit_def)
  show ?thesis using assms(1) by (auto simp: s' ch_kept_def new_outputI [of _ s ?out] ch_inv_simps split: if_splits)
qed

lemma connection_kept:
  assumes "ch_inv C live pending s" "ch_expected live pending s (Connection pk conn)"
    "channeler_step C (io, Connection pk conn) s = Ok s'"
  shows "ch_kept C live pending (Connection pk conn) s s'"
proof -
  let ?c = "InConnected \<lparr> fc_conn = conn, fc_opt_sender = True \<rparr>"
  let ?o = "OutConnected \<lparr> fc_conn = conn, fc_opt_sender = True \<rparr>"
  consider (closed) "s' = ch_emit [CloseConnection conn] s" "ch_known s pk \<longrightarrow> pk \<in> live" "hm_get (ch_out_friends s) pk = None"
    | (in_friend) "hm_get (ch_in_friends s) pk = Some InListening" "hm_get (ch_out_friends s) pk = None"
        "s' = ch_emit [ToFunder (CfOnline pk)] (s\<lparr> ch_in_friends := hm_insert pk ?c (ch_in_friends s) \<rparr>)"
    | (out_friend) f where "hm_get (ch_out_friends s) pk = Some f" "of_status f = OutConnecting"
        "s' = ch_emit [ToFunder (CfOnline pk)] (s\<lparr> ch_out_friends := hm_insert pk (f\<lparr> of_status := ?o \<rparr>) (ch_out_friends s) \<rparr>)"
    using assms
    by (cases "hm_get (ch_in_friends s) pk"; cases "hm_get (ch_out_friends s) pk")
       (fastforce simp: channeler_step_def channeler_handlers ch_send_Ok ch_known_def ch_inv_simps
          split: if_splits in_friend.splits out_friend_status.splits)+
  then show ?thesis
  proof cases
    case closed
    then show ?thesis using assms(1)
      by (auto simp: ch_kept_def new_outputI [of _ s "[CloseConnection conn]"] ch_inv_simps insert_absorb)
  next
    case in_friend
    then show ?thesis using assms(1)
      by (fastforce simp: ch_kept_def ch_known_def new_outputI [of _ s "[ToFunder (CfOnline pk)]"] ch_inv_simps split: if_splits)
  next
    case out_friend
    have pk: "pk \<notin> live" "hm_get (ch_in_friends s) pk = None"
      using ch_inv_outD [OF assms(1) out_friend(1)] out_friend(2) by simp_all
    have other: "of_pool f' \<noteq> of_pool f" if "hm_get (ch_out_friends s) pk' = Some f'" "pk' \<noteq> pk" for pk' f'
      using assms(1) out_friend(1) that unfolding ch_inv_def by blast
    show ?thesis using assms(1) pk out_friend(1) other
      by (auto simp: out_friend(3) ch_kept_def ch_known_def new_outputI [of _ s "[ToFunder (CfOnline pk)]"] ch_inv_simps)
  qed
qed

lemma incoming_kept:
  assumes "ch_inv C live pending s" "pk \<in> live" "channeler_step C (io, FriendEvent (IncomingMessage pk data)) s = Ok s'"
  shows "ch_kept C live pending (FriendEvent (IncomingMessage pk data)) s s'"
proof -
  have s': "s' = ch_emit [ToFunder (CfMessage pk data)] s"
    using assms(3) by (simp add: channeler_step_def channeler_handlers ch_send_Ok)
  show ?thesis using assms(1,2)
    by (simp add: s' ch_kept_def new_outputI [of _ s "[ToFunder (CfMessage pk data)]"] ch_inv_simps)
qed

lemma closed_kept:
  fixes s :: "'ra channeler"
  assumes "ch_inv C live pending s" "pk \<in> live" "channeler_step C (io, FriendEvent (ReceiverClosed pk)) s = Ok s'"
  shows "ch_kept C live pending (FriendEvent (ReceiverClosed pk)) s s'"
proof -
  let ?off = "ToFunder (CfOffline pk) :: 'ra channeler_output"
  consider (in_friend) f where "hm_get (ch_in_friends s) pk = Some f" 
    | (out_friend) f where "hm_get (ch_in_friends s) pk = None" "hm_get (ch_out_friends s) pk = Some f"
    | (gone) "hm_get (ch_in_friends s) pk = None" "hm_get (ch_out_friends s) pk = None"
    by (cases "hm_get (ch_in_friends s) pk"; cases "hm_get (ch_out_friends s) pk") auto
  then show ?thesis
  proof cases
    case in_friend
    let ?out = "?off # dropped (in_conn f)"
    have s': "s' = ch_emit ?out (s\<lparr> ch_in_friends := hm_insert pk InListening (ch_in_friends s) \<rparr>)"
      using assms(3) in_friend by (auto simp: channeler_step_def channeler_handlers ch_send_def ch_emit_def res_simps split: if_splits)
    show ?thesis using assms(1,2) in_friend
      by (fastforce simp: s' ch_kept_def new_outputI [of _ s ?out] ch_inv_simps split: if_splits)
  next
    case out_friend
    let ?out = "?off # dropped (out_conn (of_status f)) @ [PoolConnect (of_pool f)]"
    have s': "s' = ch_emit ?out (s\<lparr> ch_out_friends := hm_insert pk (f\<lparr> of_status := OutConnecting \<rparr>) (ch_out_friends s) \<rparr>)"
      using assms(3) out_friend
      by (auto simp: channeler_step_def channeler_handlers ch_send_def ch_emit_def res_simps hm_simps split: if_splits)
    have out: "presence (ch_out s @ ?out) = presence_step ?off (presence (ch_out s))"
      "listened (ch_out s @ ?out) = listened (ch_out s)"
      by (auto simp: presence_def listened_def dropped_def split: option.split)
    show ?thesis using assms(1,2) out_friend
      by (fastforce simp: s' out ch_kept_def new_outputI [of _ s ?out] ch_inv_simps split: if_splits)
  next
    case gone
    have s': "s' = ch_emit [?off] s" using assms(3) gone
      by (auto simp: channeler_step_def channeler_handlers ch_send_def ch_emit_def res_simps split: if_splits)
    show ?thesis using assms(1,2) gone
      by (auto simp: s' ch_kept_def new_outputI [of _ s "[?off]"] ch_inv_simps)
  qed
qed

lemma ch_step_kept:
  assumes "ch_inv C live pending s" "ch_expected live pending s e" "channeler_step C (io, e) s = Ok s'"
  shows "ch_kept C live pending e s s'"
proof (cases e)
  case (FromFunder m)
  then show ?thesis using assms message_kept relays_kept update_kept remove_kept by (cases m) fastforce+
next
  case (FriendEvent f)
  then show ?thesis using assms incoming_kept closed_kept by (cases f) fastforce+
qed (use assms connection_kept in auto)

lemma ch_run_inv: "ch_run C l live pending s \<Longrightarrow> ch_inv C live pending s \<and> ch_local_public_key s = l"
proof (induction rule: ch_run.induct)
  case ch_start
  show ?case by (simp add: ch_inv_def channeler_new_def)
next
  case (ch_next live pending s e io s')
  then show ?case using ch_step_kept [of C live pending s e io s'] by (simp add: ch_kept_def)
qed

text \<open>A round in which tasks can be spawned and every channel takes a message.\<close>

definition ch_ready :: "channeler_io \<Rightarrow> bool" where
  "ch_ready io \<longleftrightarrow> 2 \<le> ci_spawn io \<and> ci_funder io \<and> ci_listen_config io \<and> ci_pool_config io"

lemma channeler_step_no_panic: "channeler_step C (io, e) s \<noteq> Panic"
  by (auto simp: channeler_step_def channeler_handlers ch_send_def hm_simps res_simps Let_def
      split: channeler_event.split funder_to_channeler.split friend_event.split option.split in_friend.split out_friend_status.split prod.split)

lemma channeler_step_ready:
  assumes "ch_ready io" "ch_expected live pending s e"
  shows "\<exists>s'. channeler_step C (io, e) s = Ok s'"
  using assms
  by (cases e)
     (auto simp: channeler_step_def channeler_handlers ch_send_def ch_ready_def hm_simps Let_def
      split: funder_to_channeler.split friend_event.split option.split in_friend.split out_friend_status.split prod.split)

text \<open>
  C26: As long as a friend is added again only when its last connection has ended and no connection
  of its removed connect pool is still on the way, the channeler serves the funder and the pools as
  they expect. It never panics and no expected event fails when its channels are open; what it
  reports to the funder is consistent and says who has a connection; it waits for exactly the
  friends whose public key is greater than its own, which are the ones the listen pool was told
  about; and a friend it connects to is either connected or has one request at its connect pool,
  which never gets a second one.
\<close>

theorem channeler_tracks_friends:
  assumes "ch_run C l live pending s"
  shows "(\<forall>io e. channeler_step C (io, e) s \<noteq> Panic)
    \<and> (\<forall>io e. ch_expected live pending s e \<and> ch_ready io \<longrightarrow>
         (\<exists>s'. channeler_step C (io, e) s = Ok s' \<and> connects (new_output s s') \<inter> pending = {}))
    \<and> presence (ch_out s) = Some live
    \<and> (\<forall>pk. ch_known s pk \<longrightarrow> (get_friend_connected pk s \<noteq> None) = (pk \<in> live))
    \<and> listened (ch_out s) = {pk. ch_known s pk \<and> public_key_less C l pk}
    \<and> (\<forall>pk f. hm_get (ch_out_friends s) pk = Some f \<longrightarrow> (of_pool f \<in> pending) = (get_friend_connected pk s = None))"
proof -
  have inv: "ch_inv C live pending s" "ch_local_public_key s = l" using ch_run_inv [OF assms] by simp_all
  have connected: "(get_friend_connected pk s \<noteq> None) = (pk \<in> live)" if "ch_known s pk" for pk
    using that ch_inv_outD [OF inv(1), of pk] ch_inv_inD [OF inv(1), of pk]
    by (auto simp: ch_known_def get_friend_connected_def split: option.split)
  have "listened (ch_out s) = {pk. ch_known s pk \<and> public_key_less C l pk}"
    using inv by (auto simp: ch_inv_def ch_known_def is_listen_friend_def)
  moreover have "(of_pool f \<in> pending) = (get_friend_connected pk s = None)" if "hm_get (ch_out_friends s) pk = Some f" for pk f
    using connected [of pk] inv(1) that by (auto simp: ch_inv_def ch_known_def)
  moreover have "\<exists>s'. channeler_step C (io, e) s = Ok s' \<and> connects (new_output s s') \<inter> pending = {}"
    if "ch_expected live pending s e" "ch_ready io" for io e
    using channeler_step_ready [OF that(2,1), of C] ch_step_kept [OF inv(1) that(1), of io] by (auto simp: ch_kept_def)
  moreover have "presence (ch_out s) = Some live" using inv(1) by (simp add: ch_inv_def)
  ultimately show ?thesis using connected channeler_step_no_panic by blast
qed

definition example_ch_io :: channeler_io where
  "example_ch_io = \<lparr> ci_spawn = 2, ci_funder = True, ci_listen_config = True, ci_pool_config = True, ci_message = True \<rparr>"

definition example_friend_update :: "nat friend_update" where
  "example_friend_update = \<lparr> fu_friend_public_key = [1], fu_friend_relays = [5], fu_local_relays = [6] \<rparr>"

definition example_channeler :: "out_friend_status \<Rightarrow> nat channeler_output list \<Rightarrow> nat channeler" where
  "example_channeler status out =
     \<lparr> ch_local_public_key = [2], ch_in_friends = [], ch_out_friends = [([1], \<lparr> of_pool = 0, of_status = status \<rparr>)],
       ch_pools = 1, ch_out = [NewPool 0 [1], PoolConnect 0, PoolConfig 0 [5]] @ out \<rparr>"

lemma example_channeler_steps:
  "channeler_step example_crypto (example_ch_io, FromFunder (FcUpdateFriend example_friend_update)) (channeler_new [2]) =
     Ok (example_channeler OutConnecting [])"
  "channeler_step example_crypto (example_ch_io, Connection [1] 7) (example_channeler OutConnecting []) =
     Ok (example_channeler (OutConnected \<lparr> fc_conn = 7, fc_opt_sender = True \<rparr>) [ToFunder (CfOnline [1])])"
  by code_simp+

lemma example_channeler_run:
  "ch_run example_crypto [2] {[1]} {} (example_channeler (OutConnected \<lparr> fc_conn = 7, fc_opt_sender = True \<rparr>) [ToFunder (CfOnline [1])])"
proof -
  have "ch_run example_crypto [2] {} {0} (example_channeler OutConnecting [])"
    using ch_next [OF ch_start _ example_channeler_steps(1)]
    by (simp add: channeler_new_def example_channeler_def new_output_def ch_known_def)
  from ch_next [OF this _ example_channeler_steps(2)] show ?thesis
    by (simp add: example_channeler_def new_output_def ch_known_def hm_get_def)
qed

theorem channeler_tracks_friends_witness:
  "\<exists>s :: nat channeler. ch_run example_crypto [2] {[1]} {} s \<and> presence (ch_out s) = Some {[1]}
    \<and> (\<exists>s'. channeler_step example_crypto (example_ch_io, FriendEvent (ReceiverClosed [1])) s = Ok s'
         \<and> connects (new_output s s') \<inter> {} = {})"
proof -
  have ready: "ch_ready example_ch_io" by (simp add: ch_ready_def example_ch_io_def)
  have exp: "ch_expected {[1]} {} s (FriendEvent (ReceiverClosed [1]))" for s :: "nat channeler" by simp
  let ?s = "example_channeler (OutConnected \<lparr> fc_conn = 7, fc_opt_sender = True \<rparr>) [ToFunder (CfOnline [1])]"
  note facts = channeler_tracks_friends [OF example_channeler_run]
  have step: "\<forall>io e. ch_expected {[1]} {} ?s e \<and> ch_ready io \<longrightarrow>
      (\<exists>s'. channeler_step example_crypto (io, e) ?s = Ok s' \<and> connects (new_output ?s s') \<inter> {} = {})"
    by (rule facts [THEN conjunct2, THEN conjunct1])
  have reports: "presence (ch_out ?s) = Some {[1]}" by (rule facts [THEN conjunct2, THEN conjunct2, THEN conjunct1])
  show ?thesis
    by (rule exI [of _ ?s], intro conjI, rule example_channeler_run, rule reports, rule step [rule_format], intro conjI, rule exp, rule ready)
qed

section \<open>A friend that is added again too early\<close>

lemma add_address_requested:
  assumes "cp_status p \<noteq> NoRequest" "\<forall>n. spawns n"
  shows "\<exists>p'. add_address spawns a p = Ok p' \<and> cp_status p' \<noteq> NoRequest"
  using assms(1) by (cases "cp_status p"; cases "cp_addresses p") (auto simp: add_address_def start_connecting_Ok [OF assms(2)] Let_def)

lemma config_first_requested:
  assumes "cp_status p \<noteq> NoRequest" "cp_addresses p = []" "\<forall>n. spawns n" "iterates iter"
  shows "\<exists>p'. handle_config_request spawns iter config p = Ok p' \<and> cp_status p' \<noteq> NoRequest"
proof -
  have "\<exists>p'. for_addresses (add_address spawns) as p = Ok p' \<and> cp_status p' \<noteq> NoRequest" for as
    using assms(1)
  proof (induction as arbitrary: p)
    case (Cons a as)
    then show ?case using add_address_requested [OF Cons.prems assms(3), of a] by fastforce
  qed simp
  then show ?thesis using assms(2) by (simp add: handle_config_request_def Let_def iteratesD(3,4) [OF assms(4)])
qed

lemma second_request_fails:
  assumes "\<forall>n. spawns n" "iterates iter"
  shows "connect_pool_loop spawns iter [ConnectRequest r, ConfigRequest config, ConnectRequest r'] (connect_pool_new backoff :: ('ra, 'r, 'conn) connect_pool)
    = Err MultipleConnectRequests"
proof -
  let ?p = "(connect_pool_new backoff)\<lparr> cp_status := Waiting 0 r \<rparr> :: ('ra, 'r, 'conn) connect_pool"
  obtain p where p: "handle_config_request spawns iter config ?p = Ok p" "cp_status p \<noteq> NoRequest"
    using config_first_requested [OF _ _ assms, of ?p config] by (auto simp: connect_pool_new_def)
  have "handle_connect_request spawns r (connect_pool_new backoff) = Ok ?p"
    by (simp add: handle_connect_request_def connect_pool_new_def)
  moreover have "handle_connect_request spawns r' p = Err MultipleConnectRequests"
    using p(2) by (cases "cp_status p") (simp_all add: handle_connect_request_def)
  ultimately show ?thesis using p(1) by (simp add: connect_pool_step_def)
qed

text \<open>The state of a channeler with one friend, or none.\<close>

definition out_only :: "public_key \<Rightarrow> (public_key, out_friend) hmap \<Rightarrow> nat \<Rightarrow> 'ra channeler_output list \<Rightarrow> 'ra channeler" where
  "out_only l friends pools out =
     \<lparr> ch_local_public_key = l, ch_in_friends = [], ch_out_friends = friends, ch_pools = pools, ch_out = out \<rparr>"

definition in_only :: "public_key \<Rightarrow> (public_key, in_friend) hmap \<Rightarrow> 'ra channeler_output list \<Rightarrow> 'ra channeler" where
  "in_only l friends out =
     \<lparr> ch_local_public_key = l, ch_in_friends = friends, ch_out_friends = [], ch_pools = 0, ch_out = out \<rparr>"

lemmas one_friend = channeler_step_def channeler_handlers ch_send_def ch_emit_def out_only_def in_only_def is_listen_friend_def hm_contains_def
  hm_get_def hm_insert_def hm_remove_def dropped_def

lemma out_only_steps:
  assumes "ch_ready io" "\<not> public_key_less C l (fu_friend_public_key u)"
  shows "channeler_step C (io, FromFunder (FcUpdateFriend u)) (out_only l [] n out) =
      Ok (out_only l [(fu_friend_public_key u, \<lparr> of_pool = n, of_status = OutConnecting \<rparr>)] (n + 1)
        (out @ [NewPool n (fu_friend_public_key u), PoolConnect n, PoolConfig n (fu_friend_relays u)]))"
    "channeler_step C (io, Connection pk c) (out_only l [(pk, \<lparr> of_pool = k, of_status = OutConnecting \<rparr>)] n out) =
      Ok (out_only l [(pk, \<lparr> of_pool = k, of_status = OutConnected \<lparr> fc_conn = c, fc_opt_sender = True \<rparr> \<rparr>)] n (out @ [ToFunder (CfOnline pk)]))"
    "channeler_step C (io, FromFunder (FcRemoveFriend pk)) (out_only l [(pk, \<lparr> of_pool = k, of_status = OutConnected f \<rparr>)] n out) =
      Ok (out_only l [] n (out @ [CloseConnection (fc_conn f)]))"
    "channeler_step C (io, FriendEvent (ReceiverClosed pk)) (out_only l [(pk, \<lparr> of_pool = k, of_status = OutConnecting \<rparr>)] n out) =
      Ok (out_only l [(pk, \<lparr> of_pool = k, of_status = OutConnecting \<rparr>)] n (out @ [ToFunder (CfOffline pk), PoolConnect k]))"
  using assms by (auto simp: one_friend ch_ready_def)

lemma in_only_steps:
  assumes "ch_ready io" "public_key_less C l (fu_friend_public_key u)"
  shows "channeler_step C (io, FromFunder (FcUpdateFriend u)) (in_only l [] out) =
      Ok (in_only l [(fu_friend_public_key u, InListening)] (out @ [ListenConfig (LpUpdateFriend (fu_friend_public_key u) (fu_local_relays u))]))"
    "channeler_step C (io, Connection pk c) (in_only l [(pk, InListening)] out) =
      Ok (in_only l [(pk, InConnected \<lparr> fc_conn = c, fc_opt_sender = True \<rparr>)] (out @ [ToFunder (CfOnline pk)]))"
    "channeler_step C (io, FromFunder (FcRemoveFriend pk)) (in_only l [(pk, InConnected f)] out) =
      Ok (in_only l [] (out @ [CloseConnection (fc_conn f), ListenConfig (LpRemoveFriend pk)]))"
    "channeler_step C (io, FriendEvent (ReceiverClosed pk)) (in_only l [(pk, InConnected f)] out) =
      Ok (in_only l [(pk, InListening)] (out @ [ToFunder (CfOffline pk), CloseConnection (fc_conn f)]))"
  using assms by (auto simp: one_friend ch_ready_def)

lemma channeler_new_only: "channeler_new l = out_only l [] 0 []" "channeler_new l = in_only l [] []"
  by (simp_all add: channeler_new_def out_only_def in_only_def)

text \<open>
  The event that a connection ended names the friend and not the connection. When a friend is
  removed and added again before that event of its old connection is handled, a friend that is
  connected to gets a second connect request at its new pool, which ends with an error, so that the next update
  of the friend ends the channeler; and a friend that is waited for is reported online twice and
  then offline, and loses its new connection.
\<close>

theorem stale_close_breaks_friend:
  fixes u :: "'ra friend_update"
  assumes "ch_ready io" and "\<forall>n. spawns n" and "iterates iter" and "pk = fu_friend_public_key u"
  shows "(\<not> public_key_less C l pk \<longrightarrow>
      (\<exists>s. channeler_events C (map (Pair io) [FromFunder (FcUpdateFriend u), Connection pk c, FromFunder (FcRemoveFriend pk),
             FromFunder (FcUpdateFriend u), FriendEvent (ReceiverClosed pk)]) (channeler_new l) = Ok s
         \<and> connect_pool_loop spawns iter (pool_events 1 (ch_out s)) (connect_pool_new backoff) = Err MultipleConnectRequests
         \<and> (\<forall>io'. \<not> ci_pool_config io' \<longrightarrow> channeler_step C (io', FromFunder (FcUpdateFriend u)) s = Err ConnectorConfigError)))
    \<and> (public_key_less C l pk \<longrightarrow>
      (\<exists>s. channeler_events C (map (Pair io) [FromFunder (FcUpdateFriend u), Connection pk c, FromFunder (FcRemoveFriend pk),
             FromFunder (FcUpdateFriend u), Connection pk d, FriendEvent (ReceiverClosed pk)]) (channeler_new l) = Ok s
         \<and> ch_out s = [ListenConfig (LpUpdateFriend pk (fu_local_relays u)), ToFunder (CfOnline pk), CloseConnection c,
              ListenConfig (LpRemoveFriend pk), ListenConfig (LpUpdateFriend pk (fu_local_relays u)), ToFunder (CfOnline pk),
              ToFunder (CfOffline pk), CloseConnection d]
         \<and> get_friend_connected pk s = None))"
proof -
  have failed: "channeler_step C (io', FromFunder (FcUpdateFriend u)) (out_only l [(pk, f)] n out) = Err ConnectorConfigError"
    if "\<not> ci_pool_config io'" for io' f n and out :: "'ra channeler_output list"
    using that assms(4) by (simp add: one_friend)
  have out: "\<not> public_key_less C l pk \<Longrightarrow> channeler_events C (map (Pair io) [FromFunder (FcUpdateFriend u), Connection pk c,
      FromFunder (FcRemoveFriend pk), FromFunder (FcUpdateFriend u), FriendEvent (ReceiverClosed pk)]) (channeler_new l) =
      Ok (out_only l [(pk, \<lparr> of_pool = 1, of_status = OutConnecting \<rparr>)] 2
        [NewPool 0 pk, PoolConnect 0, PoolConfig 0 (fu_friend_relays u), ToFunder (CfOnline pk), CloseConnection c,
         NewPool 1 pk, PoolConnect 1, PoolConfig 1 (fu_friend_relays u), ToFunder (CfOffline pk), PoolConnect 1])"
    using assms(4) by (simp add: channeler_new_only(1) out_only_steps [OF assms(1)] numeral_2_eq_2)
  have inn: "public_key_less C l pk \<Longrightarrow> channeler_events C (map (Pair io) [FromFunder (FcUpdateFriend u), Connection pk c,
      FromFunder (FcRemoveFriend pk), FromFunder (FcUpdateFriend u), Connection pk d, FriendEvent (ReceiverClosed pk)]) (channeler_new l) =
      Ok (in_only l [(pk, InListening)]
        [ListenConfig (LpUpdateFriend pk (fu_local_relays u)), ToFunder (CfOnline pk), CloseConnection c,
         ListenConfig (LpRemoveFriend pk), ListenConfig (LpUpdateFriend pk (fu_local_relays u)), ToFunder (CfOnline pk),
         ToFunder (CfOffline pk), CloseConnection d])"
    using assms(4) by (simp add: channeler_new_only(2) in_only_steps [OF assms(1)])
  have second: "connect_pool_loop spawns iter (pool_events 1 (ch_out (out_only l friends n
      [NewPool 0 pk, PoolConnect 0, PoolConfig 0 r, ToFunder (CfOnline pk), CloseConnection c,
         NewPool 1 pk, PoolConnect 1, PoolConfig 1 r, ToFunder (CfOffline pk), PoolConnect 1])))
      (connect_pool_new backoff) = Err MultipleConnectRequests" for friends n and r :: "'ra list"
    using second_request_fails [OF assms(2,3), of "()" r "()" backoff] by (simp add: pool_events_def out_only_def)
  show ?thesis
    by (intro conjI impI exI, erule out, rule second, simp add: failed, erule inn, simp add: in_only_def,
        simp add: in_only_def get_friend_connected_def hm_get_def)
qed

theorem stale_close_breaks_friend_witness:
  "\<exists>s. channeler_events example_crypto (map (Pair example_ch_io) [FromFunder (FcUpdateFriend example_friend_update), Connection [1] 7,
         FromFunder (FcRemoveFriend [1]), FromFunder (FcUpdateFriend example_friend_update), FriendEvent (ReceiverClosed [1])])
       (channeler_new [2]) = Ok s
     \<and> connect_pool_loop (\<lambda>n. True) (\<lambda>xs. xs) (pool_events 1 (ch_out s)) (connect_pool_new 3) = Err MultipleConnectRequests"
proof -
  have ready: "ch_ready example_ch_io" by (simp add: ch_ready_def example_ch_io_def)
  have it: "iterates (\<lambda>xs :: nat list. xs)" by (simp add: iterates_def)
  have pk: "[1] = fu_friend_public_key example_friend_update" by (simp add: example_friend_update_def)
  have "\<not> public_key_less example_crypto [2] [1]" by code_simp
  then show ?thesis using stale_close_breaks_friend [OF ready _ it pk, of "\<lambda>n. True" example_crypto "[2]" 7 3] by blast
qed

end
