(* ===== verification/OverwriteChannel.thy ===== *)
theory OverwriteChannel
  imports Prelude "HOL-Library.Sublist"
begin

text \<open>
  The channel between the channeler and the connection of a friend
  (\<open>channeler/src/overwrite_channel.rs\<close>): a message that waits to be sent is replaced by a newer one.

  One call of \<open>poll\<close> asks its receiver and its sender in turn; the answers that they give during the
  call are two lists, and a receiver or sender without further answers is pending. What was
  received and what was given to the sender is recorded in order.
\<close>

section \<open>Definitions\<close>

datatype 'a poll = Ready 'a | Pending

datatype 'e send_answer = SendReady | SendPending | PollReadyError 'e | StartSendError 'e

record 't overwrite_channel =
  oc_opt_item :: "'t option"
  oc_opt_receiver :: bool
  oc_received :: "'t list"
  oc_sent :: "'t list"

definition overwrite_channel_new :: "'t overwrite_channel" where
  "overwrite_channel_new = \<lparr> oc_opt_item = None, oc_opt_receiver = True, oc_received = [], oc_sent = [] \<rparr>"

text \<open>The first half of the loop: whether an item came, the answers that are left, and the new state.\<close>

fun recv_progress ::
  "'t option poll list \<Rightarrow> 't overwrite_channel \<Rightarrow> bool \<times> 't option poll list \<times> 't overwrite_channel" where
  "recv_progress [] s = (False, [], s)"
| "recv_progress (r # rs) s =
     (if \<not> oc_opt_receiver s then (False, r # rs, s)
      else
        case r of
          Ready (Some item) \<Rightarrow> (True, rs, s\<lparr> oc_opt_item := Some item, oc_received := oc_received s @ [item] \<rparr>)
        | Ready None \<Rightarrow> (False, rs, s\<lparr> oc_opt_receiver := False \<rparr>)
        | Pending \<Rightarrow> (False, rs, s))"

lemma recv_progress_length: "recv_progress rs s = (p, rs', s') \<Longrightarrow> length rs' + (if p then 1 else 0) \<le> length rs"
  by (cases rs) (auto split: if_splits poll.splits option.splits)

function overwrite_poll ::
  "'t option poll list \<Rightarrow> 'e send_answer list \<Rightarrow> 't overwrite_channel \<Rightarrow> (unit, 'e) res poll \<times> 't overwrite_channel" where
  "overwrite_poll rs ss s =
     (case recv_progress rs s of
        (progress, rs', s') \<Rightarrow>
          (case oc_opt_item s' of
             Some item \<Rightarrow>
               (case ss of
                  SendReady # ss' \<Rightarrow> overwrite_poll rs' ss' (s'\<lparr> oc_opt_item := None, oc_sent := oc_sent s' @ [item] \<rparr>)
                | StartSendError e # ss' \<Rightarrow> (Ready (Err e), s'\<lparr> oc_opt_item := None \<rparr>)
                | PollReadyError e # ss' \<Rightarrow> (Ready (Err e), s'\<lparr> oc_opt_item := None \<rparr>)
                | SendPending # ss' \<Rightarrow> if progress then overwrite_poll rs' ss' s' else (Pending, s')
                | [] \<Rightarrow> if progress then overwrite_poll rs' [] s' else (Pending, s'))
           | None \<Rightarrow> (if \<not> oc_opt_receiver s' then Ready (Ok ()) else Pending, s')))"
  by pat_completeness auto
termination
  by (relation "measure (\<lambda>(rs, ss, s). length rs + length ss)") (auto dest!: recv_progress_length [OF sym])

declare overwrite_poll.simps [simp del]

text \<open>The task is polled until it is ready; the answers of each call are given.\<close>

fun overwrite_send_all ::
  "('t option poll list \<times> 'e send_answer list) list \<Rightarrow> 't overwrite_channel \<Rightarrow> (unit, 'e) res poll \<times> 't overwrite_channel" where
  "overwrite_send_all [] s = (Pending, s)"
| "overwrite_send_all ((rs, ss) # calls) s =
     (case overwrite_poll rs ss s of
        (Pending, s') \<Rightarrow> overwrite_send_all calls s'
      | (Ready result, s') \<Rightarrow> (Ready result, s'))"

section \<open>Only old messages are dropped\<close>

definition waiting_item :: "'t overwrite_channel \<Rightarrow> 't list" where
  "waiting_item s = (case oc_opt_item s of Some item \<Rightarrow> [item] | None \<Rightarrow> [])"

text \<open>The newest message that was received is the last that was sent, or waits.\<close>

definition newest_kept :: "'t overwrite_channel \<Rightarrow> bool" where
  "newest_kept s \<longleftrightarrow> subseq (oc_sent s @ waiting_item s) (oc_received s)
     \<and> (oc_received s \<noteq> [] \<longrightarrow> oc_sent s @ waiting_item s \<noteq> [] \<and> last (oc_sent s @ waiting_item s) = last (oc_received s))"

lemma sent_subseq: "subseq (oc_sent s @ waiting_item s) xs \<Longrightarrow> subseq (oc_sent s) xs"
  using list_emb_prefix [of "(=)" "oc_sent s" "oc_sent s" "waiting_item s"] subseq_order.order_trans by blast

lemma recv_progress_kept:
  assumes "newest_kept s" "recv_progress rs s = (p, rs', s')"
  shows "newest_kept s'"
proof (cases "oc_received s' = oc_received s")
  case True
  then have "oc_opt_item s' = oc_opt_item s" "oc_sent s' = oc_sent s"
    using assms(2) by (cases rs; auto split: if_splits poll.splits option.splits)+
  then show ?thesis using assms(1) True by (simp add: newest_kept_def waiting_item_def)
next
  case False
  then obtain item where item: "oc_opt_item s' = Some item" "oc_received s' = oc_received s @ [item]" "oc_sent s' = oc_sent s"
    using assms(2) by (cases rs) (auto split: if_splits poll.splits option.splits)
  have "subseq (oc_sent s) (oc_received s)" using assms(1) by (auto simp: newest_kept_def intro: sent_subseq)
  then show ?thesis using item by (simp add: newest_kept_def waiting_item_def list_emb_append_mono)
qed

definition overwrite_ok :: "(unit, 'e) res poll \<times> 't overwrite_channel \<Rightarrow> bool" where
  "overwrite_ok out \<longleftrightarrow>
     (case fst out of
        Pending \<Rightarrow> newest_kept (snd out)
      | Ready (Ok _) \<Rightarrow> newest_kept (snd out) \<and> oc_opt_item (snd out) = None \<and> \<not> oc_opt_receiver (snd out)
      | Ready (Err _) \<Rightarrow> subseq (oc_sent (snd out)) (oc_received (snd out))
      | Ready Panic \<Rightarrow> False)"

lemma overwrite_ok_simps [simp]:
  "overwrite_ok (Pending, s) = newest_kept s"
  "overwrite_ok (Ready (Ok u), s) \<longleftrightarrow> newest_kept s \<and> oc_opt_item s = None \<and> \<not> oc_opt_receiver s"
  "overwrite_ok (Ready (Err e), s) = subseq (oc_sent s) (oc_received s)"
  by (simp_all add: overwrite_ok_def)

lemma overwrite_poll_ok: "newest_kept s \<Longrightarrow> overwrite_ok (overwrite_poll rs ss s)"
proof (induction rs ss s rule: overwrite_poll.induct)
  case (1 rs ss s)
  obtain p rs' s' where r: "recv_progress rs s = (p, rs', s')" by (metis prod_cases3)
  have kept: "newest_kept s'" by (rule recv_progress_kept [OF "1.prems" r])
  note eq = overwrite_poll.simps [of rs ss s]
  show ?case
  proof (cases "oc_opt_item s'")
    case None
    then show ?thesis unfolding eq using kept r by simp
  next
    case (Some item)
    have moved: "newest_kept (s'\<lparr> oc_opt_item := None, oc_sent := oc_sent s' @ [item] \<rparr>)"
      using kept Some by (simp add: newest_kept_def waiting_item_def)
    have error: "subseq (oc_sent s') (oc_received s')" using kept by (auto simp: newest_kept_def intro: sent_subseq)
    note IH = "1.IH" [OF r [symmetric] refl Some]
    show ?thesis
    proof (cases ss)
      case Nil
      then show ?thesis unfolding eq using IH kept Some r by auto
    next
      case (Cons a ss')
      then show ?thesis unfolding eq
        using IH kept moved error Some r by (cases a) auto
    qed
  qed
qed

lemma overwrite_send_all_ok: "newest_kept s \<Longrightarrow> overwrite_ok (overwrite_send_all calls s)"
proof (induction calls s rule: overwrite_send_all.induct)
  case (2 rs ss calls s)
  obtain out s' where out: "overwrite_poll rs ss s = (out, s')" by force
  show ?case using overwrite_poll_ok [OF "2.prems", of rs ss] "2.IH" [OF out [symmetric]] out
    by (cases out) auto
qed simp

text \<open>
  The channel to a friend drops only messages that a newer one replaces. Whatever the receiver
  and the sender answer, what was sent is a subsequence of what was received, in order; the newest
  message is the last one sent or waits to be sent; when the task ends well the receiver is closed
  and the newest message was sent; and it ends otherwise only with an error of the sender.
\<close>

theorem overwrite_keeps_newest:
  "case overwrite_send_all calls (overwrite_channel_new :: 't overwrite_channel) of
     (Pending, s) \<Rightarrow> newest_kept s
   | (Ready (Ok _), s) \<Rightarrow> subseq (oc_sent s) (oc_received s) \<and> \<not> oc_opt_receiver s
       \<and> (oc_received s \<noteq> [] \<longrightarrow> oc_sent s \<noteq> [] \<and> last (oc_sent s) = last (oc_received s))
   | (Ready (Err e), s) \<Rightarrow> subseq (oc_sent s) (oc_received s)
   | (Ready Panic, s) \<Rightarrow> False"
proof -
  have "newest_kept (overwrite_channel_new :: 't overwrite_channel)"
    by (simp add: newest_kept_def overwrite_channel_new_def waiting_item_def)
  from overwrite_send_all_ok [OF this, of calls] show ?thesis
    by (auto simp: overwrite_ok_def newest_kept_def waiting_item_def split: prod.splits poll.splits res.splits)
qed

theorem overwrite_keeps_newest_witness:
  "\<exists>s. overwrite_send_all [([Ready (Some 1), Ready (Some 2), Pending], [SendReady, SendPending, SendPending]),
         ([Ready (Some 3), Ready None], [SendPending, SendReady])] (overwrite_channel_new :: nat overwrite_channel) = (Ready (Ok () :: (unit, unit) res), s)
     \<and> oc_received s = [1, 2, 3] \<and> oc_sent s = [1, 3] \<and> last (oc_sent s) = last (oc_received s)"
proof -
  let ?calls = "[([Ready (Some 1), Ready (Some 2), Pending], [SendReady, SendPending, SendPending]),
         ([Ready (Some 3), Ready None], [SendPending, SendReady])] :: (nat option poll list \<times> unit send_answer list) list"
  have "overwrite_send_all ?calls overwrite_channel_new =
      (Ready (Ok ()), \<lparr> oc_opt_item = None, oc_opt_receiver = False, oc_received = [1, 2, 3], oc_sent = [1, 3] \<rparr>)"
    by code_simp
  with overwrite_keeps_newest [of ?calls] show ?thesis by simp
qed

end
