(* ===== verification/IndexMutations.thy ===== *)
theory IndexMutations
  imports Report SeqMap McMirror
begin

text \<open>
  From the report of a funder to the friends that an index client announces
  (\<open>proto/src/report/convert.rs\<close>): the capacities of a friend, the state that an index client
  starts with, and the mutation of that state that follows from a mutation of the report.
  \<open>None\<close> is the panic of an \<open>unwrap\<close>: an overflow, or a mutation that fails.
\<close>

section \<open>Definitions\<close>

definition calc_friend_capacities :: "'b friend_report \<Rightarrow> (u128 \<times> u128) option" where
  "calc_friend_capacities friend_report =
     (if frr_status friend_report = RepDisabled \<or> frr_liveness friend_report = RepOffline then Some (0, 0)
      else
        case frr_channel_status friend_report of
          RepInconsistent _ \<Rightarrow> Some (0, 0)
        | RepConsistent tc_report \<Rightarrow>
            (let balance = tcr_balance tc_report
             in Option.bind
                  (if mrr_remote (tcr_requests_status tc_report) = RepClosed then Some 0
                   else map_option (saturating_add_signed (mbr_local_max_debt balance))
                     (checked_sub_unsigned (mbr_balance balance) (mbr_local_pending_debt balance)))
                  (\<lambda>send_capacity.
                Option.bind
                  (if mrr_local (tcr_requests_status tc_report) = RepClosed then Some 0
                   else map_option (saturating_sub_signed (mbr_remote_max_debt balance))
                     (checked_add_unsigned (mbr_balance balance) (mbr_remote_pending_debt balance)))
                  (\<lambda>recv_capacity. Some (send_capacity, recv_capacity)))))"

definition friend_info_of :: "'b friend_report \<Rightarrow> friend_info option" where
  "friend_info_of friend_report =
     map_option (\<lambda>(send_capacity, recv_capacity).
       \<lparr> fi_send_capacity = send_capacity, fi_recv_capacity = recv_capacity, fi_rate = frr_rate friend_report \<rparr>)
       (calc_friend_capacities friend_report)"

text \<open>The friends that have a capacity, collected in the order of the iterator.\<close>

fun collect_friends :: "(public_key \<times> 'b friend_report) list \<Rightarrow> (public_key, friend_info) hmap option" where
  "collect_friends [] = Some []"
| "collect_friends ((friend_public_key, friend_report) # friends) =
     Option.bind (friend_info_of friend_report) (\<lambda>friend_info.
     Option.bind (collect_friends friends) (\<lambda>rest.
       Some (if fi_send_capacity friend_info \<noteq> 0 \<or> fi_recv_capacity friend_info \<noteq> 0
             then (friend_public_key, friend_info) # rest else rest)))"

definition funder_report_to_index_client_state :: "'b funder_report \<Rightarrow> (public_key, friend_info) hmap option" where
  "funder_report_to_index_client_state funder_report = collect_friends (fur_friends funder_report)"

definition create_update_friend ::
  "'b funder_report \<Rightarrow> 'b funder_report_mutation \<Rightarrow> public_key \<Rightarrow> index_mutation option option" where
  "create_update_friend funder_report funder_report_mutation public_key =
     Option.bind
       (case hm_get (fur_friends funder_report) public_key of
          None \<Rightarrow> Some None
        | Some old_friend_report \<Rightarrow>
            map_option (\<lambda>capacities. Some (capacities, frr_rate old_friend_report)) (calc_friend_capacities old_friend_report))
       (\<lambda>opt_old_capacities_rate.
          case funder_report_mutate funder_report funder_report_mutation of
            Ok new_funder_report \<Rightarrow>
              Option.bind (hm_get (fur_friends new_funder_report) public_key) (\<lambda>new_friend_report.
              Option.bind (calc_friend_capacities new_friend_report) (\<lambda>new_capacities.
                if opt_old_capacities_rate \<noteq> Some (new_capacities, frr_rate new_friend_report)
                then Some (Some (UpdateFriend \<lparr> uf_public_key = public_key, uf_send_capacity = fst new_capacities,
                       uf_recv_capacity = snd new_capacities, uf_rate = frr_rate new_friend_report \<rparr>))
                else Some None))
          | _ \<Rightarrow> None)"

definition funder_report_mutation_to_index_mutation ::
  "'b funder_report \<Rightarrow> 'b funder_report_mutation \<Rightarrow> index_mutation option option" where
  "funder_report_mutation_to_index_mutation funder_report funder_report_mutation =
     (case funder_report_mutation of
        FuAddRelay _ \<Rightarrow> Some None
      | FuRemoveRelay _ \<Rightarrow> Some None
      | FuSetNumOpenInvoices _ \<Rightarrow> Some None
      | FuSetNumPayments _ \<Rightarrow> Some None
      | FuSetNumOpenTransactions _ \<Rightarrow> Some None
      | FuAddFriend add_friend_report \<Rightarrow>
          create_update_friend funder_report funder_report_mutation (afr_friend_public_key add_friend_report)
      | FuRemoveFriend public_key \<Rightarrow> Some (Some (RemoveFriend public_key))
      | FuFriendReportMutation public_key _ \<Rightarrow> create_update_friend funder_report funder_report_mutation public_key)"

text \<open>What an index client does with a mutation, on the map of friends.\<close>

definition announce :: "index_mutation option \<Rightarrow> (public_key, friend_info) hmap \<Rightarrow> (public_key, friend_info) hmap" where
  "announce opt_mutation m =
     (case opt_mutation of
        None \<Rightarrow> m
      | Some (UpdateFriend uf) \<Rightarrow> hm_insert (uf_public_key uf)
          \<lparr> fi_send_capacity = uf_send_capacity uf, fi_recv_capacity = uf_recv_capacity uf, fi_rate = uf_rate uf \<rparr> m
      | Some (RemoveFriend pk) \<Rightarrow> hm_remove pk m)"

lemma announce_seq_friends:
  "announce (Some index_mutation) (sm_map s) = sm_map (seq_apply_index_mutation index_mutation s)"
  by (auto simp: announce_def seq_apply_index_mutation_def seq_map_update_def seq_map_remove_def split: index_mutation.split)

section \<open>The announced friends follow the report\<close>

text \<open>
  The map shows every friend with its capacities and rate, except that a friend without capacity
  may be missing.
\<close>

definition shows_friend :: "'b friend_report option \<Rightarrow> friend_info option \<Rightarrow> bool" where
  "shows_friend opt_report opt_info =
     (case opt_report of
        None \<Rightarrow> opt_info = None
      | Some report \<Rightarrow>
          (case friend_info_of report of
             Some info \<Rightarrow> opt_info = Some info \<or> opt_info = None \<and> fi_send_capacity info = 0 \<and> fi_recv_capacity info = 0
           | None \<Rightarrow> False))"

lemma shows_friend_None [simp]: "shows_friend None opt_info \<longleftrightarrow> opt_info = None"
  by (simp add: shows_friend_def)

definition shows_friends :: "'b funder_report \<Rightarrow> (public_key, friend_info) hmap \<Rightarrow> bool" where
  "shows_friends r m \<longleftrightarrow> (\<forall>pk. shows_friend (hm_get (fur_friends r) pk) (hm_get m pk))"

lemma collect_friends_keys: "collect_friends fs = Some m \<Longrightarrow> set (map fst m) \<subseteq> set (map fst fs)"
proof (induction fs arbitrary: m)
  case (Cons p fs)
  obtain k f where p: "p = (k, f)" by force
  obtain info rest where rest: "collect_friends fs = Some rest"
    "m = (if fi_send_capacity info \<noteq> 0 \<or> fi_recv_capacity info \<noteq> 0 then (k, info) # rest else rest)"
    using Cons.prems by (auto simp: p bind_eq_Some_conv)
  from Cons.IH [OF rest(1)] show ?case by (auto simp: p rest(2))
qed simp

lemma collect_friends_shows:
  assumes "collect_friends fs = Some m" "hm_ok fs"
  shows "shows_friend (hm_get fs pk) (hm_get m pk)"
  using assms
proof (induction fs arbitrary: m rule: collect_friends.induct)
  case 1
  then show ?case by (simp add: shows_friend_def)
next
  case (2 k f fs)
  obtain info rest where r: "friend_info_of f = Some info" "collect_friends fs = Some rest"
    "m = (if fi_send_capacity info \<noteq> 0 \<or> fi_recv_capacity info \<noteq> 0 then (k, info) # rest else rest)"
    using "2.prems"(1) by (auto simp: bind_eq_Some_conv)
  have ok: "hm_ok fs" "k \<notin> set (map fst fs)" using "2.prems"(2) by (auto simp: hm_ok_def)
  have none: "hm_get rest k = None"
    using collect_friends_keys [OF r(2)] ok(2) by (auto simp: hm_get_def map_of_eq_None_iff)
  show ?case
  proof (cases "pk = k")
    case True
    then show ?thesis using r(1,3) none by (auto simp: shows_friend_def hm_get_def)
  next
    case False
    then have "hm_get m pk = hm_get rest pk" "hm_get ((k, f) # fs) pk = hm_get fs pk" by (simp_all add: r(3) hm_get_def)
    then show ?thesis using "2.IH" [OF r(1,2) ok(1)] by simp
  qed
qed

lemma initial_shows:
  "funder_report_to_index_client_state r = Some m \<Longrightarrow> hm_ok (fur_friends r) \<Longrightarrow> shows_friends r m"
  by (simp add: funder_report_to_index_client_state_def shows_friends_def collect_friends_shows)

lemma capacities_of_info: "calc_friend_capacities f = map_option (\<lambda>i. (fi_send_capacity i, fi_recv_capacity i)) (friend_info_of f)"
  by (cases "calc_friend_capacities f") (auto simp: friend_info_of_def)

lemma rate_of_info: "friend_info_of f = Some i \<Longrightarrow> frr_rate f = fi_rate i"
  by (auto simp: friend_info_of_def)

text \<open>The same, seen through the information that is announced about a friend.\<close>

lemma create_update_friend_info:
  assumes "funder_report_mutate r mu = Ok r'" "hm_get (fur_friends r') pk = Some f"
  shows "create_update_friend r mu pk =
    Option.bind (case hm_get (fur_friends r) pk of None \<Rightarrow> Some None | Some old \<Rightarrow> map_option Some (friend_info_of old)) (\<lambda>old.
    Option.bind (friend_info_of f) (\<lambda>info. Some (if old \<noteq> Some info then Some (UpdateFriend (update_of_info pk info)) else None)))"
proof (cases "hm_get (fur_friends r) pk")
  case None
  then show ?thesis using assms
    by (cases "friend_info_of f") (auto simp: create_update_friend_def update_of_info_def capacities_of_info rate_of_info)
next
  case (Some old)
  then show ?thesis using assms
    by (cases "friend_info_of f"; cases "friend_info_of old")
       (auto simp: create_update_friend_def update_of_info_def capacities_of_info rate_of_info)
qed

lemma announce_update [simp]: "announce (Some (UpdateFriend (update_of_info pk info))) m = hm_insert pk info m"
  by (cases info) (simp add: announce_def update_of_info_def)

lemma announce_remove [simp]: "announce (Some (index_mutation.RemoveFriend pk)) m = hm_remove pk m"
  by (simp add: announce_def)

lemma announce_None [simp]: "announce None m = m"
  by (simp add: announce_def)

lemma update_shows:
  assumes "shows_friends r m" "funder_report_mutate r mu = Ok r'" "create_update_friend r mu pk = Some im"
    and other: "\<And>k. k \<noteq> pk \<Longrightarrow> hm_get (fur_friends r') k = hm_get (fur_friends r) k"
  shows "shows_friends r' (announce im m)"
proof -
  obtain f where f: "hm_get (fur_friends r') pk = Some f"
    using assms(3) by (auto simp: create_update_friend_def assms(2) bind_eq_Some_conv)
  obtain old info where info: "friend_info_of f = Some info"
    and im: "im = (if old \<noteq> Some info then Some (UpdateFriend (update_of_info pk info)) else None)"
    and old: "(case hm_get (fur_friends r) pk of None \<Rightarrow> Some None | Some old \<Rightarrow> map_option Some (friend_info_of old)) = Some old"
    using assms(3) unfolding create_update_friend_info [OF assms(2) f] by (auto simp: bind_eq_Some_conv)
  have at: "shows_friend (hm_get (fur_friends r) pk) (hm_get m pk)" using assms(1) by (simp add: shows_friends_def)
  have "shows_friend (hm_get (fur_friends r') pk) (hm_get (announce im m) pk)"
    using at old by (auto simp: im f info shows_friend_def hm_simps split: option.splits)
  moreover have "hm_get (announce im m) k = hm_get m k" if "k \<noteq> pk" for k
    using that by (simp add: im hm_simps)
  ultimately show ?thesis using assms(1) other unfolding shows_friends_def by metis
qed

lemma mutation_shows:
  assumes "shows_friends r m" "funder_report_mutate r mu = Ok r'" "funder_report_mutation_to_index_mutation r mu = Some im"
  shows "shows_friends r' (announce im m)"
proof -
  note update = update_shows [OF assms(1,2)]
  show ?thesis
  proof (cases mu)
    case (FuAddFriend a)
    show ?thesis by (rule update [of "afr_friend_public_key a"])
        (use assms FuAddFriend in \<open>auto simp: funder_report_mutation_to_index_mutation_def hm_simps split: if_splits\<close>)
  next
    case (FuFriendReportMutation pk fm)
    show ?thesis by (rule update [of pk])
        (use assms FuFriendReportMutation in \<open>auto simp: funder_report_mutation_to_index_mutation_def hm_simps res_simps\<close>)
  next
    case (FuRemoveFriend pk)
    then show ?thesis using assms
      by (auto simp: funder_report_mutation_to_index_mutation_def shows_friends_def hm_simps split: if_splits)
  qed (use assms in \<open>auto simp: funder_report_mutation_to_index_mutation_def shows_friends_def announce_def\<close>)
qed

section \<open>The capacities are what the channel allows\<close>

definition freeze_of :: "request_send_funds_op \<Rightarrow> int" where
  "freeze_of rq = uint (rq_dest_payment rq) + uint (rq_left_fees rq)"

lemma saturating_signed_128:
  fixes a s :: u128
  shows "uint (saturating_add_signed a s) = max 0 (min (2 ^ 128 - 1) (uint a + sint s))"
    "uint (saturating_sub_signed a s) = max 0 (min (2 ^ 128 - 1) (uint a - sint s))"
  using safe_unsigned_arithmetic_exact [OF two_lt_128, of a s] by simp_all

lemma capacities_of_channel:
  assumes "mc_inv (get_mutual_credit tc)" "fr_channel_status fr = Consistent tc" "fr_status fr = Enabled"
  shows "\<exists>send recv. calc_friend_capacities (create_friend_report fr RepOnline) = Some (send, recv)
    \<and> uint send = (if is_open (mr_remote (st_requests_status (get_mutual_credit tc)))
        then max 0 (uint (mb_local_max_debt (st_balance (get_mutual_credit tc))) + sint (mb_balance (st_balance (get_mutual_credit tc)))
          - uint (mb_local_pending_debt (st_balance (get_mutual_credit tc)))) else 0)
    \<and> uint recv = (if is_open (mr_local (st_requests_status (get_mutual_credit tc)))
        then max 0 (uint (mb_remote_max_debt (st_balance (get_mutual_credit tc))) - sint (mb_balance (st_balance (get_mutual_credit tc)))
          - uint (mb_remote_pending_debt (st_balance (get_mutual_credit tc)))) else 0)"
proof -
  let ?mc = "get_mutual_credit tc" and ?b = "st_balance (get_mutual_credit tc)"
  have inv: "- (2 ^ 127 - 1) \<le> sint (mb_balance ?b) - uint (mb_local_pending_debt ?b)"
    "sint (mb_balance ?b) + uint (mb_remote_pending_debt ?b) \<le> 2 ^ 127 - 1"
    "uint (mb_local_max_debt ?b) \<le> 2 ^ 127 - 1" "uint (mb_remote_max_debt ?b) \<le> 2 ^ 127 - 1"
    using assms(1) by (simp_all add: mc_inv_def Let_def le_MAX_FUNDER_DEBT)
  note range = i128_range [of "mb_balance ?b"] u128_range [of "mb_local_pending_debt ?b"] u128_range [of "mb_remote_pending_debt ?b"]
    u128_range [of "mb_local_max_debt ?b"] u128_range [of "mb_remote_max_debt ?b"]
  have fits: "i_fits TYPE(128) (sint (mb_balance ?b) - uint (mb_local_pending_debt ?b))"
    "i_fits TYPE(128) (sint (mb_balance ?b) + uint (mb_remote_pending_debt ?b))"
    unfolding i128_fits using inv(1,2) range by linarith+
  obtain s where s: "checked_sub_unsigned (mb_balance ?b) (mb_local_pending_debt ?b) = Some s"
    using fits(1) i128_sub_None [of "mb_balance ?b" "mb_local_pending_debt ?b"] by fastforce
  obtain t where t: "checked_add_unsigned (mb_balance ?b) (mb_remote_pending_debt ?b) = Some t"
    using fits(2) i128_add_None [of "mb_balance ?b" "mb_remote_pending_debt ?b"] by fastforce
  have st: "sint s = sint (mb_balance ?b) - uint (mb_local_pending_debt ?b)" "sint t = sint (mb_balance ?b) + uint (mb_remote_pending_debt ?b)"
    using s t by (simp_all add: i128_sub_Some i128_add_Some)
  have double: "(2 :: int) ^ 128 = 2 * 2 ^ 127" by simp
  have bound: "uint (mb_local_max_debt ?b) + sint s \<le> 2 ^ 128 - 1" "uint (mb_remote_max_debt ?b) - sint t \<le> 2 ^ 128 - 1"
    unfolding st using inv range double by linarith+
  have sat: "uint (saturating_add_signed (mb_local_max_debt ?b) s) = max 0 (uint (mb_local_max_debt ?b) + sint s)"
    "uint (saturating_sub_signed (mb_remote_max_debt ?b) t) = max 0 (uint (mb_remote_max_debt ?b) - sint t)"
    unfolding saturating_signed_128 using bound by (simp_all only: min_absorb2)
  show ?thesis
    using assms(2,3) sat
    by (cases "mr_remote (st_requests_status ?mc)"; cases "mr_local (st_requests_status ?mc)")
       (simp_all add: calc_friend_capacities_def create_friend_report_def token_channel_to_report_def mc_balance_to_report_def
          mc_requests_status_to_report_def Let_def s t st algebra_simps)
qed

section \<open>Properties\<close>

text \<open>
  What a node announces to index servers follows its funder. The friends that an index client
  starts with are those of the report, with their rates and capacities, and a mutation of the
  report that is translated on its own keeps them so: every friend is shown with its current
  capacities and rate, except that a friend without any capacity may be left out.
\<close>

theorem announced_friends_follow_report:
  assumes "hm_ok (fur_friends r0)"
  shows "(\<forall>m. funder_report_to_index_client_state r0 = Some m \<longrightarrow> shows_friends r0 m)
    \<and> (\<forall>r m mu r' im. shows_friends r m \<and> funder_report_mutate r mu = Ok r'
         \<and> funder_report_mutation_to_index_mutation r mu = Some im \<longrightarrow> shows_friends r' (announce im m))"
  using initial_shows [OF _ assms] mutation_shows by blast

definition example_shown :: "nat funder_report" where
  "example_shown = \<lparr> fur_local_public_key = [1], fur_relays = [], fur_friends = [], fur_num_open_invoices = 0,
     fur_num_payments = 0, fur_num_open_transactions = 0 \<rparr>"

definition example_added :: "nat add_friend_report" where
  "example_added = \<lparr> afr_friend_public_key = [2], afr_name = ''bob'', afr_relays = [], afr_balance = 0,
     afr_opt_last_incoming_move_token = None,
     afr_channel_status = RepInconsistent \<lparr> cir_local_reset_terms_balance = 0, cir_opt_remote_reset_terms = None \<rparr> \<rparr>"

theorem announced_friends_follow_report_witness:
  "shows_friends (example_shown\<lparr> fur_friends := [([2], friend_report_of_added example_added)] \<rparr>)
     [([2], \<lparr> fi_send_capacity = 0, fi_recv_capacity = 0, fi_rate = rate_new \<rparr>)]"
proof -
  let ?r = "example_shown\<lparr> fur_friends := [([2], friend_report_of_added example_added)] \<rparr>"
  let ?u = "\<lparr> uf_public_key = [2], uf_send_capacity = 0, uf_recv_capacity = 0, uf_rate = rate_new \<rparr>"
  have ok: "hm_ok (fur_friends example_shown)" by (simp add: example_shown_def)
  have start: "funder_report_to_index_client_state example_shown = Some []" by code_simp
  have step: "funder_report_mutate example_shown (FuAddFriend example_added) = Ok ?r" by code_simp
  have trans: "funder_report_mutation_to_index_mutation example_shown (FuAddFriend example_added) = Some (Some (UpdateFriend ?u))"
    by code_simp
  note facts = announced_friends_follow_report [OF ok]
  have "shows_friends example_shown []" using facts start by blast
  then have "shows_friends ?r (announce (Some (UpdateFriend ?u)) [])" using facts step trans by blast
  then show ?thesis by (simp add: announce_def hm_insert_def)
qed


definition example_channel :: "nat token_channel" where
  "example_channel = \<lparr> tc_direction = TcIncoming \<lparr> ti_mutual_credit = example_local, ti_move_token_in =
     \<lparr> mh_prefix_hash = [], mh_local_public_key = [2], mh_remote_public_key = [1], mh_inconsistency_counter = 0,
       mh_move_token_counter = 0, mh_balance = 3, mh_local_pending_debt = 0, mh_remote_pending_debt = 0,
       mh_rand_nonce = [], mh_new_token = [] \<rparr> \<rparr> \<rparr>"

definition example_shown_friend :: "nat friend_state" where
  "example_shown_friend = \<lparr> fr_local_public_key = [1], fr_remote_public_key = [2], fr_remote_relays = [],
     fr_sent_local_relays = NeverSent, fr_name = ''bob'', fr_rate = rate_new, fr_status = Enabled,
     fr_channel_status = Consistent example_channel, fr_wanted_remote_max_debt = 0,
     fr_wanted_local_requests_status = Closed, fr_pending_requests = [], fr_pending_backwards_ops = [],
     fr_pending_user_requests = [] \<rparr>"


end
