(* ===== verification/AppServer.thy ===== *)
theory AppServer
  imports IndexMutations IndexClient Funder
begin

text \<open>
  The application server (\<open>app_server/src/server.rs\<close>): it connects any number of applications to
  the funder and the index client, keeps the report of the node, checks permissions and returns
  each response to the application that asked.

  A connection to an application is known by its number. A round has what it meets: whether tasks
  can be spawned and which channels take a message. What is sent is recorded in order.
\<close>

section \<open>Messages\<close>

record 'b node_report =
  nr_funder_report :: "'b funder_report"
  nr_index_client_report :: "'b index_client_report"

datatype 'b node_report_mutation =
    NrFunder "'b funder_report_mutation"
  | NrIndexClient "'b index_client_report_mutation"

record 'b report_mutations =
  rm_opt_app_request_id :: "uid option"
  rm_mutations :: "'b node_report_mutation list"

datatype 'b app_server_to_app =
    AppTransactionResult transaction_result
  | AppResponseClosePayment response_close_payment
  | AppReport "'b node_report"
  | AppReportMutations "'b report_mutations"
  | AppResponseRoutes client_response_routes

datatype 'b app_request =
    ArAddRelay "'b named_relay_address"
  | ArRemoveRelay public_key
  | ArAddFriend "'b add_friend"
  | ArSetFriendRelays "'b set_friend_relays"
  | ArSetFriendName set_friend_name
  | ArRemoveFriend public_key
  | ArEnableFriend public_key
  | ArDisableFriend public_key
  | ArOpenFriend public_key
  | ArCloseFriend public_key
  | ArSetFriendRemoteMaxDebt set_friend_remote_max_debt
  | ArSetFriendRate set_friend_rate
  | ArResetFriendChannel reset_friend_channel
  | ArCreatePayment create_payment
  | ArCreateTransaction create_transaction
  | ArRequestClosePayment payment_id
  | ArAckClosePayment ack_close_payment
  | ArAddInvoice add_invoice
  | ArCancelInvoice invoice_id
  | ArCommitInvoice multi_commit
  | ArRequestRoutes request_routes
  | ArAddIndexServer "'b named_index_server_address"
  | ArRemoveIndexServer public_key

record 'b app_to_app_server =
  am_app_request_id :: uid
  am_app_request :: "'b app_request"

record app_permissions =
  ap_routes :: bool
  ap_buyer :: bool
  ap_seller :: bool
  ap_config :: bool

text \<open>The error of \<open>mutate\<close> carries nothing.\<close>

fun node_report_mutate :: "'b node_report \<Rightarrow> 'b node_report_mutation \<Rightarrow> ('b node_report, unit) res" where
  "node_report_mutate r (NrFunder m) =
     (case funder_report_mutate (nr_funder_report r) m of
        Ok funder_report \<Rightarrow> Ok (r\<lparr> nr_funder_report := funder_report \<rparr>)
      | Err _ \<Rightarrow> Err ()
      | Panic \<Rightarrow> Panic)"
| "node_report_mutate r (NrIndexClient m) =
     Ok (r\<lparr> nr_index_client_report := index_client_report_mutate m (nr_index_client_report r) \<rparr>)"

section \<open>State\<close>

datatype app_server_error = AsFunderClosed | AsSpawnError | AsIndexClientClosed | SendToFunderError | SendToIndexClientError | AllAppsClosed

datatype 'b app_server_event =
    AsIncomingConnection app_permissions
  | AsIncomingConnectionsClosed
  | AsFromFunder "'b funder_outgoing_control"
  | AsFunderClosedEvent
  | AsFromIndexClient "'b index_client_to_app_server"
  | AsIndexClientClosedEvent
  | AsFromApp u128 "'b app_to_app_server option"

record app =
  app_permissions :: app_permissions
  app_opt_sender :: bool

datatype 'b app_server_output =
    ToApp u128 "'b app_server_to_app"
  | ToFunder "'b funder_incoming_control"
  | ToIndexClient "'b app_server_to_index_client"

record 'b app_server =
  as_node_report :: "'b node_report"
  as_incoming_connections_closed :: bool
  as_app_counter :: u128
  as_apps :: "(u128, app) hmap"
  as_route_requests :: "(uid, u128) hmap"
  as_close_payment_requests :: "(payment_id, u128) hmap"
  as_transactions :: "(uid, u128) hmap"
  as_out :: "'b app_server_output list"

record app_server_io =
  ao_spawn :: bool
  ao_funder :: bool
  ao_index_client :: bool
  ao_app :: "u128 \<Rightarrow> bool"

definition app_server_new :: "'b node_report \<Rightarrow> 'b app_server" where
  "app_server_new node_report =
     \<lparr> as_node_report = node_report, as_incoming_connections_closed = False, as_app_counter = 0, as_apps = [],
       as_route_requests = [], as_close_payment_requests = [], as_transactions = [], as_out = [] \<rparr>"

section \<open>Handlers\<close>

fun check_permissions :: "app_permissions \<Rightarrow> 'b app_request \<Rightarrow> bool" where
  "check_permissions p (ArAddRelay _) = ap_config p"
| "check_permissions p (ArRemoveRelay _) = ap_config p"
| "check_permissions p (ArCreatePayment _) = ap_buyer p"
| "check_permissions p (ArCreateTransaction _) = ap_buyer p"
| "check_permissions p (ArRequestClosePayment _) = ap_buyer p"
| "check_permissions p (ArAckClosePayment _) = ap_buyer p"
| "check_permissions p (ArAddInvoice _) = ap_seller p"
| "check_permissions p (ArCancelInvoice _) = ap_seller p"
| "check_permissions p (ArCommitInvoice _) = ap_seller p"
| "check_permissions p (ArAddFriend _) = ap_config p"
| "check_permissions p (ArSetFriendRelays _) = ap_config p"
| "check_permissions p (ArSetFriendName _) = ap_config p"
| "check_permissions p (ArRemoveFriend _) = ap_config p"
| "check_permissions p (ArEnableFriend _) = ap_config p"
| "check_permissions p (ArDisableFriend _) = ap_config p"
| "check_permissions p (ArOpenFriend _) = ap_config p"
| "check_permissions p (ArCloseFriend _) = ap_config p"
| "check_permissions p (ArSetFriendRemoteMaxDebt _) = ap_config p"
| "check_permissions p (ArSetFriendRate _) = ap_config p"
| "check_permissions p (ArResetFriendChannel _) = ap_config p"
| "check_permissions p (ArRequestRoutes _) = ap_routes p"
| "check_permissions p (ArAddIndexServer _) = ap_config p"
| "check_permissions p (ArRemoveIndexServer _) = ap_config p"

definition app_send :: "app_server_io \<Rightarrow> u128 \<Rightarrow> 'b app_server_to_app \<Rightarrow> app \<Rightarrow> 'b app_server_output list \<times> app" where
  "app_send io app_id message a =
     (if app_opt_sender a
      then if ao_app io app_id then ([ToApp app_id message], a) else ([], a\<lparr> app_opt_sender := False \<rparr>)
      else ([], a))"

definition as_emit :: "'b app_server_output list \<Rightarrow> 'b app_server \<Rightarrow> 'b app_server" where
  "as_emit ms s = s\<lparr> as_out := as_out s @ ms \<rparr>"

definition as_send ::
  "bool \<Rightarrow> app_server_error \<Rightarrow> 'b app_server_output \<Rightarrow> 'b app_server \<Rightarrow> ('b app_server, app_server_error) res" where
  "as_send ok e m s = (if ok then Ok (as_emit [m] s) else Err e)"

definition handle_incoming_connection ::
  "app_server_io \<Rightarrow> app_permissions \<Rightarrow> 'b app_server \<Rightarrow> ('b app_server, app_server_error) res" where
  "handle_incoming_connection io permissions s =
     (if \<not> ao_spawn io then Err AsSpawnError
      else
        (let (out, a) = app_send io (as_app_counter s) (AppReport (as_node_report s))
               \<lparr> app_permissions = permissions, app_opt_sender = True \<rparr>
         in Ok (as_emit out (s\<lparr> as_apps := hm_insert (as_app_counter s) a (as_apps s), as_app_counter := as_app_counter s + 1 \<rparr>))))"

definition handle_incoming_connections_closed :: "'b app_server \<Rightarrow> ('b app_server, app_server_error) res" where
  "handle_incoming_connections_closed s =
     (let s = s\<lparr> as_incoming_connections_closed := True \<rparr>
      in if as_apps s = [] then Err AllAppsClosed else Ok s)"

fun send_to_apps ::
  "app_server_io \<Rightarrow> 'b app_server_to_app \<Rightarrow> (u128, app) hmap \<Rightarrow> 'b app_server_output list \<times> (u128, app) hmap" where
  "send_to_apps io message [] = ([], [])"
| "send_to_apps io message ((app_id, a) # apps) =
     (let (out, a) = app_send io app_id message a;
          (outs, apps) = send_to_apps io message apps
      in (out @ outs, (app_id, a) # apps))"

definition broadcast_node_report_mutations :: "app_server_io \<Rightarrow> 'b report_mutations \<Rightarrow> 'b app_server \<Rightarrow> 'b app_server" where
  "broadcast_node_report_mutations io report_mutations s =
     (let (out, apps) = send_to_apps io (AppReportMutations report_mutations) (as_apps s)
      in as_emit out (s\<lparr> as_apps := apps \<rparr>))"

text \<open>The application that asked gets the message, if it is still connected.\<close>

definition send_to_app :: "app_server_io \<Rightarrow> u128 \<Rightarrow> 'b app_server_to_app \<Rightarrow> 'b app_server \<Rightarrow> 'b app_server" where
  "send_to_app io app_id message s =
     (case hm_get (as_apps s) app_id of
        Some a \<Rightarrow>
          (let (out, a) = app_send io app_id message a
           in as_emit out (s\<lparr> as_apps := hm_insert app_id a (as_apps s) \<rparr>))
      | None \<Rightarrow> s)"

text \<open>The report is mutated by each mutation, and the \<open>unwrap\<close> panics when one fails.\<close>

fun mutate_node_report :: "'b node_report_mutation list \<Rightarrow> 'b app_server \<Rightarrow> ('b app_server, app_server_error) res" where
  "mutate_node_report [] s = Ok s"
| "mutate_node_report (m # ms) s =
     (case node_report_mutate (as_node_report s) m of
        Ok node_report \<Rightarrow> mutate_node_report ms (s\<lparr> as_node_report := node_report \<rparr>)
      | _ \<Rightarrow> Panic)"

fun index_mutations_of :: "'b funder_report \<Rightarrow> 'b funder_report_mutation list \<Rightarrow> index_mutation list option" where
  "index_mutations_of funder_report [] = Some []"
| "index_mutations_of funder_report (m # ms) =
     Option.bind (funder_report_mutation_to_index_mutation funder_report m) (\<lambda>opt_index_mutation.
     Option.bind (index_mutations_of funder_report ms) (\<lambda>index_mutations.
       Some (case opt_index_mutation of Some im \<Rightarrow> im # index_mutations | None \<Rightarrow> index_mutations)))"

definition as_handle_from_funder ::
  "app_server_io \<Rightarrow> 'b funder_outgoing_control \<Rightarrow> 'b app_server \<Rightarrow> ('b app_server, app_server_error) res" where
  "as_handle_from_funder io funder_message s =
     (case funder_message of
        FoTransactionResult transaction_result \<Rightarrow>
          (case hm_get (as_transactions s) (tr_request_id transaction_result) of
             Some app_id \<Rightarrow>
               Ok (send_to_app io app_id (AppTransactionResult transaction_result)
                 (s\<lparr> as_transactions := hm_remove (tr_request_id transaction_result) (as_transactions s) \<rparr>))
           | None \<Rightarrow> Ok s)
      | FoResponseClosePayment response_close_payment \<Rightarrow>
          (case hm_get (as_close_payment_requests s) (rcp_payment_id response_close_payment) of
             Some app_id \<Rightarrow>
               Ok (send_to_app io app_id (AppResponseClosePayment response_close_payment)
                 (s\<lparr> as_close_payment_requests := hm_remove (rcp_payment_id response_close_payment) (as_close_payment_requests s) \<rparr>))
           | None \<Rightarrow> Ok s)
      | FoReportMutations funder_report_mutations \<Rightarrow>
          res_bind (unwrap (index_mutations_of (nr_funder_report (as_node_report s)) (frm_mutations funder_report_mutations)))
            (\<lambda>index_mutations.
          res_bind (if index_mutations \<noteq> []
                    then as_send (ao_index_client io) SendToIndexClientError (ToIndexClient (ApplyMutations index_mutations)) s
                    else Ok s) (\<lambda>s.
          res_bind (mutate_node_report (map NrFunder (frm_mutations funder_report_mutations)) s) (\<lambda>s.
            Ok (broadcast_node_report_mutations io
              \<lparr> rm_opt_app_request_id = frm_opt_app_request_id funder_report_mutations,
                rm_mutations = map NrFunder (frm_mutations funder_report_mutations) \<rparr> s)))))"

definition as_handle_from_index_client ::
  "app_server_io \<Rightarrow> 'b index_client_to_app_server \<Rightarrow> 'b app_server \<Rightarrow> ('b app_server, app_server_error) res" where
  "as_handle_from_index_client io index_client_message s =
     (case index_client_message of
        IcReportMutations report_mutations \<Rightarrow>
          res_bind (mutate_node_report (map NrIndexClient (irm_mutations report_mutations)) s) (\<lambda>s.
            Ok (broadcast_node_report_mutations io
              \<lparr> rm_opt_app_request_id = irm_opt_app_request_id report_mutations,
                rm_mutations = map NrIndexClient (irm_mutations report_mutations) \<rparr> s))
      | IcResponseRoutes client_response_routes \<Rightarrow>
          (case hm_get (as_route_requests s) (cr_request_id client_response_routes) of
             Some app_id \<Rightarrow>
               Ok (send_to_app io app_id (AppResponseRoutes client_response_routes)
                 (s\<lparr> as_route_requests := hm_remove (cr_request_id client_response_routes) (as_route_requests s) \<rparr>))
           | None \<Rightarrow> Ok s))"

text \<open>The request to the funder that an application's request becomes; the others go to the index client.\<close>

fun control_of_request :: "'b app_request \<Rightarrow> 'b funder_control option" where
  "control_of_request (ArAddRelay named_relay_address) = Some (FcAddRelay named_relay_address)"
| "control_of_request (ArRemoveRelay public_key) = Some (FcRemoveRelay public_key)"
| "control_of_request (ArCreatePayment create_payment) = Some (FcCreatePayment create_payment)"
| "control_of_request (ArCreateTransaction create_transaction) = Some (FcCreateTransaction create_transaction)"
| "control_of_request (ArRequestClosePayment payment_id) = Some (FcRequestClosePayment payment_id)"
| "control_of_request (ArAckClosePayment ack_close_payment) = Some (FcAckClosePayment ack_close_payment)"
| "control_of_request (ArAddInvoice add_invoice) = Some (FcAddInvoice add_invoice)"
| "control_of_request (ArCancelInvoice invoice_id) = Some (FcCancelInvoice invoice_id)"
| "control_of_request (ArCommitInvoice multi_commit) = Some (FcCommitInvoice multi_commit)"
| "control_of_request (ArAddFriend add_friend) = Some (FcAddFriend add_friend)"
| "control_of_request (ArSetFriendRelays set_friend_address) = Some (FcSetFriendRelays set_friend_address)"
| "control_of_request (ArSetFriendName set_friend_name) = Some (FcSetFriendName set_friend_name)"
| "control_of_request (ArRemoveFriend friend_public_key) = Some (FcRemoveFriend \<lparr> rf_friend_public_key = friend_public_key \<rparr>)"
| "control_of_request (ArEnableFriend friend_public_key) =
     Some (FcSetFriendStatus \<lparr> sfs_friend_public_key = friend_public_key, sfs_status = Enabled \<rparr>)"
| "control_of_request (ArDisableFriend friend_public_key) =
     Some (FcSetFriendStatus \<lparr> sfs_friend_public_key = friend_public_key, sfs_status = Disabled \<rparr>)"
| "control_of_request (ArOpenFriend friend_public_key) =
     Some (FcSetRequestsStatus \<lparr> srs_friend_public_key = friend_public_key, srs_status = Open \<rparr>)"
| "control_of_request (ArCloseFriend friend_public_key) =
     Some (FcSetRequestsStatus \<lparr> srs_friend_public_key = friend_public_key, srs_status = Closed \<rparr>)"
| "control_of_request (ArSetFriendRemoteMaxDebt set_friend_remote_max_debt) = Some (FcSetFriendRemoteMaxDebt set_friend_remote_max_debt)"
| "control_of_request (ArSetFriendRate set_friend_rate) = Some (FcSetFriendRate set_friend_rate)"
| "control_of_request (ArResetFriendChannel reset_friend_channel) = Some (FcResetFriendChannel reset_friend_channel)"
| "control_of_request (ArRequestRoutes _) = None"
| "control_of_request (ArAddIndexServer _) = None"
| "control_of_request (ArRemoveIndexServer _) = None"

definition handle_app_message ::
  "app_server_io \<Rightarrow> u128 \<Rightarrow> 'b app_to_app_server \<Rightarrow> 'b app_server \<Rightarrow> ('b app_server, app_server_error) res" where
  "handle_app_message io app_id app_message s =
     (case hm_get (as_apps s) app_id of
        None \<Rightarrow> Ok s
      | Some a \<Rightarrow>
          if \<not> check_permissions (app_permissions a) (am_app_request app_message) then Ok s
          else
            (let app_request_id = am_app_request_id app_message;
                 to_index = (\<lambda>request. as_send (ao_index_client io) SendToIndexClientError (ToIndexClient (AppRequest app_request_id request)))
             in case am_app_request app_message of
                  ArRequestRoutes request_routes \<Rightarrow>
                    to_index (ReqRequestRoutes request_routes)
                      (s\<lparr> as_route_requests := hm_insert (rr_request_id request_routes) app_id (as_route_requests s) \<rparr>)
                | ArAddIndexServer named_index_server_address \<Rightarrow> to_index (ReqAddIndexServer named_index_server_address) s
                | ArRemoveIndexServer index_server_address \<Rightarrow> to_index (ReqRemoveIndexServer index_server_address) s
                | app_request \<Rightarrow>
                    (let s = (case app_request of
                                ArCreateTransaction create_transaction \<Rightarrow>
                                  s\<lparr> as_transactions := hm_insert (ct_request_id create_transaction) app_id (as_transactions s) \<rparr>
                              | _ \<Rightarrow> s)
                     in case control_of_request app_request of
                          Some control \<Rightarrow>
                            as_send (ao_funder io) SendToFunderError
                              (ToFunder \<lparr> fic_app_request_id = app_request_id, fic_funder_control = control \<rparr>) s
                        | None \<Rightarrow> Ok s)))"

definition handle_from_app ::
  "app_server_io \<Rightarrow> u128 \<Rightarrow> 'b app_to_app_server option \<Rightarrow> 'b app_server \<Rightarrow> ('b app_server, app_server_error) res" where
  "handle_from_app io app_id opt_app_message s =
     (case opt_app_message of
        None \<Rightarrow>
          (case hm_get (as_apps s) app_id of
             None \<Rightarrow> Panic
           | Some _ \<Rightarrow>
               (let s = s\<lparr> as_apps := hm_remove app_id (as_apps s) \<rparr>
                in if as_apps s = [] \<and> as_incoming_connections_closed s then Err AllAppsClosed else Ok s))
      | Some app_message \<Rightarrow> handle_app_message io app_id app_message s)"

definition app_server_step ::
  "app_server_io \<times> 'b app_server_event \<Rightarrow> 'b app_server \<Rightarrow> ('b app_server, app_server_error) res" where
  "app_server_step round s =
     (case snd round of
        AsIncomingConnection permissions \<Rightarrow> handle_incoming_connection (fst round) permissions s
      | AsIncomingConnectionsClosed \<Rightarrow> handle_incoming_connections_closed s
      | AsFromFunder funder_message \<Rightarrow> as_handle_from_funder (fst round) funder_message s
      | AsFunderClosedEvent \<Rightarrow> Err AsFunderClosed
      | AsFromIndexClient index_client_message \<Rightarrow> as_handle_from_index_client (fst round) index_client_message s
      | AsIndexClientClosedEvent \<Rightarrow> Err AsIndexClientClosed
      | AsFromApp app_id opt_app_message \<Rightarrow> handle_from_app (fst round) app_id opt_app_message s)"

fun app_server_events ::
  "(app_server_io \<times> 'b app_server_event) list \<Rightarrow> 'b app_server \<Rightarrow> ('b app_server, app_server_error) res" where
  "app_server_events [] s = Ok s"
| "app_server_events (round # rounds) s = res_bind (app_server_step round s) (app_server_events rounds)"

definition app_server_loop ::
  "'b node_report \<Rightarrow> (app_server_io \<times> 'b app_server_event) list \<Rightarrow> ('b app_server, app_server_error) res" where
  "app_server_loop initial_node_report rounds = app_server_events rounds (app_server_new initial_node_report)"

section \<open>What an application sees\<close>

fun node_replay :: "'b node_report \<Rightarrow> 'b node_report_mutation list \<Rightarrow> 'b node_report option" where
  "node_replay r [] = Some r"
| "node_replay r (m # ms) = (case node_report_mutate r m of Ok r' \<Rightarrow> node_replay r' ms | _ \<Rightarrow> None)"

text \<open>The messages to a connection, and the report an application makes of them.\<close>

fun message_to :: "u128 \<Rightarrow> 'b app_server_output \<Rightarrow> 'b app_server_to_app list" where
  "message_to app_id (ToApp i m) = (if i = app_id then [m] else [])"
| "message_to app_id _ = []"

definition messages_to :: "u128 \<Rightarrow> 'b app_server_output list \<Rightarrow> 'b app_server_to_app list" where
  "messages_to app_id out = concat (map (message_to app_id) out)"

fun view_step :: "'b app_server_to_app \<Rightarrow> 'b node_report option \<Rightarrow> 'b node_report option" where
  "view_step (AppReport r) v = Some r"
| "view_step (AppReportMutations rm) v = Option.bind v (\<lambda>r. node_replay r (rm_mutations rm))"
| "view_step _ v = v"

definition app_view :: "'b app_server_to_app list \<Rightarrow> 'b node_report option" where
  "app_view ms = fold view_step ms None"

definition views_ok :: "'b app_server \<Rightarrow> bool" where
  "views_ok s \<longleftrightarrow> hm_ok (as_apps s)
     \<and> (\<forall>app_id a. hm_get (as_apps s) app_id = Some a \<longrightarrow> app_opt_sender a \<longrightarrow>
          app_view (messages_to app_id (as_out s)) = Some (as_node_report s))"

lemma messages_to_simps [simp]:
  "messages_to i [] = []" "messages_to i (out @ out') = messages_to i out @ messages_to i out'"
  "messages_to i (m # out) = message_to i m @ messages_to i out"
  by (simp_all add: messages_to_def)

lemma app_view_simps [simp]: "app_view [] = None" "app_view (ms @ [m]) = view_step m (app_view ms)"
  by (simp_all add: app_view_def)

lemma as_emit_sel [simp]:
  "as_apps (as_emit ms s) = as_apps s" "as_node_report (as_emit ms s) = as_node_report s" "as_out (as_emit ms s) = as_out s @ ms"
  "as_app_counter (as_emit ms s) = as_app_counter s" "as_transactions (as_emit ms s) = as_transactions s"
  "as_route_requests (as_emit ms s) = as_route_requests s" "as_close_payment_requests (as_emit ms s) = as_close_payment_requests s"
  by (simp_all add: as_emit_def)

lemma as_send_Ok: "as_send ok e m s = Ok s' \<longleftrightarrow> ok \<and> s' = as_emit [m] s"
  by (auto simp: as_send_def)

lemma mutate_node_report_eq:
  "mutate_node_report ms s = (case node_replay (as_node_report s) ms of Some r \<Rightarrow> Ok (s\<lparr> as_node_report := r \<rparr>) | None \<Rightarrow> Panic)"
proof (induction ms arbitrary: s)
  case (Cons m ms)
  then show ?case by (cases "node_report_mutate (as_node_report s) m") (simp_all split: option.split)
qed simp

text \<open>What an application gets of a message, and whether its channel is open afterwards.\<close>

lemma app_send_facts:
  "app_opt_sender (snd (app_send io i m a)) \<Longrightarrow> fst (app_send io i m a) = [ToApp i m] \<and> app_opt_sender a"
  "app_permissions (snd (app_send io i m a)) = app_permissions a"
  "x \<in> set (fst (app_send io i m a)) \<Longrightarrow> x = ToApp i m"
  by (auto simp: app_send_def split: if_splits)

lemma messages_to_app_send: "j \<noteq> i \<Longrightarrow> messages_to j (fst (app_send io i m a)) = []"
  by (auto simp: app_send_def)

lemma send_to_apps_facts:
  assumes "hm_ok apps"
  shows "hm_ok (snd (send_to_apps io m apps))"
    and "hm_get (snd (send_to_apps io m apps)) i = map_option (\<lambda>a. snd (app_send io i m a)) (hm_get apps i)"
    and "messages_to i (fst (send_to_apps io m apps)) =
      (case hm_get apps i of Some a \<Rightarrow> messages_to i (fst (app_send io i m a)) | None \<Rightarrow> [])"
    and "x \<in> set (fst (send_to_apps io m apps)) \<Longrightarrow> \<exists>j. x = ToApp j m"
proof -
  have keys: "map fst (snd (send_to_apps io m apps)) = map fst apps" for apps
    by (induction io m apps rule: send_to_apps.induct) (auto split: prod.splits)
  show "hm_ok (snd (send_to_apps io m apps))" using assms keys by (simp add: hm_ok_def)
  show "hm_get (snd (send_to_apps io m apps)) i = map_option (\<lambda>a. snd (app_send io i m a)) (hm_get apps i)"
    by (induction io m apps rule: send_to_apps.induct) (auto simp: hm_get_def split: prod.splits)
  show "messages_to i (fst (send_to_apps io m apps)) =
      (case hm_get apps i of Some a \<Rightarrow> messages_to i (fst (app_send io i m a)) | None \<Rightarrow> [])"
    using assms
  proof (induction io m apps rule: send_to_apps.induct)
    case (2 io m k a apps)
    then have IH: "messages_to i (fst (send_to_apps io m apps)) =
        (case hm_get apps i of Some a \<Rightarrow> messages_to i (fst (app_send io i m a)) | None \<Rightarrow> [])"
      by (cases "app_send io k m a") (auto simp: hm_ok_def)
    have "k \<notin> set (map fst apps)" using "2.prems" by (simp add: hm_ok_def)
    then have "hm_get apps k = None" by (simp add: hm_get_def map_of_eq_None_iff)
    then show ?case using IH messages_to_app_send [of i k io m a]
      by (cases "i = k") (auto simp: hm_get_def Let_def split: prod.split)
  qed simp
  show "x \<in> set (fst (send_to_apps io m apps)) \<Longrightarrow> \<exists>j. x = ToApp j m"
    by (induction io m apps rule: send_to_apps.induct) (auto simp: app_send_def split: if_splits prod.splits)
qed

text \<open>Handlers that neither change the report nor the applications.\<close>

lemma views_ok_same:
  assumes "views_ok s" "as_apps s' = as_apps s" "as_node_report s' = as_node_report s"
    "\<And>i. messages_to i (as_out s') = messages_to i (as_out s)"
  shows "views_ok s'"
  using assms by (simp add: views_ok_def)

lemma views_ok_update [simp]:
  "views_ok (s\<lparr> as_transactions := t \<rparr>) = views_ok s" "views_ok (s\<lparr> as_route_requests := t \<rparr>) = views_ok s"
  "views_ok (s\<lparr> as_close_payment_requests := p \<rparr>) = views_ok s"
  by (simp_all add: views_ok_def)

lemma send_to_app_views:
  assumes "views_ok s" "\<And>v. view_step m v = v"
  shows "views_ok (send_to_app io i m s)" and "as_node_report (send_to_app io i m s) = as_node_report s"
proof -
  have "views_ok (send_to_app io i m s) \<and> as_node_report (send_to_app io i m s) = as_node_report s"
  proof (cases "hm_get (as_apps s) i")
    case None
    then show ?thesis using assms(1) by (simp add: send_to_app_def)
  next
    case (Some a)
    then show ?thesis using assms
      by (auto simp: send_to_app_def app_send_def views_ok_def hm_simps split: if_splits)
  qed
  then show "views_ok (send_to_app io i m s)" "as_node_report (send_to_app io i m s) = as_node_report s" by simp_all
qed

lemma broadcast_views:
  assumes "views_ok s" "node_replay (as_node_report s) (rm_mutations rm) = Some r"
  shows "views_ok (broadcast_node_report_mutations io rm (s\<lparr> as_node_report := r \<rparr>))"
    and "as_node_report (broadcast_node_report_mutations io rm (s\<lparr> as_node_report := r \<rparr>)) = r"
proof -
  have ok: "hm_ok (as_apps s)" using assms(1) by (simp add: views_ok_def)
  note sent = send_to_apps_facts [OF ok, where io = io and m = "AppReportMutations rm"]
  show "as_node_report (broadcast_node_report_mutations io rm (s\<lparr> as_node_report := r \<rparr>)) = r"
    by (simp add: broadcast_node_report_mutations_def Let_def split: prod.split)
  have "app_view (messages_to i (as_out s) @ messages_to i (fst (app_send io i (AppReportMutations rm) a))) = Some r"
    if a: "hm_get (as_apps s) i = Some a" "app_opt_sender (snd (app_send io i (AppReportMutations rm) a))" for i a
    using app_send_facts(1) [OF a(2)] assms a(1) by (simp add: views_ok_def)
  then show "views_ok (broadcast_node_report_mutations io rm (s\<lparr> as_node_report := r \<rparr>))"
    using sent(1,2,3)
    by (auto simp: views_ok_def broadcast_node_report_mutations_def Let_def split: prod.split)
qed

section \<open>Runs\<close>

text \<open>The mutations of the report that an event carries.\<close>

fun event_mutations :: "'b app_server_event \<Rightarrow> 'b node_report_mutation list" where
  "event_mutations (AsFromFunder (FoReportMutations ms)) = map NrFunder (frm_mutations ms)"
| "event_mutations (AsFromIndexClient (IcReportMutations ms)) = map NrIndexClient (irm_mutations ms)"
| "event_mutations _ = []"

lemmas as_handlers = handle_incoming_connection_def handle_incoming_connections_closed_def as_handle_from_funder_def
  as_handle_from_index_client_def handle_app_message_def handle_from_app_def

lemma handle_app_message_same:
  assumes "handle_app_message io i m s = Ok s'"
  shows "as_apps s' = as_apps s" "as_node_report s' = as_node_report s" "messages_to j (as_out s') = messages_to j (as_out s)"
  using assms
  by (cases "am_app_request m"; auto simp: handle_app_message_def Let_def as_send_def split: option.splits if_splits)+

lemma step_views:
  assumes "views_ok s" "app_server_step (io, e) s = Ok s'"
  shows "views_ok s' \<and> node_replay (as_node_report s) (event_mutations e) = Some (as_node_report s')"
proof (cases e)
  case (AsIncomingConnection p)
  then show ?thesis using assms
    by (auto simp: app_server_step_def handle_incoming_connection_def app_send_def views_ok_def hm_simps split: if_splits)
next
  case AsIncomingConnectionsClosed
  then show ?thesis using assms
    by (auto simp: app_server_step_def handle_incoming_connections_closed_def Let_def views_ok_def split: if_splits)
next
  case (AsFromFunder m)
  show ?thesis
  proof (cases m)
    case (FoReportMutations ms)
    obtain im ims s1 where s1: "s1 \<in> {s, as_emit [ToIndexClient (ApplyMutations im)] s}" and *: "mutate_node_report (map NrFunder (frm_mutations ms)) s1 = Ok ims"
      "s' = broadcast_node_report_mutations io \<lparr> rm_opt_app_request_id = frm_opt_app_request_id ms,
        rm_mutations = map NrFunder (frm_mutations ms) \<rparr> ims"
      using assms(2) AsFromFunder FoReportMutations
      by (auto simp: app_server_step_def as_handle_from_funder_def res_simps as_send_Ok split: if_splits)
    have same: "as_apps s1 = as_apps s" "as_node_report s1 = as_node_report s"
      "\<And>i. messages_to i (as_out s1) = messages_to i (as_out s)" using s1 by auto
    obtain r where r: "node_replay (as_node_report s1) (map NrFunder (frm_mutations ms)) = Some r" "ims = s1\<lparr> as_node_report := r \<rparr>"
      using *(1) by (auto simp: mutate_node_report_eq split: option.splits)
    have "views_ok s1" by (rule views_ok_same [OF assms(1) same])
    then show ?thesis using broadcast_views [of s1 "\<lparr> rm_opt_app_request_id = frm_opt_app_request_id ms,
        rm_mutations = map NrFunder (frm_mutations ms) \<rparr>" r io] r same *(2) AsFromFunder FoReportMutations by simp
  next
    case (FoTransactionResult t)
    then show ?thesis using assms AsFromFunder
      by (cases "hm_get (as_transactions s) (tr_request_id t)")
         (auto simp: app_server_step_def as_handle_from_funder_def send_to_app_views)
  next
    case (FoResponseClosePayment t)
    then show ?thesis using assms AsFromFunder
      by (cases "hm_get (as_close_payment_requests s) (rcp_payment_id t)")
         (auto simp: app_server_step_def as_handle_from_funder_def send_to_app_views)
  qed
next
  case (AsFromIndexClient m)
  show ?thesis
  proof (cases m)
    case (IcReportMutations ms)
    obtain r where r: "node_replay (as_node_report s) (map NrIndexClient (irm_mutations ms)) = Some r"
      "s' = broadcast_node_report_mutations io \<lparr> rm_opt_app_request_id = irm_opt_app_request_id ms,
        rm_mutations = map NrIndexClient (irm_mutations ms) \<rparr> (s\<lparr> as_node_report := r \<rparr>)"
      using assms(2) AsFromIndexClient IcReportMutations
      by (auto simp: app_server_step_def as_handle_from_index_client_def res_simps mutate_node_report_eq split: option.splits)
    then show ?thesis using broadcast_views [OF assms(1), of "\<lparr> rm_opt_app_request_id = irm_opt_app_request_id ms,
        rm_mutations = map NrIndexClient (irm_mutations ms) \<rparr>" r io] AsFromIndexClient IcReportMutations by simp
  next
    case (IcResponseRoutes t)
    then show ?thesis using assms AsFromIndexClient
      by (cases "hm_get (as_route_requests s) (cr_request_id t)")
         (auto simp: app_server_step_def as_handle_from_index_client_def send_to_app_views)
  qed
next
  case (AsFromApp i m)
  show ?thesis
  proof (cases m)
    case None
    then show ?thesis using assms AsFromApp
      by (auto simp: app_server_step_def handle_from_app_def Let_def views_ok_def hm_simps split: option.splits if_splits)
  next
    case (Some m)
    then have "handle_app_message io i m s = Ok s'" using assms(2) AsFromApp by (simp add: app_server_step_def handle_from_app_def)
    then show ?thesis using assms(1) AsFromApp handle_app_message_same [of io i m s s'] views_ok_same [of s s'] by simp
  qed
qed (use assms in \<open>simp_all add: app_server_step_def\<close>)

lemma node_replay_append: "node_replay r (ms @ ns) = Option.bind (node_replay r ms) (\<lambda>r'. node_replay r' ns)"
proof (induction ms arbitrary: r)
  case (Cons m ms)
  then show ?case by (cases "node_report_mutate r m") simp_all
qed simp

lemma run_views:
  assumes "views_ok s" "app_server_events rounds s = Ok s'"
  shows "views_ok s' \<and> node_replay (as_node_report s) (concat (map (\<lambda>round. event_mutations (snd round)) rounds)) = Some (as_node_report s')"
  using assms
proof (induction rounds arbitrary: s)
  case (Cons round rounds)
  obtain s1 where s1: "app_server_step round s = Ok s1" "app_server_events rounds s1 = Ok s'"
    using Cons.prems(2) by (auto simp: res_simps)
  have "views_ok s1 \<and> node_replay (as_node_report s) (event_mutations (snd round)) = Some (as_node_report s1)"
    using step_views [of s "fst round" "snd round" s1] Cons.prems(1) s1(1) by simp
  then show ?case using Cons.IH [OF _ s1(2)] by (simp add: node_replay_append)
qed simp

text \<open>The messages of the funder and of the index client, and the two parts of the report.\<close>

definition from_funder :: "(app_server_io \<times> 'b app_server_event) list \<Rightarrow> 'b funder_outgoing_control list" where
  "from_funder rounds = concat (map (\<lambda>round. case snd round of AsFromFunder m \<Rightarrow> [m] | _ \<Rightarrow> []) rounds)"

definition from_index_client :: "(app_server_io \<times> 'b app_server_event) list \<Rightarrow> 'b index_client_to_app_server list" where
  "from_index_client rounds = concat (map (\<lambda>round. case snd round of AsFromIndexClient m \<Rightarrow> [m] | _ \<Rightarrow> []) rounds)"

definition to_app_server :: "'b ic_output list \<Rightarrow> 'b index_client_to_app_server list" where
  "to_app_server out = concat (map (\<lambda>m. case m of OutApp a \<Rightarrow> [a] | _ \<Rightarrow> []) out)"

definition index_reports :: "'b index_client_to_app_server list \<Rightarrow> 'b index_client_report_mutation list" where
  "index_reports ms = concat (map (\<lambda>m. case m of IcReportMutations r \<Rightarrow> irm_mutations r | _ \<Rightarrow> []) ms)"

lemma reported_to_app_server: "index_reports (to_app_server out) = reported out"
  by (induction out) (auto simp: index_reports_def to_app_server_def reported_def split: ic_output.split)

fun funder_part :: "'b node_report_mutation list \<Rightarrow> 'b funder_report_mutation list" where
  "funder_part [] = []"
| "funder_part (NrFunder m # ms) = m # funder_part ms"
| "funder_part (NrIndexClient m # ms) = funder_part ms"

fun index_part :: "'b node_report_mutation list \<Rightarrow> 'b index_client_report_mutation list" where
  "index_part [] = []"
| "index_part (NrFunder m # ms) = index_part ms"
| "index_part (NrIndexClient m # ms) = m # index_part ms"

lemma part_simps [simp]:
  "funder_part (ms @ ns) = funder_part ms @ funder_part ns" "index_part (ms @ ns) = index_part ms @ index_part ns"
  "funder_part (map NrFunder fs) = fs" "index_part (map NrFunder fs) = []"
  "funder_part (map NrIndexClient xs) = []" "index_part (map NrIndexClient xs) = xs"
proof -
  show "funder_part (ms @ ns) = funder_part ms @ funder_part ns" by (induction ms rule: funder_part.induct) simp_all
  show "index_part (ms @ ns) = index_part ms @ index_part ns" by (induction ms rule: index_part.induct) simp_all
qed (induction fs, simp_all, induction fs, simp_all, induction xs, simp_all, induction xs, simp_all)

lemma part_of_event:
  "funder_part (event_mutations e) = reported_mutations (case e of AsFromFunder m \<Rightarrow> [m] | _ \<Rightarrow> [])"
  "index_part (event_mutations e) = index_reports (case e of AsFromIndexClient m \<Rightarrow> [m] | _ \<Rightarrow> [])"
  by (cases e rule: event_mutations.cases; simp add: reported_mutations_def index_reports_def)+

lemma messages_append:
  "reported_mutations (xs @ ys) = reported_mutations xs @ reported_mutations ys" "index_reports (vs @ ws) = index_reports vs @ index_reports ws"
  by (simp_all add: reported_mutations_def index_reports_def)

lemma parts_of_rounds:
  "funder_part (concat (map (\<lambda>round. event_mutations (snd round)) rounds)) = reported_mutations (from_funder rounds)"
  "index_part (concat (map (\<lambda>round. event_mutations (snd round)) rounds)) = index_reports (from_index_client rounds)"
proof (induction rounds)
  case (Cons round rounds)
  have "from_funder (round # rounds) = (case snd round of AsFromFunder m \<Rightarrow> [m] | _ \<Rightarrow> []) @ from_funder rounds"
    "from_index_client (round # rounds) = (case snd round of AsFromIndexClient m \<Rightarrow> [m] | _ \<Rightarrow> []) @ from_index_client rounds"
    by (simp_all add: from_funder_def from_index_client_def)
  with Cons show "funder_part (concat (map (\<lambda>round. event_mutations (snd round)) (round # rounds))) = reported_mutations (from_funder (round # rounds))"
    "index_part (concat (map (\<lambda>round. event_mutations (snd round)) (round # rounds))) = index_reports (from_index_client (round # rounds))"
    by (simp_all only: messages_append part_of_event part_simps concat.simps list.map)
qed (simp_all add: from_funder_def from_index_client_def reported_mutations_def index_reports_def)

lemma node_replay_parts:
  assumes "node_replay r ms = Some r'"
  shows "report_replay (nr_funder_report r) (funder_part ms) = Ok (nr_funder_report r')
    \<and> fold index_client_report_mutate (index_part ms) (nr_index_client_report r) = nr_index_client_report r'"
  using assms
proof (induction ms arbitrary: r)
  case (Cons m ms)
  obtain r1 where r1: "node_report_mutate r m = Ok r1" "node_replay r1 ms = Some r'"
    using Cons.prems by (auto split: res.splits)
  show ?case using Cons.IH [OF r1(2)] r1(1) by (cases m) (auto split: res.splits)
qed simp

section \<open>Properties\<close>

text \<open>
  C16: Every application sees the state of the node. Take a run of the funder, a run of the index
  client and a run of the application server that gets what the two of them send, in any
  interleaving with applications that connect, ask and go away. The report that an application
  makes of the messages it was sent since it connected, as long as its channel is open, describes
  the current state of the funder (a friend that is online may still be shown as offline), and
  shows the index servers of the configuration in the database and the one the node is connected to.
\<close>

theorem apps_see_node_state:
  assumes "inner_funder_loop E fio limits events st = Some (fs, None)" and "\<forall>ev \<in> set events. event_ok ev"
    and "state_sound (fl_max_operations_in_batch limits) st"
    and "index_client_loop irounds (index_client_new config friends max_open keepalive backoff) iio = Some (Inr (), ics)"
    and "app_server_loop \<lparr> nr_funder_report = create_initial_report st, nr_index_client_report = create_index_client_report config \<rparr> rounds = Ok s"
    and "from_funder rounds = ls_control fs" and "from_index_client rounds = to_app_server (cx_out ics)"
    and "hm_get (as_apps s) app_id = Some a" and "app_opt_sender a"
  shows "\<exists>view. app_view (messages_to app_id (as_out s)) = Some view
    \<and> reports (ls_funder_state fs) (ls_ephemeral fs) (nr_funder_report view)
    \<and> nr_index_client_report view =
        \<lparr> icr_index_servers = icc_index_servers (fold index_client_config_mutate (stored (cx_out ics)) config),
          icr_opt_connected_server = connected_key (ic_conn_status ics) \<rparr>"
proof -
  let ?r = "\<lparr> nr_funder_report = create_initial_report st, nr_index_client_report = create_index_client_report config \<rparr>"
  have "views_ok (app_server_new ?r)" "as_node_report (app_server_new ?r) = ?r" by (simp_all add: views_ok_def app_server_new_def)
  then have run: "views_ok s" "node_replay ?r (concat (map (\<lambda>round. event_mutations (snd round)) rounds)) = Some (as_node_report s)"
    using run_views [OF _ assms(5) [unfolded app_server_loop_def]] by simp_all
  obtain report where report: "report_replay (create_initial_report st) (reported_mutations (ls_control fs)) = Ok report"
    "reports (ls_funder_state fs) (ls_ephemeral fs) report"
    using loop_keeps [OF assms(1,2,3)] by (auto simp: loop_inv_def)
  have index: "fold index_client_report_mutate (reported (cx_out ics)) (create_index_client_report config) =
      \<lparr> icr_index_servers = icc_index_servers (fold index_client_config_mutate (stored (cx_out ics)) config),
        icr_opt_connected_server = connected_key (ic_conn_status ics) \<rparr>"
    using run_invariant [OF assms(4)] by (simp add: tracks_def config_of_def)
  have "nr_funder_report (as_node_report s) = report" "nr_index_client_report (as_node_report s) =
      fold index_client_report_mutate (reported (cx_out ics)) (create_index_client_report config)"
    using node_replay_parts [OF run(2)] report(1) by (simp_all add: parts_of_rounds assms(6,7) reported_to_app_server)
  then show ?thesis using run(1) report(2) index assms(8,9) by (auto simp: views_ok_def)
qed

definition example_as_io :: app_server_io where
  "example_as_io = \<lparr> ao_spawn = True, ao_funder = True, ao_index_client = True, ao_app = (\<lambda>_. True) \<rparr>"

definition example_permissions :: app_permissions where
  "example_permissions = \<lparr> ap_routes = True, ap_buyer = True, ap_seller = False, ap_config = False \<rparr>"

definition example_as_rounds ::
  "nat funder_outgoing_control list \<Rightarrow> nat index_client_to_app_server list \<Rightarrow> (app_server_io \<times> nat app_server_event) list" where
  "example_as_rounds fs is =
     (example_as_io, AsIncomingConnection example_permissions) # map (\<lambda>m. (example_as_io, AsFromFunder m)) fs
       @ map (\<lambda>m. (example_as_io, AsFromIndexClient m)) is"

lemma example_as_rounds_from: "from_funder (example_as_rounds fs is) = fs" "from_index_client (example_as_rounds fs is) = is"
proof -
  have "concat (map (\<lambda>x. case snd (example_as_io, AsFromFunder x) of AsFromFunder m \<Rightarrow> [m] | _ \<Rightarrow> []) fs) = fs"
    "concat (map (\<lambda>x. case snd (example_as_io, AsFromIndexClient x) of AsFromIndexClient m \<Rightarrow> [m] | _ \<Rightarrow> []) is) = is"
    by (induction fs; simp; induction "is"; simp)+
  then show "from_funder (example_as_rounds fs is) = fs" "from_index_client (example_as_rounds fs is) = is"
    by (simp_all add: from_funder_def from_index_client_def example_as_rounds_def comp_def)
qed

lemma example_as_run:
  "\<exists>fs s a. inner_funder_loop (example_env_of [1]) example_io example_limits example_loop_events example_node = Some (fs, None)
    \<and> app_server_loop \<lparr> nr_funder_report = create_initial_report example_node,
        nr_index_client_report = create_index_client_report example_ic_config \<rparr>
        (example_as_rounds (ls_control fs) (to_app_server (example_ic_out @ example_ic_more))) = Ok s
    \<and> hm_get (as_apps s) 0 = Some a \<and> app_opt_sender a \<and> length (messages_to 0 (as_out s)) = 11"
proof -
  have "case inner_funder_loop (example_env_of [1]) example_io example_limits example_loop_events example_node of
      Some (fs, None) \<Rightarrow>
        (case app_server_loop \<lparr> nr_funder_report = create_initial_report example_node,
            nr_index_client_report = create_index_client_report example_ic_config \<rparr>
            (example_as_rounds (ls_control fs) (to_app_server (example_ic_out @ example_ic_more))) of
           Ok s \<Rightarrow> (case hm_get (as_apps s) 0 of Some a \<Rightarrow> app_opt_sender a \<and> length (messages_to 0 (as_out s)) = 11 | None \<Rightarrow> False)
         | _ \<Rightarrow> False)
    | _ \<Rightarrow> False"
    by code_simp
  then show ?thesis by (auto split: option.splits res.splits)
qed

theorem apps_see_node_state_witness:
  "\<exists>fs s view. inner_funder_loop (example_env_of [1]) example_io example_limits example_loop_events example_node = Some (fs, None)
    \<and> length (messages_to 0 (as_out (s :: nat app_server))) = 11 \<and> app_view (messages_to 0 (as_out s)) = Some view
    \<and> reports (ls_funder_state fs) (ls_ephemeral fs) (nr_funder_report view)
    \<and> icr_opt_connected_server (nr_index_client_report view) = Some [9]"
proof -
  obtain ics where ics: "index_client_loop (example_ic_before @ example_ic_during) example_ic_client example_ic_io = Some (Inr (), ics)"
      "cx_out ics = example_ic_out @ example_ic_more" "ic_conn_status ics = CsConnected example_ic_connected"
    using summary_Some [OF example_ic_runs(3)] by blast
  obtain fs s a where run: "inner_funder_loop (example_env_of [1]) example_io example_limits example_loop_events example_node = Some (fs, None)"
    "app_server_loop \<lparr> nr_funder_report = create_initial_report example_node,
        nr_index_client_report = create_index_client_report example_ic_config \<rparr>
        (example_as_rounds (ls_control fs) (to_app_server (cx_out ics))) = Ok s"
    "hm_get (as_apps s) 0 = Some a" "app_opt_sender a" "length (messages_to 0 (as_out s)) = 11"
    using example_as_run unfolding ics(2) by blast
  obtain view where "app_view (messages_to 0 (as_out s)) = Some view" "reports (ls_funder_state fs) (ls_ephemeral fs) (nr_funder_report view)"
    "icr_opt_connected_server (nr_index_client_report view) = connected_key (ic_conn_status ics)"
    using apps_see_node_state [OF run(1) example_events_ok example_node_sound ics(1) [unfolded example_ic_client_def] run(2)
        example_as_rounds_from run(3,4)] by auto
  then show ?thesis using run(1,5) ics(3) by (auto simp: example_ic_connected_def)
qed

end
