(* ===== verification/AppRequests.thy ===== *)
theory AppRequests
  imports AppServer
begin

text \<open>
  What the application server does with requests and responses: who may ask, who gets the
  answer, and which changes of a batch reach the index client.
\<close>

section \<open>Requests and responses\<close>

text \<open>
  The permissions of the applications, in the order of their connections, and what an application
  was allowed to ask. The number of a connection is its place in that order.
\<close>

definition connections :: "(app_server_io \<times> 'b app_server_event) list \<Rightarrow> app_permissions list" where
  "connections rounds = concat (map (\<lambda>round. case snd round of AsIncomingConnection p \<Rightarrow> [p] | _ \<Rightarrow> []) rounds)"

definition allowed :: "(app_server_io \<times> 'b app_server_event) list \<Rightarrow> u128 \<Rightarrow> 'b app_to_app_server \<Rightarrow> bool" where
  "allowed rounds app_id m \<longleftrightarrow> AsFromApp app_id (Some m) \<in> snd ` set rounds \<and> unat app_id < length (connections rounds)
     \<and> check_permissions (connections rounds ! unat app_id) (am_app_request m)"

fun index_request :: "'b app_request \<Rightarrow> 'b index_client_request option" where
  "index_request (ArRequestRoutes r) = Some (ReqRequestRoutes r)"
| "index_request (ArAddIndexServer a) = Some (ReqAddIndexServer a)"
| "index_request (ArRemoveIndexServer a) = Some (ReqRemoveIndexServer a)"
| "index_request _ = None"

text \<open>
  What a message that leaves the server rests on: a request to the funder or the index client is
  one that an application was allowed to make, and a response goes to the application that asked.
\<close>

fun justified :: "(app_server_io \<times> 'b app_server_event) list \<Rightarrow> 'b app_server_output \<Rightarrow> bool" where
  "justified rounds (ToFunder c) = (\<exists>app_id m. allowed rounds app_id m \<and> am_app_request_id m = fic_app_request_id c
     \<and> control_of_request (am_app_request m) = Some (fic_funder_control c))"
| "justified rounds (ToIndexClient (AppRequest i q)) = (\<exists>app_id m. allowed rounds app_id m \<and> am_app_request_id m = i
     \<and> index_request (am_app_request m) = Some q)"
| "justified rounds (ToApp app_id (AppTransactionResult t)) = (\<exists>m ct. allowed rounds app_id m
     \<and> am_app_request m = ArCreateTransaction ct \<and> ct_request_id ct = tr_request_id t)"
| "justified rounds (ToApp app_id (AppResponseClosePayment t)) = (\<exists>m. allowed rounds app_id m
     \<and> am_app_request m = ArRequestClosePayment (rcp_payment_id t))"
| "justified rounds (ToApp app_id (AppResponseRoutes t)) = (\<exists>m r. allowed rounds app_id m
     \<and> am_app_request m = ArRequestRoutes r \<and> rr_request_id r = cr_request_id t)"
| "justified rounds _ = True"

definition sound_output :: "(app_server_io \<times> 'b app_server_event) list \<Rightarrow> 'b app_server_output \<Rightarrow> bool" where
  "sound_output rounds out \<longleftrightarrow> justified rounds out \<and> (\<forall>i t. out \<noteq> ToApp i (AppResponseClosePayment t))"

definition as_inv :: "(app_server_io \<times> 'b app_server_event) list \<Rightarrow> 'b app_server \<Rightarrow> bool" where
  "as_inv rounds s \<longleftrightarrow> as_app_counter s = of_nat (length (connections rounds)) \<and> hm_ok (as_apps s)
     \<and> (\<forall>i a. hm_get (as_apps s) i = Some a \<longrightarrow> unat i < length (connections rounds) \<and> app_permissions a = connections rounds ! unat i)
     \<and> (\<forall>r i. hm_get (as_transactions s) r = Some i \<longrightarrow>
          (\<exists>m ct. allowed rounds i m \<and> am_app_request m = ArCreateTransaction ct \<and> ct_request_id ct = r))
     \<and> (\<forall>r i. hm_get (as_route_requests s) r = Some i \<longrightarrow>
          (\<exists>m rr. allowed rounds i m \<and> am_app_request m = ArRequestRoutes rr \<and> rr_request_id rr = r))
     \<and> as_close_payment_requests s = []
     \<and> (\<forall>out \<in> set (as_out s). sound_output rounds out)"

lemma connections_append [simp]:
  "connections (rounds @ rounds') = connections rounds @ connections rounds'"
  "connections [(io, AsIncomingConnection p)] = [p]"
  by (simp_all add: connections_def)

lemma allowed_append: "allowed rounds i m \<Longrightarrow> allowed (rounds @ rounds') i m"
  by (auto simp: allowed_def nth_append)

lemma justified_append: "justified rounds out \<Longrightarrow> justified (rounds @ rounds') out"
  by (induction rounds out rule: justified.induct) (auto dest: allowed_append)

lemma sound_output_append: "sound_output rounds out \<Longrightarrow> sound_output (rounds @ rounds') out"
  by (simp add: sound_output_def justified_append)

lemma as_inv_append:
  assumes "as_inv rounds s"
  shows "(\<forall>i a. hm_get (as_apps s) i = Some a \<longrightarrow> unat i < length (connections (rounds @ rounds'))
        \<and> app_permissions a = connections (rounds @ rounds') ! unat i)
     \<and> (\<forall>r i. hm_get (as_transactions s) r = Some i \<longrightarrow>
          (\<exists>m ct. allowed (rounds @ rounds') i m \<and> am_app_request m = ArCreateTransaction ct \<and> ct_request_id ct = r))
     \<and> (\<forall>r i. hm_get (as_route_requests s) r = Some i \<longrightarrow>
          (\<exists>m rr. allowed (rounds @ rounds') i m \<and> am_app_request m = ArRequestRoutes rr \<and> rr_request_id rr = r))
     \<and> (\<forall>out \<in> set (as_out s). sound_output (rounds @ rounds') out)"
proof (intro conjI allI impI)
  fix i a
  assume "hm_get (as_apps s) i = Some a"
  then have "unat i < length (connections rounds) \<and> app_permissions a = connections rounds ! unat i"
    using assms unfolding as_inv_def by blast
  then show "unat i < length (connections (rounds @ rounds'))" "app_permissions a = connections (rounds @ rounds') ! unat i"
    by (auto simp: nth_append)
qed (use assms in \<open>unfold as_inv_def, (blast dest: allowed_append sound_output_append)+\<close>)

text \<open>What a handler may change of the state, apart from the report.\<close>

definition as_grows :: "(app_server_io \<times> 'b app_server_event) list \<Rightarrow> 'b app_server \<Rightarrow> 'b app_server \<Rightarrow> bool" where
  "as_grows rounds s s' \<longleftrightarrow> as_app_counter s' = as_app_counter s \<and> (hm_ok (as_apps s) \<longrightarrow> hm_ok (as_apps s'))
     \<and> (\<forall>i a. hm_get (as_apps s') i = Some a \<longrightarrow> (\<exists>b. hm_get (as_apps s) i = Some b \<and> app_permissions b = app_permissions a))
     \<and> as_close_payment_requests s' = as_close_payment_requests s
     \<and> (\<forall>r i. hm_get (as_transactions s') r = Some i \<longrightarrow> hm_get (as_transactions s) r = Some i
          \<or> (\<exists>m ct. allowed rounds i m \<and> am_app_request m = ArCreateTransaction ct \<and> ct_request_id ct = r))
     \<and> (\<forall>r i. hm_get (as_route_requests s') r = Some i \<longrightarrow> hm_get (as_route_requests s) r = Some i
          \<or> (\<exists>m rr. allowed rounds i m \<and> am_app_request m = ArRequestRoutes rr \<and> rr_request_id rr = r))
     \<and> (\<forall>out \<in> set (as_out s'). out \<in> set (as_out s)
          \<or> sound_output rounds out)"

lemma as_inv_grows:
  assumes "as_inv rounds s" "as_grows (rounds @ rounds') s s'" "connections rounds' = []"
  shows "as_inv (rounds @ rounds') s'"
proof -
  note old = as_inv_append [OF assms(1), of rounds']
  have counter: "as_app_counter s' = of_nat (length (connections (rounds @ rounds')))" "hm_ok (as_apps s')" "as_close_payment_requests s' = []"
    using assms by (auto simp: as_inv_def as_grows_def)
  have "\<forall>i a. hm_get (as_apps s') i = Some a \<longrightarrow> unat i < length (connections (rounds @ rounds'))
      \<and> app_permissions a = connections (rounds @ rounds') ! unat i"
    using old assms(2) unfolding as_grows_def by metis
  then show ?thesis using counter old assms(2) unfolding as_inv_def as_grows_def by blast
qed

lemma as_grows_refl: "as_grows rounds s s"
  by (simp add: as_grows_def)

lemma as_grows_apps:
  assumes "as_grows rounds s s'" "hm_ok (as_apps s') \<longrightarrow> hm_ok apps"
    and "\<And>i a. hm_get apps i = Some a \<Longrightarrow> \<exists>b. hm_get (as_apps s') i = Some b \<and> app_permissions b = app_permissions a"
    and "\<And>out. out \<in> set ms \<Longrightarrow> sound_output rounds out"
  shows "as_grows rounds s (as_emit ms (s'\<lparr> as_apps := apps \<rparr>))"
proof -
  have "\<exists>b. hm_get (as_apps s) i = Some b \<and> app_permissions b = app_permissions a" if "hm_get apps i = Some a" for i a
    using assms(3) [OF that] assms(1) unfolding as_grows_def by metis
  then show ?thesis using assms(1,2,4) unfolding as_grows_def by auto
qed

lemma send_to_app_grows:
  assumes "justified rounds (ToApp i m)" "\<And>t. m \<noteq> AppResponseClosePayment t" "as_grows rounds s s'"
  shows "as_grows rounds s (send_to_app io i m s')"
proof (cases "hm_get (as_apps s') i")
  case None
  then show ?thesis using assms(3) by (simp add: send_to_app_def)
next
  case (Some a)
  let ?out = "fst (app_send io i m a)" and ?a = "snd (app_send io i m a)"
  have eq: "send_to_app io i m s' = as_emit ?out (s'\<lparr> as_apps := hm_insert i ?a (as_apps s') \<rparr>)"
    using Some by (simp add: send_to_app_def split: prod.split)
  have "\<forall>out \<in> set ?out. sound_output rounds out"
    using assms(1,2) app_send_facts(3) unfolding sound_output_def by fastforce
  moreover have "app_permissions ?a = app_permissions a" by (rule app_send_facts(2))
  ultimately show ?thesis using Some unfolding eq by (intro as_grows_apps [OF assms(3)]) (auto simp: hm_simps split: if_splits)
qed

lemma broadcast_grows:
  assumes "hm_ok (as_apps s')" "as_grows rounds s s'"
  shows "as_grows rounds s (broadcast_node_report_mutations io rm s')"
proof -
  let ?sent = "send_to_apps io (AppReportMutations rm) (as_apps s')"
  have eq: "broadcast_node_report_mutations io rm s' = as_emit (fst ?sent) (s'\<lparr> as_apps := snd ?sent \<rparr>)"
    by (simp add: broadcast_node_report_mutations_def split: prod.split)
  note sent = send_to_apps_facts [OF assms(1), where io = io and m = "AppReportMutations rm"]
  have "\<exists>b. hm_get (as_apps s') i = Some b \<and> app_permissions b = app_permissions a" if "hm_get (snd ?sent) i = Some a" for i a
    using that by (auto simp: sent(2) app_send_facts(2))
  moreover have "sound_output rounds out" if "out \<in> set (fst ?sent)" for out
    using sent(4) [OF that] by (auto simp: sound_output_def)
  ultimately show ?thesis using sent(1) unfolding eq by (intro as_grows_apps [OF assms(2)]) auto
qed

lemma app_message_grows:
  assumes "handle_app_message io i m s = Ok s'"
    and "\<And>a. hm_get (as_apps s) i = Some a \<Longrightarrow> check_permissions (app_permissions a) (am_app_request m) \<Longrightarrow> allowed rounds i m"
  shows "as_grows rounds s s'"
proof (cases "\<exists>a. hm_get (as_apps s) i = Some a \<and> check_permissions (app_permissions a) (am_app_request m)")
  case False
  then have "s' = s" using assms(1) by (auto simp: handle_app_message_def split: option.splits)
  then show ?thesis by (simp add: as_grows_refl)
next
  case True
  then obtain a where a: "hm_get (as_apps s) i = Some a" "check_permissions (app_permissions a) (am_app_request m)" by blast
  have ok: "allowed rounds i m" by (rule assms(2) [OF a])
  show ?thesis
  proof (cases "control_of_request (am_app_request m)")
    case None
    then show ?thesis using assms(1) a ok
      by (cases "am_app_request m")
         (auto simp: handle_app_message_def as_send_Ok as_grows_def sound_output_def hm_simps split: if_splits, (metis index_request.simps)+)
  next
    case (Some c)
    obtain t where t: "s' = as_emit [ToFunder \<lparr> fic_app_request_id = am_app_request_id m, fic_funder_control = c \<rparr>] (s\<lparr> as_transactions := t \<rparr>)"
      "t = as_transactions s \<or> (\<exists>ct. am_app_request m = ArCreateTransaction ct \<and> t = hm_insert (ct_request_id ct) i (as_transactions s))"
      using assms(1) a Some by (cases "am_app_request m") (auto simp: handle_app_message_def as_send_Ok)
    have "sound_output rounds (ToFunder \<lparr> fic_app_request_id = am_app_request_id m, fic_funder_control = c \<rparr>)"
      using ok Some by (auto simp: sound_output_def intro!: exI [of _ i] exI [of _ m])
    then show ?thesis using t(2) ok unfolding t(1) as_grows_def by (auto simp: hm_simps split: if_splits)
  qed
qed

lemma connection_inv:
  assumes "as_inv rounds s" "app_server_step (io, AsIncomingConnection p) s = Ok s'" "length (connections rounds) < 2 ^ 128"
  shows "as_inv (rounds @ [(io, AsIncomingConnection p)]) s'"
proof -
  let ?r = "rounds @ [(io, AsIncomingConnection p)]" and ?i = "as_app_counter s"
  let ?a = "\<lparr> app_permissions = p, app_opt_sender = True \<rparr>"
  let ?sent = "app_send io ?i (AppReport (as_node_report s)) ?a"
  have s': "s' = as_emit (fst ?sent) (s\<lparr> as_apps := hm_insert ?i (snd ?sent) (as_apps s), as_app_counter := ?i + 1 \<rparr>)"
    using assms(2) by (auto simp: app_server_step_def handle_incoming_connection_def split: if_splits prod.splits)
  have i: "?i = of_nat (length (connections rounds))" using assms(1) by (simp add: as_inv_def)
  then have unat: "unat ?i = length (connections rounds)" using assms(3) by (simp add: unat_of_nat)
  have out: "sound_output ?r out" if "out \<in> set (fst ?sent)" for out
    using app_send_facts(3) [OF that] by (simp add: sound_output_def)
  have perm: "app_permissions (snd ?sent) = p" by (simp add: app_send_facts(2))
  show ?thesis using as_inv_append [OF assms(1), of "[(io, AsIncomingConnection p)]"] assms(1) i unat perm out
    unfolding s' as_inv_def by (auto simp: hm_simps nth_append)
qed

lemma step_grows:
  assumes "as_inv rounds s" "app_server_step (io, e) s = Ok s'" "\<And>p. e \<noteq> AsIncomingConnection p"
  shows "as_grows (rounds @ [(io, e)]) s s'"
proof (cases e)
  case AsIncomingConnectionsClosed
  then have "s' = s\<lparr> as_incoming_connections_closed := True \<rparr>"
    using assms(2) by (auto simp: app_server_step_def handle_incoming_connections_closed_def Let_def split: if_splits)
  then show ?thesis by (simp add: as_grows_def)
next
  case (AsFromFunder m)
  have none: "as_close_payment_requests s = []" and ok: "hm_ok (as_apps s)" using assms(1) by (simp_all add: as_inv_def)
  show ?thesis
  proof (cases m)
    case (FoTransactionResult t)
    show ?thesis
    proof (cases "hm_get (as_transactions s) (tr_request_id t)")
      case None
      then show ?thesis using assms(2) AsFromFunder FoTransactionResult
        by (simp add: app_server_step_def as_handle_from_funder_def as_grows_refl)
    next
      case (Some i)
      have "justified (rounds @ [(io, e)]) (ToApp i (AppTransactionResult t))"
        using as_inv_append [OF assms(1), of "[(io, e)]"] Some by simp
      moreover have "as_grows (rounds @ [(io, e)]) s (s\<lparr> as_transactions := hm_remove (tr_request_id t) (as_transactions s) \<rparr>)"
        by (auto simp: as_grows_def hm_simps)
      moreover have "s' = send_to_app io i (AppTransactionResult t)
          (s\<lparr> as_transactions := hm_remove (tr_request_id t) (as_transactions s) \<rparr>)"
        using assms(2) AsFromFunder FoTransactionResult Some by (simp add: app_server_step_def as_handle_from_funder_def)
      ultimately show ?thesis using send_to_app_grows by blast
    qed
  next
    case (FoResponseClosePayment t)
    then show ?thesis using assms(2) AsFromFunder none
      by (simp add: app_server_step_def as_handle_from_funder_def as_grows_refl)
  next
    case (FoReportMutations ms)
    obtain im s1 r where s1: "s1 \<in> {s, as_emit [ToIndexClient (ApplyMutations im)] s}"
      and s': "s' = broadcast_node_report_mutations io \<lparr> rm_opt_app_request_id = frm_opt_app_request_id ms,
        rm_mutations = map NrFunder (frm_mutations ms) \<rparr> (s1\<lparr> as_node_report := r \<rparr>)"
      using assms(2) AsFromFunder FoReportMutations
      by (auto simp: app_server_step_def as_handle_from_funder_def res_simps as_send_Ok mutate_node_report_eq
          split: if_splits option.splits)
    have "as_grows (rounds @ [(io, e)]) s (s1\<lparr> as_node_report := r \<rparr>)" "hm_ok (as_apps s1)"
      using s1 ok by (auto simp: as_grows_def sound_output_def)
    then show ?thesis unfolding s' by (intro broadcast_grows) simp_all
  qed
next
  case (AsFromIndexClient m)
  have ok: "hm_ok (as_apps s)" using assms(1) by (simp add: as_inv_def)
  show ?thesis
  proof (cases m)
    case (IcReportMutations ms)
    obtain r where s': "s' = broadcast_node_report_mutations io \<lparr> rm_opt_app_request_id = irm_opt_app_request_id ms,
        rm_mutations = map NrIndexClient (irm_mutations ms) \<rparr> (s\<lparr> as_node_report := r \<rparr>)"
      using assms(2) AsFromIndexClient IcReportMutations
      by (auto simp: app_server_step_def as_handle_from_index_client_def res_simps mutate_node_report_eq split: option.splits)
    have "as_grows (rounds @ [(io, e)]) s (s\<lparr> as_node_report := r \<rparr>)" by (simp add: as_grows_def)
    then show ?thesis unfolding s' using ok by (intro broadcast_grows) simp_all
  next
    case (IcResponseRoutes t)
    show ?thesis
    proof (cases "hm_get (as_route_requests s) (cr_request_id t)")
      case None
      then show ?thesis using assms(2) AsFromIndexClient IcResponseRoutes
        by (simp add: app_server_step_def as_handle_from_index_client_def as_grows_refl)
    next
      case (Some i)
      have "justified (rounds @ [(io, e)]) (ToApp i (AppResponseRoutes t))"
        using as_inv_append [OF assms(1), of "[(io, e)]"] Some by simp
      moreover have "as_grows (rounds @ [(io, e)]) s (s\<lparr> as_route_requests := hm_remove (cr_request_id t) (as_route_requests s) \<rparr>)"
        by (auto simp: as_grows_def hm_simps)
      moreover have "s' = send_to_app io i (AppResponseRoutes t)
          (s\<lparr> as_route_requests := hm_remove (cr_request_id t) (as_route_requests s) \<rparr>)"
        using assms(2) AsFromIndexClient IcResponseRoutes Some by (simp add: app_server_step_def as_handle_from_index_client_def)
      ultimately show ?thesis using send_to_app_grows by blast
    qed
  qed
next
  case (AsFromApp i m)
  show ?thesis
  proof (cases m)
    case None
    then have "s' = s\<lparr> as_apps := hm_remove i (as_apps s) \<rparr>"
      using assms(2) AsFromApp by (auto simp: app_server_step_def handle_from_app_def Let_def split: option.splits if_splits)
    then show ?thesis by (auto simp: as_grows_def hm_simps)
  next
    case (Some m)
    have "handle_app_message io i m s = Ok s'" using assms(2) AsFromApp Some by (simp add: app_server_step_def handle_from_app_def)
    moreover have "allowed (rounds @ [(io, e)]) i m"
      if "hm_get (as_apps s) i = Some a" "check_permissions (app_permissions a) (am_app_request m)" for a
      using as_inv_append [OF assms(1), of "[(io, e)]"] that AsFromApp Some by (auto simp: allowed_def)
    ultimately show ?thesis by (rule app_message_grows)
  qed
qed (use assms in \<open>simp_all add: app_server_step_def\<close>)

lemma as_run_inv:
  assumes "as_inv rounds s" "app_server_events rounds' s = Ok s'" "length (connections (rounds @ rounds')) \<le> 2 ^ 128"
  shows "as_inv (rounds @ rounds') s'"
  using assms
proof (induction rounds' arbitrary: rounds s)
  case (Cons round rest)
  obtain io e where round: "round = (io, e)" by force
  obtain s1 where s1: "app_server_step (io, e) s = Ok s1" "app_server_events rest s1 = Ok s'"
    using Cons.prems(2) by (auto simp: res_simps round)
  have "as_inv (rounds @ [(io, e)]) s1"
  proof (cases "\<exists>p. e = AsIncomingConnection p")
    case True
    then obtain p where p: "e = AsIncomingConnection p" by blast
    have "length (connections rounds) < 2 ^ 128" using Cons.prems(3) by (simp add: round p connections_def)
    then show ?thesis using connection_inv [OF Cons.prems(1) s1(1) [unfolded p]] p by simp
  next
    case False
    then have "connections [(io, e)] = []" by (simp add: connections_def split: app_server_event.split)
    then show ?thesis using as_inv_grows [OF Cons.prems(1) step_grows [OF Cons.prems(1) s1(1)]] False by blast
  qed
  moreover have "rounds @ round # rest = (rounds @ [(io, e)]) @ rest" by (simp add: round)
  ultimately show ?case using Cons.IH [OF _ s1(2), of "rounds @ [(io, e)]"] Cons.prems(3) by metis
qed simp

section \<open>Batches of mutations\<close>

text \<open>
  The changes of one channel in a batch. Each is translated against the report from before the
  batch, so it counts as a change exactly when the information about the friend differs from what
  it was then.
\<close>

definition channel_info :: "'b friend_report \<Rightarrow> channel_status_report \<Rightarrow> friend_info option" where
  "channel_info f c = friend_info_of (f\<lparr> frr_channel_status := c \<rparr>)"

definition channel_changes :: "public_key \<Rightarrow> channel_status_report list \<Rightarrow> 'b funder_report_mutation list" where
  "channel_changes pk cs = map (\<lambda>c. FuFriendReportMutation pk (FrSetChannelStatus c)) cs"

lemma channel_changes_replay:
  assumes "hm_get (fur_friends r) pk = Some f" "cs \<noteq> []"
  shows "report_replay r (channel_changes pk cs) =
    Ok (r\<lparr> fur_friends := hm_insert pk (f\<lparr> frr_channel_status := last cs \<rparr>) (fur_friends r) \<rparr>)"
proof -
  have "fold (\<lambda>m r. friend_report_mutate r m) (map FrSetChannelStatus cs) f = f\<lparr> frr_channel_status := last cs \<rparr>"
    using assms(2) by (induction cs arbitrary: f rule: rev_induct) (auto split: if_splits, case_tac xs, auto)
  then show ?thesis using replay_friend_mutations [OF assms(1), of "map FrSetChannelStatus cs"]
    by (simp add: channel_changes_def comp_def)
qed

lemma channel_change_index:
  assumes "hm_get (fur_friends r) pk = Some f" "channel_info f c = Some i" "channel_info f (frr_channel_status f) = Some old"
  shows "funder_report_mutation_to_index_mutation r (FuFriendReportMutation pk (FrSetChannelStatus c)) =
    Some (if i \<noteq> old then Some (UpdateFriend (update_of_info pk i)) else None)"
proof -
  let ?r = "r\<lparr> fur_friends := hm_insert pk (f\<lparr> frr_channel_status := c \<rparr>) (fur_friends r) \<rparr>"
  have mutate: "funder_report_mutate r (FuFriendReportMutation pk (FrSetChannelStatus c)) = Ok ?r" using assms(1) by simp
  have get: "hm_get (fur_friends ?r) pk = Some (f\<lparr> frr_channel_status := c \<rparr>)" by (simp add: hm_simps)
  show ?thesis using assms create_update_friend_info [OF mutate get]
    by (auto simp: funder_report_mutation_to_index_mutation_def channel_info_def)
qed

lemma channel_changes_index:
  assumes "hm_get (fur_friends r) pk = Some f" "channel_info f (frr_channel_status f) = Some old" "\<forall>c \<in> set cs. channel_info f c \<noteq> None"
  shows "index_mutations_of r (channel_changes pk cs) =
    Some (map (\<lambda>c. UpdateFriend (update_of_info pk (the (channel_info f c)))) (filter (\<lambda>c. channel_info f c \<noteq> Some old) cs))"
  using assms(3)
proof (induction cs)
  case (Cons c cs)
  then obtain i where i: "channel_info f c = Some i" by auto
  show ?case using Cons channel_change_index [OF assms(1) i assms(2)] i by (auto simp: channel_changes_def)
qed (simp add: channel_changes_def)

lemma announce_updates:
  "hm_get (fold (\<lambda>im. announce (Some im)) (map (\<lambda>c. UpdateFriend (update_of_info pk (g c))) xs) m) k =
    (if k = pk \<and> xs \<noteq> [] then Some (g (last xs)) else hm_get m k)"
  by (induction xs arbitrary: m) (auto simp: hm_simps)

lemma last_filter: "xs \<noteq> [] \<Longrightarrow> P (last xs) \<Longrightarrow> last (filter P xs) = last xs"
  by (induction xs rule: rev_induct) auto

text \<open>
  The index client is not told of every change. When the channel of a friend changes several
  times within one batch of report mutations, as it does when a message of the friend is handled,
  what is announced agrees with the new report exactly when the capacities at the end of the batch
  differ from those before it, or did not change at all: a batch that changes them and changes
  them back leaves a wrong announcement.
\<close>

theorem channel_batch_announced_iff:
  assumes "shows_friends r m" and "hm_get (fur_friends r) pk = Some f" and "cs \<noteq> []"
    and "\<forall>c \<in> insert (frr_channel_status f) (set cs). channel_info f c \<noteq> None"
  shows "\<exists>r' ims. report_replay r (channel_changes pk cs) = Ok r' \<and> index_mutations_of r (channel_changes pk cs) = Some ims
    \<and> (shows_friends r' (fold (\<lambda>im. announce (Some im)) ims m) \<longleftrightarrow>
         channel_info f (last cs) \<noteq> channel_info f (frr_channel_status f)
         \<or> (\<forall>c \<in> set cs. channel_info f c = channel_info f (frr_channel_status f)))"
proof -
  obtain old where old: "channel_info f (frr_channel_status f) = Some old" using assms(4) by auto
  obtain new where new: "channel_info f (last cs) = Some new" using assms(3,4) last_in_set [of cs] by force
  let ?xs = "filter (\<lambda>c. channel_info f c \<noteq> Some old) cs" and ?f = "f\<lparr> frr_channel_status := last cs \<rparr>"
  let ?r = "r\<lparr> fur_friends := hm_insert pk ?f (fur_friends r) \<rparr>"
  let ?m = "fold (\<lambda>im. announce (Some im)) (map (\<lambda>c. UpdateFriend (update_of_info pk (the (channel_info f c)))) ?xs) m"
  have shown: "shows_friend (hm_get (fur_friends r) k) (hm_get m k)" for k using assms(1) by (simp add: shows_friends_def)
  have info: "friend_info_of f = Some old" "friend_info_of ?f = Some new" using old new by (simp_all add: channel_info_def)
  have "shows_friends ?r ?m \<longleftrightarrow> shows_friend (Some ?f) (hm_get ?m pk)"
    using shown by (auto simp: shows_friends_def announce_updates hm_simps)
  also have "\<dots> \<longleftrightarrow> new \<noteq> old \<or> ?xs = []"
  proof (cases "?xs = []")
    case True
    then have "new = old" using new assms(3) by (auto simp: filter_empty_conv)
    then show ?thesis using True shown [of pk] info assms(2) by (simp add: announce_updates shows_friend_def)
  next
    case False
    have "last ?xs \<in> set ?xs" using False by (rule last_in_set)
    then have "channel_info f (last ?xs) \<noteq> Some old" "channel_info f (last ?xs) \<noteq> None" using assms(4) by auto
    moreover have "new \<noteq> old \<Longrightarrow> last ?xs = last cs" by (rule last_filter) (use assms(3) new in auto)
    ultimately show ?thesis using False info new by (auto simp: announce_updates shows_friend_def)
  qed
  also have "\<dots> \<longleftrightarrow> channel_info f (last cs) \<noteq> channel_info f (frr_channel_status f)
      \<or> (\<forall>c \<in> set cs. channel_info f c = channel_info f (frr_channel_status f))"
    by (auto simp: old new filter_empty_conv)
  finally show ?thesis
    using channel_changes_replay [OF assms(2,3)] channel_changes_index [OF assms(2) old] assms(4) by auto
qed

definition example_before :: "nat funder_report" where
  "example_before = example_shown\<lparr> fur_friends := [([2], create_friend_report example_shown_friend RepOnline)] \<rparr>"

definition example_statuses :: "channel_status_report list" where
  "example_statuses = [RepInconsistent \<lparr> cir_local_reset_terms_balance = 0, cir_opt_remote_reset_terms = None \<rparr>,
     frr_channel_status (create_friend_report example_shown_friend RepOnline)]"

theorem channel_batch_announced_iff_witness:
  "\<exists>m r' ims. shows_friends example_before m \<and> report_replay example_before (channel_changes [2] example_statuses) = Ok r'
    \<and> index_mutations_of example_before (channel_changes [2] example_statuses) = Some ims
    \<and> \<not> shows_friends r' (fold (\<lambda>im. announce (Some im)) ims m)"
proof -
  let ?f = "create_friend_report example_shown_friend RepOnline"
  have "funder_report_to_index_client_state example_before \<noteq> None" by code_simp
  then obtain m where m: "shows_friends example_before m"
    using initial_shows [of example_before] by (auto simp: example_before_def hm_ok_def)
  have get: "hm_get (fur_friends example_before) [2] = Some ?f" by (simp add: example_before_def hm_get_def)
  have defined: "\<forall>c \<in> insert (frr_channel_status ?f) (set example_statuses). channel_info ?f c \<noteq> None"
    unfolding example_statuses_def by code_simp
  have same: "channel_info ?f (last example_statuses) = channel_info ?f (frr_channel_status ?f)" by (simp add: example_statuses_def)
  have "channel_info ?f (hd example_statuses) \<noteq> channel_info ?f (frr_channel_status ?f)" by code_simp
  moreover have "hd example_statuses \<in> set example_statuses" "example_statuses \<noteq> []" by (simp_all add: example_statuses_def)
  ultimately show ?thesis using channel_batch_announced_iff [OF m get _ defined] same m by blast
qed

section \<open>Isolation of the applications\<close>

lemma loop_inv_as:
  assumes "app_server_loop r rounds = Ok s" "length (connections rounds) \<le> 2 ^ 128"
  shows "as_inv rounds s"
proof -
  have "as_inv [] (app_server_new r)" by (simp add: as_inv_def app_server_new_def connections_def)
  then show ?thesis using as_run_inv [of "[]" "app_server_new r" rounds s] assms by (simp add: app_server_loop_def)
qed

text \<open>
  C17: Applications are kept apart by their permissions. As long as the numbers of the connections
  do not wrap around, every request that reaches the funder or the index client was made, with
  the same identifier, by an application that was connected with the permission for it, and every
  response goes to an application that asked for it and was allowed to.
\<close>

theorem app_requests_isolated:
  assumes "app_server_loop r rounds = Ok s" and "length (connections rounds) \<le> 2 ^ 128"
  shows "\<forall>out \<in> set (as_out s). justified rounds out"
  using loop_inv_as [OF assms] by (auto simp: as_inv_def sound_output_def)

definition example_requests :: "(app_server_io \<times> nat app_server_event) list" where
  "example_requests =
     [(example_as_io, AsIncomingConnection example_permissions),
      (example_as_io, AsFromApp 0 (Some \<lparr> am_app_request_id = [4], am_app_request = ArRemoveFriend [2] \<rparr>)),
      (example_as_io, AsFromApp 0 (Some \<lparr> am_app_request_id = [5], am_app_request = ArRequestClosePayment [6] \<rparr>)),
      (example_as_io, AsFromFunder (FoResponseClosePayment \<lparr> rcp_payment_id = [6], rcp_status = PsPaymentNotFound \<rparr>))]"

definition example_as_report :: "nat node_report" where
  "example_as_report = \<lparr> nr_funder_report = example_shown, nr_index_client_report = create_index_client_report example_ic_config \<rparr>"

lemma example_requests_run:
  "\<exists>s. app_server_loop example_as_report example_requests = Ok s
    \<and> as_out s = [ToApp 0 (AppReport example_as_report),
        ToFunder \<lparr> fic_app_request_id = [5], fic_funder_control = FcRequestClosePayment [6] \<rparr>]"
proof -
  have "case app_server_loop example_as_report example_requests of
      Ok s \<Rightarrow> as_out s = [ToApp 0 (AppReport example_as_report),
        ToFunder \<lparr> fic_app_request_id = [5], fic_funder_control = FcRequestClosePayment [6] \<rparr>] | _ \<Rightarrow> False"
    by code_simp
  then show ?thesis by (auto split: res.splits)
qed

theorem app_requests_isolated_witness:
  "\<exists>s. app_server_loop example_as_report example_requests = Ok s \<and> length (as_out s) = 2
    \<and> (\<forall>out \<in> set (as_out s). justified example_requests out)"
proof -
  have "length (connections example_requests) \<le> 2 ^ 128" by (simp add: example_requests_def connections_def)
  then show ?thesis using example_requests_run app_requests_isolated [of example_as_report example_requests] by fastforce
qed

text \<open>
  C40: An application that asks to close a payment gets no answer. The server does not note who
  asked, so it drops every such response of the funder, and none ever reaches an application.
\<close>

theorem close_payment_response_dropped:
  assumes "app_server_loop r rounds = Ok s" and "length (connections rounds) \<le> 2 ^ 128"
  shows "(\<forall>io response. app_server_step (io, AsFromFunder (FoResponseClosePayment response)) s = Ok s)
    \<and> (\<forall>app_id response. ToApp app_id (AppResponseClosePayment response) \<notin> set (as_out s))"
  using loop_inv_as [OF assms] by (auto simp: as_inv_def sound_output_def app_server_step_def as_handle_from_funder_def)

theorem close_payment_response_dropped_witness:
  "\<exists>s. app_server_loop example_as_report example_requests = Ok s
    \<and> ToFunder \<lparr> fic_app_request_id = [5], fic_funder_control = FcRequestClosePayment [6] \<rparr> \<in> set (as_out s)
    \<and> (\<forall>app_id response. ToApp app_id (AppResponseClosePayment response) \<notin> set (as_out s))"
proof -
  have "length (connections example_requests) \<le> 2 ^ 128" by (simp add: example_requests_def connections_def)
  then show ?thesis using example_requests_run close_payment_response_dropped [of example_as_report example_requests] by fastforce
qed

end
