(* ===== verification/RelayServer.thy ===== *)
theory RelayServer
  imports Messages
begin

text \<open>
  The relay server (\<open>relay/src/server/server.rs\<close>, \<open>types.rs\<close>): a node that can not be reached listens at a
  relay; another node asks the relay to be connected to it, and waits in a half tunnel until the
  listener accepts or rejects it, or its time is over.

  The two ends of a connection are values of any types. A round has what it meets: whether its
  tasks can be spawned, and whether the channel to a listener takes a message at once. The tasks that
  are spawned and the messages for listeners are recorded in order; the events that those tasks
  send back are events of later rounds.
\<close>

section \<open>State\<close>

record ('m, 'k) relay_conn_pair =
  cp_receiver :: 'm
  cp_sender :: 'k

record ('m, 'k) half_tunnel =
  ht_conn_pair :: "('m, 'k) relay_conn_pair"
  ht_ticks_to_close :: nat

record ('m, 'k) relay_listener =
  rl_half_tunnels :: "(public_key, ('m, 'k) half_tunnel) hmap"
  rl_tunnels :: "public_key list"
  rl_opt_sender :: "'k option"

definition relay_listener_new :: "'k \<Rightarrow> ('m, 'k) relay_listener" where
  "relay_listener_new sender = \<lparr> rl_half_tunnels = [], rl_tunnels = [], rl_opt_sender = Some sender \<rparr>"

record tunnel_closed =
  tl_init_public_key :: public_key
  tl_listen_public_key :: public_key

record ('m, 'k) incoming_listen =
  il_receiver :: 'm
  il_sender :: 'k

record ('m, 'k) incoming_accept =
  ia_receiver :: 'm
  ia_sender :: 'k
  ia_accept_public_key :: public_key

record ('m, 'k) incoming_connect =
  ic_receiver :: 'm
  ic_sender :: 'k
  ic_connect_public_key :: public_key

datatype ('m, 'k) incoming_conn_inner =
    InnerListen "('m, 'k) incoming_listen"
  | InnerAccept "('m, 'k) incoming_accept"
  | InnerConnect "('m, 'k) incoming_connect"

record ('m, 'k) incoming_conn =
  in_public_key :: public_key
  in_inner :: "('m, 'k) incoming_conn_inner"

datatype ('m, 'k) relay_server_event =
    RsIncomingConn "('m, 'k) incoming_conn"
  | RsIncomingConnsClosed
  | RsTunnelClosed tunnel_closed
  | RsListenerMessage public_key public_key
  | RsListenerClosed public_key
  | RsTimerTick
  | RsTimerClosed

datatype relay_server_error = RequestTimerStreamError | ListeningNotInProgress | NoPendingHalfTunnel

text \<open>
  \<open>SpawnTunnel receiver remote_sender remote_receiver sender\<close> stands for the two tasks of a tunnel; the
  second of them reports its end.
\<close>

datatype ('m, 'k) relay_output =
    SpawnListener public_key 'm 'k
  | SendIncomingConnection public_key 'k public_key
  | SpawnTunnel 'm 'k 'm 'k tunnel_closed

record ('m, 'k) relay_server =
  rs_incoming_conns_closed :: bool
  rs_listeners :: "(public_key, ('m, 'k) relay_listener) hmap"
  rs_out :: "('m, 'k) relay_output list"

record relay_io =
  ri_spawn :: bool
  ri_try_send :: bool

definition relay_server_new :: "('m, 'k) relay_server" where
  "relay_server_new = \<lparr> rs_incoming_conns_closed = False, rs_listeners = [], rs_out = [] \<rparr>"

definition set_listener :: "public_key \<Rightarrow> ('m, 'k) relay_listener \<Rightarrow> ('m, 'k) relay_server \<Rightarrow> ('m, 'k) relay_server" where
  "set_listener pk l s = s\<lparr> rs_listeners := hm_insert pk l (rs_listeners s) \<rparr>"

definition rs_emit :: "('m, 'k) relay_output \<Rightarrow> ('m, 'k) relay_server \<Rightarrow> ('m, 'k) relay_server" where
  "rs_emit m s = s\<lparr> rs_out := rs_out s @ [m] \<rparr>"

section \<open>Handlers\<close>

definition handle_accept ::
  "relay_io \<Rightarrow> public_key \<Rightarrow> ('m, 'k) incoming_accept \<Rightarrow> ('m, 'k) relay_server
     \<Rightarrow> (('m, 'k) relay_server, relay_server_error) res" where
  "handle_accept io acceptor_public_key incoming_accept s =
     (case hm_get (rs_listeners s) acceptor_public_key of
        None \<Rightarrow> Err ListeningNotInProgress
      | Some listener \<Rightarrow>
          (case hm_get (rl_half_tunnels listener) (ia_accept_public_key incoming_accept) of
             None \<Rightarrow> Err NoPendingHalfTunnel
           | Some half_tunnel \<Rightarrow>
               if \<not> ri_spawn io then Panic
               else
                 Ok (rs_emit
                   (SpawnTunnel (ia_receiver incoming_accept) (cp_sender (ht_conn_pair half_tunnel))
                     (cp_receiver (ht_conn_pair half_tunnel)) (ia_sender incoming_accept)
                     \<lparr> tl_init_public_key = ia_accept_public_key incoming_accept, tl_listen_public_key = acceptor_public_key \<rparr>)
                   (set_listener acceptor_public_key
                     (listener\<lparr> rl_half_tunnels := hm_remove (ia_accept_public_key incoming_accept) (rl_half_tunnels listener) \<rparr>) s))))"

definition handle_incoming_listen ::
  "relay_io \<Rightarrow> public_key \<Rightarrow> ('m, 'k) incoming_listen \<Rightarrow> ('m, 'k) relay_server
     \<Rightarrow> (('m, 'k) relay_server loop_flow, relay_server_error) res" where
  "handle_incoming_listen io public_key incoming_listen s =
     (if hm_contains (rs_listeners s) public_key then Ok (Continue s)
      else if \<not> ri_spawn io then Panic
      else
        Ok (Next (rs_emit (SpawnListener public_key (il_receiver incoming_listen) (il_sender incoming_listen))
          (set_listener public_key (relay_listener_new (il_sender incoming_listen)) s))))"

definition handle_incoming_connect ::
  "nat \<Rightarrow> relay_io \<Rightarrow> public_key \<Rightarrow> ('m, 'k) incoming_connect \<Rightarrow> ('m, 'k) relay_server \<Rightarrow> ('m, 'k) relay_server loop_flow" where
  "handle_incoming_connect half_tunnel_ticks io public_key incoming_connect s =
     (case hm_get (rs_listeners s) (ic_connect_public_key incoming_connect) of
        None \<Rightarrow> Continue s
      | Some listener \<Rightarrow>
          if hm_contains (rl_half_tunnels listener) public_key \<or> public_key \<in> set (rl_tunnels listener) then Continue s
          else
            (let half_tunnel =
               \<lparr> ht_conn_pair = \<lparr> cp_receiver = ic_receiver incoming_connect, cp_sender = ic_sender incoming_connect \<rparr>,
                 ht_ticks_to_close = half_tunnel_ticks \<rparr>
             in case rl_opt_sender listener of
                  None \<Rightarrow> Next s
                | Some sender \<Rightarrow>
                    if ri_try_send io
                    then Next (rs_emit (SendIncomingConnection (ic_connect_public_key incoming_connect) sender public_key)
                      (set_listener (ic_connect_public_key incoming_connect)
                        (listener\<lparr> rl_half_tunnels := hm_insert public_key half_tunnel (rl_half_tunnels listener) \<rparr>) s))
                    else Next s))"

definition handle_tunnel_closed :: "tunnel_closed \<Rightarrow> ('m, 'k) relay_server \<Rightarrow> ('m, 'k) relay_server loop_flow" where
  "handle_tunnel_closed tunnel_closed s =
     (case hm_get (rs_listeners s) (tl_listen_public_key tunnel_closed) of
        None \<Rightarrow> Continue s
      | Some listener \<Rightarrow>
          (let listener = listener\<lparr> rl_tunnels := removeAll (tl_init_public_key tunnel_closed) (rl_tunnels listener) \<rparr>
           in if rl_opt_sender listener = None \<and> rl_tunnels listener = []
              then Next (s\<lparr> rs_listeners := hm_remove (tl_listen_public_key tunnel_closed) (rs_listeners s) \<rparr>)
              else Next (set_listener (tl_listen_public_key tunnel_closed) listener s)))"

definition handle_listener_message ::
  "public_key \<Rightarrow> public_key \<Rightarrow> ('m, 'k) relay_server \<Rightarrow> ('m, 'k) relay_server loop_flow" where
  "handle_listener_message public_key rejected_public_key s =
     (case hm_get (rs_listeners s) public_key of
        None \<Rightarrow> Continue s
      | Some listener \<Rightarrow>
          Next (set_listener public_key
            (listener\<lparr> rl_half_tunnels := hm_remove rejected_public_key (rl_half_tunnels listener) \<rparr>) s))"

definition handle_listener_closed :: "public_key \<Rightarrow> ('m, 'k) relay_server \<Rightarrow> ('m, 'k) relay_server loop_flow" where
  "handle_listener_closed public_key s =
     (case hm_get (rs_listeners s) public_key of
        None \<Rightarrow> Continue s
      | Some listener \<Rightarrow>
          (let listener = listener\<lparr> rl_opt_sender := None, rl_half_tunnels := [] \<rparr>
           in if rl_tunnels listener = []
              then Next (s\<lparr> rs_listeners := hm_remove public_key (rs_listeners s) \<rparr>)
              else Next (set_listener public_key listener s)))"

definition tick_half_tunnel :: "('m, 'k) half_tunnel \<Rightarrow> ('m, 'k) half_tunnel option" where
  "tick_half_tunnel half_tunnel =
     (let half_tunnel = half_tunnel\<lparr> ht_ticks_to_close := ht_ticks_to_close half_tunnel - 1 \<rparr>
      in if 0 < ht_ticks_to_close half_tunnel then Some half_tunnel else None)"

definition relay_timer_tick :: "('m, 'k) relay_server \<Rightarrow> ('m, 'k) relay_server" where
  "relay_timer_tick s =
     s\<lparr> rs_listeners := hm_map_values
          (\<lambda>listener. listener\<lparr> rl_half_tunnels := hm_retain tick_half_tunnel (rl_half_tunnels listener) \<rparr>) (rs_listeners s) \<rparr>"

definition relay_server_event_step ::
  "nat \<Rightarrow> relay_io \<times> ('m, 'k) relay_server_event \<Rightarrow> ('m, 'k) relay_server
     \<Rightarrow> (('m, 'k) relay_server loop_flow, relay_server_error) res" where
  "relay_server_event_step half_tunnel_ticks e s =
     (case snd e of
        RsIncomingConn incoming_conn \<Rightarrow>
          (case in_inner incoming_conn of
             InnerListen incoming_listen \<Rightarrow> handle_incoming_listen (fst e) (in_public_key incoming_conn) incoming_listen s
           | InnerAccept incoming_accept \<Rightarrow>
               (case handle_accept (fst e) (in_public_key incoming_conn) incoming_accept s of
                  Ok s' \<Rightarrow> Ok (Next s')
                | Err _ \<Rightarrow> Ok (Next s)
                | Panic \<Rightarrow> Panic)
           | InnerConnect incoming_connect \<Rightarrow>
               Ok (handle_incoming_connect half_tunnel_ticks (fst e) (in_public_key incoming_conn) incoming_connect s))
      | RsIncomingConnsClosed \<Rightarrow> Ok (Next (s\<lparr> rs_incoming_conns_closed := True \<rparr>))
      | RsTunnelClosed tunnel_closed \<Rightarrow> Ok (handle_tunnel_closed tunnel_closed s)
      | RsListenerMessage public_key rejected_public_key \<Rightarrow> Ok (handle_listener_message public_key rejected_public_key s)
      | RsListenerClosed public_key \<Rightarrow> Ok (handle_listener_closed public_key s)
      | RsTimerTick \<Rightarrow> Ok (Next (relay_timer_tick s))
      | RsTimerClosed \<Rightarrow> Ok (Break s))"

text \<open>The events so far; the result says whether the loop goes on or was left.\<close>

fun relay_server_rounds ::
  "nat \<Rightarrow> (relay_io \<times> ('m, 'k) relay_server_event) list \<Rightarrow> ('m, 'k) relay_server
     \<Rightarrow> (('m, 'k) relay_server loop_flow, relay_server_error) res" where
  "relay_server_rounds half_tunnel_ticks [] s = Ok (Next s)"
| "relay_server_rounds half_tunnel_ticks (e # es) s =
     res_bind (relay_server_event_step half_tunnel_ticks e s) (\<lambda>flow.
       case flow of
         Continue s \<Rightarrow> relay_server_rounds half_tunnel_ticks es s
       | Next s \<Rightarrow>
           if rs_incoming_conns_closed s \<and> rs_listeners s = [] then Ok (Break s)
           else relay_server_rounds half_tunnel_ticks es s
       | Break s \<Rightarrow> Ok (Break s))"

definition relay_server_loop ::
  "bool \<Rightarrow> nat \<Rightarrow> (relay_io \<times> ('m, 'k) relay_server_event) list
     \<Rightarrow> (('m, 'k) relay_server loop_flow, relay_server_error) res" where
  "relay_server_loop timer half_tunnel_ticks es =
     (if \<not> timer then Err RequestTimerStreamError else relay_server_rounds half_tunnel_ticks es relay_server_new)"

section \<open>One pair of keys\<close>

text \<open>
  What the relay does for one listener and one node that asks for it, with all others left out:
  the channel to the listener, the half tunnel, the messages about the node that the listener was
  sent, and the tunnels between the two.
\<close>

record ('m, 'k) pair_state =
  pr_listening :: "'k option"
  pr_half :: "('m, 'k) half_tunnel option"
  pr_told :: "'k list"
  pr_tunnels :: "('m \<times> 'k \<times> 'm \<times> 'k) list"

definition pair_new :: "('m, 'k) pair_state" where
  "pair_new = \<lparr> pr_listening = None, pr_half = None, pr_told = [], pr_tunnels = [] \<rparr>"

definition pair_accept :: "('m, 'k) incoming_accept \<Rightarrow> ('m, 'k) pair_state \<Rightarrow> ('m, 'k) pair_state" where
  "pair_accept a p =
     (case pr_half p of
        None \<Rightarrow> p
      | Some h \<Rightarrow>
          p\<lparr> pr_half := None,
             pr_tunnels := pr_tunnels p @
               [(ia_receiver a, cp_sender (ht_conn_pair h), cp_receiver (ht_conn_pair h), ia_sender a)] \<rparr>)"

definition pair_connect :: "nat \<Rightarrow> relay_io \<Rightarrow> ('m, 'k) incoming_connect \<Rightarrow> ('m, 'k) pair_state \<Rightarrow> ('m, 'k) pair_state" where
  "pair_connect ticks io c p =
     (case pr_listening p of
        None \<Rightarrow> p
      | Some sender \<Rightarrow>
          if pr_half p = None \<and> ri_try_send io
          then p\<lparr> pr_half := Some \<lparr> ht_conn_pair = \<lparr> cp_receiver = ic_receiver c, cp_sender = ic_sender c \<rparr>, ht_ticks_to_close = ticks \<rparr>,
                  pr_told := pr_told p @ [sender] \<rparr>
          else p)"

text \<open>A half tunnel whose last tick has come is gone.\<close>

definition pair_tick :: "('m, 'k) half_tunnel \<Rightarrow> ('m, 'k) half_tunnel option" where
  "pair_tick h = (if ht_ticks_to_close h \<le> 1 then None else Some (h\<lparr> ht_ticks_to_close := ht_ticks_to_close h - 1 \<rparr>))"

definition pair_step ::
  "nat \<Rightarrow> public_key \<Rightarrow> public_key \<Rightarrow> relay_io \<times> ('m, 'k) relay_server_event \<Rightarrow> ('m, 'k) pair_state \<Rightarrow> ('m, 'k) pair_state" where
  "pair_step ticks L I e p =
     (case snd e of
        RsIncomingConn conn \<Rightarrow>
          (case in_inner conn of
             InnerListen l \<Rightarrow> if in_public_key conn = L \<and> pr_listening p = None then p\<lparr> pr_listening := Some (il_sender l) \<rparr> else p
           | InnerAccept a \<Rightarrow> if in_public_key conn = L \<and> ia_accept_public_key a = I then pair_accept a p else p
           | InnerConnect c \<Rightarrow> if in_public_key conn = I \<and> ic_connect_public_key c = L then pair_connect ticks (fst e) c p else p)
      | RsListenerMessage l rejected \<Rightarrow> if l = L \<and> rejected = I then p\<lparr> pr_half := None \<rparr> else p
      | RsListenerClosed l \<Rightarrow> if l = L then p\<lparr> pr_listening := None, pr_half := None \<rparr> else p
      | RsTimerTick \<Rightarrow> p\<lparr> pr_half := Option.bind (pr_half p) pair_tick \<rparr>
      | _ \<Rightarrow> p)"

definition pair_run ::
  "nat \<Rightarrow> public_key \<Rightarrow> public_key \<Rightarrow> (relay_io \<times> ('m, 'k) relay_server_event) list \<Rightarrow> ('m, 'k) pair_state" where
  "pair_run ticks L I es = fold (pair_step ticks L I) es pair_new"

text \<open>The same of the server.\<close>

definition told :: "public_key \<Rightarrow> public_key \<Rightarrow> ('m, 'k) relay_output list \<Rightarrow> 'k list" where
  "told L I out = List.map_filter (\<lambda>m. case m of SendIncomingConnection l k i \<Rightarrow> if l = L \<and> i = I then Some k else None | _ \<Rightarrow> None) out"

definition tunnels_between :: "public_key \<Rightarrow> public_key \<Rightarrow> ('m, 'k) relay_output list \<Rightarrow> ('m \<times> 'k \<times> 'm \<times> 'k) list" where
  "tunnels_between L I out =
     List.map_filter (\<lambda>m. case m of
         SpawnTunnel receiver remote_sender remote_receiver sender c \<Rightarrow>
           if tl_listen_public_key c = L \<and> tl_init_public_key c = I
           then Some (receiver, remote_sender, remote_receiver, sender) else None
       | _ \<Rightarrow> None) out"

definition pair_view :: "public_key \<Rightarrow> public_key \<Rightarrow> ('m, 'k) relay_server \<Rightarrow> ('m, 'k) pair_state" where
  "pair_view L I s =
     \<lparr> pr_listening = Option.bind (hm_get (rs_listeners s) L) rl_opt_sender,
       pr_half = Option.bind (hm_get (rs_listeners s) L) (\<lambda>l. hm_get (rl_half_tunnels l) I),
       pr_told = told L I (rs_out s), pr_tunnels = tunnels_between L I (rs_out s) \<rparr>"

text \<open>No listener is kept without its channel, and no tunnel is ever noted down.\<close>

definition listener_ok :: "('m, 'k) relay_listener \<Rightarrow> bool" where
  "listener_ok l \<longleftrightarrow> hm_ok (rl_half_tunnels l) \<and> rl_tunnels l = [] \<and> rl_opt_sender l \<noteq> None"

definition relay_ok :: "('m, 'k) relay_server \<Rightarrow> bool" where
  "relay_ok s \<longleftrightarrow> (\<forall>pk l. hm_get (rs_listeners s) pk = Some l \<longrightarrow> listener_ok l)"

lemma relay_output_simps [simp]:
  "told L I (out @ [SpawnListener l m k]) = told L I out"
  "told L I (out @ [SpawnTunnel m k m' k' c]) = told L I out"
  "told L I (out @ [SendIncomingConnection l k i]) = told L I out @ (if l = L \<and> i = I then [k] else [])"
  "tunnels_between L I (out @ [SpawnListener l m k]) = tunnels_between L I out"
  "tunnels_between L I (out @ [SendIncomingConnection l k i]) = tunnels_between L I out"
  "tunnels_between L I (out @ [SpawnTunnel m k m' k' c]) =
     tunnels_between L I out @ (if tl_listen_public_key c = L \<and> tl_init_public_key c = I then [(m, k, m', k')] else [])"
  by (simp_all add: told_def tunnels_between_def List.map_filter_def)

lemma relay_okD: "relay_ok s \<Longrightarrow> hm_get (rs_listeners s) pk = Some l \<Longrightarrow> listener_ok l"
  by (simp add: relay_ok_def)

lemma relay_ok_simps [simp]:
  "relay_ok (rs_emit m s) = relay_ok s"
  "relay_ok (s\<lparr> rs_incoming_conns_closed := b \<rparr>) = relay_ok s"
  "relay_ok s \<Longrightarrow> listener_ok l \<Longrightarrow> relay_ok (set_listener pk l s)"
  "relay_ok s \<Longrightarrow> relay_ok (s\<lparr> rs_listeners := hm_remove pk (rs_listeners s) \<rparr>)"
  "relay_ok relay_server_new"
  by (simp_all add: relay_ok_def rs_emit_def set_listener_def hm_get_insert hm_get_remove relay_server_new_def)

lemma relay_ok_listener:
  assumes "relay_ok s" "hm_get (rs_listeners s) pk = Some l"
  shows "relay_ok (set_listener pk (l\<lparr> rl_half_tunnels := hm_remove i (rl_half_tunnels l) \<rparr>) s)"
    and "relay_ok (set_listener pk (l\<lparr> rl_half_tunnels := hm_insert i h (rl_half_tunnels l) \<rparr>) s)"
    and "relay_ok (set_listener pk (l\<lparr> rl_tunnels := [] \<rparr>) s)"
    and "rl_tunnels l = []" and "rl_opt_sender l \<noteq> None"
  using assms relay_okD [OF assms] by (simp_all add: listener_ok_def)

lemma relay_ok_tick: "relay_ok s \<Longrightarrow> relay_ok (relay_timer_tick s)"
  by (auto simp: relay_ok_def relay_timer_tick_def hm_get_map_values listener_ok_def)

lemmas view_defs = pair_view_def pair_step_def rs_emit_def set_listener_def hm_get_insert hm_get_remove

lemma step_ok:
  "relay_ok s \<Longrightarrow> relay_server_event_step ticks e s = Ok f \<Longrightarrow> relay_ok (flow_state f)"
  by (auto simp: relay_server_event_step_def handle_incoming_listen_def handle_accept_def handle_incoming_connect_def
      handle_tunnel_closed_def handle_listener_message_def handle_listener_closed_def relay_ok_tick relay_ok_listener
      listener_ok_def relay_listener_new_def Let_def
      split: relay_server_event.splits incoming_conn_inner.splits option.splits if_splits res.splits)

lemma listen_view:
  "handle_incoming_listen io pk l s = Ok f \<Longrightarrow> relay_ok s \<Longrightarrow> snd e = RsIncomingConn c \<Longrightarrow> in_inner c = InnerListen l \<Longrightarrow>
     in_public_key c = pk \<Longrightarrow> pair_view L I (flow_state f) = pair_step ticks L I e (pair_view L I s)"
  by (auto simp: handle_incoming_listen_def view_defs relay_listener_new_def hm_contains_def listener_ok_def
      dest: relay_okD split: if_splits)

lemma accept_view:
  "handle_accept io pk a s = Ok s' \<Longrightarrow> snd e = RsIncomingConn c \<Longrightarrow> in_inner c = InnerAccept a \<Longrightarrow> in_public_key c = pk \<Longrightarrow>
     pair_view L I s' = pair_step ticks L I e (pair_view L I s)"
  by (auto simp: handle_accept_def view_defs pair_accept_def split: if_splits option.splits)

lemma accept_refused_view:
  "handle_accept io pk a s = Err x \<Longrightarrow> snd e = RsIncomingConn c \<Longrightarrow> in_inner c = InnerAccept a \<Longrightarrow> in_public_key c = pk \<Longrightarrow>
     pair_view L I s = pair_step ticks L I e (pair_view L I s)"
  by (auto simp: handle_accept_def view_defs pair_accept_def split: if_splits option.splits)

lemma connect_view:
  "relay_ok s \<Longrightarrow> snd e = RsIncomingConn c \<Longrightarrow> in_inner c = InnerConnect d \<Longrightarrow> in_public_key c = pk \<Longrightarrow> fst e = io \<Longrightarrow>
     pair_view L I (flow_state (handle_incoming_connect ticks io pk d s)) = pair_step ticks L I e (pair_view L I s)"
  by (auto simp: handle_incoming_connect_def view_defs pair_connect_def hm_contains_def Let_def listener_ok_def
      dest: relay_okD split: if_splits option.splits)

lemma closed_views:
  "relay_ok s \<Longrightarrow> pair_view L I (flow_state (handle_tunnel_closed t s)) = pair_view L I s"
  "relay_ok s \<Longrightarrow> snd e = RsListenerClosed l \<Longrightarrow>
     pair_view L I (flow_state (handle_listener_closed l s)) = pair_step ticks L I e (pair_view L I s)"
  "snd e = RsListenerMessage l i \<Longrightarrow>
     pair_view L I (flow_state (handle_listener_message l i s)) = pair_step ticks L I e (pair_view L I s)"
  by (auto simp: handle_tunnel_closed_def handle_listener_closed_def handle_listener_message_def view_defs Let_def
      listener_ok_def dest: relay_okD split: option.splits)

lemma tick_half_tunnel_pair: "tick_half_tunnel = pair_tick"
  by (rule ext) (auto simp: tick_half_tunnel_def pair_tick_def Let_def)

lemma tick_view:
  "relay_ok s \<Longrightarrow> snd e = RsTimerTick \<Longrightarrow> pair_view L I (relay_timer_tick s) = pair_step ticks L I e (pair_view L I s)"
  by (cases "hm_get (rs_listeners s) L")
     (auto simp: relay_timer_tick_def view_defs hm_get_map_values hm_get_retain listener_ok_def tick_half_tunnel_pair
      dest: relay_okD)

lemma event_view:
  assumes "relay_ok s" "relay_server_event_step ticks e s = Ok f"
  shows "pair_view L I (flow_state f) = pair_step ticks L I e (pair_view L I s)"
proof (cases "snd e")
  case (RsIncomingConn c)
  then show ?thesis using assms
    by (cases "in_inner c")
       (auto simp: relay_server_event_step_def connect_view intro: listen_view accept_view accept_refused_view split: res.splits)
next
  case (RsTunnelClosed t)
  then show ?thesis using assms closed_views(1) [OF assms(1), of L I t]
    by (auto simp: relay_server_event_step_def pair_step_def)
next
  case RsIncomingConnsClosed
  then show ?thesis using assms by (auto simp: relay_server_event_step_def view_defs)
next
  case RsTimerClosed
  then show ?thesis using assms by (auto simp: relay_server_event_step_def view_defs)
qed (use assms in \<open>auto simp: relay_server_event_step_def closed_views(2,3) tick_view\<close>)

lemma rounds_view:
  "relay_ok s \<Longrightarrow> relay_server_rounds ticks es s = Ok (Next s') \<Longrightarrow>
     relay_ok s' \<and> pair_view L I s' = fold (pair_step ticks L I) es (pair_view L I s)"
proof (induction es arbitrary: s)
  case (Cons e es)
  obtain f where f: "relay_server_event_step ticks e s = Ok f" using Cons.prems(2) by (auto simp: res_simps)
  then have "relay_server_rounds ticks es (flow_state f) = Ok (Next s')"
    using Cons.prems(2) by (auto split: loop_flow.splits if_splits)
  from Cons.IH [OF step_ok [OF Cons.prems(1) f] this] show ?case
    by (simp add: event_view [OF Cons.prems(1) f])
qed simp

lemma pair_view_new [simp]: "pair_view L I relay_server_new = pair_new"
  by (simp add: pair_view_def relay_server_new_def pair_new_def told_def tunnels_between_def List.map_filter_def)

lemma loop_view:
  "relay_server_loop timer ticks es = Ok (Next s) \<Longrightarrow> relay_ok s \<and> pair_view L I s = pair_run ticks L I es"
  using rounds_view [of relay_server_new ticks es s L I] by (simp add: relay_server_loop_def pair_run_def split: if_splits)

section \<open>What has to happen before a tunnel\<close>

definition connect_request ::
  "public_key \<Rightarrow> public_key \<Rightarrow> relay_io \<times> ('m, 'k) relay_server_event \<Rightarrow> ('m, 'k) relay_conn_pair option" where
  "connect_request L I e =
     (case snd e of
        RsIncomingConn conn \<Rightarrow>
          (case in_inner conn of
             InnerConnect c \<Rightarrow>
               if in_public_key conn = I \<and> ic_connect_public_key c = L
               then Some \<lparr> cp_receiver = ic_receiver c, cp_sender = ic_sender c \<rparr> else None
           | _ \<Rightarrow> None)
      | _ \<Rightarrow> None)"

definition accept_request ::
  "public_key \<Rightarrow> public_key \<Rightarrow> relay_io \<times> ('m, 'k) relay_server_event \<Rightarrow> ('m, 'k) relay_conn_pair option" where
  "accept_request L I e =
     (case snd e of
        RsIncomingConn conn \<Rightarrow>
          (case in_inner conn of
             InnerAccept a \<Rightarrow>
               if in_public_key conn = L \<and> ia_accept_public_key a = I
               then Some \<lparr> cp_receiver = ia_receiver a, cp_sender = ia_sender a \<rparr> else None
           | _ \<Rightarrow> None)
      | _ \<Rightarrow> None)"

definition ends_wait :: "public_key \<Rightarrow> public_key \<Rightarrow> relay_io \<times> ('m, 'k) relay_server_event \<Rightarrow> bool" where
  "ends_wait L I e \<longleftrightarrow>
     accept_request L I e \<noteq> None
     \<or> (case snd e of RsListenerMessage l rejected \<Rightarrow> l = L \<and> rejected = I | RsListenerClosed l \<Rightarrow> l = L | _ \<Rightarrow> False)"

definition ticks_in :: "(relay_io \<times> ('m, 'k) relay_server_event) list \<Rightarrow> nat" where
  "ticks_in es = length (filter (\<lambda>e. case snd e of RsTimerTick \<Rightarrow> True | _ \<Rightarrow> False) es)"

text \<open>
  Node \<open>I\<close> asked for \<open>L\<close> over the connection \<open>cp\<close> and still waits after the events \<open>mid\<close>: it was
  neither accepted nor rejected, the listener is there, and its time is not over.
\<close>

definition waits ::
  "nat \<Rightarrow> public_key \<Rightarrow> public_key \<Rightarrow> ('m, 'k) relay_conn_pair
     \<Rightarrow> relay_io \<times> ('m, 'k) relay_server_event \<Rightarrow> (relay_io \<times> ('m, 'k) relay_server_event) list \<Rightarrow> bool" where
  "waits ticks L I cp e mid \<longleftrightarrow>
     connect_request L I e = Some cp \<and> (\<forall>x \<in> set mid. \<not> ends_wait L I x) \<and> (ticks_in mid = 0 \<or> ticks_in mid < ticks)"

lemma ticks_in_snoc:
  "ticks_in (es @ [e]) = ticks_in es + (case snd e of RsTimerTick \<Rightarrow> 1 | _ \<Rightarrow> 0)"
  "ticks_in [] = 0"
  by (simp_all add: ticks_in_def split: relay_server_event.splits)

lemma waits_snoc:
  assumes "waits ticks L I cp e mid" "\<not> ends_wait L I x" "snd x = RsTimerTick \<Longrightarrow> ticks_in mid + 1 < ticks"
  shows "waits ticks L I cp e (mid @ [x])"
  using assms by (auto simp: waits_def ticks_in_snoc split: relay_server_event.splits)

lemma pair_run_snoc: "pair_run ticks L I (es @ [e]) = pair_step ticks L I e (pair_run ticks L I es)"
  by (simp add: pair_run_def)

text \<open>Where the half tunnel after one more event comes from.\<close>

lemma pair_step_half:
  assumes "pr_half (pair_step ticks L I e p) = Some h"
  obtains (asked) "connect_request L I e = Some (ht_conn_pair h)" "ht_ticks_to_close h = ticks"
  | (kept) "pr_half p = Some h" "\<not> ends_wait L I e" "snd e \<noteq> RsTimerTick"
  | (ticked) h' where "pr_half p = Some h'" "pair_tick h' = Some h" "\<not> ends_wait L I e" "snd e = RsTimerTick"
  using assms that
  by (cases "snd e")
     (auto simp: pair_step_def pair_accept_def pair_connect_def connect_request_def ends_wait_def accept_request_def bind_eq_Some_conv
      split: incoming_conn_inner.splits if_splits option.splits)

lemma pair_half_history:
  "pr_half (pair_run ticks L I es) = Some h \<Longrightarrow>
     \<exists>pre e mid. es = pre @ e # mid \<and> waits ticks L I (ht_conn_pair h) e mid \<and> ht_ticks_to_close h = ticks - ticks_in mid"
proof (induction es arbitrary: h rule: rev_induct)
  case Nil
  then show ?case by (simp add: pair_run_def pair_new_def)
next
  case (snoc x es)
  from snoc.prems [unfolded pair_run_snoc] show ?case
  proof (cases rule: pair_step_half)
    case asked
    then have "waits ticks L I (ht_conn_pair h) x []" by (simp add: waits_def ticks_in_snoc)
    then show ?thesis using asked(2) by (intro exI [of _ es] exI [of _ x] exI [of _ "[]"]) (simp add: ticks_in_snoc)
  next
    case kept
    from snoc.IH [OF kept(1)] obtain pre e mid where "es = pre @ e # mid" "waits ticks L I (ht_conn_pair h) e mid"
      "ht_ticks_to_close h = ticks - ticks_in mid" by blast
    moreover have "ticks_in (mid @ [x]) = ticks_in mid" using kept(3) by (simp add: ticks_in_snoc split: relay_server_event.splits)
    ultimately have "es @ [x] = pre @ e # (mid @ [x])" "waits ticks L I (ht_conn_pair h) e (mid @ [x])"
      "ht_ticks_to_close h = ticks - ticks_in (mid @ [x])"
      using kept(2,3) by (simp_all add: waits_def)
    then show ?thesis by blast
  next
    case (ticked h')
    from snoc.IH [OF ticked(1)] obtain pre e mid where mid: "es = pre @ e # mid" "waits ticks L I (ht_conn_pair h') e mid"
      "ht_ticks_to_close h' = ticks - ticks_in mid" by blast
    have h: "ht_conn_pair h = ht_conn_pair h'" "ht_ticks_to_close h = ht_ticks_to_close h' - 1" "0 < ht_ticks_to_close h' - 1"
      using ticked(2) by (auto simp: pair_tick_def split: if_splits)
    have "waits ticks L I (ht_conn_pair h) e (mid @ [x])"
      using mid(2,3) h(1,3) ticked(3) by (intro waits_snoc) auto
    moreover have "ht_ticks_to_close h = ticks - ticks_in (mid @ [x])" "es @ [x] = pre @ e # (mid @ [x])"
      using mid(1,3) h(2) ticked(4) by (simp_all add: ticks_in_snoc)
    ultimately show ?thesis by blast
  qed
qed

lemma pair_step_tunnels:
  assumes "t \<in> set (pr_tunnels (pair_step ticks L I e p))"
  obtains (old) "t \<in> set (pr_tunnels p)"
  | (new) h acc where "pr_half p = Some h" "accept_request L I e = Some acc"
      "t = (cp_receiver acc, cp_sender (ht_conn_pair h), cp_receiver (ht_conn_pair h), cp_sender acc)"
proof (cases "\<exists>h acc. pr_half p = Some h \<and> accept_request L I e = Some acc")
  case True
  then obtain h acc where "pr_half p = Some h" "accept_request L I e = Some acc" by blast
  then show thesis using assms that(1) that(2) [of h acc]
    by (cases "snd e")
       (auto simp: pair_step_def pair_accept_def accept_request_def split: incoming_conn_inner.splits if_splits)
next
  case False
  then show thesis using assms old
    by (cases "snd e")
       (auto simp: pair_step_def pair_accept_def pair_connect_def accept_request_def
        split: incoming_conn_inner.splits if_splits option.splits)
qed

text \<open>A tunnel joins a connection that asked for the listener with a connection by which the listener accepted.\<close>

definition joined ::
  "nat \<Rightarrow> public_key \<Rightarrow> public_key \<Rightarrow> (relay_io \<times> ('m, 'k) relay_server_event) list \<Rightarrow> 'm \<times> 'k \<times> 'm \<times> 'k \<Rightarrow> bool" where
  "joined ticks L I es t \<longleftrightarrow>
     (\<exists>pre e mid a post cp acc. es = pre @ e # mid @ a # post \<and> waits ticks L I cp e mid \<and> accept_request L I a = Some acc
       \<and> t = (cp_receiver acc, cp_sender cp, cp_receiver cp, cp_sender acc))"

lemma joined_accepted: "joined ticks L I es t \<Longrightarrow> \<exists>a \<in> set es. \<exists>acc. accept_request L I a = Some acc"
  unfolding joined_def by (elim exE conjE) (rule bexI, assumption | force)+

lemma joined_snoc: "joined ticks L I es t \<Longrightarrow> joined ticks L I (es @ [x]) t"
proof -
  assume "joined ticks L I es t"
  then obtain pre e mid a post cp acc where *: "es = pre @ e # mid @ a # post" "waits ticks L I cp e mid"
    "accept_request L I a = Some acc" "t = (cp_receiver acc, cp_sender cp, cp_receiver cp, cp_sender acc)"
    unfolding joined_def by blast
  then have "es @ [x] = pre @ e # mid @ a # (post @ [x])" by simp
  then show ?thesis unfolding joined_def using *(2-4) by blast
qed

lemma pair_tunnels_joined: "t \<in> set (pr_tunnels (pair_run ticks L I es)) \<Longrightarrow> joined ticks L I es t"
proof (induction es rule: rev_induct)
  case Nil
  then show ?case by (simp add: pair_run_def pair_new_def)
next
  case (snoc x es)
  from snoc.prems [unfolded pair_run_snoc] show ?case
  proof (cases rule: pair_step_tunnels)
    case old
    then show ?thesis using snoc.IH joined_snoc by blast
  next
    case (new h acc)
    from pair_half_history [OF new(1)] obtain pre e mid where "es = pre @ e # mid" "waits ticks L I (ht_conn_pair h) e mid" by blast
    then have "es @ [x] = pre @ e # mid @ x # []" "waits ticks L I (ht_conn_pair h) e mid" by simp_all
    then show ?thesis unfolding joined_def using new(2,3) by blast
  qed
qed

section \<open>Properties\<close>

text \<open>
  C22: For every listener and every node that asks for it, the relay server does what the machine
  for this one pair of keys does, whatever other nodes do at the same time: it tells the listener, keeps
  the connection waiting for \<open>half_tunnel_ticks\<close>, and joins it when the listener accepts.
\<close>

theorem relay_serves_pairs:
  assumes "relay_server_loop timer half_tunnel_ticks es = Ok (Next s)"
  shows "pair_view L I s = pair_run half_tunnel_ticks L I es"
  using loop_view [OF assms] by simp

definition ok_io :: relay_io where
  "ok_io = \<lparr> ri_spawn = True, ri_try_send = True \<rparr>"

definition listen_conn :: "public_key \<Rightarrow> nat \<Rightarrow> relay_io \<times> (nat, nat) relay_server_event" where
  "listen_conn L c = (ok_io, RsIncomingConn \<lparr> in_public_key = L, in_inner = InnerListen \<lparr> il_receiver = c, il_sender = c \<rparr> \<rparr>)"

definition connect_conn :: "public_key \<Rightarrow> public_key \<Rightarrow> nat \<Rightarrow> relay_io \<times> (nat, nat) relay_server_event" where
  "connect_conn I L c =
     (ok_io, RsIncomingConn \<lparr> in_public_key = I, in_inner = InnerConnect \<lparr> ic_receiver = c, ic_sender = c, ic_connect_public_key = L \<rparr> \<rparr>)"

definition accept_conn :: "public_key \<Rightarrow> public_key \<Rightarrow> nat \<Rightarrow> relay_io \<times> (nat, nat) relay_server_event" where
  "accept_conn L I c =
     (ok_io, RsIncomingConn \<lparr> in_public_key = L, in_inner = InnerAccept \<lparr> ia_receiver = c, ia_sender = c, ia_accept_public_key = I \<rparr> \<rparr>)"

lemmas conn_defs = listen_conn_def connect_conn_def accept_conn_def ok_io_def

text \<open>Node 2 is joined with the listener 1; node 3 comes too early, and node 4 is not accepted in time.\<close>

definition example_relay_events :: "(relay_io \<times> (nat, nat) relay_server_event) list" where
  "example_relay_events =
     [connect_conn [3] [1] 9, listen_conn [1] 10, connect_conn [2] [1] 11, (ok_io, RsTimerTick), accept_conn [1] [2] 12,
      connect_conn [4] [1] 13, (ok_io, RsTimerTick), (ok_io, RsTimerTick), accept_conn [1] [4] 14]"

definition example_relay_state :: "(nat, nat) relay_server" where
  "example_relay_state =
     \<lparr> rs_incoming_conns_closed = False, rs_listeners = [([1], \<lparr> rl_half_tunnels = [], rl_tunnels = [], rl_opt_sender = Some 10 \<rparr>)],
       rs_out = [SpawnListener [1] 10 10, SendIncomingConnection [1] 10 [2],
         SpawnTunnel 12 11 11 12 \<lparr> tl_init_public_key = [2], tl_listen_public_key = [1] \<rparr>, SendIncomingConnection [1] 10 [4]] \<rparr>"

lemma example_relay_run: "relay_server_loop True 2 example_relay_events = Ok (Next example_relay_state)"
  by code_simp

theorem relay_serves_pairs_witness:
  "pair_view [1] [2] example_relay_state = pair_run 2 [1] [2] example_relay_events
   \<and> pr_tunnels (pair_run 2 [1] [2] example_relay_events) = [(12, 11, 11, 12)]
   \<and> pr_tunnels (pair_run 2 [1] [4] example_relay_events) = []"
proof -
  have "pr_tunnels (pair_run 2 [1] [2] example_relay_events) = [(12, 11, 11, 12)]" by code_simp
  moreover have "pr_tunnels (pair_run 2 [1] [4] example_relay_events) = []" by code_simp
  ultimately show ?thesis using relay_serves_pairs [OF example_relay_run, of "[1]" "[2]"] by simp
qed

lemma relay_server_rounds_append:
  "relay_server_rounds ticks es s = Ok (Next s') \<Longrightarrow> relay_server_rounds ticks (es @ es') s = relay_server_rounds ticks es' s'"
proof (induction es arbitrary: s)
  case (Cons e es)
  obtain f where "relay_server_event_step ticks e s = Ok f" using Cons.prems by (auto simp: res_simps)
  then show ?case using Cons by (cases f) (auto split: if_splits)
qed simp

text \<open>
  The tunnels of a listener are never noted down, so the check that refuses a second
  connection of a node which has a tunnel already never applies: whatever tunnels there are, a node
  that asks again while the listener listens is announced again and joined again.
\<close>

theorem relay_forgets_tunnels:
  assumes run: "relay_server_loop timer half_tunnel_ticks es = Ok (Next s)"
    and listening: "pr_listening (pair_view L I s) = Some k" and free: "pr_half (pair_view L I s) = None"
  shows "\<exists>s'. relay_server_loop timer half_tunnel_ticks (es @ [connect_conn I L c, accept_conn L I a]) = Ok (Next s')
    \<and> tunnels_between L I (rs_out s') = tunnels_between L I (rs_out s) @ [(a, c, c, a)]
    \<and> told L I (rs_out s') = told L I (rs_out s) @ [k]"
proof -
  have s: "relay_server_rounds half_tunnel_ticks es relay_server_new = Ok (Next s)" and timer
    using run by (simp_all add: relay_server_loop_def split: if_splits)
  obtain l where l: "hm_get (rs_listeners s) L = Some l" "rl_opt_sender l = Some k" "hm_get (rl_half_tunnels l) I = None"
    using listening free by (auto simp: pair_view_def bind_eq_Some_conv)
  have "rl_tunnels l = []" using loop_view [OF run] l(1) relay_ok_listener(4) by blast
  with l \<open>timer\<close> show ?thesis
    by (auto simp: relay_server_loop_def relay_server_rounds_append [OF s] relay_server_event_step_def handle_incoming_connect_def
        handle_accept_def conn_defs rs_emit_def set_listener_def hm_contains_def hm_get_insert hm_get_remove hm_insert_not_Nil Let_def
        told_def tunnels_between_def List.map_filter_def)
qed

theorem relay_forgets_tunnels_witness:
  "\<exists>s'. relay_server_loop True 2 (example_relay_events @ [connect_conn [2] [1] 15, accept_conn [1] [2] 16]) = Ok (Next s')
    \<and> tunnels_between [1] [2] (rs_out s') = [(12, 11, 11, 12), (16, 15, 15, 16)]"
proof -
  have "pr_listening (pair_view [1] [2] example_relay_state) = Some 10" "pr_half (pair_view [1] [2] example_relay_state) = None"
    "tunnels_between [1] [2] (rs_out example_relay_state) = [(12, 11, 11, 12)]" by code_simp+
  then show ?thesis using relay_forgets_tunnels [OF example_relay_run, of "[1]" "[2]" 10 15 16] by auto
qed

end
