(* ===== verification/RelayClient.thy ===== *)
theory RelayClient
  imports RelayServer ListenPool
begin

text \<open>
  The other parts of a connection over a relay: how the relay reads the first message of a connection
  (\<open>relay/src/server/conn_processor.rs\<close>), how a node asks for another (\<open>relay/src/client/client_connector.rs\<close>),
  and how a node listens and accepts (\<open>relay/src/client/client_listener.rs\<close>).

  The conversions to and from bytes and the keepalive transformation of a connection are arguments.
  What a task meets is an argument as well: whether a channel or connection takes a message,
  whether a timer or a task can be had, and whether an answer comes before the timeout.
\<close>

section \<open>Messages\<close>

datatype init_connection = InitListen | InitAccept public_key | InitConnect public_key

text \<open>An answer that is waited for with a timeout.\<close>

datatype 'a timed = InTime 'a | TimedOut

section \<open>First messages at the relay\<close>

definition dispatch_conn ::
  "(bytes \<Rightarrow> init_connection option) \<Rightarrow> ('m \<times> 'k \<Rightarrow> 'm \<times> 'k) \<Rightarrow> 'm \<times> 'k \<Rightarrow> public_key \<Rightarrow> bytes \<Rightarrow> ('m, 'k) incoming_conn option" where
  "dispatch_conn deserialize_init_connection keepalive_transform conn public_key first_msg =
     (let (receiver, sender) = keepalive_transform conn
      in case deserialize_init_connection first_msg of
           None \<Rightarrow> None
         | Some init \<Rightarrow>
             Some \<lparr> in_public_key = public_key,
               in_inner =
                 (case init of
                    InitListen \<Rightarrow> InnerListen \<lparr> il_receiver = receiver, il_sender = sender \<rparr>
                  | InitAccept accept_public_key \<Rightarrow>
                      InnerAccept \<lparr> ia_receiver = receiver, ia_sender = sender, ia_accept_public_key = accept_public_key \<rparr>
                  | InitConnect connect_public_key \<Rightarrow>
                      InnerConnect \<lparr> ic_receiver = receiver, ic_sender = sender, ic_connect_public_key = connect_public_key \<rparr>) \<rparr>)"

text \<open>The rejections a listener sends, up to the first frame that is none, and then its end.\<close>

definition listener_events ::
  "(bytes \<Rightarrow> public_key option) \<Rightarrow> public_key \<Rightarrow> bytes list \<Rightarrow> ('m, 'k) relay_server_event list" where
  "listener_events deserialize_reject_connection public_key frames =
     map (\<lambda>r. RsListenerMessage public_key (the r)) (takeWhile (\<lambda>r. r \<noteq> None) (map deserialize_reject_connection frames))
     @ [RsListenerClosed public_key]"

text \<open>The first frame of the connection, if it comes in time; a connection can end without one.\<close>

definition process_conn ::
  "(bytes \<Rightarrow> init_connection option) \<Rightarrow> ('m \<times> 'k \<Rightarrow> 'm \<times> 'k) \<Rightarrow> bool \<Rightarrow> public_key \<Rightarrow> 'm \<times> 'k \<Rightarrow> bytes option timed
     \<Rightarrow> (('m, 'k) incoming_conn option, unit) res" where
  "process_conn deserialize_init_connection keepalive_transform timer public_key conn first =
     (if \<not> timer then Panic
      else
        Ok (case first of
              InTime (Some first_msg) \<Rightarrow> dispatch_conn deserialize_init_connection keepalive_transform conn public_key first_msg
            | InTime None \<Rightarrow> None
            | TimedOut \<Rightarrow> None))"

text \<open>The connections are processed one after the other.\<close>

fun conn_processor ::
  "(bytes \<Rightarrow> init_connection option) \<Rightarrow> ('m \<times> 'k \<Rightarrow> 'm \<times> 'k) \<Rightarrow> (bool \<times> public_key \<times> ('m \<times> 'k) \<times> bytes option timed) list
     \<Rightarrow> (('m, 'k) incoming_conn list, unit) res" where
  "conn_processor d t [] = Ok []"
| "conn_processor d t ((timer, public_key, conn, first) # conns) =
     res_bind (process_conn d t timer public_key conn first) (\<lambda>opt_conn.
       res_bind (conn_processor d t conns) (\<lambda>rest.
         Ok (case opt_conn of Some c \<Rightarrow> c # rest | None \<Rightarrow> rest)))"

section \<open>The connector\<close>

datatype client_connector_error = InnerConnectorError | CcSendInitConnectionError

text \<open>The first frame that is sent, and the connection for the user.\<close>

definition relay_connect ::
  "(init_connection \<Rightarrow> bytes) \<Rightarrow> ('c \<Rightarrow> 'c) \<Rightarrow> 'c option \<Rightarrow> bool \<Rightarrow> public_key \<Rightarrow> (bytes \<times> 'c, client_connector_error) res" where
  "relay_connect serialize_init_connection keepalive_transform connected sent remote_public_key =
     res_bind (ok_or connected InnerConnectorError) (\<lambda>conn.
       if \<not> sent then Err CcSendInitConnectionError
       else Ok (serialize_init_connection (InitConnect remote_public_key), keepalive_transform conn))"

definition client_connector_transform ::
  "(init_connection \<Rightarrow> bytes) \<Rightarrow> ('c \<Rightarrow> 'c) \<Rightarrow> 'c option \<Rightarrow> bool \<Rightarrow> public_key \<Rightarrow> (bytes \<times> 'c) option" where
  "client_connector_transform serialize_init_connection keepalive_transform connected sent remote_public_key =
     (case relay_connect serialize_init_connection keepalive_transform connected sent remote_public_key of
        Ok r \<Rightarrow> Some r
      | _ \<Rightarrow> None)"

section \<open>The listener\<close>

datatype client_listener_error = SendInitConnectionError | ConnectionFailure | SendToServerError | ClSpawnError

datatype client_listener_event =
    ClAccessControlOp "public_key access_control_op"
  | ClAccessControlClosed
  | ClServerMessage public_key
  | ClServerClosed
  | ClPendingReject public_key

datatype accept_connection_error =
    ConnectionFailed | PendingRejectSenderError | AcSendInitConnectionError | SendConnPairError | AcRequestTimerStreamError

datatype 'c accept_output =
    AcPendingReject public_key
  | AcFirstFrame 'c bytes
  | AcConnection public_key 'c

record 'c accept_io =
  ai_timer :: bool
  ai_connect :: "'c option timed"
  ai_pending_reject :: bool
  ai_send_init :: bool
  ai_send_connection :: bool

definition connect_with_timeout :: "'c option timed \<Rightarrow> 'c option" where
  "connect_with_timeout answer = (case answer of InTime opt_conn \<Rightarrow> opt_conn | TimedOut \<Rightarrow> None)"

definition send_pending_reject ::
  "'c accept_io \<Rightarrow> public_key \<Rightarrow> accept_connection_error \<Rightarrow> 'c accept_output list \<times> (unit, accept_connection_error) res" where
  "send_pending_reject io public_key e =
     (if ai_pending_reject io then ([AcPendingReject public_key], Err e) else ([], Err PendingRejectSenderError))"

definition accept_connection ::
  "(init_connection \<Rightarrow> bytes) \<Rightarrow> ('c \<Rightarrow> 'c) \<Rightarrow> 'c accept_io \<Rightarrow> public_key
     \<Rightarrow> 'c accept_output list \<times> (unit, accept_connection_error) res" where
  "accept_connection serialize_init_connection keepalive_transform io public_key =
     (if \<not> ai_timer io then ([], Err AcRequestTimerStreamError)
      else
        case connect_with_timeout (ai_connect io) of
          None \<Rightarrow> send_pending_reject io public_key ConnectionFailed
        | Some conn \<Rightarrow>
            if \<not> ai_send_init io then send_pending_reject io public_key AcSendInitConnectionError
            else
              (let first = AcFirstFrame conn (serialize_init_connection (InitAccept public_key))
               in if ai_send_connection io then ([first, AcConnection public_key (keepalive_transform conn)], Ok ())
                  else ([first], Err SendConnPairError)))"

datatype client_listener_output =
    ClFirstFrame bytes
  | ClReject public_key
  | ClAcceptTask public_key

record client_listener =
  cl_access_control :: "public_key access_control"
  cl_out :: "client_listener_output list"

record client_listener_io =
  li_send :: bool
  li_spawn :: bool

definition cl_send ::
  "bool \<Rightarrow> client_listener_error \<Rightarrow> client_listener_output \<Rightarrow> client_listener
     \<Rightarrow> (client_listener loop_flow, client_listener_error) res" where
  "cl_send ok e m s = (if ok then Ok (Next (s\<lparr> cl_out := cl_out s @ [m] \<rparr>)) else Err e)"

definition client_listener_step ::
  "client_listener_io \<times> client_listener_event \<Rightarrow> client_listener \<Rightarrow> (client_listener loop_flow, client_listener_error) res" where
  "client_listener_step e s =
     (case snd e of
        ClAccessControlOp access_control_op \<Rightarrow> Ok (Next (s\<lparr> cl_access_control := apply_op access_control_op (cl_access_control s) \<rparr>))
      | ClServerMessage public_key \<Rightarrow>
          if \<not> is_allowed (cl_access_control s) public_key
          then cl_send (li_send (fst e)) SendToServerError (ClReject public_key) s
          else cl_send (li_spawn (fst e)) ClSpawnError (ClAcceptTask public_key) s
      | ClPendingReject public_key \<Rightarrow> cl_send (li_send (fst e)) SendToServerError (ClReject public_key) s
      | ClServerClosed \<Rightarrow> Ok (Break s)
      | ClAccessControlClosed \<Rightarrow> Ok (Break s))"

fun client_listener_rounds ::
  "(client_listener_io \<times> client_listener_event) list \<Rightarrow> client_listener \<Rightarrow> (client_listener loop_flow, client_listener_error) res" where
  "client_listener_rounds [] s = Ok (Next s)"
| "client_listener_rounds (e # es) s =
     res_bind (client_listener_step e s) (\<lambda>flow.
       case flow of
         Break s \<Rightarrow> Ok (Break s)
       | _ \<Rightarrow> client_listener_rounds es (flow_state flow))"

definition inner_client_listener ::
  "(init_connection \<Rightarrow> bytes) \<Rightarrow> 'c option \<Rightarrow> bool \<Rightarrow> public_key access_control \<Rightarrow> (client_listener_io \<times> client_listener_event) list
     \<Rightarrow> (client_listener loop_flow, client_listener_error) res" where
  "inner_client_listener serialize_init_connection connected sent access_control es =
     res_bind (ok_or connected ConnectionFailure) (\<lambda>_.
       if \<not> sent then Err SendInitConnectionError
       else client_listener_rounds es
         \<lparr> cl_access_control = access_control, cl_out = [ClFirstFrame (serialize_init_connection InitListen)] \<rparr>)"

text \<open>The messages of the relay, up to the first frame that is none, and then its end.\<close>

definition server_events :: "(bytes \<Rightarrow> public_key option) \<Rightarrow> bytes list \<Rightarrow> client_listener_event list" where
  "server_events deserialize_incoming_connection frames =
     map (\<lambda>r. ClServerMessage (the r)) (takeWhile (\<lambda>r. r \<noteq> None) (map deserialize_incoming_connection frames)) @ [ClServerClosed]"

section \<open>Access control of the listener\<close>

definition access_ops :: "(client_listener_io \<times> client_listener_event) list \<Rightarrow> public_key access_control_op list" where
  "access_ops es = List.map_filter (\<lambda>e. case snd e of ClAccessControlOp x \<Rightarrow> Some x | _ \<Rightarrow> None) es"

text \<open>A node that the relay announced when the access control allowed it.\<close>

definition admitted :: "public_key access_control \<Rightarrow> (client_listener_io \<times> client_listener_event) list \<Rightarrow> public_key \<Rightarrow> bool" where
  "admitted access_control es pk \<longleftrightarrow>
     (\<exists>pre io post. es = pre @ (io, ClServerMessage pk) # post \<and> is_allowed (fold apply_op (access_ops pre) access_control) pk)"

lemma access_ops_snoc:
  "access_ops (es @ [e]) = access_ops es @ (case snd e of ClAccessControlOp x \<Rightarrow> [x] | _ \<Rightarrow> [])"
  by (simp add: access_ops_def List.map_filter_def split: client_listener_event.splits)

lemma access_ops_Nil [simp]: "access_ops [] = []"
  by (simp add: access_ops_def List.map_filter_def)

lemma admitted_append: "admitted ac es pk \<Longrightarrow> admitted ac (es @ es') pk"
  unfolding admitted_def by (metis append.assoc append_Cons)

lemma admitted_last: "is_allowed (fold apply_op (access_ops es) ac) pk \<Longrightarrow> admitted ac (es @ [(io, ClServerMessage pk)]) pk"
  unfolding admitted_def by blast

definition cl_inv :: "public_key access_control \<Rightarrow> (client_listener_io \<times> client_listener_event) list \<Rightarrow> client_listener \<Rightarrow> bool" where
  "cl_inv ac es s \<longleftrightarrow>
     cl_access_control s = fold apply_op (access_ops es) ac \<and> (\<forall>pk. ClAcceptTask pk \<in> set (cl_out s) \<longrightarrow> admitted ac es pk)"

lemma cl_step_inv:
  "cl_inv ac past s \<Longrightarrow> client_listener_step e s = Ok f \<Longrightarrow> cl_inv ac (past @ [e]) (flow_state f)"
  by (cases e; cases "snd e")
     (auto simp: cl_inv_def client_listener_step_def cl_send_def access_ops_snoc admitted_append intro: admitted_last split: if_splits)

lemma cl_rounds_inv:
  "cl_inv ac past s \<Longrightarrow> client_listener_rounds es s = Ok f \<Longrightarrow>
     \<forall>pk. ClAcceptTask pk \<in> set (cl_out (flow_state f)) \<longrightarrow> admitted ac (past @ es) pk"
proof (induction es arbitrary: past s)
  case Nil
  then show ?case by (auto simp: cl_inv_def)
next
  case (Cons e es)
  obtain g where g: "client_listener_step e s = Ok g" using Cons.prems(2) by (auto simp: res_simps)
  note inv = cl_step_inv [OF Cons.prems(1) g]
  show ?case
  proof (cases g)
    case (Break s')
    then show ?thesis using Cons.prems(2) g inv admitted_append [of ac "past @ [e]" _ es] by (auto simp: cl_inv_def)
  qed (use Cons.IH [OF inv] Cons.prems(2) g in auto)
qed

lemma listener_tasks_admitted:
  assumes "inner_client_listener ser connected sent access_control ces = Ok f" "ClAcceptTask pk \<in> set (cl_out (flow_state f))"
  shows "admitted access_control ces pk"
proof -
  let ?s = "\<lparr> cl_access_control = access_control, cl_out = [ClFirstFrame (ser InitListen)] \<rparr>"
  have "client_listener_rounds ces ?s = Ok f"
    using assms(1) by (auto simp: inner_client_listener_def res_simps split: if_splits)
  moreover have "cl_inv access_control [] ?s" by (simp add: cl_inv_def)
  ultimately show ?thesis using cl_rounds_inv [of access_control "[]" ?s ces f] assms(2) by simp
qed

section \<open>Properties\<close>

text \<open>
  C21: A node is connected with a listener only by the will of both. Each tunnel of the relay
  between the keys \<open>I\<close> and \<open>L\<close> joins a connection on which \<open>I\<close> asked for \<open>L\<close> with a later one on which \<open>L\<close>
  accepted \<open>I\<close>; in between \<open>I\<close> was not rejected, the listener did not leave, and fewer ticks than
  the limit went by. If \<open>L\<close> opens such connections in the tasks of its client listener
  only, then its access control allowed \<open>I\<close> when the relay announced it.
\<close>

theorem tunnel_needs_consent:
  assumes relay: "relay_server_loop timer half_tunnel_ticks es = Ok (Next s)"
    and tunnel: "t \<in> set (tunnels_between L I (rs_out s))"
    and client: "inner_client_listener ser connected sent access_control ces = Ok f"
    and opened: "\<And>e i acc. e \<in> set es \<Longrightarrow> accept_request L i e = Some acc \<Longrightarrow> ClAcceptTask i \<in> set (cl_out (flow_state f))"
  shows "joined half_tunnel_ticks L I es t \<and> admitted access_control ces I"
proof -
  have "pr_tunnels (pair_view L I s) = tunnels_between L I (rs_out s)" by (simp add: pair_view_def)
  with tunnel loop_view [OF relay, of L I] have joined: "joined half_tunnel_ticks L I es t" by (simp add: pair_tunnels_joined)
  then obtain a acc where "a \<in> set es" "accept_request L I a = Some acc" using joined_accepted by blast
  then show ?thesis using joined listener_tasks_admitted [OF client] opened by blast
qed

definition example_client_events :: "(client_listener_io \<times> client_listener_event) list" where
  "example_client_events =
     map (Pair \<lparr> li_send = True, li_spawn = True \<rparr>)
       [ClServerMessage [3], ClAccessControlOp (AccessAdd [2]), ClAccessControlOp (AccessAdd [4]), ClServerMessage [2],
        ClAccessControlOp (AccessRemove [2]), ClServerMessage [4], ClServerMessage [2]]"

definition example_client :: client_listener where
  "example_client = \<lparr> cl_access_control = [[4]],
     cl_out = [ClFirstFrame [0], ClReject [3], ClAcceptTask [2], ClAcceptTask [4], ClReject [2]] \<rparr>"

lemma example_client_run:
  "inner_client_listener (\<lambda>_. [0]) (Some (0::nat)) True access_control_new example_client_events = Ok (Next example_client)"
  by code_simp

lemma example_relay_accepts:
  "e \<in> set example_relay_events \<Longrightarrow> accept_request [1] i e = Some acc \<Longrightarrow> i = [2] \<or> i = [4]"
  by (auto simp: example_relay_events_def conn_defs accept_request_def split: if_splits)

theorem tunnel_needs_consent_witness:
  "joined 2 [1] [2] example_relay_events (12, 11, 11, 12) \<and> admitted access_control_new example_client_events [2]"
proof (rule tunnel_needs_consent [OF example_relay_run _ example_client_run])
  show "(12, 11, 11, 12) \<in> set (tunnels_between [1] [2] (rs_out example_relay_state))" by code_simp
  show "ClAcceptTask i \<in> set (cl_out (flow_state (Next example_client)))"
    if "e \<in> set example_relay_events" "accept_request [1] i e = Some acc" for e i acc
    using example_relay_accepts [OF that] by (auto simp: example_client_def)
qed

text \<open>
  The first frames that the two sides send are read by the relay as what they mean, with a
  serialization whose reading inverts its writing.
\<close>

lemma first_frames_dispatched:
  assumes "\<And>x. deser (ser x) = Some x"
    and "relay_connect ser t (Some conn) True L = Ok (frame, conn')"
    and "(AcFirstFrame conn2 frame2) \<in> set (fst (accept_connection ser t' io I))"
  shows "\<exists>c a. process_conn deser id True I (m, k) (InTime (Some frame)) = Ok (Some c)
      \<and> process_conn deser id True L (m2, k2) (InTime (Some frame2)) = Ok (Some a)
      \<and> connect_request L I (io', RsIncomingConn c) = Some \<lparr> cp_receiver = m, cp_sender = k \<rparr>
      \<and> accept_request L I (io', RsIncomingConn a) = Some \<lparr> cp_receiver = m2, cp_sender = k2 \<rparr>"
  using assms
  by (auto simp: relay_connect_def accept_connection_def send_pending_reject_def process_conn_def dispatch_conn_def
      connect_request_def accept_request_def Let_def split: if_splits option.splits)

end
