(* ===== verification/Keepalive.thy ===== *)
theory Keepalive
  imports Prelude
begin

text \<open>
  The keepalive of a connection (\<open>keepalive/src/keepalive.rs\<close>, \<open>proto/src/keepalive/messages.rs\<close>): an end that
  has sent nothing for half of \<open>keepalive_ticks\<close> sends an empty message, and an end that has
  received nothing for \<open>keepalive_ticks\<close> gives the connection up.

  The conversions to and from bytes are arguments. An event comes with the answer to the message
  that it may send: whether the sink took it.
\<close>

section \<open>One end\<close>

datatype ka_message = KaKeepAlive | KaMessage bytes

datatype keepalive_error = RemoteTimeout | DeserializeError

datatype keepalive_event =
    KaTimerTick
  | KaTimerClosed
  | KaRemoteChannelClosed
  | KaUserChannelClosed
  | KaMessageFromRemote bytes
  | KaMessageFromUser bytes

record keepalive =
  ka_ticks_to_close :: nat
  ka_ticks_to_send_keepalive :: nat

datatype ka_output = KaToRemote bytes | KaToUser bytes

definition keepalive_new :: "nat \<Rightarrow> keepalive" where
  "keepalive_new keepalive_ticks =
     \<lparr> ka_ticks_to_close = keepalive_ticks, ka_ticks_to_send_keepalive = keepalive_ticks div 2 \<rparr>"

definition ka_send :: "bool \<Rightarrow> ka_output \<Rightarrow> (keepalive \<Rightarrow> keepalive) \<Rightarrow> keepalive \<Rightarrow> keepalive loop_flow \<times> ka_output list" where
  "ka_send sent m after s = (if sent then (Next (after s), [m]) else (Break s, []))"

definition keepalive_step ::
  "(ka_message \<Rightarrow> bytes) \<Rightarrow> (bytes \<Rightarrow> ka_message option) \<Rightarrow> nat \<Rightarrow> bool \<times> keepalive_event \<Rightarrow> keepalive
     \<Rightarrow> (keepalive loop_flow \<times> ka_output list, keepalive_error) res" where
  "keepalive_step serialize_ka_message deserialize_ka_message keepalive_ticks e s =
     (case snd e of
        KaMessageFromRemote ser_ka_message \<Rightarrow>
          res_bind (ok_or (deserialize_ka_message ser_ka_message) DeserializeError) (\<lambda>ka_message.
            let s = s\<lparr> ka_ticks_to_close := keepalive_ticks \<rparr>
            in case ka_message of
                 KaMessage message \<Rightarrow> Ok (ka_send (fst e) (KaToUser message) id s)
               | KaKeepAlive \<Rightarrow> Ok (Next s, []))
      | KaMessageFromUser message \<Rightarrow>
          Ok (ka_send (fst e) (KaToRemote (serialize_ka_message (KaMessage message)))
            (\<lambda>s. s\<lparr> ka_ticks_to_send_keepalive := keepalive_ticks div 2 \<rparr>) s)
      | KaTimerTick \<Rightarrow>
          (let s = s\<lparr> ka_ticks_to_close := ka_ticks_to_close s - 1,
                      ka_ticks_to_send_keepalive := ka_ticks_to_send_keepalive s - 1 \<rparr>
           in if ka_ticks_to_close s = 0 then Err RemoteTimeout
              else if ka_ticks_to_send_keepalive s = 0
              then Ok (ka_send (fst e) (KaToRemote (serialize_ka_message KaKeepAlive))
                (\<lambda>s. s\<lparr> ka_ticks_to_send_keepalive := keepalive_ticks div 2 \<rparr>) s)
              else Ok (Next s, []))
      | KaTimerClosed \<Rightarrow> Ok (Break s, [])
      | KaRemoteChannelClosed \<Rightarrow> Ok (Break s, [])
      | KaUserChannelClosed \<Rightarrow> Ok (Break s, []))"

fun keepalive_rounds ::
  "(ka_message \<Rightarrow> bytes) \<Rightarrow> (bytes \<Rightarrow> ka_message option) \<Rightarrow> nat \<Rightarrow> (bool \<times> keepalive_event) list \<Rightarrow> keepalive
     \<Rightarrow> (keepalive loop_flow \<times> ka_output list, keepalive_error) res" where
  "keepalive_rounds ser deser keepalive_ticks [] s = Ok (Next s, [])"
| "keepalive_rounds ser deser keepalive_ticks (e # es) s =
     res_bind (keepalive_step ser deser keepalive_ticks e s) (\<lambda>(flow, out).
       case flow of
         Break s \<Rightarrow> Ok (Break s, out)
       | _ \<Rightarrow>
           res_bind (keepalive_rounds ser deser keepalive_ticks es (flow_state flow)) (\<lambda>(flow, out').
             Ok (flow, out @ out')))"

definition inner_keepalive_loop ::
  "(ka_message \<Rightarrow> bytes) \<Rightarrow> (bytes \<Rightarrow> ka_message option) \<Rightarrow> nat \<Rightarrow> (bool \<times> keepalive_event) list
     \<Rightarrow> (keepalive loop_flow \<times> ka_output list, keepalive_error) res" where
  "inner_keepalive_loop serialize_ka_message deserialize_ka_message keepalive_ticks es =
     keepalive_rounds serialize_ka_message deserialize_ka_message keepalive_ticks es (keepalive_new keepalive_ticks)"

section \<open>Two ends\<close>

text \<open>
  Two loops, with the frames in transit in both directions. A frame has its age in ticks. What was
  given to the users is recorded. The link is the normal case the keepalive is made for, and leaves
  out three things: the clocks of the two ends tick together; the sinks take every message at once,
  so a user that stops reading, and blocks the loop in \<open>to_user.send\<close>, does not occur; and no user
  closes its side. \<open>keepalive_step\<close> itself has the closed ends and the failing sinks.
\<close>

record ka_end =
  ke_loop :: keepalive
  ke_frames :: "(bytes \<times> nat) list"
  ke_user :: "bytes list"

type_synonym ka_link = "ka_end \<times> ka_end"

datatype ka_link_step = LinkTick | LinkUser bool bytes | LinkDeliver bool

definition link_new :: "nat \<Rightarrow> ka_link" where
  "link_new k =
     (let e = \<lparr> ke_loop = keepalive_new k, ke_frames = [], ke_user = [] \<rparr> in (e, e))"

definition remote_frames :: "ka_output list \<Rightarrow> (bytes \<times> nat) list" where
  "remote_frames out = List.map_filter (\<lambda>m. case m of KaToRemote f \<Rightarrow> Some (f, 0) | KaToUser _ \<Rightarrow> None) out"

definition user_messages :: "ka_output list \<Rightarrow> bytes list" where
  "user_messages out = List.map_filter (\<lambda>m. case m of KaToUser b \<Rightarrow> Some b | KaToRemote _ \<Rightarrow> None) out"

text \<open>An end handles an event; there is no value when its loop stops. \<open>ke_frames\<close> are the frames it sent.\<close>

definition end_step ::
  "(ka_message \<Rightarrow> bytes) \<Rightarrow> (bytes \<Rightarrow> ka_message option) \<Rightarrow> nat \<Rightarrow> keepalive_event \<Rightarrow> ka_end \<Rightarrow> ka_end option" where
  "end_step ser deser k ev e =
     (case keepalive_step ser deser k (True, ev) (ke_loop e) of
        Ok (Next s, out) \<Rightarrow>
          Some \<lparr> ke_loop = s, ke_frames = ke_frames e @ remote_frames out, ke_user = ke_user e @ user_messages out \<rparr>
      | _ \<Rightarrow> None)"

definition aged :: "ka_end \<Rightarrow> ka_end" where
  "aged e = e\<lparr> ke_frames := map (\<lambda>(f, age). (f, age + 1)) (ke_frames e) \<rparr>"

definition both :: "'a option \<Rightarrow> 'b option \<Rightarrow> ('a \<times> 'b) option" where
  "both x y = (case x of Some a \<Rightarrow> map_option (Pair a) y | None \<Rightarrow> None)"

text \<open>The first frame of one end arrives at the other.\<close>

definition deliver ::
  "(ka_message \<Rightarrow> bytes) \<Rightarrow> (bytes \<Rightarrow> ka_message option) \<Rightarrow> nat \<Rightarrow> ka_end \<Rightarrow> ka_end \<Rightarrow> (ka_end \<times> ka_end) option" where
  "deliver ser deser k a b =
     (case ke_frames a of
        [] \<Rightarrow> Some (a, b)
      | (f, _) # frames \<Rightarrow> both (Some (a\<lparr> ke_frames := frames \<rparr>)) (end_step ser deser k (KaMessageFromRemote f) b))"

definition link_step ::
  "(ka_message \<Rightarrow> bytes) \<Rightarrow> (bytes \<Rightarrow> ka_message option) \<Rightarrow> nat \<Rightarrow> ka_link_step \<Rightarrow> ka_link \<Rightarrow> ka_link option" where
  "link_step ser deser k st l =
     (case st of
        LinkTick \<Rightarrow> both (end_step ser deser k KaTimerTick (aged (fst l))) (end_step ser deser k KaTimerTick (aged (snd l)))
      | LinkUser first m \<Rightarrow>
          if first then both (end_step ser deser k (KaMessageFromUser m) (fst l)) (Some (snd l))
          else both (Some (fst l)) (end_step ser deser k (KaMessageFromUser m) (snd l))
      | LinkDeliver first \<Rightarrow>
          if first then deliver ser deser k (fst l) (snd l)
          else map_option prod.swap (deliver ser deser k (snd l) (fst l)))"

fun link_run ::
  "(ka_message \<Rightarrow> bytes) \<Rightarrow> (bytes \<Rightarrow> ka_message option) \<Rightarrow> nat \<Rightarrow> ka_link_step list \<Rightarrow> ka_link \<Rightarrow> ka_link option" where
  "link_run ser deser k [] l = Some l"
| "link_run ser deser k (st # sts) l = Option.bind (link_step ser deser k st l) (link_run ser deser k sts)"

text \<open>No frame is in transit for more than \<open>d\<close> ticks.\<close>

definition all_younger :: "nat \<Rightarrow> ka_end \<Rightarrow> bool" where
  "all_younger d e \<longleftrightarrow> (\<forall>(f, age) \<in> set (ke_frames e). age < d)"

fun timely ::
  "(ka_message \<Rightarrow> bytes) \<Rightarrow> (bytes \<Rightarrow> ka_message option) \<Rightarrow> nat \<Rightarrow> nat \<Rightarrow> ka_link_step list \<Rightarrow> ka_link \<Rightarrow> bool" where
  "timely ser deser k d [] l = True"
| "timely ser deser k d (st # sts) l \<longleftrightarrow>
     (st = LinkTick \<longrightarrow> all_younger d (fst l) \<and> all_younger d (snd l))
     \<and> (case link_step ser deser k st l of Some l' \<Rightarrow> timely ser deser k d sts l' | None \<Rightarrow> True)"

section \<open>Invariant\<close>

text \<open>
  How long ago the receiver heard of the sender: not longer than the age of the next frame and the
  time between two frames. The messages among the frames are those that the user still has to get.
\<close>

definition silent_at_most :: "nat \<Rightarrow> ka_end \<Rightarrow> nat" where
  "silent_at_most k a =
     (case ke_frames a of
        [] \<Rightarrow> k div 2 - ka_ticks_to_send_keepalive (ke_loop a)
      | (f, age) # _ \<Rightarrow> age + k div 2)"

definition frame_messages :: "(bytes \<Rightarrow> ka_message option) \<Rightarrow> (bytes \<times> nat) list \<Rightarrow> bytes list" where
  "frame_messages deser frames = List.map_filter (\<lambda>(f, _). case deser f of Some (KaMessage m) \<Rightarrow> Some m | _ \<Rightarrow> None) frames"

definition toward :: "(bytes \<Rightarrow> ka_message option) \<Rightarrow> nat \<Rightarrow> bytes list \<Rightarrow> ka_end \<Rightarrow> ka_end \<Rightarrow> bool" where
  "toward deser k sent a b \<longleftrightarrow>
     0 < ka_ticks_to_send_keepalive (ke_loop a) \<and> ka_ticks_to_send_keepalive (ke_loop a) \<le> k div 2
     \<and> k \<le> ka_ticks_to_close (ke_loop b) + silent_at_most k a
     \<and> (\<forall>(f, age) \<in> set (ke_frames a). deser f \<noteq> None)
     \<and> ke_user b @ frame_messages deser (ke_frames a) = sent"

fun user_sent :: "bool \<Rightarrow> ka_link_step list \<Rightarrow> bytes list" where
  "user_sent first [] = []"
| "user_sent first (LinkUser by_first m # sts) = (if by_first = first then m # user_sent first sts else user_sent first sts)"
| "user_sent first (st # sts) = user_sent first sts"

lemma ka_output_simps [simp]:
  "remote_frames [] = []" "remote_frames [KaToRemote f] = [(f, 0)]" "remote_frames [KaToUser m] = []"
  "user_messages [] = []" "user_messages [KaToRemote f] = []" "user_messages [KaToUser m] = [m]"
  by (simp_all add: remote_frames_def user_messages_def List.map_filter_def)

lemma frame_messages_simps [simp]:
  "frame_messages deser [] = []"
  "frame_messages deser ((f, age) # frames) =
     (case deser f of Some (KaMessage m) \<Rightarrow> [m] | _ \<Rightarrow> []) @ frame_messages deser frames"
  "frame_messages deser (frames @ frames') = frame_messages deser frames @ frame_messages deser frames'"
  by (auto simp: frame_messages_def List.map_filter_def split: option.splits ka_message.splits)

lemma aged_simps [simp]:
  "ke_loop (aged e) = ke_loop e" "ke_user (aged e) = ke_user e"
  "ke_frames (aged e) = map (\<lambda>(f, age). (f, age + 1)) (ke_frames e)"
  by (simp_all add: aged_def)

lemma frame_messages_aged [simp]: "frame_messages deser (map (\<lambda>(f, age). (f, Suc age)) frames) = frame_messages deser frames"
  by (induction frames) (auto split: option.splits ka_message.splits)

lemma both_Some [simp]: "both (Some a) (Some b) = Some (a, b)"
  by (simp add: both_def)

text \<open>What an end does with each event.\<close>

definition ticked :: "(ka_message \<Rightarrow> bytes) \<Rightarrow> nat \<Rightarrow> ka_end \<Rightarrow> ka_end \<Rightarrow> bool" where
  "ticked ser k e e' \<longleftrightarrow>
     ke_user e' = ke_user e \<and> ka_ticks_to_close (ke_loop e') = ka_ticks_to_close (ke_loop e) - 1
     \<and> (if ka_ticks_to_send_keepalive (ke_loop e) \<le> 1
        then ka_ticks_to_send_keepalive (ke_loop e') = k div 2 \<and> ke_frames e' = ke_frames e @ [(ser KaKeepAlive, 0)]
        else ka_ticks_to_send_keepalive (ke_loop e') = ka_ticks_to_send_keepalive (ke_loop e) - 1 \<and> ke_frames e' = ke_frames e)"

lemma end_tick:
  "1 < ka_ticks_to_close (ke_loop e) \<Longrightarrow> \<exists>e'. end_step ser deser k KaTimerTick e = Some e' \<and> ticked ser k e e'"
  by (cases "ka_ticks_to_send_keepalive (ke_loop e) \<le> 1")
     (simp_all add: end_step_def keepalive_step_def ka_send_def ticked_def Let_def)

lemma end_user:
  "end_step ser deser k (KaMessageFromUser m) e =
     Some (e\<lparr> ke_loop := (ke_loop e)\<lparr> ka_ticks_to_send_keepalive := k div 2 \<rparr>, ke_frames := ke_frames e @ [(ser (KaMessage m), 0)] \<rparr>)"
  by (cases e) (simp add: end_step_def keepalive_step_def ka_send_def)

lemma end_remote:
  "deser f = Some m \<Longrightarrow>
     end_step ser deser k (KaMessageFromRemote f) e =
       Some (e\<lparr> ke_loop := (ke_loop e)\<lparr> ka_ticks_to_close := k \<rparr>,
               ke_user := ke_user e @ (case m of KaMessage b \<Rightarrow> [b] | KaKeepAlive \<Rightarrow> []) \<rparr>)"
  by (cases e) (simp add: end_step_def keepalive_step_def ka_send_def split: ka_message.splits)

lemma toward_new: "2 \<le> k \<Longrightarrow> toward deser k [] (fst (link_new k)) (snd (link_new k))"
  by (simp add: toward_def link_new_def keepalive_new_def silent_at_most_def Let_def)

text \<open>A receiver whose sender is in time is not about to give up.\<close>

lemma toward_alive:
  assumes "toward deser k sent a b" "all_younger d a" "d + k div 2 < k" "2 \<le> k"
  shows "1 < ka_ticks_to_close (ke_loop b)"
proof (cases "ke_frames a")
  case Nil
  then show ?thesis using assms(1,4) by (auto simp: toward_def silent_at_most_def)
next
  case (Cons p frames)
  then show ?thesis using assms by (cases p) (auto simp: toward_def silent_at_most_def all_younger_def)
qed

lemma toward_tick:
  assumes "toward deser k sent a b" "\<And>x. deser (ser x) = Some x" "2 \<le> k" "ticked ser k (aged a) a'" "ticked ser k (aged b) b'"
  shows "toward deser k sent a' b'"
proof -
  have "silent_at_most k a + 1 \<le> silent_at_most k a'"
    using assms(1,4) by (cases "ke_frames a") (auto simp: toward_def silent_at_most_def ticked_def split: if_splits)
  then show ?thesis using assms by (auto simp: toward_def ticked_def split: if_splits)
qed

lemma toward_sender:
  assumes "toward deser k sent a b" "\<And>x. deser (ser x) = Some x"
    and "ke_loop a' = (ke_loop a)\<lparr> ka_ticks_to_send_keepalive := k div 2 \<rparr>" "ke_frames a' = ke_frames a @ [(ser (KaMessage m), 0)]"
  shows "toward deser k (sent @ [m]) a' b"
proof -
  have "silent_at_most k a \<le> silent_at_most k a'"
    using assms by (cases "ke_frames a") (auto simp: toward_def silent_at_most_def)
  then show ?thesis using assms by (auto simp: toward_def)
qed

text \<open>What \<open>toward\<close> reads of its two ends.\<close>

lemma toward_cong:
  assumes "toward deser k sent a b" "ke_frames a' = ke_frames a" "ke_user b' = ke_user b"
    "ka_ticks_to_send_keepalive (ke_loop a') = ka_ticks_to_send_keepalive (ke_loop a)"
    "ka_ticks_to_close (ke_loop b') = ka_ticks_to_close (ke_loop b)"
  shows "toward deser k sent a' b'"
  using assms unfolding toward_def silent_at_most_def by presburger

lemma toward_deliver:
  assumes ab: "toward deser k sent a b" and ba: "toward deser k sent' b a" and ser: "\<And>x. deser (ser x) = Some x"
  obtains a' b' where "deliver ser deser k a b = Some (a', b')" "toward deser k sent a' b'" "toward deser k sent' b' a'"
proof (cases "ke_frames a")
  case Nil
  then show thesis using that [of a b] ab ba by (simp add: deliver_def)
next
  case (Cons p frames)
  obtain f age where p: "p = (f, age)" by (cases p)
  obtain m where m: "deser f = Some m" using ab Cons p by (auto simp: toward_def)
  let ?a = "a\<lparr> ke_frames := frames \<rparr>"
  let ?b = "b\<lparr> ke_loop := (ke_loop b)\<lparr> ka_ticks_to_close := k \<rparr>, ke_user := ke_user b @ (case m of KaMessage x \<Rightarrow> [x] | KaKeepAlive \<Rightarrow> []) \<rparr>"
  have "toward deser k sent ?a ?b" using ab Cons p m by (auto simp: toward_def split: ka_message.splits)
  moreover have "toward deser k sent' ?b ?a" using ba by (rule toward_cong) simp_all
  ultimately show thesis using that Cons p by (simp add: deliver_def end_remote [of deser f m, OF m])
qed

definition link_ok :: "(bytes \<Rightarrow> ka_message option) \<Rightarrow> nat \<Rightarrow> bytes list \<Rightarrow> bytes list \<Rightarrow> ka_link \<Rightarrow> bool" where
  "link_ok deser k sent sent' l \<longleftrightarrow> toward deser k sent (fst l) (snd l) \<and> toward deser k sent' (snd l) (fst l)"

lemma link_ok_tick:
  assumes ok: "link_ok deser k sent sent' l" and ser: "\<And>x. deser (ser x) = Some x" and k: "2 \<le> k" "d + k div 2 < k"
    and young: "all_younger d (fst l)" "all_younger d (snd l)"
  shows "\<exists>l'. link_step ser deser k LinkTick l = Some l' \<and> link_ok deser k sent sent' l'"
proof -
  obtain a b where l: "l = (a, b)" by (cases l)
  have ab: "toward deser k sent a b" "toward deser k sent' b a" using ok l by (simp_all add: link_ok_def)
  have "1 < ka_ticks_to_close (ke_loop (aged a))" "1 < ka_ticks_to_close (ke_loop (aged b))"
    using toward_alive [OF ab(1) _ k(2,1)] toward_alive [OF ab(2) _ k(2,1)] young l by simp_all
  then obtain a' b' where "end_step ser deser k KaTimerTick (aged a) = Some a'" "ticked ser k (aged a) a'"
      "end_step ser deser k KaTimerTick (aged b) = Some b'" "ticked ser k (aged b) b'"
    using end_tick by metis
  moreover from this have "toward deser k sent a' b'" "toward deser k sent' b' a'"
    using toward_tick [OF ab(1) ser k(1)] toward_tick [OF ab(2) ser k(1)] by simp_all
  ultimately show ?thesis using l by (simp add: link_step_def link_ok_def)
qed

lemma link_ok_user:
  assumes ok: "link_ok deser k sent sent' l" and ser: "\<And>x. deser (ser x) = Some x"
  shows "\<exists>l'. link_step ser deser k (LinkUser first m) l = Some l'
    \<and> link_ok deser k (sent @ (if first then [m] else [])) (sent' @ (if first then [] else [m])) l'"
proof -
  let ?send = "\<lambda>e. e\<lparr> ke_loop := (ke_loop e)\<lparr> ka_ticks_to_send_keepalive := k div 2 \<rparr>, ke_frames := ke_frames e @ [(ser (KaMessage m), 0)] \<rparr>"
  have ab: "toward deser k sent (fst l) (snd l)" "toward deser k sent' (snd l) (fst l)" using ok by (simp_all add: link_ok_def)
  have "toward deser k (sent @ [m]) (?send (fst l)) (snd l)" "toward deser k (sent' @ [m]) (?send (snd l)) (fst l)"
    using toward_sender [OF ab(1) ser, of "?send (fst l)" m] toward_sender [OF ab(2) ser, of "?send (snd l)" m] by simp_all
  moreover have "toward deser k sent' (snd l) (?send (fst l))" "toward deser k sent (fst l) (?send (snd l))"
    using toward_cong [OF ab(2)] toward_cong [OF ab(1)] by simp_all
  ultimately show ?thesis by (simp add: link_step_def link_ok_def end_user)
qed

lemma link_ok_deliver:
  assumes ok: "link_ok deser k sent sent' l" and ser: "\<And>x. deser (ser x) = Some x"
  shows "\<exists>l'. link_step ser deser k (LinkDeliver first) l = Some l' \<and> link_ok deser k sent sent' l'"
proof -
  have ab: "toward deser k sent (fst l) (snd l)" "toward deser k sent' (snd l) (fst l)" using ok by (simp_all add: link_ok_def)
  obtain a b where "deliver ser deser k (fst l) (snd l) = Some (a, b)" "link_ok deser k sent sent' (a, b)"
    unfolding link_ok_def fst_conv snd_conv by (rule toward_deliver [OF ab ser]) blast
  moreover obtain b' a' where "deliver ser deser k (snd l) (fst l) = Some (b', a')" "link_ok deser k sent sent' (a', b')"
    unfolding link_ok_def fst_conv snd_conv by (rule toward_deliver [OF ab(2,1) ser]) blast
  ultimately show ?thesis by (simp add: link_step_def)
qed

lemma link_run_ok:
  assumes ser: "\<And>x. deser (ser x) = Some x" and k: "2 \<le> k" "d + k div 2 < k"
  shows "link_ok deser k sent sent' l \<Longrightarrow> timely ser deser k d sts l \<Longrightarrow>
    \<exists>l'. link_run ser deser k sts l = Some l' \<and> link_ok deser k (sent @ user_sent True sts) (sent' @ user_sent False sts) l'"
proof (induction sts arbitrary: l sent sent')
  case (Cons st sts)
  show ?case
  proof (cases st)
    case LinkTick
    with Cons.prems obtain l1 where "link_step ser deser k st l = Some l1" "link_ok deser k sent sent' l1"
      using link_ok_tick [OF Cons.prems(1) ser k] by auto
    with Cons LinkTick show ?thesis by simp
  next
    case (LinkUser first m)
    with link_ok_user [OF Cons.prems(1) ser, of first m] obtain l1 where "link_step ser deser k st l = Some l1"
      "link_ok deser k (sent @ (if first then [m] else [])) (sent' @ (if first then [] else [m])) l1" by blast
    with Cons.IH [OF this(2)] Cons.prems LinkUser show ?thesis by (cases first) simp_all
  next
    case (LinkDeliver first)
    with link_ok_deliver [OF Cons.prems(1) ser, of first] obtain l1 where
      "link_step ser deser k st l = Some l1" "link_ok deser k sent sent' l1" by blast
    with Cons LinkDeliver show ?thesis by simp
  qed
qed simp

section \<open>Properties\<close>

text \<open>A remote that sends nothing is given up at the tick number \<open>keepalive_ticks\<close>, and not before.\<close>

definition from_user_or_timer :: "bool \<times> keepalive_event \<Rightarrow> bool" where
  "from_user_or_timer e \<longleftrightarrow> fst e \<and> (case snd e of KaTimerTick \<Rightarrow> True | KaMessageFromUser _ \<Rightarrow> True | _ \<Rightarrow> False)"

definition ka_ticks :: "(bool \<times> keepalive_event) list \<Rightarrow> nat" where
  "ka_ticks es = length (filter (\<lambda>e. snd e = KaTimerTick) es)"

lemma silent_rounds:
  "\<forall>e \<in> set es. from_user_or_timer e \<Longrightarrow> 0 < ka_ticks_to_close s \<Longrightarrow>
     if ka_ticks_to_close s \<le> ka_ticks es then keepalive_rounds ser deser k es s = Err RemoteTimeout
     else \<exists>s' out. keepalive_rounds ser deser k es s = Ok (Next s', out)"
proof (induction es arbitrary: s)
  case Nil
  then show ?case by (simp add: ka_ticks_def)
next
  case (Cons e es)
  have e: "e = (True, KaTimerTick) \<or> (\<exists>m. e = (True, KaMessageFromUser m))"
    using Cons.prems(1) by (cases e) (auto simp: from_user_or_timer_def split: keepalive_event.splits)
  show ?case
  proof (cases "e = (True, KaTimerTick) \<and> ka_ticks_to_close s = 1")
    case True
    then show ?thesis by (simp add: keepalive_step_def ka_ticks_def Let_def)
  next
    case False
    then obtain s' out where s': "keepalive_step ser deser k e s = Ok (Next s', out)"
        "ka_ticks_to_close s' = ka_ticks_to_close s - (if snd e = KaTimerTick then 1 else 0)" "0 < ka_ticks_to_close s'"
      using e Cons.prems(2)
      by (cases "ka_ticks_to_send_keepalive s \<le> 1") (auto simp: keepalive_step_def ka_send_def Let_def)
    show ?thesis using Cons.IH [of s'] Cons.prems s' by (auto simp: ka_ticks_def res_simps)
  qed
qed

lemma silent_remote_given_up:
  assumes "\<forall>e \<in> set es. from_user_or_timer e" "0 < k"
  shows "inner_keepalive_loop ser deser k es = Err RemoteTimeout \<longleftrightarrow> k \<le> ka_ticks es"
  using silent_rounds [OF assms(1), of "keepalive_new k" ser deser k] assms(2)
  by (auto simp: inner_keepalive_loop_def keepalive_new_def split: if_splits)

text \<open>
  C23: Two ends with the same \<open>keepalive_ticks\<close>, at least 2, whose clocks tick together do not give
  each other up, whatever their users send, as long as the users keep reading and do not close and
  a frame is under way for at most \<open>d\<close> ticks, where \<open>d\<close> and half of \<open>keepalive_ticks\<close> are together
  less than \<open>keepalive_ticks\<close>. Each user gets the messages of the other one in order, without the
  empty messages; those that are missing are in transit. An end whose remote sends nothing gives
  it up exactly at the tick number \<open>keepalive_ticks\<close>, whatever its own user sends. (With
  \<open>keepalive_ticks = 1\<close> that is the first tick, before a message of the remote can help.)
\<close>

theorem keepalive_link_lives:
  assumes "\<And>x. deser (ser x) = Some x" and "2 \<le> k" "d + k div 2 < k" and "timely ser deser k d sts (link_new k)"
  shows "(\<exists>a b. link_run ser deser k sts (link_new k) = Some (a, b)
      \<and> ke_user b @ frame_messages deser (ke_frames a) = user_sent True sts
      \<and> ke_user a @ frame_messages deser (ke_frames b) = user_sent False sts)
    \<and> (\<forall>es. (\<forall>e \<in> set es. from_user_or_timer e) \<longrightarrow>
        (inner_keepalive_loop ser deser k es = Err RemoteTimeout \<longleftrightarrow> k \<le> ka_ticks es))"
proof -
  have "link_ok deser k [] [] (link_new k)"
    using toward_new [OF assms(2)] by (simp add: link_ok_def link_new_def Let_def)
  from link_run_ok [OF assms(1-3) this assms(4)] show ?thesis
    using silent_remote_given_up [of _ k ser deser] assms(2) by (auto simp: link_ok_def toward_def)
qed

text \<open>A simple encoding for examples.\<close>

fun example_ser :: "ka_message \<Rightarrow> bytes" where
  "example_ser KaKeepAlive = []"
| "example_ser (KaMessage m) = 1 # m"

fun example_deser :: "bytes \<Rightarrow> ka_message option" where
  "example_deser [] = Some KaKeepAlive"
| "example_deser (b # m) = (if b = 1 then Some (KaMessage m) else None)"

definition example_link_steps :: "ka_link_step list" where
  "example_link_steps = [LinkUser True [7], LinkTick, LinkDeliver True, LinkTick, LinkDeliver True, LinkDeliver False, LinkTick, LinkTick,
     LinkDeliver False, LinkUser False [8], LinkDeliver True]"

theorem keepalive_link_lives_witness:
  "\<exists>a b. link_run example_ser example_deser 4 example_link_steps (link_new 4) = Some (a, b)
    \<and> ke_user b @ frame_messages example_deser (ke_frames a) = [[7]]
    \<and> ke_user a @ frame_messages example_deser (ke_frames b) = [[8]]"
proof -
  have "example_deser (example_ser x) = Some x" for x by (cases x) simp_all
  moreover have "timely example_ser example_deser 4 1 example_link_steps (link_new 4)" by code_simp
  ultimately show ?thesis using keepalive_link_lives [of example_deser example_ser 4 1 example_link_steps]
    by (simp add: example_link_steps_def)
qed

end
