(* ===== verification/Database.thy ===== *)
theory Database
  imports Prelude
begin

text \<open>
  The database of a node: batches of mutations (\<open>common/src/mutable_state.rs\<close>), the file that holds the
  state (\<open>database/src/file_db.rs\<close>, \<open>atomic_db.rs\<close>) and the task that serves requests
  (\<open>database/src/database.rs\<close>).

  The state and its mutations are those of any \<open>MutableState\<close>. The conversions to and from a
  file's contents are arguments. Writing a file is atomic: it succeeds, or it fails with the old or
  with the new contents in place.
\<close>

section \<open>Mutable state\<close>

fun batch_mutate :: "('m \<Rightarrow> 's \<Rightarrow> ('s, 'e) res) \<Rightarrow> 'm list \<Rightarrow> 's \<Rightarrow> ('s, 'e) res" where
  "batch_mutate mutate [] s = Ok s"
| "batch_mutate mutate (m # ms) s = res_bind (mutate m s) (batch_mutate mutate ms)"

lemma batch_mutate_append:
  "batch_mutate mutate (ms @ ns) s = res_bind (batch_mutate mutate ms s) (batch_mutate mutate ns)"
proof (induction ms arbitrary: s)
  case (Cons m ms)
  then show ?case by (cases "mutate m s") simp_all
qed simp

section \<open>The file\<close>

datatype 'e file_db_error =
    OpenError | ReadError | WriteError | FdDeserializeError | FdSerializeError | MutateError 'e | FileAlreadyExists

record 's file_db =
  fd_state :: 's

datatype write_outcome = WriteOk | WriteFailed bool

definition write_file :: "write_outcome \<Rightarrow> 'f \<Rightarrow> 'f option \<Rightarrow> 'f option" where
  "write_file w buff file = (if w = WriteFailed False then file else Some buff)"

text \<open>Each operation gives the file as it leaves it and its result.\<close>

definition file_db_create ::
  "('s \<Rightarrow> 'f option) \<Rightarrow> ('f \<Rightarrow> 's option) \<Rightarrow> write_outcome \<Rightarrow> 's \<Rightarrow> 'f option \<Rightarrow> 'f option \<times> ('s file_db, 'e file_db_error) res" where
  "file_db_create serialize deserialize w initial_state file =
     (if file \<noteq> None then (file, Err FileAlreadyExists)
      else
        case serialize initial_state of
          None \<Rightarrow> (file, Err FdSerializeError)
        | Some buff \<Rightarrow>
            (write_file w buff file,
             if w \<noteq> WriteOk then Err WriteError
             else res_bind (ok_or (deserialize buff) FdDeserializeError) (\<lambda>state. Ok \<lparr> fd_state = state \<rparr>)))"

definition file_db_load :: "('f \<Rightarrow> 's option) \<Rightarrow> bool \<Rightarrow> 'f option \<Rightarrow> ('s file_db, 'e file_db_error) res" where
  "file_db_load deserialize readable file =
     res_bind (ok_or file OpenError) (\<lambda>buff.
       if \<not> readable then Err ReadError
       else res_bind (ok_or (deserialize buff) FdDeserializeError) (\<lambda>state. Ok \<lparr> fd_state = state \<rparr>))"

text \<open>Where a mutation fails, the mutations before it have changed the state in memory.\<close>

fun mutate_state ::
  "('m \<Rightarrow> 's \<Rightarrow> ('s, 'e) res) \<Rightarrow> 'm list \<Rightarrow> 's file_db \<Rightarrow> 's file_db \<times> (unit, 'e file_db_error) res" where
  "mutate_state mutate [] db = (db, Ok ())"
| "mutate_state mutate (m # ms) db =
     (case mutate m (fd_state db) of
        Ok state \<Rightarrow> mutate_state mutate ms (db\<lparr> fd_state := state \<rparr>)
      | Err e \<Rightarrow> (db, Err (MutateError e))
      | Panic \<Rightarrow> (db, Panic))"

definition mutate_db ::
  "('m \<Rightarrow> 's \<Rightarrow> ('s, 'e) res) \<Rightarrow> ('s \<Rightarrow> 'f option) \<Rightarrow> write_outcome \<Rightarrow> 'm list \<Rightarrow> 'f option \<times> 's file_db
     \<Rightarrow> ('f option \<times> 's file_db) \<times> (unit, 'e file_db_error) res" where
  "mutate_db mutate serialize w mutations fdb =
     (case mutate_state mutate mutations (snd fdb) of
        (db, Ok _) \<Rightarrow>
          (case serialize (fd_state db) of
             None \<Rightarrow> ((fst fdb, db), Err FdSerializeError)
           | Some buff \<Rightarrow> ((write_file w buff (fst fdb), db), if w = WriteOk then Ok () else Err WriteError))
      | (db, r) \<Rightarrow> ((fst fdb, db), r))"

section \<open>The task\<close>

datatype 'e database_error = AtomicDbError "'e file_db_error" | DbSpawnError

record 'm database_request =
  dr_mutations :: "'m list"
  dr_spawn :: bool
  dr_write :: write_outcome

text \<open>
  The requests so far: the file, the number of requests that were acknowledged, and the state in
  memory unless the task failed.
\<close>

fun database_loop ::
  "('m \<Rightarrow> 's \<Rightarrow> ('s, 'e) res) \<Rightarrow> ('s \<Rightarrow> 'f option) \<Rightarrow> 'm database_request list \<Rightarrow> 'f option \<times> 's file_db
     \<Rightarrow> 'f option \<times> nat \<times> ('s file_db, 'e database_error) res" where
  "database_loop mutate serialize [] fdb = (fst fdb, 0, Ok (snd fdb))"
| "database_loop mutate serialize (req # reqs) fdb =
     (if \<not> dr_spawn req then (fst fdb, 0, Err DbSpawnError)
      else
        case mutate_db mutate serialize (dr_write req) (dr_mutations req) fdb of
          (fdb', Ok _) \<Rightarrow>
            (case database_loop mutate serialize reqs fdb' of (file, n, r) \<Rightarrow> (file, Suc n, r))
        | (fdb', Err e) \<Rightarrow> (fst fdb', 0, Err (AtomicDbError e))
        | (fdb', Panic) \<Rightarrow> (fst fdb', 0, Panic))"

section \<open>What the file holds\<close>

definition requested :: "nat \<Rightarrow> 'm database_request list \<Rightarrow> 'm list" where
  "requested n reqs = concat (map dr_mutations (take n reqs))"

lemma requested_simps [simp]:
  "requested 0 reqs = []" "requested (Suc n) (req # reqs) = dr_mutations req @ requested n reqs"
  by (simp_all add: requested_def)

lemma mutate_state_Ok: "mutate_state mutate ms db = (db', Ok x) \<Longrightarrow> batch_mutate mutate ms (fd_state db) = Ok (fd_state db')"
proof (induction ms arbitrary: db)
  case (Cons m ms)
  then obtain st where "mutate m (fd_state db) = Ok st" "mutate_state mutate ms (db\<lparr> fd_state := st \<rparr>) = (db', Ok x)"
    by (auto split: res.splits)
  with Cons.IH [OF this(2)] show ?case by simp
qed simp

lemma mutate_state_of_Ok:
  "batch_mutate mutate ms (fd_state db) = Ok st \<Longrightarrow> mutate_state mutate ms db = (db\<lparr> fd_state := st \<rparr>, Ok ())"
  by (induction ms arbitrary: db) (auto simp: res_simps)

definition holds :: "('f \<Rightarrow> 's option) \<Rightarrow> 'f option \<Rightarrow> 's \<Rightarrow> bool" where
  "holds deserialize file st \<longleftrightarrow> (\<exists>buff. file = Some buff \<and> deserialize buff = Some st)"

lemma holds_load: "holds deserialize file st \<Longrightarrow> file_db_load deserialize True file = Ok \<lparr> fd_state = st \<rparr>"
  by (auto simp: holds_def file_db_load_def)

text \<open>Reading inverts writing.\<close>

definition reads_back :: "('s \<Rightarrow> 'f option) \<Rightarrow> ('f \<Rightarrow> 's option) \<Rightarrow> bool" where
  "reads_back serialize deserialize \<longleftrightarrow> (\<forall>st buff. serialize st = Some buff \<longrightarrow> deserialize buff = Some st)"

lemma holds_written: "reads_back serialize deserialize \<Longrightarrow> serialize st = Some buff \<Longrightarrow> holds deserialize (Some buff) st"
  by (simp add: holds_def reads_back_def)

text \<open>A batch is stored, or the file is as it was; it can be either when the write is what failed.\<close>

lemma mutate_db_holds:
  assumes "mutate_db mutate serialize w ms (file, db) = ((file', db'), r)" "holds deserialize file (fd_state db)"
    and codec: "reads_back serialize deserialize"
  shows "r = Ok () \<Longrightarrow> batch_mutate mutate ms (fd_state db) = Ok (fd_state db') \<and> holds deserialize file' (fd_state db')"
    and "r \<noteq> Ok () \<Longrightarrow> holds deserialize file' (fd_state db)
      \<or> r = Err WriteError \<and> (\<exists>st. batch_mutate mutate ms (fd_state db) = Ok st \<and> holds deserialize file' st)"
proof -
  obtain db1 r1 where db1: "mutate_state mutate ms db = (db1, r1)" by fastforce
  have "if r = Ok () then batch_mutate mutate ms (fd_state db) = Ok (fd_state db') \<and> holds deserialize file' (fd_state db')
    else holds deserialize file' (fd_state db)
      \<or> r = Err WriteError \<and> (\<exists>st. batch_mutate mutate ms (fd_state db) = Ok st \<and> holds deserialize file' st)"
  proof (cases r1)
    case (Ok u)
    with db1 have "batch_mutate mutate ms (fd_state db) = Ok (fd_state db1)" by (simp add: mutate_state_Ok)
    then show ?thesis using assms(1,2) db1 Ok holds_written [OF codec, of "fd_state db1"]
      by (cases "serialize (fd_state db1)") (auto simp: mutate_db_def write_file_def split: if_splits)
  qed (use assms(1,2) db1 in \<open>auto simp: mutate_db_def\<close>)
  then show "r = Ok () \<Longrightarrow> batch_mutate mutate ms (fd_state db) = Ok (fd_state db') \<and> holds deserialize file' (fd_state db')"
    and "r \<noteq> Ok () \<Longrightarrow> holds deserialize file' (fd_state db)
      \<or> r = Err WriteError \<and> (\<exists>st. batch_mutate mutate ms (fd_state db) = Ok st \<and> holds deserialize file' st)"
    by simp_all
qed

text \<open>
  The first \<open>n\<close> requests are in the file: those that were acknowledged, and perhaps one more whose
  write failed.
\<close>

lemma database_loop_holds:
  assumes codec: "reads_back serialize deserialize"
  shows "database_loop mutate serialize reqs (old, db) = (old', acked, r) \<Longrightarrow> holds deserialize old (fd_state db) \<Longrightarrow>
    \<exists>n st. (n = acked \<or> n = Suc acked \<and> n \<le> length reqs \<and> r = Err (AtomicDbError WriteError))
      \<and> batch_mutate mutate (requested n reqs) (fd_state db) = Ok st \<and> holds deserialize old' st
      \<and> (\<forall>db'. r = Ok db' \<longrightarrow> fd_state db' = st)"
proof (induction reqs arbitrary: old db acked)
  case Nil
  then show ?case by (intro exI [of _ 0]) auto
next
  case (Cons req reqs)
  obtain file1 db1 r1 where m: "mutate_db mutate serialize (dr_write req) (dr_mutations req) (old, db) = ((file1, db1), r1)"
    by (metis prod.collapse)
  note stored = mutate_db_holds [OF m Cons.prems(2) codec]
  show ?case
  proof (cases "dr_spawn req \<and> r1 = Ok ()")
    case True
    with Cons.prems(1) m obtain acked1 where rest: "database_loop mutate serialize reqs (file1, db1) = (old', acked1, r)" "acked = Suc acked1"
      by (auto split: prod.splits)
    from Cons.IH [OF rest(1)] True stored(1) obtain n st where n: "n = acked1 \<or> n = Suc acked1 \<and> n \<le> length reqs \<and> r = Err (AtomicDbError WriteError)"
      "batch_mutate mutate (requested n reqs) (fd_state db1) = Ok st" "holds deserialize old' st" "\<forall>db'. r = Ok db' \<longrightarrow> fd_state db' = st"
      by blast
    have "batch_mutate mutate (requested (Suc n) (req # reqs)) (fd_state db) = Ok st"
      using n(2) True stored(1) by (simp add: batch_mutate_append)
    then show ?thesis using n(1,3,4) rest(2) by (intro exI [of _ "Suc n"] exI [of _ st]) auto
  next
    case False
    show ?thesis
    proof (cases "dr_spawn req")
      case False
      then show ?thesis using Cons.prems by (intro exI [of _ 0]) auto
    next
      case True
      then have r1: "r1 \<noteq> Ok ()" "acked = 0" "old' = file1" "r1 = Err WriteError \<Longrightarrow> r = Err (AtomicDbError WriteError)" "\<forall>db'. r \<noteq> Ok db'"
        using False Cons.prems(1) m by (auto split: res.splits)
      show ?thesis
      proof (cases "holds deserialize old' (fd_state db)")
        case True
        then show ?thesis using r1 by (intro exI [of _ 0] exI [of _ "fd_state db"]) simp
      next
        case False
        then show ?thesis using stored(2) [OF r1(1)] r1 by (intro exI [of _ "Suc 0"]) auto
      qed
    qed
  qed
qed

text \<open>
  What the database acknowledged is on disk. Whatever requests a database task served, and
  however it ended, the file can be loaded, and holds the state that all acknowledged batches lead to
  from the state at the start; only a batch whose write was reported as failed may be in the file
  without an acknowledgement. No batch is there in part. While the task runs, the state in memory is
  the one in the file.
\<close>

lemma acknowledged_batches_durable:
  assumes "database_loop mutate serialize reqs (file, db) = (file', acked, r)"
    and "file_db_create serialize deserialize WriteOk initial_state None = (file, Ok db :: (_, 'e file_db_error) res)"
    and "reads_back serialize deserialize"
  shows "\<exists>n db'. (n = acked \<or> n = Suc acked \<and> n \<le> length reqs \<and> r = Err (AtomicDbError WriteError))
    \<and> file_db_load deserialize True file' = (Ok db' :: (_, 'e file_db_error) res)
    \<and> batch_mutate mutate (requested n reqs) initial_state = Ok (fd_state db') \<and> (\<forall>db''. r = Ok db'' \<longrightarrow> db'' = db')"
proof -
  obtain buff where buff: "serialize initial_state = Some buff" using assms(2) by (auto simp: file_db_create_def split: option.splits)
  have "holds deserialize file (fd_state db)" and initial: "fd_state db = initial_state"
    using assms(2) buff holds_written [OF assms(3) buff] by (auto simp: file_db_create_def write_file_def holds_def)
  from database_loop_holds [OF assms(3,1) this(1)] initial obtain n st where
    "n = acked \<or> n = Suc acked \<and> n \<le> length reqs \<and> r = Err (AtomicDbError WriteError)"
    "batch_mutate mutate (requested n reqs) initial_state = Ok st" "holds deserialize file' st" "\<forall>db'. r = Ok db' \<longrightarrow> fd_state db' = st"
    by blast
  then show ?thesis using holds_load [of deserialize file' st]
    by (intro exI [of _ n] exI [of _ "\<lparr> fd_state = st \<rparr>"]) (auto intro: file_db.equality)
qed

end
