(* ===== verification/NodeState.thy ===== *)
theory NodeState
  imports AppServer Database
begin

text \<open>
  The state of a node (\<open>node/src/types.rs\<close>): the state of its funder and the configuration of its index
  client, which share one database. The adapters of \<open>node/src/node.rs\<close> turn the batches of the two into
  batches of node mutations.
\<close>

section \<open>State\<close>

datatype 'b node_mutation =
    NmFunder "'b funder_mutation"
  | NmIndexClient "'b index_client_config_mutation"

record 'b node_state =
  ns_funder_state :: "'b funder_state"
  ns_index_client_config :: "'b index_client_config"

definition node_state_new :: "public_key \<Rightarrow> 'b node_state" where
  "node_state_new local_public_key =
     \<lparr> ns_funder_state = funder_state_new local_public_key [], ns_index_client_config = \<lparr> icc_index_servers = [] \<rparr> \<rparr>"

text \<open>The configuration of the index client has no mutation that fails.\<close>

fun node_mutate :: "crypto_api \<Rightarrow> ('b \<Rightarrow> bytes) \<Rightarrow> 'b node_mutation \<Rightarrow> 'b node_state \<Rightarrow> ('b node_state, unit) res" where
  "node_mutate C ser (NmFunder m) st =
     (case funder_mutate C ser (ns_funder_state st) m of
        None \<Rightarrow> Panic
      | Some funder_state \<Rightarrow> Ok (st\<lparr> ns_funder_state := funder_state \<rparr>))"
| "node_mutate C ser (NmIndexClient m) st =
     Ok (st\<lparr> ns_index_client_config := index_client_config_mutate m (ns_index_client_config st) \<rparr>)"

definition create_node_report :: "'b node_state \<Rightarrow> 'b node_report" where
  "create_node_report st =
     \<lparr> nr_funder_report = create_initial_report (ns_funder_state st),
       nr_index_client_report = create_index_client_report (ns_index_client_config st) \<rparr>"

definition funder_database_adapter :: "'b funder_mutation list \<Rightarrow> 'b node_mutation list" where
  "funder_database_adapter mutations = map NmFunder mutations"

definition index_client_database_adapter :: "'b index_client_config_mutation list \<Rightarrow> 'b node_mutation list" where
  "index_client_database_adapter mutations = map NmIndexClient mutations"

section \<open>The two parts\<close>

definition node_funder_part :: "'b node_mutation list \<Rightarrow> 'b funder_mutation list" where
  "node_funder_part ms = List.map_filter (\<lambda>m. case m of NmFunder x \<Rightarrow> Some x | NmIndexClient _ \<Rightarrow> None) ms"

definition node_index_client_part :: "'b node_mutation list \<Rightarrow> 'b index_client_config_mutation list" where
  "node_index_client_part ms = List.map_filter (\<lambda>m. case m of NmIndexClient x \<Rightarrow> Some x | NmFunder _ \<Rightarrow> None) ms"

lemma node_part_simps [simp]:
  "node_funder_part [] = []" "node_funder_part (NmFunder x # ms) = x # node_funder_part ms" "node_funder_part (NmIndexClient y # ms) = node_funder_part ms"
  "node_index_client_part [] = []" "node_index_client_part (NmFunder x # ms) = node_index_client_part ms"
  "node_index_client_part (NmIndexClient y # ms) = y # node_index_client_part ms"
  "node_funder_part (ms @ ns) = node_funder_part ms @ node_funder_part ns"
  "node_index_client_part (ms @ ns) = node_index_client_part ms @ node_index_client_part ns"
  by (simp_all add: node_funder_part_def node_index_client_part_def List.map_filter_def)

lemma node_adapter_parts [simp]:
  "node_funder_part (funder_database_adapter ms) = ms" "node_index_client_part (funder_database_adapter ms) = []"
  "node_funder_part (index_client_database_adapter ns) = []" "node_index_client_part (index_client_database_adapter ns) = ns"
  by (simp_all add: funder_database_adapter_def index_client_database_adapter_def node_funder_part_def node_index_client_part_def
      List.map_filter_def comp_def)

text \<open>However the mutations of the two are mixed, each part gets its own.\<close>

lemma node_batch:
  "batch_mutate (node_mutate C ser) ms st =
     (case funder_replay C ser (ns_funder_state st) (node_funder_part ms) of
        None \<Rightarrow> Panic
      | Some f \<Rightarrow>
          Ok \<lparr> ns_funder_state = f,
               ns_index_client_config = fold index_client_config_mutate (node_index_client_part ms) (ns_index_client_config st) \<rparr>)"
proof (induction ms arbitrary: st)
  case (Cons m ms)
  then show ?case by (cases m) (simp_all split: option.splits)
qed simp

section \<open>Properties\<close>

text \<open>
  C20: A node can be stopped and started again. Take a run of the funder and a run of the index
  client of a node, and a run of the database task over their batches, in any order of the two. What
  can be loaded from the file afterwards is the state that the funder has in memory, which is
  sound, and the configuration of the index client; a write that was reported as failed is the only
  exception.
\<close>

theorem node_restarts_from_file:
  assumes "inner_funder_loop E fio limits events (ns_funder_state st0) = Some (fs, fr)" and "\<forall>ev \<in> set events. event_ok ev"
    and "state_sound (fl_max_operations_in_batch limits) (ns_funder_state st0)" and "fr \<noteq> Some DbError"
    and "index_client_loop irounds (index_client_new (ns_index_client_config st0) friends max_open keepalive backoff) iio = Some (Inr (), ics)"
    and "file_db_create serialize deserialize WriteOk st0 None = (file, Ok db :: (_, unit file_db_error) res)"
    and "database_loop (node_mutate (env_crypto E) (env_ser E)) serialize reqs (file, db) = (file', acked, r)"
    and "reads_back serialize deserialize" and "r \<noteq> Err (AtomicDbError WriteError)"
    and "node_funder_part (requested acked reqs) = ls_database fs" and "node_index_client_part (requested acked reqs) = stored (cx_out ics)"
  shows "\<exists>st. file_db_load deserialize True file' = (Ok \<lparr> fd_state = st \<rparr> :: (_, unit file_db_error) res)
    \<and> ns_funder_state st = ls_funder_state fs \<and> state_sound (fl_max_operations_in_batch limits) (ns_funder_state st)
    \<and> mset (map address_of_named (icc_index_servers (ns_index_client_config st))) = mset (ic_index_servers ics)"
proof -
  obtain n db' where n: "n = acked \<or> n = Suc acked \<and> n \<le> length reqs \<and> r = Err (AtomicDbError WriteError)"
    "file_db_load deserialize True file' = (Ok db' :: (_, unit file_db_error) res)"
    "batch_mutate (node_mutate (env_crypto E) (env_ser E)) (requested n reqs) st0 = Ok (fd_state db')"
    using acknowledged_batches_durable [OF assms(7,6,8)] by blast
  have "funder_replay (env_crypto E) (env_ser E) (ns_funder_state st0) (ls_database fs) = Some (ls_funder_state fs)"
      "state_sound (fl_max_operations_in_batch limits) (ls_funder_state fs)"
    using loop_keeps [OF assms(1-3)] assms(4) by auto
  moreover have "mset (ic_index_servers ics) =
      mset (map address_of_named (icc_index_servers (fold index_client_config_mutate (stored (cx_out ics)) (ns_index_client_config st0))))"
    using run_invariant [OF assms(5)] by (simp add: tracks_def config_of_def)
  moreover have "fd_state db' = \<lparr> ns_funder_state = ls_funder_state fs,
      ns_index_client_config = fold index_client_config_mutate (stored (cx_out ics)) (ns_index_client_config st0) \<rparr>"
    using n(1,3) calculation(1) assms(9-11) by (auto simp: node_batch)
  ultimately show ?thesis using n(2) by (intro exI [of _ "fd_state db'"]) simp
qed

lemma example_node_database:
  assumes "funder_replay C ser (ns_funder_state st0) ms = Some f"
  shows "\<exists>st. database_loop (node_mutate C ser) Some
      [\<lparr> dr_mutations = index_client_database_adapter ns, dr_spawn = True, dr_write = WriteOk \<rparr>,
       \<lparr> dr_mutations = funder_database_adapter ms, dr_spawn = True, dr_write = WriteOk \<rparr>] (Some st0, \<lparr> fd_state = st0 \<rparr>)
    = (Some st, 2, Ok \<lparr> fd_state = st \<rparr>)"
  using assms by (simp add: mutate_db_def mutate_state_of_Ok node_batch write_file_def)

theorem node_restarts_from_file_witness:
  "\<exists>fs file' acked st. inner_funder_loop (example_env_of [1]) example_io example_limits example_loop_events example_node = Some (fs, None)
    \<and> length (ls_database fs) = 10
    \<and> file_db_load Some True file' = (Ok \<lparr> fd_state = st \<rparr> :: (nat node_state file_db, unit file_db_error) res)
    \<and> ns_funder_state st = ls_funder_state fs"
proof -
  obtain fs where fs: "inner_funder_loop (example_env_of [1]) example_io example_limits example_loop_events example_node = Some (fs, None)"
    "length (ls_database fs) = 10" using example_loop_runs by blast
  obtain ics where ics: "index_client_loop (example_ic_before @ example_ic_during) example_ic_client example_ic_io = Some (Inr (), ics)"
    using summary_Some [OF example_ic_runs(3)] by blast
  define st0 where "st0 = \<lparr> ns_funder_state = example_node, ns_index_client_config = example_ic_config \<rparr>"
  have replay: "funder_replay (env_crypto (example_env_of [1])) (env_ser (example_env_of [1])) (ns_funder_state st0) (ls_database fs)
      = Some (ls_funder_state fs)"
    using loop_keeps [OF fs(1) example_events_ok example_node_sound] by (auto simp: st0_def)
  obtain st where run: "database_loop (node_mutate (env_crypto (example_env_of [1])) (env_ser (example_env_of [1]))) Some
      [\<lparr> dr_mutations = index_client_database_adapter (stored (cx_out ics)), dr_spawn = True, dr_write = WriteOk \<rparr>,
       \<lparr> dr_mutations = funder_database_adapter (ls_database fs), dr_spawn = True, dr_write = WriteOk \<rparr>]
      (Some st0, \<lparr> fd_state = st0 \<rparr>) = (Some st, 2, Ok \<lparr> fd_state = st \<rparr>)"
    using example_node_database [OF replay] by blast
  have created: "file_db_create Some Some WriteOk st0 None = (Some st0, Ok \<lparr> fd_state = st0 \<rparr> :: (_, unit file_db_error) res)"
    by (simp add: file_db_create_def write_file_def)
  have parts: "ns_funder_state st0 = example_node" "ns_index_client_config st0 = example_ic_config" by (simp_all add: st0_def)
  have "\<exists>st'. file_db_load Some True (Some st) = (Ok \<lparr> fd_state = st' \<rparr> :: (_, unit file_db_error) res) \<and> ns_funder_state st' = ls_funder_state fs"
    using node_restarts_from_file [OF fs(1) [folded parts(1)] example_events_ok example_node_sound [folded parts(1)] _
        ics [unfolded example_ic_client_def, folded parts(2)] created run]
    by (auto simp: reads_back_def numeral_2_eq_2)
  then show ?thesis using fs by blast
qed

end
