(* ===== verification/Services.thy ===== *)
theory Services
  imports Database
begin

text \<open>
  Shared tasks of \<open>common/src\<close>: \<open>state_service.rs\<close> hands out a state and its further mutations,
  \<open>multi_consumer.rs\<close> copies a stream to several consumers, and \<open>transform_pool.rs\<close> runs a limited number
  of conversions at a time.

  Clients are numbered in the order of their requests. An event says whether a response was taken,
  and which clients take an item that is sent to all.
\<close>

section \<open>Senders\<close>

text \<open>The loop over the senders: an item is recorded for each client that takes it, and only those are kept.\<close>

definition send_to_all :: "(nat \<Rightarrow> bool) \<Rightarrow> 'i \<Rightarrow> nat list \<Rightarrow> (nat \<times> 'i) list \<times> nat list" where
  "send_to_all takes item senders = (map (\<lambda>c. (c, item)) (filter takes senders), filter takes senders)"

definition sent_to :: "nat \<Rightarrow> (nat \<times> 'i) list \<Rightarrow> 'i list" where
  "sent_to c out = map snd (filter (\<lambda>m. fst m = c) out)"

lemma sent_to_simps [simp]:
  "sent_to c [] = []" "sent_to c (out @ out') = sent_to c out @ sent_to c out'"
  "sent_to c ((d, item) # out) = (if d = c then item # sent_to c out else sent_to c out)"
  by (simp_all add: sent_to_def)

lemma sent_to_all:
  "distinct cs \<Longrightarrow> sent_to c (map (\<lambda>c. (c, item)) (filter takes cs)) = (if c \<in> set cs \<and> takes c then [item] else [])"
  by (induction cs) auto

section \<open>A state and its mutations\<close>

datatype ('s, 'm) state_message = SmState 's | SmMutation 'm

datatype 'm state_event =
    SvIncomingRequest bool
  | SvIncomingRequestsClosed
  | SvIncomingMutation 'm "nat \<Rightarrow> bool"
  | SvIncomingMutationsClosed

record ('s, 'm) state_service =
  sv_state :: 's
  sv_senders :: "nat list"
  sv_incoming_requests_closed :: bool
  sv_clients :: nat
  sv_out :: "(nat \<times> ('s, 'm) state_message) list"

definition state_service_new :: "'s \<Rightarrow> ('s, 'm) state_service" where
  "state_service_new state =
     \<lparr> sv_state = state, sv_senders = [], sv_incoming_requests_closed = False, sv_clients = 0, sv_out = [] \<rparr>"

definition state_service_step ::
  "('m \<Rightarrow> 's \<Rightarrow> ('s, 'e) res) \<Rightarrow> 'm state_event \<Rightarrow> ('s, 'm) state_service \<Rightarrow> (('s, 'm) state_service loop_flow, 'e) res" where
  "state_service_step mutate e s =
     (case e of
        SvIncomingRequest taken \<Rightarrow>
          Ok (Next (if taken
            then s\<lparr> sv_senders := sv_senders s @ [sv_clients s], sv_clients := sv_clients s + 1,
                    sv_out := sv_out s @ [(sv_clients s, SmState (sv_state s))] \<rparr>
            else s))
      | SvIncomingRequestsClosed \<Rightarrow> Ok (Next (s\<lparr> sv_incoming_requests_closed := True \<rparr>))
      | SvIncomingMutation mutation takes \<Rightarrow>
          res_bind (mutate mutation (sv_state s)) (\<lambda>state.
            let (sent, new_senders) = send_to_all takes (SmMutation mutation) (sv_senders s);
                s = s\<lparr> sv_state := state, sv_senders := new_senders, sv_out := sv_out s @ sent \<rparr>
            in Ok (if new_senders = [] \<and> sv_incoming_requests_closed s then Break s else Next s))
      | SvIncomingMutationsClosed \<Rightarrow> Ok (Break s))"

fun state_service_rounds ::
  "('m \<Rightarrow> 's \<Rightarrow> ('s, 'e) res) \<Rightarrow> 'm state_event list \<Rightarrow> ('s, 'm) state_service \<Rightarrow> (('s, 'm) state_service loop_flow, 'e) res" where
  "state_service_rounds mutate [] s = Ok (Next s)"
| "state_service_rounds mutate (e # es) s =
     res_bind (state_service_step mutate e s) (\<lambda>flow.
       case flow of Break s \<Rightarrow> Ok (Break s) | _ \<Rightarrow> state_service_rounds mutate es (flow_state flow))"

text \<open>What a client makes of its messages.\<close>

fun client_state :: "('m \<Rightarrow> 's \<Rightarrow> ('s, 'e) res) \<Rightarrow> ('s, 'm) state_message list \<Rightarrow> 's option \<Rightarrow> 's option" where
  "client_state mutate [] st = st"
| "client_state mutate (SmState st # ms) _ = client_state mutate ms (Some st)"
| "client_state mutate (SmMutation m # ms) st =
     client_state mutate ms (Option.bind st (\<lambda>st. case mutate m st of Ok st' \<Rightarrow> Some st' | _ \<Rightarrow> None))"

lemma client_state_append: "client_state mutate (ms @ ns) st = client_state mutate ns (client_state mutate ms st)"
  by (induction mutate ms st rule: client_state.induct) simp_all

definition clients_follow :: "('m \<Rightarrow> 's \<Rightarrow> ('s, 'e) res) \<Rightarrow> ('s, 'm) state_service \<Rightarrow> bool" where
  "clients_follow mutate s \<longleftrightarrow>
     distinct (sv_senders s) \<and> (\<forall>c \<in> set (sv_senders s). c < sv_clients s) \<and> (\<forall>c \<ge> sv_clients s. sent_to c (sv_out s) = [])
     \<and> (\<forall>c \<in> set (sv_senders s). client_state mutate (sent_to c (sv_out s)) None = Some (sv_state s))"

lemma state_step_follows:
  assumes "clients_follow mutate s" "state_service_step mutate e s = Ok f"
  shows "clients_follow mutate (flow_state f)"
proof (cases e)
  case (SvIncomingRequest taken)
  then show ?thesis using assms
    by (cases taken)
       (auto simp: state_service_step_def clients_follow_def client_state_append less_Suc_eq)
next
  case (SvIncomingMutation m takes)
  then obtain st where "mutate m (sv_state s) = Ok st" using assms(2) by (auto simp: state_service_step_def res_simps)
  moreover from this have "flow_state f = s\<lparr> sv_state := st, sv_senders := filter takes (sv_senders s),
      sv_out := sv_out s @ map (\<lambda>c. (c, SmMutation m)) (filter takes (sv_senders s)) \<rparr>"
    using assms(2) SvIncomingMutation by (auto simp: state_service_step_def send_to_all_def Let_def)
  ultimately show ?thesis using assms(1)
    by (auto simp: clients_follow_def sent_to_all client_state_append)
qed (use assms in \<open>auto simp: state_service_step_def clients_follow_def\<close>)

text \<open>
  Every client that is still served has, by the state it was given and the mutations it was sent
  since, the current state.
\<close>

lemma state_clients_follow:
  "clients_follow mutate s \<Longrightarrow> state_service_rounds mutate es s = Ok f \<Longrightarrow> clients_follow mutate (flow_state f)"
proof (induction es arbitrary: s)
  case (Cons e es)
  obtain g where g: "state_service_step mutate e s = Ok g" using Cons.prems(2) by (auto simp: res_simps)
  note follows = state_step_follows [OF Cons.prems(1) g]
  show ?case using Cons.IH [OF follows] Cons.prems(2) g follows by (cases g) auto
qed auto

lemma new_clients_follow: "clients_follow mutate (state_service_new state)"
  by (simp add: clients_follow_def state_service_new_def)

section \<open>Copies of a stream\<close>

datatype 't consumer_event =
    McIncomingItem 't "nat \<Rightarrow> bool"
  | McIncomingItemsClosed
  | McIncomingRequest bool
  | McIncomingRequestsClosed

record 't multi_consumer =
  mcs_senders :: "nat list"
  mcs_incoming_requests_closed :: bool
  mcs_clients :: nat
  mcs_out :: "(nat \<times> 't) list"

definition multi_consumer_new :: "'t multi_consumer" where
  "multi_consumer_new = \<lparr> mcs_senders = [], mcs_incoming_requests_closed = False, mcs_clients = 0, mcs_out = [] \<rparr>"

definition multi_consumer_step :: "'t consumer_event \<Rightarrow> 't multi_consumer \<Rightarrow> 't multi_consumer loop_flow" where
  "multi_consumer_step e s =
     (case e of
        McIncomingItem t takes \<Rightarrow>
          (let (sent, new_senders) = send_to_all takes t (mcs_senders s);
               s = s\<lparr> mcs_senders := new_senders, mcs_out := mcs_out s @ sent \<rparr>
           in if new_senders = [] \<and> mcs_incoming_requests_closed s then Break s else Next s)
      | McIncomingItemsClosed \<Rightarrow> Break s
      | McIncomingRequest taken \<Rightarrow>
          Next (if taken then s\<lparr> mcs_senders := mcs_senders s @ [mcs_clients s], mcs_clients := mcs_clients s + 1 \<rparr> else s)
      | McIncomingRequestsClosed \<Rightarrow> Next (s\<lparr> mcs_incoming_requests_closed := True \<rparr>))"

fun multi_consumer_service :: "'t consumer_event list \<Rightarrow> 't multi_consumer \<Rightarrow> 't multi_consumer loop_flow" where
  "multi_consumer_service [] s = Next s"
| "multi_consumer_service (e # es) s =
     (case multi_consumer_step e s of Break s \<Rightarrow> Break s | flow \<Rightarrow> multi_consumer_service es (flow_state flow))"

fun consumer_items :: "'t consumer_event list \<Rightarrow> 't list" where
  "consumer_items [] = []"
| "consumer_items (McIncomingItem t takes # es) = t # consumer_items es"
| "consumer_items (e # es) = consumer_items es"

definition senders_ok :: "'t multi_consumer \<Rightarrow> bool" where
  "senders_ok s \<longleftrightarrow> distinct (mcs_senders s) \<and> (\<forall>c \<in> set (mcs_senders s). c < mcs_clients s)"

text \<open>A consumer that is dropped does not come back, and one that stays gets every item.\<close>

lemma consumer_step:
  assumes "senders_ok s" "c < mcs_clients s" "multi_consumer_step e s = Next s'"
  shows "senders_ok s' \<and> c < mcs_clients s' \<and> (c \<in> set (mcs_senders s') \<longrightarrow> c \<in> set (mcs_senders s))
    \<and> (c \<in> set (mcs_senders s') \<longrightarrow> sent_to c (mcs_out s') = sent_to c (mcs_out s) @ consumer_items [e])"
  using assms
  by (cases e) (auto simp: multi_consumer_step_def senders_ok_def send_to_all_def sent_to_all Let_def less_Suc_eq split: if_splits)

lemma consumers_get_all_items:
  "senders_ok s \<Longrightarrow> c < mcs_clients s \<Longrightarrow> multi_consumer_service es s = Next s' \<Longrightarrow> c \<in> set (mcs_senders s') \<Longrightarrow>
     c \<in> set (mcs_senders s) \<and> sent_to c (mcs_out s') = sent_to c (mcs_out s) @ consumer_items es"
proof (induction es arbitrary: s)
  case (Cons e es)
  then obtain s1 where s1: "multi_consumer_step e s = Next s1"
    by (cases e) (auto simp: multi_consumer_step_def Let_def send_to_all_def split: if_splits)
  note step = consumer_step [OF Cons.prems(1,2) s1]
  have "consumer_items (e # es) = consumer_items [e] @ consumer_items es" by (cases e) simp_all
  then show ?case using Cons.IH [of s1] Cons.prems(3,4) s1 step by auto
qed simp

section \<open>A pool of conversions\<close>

datatype 'i pool_event = PoolIncoming 'i bool | PoolIncomingClosed | PoolTransformDone

record 'i transform_pool =
  tp_num_concurrent :: nat
  tp_incoming_closed :: bool
  tp_spawned :: "'i list"

datatype transform_pool_error = TpSpawnError

definition transform_pool_step ::
  "nat \<Rightarrow> 'i pool_event \<Rightarrow> 'i transform_pool \<Rightarrow> ('i transform_pool loop_flow, transform_pool_error) res" where
  "transform_pool_step max_concurrent e s =
     (case e of
        PoolIncoming input_value spawn \<Rightarrow>
          if max_concurrent \<le> tp_num_concurrent s then Ok (Continue s)
          else if \<not> spawn then Err TpSpawnError
          else Ok (Next (s\<lparr> tp_num_concurrent := tp_num_concurrent s + 1, tp_spawned := tp_spawned s @ [input_value] \<rparr>))
      | PoolIncomingClosed \<Rightarrow> Ok (Next (s\<lparr> tp_incoming_closed := True \<rparr>))
      | PoolTransformDone \<Rightarrow>
          if tp_num_concurrent s = 0 then Panic else Ok (Next (s\<lparr> tp_num_concurrent := tp_num_concurrent s - 1 \<rparr>)))"

fun transform_pool_rounds ::
  "nat \<Rightarrow> 'i pool_event list \<Rightarrow> 'i transform_pool \<Rightarrow> ('i transform_pool loop_flow, transform_pool_error) res" where
  "transform_pool_rounds max_concurrent [] s = Ok (Next s)"
| "transform_pool_rounds max_concurrent (e # es) s =
     res_bind (transform_pool_step max_concurrent e s) (\<lambda>flow.
       case flow of
         Continue s \<Rightarrow> transform_pool_rounds max_concurrent es s
       | Next s \<Rightarrow>
           if tp_incoming_closed s \<and> tp_num_concurrent s = 0 then Ok (Break s) else transform_pool_rounds max_concurrent es s
       | Break s \<Rightarrow> Ok (Break s))"

definition transform_pool_loop ::
  "nat \<Rightarrow> 'i pool_event list \<Rightarrow> ('i transform_pool loop_flow, transform_pool_error) res" where
  "transform_pool_loop max_concurrent es =
     transform_pool_rounds max_concurrent es \<lparr> tp_num_concurrent = 0, tp_incoming_closed = False, tp_spawned = [] \<rparr>"

definition done_count :: "'i pool_event list \<Rightarrow> nat" where
  "done_count es = length (filter (\<lambda>e. case e of PoolTransformDone \<Rightarrow> True | _ \<Rightarrow> False) es)"

lemma done_count_simps [simp]:
  "done_count [] = 0" "done_count (PoolTransformDone # es) = Suc (done_count es)"
  "done_count (PoolIncoming i b # es) = done_count es" "done_count (PoolIncomingClosed # es) = done_count es"
  by (simp_all add: done_count_def)

lemma pool_rounds_bounded:
  "transform_pool_rounds k es s = Ok f \<Longrightarrow> tp_num_concurrent s \<le> k \<Longrightarrow>
     tp_num_concurrent (flow_state f) \<le> k
     \<and> (\<forall>s'. f = Next s' \<longrightarrow>
          length (tp_spawned s') + tp_num_concurrent s = length (tp_spawned s) + tp_num_concurrent s' + done_count es)"
proof (induction es arbitrary: s)
  case (Cons e es)
  then show ?case
    by (cases e) (fastforce simp: transform_pool_step_def split: if_splits)+
qed auto

text \<open>
  No more than \<open>max_concurrent\<close> conversions run at a time, and the count is that of the conversions
  which were started and have not reported their end.
\<close>

lemma transform_pool_bounded:
  assumes "transform_pool_loop max_concurrent es = Ok (Next s)"
  shows "tp_num_concurrent s \<le> max_concurrent \<and> tp_num_concurrent s + done_count es = length (tp_spawned s)"
  using pool_rounds_bounded [OF assms [unfolded transform_pool_loop_def]] by auto

end
