(* ===== verification/Spec2Isabelle.thy ===== *)
theory Spec2Isabelle
  imports Funder MultiRoute IndexClient NonceWindow ChannelRun Channeler OverwriteChannel AppRequests
    RelayClient Keepalive NodeState Services
begin

text \<open>
  A verification of Offst, a decentralized payment system (Rust, \<open>src/components\<close>).

  \<^bold>\<open>The program.\<close> Two friends keep a mutual credit: a balance, two limits on debt, and the
  payments that are frozen on the way. They change it in turns: the one who holds the token
  queues operations, signs a move token message that carries them, and sends it; the other
  verifies the message, applies the operations and becomes the holder. A payment is requested
  along a route of friends, answered with a signed response by the destination, and collected
  with two hash lock preimages, after which the payer can show a receipt. Index servers collect
  signed updates about the capacities of friendships, prove to one another that they are
  recent, and answer requests for routes.

  \<^bold>\<open>The theories.\<close>
  \<^item> \<open>Prelude\<close>: machine integers as words, outcomes (a value, an error, a panic), hash maps.
  \<^item> \<open>SafeArith\<close>: \<open>common/src/safe_arithmetic.rs\<close>, arithmetic that mixes signed and unsigned
    integers, against integer arithmetic.
  \<^item> \<open>Messages\<close>: routes, operations, move tokens, rates (\<open>proto/src/funder/messages.rs\<close>) and the
    credit calculator (\<open>funder/src/credit_calc.rs\<close>); validity of routes, bounds of rates.
  \<^item> \<open>SignatureBuff\<close>: canonical serialization and the signed byte strings
    (\<open>proto/src/funder/signature_buff.rs\<close>); what signatures, receipts and commits bind.
  \<^item> \<open>MutualCredit\<close>, \<open>McIncoming\<close>, \<open>McOutgoing\<close>: \<open>funder/src/mutual_credit\<close>. The state is the
    record \<open>mutual_credit\<close>; mutations are applied by \<open>mc_mutate\<close>; \<open>process_operation\<close> handles a
    received operation and \<open>queue_operation\<close> an operation to be sent, every error of the code
    being a value.
  \<^item> \<open>Ledger\<close>: the specification. A ledger has a balance, limits and frozen payments of one side;
    \<open>ledger_step\<close> says what each operation does to it. The locale \<open>ledger_impl\<close> is the contract of
    an implementation, interpreted on \<open>process_operation\<close> and on \<open>queue_operation\<close>; the locale
    \<open>ledger_pair\<close> is the contract of a sender and a receiver, interpreted in \<open>McMirror\<close>.
  \<^item> \<open>McMirror\<close>: operations that one side queued are accepted by the other side, and leave the
    two ends mirror images of each other, unless the batch disables requests twice; the batch as
    the sender really fills it, and when the other side refuses it; limits, collection, cancellation, receipts.
  \<^item> \<open>TokenChannel\<close>: \<open>funder/src/token_channel.rs\<close> and the token constructors of
    \<open>funder/src/types.rs\<close>.
  \<^item> \<open>ChannelProtocol\<close>: the two ends of a channel with messages in transit, as an inductive step
    relation in which the ends send any batch the sender can fill, and the current token of an end
    may be lost, delayed or repeated; in every reachable state the ends agree, and a token is
    refused exactly when its batch was not sound. Assumed are ordered connections and tokens that
    never repeat.
  \<^item> \<open>FunderState\<close>: \<open>funder/src/friend.rs\<close> and \<open>funder/src/state.rs\<close>, the state of a funder
    and its mutations, and its well-formedness.
  \<^item> \<open>Report\<close>: liveness and ephemeral state (\<open>funder/src/liveness.rs\<close>, \<open>ephemeral.rs\<close>), the report an
    application keeps (\<open>proto/src/report/messages.rs\<close>) and the translation of mutations to report
    mutations (\<open>funder/src/report.rs\<close>): applied to a report of the old state they give a report of
    the new one.
  \<^item> \<open>Actions\<close>: statements with early returns and panics over a context, and what it means that
    they keep a relation between the contexts before and after (locale \<open>context_order\<close>).
  \<^item> \<open>HandlerState\<close>: the context of the handlers, i.e. the recorded state
    (\<open>handler/state_wrap.rs\<close>), send commands, control and outgoing messages, and the searches of
    \<open>handler/utils.rs\<close>.
  \<^item> \<open>FunderSteps\<close>: the specification of the handlers. A step relation \<open>atomic\<close> lists the groups of
    mutations that belong together with the condition for each; every step keeps the keys, the
    credit lines and the count of transactions of a payment. \<open>moved\<close> says that a handler acts by
    such steps and records them; it interprets \<open>context_order\<close>.
  \<^item> \<open>Canceler\<close>, \<open>Sender\<close>, \<open>HandleFriend\<close>, \<open>HandleControl\<close>, \<open>FunderHandler\<close>: the handlers of
    \<open>funder/src/handler\<close>, function by function, each shown to move the state by atomic steps. In
    \<open>Sender\<close> the batches are filled as \<open>McMirror\<close> says, and the credit lines of the batches under construction stay in step with the channels.
  \<^item> \<open>HandlerProperties\<close>: channel resets, forwarding and its fee, invoices, and two ways in which
    the handlers go wrong.
  \<^item> \<open>Funder\<close>: the main loop (\<open>funder/src/funder.rs\<close>). Whatever arrives, the state stays sound, the
    database can restore it, and the reports sent to applications describe it.
  \<^item> \<open>Bfs\<close>, \<open>CapacityGraph\<close>: \<open>index_server/src/graph\<close>. The search for routes terminates and finds
    a shortest one; the graph service refines an abstract map of edges (locale
    \<open>capacity_store\<close>); edges age and expire; rates add up (locale \<open>linear_rate\<close>).
  \<^item> \<open>Verifier\<close>: \<open>index_server/src/verifier\<close>, the hash clock and the ratchets; no message is
    accepted twice in a session, and time proofs are accepted where they lead back to. The locale
    \<open>verifier_contract\<close> is the trait.
  \<^item> \<open>IndexServer\<close>: messages and signatures of \<open>proto/src/index_server\<close>, and the handlers of
    \<open>index_server/src/server.rs\<close> for any verifier that keeps the contract (locale
    \<open>index_server_contract\<close>), interpreted on the simple verifier.
  \<^item> \<open>SeqMap\<close>: \<open>index_client/src/seq_map.rs\<close> and \<open>seq_friends.rs\<close>, the friends an index client
    announces in turn; a full cycle announces each of them.
  \<^item> \<open>SingleClient\<close>: \<open>index_client/src/single_client.rs\<close>, a session of an index client; the server
    applies its updates.
  \<^item> \<open>IndexClient\<close>: \<open>index_client/src/index_client.rs\<close>, the main loop of an index client over the two
    theories before, with its messages and its report. The report of the applications follows the
    database, every request for routes has one answer, keepalives are sent in time, and a new
    connection announces every friend.
  \<^item> \<open>MultiRoute\<close>: \<open>stctrl/src/multi_route_util.rs\<close>, how a payment is divided over several routes.
  \<^item> \<open>NonceWindow\<close>: \<open>crypto/src/nonce_window.rs\<close>, a bit vector that implements a set of nonces.
  \<^item> \<open>SecureChannel\<close>: the encrypted channel between two nodes, i.e. encryption with counted nonces and
    key derivation (\<open>crypto/src/sym_encrypt.rs\<close>, \<open>dh.rs\<close>), the key exchange and rekeying
    (\<open>secure_channel/src/state.rs\<close>) and the task of a channel (\<open>secure_channel.rs\<close>).
  \<^item> \<open>ChannelRun\<close>: two such tasks with frames in transit. Every frame can be read, whenever either
    end or both start a new key; what an exchange authenticates and what it does not; the frames
    that stop a task.
  \<^item> \<open>ConnectPool\<close>, \<open>ListenPool\<close>: \<open>channeler/src/connect_pool.rs\<close>, \<open>listen_pool.rs\<close> and
    \<open>listen_pool_state.rs\<close>, how the channeler reaches a friend over relays and lets friends in. The
    access control of every listener is that of its relay; the connect pool tries all addresses
    in turn, unless a configuration arrives while one of them is tried.
  \<^item> \<open>Channeler\<close>: \<open>channeler/src/channeler.rs\<close>, the table of friends with the pools behind it. The
    table follows the friends the funder added and removed, and a friend is either reached by a
    connect pool or let in by the listen pool; a connection that a second one replaced still takes
    the friend down when it closes.
  \<^item> \<open>OverwriteChannel\<close>: \<open>channeler/src/overwrite_channel.rs\<close>, a buffer of one item between a sender and
    a slower receiver; what comes out is a subsequence that ends with the newest item.
  \<^item> \<open>IndexMutations\<close>: \<open>proto/src/report/convert.rs\<close>, from the mutations of a report to those an index
    client announces. The capacity that is announced for a friend can be spent on its channel.
  \<^item> \<open>AppServer\<close>: \<open>app_server/src/server.rs\<close>, the server between the applications of a node, its funder and
    its index client. It is composed with the main loops of \<open>Funder\<close> and \<open>IndexClient\<close>: every
    application with the permission sees the state of the node, after any events.
  \<^item> \<open>AppRequests\<close>: the requests of applications through that server: the permissions, which
    application gets an answer, and two defects in how requests are answered.
  \<^item> \<open>RelayServer\<close>: \<open>relay/src/server/server.rs\<close>, the server that joins a node with a listener. For each
    pair of keys it refines a small machine, whatever other nodes do.
  \<^item> \<open>RelayClient\<close>: the first messages at a relay (\<open>conn_processor.rs\<close>) and the two clients of a relay
    (\<open>relay/src/client\<close>). A tunnel needs a request of the one side, and the consent of the access
    control of the other.
  \<^item> \<open>Keepalive\<close>: \<open>keepalive/src/keepalive.rs\<close>, one end and two ends with frames in transit. The ends do
    not give each other up while frames are delivered in time, the users keep reading and
    \<open>keepalive_ticks\<close> is at least 2.
  \<^item> \<open>Database\<close>: \<open>database/src\<close>, the file of a node and the task that serves it. What was acknowledged is on
    disk, however the task ends.
  \<^item> \<open>NodeState\<close>: \<open>node/src/types.rs\<close>, the state of the funder and of the index client in one database.
    Composed with the main loops of the two: what is loaded from the file is what they had.
  \<^item> \<open>Services\<close>: \<open>state_service.rs\<close>, \<open>multi_consumer.rs\<close> and \<open>transform_pool.rs\<close> of \<open>common/src\<close>.

  \<^bold>\<open>Conventions.\<close> A \<open>Result\<close> is a value of \<open>res\<close>, with \<open>Panic\<close> for a failed \<open>unwrap\<close>, \<open>assert!\<close>
  or \<open>unreachable!\<close>, and for an integer operation that overflows where the code does not check it
  (as in builds with overflow checks). \<open>usize\<close> values are natural numbers. Hash maps are
  association lists whose order stands for the iteration order; the theorems hold for every
  order. The loops of the breadth first search are partial functions whose divergence is a
  value, and are proved to return; \<open>overwrite_poll\<close> recurses on a measure of what is left to
  receive; every other loop is structural recursion, so no fuel is used.
  Hashing and signature verification are the fields of \<open>crypto_api\<close>, an argument; random values
  and the behaviour of bounded channels are arguments as well.

  \<^bold>\<open>Panics.\<close> The handlers can panic, some of them on what a friend or an application sends; the
  theorems about the main loop speak of the states it reaches while it runs. Single handlers are
  proved to return where they do: forwarding, the answer of a destination, channel resets and the
  acceptance of move tokens.

  \<^bold>\<open>Not modelled.\<close> The parts that are I/O or glue between the components above: sockets and the
  start-up of servers, timers, the identity service (it passes each request to the key and each
  answer back), the serialization by Cap'n Proto (its accessors are generated by the build and are
  not in the repository), and the command line programs apart from the division of payments. The
  frame codec, the wait spawner and the legacy freeze guard are not compiled into their crates. The
  functions of the cryptographic library and of \<open>bincode\<close> are parameters; writing a file is atomic.
\<close>

section \<open>From the graph to the payment\<close>

text \<open>
  C34: A request for routes is always answered, under the identifier of the request. Each offered
  route leads from the source to the destination over distinct nodes, does not use the excluded
  edge, and carries the requested capacity. It is a route that a funder accepts exactly when it
  has no more than \<open>MAX_ROUTE_LEN\<close> nodes: the search does not bound the length.
\<close>

theorem offered_routes_usable:
  "\<exists>resp. handle_request_routes rr g = Some (Ok (IscResponseRoutes resp)) \<and> rsr_request_id resp = rr_request_id rr
    \<and> (\<forall>mr \<in> set (rsr_multi_routes resp). \<forall>r \<in> set (mr_routes mr).
        let pks = public_keys (rcr_route r) in
        usable_path g (rr_capacity rr) (rr_opt_exclude rr) (rr_source rr) (rr_destination rr) pks
        \<and> distinct pks \<and> rr_capacity rr \<le> rcr_capacity r
        \<and> (route_is_valid (rcr_route r) \<longleftrightarrow> length pks \<le> MAX_ROUTE_LEN))"
proof (cases rule: multi_route_cases [of rate_zero rate_checked_add g "rr_source rr" "rr_destination rr" "rr_capacity rr" "rr_opt_exclude rr"])
  case none
  then show ?thesis by (simp add: handle_request_routes_def get_multi_routes_def option_to_vec_def)
next
  case (found p)
  have p: "usable_path g (rr_capacity rr) (rr_opt_exclude rr) (rr_source rr) (rr_destination rr) p" "distinct p"
      "rr_source rr \<noteq> rr_destination rr"
    using found(1) by (simp_all add: shortest_path_def)
  have "route_is_valid \<lparr> public_keys = p \<rparr> \<longleftrightarrow> length p \<le> MAX_ROUTE_LEN"
    using p(2) usable_path_long [OF p(1,3)] route_valid_of_distinct [of p] by simp
  then show ?thesis using p found(2) usable_path_capacity [OF p(1,3)]
    by (cases "get_route_rate rate_zero rate_checked_add g p")
       (simp_all add: handle_request_routes_def get_multi_routes_def option_to_vec_def route_of_graph_def)
qed

definition example_routes_request :: request_routes where
  "example_routes_request = \<lparr> rr_request_id = [3], rr_capacity = 8, rr_source = [7], rr_destination = [8], rr_opt_exclude = None \<rparr>"

definition example_announced :: "(public_key, rate) simple_capacity_graph" where
  "example_announced = fold graph_step
     [GrUpdateEdge [7] [8] (example_edge 10 20 0), GrUpdateEdge [8] [7] (example_edge 30 9 0)] simple_capacity_graph_new"

lemma example_offered:
  "handle_request_routes example_routes_request example_announced = Some (Ok (IscResponseRoutes
     \<lparr> rsr_request_id = [3], rsr_multi_routes = [\<lparr> mr_routes = [\<lparr> rcr_route = \<lparr> public_keys = [[7], [8]] \<rparr>,
         rcr_capacity = 9, rcr_rate = rate_zero \<rparr>] \<rparr>] \<rparr>))"
  by code_simp

theorem offered_routes_usable_witness:
  "usable_path example_announced 8 None [7] [8] [[7], [8]] \<and> route_is_valid \<lparr> public_keys = [[7], [8]] \<rparr>"
  using offered_routes_usable [of example_routes_request example_announced]
  unfolding example_offered by (simp add: example_routes_request_def MAX_ROUTE_LEN_def Let_def)

end
